(* ===== verification/Prelude.thy ===== *)
theory Prelude
  imports Main "HOL-Library.Word"
begin

text \<open>
  Shared vocabulary of the development: the machine integers of the C sources, the
  arithmetic of checked budgets, the success/failure steps in which the parsers are
  written, and the rules that carry the component proofs.

  The model fixes the LP64 data model: \<open>size_t\<close> and \<open>uintptr_t\<close> are 64 bits wide.
  Two renderings of \<open>size_t\<close> are used. Where the code computes with file coordinates
  and checks for wrap-around the value is a \<open>64 word\<close>; where a routine only counts
  positions inside one list it is a \<open>nat\<close>, with every \<open>SIZE_MAX\<close> check of the code
  written out against \<open>size_max\<close>.
\<close>

unbundle bit_operations_syntax

section \<open>Machine integers\<close>

type_synonym u8 = "8 word"
type_synonym u16 = "16 word"
type_synonym u32 = "32 word"
type_synonym u64 = "64 word"

text \<open>An address; the null pointer is address 0. A memory gives every address its byte.\<close>

type_synonym pointer = u64
type_synonym memory = "pointer \<Rightarrow> u8"

abbreviation SIZE_MAX :: u64 where "SIZE_MAX \<equiv> 0xFFFFFFFFFFFFFFFF"
abbreviation UINT64_MAX :: u64 where "UINT64_MAX \<equiv> 0xFFFFFFFFFFFFFFFF"
abbreviation size_max :: nat where "size_max \<equiv> 18446744073709551615"
abbreviation INT_MAX :: int where "INT_MAX \<equiv> 2147483647"

named_theorems step_inv_intros
  \<open>preservation of a state property by the composite steps\<close>
named_theorems step_success
  \<open>what a successful composite step says of its parts\<close>

section \<open>Words and their values\<close>

lemmas word_to_nat = word_le_nat_alt word_less_nat_alt

lemma word_eq_nat: "a = b \<longleftrightarrow> unat a = unat b"
  for a b :: "'a::len word"
  by (simp add: word_unat_eq_iff)

lemma unat_diff_le [simp]: "b \<le> a \<Longrightarrow> unat (a - b) = unat a - unat b"
  for a b :: "'a::len word"
  by (rule unat_sub)

lemma unat_add_fits:
  fixes a b :: "'a::len word"
  assumes "unat a + unat b < 2 ^ LENGTH('a)"
  shows "unat (a + b) = unat a + unat b"
  using assms by (simp add: unat_add_lem)

text \<open>
  The comparison every work, byte and cardinality cap of the parsers makes,
  \<open>amount > limit - used\<close>, admits exactly the amounts whose sum with what is used stays
  within the limit, and then the addition does not wrap.
\<close>

lemma charge_iff:
  fixes used limit amount :: "'a::len word"
  assumes "used \<le> limit"
  shows "amount \<le> limit - used \<longleftrightarrow> unat used + unat amount \<le> unat limit"
  using assms by (auto simp: word_to_nat)

lemma charge_value:
  fixes used limit amount :: "'a::len word"
  assumes "used \<le> limit" and "amount \<le> limit - used"
  shows "unat (used + amount) = unat used + unat amount"
proof -
  have "unat used + unat amount \<le> unat limit"
    using assms by (simp add: charge_iff)
  moreover have "unat limit < 2 ^ LENGTH('a)" by simp
  ultimately show ?thesis by (intro unat_add_fits) linarith
qed

lemma charge_within:
  fixes used limit amount :: "'a::len word"
  assumes "used \<le> limit" and "amount \<le> limit - used"
  shows "used + amount \<le> limit"
  using assms charge_value [OF assms] by (simp add: charge_iff word_le_nat_alt)

lemma charge_monotone:
  fixes used limit amount :: "'a::len word"
  assumes "used \<le> limit" and "amount \<le> limit - used"
  shows "used \<le> used + amount"
  using charge_value [OF assms] by (simp add: word_le_nat_alt)

text \<open>
  Shifting a field above a narrower one and joining them with \<open>|\<close> is positional notation;
  masking with an all-ones pattern is the remainder.
\<close>

lemma nat_shift_or:
  fixes x y :: nat
  assumes "y < 2 ^ k"
  shows "push_bit k x OR y = x * 2 ^ k + y"
proof -
  have "push_bit k x OR take_bit k y = push_bit k x + take_bit k y"
    by (rule disjunctive_add [symmetric]) (auto simp: bit_simps)
  with assms show ?thesis by (simp add: take_bit_nat_eq_self push_bit_nat_def)
qed

lemma unat_push_or:
  fixes x y :: "'a::len word"
  assumes "unat y < 2 ^ k" and "unat x * 2 ^ k < 2 ^ LENGTH('a)"
  shows "unat (push_bit k x OR y) = unat x * 2 ^ k + unat y"
proof -
  have "unat (push_bit k x) = push_bit k (unat x)"
    using assms(2) unfolding unsigned_push_bit_eq
    by (simp add: take_bit_eq_mod push_bit_nat_def)
  then show ?thesis
    using assms(1) by (simp add: unsigned_or_eq nat_shift_or)
qed

lemma unat_widen:
  fixes x :: "'a::len word"
  assumes "LENGTH('a) \<le> LENGTH('b)"
  shows "unat (ucast x :: 'b::len word) = unat x"
proof -
  have "unat x < 2 ^ LENGTH('a)" by simp
  also have "\<dots> \<le> 2 ^ LENGTH('b)" using assms by simp
  finally show ?thesis by (simp add: unsigned_ucast_eq take_bit_nat_eq_self)
qed

lemma unat_and_mask: "unat (x AND mask n) = unat x mod 2 ^ n"
  for x :: "'a::len word"
  by (metis take_bit_eq_mask take_bit_eq_mod unsigned_take_bit_eq)

lemma unat_shift_right: "unat (drop_bit n w) = unat w div 2 ^ n"
  for w :: "'a::len word"
  by (subst unat_drop_bit_eq) (rule drop_bit_eq_div)

lemma byte_bound [simp]: "unat (b :: u8) < 256"
  by (rule less_le_trans [OF unsigned_less]) simp

lemma u64_bound: "unat (w :: u64) < 2 ^ 64"
  using unsigned_less [of w] by simp

section \<open>Steps that may fail\<close>

text \<open>
  A C routine of the form \<open>bool f(State* s, Out* out)\<close> is a step: it maps the state to
  the value it wrote to \<open>*out\<close> (\<open>None\<close> where it returned \<open>false\<close>) and the state it
  left behind. A failed step keeps its state, because the diagnostics of the parsers
  (status, error offset, work already charged) are read from it.
\<close>

type_synonym ('s, 'a) step = "'s \<Rightarrow> 'a option \<times> 's"

definition step_return :: "'a \<Rightarrow> ('s, 'a) step" where
  "step_return x s = (Some x, s)"

definition step_then :: "('s, 'a) step \<Rightarrow> ('a \<Rightarrow> ('s, 'b) step) \<Rightarrow> ('s, 'b) step" where
  "step_then m f s = (case m s of (None, s') \<Rightarrow> (None, s') | (Some x, s') \<Rightarrow> f x s')"

text \<open>A step that only writes the state, as an assignment statement does.\<close>

definition step_modify :: "('s \<Rightarrow> 's) \<Rightarrow> ('s, unit) step" where
  "step_modify f s = (Some (), f s)"

text \<open>A step whose shape depends on the current state.\<close>

definition step_with :: "('s \<Rightarrow> 'a) \<Rightarrow> ('a \<Rightarrow> ('s, 'b) step) \<Rightarrow> ('s, 'b) step" where
  "step_with g f s = f (g s) s"

text \<open>\<open>if (!guard) return reject(...)\<close>: the rejection writes the state and fails.\<close>

definition step_require :: "('s \<Rightarrow> bool) \<Rightarrow> ('s \<Rightarrow> 's) \<Rightarrow> ('s, unit) step" where
  "step_require guard reject s = (if guard s then (Some (), s) else (None, reject s))"

text \<open>The loop \<open>for (ordinal = i; ordinal < i + n; ++ordinal) if (!row(ordinal)) return false;\<close>.\<close>

fun scan_rows :: "(nat \<Rightarrow> ('s, 'r) step) \<Rightarrow> nat \<Rightarrow> nat \<Rightarrow> ('s, 'r list) step" where
  "scan_rows row i 0 s = (Some [], s)"
| "scan_rows row i (Suc n) s =
     (case row i s of
        (None, s') \<Rightarrow> (None, s')
      | (Some r, s') \<Rightarrow>
          (case scan_rows row (Suc i) n s' of
             (None, s'') \<Rightarrow> (None, s'')
           | (Some rs, s'') \<Rightarrow> (Some (r # rs), s'')))"

lemma step_then_Some [step_success]:
  "step_then m f s = (Some y, t) \<longleftrightarrow> (\<exists>x s'. m s = (Some x, s') \<and> f x s' = (Some y, t))"
  by (auto simp: step_then_def split: prod.splits option.splits)

lemma step_return_Some [step_success]:
  "step_return x s = (Some y, t) \<longleftrightarrow> y = x \<and> t = s"
  by (auto simp: step_return_def)

lemma step_modify_Some [step_success]:
  "step_modify f s = (Some u, t) \<longleftrightarrow> t = f s"
  by (auto simp: step_modify_def)

lemma step_with_Some [step_success]:
  "step_with g f s = (Some y, t) \<longleftrightarrow> f (g s) s = (Some y, t)"
  by (simp add: step_with_def)

lemma step_require_Some [step_success]:
  "step_require guard reject s = (Some u, t) \<longleftrightarrow> guard s \<and> t = s"
  by (auto simp: step_require_def)

text \<open>A state property is kept by a step when it holds after success and after failure.\<close>

definition step_keeps :: "('s \<Rightarrow> bool) \<Rightarrow> ('s, 'a) step \<Rightarrow> bool" where
  "step_keeps P m \<longleftrightarrow> (\<forall>s. P s \<longrightarrow> P (snd (m s)))"

lemma step_keepsD: "step_keeps P m \<Longrightarrow> P s \<Longrightarrow> m s = (r, t) \<Longrightarrow> P t"
  by (force simp: step_keeps_def)

lemma step_keepsI [intro?]: "(\<And>s r t. P s \<Longrightarrow> m s = (r, t) \<Longrightarrow> P t) \<Longrightarrow> step_keeps P m"
  by (metis prod.collapse step_keeps_def)

lemma step_keeps_return [step_inv_intros]: "step_keeps P (step_return x)"
  by (simp add: step_keeps_def step_return_def)

lemma step_keeps_then [step_inv_intros]:
  assumes "step_keeps P m" and "\<And>x. step_keeps P (f x)"
  shows "step_keeps P (step_then m f)"
proof
  fix s r t
  assume "P s" and run: "step_then m f s = (r, t)"
  obtain x u where mu: "m s = (x, u)" by (cases "m s")
  with assms(1) \<open>P s\<close> have "P u" by (rule step_keepsD)
  with assms(2) run mu show "P t"
    by (cases x) (auto simp: step_then_def dest: step_keepsD)
qed

lemma step_keeps_modify [step_inv_intros]:
  "(\<And>s. P s \<Longrightarrow> P (f s)) \<Longrightarrow> step_keeps P (step_modify f)"
  by (simp add: step_keeps_def step_modify_def)

lemma step_keeps_with [step_inv_intros]:
  "(\<And>x. step_keeps P (f x)) \<Longrightarrow> step_keeps P (step_with g f)"
  by (simp add: step_keeps_def step_with_def)

lemma step_keeps_require [step_inv_intros]:
  "(\<And>s. P s \<Longrightarrow> P (reject s)) \<Longrightarrow> step_keeps P (step_require guard reject)"
  by (simp add: step_keeps_def step_require_def)

lemma step_keeps_rows [step_inv_intros]:
  assumes "\<And>i. step_keeps P (row i)"
  shows "step_keeps P (scan_rows row i n)"
proof
  fix s r t
  show "P s \<Longrightarrow> scan_rows row i n s = (r, t) \<Longrightarrow> P t"
  proof (induction n arbitrary: i s r)
    case 0
    then show ?case by simp
  next
    case (Suc n)
    obtain x u where xu: "row i s = (x, u)" by (cases "row i s")
    then have "P u" using assms Suc.prems(1) by (blast dest: step_keepsD)
    with Suc.IH [of u] Suc.prems(2) xu show ?case
      by (auto split: option.splits prod.splits)
  qed
qed

end
