(* ===== verification/Utf8.thy ===== *)
theory Utf8
  imports Prelude
begin

text \<open>
  \<open>src/common/utf8.c\<close>: strict decoding of one Unicode scalar value from a counted byte
  span and validation of a whole span. A counted span is a list of bytes; \<open>None\<close> is the
  null pointer, for the input span and for the two output locations.

  The specification is the encoding form itself, written on code points as numbers
  (\<open>utf8_units\<close>), and the inductive set of well-formed strings over it.
\<close>

section \<open>Model of the code\<close>

datatype CommonUtf8Status =
    COMMON_UTF8_OK
  | COMMON_UTF8_INVALID_ARGUMENT
  | COMMON_UTF8_INVALID_ENCODING

record CommonUtf8Result =
  utf8_status :: CommonUtf8Status
  utf8_offset :: nat

definition make_result :: "CommonUtf8Status \<Rightarrow> nat \<Rightarrow> CommonUtf8Result" where
  "make_result status offset = \<lparr>utf8_status = status, utf8_offset = offset\<rparr>"

definition is_continuation :: "u8 \<Rightarrow> bool" where
  "is_continuation value \<longleftrightarrow> 0x80 \<le> value \<and> value \<le> 0xbf"

text \<open>
  The branch chain of \<open>common_utf8_decode_one\<close> over a nonempty span: the scalar and the
  sequence length it is about to store, or \<open>None\<close> where it returns the encoding error.
  The conditions keep the order of the code, so no byte is looked at before the count
  admits it.
\<close>

definition decode_scalar :: "u8 list \<Rightarrow> (u32 \<times> nat) option" where
  "decode_scalar bytes =
     (let byte_count = length bytes; first = bytes ! 0 in
      if first \<le> 0x7f then Some (ucast first, 1)
      else if 0xc2 \<le> first \<and> first \<le> 0xdf then
        (if byte_count < 2 \<or> \<not> is_continuation (bytes ! 1) then None
         else Some (push_bit 6 (ucast (first AND 0x1f)) OR ucast (bytes ! 1 AND 0x3f), 2))
      else if 0xe0 \<le> first \<and> first \<le> 0xef then
        (if byte_count < 3 \<or> \<not> is_continuation (bytes ! 1) \<or> \<not> is_continuation (bytes ! 2) \<or>
            (first = 0xe0 \<and> bytes ! 1 < 0xa0) \<or> (first = 0xed \<and> 0x9f < bytes ! 1) then None
         else Some (push_bit 12 (ucast (first AND 0x0f)) OR
                    push_bit 6 (ucast (bytes ! 1 AND 0x3f)) OR ucast (bytes ! 2 AND 0x3f), 3))
      else if 0xf0 \<le> first \<and> first \<le> 0xf4 then
        (if byte_count < 4 \<or> \<not> is_continuation (bytes ! 1) \<or> \<not> is_continuation (bytes ! 2) \<or>
            \<not> is_continuation (bytes ! 3) \<or>
            (first = 0xf0 \<and> bytes ! 1 < 0x90) \<or> (first = 0xf4 \<and> 0x8f < bytes ! 1) then None
         else Some (push_bit 18 (ucast (first AND 0x07)) OR
                    push_bit 12 (ucast (bytes ! 1 AND 0x3f)) OR
                    push_bit 6 (ucast (bytes ! 2 AND 0x3f)) OR ucast (bytes ! 3 AND 0x3f), 4))
      else None)"

definition common_utf8_decode_one ::
    "u8 list option \<Rightarrow> u32 option \<Rightarrow> nat option \<Rightarrow>
     CommonUtf8Result \<times> u32 option \<times> nat option" where
  "common_utf8_decode_one bytes scalar sequence_size =
     (if bytes = None \<or> scalar = None \<or> sequence_size = None
      then (make_result COMMON_UTF8_INVALID_ARGUMENT size_max, scalar, sequence_size)
      else if the bytes = []
      then (make_result COMMON_UTF8_INVALID_ENCODING 0, scalar, sequence_size)
      else (case decode_scalar (the bytes) of
              None \<Rightarrow> (make_result COMMON_UTF8_INVALID_ENCODING 0, scalar, sequence_size)
            | Some (decoded, decoded_size) \<Rightarrow>
                (make_result COMMON_UTF8_OK size_max, Some decoded, Some decoded_size)))"

text \<open>
  The loop of \<open>common_utf8_validate\<close> from a position. The locals \<open>scalar\<close> and
  \<open>sequence_size\<close> are uninitialised in the code; the decoder only writes them, and any
  value may stand for them here.
\<close>

lemma decode_scalar_size: "decode_scalar bytes = Some (c, n) \<Longrightarrow> 0 < n"
  by (auto simp: decode_scalar_def Let_def split: if_splits)

function validate_from :: "u8 list \<Rightarrow> nat \<Rightarrow> CommonUtf8Result" where
  "validate_from bytes position =
     (if position < length bytes then
        (case common_utf8_decode_one (Some (drop position bytes)) (Some 0) (Some 0) of
           (result, _, sequence_size) \<Rightarrow>
             if utf8_status result \<noteq> COMMON_UTF8_OK
             then make_result (utf8_status result) position
             else validate_from bytes (position + the sequence_size))
      else make_result COMMON_UTF8_OK size_max)"
  by pat_completeness auto
termination
  by (relation "measure (\<lambda>(bytes, position). length bytes - position)")
     (auto simp: common_utf8_decode_one_def make_result_def
           split: option.splits if_splits dest: decode_scalar_size)

declare validate_from.simps [simp del]

definition common_utf8_validate :: "u8 list option \<Rightarrow> CommonUtf8Result" where
  "common_utf8_validate bytes =
     (case bytes of
        None \<Rightarrow> make_result COMMON_UTF8_INVALID_ARGUMENT size_max
      | Some span \<Rightarrow> validate_from span 0)"

fun common_utf8_status_name :: "CommonUtf8Status \<Rightarrow> string" where
  "common_utf8_status_name COMMON_UTF8_OK = ''ok''"
| "common_utf8_status_name COMMON_UTF8_INVALID_ARGUMENT = ''invalid-argument''"
| "common_utf8_status_name COMMON_UTF8_INVALID_ENCODING = ''invalid-encoding''"

section \<open>The encoding form\<close>

text \<open>Scalar values are the code points outside the surrogate range.\<close>

definition is_scalar :: "nat \<Rightarrow> bool" where
  "is_scalar n \<longleftrightarrow> n < 0xD800 \<or> 0xE000 \<le> n \<and> n < 0x110000"

definition utf8_units :: "nat \<Rightarrow> nat list" where
  "utf8_units n =
     (if n < 0x80 then [n]
      else if n < 0x800 then [0xC0 + n div 64, 0x80 + n mod 64]
      else if n < 0x10000 then [0xE0 + n div 4096, 0x80 + n div 64 mod 64, 0x80 + n mod 64]
      else [0xF0 + n div 262144, 0x80 + n div 4096 mod 64, 0x80 + n div 64 mod 64,
            0x80 + n mod 64])"

inductive utf8_wellformed :: "u8 list \<Rightarrow> bool" where
  empty: "utf8_wellformed []"
| sequence: "is_scalar n \<Longrightarrow> map unat sequence_bytes = utf8_units n \<Longrightarrow> utf8_wellformed rest \<Longrightarrow>
     utf8_wellformed (sequence_bytes @ rest)"

text \<open>A well-formed sequence starts at a position of the span.\<close>

definition scalar_starts :: "u8 list \<Rightarrow> bool" where
  "scalar_starts bytes \<longleftrightarrow>
     (\<exists>n. is_scalar n \<and> map unat (take (length (utf8_units n)) bytes) = utf8_units n)"

section \<open>Bits and digits\<close>

lemma low_bits:
  fixes b :: u8
  shows "unat (b AND 0x1f) = unat b mod 32" and "unat (b AND 0x3f) = unat b mod 64"
    and "unat (b AND 0x0f) = unat b mod 16" and "unat (b AND 0x07) = unat b mod 8"
  using unat_and_mask [of b 5] unat_and_mask [of b 6] unat_and_mask [of b 4]
    unat_and_mask [of b 3]
  by (simp_all add: mask_eq_exp_minus_1)

lemma is_continuation_unat: "is_continuation b \<longleftrightarrow> 0x80 \<le> unat b \<and> unat b \<le> 0xbf"
  by (simp add: is_continuation_def word_to_nat)

lemma two_digits: "y < 64 \<Longrightarrow> x * 64 + y < 64 * k \<longleftrightarrow> x < (k::nat)" for x y :: nat
  by linarith

text \<open>The payload bits of a trailing byte, and of two and three of them.\<close>

lemma six_bits: "unat (ucast (b AND 0x3f) :: u32) = unat b mod 64" for b :: u8
  by (simp add: unat_widen low_bits)

lemma twelve_bits:
  "unat (push_bit 6 (ucast (b AND 0x3f)) OR ucast (c AND 0x3f) :: u32) =
   unat b mod 64 * 64 + unat c mod 64" for b c :: u8
proof -
  have "unat b mod 64 < 64" and "unat c mod 64 < 64" by simp_all
  then show ?thesis by (subst unat_push_or) (simp_all only: six_bits, simp_all)
qed

lemma eighteen_bits:
  "unat (push_bit 12 (ucast (b AND 0x3f)) OR push_bit 6 (ucast (c AND 0x3f)) OR
      ucast (d AND 0x3f) :: u32) =
   unat b mod 64 * 4096 + unat c mod 64 * 64 + unat d mod 64" for b c d :: u8
proof -
  have "unat b mod 64 < 64" and "unat c mod 64 < 64" and "unat d mod 64 < 64" by simp_all
  then show ?thesis by (subst unat_push_or) (simp_all only: six_bits twelve_bits, simp_all)
qed

lemma split_digits:
  fixes n :: nat
  shows "n = n div 64 * 64 + n mod 64"
    and "n = n div 4096 * 4096 + n div 64 mod 64 * 64 + n mod 64"
    and "n = n div 262144 * 262144 + n div 4096 mod 64 * 4096 + n div 64 mod 64 * 64 + n mod 64"
proof -
  have 1: "n = n div 64 * 64 + n mod 64" for n :: nat by simp
  have 2: "n div 4096 = n div 64 div 64" and 3: "n div 262144 = n div 64 div 64 div 64"
    by (simp_all add: div_mult2_eq [symmetric])
  show "n = n div 64 * 64 + n mod 64" by (rule 1)
  show "n = n div 4096 * 4096 + n div 64 mod 64 * 64 + n mod 64"
    using 1 [of n] 1 [of "n div 64"] unfolding 2 by linarith
  show "n = n div 262144 * 262144 + n div 4096 mod 64 * 4096 + n div 64 mod 64 * 64 + n mod 64"
    using 1 [of n] 1 [of "n div 64"] 1 [of "n div 64 div 64"] unfolding 2 3 by linarith
qed


lemma mod_digit: "n = m * q + z \<Longrightarrow> z < m \<Longrightarrow> n mod m = z"
  and div_digit: "n = m * q + z \<Longrightarrow> z < m \<Longrightarrow> n div m = q" for n m q z :: nat
  by simp_all
lemma units_2: "x < 32 \<Longrightarrow> 2 \<le> x \<Longrightarrow> y < 64 \<Longrightarrow> utf8_units (x * 64 + y) = [0xC0 + x, 0x80 + y]"
  by (simp add: utf8_units_def)

lemma units_3: "x < 16 \<Longrightarrow> 0x800 \<le> x * 4096 + y * 64 + z \<Longrightarrow> y < 64 \<Longrightarrow> z < 64 \<Longrightarrow> 
  utf8_units (x * 4096 + y * 64 + z) = [0xE0 + x, 0x80 + y, 0x80 + z]"
proof -
  assume a: "x < 16" "0x800 \<le> x * 4096 + y * 64 + z" "y < 64" "z < 64"
  let ?n = "x * 4096 + y * 64 + z"
  have "?n div 64 = x * 64 + y" "?n mod 64 = z"
    using a by (auto intro: div_digit [of _ _ _ z] mod_digit [of _ _ "x * 64 + y"])
  moreover have "?n div 4096 = x" "(x * 64 + y) mod 64 = y"
    using a by (auto intro!: div_digit [of _ _ _ "y * 64 + z"])
  ultimately show ?thesis using a by (simp add: utf8_units_def)
qed
lemma units_4: "x < 8 \<Longrightarrow> 0x10000 \<le> x * 262144 + y * 4096 + z * 64 + w \<Longrightarrow> y < 64 \<Longrightarrow> z < 64 \<Longrightarrow> w < 64 \<Longrightarrow>
  utf8_units (x * 262144 + y * 4096 + z * 64 + w) = [0xF0 + x, 0x80 + y, 0x80 + z, 0x80 + w]"
proof -
  assume a: "x < 8" "0x10000 \<le> x * 262144 + y * 4096 + z * 64 + w" "y < 64" "z < 64" "w < 64"
  let ?n = "x * 262144 + y * 4096 + z * 64 + w"
  have "?n div 64 = x * 4096 + y * 64 + z" "?n mod 64 = w"
    using a by (auto intro: div_digit [of _ _ _ w] mod_digit [of _ _ "x * 4096 + y * 64 + z"])
  moreover have "?n div 4096 = x * 64 + y" "(x * 64 + y) mod 64 = y"
    using a by (auto intro!: div_digit [of _ _ _ "z * 64 + w"])
  moreover have "?n div 262144 = x" "(x * 4096 + y * 64 + z) mod 64 = z"
    using a by (auto intro!: div_digit [of _ _ _ "y * 4096 + z * 64 + w"] mod_digit [of _ _ "x * 64 + y"])
  ultimately show ?thesis using a by (simp add: utf8_units_def)
qed
lemma digit:
  fixes v :: nat
  assumes "lo \<le> v" and "v < lo + m" and "m dvd lo"
  shows "v mod m = v - lo"
proof -
  from assms(3) obtain j where "lo = m * j" ..
  with assms(1) have "v = m * j + (v - lo)" by simp
  then have "v mod m = (v - lo) mod m" by (metis mod_mult_self4)
  with assms(1,2) show ?thesis by simp
qed

text \<open>The branch chain with every byte read as a number.\<close>

definition decodes_to :: "u8 list \<Rightarrow> nat \<Rightarrow> nat \<Rightarrow> bool" where
  "decodes_to bytes n k \<longleftrightarrow>
     (let f = \<lambda>i. unat (bytes ! i); tail = \<lambda>i. 0x80 \<le> f i \<and> f i \<le> 0xbf in
      f 0 \<le> 0x7f \<and> k = 1 \<and> n = f 0 \<or>
      0xc2 \<le> f 0 \<and> f 0 \<le> 0xdf \<and> 2 \<le> length bytes \<and> tail 1 \<and> k = 2 \<and>
        n = (f 0 - 192) * 64 + (f 1 - 128) \<or>
      0xe0 \<le> f 0 \<and> f 0 \<le> 0xef \<and> 3 \<le> length bytes \<and> tail 1 \<and> tail 2 \<and>
        (f 0 = 0xe0 \<longrightarrow> 0xa0 \<le> f 1) \<and> (f 0 = 0xed \<longrightarrow> f 1 \<le> 0x9f) \<and> k = 3 \<and>
        n = (f 0 - 224) * 4096 + (f 1 - 128) * 64 + (f 2 - 128) \<or>
      0xf0 \<le> f 0 \<and> f 0 \<le> 0xf4 \<and> 4 \<le> length bytes \<and> tail 1 \<and> tail 2 \<and> tail 3 \<and>
        (f 0 = 0xf0 \<longrightarrow> 0x90 \<le> f 1) \<and> (f 0 = 0xf4 \<longrightarrow> f 1 \<le> 0x8f) \<and> k = 4 \<and>
        n = (f 0 - 240) * 262144 + (f 1 - 128) * 4096 + (f 2 - 128) * 64 + (f 3 - 128))"

lemma cont_digit: "0x80 \<le> v \<Longrightarrow> v \<le> 0xbf \<Longrightarrow> v mod 64 = v - 128" for v :: nat
  by (rule digit) auto

lemma first_unat:
  fixes b :: u8
  shows "b \<le> 0x7f \<longleftrightarrow> unat b \<le> 0x7f"
  by (simp add: word_to_nat)

lemma b2: fixes a b :: u8
 assumes "0xc2 \<le> unat a" "unat a \<le> 0xdf" "0x80 \<le> unat b" "unat b \<le> 0xbf" 
 shows "unat (push_bit 6 (ucast (a AND 0x1f)) OR ucast (b AND 0x3f) :: u32) = (unat a - 192) * 64 + (unat b - 128)"
proof -
  have "unat a mod 32 = unat a - 192" and "unat b mod 64 = unat b - 128"
    using assms by (auto intro!: digit)
  moreover have "unat b mod 64 < 64" "unat a mod 32 < 32" by simp_all
  ultimately show ?thesis
    by (subst unat_push_or) (simp_all add: six_bits unat_widen low_bits)
qed

lemma b3: fixes a b c :: u8
 assumes "0xe0 \<le> unat a" "unat a \<le> 0xef" "0x80 \<le> unat b" "unat b \<le> 0xbf" "0x80 \<le> unat c" "unat c \<le> 0xbf" 
 shows "unat (push_bit 12 (ucast (a AND 0x0f)) OR push_bit 6 (ucast (b AND 0x3f)) OR ucast (c AND 0x3f) :: u32) = (unat a - 224) * 4096 + (unat b - 128) * 64 + (unat c - 128)"
proof -
  have "unat a mod 16 = unat a - 224" and "unat b mod 64 = unat b - 128" and "unat c mod 64 = unat c - 128"
    using assms by (auto intro!: digit)
  moreover have "unat b mod 64 < 64" "unat a mod 16 < 16" "unat c mod 64 < 64" by simp_all
  ultimately show ?thesis
    by (subst unat_push_or) (simp_all only: twelve_bits, simp_all add: unat_widen low_bits)
qed

lemma b4: fixes a b c d :: u8
 assumes "0xf0 \<le> unat a" "unat a \<le> 0xf4" "0x80 \<le> unat b" "unat b \<le> 0xbf" "0x80 \<le> unat c" "unat c \<le> 0xbf" "0x80 \<le> unat d" "unat d \<le> 0xbf" 
 shows "unat (push_bit 18 (ucast (a AND 0x07)) OR push_bit 12 (ucast (b AND 0x3f)) OR push_bit 6 (ucast (c AND 0x3f)) OR ucast (d AND 0x3f) :: u32) = (unat a - 240) * 262144 + (unat b - 128) * 4096 + (unat c - 128) * 64 + (unat d - 128)"
proof -
  have "unat a mod 8 = unat a - 240" and "unat b mod 64 = unat b - 128" and "unat c mod 64 = unat c - 128" and "unat d mod 64 = unat d - 128"
    using assms by (auto intro!: digit)
  moreover have "unat b mod 64 < 64" "unat a mod 8 < 8" "unat c mod 64 < 64" "unat d mod 64 < 64" by simp_all
  ultimately show ?thesis
    by (subst unat_push_or) (simp_all only: eighteen_bits, simp_all add: unat_widen low_bits)
qed


lemma decode_scalar_iff:
  "decode_scalar bytes = Some (c, k) \<longleftrightarrow> decodes_to bytes (unat c) k"
proof -
  let ?f = "\<lambda>i. unat (bytes ! i)"
  consider "?f 0 \<le> 0x7f" | "0xc2 \<le> ?f 0 \<and> ?f 0 \<le> 0xdf" | "0xe0 \<le> ?f 0 \<and> ?f 0 \<le> 0xef"
    | "0xf0 \<le> ?f 0 \<and> ?f 0 \<le> 0xf4"
    | "0x7f < ?f 0 \<and> ?f 0 < 0xc2" | "0xf4 < ?f 0"
    by linarith
  then show ?thesis
  proof cases
    case 1
    then show ?thesis
      by (auto simp: decode_scalar_def decodes_to_def word_to_nat word_eq_nat unat_widen)
  next
    case 2
    then show ?thesis
      by (auto simp: decode_scalar_def decodes_to_def Let_def word_to_nat word_eq_nat [of _ c]
          is_continuation_unat b2)
  next
    case 3
    then show ?thesis
      by (auto simp: decode_scalar_def decodes_to_def Let_def word_to_nat word_eq_nat
          is_continuation_unat b3)
  next
    case 4
    let ?b = "\<lambda>i. bytes ! i"
    let ?bad = "length bytes < 4 \<or> \<not> is_continuation (?b 1) \<or> \<not> is_continuation (?b 2) \<or>
      \<not> is_continuation (?b 3) \<or> (?b 0 = 0xf0 \<and> ?b 1 < 0x90) \<or> (?b 0 = 0xf4 \<and> 0x8f < ?b 1)"
    let ?w = "push_bit 18 (ucast (?b 0 AND 0x07)) OR push_bit 12 (ucast (?b 1 AND 0x3f)) OR
      push_bit 6 (ucast (?b 2 AND 0x3f)) OR ucast (?b 3 AND 0x3f) :: u32"
    let ?n = "(?f 0 - 240) * 262144 + (?f 1 - 128) * 4096 + (?f 2 - 128) * 64 + (?f 3 - 128)"
    from 4 have code: "decode_scalar bytes = (if ?bad then None else Some (?w, 4))"
      by (simp add: decode_scalar_def Let_def word_to_nat)
    from 4 have spec: "decodes_to bytes n k \<longleftrightarrow> \<not> ?bad \<and> k = 4 \<and> n = ?n" for n k
      unfolding decodes_to_def Let_def word_to_nat word_eq_nat is_continuation_unat
      by auto
    show ?thesis
    proof (cases ?bad)
      case True
      then have "decode_scalar bytes = None" unfolding code by (rule if_P)
      moreover have "\<not> decodes_to bytes (unat c) k" using spec True by blast
      ultimately show ?thesis by simp
    next
      case False
      define w m where "w = ?w" and "m = ?n"
      have w: "unat w = m"
        using 4 False unfolding w_def m_def by (intro b4) (auto simp: is_continuation_unat)
      have "decode_scalar bytes = Some (w, 4)"
        unfolding code w_def using False by (rule if_not_P)
      moreover have "decodes_to bytes j k \<longleftrightarrow> k = 4 \<and> j = m" for j
        using spec False unfolding m_def by blast
      moreover have "w = c \<longleftrightarrow> unat c = m" unfolding word_eq_nat w by auto
      ultimately show ?thesis by auto
    qed
  next
    case 5
    then show ?thesis
      by (simp add: decode_scalar_def decodes_to_def Let_def word_to_nat)
  next
    case 6
    then show ?thesis
      by (simp add: decode_scalar_def decodes_to_def Let_def word_to_nat)
  qed
qed

lemma take_nth:
  "Suc 0 \<le> length xs \<Longrightarrow> take (Suc 0) xs = [xs ! 0]"
  "2 \<le> length xs \<Longrightarrow> take 2 xs = [xs ! 0, xs ! 1]"
  "Suc (Suc 0) \<le> length xs \<Longrightarrow> take (Suc (Suc 0)) xs = [xs ! 0, xs ! 1]"
  "3 \<le> length xs \<Longrightarrow> take 3 xs = [xs ! 0, xs ! 1, xs ! 2]"
  "4 \<le> length xs \<Longrightarrow> take 4 xs = [xs ! 0, xs ! 1, xs ! 2, xs ! 3]"
  "Suc (Suc (Suc 0)) \<le> length xs \<Longrightarrow> take (Suc (Suc (Suc 0))) xs = [xs ! 0, xs ! 1, xs ! 2]"
  "Suc (Suc (Suc (Suc 0))) \<le> length xs \<Longrightarrow>
     take (Suc (Suc (Suc (Suc 0)))) xs = [xs ! 0, xs ! 1, xs ! 2, xs ! 3]"
  by (rule nth_equalityI; auto simp: less_Suc_eq numeral_eq_Suc nth_Cons')+

lemma decodes_to_units:
  assumes "bytes \<noteq> []" and "decodes_to bytes n k"
  shows "is_scalar n \<and> map unat (take k bytes) = utf8_units n"
proof -
  let ?f = "\<lambda>i. unat (bytes ! i)"
  have len: "1 \<le> length bytes" using assms(1) by (cases bytes) auto
  from assms(2) [unfolded decodes_to_def Let_def] show ?thesis
  proof (elim disjE conjE, goal_cases)
    case 1
    then show ?case using len by (simp add: is_scalar_def utf8_units_def take_nth)
  next
    case 2
    moreover have "is_scalar n" using 2 unfolding is_scalar_def by linarith
    ultimately show ?case
      using units_2 [of "?f 0 - 192" "?f 1 - 128"] by (simp add: take_nth)
  next
    case 3
    moreover have "0x800 \<le> n" using 3 by (cases "?f 0 = 224") auto
    moreover have "is_scalar n" using 3 unfolding is_scalar_def 
      by (cases "?f 0 \<le> 236"; cases "?f 0 = 237") auto
    ultimately show ?case
      using units_3 [of "?f 0 - 224" "?f 1 - 128" "?f 2 - 128"] by (simp add: take_nth)
  next
    case 4
    obtain x y z w where f: "?f 0 = 240 + x" "?f 1 = 128 + y" "?f 2 = 128 + z" "?f 3 = 128 + w"
      using 4 by (metis le_Suc_ex)
    then have n: "n = x * 262144 + y * 4096 + z * 64 + w" using 4 by simp
    have b: "x \<le> 4" "y < 64" "z < 64" "w < 64" "x = 0 \<longrightarrow> 16 \<le> y" "x = 4 \<longrightarrow> y < 16" using 4 f by auto
    have "0x10000 \<le> n" unfolding n using b by (cases "x = 0") auto
    moreover have "n < 0x110000" unfolding n using b by (cases "x = 4") auto
    ultimately show ?case
      using units_4 [of x y z w] b f 4 unfolding n [symmetric]
      by (simp add: take_nth is_scalar_def)
  qed
qed

lemma units_decode:
  assumes "is_scalar n" and "map unat (take (length (utf8_units n)) bytes) = utf8_units n"
  shows "decodes_to bytes n (length (utf8_units n))"
proof -
  have len: "length (utf8_units n) \<le> length bytes" 
    using arg_cong [OF assms(2), of length] by simp
  consider "n < 0x80" | "0x80 \<le> n" "n < 0x800" | "0x800 \<le> n" "n < 0x10000" | "0x10000 \<le> n" by linarith
  then show ?thesis
  proof cases
    case 1 
    then show ?thesis using assms len by (auto simp: utf8_units_def decodes_to_def take_nth)
  next
    case 2
    then have "length (utf8_units n) = 2" by (simp add: utf8_units_def)
    moreover have "unat (bytes ! 0) = 192 + n div 64" "unat (bytes ! 1) = 128 + n mod 64"
      using 2 assms(2) len by (auto simp: utf8_units_def take_nth)
    moreover have "2 \<le> n div 64" "n div 64 < 32" using 2 by auto
    ultimately show ?thesis using 2 len by (simp add: decodes_to_def Let_def)
  next
    case 3
    have b: "unat (bytes ! 0) = 224 + n div 4096" "unat (bytes ! 1) = 128 + n div 64 mod 64" "unat (bytes ! 2) = 128 + n mod 64"
      using 3 assms(2) len by (auto simp: utf8_units_def take_nth)
    have d: "n = n div 4096 * 4096 + n div 64 mod 64 * 64 + n mod 64" by (rule split_digits)
    define x y z where "x = n div 4096" and "y = n div 64 mod 64" and "z = n mod 64"
    have "y < 64" "z < 64" "x < 16" using 3 by (auto simp: x_def y_def z_def)
    then show ?thesis using 3 b assms(1) len d unfolding x_def [symmetric] y_def [symmetric] z_def [symmetric] is_scalar_def
      by (auto simp: utf8_units_def decodes_to_def Let_def)
  next
    case 4
    have b: "unat (bytes ! 0) = 240 + n div 262144" "unat (bytes ! 1) = 128 + n div 4096 mod 64" "unat (bytes ! 2) = 128 + n div 64 mod 64" "unat (bytes ! 3) = 128 + n mod 64"
      using 4 assms(2) len by (auto simp: utf8_units_def take_nth)
    have d: "n = n div 262144 * 262144 + n div 4096 mod 64 * 4096 + n div 64 mod 64 * 64 + n mod 64" by (rule split_digits)
    define x y z w where "x = n div 262144" and "y = n div 4096 mod 64" and "z = n div 64 mod 64" and "w = n mod 64"
    have "y < 64" "z < 64" "w < 64" "x < 5" using 4 assms(1) by (auto simp: x_def y_def z_def w_def is_scalar_def)
    then show ?thesis using 4 b assms(1) len d unfolding x_def [symmetric] y_def [symmetric] z_def [symmetric] w_def [symmetric] is_scalar_def
      by (auto simp: utf8_units_def decodes_to_def Let_def)
  qed
qed

section \<open>Decoding against the encoding form\<close>

lemma map_take_length: "map f (take k xs) = ys \<Longrightarrow> length ys = min (length xs) k"
  by (metis length_map length_take)

lemma decode_scalar_spec:
  assumes "bytes \<noteq> []"
  shows "decode_scalar bytes = Some (c, k) \<longleftrightarrow>
    is_scalar (unat c) \<and> k = length (utf8_units (unat c)) \<and>
    map unat (take k bytes) = utf8_units (unat c)"
proof
  assume "decode_scalar bytes = Some (c, k)"
  then have d: "decodes_to bytes (unat c) k" by (simp add: decode_scalar_iff)
  with assms have 1: "is_scalar (unat c) \<and> map unat (take k bytes) = utf8_units (unat c)"
    by (rule decodes_to_units)
  moreover have "k \<le> length bytes"
    using d assms by (auto simp: decodes_to_def Let_def Suc_le_eq)
  ultimately show "is_scalar (unat c) \<and> k = length (utf8_units (unat c)) \<and>
      map unat (take k bytes) = utf8_units (unat c)"
    using map_take_length [of unat k bytes] by auto
next
  assume "is_scalar (unat c) \<and> k = length (utf8_units (unat c)) \<and>
    map unat (take k bytes) = utf8_units (unat c)"
  then show "decode_scalar bytes = Some (c, k)"
    using units_decode [of "unat c" bytes] unfolding decode_scalar_iff by metis
qed

lemma utf8_units_length: "0 < length (utf8_units n)" "length (utf8_units n) \<le> 4"
  by (simp_all add: utf8_units_def)

lemma utf8_units_nonempty: "[] \<noteq> utf8_units n"
  by (simp add: utf8_units_def)

lemma scalar_fits: "is_scalar n \<Longrightarrow> unat (of_nat n :: u32) = n"
  by (auto simp: is_scalar_def unat_of_nat)

lemma decode_scalar_starts:
  assumes "bytes \<noteq> []"
  shows "decode_scalar bytes \<noteq> None \<longleftrightarrow> scalar_starts bytes"
proof
  assume "decode_scalar bytes \<noteq> None"
  then show "scalar_starts bytes"
    using assms by (auto simp: decode_scalar_spec scalar_starts_def)
next
  assume "scalar_starts bytes"
  then obtain n where "is_scalar n" "map unat (take (length (utf8_units n)) bytes) = utf8_units n"
    by (auto simp: scalar_starts_def)
  then have "decode_scalar bytes = Some (of_nat n, length (utf8_units n))"
    using assms by (simp add: decode_scalar_spec scalar_fits)
  then show "decode_scalar bytes \<noteq> None" by simp
qed

lemma decode_scalar_le: "bytes \<noteq> [] \<Longrightarrow> decode_scalar bytes = Some (c, k) \<Longrightarrow> k \<le> length bytes \<and> k \<le> 4"
  unfolding decode_scalar_spec
  using map_take_length [of unat k bytes] utf8_units_length(2) [of "unat c"] by fastforce

section \<open>Validation against well-formed strings\<close>

lemma utf8_wellformed_append:
  "utf8_wellformed xs \<Longrightarrow> utf8_wellformed ys \<Longrightarrow> utf8_wellformed (xs @ ys)"
  by (induction rule: utf8_wellformed.induct) (auto intro: utf8_wellformed.intros)

lemma utf8_wellformed_take_decode:
  assumes "bytes \<noteq> []" and "decode_scalar bytes = Some (c, k)"
  shows "utf8_wellformed (take k bytes)"
proof -
  from assms have "is_scalar (unat c)" and "map unat (take k bytes) = utf8_units (unat c)"
    unfolding decode_scalar_spec [OF assms(1)] by blast+
  from utf8_wellformed.sequence [OF this utf8_wellformed.empty] show ?thesis by simp
qed

text \<open>The first sequence of a nonempty well-formed string is the one the decoder takes.\<close>

lemma utf8_wellformed_nonempty:
  assumes "utf8_wellformed bytes" and "bytes \<noteq> []"
  obtains c k where "decode_scalar bytes = Some (c, k)" and "utf8_wellformed (drop k bytes)"
  using assms
proof cases
  case (sequence n s rest)
  have len: "length s = length (utf8_units n)"
    using arg_cong [OF sequence(3), of length] by simp
  with sequence assms(2) have "decode_scalar bytes = Some (of_nat n, length s)"
    by (simp add: decode_scalar_spec scalar_fits)
  with sequence that show ?thesis by auto
qed simp

lemma utf8_wellformed_decode:
  assumes "bytes \<noteq> []" and "decode_scalar bytes = Some (c, k)"
  shows "utf8_wellformed bytes \<longleftrightarrow> utf8_wellformed (drop k bytes)"
proof
  assume "utf8_wellformed bytes"
  from this assms(1) obtain d j where "decode_scalar bytes = Some (d, j)"
    and "utf8_wellformed (drop j bytes)" by (rule utf8_wellformed_nonempty)
  with assms(2) show "utf8_wellformed (drop k bytes)" by simp
next
  assume "utf8_wellformed (drop k bytes)"
  with utf8_wellformed_take_decode [OF assms] have "utf8_wellformed (take k bytes @ drop k bytes)"
    by (rule utf8_wellformed_append)
  then show "utf8_wellformed bytes" by simp
qed

lemma validate_from_step:
  assumes "position < length bytes"
  shows "validate_from bytes position =
    (case decode_scalar (drop position bytes) of
       None \<Rightarrow> make_result COMMON_UTF8_INVALID_ENCODING position
     | Some (c, k) \<Rightarrow> validate_from bytes (position + k))"
  using assms
  by (subst validate_from.simps)
     (auto simp: common_utf8_decode_one_def make_result_def split: option.splits)

lemma validate_from_end:
  "length bytes \<le> position \<Longrightarrow> validate_from bytes position = make_result COMMON_UTF8_OK size_max"
  by (subst validate_from.simps) simp

lemma validate_from_correct:
  "if utf8_wellformed (drop position bytes)
   then validate_from bytes position = make_result COMMON_UTF8_OK size_max
   else \<exists>offset. validate_from bytes position = make_result COMMON_UTF8_INVALID_ENCODING offset \<and>
          position \<le> offset \<and> offset < length bytes \<and>
          utf8_wellformed (take (offset - position) (drop position bytes)) \<and>
          \<not> scalar_starts (drop offset bytes)"
proof (induction "length bytes - position" arbitrary: position rule: less_induct)
  case less
  show ?case
  proof (cases "position < length bytes")
    case False
    then show ?thesis by (simp add: validate_from_end utf8_wellformed.empty)
  next
    case True
    then have ne: "drop position bytes \<noteq> []" by simp
    show ?thesis
    proof (cases "decode_scalar (drop position bytes)")
      case None
      moreover have "\<not> utf8_wellformed (drop position bytes)"
        using None ne by (auto elim: utf8_wellformed_nonempty)
      moreover have "\<not> scalar_starts (drop position bytes)"
        using None decode_scalar_starts [OF ne] by simp
      ultimately show ?thesis
        using True
        by (auto simp: validate_from_step utf8_wellformed.empty intro!: exI [of _ position])
    next
      case (Some r)
      obtain c k where r: "r = (c, k)" by (cases r)
      note d = Some [unfolded r]
      have k: "0 < k" "k \<le> length bytes - position"
        using decode_scalar_size [OF d] decode_scalar_le [OF ne d] by auto
      have w: "utf8_wellformed (drop position bytes) \<longleftrightarrow> utf8_wellformed (drop (position + k) bytes)"
        using utf8_wellformed_decode [OF ne d] by (simp add: add.commute)
      have v: "validate_from bytes position = validate_from bytes (position + k)"
        using True d by (simp add: validate_from_step)
      have prefix: "utf8_wellformed (take (offset - position) (drop position bytes))"
        if "position + k \<le> offset"
          "utf8_wellformed (take (offset - (position + k)) (drop (position + k) bytes))" for offset
      proof -
        have "take (offset - position) (drop position bytes) =
            take k (drop position bytes) @ take (offset - (position + k)) (drop (position + k) bytes)"
          using that(1) take_add [of k "offset - (position + k)" "drop position bytes"]
          by (simp add: add.commute)
        with utf8_wellformed_append [OF utf8_wellformed_take_decode [OF ne d] that(2)]
        show ?thesis by simp
      qed
      have "length bytes - (position + k) < length bytes - position" using True k by simp
      note IH = less.hyps [OF this]
      show ?thesis
      proof (cases "utf8_wellformed (drop (position + k) bytes)")
        case True
        with IH w v show ?thesis by simp
      next
        case False
        with IH obtain offset where
          "validate_from bytes (position + k) = make_result COMMON_UTF8_INVALID_ENCODING offset"
          "position + k \<le> offset" "offset < length bytes"
          "utf8_wellformed (take (offset - (position + k)) (drop (position + k) bytes))"
          "\<not> scalar_starts (drop offset bytes)" by auto
        with False prefix [of offset] w v show ?thesis by auto
      qed
    qed
  qed
qed

text \<open>Only one offset can be the first ill-formed one.\<close>

lemma utf8_wellformed_cancel:
  "utf8_wellformed xs \<Longrightarrow> utf8_wellformed (xs @ ys) \<longleftrightarrow> utf8_wellformed ys"
proof (induction rule: utf8_wellformed.induct)
  case (sequence n s rest)
  have len: "length s = length (utf8_units n)"
    using arg_cong [OF sequence(2), of length] by simp
  with sequence(2) have ne: "s \<noteq> []" using utf8_units_length [of n] by auto
  have "decode_scalar (s @ rest @ ys) = Some (of_nat n, length s)"
    using sequence(1,2) len ne by (subst decode_scalar_spec) (auto simp: scalar_fits)
  with ne have "utf8_wellformed (s @ rest @ ys) \<longleftrightarrow> utf8_wellformed (rest @ ys)"
    by (subst utf8_wellformed_decode) auto
  with sequence.IH show ?case by simp
qed simp

lemma utf8_wellformed_starts:
  assumes "utf8_wellformed xs" and "xs \<noteq> []"
  shows "scalar_starts (xs @ ys)"
  using assms(1)
proof cases
  case (sequence n s rest)
  have "length s = length (utf8_units n)"
    using arg_cong [OF sequence(3), of length] by simp
  with sequence show ?thesis unfolding scalar_starts_def by (intro exI [of _ n]) simp
qed (use assms(2) in simp)

lemma first_ill_formed_unique:
  assumes "utf8_wellformed (take i bytes)" and "\<not> scalar_starts (drop i bytes)"
    and "utf8_wellformed (take j bytes)" and "i < j" and "j \<le> length bytes"
  shows False
proof -
  have split: "take j bytes = take i bytes @ take (j - i) (drop i bytes)"
    using assms(4) take_add [of i "j - i" bytes] by simp
  with assms(1,3) have "utf8_wellformed (take (j - i) (drop i bytes))"
    by (simp add: utf8_wellformed_cancel)
  moreover have "take (j - i) (drop i bytes) \<noteq> []" using assms(4,5) by simp
  ultimately have "scalar_starts (take (j - i) (drop i bytes) @ drop (j - i) (drop i bytes))"
    by (rule utf8_wellformed_starts)
  with assms(2) show False by (simp only: append_take_drop_id)
qed

section \<open>The decoder as an interface\<close>

text \<open>
  What a scanner over byte spans may rely on: the sequence length at the front of a span,
  which depends on the sequence alone, is one byte for an ASCII byte and covers only
  non-ASCII bytes otherwise; and a notion of well-formed span that is consumed sequence by
  sequence.
\<close>

locale scalar_decoder =
  fixes size_of :: "u8 list \<Rightarrow> nat option"
    and wellformed :: "u8 list \<Rightarrow> bool"
  assumes size_bounds: "bytes \<noteq> [] \<Longrightarrow> size_of bytes = Some k \<Longrightarrow> 0 < k \<and> k \<le> length bytes"
    and size_prefix: "xs \<noteq> [] \<Longrightarrow> k \<le> length xs \<Longrightarrow>
          size_of (xs @ ys) = Some k \<longleftrightarrow> size_of xs = Some k"
    and size_step: "bytes \<noteq> [] \<Longrightarrow> size_of bytes = Some k \<Longrightarrow>
          wellformed bytes \<longleftrightarrow> wellformed (drop k bytes)"
    and size_stuck: "bytes \<noteq> [] \<Longrightarrow> size_of bytes = None \<Longrightarrow> \<not> wellformed bytes"
    and empty_wellformed: "wellformed []"
    and ascii_size: "b < 0x80 \<Longrightarrow> size_of (b # bytes) = Some 1"
    and high_bytes: "size_of (b # bytes) = Some k \<Longrightarrow> 0x80 \<le> b \<Longrightarrow>
          x \<in> set (take k (b # bytes)) \<Longrightarrow> 0x80 \<le> x"
begin

lemma ascii_step: "b < 0x80 \<Longrightarrow> wellformed (b # bytes) \<longleftrightarrow> wellformed bytes"
  using size_step [of "b # bytes" 1] by (simp add: ascii_size)

text \<open>A scanner that tests only the first byte of a sequence for ASCII bytes misses none.\<close>

lemma ascii_in_sequence:
  assumes "size_of (b # bytes) = Some k" and "x \<in> set (take k (b # bytes))" and "x < 0x80"
  shows "x = b"
proof (cases "b < 0x80")
  case True
  with assms(1) have "k = 1" by (simp add: ascii_size)
  with assms(2) show ?thesis by simp
next
  case False
  with assms show ?thesis using high_bytes [OF assms(1) _ assms(2)] by (simp add: not_less)
qed

text \<open>An ASCII byte can delimit: the parts on both sides are well formed on their own.\<close>

lemma ascii_delimits:
  assumes "d < 0x80"
  shows "d \<notin> set xs \<Longrightarrow> wellformed (xs @ d # ys) \<longleftrightarrow> wellformed xs \<and> wellformed ys"
proof (induction "length xs" arbitrary: xs rule: less_induct)
  case less
  show ?case
  proof (cases xs)
    case Nil
    with assms show ?thesis by (simp add: ascii_step empty_wellformed)
  next
    case (Cons b rest)
    then have ne: "xs \<noteq> []" by simp
    have within: "k \<le> length xs" if "size_of (xs @ d # ys) = Some k" for k
    proof (rule ccontr)
      assume "\<not> k \<le> length xs"
      then have "d \<in> set (take k (b # rest @ d # ys))"
        using Cons by (cases k) (auto simp: take_Cons' not_le split: if_splits)
      with that Cons assms have "d = b" by (intro ascii_in_sequence) auto
      with Cons less.prems show False by simp
    qed
    show ?thesis
    proof (cases "size_of xs")
      case None
      then have "size_of (xs @ d # ys) = None"
        using within size_prefix [OF ne] by (metis not_None_eq)
      with None ne show ?thesis using size_stuck by simp
    next
      case (Some k)
      with ne have k: "0 < k" "k \<le> length xs" using size_bounds by auto
      with Some ne have "size_of (xs @ d # ys) = Some k" by (simp add: size_prefix)
      then have "wellformed (xs @ d # ys) \<longleftrightarrow> wellformed (drop k xs @ d # ys)"
        using k size_step [of "xs @ d # ys" k] by simp
      also have "\<dots> \<longleftrightarrow> wellformed (drop k xs) \<and> wellformed ys"
        using k less.prems by (intro less.hyps) (auto dest: in_set_dropD)
      also have "wellformed (drop k xs) \<longleftrightarrow> wellformed xs"
        using Some ne by (simp add: size_step)
      finally show ?thesis .
    qed
  qed
qed

end

definition sequence_size_of :: "u8 list \<Rightarrow> nat option" where
  "sequence_size_of bytes = map_option snd (decode_scalar bytes)"

lemma decode_scalar_high:
  assumes "decode_scalar (b # bytes) = Some (c, k)" and "0x80 \<le> b"
    and "x \<in> set (take k (b # bytes))"
  shows "0x80 \<le> x"
proof -
  from assms(1) have spec: "is_scalar (unat c)" "k = length (utf8_units (unat c))"
    "map unat (take k (b # bytes)) = utf8_units (unat c)"
    unfolding decode_scalar_spec [OF list.distinct(2)] by blast+
  have "0 < k" using spec(2) utf8_units_length(1) by simp
  then obtain j where "k = Suc j" by (cases k) auto
  with arg_cong [OF spec(3), of hd] have "hd (utf8_units (unat c)) = unat b" by simp
  then have "0x80 \<le> unat c"
    using assms(2) by (auto simp: utf8_units_def word_to_nat split: if_splits)
  then have "\<forall>u \<in> set (utf8_units (unat c)). 0x80 \<le> u"
    by (auto simp: utf8_units_def)
  moreover have "unat x \<in> set (utf8_units (unat c))"
    using assms(3) spec(3) by (metis image_eqI set_map)
  ultimately show ?thesis by (simp add: word_to_nat)
qed

interpretation utf8: scalar_decoder sequence_size_of utf8_wellformed
proof unfold_locales
  fix bytes k
  assume "bytes \<noteq> []" and "sequence_size_of bytes = Some k"
  then obtain c where c: "bytes \<noteq> []" "decode_scalar bytes = Some (c, k)"
    by (auto simp: sequence_size_of_def)
  then show "0 < k \<and> k \<le> length bytes"
    using decode_scalar_size decode_scalar_le by auto
  from c show "utf8_wellformed bytes \<longleftrightarrow> utf8_wellformed (drop k bytes)"
    by (rule utf8_wellformed_decode)
next
  fix xs ys :: "u8 list" and k
  assume "xs \<noteq> []" and "k \<le> length xs"
  then show "sequence_size_of (xs @ ys) = Some k \<longleftrightarrow> sequence_size_of xs = Some k"
    by (auto simp: sequence_size_of_def decode_scalar_spec)
next
  fix bytes
  assume "bytes \<noteq> []" and "sequence_size_of bytes = None"
  then show "\<not> utf8_wellformed bytes"
    by (auto simp: sequence_size_of_def elim: utf8_wellformed_nonempty)
next
  show "utf8_wellformed []" by (rule utf8_wellformed.empty)
next
  fix b :: u8 and bytes
  assume "b < 0x80"
  then show "sequence_size_of (b # bytes) = Some 1"
    by (simp add: sequence_size_of_def decode_scalar_def Let_def word_to_nat)
next
  fix b x :: u8 and bytes k
  assume "sequence_size_of (b # bytes) = Some k" "0x80 \<le> b" "x \<in> set (take k (b # bytes))"
  then show "0x80 \<le> x"
    by (auto simp: sequence_size_of_def dest: decode_scalar_high)
qed

section \<open>Properties\<close>

text \<open>
  Property C13. Decoding one scalar from a span succeeds exactly when the span begins with
  the encoding form of a Unicode scalar value, and then stores that value and the length of
  its sequence; every other span (empty, truncated, overlong, surrogate, above U+10FFFF)
  yields the encoding error at offset 0 and leaves both output locations as they were.
\<close>

theorem utf8_decode_one_correct:
  "(common_utf8_decode_one (Some bytes) (Some s) (Some m) =
      (make_result COMMON_UTF8_OK size_max, Some c, Some k) \<longleftrightarrow>
    is_scalar (unat c) \<and> k = length (utf8_units (unat c)) \<and>
    map unat (take k bytes) = utf8_units (unat c)) \<and>
   (common_utf8_decode_one (Some bytes) (Some s) (Some m) =
      (make_result COMMON_UTF8_INVALID_ENCODING 0, Some s, Some m) \<longleftrightarrow>
    \<not> scalar_starts bytes)"
proof (cases "bytes = []")
  case True
  then show ?thesis
    using utf8_units_nonempty
    by (auto simp: common_utf8_decode_one_def make_result_def scalar_starts_def)
next
  case False
  have "common_utf8_decode_one (Some bytes) (Some s) (Some m) =
      (make_result COMMON_UTF8_OK size_max, Some c, Some k) \<longleftrightarrow> decode_scalar bytes = Some (c, k)"
    using False
    by (auto simp: common_utf8_decode_one_def make_result_def split: option.splits)
  moreover have "common_utf8_decode_one (Some bytes) (Some s) (Some m) =
      (make_result COMMON_UTF8_INVALID_ENCODING 0, Some s, Some m) \<longleftrightarrow> decode_scalar bytes = None"
    using False
    by (auto simp: common_utf8_decode_one_def make_result_def split: option.splits)
  ultimately show ?thesis
    using decode_scalar_starts [OF False] unfolding decode_scalar_spec [OF False] by blast
qed

text \<open>
  Property C31. Validation accepts a span exactly when it is a concatenation of encoded
  scalar values, and otherwise reports the offset of the first ill-formed sequence: what
  precedes it is well formed and no encoded scalar starts there.
\<close>

theorem utf8_validate_correct:
  "(common_utf8_validate (Some bytes) = make_result COMMON_UTF8_OK size_max \<longleftrightarrow>
    utf8_wellformed bytes) \<and>
   (common_utf8_validate (Some bytes) = make_result COMMON_UTF8_INVALID_ENCODING offset \<longleftrightarrow>
    offset < length bytes \<and> utf8_wellformed (take offset bytes) \<and>
    \<not> scalar_starts (drop offset bytes))"
proof (cases "utf8_wellformed bytes")
  case True
  then have "validate_from bytes 0 = make_result COMMON_UTF8_OK size_max"
    using validate_from_correct [of 0 bytes] by simp
  moreover have "\<not> (offset < length bytes \<and> utf8_wellformed (take offset bytes) \<and>
      \<not> scalar_starts (drop offset bytes))"
    using True first_ill_formed_unique [of offset bytes "length bytes"] by auto
  ultimately show ?thesis
    using True by (auto simp: common_utf8_validate_def make_result_def)
next
  case False
  then obtain j where j: "validate_from bytes 0 = make_result COMMON_UTF8_INVALID_ENCODING j"
    "j < length bytes" "utf8_wellformed (take j bytes)" "\<not> scalar_starts (drop j bytes)"
    using validate_from_correct [of 0 bytes] by auto
  then have "offset < length bytes \<and> utf8_wellformed (take offset bytes) \<and>
      \<not> scalar_starts (drop offset bytes) \<longleftrightarrow> offset = j"
    using first_ill_formed_unique [of offset bytes j] first_ill_formed_unique [of j bytes offset]
    by (metis less_imp_le nat_neq_iff)
  with False j(1) show ?thesis
    by (auto simp: common_utf8_validate_def make_result_def)
qed

end
