(* ===== verification/RelativePath.thy ===== *)
theory RelativePath
  imports Utf8
begin

text \<open>
  \<open>src/common/relative_path.c\<close>: the portable identity grammar of relative paths, the byte
  ordering of path identities and the component-boundary relation between two of them.
  A path argument is a counted span, \<open>None\<close> for the null pointer; where a routine takes a
  pointer and a size separately the model does too.
\<close>

section \<open>Model of the code\<close>

datatype CommonRelativePathStatus =
    COMMON_RELATIVE_PATH_OK
  | COMMON_RELATIVE_PATH_INVALID_ARGUMENT
  | COMMON_RELATIVE_PATH_EMPTY
  | COMMON_RELATIVE_PATH_EMPTY_COMPONENT
  | COMMON_RELATIVE_PATH_DOT_COMPONENT
  | COMMON_RELATIVE_PATH_BACKSLASH
  | COMMON_RELATIVE_PATH_CONTROL_CHARACTER
  | COMMON_RELATIVE_PATH_INVALID_UTF8

record CommonRelativePathResult =
  path_status :: CommonRelativePathStatus
  path_offset :: nat

definition path_make_result :: "CommonRelativePathStatus \<Rightarrow> nat \<Rightarrow> CommonRelativePathResult" where
  "path_make_result status offset = \<lparr>path_status = status, path_offset = offset\<rparr>"

abbreviation slash :: u8 where "slash \<equiv> 0x2F"
abbreviation backslash :: u8 where "backslash \<equiv> 0x5C"
abbreviation dot :: u8 where "dot \<equiv> 0x2E"

definition component_is_dot :: "u8 list \<Rightarrow> nat \<Rightarrow> nat \<Rightarrow> bool" where
  "component_is_dot bytes start stop \<longleftrightarrow>
     (let len = stop - start in len = 1 \<and> bytes ! start = dot)"

definition component_is_dot_dot :: "u8 list \<Rightarrow> nat \<Rightarrow> nat \<Rightarrow> bool" where
  "component_is_dot_dot bytes start stop \<longleftrightarrow>
     (let len = stop - start in
      len = 2 \<and> bytes ! start = dot \<and> bytes ! (start + 1) = dot)"

definition component_result :: "u8 list \<Rightarrow> nat \<Rightarrow> nat \<Rightarrow> CommonRelativePathResult" where
  "component_result bytes start stop =
     (if start = stop then path_make_result COMMON_RELATIVE_PATH_EMPTY_COMPONENT start
      else if component_is_dot bytes start stop \<or> component_is_dot_dot bytes start stop
      then path_make_result COMMON_RELATIVE_PATH_DOT_COMPONENT start
      else path_make_result COMMON_RELATIVE_PATH_OK size_max)"

text \<open>The \<open>while\<close> loop of the validator over its two cursors, and the check after it.\<close>

function validate_components :: "u8 list \<Rightarrow> nat \<Rightarrow> nat \<Rightarrow> CommonRelativePathResult" where
  "validate_components bytes component_begin position =
     (if position < length bytes then
        (let value = bytes ! position in
         if value = slash then
           (let component = component_result bytes component_begin position in
            if path_status component \<noteq> COMMON_RELATIVE_PATH_OK then component
            else validate_components bytes (position + 1) (position + 1))
         else if value = backslash then
           path_make_result COMMON_RELATIVE_PATH_BACKSLASH position
         else if value < 0x20 then
           path_make_result COMMON_RELATIVE_PATH_CONTROL_CHARACTER position
         else
           (case common_utf8_decode_one (Some (drop position bytes)) (Some 0) (Some 0) of
              (utf8_result, _, sequence_size) \<Rightarrow>
                if utf8_status utf8_result \<noteq> COMMON_UTF8_OK
                then path_make_result COMMON_RELATIVE_PATH_INVALID_UTF8 position
                else validate_components bytes component_begin (position + the sequence_size)))
      else component_result bytes component_begin (length bytes))"
  by pat_completeness auto
termination
  by (relation "measure (\<lambda>(bytes, component_begin, position). length bytes - position)")
     (auto simp: common_utf8_decode_one_def make_result_def
           split: option.splits if_splits dest: decode_scalar_size)

declare validate_components.simps [simp del]

definition common_relative_path_validate_utf8 :: "u8 list option \<Rightarrow> CommonRelativePathResult" where
  "common_relative_path_validate_utf8 path =
     (case path of
        None \<Rightarrow> path_make_result COMMON_RELATIVE_PATH_INVALID_ARGUMENT size_max
      | Some bytes \<Rightarrow>
          if length bytes = 0 then path_make_result COMMON_RELATIVE_PATH_EMPTY 0
          else validate_components bytes 0 0)"

text \<open>
  \<open>memcmp\<close> of the C library: only the sign of its result is specified, so the model
  returns the sign.
\<close>

fun memcmp :: "u8 list \<Rightarrow> u8 list \<Rightarrow> nat \<Rightarrow> int" where
  "memcmp (x # xs) (y # ys) (Suc n) =
     (if x < y then -1 else if y < x then 1 else memcmp xs ys n)"
| "memcmp _ _ _ = 0"

definition common_relative_path_compare_bytes ::
    "u8 list option \<Rightarrow> nat \<Rightarrow> u8 list option \<Rightarrow> nat \<Rightarrow> int" where
  "common_relative_path_compare_bytes left left_size right right_size =
     (let common = (if left_size < right_size then left_size else right_size);
          by_size = (if left_size < right_size then -1 else if right_size < left_size then 1 else 0)
      in if common = 0 then by_size
         else if left = None \<and> right = None then by_size
         else if left = None then -1
         else if right = None then 1
         else let order = memcmp (the left) (the right) common
              in if order \<noteq> 0 then order else by_size)"

definition common_relative_path_is_equal_or_descendant ::
    "u8 list option \<Rightarrow> nat \<Rightarrow> u8 list option \<Rightarrow> nat \<Rightarrow> bool" where
  "common_relative_path_is_equal_or_descendant candidate candidate_size root root_size =
     (if candidate = None \<or> root = None \<or> root_size = 0 \<or> candidate_size < root_size then False
      else if memcmp (the candidate) (the root) root_size \<noteq> 0 then False
      else candidate_size = root_size \<or> the candidate ! root_size = slash)"

fun common_relative_path_status_name :: "CommonRelativePathStatus \<Rightarrow> string" where
  "common_relative_path_status_name COMMON_RELATIVE_PATH_OK = ''ok''"
| "common_relative_path_status_name COMMON_RELATIVE_PATH_INVALID_ARGUMENT = ''invalid-argument''"
| "common_relative_path_status_name COMMON_RELATIVE_PATH_EMPTY = ''empty''"
| "common_relative_path_status_name COMMON_RELATIVE_PATH_EMPTY_COMPONENT = ''empty-component''"
| "common_relative_path_status_name COMMON_RELATIVE_PATH_DOT_COMPONENT = ''dot-component''"
| "common_relative_path_status_name COMMON_RELATIVE_PATH_BACKSLASH = ''backslash''"
| "common_relative_path_status_name COMMON_RELATIVE_PATH_CONTROL_CHARACTER = ''control-character''"
| "common_relative_path_status_name COMMON_RELATIVE_PATH_INVALID_UTF8 = ''invalid-utf8''"

section \<open>The grammar\<close>

text \<open>The components of a path are the stretches between separators.\<close>

fun components :: "u8 list \<Rightarrow> u8 list list" where
  "components [] = [[]]"
| "components (b # bytes) =
     (if b = slash then [] # components bytes
      else (b # hd (components bytes)) # tl (components bytes))"

definition good_component :: "u8 list \<Rightarrow> bool" where
  "good_component c \<longleftrightarrow> c \<noteq> [] \<and> c \<noteq> [dot] \<and> c \<noteq> [dot, dot]"

definition good_byte :: "u8 \<Rightarrow> bool" where
  "good_byte b \<longleftrightarrow> b \<noteq> backslash \<and> 0x20 \<le> b"

definition path_identity :: "u8 list \<Rightarrow> bool" where
  "path_identity bytes \<longleftrightarrow>
     utf8_wellformed bytes \<and> list_all good_byte bytes \<and> list_all good_component (components bytes)"

lemma components_nonempty [simp]: "components bytes \<noteq> []" "[] \<noteq> components bytes"
  by (cases bytes; auto)+

lemma components_prefix:
  "slash \<notin> set xs \<Longrightarrow> components (xs @ ys) = (xs @ hd (components ys)) # tl (components ys)"
  by (induction xs) (auto simp: components_nonempty)

lemma components_plain: "slash \<notin> set xs \<Longrightarrow> components xs = [xs]"
  using components_prefix [of xs "[]"] by simp

lemma components_slash: "components (xs @ slash # ys) = components xs @ components ys"
  by (induction xs) (auto simp: components_nonempty hd_append)

lemma component_result_ok:
  assumes "b \<le> e" and "e \<le> length bytes"
  shows "path_status (component_result bytes b e) = COMMON_RELATIVE_PATH_OK \<longleftrightarrow>
    good_component (take (e - b) (drop b bytes))"
proof -
  let ?c = "take (e - b) (drop b bytes)"
  have len: "length ?c = e - b" and nth: "\<And>i. i < e - b \<Longrightarrow> ?c ! i = bytes ! (b + i)"
    using assms by auto
  have "?c = [] \<longleftrightarrow> b = e" using assms len by auto
  moreover have "?c = [dot] \<longleftrightarrow> component_is_dot bytes b e"
    using len nth by (auto simp: component_is_dot_def list_eq_iff_nth_eq)
  moreover have "?c = [dot, dot] \<longleftrightarrow> component_is_dot_dot bytes b e"
    using len nth
    by (auto simp: component_is_dot_dot_def list_eq_iff_nth_eq less_Suc_eq numeral_2_eq_2)
  ultimately show ?thesis
    by (auto simp: component_result_def path_make_result_def good_component_def)
qed

section \<open>The validator against the grammar\<close>

lemma drop_split:
  "b \<le> p \<Longrightarrow> drop b xs = take (p - b) (drop b xs) @ drop p xs"
  by (metis append_take_drop_id drop_drop le_add_diff_inverse2)

lemma drop_decode:
  assumes "position < length bytes"
  shows "validate_components bytes component_start position =
    (let value = bytes ! position in
     if value = slash then
       (if path_status (component_result bytes component_start position) \<noteq> COMMON_RELATIVE_PATH_OK
        then component_result bytes component_start position
        else validate_components bytes (position + 1) (position + 1))
     else if value = backslash then path_make_result COMMON_RELATIVE_PATH_BACKSLASH position
     else if value < 0x20 then path_make_result COMMON_RELATIVE_PATH_CONTROL_CHARACTER position
     else (case sequence_size_of (drop position bytes) of
             None \<Rightarrow> path_make_result COMMON_RELATIVE_PATH_INVALID_UTF8 position
           | Some k \<Rightarrow> validate_components bytes component_start (position + k)))"
  using assms
  by (subst validate_components.simps)
     (auto simp: common_utf8_decode_one_def make_result_def sequence_size_of_def Let_def
           split: option.splits)

text \<open>
  A scalar that passes the three byte tests leaves only good bytes behind, none of them a
  separator: the tests on its first byte decide for the whole sequence.
\<close>

lemma plain_sequence:
  assumes "sequence_size_of (b # bytes) = Some k"
    and "b \<noteq> slash" and "b \<noteq> backslash" and "\<not> b < 0x20"
    and "x \<in> set (take k (b # bytes))"
  shows "x \<noteq> slash" and "good_byte x"
proof -
  have "x \<noteq> d" if "d < 0x80" "b \<noteq> d" for d
    using utf8.ascii_in_sequence [OF assms(1,5)] that by auto
  moreover have "\<not> x < 0x20"
  proof
    assume "x < 0x20"
    then have "x < 0x80" by (simp add: word_to_nat)
    with \<open>x < 0x20\<close> assms(4) show False using utf8.ascii_in_sequence [OF assms(1,5)] by simp
  qed
  ultimately show "x \<noteq> slash" and "good_byte x"
    using assms(2,3) by (auto simp: good_byte_def not_less [symmetric])
qed

lemma validate_components_ok:
  assumes "component_start \<le> position" and "position \<le> length bytes"
    and "slash \<notin> set (take (position - component_start) (drop component_start bytes))"
  shows "path_status (validate_components bytes component_start position) = COMMON_RELATIVE_PATH_OK
    \<longleftrightarrow> utf8_wellformed (drop position bytes) \<and> list_all good_byte (drop position bytes) \<and>
        list_all good_component (components (drop component_start bytes))"
  using assms
proof (induction "length bytes - position" arbitrary: component_start position rule: less_induct)
  case less
  let ?c = "take (position - component_start) (drop component_start bytes)"
  have split: "drop component_start bytes = ?c @ drop position bytes"
    using less.prems(1) by (rule drop_split)
  show ?case
  proof (cases "position < length bytes")
    case False
    then have "position = length bytes" using less.prems by simp
    with less.prems show ?thesis
      by (simp add: validate_components.simps component_result_ok components_plain
          utf8_wellformed.empty)
  next
    case True
    define byte rest where "byte = bytes ! position" and "rest = drop (position + 1) bytes"
    have here: "drop position bytes = byte # rest"
      using True by (simp add: byte_def rest_def Cons_nth_drop_Suc)
    have nth: "bytes ! position = byte" by (simp add: byte_def)
    consider "byte = slash" | "byte = backslash" | "byte < 0x20" "byte \<noteq> slash" "byte \<noteq> backslash"
      | "byte \<noteq> slash" "byte \<noteq> backslash" "\<not> byte < 0x20"
      by blast
    then show ?thesis
    proof cases
      case 1
      let ?next = "validate_components bytes (position + 1) (position + 1)"
      have "components (drop component_start bytes) = ?c # components rest"
        using less.prems(3) 1 by (subst split) (simp add: here components_slash components_plain)
      moreover have "path_status ?next = COMMON_RELATIVE_PATH_OK \<longleftrightarrow>
          utf8_wellformed rest \<and> list_all good_byte rest \<and> list_all good_component (components rest)"
        using less.hyps [of "position + 1" "position + 1"] True by (simp add: rest_def)
      moreover have "good_byte byte" using 1 by (simp add: good_byte_def)
      moreover have "utf8_wellformed (byte # rest) \<longleftrightarrow> utf8_wellformed rest"
        using 1 by (simp add: utf8.ascii_step)
      ultimately show ?thesis
        using True 1 less.prems unfolding drop_decode [OF True] here
        by (simp add: nth component_result_ok)
    next
      case 2
      then show ?thesis
        unfolding drop_decode [OF True] here by (simp add: nth path_make_result_def good_byte_def)
    next
      case 3
      then show ?thesis
        unfolding drop_decode [OF True] here
        by (simp add: nth path_make_result_def good_byte_def not_le)
    next
      case 4
      show ?thesis
      proof (cases "sequence_size_of (byte # rest)")
        case None
        then have "\<not> utf8_wellformed (byte # rest)" by (simp add: utf8.size_stuck)
        with 4 None show ?thesis
          unfolding drop_decode [OF True] here by (simp add: nth path_make_result_def)
      next
        case (Some k)
        have k: "0 < k" "k \<le> length (byte # rest)" using utf8.size_bounds [OF _ Some] by auto
        have "length (byte # rest) = length bytes - position"
          using arg_cong [OF here, of length] by simp
        with k True have kl: "position + k \<le> length bytes" by linarith
        have seq: "drop position bytes = take k (byte # rest) @ drop (position + k) bytes"
          using append_take_drop_id [of k "byte # rest"]
          unfolding here [symmetric] drop_drop by (simp only: add.commute)
        have plain: "slash \<notin> set (take k (byte # rest))" "list_all good_byte (take k (byte # rest))"
          using plain_sequence [OF Some] 4 by (auto simp: list_all_iff)
        have longer: "take (position + k - component_start) (drop component_start bytes) =
            ?c @ take k (byte # rest)"
          using take_add [of "position - component_start" k "drop component_start bytes"]
            less.prems(1) unfolding here [symmetric] by simp
        have "path_status (validate_components bytes component_start (position + k)) =
              COMMON_RELATIVE_PATH_OK \<longleftrightarrow>
            utf8_wellformed (drop (position + k) bytes) \<and>
            list_all good_byte (drop (position + k) bytes) \<and>
            list_all good_component (components (drop component_start bytes))"
          using less.prems plain k kl True
          by (intro less.hyps) (simp_all only: longer set_append, auto)
        moreover have "utf8_wellformed (drop position bytes) \<longleftrightarrow>
            utf8_wellformed (drop (position + k) bytes)"
          using utf8.size_step [OF _ Some]
          unfolding here [symmetric] drop_drop by (simp add: here add.commute)
        moreover have "list_all good_byte (drop position bytes) \<longleftrightarrow>
            list_all good_byte (drop (position + k) bytes)"
          using plain(2) by (subst seq) simp
        ultimately show ?thesis
          using 4 Some unfolding drop_decode [OF True] by (simp add: nth here)
      qed
    qed
  qed
qed

text \<open>Every component of an accepted path is a well-formed string of its own.\<close>

lemma components_wellformed:
  "utf8_wellformed bytes \<Longrightarrow> c \<in> set (components bytes) \<Longrightarrow> utf8_wellformed c"
proof (induction "length bytes" arbitrary: bytes rule: less_induct)
  case less
  show ?case
  proof (cases "slash \<in> set bytes")
    case True
    then obtain xs ys where bytes: "bytes = xs @ slash # ys" "slash \<notin> set xs"
      by (meson split_list_first)
    then have "utf8_wellformed xs \<and> utf8_wellformed ys"
      using less.prems(1) utf8.ascii_delimits [of slash xs ys] by simp
    with less.prems(2) bytes less.hyps [of ys] show ?thesis
      by (auto simp: components_slash components_plain)
  qed (use less.prems in \<open>simp add: components_plain\<close>)
qed

section \<open>Ordering and descent\<close>

text \<open>The comparison of two whole spans, by recursion on their bytes.\<close>

fun compare_spans :: "u8 list \<Rightarrow> u8 list \<Rightarrow> int" where
  "compare_spans [] [] = 0"
| "compare_spans [] (y # ys) = -1"
| "compare_spans (x # xs) [] = 1"
| "compare_spans (x # xs) (y # ys) =
     (if x < y then -1 else if y < x then 1 else compare_spans xs ys)"

lemma memcmp_lengths:
  "(let order = memcmp xs ys (min (length xs) (length ys))
    in if order \<noteq> 0 then order
       else if length xs < length ys then -1 else if length ys < length xs then 1 else 0) =
   compare_spans xs ys"
  by (induction xs ys rule: compare_spans.induct) (auto simp: Let_def)

lemma compare_bytes_spans:
  "common_relative_path_compare_bytes (Some xs) (length xs) (Some ys) (length ys) =
   compare_spans xs ys"
proof (cases "xs = [] \<or> ys = []")
  case True
  then show ?thesis
    by (cases xs; cases ys) (auto simp: common_relative_path_compare_bytes_def)
next
  case False
  moreover have "(if length xs < length ys then length xs else length ys) =
      min (length xs) (length ys)" by simp
  ultimately show ?thesis
    unfolding memcmp_lengths [symmetric] common_relative_path_compare_bytes_def
    by (auto simp: Let_def)
qed

lemma compare_spans_lexordp:
  "compare_spans xs ys < 0 \<longleftrightarrow> ord_class.lexordp xs ys" "compare_spans xs ys = 0 \<longleftrightarrow> xs = ys"
  "0 < compare_spans xs ys \<longleftrightarrow> ord_class.lexordp ys xs"
  by (induction xs ys rule: compare_spans.induct) auto

lemma memcmp_prefix:
  "n = length ys \<Longrightarrow> n \<le> length xs \<Longrightarrow> memcmp xs ys n = 0 \<longleftrightarrow> take n xs = ys"
  by (induction xs ys n rule: memcmp.induct) (auto simp: not_less)

lemma components_inject: "components xs = components ys \<Longrightarrow> xs = ys"
proof (induction xs arbitrary: ys)
  case Nil
  then show ?case by (cases ys) (auto split: if_splits)
next
  case (Cons x xs)
  then obtain y zs where ys: "ys = y # zs" by (cases ys) (auto split: if_splits)
  from Cons ys show ?case
    by (cases "components xs"; cases "components zs") (auto split: if_splits)
qed

lemma components_below:
  "components c = components r @ below \<Longrightarrow> below \<noteq> [] \<Longrightarrow> \<exists>s. c = r @ slash # s"
proof (induction r arbitrary: c)
  case Nil
  then show ?case by (cases c) (auto split: if_splits)
next
  case (Cons b r)
  obtain x c' where c: "c = x # c'" using Cons.prems by (cases c) (auto split: if_splits)
  have "x = b \<and> components c' = components r @ below"
    using Cons.prems(1) c
    by (cases "components c'"; cases "components r") (auto split: if_splits)
  with Cons.IH [OF _ Cons.prems(2)] c show ?case by simp
qed

text \<open>Paths are ordered by the comparison of the code, so lists of them can be sorted.\<close>

datatype path_identity_bytes = Path_Identity (identity_bytes: "u8 list")

instantiation path_identity_bytes :: linorder
begin

definition less_path_identity_bytes :: "path_identity_bytes \<Rightarrow> path_identity_bytes \<Rightarrow> bool" where
  "less_path_identity_bytes p q \<longleftrightarrow>
     common_relative_path_compare_bytes (Some (identity_bytes p)) (length (identity_bytes p))
       (Some (identity_bytes q)) (length (identity_bytes q)) < 0"

definition less_eq_path_identity_bytes :: "path_identity_bytes \<Rightarrow> path_identity_bytes \<Rightarrow> bool" where
  "less_eq_path_identity_bytes p q \<longleftrightarrow>
     common_relative_path_compare_bytes (Some (identity_bytes p)) (length (identity_bytes p))
       (Some (identity_bytes q)) (length (identity_bytes q)) \<le> 0"

instance
proof
  fix p q r :: path_identity_bytes
  have le: "p \<le> q \<longleftrightarrow> ord_class.lexordp_eq (identity_bytes p) (identity_bytes q)" for p q
    unfolding less_eq_path_identity_bytes_def compare_bytes_spans
    using compare_spans_lexordp [of "identity_bytes p" "identity_bytes q"]
    by (auto simp: lexordp_eq_conv_lexord le_less)
  have lt: "p < q \<longleftrightarrow> ord_class.lexordp (identity_bytes p) (identity_bytes q)" for p q
    unfolding less_path_identity_bytes_def compare_bytes_spans
    by (rule compare_spans_lexordp)
  show "p < q \<longleftrightarrow> p \<le> q \<and> \<not> q \<le> p"
    unfolding lt le by (metis lexordp_conv_lexordp_eq)
  show "p \<le> p" unfolding le by (rule lexordp_eq_refl)
  show "p \<le> q \<Longrightarrow> q \<le> r \<Longrightarrow> p \<le> r" unfolding le by (rule lexordp_eq_trans)
  show "p \<le> q \<Longrightarrow> q \<le> p \<Longrightarrow> p = q"
    unfolding le by (metis lexordp_eq_antisym path_identity_bytes.expand)
  show "p \<le> q \<or> q \<le> p" unfolding le by (rule lexordp_eq_linear)
qed

end

section \<open>Properties\<close>

text \<open>
  Property C14. The validator accepts exactly the path identities: nonempty, well-formed
  UTF-8, no backslash, no C0 control byte, and no component that is empty, \<open>.\<close> or \<open>..\<close>.
\<close>

theorem relative_path_validate_correct:
  "path_status (common_relative_path_validate_utf8 (Some bytes)) = COMMON_RELATIVE_PATH_OK \<longleftrightarrow>
   bytes \<noteq> [] \<and> utf8_wellformed bytes \<and>
   list_all (\<lambda>b. b \<noteq> backslash \<and> 0x20 \<le> b) bytes \<and>
   list_all (\<lambda>c. c \<notin> {[], [dot], [dot, dot]} \<and> utf8_wellformed c) (components bytes)"
proof (cases "bytes = []")
  case True
  then show ?thesis by (simp add: common_relative_path_validate_utf8_def path_make_result_def)
next
  case False
  then show ?thesis
    using validate_components_ok [of 0 0 bytes] components_wellformed [of bytes]
    by (auto simp: common_relative_path_validate_utf8_def list_all_iff good_byte_def
        good_component_def)
qed

text \<open>
  Over whole spans the comparison is the lexicographic order of unsigned bytes:
  negative, zero and positive decide between less, equal and greater.
\<close>

theorem relative_path_compare_lexicographic:
  "let order = common_relative_path_compare_bytes (Some xs) (length xs) (Some ys) (length ys)
   in (order < 0 \<longleftrightarrow> ord_class.lexordp xs ys) \<and> (order = 0 \<longleftrightarrow> xs = ys) \<and> (0 < order \<longleftrightarrow> ord_class.lexordp ys xs)"
  by (simp add: Let_def compare_bytes_spans compare_spans_lexordp)

text \<open>
  Property C32. The descent relation respects component boundaries: a candidate lies at or
  below a nonempty root exactly when the root's components begin the candidate's.
\<close>

theorem relative_path_descendant_components:
  "common_relative_path_is_equal_or_descendant (Some c) (length c) (Some r) (length r) \<longleftrightarrow>
   r \<noteq> [] \<and> (\<exists>below. components c = components r @ below)"
proof -
  have code: "common_relative_path_is_equal_or_descendant (Some c) (length c) (Some r) (length r)
      \<longleftrightarrow> r \<noteq> [] \<and> (c = r \<or> (\<exists>s. c = r @ slash # s))"
  proof (cases "length r \<le> length c")
    case True
    then have "common_relative_path_is_equal_or_descendant (Some c) (length c) (Some r) (length r)
        \<longleftrightarrow> r \<noteq> [] \<and> take (length r) c = r \<and> (length c = length r \<or> c ! length r = slash)"
      using memcmp_prefix [of "length r" r c]
      by (auto simp: common_relative_path_is_equal_or_descendant_def)
    also have "take (length r) c = r \<and> (length c = length r \<or> c ! length r = slash) \<longleftrightarrow>
        c = r \<or> (\<exists>s. c = r @ slash # s)" (is "?split \<longleftrightarrow> _")
    proof
      assume ?split
      then show "c = r \<or> (\<exists>s. c = r @ slash # s)"
        using True Cons_nth_drop_Suc [of "length r" c] append_take_drop_id [of "length r" c]
        by (metis le_neq_implies_less order_refl take_all)
    qed auto
    finally show ?thesis .
  next
    case False
    then show ?thesis by (auto simp: common_relative_path_is_equal_or_descendant_def)
  qed
  have "(\<exists>s. c = r @ slash # s) \<longleftrightarrow> (\<exists>below. below \<noteq> [] \<and> components c = components r @ below)"
    using components_below by (auto simp: components_slash components_nonempty)
  with code show ?thesis by (metis append_Nil2 components_inject)
qed

end
