(* ===== verification/AsciiGlob.thy ===== *)
theory AsciiGlob
  imports Prelude
begin

text \<open>
  \<open>src/common/ascii_glob.c\<close>: validation of glob patterns and matching by rows of reachable
  text positions. A NUL-terminated string is the list of its bytes before the terminator,
  and a cursor into it is the list of the bytes from the cursor on, so that reading the
  terminator is the empty list. \<open>None\<close> is the null pointer.
\<close>

section \<open>Model of the code\<close>

datatype AsciiGlobStatus =
    ASCII_GLOB_OK
  | ASCII_GLOB_INVALID_ARGUMENT
  | ASCII_GLOB_MALFORMED_PATTERN
  | ASCII_GLOB_ALLOCATION_FAILED

abbreviation star :: u8 where "star \<equiv> 0x2A"
abbreviation question :: u8 where "question \<equiv> 0x3F"
abbreviation bracket :: u8 where "bracket \<equiv> 0x5B"
abbreviation bracket_end :: u8 where "bracket_end \<equiv> 0x5D"
abbreviation escape :: u8 where "escape \<equiv> 0x5C"
abbreviation hyphen :: u8 where "hyphen \<equiv> 0x2D"
abbreviation bang :: u8 where "bang \<equiv> 0x21"
abbreviation caret :: u8 where "caret \<equiv> 0x5E"

text \<open>\<open>read_class_atom\<close> on the class content left of \<open>end\<close>: the byte and the cursor after it.\<close>

fun read_class_atom :: "u8 list \<Rightarrow> (u8 \<times> u8 list) option" where
  "read_class_atom [] = None"
| "read_class_atom (current # rest) =
     (if current = escape then
        (case rest of [] \<Rightarrow> None | atom # after \<Rightarrow> Some (atom, after))
      else if current = hyphen then None
      else Some (current, rest))"

text \<open>The search for the first unescaped closing bracket: the content and what follows it.\<close>

fun find_class_end :: "u8 list \<Rightarrow> (u8 list \<times> u8 list) option" where
  "find_class_end [] = None"
| "find_class_end (b # cursor) =
     (if b = bracket_end then Some ([], cursor)
      else if b = escape then
        (case cursor of
           [] \<Rightarrow> None
         | e # rest \<Rightarrow> map_option (\<lambda>(content, after). (b # e # content, after)) (find_class_end rest))
      else map_option (\<lambda>(content, after). (b # content, after)) (find_class_end cursor))"

lemma read_class_atom_shorter:
  "read_class_atom content = Some (v, rest) \<Longrightarrow> length rest < length content"
  by (cases content) (auto split: if_splits list.splits)

text \<open>
  The item loop over the content of a class: \<open>None\<close> is the malformed pattern, otherwise
  whether the target was among the items (never, when no target is supplied).
\<close>

function parse_class_items :: "u8 option \<Rightarrow> u8 list \<Rightarrow> nat \<Rightarrow> bool \<Rightarrow> bool option" where
  "parse_class_items target content item_count matched =
     (case content of
        [] \<Rightarrow> if item_count = 0 then None else Some matched
      | b # rest \<Rightarrow>
          if b = hyphen then
            (if item_count \<noteq> 0 \<and> rest \<noteq> [] then None
             else parse_class_items target rest (item_count + 1)
                    (matched \<or> target = Some hyphen))
          else
            (case read_class_atom content of
               None \<Rightarrow> None
             | Some (lo, cursor) \<Rightarrow>
                 if cursor \<noteq> [] \<and> hd cursor = hyphen \<and> tl cursor \<noteq> [] then
                   (case read_class_atom (tl cursor) of
                      None \<Rightarrow> None
                    | Some (hi, after) \<Rightarrow>
                        if hi < lo then None
                        else parse_class_items target after (item_count + 1)
                               (matched \<or> (\<exists>t. target = Some t \<and> lo \<le> t \<and> t \<le> hi)))
                 else parse_class_items target cursor (item_count + 1)
                        (matched \<or> target = Some lo)))"
  by pat_completeness auto
termination
  by (relation "measure (\<lambda>(target, content, item_count, matched). length content)")
     (auto dest!: read_class_atom_shorter simp del: read_class_atom.simps)

declare parse_class_items.simps [simp del]

text \<open>
  \<open>parse_class\<close>: its status, the cursor after the class and the value it stores to
  \<open>*out_match\<close>. The internal callers always pass the output cursor and either both or none
  of \<open>target\<close> and \<open>out_match\<close>.
\<close>

definition parse_class :: "u8 list \<Rightarrow> u8 option \<Rightarrow> AsciiGlobStatus \<times> u8 list \<times> bool" where
  "parse_class pattern target =
     (if pattern = [] \<or> hd pattern \<noteq> bracket then (ASCII_GLOB_INVALID_ARGUMENT, [], False)
      else
        (let cursor = tl pattern;
             negated = (cursor \<noteq> [] \<and> (hd cursor = bang \<or> hd cursor = caret));
             content_start = (if negated then tl cursor else cursor)
         in case find_class_end content_start of
              None \<Rightarrow> (ASCII_GLOB_MALFORMED_PATTERN, [], False)
            | Some (content, after) \<Rightarrow>
                if content = [] then (ASCII_GLOB_MALFORMED_PATTERN, after, False)
                else (case parse_class_items target content 0 False of
                        None \<Rightarrow> (ASCII_GLOB_MALFORMED_PATTERN, after, False)
                      | Some matched \<Rightarrow>
                          (ASCII_GLOB_OK, after, if negated then \<not> matched else matched))))"

lemma find_class_end_shorter:
  "find_class_end cursor = Some (content, after) \<Longrightarrow> length after < length cursor"
  by (induction cursor arbitrary: content rule: find_class_end.induct)
     (auto split: if_splits list.splits, force+)

lemma parse_class_shorter:
  "parse_class pattern target = (ASCII_GLOB_OK, after, m) \<Longrightarrow> length after < length pattern"
  by (cases pattern)
     (auto simp: parse_class_def Let_def split: if_splits option.splits
           dest!: find_class_end_shorter)

function validate_pattern :: "u8 list \<Rightarrow> AsciiGlobStatus" where
  "validate_pattern cursor =
     (case cursor of
        [] \<Rightarrow> ASCII_GLOB_OK
      | b # rest \<Rightarrow>
          if b = escape then
            (if rest = [] then ASCII_GLOB_MALFORMED_PATTERN else validate_pattern (tl rest))
          else if b = bracket then
            (case parse_class cursor None of
               (status, after, _) \<Rightarrow>
                 if status \<noteq> ASCII_GLOB_OK then status else validate_pattern after)
          else validate_pattern rest)"
  by pat_completeness auto
termination
  by (relation "measure length") (auto dest: parse_class_shorter [OF sym])

declare validate_pattern.simps [simp del]

definition ascii_glob_validate :: "u8 list option \<Rightarrow> AsciiGlobStatus" where
  "ascii_glob_validate pattern =
     (case pattern of None \<Rightarrow> ASCII_GLOB_INVALID_ARGUMENT | Some p \<Rightarrow> validate_pattern p)"

text \<open>
  A row holds one flag per text position \<open>0..text_size\<close>: whether the pattern read so far
  can end there. The star row carries the flag of the previous index along, the other rows
  move every flag over one byte that the pattern element accepts.
\<close>

fun star_row_from :: "bool \<Rightarrow> bool list \<Rightarrow> bool list" where
  "star_row_from carried [] = []"
| "star_row_from carried (p # previous) =
     (let current = p \<or> carried in current # star_row_from current previous)"

definition star_row :: "bool list \<Rightarrow> bool list" where
  "star_row previous = star_row_from False previous"

definition byte_row :: "(u8 \<Rightarrow> bool) \<Rightarrow> u8 list \<Rightarrow> bool list \<Rightarrow> bool list" where
  "byte_row accepts subject previous = False # map2 (\<lambda>p byte. p \<and> accepts byte) previous subject"

text \<open>
  The class row reparses the class for every text byte and stops at the first status that
  is not OK; an empty text parses it once without a target to find the cursor after it.
\<close>

fun class_flags ::
    "u8 list \<Rightarrow> u8 list \<Rightarrow> bool list \<Rightarrow> AsciiGlobStatus \<times> u8 list \<times> bool list" where
  "class_flags cursor [] previous =
     (case parse_class cursor None of (status, after, _) \<Rightarrow> (status, after, []))"
| "class_flags cursor [target] previous =
     (case parse_class cursor (Some target) of
        (status, after, class_match) \<Rightarrow> (status, after, [hd previous \<and> class_match]))"
| "class_flags cursor (target # subject) previous =
     (case parse_class cursor (Some target) of
        (status, _, class_match) \<Rightarrow>
          if status \<noteq> ASCII_GLOB_OK then (status, [], [])
          else (case class_flags cursor subject (tl previous) of
                  (status', after, flags) \<Rightarrow> (status', after, (hd previous \<and> class_match) # flags)))"

lemma class_flags_shorter:
  "class_flags cursor subject previous = (ASCII_GLOB_OK, after, flags) \<Longrightarrow> length after < length cursor"
  by (induction cursor subject previous arbitrary: flags rule: class_flags.induct)
     (auto split: prod.splits if_splits dest: parse_class_shorter)

text \<open>The main loop: \<open>None\<close> for an error status met on the way, otherwise the last row.\<close>

function match_rows :: "u8 list \<Rightarrow> u8 list \<Rightarrow> bool list \<Rightarrow> AsciiGlobStatus + bool list" where
  "match_rows cursor subject previous =
     (case cursor of
        [] \<Rightarrow> Inr previous
      | b # rest \<Rightarrow>
          if b = star then match_rows (dropWhile (\<lambda>c. c = star) rest) subject (star_row previous)
          else if b = question then match_rows rest subject (byte_row (\<lambda>_. True) subject previous)
          else if b = bracket then
            (case class_flags cursor subject previous of
               (status, after, flags) \<Rightarrow>
                 if status \<noteq> ASCII_GLOB_OK then Inl status
                 else match_rows after subject (False # flags))
          else if b = escape \<and> rest \<noteq> [] then
            match_rows (tl rest) subject (byte_row (\<lambda>byte. byte = hd rest) subject previous)
          else match_rows rest subject (byte_row (\<lambda>byte. byte = b) subject previous))"
  by pat_completeness auto
termination
  by (relation "measure (\<lambda>(cursor, subject, previous). length cursor)")
     (auto dest: class_flags_shorter [OF sym] simp: le_imp_less_Suc length_dropWhile_le)

declare match_rows.simps [simp del]

text \<open>
  \<open>allocated\<close> is the answer of \<open>calloc\<close> to the request for two rows. The result is the
  status and the contents of \<open>*out_match\<close>, \<open>None\<close> where that pointer is null.
\<close>

definition ascii_glob_match ::
    "bool \<Rightarrow> u8 list option \<Rightarrow> u8 list option \<Rightarrow> bool option \<Rightarrow> AsciiGlobStatus \<times> bool option" where
  "ascii_glob_match allocated pattern subject out_match =
     (let cleared = map_option (\<lambda>_. False) out_match in
      if pattern = None \<or> subject = None \<or> out_match = None
      then (ASCII_GLOB_INVALID_ARGUMENT, cleared)
      else
        (let status = ascii_glob_validate pattern; subject_size = length (the subject) in
         if status \<noteq> ASCII_GLOB_OK then (status, cleared)
         else if subject_size = size_max \<or> size_max div 2 < subject_size + 1
         then (ASCII_GLOB_ALLOCATION_FAILED, cleared)
         else if \<not> allocated then (ASCII_GLOB_ALLOCATION_FAILED, cleared)
         else
           (case match_rows (the pattern) (the subject) (True # replicate subject_size False) of
              Inl error \<Rightarrow> (error, cleared)
            | Inr row \<Rightarrow> (ASCII_GLOB_OK, Some (row ! subject_size)))))"

fun ascii_glob_status_name :: "AsciiGlobStatus \<Rightarrow> string" where
  "ascii_glob_status_name ASCII_GLOB_OK = ''ok''"
| "ascii_glob_status_name ASCII_GLOB_INVALID_ARGUMENT = ''invalid-argument''"
| "ascii_glob_status_name ASCII_GLOB_MALFORMED_PATTERN = ''malformed-pattern''"
| "ascii_glob_status_name ASCII_GLOB_ALLOCATION_FAILED = ''allocation-failed''"


section \<open>The glob language\<close>

text \<open>
  The abstract side: the grammar of a class as the set of bytes it stands for, the
  well-formed patterns, and the texts a pattern matches.
\<close>

inductive class_atom :: "u8 list \<Rightarrow> u8 \<Rightarrow> bool" where
  atom_raw: "v \<noteq> escape \<Longrightarrow> v \<noteq> hyphen \<Longrightarrow> v \<noteq> bracket_end \<Longrightarrow> class_atom [v] v"
| atom_escaped: "class_atom [escape, v] v"

inductive class_tail :: "u8 list \<Rightarrow> u8 set \<Rightarrow> bool" where
  tail_end: "class_tail [] {}"
| tail_hyphen: "class_tail [hyphen] {hyphen}"
| tail_single: "class_atom a v \<Longrightarrow> class_tail rest S \<Longrightarrow> class_tail (a @ rest) (insert v S)"
| tail_range: "class_atom a lo \<Longrightarrow> class_atom b hi \<Longrightarrow> lo \<le> hi \<Longrightarrow> class_tail rest S \<Longrightarrow>
    class_tail (a @ hyphen # b @ rest) ({lo..hi} \<union> S)"

inductive class_content :: "u8 list \<Rightarrow> u8 set \<Rightarrow> bool" where
  content_hyphen: "class_tail rest S \<Longrightarrow> class_content (hyphen # rest) (insert hyphen S)"
| content_items: "class_tail content S \<Longrightarrow> content \<noteq> [] \<Longrightarrow> hd content \<noteq> hyphen \<Longrightarrow>
    class_content content S"

inductive glob_class :: "u8 list \<Rightarrow> u8 set \<Rightarrow> bool" where
  class_plain: "class_content content S \<Longrightarrow> hd content \<noteq> bang \<Longrightarrow> hd content \<noteq> caret \<Longrightarrow>
    glob_class (bracket # content @ [bracket_end]) S"
| class_negated: "class_content content S \<Longrightarrow> n = bang \<or> n = caret \<Longrightarrow>
    glob_class (bracket # n # content @ [bracket_end]) (- S)"

inductive glob_wellformed :: "u8 list \<Rightarrow> bool" where
  wf_end: "glob_wellformed []"
| wf_byte: "b \<noteq> escape \<Longrightarrow> b \<noteq> bracket \<Longrightarrow> glob_wellformed p \<Longrightarrow> glob_wellformed (b # p)"
| wf_escaped: "glob_wellformed p \<Longrightarrow> glob_wellformed (escape # b # p)"
| wf_class: "glob_class c S \<Longrightarrow> glob_wellformed p \<Longrightarrow> glob_wellformed (c @ p)"

inductive glob_matches :: "u8 list \<Rightarrow> u8 list \<Rightarrow> bool" where
  match_end: "glob_matches [] []"
| match_star: "glob_matches p s \<Longrightarrow> glob_matches (star # p) (skipped @ s)"
| match_one: "glob_matches p s \<Longrightarrow> glob_matches (question # p) (b # s)"
| match_class: "glob_class c S \<Longrightarrow> b \<in> S \<Longrightarrow> glob_matches p s \<Longrightarrow> glob_matches (c @ p) (b # s)"
| match_escaped: "glob_matches p s \<Longrightarrow> glob_matches (escape # b # p) (b # s)"
| match_literal: "b \<noteq> star \<Longrightarrow> b \<noteq> question \<Longrightarrow> b \<noteq> bracket \<Longrightarrow> b \<noteq> escape \<Longrightarrow>
    glob_matches p s \<Longrightarrow> glob_matches (b # p) (b # s)"

inductive_cases wellformed_cons: "glob_wellformed (b # p)"
inductive_cases matches_cons: "glob_matches (b # p) s"

section \<open>Classes\<close>

text \<open>A class body has no raw closing bracket and ends in no escape.\<close>

fun class_body :: "u8 list \<Rightarrow> bool" where
  "class_body [] \<longleftrightarrow> True"
| "class_body (b # rest) \<longleftrightarrow>
     (if b = escape then (case rest of [] \<Rightarrow> False | _ # after \<Rightarrow> class_body after)
      else b \<noteq> bracket_end \<and> class_body rest)"

lemma find_class_end_found:
  "class_body content \<Longrightarrow> find_class_end (content @ bracket_end # after) = Some (content, after)"
proof (induction content rule: class_body.induct)
  case 1
  then show ?case by simp
next
  case (2 b rest)
  show ?case
  proof (cases "b = escape")
    case True
    with "2.prems" obtain e tail where "rest = e # tail" "class_body tail"
      by (cases rest) simp_all
    with True "2.IH"(1) show ?thesis by simp
  next
    case False
    with 2 show ?thesis by simp
  qed
qed

lemma find_class_end_body:
  "find_class_end cursor = Some (content, after) \<Longrightarrow>
     class_body content \<and> cursor = content @ bracket_end # after"
proof (induction cursor arbitrary: content rule: find_class_end.induct)
  case 1
  then show ?case by simp
next
  case (2 b cursor)
  show ?case
  proof (cases "b = bracket_end")
    case True
    with "2.prems" show ?thesis by simp
  next
    case raw: False
    show ?thesis
    proof (cases "b = escape")
      case True
      with "2.prems" obtain e rest where cursor: "cursor = e # rest" by (cases cursor) simp_all
      with True "2.prems" obtain c where "find_class_end rest = Some (c, after)"
        and content: "content = b # e # c" by auto
      with "2.IH"(1) raw True cursor have "class_body c \<and> rest = c @ bracket_end # after"
        by blast
      with True cursor content show ?thesis by simp
    next
      case False
      with raw "2.prems" obtain c where "find_class_end cursor = Some (c, after)"
        and content: "content = b # c" by auto
      with "2.IH"(2) raw False have "class_body c \<and> cursor = c @ bracket_end # after"
        by blast
      with raw False content show ?thesis by simp
    qed
  qed
qed

lemma find_class_end_iff:
  "find_class_end cursor = Some (content, after) \<longleftrightarrow>
     class_body content \<and> cursor = content @ bracket_end # after"
  by (metis find_class_end_found find_class_end_body)

lemma class_body_append: "class_body a \<Longrightarrow> class_body b \<Longrightarrow> class_body (a @ b)"
  by (induction a rule: class_body.induct) (auto split: list.splits if_splits)

lemma class_atom_body: "class_atom a v \<Longrightarrow> class_body a"
  by (auto elim!: class_atom.cases)

lemma class_tail_body: "class_tail content S \<Longrightarrow> class_body content"
  by (induction rule: class_tail.induct)
     (auto dest: class_atom_body intro!: class_body_append)

lemma class_content_body: "class_content content S \<Longrightarrow> class_body content \<and> content \<noteq> []"
  by (auto elim!: class_content.cases dest: class_tail_body)

lemma read_class_atom_read: "class_atom a v \<Longrightarrow> read_class_atom (a @ rest) = Some (v, rest)"
  by (erule class_atom.cases) simp_all

lemma read_class_atom_atom:
  assumes "class_body content" and "read_class_atom content = Some (v, rest)"
  obtains a where "class_atom a v" "content = a @ rest" "class_body rest"
proof (cases content)
  case Nil
  with assms show ?thesis by simp
next
  case (Cons b tail)
  show ?thesis
  proof (cases "b = escape")
    case True
    with assms Cons obtain e after where "tail = e # after" "class_body after"
      by (cases tail) simp_all
    with assms Cons True that [of "[escape, v]"] show ?thesis
      by (simp add: atom_escaped)
  next
    case False
    with assms Cons have "b \<noteq> hyphen" "b = v" "rest = tail" by (simp_all split: if_splits)
    with assms Cons False that [of "[v]"] show ?thesis
      by (simp add: atom_raw)
  qed
qed

lemma class_atom_head: "class_atom a v \<Longrightarrow> a \<noteq> [] \<and> hd a \<noteq> hyphen"
  by (auto elim!: class_atom.cases)

lemma class_atom_prefix_body: "class_atom a v \<Longrightarrow> class_body (a @ rest) \<Longrightarrow> class_body rest"
  by (auto elim!: class_atom.cases)

lemma class_tail_head: "class_tail content S \<Longrightarrow> content \<noteq> [] \<Longrightarrow> hd content = hyphen \<Longrightarrow> content = [hyphen]"
  by (cases rule: class_tail.cases) (auto dest: class_atom_head)

text \<open>After the first item the loop accepts exactly the item lists and collects their bytes.\<close>

lemma parse_class_items_end: "parse_class_items target [] (Suc n) matched = Some matched"
  by (subst parse_class_items.simps) simp

lemma parse_class_items_single:
  assumes "class_atom a v" and "class_tail rest S"
  shows "parse_class_items target (a @ rest) n matched =
    parse_class_items target rest (Suc n) (matched \<or> target = Some v)"
proof -
  obtain b tail where head: "a @ rest = b # tail" "b \<noteq> hyphen"
    using class_atom_head [OF assms(1)] by (cases a) simp_all
  have "\<not> (rest \<noteq> [] \<and> hd rest = hyphen \<and> tl rest \<noteq> [])"
    by (metis class_tail_head [OF assms(2)] list.sel(3))
  then show ?thesis
    using head read_class_atom_read [OF assms(1), of rest]
    by (subst parse_class_items.simps) (auto simp del: read_class_atom.simps)
qed

lemma parse_class_items_range:
  assumes "class_atom a lo" and "class_atom b hi" and "lo \<le> hi"
  shows "parse_class_items target (a @ hyphen # b @ rest) n matched =
    parse_class_items target rest (Suc n)
      (matched \<or> (\<exists>t. target = Some t \<and> lo \<le> t \<and> t \<le> hi))"
proof -
  obtain c tail where head: "a @ hyphen # b @ rest = c # tail" "c \<noteq> hyphen"
    using class_atom_head [OF assms(1)] by (cases a) simp_all
  show ?thesis
    using head class_atom_head [OF assms(2)] assms(3)
      read_class_atom_read [OF assms(1), of "hyphen # b @ rest"]
      read_class_atom_read [OF assms(2), of rest]
    by (subst parse_class_items.simps) (simp add: not_less [symmetric])
qed

lemma parse_class_items_tail:
  "class_tail content S \<Longrightarrow>
     parse_class_items target content (Suc n) matched =
       Some (matched \<or> (\<exists>t. target = Some t \<and> t \<in> S))"
proof (induction arbitrary: n matched rule: class_tail.induct)
  case tail_end
  then show ?case by (simp add: parse_class_items_end)
next
  case tail_hyphen
  show ?case by (subst parse_class_items.simps) (simp add: parse_class_items_end eq_commute)
next
  case (tail_single a v rest S)
  then show ?case by (auto simp: parse_class_items_single)
next
  case (tail_range a lo b hi rest S)
  then show ?case by (auto simp: parse_class_items_range)
qed

lemma parse_class_items_accepted:
  "parse_class_items target content n matched = Some m \<Longrightarrow> class_body content \<Longrightarrow>
     0 < n \<or> hd content \<noteq> hyphen \<Longrightarrow> \<exists>S. class_tail content S"
proof (induction target content n matched rule: parse_class_items.induct)
  case (1 target content n matched)
  note run = "1.prems"(1) [unfolded parse_class_items.simps [of target content]]
  show ?case
  proof (cases content)
    case Nil
    then show ?thesis using tail_end by blast
  next
    case (Cons b rest)
    show ?thesis
    proof (cases "b = hyphen")
      case True
      with run Cons "1.prems"(3) have "rest = []" by (simp split: if_splits)
      with Cons True show ?thesis using tail_hyphen by blast
    next
      case False
      then obtain lo cursor where first: "read_class_atom content = Some (lo, cursor)"
        using run Cons by (auto split: option.splits)
      obtain a where a: "class_atom a lo" "content = a @ cursor" "class_body cursor"
        using read_class_atom_atom [OF "1.prems"(2) first] .
      show ?thesis
      proof (cases "cursor \<noteq> [] \<and> hd cursor = hyphen \<and> tl cursor \<noteq> []")
        case range: True
        then obtain more where cursor: "cursor = hyphen # more" by (cases cursor) simp_all
        with a(3) have body: "class_body (tl cursor)" by simp
        obtain hi after where second: "read_class_atom (tl cursor) = Some (hi, after)"
          using run Cons False first range by (auto split: option.splits)
        obtain b' where b': "class_atom b' hi" "tl cursor = b' @ after" "class_body after"
          using read_class_atom_atom [OF body second] .
        have le: "lo \<le> hi"
          and "parse_class_items target after (n + 1)
             (matched \<or> (\<exists>t. target = Some t \<and> lo \<le> t \<and> t \<le> hi)) = Some m"
          using run Cons False first range second by (auto split: if_splits)
        with "1.IH"(2) [OF Cons False first refl range second refl] b'(3)
        obtain S where "class_tail after S" by (auto simp: not_less)
        with tail_range [OF a(1) b'(1) le] a(2) b'(2) cursor show ?thesis by auto
      next
        case single: False
        have "parse_class_items target cursor (n + 1) (matched \<or> target = Some lo) = Some m"
          using run Cons False first single by (auto split: if_splits)
        with "1.IH"(3) [OF Cons False first refl single] a(3)
        obtain S where "class_tail cursor S" by auto
        with tail_single [OF a(1)] a(2) show ?thesis by metis
      qed
    qed
  qed
qed

text \<open>The first item may be a raw hyphen.\<close>

lemma parse_class_items_hyphen:
  "parse_class_items target (hyphen # rest) 0 matched =
     parse_class_items target rest (Suc 0) (matched \<or> target = Some hyphen)"
  by (subst parse_class_items.simps) simp

lemma parse_class_items_content:
  assumes "class_content content S"
  shows "parse_class_items target content 0 matched =
    Some (matched \<or> (\<exists>t. target = Some t \<and> t \<in> S))"
  using assms
proof (cases rule: class_content.cases)
  case (content_hyphen rest S')
  then show ?thesis
    by (auto simp: parse_class_items_hyphen parse_class_items_tail)
next
  case content_items
  from this(1) show ?thesis
  proof (cases rule: class_tail.cases)
    case (tail_single a v rest S')
    then show ?thesis by (auto simp: parse_class_items_single parse_class_items_tail)
  next
    case (tail_range a lo b hi rest S')
    then show ?thesis by (auto simp: parse_class_items_range parse_class_items_tail)
  qed (use content_items in simp_all)
qed

lemma parse_class_items_iff:
  assumes "class_body content" and "content \<noteq> []"
  shows "parse_class_items target content 0 False = Some m \<longleftrightarrow>
    (\<exists>S. class_content content S \<and> m = (\<exists>t. target = Some t \<and> t \<in> S))"
proof
  assume run: "parse_class_items target content 0 False = Some m"
  have "\<exists>S. class_content content S"
  proof (cases "hd content = hyphen")
    case True
    then obtain rest where content: "content = hyphen # rest"
      using assms(2) by (cases content) simp_all
    with assms(1) have "class_body rest" by simp
    moreover have "parse_class_items target rest (Suc 0) (target = Some hyphen) = Some m"
      using run content by (simp add: parse_class_items_hyphen)
    ultimately obtain S where "class_tail rest S"
      using parse_class_items_accepted zero_less_Suc by blast
    with content show ?thesis using content_hyphen by blast
  next
    case False
    with run assms show ?thesis
      using parse_class_items_accepted content_items by blast
  qed
  with run show "\<exists>S. class_content content S \<and> m = (\<exists>t. target = Some t \<and> t \<in> S)"
    using parse_class_items_content by fastforce
qed (auto simp: parse_class_items_content)

lemma class_content_head:
  "class_content content S \<Longrightarrow> content \<noteq> []"
  by (simp add: class_content_body)

lemma parse_class_class:
  assumes "glob_class c S"
  shows "\<exists>m. parse_class (c @ p) target = (ASCII_GLOB_OK, p, m) \<and>
    (\<forall>t. target = Some t \<longrightarrow> m = (t \<in> S))"
  using assms
proof cases
  case (class_plain content)
  then have "find_class_end (content @ bracket_end # p) = Some (content, p)"
    by (simp add: find_class_end_iff class_content_body)
  then show ?thesis
    using class_plain class_content_head [OF class_plain(2)]
    by (simp add: parse_class_def Let_def parse_class_items_content hd_append)
next
  case (class_negated content S' n)
  then have "find_class_end (content @ bracket_end # p) = Some (content, p)"
    by (simp add: find_class_end_iff class_content_body)
  then show ?thesis
    using class_negated class_content_head [OF class_negated(3)]
    by (auto simp: parse_class_def Let_def parse_class_items_content)
qed

lemma parse_class_accepted:
  assumes "parse_class pattern target = (ASCII_GLOB_OK, after, m)"
  obtains c S where "pattern = c @ after" "glob_class c S"
proof -
  have head: "pattern \<noteq> []" "hd pattern = bracket"
    using assms by (auto simp: parse_class_def split: if_splits)
  then obtain cursor where pattern: "pattern = bracket # cursor" by (cases pattern) simp_all
  define negated where "negated \<longleftrightarrow> cursor \<noteq> [] \<and> (hd cursor = bang \<or> hd cursor = caret)"
  define start where "start = (if negated then tl cursor else cursor)"
  obtain content where found: "find_class_end start = Some (content, after)" and "content \<noteq> []"
    and items: "parse_class_items target content 0 False \<noteq> None"
    using assms unfolding parse_class_def pattern
    by (auto simp: Let_def negated_def [symmetric] start_def [symmetric]
             split: option.splits if_splits prod.splits)
  then have start: "start = content @ bracket_end # after" and "class_body content"
    by (simp_all add: find_class_end_iff)
  with items \<open>content \<noteq> []\<close> obtain S where S: "class_content content S"
    using parse_class_items_iff by blast
  show ?thesis
  proof (cases negated)
    case True
    then obtain n where "cursor = n # start" "n = bang \<or> n = caret"
      unfolding negated_def start_def by (cases cursor) auto
    then show ?thesis
      using that [OF _ class_negated [OF S]] pattern start by simp
  next
    case False
    then have "cursor = start" by (simp add: start_def)
    moreover have "hd content \<noteq> bang" "hd content \<noteq> caret"
      using False \<open>cursor = start\<close> start \<open>content \<noteq> []\<close> by (auto simp: negated_def hd_append)
    ultimately show ?thesis
      using that [of "bracket # content @ [bracket_end]"] class_plain [OF S] pattern start
      by simp
  qed
qed

lemma glob_class_head: "glob_class c S \<Longrightarrow> \<exists>rest. c = bracket # rest"
  by (erule glob_class.cases) auto

text \<open>The class at the front of a pattern, its bytes and what follows it are determined.\<close>

lemma glob_class_unique:
  assumes "glob_class c S" and "glob_class c' S'" and "c @ p = c' @ p'"
  shows "c = c' \<and> p = p' \<and> S = S'"
proof -
  have same: "p = p' \<and> (t \<in> S) = (t \<in> S')" for t
    using parse_class_class [OF assms(1), of p "Some t"]
      parse_class_class [OF assms(2), of p' "Some t"] assms(3) by auto
  then have "p = p'" "S = S'" by auto
  with assms(3) show ?thesis by simp
qed

lemma parse_class_status:
  "parse_class (bracket # p) target = (status, after, m) \<Longrightarrow>
     status = ASCII_GLOB_OK \<or> status = ASCII_GLOB_MALFORMED_PATTERN"
  by (auto simp: parse_class_def Let_def split: option.splits if_splits prod.splits)

section \<open>Validation\<close>

lemma validate_pattern_wellformed:
  "validate_pattern p = (if glob_wellformed p then ASCII_GLOB_OK else ASCII_GLOB_MALFORMED_PATTERN)"
proof (induction p rule: validate_pattern.induct)
  case (1 cursor)
  show ?case
  proof (cases cursor)
    case Nil
    then show ?thesis by (subst validate_pattern.simps) (simp add: wf_end)
  next
    case (Cons b rest)
    consider (escape) "b = escape" | (bracket) "b = bracket"
      | (byte) "b \<noteq> escape" "b \<noteq> bracket" by blast
    then show ?thesis
    proof cases
      case escape
      have "glob_wellformed cursor \<longleftrightarrow> rest \<noteq> [] \<and> glob_wellformed (tl rest)"
        unfolding Cons escape
        by (auto elim!: wellformed_cons simp: neq_Nil_conv intro: wf_escaped
                 dest: glob_class_head)
      then show ?thesis
        using "1.IH"(1) [OF Cons escape] Cons escape by (subst validate_pattern.simps) auto
    next
      case bracket
      obtain status after m where run: "parse_class cursor None = (status, after, m)"
        by (cases "parse_class cursor None")
      show ?thesis
      proof (cases "status = ASCII_GLOB_OK")
        case True
        obtain c S where c: "cursor = c @ after" "glob_class c S"
          using run True parse_class_accepted by blast
        have "glob_wellformed cursor \<longleftrightarrow> glob_wellformed after"
        proof
          assume "glob_wellformed cursor"
          then show "glob_wellformed after"
          proof cases
            case (wf_class c' S' p)
            with c glob_class_unique show ?thesis by metis
          qed (use Cons bracket in simp_all)
        qed (use c wf_class in blast)
        then show ?thesis
          using "1.IH"(2) [OF Cons _ bracket run [symmetric] refl] run Cons bracket True
          by (subst validate_pattern.simps) simp
      next
        case False
        have "\<not> glob_wellformed cursor"
        proof
          assume "glob_wellformed cursor"
          then show False
          proof cases
            case (wf_class c' S' p)
            then have "parse_class cursor None = (ASCII_GLOB_OK, p, m)" for m
              using parse_class_class [of c' S' p None] run False by auto
            with run False show False by simp
          qed (use Cons bracket in simp_all)
        qed
        moreover have "status = ASCII_GLOB_MALFORMED_PATTERN"
          using parse_class_status run Cons bracket False by blast
        ultimately show ?thesis
          using run Cons bracket by (subst validate_pattern.simps) simp
      qed
    next
      case byte
      have "glob_wellformed cursor \<longleftrightarrow> glob_wellformed rest"
        unfolding Cons
        by (auto elim!: wellformed_cons intro: wf_byte byte dest: glob_class_head simp: byte)
      then show ?thesis
        using "1.IH"(3) [OF Cons byte] Cons byte by (subst validate_pattern.simps) simp
    qed
  qed
qed

section \<open>Matching\<close>

lemma matches_star:
  "glob_matches (star # p) s \<longleftrightarrow> (\<exists>k\<le>length s. glob_matches p (drop k s))"
proof
  assume "glob_matches (star # p) s"
  then show "\<exists>k\<le>length s. glob_matches p (drop k s)"
  proof cases
    case (match_star s' skipped)
    then show ?thesis by (intro exI [of _ "length skipped"]) simp
  qed (use glob_class_head in fastforce)+
next
  assume "\<exists>k\<le>length s. glob_matches p (drop k s)"
  then obtain k where "glob_matches p (drop k s)" by blast
  from match_star [OF this, of "take k s"] show "glob_matches (star # p) s" by simp
qed

lemma matches_stars:
  "glob_matches (star # dropWhile (\<lambda>c. c = star) rest) s \<longleftrightarrow> glob_matches (star # rest) s"
proof (induction rest arbitrary: s)
  case Nil
  then show ?case by simp
next
  case (Cons b rest)
  show ?case
  proof (cases "b = star")
    case True
    have "glob_matches (star # star # rest) s \<longleftrightarrow> glob_matches (star # rest) s"
    proof
      assume "glob_matches (star # star # rest) s"
      then obtain k l where "k \<le> length s" "l \<le> length s - k" "glob_matches rest (drop (l + k) s)"
        by (auto simp: matches_star)
      then show "glob_matches (star # rest) s"
        by (auto simp: matches_star intro!: exI [of _ "l + k"])
    next
      assume "glob_matches (star # rest) s"
      then show "glob_matches (star # star # rest) s"
        by (subst matches_star) (auto intro: exI [of _ 0])
    qed
    with True Cons.IH show ?thesis by simp
  qed simp
qed

lemma matches_question:
  "glob_matches (question # p) s \<longleftrightarrow> (\<exists>b s'. s = b # s' \<and> glob_matches p s')"
  by (auto elim!: matches_cons intro: match_one dest: glob_class_head)

lemma matches_escape:
  "glob_matches (escape # e # p) s \<longleftrightarrow> (\<exists>b s'. s = b # s' \<and> b = e \<and> glob_matches p s')"
  by (auto elim!: matches_cons intro: match_escaped dest: glob_class_head)

lemma matches_literal:
  assumes "e \<noteq> star" "e \<noteq> question" "e \<noteq> bracket" "e \<noteq> escape"
  shows "glob_matches (e # p) s \<longleftrightarrow> (\<exists>b s'. s = b # s' \<and> b = e \<and> glob_matches p s')"
  using assms by (auto elim!: matches_cons intro: match_literal dest: glob_class_head)

lemma matches_class:
  assumes "glob_class c S"
  shows "glob_matches (c @ p) s \<longleftrightarrow> (\<exists>b s'. s = b # s' \<and> b \<in> S \<and> glob_matches p s')"
proof
  obtain rest where c: "c = bracket # rest" using glob_class_head [OF assms] by blast
  assume "glob_matches (c @ p) s"
  then show "\<exists>b s'. s = b # s' \<and> b \<in> S \<and> glob_matches p s'"
  proof cases
    case (match_class c' S' b p' s')
    with glob_class_unique [OF assms, of c' S' p p'] show ?thesis by auto
  qed (use c in simp_all)
qed (use assms match_class in blast)

text \<open>\<open>reaches cursor subject row\<close>: from a position flagged in the row the rest of the pattern matches.\<close>

definition reaches :: "u8 list \<Rightarrow> u8 list \<Rightarrow> bool list \<Rightarrow> bool" where
  "reaches cursor subject row \<longleftrightarrow>
     (\<exists>j\<le>length subject. row ! j \<and> glob_matches cursor (drop j subject))"

lemma reaches_end: "reaches [] subject row \<longleftrightarrow> row ! length subject"
proof -
  have "s = []" if "glob_matches [] s" for s
    using that by cases (auto dest: glob_class_head)
  then have "glob_matches [] s \<longleftrightarrow> s = []" for s using match_end by blast
  then have "reaches [] subject row \<longleftrightarrow> (\<exists>j\<le>length subject. row ! j \<and> length subject \<le> j)"
    by (simp add: reaches_def)
  then show ?thesis by (metis le_antisym le_refl)
qed

lemma star_row_from_length [simp]: "length (star_row_from c row) = length row"
  by (induction row arbitrary: c) (simp_all add: Let_def)

lemma star_row_from_nth:
  "k < length row \<Longrightarrow> star_row_from c row ! k \<longleftrightarrow> c \<or> (\<exists>j\<le>k. row ! j)"
proof (induction row arbitrary: c k)
  case (Cons p row)
  then show ?case
  proof (cases k)
    case (Suc k')
    have "(\<exists>j\<le>Suc k'. (p # row) ! j) \<longleftrightarrow> p \<or> (\<exists>j\<le>k'. row ! j)"
      by (metis Suc_le_mono nth_Cons_0 nth_Cons_Suc not0_implies_Suc zero_le)
    with Cons Suc show ?thesis by (auto simp: Let_def)
  qed (auto simp: Let_def)
qed simp

lemma star_row_length [simp]: "length (star_row row) = length row"
  by (simp add: star_row_def)

lemma reaches_star:
  assumes "length previous = Suc (length subject)"
  shows "reaches p subject (star_row previous) \<longleftrightarrow> reaches (star # p) subject previous"
proof -
  have row: "star_row previous ! k \<longleftrightarrow> (\<exists>j\<le>k. previous ! j)" if "k \<le> length subject" for k
    using that assms by (simp add: star_row_def star_row_from_nth)
  show ?thesis
  proof
    assume "reaches p subject (star_row previous)"
    then obtain k j where "k \<le> length subject" "j \<le> k" "previous ! j"
      "glob_matches p (drop k subject)" by (auto simp: reaches_def row)
    then show "reaches (star # p) subject previous"
      unfolding reaches_def matches_star
      by (intro exI [of _ j] conjI exI [of _ "k - j"]) simp_all
  next
    assume "reaches (star # p) subject previous"
    then obtain j k where "j \<le> length subject" "previous ! j" "k \<le> length subject - j"
      "glob_matches p (drop (k + j) subject)" by (auto simp: reaches_def matches_star)
    then show "reaches p subject (star_row previous)"
      unfolding reaches_def by (intro exI [of _ "k + j"]) (auto simp: row intro: exI [of _ j])
  qed
qed

lemma byte_row_length:
  "length previous = Suc (length subject) \<Longrightarrow> length (byte_row accepts subject previous) = Suc (length subject)"
  by (simp add: byte_row_def)

lemma reaches_byte:
  assumes "length previous = Suc (length subject)"
    and element: "\<And>s. glob_matches pattern s \<longleftrightarrow>
      (\<exists>b s'. s = b # s' \<and> accepts b \<and> glob_matches p s')"
  shows "reaches p subject (byte_row accepts subject previous) \<longleftrightarrow> reaches pattern subject previous"
proof -
  have row: "byte_row accepts subject previous ! Suc k \<longleftrightarrow> previous ! k \<and> accepts (subject ! k)"
    if "k < length subject" for k using that assms(1) by (simp add: byte_row_def)
  have step: "glob_matches pattern (drop k subject) \<longleftrightarrow>
      k < length subject \<and> accepts (subject ! k) \<and> glob_matches p (drop (Suc k) subject)" for k
    by (cases "k < length subject") (auto simp: element Cons_nth_drop_Suc [symmetric])
  show ?thesis
  proof
    assume "reaches p subject (byte_row accepts subject previous)"
    then obtain j where j: "j \<le> length subject" "byte_row accepts subject previous ! j"
      "glob_matches p (drop j subject)" by (auto simp: reaches_def)
    then obtain k where "j = Suc k" by (cases j) (simp_all add: byte_row_def)
    with j show "reaches pattern subject previous"
      unfolding reaches_def step by (intro exI [of _ k]) (simp add: row)
  next
    assume "reaches pattern subject previous"
    then obtain k where "k < length subject" "previous ! k" "accepts (subject ! k)"
      "glob_matches p (drop (Suc k) subject)" by (auto simp: reaches_def step)
    then show "reaches p subject (byte_row accepts subject previous)"
      unfolding reaches_def by (intro exI [of _ "Suc k"]) (simp add: row)
  qed
qed

lemma class_flags_byte_row:
  assumes "glob_class c S" and "length previous = Suc (length subject)"
  shows "class_flags (c @ p) subject previous =
    (ASCII_GLOB_OK, p, tl (byte_row (\<lambda>b. b \<in> S) subject previous))"
  using assms(2)
proof (induction "c @ p" subject previous rule: class_flags.induct)
  case (1 previous)
  then show ?case
    using parse_class_class [OF assms(1), of p None] by (auto simp: byte_row_def)
next
  case (2 target previous)
  then show ?case
    using parse_class_class [OF assms(1), of p "Some target"]
    by (cases previous) (auto simp: byte_row_def)
next
  case (3 target b subject previous)
  then show ?case
    using parse_class_class [OF assms(1), of p "Some target"]
    by (cases previous) (auto simp: byte_row_def)
qed

lemma wellformed_drop_stars:
  "glob_wellformed p \<Longrightarrow> glob_wellformed (dropWhile (\<lambda>c. c = star) p)"
proof (induction p)
  case (Cons b p)
  then show ?case by (auto elim!: wellformed_cons dest: glob_class_head)
qed simp

lemma match_rows_reaches:
  "glob_wellformed cursor \<Longrightarrow> length previous = Suc (length subject) \<Longrightarrow>
     \<exists>row. match_rows cursor subject previous = Inr row \<and>
           (row ! length subject \<longleftrightarrow> reaches cursor subject previous)"
proof (induction cursor subject previous rule: match_rows.induct)
  case (1 cursor subject previous)
  note run = match_rows.simps [of cursor subject previous]
  show ?case
  proof (cases cursor)
    case Nil
    have "match_rows [] subject previous = Inr previous" by (subst match_rows.simps) simp
    then show ?thesis using reaches_end [of subject previous] Nil by simp
  next
    case (Cons b rest)
    consider (star) "b = star" | (question) "b = question" | (bracket) "b = bracket"
      | (escape) "b = escape" | (literal) "b \<noteq> star" "b \<noteq> question" "b \<noteq> bracket" "b \<noteq> escape"
      by blast
    then show ?thesis
    proof cases
      case star
      have wf: "glob_wellformed (dropWhile (\<lambda>c. c = star) rest)"
        using "1.prems"(1) unfolding Cons star
        by (auto elim!: wellformed_cons dest: glob_class_head simp: wellformed_drop_stars)
      have "reaches (dropWhile (\<lambda>c. c = star) rest) subject (star_row previous) \<longleftrightarrow>
          reaches cursor subject previous"
        unfolding reaches_star [OF "1.prems"(2)] unfolding Cons star reaches_def matches_stars ..
      then show ?thesis
        using "1.IH"(1) [OF Cons star wf] "1.prems"(2) Cons star unfolding run by simp
    next
      case question
      have wf: "glob_wellformed rest"
        using "1.prems"(1) unfolding Cons question
        by (auto elim!: wellformed_cons dest: glob_class_head)
      show ?thesis
        using "1.IH"(2) [OF Cons _ question wf] Cons question
          reaches_byte [OF "1.prems"(2), of cursor "\<lambda>_. True" rest]
        unfolding run by (simp add: matches_question byte_row_length [OF "1.prems"(2)])
    next
      case bracket
      have "\<exists>c S p. cursor = c @ p \<and> glob_class c S \<and> glob_wellformed p"
        using "1.prems"(1)
      proof cases
        case wf_class
        then show ?thesis by blast
      qed (use Cons bracket in simp_all)
      then obtain c S p where c: "cursor = c @ p" "glob_class c S" and wf: "glob_wellformed p"
        by blast
      let ?row = "byte_row (\<lambda>b. b \<in> S) subject previous"
      have row: "False # tl ?row = ?row" by (simp add: byte_row_def)
      have flags: "class_flags cursor subject previous = (ASCII_GLOB_OK, p, tl ?row)"
        unfolding c(1) using c(2) "1.prems"(2) by (rule class_flags_byte_row)
      have unroll: "match_rows cursor subject previous = match_rows p subject ?row"
        unfolding run using Cons bracket flags by (simp add: row)
      have "reaches p subject ?row \<longleftrightarrow> reaches cursor subject previous"
        unfolding c(1) by (rule reaches_byte [OF "1.prems"(2) matches_class [OF c(2)]])
      then show ?thesis
        using "1.IH"(3) [OF Cons _ _ bracket flags [symmetric] refl] wf bracket
        unfolding unroll by (simp add: row byte_row_length [OF "1.prems"(2)])
    next
      case escape
      obtain e p where rest: "rest = e # p" and wf: "glob_wellformed p"
        using "1.prems"(1) unfolding Cons escape
        by (auto elim!: wellformed_cons dest: glob_class_head)
      show ?thesis
        using "1.IH"(4) [OF Cons] wf Cons escape rest
          reaches_byte [OF "1.prems"(2), of cursor "\<lambda>b. b = e" p]
        unfolding run by (simp add: matches_escape byte_row_length [OF "1.prems"(2)])
    next
      case literal
      have wf: "glob_wellformed rest"
        using "1.prems"(1) literal unfolding Cons
        by (auto elim!: wellformed_cons dest: glob_class_head)
      show ?thesis
        using "1.IH"(5) [OF Cons literal(1-3)] wf Cons literal
          reaches_byte [OF "1.prems"(2), of cursor "\<lambda>c. c = b" rest]
        unfolding run by (simp add: matches_literal byte_row_length [OF "1.prems"(2)])
    qed
  qed
qed

section \<open>Correctness\<close>

text \<open>
  Property C12. \<open>ascii_glob_match\<close> on non-null arguments answers, for a pattern outside the
  glob grammar, that it is malformed; for one inside it and a text whose rows can be
  allocated, exactly whether the declarative matching relation holds; and it leaves the
  result false in every other case.
\<close>

theorem ascii_glob_match_correct:
  "ascii_glob_match allocated (Some pattern) (Some subject) (Some stale) =
     (if \<not> glob_wellformed pattern then (ASCII_GLOB_MALFORMED_PATTERN, Some False)
      else if allocated \<and> length subject + 1 \<le> size_max div 2
      then (ASCII_GLOB_OK, Some (glob_matches pattern subject))
      else (ASCII_GLOB_ALLOCATION_FAILED, Some False))"
proof -
  let ?first = "True # replicate (length subject) False"
  have start: "reaches pattern subject ?first \<longleftrightarrow> glob_matches pattern subject"
    by (auto simp: reaches_def nth_Cons' intro: exI [of _ 0] split: if_splits)
  show ?thesis
    using match_rows_reaches [of pattern ?first subject] start
    by (auto simp: ascii_glob_match_def ascii_glob_validate_def validate_pattern_wellformed Let_def)
qed

text \<open>
  \<open>ascii_glob_validate\<close> decides the grammar, rejecting only a null pointer as an
  invalid argument, and it accepts exactly the patterns that \<open>ascii_glob_match\<close>, with memory
  available, does not refuse for the empty text.
\<close>

theorem ascii_glob_validate_grammar:
  "ascii_glob_validate pattern =
     (case pattern of None \<Rightarrow> ASCII_GLOB_INVALID_ARGUMENT
      | Some p \<Rightarrow> if glob_wellformed p then ASCII_GLOB_OK else ASCII_GLOB_MALFORMED_PATTERN) \<and>
   ascii_glob_validate pattern = fst (ascii_glob_match True pattern (Some []) (Some False))"
proof -
  have decide: "ascii_glob_validate pattern =
     (case pattern of None \<Rightarrow> ASCII_GLOB_INVALID_ARGUMENT
      | Some p \<Rightarrow> if glob_wellformed p then ASCII_GLOB_OK else ASCII_GLOB_MALFORMED_PATTERN)"
    by (simp add: ascii_glob_validate_def validate_pattern_wellformed split: option.split)
  show ?thesis
  proof (cases pattern)
    case None
    then show ?thesis by (simp add: ascii_glob_match_def ascii_glob_validate_def)
  next
    case (Some p)
    have "fst (ascii_glob_match True pattern (Some []) (Some False)) = ascii_glob_validate pattern"
      using match_rows_reaches [of p "[True]" "[]"]
      by (auto simp: Some ascii_glob_match_def ascii_glob_validate_def
            validate_pattern_wellformed Let_def)
    with decide show ?thesis by simp
  qed
qed

end
