(* ===== verification/Allocation.thy ===== *)
theory Allocation
  imports Prelude
begin

text \<open>
  \<open>include/common/common.h\<close>: the tracked allocator, the checked size arithmetic, the
  byte-order helpers and the ASCII comparison. The C allocator itself is outside the
  sources: \<open>grants i n\<close> says whether the \<open>i\<close>-th request made through it, for \<open>n\<close> bytes,
  succeeds. The two tracking counters are \<open>size_t\<close> cells that wrap.
\<close>

section \<open>Tracked allocation\<close>

text \<open>A block is the list of its cells; \<open>None\<close> is a cell that has not been written yet.\<close>

type_synonym block = "u8 option list"
type_synonym allocator = "nat \<Rightarrow> u64 \<Rightarrow> bool"

record tracker =
  g_allocated_bytes :: u64
  g_allocations_count :: u64
  allocator_calls :: nat

definition mem_alloc :: "allocator \<Rightarrow> u64 \<Rightarrow> tracker \<Rightarrow> block option \<times> tracker" where
  "mem_alloc grants amount t =
     (if amount = 0 then (None, t)
      else
        (let called = t\<lparr>allocator_calls := allocator_calls t + 1\<rparr> in
         if grants (allocator_calls t) amount then
           (Some (replicate (unat amount) None),
            called\<lparr>g_allocated_bytes := g_allocated_bytes t + amount,
                   g_allocations_count := g_allocations_count t + 1\<rparr>)
         else (None, called)))"

definition mem_realloc ::
    "allocator \<Rightarrow> block option \<Rightarrow> u64 \<Rightarrow> u64 \<Rightarrow> tracker \<Rightarrow> block option \<times> tracker" where
  "mem_realloc grants ptr old_size new_size t =
     (if new_size = 0 then (None, t)
      else
        (let called = t\<lparr>allocator_calls := allocator_calls t + 1\<rparr>;
             old = (case ptr of None \<Rightarrow> [] | Some cells \<Rightarrow> cells);
             new_cells = take (unat new_size) old @ replicate (unat new_size - length old) None
         in if grants (allocator_calls t) new_size then
              (Some new_cells,
               called\<lparr>g_allocated_bytes :=
                        (if old_size \<le> new_size then g_allocated_bytes t + (new_size - old_size)
                         else g_allocated_bytes t - (old_size - new_size)),
                      g_allocations_count :=
                        (if ptr = None then g_allocations_count t + 1
                         else g_allocations_count t)\<rparr>)
            else (None, called)))"

definition mem_untrack_allocation :: "u64 \<Rightarrow> tracker \<Rightarrow> tracker" where
  "mem_untrack_allocation amount t =
     t\<lparr>g_allocated_bytes := g_allocated_bytes t - amount,
       g_allocations_count := g_allocations_count t - 1\<rparr>"

definition mem_free :: "block option \<Rightarrow> u64 \<Rightarrow> tracker \<Rightarrow> tracker" where
  "mem_free ptr amount t =
     (if ptr = None then t
      else t\<lparr>g_allocated_bytes := g_allocated_bytes t - amount,
             g_allocations_count := g_allocations_count t - 1\<rparr>)"

text \<open>
  The one fact about the C allocator that the library relies on: no object is larger than
  \<open>PTRDIFF_MAX\<close> bytes.
\<close>

definition allocator_bounded :: "allocator \<Rightarrow> bool" where
  "allocator_bounded grants \<longleftrightarrow> (\<forall>i n. grants i n \<longrightarrow> n < 0x8000000000000000)"

lemma allocator_boundedD: "allocator_bounded grants \<Longrightarrow> grants i n \<Longrightarrow> n < 0x8000000000000000"
  by (simp add: allocator_bounded_def)

text \<open>
  What a block of the given size owes to the counters. The accounting of a component is
  balanced when the counters minus what its live block owes do not change.
\<close>

definition owed :: "block option \<Rightarrow> u64 \<Rightarrow> tracker \<Rightarrow> u64 \<times> u64" where
  "owed ptr amount t =
     (g_allocated_bytes t - (if ptr = None then 0 else amount),
      g_allocations_count t - (if ptr = None then 0 else 1))"

lemma mem_alloc_owed:
  "mem_alloc grants amount t = (r, t') \<Longrightarrow> owed r amount t' = owed None 0 t"
  by (auto simp: mem_alloc_def owed_def Let_def split: if_splits)

lemma mem_alloc_cells:
  "mem_alloc grants amount t = (Some cells, t') \<Longrightarrow>
     cells = replicate (unat amount) None \<and> amount \<noteq> 0 \<and> (\<exists>i. grants i amount)"
  by (auto simp: mem_alloc_def Let_def split: if_splits)

lemma mem_realloc_owed:
  assumes "mem_realloc grants (Some cells) old new t = (r, t')"
  shows "(case r of None \<Rightarrow> owed (Some cells) old t' | Some _ \<Rightarrow> owed r new t') = owed (Some cells) old t"
  using assms by (auto simp: mem_realloc_def owed_def Let_def split: if_splits)

lemma mem_realloc_cells:
  assumes "mem_realloc grants (Some cells) old new t = (Some cells', t')"
  shows "length cells' = unat new \<and> new \<noteq> 0 \<and> (\<exists>i. grants i new) \<and>
    (\<forall>k < min (length cells) (unat new). cells' ! k = cells ! k)"
  using assms by (auto simp: mem_realloc_def Let_def nth_append split: if_splits)

section \<open>Checked size arithmetic\<close>

definition dxbc_size_add_overflows :: "u64 \<Rightarrow> u64 \<Rightarrow> bool" where
  "dxbc_size_add_overflows left right \<longleftrightarrow> left > SIZE_MAX - right"

definition dxbc_size_multiply_overflows :: "u64 \<Rightarrow> u64 \<Rightarrow> bool" where
  "dxbc_size_multiply_overflows left right \<longleftrightarrow> left \<noteq> 0 \<and> right > SIZE_MAX div left"

section \<open>Byte order\<close>

definition swap_uint16 :: "u16 \<Rightarrow> u16" where
  "swap_uint16 val = push_bit 8 val OR drop_bit 8 val"

definition swap_uint32 :: "u32 \<Rightarrow> u32" where
  "swap_uint32 val =
     push_bit 24 (val AND 0x000000FF) OR push_bit 8 (val AND 0x0000FF00) OR
     drop_bit 8 (val AND 0x00FF0000) OR drop_bit 24 (val AND 0xFF000000)"

definition swap_uint64 :: "u64 \<Rightarrow> u64" where
  "swap_uint64 val =
     push_bit 56 (val AND 0x00000000000000FF) OR push_bit 40 (val AND 0x000000000000FF00) OR
     push_bit 24 (val AND 0x0000000000FF0000) OR push_bit 8 (val AND 0x00000000FF000000) OR
     drop_bit 8 (val AND 0x000000FF00000000) OR drop_bit 24 (val AND 0x0000FF0000000000) OR
     drop_bit 40 (val AND 0x00FF000000000000) OR drop_bit 56 (val AND 0xFF00000000000000)"

text \<open>\<open>host\<close> is \<open>HOST_IS_BIG_ENDIAN\<close>.\<close>

definition read_be16 :: "bool \<Rightarrow> u16 \<Rightarrow> u16" where
  "read_be16 host val = (if host then val else swap_uint16 val)"
definition read_be32 :: "bool \<Rightarrow> u32 \<Rightarrow> u32" where
  "read_be32 host val = (if host then val else swap_uint32 val)"
definition read_be64 :: "bool \<Rightarrow> u64 \<Rightarrow> u64" where
  "read_be64 host val = (if host then val else swap_uint64 val)"
definition read_le16 :: "bool \<Rightarrow> u16 \<Rightarrow> u16" where
  "read_le16 host val = (if host then swap_uint16 val else val)"
definition read_le32 :: "bool \<Rightarrow> u32 \<Rightarrow> u32" where
  "read_le32 host val = (if host then swap_uint32 val else val)"
definition read_le64 :: "bool \<Rightarrow> u64 \<Rightarrow> u64" where
  "read_le64 host val = (if host then swap_uint64 val else val)"

text \<open>The object representation of an integer: \<open>memcpy\<close> of bytes into it on either host.\<close>

definition little_endian :: "u8 list \<Rightarrow> 'a::len word" where
  "little_endian bytes = foldr (\<lambda>b acc. push_bit 8 acc OR ucast b) bytes 0"

definition load_integer :: "bool \<Rightarrow> u8 list \<Rightarrow> 'a::len word" where
  "load_integer host bytes = little_endian (if host then rev bytes else bytes)"

definition positional :: "bool \<Rightarrow> u8 list \<Rightarrow> nat" where
  "positional big bytes =
     foldr (\<lambda>b acc. 256 * acc + unat b) (if big then rev bytes else bytes) 0"

lemma byte_lanes:
  "(0x000000FF :: u32) = mask 8" "(0x0000FF00 :: u32) = push_bit 8 (mask 8)"
  "(0x00FF0000 :: u32) = push_bit 16 (mask 8)" "(0xFF000000 :: u32) = push_bit 24 (mask 8)"
  "(0x00000000000000FF :: u64) = mask 8" "(0x000000000000FF00 :: u64) = push_bit 8 (mask 8)"
  "(0x0000000000FF0000 :: u64) = push_bit 16 (mask 8)"
  "(0x00000000FF000000 :: u64) = push_bit 24 (mask 8)"
  "(0x000000FF00000000 :: u64) = push_bit 32 (mask 8)"
  "(0x0000FF0000000000 :: u64) = push_bit 40 (mask 8)"
  "(0x00FF000000000000 :: u64) = push_bit 48 (mask 8)"
  "(0xFF00000000000000 :: u64) = push_bit 56 (mask 8)"
  by (simp_all add: mask_numeral)

lemma lanes_eqI:
  fixes x y :: "'a::len word"
  assumes "LENGTH('a) = 8 * k"
    and "list_all (\<lambda>q. \<forall>r<8. bit x (8 * q + r) = bit y (8 * q + r)) [0..<k]"
  shows "x = y"
proof (rule bit_word_eqI)
  fix n
  assume "n < LENGTH('a)"
  then have "n div 8 < k" using assms(1) by auto
  with assms(2) have "\<forall>r<8. bit x (8 * (n div 8) + r) = bit y (8 * (n div 8) + r)"
    by (simp add: list_all_iff)
  from this [rule_format, of "n mod 8"] show "bit x n = bit y n" by simp
qed

lemma byte_bit_high: "8 \<le> n \<Longrightarrow> \<not> bit (b :: u8) n"
  using bit_imp_le_length [of b n] by auto

lemma swap16_bytes: "swap_uint16 (little_endian [a, b]) = little_endian [b, a]"
  unfolding swap_uint16_def little_endian_def
  by (rule lanes_eqI [of 2]) (simp_all add: upt_rec bit_simps byte_bit_high)

lemma swap32_bytes: "swap_uint32 (little_endian [a, b, c, d]) = little_endian [d, c, b, a]"
  unfolding swap_uint32_def little_endian_def byte_lanes
  by (rule lanes_eqI [of 4]) (simp_all add: upt_rec bit_simps byte_bit_high)

lemma swap64_bytes:
  "swap_uint64 (little_endian [a, b, c, d, e, f, g, h]) = little_endian [h, g, f, e, d, c, b, a]"
  unfolding swap_uint64_def little_endian_def byte_lanes
  by (rule lanes_eqI [of 8]) (simp_all add: upt_rec bit_simps byte_bit_high)

text \<open>Whatever the host, a loaded and converted integer is the positional value of its bytes.\<close>

lemma unat_little_endian:
  "8 * length bytes \<le> LENGTH('a) \<Longrightarrow>
     unat (little_endian bytes :: 'a::len word) = positional False bytes \<and>
     positional False bytes < 256 ^ length bytes"
proof (induction bytes)
  case Nil
  then show ?case by (simp add: little_endian_def positional_def)
next
  case (Cons b bytes)
  let ?rest = "little_endian bytes :: 'a word"
  have rest: "unat ?rest = positional False bytes" "positional False bytes < 256 ^ length bytes"
    using Cons by simp_all
  have byte: "unat (ucast b :: 'a word) = unat b"
    using Cons.prems by (intro unat_widen) simp
  have "256 * positional False bytes + unat b < 256 ^ length (b # bytes)"
  proof -
    have "256 * positional False bytes + unat b < 256 * (positional False bytes + 1)"
      using byte_bound [of b] by simp
    also have "\<dots> \<le> 256 * 256 ^ length bytes" using rest(2) by (intro mult_le_mono2) simp
    finally show ?thesis by simp
  qed
  moreover have "(256::nat) ^ length (b # bytes) \<le> 2 ^ LENGTH('a)"
  proof -
    have "(256::nat) ^ length (b # bytes) = 2 ^ (8 * length (b # bytes))"
      using power_mult [of "2::nat" 8 "length (b # bytes)"] by simp
    with Cons.prems show ?thesis by (simp add: power_increasing)
  qed
  ultimately have "unat (push_bit 8 ?rest OR ucast b) = 256 * positional False bytes + unat b"
    using rest byte by (subst unat_push_or) (simp_all add: unat_widen)
  with \<open>256 * positional False bytes + unat b < 256 ^ length (b # bytes)\<close> show ?case
    by (simp add: little_endian_def positional_def)
qed

lemma positional_rev: "positional False (if big then rev bytes else bytes) = positional big bytes"
  by (simp add: positional_def)

lemma read16_positional:
  assumes "length bytes = 2"
  shows "unat (if big then read_be16 host (load_integer host bytes)
           else read_le16 host (load_integer host bytes)) = positional big bytes"
proof -
  obtain a b where bytes: "bytes = [a, b]"
    using assms by (auto simp: eval_nat_numeral length_Suc_conv)
  have "(if big then read_be16 host (load_integer host bytes)
           else read_le16 host (load_integer host bytes)) =
      little_endian (if big then rev bytes else bytes)"
    using swap16_bytes [of a b] swap16_bytes [of b a]
    by (simp add: bytes load_integer_def read_be16_def read_le16_def)
  with assms show ?thesis by (simp add: unat_little_endian positional_rev)
qed

lemma read32_positional:
  assumes "length bytes = 4"
  shows "unat (if big then read_be32 host (load_integer host bytes)
           else read_le32 host (load_integer host bytes)) = positional big bytes"
proof -
  obtain a b c d where bytes: "bytes = [a, b, c, d]"
    using assms by (auto simp: eval_nat_numeral length_Suc_conv)
  have "(if big then read_be32 host (load_integer host bytes)
           else read_le32 host (load_integer host bytes)) =
      little_endian (if big then rev bytes else bytes)"
    using swap32_bytes [of a b c d] swap32_bytes [of d c b a]
    by (simp add: bytes load_integer_def read_be32_def read_le32_def)
  with assms show ?thesis by (simp add: unat_little_endian positional_rev)
qed

lemma read64_positional:
  assumes "length bytes = 8"
  shows "unat (if big then read_be64 host (load_integer host bytes)
           else read_le64 host (load_integer host bytes)) = positional big bytes"
proof -
  obtain a b c d e f g h where bytes: "bytes = [a, b, c, d, e, f, g, h]"
    using assms by (auto simp: eval_nat_numeral length_Suc_conv)
  have "(if big then read_be64 host (load_integer host bytes)
           else read_le64 host (load_integer host bytes)) =
      little_endian (if big then rev bytes else bytes)"
    using swap64_bytes [of a b c d e f g h] swap64_bytes [of h g f e d c b a]
    by (simp add: bytes load_integer_def read_be64_def read_le64_def)
  with assms show ?thesis by (simp add: unat_little_endian positional_rev)
qed

section \<open>ASCII comparison\<close>

definition fold_upper :: "u8 \<Rightarrow> u8" where
  "fold_upper a = (if 0x41 \<le> a \<and> a \<le> 0x5A then a + (0x61 - 0x41) else a)"

fun compare_folded :: "u8 list \<Rightarrow> u8 list \<Rightarrow> int" where
  "compare_folded (l # left) (r # right) =
     (let a = fold_upper l; b = fold_upper r in
      if a \<noteq> b then (if a < b then -1 else 1) else compare_folded left right)"
| "compare_folded (l # left) [] = 1"
| "compare_folded [] (r # right) = -1"
| "compare_folded [] [] = 0"

definition dxbc_ascii_strcasecmp :: "u8 list option \<Rightarrow> u8 list option \<Rightarrow> int" where
  "dxbc_ascii_strcasecmp left right =
     (case (left, right) of
        (Some l, Some r) \<Rightarrow> compare_folded l r
      | (Some _, None) \<Rightarrow> 1
      | (None, Some _) \<Rightarrow> -1
      | (None, None) \<Rightarrow> 0)"

text \<open>
  The case-insensitive comparison orders two strings as their ASCII lower-case
  foldings: it is 0 exactly on equal foldings, it is antisymmetric, and its sign is that of
  the lexicographic order of the folded bytes.
\<close>

theorem ascii_strcasecmp_folded:
  "dxbc_ascii_strcasecmp (Some l) (Some r) =
     (if map fold_upper l = map fold_upper r then 0
      else if ord_class.lexordp (map fold_upper l) (map fold_upper r) then -1 else 1) \<and>
   dxbc_ascii_strcasecmp left right = - dxbc_ascii_strcasecmp right left"
proof -
  have fold: "compare_folded l r =
     (if map fold_upper l = map fold_upper r then 0
      else if ord_class.lexordp (map fold_upper l) (map fold_upper r) then -1 else 1)" for l r
    by (induction l r rule: compare_folded.induct) (auto simp: Let_def)
  have "compare_folded l r = - compare_folded r l" for l r
    by (induction l r rule: compare_folded.induct) (auto simp: Let_def)
  note flip = this
  have "dxbc_ascii_strcasecmp left right = - dxbc_ascii_strcasecmp right left"
  proof (cases "left = None \<or> right = None")
    case True
    then show ?thesis by (auto simp: dxbc_ascii_strcasecmp_def split: option.split)
  next
    case False
    then obtain l r where "left = Some l" "right = Some r" by auto
    with flip [of l r] show ?thesis by (simp add: dxbc_ascii_strcasecmp_def)
  qed
  with fold [of l r] show ?thesis by (simp add: dxbc_ascii_strcasecmp_def)
qed

end
