(* ===== verification/ByteStream.thy ===== *)
theory ByteStream
  imports Allocation
begin

text \<open>
  \<open>src/common/stream.c\<close>: a bounded cursor over a byte buffer with a selectable byte order.
  The stream argument is non-null, and the buffer is the list of the \<open>size\<close> bytes behind
  \<open>data\<close>. A read gives the value it stored, \<open>None\<close> where it returned false.
\<close>

section \<open>Model of the code\<close>

record byte_stream =
  stream_data :: "u8 list"
  stream_size :: u64
  position :: u64
  big_endian :: bool

definition stream_init :: "u8 list \<Rightarrow> u64 \<Rightarrow> byte_stream" where
  "stream_init data amount =
     \<lparr>stream_data = data, stream_size = amount, position = 0, big_endian = False\<rparr>"

definition stream_set_endian :: "bool \<Rightarrow> byte_stream \<Rightarrow> byte_stream" where
  "stream_set_endian big s = s\<lparr>big_endian := big\<rparr>"

definition stream_remaining :: "byte_stream \<Rightarrow> u64" where
  "stream_remaining s =
     (if position s > stream_size s then 0 else stream_size s - position s)"

definition stream_seek :: "u64 \<Rightarrow> byte_stream \<Rightarrow> bool \<times> byte_stream" where
  "stream_seek target s =
     (if target > stream_size s then (False, s) else (True, s\<lparr>position := target\<rparr>))"

definition stream_skip :: "u64 \<Rightarrow> byte_stream \<Rightarrow> bool \<times> byte_stream" where
  "stream_skip count s =
     (if count > stream_remaining s then (False, s)
      else (True, s\<lparr>position := position s + count\<rparr>))"

definition stream_align :: "u64 \<Rightarrow> byte_stream \<Rightarrow> bool \<times> byte_stream" where
  "stream_align alignment s =
     (if alignment = 0 then (True, s)
      else
        (let rem = position s mod alignment in
         if rem \<noteq> 0 then (let pad = alignment - rem in stream_skip pad s) else (True, s)))"

text \<open>\<open>has_dest\<close> is whether \<open>dest\<close> is non-null.\<close>

definition stream_read_bytes :: "bool \<Rightarrow> u64 \<Rightarrow> (byte_stream, u8 list) step" where
  "stream_read_bytes has_dest count s =
     (if (\<not> has_dest \<and> count \<noteq> 0) \<or> count > stream_remaining s then (None, s)
      else (Some (take (unat count) (drop (unat (position s)) (stream_data s))),
            s\<lparr>position := position s + count\<rparr>))"

definition stream_read_uint8 :: "(byte_stream, u8) step" where
  "stream_read_uint8 = step_then (stream_read_bytes True 1) (\<lambda>raw. step_return (hd raw))"

definition stream_read_uint16 :: "bool \<Rightarrow> (byte_stream, u16) step" where
  "stream_read_uint16 host =
     step_then (stream_read_bytes True 2) (\<lambda>raw. step_with big_endian (\<lambda>big. step_return
       (if big then read_be16 host (load_integer host raw)
        else read_le16 host (load_integer host raw))))"

definition stream_read_uint32 :: "bool \<Rightarrow> (byte_stream, u32) step" where
  "stream_read_uint32 host =
     step_then (stream_read_bytes True 4) (\<lambda>raw. step_with big_endian (\<lambda>big. step_return
       (if big then read_be32 host (load_integer host raw)
        else read_le32 host (load_integer host raw))))"

definition stream_read_uint64 :: "bool \<Rightarrow> (byte_stream, u64) step" where
  "stream_read_uint64 host =
     step_then (stream_read_bytes True 8) (\<lambda>raw. step_with big_endian (\<lambda>big. step_return
       (if big then read_be64 host (load_integer host raw)
        else read_le64 host (load_integer host raw))))"

text \<open>
  The signed reads store through a cast pointer: the same bits read as two's complement. The
  floating-point reads copy the bits of the integer, and are modelled by those bits.
\<close>

definition stream_read_int8 :: "(byte_stream, int) step" where
  "stream_read_int8 = step_then stream_read_uint8 (\<lambda>raw. step_return (sint raw))"

definition stream_read_int16 :: "bool \<Rightarrow> (byte_stream, int) step" where
  "stream_read_int16 host = step_then (stream_read_uint16 host) (\<lambda>raw. step_return (sint raw))"

definition stream_read_int32 :: "bool \<Rightarrow> (byte_stream, int) step" where
  "stream_read_int32 host = step_then (stream_read_uint32 host) (\<lambda>raw. step_return (sint raw))"

definition stream_read_int64 :: "bool \<Rightarrow> (byte_stream, int) step" where
  "stream_read_int64 host = step_then (stream_read_uint64 host) (\<lambda>raw. step_return (sint raw))"

definition stream_read_float :: "bool \<Rightarrow> (byte_stream, u32) step" where
  "stream_read_float host = stream_read_uint32 host"

definition stream_read_double :: "bool \<Rightarrow> (byte_stream, u64) step" where
  "stream_read_double host = stream_read_uint64 host"

text \<open>The search for the terminator, which counts the bytes before it.\<close>

function string_length :: "byte_stream \<Rightarrow> u64 \<Rightarrow> u64 \<Rightarrow> u64" where
  "string_length s start len =
     (if start + len < stream_size s \<and> stream_data s ! unat (start + len) \<noteq> 0
      then string_length s start (len + 1) else len)"
  by pat_completeness auto
termination
proof (relation "measure (\<lambda>(s, start, len). unat (stream_size s - (start + len)))")
  fix s :: byte_stream and start len :: u64
  assume "start + len < stream_size s \<and> stream_data s ! unat (start + len) \<noteq> 0"
  then have less: "start + len < stream_size s" by simp
  then have "stream_size s - (start + len) \<noteq> 0" by auto
  then have "unat (stream_size s - (start + len) - 1) < unat (stream_size s - (start + len))"
    by (simp add: unat_minus_one unat_gt_0)
  moreover have "stream_size s - (start + len) - 1 = stream_size s - (start + (len + 1))"
    by (simp add: algebra_simps)
  ultimately have "unat (stream_size s - (start + (len + 1))) < unat (stream_size s - (start + len))"
    by metis
  then show "((s, start, len + 1), s, start, len) \<in>
      measure (\<lambda>(s, start, len). unat (stream_size s - (start + len)))" by simp
qed simp

declare string_length.simps [simp del]

text \<open>
  The allocating string read: the block it returned (\<open>None\<close> for the null pointer), the stream
  and tracker it leaves, and the value stored through \<open>out_len\<close> when that is non-null.
\<close>

definition stream_read_string_alloc ::
    "allocator \<Rightarrow> byte_stream \<Rightarrow> tracker \<Rightarrow> block option \<times> u64 option \<times> byte_stream \<times> tracker" where
  "stream_read_string_alloc grants s t =
     (let start = position s; len = string_length s start 0 in
      if start + len \<ge> stream_size s then (None, None, s, t)
      else
        (case mem_alloc grants (len + 1) t of
           (None, t') \<Rightarrow> (None, None, s, t')
         | (Some cells, t') \<Rightarrow>
             (Some (map Some (take (unat len) (drop (unat start) (stream_data s)) @ [0]) @
                    drop (unat len + 1) cells),
              Some (len + 1), s\<lparr>position := start + len + 1\<rparr>, t')))"

section \<open>The cursor invariant\<close>

text \<open>Every operation of the interface, as one step between streams.\<close>

inductive stream_step :: "byte_stream \<Rightarrow> byte_stream \<Rightarrow> bool" where
  step_endian: "stream_step s (stream_set_endian big s)"
| step_seek: "stream_step s (snd (stream_seek target s))"
| step_skip: "stream_step s (snd (stream_skip count s))"
| step_align: "stream_step s (snd (stream_align alignment s))"
| step_bytes: "stream_step s (snd (stream_read_bytes has_dest count s))"
| step_uint8: "stream_step s (snd (stream_read_uint8 s))"
| step_uint16: "stream_step s (snd (stream_read_uint16 host s))"
| step_uint32: "stream_step s (snd (stream_read_uint32 host s))"
| step_uint64: "stream_step s (snd (stream_read_uint64 host s))"
| step_int8: "stream_step s (snd (stream_read_int8 s))"
| step_int16: "stream_step s (snd (stream_read_int16 host s))"
| step_int32: "stream_step s (snd (stream_read_int32 host s))"
| step_int64: "stream_step s (snd (stream_read_int64 host s))"
| step_float: "stream_step s (snd (stream_read_float host s))"
| step_double: "stream_step s (snd (stream_read_double host s))"
| step_string: "stream_read_string_alloc grants s t = (r, n, s', t') \<Longrightarrow> stream_step s s'"

inductive stream_reachable :: "u8 list \<Rightarrow> byte_stream \<Rightarrow> bool" where
  reach_init: "length data \<le> size_max \<Longrightarrow> stream_reachable data (stream_init data (of_nat (length data)))"
| reach_step: "stream_reachable data s \<Longrightarrow> stream_step s s' \<Longrightarrow> stream_reachable data s'"

definition stream_wf :: "u8 list \<Rightarrow> byte_stream \<Rightarrow> bool" where
  "stream_wf data s \<longleftrightarrow>
     stream_data s = data \<and> unat (stream_size s) = length data \<and> position s \<le> stream_size s"

lemma stream_remaining_value:
  "stream_wf data s \<Longrightarrow> unat (stream_remaining s) = length data - unat (position s)"
  by (simp add: stream_wf_def stream_remaining_def not_less [symmetric])

lemma stream_advance_value:
  assumes "stream_wf data s" and "count \<le> stream_remaining s"
  shows "unat (position s + count) = unat (position s) + unat count \<and>
    unat (position s) + unat count \<le> length data"
proof -
  have le: "position s \<le> stream_size s" and "count \<le> stream_size s - position s"
    using assms by (auto simp: stream_wf_def stream_remaining_def split: if_splits)
  then show ?thesis
    using charge_value [OF le] charge_iff [OF le] assms(1) by (simp add: stream_wf_def)
qed

lemma stream_advance_wf:
  "stream_wf data s \<Longrightarrow> count \<le> stream_remaining s \<Longrightarrow>
     stream_wf data (s\<lparr>position := position s + count\<rparr>)"
  using stream_advance_value [of data s count] by (simp add: stream_wf_def word_le_nat_alt)

lemma skip_wf: "stream_wf data s \<Longrightarrow> stream_wf data (snd (stream_skip count s))"
  by (simp add: stream_skip_def stream_advance_wf)

lemma align_wf: "stream_wf data s \<Longrightarrow> stream_wf data (snd (stream_align alignment s))"
  by (simp add: stream_align_def Let_def skip_wf)

lemma read_bytes_keeps: "step_keeps (stream_wf data) (stream_read_bytes has_dest count)"
  by (rule step_keepsI) (auto simp: stream_read_bytes_def stream_advance_wf split: if_splits)

lemmas read_keeps = step_keeps_then step_keeps_with step_keeps_return read_bytes_keeps

lemma uint16_keeps: "step_keeps (stream_wf data) (stream_read_uint16 host)"
  unfolding stream_read_uint16_def by (intro read_keeps)

lemma uint32_keeps: "step_keeps (stream_wf data) (stream_read_uint32 host)"
  unfolding stream_read_uint32_def by (intro read_keeps)

lemma uint64_keeps: "step_keeps (stream_wf data) (stream_read_uint64 host)"
  unfolding stream_read_uint64_def by (intro read_keeps)

lemma uint8_keeps: "step_keeps (stream_wf data) stream_read_uint8"
  unfolding stream_read_uint8_def by (intro read_keeps)

lemma step_keeps_snd: "step_keeps P m \<Longrightarrow> P s \<Longrightarrow> P (snd (m s))"
  by (simp add: step_keeps_def)

text \<open>The scan stops at the first zero byte or at the end of the buffer.\<close>

lemma string_length_value:
  assumes "unat (stream_size s) = length (stream_data s)"
    and "unat start + unat len \<le> length (stream_data s)"
  shows "unat (string_length s start len) =
    unat len + length (takeWhile (\<lambda>b. b \<noteq> 0) (drop (unat start + unat len) (stream_data s)))"
  using assms
proof (induction s start len rule: string_length.induct)
  case (1 s start len)
  have bound: "length (stream_data s) < 2 ^ 64"
    using "1.prems"(1) u64_bound [of "stream_size s"] by simp
  then have sum: "unat (start + len) = unat start + unat len"
    using "1.prems"(2) by (intro unat_add_fits) simp
  show ?case
  proof (cases "start + len < stream_size s \<and> stream_data s ! unat (start + len) \<noteq> 0")
    case True
    then have inside: "unat start + unat len < length (stream_data s)"
      using sum "1.prems"(1) by (simp add: word_less_nat_alt)
    then have next_len: "unat (len + 1) = unat len + 1"
      using bound by (subst unat_add_fits) simp_all
    have "string_length s start len = string_length s start (len + 1)"
      using True by (subst string_length.simps) simp
    moreover have "drop (unat start + unat len) (stream_data s) =
        stream_data s ! (unat start + unat len) # drop (Suc (unat start + unat len)) (stream_data s)"
      using inside by (simp add: Cons_nth_drop_Suc)
    ultimately show ?thesis
      using "1.IH" [OF True "1.prems"(1)] inside True by (simp add: next_len sum)
  next
    case False
    then have here: "string_length s start len = len" by (subst string_length.simps) auto
    show ?thesis
    proof (cases "unat start + unat len < length (stream_data s)")
      case True
      then have "stream_data s ! (unat start + unat len) = 0"
        using False sum "1.prems"(1) by (simp add: word_less_nat_alt)
      then show ?thesis using True by (simp add: here Cons_nth_drop_Suc [symmetric])
    qed (simp add: here)
  qed
qed

text \<open>The allocating string read, on a stream that satisfies the invariant.\<close>

definition unread :: "byte_stream \<Rightarrow> u8 list" where
  "unread s = drop (unat (position s)) (stream_data s)"

definition terminated_prefix :: "byte_stream \<Rightarrow> u8 list option" where
  "terminated_prefix s = (if 0 \<in> set (unread s) then Some (takeWhile (\<lambda>b. b \<noteq> 0) (unread s)) else None)"

lemma takeWhile_short: "length (takeWhile P xs) < length xs \<longleftrightarrow> (\<exists>x\<in>set xs. \<not> P x)"
  by (induction xs) auto

lemma prefix_before_zero:
  "x \<in> set xs \<Longrightarrow> \<exists>rest. xs = takeWhile (\<lambda>b. b \<noteq> x) xs @ x # rest \<and>
     x \<notin> set (takeWhile (\<lambda>b. b \<noteq> x) xs)"
proof -
  assume "x \<in> set xs"
  then obtain ys zs where "xs = ys @ x # zs" "x \<notin> set ys" by (meson split_list_first)
  moreover from this have "takeWhile (\<lambda>b. b \<noteq> x) xs = ys"
    by (subst \<open>xs = _\<close>, subst takeWhile_append2) auto
  ultimately show ?thesis by auto
qed

lemma string_alloc_outcome:
  assumes "stream_wf data s"
  shows "case terminated_prefix s of
      None \<Rightarrow> stream_read_string_alloc grants s t = (None, None, s, t)
    | Some text \<Rightarrow>
        let len = of_nat (length text) in
        unat (position s) + length text < length data \<and> unat len = length text \<and>
        stream_read_string_alloc grants s t =
          (case mem_alloc grants (len + 1) t of
             (None, t') \<Rightarrow> (None, None, s, t')
           | (Some _, t') \<Rightarrow>
               (Some (map Some (text @ [0])), Some (len + 1),
                s\<lparr>position := position s + len + 1\<rparr>, t'))"
proof -
  let ?text = "takeWhile (\<lambda>b. b \<noteq> 0) (unread s)"
  let ?len = "string_length s (position s) 0"
  have size: "unat (stream_size s) = length (stream_data s)" and data: "stream_data s = data"
    and pos: "unat (position s) \<le> length (stream_data s)"
    using assms by (auto simp: stream_wf_def word_le_nat_alt)
  have len: "unat ?len = length ?text"
    using string_length_value [OF size, of "position s" 0] pos by (simp add: unread_def)
  have total: "length (unread s) = length data - unat (position s)"
    by (simp add: unread_def data)
  have bound: "length data < 2 ^ 64"
    using size data u64_bound [of "stream_size s"] by simp
  have "unat (position s) + length ?text \<le> length data"
    using length_takeWhile_le [of "\<lambda>b. b \<noteq> 0" "unread s"] total pos data by simp
  then have sum: "unat (position s + ?len) = unat (position s) + length ?text"
    using bound len by (subst unat_add_fits) simp_all
  have recast: "of_nat (length ?text) = ?len" by (simp add: len [symmetric])
  have found: "0 \<in> set (unread s) \<longleftrightarrow> \<not> position s + ?len \<ge> stream_size s"
    using takeWhile_short [of "\<lambda>b. b \<noteq> 0" "unread s"] total size data pos
    by (auto simp: word_le_nat_alt sum)
  show ?thesis
  proof (cases "0 \<in> set (unread s)")
    case False
    then show ?thesis
      using found by (simp add: terminated_prefix_def stream_read_string_alloc_def Let_def)
  next
    case True
    then have inside: "unat (position s) + length ?text < length data"
      using found sum size data by (simp add: word_le_nat_alt)
    have plus: "unat (?len + 1) = Suc (unat ?len)"
      using inside len bound by (subst unat_add_fits) simp_all
    have taken: "take (unat ?len) (unread s) = ?text"
      by (metis len takeWhile_eq_take)
    have cells: "drop (unat ?len + 1) cells = []" if "mem_alloc grants (?len + 1) t = (Some cells, t')"
      for cells t' using mem_alloc_cells [OF that] plus by simp
    from True show ?thesis
      using found inside taken cells
      by (auto simp: terminated_prefix_def stream_read_string_alloc_def Let_def recast len
            unread_def [symmetric] split: option.split prod.split)
  qed
qed

lemma string_alloc_wf:
  assumes wf: "stream_wf data s" and "stream_read_string_alloc grants s t = (r, n, s', t')"
  shows "stream_wf data s'"
proof (cases "terminated_prefix s")
  case None
  with string_alloc_outcome [OF wf, of grants t] assms show ?thesis by simp
next
  case (Some prefix)
  let ?len = "of_nat (length prefix) :: u64"
  have fits: "unat (position s) + length prefix < length data" "unat ?len = length prefix"
    using string_alloc_outcome [OF wf, of grants t] Some by (simp_all add: Let_def)
  have "length data < 2 ^ 64"
    using wf u64_bound [of "stream_size s"] by (simp add: stream_wf_def)
  then have "unat (position s + ?len + 1) = unat (position s) + length prefix + 1"
    using fits by (simp add: unat_add_fits)
  then have "stream_wf data (s\<lparr>position := position s + ?len + 1\<rparr>)"
    using wf fits by (simp add: stream_wf_def word_le_nat_alt)
  then show ?thesis
    using string_alloc_outcome [OF wf, of grants t] assms Some
    by (auto simp: Let_def split: option.splits prod.splits)
qed

lemma stream_step_wf: "stream_step s s' \<Longrightarrow> stream_wf data s \<Longrightarrow> stream_wf data s'"
proof (induction rule: stream_step.induct)
  case (step_endian s big)
  then show ?case by (simp add: stream_set_endian_def stream_wf_def)
next
  case (step_seek s target)
  then show ?case by (simp add: stream_seek_def stream_wf_def not_less)
next
  case (step_string grants s t r n s' t')
  then show ?case using string_alloc_wf by blast
qed (simp_all add: skip_wf align_wf step_keeps_snd read_bytes_keeps uint8_keeps uint16_keeps
      uint32_keeps uint64_keeps step_keeps_then step_keeps_return stream_read_int8_def
      stream_read_int16_def stream_read_int32_def stream_read_int64_def stream_read_float_def
      stream_read_double_def)

section \<open>Correctness\<close>

text \<open>
  Property C34. Whatever sequence of operations is run on an initialised stream, the cursor
  stays inside the buffer and the buffer and its size stay what they were.
\<close>

theorem stream_cursor_invariant:
  assumes "stream_reachable data s"
  shows "stream_data s = data \<and> unat (stream_size s) = length data \<and>
    unat (position s) \<le> length data \<and>
    unat (stream_remaining s) = length data - unat (position s)"
proof -
  have "stream_wf data s"
    using assms
  proof induction
    case (reach_init data)
    then show ?case by (simp add: stream_init_def stream_wf_def unat_of_nat)
  next
    case (reach_step data s s')
    then show ?case using stream_step_wf by blast
  qed
  then show ?thesis by (simp add: stream_remaining_value) (simp add: stream_wf_def word_le_nat_alt)
qed

theorem stream_cursor_invariant_witness:
  "unat (position (snd (stream_skip 2 (stream_init [1, 2, 3] (of_nat (length [1 :: u8, 2, 3])))))) \<le> 3"
  using stream_cursor_invariant [OF reach_step [OF reach_init step_skip], of "[1, 2, 3]" 2] by simp

text \<open>The field of \<open>n\<close> bytes at the cursor, in the stream's byte order.\<close>

definition stream_field :: "nat \<Rightarrow> byte_stream \<Rightarrow> nat option" where
  "stream_field n s =
     (if n \<le> length (unread s) then Some (positional (big_endian s) (take n (unread s))) else None)"

definition stream_after :: "nat \<Rightarrow> byte_stream \<Rightarrow> byte_stream" where
  "stream_after n s =
     (if n \<le> length (unread s) then s\<lparr>position := position s + of_nat n\<rparr> else s)"

lemma read_bytes_unread:
  assumes "stream_wf data s"
  shows "stream_read_bytes True count s =
    (if unat count \<le> length (unread s)
     then (Some (take (unat count) (unread s)), s\<lparr>position := position s + count\<rparr>) else (None, s))"
proof -
  have "count > stream_remaining s \<longleftrightarrow> \<not> unat count \<le> length (unread s)"
    using stream_remaining_value [OF assms] assms
    by (auto simp: word_less_nat_alt unread_def stream_wf_def)
  then show ?thesis by (simp add: stream_read_bytes_def unread_def)
qed

text \<open>
  Every integer read gives the positional value of the next bytes in the byte
  order selected for the stream, on hosts of either byte order, and advances past them; with
  too few bytes left it fails and leaves the stream as it was.
\<close>

theorem stream_integer_reads:
  assumes "stream_wf data s"
  shows "map_option unat (fst (stream_read_uint8 s)) = stream_field 1 s \<and>
      snd (stream_read_uint8 s) = stream_after 1 s \<and>
    map_option unat (fst (stream_read_uint16 host s)) = stream_field 2 s \<and>
      snd (stream_read_uint16 host s) = stream_after 2 s \<and>
    map_option unat (fst (stream_read_uint32 host s)) = stream_field 4 s \<and>
      snd (stream_read_uint32 host s) = stream_after 4 s \<and>
    map_option unat (fst (stream_read_uint64 host s)) = stream_field 8 s \<and>
      snd (stream_read_uint64 host s) = stream_after 8 s"
proof -
  note bytes = read_bytes_unread [OF assms] stream_field_def stream_after_def
  have one: "unat (hd raw) = positional big (take (Suc 0) raw)" if "Suc 0 \<le> length raw" for raw big
    using that by (cases raw) (simp_all add: positional_def)
  have "map_option unat (fst (stream_read_uint8 s)) = stream_field 1 s \<and>
      snd (stream_read_uint8 s) = stream_after 1 s"
    by (auto simp: stream_read_uint8_def step_then_def step_return_def bytes intro!: one)
  moreover have "map_option unat (fst (stream_read_uint16 host s)) = stream_field 2 s \<and>
      snd (stream_read_uint16 host s) = stream_after 2 s"
    using read16_positional [of "take 2 (unread s)" "big_endian s" host]
    by (simp add: stream_read_uint16_def step_then_def step_with_def step_return_def bytes)
  moreover have "map_option unat (fst (stream_read_uint32 host s)) = stream_field 4 s \<and>
      snd (stream_read_uint32 host s) = stream_after 4 s"
    using read32_positional [of "take 4 (unread s)" "big_endian s" host]
    by (simp add: stream_read_uint32_def step_then_def step_with_def step_return_def bytes)
  moreover have "map_option unat (fst (stream_read_uint64 host s)) = stream_field 8 s \<and>
      snd (stream_read_uint64 host s) = stream_after 8 s"
    using read64_positional [of "take 8 (unread s)" "big_endian s" host]
    by (simp add: stream_read_uint64_def step_then_def step_with_def step_return_def bytes)
  ultimately show ?thesis by blast
qed

theorem stream_integer_reads_witness:
  "map_option unat (fst (stream_read_uint16 False (stream_init [1, 2, 3] 3))) = Some 513"
proof -
  have wf: "stream_wf [1, 2, 3] (stream_init [1, 2, 3] 3)"
    by (simp add: stream_wf_def stream_init_def)
  have "stream_field 2 (stream_init [1, 2, 3] 3) = Some 513"
    by (simp add: stream_field_def unread_def stream_init_def positional_def)
  with stream_integer_reads [OF wf, of False] show ?thesis by simp
qed

text \<open>
  Property C35. The allocating string read returns exactly the bytes before the first zero
  byte left in the buffer, terminated and with every cell written, moves past the
  terminator, and reports the size under which the block is tracked, so that freeing it with
  that size restores the allocation counters. Without a terminator, or when the allocation
  is refused, it returns null and leaves the stream and the counters as they were.
\<close>

theorem stream_string_alloc_correct:
  assumes "stream_wf data s"
  shows "let (block, stored, s', t') = stream_read_string_alloc grants s t in
    owed None 0 (mem_free block (the stored) t') = owed None 0 t \<and>
    (case block of
       None \<Rightarrow> s' = s \<and> stored = None \<and>
         (0 \<in> set (unread s) \<longrightarrow>
          \<not> grants (allocator_calls t) (of_nat (length (takeWhile (\<lambda>b. b \<noteq> 0) (unread s))) + 1))
     | Some cells \<Rightarrow>
         \<exists>prefix rest. unread s = prefix @ 0 # rest \<and> 0 \<notin> set prefix \<and>
           cells = map Some (prefix @ [0]) \<and>
           map_option unat stored = Some (length cells) \<and> unread s' = rest)"
proof -
  note outcome = string_alloc_outcome [OF assms, of grants t]
  show ?thesis
  proof (cases "terminated_prefix s")
    case None
    then have "0 \<notin> set (unread s)" by (simp add: terminated_prefix_def split: if_splits)
    with None outcome show ?thesis by (simp add: Let_def mem_free_def)
  next
    case (Some prefix)
    let ?len = "of_nat (length prefix) :: u64"
    have prefix: "prefix = takeWhile (\<lambda>b. b \<noteq> 0) (unread s)" and zero: "0 \<in> set (unread s)"
      using Some by (auto simp: terminated_prefix_def split: if_splits)
    obtain rest where rest: "unread s = prefix @ 0 # rest" "0 \<notin> set prefix"
      using prefix_before_zero [OF zero] unfolding prefix by auto
    have len: "unat ?len = length prefix" and inside: "unat (position s) + length prefix < length data"
      using outcome Some by (simp_all add: Let_def)
    have "length data < 2 ^ 64"
      using assms u64_bound [of "stream_size s"] by (simp add: stream_wf_def)
    then have plus: "unat (?len + 1) = Suc (length prefix)"
      and end_value: "unat (position s + ?len + 1) = length prefix + 1 + unat (position s)"
      using inside len by (simp_all add: unat_add_fits)
    have "unread (s\<lparr>position := position s + ?len + 1\<rparr>) = drop (length prefix + 1) (unread s)"
      unfolding unread_def drop_drop using end_value by simp
    then have after: "unread (s\<lparr>position := position s + ?len + 1\<rparr>) = rest"
      using rest(1) by simp
    show ?thesis
    proof (cases "mem_alloc grants (?len + 1) t")
      case (Pair r t')
      show ?thesis
      proof (cases r)
        case None
        then have "\<not> grants (allocator_calls t) (?len + 1)" and "owed None 0 t' = owed None 0 t"
          using Pair plus mem_alloc_owed [OF Pair]
          by (auto simp: mem_alloc_def Let_def owed_def split: if_splits)
        then show ?thesis
          using outcome Some Pair None by (simp add: Let_def mem_free_def prefix)
      next
        case (Some cells)
        then have "owed None 0 (mem_free r (?len + 1) t') = owed None 0 t"
          using mem_alloc_owed [OF Pair] by (simp add: mem_free_def owed_def)
        then show ?thesis
          using outcome \<open>terminated_prefix s = Some prefix\<close> Pair Some rest plus after
          by (auto simp: Let_def mem_free_def owed_def)
      qed
    qed
  qed
qed

theorem stream_string_alloc_correct_witness:
  "let (block, stored, s', t') = stream_read_string_alloc (\<lambda>_ _. True) (stream_init [7, 0, 9] 3)
       \<lparr>g_allocated_bytes = 5, g_allocations_count = 1, allocator_calls = 0\<rparr> in
   owed None 0 (mem_free block (the stored) t') = (5, 1) \<and> block = Some [Some 7, Some 0]"
proof -
  have wf: "stream_wf [7, 0, 9] (stream_init [7, 0, 9] 3)"
    by (simp add: stream_wf_def stream_init_def)
  have scan: "string_length (stream_init [7, 0, 9] 3) 0 0 = 1"
    by (subst string_length.simps, subst string_length.simps) (simp add: stream_init_def)
  show ?thesis
    using stream_string_alloc_correct [OF wf, of "\<lambda>_ _. True"
        "\<lparr>g_allocated_bytes = 5, g_allocations_count = 1, allocator_calls = 0\<rparr>"]
    by (simp add: stream_read_string_alloc_def stream_init_def mem_alloc_def Let_def owed_def
        scan [unfolded stream_init_def] mem_free_def word_le_nat_alt)
qed

end
