(* ===== verification/StringBuilder.thy ===== *)
theory StringBuilder
  imports Allocation
begin

text \<open>
  \<open>src/common/string_builder.c\<close>: a growing NUL-terminated buffer with a sticky failure flag.
  The builder argument is non-null except where a routine tests it. \<open>None\<close> as the result of a
  call means that it does not return or writes outside its block; the theorems show that
  this does not happen.
\<close>

section \<open>Model of the code\<close>

record string_builder =
  buf :: "block option"
  len :: u64
  capacity :: u64
  failed :: bool

type_synonym builder_state = "string_builder \<times> tracker"

text \<open>\<open>memcpy(buf + at, bytes)\<close>, undefined outside the block.\<close>

definition write_cells :: "nat \<Rightarrow> u8 list \<Rightarrow> block \<Rightarrow> block option" where
  "write_cells at bytes cells =
     (if at + length bytes \<le> length cells
      then Some (take at cells @ map Some bytes @ drop (at + length bytes) cells) else None)"

definition sb_init :: string_builder where
  "sb_init = \<lparr>buf = None, len = 0, capacity = 0, failed = False\<rparr>"

definition sb_init_with_capacity :: "allocator \<Rightarrow> u64 \<Rightarrow> tracker \<Rightarrow> builder_state option" where
  "sb_init_with_capacity grants amount t =
     (if amount > 0 then
        (case mem_alloc grants amount t of
           (None, t') \<Rightarrow> Some (sb_init, t')
         | (Some cells, t') \<Rightarrow>
             (case write_cells 0 [0] cells of
                None \<Rightarrow> None
              | Some written \<Rightarrow> Some (sb_init\<lparr>buf := Some written, capacity := amount\<rparr>, t')))
      else Some (sb_init, t))"

definition sb_free :: "builder_state \<Rightarrow> builder_state" where
  "sb_free = (\<lambda>(sb, t).
     (sb\<lparr>buf := None, len := 0, failed := False, capacity := 0\<rparr>,
      if buf sb = None then t else mem_free (buf sb) (capacity sb) t))"

definition sb_clear :: "string_builder \<Rightarrow> string_builder option" where
  "sb_clear sb =
     (case buf sb of
        None \<Rightarrow> Some (sb\<lparr>len := 0\<rparr>)
      | Some cells \<Rightarrow>
          (case write_cells 0 [0] cells of
             None \<Rightarrow> None
           | Some written \<Rightarrow> Some (sb\<lparr>len := 0, buf := Some written\<rparr>)))"

text \<open>The doubling loop; \<open>None\<close> where it does not terminate.\<close>

partial_function (option) grow_capacity :: "u64 \<Rightarrow> u64 \<Rightarrow> u64 option" where
  "grow_capacity new_cap required =
     (if new_cap < required then
        (if new_cap > SIZE_MAX div 2 then Some required
         else grow_capacity (new_cap * 2) required)
      else Some new_cap)"

definition sb_ensure_capacity ::
    "allocator \<Rightarrow> u64 \<Rightarrow> builder_state \<Rightarrow> (bool \<times> builder_state) option" where
  "sb_ensure_capacity grants additional = (\<lambda>(sb, t).
     if failed sb \<or> len sb = SIZE_MAX \<or> additional > SIZE_MAX - len sb - 1
     then Some (False, sb\<lparr>failed := True\<rparr>, t)
     else
       (let required = len sb + additional + 1 in
        if required \<le> capacity sb then Some (True, sb, t)
        else
          (case grow_capacity (if capacity sb = 0 then 32 else capacity sb * 2) required of
             None \<Rightarrow> None
           | Some new_cap \<Rightarrow>
               (case (case buf sb of
                        None \<Rightarrow>
                          (case mem_alloc grants new_cap t of
                             (None, t') \<Rightarrow> Some (sb, t')
                           | (Some cells, t') \<Rightarrow>
                               (case write_cells 0 [0] cells of
                                  None \<Rightarrow> None
                                | Some written \<Rightarrow>
                                    Some (sb\<lparr>buf := Some written, capacity := new_cap\<rparr>, t')))
                      | Some old \<Rightarrow>
                          (case mem_realloc grants (Some old) (capacity sb) new_cap t of
                             (None, t') \<Rightarrow> Some (sb, t')
                           | (Some cells, t') \<Rightarrow>
                               Some (sb\<lparr>buf := Some cells, capacity := new_cap\<rparr>, t'))) of
                  None \<Rightarrow> None
                | Some (grown, t') \<Rightarrow>
                    if buf grown = None \<or> capacity grown < required
                    then Some (False, grown\<lparr>failed := True\<rparr>, t')
                    else Some (True, grown, t')))))"

text \<open>The bytes copied behind the contents, the new length, and the terminator after them.\<close>

definition store_text :: "u8 list \<Rightarrow> u64 \<Rightarrow> string_builder \<Rightarrow> string_builder option" where
  "store_text bytes count sb =
     (case buf sb of
        None \<Rightarrow> None
      | Some cells \<Rightarrow>
          (case write_cells (unat (len sb)) bytes cells of
             None \<Rightarrow> None
           | Some copied \<Rightarrow>
               (case write_cells (unat (len sb + count)) [0] copied of
                  None \<Rightarrow> None
                | Some terminated \<Rightarrow>
                    Some (sb\<lparr>buf := Some terminated, len := len sb + count\<rparr>))))"

text \<open>\<open>str\<close> is the memory behind the argument; reading past its end is undefined.\<close>

definition sb_append_len ::
    "allocator \<Rightarrow> u8 list option \<Rightarrow> u64 \<Rightarrow> builder_state \<Rightarrow> builder_state option" where
  "sb_append_len grants str count = (\<lambda>(sb, t).
     if str = None \<or> count = 0 then Some (sb, t)
     else
       (case sb_ensure_capacity grants count (sb, t) of
          None \<Rightarrow> None
        | Some (ok, sb', t') \<Rightarrow>
            if \<not> ok then Some (sb', t')
            else if length (the str) < unat count then None
            else map_option (\<lambda>stored. (stored, t'))
                   (store_text (take (unat count) (the str)) count sb')))"

definition sb_append :: "allocator \<Rightarrow> u8 list option \<Rightarrow> builder_state \<Rightarrow> builder_state option" where
  "sb_append grants str state =
     (case str of
        None \<Rightarrow> Some state
      | Some s \<Rightarrow> sb_append_len grants (Some s) (of_nat (length s)) state)"

definition sb_append_char :: "allocator \<Rightarrow> u8 \<Rightarrow> builder_state \<Rightarrow> builder_state option" where
  "sb_append_char grants c state =
     (case sb_ensure_capacity grants 1 state of
        None \<Rightarrow> None
      | Some (ok, sb, t) \<Rightarrow>
          if \<not> ok then Some (sb, t)
          else map_option (\<lambda>stored. (stored, t)) (store_text [c] 1 sb))"

text \<open>
  What one call of \<open>vsnprintf\<close> does: format a text, or fail after having stored some bytes.
  Its result is negative on failure and for a text longer than \<open>INT_MAX\<close>. It stores at most
  the given number of bytes, the last of them the terminator.
\<close>

datatype format_outcome = Formatted "u8 list" | Format_error "u8 list"

fun vsnprintf_result :: "format_outcome \<Rightarrow> int" where
  "vsnprintf_result (Formatted text) = (if int (length text) \<le> INT_MAX then int (length text) else -1)"
| "vsnprintf_result (Format_error stored) = -1"

fun vsnprintf_stored :: "nat \<Rightarrow> format_outcome \<Rightarrow> u8 list" where
  "vsnprintf_stored n (Formatted text) = (if n = 0 then [] else take (n - 1) text @ [0])"
| "vsnprintf_stored n (Format_error stored) = take n stored"

text \<open>
  \<open>formats\<close> is \<open>None\<close> for a null format, otherwise the outcomes of the sizing call and of the
  writing call.
\<close>

definition sb_appendfv ::
    "allocator \<Rightarrow> (format_outcome \<times> format_outcome) option \<Rightarrow> builder_state \<Rightarrow> builder_state option" where
  "sb_appendfv grants formats = (\<lambda>(sb, t).
     if failed sb then Some (sb, t)
     else
       (case formats of
          None \<Rightarrow> Some (sb\<lparr>failed := True\<rparr>, t)
        | Some (sizing, writing) \<Rightarrow>
            (let formatted_len = vsnprintf_result sizing in
             if formatted_len < 0 then Some (sb\<lparr>failed := True\<rparr>, t)
             else if formatted_len = 0 then Some (sb, t)
             else
               (case sb_ensure_capacity grants (word_of_int formatted_len) (sb, t) of
                  None \<Rightarrow> None
                | Some (ok, sb', t') \<Rightarrow>
                    if \<not> ok then Some (sb', t')
                    else
                      (case buf sb' of
                         None \<Rightarrow> None
                       | Some cells \<Rightarrow>
                           (case write_cells (unat (len sb'))
                                   (vsnprintf_stored (nat formatted_len + 1) writing) cells of
                              None \<Rightarrow> None
                            | Some written \<Rightarrow>
                                if vsnprintf_result writing \<noteq> formatted_len then
                                  (case write_cells (unat (len sb')) [0] written of
                                     None \<Rightarrow> None
                                   | Some restored \<Rightarrow>
                                       Some (sb'\<lparr>buf := Some restored, failed := True\<rparr>, t'))
                                else
                                  Some (sb'\<lparr>buf := Some written,
                                           len := len sb' + word_of_int formatted_len\<rparr>, t')))))))"

definition sb_appendf ::
    "allocator \<Rightarrow> (format_outcome \<times> format_outcome) option \<Rightarrow> builder_state \<Rightarrow> builder_state option" where
  "sb_appendf grants formats state = sb_appendfv grants formats state"

definition sb_ok :: "string_builder option \<Rightarrow> bool" where
  "sb_ok sb = (case sb of None \<Rightarrow> False | Some b \<Rightarrow> \<not> failed b)"

text \<open>The detached block with the builder and the tracker left behind.\<close>

definition sb_detach :: "allocator \<Rightarrow> builder_state \<Rightarrow> (block option \<times> builder_state) option" where
  "sb_detach grants = (\<lambda>(sb, t).
     (case buf sb of
        None \<Rightarrow>
          (case mem_alloc grants 1 t of
             (None, t') \<Rightarrow> Some (None, sb, t')
           | (Some cells, t') \<Rightarrow>
               map_option (\<lambda>written. (Some written, sb, t')) (write_cells 0 [0] cells))
      | Some res \<Rightarrow>
          (let actual_size = len sb + 1 in
           case mem_realloc grants (Some res) (capacity sb) actual_size t of
             (None, t') \<Rightarrow> Some (Some res, sb_init, mem_untrack_allocation (capacity sb) t')
           | (Some cells, t') \<Rightarrow>
               Some (Some cells, sb_init, mem_untrack_allocation actual_size t'))))"

section \<open>The growth loop\<close>

lemma grow_capacity_reaches:
  "new_cap \<noteq> 0 \<Longrightarrow> \<exists>c. grow_capacity new_cap required = Some c \<and> required \<le> c \<and>
     unat c \<le> max (unat new_cap) (2 * unat required)"
proof (induction "2 ^ 64 - unat new_cap" arbitrary: new_cap rule: less_induct)
  case less
  show ?case
  proof (cases "new_cap < required \<and> \<not> new_cap > SIZE_MAX div 2")
    case False
    then show ?thesis
      by (subst grow_capacity.simps, cases "new_cap < required") (auto simp: not_less)
  next
    case True
    have half: "unat new_cap \<le> 2 ^ 63 - 1"
      using True by (simp add: word_less_nat_alt unat_div)
    then have twice: "unat (new_cap * 2) = unat new_cap * 2"
      by (subst unat_mult_lem [THEN iffD1]) simp_all
    have "unat new_cap > 0" using less.prems unat_gt_0 by blast
    then have smaller: "2 ^ 64 - unat (new_cap * 2) < 2 ^ 64 - unat new_cap"
    proof -
      have "unat new_cap \<le> 9223372036854775807" using half by simp
      then have "18446744073709551616 - unat (new_cap * 2) < 18446744073709551616 - unat new_cap"
        using twice \<open>unat new_cap > 0\<close> by linarith
      then show ?thesis by simp
    qed
    have positive: "new_cap * 2 \<noteq> 0"
      using twice \<open>unat new_cap > 0\<close> by (metis mult_is_0 neq0_conv unat_0 zero_neq_numeral)
    obtain c where c: "grow_capacity (new_cap * 2) required = Some c" "required \<le> c"
      "unat c \<le> max (unat (new_cap * 2)) (2 * unat required)"
      using less.hyps [OF smaller positive] by blast
    have "unat (new_cap * 2) \<le> 2 * unat required"
      using True twice by (simp add: word_less_nat_alt)
    with c True show ?thesis by (subst grow_capacity.simps) auto
  qed
qed

lemma grow_capacity_zero: "grow_capacity 0 required = Some c \<Longrightarrow> required = 0"
proof -
  have "new_cap = 0 \<longrightarrow> required = 0" if "grow_capacity new_cap required = Some c" for new_cap
  proof (rule grow_capacity.raw_induct [OF _ that, where P = "\<lambda>new_cap required c. new_cap = 0 \<longrightarrow> required = 0"])
    fix loop :: "u64 \<Rightarrow> u64 \<Rightarrow> u64 option" and new_cap required c
    assume inner: "\<And>new_cap required c. loop new_cap required = Some c \<Longrightarrow> new_cap = 0 \<longrightarrow> required = 0"
      and "(if new_cap < required then if SIZE_MAX div 2 < new_cap then Some required
            else loop (new_cap * 2) required else Some new_cap) = Some c"
    then show "new_cap = 0 \<longrightarrow> required = 0"
      using inner [of 0 required c] by (auto simp: word_gt_0 split: if_splits)
  qed
  then show "grow_capacity 0 required = Some c \<Longrightarrow> required = 0" by blast
qed

section \<open>Contents and invariant\<close>

text \<open>
  A builder holds a text when its block, of the recorded capacity, starts with that text and
  a terminator, all of it written. Without a block the text is empty.
\<close>

definition holds :: "string_builder \<Rightarrow> u8 list \<Rightarrow> bool" where
  "holds sb text \<longleftrightarrow>
     unat (len sb) = length text \<and>
     (case buf sb of
        None \<Rightarrow> text = [] \<and> capacity sb = 0
      | Some cells \<Rightarrow>
          length cells = unat (capacity sb) \<and> capacity sb < 0x8000000000000000 \<and>
          (\<exists>rest. cells = map Some (text @ [0]) @ rest))"

definition contents :: "string_builder \<Rightarrow> u8 list" where
  "contents sb = (case buf sb of None \<Rightarrow> [] | Some cells \<Rightarrow> map the (take (unat (len sb)) cells))"

lemma holds_contents: "holds sb text \<Longrightarrow> contents sb = text"
  by (auto simp: holds_def contents_def split: option.splits)

lemma holds_small: "holds sb text \<Longrightarrow> length text < 2 ^ 63"
  by (auto simp: holds_def word_less_nat_alt split: option.splits)

lemma holds_init: "holds sb_init []"
  by (simp add: holds_def sb_init_def)

lemma holds_failed: "holds (sb\<lparr>failed := b\<rparr>) text \<longleftrightarrow> holds sb text"
  by (simp add: holds_def split: option.split)

definition builder_owed :: "builder_state \<Rightarrow> u64 \<times> u64" where
  "builder_owed = (\<lambda>(sb, t). owed (buf sb) (capacity sb) t)"

lemma write_start:
  "cells \<noteq> [] \<Longrightarrow> \<exists>written. write_cells 0 [0] cells = Some written \<and>
     written = Some 0 # tl cells"
  by (cases cells) (auto simp: write_cells_def Suc_le_eq)

text \<open>A new block, and a block grown in place of one that held the text.\<close>

lemma holds_new_block:
  assumes "mem_alloc grants amount t = (Some cells, t')" and "allocator_bounded grants"
  obtains written where "write_cells 0 [0] cells = Some written"
    and "holds (sb\<lparr>buf := Some written, capacity := amount, len := 0\<rparr>) []"
proof -
  have cells: "cells = replicate (unat amount) None" and "amount \<noteq> 0" and small: "amount < 0x8000000000000000"
    using mem_alloc_cells [OF assms(1)] allocator_boundedD [OF assms(2)] by auto
  then have "0 < unat amount" using unat_gt_0 by blast
  with cells have "cells \<noteq> []" and "length cells = unat amount" by auto
  moreover from write_start [OF this(1)]
  obtain written where "write_cells 0 [0] cells = Some written" "written = Some 0 # tl cells" by blast
  moreover have "0 < length cells" using \<open>cells \<noteq> []\<close> by simp
  ultimately show ?thesis
    using that [of written] small by (simp add: holds_def)
qed

lemma holds_grown_block:
  assumes held: "holds sb text" and old: "buf sb = Some old"
    and run: "mem_realloc grants (Some old) (capacity sb) amount t = (Some cells, t')"
    and "allocator_bounded grants" and fits: "length text < unat amount"
  shows "holds (sb\<lparr>buf := Some cells, capacity := amount\<rparr>) text"
proof -
  have size: "length cells = unat amount" and small: "amount < 0x8000000000000000"
    and same: "\<forall>k < min (length old) (unat amount). cells ! k = old ! k"
    using mem_realloc_cells [OF run] allocator_boundedD [OF assms(4)] by auto
  obtain rest where old_cells: "old = map Some (text @ [0]) @ rest"
    using held old by (auto simp: holds_def)
  have "take (Suc (length text)) cells = map Some (text @ [0])"
  proof (rule nth_equalityI)
    show "length (take (Suc (length text)) cells) = length (map Some (text @ [0]))"
      using fits size by simp
    fix k
    assume "k < length (take (Suc (length text)) cells)"
    then have k: "k < Suc (length text)" "k < unat amount" using size by simp_all
    then have "cells ! k = old ! k" using same old_cells by simp
    with k show "take (Suc (length text)) cells ! k = map Some (text @ [0]) ! k"
      using old_cells by (auto simp: nth_append less_Suc_eq)
  qed
  then have "cells = map Some (text @ [0]) @ drop (Suc (length text)) cells"
    by (metis append_take_drop_id)
  then show ?thesis
    using held size small by (simp add: holds_def) blast
qed

text \<open>
  The only excuses for a failure: the text with its terminator does not fit \<open>size_t\<close>, or
  the allocator refuses some request of at most twice that size (32 bytes for a first block).
\<close>

definition refusal :: "allocator \<Rightarrow> nat \<Rightarrow> bool" where
  "refusal grants n \<longleftrightarrow>
     2 ^ 64 \<le> n \<or> (\<exists>i m. m \<noteq> 0 \<and> unat m \<le> max 32 (2 * n) \<and> \<not> grants i m)"

lemma refused_alloc:
  assumes "mem_alloc grants m t = (None, t')" and "m \<noteq> 0" and "unat m \<le> max 32 (2 * n)"
  shows "refusal grants n"
  using assms unfolding refusal_def mem_alloc_def Let_def by (metis option.distinct(1) prod.inject)

lemma refused_realloc:
  assumes "mem_realloc grants p c m t = (None, t')" and "m \<noteq> 0" and "unat m \<le> max 32 (2 * n)"
  shows "refusal grants n"
  using assms unfolding refusal_def mem_realloc_def Let_def by (metis option.distinct(1) prod.inject)

text \<open>
  Securing room for more text returns, keeps the text and the balance, and either finds the
  room or sets the failure flag.
\<close>

lemma overflow_total:
  assumes "a = SIZE_MAX \<or> b > SIZE_MAX - a - 1"
  shows "2 ^ 64 \<le> unat a + unat b + 1"
proof (cases "a = SIZE_MAX")
  case False
  then have "unat a \<noteq> unat SIZE_MAX" by (metis word_unat_eq_iff)
  then have small: "unat a < 18446744073709551615" using u64_bound [of a] by simp
  then have "unat (SIZE_MAX - a - 1) = 18446744073709551614 - unat a"
    by (subst unat_diff_le) (simp_all add: word_le_nat_alt)
  with False assms have "18446744073709551614 - unat a < unat b" by (simp add: word_less_nat_alt)
  with small have "18446744073709551616 \<le> unat a + unat b + 1" by linarith
  then show ?thesis by simp
qed simp

lemma ensure_capacity_outcome:
  assumes held: "holds sb text" and bounded: "allocator_bounded grants"
  obtains ok sb' t' where "sb_ensure_capacity grants additional (sb, t) = Some (ok, sb', t')"
    and "holds sb' text" and "builder_owed (sb', t') = builder_owed (sb, t)"
    and "len sb' = len sb" and "failed sb' = (\<not> ok)" and "ok \<Longrightarrow> \<not> failed sb"
    and "ok \<Longrightarrow> buf sb' \<noteq> None \<and> length text + unat additional + 1 \<le> unat (capacity sb')"
    and "\<not> ok \<Longrightarrow> failed sb \<or> refusal grants (length text + unat additional + 1)"
proof (cases "failed sb \<or> len sb = SIZE_MAX \<or> additional > SIZE_MAX - len sb - 1")
  case True
  have "failed sb \<or> 2 ^ 64 \<le> length text + unat additional + 1"
    using overflow_total [of "len sb" additional] True held by (auto simp: holds_def)
  with True show ?thesis
    using that [of False "sb\<lparr>failed := True\<rparr>" t] held
    by (auto simp: sb_ensure_capacity_def holds_failed builder_owed_def refusal_def)
next
  case False
  have length: "unat (len sb) = length text" and small: "length text < 2 ^ 63"
    using held holds_small [OF held] by (simp_all add: holds_def)
  have "unat (SIZE_MAX - len sb - 1) = 2 ^ 64 - 2 - length text"
    using length small by (subst unat_diff_le) (simp_all add: word_le_nat_alt)
  then have bound: "length text + unat additional + 1 < 2 ^ 64"
  proof -
    assume room: "unat (SIZE_MAX - len sb - 1) = 2 ^ 64 - 2 - length text"
    have "unat additional \<le> 2 ^ 64 - 2 - length text"
      using False unfolding room [symmetric] by (simp add: word_le_nat_alt not_less)
    then have "unat additional \<le> 18446744073709551614 - length text" by simp
    moreover have "length text < 9223372036854775808" using small by simp
    ultimately have "length text + unat additional + 1 < 18446744073709551616" by linarith
    then show ?thesis by simp
  qed
  let ?required = "len sb + additional + 1"
  have required: "unat ?required = length text + unat additional + 1"
    using bound length by (simp add: unat_add_fits)
  show ?thesis
  proof (cases "?required \<le> capacity sb")
    case True
    then have room: "length text + unat additional + 1 \<le> unat (capacity sb)"
      using required by (simp add: word_le_nat_alt)
    then have "buf sb \<noteq> None" using held by (auto simp: holds_def split: option.splits)
    then show ?thesis
      using that [of True sb t] held room True \<open>\<not> (failed sb \<or> _)\<close>
      by (simp add: sb_ensure_capacity_def Let_def)
  next
    case grow: False
    have "capacity sb < 0x8000000000000000" using held by (auto simp: holds_def split: option.splits)
    then have twice: "unat (capacity sb * 2) = unat (capacity sb) * 2"
      by (subst unat_mult_lem [THEN iffD1]) (simp_all add: word_less_nat_alt)
    have "capacity sb * 2 \<noteq> 0" if "capacity sb \<noteq> 0"
      using that twice by (metis mult_is_0 unat_0 unat_eq_zero zero_neq_numeral)
    then have "(if capacity sb = 0 then 32 else capacity sb * 2) \<noteq> 0" by simp
    from grow_capacity_reaches [OF this, of ?required]
    obtain new_cap where new_cap: "?required \<le> new_cap"
      "grow_capacity (if capacity sb = 0 then 32 else capacity sb * 2) ?required = Some new_cap"
      and doubled: "unat new_cap \<le>
        max (unat (if capacity sb = 0 then 32 else capacity sb * 2)) (2 * unat ?required)"
      by metis
    have "unat (if capacity sb = 0 then 32 else capacity sb * 2) \<le> max 32 (2 * unat ?required)"
      using grow twice by (auto simp: word_le_nat_alt)
    then have limit: "unat new_cap \<le> max 32 (2 * (length text + unat additional + 1))"
      using doubled unfolding required by linarith
    have "new_cap \<noteq> 0" using new_cap(1) required by (auto simp: word_le_nat_alt)
    note refused = refused_alloc [OF _ \<open>new_cap \<noteq> 0\<close> limit] refused_realloc [OF _ \<open>new_cap \<noteq> 0\<close> limit]
    have room: "length text + unat additional + 1 \<le> unat new_cap"
      using required new_cap(1) by (simp add: word_le_nat_alt)
    note run = sb_ensure_capacity_def Let_def
    show ?thesis
    proof (cases "buf sb")
      case None
      then have empty: "text = []" "unat (len sb) = 0" "capacity sb = 0"
        using held by (simp_all add: holds_def)
      then have empty_len: "len sb = 0" by (simp add: unat_eq_zero)
      obtain r t' where alloc: "mem_alloc grants new_cap t = (r, t')"
        by (cases "mem_alloc grants new_cap t")
      note owed = mem_alloc_owed [OF alloc]
      show ?thesis
      proof (cases r)
        case denied: None
        show ?thesis
          using that [of False "sb\<lparr>failed := True\<rparr>" t'] held None alloc denied owed
            \<open>\<not> (failed sb \<or> _)\<close> grow new_cap empty refused(1) [of grants t t']
          by (simp add: run holds_failed builder_owed_def owed_def)
      next
        case (Some cells)
        obtain written where written: "write_cells 0 [0] cells = Some written"
          "holds (sb\<lparr>buf := Some written, capacity := new_cap, len := 0\<rparr>) []"
          using holds_new_block alloc bounded Some by blast
        have same: "sb\<lparr>buf := Some written, capacity := new_cap, len := 0\<rparr> =
            sb\<lparr>buf := Some written, capacity := new_cap\<rparr>" using empty_len by simp
        show ?thesis
          using that [of True "sb\<lparr>buf := Some written, capacity := new_cap\<rparr>" t'] None alloc Some owed
            \<open>\<not> (failed sb \<or> _)\<close> grow new_cap empty room written(2) [unfolded same] written(1)
          by (simp add: run builder_owed_def owed_def not_less)
      qed
    next
      case (Some old)
      obtain r t' where alloc: "mem_realloc grants (Some old) (capacity sb) new_cap t = (r, t')"
        by (cases "mem_realloc grants (Some old) (capacity sb) new_cap t")
      note owed = mem_realloc_owed [OF alloc]
      show ?thesis
      proof (cases r)
        case None
        show ?thesis
          using that [of False "sb\<lparr>failed := True\<rparr>" t'] held None alloc Some owed
            \<open>\<not> (failed sb \<or> _)\<close> grow new_cap refused(2) [of grants "Some old" "capacity sb" t t']
          by (simp add: run holds_failed builder_owed_def not_le)
      next
        case grown: (Some cells)
        have "holds (sb\<lparr>buf := Some cells, capacity := new_cap\<rparr>) text"
          using holds_grown_block [OF held Some] alloc grown bounded room by simp
        then show ?thesis
          using that [of True "sb\<lparr>buf := Some cells, capacity := new_cap\<rparr>" t'] alloc Some owed grown
            \<open>\<not> (failed sb \<or> _)\<close> grow new_cap room
          by (simp add: run builder_owed_def owed_def not_less)
      qed
    qed
  qed
qed

lemma holds_block:
  assumes "holds sb text" and "buf sb = Some cells"
  obtains rest where "cells = map Some (text @ [0]) @ rest" and "unat (len sb) = length text"
    and "length cells = unat (capacity sb)" and "capacity sb < 0x8000000000000000"
  using assms by (auto simp: holds_def)

lemma holds_written:
  assumes "holds sb text" and "buf sb = Some cells"
    and "length cells' = length cells" and "cells' = map Some (text' @ [0]) @ rest"
    and "unat count = length text'"
  shows "holds (sb\<lparr>buf := Some cells', len := count\<rparr>) text'"
  using assms by (auto simp: holds_def)

lemma store_text_outcome:
  assumes held: "holds sb text" and "buf sb \<noteq> None"
    and room: "length text + unat count + 1 \<le> unat (capacity sb)"
    and "length bytes = unat count"
  obtains sb' where "store_text bytes count sb = Some sb'" and "holds sb' (text @ bytes)"
    and "failed sb' = failed sb" and "capacity sb' = capacity sb" and "buf sb' \<noteq> None"
proof -
  obtain cells where cells: "buf sb = Some cells" using assms(2) by blast
  obtain rest where rest: "cells = map Some (text @ [0]) @ rest" "unat (len sb) = length text"
    "length cells = unat (capacity sb)"
    using holds_block [OF held cells] by metis
  have next_len: "unat (len sb + count) = length text + unat count"
    using room rest(2) u64_bound [of "capacity sb"] by (simp add: unat_add_fits)
  define copied where "copied = map Some text @ map Some bytes @ drop (length text + unat count) cells"
  have copy: "write_cells (unat (len sb)) bytes cells = Some copied"
    using room rest assms(4) by (simp add: write_cells_def copied_def)
  define terminated where
    "terminated = map Some text @ map Some bytes @ Some 0 # drop (length text + unat count + 1) cells"
  have tail: "drop (Suc 0) (drop (length text + unat count) cells) =
      drop (length text + unat count + 1) cells" by simp
  have "write_cells (unat (len sb + count)) [0] copied = Some terminated"
    using room rest assms(4) tail
    by (simp add: write_cells_def copied_def terminated_def next_len)
  moreover have "length terminated = length cells"
    using room rest assms(4) by (simp add: terminated_def)
  moreover have "terminated = map Some ((text @ bytes) @ [0]) @ drop (length text + unat count + 1) cells"
    by (simp add: terminated_def)
  ultimately show ?thesis
    using that [of "sb\<lparr>buf := Some terminated, len := len sb + count\<rparr>"] cells copy
      holds_written [OF held cells, of terminated "text @ bytes" _ "len sb + count"] next_len assms(4)
    by (simp add: store_text_def)
qed

text \<open>
  What an appending call promises: it returns, the text is extended by the given bytes unless
  the builder has failed or fails, it fails only when excused, and the balance of the counters
  is kept.
\<close>

definition appends :: "allocator \<Rightarrow> bool \<Rightarrow> u8 list \<Rightarrow> builder_state \<Rightarrow> builder_state option \<Rightarrow> bool" where
  "appends grants faulty bytes = (\<lambda>(sb, t) result.
     case result of
       None \<Rightarrow> False
     | Some (sb', t') \<Rightarrow>
         builder_owed (sb', t') = builder_owed (sb, t) \<and>
         (if failed sb' then
            holds sb' (contents sb) \<and>
            (failed sb \<or> faulty \<or> refusal grants (length (contents sb) + length bytes + 1))
          else \<not> failed sb \<and> holds sb' (contents sb @ bytes)))"

lemma appended_after_room:
  assumes "holds sb text" and "allocator_bounded grants" and "length bytes = unat count"
  shows "appends grants False bytes (sb, t)
    (case sb_ensure_capacity grants count (sb, t) of
       None \<Rightarrow> None
     | Some (ok, sb', t') \<Rightarrow>
         if \<not> ok then Some (sb', t')
         else map_option (\<lambda>stored. (stored, t')) (store_text bytes count sb'))"
proof -
  obtain ok sb' t' where run: "sb_ensure_capacity grants count (sb, t) = Some (ok, sb', t')"
    and held: "holds sb' text" and owed: "builder_owed (sb', t') = builder_owed (sb, t)"
    and flag: "failed sb' = (\<not> ok)" "ok \<Longrightarrow> \<not> failed sb"
    and room: "ok \<Longrightarrow> buf sb' \<noteq> None \<and> length text + unat count + 1 \<le> unat (capacity sb')"
    and excuse: "\<not> ok \<Longrightarrow> failed sb \<or> refusal grants (length text + unat count + 1)"
    using ensure_capacity_outcome [OF assms(1,2)] by metis
  note same = holds_contents [OF assms(1)]
  show ?thesis
  proof (cases ok)
    case False
    then show ?thesis using run held owed flag same excuse assms(3) by (simp add: appends_def)
  next
    case True
    obtain stored where "store_text bytes count sb' = Some stored" "holds stored (text @ bytes)"
      "failed stored = failed sb'" "capacity stored = capacity sb'" "buf stored \<noteq> None"
      using store_text_outcome [OF held _ _ assms(3)] room [OF True] by metis
    then show ?thesis
      using run owed flag same True room [OF True]
      by (auto simp: appends_def builder_owed_def owed_def)
  qed
qed

lemma append_nothing: "holds sb text \<Longrightarrow> appends grants faulty [] (sb, t) (Some (sb, t))"
  by (simp add: appends_def holds_contents)

lemma append_len_appends:
  assumes "holds sb text" and "allocator_bounded grants"
    and "case str of None \<Rightarrow> True | Some s \<Rightarrow> unat count \<le> length s"
  shows "appends grants False (case str of None \<Rightarrow> [] | Some s \<Rightarrow> take (unat count) s) (sb, t)
    (sb_append_len grants str count (sb, t))"
proof (cases "str = None \<or> count = 0")
  case True
  then show ?thesis
    using append_nothing [OF assms(1)] by (auto simp: sb_append_len_def split: option.split)
next
  case False
  then obtain s where s: "str = Some s" "unat count \<le> length s" using assms(3) by auto
  have "sb_append_len grants str count (sb, t) =
    (case sb_ensure_capacity grants count (sb, t) of
       None \<Rightarrow> None
     | Some (ok, sb', t') \<Rightarrow>
         if \<not> ok then Some (sb', t')
         else map_option (\<lambda>stored. (stored, t')) (store_text (take (unat count) s) count sb'))"
    using False s by (auto simp: sb_append_len_def not_less split: option.split prod.split)
  then show ?thesis
    using appended_after_room [OF assms(1,2), of "take (unat count) s" count t] s by simp
qed

lemma append_appends:
  assumes "holds sb text" and "allocator_bounded grants"
    and "case str of None \<Rightarrow> True | Some s \<Rightarrow> length s \<le> size_max"
  shows "appends grants False (case str of None \<Rightarrow> [] | Some s \<Rightarrow> s) (sb, t) (sb_append grants str (sb, t))"
proof (cases str)
  case None
  then show ?thesis using append_nothing [OF assms(1)] by (simp add: sb_append_def)
next
  case (Some s)
  then have "unat (of_nat (length s) :: u64) = length s"
    using assms(3) by (simp add: unat_of_nat)
  with append_len_appends [OF assms(1,2), of "of_nat (length s)" "Some s" t] Some show ?thesis
    by (simp add: sb_append_def)
qed

lemma append_char_appends:
  assumes "holds sb text" and "allocator_bounded grants"
  shows "appends grants False [c] (sb, t) (sb_append_char grants c (sb, t))"
  using appended_after_room [OF assms, of "[c]" 1 t] by (simp add: sb_append_char_def)

text \<open>
  The formatted append adds the text of the writing call when the two calls agree, and
  restores the terminator and fails when they do not.
\<close>

definition formatted_text :: "(format_outcome \<times> format_outcome) option \<Rightarrow> u8 list" where
  "formatted_text formats =
     (case formats of
        Some (Formatted sized, Formatted text) \<Rightarrow> if sized = [] then [] else text
      | _ \<Rightarrow> [])"

definition format_fault :: "(format_outcome \<times> format_outcome) option \<Rightarrow> bool" where
  "format_fault formats =
     (case formats of
        None \<Rightarrow> True
      | Some (sizing, writing) \<Rightarrow>
          vsnprintf_result sizing < 0 \<or>
          (0 < vsnprintf_result sizing \<and> vsnprintf_result writing \<noteq> vsnprintf_result sizing))"

lemma vsnprintf_stored_length: "0 < n \<Longrightarrow> length (vsnprintf_stored n outcome) \<le> n"
  by (cases outcome) auto

lemma vsnprintf_agrees:
  "vsnprintf_result outcome = n \<Longrightarrow> 0 \<le> n \<Longrightarrow>
     \<exists>text. outcome = Formatted text \<and> int (length text) = n"
  by (cases outcome) (auto split: if_splits)

lemma write_agreeing_text:
  assumes held: "holds sb text" and cells: "buf sb = Some cells"
    and room: "length text + unat count + 1 \<le> unat (capacity sb)"
    and "length bytes = unat count"
  obtains written where "write_cells (unat (len sb)) (bytes @ [0]) cells = Some written"
    and "holds (sb\<lparr>buf := Some written, len := len sb + count\<rparr>) (text @ bytes)"
proof -
  obtain rest where rest: "cells = map Some (text @ [0]) @ rest" "unat (len sb) = length text"
    "length cells = unat (capacity sb)"
    using holds_block [OF held cells] by metis
  have next_len: "unat (len sb + count) = length (text @ bytes)"
    using room rest(2) u64_bound [of "capacity sb"] assms(4) by (simp add: unat_add_fits)
  let ?written = "map Some ((text @ bytes) @ [0]) @ drop (length text + unat count + 1) cells"
  have "write_cells (unat (len sb)) (bytes @ [0]) cells = Some ?written"
    using room rest assms(4) by (simp add: write_cells_def)
  moreover have "length ?written = length cells"
    using room rest assms(4) by simp
  ultimately show ?thesis
    using that holds_written [OF held cells _ refl next_len] by simp
qed

lemma write_over_tail:
  assumes held: "holds sb text" and cells: "buf sb = Some cells"
    and room: "length text + length bytes \<le> unat (capacity sb)" and "length text < unat (capacity sb)"
  obtains written restored where "write_cells (unat (len sb)) bytes cells = Some written"
    and "write_cells (unat (len sb)) [0] written = Some restored"
    and "holds (sb\<lparr>buf := Some restored\<rparr>) text"
proof -
  obtain rest where rest: "cells = map Some (text @ [0]) @ rest" "unat (len sb) = length text"
    "length cells = unat (capacity sb)"
    using holds_block [OF held cells] by metis
  let ?written = "map Some text @ map Some bytes @ drop (length text + length bytes) cells"
  let ?restored = "map Some (text @ [0]) @ drop (Suc (length text)) ?written"
  have "write_cells (unat (len sb)) bytes cells = Some ?written"
    using room rest by (simp add: write_cells_def)
  moreover have size: "length ?written = length cells" using room rest by simp
  moreover have "write_cells (unat (len sb)) [0] ?written = Some ?restored"
    using assms(4) rest size by (simp add: write_cells_def)
  moreover have "length ?restored = length cells" using size assms(4) rest by simp
  then have "holds (sb\<lparr>buf := Some ?restored, len := len sb\<rparr>) text"
    using holds_written [OF held cells _ refl rest(2)] by blast
  ultimately show ?thesis using that by simp
qed

lemma appendfv_appends:
  assumes held: "holds sb text" and bounded: "allocator_bounded grants"
  shows "appends grants (format_fault formats) (formatted_text formats) (sb, t) (sb_appendfv grants formats (sb, t))"
proof (cases "failed sb \<or> formats = None \<or> vsnprintf_result (fst (the formats)) \<le> 0")
  case True
  consider "failed sb" | "\<not> failed sb" "formats = None"
    | sizing writing where "\<not> failed sb" "formats = Some (sizing, writing)" "vsnprintf_result sizing < 0"
    | sizing writing where "\<not> failed sb" "formats = Some (sizing, writing)" "vsnprintf_result sizing = 0"
    using True by (cases "failed sb"; cases formats) (auto simp: order_le_less)
  then show ?thesis
  proof cases
    case (4 sizing writing)
    then have "sizing = Formatted []" using vsnprintf_agrees [of sizing 0] by auto
    then have "formatted_text formats = []"
      using 4 by (simp add: formatted_text_def split: format_outcome.split)
    moreover have "sb_appendfv grants formats (sb, t) = Some (sb, t)"
      using 4 by (simp add: sb_appendfv_def)
    ultimately show ?thesis using append_nothing [OF held] by simp
  qed (use held in \<open>auto simp: appends_def sb_appendfv_def holds_failed holds_contents builder_owed_def format_fault_def\<close>)
next
  case False
  then obtain sizing writing where formats: "formats = Some (sizing, writing)"
    and positive: "0 < vsnprintf_result sizing" by (cases formats) (auto simp: not_le)
  define n where "n = vsnprintf_result sizing"
  obtain sized where sized: "sizing = Formatted sized" "int (length sized) = n"
    using vsnprintf_agrees positive unfolding n_def by (metis order_less_imp_le)
  have "n \<le> INT_MAX" using sized positive unfolding n_def by (auto split: if_splits)
  then have count: "unat (word_of_int n :: u64) = nat n"
    using positive n_def
    by (simp add: nat_uint_eq [symmetric] uint_word_of_int_eq take_bit_eq_mod del: nat_uint_eq)
  obtain ok sb' t' where run: "sb_ensure_capacity grants (word_of_int n) (sb, t) = Some (ok, sb', t')"
    and held': "holds sb' text" and owed: "builder_owed (sb', t') = builder_owed (sb, t)"
    and flag: "failed sb' = (\<not> ok)" "ok \<Longrightarrow> \<not> failed sb"
    and room: "ok \<Longrightarrow> buf sb' \<noteq> None \<and> length text + unat (word_of_int n :: u64) + 1 \<le> unat (capacity sb')"
    and excuse: "\<not> ok \<Longrightarrow> failed sb \<or> refusal grants (length text + unat (word_of_int n :: u64) + 1)"
    using ensure_capacity_outcome [OF held bounded] by metis
  note simps = sb_appendfv_def Let_def formats n_def [symmetric] run
  show ?thesis
  proof (cases ok)
    case no: False
    have "format_fault formats \<or> length (formatted_text formats) = nat n"
    proof (cases "vsnprintf_result writing = n")
      case True
      then obtain bytes where "writing = Formatted bytes" "int (length bytes) = n"
        using vsnprintf_agrees positive n_def by (metis order_less_imp_le)
      then show ?thesis using formats sized by (auto simp: formatted_text_def)
    next
      case False
      then show ?thesis using formats positive by (simp add: format_fault_def n_def)
    qed
    then show ?thesis
      using False positive held' owed flag holds_contents [OF held] excuse [OF no] no count
      by (auto simp: simps appends_def formats)
  next
    case True
    obtain cells where cells: "buf sb' = Some cells" using room [OF True] by blast
    have fits: "length text + nat n + 1 \<le> unat (capacity sb')" using room [OF True] count by simp
    show ?thesis
    proof (cases "vsnprintf_result writing = n")
      case agree: True
      then obtain bytes where bytes: "writing = Formatted bytes" "int (length bytes) = n"
        using vsnprintf_agrees positive n_def by (metis order_less_imp_le)
      have stored: "vsnprintf_stored (nat n + 1) writing = bytes @ [0]" and len: "length bytes = nat n"
        using bytes by auto
      obtain written where "write_cells (unat (len sb')) (bytes @ [0]) cells = Some written"
        "holds (sb'\<lparr>buf := Some written, len := len sb' + word_of_int n\<rparr>) (text @ bytes)"
        using write_agreeing_text [OF held' cells, of "word_of_int n" bytes] room [OF True] len count
        by metis
      moreover have "formatted_text formats = bytes"
        using formats sized bytes positive n_def by (auto simp: formatted_text_def)
      ultimately show ?thesis
        using False positive owed flag holds_contents [OF held] True cells agree stored
        by (simp add: simps appends_def formats builder_owed_def owed_def)
    next
      case disagree: False
      have "length (vsnprintf_stored (nat n + 1) writing) \<le> nat n + 1"
        by (rule vsnprintf_stored_length) simp
      then obtain written restored where
        "write_cells (unat (len sb')) (vsnprintf_stored (nat n + 1) writing) cells = Some written"
        "write_cells (unat (len sb')) [0] written = Some restored"
        "holds (sb'\<lparr>buf := Some restored\<rparr>) text"
        using write_over_tail [OF held' cells, of "vsnprintf_stored (nat n + 1) writing"] fits by auto
      then show ?thesis
        using False positive owed flag holds_contents [OF held] True cells disagree
          holds_failed [of True "sb'\<lparr>buf := Some restored\<rparr>" "text"]
        by (simp add: simps appends_def formats builder_owed_def owed_def format_fault_def)
    qed
  qed
qed

section \<open>The builder as a text with a failure flag\<close>

text \<open>The calls of the interface other than the detaching one, and their run on a state.\<close>

datatype builder_call =
    Call_clear
  | Call_free
  | Call_append "u8 list option"
  | Call_append_len "u8 list option" u64
  | Call_append_char u8
  | Call_appendf "(format_outcome \<times> format_outcome) option"

fun builder_perform :: "allocator \<Rightarrow> builder_call \<Rightarrow> builder_state \<Rightarrow> builder_state option" where
  "builder_perform grants Call_clear (sb, t) = map_option (\<lambda>sb'. (sb', t)) (sb_clear sb)"
| "builder_perform grants Call_free (sb, t) = Some (sb_free (sb, t))"
| "builder_perform grants (Call_append str) (sb, t) = sb_append grants str (sb, t)"
| "builder_perform grants (Call_append_len str n) (sb, t) = sb_append_len grants str n (sb, t)"
| "builder_perform grants (Call_append_char c) (sb, t) = sb_append_char grants c (sb, t)"
| "builder_perform grants (Call_appendf formats) (sb, t) = sb_appendf grants formats (sb, t)"

fun builder_run :: "allocator \<Rightarrow> builder_call list \<Rightarrow> builder_state \<Rightarrow> builder_state option" where
  "builder_run grants [] state = Some state"
| "builder_run grants (call # calls) state =
     (case builder_perform grants call state of
        None \<Rightarrow> None
      | Some state' \<Rightarrow> builder_run grants calls state')"

text \<open>The counted append reads inside its argument; strings are shorter than the address space.\<close>

fun call_ok :: "builder_call \<Rightarrow> bool" where
  "call_ok (Call_append (Some s)) \<longleftrightarrow> length s \<le> size_max"
| "call_ok (Call_append_len (Some s) n) \<longleftrightarrow> unat n \<le> length s"
| "call_ok _ \<longleftrightarrow> True"

text \<open>
  The specification: a text and a flag. An append adds its bytes to an unfailed builder; it
  may raise the flag only for a faulty format, after an earlier failure or for a refusal.
\<close>

fun call_appends :: "builder_call \<Rightarrow> u8 list option" where
  "call_appends (Call_append str) = Some (case str of None \<Rightarrow> [] | Some s \<Rightarrow> s)"
| "call_appends (Call_append_len str n) = Some (case str of None \<Rightarrow> [] | Some s \<Rightarrow> take (unat n) s)"
| "call_appends (Call_append_char c) = Some [c]"
| "call_appends (Call_appendf formats) = Some (formatted_text formats)"
| "call_appends _ = None"

fun call_faulty :: "builder_call \<Rightarrow> bool" where
  "call_faulty (Call_appendf formats) = format_fault formats"
| "call_faulty _ = False"

inductive builder_spec ::
    "allocator \<Rightarrow> builder_call list \<Rightarrow> u8 list \<times> bool \<Rightarrow> u8 list \<times> bool \<Rightarrow> bool" for grants where
  spec_done: "builder_spec grants [] a a"
| spec_clear: "builder_spec grants calls ([], f) a \<Longrightarrow> builder_spec grants (Call_clear # calls) (text, f) a"
| spec_free: "builder_spec grants calls ([], False) a \<Longrightarrow> builder_spec grants (Call_free # calls) (text, f) a"
| spec_append: "call_appends call = Some bytes \<Longrightarrow> builder_spec grants calls (text @ bytes, False) a \<Longrightarrow>
    builder_spec grants (call # calls) (text, False) a"
| spec_fail: "call_appends call = Some bytes \<Longrightarrow>
    f \<or> call_faulty call \<or> refusal grants (length text + length bytes + 1) \<Longrightarrow>
    builder_spec grants calls (text, True) a \<Longrightarrow> builder_spec grants (call # calls) (text, f) a"

lemma clear_outcome:
  assumes "holds sb text"
  obtains sb' where "sb_clear sb = Some sb'" and "holds sb' []" and "failed sb' = failed sb"
    and "builder_owed (sb', t) = builder_owed (sb, t)"
proof (cases "buf sb")
  case None
  then show ?thesis
    using that [of "sb\<lparr>len := 0\<rparr>"] assms by (simp add: sb_clear_def holds_def builder_owed_def)
next
  case (Some cells)
  then obtain rest where rest: "cells = map Some (text @ [0]) @ rest" "length cells = unat (capacity sb)"
    using holds_block [OF assms Some] by metis
  then have "cells \<noteq> []" by auto
  then obtain written where "write_cells 0 [0] cells = Some written" "written = Some 0 # tl cells"
    using write_start by metis
  then show ?thesis
    using that [of "sb\<lparr>len := 0, buf := Some written\<rparr>"] Some rest assms \<open>cells \<noteq> []\<close>
    by (simp add: sb_clear_def holds_def builder_owed_def owed_def)
qed

lemma free_outcome:
  "sb_free (sb, t) = (sb_init, snd (sb_free (sb, t))) \<and>
   builder_owed (sb_free (sb, t)) = builder_owed (sb, t)"
  by (simp add: sb_free_def sb_init_def builder_owed_def owed_def mem_free_def)

lemma perform_appends:
  assumes "holds sb text" and "allocator_bounded grants" and "call_ok call"
    and "call_appends call = Some bytes"
  shows "appends grants (call_faulty call) bytes (sb, t) (builder_perform grants call (sb, t))"
proof (cases call)
  case (Call_append str)
  have "case str of None \<Rightarrow> True | Some s \<Rightarrow> length s \<le> size_max"
    using assms(3) Call_append by (cases str) simp_all
  from append_appends [OF assms(1,2) this] show ?thesis using assms(4) Call_append by simp
next
  case (Call_append_len str n)
  have "case str of None \<Rightarrow> True | Some s \<Rightarrow> unat n \<le> length s"
    using assms(3) Call_append_len by (cases str) simp_all
  from append_len_appends [OF assms(1,2) this] show ?thesis using assms(4) Call_append_len by simp
qed (use assms(4) append_char_appends [OF assms(1,2)] appendfv_appends [OF assms(1,2)] in
     \<open>auto simp: sb_appendf_def\<close>)

lemma builder_run_refines:
  assumes "allocator_bounded grants"
  shows "holds sb text \<Longrightarrow> list_all call_ok calls \<Longrightarrow>
    \<exists>sb' t'. builder_run grants calls (sb, t) = Some (sb', t') \<and>
      builder_spec grants calls (text, failed sb) (contents sb', failed sb') \<and>
      holds sb' (contents sb') \<and> builder_owed (sb', t') = builder_owed (sb, t)"
proof (induction calls arbitrary: sb "text" t)
  case Nil
  then show ?case using holds_contents by (fastforce intro: spec_done)
next
  case (Cons call calls)
  have rest: "list_all call_ok calls" and ok: "call_ok call" using Cons.prems by simp_all
  note held = holds_contents [OF Cons.prems(1)]
  show ?case
  proof (cases "call_appends call")
    case None
    then consider "call = Call_clear" | "call = Call_free" by (cases call) auto
    then show ?thesis
    proof cases
      case 1
      obtain sb' where "sb_clear sb = Some sb'" "holds sb' []" "failed sb' = failed sb"
        "builder_owed (sb', t) = builder_owed (sb, t)"
        using clear_outcome [OF Cons.prems(1)] by metis
      with Cons.IH [OF \<open>holds sb' []\<close> rest, of t] 1 show ?thesis
        by (auto intro: spec_clear)
    next
      case 2
      have "holds sb_init []" by (rule holds_init)
      from Cons.IH [OF this rest, of "snd (sb_free (sb, t))"] 2 free_outcome [of sb t]
      show ?thesis
        by (auto simp: sb_init_def intro: spec_free)
    qed
  next
    case (Some bytes)
    note step = perform_appends [OF Cons.prems(1) assms ok Some, of t]
    obtain sb' t' where run: "builder_perform grants call (sb, t) = Some (sb', t')"
      and owed: "builder_owed (sb', t') = builder_owed (sb, t)"
      using step by (auto simp: appends_def split: option.splits)
    show ?thesis
    proof (cases "failed sb'")
      case True
      then have "holds sb' text" and excuse: "failed sb \<or> call_faulty call \<or>
          refusal grants (length text + length bytes + 1)"
        using step run held by (simp_all add: appends_def)
      with Cons.IH [OF \<open>holds sb' text\<close> rest, of t'] True run owed show ?thesis
        using spec_fail [OF Some excuse] by auto
    next
      case False
      then have "holds sb' (text @ bytes)" and "\<not> failed sb"
        using step run held by (simp_all add: appends_def)
      with Cons.IH [OF \<open>holds sb' (text @ bytes)\<close> rest, of t'] False run owed show ?thesis
        using spec_append [OF Some] by auto
    qed
  qed
qed

lemma init_with_capacity_outcome:
  assumes "allocator_bounded grants"
  obtains sb t' where "sb_init_with_capacity grants amount t = Some (sb, t')"
    and "holds sb []" and "\<not> failed sb" and "builder_owed (sb, t') = owed None 0 t"
proof (cases "amount > 0")
  case False
  then show ?thesis
    using that [of sb_init t] holds_init
    by (simp add: sb_init_with_capacity_def sb_init_def builder_owed_def)
next
  case True
  obtain r t' where alloc: "mem_alloc grants amount t = (r, t')" by (cases "mem_alloc grants amount t")
  note owed = mem_alloc_owed [OF alloc]
  show ?thesis
  proof (cases r)
    case None
    then show ?thesis
      using that [of sb_init t'] holds_init True alloc owed
      by (simp add: sb_init_with_capacity_def sb_init_def builder_owed_def owed_def)
  next
    case (Some cells)
    obtain written where written: "write_cells 0 [0] cells = Some written"
      "holds (sb_init\<lparr>buf := Some written, capacity := amount, len := 0\<rparr>) []"
      using holds_new_block alloc assms Some by blast
    have "sb_init\<lparr>buf := Some written, capacity := amount, len := 0\<rparr> =
        sb_init\<lparr>buf := Some written, capacity := amount\<rparr>" by (simp add: sb_init_def)
    with written show ?thesis
      using that [of "sb_init\<lparr>buf := Some written, capacity := amount\<rparr>" t'] True alloc Some owed
      by (simp add: sb_init_with_capacity_def builder_owed_def owed_def) (simp add: sb_init_def)
  qed
qed

section \<open>Correctness\<close>

text \<open>
  Property C20. Whatever calls are made on a builder created with any capacity, every call
  returns without touching memory outside the block; the text and the failure flag evolve as
  the specification says, so the flag is sticky until the builder is freed, it keeps the text
  reached so far, and it is raised only for a faulty format or a refused or impossible
  allocation; the text is always terminated; and the counters minus the live block are what
  they were, so that freeing the builder restores them.
\<close>

theorem builder_calls_refine:
  assumes "allocator_bounded grants" and "list_all call_ok calls"
  shows "\<exists>sb t'.
    Option.bind (sb_init_with_capacity grants amount t) (builder_run grants calls) = Some (sb, t') \<and>
    builder_spec grants calls ([], False) (contents sb, failed sb) \<and>
    (case buf sb of None \<Rightarrow> contents sb = []
     | Some cells \<Rightarrow> \<exists>rest. cells = map Some (contents sb @ [0]) @ rest) \<and>
    owed None 0 (snd (sb_free (sb, t'))) = owed None 0 t"
proof -
  obtain sb0 t0 where init: "sb_init_with_capacity grants amount t = Some (sb0, t0)"
    "holds sb0 []" "\<not> failed sb0" "builder_owed (sb0, t0) = owed None 0 t"
    using init_with_capacity_outcome [OF assms(1)] by metis
  obtain sb t' where run: "builder_run grants calls (sb0, t0) = Some (sb, t')"
    "builder_spec grants calls ([], failed sb0) (contents sb, failed sb)"
    "holds sb (contents sb)" "builder_owed (sb, t') = builder_owed (sb0, t0)"
    using builder_run_refines [OF assms(1) init(2) assms(2), of t0] by metis
  have "owed None 0 (snd (sb_free (sb, t'))) = builder_owed (sb, t')"
    by (simp add: sb_free_def builder_owed_def owed_def mem_free_def)
  with init run show ?thesis
    by (auto simp: holds_def split: option.splits)
qed

theorem builder_calls_refine_witness:
  "\<exists>sb t'. Option.bind (sb_init_with_capacity (\<lambda>_ n. n < 64) 2
       \<lparr>g_allocated_bytes = 0, g_allocations_count = 0, allocator_calls = 0\<rparr>)
     (builder_run (\<lambda>_ n. n < 64) [Call_append (Some [1, 2]), Call_append_char 3]) = Some (sb, t')"
  using builder_calls_refine [of "\<lambda>_ n. n < 64" "[Call_append (Some [1, 2]), Call_append_char 3]" 2
      "\<lparr>g_allocated_bytes = 0, g_allocations_count = 0, allocator_calls = 0\<rparr>"]
  by (auto simp: allocator_bounded_def word_less_nat_alt)

text \<open>
  Property C40. Detaching transfers a terminated copy of the text. With a block, the builder
  is reset and its whole debt to the counters is released, whether or not the shrinking
  reallocation succeeds. Without a block a fresh one-byte string is returned, the builder
  keeps its failure flag, and the counters keep counting the string that now belongs to the
  caller.
\<close>

theorem sb_detach_transfers:
  assumes "holds sb text" and "allocator_bounded grants"
  shows "case sb_detach grants (sb, t) of
      None \<Rightarrow> False
    | Some (block, sb', t') \<Rightarrow>
        (case block of
           None \<Rightarrow> buf sb = None \<and> (\<exists>i. \<not> grants i 1)
         | Some cells \<Rightarrow> \<exists>rest. cells = map Some (text @ [0]) @ rest) \<and>
        (if buf sb \<noteq> None
         then sb' = sb_init \<and> owed None 0 t' = builder_owed (sb, t)
         else sb' = sb \<and> owed block 1 t' = builder_owed (sb, t))"
proof (cases "buf sb")
  case None
  obtain r t' where alloc: "mem_alloc grants 1 t = (r, t')" by (cases "mem_alloc grants 1 t")
  note owed = mem_alloc_owed [OF alloc]
  have empty: "text = []" using assms(1) None by (simp add: holds_def)
  show ?thesis
  proof (cases r)
    case no: None
    then have "\<exists>i. \<not> grants i 1" using alloc by (auto simp: mem_alloc_def Let_def split: if_splits)
    with no None alloc owed show ?thesis
      by (simp add: sb_detach_def builder_owed_def owed_def)
  next
    case (Some cells)
    then have "cells = [None]" using mem_alloc_cells alloc by fastforce
    with Some None alloc owed empty show ?thesis
      by (simp add: sb_detach_def builder_owed_def owed_def write_cells_def)
  qed
next
  case (Some cells)
  obtain rest where rest: "cells = map Some (text @ [0]) @ rest" "unat (len sb) = length text"
    "length cells = unat (capacity sb)"
    using holds_block [OF assms(1) Some] by metis
  obtain r t' where alloc: "mem_realloc grants (Some cells) (capacity sb) (len sb + 1) t = (r, t')"
    by (cases "mem_realloc grants (Some cells) (capacity sb) (len sb + 1) t")
  note owed = mem_realloc_owed [OF alloc]
  show ?thesis
  proof (cases r)
    case None
    with Some alloc owed rest show ?thesis
      by (simp add: sb_detach_def builder_owed_def owed_def mem_untrack_allocation_def)
  next
    case shrunk: (Some new)
    have "length text < 2 ^ 63" by (rule holds_small [OF assms(1)])
    then have "unat (len sb + 1) = Suc (length text)" using rest(2) by (simp add: unat_add_fits)
    then have "length text < unat (len sb + 1)" by simp
    from holds_grown_block [OF assms(1) Some _ assms(2) this] alloc shrunk
    have "holds (sb\<lparr>buf := Some new, capacity := len sb + 1\<rparr>) text" by blast
    then obtain rest' where "new = map Some (text @ [0]) @ rest'" by (auto simp: holds_def)
    with Some alloc owed shrunk show ?thesis
      by (simp add: sb_detach_def Let_def builder_owed_def owed_def mem_untrack_allocation_def)
  qed
qed

theorem sb_detach_transfers_witness:
  "case sb_detach (\<lambda>_ n. n < 64) (sb_init, \<lparr>g_allocated_bytes = 0, g_allocations_count = 0,
       allocator_calls = 0\<rparr>) of
     None \<Rightarrow> False | Some (block, sb', t') \<Rightarrow> block = Some [Some 0] \<and> g_allocated_bytes t' = 1"
proof -
  have "allocator_bounded (\<lambda>_ n. n < 64)"
    by (auto simp: allocator_bounded_def word_less_nat_alt)
  from sb_detach_transfers [OF holds_init this, of "\<lparr>g_allocated_bytes = 0, g_allocations_count = 0,
       allocator_calls = 0\<rparr>"]
  show ?thesis
    by (auto simp: sb_detach_def sb_init_def mem_alloc_def write_cells_def Let_def
        word_less_nat_alt)
qed

text \<open>
  Property C38. The doubling loop fails to return exactly when it starts from zero below a
  nonzero requirement, and otherwise reaches the requirement. Doubling a capacity of
  \<open>2 ^ 63\<close> gives that zero, so the loop ends only because no allocation is that large.
\<close>

theorem grow_capacity_terminates:
  "(grow_capacity new_cap required = None \<longleftrightarrow> new_cap = 0 \<and> required \<noteq> 0) \<and>
   (\<forall>c. grow_capacity new_cap required = Some c \<longrightarrow> required \<le> c) \<and>
   grow_capacity (0x8000000000000000 * 2) 0x8000000000000001 = None"
proof -
  have zero: "grow_capacity 0 r = None \<longleftrightarrow> r \<noteq> 0" for r
    using grow_capacity_zero [of r] by (cases "grow_capacity 0 r") (auto simp: grow_capacity.simps)
  have "grow_capacity new_cap required = None \<longleftrightarrow> new_cap = 0 \<and> required \<noteq> 0"
    using zero grow_capacity_reaches [of new_cap required] by (cases "new_cap = 0") auto
  moreover have "required \<le> c" if "grow_capacity new_cap required = Some c" for c
    using that grow_capacity_zero [of required c] grow_capacity_reaches [of new_cap required]
    by (cases "new_cap = 0") auto
  moreover have "grow_capacity (0x8000000000000000 * 2) 0x8000000000000001 = None"
  proof -
    have "(0x8000000000000000 * 2 :: u64) = 0" unfolding word_unat_eq_iff by simp
    then show ?thesis unfolding \<open>_ = 0\<close> using zero [of "0x8000000000000001"] by simp
  qed
  ultimately show ?thesis by blast
qed

theorem grow_capacity_terminates_witness:
  "\<exists>c. grow_capacity 32 100 = Some c \<and> 100 \<le> c"
  using grow_capacity_terminates [of 32 100] by (cases "grow_capacity 32 100") simp_all

end
