(* ===== verification/Sha256.thy ===== *)
theory Sha256
  imports Prelude
begin

text \<open>
  \<open>src/common/sha256.c\<close>, the portable implementation: the compression function, the
  incremental context with its 64-byte block buffer, finalisation, the one-shot digest and
  the hexadecimal rendering. The arrays of the context are lists of their fixed lengths;
  \<open>None\<close> marks a write outside the block buffer, which the theorems exclude.
\<close>

section \<open>Model of the code\<close>

record CommonSha256Context =
  state :: "u32 list"
  total_size :: u64
  block :: "u8 list"
  block_size :: nat

definition rotate_right :: "u32 \<Rightarrow> nat \<Rightarrow> u32" where
  "rotate_right val count = drop_bit count val OR push_bit (32 - count) val"

definition load_be32 :: "u8 list \<Rightarrow> u32" where
  "load_be32 data =
     push_bit 24 (ucast (data ! 0)) OR push_bit 16 (ucast (data ! 1)) OR
     push_bit 8 (ucast (data ! 2)) OR ucast (data ! 3)"

definition store_be32 :: "u32 \<Rightarrow> u8 list" where
  "store_be32 val =
     [ucast (drop_bit 24 val), ucast (drop_bit 16 val), ucast (drop_bit 8 val), ucast val]"

definition store_be64 :: "u64 \<Rightarrow> u8 list" where
  "store_be64 val = rev (map (\<lambda>i. ucast (drop_bit (i * 8) val)) [0..<8])"

text \<open>The round constants and the initial state of the source, in decimal.\<close>

definition constants :: "u32 list" where
  "constants =
    [1116352408, 1899447441, 3049323471, 3921009573, 961987163, 1508970993,
     2453635748, 2870763221, 3624381080, 310598401, 607225278, 1426881987,
     1925078388, 2162078206, 2614888103, 3248222580, 3835390401, 4022224774,
     264347078, 604807628, 770255983, 1249150122, 1555081692, 1996064986,
     2554220882, 2821834349, 2952996808, 3210313671, 3336571891, 3584528711,
     113926993, 338241895, 666307205, 773529912, 1294757372, 1396182291,
     1695183700, 1986661051, 2177026350, 2456956037, 2730485921, 2820302411,
     3259730800, 3345764771, 3516065817, 3600352804, 4094571909, 275423344,
     430227734, 506948616, 659060556, 883997877, 958139571, 1322822218,
     1537002063, 1747873779, 1955562222, 2024104815, 2227730452, 2361852424,
     2428436474, 2756734187, 3204031479, 3329325298]"

definition initial_state :: "u32 list" where
  "initial_state =
    [1779033703, 3144134277, 1013904242, 2773480762, 1359893119, 2600822924,
     528734635, 1541459225]"

definition expand_words :: "u8 list \<Rightarrow> u32 list" where
  "expand_words data =
     fold (\<lambda>i words.
       let x = words ! (i - 15);
           y = words ! (i - 2);
           small0 = rotate_right x 7 XOR rotate_right x 18 XOR drop_bit 3 x;
           small1 = rotate_right y 17 XOR rotate_right y 19 XOR drop_bit 10 y
       in words @ [words ! (i - 16) + small0 + words ! (i - 7) + small1])
     [16..<64] (map (\<lambda>i. load_be32 (drop (i * 4) data)) [0..<16])"

type_synonym sha_registers = "u32 \<times> u32 \<times> u32 \<times> u32 \<times> u32 \<times> u32 \<times> u32 \<times> u32"

definition sha256_round :: "u32 list \<Rightarrow> nat \<Rightarrow> sha_registers \<Rightarrow> sha_registers" where
  "sha256_round words i = (\<lambda>(a, b, c, d, e, f, g, h).
     let big1 = rotate_right e 6 XOR rotate_right e 11 XOR rotate_right e 25;
         chosen = (e AND f) XOR (NOT e AND g);
         temporary1 = h + big1 + chosen + constants ! i + words ! i;
         big0 = rotate_right a 2 XOR rotate_right a 13 XOR rotate_right a 22;
         majority = (a AND b) XOR (a AND c) XOR (b AND c);
         temporary2 = big0 + majority
     in (temporary1 + temporary2, a, b, c, d + temporary1, e, f, g))"

definition sha256_transform :: "CommonSha256Context \<Rightarrow> u8 list \<Rightarrow> CommonSha256Context" where
  "sha256_transform context data =
     (let words = expand_words data; s = state context in
      case fold (sha256_round words) [0..<64]
             (s ! 0, s ! 1, s ! 2, s ! 3, s ! 4, s ! 5, s ! 6, s ! 7) of
        (a, b, c, d, e, f, g, h) \<Rightarrow>
          context\<lparr>state := [s ! 0 + a, s ! 1 + b, s ! 2 + c, s ! 3 + d,
                            s ! 4 + e, s ! 5 + f, s ! 6 + g, s ! 7 + h]\<rparr>)"

text \<open>Initialisation leaves the block buffer as it is.\<close>

definition common_sha256_init :: "CommonSha256Context \<Rightarrow> CommonSha256Context" where
  "common_sha256_init context =
     context\<lparr>state := initial_state, total_size := 0, block_size := 0\<rparr>"

definition write_block :: "nat \<Rightarrow> u8 list \<Rightarrow> CommonSha256Context \<Rightarrow> CommonSha256Context option" where
  "write_block at bytes context =
     (if at + length bytes \<le> 64
      then Some (context\<lparr>block :=
             take at (block context) @ bytes @ drop (at + length bytes) (block context)\<rparr>)
      else None)"

text \<open>
  The copying loop over the input left. When the buffer were overfull the subtraction for
  \<open>available\<close> would wrap and the copy leave the buffer.
\<close>

function update_loop :: "CommonSha256Context \<Rightarrow> u8 list \<Rightarrow> CommonSha256Context option" where
  "update_loop context input =
     (if input = [] then Some context
      else if block_size context > 64 then None
      else
        (let available = 64 - block_size context;
             copy_size = (if length input < available then length input else available)
         in case write_block (block_size context) (take copy_size input) context of
              None \<Rightarrow> None
            | Some written \<Rightarrow>
                (let filled = written\<lparr>block_size := block_size written + copy_size\<rparr> in
                 if block_size filled = 64
                 then update_loop ((sha256_transform filled (block filled))\<lparr>block_size := 0\<rparr>)
                        (drop copy_size input)
                 else update_loop filled (drop copy_size input))))"
  by pat_completeness auto
termination
proof (relation "measure (\<lambda>(context, input). 2 * length input + (if block_size context = 64 then 1 else 0))", goal_cases)
  case (2 c rest available copy_size written filled)
  then show ?case by (auto simp: write_block_def split: if_splits)
next
  case (3 c rest available copy_size written filled)
  then show ?case by (auto simp: write_block_def split: if_splits)
qed simp

declare update_loop.simps [simp del]

definition common_sha256_update ::
    "CommonSha256Context \<Rightarrow> u8 list \<Rightarrow> CommonSha256Context option" where
  "common_sha256_update context input =
     update_loop (context\<lparr>total_size := total_size context + of_nat (length input)\<rparr>) input"

definition common_sha256_final ::
    "CommonSha256Context \<Rightarrow> (u8 list \<times> CommonSha256Context) option" where
  "common_sha256_final context =
     (let bit_size = total_size context * 8 in
      case write_block (block_size context) [0x80] context of
        None \<Rightarrow> None
      | Some marked \<Rightarrow>
          (let marked = marked\<lparr>block_size := block_size marked + 1\<rparr> in
           case (if block_size marked > 56
                 then map_option (\<lambda>c. (sha256_transform c (block c))\<lparr>block_size := 0\<rparr>)
                        (write_block (block_size marked)
                           (replicate (64 - block_size marked) 0) marked)
                 else Some marked) of
             None \<Rightarrow> None
           | Some room \<Rightarrow>
               (case write_block (block_size room) (replicate (56 - block_size room) 0) room of
                  None \<Rightarrow> None
                | Some padded \<Rightarrow>
                    (case write_block 56 (store_be64 bit_size) padded of
                       None \<Rightarrow> None
                     | Some complete \<Rightarrow>
                         (let done_context = sha256_transform complete (block complete) in
                          Some (concat (map store_be32 (state done_context)), done_context))))))"

definition common_sha256 :: "CommonSha256Context \<Rightarrow> u8 list \<Rightarrow> u8 list option" where
  "common_sha256 uninitialised data =
     (let context = common_sha256_init uninitialised in
      case (if length data > 0 then common_sha256_update context data else Some context) of
        None \<Rightarrow> None
      | Some updated \<Rightarrow> map_option fst (common_sha256_final updated))"

definition hex_digits :: "u8 list" where
  "hex_digits = map of_nat ([48..<58] @ [97..<103])"

text \<open>The hexadecimal text with its terminator; null arguments leave \<open>hex\<close> unchanged.\<close>

definition common_sha256_digest_to_hex :: "u8 list option \<Rightarrow> u8 list option \<Rightarrow> u8 list option" where
  "common_sha256_digest_to_hex digest hex =
     (case (digest, hex) of
        (Some d, Some _) \<Rightarrow>
          Some (concat (map (\<lambda>i. [hex_digits ! unat (drop_bit 4 (d ! i)),
                                 hex_digits ! unat (d ! i AND 0x0F)]) [0..<32]) @ [0])
      | _ \<Rightarrow> hex)"

section \<open>The hash function\<close>

text \<open>
  The standard's description: rotations, the logical functions, the message schedule as a
  recurrence, compression of one block, and the padded message cut into blocks.
\<close>

definition Ch :: "u32 \<Rightarrow> u32 \<Rightarrow> u32 \<Rightarrow> u32" where
  "Ch x y z = (x AND y) OR (NOT x AND z)"

definition Maj :: "u32 \<Rightarrow> u32 \<Rightarrow> u32 \<Rightarrow> u32" where
  "Maj x y z = (x AND y) OR (x AND z) OR (y AND z)"

definition big_sigma :: "nat \<Rightarrow> nat \<Rightarrow> nat \<Rightarrow> u32 \<Rightarrow> u32" where
  "big_sigma i j k x = word_rotr i x XOR word_rotr j x XOR word_rotr k x"

definition small_sigma :: "nat \<Rightarrow> nat \<Rightarrow> nat \<Rightarrow> u32 \<Rightarrow> u32" where
  "small_sigma i j k x = word_rotr i x XOR word_rotr j x XOR drop_bit k x"

fun message_word :: "u8 list \<Rightarrow> nat \<Rightarrow> u32" where
  "message_word data i =
     (if i < 16 then load_be32 (drop (4 * i) data)
      else small_sigma 17 19 10 (message_word data (i - 2)) + message_word data (i - 7) +
           small_sigma 7 18 3 (message_word data (i - 15)) + message_word data (i - 16))"

declare message_word.simps [simp del]

definition spec_round :: "u8 list \<Rightarrow> nat \<Rightarrow> sha_registers \<Rightarrow> sha_registers" where
  "spec_round data i = (\<lambda>(a, b, c, d, e, f, g, h).
     let t1 = h + big_sigma 6 11 25 e + Ch e f g + constants ! i + message_word data i;
         t2 = big_sigma 2 13 22 a + Maj a b c
     in (t1 + t2, a, b, c, d + t1, e, f, g))"

definition compress :: "u32 list \<Rightarrow> u8 list \<Rightarrow> u32 list" where
  "compress s data =
     (case fold (spec_round data) [0..<64] (s ! 0, s ! 1, s ! 2, s ! 3, s ! 4, s ! 5, s ! 6, s ! 7) of
        (a, b, c, d, e, f, g, h) \<Rightarrow> map2 (+) s [a, b, c, d, e, f, g, h])"

function absorb :: "u32 list \<Rightarrow> u8 list \<Rightarrow> u32 list" where
  "absorb s message =
     (if length message < 64 then s else absorb (compress s (take 64 message)) (drop 64 message))"
  by pat_completeness auto
termination by (relation "measure (\<lambda>(s, message). length message)") auto

declare absorb.simps [simp del]

definition padding :: "nat \<Rightarrow> u8 list" where
  "padding n = [0x80] @ replicate ((119 - n mod 64) mod 64) 0 @ store_be64 (of_nat (8 * n))"

definition sha256_digest :: "u8 list \<Rightarrow> u8 list" where
  "sha256_digest message =
     concat (map store_be32 (absorb initial_state (message @ padding (length message))))"

section \<open>Compression\<close>

lemma rotate_right_rotr: "n < 32 \<Longrightarrow> rotate_right v n = word_rotr n v"
proof (rule bit_word_eqI)
  fix k
  assume n: "n < 32" and "k < LENGTH(32)"
  then have k: "k < 32" by simp
  have "\<not> bit v (n + k)" if "32 \<le> n + k"
    using that bit_imp_le_length [of v "n + k"] by auto
  moreover have "(k + n) mod 32 = (if k + n < 32 then k + n else k + n - 32)"
    using n k by (simp add: le_mod_geq)
  ultimately show "bit (rotate_right v n) k = bit (word_rotr n v) k"
    using n k by (auto simp: rotate_right_def bit_simps add.commute not_less)
qed

lemma choose_Ch: "(e AND f) XOR (NOT e AND g) = Ch e f g"
  unfolding Ch_def by (rule bit_word_eqI) (auto simp: bit_simps)

lemma majority_Maj: "(a AND b) XOR (a AND c) XOR (b AND c) = Maj a b c"
  unfolding Maj_def by (rule bit_word_eqI) (auto simp: bit_simps)

lemma expand_words_schedule: "expand_words data = map (message_word data) [0..<64]"
proof -
  define step where "step = (\<lambda>i (words :: u32 list).
       let x = words ! (i - 15);
           y = words ! (i - 2);
           small0 = rotate_right x 7 XOR rotate_right x 18 XOR drop_bit 3 x;
           small1 = rotate_right y 17 XOR rotate_right y 19 XOR drop_bit 10 y
       in words @ [words ! (i - 16) + small0 + words ! (i - 7) + small1])"
  have first: "map (\<lambda>i. load_be32 (drop (i * 4) data)) [0..<16] = map (message_word data) [0..<16]"
    by (simp add: message_word.simps mult.commute)
  have "fold step [16..<n + 16] (map (message_word data) [0..<16]) =
      map (message_word data) [0..<n + 16]" for n
  proof (induction n)
    case (Suc n)
    have "step (n + 16) (map (message_word data) [0..<n + 16]) =
        map (message_word data) [0..<n + 16] @ [message_word data (n + 16)]"
      by (simp add: step_def Let_def message_word.simps [of data "n + 16"] small_sigma_def
          rotate_right_rotr add_ac)
    moreover have "[16..<Suc n + 16] = [16..<n + 16] @ [n + 16]" "[0..<Suc n + 16] = [0..<n + 16] @ [n + 16]"
      by (simp_all only: add_Suc upt_Suc le_add2 zero_le if_True)
    ultimately show ?case using Suc by simp
  qed simp
  from this [of 48] have "fold step [16..<64] (map (message_word data) [0..<16]) =
      map (message_word data) [0..<64]"
    by (simp only: numeral_plus_numeral add_num_simps)
  then show ?thesis
    unfolding expand_words_def step_def first .
qed

lemma round_spec:
  assumes "i < 64"
  shows "sha256_round (expand_words data) i r = spec_round data i r"
proof -
  have word: "expand_words data ! i = message_word data i"
    using assms by (simp add: expand_words_schedule)
  have e: "rotate_right x 6 XOR rotate_right x 11 XOR rotate_right x 25 = big_sigma 6 11 25 x"
    and a: "rotate_right x 2 XOR rotate_right x 13 XOR rotate_right x 22 = big_sigma 2 13 22 x" for x
    by (simp_all add: big_sigma_def rotate_right_rotr)
  show ?thesis
    unfolding sha256_round_def spec_round_def Let_def choose_Ch majority_Maj word e a ..
qed

lemma transform_compress:
  assumes "length (state c) = 8"
  shows "sha256_transform c data = c\<lparr>state := compress (state c) data\<rparr>"
proof -
  have "fold (sha256_round (expand_words data)) [0..<64] r = fold (spec_round data) [0..<64] r" for r
    by (rule fold_cong) (auto intro: round_spec)
  moreover obtain s0 s1 s2 s3 s4 s5 s6 s7 where "state c = [s0, s1, s2, s3, s4, s5, s6, s7]"
    using assms by (auto simp: eval_nat_numeral length_Suc_conv)
  ultimately show ?thesis
    by (simp add: sha256_transform_def compress_def Let_def split: prod.split)
qed

lemma compress_length: "length s = 8 \<Longrightarrow> length (compress s data) = 8"
  by (simp add: compress_def split: prod.split)

lemma absorb_length: "length s = 8 \<Longrightarrow> length (absorb s m) = 8"
  by (induction s m rule: absorb.induct) (simp add: absorb.simps compress_length)

lemma absorb_short: "length m < 64 \<Longrightarrow> absorb s m = s"
  by (simp add: absorb.simps)

lemma absorb_block: "length a = 64 \<Longrightarrow> absorb s (a @ b) = absorb (compress s a) b"
  by (subst absorb.simps) simp

lemma absorb_append:
  "64 dvd length a \<Longrightarrow> absorb s (a @ b) = absorb (absorb s a) b"
proof (induction s a rule: absorb.induct)
  case (1 s a)
  show ?case
  proof (cases "length a < 64")
    case True
    then have "a = []" using "1.prems" by (cases a) (auto dest: dvd_imp_le)
    then show ?thesis by (simp add: absorb_short)
  next
    case False
    then have a: "a = take 64 a @ drop 64 a" "length (take 64 a) = 64" by simp_all
    have "64 dvd length (drop 64 a)" using "1.prems" False by (simp add: dvd_minus_self)
    then have "absorb (compress s (take 64 a)) (drop 64 a @ b) =
        absorb (absorb (compress s (take 64 a)) (drop 64 a)) b"
      using "1.IH" False by blast
    moreover have "absorb s (a @ b) = absorb (compress s (take 64 a)) (drop 64 a @ b)"
      using absorb_block [OF a(2), of s "drop 64 a @ b"] by (metis a(1) append_assoc)
    moreover have "absorb s a = absorb (compress s (take 64 a)) (drop 64 a)"
      using absorb_block [OF a(2), of s "drop 64 a"] by (metis a(1))
    ultimately show ?thesis by simp
  qed
qed

section \<open>The incremental context\<close>

text \<open>A context represents the message fed to it so far.\<close>

definition represents :: "CommonSha256Context \<Rightarrow> u8 list \<Rightarrow> bool" where
  "represents c m \<longleftrightarrow>
     length (block c) = 64 \<and> block_size c < 64 \<and> total_size c = of_nat (length m) \<and>
     (\<exists>full. 64 dvd length full \<and> state c = absorb initial_state full \<and>
       m = full @ take (block_size c) (block c))"

text \<open>Feeding chunks one after the other, stopping where a feed fails.\<close>

fun feed_all :: "('c \<Rightarrow> u8 list \<Rightarrow> 'c option) \<Rightarrow> 'c \<Rightarrow> u8 list list \<Rightarrow> 'c option" where
  "feed_all feed c [] = Some c"
| "feed_all feed c (chunk # chunks) = Option.bind (feed c chunk) (\<lambda>c'. feed_all feed c' chunks)"

text \<open>
  The interface of an incremental computation: a representation relation that feeding
  extends. Whatever the chunks, feeding them one after the other represents their
  concatenation.
\<close>

locale incremental =
  fixes feed :: "'c \<Rightarrow> u8 list \<Rightarrow> 'c option"
    and stands_for :: "'c \<Rightarrow> u8 list \<Rightarrow> bool"
  assumes feed_extends: "stands_for c m \<Longrightarrow> \<exists>c'. feed c input = Some c' \<and> stands_for c' (m @ input)"
begin

lemma feed_all_concat:
  "stands_for c m \<Longrightarrow> \<exists>c'. feed_all feed c chunks = Some c' \<and> stands_for c' (m @ concat chunks)"
proof (induction chunks arbitrary: c m)
  case (Cons chunk chunks)
  obtain c' where "feed c chunk = Some c'" "stands_for c' (m @ chunk)"
    using feed_extends [OF Cons.prems] by blast
  with Cons.IH [of c' "m @ chunk"] show ?case by simp
qed simp

end

text \<open>The part of the representation that the copying loop maintains.\<close>

definition buffers :: "CommonSha256Context \<Rightarrow> u8 list \<Rightarrow> bool" where
  "buffers c m \<longleftrightarrow>
     length (block c) = 64 \<and> block_size c < 64 \<and>
     (\<exists>full. 64 dvd length full \<and> state c = absorb initial_state full \<and>
       m = full @ take (block_size c) (block c))"

lemma represents_buffers:
  "represents c m \<longleftrightarrow> buffers c m \<and> total_size c = of_nat (length m)"
  by (auto simp: represents_def buffers_def)

lemma state_length: "length (absorb initial_state m) = 8"
  by (rule absorb_length) (simp add: initial_state_def)

lemma write_block_some:
  "at + length bytes \<le> 64 \<Longrightarrow> length (block c) = 64 \<Longrightarrow>
     \<exists>w. write_block at bytes c = Some w \<and> length (block w) = 64 \<and>
       take (at + length bytes) (block w) = take at (block c) @ bytes \<and>
       drop (at + length bytes) (block w) = drop (at + length bytes) (block c) \<and>
       state w = state c \<and> total_size w = total_size c \<and> block_size w = block_size c"
  by (simp add: write_block_def)

lemma buffers_block:
  assumes "64 dvd length full" and "state c = absorb initial_state full" and "length (block c) = 64"
  shows "64 dvd length (full @ block c)"
    and "state (sha256_transform c (block c)) = absorb initial_state (full @ block c)"
    and "block (sha256_transform c (block c)) = block c"
    and "total_size (sha256_transform c (block c)) = total_size c"
proof -
  have "absorb initial_state (full @ block c) = compress (state c) (block c)"
    using absorb_append [OF assms(1)] absorb_block [OF assms(3), of _ "[]"] assms(2)
    by (simp add: absorb_short)
  moreover have "length (state c) = 8" using assms(2) state_length by simp
  ultimately show "state (sha256_transform c (block c)) = absorb initial_state (full @ block c)"
    and "block (sha256_transform c (block c)) = block c"
    and "total_size (sha256_transform c (block c)) = total_size c"
    by (simp_all add: transform_compress)
  show "64 dvd length (full @ block c)" using assms by simp
qed

lemma update_loop_buffers:
  "buffers c m \<Longrightarrow> \<exists>c'. update_loop c input = Some c' \<and> buffers c' (m @ input) \<and>
     total_size c' = total_size c"
proof (induction c input arbitrary: m rule: update_loop.induct)
  case (1 c rest)
  show ?case
  proof (cases "rest = []")
    case True
    then show ?thesis using "1.prems" by (subst update_loop.simps) simp
  next
    case False
    obtain full where full: "64 dvd length full" "state c = absorb initial_state full"
      "m = full @ take (block_size c) (block c)" and size: "length (block c) = 64" "block_size c < 64"
      using "1.prems" by (auto simp: buffers_def)
    define k where "k = (if length rest < 64 - block_size c then length rest else 64 - block_size c)"
    have k: "block_size c + k \<le> 64" "k \<le> length rest" using size(2) by (auto simp: k_def)
    obtain w where w: "write_block (block_size c) (take k rest) c = Some w" "length (block w) = 64"
      "take (block_size c + k) (block w) = take (block_size c) (block c) @ take k rest"
      "state w = state c" "total_size w = total_size c" "block_size w = block_size c"
      using write_block_some [of "block_size c" "take k rest" c] k size by auto
    define filled where "filled = w\<lparr>block_size := block_size w + k\<rparr>"
    have filled: "state filled = state c" "block filled = block w" "total_size filled = total_size c"
      "block_size filled = block_size c + k" using w by (simp_all add: filled_def)
    have over: "\<not> block_size c > 64" using size by simp
    note IH = "1.IH" [OF False over refl k_def w(1) filled_def]
    have unfold: "update_loop c rest =
      (if block_size filled = 64
       then update_loop ((sha256_transform filled (block filled))\<lparr>block_size := 0\<rparr>) (drop k rest)
       else update_loop filled (drop k rest))"
      using False over w(1)
      by (subst update_loop.simps) (simp add: k_def [symmetric] filled_def [symmetric])
    have joined: "m @ take k rest = full @ take (block_size c + k) (block w)"
      using full(3) w(3) by simp
    show ?thesis
    proof (cases "block_size filled = 64")
      case True
      have whole: "full @ block w = m @ take k rest" using joined True filled(4) w(2) by simp
      let ?next = "(sha256_transform filled (block filled))\<lparr>block_size := 0\<rparr>"
      note step = buffers_block [of full filled, unfolded filled, OF full(1,2) w(2)]
      have "buffers ?next (m @ take k rest)"
        using step whole w(2) by (auto simp: buffers_def filled intro!: exI [of _ "full @ block w"])
      from IH(1) [OF True this] unfold True step filled show ?thesis
        by simp
    next
      case False
      then have "buffers filled (m @ take k rest)"
        using k(1) full w joined filled by (auto simp: buffers_def)
      from IH(2) [OF False this] unfold False filled show ?thesis
        by simp
    qed
  qed
qed

lemma update_represents:
  assumes "represents c m"
  shows "\<exists>c'. common_sha256_update c input = Some c' \<and> represents c' (m @ input)"
proof -
  let ?c = "c\<lparr>total_size := total_size c + of_nat (length input)\<rparr>"
  have "buffers ?c m" using assms by (simp add: represents_buffers buffers_def)
  from update_loop_buffers [OF this, of input] assms show ?thesis
    by (auto simp: common_sha256_update_def represents_buffers)
qed

interpretation sha: incremental common_sha256_update represents
  by unfold_locales (rule update_represents)

section \<open>Finalisation\<close>

lemma store_be64_length [simp]: "length (store_be64 v) = 8"
  by (simp add: store_be64_def)

lemma padding_near:
  assumes "n mod 64 \<le> 55"
  shows "padding n = [0x80] @ replicate (55 - n mod 64) 0 @ store_be64 (of_nat (8 * n))"
proof -
  have "(119 - n mod 64) mod 64 = 55 - n mod 64" using assms by (simp add: le_mod_geq)
  then show ?thesis by (simp add: padding_def)
qed

lemma padding_far:
  assumes "55 < n mod 64"
  shows "padding n = [0x80] @ replicate (63 - n mod 64) 0 @ replicate 56 0 @ store_be64 (of_nat (8 * n))"
proof -
  have "n mod 64 < 64" by simp
  with assms have "(119 - n mod 64) mod 64 = (63 - n mod 64) + 56" by simp
  then have "replicate ((119 - n mod 64) mod 64) (0 :: u8) = replicate (63 - n mod 64) 0 @ replicate 56 0"
    by (simp only: replicate_add)
  then show ?thesis by (simp add: padding_def)
qed

lemma complete_block:
  assumes "64 dvd length full" and "state c = absorb initial_state full" and "length (block c) = 64"
    and "block_size c \<le> 56" and "head = take (block_size c) (block c)"
  obtains padded complete where
    "write_block (block_size c) (replicate (56 - block_size c) 0) c = Some padded"
    and "write_block 56 (store_be64 v) padded = Some complete"
    and "state (sha256_transform complete (block complete)) =
      absorb initial_state (full @ head @ replicate (56 - block_size c) 0 @ store_be64 v)"
proof -
  obtain padded where padded: "write_block (block_size c) (replicate (56 - block_size c) 0) c = Some padded"
    "length (block padded) = 64" "state padded = state c"
    "take 56 (block padded) = head @ replicate (56 - block_size c) 0"
    using write_block_some [of "block_size c" "replicate (56 - block_size c) 0" c] assms(3-5) by auto
  obtain complete where complete: "write_block 56 (store_be64 v) padded = Some complete"
    "length (block complete) = 64" "state complete = state padded"
    "take 64 (block complete) = take 56 (block padded) @ store_be64 v"
    using write_block_some [of 56 "store_be64 v" padded] padded by auto
  have "block complete = head @ replicate (56 - block_size c) 0 @ store_be64 v"
    using complete(2,4) padded(4) by simp
  with buffers_block(2) [of full complete] assms(1,2) padded complete that show ?thesis by simp
qed

lemma final_digest:
  assumes "represents c m"
  shows "map_option fst (common_sha256_final c) = Some (sha256_digest m)"
proof -
  obtain full where full: "64 dvd length full" "state c = absorb initial_state full"
    "m = full @ take (block_size c) (block c)"
    and size: "length (block c) = 64" "block_size c < 64" and total: "total_size c = of_nat (length m)"
    using assms by (auto simp: represents_def)
  define head where "head = take (block_size c) (block c)"
  have rest: "length m mod 64 = block_size c"
    using full size by (auto elim!: dvdE)
  have bits: "total_size c * 8 = of_nat (8 * length m)" by (simp add: total mult.commute)
  obtain w where w: "write_block (block_size c) [0x80] c = Some w" "length (block w) = 64"
    "take (block_size c + 1) (block w) = head @ [0x80]" "state w = state c" "block_size w = block_size c"
    using write_block_some [of "block_size c" "[0x80]" c] size by (auto simp: head_def)
  define marked where "marked = w\<lparr>block_size := block_size w + 1\<rparr>"
  have marked: "state marked = absorb initial_state full" "block marked = block w"
    "block_size marked = block_size c + 1" using w full by (simp_all add: marked_def)
  show ?thesis
  proof (cases "block_size c \<le> 55")
    case True
    obtain padded complete where p:
      "write_block (block_size marked) (replicate (56 - block_size marked) 0) marked = Some padded"
      "write_block 56 (store_be64 (of_nat (8 * length m))) padded = Some complete"
      "state (sha256_transform complete (block complete)) = absorb initial_state (full @ (head @ [0x80]) @
         replicate (56 - block_size marked) 0 @ store_be64 (of_nat (8 * length m)))"
      using complete_block [OF full(1), of marked "head @ [0x80]"] marked w(2,3) True by auto
    have "m @ padding (length m) = full @ (head @ [0x80]) @ replicate (56 - block_size marked) 0 @
        store_be64 (of_nat (8 * length m))"
      using padding_near [of "length m"] rest True full(3) marked(3) by (simp add: head_def)
    with p w True marked show ?thesis
      by (simp add: common_sha256_final_def Let_def marked_def bits sha256_digest_def)
  next
    case False
    obtain z where z: "write_block (block_size marked) (replicate (64 - block_size marked) 0) marked = Some z"
      "length (block z) = 64" "state z = state marked"
      "take 64 (block z) = (head @ [0x80]) @ replicate (64 - block_size marked) 0"
      using write_block_some [of "block_size marked" "replicate (64 - block_size marked) 0" marked]
        marked w(2,3) size by auto
    have block_z: "block z = head @ [0x80] @ replicate (63 - block_size c) 0"
      using z(2,4) marked(3) by simp
    let ?room = "(sha256_transform z (block z))\<lparr>block_size := 0\<rparr>"
    note step = buffers_block [OF full(1), of z, OF _ z(2)]
    have room: "64 dvd length (full @ block z)" "state ?room = absorb initial_state (full @ block z)"
      "length (block ?room) = 64"
      using step z marked by simp_all
    obtain padded complete where p:
      "write_block 0 (replicate 56 0) ?room = Some padded"
      "write_block 56 (store_be64 (of_nat (8 * length m))) padded = Some complete"
      "state (sha256_transform complete (block complete)) = absorb initial_state ((full @ block z) @ [] @
         replicate 56 0 @ store_be64 (of_nat (8 * length m)))"
      using complete_block [OF room, of "[]"] by auto
    have "m @ padding (length m) = (full @ block z) @ [] @ replicate 56 0 @
        store_be64 (of_nat (8 * length m))"
      using padding_far [of "length m"] rest False full(3) by (simp add: head_def block_z)
    with p w False marked z show ?thesis
      by (simp add: common_sha256_final_def Let_def marked_def bits sha256_digest_def)
  qed
qed

lemma init_represents: "length (block c) = 64 \<Longrightarrow> represents (common_sha256_init c) []"
  by (auto simp: represents_def common_sha256_init_def absorb_short intro!: exI [of _ "[]"])

section \<open>Correctness\<close>

text \<open>
  Property C8. The one-shot digest of any data, from whatever the context held before, is
  the hash function of the standard: the message padded by a one bit, zeros and its length
  in bits, compressed block by block with the recurrence-defined message schedule.
\<close>

theorem sha256_one_shot_standard:
  assumes "length (block uninitialised) = 64"
  shows "common_sha256 uninitialised data = Some (sha256_digest data) \<and>
    64 dvd length (data @ padding (length data))"
proof -
  note start = init_represents [OF assms]
  obtain c where c: "common_sha256_update (common_sha256_init uninitialised) data = Some c"
    "represents c data"
    using update_represents [OF start, of data] by auto
  have "common_sha256 uninitialised data = Some (sha256_digest data)"
    using final_digest [OF start] final_digest [OF c(2)] c(1)
    by (cases "data = []") (simp_all add: common_sha256_def)
  moreover have "64 dvd length data + length (padding (length data))"
  proof -
    define q r where "q = length data div 64" and "r = length data mod 64"
    then have split: "length data = 64 * q + r" and r: "r < 64" by simp_all
    have "length (padding (length data)) = (if r \<le> 55 then 64 - r else 128 - r)"
    proof (cases "r \<le> 55")
      case True
      then have "length (padding (length data)) = 1 + (55 - r) + 8"
        by (simp add: r_def padding_near)
      with True show ?thesis by simp
    next
      case False
      then have "length (padding (length data)) = 1 + (63 - r) + 64"
        by (simp add: r_def padding_far)
      with False r show ?thesis by simp
    qed
    then have "length data + length (padding (length data)) = 64 * (q + 1) \<or>
        length data + length (padding (length data)) = 64 * (q + 2)"
      unfolding split using r by (cases "r \<le> 55") simp_all
    then show ?thesis by (metis dvd_triv_left)
  qed
  ultimately show ?thesis by simp
qed

theorem sha256_one_shot_standard_witness:
  "common_sha256 \<lparr>state = [], total_size = 9, block = replicate 64 7, block_size = 70\<rparr> [0x61, 0x62] =
     Some (sha256_digest [0x61, 0x62])"
  using sha256_one_shot_standard
    [of "\<lparr>state = [], total_size = 9, block = replicate 64 7, block_size = 70\<rparr>"] by simp

text \<open>
  Property C37. Hashing incrementally gives the digest of the concatenation whatever way the
  message is cut into chunks, empty ones included, and no update or finalisation writes
  outside the block buffer.
\<close>

theorem sha256_chunking_independent:
  assumes "length (block uninitialised) = 64"
  shows "Option.bind (feed_all common_sha256_update (common_sha256_init uninitialised) chunks)
      (\<lambda>context. map_option fst (common_sha256_final context)) = Some (sha256_digest (concat chunks))"
  using sha.feed_all_concat [OF init_represents [OF assms], of chunks] final_digest by auto

theorem sha256_chunking_independent_witness:
  "Option.bind (feed_all common_sha256_update (common_sha256_init
       \<lparr>state = [], total_size = 0, block = replicate 64 0, block_size = 0\<rparr>) [[0x61], [], [0x62, 0x63]])
      (\<lambda>context. map_option fst (common_sha256_final context)) = Some (sha256_digest [0x61, 0x62, 0x63])"
  using sha256_chunking_independent
    [of "\<lparr>state = [], total_size = 0, block = replicate 64 0, block_size = 0\<rparr>" "[[0x61], [], [0x62, 0x63]]"]
  by simp

text \<open>
  The constants are what the standard derives them from: the first 32 fractional bits of the
  cube roots of the first 64 primes and of the square roots of the first 8.
\<close>

text \<open>Below \<open>19 * 19\<close> the primes are the numbers no smaller prime up to 17 divides.\<close>

definition prime_below_361 :: "int \<Rightarrow> bool" where
  "prime_below_361 n \<longleftrightarrow> list_all (\<lambda>d. n = d \<or> n mod d \<noteq> 0) [2, 3, 5, 7, 11, 13, 17]"

definition first_primes :: "int list" where
  "first_primes = filter prime_below_361 [2..311]"

text \<open>\<open>k\<close> are the first 32 fractional bits of the \<open>n\<close>-th root of \<open>p\<close>.\<close>

definition root_bits :: "nat \<Rightarrow> int \<Rightarrow> int \<Rightarrow> bool" where
  "root_bits n p k \<longleftrightarrow> 0 \<le> k \<and> k < 2 ^ 32 \<and>
     list_ex (\<lambda>r. (r * 2 ^ 32 + k) ^ n \<le> p * 2 ^ (32 * n) \<and>
                  p * 2 ^ (32 * n) < (r * 2 ^ 32 + k + 1) ^ n) [1, 2, 3, 4, 5, 6]"

lemma first_primes_value:
  "first_primes =
    [2, 3, 5, 7, 11, 13, 17, 19, 23, 29, 31, 37, 41, 43, 47, 53, 59, 61, 67, 71, 73, 79, 83, 89,
     97, 101, 103, 107, 109, 113, 127, 131, 137, 139, 149, 151, 157, 163, 167, 173, 179, 181, 191,
     193, 197, 199, 211, 223, 227, 229, 233, 239, 241, 251, 257, 263, 269, 271, 277, 281, 283, 293,
     307, 311]"
  by code_simp

text \<open>
  The round constants and the initial state of the source are the fractional
  bits that the standard prescribes, one for each of the first 64 and 8 primes.
\<close>

theorem sha256_constants_standard:
  "list_all2 (root_bits 3) first_primes (map uint constants) \<and>
   list_all2 (root_bits 2) (take 8 first_primes) (map uint initial_state)"
  unfolding first_primes_value constants_def initial_state_def
  by (simp, code_simp)

section \<open>Hexadecimal rendering\<close>

definition hex_value :: "u8 \<Rightarrow> nat" where
  "hex_value c = (if unat c < 58 then unat c - 48 else unat c - 87)"

fun hex_decode :: "u8 list \<Rightarrow> u8 list" where
  "hex_decode (hi # lo # rest) = of_nat (16 * hex_value hi + hex_value lo) # hex_decode rest"
| "hex_decode _ = []"

lemma hex_digit:
  assumes "n < 16"
  shows "hex_value (hex_digits ! n) = n \<and>
    (0x30 \<le> hex_digits ! n \<and> hex_digits ! n \<le> 0x39 \<or> 0x61 \<le> hex_digits ! n \<and> hex_digits ! n \<le> 0x66)"
proof -
  have "list_all (\<lambda>n. hex_value (hex_digits ! n) = n \<and>
    (0x30 \<le> hex_digits ! n \<and> hex_digits ! n \<le> 0x39 \<or> 0x61 \<le> hex_digits ! n \<and> hex_digits ! n \<le> 0x66))
    [0..<16]"
    by (simp add: hex_digits_def hex_value_def upt_rec word_le_nat_alt)
  with assms show ?thesis by (simp add: list_all_iff)
qed

lemma hex_decode_pairs:
  "hex_decode (concat (map (\<lambda>i. [hex_digits ! unat (drop_bit 4 (d i)), hex_digits ! unat (d i AND 0x0F)]) xs) @ [0])
     = map d xs"
proof (induction xs)
  case (Cons i xs)
  have hi: "unat (drop_bit 4 (d i)) = unat (d i) div 16"
    by (simp only: unat_shift_right) simp
  have lo: "unat (d i AND 0x0F) = unat (d i) mod 16"
    using unat_and_mask [of "d i" 4] by (simp add: mask_numeral)
  have "unat (d i) div 16 < 16" using byte_bound [of "d i"] by linarith
  then have "hex_value (hex_digits ! unat (drop_bit 4 (d i))) = unat (d i) div 16"
    and "hex_value (hex_digits ! unat (d i AND 0x0F)) = unat (d i) mod 16"
    using hex_digit hi lo by simp_all
  with Cons show ?case by simp
qed simp

text \<open>
  Property C39. The rendering of a 32-byte digest is 64 lower-case hexadecimal digits and a
  terminator, and reading the digits back gives the digest; a null argument changes nothing.
\<close>

theorem sha256_hex_roundtrip:
  assumes "length digest = 32"
  shows "(case common_sha256_digest_to_hex (Some digest) (Some hex) of
      None \<Rightarrow> False
    | Some rendered \<Rightarrow>
        length rendered = 65 \<and> hex_decode rendered = digest \<and> last rendered = 0 \<and>
        list_all (\<lambda>c. 0x30 \<le> c \<and> c \<le> 0x39 \<or> 0x61 \<le> c \<and> c \<le> 0x66) (butlast rendered)) \<and>
    common_sha256_digest_to_hex None dest = dest"
proof -
  let ?pair = "\<lambda>i. [hex_digits ! unat (drop_bit 4 (digest ! i)), hex_digits ! unat (digest ! i AND 0x0F)]"
  let ?text = "concat (map ?pair [0..<32])"
  have "map ((!) digest) [0..<32] = digest" using assms by (metis map_nth)
  then have decoded: "hex_decode (?text @ [0]) = digest"
    using hex_decode_pairs [of "(!) digest" "[0..<32]"] by simp
  have high: "unat (drop_bit 4 (b :: u8)) < 16" for b
    unfolding unat_shift_right by (rule less_mult_imp_div_less) simp
  have low: "unat ((b :: u8) AND 0x0F) < 16" for b
  proof -
    have "unat (b AND 0x0F) = unat b mod 16" using unat_and_mask [of b 4] by (simp add: mask_numeral)
    then show ?thesis by simp
  qed
  have digits: "list_all (\<lambda>c. 0x30 \<le> c \<and> c \<le> 0x39 \<or> 0x61 \<le> c \<and> c \<le> 0x66) (concat (map ?pair xs))" for xs
    using hex_digit high low by (induction xs) simp_all
  have pairs: "length (concat (map ?pair xs)) = 2 * length xs" for xs :: "nat list"
    by (induction xs) simp_all
  have "common_sha256_digest_to_hex (Some digest) (Some hex) = Some (?text @ [0])"
    by (simp only: common_sha256_digest_to_hex_def prod.case option.case)
  moreover have "common_sha256_digest_to_hex None dest = dest"
    by (simp add: common_sha256_digest_to_hex_def)
  moreover have "length (?text @ [0]) = 65" using pairs [of "[0..<32]"] by simp
  ultimately show ?thesis using decoded digits by (simp only: option.case butlast_snoc last_snoc)
qed

theorem sha256_hex_roundtrip_witness:
  "case common_sha256_digest_to_hex (Some (replicate 32 0xAB)) (Some []) of
     None \<Rightarrow> False | Some rendered \<Rightarrow> length rendered = 65 \<and> hex_decode rendered = replicate 32 0xAB"
  using sha256_hex_roundtrip [of "replicate 32 0xAB" "[]" None] by (auto split: option.splits)

end
