(* ===== verification/Lz4.thy ===== *)
theory Lz4
  imports Prelude
begin

text \<open>
  \<open>src/io/lz4_decompress.c\<close>: the decoder of one raw LZ4 block, in its lenient and its exact
  form. A buffer is the list of its bytes, \<open>None\<close> the null pointer; \<open>None\<close> as a result means
  an access outside a buffer, which the theorems exclude.
\<close>

section \<open>Model of the code\<close>

abbreviation LZ4_EXTENDED_LENGTH :: nat where "LZ4_EXTENDED_LENGTH \<equiv> 15"
abbreviation LZ4_EXTENSION_CONTINUES :: nat where "LZ4_EXTENSION_CONTINUES \<equiv> 255"
abbreviation LZ4_MINIMUM_MATCH :: nat where "LZ4_MINIMUM_MATCH \<equiv> 4"
abbreviation LZ4_FINAL_LITERALS :: nat where "LZ4_FINAL_LITERALS \<equiv> 5"
abbreviation LZ4_LAST_MATCH_DISTANCE :: nat where "LZ4_LAST_MATCH_DISTANCE \<equiv> 12"

text \<open>The extension bytes: the position after them and the accumulated length.\<close>

function read_extension :: "u8 list \<Rightarrow> nat \<Rightarrow> nat \<Rightarrow> (nat \<times> nat) option" where
  "read_extension source input_position len =
     (if input_position \<ge> length source then None
      else
        (let extension = unat (source ! input_position) in
         if len > size_max - extension then None
         else if extension = LZ4_EXTENSION_CONTINUES
              then read_extension source (input_position + 1) (len + extension)
              else Some (input_position + 1, len + extension)))"
  by pat_completeness auto
termination by (relation "measure (\<lambda>(source, input_position, len). length source - input_position)") auto

declare read_extension.simps [simp del]

definition read_length :: "u8 list \<Rightarrow> nat \<Rightarrow> nat \<Rightarrow> (nat \<times> nat) option" where
  "read_length source input_position len =
     (if len \<noteq> LZ4_EXTENDED_LENGTH then Some (input_position, len)
      else read_extension source input_position len)"

text \<open>\<open>memcpy\<close> into the destination, and the byte-by-byte copy of a match.\<close>

definition copy_literals :: "nat \<Rightarrow> u8 list \<Rightarrow> u8 list \<Rightarrow> u8 list option" where
  "copy_literals output_position literals destination =
     (if output_position + length literals \<le> length destination
      then Some (take output_position destination @ literals @
                 drop (output_position + length literals) destination)
      else None)"

fun copy_match :: "nat \<Rightarrow> nat \<Rightarrow> nat \<Rightarrow> u8 list \<Rightarrow> u8 list option" where
  "copy_match 0 output_position match_position destination = Some destination"
| "copy_match (Suc remaining) output_position match_position destination =
     (if output_position < length destination \<and> match_position < length destination
      then copy_match remaining (output_position + 1) (match_position + 1)
             (destination[output_position := destination ! match_position])
      else None)"

lemma read_extension_advances:
  "read_extension source p len = Some (p', len') \<Longrightarrow> p < p' \<and> p' \<le> length source"
proof (induction source p len rule: read_extension.induct)
  case (1 source p len)
  note run = "1.prems" [unfolded read_extension.simps [of source p len] Let_def]
  show ?case
  proof (cases "unat (source ! p) = LZ4_EXTENSION_CONTINUES")
    case True
    then have "read_extension source (p + 1) (len + unat (source ! p)) = Some (p', len')"
      and "\<not> length source \<le> p" and "\<not> size_max - unat (source ! p) < len"
      using run by (auto split: if_splits)
    with "1.IH" [OF _ refl _ True] show ?thesis by simp
  next
    case False
    with run show ?thesis by (auto split: if_splits)
  qed
qed

lemma read_length_advances:
  "read_length source p len = Some (p', len') \<Longrightarrow> p \<le> p'"
  by (auto simp: read_length_def dest: read_extension_advances split: if_splits)

text \<open>
  The loop over sequences. \<open>literal_bytes\<close> and \<open>copied\<close> name the memory accesses; the result
  is the value returned and the destination contents left.
\<close>

function decode_sequences ::
    "u8 list \<Rightarrow> nat \<Rightarrow> bool \<Rightarrow> nat \<Rightarrow> nat \<Rightarrow> nat \<Rightarrow> bool \<Rightarrow> u8 list \<Rightarrow> (int \<times> u8 list) option" where
  "decode_sequences source destination_size exact input_position output_position last_match_start
     matched destination =
     (if input_position < length source then
        (let token = unat (source ! input_position);
             input_position = input_position + 1
         in case read_length source input_position (token div 16) of
              None \<Rightarrow> Some (-1, destination)
            | Some (input_position, literal_length) \<Rightarrow>
                if literal_length > length source - input_position \<or>
                   literal_length > destination_size - output_position
                then Some (-1, destination)
                else
                  (case copy_literals output_position
                          (take literal_length (drop input_position source)) destination of
                     None \<Rightarrow> None
                   | Some destination \<Rightarrow>
                       (let output_position = output_position + literal_length;
                            input_position = input_position + literal_length
                        in if input_position = length source then
                             (if exact \<and>
                                 (output_position \<noteq> destination_size \<or>
                                  \<not> (\<not> matched \<or>
                                     (literal_length \<ge> LZ4_FINAL_LITERALS \<and>
                                      output_position - last_match_start \<ge> LZ4_LAST_MATCH_DISTANCE)))
                              then Some (-1, destination)
                              else Some (int output_position, destination))
                           else if length source - input_position < 2 then Some (-1, destination)
                           else
                             (let offset = unat (source ! input_position) +
                                           256 * unat (source ! (input_position + 1));
                                  input_position = input_position + 2
                              in if offset = 0 \<or> offset > output_position
                                 then Some (-1, destination)
                                 else
                                   (case read_length source input_position (token mod 16) of
                                      None \<Rightarrow> Some (-1, destination)
                                    | Some (input_position, match_length) \<Rightarrow>
                                        if match_length > size_max - LZ4_MINIMUM_MATCH
                                        then Some (-1, destination)
                                        else
                                          (let match_length = match_length + LZ4_MINIMUM_MATCH in
                                           if match_length > destination_size - output_position
                                           then Some (-1, destination)
                                           else
                                             (case copy_match match_length output_position
                                                     (output_position - offset) destination of
                                                None \<Rightarrow> None
                                              | Some destination \<Rightarrow>
                                                  decode_sequences source destination_size exact
                                                    input_position (output_position + match_length)
                                                    output_position True destination)))))))
      else Some (if exact then -1 else int output_position, destination))"
  by pat_completeness auto
termination
  by (relation "measure (\<lambda>(source, dsize, exact, input_position, rest). length source - input_position)")
     (auto dest!: read_length_advances)

declare decode_sequences.simps [simp del]

text \<open>
  The block decoder: \<open>source_bytes\<close> and \<open>destination_bytes\<close> are the sizes the caller states,
  which are the lengths of the buffers.
\<close>

definition decompress_block ::
    "u8 list option \<Rightarrow> u8 list option \<Rightarrow> int \<Rightarrow> int \<Rightarrow> bool \<Rightarrow> (int \<times> u8 list option) option" where
  "decompress_block source destination source_bytes destination_bytes exact =
     (if source_bytes < 0 \<or> destination_bytes < 0 \<or> (source = None \<and> source_bytes \<noteq> 0) \<or>
         (destination = None \<and> destination_bytes \<noteq> 0)
      then Some (-1, destination)
      else
        (let bytes = (case source of None \<Rightarrow> [] | Some b \<Rightarrow> take (nat source_bytes) b);
             storage = (case destination of None \<Rightarrow> [] | Some b \<Rightarrow> b)
         in map_option (\<lambda>(r, written). (r, map_option (\<lambda>_. written) destination))
              (decode_sequences bytes (nat destination_bytes) exact 0 0 0 False storage)))"

definition lz4_decompress_safe ::
    "u8 list option \<Rightarrow> u8 list option \<Rightarrow> int \<Rightarrow> int \<Rightarrow> (int \<times> u8 list option) option" where
  "lz4_decompress_safe source destination source_bytes destination_bytes =
     decompress_block source destination source_bytes destination_bytes False"

definition lz4_decompress_exact ::
    "u8 list option \<Rightarrow> u8 list option \<Rightarrow> int \<Rightarrow> int \<Rightarrow> (int \<times> u8 list option) option" where
  "lz4_decompress_exact source destination source_bytes destination_bytes =
     decompress_block source destination source_bytes destination_bytes True"

section \<open>The block format\<close>

text \<open>A length is a nibble, continued when it is 15 by bytes of 255 and a smaller last byte.\<close>

inductive length_tail :: "u8 list \<Rightarrow> nat \<Rightarrow> bool" where
  tail_last: "unat b \<noteq> 255 \<Longrightarrow> length_tail [b] (unat b)"
| tail_more: "unat b = 255 \<Longrightarrow> length_tail bytes n \<Longrightarrow> length_tail (b # bytes) (255 + n)"

definition length_code :: "nat \<Rightarrow> u8 list \<Rightarrow> nat \<Rightarrow> bool" where
  "length_code nibble extension len \<longleftrightarrow>
     (if nibble = 15 then \<exists>n. length_tail extension n \<and> len = 15 + n
      else extension = [] \<and> len = nibble)"

text \<open>A match repeats the last \<open>offset\<close> bytes of the output periodically.\<close>

definition repeat_match :: "u8 list \<Rightarrow> nat \<Rightarrow> nat \<Rightarrow> u8 list" where
  "repeat_match out offset n =
     out @ map (\<lambda>i. out ! (length out - offset + i mod offset)) [0..<n]"

text \<open>
  \<open>lz4_stream out prior source res ending\<close>: after the output \<open>out\<close>, the last match of which
  began at \<open>prior\<close>, the rest of the block decodes to the output \<open>res\<close>. \<open>ending\<close> holds the
  number of final literals and the start of the last match, \<open>None\<close> for a block that is
  empty or ends in a match.
\<close>

inductive lz4_stream ::
    "u8 list \<Rightarrow> nat option \<Rightarrow> u8 list \<Rightarrow> u8 list \<Rightarrow> (nat \<times> nat option) option \<Rightarrow> bool" where
  stream_end: "lz4_stream out prior [] out None"
| stream_last: "length_code (unat token div 16) extension (length literals) \<Longrightarrow>
    lz4_stream out prior (token # extension @ literals) (out @ literals)
      (Some (length literals, prior))"
| stream_seq: "length_code (unat token div 16) extension (length literals) \<Longrightarrow>
    length_code (unat token mod 16) extension' n \<Longrightarrow>
    offset = unat o0 + 256 * unat o1 \<Longrightarrow> 0 < offset \<Longrightarrow> offset \<le> length (out @ literals) \<Longrightarrow>
    lz4_stream (repeat_match (out @ literals) offset (n + 4)) (Some (length (out @ literals)))
      rest res ending \<Longrightarrow>
    lz4_stream out prior (token # extension @ literals @ o0 # o1 # extension' @ rest) res ending"

text \<open>What the exact entry point demands of the ending.\<close>

definition exact_ending :: "nat \<Rightarrow> u8 list \<Rightarrow> (nat \<times> nat option) option \<Rightarrow> bool" where
  "exact_ending capacity res ending \<longleftrightarrow>
     length res = capacity \<and>
     (case ending of
        None \<Rightarrow> False
      | Some (literals, None) \<Rightarrow> True
      | Some (literals, Some start) \<Rightarrow> 5 \<le> literals \<and> 12 \<le> length res - start)"

section \<open>Lengths and copies\<close>

lemma drop_Suc_nth_tail: "p < length xs \<Longrightarrow> drop (p + 1) xs = tl (drop p xs)"
  by (simp add: drop_Suc tl_drop)

lemma length_tail_bound: "length_tail bytes n \<Longrightarrow> n \<le> 255 * length bytes \<and> bytes \<noteq> []"
proof (induction rule: length_tail.induct)
  case (tail_last b)
  have "unat b < 256" by simp
  then have "unat b \<le> 255" by linarith
  then show ?case by simp
qed simp

lemma read_extension_some:
  "length_tail extension n \<Longrightarrow> drop p source = extension @ rest \<Longrightarrow> len + n \<le> size_max \<Longrightarrow>
     read_extension source p len = Some (p + length extension, len + n)"
proof (induction arbitrary: p len rule: length_tail.induct)
  case (tail_last b)
  have "p < length source" using tail_last(2) by (cases "p < length source") simp_all
  moreover have "source ! p = b"
    using tail_last(2) hd_drop_conv_nth [OF calculation] by simp
  ultimately show ?case using tail_last by (subst read_extension.simps) (simp add: Let_def)
next
  case (tail_more b bytes n)
  have inside: "p < length source" using tail_more(4) by (cases "p < length source") simp_all
  have here: "source ! p = b" using tail_more(4) hd_drop_conv_nth [OF inside] by simp
  have "drop (p + 1) source = bytes @ rest"
    using tail_more(4) drop_Suc_nth_tail [OF inside] by simp
  from tail_more.IH [OF this, of "len + 255"] tail_more.prems tail_more.hyps(1) inside here
  show ?case by (subst read_extension.simps) (simp add: Let_def)
qed

lemma read_extension_code:
  "read_extension source p len = Some (p', len') \<Longrightarrow>
     \<exists>extension n. length_tail extension n \<and> drop p source = extension @ drop p' source \<and> len' = len + n"
proof (induction source p len rule: read_extension.induct)
  case (1 source p len)
  note run = "1.prems" [unfolded read_extension.simps [of source p len] Let_def]
  have inside: "p < length source" and fits: "\<not> size_max - unat (source ! p) < len"
    using run by (auto split: if_splits)
  have cons: "drop p source = source ! p # drop (p + 1) source"
    using inside by (simp add: Cons_nth_drop_Suc)
  show ?case
  proof (cases "unat (source ! p) = LZ4_EXTENSION_CONTINUES")
    case True
    then have "read_extension source (p + 1) (len + unat (source ! p)) = Some (p', len')"
      using run by (auto split: if_splits)
    with "1.IH" [OF _ refl fits True] inside
    obtain extension n where "length_tail extension n" "drop (p + 1) source = extension @ drop p' source"
      "len' = len + unat (source ! p) + n" by auto
    with tail_more [OF True] True cons show ?thesis
      by (intro exI [of _ "source ! p # extension"] exI [of _ "255 + n"]) simp
  next
    case False
    with run have "p' = p + 1" "len' = len + unat (source ! p)" by (auto split: if_splits)
    with tail_last [OF False] cons show ?thesis by (intro exI [of _ "[source ! p]"]) auto
  qed
qed

lemma read_length_code:
  "read_length source p nibble = Some (p', len) \<Longrightarrow>
     \<exists>extension. length_code nibble extension len \<and> drop p source = extension @ drop p' source"
  using read_extension_code [of source p 15 p' len]
  by (auto simp: read_length_def length_code_def split: if_splits)

lemma read_length_within:
  "read_length source p nibble = Some (p', len) \<Longrightarrow> p \<le> length source \<Longrightarrow> p' \<le> length source"
  by (auto simp: read_length_def dest: read_extension_advances split: if_splits)

lemma read_length_some:
  assumes "length_code nibble extension len" and "drop p source = extension @ rest"
    and "p \<le> length source" and "length source \<le> 2 ^ 31"
  shows "read_length source p nibble = Some (p + length extension, len)"
proof (cases "nibble = 15")
  case True
  then obtain n where n: "length_tail extension n" "len = 15 + n"
    using assms(1) by (auto simp: length_code_def)
  have "length extension \<le> length source"
    using arg_cong [OF assms(2), of length] by simp
  then have "15 + n \<le> size_max" using length_tail_bound [OF n(1)] assms(4) by simp
  from read_extension_some [OF n(1) assms(2) this] True n(2) show ?thesis
    by (simp add: read_length_def)
next
  case False
  with assms(1) show ?thesis by (simp add: read_length_def length_code_def)
qed

lemma length_code_bound:
  assumes "length_code nibble extension len" and "nibble < 16" and "length extension \<le> 2 ^ 31"
  shows "len \<le> size_max - 4"
proof (cases "nibble = 15")
  case True
  then obtain n where "length_tail extension n" "len = 15 + n"
    using assms(1) by (auto simp: length_code_def)
  with length_tail_bound assms(3) show ?thesis by fastforce
next
  case False
  with assms(1,2) show ?thesis by (simp add: length_code_def)
qed

lemma repeat_match_length [simp]: "length (repeat_match out offset n) = length out + n"
  by (simp add: repeat_match_def)

lemma repeat_match_step:
  assumes "0 < offset" and "offset \<le> length out"
  shows "repeat_match (out @ [out ! (length out - offset)]) offset n = repeat_match out offset (Suc n)"
proof -
  let ?first = "out ! (length out - offset)"
  have "(out @ [?first]) ! (length (out @ [?first]) - offset + i mod offset) =
      out ! (length out - offset + Suc i mod offset)" for i
  proof (cases "i mod offset = offset - 1")
    case True
    then have "Suc i mod offset = 0" using assms(1) by (simp add: mod_Suc)
    moreover have "length (out @ [?first]) - offset + i mod offset = length out"
      using True assms by simp
    ultimately show ?thesis by (simp add: nth_append)
  next
    case False
    then have "Suc i mod offset = Suc (i mod offset)" using assms(1) by (simp add: mod_Suc)
    moreover have "i mod offset < offset - 1"
      using False assms(1) mod_less_divisor [OF assms(1), of i] by linarith
    moreover from this have "Suc (length out + i mod offset - offset) < length out"
      using assms by linarith
    ultimately show ?thesis using assms by (simp add: nth_append Suc_diff_le)
  qed
  note same = this
  have up: "[0..<Suc n] = 0 # map Suc [0..<n]"
    by (simp add: map_Suc_upt upt_conv_Cons del: upt_Suc)
  show ?thesis
    unfolding repeat_match_def up using same by simp
qed

lemma copy_match_repeats:
  assumes "0 < offset" and "offset \<le> length out" and "n \<le> length free"
  shows "copy_match n (length out) (length out - offset) (out @ free) =
    Some (repeat_match out offset n @ drop n free)"
  using assms
proof (induction n arbitrary: out free)
  case 0
  then show ?case by (simp add: repeat_match_def)
next
  case (Suc n)
  obtain b more where free: "free = b # more" using Suc.prems(3) by (cases free) simp_all
  have "length out - offset < length out" using Suc.prems by simp
  then have "copy_match (Suc n) (length out) (length out - offset) (out @ free) =
      copy_match n (length (out @ [out ! (length out - offset)])) (length (out @ [out ! (length out - offset)]) - offset) ((out @ [out ! (length out - offset)]) @ more)"
    using Suc.prems free by (simp add: nth_append list_update_append Suc_diff_le)
  also have "\<dots> = Some (repeat_match (out @ [out ! (length out - offset)]) offset n @ drop n more)"
    using Suc.prems free by (intro Suc.IH) simp_all
  finally show ?case using free repeat_match_step [OF Suc.prems(1,2)] by simp
qed

lemma copy_literals_appends:
  "length literals \<le> length free \<Longrightarrow>
     copy_literals (length out) literals (out @ free) = Some ((out @ literals) @ drop (length literals) free)"
  by (simp add: copy_literals_def)

section \<open>The decoder\<close>

lemma drop_head:
  "drop a xs = y # ys \<Longrightarrow> a < length xs \<and> xs ! a = y \<and> drop (a + 1) xs = ys"
  by (metis Cons_nth_drop_Suc Suc_eq_plus1 drop_eq_Nil leI list.inject list.simps(3))

lemma drop_prefix:
  assumes "drop a xs = ys @ zs" and "a \<le> length xs"
  shows "drop (a + length ys) xs = zs" and "a + length ys \<le> length xs"
    and "take (length ys) (drop a xs) = ys" and "length xs - (a + length ys) = length zs"
proof -
  have "length xs - a = length ys + length zs"
    using arg_cong [OF assms(1), of length] by simp
  then show "a + length ys \<le> length xs" "length xs - (a + length ys) = length zs"
    using assms(2) by simp_all
  have "drop (length ys) (drop a xs) = zs" using assms(1) by simp
  then show "drop (a + length ys) xs = zs" by (simp add: add.commute)
  show "take (length ys) (drop a xs) = ys" using assms(1) by simp
qed

lemma disj_guards: "\<not> a \<Longrightarrow> \<not> b \<Longrightarrow> \<not> (a \<or> b)"
  by simp

lemma lz4_stream_grows: "lz4_stream out prior bytes res ending \<Longrightarrow> length out \<le> length res"
  by (induction rule: lz4_stream.induct) simp_all

text \<open>One sequence, as the loop body runs through it on an encoded sequence.\<close>

lemma decode_final_literals:
  assumes code: "length_code (unat token div 16) extension (length literals)"
    and here: "drop p source = token # extension @ literals" and "length source \<le> 2 ^ 31"
    and fits: "length literals \<le> length free"
    and matched: "matched = (prior \<noteq> None)" "\<And>start. prior = Some start \<Longrightarrow> lms = start"
  shows "decode_sequences source (length (out @ free)) exact p (length out) lms matched (out @ free) =
    Some (if exact \<and> \<not> exact_ending (length (out @ free)) (out @ literals) (Some (length literals, prior))
          then -1 else int (length (out @ literals)),
          (out @ literals) @ drop (length literals) free)"
proof -
  have p: "p < length source" "source ! p = token" "drop (p + 1) source = extension @ literals"
    using drop_head [OF here] by simp_all
  have "p + 1 \<le> length source" using p(1) by simp
  note ext = drop_prefix [OF p(3) this]
  define q where "q = p + 1 + length extension"
  have q: "drop q source = literals" "q \<le> length source" using ext(1,2) by (simp_all add: q_def)
  then have at_end: "q + length literals = length source"
    by (metis length_drop le_add_diff_inverse)
  then have "length source - q = length literals" by simp
  have len: "read_length source (p + 1) (unat token div 16) = Some (q, length literals)"
    unfolding q_def by (rule read_length_some [OF code p(3) \<open>p + 1 \<le> length source\<close> assms(3)])
  have copy: "copy_literals (length out) literals (out @ free) =
      Some ((out @ literals) @ drop (length literals) free)"
    by (rule copy_literals_appends [OF fits])
  have ending: "exact_ending (length (out @ free)) (out @ literals) (Some (length literals, prior)) \<longleftrightarrow>
      length out + length literals = length (out @ free) \<and>
      (\<not> matched \<or> (5 \<le> length literals \<and> 12 \<le> length out + length literals - lms))"
    using matched by (cases prior) (auto simp: exact_ending_def)
  have unroll: "decode_sequences source (length (out @ free)) exact p (length out) lms matched (out @ free) =
      (if exact \<and> (length out + length literals \<noteq> length (out @ free) \<or>
          \<not> (\<not> matched \<or> (5 \<le> length literals \<and> 12 \<le> length out + length literals - lms)))
       then Some (-1, (out @ literals) @ drop (length literals) free)
       else Some (int (length out + length literals), (out @ literals) @ drop (length literals) free))"
    using p(1,2) len copy fits at_end q \<open>length source - q = length literals\<close>
    by (subst decode_sequences.simps) (simp add: Let_def)
  show ?thesis unfolding unroll ending by simp
qed

lemma decode_one_sequence:
  assumes code: "length_code (unat token div 16) extension (length literals)"
    and code': "length_code (unat token mod 16) extension' n"
    and here: "drop p source = token # extension @ literals @ o0 # o1 # extension' @ rest"
    and small: "length source \<le> 2 ^ 31"
    and offset: "offset = unat o0 + 256 * unat o1" "0 < offset" "offset \<le> length (out @ literals)"
    and fits: "length literals + n + 4 \<le> length free"
  shows "\<exists>q. drop q source = rest \<and> q \<le> length source \<and>
    decode_sequences source (length (out @ free)) exact p (length out) lms matched (out @ free) =
    decode_sequences source (length (out @ free)) exact q
      (length (repeat_match (out @ literals) offset (n + 4))) (length (out @ literals)) True
      (repeat_match (out @ literals) offset (n + 4) @ drop (length literals + n + 4) free)"
proof -
  have p: "p < length source" "source ! p = token"
    "drop (p + 1) source = extension @ literals @ o0 # o1 # extension' @ rest"
    using drop_head [OF here] by simp_all
  have "p + 1 \<le> length source" using p(1) by simp
  note ext = drop_prefix [OF p(3) this]
  define q where "q = p + 1 + length extension"
  define r where "r = q + length literals"
  define t where "t = r + 2 + length extension'"
  note lits = drop_prefix [OF ext(1) ext(2), folded q_def r_def]
  have r: "source ! r = o0" "source ! (r + 1) = o1" "drop (r + 2) source = extension' @ rest"
    "r + 2 \<le> length source"
    using drop_head [OF lits(1)] drop_head [of "r + 1" source o1 "extension' @ rest"] by auto
  note ext' = drop_prefix [OF r(3,4), folded t_def]
  have len: "read_length source (p + 1) (unat token div 16) = Some (q, length literals)"
    unfolding q_def by (rule read_length_some [OF code p(3) \<open>p + 1 \<le> length source\<close> small])
  have len': "read_length source (r + 2) (unat token mod 16) = Some (t, n)"
    unfolding t_def by (rule read_length_some [OF code' r(3,4) small])
  have "length extension' \<le> 2 ^ 31" using ext'(2) small by (simp add: t_def)
  then have cap: "\<not> n > size_max - LZ4_MINIMUM_MATCH" using length_code_bound [OF code'] by simp
  have copy: "copy_literals (length out) literals (out @ free) =
      Some ((out @ literals) @ drop (length literals) free)"
    using fits by (intro copy_literals_appends) simp
  have match: "copy_match (n + 4) (length (out @ literals)) (length (out @ literals) - offset)
      ((out @ literals) @ drop (length literals) free) =
      Some (repeat_match (out @ literals) offset (n + 4) @ drop (n + 4) (drop (length literals) free))"
    using offset fits by (intro copy_match_repeats) simp_all
  have guards: "\<not> length literals > length source - q" "\<not> length literals > length (out @ free) - length out"
    "r \<noteq> length source" "\<not> length source - r < 2" "\<not> (offset = 0 \<or> offset > length out + length literals)"
    "\<not> n + LZ4_MINIMUM_MATCH > length (out @ free) - (length out + length literals)"
    using lits(2,4) r(4) offset fits by (auto simp: r_def)
  have "decode_sequences source (length (out @ free)) exact p (length out) lms matched (out @ free) =
    decode_sequences source (length (out @ free)) exact t
      (length out + length literals + (n + 4)) (length out + length literals) True
      (repeat_match (out @ literals) offset (n + 4) @ drop (n + 4) (drop (length literals) free))"
    unfolding decode_sequences.simps [of source "length (out @ free)" exact p "length out"]
    unfolding Let_def p(2) len option.case prod.case
    unfolding if_not_P [OF disj_guards [OF guards(1,2)]] lits(3) copy option.case r_def [symmetric]
      if_not_P [OF guards(3)] if_not_P [OF guards(4)] r(1,2) offset(1) [symmetric]
      if_not_P [OF guards(5)] len' prod.case if_not_P [OF cap] if_not_P [OF guards(6)]
    using p(1) match by simp
  then show ?thesis
    using ext'(1,2) by (intro exI [of _ t]) (simp add: add_ac)
qed

text \<open>Every block of the format whose output fits is decoded to it.\<close>

lemma decode_complete:
  "lz4_stream out prior bytes res ending \<Longrightarrow> drop p source = bytes \<Longrightarrow> p \<le> length source \<Longrightarrow>
    length source \<le> 2 ^ 31 \<Longrightarrow> length res \<le> length (out @ free) \<Longrightarrow>
    matched = (prior \<noteq> None) \<Longrightarrow> (\<And>start. prior = Some start \<Longrightarrow> lms = start) \<Longrightarrow>
    decode_sequences source (length (out @ free)) exact p (length out) lms matched (out @ free) =
      Some (if exact \<and> \<not> exact_ending (length (out @ free)) res ending then -1 else int (length res),
            res @ drop (length res - length out) free)"
proof (induction arbitrary: p free lms matched rule: lz4_stream.induct)
  case (stream_end out prior)
  then have "p = length source" by simp
  then show ?case by (subst decode_sequences.simps) (simp add: exact_ending_def)
next
  case (stream_last token extension literals out prior)
  then show ?case
    using decode_final_literals [OF stream_last(1,2,4), where free = free and matched = matched
        and prior = prior and lms = lms and out = out and exact = exact] by simp
next
  case (stream_seq token extension literals extension' n offset o0 o1 out rest res ending prior)
  let ?out = "repeat_match (out @ literals) offset (n + 4)"
  let ?free = "drop (length literals + n + 4) free"
  have grow: "length ?out \<le> length res" by (rule lz4_stream_grows [OF stream_seq.hyps(6)])
  then have fits: "length literals + n + 4 \<le> length free" using stream_seq.prems(4) by simp
  obtain q where q: "drop q source = rest" "q \<le> length source"
    "decode_sequences source (length (out @ free)) exact p (length out) lms matched (out @ free) =
      decode_sequences source (length (out @ free)) exact q (length ?out) (length (out @ literals)) True
      (?out @ ?free)"
    using decode_one_sequence [OF stream_seq.hyps(1,2) stream_seq.prems(1,3) stream_seq.hyps(3-5) fits]
    by metis
  have size: "length (?out @ ?free) = length (out @ free)" using fits by simp
  have "decode_sequences source (length (?out @ ?free)) exact q (length ?out) (length (out @ literals))
      True (?out @ ?free) =
    Some (if exact \<and> \<not> exact_ending (length (?out @ ?free)) res ending then -1 else int (length res),
          res @ drop (length res - length ?out) ?free)"
    using stream_seq.IH [OF q(1,2) stream_seq.prems(3), of ?free True "length (out @ literals)"]
      stream_seq.prems(4) size by simp
  moreover have "drop (length res - length ?out) ?free = drop (length res - length out) free"
    using grow by simp
  ultimately show ?case unfolding q(3) size by simp
qed

text \<open>Whatever the input, the decoder returns, and a result that is not -1 is an output of the format.\<close>

lemma decode_sound:
  "p \<le> length source \<Longrightarrow> length source \<le> 2 ^ 31 \<Longrightarrow> dsize = length (out @ free) \<Longrightarrow>
    out_len = length out \<Longrightarrow> dest = out @ free \<Longrightarrow>
    matched = (prior \<noteq> None) \<Longrightarrow> (\<And>start. prior = Some start \<Longrightarrow> lms = start) \<Longrightarrow>
    \<exists>r dest'. decode_sequences source dsize exact p out_len lms matched dest = Some (r, dest') \<and>
      length dest' = dsize \<and>
      (r = -1 \<or> (\<exists>res ending. lz4_stream out prior (drop p source) res ending \<and> length res \<le> dsize \<and>
         (exact \<longrightarrow> exact_ending dsize res ending)))"
proof (induction "length source - p" arbitrary: p out free prior lms matched out_len dest rule: less_induct)
  case less
  note eqs = less.prems(3-5)
  show ?case
  proof (cases "p < length source")
    case False
    then have "drop p source = []" by simp
    then show ?thesis
      using False eqs by (subst decode_sequences.simps) (auto intro!: exI [of _ out] exI [of _ None] stream_end)
  next
    case True
    define token where "token = source ! p"
    have here: "drop p source = token # drop (p + 1) source"
      using True by (simp add: token_def Cons_nth_drop_Suc)
    let ?Q = "\<exists>res ending. lz4_stream out prior (drop p source) res ending \<and> length res \<le> dsize \<and>
         (exact \<longrightarrow> exact_ending dsize res ending)"
    define good where "good x \<longleftrightarrow>
      (\<exists>r dest'. x = Some (r, dest') \<and> length dest' = dsize \<and> (r = -1 \<or> ?Q))"
      for x :: "(int \<times> u8 list) option"
    have fail: "good (Some (-1, d))" if "length d = dsize" for d using that by (simp add: good_def)
    have dest: "length dest = dsize" using eqs by simp
    note unroll = decode_sequences.simps [of source dsize exact p out_len lms matched dest]
    have "good (decode_sequences source dsize exact p out_len lms matched dest)"
    proof (cases "read_length source (p + 1) (unat token div 16)")
      case None
      then show ?thesis
        unfolding unroll Let_def token_def [symmetric] using True fail [OF dest] by simp
    next
      case (Some pair)
      then obtain q L where len: "read_length source (p + 1) (unat token div 16) = Some (q, L)"
        by (cases pair) simp
      obtain extension where ext: "length_code (unat token div 16) extension L"
        "drop (p + 1) source = extension @ drop q source"
        using read_length_code [OF len] by blast
      show ?thesis
      proof (cases "L > length source - q \<or> L > dsize - out_len")
        case too_long: True
        then show ?thesis
          unfolding unroll Let_def token_def [symmetric] using True len fail [OF dest] by simp
      next
        case room: False
        define lits where "lits = take L (drop q source)"
        define r where "r = q + L"
        have q: "q \<le> length source" using read_length_within [OF len] True by simp
        have L: "length lits = L" "L \<le> length free" and r: "r \<le> length source"
          using room q eqs by (auto simp: lits_def r_def)
        have split: "drop q source = lits @ drop r source"
          unfolding lits_def r_def by (simp add: add.commute drop_drop [symmetric] del: drop_drop)
        have copy: "copy_literals out_len lits dest = Some ((out @ lits) @ drop L free)"
          using copy_literals_appends [of lits free out] L eqs by simp
        have code: "length_code (unat token div 16) extension (length lits)"
          using ext(1) L by simp
        note enter = unroll Let_def token_def [symmetric] len option.case prod.case if_not_P [OF room]
          lits_def [symmetric] copy r_def [symmetric]
        show ?thesis
        proof (cases "r = length source")
          case at_end: True
          then have whole: "drop p source = token # extension @ lits" using here ext(2) split by simp
          note last = stream_last [OF code, of out prior] decode_final_literals [OF code whole less.prems(2),
              where free = free and matched = matched and prior = prior and lms = lms and out = out
              and exact = exact, OF _ less.prems(6,7)]
          show ?thesis
          proof (cases "exact \<and> \<not> exact_ending (length (out @ free)) (out @ lits) (Some (length lits, prior))")
            case True
            then show ?thesis using last L eqs by (simp add: good_def)
          next
            case False
            then have ?Q
              using last(1) L eqs whole
              by (intro exI [of _ "out @ lits"] exI [of _ "Some (length lits, prior)"]) auto
            with last(2) L eqs False show ?thesis by (auto simp: good_def)
          qed
        next
          case more: False
          show ?thesis
          proof (cases "length source - r < 2 \<or> unat (source ! r) + 256 * unat (source ! (r + 1)) = 0 \<or>
              unat (source ! r) + 256 * unat (source ! (r + 1)) > out_len + L")
            case True
            then show ?thesis
              unfolding enter using \<open>p < length source\<close> more fail [of "(out @ lits) @ drop L free"] L eqs
              by auto
          next
            case pair: False
            define o0 o1 where "o0 = source ! r" and "o1 = source ! (r + 1)"
            define offset where "offset = unat o0 + 256 * unat o1"
            have offset: "offset \<noteq> 0" "offset \<le> length (out @ lits)"
              using pair eqs L by (simp_all add: offset_def o0_def o1_def)
            have tail: "drop r source = o0 # o1 # drop (r + 2) source"
            proof -
              have "r < length source" "Suc r < length source" using pair by linarith+
              then show ?thesis by (simp add: o0_def o1_def Cons_nth_drop_Suc)
            qed
            have good_tail: "\<not> (length source - r < 2)"
              "\<not> (unat (source ! r) + 256 * unat (source ! (r + 1)) = 0 \<or>
                unat (source ! r) + 256 * unat (source ! (r + 1)) > out_len + L)" using pair by auto
            note deeper = enter if_not_P [OF more] if_not_P [OF good_tail(1)] if_not_P [OF good_tail(2)]
            show ?thesis
            proof (cases "read_length source (r + 2) (unat token mod 16)")
              case None
              then show ?thesis
                unfolding deeper using \<open>p < length source\<close> fail [of "(out @ lits) @ drop L free"] L eqs
                by simp
            next
              case (Some pair')
              then obtain t n where len': "read_length source (r + 2) (unat token mod 16) = Some (t, n)"
                by (cases pair') simp
              obtain extension' where code': "length_code (unat token mod 16) extension' n"
                and tail': "drop (r + 2) source = extension' @ drop t source"
                using read_length_code [OF len'] by blast
              show ?thesis
              proof (cases "n > size_max - 4 \<or> n + 4 > dsize - (out_len + L)")
                case True
                then show ?thesis
                  unfolding deeper len' option.case prod.case
                  using \<open>p < length source\<close> fail [of "(out @ lits) @ drop L free"] L eqs
                  by auto
              next
                case False
                then have fits: "length lits + n + 4 \<le> length free" using L eqs room by auto
                have whole: "drop p source = token # extension @ lits @ o0 # o1 # extension' @ drop t source"
                  using here ext(2) split tail tail' by simp
                let ?out = "repeat_match (out @ lits) offset (n + 4)"
                let ?free = "drop (length lits + n + 4) free"
                obtain u where u: "drop u source = drop t source" "u \<le> length source"
                  "decode_sequences source (length (out @ free)) exact p (length out) lms matched (out @ free) =
                    decode_sequences source (length (out @ free)) exact u (length ?out)
                      (length (out @ lits)) True (?out @ ?free)"
                  using decode_one_sequence [OF code code' whole less.prems(2) offset_def _ offset(2) fits]
                    offset(1) by blast
                have "length (drop u source) < length (drop p source)" using whole u(1) by simp
                then have shorter: "length source - u < length source - p" by simp
                have size: "dsize = length (?out @ ?free)" using fits eqs by simp
                obtain x dest' where step:
                  "decode_sequences source dsize exact u (length ?out) (length (out @ lits)) True (?out @ ?free)
                    = Some (x, dest')" "length dest' = dsize"
                  "x = -1 \<or> (\<exists>res ending. lz4_stream ?out (Some (length (out @ lits))) (drop u source) res ending
                    \<and> length res \<le> dsize \<and> (exact \<longrightarrow> exact_ending dsize res ending))"
                  using less.hyps [OF shorter u(2) less.prems(2) size refl refl,
                      of True "Some (length (out @ lits))" "length (out @ lits)"] by auto
                have "lz4_stream out prior (drop p source) res ending"
                  if "lz4_stream ?out (Some (length (out @ lits))) (drop u source) res ending" for res ending
                  unfolding whole using stream_seq [OF code code' offset_def _ offset(2)] that offset(1) u(1)
                  by simp
                with step u(3) eqs show ?thesis unfolding good_def by auto
              qed
            qed
          qed
        qed
      qed
    qed
    then show ?thesis by (simp only: good_def)
  qed
qed

section \<open>Correctness\<close>

text \<open>A whole block decodes to an output, and the further demands of the exact entry point.\<close>

definition lz4_block :: "u8 list \<Rightarrow> u8 list \<Rightarrow> bool" where
  "lz4_block source res \<longleftrightarrow> (\<exists>ending. lz4_stream [] None source res ending)"

definition lz4_exact_block :: "u8 list \<Rightarrow> u8 list \<Rightarrow> bool" where
  "lz4_exact_block source res \<longleftrightarrow>
     (\<exists>ending. lz4_stream [] None source res ending \<and> exact_ending (length res) res ending)"

lemma decompress_outcome:
  assumes "length source \<le> nat INT_MAX"
  shows "\<exists>r storage.
    decompress_block (Some source) (Some destination) (int (length source)) (int (length destination)) exact =
      Some (r, Some storage) \<and> length storage = length destination \<and>
    (\<forall>res ending. lz4_stream [] None source res ending \<and> length res \<le> length destination \<and>
       (exact \<longrightarrow> exact_ending (length destination) res ending) \<longrightarrow>
       r = int (length res) \<and> storage = res @ drop (length res) destination) \<and>
    (r = -1 \<or> (\<exists>res ending. lz4_stream [] None source res ending \<and> length res \<le> length destination \<and>
       (exact \<longrightarrow> exact_ending (length destination) res ending)))"
proof -
  have small: "length source \<le> 2 ^ 31" using assms by simp
  obtain r storage where run:
    "decode_sequences source (length destination) exact 0 0 0 False destination = Some (r, storage)"
    "length storage = length destination"
    "r = -1 \<or> (\<exists>res ending. lz4_stream [] None source res ending \<and> length res \<le> length destination \<and>
         (exact \<longrightarrow> exact_ending (length destination) res ending))"
    using decode_sound [of 0 source "length destination" "[]" destination 0 destination False None 0 exact]
      small by auto
  have whole: "r = int (length res) \<and> storage = res @ drop (length res) destination"
    if "lz4_stream [] None source res ending" "length res \<le> length destination"
      "exact \<longrightarrow> exact_ending (length destination) res ending" for res ending
    using decode_complete [OF that(1), of 0 source destination False 0 exact] small that(2,3) run(1)
    by auto
  have "decompress_block (Some source) (Some destination) (int (length source))
      (int (length destination)) exact = Some (r, Some storage)"
    using run(1) by (simp add: decompress_block_def)
  with run(2,3) whole show ?thesis by blast
qed

text \<open>
  Property C5. The exact decoder never accesses memory outside its buffers. It returns the
  destination size, having stored the decoded bytes, exactly when the source is a block of
  the format that decodes to that many bytes and ends as the format requires, and -1 for
  every other source.
\<close>

theorem lz4_exact_correct:
  assumes "length source \<le> nat INT_MAX"
  shows "case lz4_decompress_exact (Some source) (Some destination) (int (length source))
        (int (length destination)) of
      Some (r, Some storage) \<Rightarrow>
        length storage = length destination \<and>
        (if \<exists>res. length res = length destination \<and> lz4_exact_block source res
         then r = int (length destination) \<and> lz4_exact_block source storage
         else r = -1)
    | _ \<Rightarrow> False"
proof -
  have exact: "lz4_exact_block source res \<longleftrightarrow> (\<exists>ending. lz4_stream [] None source res ending \<and>
      length res \<le> length destination \<and> exact_ending (length destination) res ending)"
    if "length res = length destination" for res
    using that by (simp add: lz4_exact_block_def)
  have size: "length res = length destination"
    if "exact_ending (length destination) res ending" for res ending
    using that by (simp add: exact_ending_def)
  obtain r storage where run: "decompress_block (Some source) (Some destination) (int (length source))
      (int (length destination)) True = Some (r, Some storage)" "length storage = length destination"
    and yes: "\<And>res ending. lz4_stream [] None source res ending \<and> length res \<le> length destination \<and>
       exact_ending (length destination) res ending \<Longrightarrow>
       r = int (length res) \<and> storage = res @ drop (length res) destination"
    and no: "r = -1 \<or> (\<exists>res ending. lz4_stream [] None source res ending \<and>
       length res \<le> length destination \<and> exact_ending (length destination) res ending)"
    using decompress_outcome [OF assms, of destination True] by (auto 4 0)
  show ?thesis
  proof (cases "\<exists>res. length res = length destination \<and> lz4_exact_block source res")
    case True
    then obtain res ending where res: "length res = length destination" "lz4_exact_block source res"
      "lz4_stream [] None source res ending" "exact_ending (length destination) res ending"
      using exact by blast
    from yes [of res ending] res have "r = int (length destination)" "storage = res" by simp_all
    with res run True show ?thesis by (auto simp: lz4_decompress_exact_def)
  next
    case False
    then have "r = -1" using no size exact by blast
    with False run show ?thesis by (simp add: lz4_decompress_exact_def)
  qed
qed

theorem lz4_exact_correct_witness:
  "case lz4_decompress_exact (Some [0x20, 7, 8]) (Some [0, 0]) 3 2 of
     Some (r, Some storage) \<Rightarrow> length storage = 2 | _ \<Rightarrow> False"
  using lz4_exact_correct [of "[0x20, 7, 8]" "[0, 0]"]
  by (auto split: option.splits prod.splits)

text \<open>
  Property C21. The lenient decoder never accesses memory outside its buffers. It returns -1,
  or the number of bytes of an output of the format that fits, stored at the start of the
  destination with the rest of it untouched; and it returns -1 only when no such output
  exists.
\<close>

theorem lz4_safe_correct:
  assumes "length source \<le> nat INT_MAX"
  shows "case lz4_decompress_safe (Some source) (Some destination) (int (length source))
        (int (length destination)) of
      Some (r, Some storage) \<Rightarrow>
        length storage = length destination \<and>
        (if \<exists>res. length res \<le> length destination \<and> lz4_block source res
         then \<exists>res. lz4_block source res \<and> r = int (length res) \<and>
                storage = res @ drop (length res) destination
         else r = -1)
    | _ \<Rightarrow> False"
proof -
  obtain r storage where run: "decompress_block (Some source) (Some destination) (int (length source))
      (int (length destination)) False = Some (r, Some storage)" "length storage = length destination"
    and yes: "\<And>res ending. lz4_stream [] None source res ending \<and> length res \<le> length destination \<Longrightarrow>
       r = int (length res) \<and> storage = res @ drop (length res) destination"
    and no: "r = -1 \<or> (\<exists>res ending. lz4_stream [] None source res ending \<and>
       length res \<le> length destination)"
    using decompress_outcome [OF assms, of destination False] by (auto 4 0)
  show ?thesis
  proof (cases "\<exists>res. length res \<le> length destination \<and> lz4_block source res")
    case True
    then obtain res ending where "length res \<le> length destination" "lz4_block source res"
      "lz4_stream [] None source res ending" by (auto simp: lz4_block_def)
    with yes [of res ending] run True show ?thesis by (auto simp: lz4_decompress_safe_def)
  next
    case False
    then have "r = -1" using no by (auto simp: lz4_block_def)
    with False run show ?thesis by (simp add: lz4_decompress_safe_def)
  qed
qed

theorem lz4_safe_correct_witness:
  "case lz4_decompress_safe (Some [0x20, 7, 8]) (Some [0, 0, 9]) 3 3 of
     Some (r, Some storage) \<Rightarrow> length storage = 3 | _ \<Rightarrow> False"
  using lz4_safe_correct [of "[0x20, 7, 8]" "[0, 0, 9]"]
  by (auto split: option.splits prod.splits)

text \<open>A minimal encoder: the bytes as one literal run.\<close>

fun extension_bytes :: "nat \<Rightarrow> u8 list" where
  "extension_bytes n = (if n < 255 then [of_nat n] else 0xFF # extension_bytes (n - 255))"

definition stored_block :: "u8 list \<Rightarrow> u8 list" where
  "stored_block bytes =
     (if length bytes < 15 then of_nat (16 * length bytes) # bytes
      else 0xF0 # extension_bytes (length bytes - 15) @ bytes)"

declare extension_bytes.simps [simp del]

lemma extension_bytes_tail: "length_tail (extension_bytes n) n"
proof (induction n rule: extension_bytes.induct)
  case (1 n)
  show ?case
  proof (cases "n < 255")
    case True
    then have "unat (of_nat n :: u8) = n" by (simp add: unat_of_nat)
    with tail_last [of "of_nat n"] True show ?thesis by (subst extension_bytes.simps) simp
  next
    case False
    with 1 tail_more [of "0xFF" "extension_bytes (n - 255)" "n - 255"] show ?thesis
      by (subst extension_bytes.simps) simp
  qed
qed

lemma stored_block_stream: "lz4_stream [] None (stored_block bytes) bytes (Some (length bytes, None))"
proof (cases "length bytes < 15")
  case True
  then have "unat (of_nat (16 * length bytes) :: u8) = 16 * length bytes"
    unfolding unat_of_nat by simp
  then have "length_code (unat (of_nat (16 * length bytes) :: u8) div 16) [] (length bytes)"
    using True by (simp add: length_code_def)
  from stream_last [OF this, of "[]" None] True show ?thesis by (simp add: stored_block_def)
next
  case False
  then have "length_code (unat (0xF0 :: u8) div 16) (extension_bytes (length bytes - 15)) (length bytes)"
    using extension_bytes_tail [of "length bytes - 15"] by (auto simp: length_code_def)
  from stream_last [OF this, of "[]" None] False show ?thesis by (simp add: stored_block_def)
qed

text \<open>
  Storing any bytes as a literal run and decoding them, exactly or leniently
  into a buffer of their size, gives the bytes back.
\<close>

theorem lz4_stored_roundtrip:
  assumes "length (stored_block bytes) \<le> nat INT_MAX" and "length destination = length bytes"
  shows "lz4_decompress_exact (Some (stored_block bytes)) (Some destination)
      (int (length (stored_block bytes))) (int (length destination)) =
      Some (int (length bytes), Some bytes)"
proof -
  have "exact_ending (length destination) bytes (Some (length bytes, None))"
    using assms(2) by (simp add: exact_ending_def)
  with decompress_outcome [OF assms(1), of destination True] stored_block_stream [of bytes] assms(2)
  show ?thesis by (fastforce simp: lz4_decompress_exact_def)
qed

theorem lz4_stored_roundtrip_witness:
  "lz4_decompress_exact (Some [0x20, 7, 8]) (Some [0, 0]) 3 2 = Some (2, Some [7, 8])"
  using lz4_stored_roundtrip [of "[7, 8]" "[0, 0]"] by (simp add: stored_block_def)

end
