(* ===== verification/FilePrefix.thy ===== *)
theory FilePrefix
  imports Prelude
begin

text \<open>
  \<open>src/io/serialized_file_prefix.c\<close>: the physical header of a version 22 serialized file and
  the metadata prefix behind it, read from a mapped span under a work budget. Memory gives
  every address its byte and \<open>bytes + k\<close> is the address of byte \<open>k\<close> of the mapping. A query
  gives its result and the view it published, \<open>None\<close> where it left the output alone.
\<close>

section \<open>Model of the code\<close>

abbreviation SERIALIZED_FILE_V22_HEADER_SIZE :: u64 where "SERIALIZED_FILE_V22_HEADER_SIZE \<equiv> 48"
abbreviation SERIALIZED_FILE_PREFIX_NO_OFFSET :: u64 where
  "SERIALIZED_FILE_PREFIX_NO_OFFSET \<equiv> UINT64_MAX"

datatype SerializedFilePrefixStatus =
    SERIALIZED_FILE_PREFIX_OK
  | SERIALIZED_FILE_PREFIX_INVALID_ARGUMENT
  | SERIALIZED_FILE_PREFIX_UNSUPPORTED_VERSION
  | SERIALIZED_FILE_PREFIX_UNSUPPORTED_ENDIAN
  | SERIALIZED_FILE_PREFIX_MALFORMED_LAYOUT
  | SERIALIZED_FILE_PREFIX_INCOMPLETE_MAPPING
  | SERIALIZED_FILE_PREFIX_MALFORMED_METADATA
  | SERIALIZED_FILE_PREFIX_VERSION_LIMIT
  | SERIALIZED_FILE_PREFIX_WORK_LIMIT

record SerializedFilePrefixSpan =
  span_data :: pointer
  span_offset :: u64
  span_size :: u64

record SerializedFilePrefixRange =
  range_offset :: u64
  range_size :: u64

record SerializedFileHeaderView =
  header_source :: SerializedFilePrefixSpan
  legacy_metadata_size_source :: SerializedFilePrefixSpan
  legacy_file_size_source :: SerializedFilePrefixSpan
  format_version_source :: SerializedFilePrefixSpan
  legacy_data_offset_source :: SerializedFilePrefixSpan
  metadata_size_source :: SerializedFilePrefixSpan
  file_size_source :: SerializedFilePrefixSpan
  data_offset_source :: SerializedFilePrefixSpan
  endian_selector_source :: SerializedFilePrefixSpan
  opaque_source :: SerializedFilePrefixSpan
  format_version :: u32
  metadata_size :: u64
  file_size :: u64
  data_offset :: u64
  endian_selector :: u8
  metadata_range :: SerializedFilePrefixRange
  metadata_to_data_gap :: SerializedFilePrefixRange
  data_range :: SerializedFilePrefixRange

record SerializedFilePrefixView =
  header :: SerializedFileHeaderView
  metadata_prefix_source :: SerializedFilePrefixSpan
  version_source :: SerializedFilePrefixSpan
  version_terminator_source :: SerializedFilePrefixSpan
  target_platform_source :: SerializedFilePrefixSpan
  type_tree_source :: SerializedFilePrefixSpan
  target_platform :: u32
  type_tree_enabled_raw :: u8
  remaining_metadata :: SerializedFilePrefixRange

text \<open>The sizes of the published structures and of the limits.\<close>

abbreviation sizeof_header_view :: u64 where "sizeof_header_view \<equiv> 328"
abbreviation sizeof_prefix_view :: u64 where "sizeof_prefix_view \<equiv> 472"
abbreviation sizeof_prefix_limits :: u64 where "sizeof_prefix_limits \<equiv> 16"

record SerializedFilePrefixLimits =
  max_version_bytes :: u64
  max_prefix_work :: u64

record SerializedFilePrefixResult =
  prefix_status :: SerializedFilePrefixStatus
  prefix_work_used :: u64
  prefix_error_offset :: u64

record PrefixWork =
  maximum :: u64
  used :: u64

definition query_result ::
    "SerializedFilePrefixStatus \<Rightarrow> u64 \<Rightarrow> u64 \<Rightarrow> SerializedFilePrefixResult" where
  "query_result status work_used error_offset =
     \<lparr>prefix_status = status, prefix_work_used = work_used, prefix_error_offset = error_offset\<rparr>"

text \<open>\<open>charge_work\<close>: \<open>None\<close> is the refusal, which charges nothing.\<close>

definition charge_work :: "u64 \<Rightarrow> PrefixWork \<Rightarrow> PrefixWork option" where
  "charge_work amount work =
     (if amount > maximum work - used work then None else Some (work\<lparr>used := used work + amount\<rparr>))"

definition storage_overlaps :: "pointer \<Rightarrow> u64 \<Rightarrow> pointer \<Rightarrow> u64 \<Rightarrow> bool" where
  "storage_overlaps first_address first_size second_address second_size =
     (if first_size = 0 \<or> second_size = 0 then False
      else if first_address \<le> second_address
      then second_address - first_address < first_size
      else first_address - second_address < second_size)"

definition valid_mapping_argument :: "pointer \<Rightarrow> u64 \<Rightarrow> u64 \<Rightarrow> pointer \<Rightarrow> u64 \<Rightarrow> bool" where
  "valid_mapping_argument bytes mapped_size logical_size out_address out_size \<longleftrightarrow>
     out_address \<noteq> 0 \<and> (bytes \<noteq> 0 \<or> mapped_size = 0) \<and> mapped_size \<le> logical_size \<and>
     \<not> storage_overlaps bytes mapped_size out_address out_size"

definition read_be32 :: "memory \<Rightarrow> pointer \<Rightarrow> u32" where
  "read_be32 mem bytes =
     push_bit 24 (ucast (mem bytes)) OR push_bit 16 (ucast (mem (bytes + 1))) OR
     push_bit 8 (ucast (mem (bytes + 2))) OR ucast (mem (bytes + 3))"

definition read_be64 :: "memory \<Rightarrow> pointer \<Rightarrow> u64" where
  "read_be64 mem bytes =
     push_bit 32 (ucast (read_be32 mem bytes)) OR ucast (read_be32 mem (bytes + 4))"

definition read_target_platform :: "memory \<Rightarrow> pointer \<Rightarrow> u8 \<Rightarrow> u32" where
  "read_target_platform mem bytes selector =
     (if selector = 1 then read_be32 mem bytes
      else ucast (mem bytes) OR push_bit 8 (ucast (mem (bytes + 1))) OR
           push_bit 16 (ucast (mem (bytes + 2))) OR push_bit 24 (ucast (mem (bytes + 3))))"

definition mapped_span :: "pointer \<Rightarrow> u64 \<Rightarrow> u64 \<Rightarrow> SerializedFilePrefixSpan" where
  "mapped_span bytes offset amount =
     \<lparr>span_data = bytes + offset, span_offset = offset, span_size = amount\<rparr>"

text \<open>The view published for a header that passed its checks.\<close>

definition fill_header ::
    "pointer \<Rightarrow> u32 \<Rightarrow> u64 \<Rightarrow> u64 \<Rightarrow> u64 \<Rightarrow> u8 \<Rightarrow> u64 \<Rightarrow> SerializedFileHeaderView" where
  "fill_header bytes version meta file data selector metadata_end =
     \<lparr>header_source = mapped_span bytes 0 SERIALIZED_FILE_V22_HEADER_SIZE,
      legacy_metadata_size_source = mapped_span bytes 0 4,
      legacy_file_size_source = mapped_span bytes 4 4,
      format_version_source = mapped_span bytes 8 4,
      legacy_data_offset_source = mapped_span bytes 12 4,
      metadata_size_source = mapped_span bytes 16 8,
      file_size_source = mapped_span bytes 24 8,
      data_offset_source = mapped_span bytes 32 8,
      endian_selector_source = mapped_span bytes 40 1,
      opaque_source = mapped_span bytes 41 7,
      format_version = version,
      metadata_size = meta,
      file_size = file,
      data_offset = data,
      endian_selector = selector,
      metadata_range = \<lparr>range_offset = SERIALIZED_FILE_V22_HEADER_SIZE, range_size = meta\<rparr>,
      metadata_to_data_gap =
        \<lparr>range_offset = metadata_end, range_size = data - metadata_end\<rparr>,
      data_range = \<lparr>range_offset = data, range_size = file - data\<rparr>\<rparr>"

text \<open>The checks of the header in their order; \<open>Inr\<close> carries the view and the work left.\<close>

definition query_header ::
    "memory \<Rightarrow> pointer \<Rightarrow> u64 \<Rightarrow> u64 \<Rightarrow> PrefixWork \<Rightarrow>
     SerializedFilePrefixResult + (SerializedFileHeaderView \<times> PrefixWork)" where
  "query_header mem bytes mapped_size logical_size work =
     (if logical_size < SERIALIZED_FILE_V22_HEADER_SIZE
      then Inl (query_result SERIALIZED_FILE_PREFIX_MALFORMED_LAYOUT (used work) logical_size)
      else if mapped_size < SERIALIZED_FILE_V22_HEADER_SIZE
      then Inl (query_result SERIALIZED_FILE_PREFIX_INCOMPLETE_MAPPING (used work) mapped_size)
      else
        (case charge_work SERIALIZED_FILE_V22_HEADER_SIZE work of
           None \<Rightarrow> Inl (query_result SERIALIZED_FILE_PREFIX_WORK_LIMIT (used work) 0)
         | Some work \<Rightarrow>
             (let version = read_be32 mem (bytes + 8);
                  selector = mem (bytes + 40);
                  meta = read_be64 mem (bytes + 16);
                  file = read_be64 mem (bytes + 24);
                  data = read_be64 mem (bytes + 32);
                  metadata_end = SERIALIZED_FILE_V22_HEADER_SIZE + meta
              in if version \<noteq> 22
                 then Inl (query_result SERIALIZED_FILE_PREFIX_UNSUPPORTED_VERSION (used work) 8)
                 else if selector > 1
                 then Inl (query_result SERIALIZED_FILE_PREFIX_UNSUPPORTED_ENDIAN (used work) 40)
                 else if file \<noteq> logical_size
                 then Inl (query_result SERIALIZED_FILE_PREFIX_MALFORMED_LAYOUT (used work) 24)
                 else if data > file
                 then Inl (query_result SERIALIZED_FILE_PREFIX_MALFORMED_LAYOUT (used work) 32)
                 else if meta > UINT64_MAX - SERIALIZED_FILE_V22_HEADER_SIZE
                 then Inl (query_result SERIALIZED_FILE_PREFIX_MALFORMED_LAYOUT (used work) 16)
                 else if metadata_end > data
                 then Inl (query_result SERIALIZED_FILE_PREFIX_MALFORMED_LAYOUT (used work) 16)
                 else
                   Inr (fill_header bytes version meta file data selector metadata_end, work))))"

definition require_metadata_bytes ::
    "u64 \<Rightarrow> u64 \<Rightarrow> u64 \<Rightarrow> u64 \<Rightarrow> u64 \<Rightarrow> SerializedFilePrefixResult" where
  "require_metadata_bytes cursor field_size metadata_end mapped_size work_used =
     (if cursor > metadata_end \<or> field_size > metadata_end - cursor
      then query_result SERIALIZED_FILE_PREFIX_MALFORMED_METADATA work_used metadata_end
      else if cursor > mapped_size \<or> field_size > mapped_size - cursor
      then query_result SERIALIZED_FILE_PREFIX_INCOMPLETE_MAPPING work_used mapped_size
      else query_result SERIALIZED_FILE_PREFIX_OK work_used SERIALIZED_FILE_PREFIX_NO_OFFSET)"

definition serialized_file_header_query ::
    "memory \<Rightarrow> pointer \<Rightarrow> u64 \<Rightarrow> u64 \<Rightarrow> u64 \<Rightarrow> pointer \<Rightarrow>
     SerializedFilePrefixResult \<times> SerializedFileHeaderView option" where
  "serialized_file_header_query mem mapped_prefix mapped_size logical_size max_work out_header =
     (if \<not> valid_mapping_argument mapped_prefix mapped_size logical_size out_header sizeof_header_view
      then (query_result SERIALIZED_FILE_PREFIX_INVALID_ARGUMENT 0 SERIALIZED_FILE_PREFIX_NO_OFFSET, None)
      else
        (case query_header mem mapped_prefix mapped_size logical_size \<lparr>maximum = max_work, used = 0\<rparr> of
           Inl result \<Rightarrow> (result, None)
         | Inr (view, work) \<Rightarrow>
             (case charge_work 1 work of
                None \<Rightarrow> (query_result SERIALIZED_FILE_PREFIX_WORK_LIMIT (used work)
                           SERIALIZED_FILE_PREFIX_NO_OFFSET, None)
              | Some work \<Rightarrow> (query_result SERIALIZED_FILE_PREFIX_OK (used work)
                                SERIALIZED_FILE_PREFIX_NO_OFFSET, Some view))))"

text \<open>The version scan: the cursor at the terminator, the bytes before it and the work left.\<close>

function scan_version ::
    "memory \<Rightarrow> pointer \<Rightarrow> u64 \<Rightarrow> u64 \<Rightarrow> u64 \<Rightarrow> u64 \<Rightarrow> u64 \<Rightarrow> PrefixWork \<Rightarrow>
     SerializedFilePrefixResult + (u64 \<times> u64 \<times> PrefixWork)" where
  "scan_version mem mapped_prefix mapped_size metadata_end max_version cursor version_size work =
     (let result = require_metadata_bytes cursor 1 metadata_end mapped_size (used work) in
      if prefix_status result \<noteq> SERIALIZED_FILE_PREFIX_OK then Inl result
      else if version_size \<ge> max_version
      then Inl (query_result SERIALIZED_FILE_PREFIX_VERSION_LIMIT (used work) cursor)
      else
        (case charge_work 1 work of
           None \<Rightarrow> Inl (query_result SERIALIZED_FILE_PREFIX_WORK_LIMIT (used work) cursor)
         | Some work \<Rightarrow>
             if mem (mapped_prefix + cursor) = 0 then Inr (cursor, version_size, work)
             else scan_version mem mapped_prefix mapped_size metadata_end max_version
                    (cursor + 1) (version_size + 1) work))"
  by pat_completeness auto

lemma require_ok_iff:
  "prefix_status (require_metadata_bytes cursor field_size metadata_end mapped_size w) =
     SERIALIZED_FILE_PREFIX_OK \<longleftrightarrow>
   unat cursor + unat field_size \<le> unat metadata_end \<and> unat cursor + unat field_size \<le> unat mapped_size"
  by (auto simp: require_metadata_bytes_def query_result_def word_to_nat not_less le_diff_conv2)

termination scan_version
proof (relation "measure (\<lambda>(mem, p, mapped, metadata_end, max_version, cursor, rest).
    unat metadata_end - unat cursor)", goal_cases)
  case (2 mem p mapped metadata_end max_version cursor version_size work result work')
  then have "unat cursor + 1 \<le> unat metadata_end" using require_ok_iff by fastforce
  moreover from this have "unat (cursor + 1) = unat cursor + 1"
    using u64_bound [of metadata_end] by (subst unat_add_fits) simp_all
  ultimately show ?case by simp
qed simp

declare scan_version.simps [simp del]

definition serialized_file_prefix_query ::
    "memory \<Rightarrow> pointer \<Rightarrow> u64 \<Rightarrow> u64 \<Rightarrow> pointer \<Rightarrow> SerializedFilePrefixLimits \<Rightarrow> pointer \<Rightarrow>
     SerializedFilePrefixResult \<times> SerializedFilePrefixView option" where
  "serialized_file_prefix_query mem mapped_prefix mapped_size logical_size limits_address limits out_prefix =
     (if limits_address = 0 \<or>
         \<not> valid_mapping_argument mapped_prefix mapped_size logical_size out_prefix sizeof_prefix_view \<or>
         storage_overlaps limits_address sizeof_prefix_limits out_prefix sizeof_prefix_view
      then (query_result SERIALIZED_FILE_PREFIX_INVALID_ARGUMENT 0 SERIALIZED_FILE_PREFIX_NO_OFFSET, None)
      else
        (case query_header mem mapped_prefix mapped_size logical_size
                \<lparr>maximum = max_prefix_work limits, used = 0\<rparr> of
           Inl result \<Rightarrow> (result, None)
         | Inr (view, work) \<Rightarrow>
             (let metadata_end = range_offset (metadata_to_data_gap view) in
              case scan_version mem mapped_prefix mapped_size metadata_end (max_version_bytes limits)
                     SERIALIZED_FILE_V22_HEADER_SIZE 0 work of
                Inl result \<Rightarrow> (result, None)
              | Inr (terminator, version_size, work) \<Rightarrow>
                  (let cursor = terminator + 1;
                       result = require_metadata_bytes cursor 4 metadata_end mapped_size (used work)
                   in if prefix_status result \<noteq> SERIALIZED_FILE_PREFIX_OK then (result, None)
                      else
                        (case charge_work 4 work of
                           None \<Rightarrow> (query_result SERIALIZED_FILE_PREFIX_WORK_LIMIT (used work) cursor, None)
                         | Some work \<Rightarrow>
                             (let tree = cursor + 4;
                                  result = require_metadata_bytes tree 1 metadata_end mapped_size (used work)
                              in if prefix_status result \<noteq> SERIALIZED_FILE_PREFIX_OK then (result, None)
                                 else
                                   (case charge_work 1 work of
                                      None \<Rightarrow> (query_result SERIALIZED_FILE_PREFIX_WORK_LIMIT (used work) tree,
                                                None)
                                    | Some work \<Rightarrow>
                                        (let rest = tree + 1 in
                                         case charge_work 1 work of
                                           None \<Rightarrow> (query_result SERIALIZED_FILE_PREFIX_WORK_LIMIT
                                                      (used work) SERIALIZED_FILE_PREFIX_NO_OFFSET, None)
                                         | Some work \<Rightarrow>
                                             (query_result SERIALIZED_FILE_PREFIX_OK (used work)
                                                SERIALIZED_FILE_PREFIX_NO_OFFSET,
                                              Some
                                                \<lparr>header = view,
                                                 metadata_prefix_source =
                                                   mapped_span mapped_prefix SERIALIZED_FILE_V22_HEADER_SIZE
                                                     (rest - SERIALIZED_FILE_V22_HEADER_SIZE),
                                                 version_source =
                                                   mapped_span mapped_prefix SERIALIZED_FILE_V22_HEADER_SIZE
                                                     version_size,
                                                 version_terminator_source =
                                                   mapped_span mapped_prefix terminator 1,
                                                 target_platform_source = mapped_span mapped_prefix cursor 4,
                                                 type_tree_source = mapped_span mapped_prefix tree 1,
                                                 target_platform =
                                                   read_target_platform mem (mapped_prefix + cursor)
                                                     (endian_selector view),
                                                 type_tree_enabled_raw = mem (mapped_prefix + tree),
                                                 remaining_metadata =
                                                   \<lparr>range_offset = rest,
                                                    range_size = metadata_end - rest\<rparr>\<rparr>)))))))))"

section \<open>Fields\<close>

text \<open>The bytes of the mapping, and the number a big-endian or little-endian field holds.\<close>

definition mapped_bytes :: "memory \<Rightarrow> pointer \<Rightarrow> nat \<Rightarrow> nat \<Rightarrow> u8 list" where
  "mapped_bytes mem base at n = map (\<lambda>k. mem (base + of_nat (at + k))) [0..<n]"

definition be_value :: "u8 list \<Rightarrow> nat" where
  "be_value bytes = foldl (\<lambda>acc b. 256 * acc + unat b) 0 bytes"

lemma be_value_4:
  "unat (push_bit 24 (ucast a) OR push_bit 16 (ucast b) OR push_bit 8 (ucast c) OR ucast d :: u32) =
     be_value [a, b, c, d]"
proof -
  have byte: "unat (ucast x :: u32) = unat x" for x :: u8 by (rule unat_widen) simp
  have b: "unat (x :: u8) \<le> 255" for x using byte_bound [of x] by linarith
  have low: "unat (push_bit 8 (ucast c) OR ucast d :: u32) = unat c * 2 ^ 8 + unat d"
    using b [of c] b [of d] by (subst unat_push_or) (simp_all add: byte)
  have mid: "unat (push_bit 16 (ucast b) OR push_bit 8 (ucast c) OR ucast d :: u32) =
      unat b * 2 ^ 16 + (unat c * 2 ^ 8 + unat d)"
    using b [of b] b [of c] b [of d] low
    by (subst unat_push_or) (simp_all add: byte)
  have "unat (push_bit 24 (ucast a) OR push_bit 16 (ucast b) OR push_bit 8 (ucast c) OR ucast d :: u32) =
      unat a * 2 ^ 24 + (unat b * 2 ^ 16 + (unat c * 2 ^ 8 + unat d))"
    using b [of a] b [of b] b [of c] b [of d] mid
    by (subst unat_push_or) (simp_all add: byte)
  then show ?thesis by (simp add: be_value_def)
qed

lemma read_be32_value: "unat (read_be32 mem a) = be_value (mapped_bytes mem a 0 4)"
  unfolding read_be32_def be_value_4 by (simp add: mapped_bytes_def upt_rec)

lemma be_value_append: "be_value (xs @ ys) = be_value xs * 256 ^ length ys + be_value ys"
proof (induction ys rule: rev_induct)
  case (snoc y ys)
  have "be_value (zs @ [y]) = 256 * be_value zs + unat y" for zs by (simp add: be_value_def)
  with snoc show ?case by (simp add: append_assoc [symmetric] algebra_simps del: append_assoc)
qed (simp add: be_value_def)

lemma read_be64_value: "unat (read_be64 mem a) = be_value (mapped_bytes mem a 0 8)"
proof -
  let ?hi = "read_be32 mem a" and ?lo = "read_be32 mem (a + 4)"
  have wide: "unat (ucast (x :: u32) :: u64) = unat x" for x by (rule unat_widen) simp
  have bound: "unat (x :: u32) < 2 ^ 32" for x using unsigned_less [of x] by simp
  have "unat (read_be64 mem a) = unat ?hi * 2 ^ 32 + unat ?lo"
    unfolding read_be64_def using bound [of ?hi] bound [of ?lo]
    by (subst unat_push_or) (simp_all add: wide)
  moreover have "mapped_bytes mem a 0 8 = mapped_bytes mem a 0 4 @ mapped_bytes mem (a + 4) 0 4"
    by (simp add: mapped_bytes_def upt_rec add.assoc)
  moreover have "length (mapped_bytes mem (a + 4) 0 4) = 4" by (simp add: mapped_bytes_def)
  ultimately show ?thesis by (simp add: be_value_append read_be32_value)
qed

lemma read_target_value:
  "unat (read_target_platform mem a selector) =
     be_value (if selector = 1 then mapped_bytes mem a 0 4 else rev (mapped_bytes mem a 0 4))"
proof (cases "selector = 1")
  case True
  then show ?thesis by (simp add: read_target_platform_def read_be32_value)
next
  case False
  then have "read_target_platform mem a selector =
      push_bit 24 (ucast (mem (a + 3))) OR push_bit 16 (ucast (mem (a + 2))) OR
      push_bit 8 (ucast (mem (a + 1))) OR ucast (mem a)"
    by (simp add: read_target_platform_def or.commute or.left_commute)
  then have "unat (read_target_platform mem a selector) =
      be_value [mem (a + 3), mem (a + 2), mem (a + 1), mem a]"
    using be_value_4 by simp
  then show ?thesis using False by (simp add: mapped_bytes_def upt_rec)
qed

lemma mapped_bytes_shift: "mapped_bytes mem (base + of_nat k) at n = mapped_bytes mem base (k + at) n"
  by (simp add: mapped_bytes_def add.assoc)

definition header_field :: "memory \<Rightarrow> pointer \<Rightarrow> nat \<Rightarrow> nat \<Rightarrow> nat" where
  "header_field mem base at n = be_value (mapped_bytes mem base at n)"

lemma header_fields:
  "unat (read_be32 mem (base + 8)) = header_field mem base 8 4"
  "unat (read_be64 mem (base + 16)) = header_field mem base 16 8"
  "unat (read_be64 mem (base + 24)) = header_field mem base 24 8"
  "unat (read_be64 mem (base + 32)) = header_field mem base 32 8"
  using mapped_bytes_shift [of mem base 8 0] mapped_bytes_shift [of mem base 16 0]
    mapped_bytes_shift [of mem base 24 0] mapped_bytes_shift [of mem base 32 0]
  by (simp_all add: read_be32_value read_be64_value header_field_def)

section \<open>The header\<close>

text \<open>What a header must hold: the grammar of the fixed 48 bytes, over natural numbers.\<close>

definition header_wellformed :: "memory \<Rightarrow> pointer \<Rightarrow> nat \<Rightarrow> bool" where
  "header_wellformed mem base n \<longleftrightarrow>
     48 \<le> n \<and> header_field mem base 8 4 = 22 \<and> unat (mem (base + 40)) \<le> 1 \<and>
     header_field mem base 24 8 = n \<and>
     48 + header_field mem base 16 8 \<le> header_field mem base 32 8 \<and>
     header_field mem base 32 8 \<le> n"

text \<open>The view describes that header, and its ranges tile the file behind the header.\<close>

definition header_describes :: "memory \<Rightarrow> pointer \<Rightarrow> nat \<Rightarrow> SerializedFileHeaderView \<Rightarrow> bool" where
  "header_describes mem base n view \<longleftrightarrow>
     unat (metadata_size view) = header_field mem base 16 8 \<and>
     unat (file_size view) = n \<and> unat (data_offset view) = header_field mem base 32 8 \<and>
     unat (format_version view) = 22 \<and> endian_selector view = mem (base + 40) \<and>
     unat (range_offset (metadata_range view)) = 48 \<and>
     unat (range_size (metadata_range view)) = header_field mem base 16 8 \<and>
     unat (range_offset (metadata_to_data_gap view)) = 48 + header_field mem base 16 8 \<and>
     unat (range_offset (metadata_to_data_gap view)) + unat (range_size (metadata_to_data_gap view)) =
       unat (range_offset (data_range view)) \<and>
     unat (range_offset (data_range view)) = header_field mem base 32 8 \<and>
     unat (range_offset (data_range view)) + unat (range_size (data_range view)) = n"

lemma charge_work_some:
  assumes "used work \<le> maximum work"
  shows "charge_work amount work =
    (if unat (used work) + unat amount \<le> unat (maximum work)
     then Some (work\<lparr>used := used work + amount\<rparr>) else None)"
    and "unat (used work) + unat amount \<le> unat (maximum work) \<Longrightarrow>
      unat (used work + amount) = unat (used work) + unat amount"
  using charge_iff [OF assms, of amount] charge_value [OF assms, of amount]
  by (auto simp: charge_work_def)

lemma query_header_outcome:
  assumes "used work = 0"
  shows "case query_header mem base mapped_size logical_size work of
      Inl r \<Rightarrow> prefix_status r \<noteq> SERIALIZED_FILE_PREFIX_OK \<and> unat (prefix_work_used r) \<le> unat (maximum work) \<and>
        \<not> (48 \<le> unat mapped_size \<and> 48 \<le> unat (maximum work) \<and> header_wellformed mem base (unat logical_size))
    | Inr (view, work') \<Rightarrow>
        48 \<le> unat mapped_size \<and> 48 \<le> unat (maximum work) \<and> header_wellformed mem base (unat logical_size) \<and>
        work' = work\<lparr>used := 48\<rparr> \<and> header_describes mem base (unat logical_size) view"
proof -
  have zero: "used work \<le> maximum work" using assms by simp
  have charged: "charge_work 48 work =
      (if 48 \<le> unat (maximum work) then Some (work\<lparr>used := 48\<rparr>) else None)"
    using charge_work_some(1) [OF zero, of 48] assms by simp
  let ?meta = "read_be64 mem (base + 16)"
  have version: "read_be32 mem (base + 8) = 22 \<longleftrightarrow> header_field mem base 8 4 = 22"
    unfolding header_fields(1) [symmetric] word_unat_eq_iff [of _ 22] by simp
  have extent: "read_be64 mem (base + 24) = logical_size \<longleftrightarrow> header_field mem base 24 8 = unat logical_size"
    unfolding header_fields(3) [symmetric] by (rule word_unat_eq_iff)
  have small: "(?meta > UINT64_MAX - 48) = (header_field mem base 16 8 > 18446744073709551567)"
    unfolding header_fields(2) [symmetric] by (simp add: word_less_nat_alt)
  have sum: "unat (48 + ?meta) = 48 + header_field mem base 16 8"
    if "header_field mem base 16 8 \<le> 18446744073709551567"
    using that unfolding header_fields(2) [symmetric] by (subst unat_add_fits) simp_all
  have field_bound: "header_field mem base 32 8 < 2 ^ 64"
    unfolding header_fields(4) [symmetric] by (rule u64_bound)
  have past: "(48 + ?meta > read_be64 mem (base + 32)) =
      (header_field mem base 32 8 < 48 + header_field mem base 16 8)"
    if "header_field mem base 16 8 \<le> 18446744073709551567"
    unfolding word_less_nat_alt sum [OF that] header_fields(4) ..
  have beyond: "(read_be64 mem (base + 32) > read_be64 mem (base + 24)) =
      (header_field mem base 24 8 < header_field mem base 32 8)"
    unfolding word_less_nat_alt header_fields(3,4) ..
  have selector: "(mem (base + 40) > 1) = (\<not> unat (mem (base + 40)) \<le> 1)"
    by (simp add: word_less_nat_alt not_le)
  note reduce = query_header_def Let_def query_result_def header_wellformed_def charged version extent
    beyond selector small
  show ?thesis
  proof (cases "48 \<le> unat logical_size \<and> 48 \<le> unat mapped_size \<and> 48 \<le> unat (maximum work) \<and>
      header_field mem base 8 4 = 22 \<and> unat (mem (base + 40)) \<le> 1 \<and>
      header_field mem base 24 8 = unat logical_size \<and> header_field mem base 32 8 \<le> unat logical_size \<and>
      header_field mem base 16 8 \<le> 18446744073709551567")
    case False
    have "\<not> header_field mem base 16 8 \<le> 18446744073709551567 \<Longrightarrow>
        \<not> 48 + header_field mem base 16 8 \<le> header_field mem base 32 8"
      using field_bound by simp
    with False show ?thesis
      using assms unfolding reduce by (auto simp: word_less_nat_alt)
  next
    case True
    then have all: "48 \<le> unat logical_size" "48 \<le> unat mapped_size" "48 \<le> unat (maximum work)"
      "header_field mem base 8 4 = 22" "unat (mem (base + 40)) \<le> 1"
      "header_field mem base 24 8 = unat logical_size" "header_field mem base 32 8 \<le> unat logical_size"
      and room: "header_field mem base 16 8 \<le> 18446744073709551567" by simp_all
    show ?thesis
    proof (cases "header_field mem base 32 8 < 48 + header_field mem base 16 8")
      case True
      then show ?thesis
        unfolding reduce past [OF room] using all room by (simp add: word_less_nat_alt)
    next
      case False
      have same: "read_be64 mem (base + 24) = logical_size" and "read_be32 mem (base + 8) = 22"
        using extent version all by simp_all
      have "header_describes mem base (unat logical_size) (fill_header base 22 ?meta logical_size
          (read_be64 mem (base + 32)) (mem (base + 40)) (48 + ?meta))"
        unfolding header_describes_def fill_header_def
        using all room False sum [OF room] header_fields
        by (simp add: word_le_nat_alt)
      then show ?thesis
        unfolding reduce past [OF room] using all room False same \<open>read_be32 mem (base + 8) = 22\<close>
        by (simp add: word_less_nat_alt)
    qed
  qed
qed

section \<open>The version scan\<close>

text \<open>The version is the \<open>n\<close> bytes before the first zero byte from position \<open>at\<close> on.\<close>

definition terminated_at :: "memory \<Rightarrow> pointer \<Rightarrow> nat \<Rightarrow> nat \<Rightarrow> bool" where
  "terminated_at mem base at n \<longleftrightarrow>
     0 \<notin> set (mapped_bytes mem base at n) \<and> mem (base + of_nat (at + n)) = 0"

lemma mapped_bytes_Suc: "mapped_bytes mem base at (Suc n) = mem (base + of_nat at) # mapped_bytes mem base (Suc at) n"
proof -
  have "[0..<Suc n] = 0 # map Suc [0..<n]"
    by (simp add: map_Suc_upt upt_conv_Cons del: upt_Suc)
  then show ?thesis by (simp add: mapped_bytes_def add.left_commute del: upt_Suc)
qed

lemma terminated_at_here: "mem (base + of_nat at) = 0 \<Longrightarrow> terminated_at mem base at n \<longleftrightarrow> n = 0"
  by (cases n) (auto simp: terminated_at_def mapped_bytes_Suc mapped_bytes_def [of _ _ _ 0])

lemma terminated_at_later:
  "mem (base + of_nat at) \<noteq> 0 \<Longrightarrow>
     terminated_at mem base at n \<longleftrightarrow> (\<exists>m. n = Suc m \<and> terminated_at mem base (Suc at) m)"
  by (cases n) (auto simp: terminated_at_def mapped_bytes_Suc)

lemma terminated_unique:
  "terminated_at mem base at n \<Longrightarrow> terminated_at mem base at m \<Longrightarrow> m = n"
proof (induction n arbitrary: at m)
  case 0
  then have "mem (base + of_nat at) = 0" by (simp add: terminated_at_def)
  from terminated_at_here [of mem base at m] this 0(2) show ?case by blast
next
  case (Suc n)
  then have "mem (base + of_nat at) \<noteq> 0" by (auto simp: terminated_at_def mapped_bytes_Suc)
  from terminated_at_later [of mem base at] this Suc show ?case by blast
qed

definition scan_fits :: "u64 \<Rightarrow> u64 \<Rightarrow> u64 \<Rightarrow> nat \<Rightarrow> nat \<Rightarrow> PrefixWork \<Rightarrow> nat \<Rightarrow> bool" where
  "scan_fits mapped_size metadata_end max_version at seen work n \<longleftrightarrow>
     at + n + 1 \<le> unat metadata_end \<and> at + n + 1 \<le> unat mapped_size \<and>
     seen + n < unat max_version \<and> unat (used work) + n + 1 \<le> unat (maximum work)"

lemma scan_version_outcome:
  "used work \<le> maximum work \<Longrightarrow> unat version_size \<le> unat cursor \<Longrightarrow>
    case scan_version mem base mapped_size metadata_end max_version cursor version_size work of
      Inl r \<Rightarrow> prefix_status r \<noteq> SERIALIZED_FILE_PREFIX_OK \<and> unat (prefix_work_used r) \<le> unat (maximum work) \<and>
        \<not> (\<exists>n. terminated_at mem base (unat cursor) n \<and>
             scan_fits mapped_size metadata_end max_version (unat cursor) (unat version_size) work n)
    | Inr (terminator, size', work') \<Rightarrow>
        \<exists>n. terminated_at mem base (unat cursor) n \<and>
          scan_fits mapped_size metadata_end max_version (unat cursor) (unat version_size) work n \<and>
          unat terminator = unat cursor + n \<and> unat size' = unat version_size + n \<and>
          maximum work' = maximum work \<and> unat (used work') = unat (used work) + n + 1"
proof (induction mem base mapped_size metadata_end max_version cursor version_size work
    rule: scan_version.induct)
  case (1 mem base mapped_size metadata_end max_version cursor version_size work)
  note unroll = scan_version.simps [of mem base mapped_size metadata_end max_version cursor version_size work]
  let ?result = "require_metadata_bytes cursor 1 metadata_end mapped_size (used work)"
  show ?case
  proof (cases "prefix_status ?result = SERIALIZED_FILE_PREFIX_OK \<and> version_size < max_version \<and>
      unat (used work) + 1 \<le> unat (maximum work)")
    case False
    have "prefix_work_used ?result = used work"
      by (simp add: require_metadata_bytes_def query_result_def)
    moreover have "unat (used work) \<le> unat (maximum work)" using "1.prems"(1) by (simp add: word_le_nat_alt)
    moreover have "\<not> scan_fits mapped_size metadata_end max_version (unat cursor) (unat version_size) work n" for n
      using False require_ok_iff [of cursor 1 metadata_end mapped_size "used work"]
      by (auto simp: scan_fits_def word_less_nat_alt)
    ultimately show ?thesis
      using False charge_work_some(1) [OF "1.prems"(1), of 1]
      unfolding unroll by (auto simp: Let_def query_result_def not_less)
  next
    case True
    let ?work = "work\<lparr>used := used work + 1\<rparr>"
    have ok: "unat cursor + 1 \<le> unat metadata_end" "unat cursor + 1 \<le> unat mapped_size"
      using True require_ok_iff [of cursor 1 metadata_end mapped_size "used work"] by simp_all
    have charged: "charge_work 1 work = Some ?work" "unat (used work + 1) = unat (used work) + 1"
      using charge_work_some [OF "1.prems"(1), of 1] True by simp_all
    have next_cursor: "unat (cursor + 1) = unat cursor + 1"
      using ok u64_bound [of metadata_end] by (subst unat_add_fits) simp_all
    have next_size: "unat (version_size + 1) = unat version_size + 1"
      using True u64_bound [of max_version] by (subst unat_add_fits) (simp_all add: word_less_nat_alt)
    have here: "mem (base + cursor) = mem (base + of_nat (unat cursor))" by simp
    have status: "\<not> prefix_status ?result \<noteq> SERIALIZED_FILE_PREFIX_OK" and small: "\<not> max_version \<le> version_size"
      using True by (simp_all add: not_le)
    show ?thesis
    proof (cases "mem (base + cursor) = 0")
      case zero: True
      then have run: "scan_version mem base mapped_size metadata_end max_version cursor version_size work =
          Inr (cursor, version_size, ?work)"
        using True charged small unfolding unroll by (simp add: Let_def)
      have "terminated_at mem base (unat cursor) 0"
        using zero terminated_at_here [of mem base "unat cursor" 0] by simp
      moreover have "scan_fits mapped_size metadata_end max_version (unat cursor) (unat version_size) work 0"
        using True ok by (simp add: scan_fits_def word_less_nat_alt)
      ultimately show ?thesis
        unfolding run sum.case prod.case using charged(2) by (intro exI [of _ 0]) simp
    next
      case False
      have le: "used ?work \<le> maximum ?work" and sizes: "unat (version_size + 1) \<le> unat (cursor + 1)"
        using True charged next_cursor next_size "1.prems" by (simp_all add: word_le_nat_alt)
      have run: "scan_version mem base mapped_size metadata_end max_version cursor version_size work =
          scan_version mem base mapped_size metadata_end max_version (cursor + 1) (version_size + 1) ?work"
        using True charged False small unfolding unroll by (simp add: Let_def)
      have fits: "scan_fits mapped_size metadata_end max_version (unat cursor) (unat version_size) work (Suc m) \<longleftrightarrow>
          scan_fits mapped_size metadata_end max_version (unat (cursor + 1)) (unat (version_size + 1)) ?work m" for m
        using next_cursor next_size charged by (auto simp: scan_fits_def)
      have moved: "terminated_at mem base (unat cursor) n \<longleftrightarrow>
          (\<exists>m. n = Suc m \<and> terminated_at mem base (unat (cursor + 1)) m)" for n
        using terminated_at_later [of mem base "unat cursor" n] False next_cursor by simp
      note IH = "1.IH" [OF refl status small charged(1) False le sizes]
      show ?thesis
      proof (cases "scan_version mem base mapped_size metadata_end max_version (cursor + 1) (version_size + 1) ?work")
        case (Inl r)
        with IH show ?thesis unfolding run using moved fits by auto
      next
        case (Inr triple)
        obtain terminator size' work' where triple: "triple = (terminator, size', work')"
          by (cases triple)
        obtain m where m: "terminated_at mem base (unat (cursor + 1)) m"
          "scan_fits mapped_size metadata_end max_version (unat (cursor + 1)) (unat (version_size + 1)) ?work m"
          "unat terminator = unat (cursor + 1) + m" "unat size' = unat (version_size + 1) + m"
          "maximum work' = maximum ?work" "unat (used work') = unat (used ?work) + m + 1"
          using IH Inr triple by auto
        have "terminated_at mem base (unat cursor) (Suc m)" using moved m(1) by blast
        moreover have "scan_fits mapped_size metadata_end max_version (unat cursor) (unat version_size) work (Suc m)"
          using fits m(2) by blast
        moreover have "unat terminator = unat cursor + Suc m" "unat size' = unat version_size + Suc m"
          "maximum work' = maximum work" "unat (used work') = unat (used work) + Suc m + 1"
          using m(3-6) next_cursor next_size charged(2) by simp_all
        ultimately show ?thesis unfolding run Inr triple by (auto intro!: exI [of _ "Suc m"])
      qed
    qed
  qed
qed

section \<open>Correctness\<close>

definition header_admissible :: "memory \<Rightarrow> pointer \<Rightarrow> u64 \<Rightarrow> u64 \<Rightarrow> u64 \<Rightarrow> pointer \<Rightarrow> bool" where
  "header_admissible mem base mapped_size logical_size max_work out_header \<longleftrightarrow>
     valid_mapping_argument base mapped_size logical_size out_header sizeof_header_view \<and>
     48 \<le> unat mapped_size \<and> 49 \<le> unat max_work \<and> header_wellformed mem base (unat logical_size)"

text \<open>
  Property C15. The header query publishes a view exactly for non-overlapping arguments, a
  mapped well-formed header and a budget of 49 units; it then costs exactly 49, and the view
  holds the fields of the header and ranges that tile the file behind it. In every other
  case it fails, leaves the output alone and stays within the budget.
\<close>

theorem header_query_correct:
  "case serialized_file_header_query mem base mapped_size logical_size max_work out_header of
     (r, None) \<Rightarrow>
       prefix_status r \<noteq> SERIALIZED_FILE_PREFIX_OK \<and> unat (prefix_work_used r) \<le> unat max_work \<and>
       \<not> header_admissible mem base mapped_size logical_size max_work out_header
   | (r, Some view) \<Rightarrow>
       r = query_result SERIALIZED_FILE_PREFIX_OK 49 SERIALIZED_FILE_PREFIX_NO_OFFSET \<and>
       header_admissible mem base mapped_size logical_size max_work out_header \<and>
       header_describes mem base (unat logical_size) view"
proof (cases "valid_mapping_argument base mapped_size logical_size out_header sizeof_header_view")
  case False
  then show ?thesis
    by (simp add: serialized_file_header_query_def query_result_def header_admissible_def)
next
  case True
  let ?work = "\<lparr>maximum = max_work, used = 0\<rparr>"
  note outcome = query_header_outcome [where work = ?work and mem = mem and base = base and
      mapped_size = mapped_size and logical_size = logical_size]
  show ?thesis
  proof (cases "query_header mem base mapped_size logical_size ?work")
    case (Inl r)
    with True outcome show ?thesis
      by (auto simp: serialized_file_header_query_def header_admissible_def)
  next
    case (Inr pair)
    obtain view where pair: "pair = (view, ?work\<lparr>used := 48\<rparr>)" and ok: "48 \<le> unat mapped_size"
      "48 \<le> unat max_work" "header_wellformed mem base (unat logical_size)"
      "header_describes mem base (unat logical_size) view"
      using outcome Inr by (cases pair) auto
    have "charge_work 1 \<lparr>maximum = max_work, used = 48\<rparr> =
        (if 49 \<le> unat max_work then Some \<lparr>maximum = max_work, used = 49\<rparr> else None)"
      using charge_work_some(1) [of "\<lparr>maximum = max_work, used = 48\<rparr>" 1] ok
      by (simp add: word_le_nat_alt)
    then show ?thesis
      using True Inr pair ok
      by (simp add: serialized_file_header_query_def header_admissible_def query_result_def)
  qed
qed

definition prefix_arguments :: "pointer \<Rightarrow> u64 \<Rightarrow> u64 \<Rightarrow> pointer \<Rightarrow> pointer \<Rightarrow> bool" where
  "prefix_arguments base mapped_size logical_size limits_address out_prefix \<longleftrightarrow>
     limits_address \<noteq> 0 \<and>
     valid_mapping_argument base mapped_size logical_size out_prefix sizeof_prefix_view \<and>
     \<not> storage_overlaps limits_address sizeof_prefix_limits out_prefix sizeof_prefix_view"

text \<open>A version of \<open>v\<close> bytes, its terminator, the target and the tree byte are there and affordable.\<close>

definition prefix_admissible ::
    "memory \<Rightarrow> pointer \<Rightarrow> u64 \<Rightarrow> u64 \<Rightarrow> SerializedFilePrefixLimits \<Rightarrow> nat \<Rightarrow> bool" where
  "prefix_admissible mem base mapped_size logical_size limits v \<longleftrightarrow>
     header_wellformed mem base (unat logical_size) \<and> terminated_at mem base 48 v \<and>
     v < unat (max_version_bytes limits) \<and> v + 6 \<le> header_field mem base 16 8 \<and>
     v + 54 \<le> unat mapped_size \<and> v + 55 \<le> unat (max_prefix_work limits)"

definition span_covers :: "pointer \<Rightarrow> nat \<Rightarrow> nat \<Rightarrow> SerializedFilePrefixSpan \<Rightarrow> bool" where
  "span_covers base at n span \<longleftrightarrow>
     span_data span = base + of_nat at \<and> unat (span_offset span) = at \<and> unat (span_size span) = n"

definition prefix_describes ::
    "memory \<Rightarrow> pointer \<Rightarrow> nat \<Rightarrow> SerializedFilePrefixView \<Rightarrow> bool" where
  "prefix_describes mem base v view \<longleftrightarrow>
     span_covers base 48 (v + 6) (metadata_prefix_source view) \<and>
     span_covers base 48 v (version_source view) \<and>
     span_covers base (48 + v) 1 (version_terminator_source view) \<and>
     span_covers base (49 + v) 4 (target_platform_source view) \<and>
     span_covers base (53 + v) 1 (type_tree_source view) \<and>
     unat (target_platform view) =
       be_value (if mem (base + 40) = 1 then mapped_bytes mem base (49 + v) 4
                 else rev (mapped_bytes mem base (49 + v) 4)) \<and>
     type_tree_enabled_raw view = mem (base + of_nat (53 + v)) \<and>
     unat (range_offset (remaining_metadata view)) = 54 + v \<and>
     unat (range_offset (remaining_metadata view)) + unat (range_size (remaining_metadata view)) =
       48 + header_field mem base 16 8"

lemma span_covers_mapped:
  "unat offset = at \<Longrightarrow> unat amount = n \<Longrightarrow> span_covers base at n (mapped_span base offset amount)"
  by (auto simp: span_covers_def mapped_span_def)

lemma require_work: "prefix_work_used (require_metadata_bytes cursor n metadata_end mapped_size w) = w"
  by (simp add: require_metadata_bytes_def query_result_def)

text \<open>The fields behind the version, when the scan has found a terminator.\<close>

lemma prefix_after_version:
  assumes arguments: "prefix_arguments base mapped_size logical_size limits_address out_prefix"
    and head: "query_header mem base mapped_size logical_size
        \<lparr>maximum = max_prefix_work limits, used = 0\<rparr> = Inr (view, work)"
    and scan: "scan_version mem base mapped_size (range_offset (metadata_to_data_gap view))
        (max_version_bytes limits) 48 0 work = Inr (terminator, version_size, work')"
    and ok: "header_describes mem base (unat logical_size) view"
      "header_wellformed mem base (unat logical_size)"
    and v: "terminated_at mem base 48 v" "v < unat (max_version_bytes limits)"
      "unat terminator = 48 + v" "unat version_size = v"
      "maximum work' = max_prefix_work limits" "unat (used work') = 49 + v"
      "49 + v \<le> unat (max_prefix_work limits)"
  shows "case serialized_file_prefix_query mem base mapped_size logical_size limits_address limits out_prefix of
     (r, None) \<Rightarrow>
       prefix_status r \<noteq> SERIALIZED_FILE_PREFIX_OK \<and>
       unat (prefix_work_used r) \<le> unat (max_prefix_work limits) \<and>
       \<not> prefix_admissible mem base mapped_size logical_size limits v
   | (r, Some view) \<Rightarrow>
       prefix_status r = SERIALIZED_FILE_PREFIX_OK \<and> unat (prefix_work_used r) = v + 55 \<and>
       prefix_admissible mem base mapped_size logical_size limits v \<and>
       header_describes mem base (unat logical_size) (header view) \<and> prefix_describes mem base v view"
proof -
  let ?stop = "range_offset (metadata_to_data_gap view)"
  let ?max = "unat (max_prefix_work limits)"
  have meta: "unat ?stop = 48 + header_field mem base 16 8"
    using ok(1) by (simp add: header_describes_def)
  have bounds: "48 + v + 1 < 2 ^ 64" "?max < 2 ^ 64"
    using v(7) u64_bound [of "max_prefix_work limits"] by simp_all
  define c where "c = terminator + 1"
  have c: "unat c = 49 + v" unfolding c_def using bounds v(3) by (subst unat_add_fits) simp_all
  have le: "used work' \<le> maximum work'" using v by (simp add: word_le_nat_alt)
  define r4 where "r4 = require_metadata_bytes c 4 ?stop mapped_size (used work')"
  have run: "serialized_file_prefix_query mem base mapped_size logical_size limits_address limits out_prefix =
      (if prefix_status r4 \<noteq> SERIALIZED_FILE_PREFIX_OK then (r4, None)
       else case charge_work 4 work' of
         None \<Rightarrow> (query_result SERIALIZED_FILE_PREFIX_WORK_LIMIT (used work') c, None)
       | Some work \<Rightarrow>
           let tree = c + 4; result = require_metadata_bytes tree 1 ?stop mapped_size (used work)
           in if prefix_status result \<noteq> SERIALIZED_FILE_PREFIX_OK then (result, None)
              else case charge_work 1 work of
                None \<Rightarrow> (query_result SERIALIZED_FILE_PREFIX_WORK_LIMIT (used work) tree, None)
              | Some work \<Rightarrow>
                  let rest = tree + 1 in
                  case charge_work 1 work of
                    None \<Rightarrow> (query_result SERIALIZED_FILE_PREFIX_WORK_LIMIT (used work)
                              SERIALIZED_FILE_PREFIX_NO_OFFSET, None)
                  | Some work \<Rightarrow>
                      (query_result SERIALIZED_FILE_PREFIX_OK (used work) SERIALIZED_FILE_PREFIX_NO_OFFSET,
                       Some \<lparr>header = view, metadata_prefix_source = mapped_span base 48 (rest - 48),
                         version_source = mapped_span base 48 version_size,
                         version_terminator_source = mapped_span base terminator 1,
                         target_platform_source = mapped_span base c 4,
                         type_tree_source = mapped_span base tree 1,
                         target_platform = read_target_platform mem (base + c) (endian_selector view),
                         type_tree_enabled_raw = mem (base + tree),
                         remaining_metadata = \<lparr>range_offset = rest, range_size = ?stop - rest\<rparr>\<rparr>))"
    using arguments unfolding serialized_file_prefix_query_def prefix_arguments_def r4_def c_def Let_def
    by (simp add: head scan)
  have r4: "prefix_work_used r4 = used work'"
    "prefix_status r4 = SERIALIZED_FILE_PREFIX_OK \<longleftrightarrow> v + 53 \<le> unat ?stop \<and> v + 53 \<le> unat mapped_size"
    by (simp add: r4_def require_work) (simp add: r4_def require_ok_iff c; arith)
  show ?thesis
  proof (cases "v + 53 \<le> unat ?stop \<and> v + 53 \<le> unat mapped_size")
    case False
    then show ?thesis using r4 v meta unfolding run by (auto simp: prefix_admissible_def)
  next
    case first: True
    note charged = charge_work_some [OF le, of 4]
    show ?thesis
    proof (cases "v + 53 \<le> ?max")
      case False
      then show ?thesis
        using first r4 v charged unfolding run
        by (simp add: prefix_admissible_def query_result_def)
    next
      case True
      define w where "w = work'\<lparr>used := used work' + 4\<rparr>"
      have w: "charge_work 4 work' = Some w" "unat (used w) = v + 53" "maximum w = max_prefix_work limits"
        using charged True v by (simp_all add: w_def)
      have lew: "used w \<le> maximum w" using w True by (simp add: word_le_nat_alt)
      define tree where "tree = c + 4"
      have tree: "unat tree = 53 + v"
        unfolding tree_def using c u64_bound [of mapped_size] first by (subst unat_add_fits) simp_all
      define r1 where "r1 = require_metadata_bytes tree 1 ?stop mapped_size (used w)"
      have r1: "prefix_work_used r1 = used w"
        "prefix_status r1 = SERIALIZED_FILE_PREFIX_OK \<longleftrightarrow> v + 54 \<le> unat ?stop \<and> v + 54 \<le> unat mapped_size"
        by (simp add: r1_def require_work) (simp add: r1_def require_ok_iff tree; arith)
      note run = run [unfolded w(1) option.case Let_def, folded tree_def, folded r1_def]
      show ?thesis
      proof (cases "v + 54 \<le> unat ?stop \<and> v + 54 \<le> unat mapped_size")
        case False
        then show ?thesis using first True r4 r1 w meta unfolding run by (auto simp: prefix_admissible_def)
      next
        case second: True
        note charged1 = charge_work_some [OF lew, of 1]
        show ?thesis
        proof (cases "v + 54 \<le> ?max")
          case False
          then show ?thesis
            using first second True r4 r1 w charged1 unfolding run
            by (simp add: prefix_admissible_def query_result_def)
        next
          case fits: True
          define x where "x = w\<lparr>used := used w + 1\<rparr>"
          have x: "charge_work 1 w = Some x" "unat (used x) = v + 54" "maximum x = max_prefix_work limits"
            using charged1 fits w by (simp_all add: x_def)
          have lex: "used x \<le> maximum x" using x fits by (simp add: word_le_nat_alt)
          note charged2 = charge_work_some [OF lex, of 1]
          define rest where "rest = tree + 1"
          have rest: "unat rest = 54 + v"
            unfolding rest_def using tree u64_bound [of mapped_size] second by (subst unat_add_fits) simp_all
          note run = run [unfolded x(1) option.case, folded rest_def]
          show ?thesis
          proof (cases "v + 55 \<le> ?max")
            case False
            then show ?thesis
              using first second fits x r4 r1 charged2 unfolding run
              by (simp add: prefix_admissible_def query_result_def)
          next
            case last_unit: True
            have "prefix_admissible mem base mapped_size logical_size limits v"
              unfolding prefix_admissible_def using ok v second last_unit meta by simp
            moreover have "prefix_describes mem base v
                \<lparr>header = view, metadata_prefix_source = mapped_span base 48 (rest - 48),
                 version_source = mapped_span base 48 version_size,
                 version_terminator_source = mapped_span base terminator 1,
                 target_platform_source = mapped_span base c 4,
                 type_tree_source = mapped_span base tree 1,
                 target_platform = read_target_platform mem (base + c) (endian_selector view),
                 type_tree_enabled_raw = mem (base + tree),
                 remaining_metadata = \<lparr>range_offset = rest, range_size = ?stop - rest\<rparr>\<rparr>"
            proof -
              have at: "c = of_nat (49 + v)" "tree = of_nat (53 + v)"
                unfolding c [symmetric] tree [symmetric] by simp_all
              have "unat (rest - 48) = v + 6" "unat (?stop - rest) = 48 + header_field mem base 16 8 - (54 + v)"
                using rest second meta by (simp_all add: unat_sub word_le_nat_alt)
              moreover have "endian_selector view = mem (base + 40)"
                using ok(1) by (simp add: header_describes_def)
              moreover have "mapped_bytes mem (base + c) 0 4 = mapped_bytes mem base (49 + v) 4"
                unfolding at by (simp only: mapped_bytes_shift) simp
              moreover have "mem (base + tree) = mem (base + of_nat (53 + v))" by (simp only: at)
              ultimately show ?thesis
                unfolding prefix_describes_def using c tree rest v second meta
                by (simp add: span_covers_mapped read_target_value)
            qed
            moreover have "charge_work 1 x = Some (x\<lparr>used := used x + 1\<rparr>)" "unat (used x + 1) = v + 55"
              using charged2 x last_unit by simp_all
            ultimately show ?thesis
              using first second r4 r1 ok unfolding run by (simp add: query_result_def)
          qed
        qed
      qed
    qed
  qed
qed

text \<open>What the prefix query does, on every path.\<close>

lemma prefix_query_outcome:
  "case serialized_file_prefix_query mem base mapped_size logical_size limits_address limits out_prefix of
     (r, None) \<Rightarrow>
       prefix_status r \<noteq> SERIALIZED_FILE_PREFIX_OK \<and>
       unat (prefix_work_used r) \<le> unat (max_prefix_work limits) \<and>
       \<not> (prefix_arguments base mapped_size logical_size limits_address out_prefix \<and>
          (\<exists>v. prefix_admissible mem base mapped_size logical_size limits v))
   | (r, Some view) \<Rightarrow>
       prefix_status r = SERIALIZED_FILE_PREFIX_OK \<and>
       prefix_arguments base mapped_size logical_size limits_address out_prefix \<and>
       header_describes mem base (unat logical_size) (header view) \<and>
       (\<exists>v. prefix_admissible mem base mapped_size logical_size limits v \<and>
         unat (prefix_work_used r) = v + 55 \<and> prefix_describes mem base v view)"
proof (cases "prefix_arguments base mapped_size logical_size limits_address out_prefix")
  case False
  then have "serialized_file_prefix_query mem base mapped_size logical_size limits_address limits out_prefix =
      (query_result SERIALIZED_FILE_PREFIX_INVALID_ARGUMENT 0 SERIALIZED_FILE_PREFIX_NO_OFFSET, None)"
    by (auto simp: serialized_file_prefix_query_def prefix_arguments_def)
  with False show ?thesis by (simp add: query_result_def)
next
  case arguments: True
  let ?start = "\<lparr>maximum = max_prefix_work limits, used = 0\<rparr>"
  note reduce = serialized_file_prefix_query_def
  have head: "?thesis" if "query_header mem base mapped_size logical_size ?start = Inl r" for r
    using query_header_outcome [where work = ?start and mem = mem and base = base and
        mapped_size = mapped_size and logical_size = logical_size] that arguments
    unfolding reduce prefix_arguments_def by (auto simp: prefix_admissible_def)
  show ?thesis
  proof (cases "query_header mem base mapped_size logical_size ?start")
    case (Inl r)
    then show ?thesis by (rule head)
  next
    case (Inr pair)
    define work where "work = ?start\<lparr>used := 48\<rparr>"
    obtain view where pair: "pair = (view, work)" and ok: "48 \<le> unat (max_prefix_work limits)"
      "header_wellformed mem base (unat logical_size)" "header_describes mem base (unat logical_size) view"
      using query_header_outcome [where work = ?start and mem = mem and base = base and
          mapped_size = mapped_size and logical_size = logical_size] Inr
      by (cases pair) (auto simp: work_def)
    have work: "used work \<le> maximum work" "unat (0 :: u64) \<le> unat (48 :: u64)" "used work = 48"
      "maximum work = max_prefix_work limits"
      using ok(1) by (simp_all add: work_def word_le_nat_alt)
    have meta: "unat (range_offset (metadata_to_data_gap view)) = 48 + header_field mem base 16 8"
      using ok(3) by (simp add: header_describes_def)
    note outcome = scan_version_outcome [OF work(1,2), of mem base mapped_size
        "range_offset (metadata_to_data_gap view)" "max_version_bytes limits"]
    show ?thesis
    proof (cases "scan_version mem base mapped_size (range_offset (metadata_to_data_gap view))
        (max_version_bytes limits) 48 0 work")
      case (Inl r)
      have "serialized_file_prefix_query mem base mapped_size logical_size limits_address limits out_prefix =
          (r, None)"
        using Inl Inr pair arguments by (simp add: reduce prefix_arguments_def)
      moreover have "\<not> prefix_admissible mem base mapped_size logical_size limits v" for v
        using outcome Inl meta work by (auto simp: prefix_admissible_def scan_fits_def)
      ultimately show ?thesis using outcome Inl work by simp
    next
      case scanned: (Inr triple)
      obtain terminator version_size work' where triple: "triple = (terminator, version_size, work')"
        by (cases triple)
      obtain v where v: "terminated_at mem base 48 v" "v < unat (max_version_bytes limits)"
        "unat terminator = 48 + v" "unat version_size = v" "maximum work' = max_prefix_work limits"
        "unat (used work') = 49 + v" "49 + v \<le> unat (max_prefix_work limits)"
        using outcome scanned triple work by (auto simp: scan_fits_def)
      have only: "v' = v" if "prefix_admissible mem base mapped_size logical_size limits v'" for v'
        using terminated_unique [OF v(1)] that by (auto simp: prefix_admissible_def)
      note after = prefix_after_version [OF arguments Inr [unfolded pair] scanned [unfolded triple] ok(3,2) v]
      obtain r out where run: "serialized_file_prefix_query mem base mapped_size logical_size
          limits_address limits out_prefix = (r, out)"
        by fastforce
      show ?thesis
        using after only arguments unfolding run by (cases out) (simp; blast)+
    qed
  qed
qed

text \<open>
  Property C16. The prefix query publishes a view exactly when its arguments are usable, the
  header is well formed and a version below the limit, its terminator, the target platform and
  the tree byte lie in the metadata, in the mapping and in the budget. A version of \<open>v\<close> bytes
  then costs \<open>v + 55\<close> units, and every span and range of the view names the bytes of its field.
\<close>

theorem prefix_query_correct:
  "case serialized_file_prefix_query mem base mapped_size logical_size limits_address limits out_prefix of
     (r, None) \<Rightarrow>
       prefix_status r \<noteq> SERIALIZED_FILE_PREFIX_OK \<and>
       unat (prefix_work_used r) \<le> unat (max_prefix_work limits) \<and>
       \<not> (prefix_arguments base mapped_size logical_size limits_address out_prefix \<and>
          (\<exists>v. prefix_admissible mem base mapped_size logical_size limits v))
   | (r, Some view) \<Rightarrow>
       prefix_status r = SERIALIZED_FILE_PREFIX_OK \<and>
       prefix_arguments base mapped_size logical_size limits_address out_prefix \<and>
       header_describes mem base (unat logical_size) (header view) \<and>
       (\<exists>v. prefix_admissible mem base mapped_size logical_size limits v \<and>
         unat (prefix_work_used r) = v + 55 \<and> prefix_describes mem base v view)"
  by (rule prefix_query_outcome)

text \<open>
  Two storage ranges that stay below the top of the address space overlap
  exactly when some address lies in both.
\<close>

theorem storage_overlaps_intersect:
  assumes "unat first_address + unat first_size \<le> 2 ^ 64"
    and "unat second_address + unat second_size \<le> 2 ^ 64"
  shows "storage_overlaps first_address first_size second_address second_size \<longleftrightarrow>
    {unat first_address ..< unat first_address + unat first_size} \<inter>
    {unat second_address ..< unat second_address + unat second_size} \<noteq> {}"
proof -
  have meet: "{a ..< a + m} \<inter> {b ..< b + n} \<noteq> {} \<longleftrightarrow> 0 < m \<and> 0 < n \<and> a < b + n \<and> b < a + m" for a b m n :: nat
    by (auto simp: Int_atLeastLessThan)
  have zero: "(w = 0) = (unat w = 0)" for w :: u64 by (rule unat_eq_0 [symmetric])
  show ?thesis
  proof (cases "first_address \<le> second_address")
    case True
    then show ?thesis
      unfolding meet storage_overlaps_def
      by (simp add: zero unat_sub word_less_nat_alt word_le_nat_alt) linarith
  next
    case False
    then show ?thesis
      unfolding meet storage_overlaps_def
      by (simp add: zero unat_sub word_less_nat_alt word_le_nat_alt) linarith
  qed
qed

theorem storage_overlaps_intersect_witness:
  "storage_overlaps 100 8 104 4 \<longleftrightarrow> {100 ..< 108} \<inter> {104 ..< 108 :: nat} \<noteq> {}"
  using storage_overlaps_intersect [of 100 8 104 4] by simp

section \<open>Locality\<close>

text \<open>Two memories that give the mapped bytes the same values.\<close>

definition same_mapping :: "pointer \<Rightarrow> u64 \<Rightarrow> memory \<Rightarrow> memory \<Rightarrow> bool" where
  "same_mapping base mapped_size mem mem' \<longleftrightarrow>
     (\<forall>k < unat mapped_size. mem (base + of_nat k) = mem' (base + of_nat k))"

lemma same_mapping_at: "same_mapping base n mem mem' \<Longrightarrow> k < n \<Longrightarrow> mem (base + k) = mem' (base + k)"
  unfolding same_mapping_def by (drule spec [of _ "unat k"]) (simp add: word_less_nat_alt)

lemma query_header_local:
  assumes same: "same_mapping base mapped_size mem mem'"
  shows "query_header mem base mapped_size logical_size work =
    query_header mem' base mapped_size logical_size work"
proof (cases "mapped_size < 48")
  case True
  then show ?thesis by (simp add: query_header_def)
next
  case False
  have at: "mem (base + k) = mem' (base + k)" if "k < 48" for k
    using same that False by (auto intro: same_mapping_at)
  have fields: "mem (base + 40) = mem' (base + 40)" "read_be32 mem (base + 8) = read_be32 mem' (base + 8)"
    "read_be64 mem (base + 16) = read_be64 mem' (base + 16)"
    "read_be64 mem (base + 24) = read_be64 mem' (base + 24)"
    "read_be64 mem (base + 32) = read_be64 mem' (base + 32)"
    by (simp_all add: read_be32_def read_be64_def add.assoc at)
  show ?thesis unfolding query_header_def fields ..
qed

lemma require_mapped:
  "prefix_status (require_metadata_bytes cursor n metadata_end mapped_size w) = SERIALIZED_FILE_PREFIX_OK \<Longrightarrow>
     k < n \<Longrightarrow> cursor + k < mapped_size"
  unfolding require_ok_iff using u64_bound [of mapped_size]
  by (simp add: word_less_nat_alt unat_add_fits)

lemma scan_version_local:
  "same_mapping base mapped_size mem mem' \<Longrightarrow>
     scan_version mem base mapped_size metadata_end max_version cursor version_size work =
     scan_version mem' base mapped_size metadata_end max_version cursor version_size work"
proof (induction mem base mapped_size metadata_end max_version cursor version_size work
    rule: scan_version.induct)
  case (1 mem base mapped_size metadata_end max_version cursor version_size work)
  let ?r = "require_metadata_bytes cursor 1 metadata_end mapped_size (used work)"
  show ?case
  proof (cases "prefix_status ?r = SERIALIZED_FILE_PREFIX_OK \<and> \<not> max_version \<le> version_size")
    case False
    then show ?thesis
      by (auto simp: Let_def scan_version.simps [of mem] scan_version.simps [of mem'])
  next
    case True
    then have here: "mem (base + cursor) = mem' (base + cursor)"
      using require_mapped [of cursor 1 metadata_end mapped_size "used work" 0] same_mapping_at "1.prems"
      by simp
    show ?thesis
    proof (cases "charge_work 1 work")
      case None
      with True show ?thesis
        by (simp add: Let_def scan_version.simps [of mem] scan_version.simps [of mem'])
    next
      case (Some work')
      have "mem (base + cursor) \<noteq> 0 \<Longrightarrow>
          scan_version mem base mapped_size metadata_end max_version (cursor + 1) (version_size + 1) work' =
          scan_version mem' base mapped_size metadata_end max_version (cursor + 1) (version_size + 1) work'"
        using "1.IH" [OF refl _ _ Some] True "1.prems" by blast
      with True Some here show ?thesis
        by (simp add: Let_def scan_version.simps [of mem _ _ _ _ cursor]
            scan_version.simps [of mem' _ _ _ _ cursor])
    qed
  qed
qed

text \<open>
  The prefix query reads the mapped bytes alone: memories that agree on them
  give the same result and the same view.
\<close>

theorem prefix_query_local:
  assumes "same_mapping base mapped_size mem mem'"
  shows "serialized_file_prefix_query mem base mapped_size logical_size limits_address limits out_prefix =
    serialized_file_prefix_query mem' base mapped_size logical_size limits_address limits out_prefix"
proof -
  have target: "read_target_platform mem (base + c) selector = read_target_platform mem' (base + c) selector"
    if "prefix_status (require_metadata_bytes c 4 e mapped_size w) = SERIALIZED_FILE_PREFIX_OK" for c e w selector
    using require_mapped [OF that, of 0] require_mapped [OF that, of 1] require_mapped [OF that, of 2]
      require_mapped [OF that, of 3] same_mapping_at [OF assms]
    by (simp add: read_target_platform_def read_be32_def add.assoc)
  have tree: "mem (base + c) = mem' (base + c)"
    if "prefix_status (require_metadata_bytes c 1 e mapped_size w) = SERIALIZED_FILE_PREFIX_OK" for c e w
    using require_mapped [OF that, of 0] same_mapping_at [OF assms] by simp
  show ?thesis
    unfolding serialized_file_prefix_query_def query_header_local [OF assms] scan_version_local [OF assms] Let_def
    by (auto simp: target tree split: sum.split prod.split option.split)
qed

text \<open>A smallest prefix: no version bytes, big endian, no type trees, 54 bytes.\<close>

definition sample_prefix :: "u8 list" where
  "sample_prefix =
     [0,0,0,0, 0,0,0,0, 0,0,0,22, 0,0,0,0, 0,0,0,0,0,0,0,6, 0,0,0,0,0,0,0,54, 0,0,0,0,0,0,0,54,
      1, 0,0,0,0,0,0,0, 0, 0,0,0,5, 0]"

theorem prefix_query_local_witness:
  "serialized_file_prefix_query (\<lambda>a. if unat a < 54 then sample_prefix ! unat a else 0) 0 54 54 1
     \<lparr>max_version_bytes = 1, max_prefix_work = 55\<rparr> 1000 =
   serialized_file_prefix_query (\<lambda>a. if unat a < 54 then sample_prefix ! unat a else 7) 0 54 54 1
     \<lparr>max_version_bytes = 1, max_prefix_work = 55\<rparr> 1000"
  by (rule prefix_query_local) (auto simp: same_mapping_def unat_of_nat)

end
