(* ===== verification/Metered.thy ===== *)
theory Metered
  imports Prelude
begin

text \<open>
  Steps that spend counted resources. The readers of the serialized-file metadata move a
  cursor and count what they take against caps: bytes of the metadata, units of work, tree
  nodes, string bytes, dependency words. A \<^emph>\<open>grammar\<close> says what stands at a position and
  what reading it uses up, with no cap, budget or machine word in it; a step \<^emph>\<open>meters\<close> a
  grammar when it succeeds exactly where the grammar accepts and the caps afford the use,
  with the value of the grammar and the counters raised by the use.
\<close>

section \<open>Grammars\<close>

datatype resource = Bytes | Work | Nodes | Strings | Words | Terminated

type_synonym usage = "resource \<Rightarrow> nat"

definition no_use :: usage where
  "no_use = (\<lambda>_. 0)"

definition use :: "resource \<Rightarrow> nat \<Rightarrow> usage" where
  "use r n = (\<lambda>q. if q = r then n else 0)"

definition both :: "usage \<Rightarrow> usage \<Rightarrow> usage" where
  "both u v = (\<lambda>r. u r + v r)"

lemma usage_simps [simp]:
  "no_use r = 0" "use r n r = n" "q \<noteq> r \<Longrightarrow> use r n q = 0" "both u v r = u r + v r"
  by (simp_all add: no_use_def use_def both_def)

lemma both_no_use [simp]: "both u no_use = u" "both no_use u = u"
  by (simp_all add: both_def no_use_def)

type_synonym 'a grammar = "nat \<Rightarrow> ('a \<times> usage) option"

definition g_return :: "'a \<Rightarrow> 'a grammar" where
  "g_return x p = Some (x, no_use)"

definition g_require :: "bool \<Rightarrow> unit grammar" where
  "g_require b p = (if b then Some ((), no_use) else None)"

definition g_use :: "usage \<Rightarrow> unit grammar" where
  "g_use u p = Some ((), u)"

definition g_at :: "(nat \<Rightarrow> 'a grammar) \<Rightarrow> 'a grammar" where
  "g_at f p = f p p"

definition g_then :: "'a grammar \<Rightarrow> ('a \<Rightarrow> 'b grammar) \<Rightarrow> 'b grammar" where
  "g_then g h p =
     (case g p of
        None \<Rightarrow> None
      | Some (x, u) \<Rightarrow>
          (case h x (p + u Bytes) of None \<Rightarrow> None | Some (y, v) \<Rightarrow> Some (y, both u v)))"

fun g_rows :: "(nat \<Rightarrow> 'a grammar) \<Rightarrow> nat \<Rightarrow> nat \<Rightarrow> 'a list grammar" where
  "g_rows g i 0 = g_return []"
| "g_rows g i (Suc n) = g_then (g i) (\<lambda>r. g_then (g_rows g (Suc i) n) (\<lambda>rs. g_return (r # rs)))"

text \<open>A grammar that touches only some of the resources.\<close>

definition confined :: "resource set \<Rightarrow> 'a grammar \<Rightarrow> bool" where
  "confined R g \<longleftrightarrow> (\<forall>p x u r. g p = Some (x, u) \<longrightarrow> r \<notin> R \<longrightarrow> u r = 0)"

named_theorems confined_intros
  \<open>which resources the composite grammars touch\<close>

lemma confined_return [confined_intros]: "confined R (g_return x)"
  by (simp add: confined_def g_return_def)

lemma confined_require [confined_intros]: "confined R (g_require b)"
  by (auto simp: confined_def g_require_def)

lemma confined_use [confined_intros]: "r \<in> R \<Longrightarrow> confined R (g_use (use r n))"
  by (auto simp: confined_def g_use_def use_def)

lemma confined_at [confined_intros]: "(\<And>p. confined R (f p)) \<Longrightarrow> confined R (g_at f)"
  by (simp add: confined_def g_at_def)

lemma confined_then [confined_intros]:
  "confined R g \<Longrightarrow> (\<And>x. confined R (h x)) \<Longrightarrow> confined R (g_then g h)"
  by (fastforce simp: confined_def g_then_def split: option.splits)

lemma confined_split [confined_intros]:
  "(\<And>a b. confined R (g a b)) \<Longrightarrow> confined R (case x of (a, b) \<Rightarrow> g a b)"
  by (cases x) simp

lemma confined_if [confined_intros]:
  "confined R g \<Longrightarrow> confined R h \<Longrightarrow> confined R (if b then g else h)"
  by simp

section \<open>Gauges\<close>

text \<open>
  How the counters are read off a state: the level and the cap of each resource, the part of
  the state the grammar depends on, whether a failure is on record, and what else is kept.
\<close>

record ('s, 'e) gauge =
  level :: "'s \<Rightarrow> usage"
  cap :: "'s \<Rightarrow> usage"
  env :: "'s \<Rightarrow> 'e"
  failed :: "'s \<Rightarrow> bool"
  sound :: "'s \<Rightarrow> bool"

definition within :: "('s, 'e) gauge \<Rightarrow> 's \<Rightarrow> bool" where
  "within G s \<longleftrightarrow> sound G s \<and> (\<forall>r. level G s r \<le> cap G s r)"

definition affords :: "('s, 'e) gauge \<Rightarrow> 's \<Rightarrow> usage \<Rightarrow> bool" where
  "affords G s u \<longleftrightarrow> (\<forall>r. level G s r + u r \<le> cap G s r)"

definition spends :: "('s, 'e) gauge \<Rightarrow> 's \<Rightarrow> usage \<Rightarrow> 's \<Rightarrow> bool" where
  "spends G s u t \<longleftrightarrow>
     level G t = both (level G s) u \<and> cap G t = cap G s \<and> sound G t \<and> failed G t = failed G s"

text \<open>A change of state that no counter sees.\<close>

definition unseen :: "('s, 'e) gauge \<Rightarrow> 's \<Rightarrow> 's \<Rightarrow> bool" where
  "unseen G s t \<longleftrightarrow> level G t = level G s \<and> cap G t = cap G s \<and> (sound G s \<longrightarrow> sound G t)"

definition meters ::
    "('s, 'e) gauge \<Rightarrow> 'e \<Rightarrow> ('a \<Rightarrow> 'e) \<Rightarrow> ('s, 'a) step \<Rightarrow> 'a grammar \<Rightarrow> bool" where
  "meters G e e' m g \<longleftrightarrow>
     (\<forall>s. within G s \<longrightarrow> env G s = e \<longrightarrow>
        (case m s of
           (None, t) \<Rightarrow>
             within G t \<and> failed G t \<and> cap G t = cap G s \<and>
             \<not> (\<exists>x u. g (level G s Bytes) = Some (x, u) \<and> affords G s u)
         | (Some x, t) \<Rightarrow>
             \<exists>u. g (level G s Bytes) = Some (x, u) \<and> affords G s u \<and> spends G s u t \<and> env G t = e' x))"

lemma meters_Some:
  "meters G e e' m g \<Longrightarrow> within G s \<Longrightarrow> env G s = e \<Longrightarrow> m s = (Some x, t) \<Longrightarrow>
     \<exists>u. g (level G s Bytes) = Some (x, u) \<and> affords G s u \<and> spends G s u t \<and> env G t = e' x"
  unfolding meters_def by (drule spec [of _ s]) simp

lemma meters_None:
  "meters G e e' m g \<Longrightarrow> within G s \<Longrightarrow> env G s = e \<Longrightarrow> m s = (None, t) \<Longrightarrow>
     within G t \<and> failed G t \<and> cap G t = cap G s \<and>
     \<not> (\<exists>x u. g (level G s Bytes) = Some (x, u) \<and> affords G s u)"
  unfolding meters_def by (drule spec [of _ s]) simp

lemma metersI:
  assumes "\<And>s t. within G s \<Longrightarrow> env G s = e \<Longrightarrow> m s = (None, t) \<Longrightarrow>
      within G t \<and> failed G t \<and> cap G t = cap G s"
    and "\<And>s t x u. within G s \<Longrightarrow> env G s = e \<Longrightarrow> m s = (None, t) \<Longrightarrow>
      g (level G s Bytes) = Some (x, u) \<Longrightarrow> affords G s u \<Longrightarrow> False"
    and "\<And>s t x. within G s \<Longrightarrow> env G s = e \<Longrightarrow> m s = (Some x, t) \<Longrightarrow>
      \<exists>u. g (level G s Bytes) = Some (x, u) \<and> affords G s u \<and> spends G s u t \<and> env G t = e' x"
  shows "meters G e e' m g"
  unfolding meters_def using assms by (fastforce split: prod.split option.split)

lemma within_affords_no_use: "within G s \<Longrightarrow> affords G s no_use"
  by (simp add: within_def affords_def)

lemma spends_no_use: "sound G s \<Longrightarrow> spends G s no_use s"
  by (simp add: spends_def fun_eq_iff)

lemma spends_within: "affords G s u \<Longrightarrow> spends G s u t \<Longrightarrow> within G t"
  by (simp add: within_def affords_def spends_def)

lemma affords_both:
  "affords G s (both u v) \<longleftrightarrow> affords G s u \<and> affords G t v" if "spends G s u t"
proof -
  have "level G t r + v r \<le> cap G t r \<longleftrightarrow> level G s r + (u r + v r) \<le> cap G s r" for r
    using that by (simp add: spends_def add.assoc)
  moreover have "level G s r + u r \<le> level G s r + (u r + v r)" for r by simp
  ultimately show ?thesis
    unfolding affords_def usage_simps by (meson order_trans)
qed

lemma spends_both: "spends G s u t \<Longrightarrow> spends G t v w \<Longrightarrow> spends G s (both u v) w"
  by (auto simp: spends_def both_def)

named_theorems meters_intros
  \<open>how composite steps meter composite grammars\<close>

lemma meters_return [meters_intros]: "meters G e (\<lambda>_. e) (step_return x) (g_return x)"
  by (rule metersI)
    (auto simp: step_return_def g_return_def within_affords_no_use within_def spends_no_use)

lemma meters_then:
  assumes m: "meters G e e1 m g" and f: "\<And>x. meters G (e1 x) e2 (f x) (h x)"
  shows "meters G e e2 (step_then m f) (g_then g h)"
proof (rule metersI)
  fix s t
  assume s: "within G s" "env G s = e" and run: "step_then m f s = (None, t)"
  obtain r s' where ms: "m s = (r, s')" by (cases "m s")
  have both: "(within G t \<and> failed G t \<and> cap G t = cap G s) \<and>
      \<not> (\<exists>y w. g_then g h (level G s Bytes) = Some (y, w) \<and> affords G s w)"
  proof (cases r)
    case None
    note first = meters_None [OF m s ms [unfolded None]]
    have "t = s'" using run ms None by (simp add: step_then_def)
    moreover have "affords G s u" if "affords G s (both u v)" for u v
      using that unfolding affords_def usage_simps by (meson add_left_mono le_add1 order_trans)
    ultimately show ?thesis
      using first by (fastforce simp: g_then_def split: option.splits)
  next
    case (Some x)
    obtain u where u: "g (level G s Bytes) = Some (x, u)" "affords G s u" "spends G s u s'"
      "env G s' = e1 x"
      using meters_Some [OF m s ms [unfolded Some]] by blast
    have "f x s' = (None, t)" using run ms Some by (simp add: step_then_def)
    note second = meters_None [OF f spends_within [OF u(2,3)] u(4) this]
    have at: "level G s' Bytes = level G s Bytes + u Bytes" using u(3) by (simp add: spends_def)
    have "cap G s' = cap G s" using u(3) by (simp add: spends_def)
    with second u at show ?thesis
      by (auto simp: g_then_def affords_both [OF u(3)] split: option.splits)
  qed
  then show "within G t \<and> failed G t \<and> cap G t = cap G s" by blast
  fix y w
  assume "g_then g h (level G s Bytes) = Some (y, w)" "affords G s w"
  with both show False by blast
next
  fix s t y
  assume s: "within G s" "env G s = e" and run: "step_then m f s = (Some y, t)"
  obtain x s' where ms: "m s = (Some x, s')" and fs: "f x s' = (Some y, t)"
    using run by (auto simp: step_success)
  obtain u where u: "g (level G s Bytes) = Some (x, u)" "affords G s u" "spends G s u s'"
    "env G s' = e1 x"
    using meters_Some [OF m s ms] by blast
  obtain v where v: "h x (level G s' Bytes) = Some (y, v)" "affords G s' v" "spends G s' v t"
    "env G t = e2 y"
    using meters_Some [OF f spends_within [OF u(2,3)] u(4) fs] by blast
  have at: "level G s' Bytes = level G s Bytes + u Bytes" using u(3) by (simp add: spends_def)
  show "\<exists>w. g_then g h (level G s Bytes) = Some (y, w) \<and> affords G s w \<and> spends G s w t \<and> env G t = e2 y"
    using u v at by (intro exI [of _ "both u v"])
      (auto simp: g_then_def affords_both [OF u(3)] intro: spends_both)
qed

lemma meters_then_same [meters_intros]:
  "meters G e (\<lambda>_. e) m g \<Longrightarrow> (\<And>x. meters G e e2 (f x) (h x)) \<Longrightarrow>
     meters G e e2 (step_then m f) (g_then g h)"
  by (rule meters_then)

lemma meters_split [meters_intros]:
  "(\<And>a b. meters G e e' (f a b) (g a b)) \<Longrightarrow>
     meters G e e' (case x of (a, b) \<Rightarrow> f a b) (case x of (a, b) \<Rightarrow> g a b)"
  by (cases x) simp

lemma meters_if [meters_intros]:
  "(b \<Longrightarrow> meters G e e' m g) \<Longrightarrow> (\<not> b \<Longrightarrow> meters G e e' m' g') \<Longrightarrow>
     meters G e e' (if b then m else m') (if b then g else g')"
  by simp

lemma meters_modify:
  assumes "\<And>s. env G s = e \<Longrightarrow> unseen G s (f s) \<and> failed G (f s) = failed G s \<and> env G (f s) = e1"
  shows "meters G e (\<lambda>_. e1) (step_modify f) (g_return ())"
proof (rule metersI)
  fix s t x
  assume s: "within G s" "env G s = e" and run: "step_modify f s = (Some x, t)"
  have "spends G s no_use t" "env G t = e1"
    using assms [OF s(2)] s run by (simp_all add: spends_def unseen_def within_def step_modify_def)
  then show "\<exists>u. g_return () (level G s Bytes) = Some (x, u) \<and> affords G s u \<and> spends G s u t \<and> env G t = e1"
    using within_affords_no_use [OF s(1)] by (simp add: g_return_def)
qed (simp_all add: step_modify_def)

lemma meters_require:
  assumes "\<And>s. env G s = e \<Longrightarrow> guard s = b"
    and "\<And>s. env G s = e \<Longrightarrow> unseen G s (reject s) \<and> failed G (reject s)"
  shows "meters G e (\<lambda>_. e) (step_require guard reject) (g_require b)"
  using assms
  by (intro metersI) (auto simp: step_require_def g_require_def within_affords_no_use within_def
      spends_no_use unseen_def split: if_splits)

lemma meters_with_env:
  assumes "\<And>s. env G s = e \<Longrightarrow> sel s = c" and "meters G e e' (f c) g"
  shows "meters G e e' (step_with sel f) g"
  using assms by (simp add: meters_def step_with_def)

lemma meters_with_any: "(\<And>w. meters G e e' (f w) g) \<Longrightarrow> meters G e e' (step_with sel f) g"
  by (simp add: meters_def step_with_def)

lemma meters_with_position:
  assumes "\<And>s. unat (sel s) = level G s Bytes" and "\<And>w. meters G e e' (f w) (h (unat w))"
  shows "meters G e e' (step_with sel f) (g_at h)"
proof (unfold meters_def, intro allI impI)
  fix s
  assume "within G s" "env G s = e"
  then show "case step_with sel f s of
      (None, t) \<Rightarrow> within G t \<and> failed G t \<and> cap G t = cap G s \<and>
        \<not> (\<exists>x u. g_at h (level G s Bytes) = Some (x, u) \<and> affords G s u)
    | (Some x, t) \<Rightarrow>
        \<exists>u. g_at h (level G s Bytes) = Some (x, u) \<and> affords G s u \<and> spends G s u t \<and> env G t = e' x"
    using assms(2) [of "sel s", unfolded meters_def, rule_format, of s]
    unfolding g_at_def step_with_def assms(1) by simp
qed

lemma meters_rows [meters_intros]:
  assumes "\<And>i. meters G e (\<lambda>_. e) (row i) (g i)"
  shows "meters G e (\<lambda>_. e) (scan_rows row i n) (g_rows g i n)"
proof (induction n arbitrary: i)
  case 0
  have "scan_rows row i 0 = step_return []" by (simp add: fun_eq_iff step_return_def)
  then show ?case by (simp add: meters_return)
next
  case (Suc n)
  have "scan_rows row i (Suc n) =
      step_then (row i) (\<lambda>r. step_then (scan_rows row (Suc i) n) (\<lambda>rs. step_return (r # rs)))"
    by (auto simp: fun_eq_iff step_then_def step_return_def split: option.split prod.split)
  then show ?case by (auto intro!: meters_intros assms Suc.IH)
qed

text \<open>A guard on a counter followed by its raise.\<close>

lemma meters_charge:
  assumes guard: "\<And>s. within G s \<Longrightarrow> guard s \<longleftrightarrow> level G s r + n \<le> cap G s r"
    and charged: "\<And>s. within G s \<Longrightarrow> env G s = e \<Longrightarrow> guard s \<Longrightarrow> spends G s (use r n) (f s) \<and> env G (f s) = e"
    and rejected: "\<And>s. env G s = e \<Longrightarrow> unseen G s (reject s) \<and> failed G (reject s)"
  shows "meters G e (\<lambda>_. e) (step_then (step_require guard reject) (\<lambda>_. step_modify f)) (g_use (use r n))"
proof (rule metersI)
  have affordable: "affords G s (use r n) \<longleftrightarrow> guard s" if "within G s" for s
    using guard [OF that] that by (auto simp: affords_def within_def use_def)
  fix s t
  assume s: "within G s" "env G s = e"
    and run: "step_then (step_require guard reject) (\<lambda>_. step_modify f) s = (None, t)"
  then have "t = reject s" "\<not> guard s"
    by (auto simp: step_then_def step_require_def step_modify_def split: if_splits)
  then show "within G t \<and> failed G t \<and> cap G t = cap G s"
    using rejected [OF s(2)] s by (simp add: within_def unseen_def)
  fix x u
  assume "g_use (use r n) (level G s Bytes) = Some (x, u)" "affords G s u"
  with affordable [OF s(1)] \<open>\<not> guard s\<close> show False by (simp add: g_use_def)
next
  have affordable: "affords G s (use r n) \<longleftrightarrow> guard s" if "within G s" for s
    using guard [OF that] that by (auto simp: affords_def within_def use_def)
  fix s t x
  assume s: "within G s" "env G s = e"
    and run: "step_then (step_require guard reject) (\<lambda>_. step_modify f) s = (Some x, t)"
  then have "t = f s" "guard s"
    by (auto simp: step_then_def step_require_def step_modify_def split: if_splits)
  then show "\<exists>u. g_use (use r n) (level G s Bytes) = Some (x, u) \<and> affords G s u \<and> spends G s u t \<and> env G t = e"
    using charged [OF s] affordable [OF s(1)] by (simp add: g_use_def)
qed

section \<open>An owner of a reader\<close>

text \<open>
  A step on a part of the state, run inside the whole: the part is read out, the step runs,
  and the part is written back; a failure of the part is turned into one of the whole.
\<close>

definition step_inside ::
    "('s \<Rightarrow> 'p) \<Rightarrow> ('p \<Rightarrow> 's \<Rightarrow> 's) \<Rightarrow> ('s \<Rightarrow> 's) \<Rightarrow> ('p, 'a) step \<Rightarrow> ('s, 'a) step" where
  "step_inside get put reject m s =
     (case m (get s) of
        (None, p) \<Rightarrow> (None, reject (put p s))
      | (Some x, p) \<Rightarrow> (Some x, put p s))"

text \<open>
  The laws an owner keeps for the part it lends out: the counters in \<open>R\<close> are those of the
  part, writing the part back moves nothing else, and rejecting records a failure.
\<close>

locale owner =
  fixes inner :: "('p, 'd) gauge" and outer :: "('s, 'e) gauge"
    and R :: "resource set"
    and get :: "'s \<Rightarrow> 'p" and put :: "'p \<Rightarrow> 's \<Rightarrow> 's" and reject :: "'s \<Rightarrow> 's"
    and project :: "'e \<Rightarrow> 'd"
  assumes position: "Bytes \<in> R"
    and foreign: "r \<notin> R \<Longrightarrow> level inner p r = 0"
    and lent_level: "r \<in> R \<Longrightarrow> level inner (get s) r = level outer s r"
    and lent_cap: "r \<in> R \<Longrightarrow> cap inner (get s) r = cap outer s r"
    and lent_env: "env inner (get s) = project (env outer s)"
    and lent_sound: "sound outer s \<Longrightarrow> sound inner (get s)"
    and put_level: "level outer (put p s) = (\<lambda>r. if r \<in> R then level inner p r else level outer s r)"
    and put_cap: "cap inner p = cap inner (get s) \<Longrightarrow> cap outer (put p s) = cap outer s"
    and put_env: "env inner p = env inner (get s) \<Longrightarrow> env outer (put p s) = env outer s"
    and put_sound: "sound inner p \<Longrightarrow> cap inner p = cap inner (get s) \<Longrightarrow> sound outer s \<Longrightarrow>
      sound outer (put p s)"
    and put_failed: "failed inner p = failed inner (get s) \<Longrightarrow> failed outer (put p s) = failed outer s"
    and reject_unseen: "unseen outer s (reject s)"
    and reject_failed: "failed inner p \<Longrightarrow> failed outer (reject (put p s))"
begin

lemma lent_within: "within outer s \<Longrightarrow> within inner (get s)"
  unfolding within_def using lent_sound lent_level lent_cap foreign by (metis le0)

lemma lent_affords:
  assumes "\<And>r. r \<notin> R \<Longrightarrow> u r = 0" and "within outer s"
  shows "affords inner (get s) u \<longleftrightarrow> affords outer s u"
  using assms lent_within [of s]
  unfolding affords_def within_def by (metis lent_level lent_cap add_0_right)

lemma meters_inside:
  assumes m: "meters inner (project e) (\<lambda>_. project e) m g" and g: "confined R g"
  shows "meters outer e (\<lambda>_. e) (step_inside get put reject m) g"
proof (rule metersI)
  fix s t
  assume s: "within outer s" "env outer s = e" and run: "step_inside get put reject m s = (None, t)"
  have inner: "within inner (get s)" "env inner (get s) = project e"
    using s lent_within lent_env by auto
  obtain p where p: "m (get s) = (None, p)" "t = reject (put p s)"
    using run by (auto simp: step_inside_def split: prod.splits option.splits)
  note none = meters_None [OF m inner p(1)]
  have "sound outer (put p s)" "cap outer (put p s) = cap outer s"
    using none put_sound put_cap s by (auto simp: within_def)
  moreover have "level outer (put p s) r \<le> cap outer s r" for r
  proof (cases "r \<in> R")
    case True
    then show ?thesis using none lent_cap [OF True, of s] by (simp add: put_level within_def) metis
  next
    case False
    then show ?thesis using s by (simp add: put_level within_def)
  qed
  ultimately show "within outer t \<and> failed outer t \<and> cap outer t = cap outer s"
    using reject_unseen [of "put p s"] none reject_failed [of p s] p(2)
    by (auto simp: within_def unseen_def)
  fix x u
  assume "g (level outer s Bytes) = Some (x, u)" "affords outer s u"
  with none g s lent_affords [of u s] lent_level [OF position, of s] show False
    by (auto simp: confined_def)
next
  fix s t x
  assume s: "within outer s" "env outer s = e" and run: "step_inside get put reject m s = (Some x, t)"
  have inner: "within inner (get s)" "env inner (get s) = project e"
    using s lent_within lent_env by auto
  obtain p where p: "m (get s) = (Some x, p)" "t = put p s"
    using run by (auto simp: step_inside_def split: prod.splits option.splits)
  obtain u where u: "g (level inner (get s) Bytes) = Some (x, u)" "affords inner (get s) u"
    "spends inner (get s) u p" "env inner p = project e"
    using meters_Some [OF m inner p(1)] by blast
  have outside: "u r = 0" if "r \<notin> R" for r using g u(1) that by (auto simp: confined_def)
  have "level outer t = both (level outer s) u"
    using u(3) lent_level outside by (auto simp: p(2) put_level spends_def fun_eq_iff)
  moreover have "cap outer t = cap outer s" "sound outer t" "failed outer t = failed outer s"
    using u(3) s put_cap put_sound put_failed by (auto simp: p(2) spends_def within_def)
  moreover have "env outer t = e" using u(4) inner put_env s by (auto simp: p(2))
  ultimately show "\<exists>u. g (level outer s Bytes) = Some (x, u) \<and> affords outer s u \<and>
      spends outer s u t \<and> env outer t = e"
    using u lent_affords [of u s] outside s lent_level [OF position, of s] by (auto simp: spends_def)
qed

end

end
