(* ===== verification/MetadataReader.thy ===== *)
theory MetadataReader
  imports FilePrefix Metered
begin

text \<open>
  \<open>src/io/serialized_metadata_reader_internal.c\<close> and \<open>serialized_type_shape_internal.h\<close>: the
  cursor both metadata owners share. It checks the declared metadata, the mapping, the byte
  ceiling and the work, in that order, before it takes a span, and decodes fields, type
  prefixes, trees and terminated strings from the spans it took.
\<close>

section \<open>Model of the code\<close>

datatype SerializedMetadataReadStatus =
    SERIALIZED_METADATA_READ_OK
  | SERIALIZED_METADATA_READ_METADATA_END
  | SERIALIZED_METADATA_READ_MAPPING_END
  | SERIALIZED_METADATA_READ_BYTE_LIMIT
  | SERIALIZED_METADATA_READ_WORK_LIMIT
  | SERIALIZED_METADATA_READ_NEGATIVE_COUNT
  | SERIALIZED_METADATA_READ_TYPE_SHAPE
  | SERIALIZED_METADATA_READ_TREE_SHAPE
  | SERIALIZED_METADATA_READ_NODE_LIMIT
  | SERIALIZED_METADATA_READ_STRING_LIMIT
  | SERIALIZED_METADATA_READ_TERMINATED_STRING_LIMIT

record SerializedMetadataReader =
  reader_bytes :: pointer
  reader_mapped_size :: u64
  reader_metadata_end :: u64
  reader_byte_budget_origin :: u64
  reader_max_bytes :: u64
  reader_max_work :: u64
  reader_work_used :: u64
  reader_position :: u64
  reader_endian_selector :: u8
  reader_status :: SerializedMetadataReadStatus
  reader_error_offset :: u64

record SerializedMetadataTypePrefix =
  class_id_source :: SerializedFilePrefixSpan
  stripped_source :: SerializedFilePrefixSpan
  script_index_source :: SerializedFilePrefixSpan
  script_hash_source :: SerializedFilePrefixSpan
  type_hash_source :: SerializedFilePrefixSpan
  class_id_bits :: u32
  script_index_bits :: u16
  stripped_raw :: u8
  has_script_hash :: bool

record SerializedMetadataTreeBudget =
  max_node_records :: u64
  max_string_bytes :: u64
  node_records :: u64
  string_bytes :: u64

record SerializedFileDirectoryTree =
  node_count_source :: SerializedFilePrefixSpan
  string_count_source :: SerializedFilePrefixSpan
  nodes_source :: SerializedFilePrefixSpan
  strings_source :: SerializedFilePrefixSpan
  node_count :: u32
  string_byte_count :: u32

definition absent_span :: SerializedFilePrefixSpan where
  "absent_span = \<lparr>span_data = 0, span_offset = SERIALIZED_FILE_PREFIX_NO_OFFSET, span_size = 0\<rparr>"

text \<open>The hash shape: \<open>None\<close> is the combination the readers do not share.\<close>

definition serialized_type_v22_hash_shape :: "u32 \<Rightarrow> u16 \<Rightarrow> bool option" where
  "serialized_type_v22_hash_shape class_id script_index =
     (let negative_index = script_index AND 0x8000 \<noteq> 0 in
      if class_id = 0xFFFFFFFF \<and> negative_index then None
      else Some (class_id = 114 \<or> \<not> negative_index))"

definition reject_reader ::
    "SerializedMetadataReadStatus \<Rightarrow> u64 \<Rightarrow> SerializedMetadataReader \<Rightarrow> SerializedMetadataReader" where
  "reject_reader status offset reader =
     reader\<lparr>reader_status := status, reader_error_offset := offset\<rparr>"

definition serialized_metadata_decode_u16 :: "memory \<Rightarrow> pointer \<Rightarrow> u8 \<Rightarrow> u16" where
  "serialized_metadata_decode_u16 mem bytes selector =
     (if selector \<noteq> 0 then push_bit 8 (ucast (mem bytes)) OR ucast (mem (bytes + 1))
      else push_bit 8 (ucast (mem (bytes + 1))) OR ucast (mem bytes))"

definition serialized_metadata_decode_u32 :: "memory \<Rightarrow> pointer \<Rightarrow> u8 \<Rightarrow> u32" where
  "serialized_metadata_decode_u32 mem bytes selector =
     (if selector \<noteq> 0
      then push_bit 24 (ucast (mem bytes)) OR push_bit 16 (ucast (mem (bytes + 1))) OR
           push_bit 8 (ucast (mem (bytes + 2))) OR ucast (mem (bytes + 3))
      else push_bit 24 (ucast (mem (bytes + 3))) OR push_bit 16 (ucast (mem (bytes + 2))) OR
           push_bit 8 (ucast (mem (bytes + 1))) OR ucast (mem bytes))"

definition serialized_metadata_decode_u64 :: "memory \<Rightarrow> pointer \<Rightarrow> u8 \<Rightarrow> u64" where
  "serialized_metadata_decode_u64 mem bytes selector =
     (if selector \<noteq> 0
      then push_bit 32 (ucast (serialized_metadata_decode_u32 mem bytes selector)) OR
           ucast (serialized_metadata_decode_u32 mem (bytes + 4) selector)
      else push_bit 32 (ucast (serialized_metadata_decode_u32 mem (bytes + 4) selector)) OR
           ucast (serialized_metadata_decode_u32 mem bytes selector))"

definition admit_extent :: "u64 \<Rightarrow> (SerializedMetadataReader, unit) step" where
  "admit_extent width reader =
     (let position = reader_position reader;
          consumed = position - reader_byte_budget_origin reader
      in if position > reader_metadata_end reader \<or> width > reader_metadata_end reader - position
         then (None, reject_reader SERIALIZED_METADATA_READ_METADATA_END (reader_metadata_end reader) reader)
         else if position > reader_mapped_size reader \<or> width > reader_mapped_size reader - position
         then (None, reject_reader SERIALIZED_METADATA_READ_MAPPING_END (reader_mapped_size reader) reader)
         else if consumed > reader_max_bytes reader \<or> width > reader_max_bytes reader - consumed
         then (None, reject_reader SERIALIZED_METADATA_READ_BYTE_LIMIT position reader)
         else (Some (), reader))"

definition consume_span :: "u64 \<Rightarrow> (SerializedMetadataReader, SerializedFilePrefixSpan) step" where
  "consume_span width reader =
     (if width > reader_max_work reader - reader_work_used reader
      then (None, reject_reader SERIALIZED_METADATA_READ_WORK_LIMIT (reader_position reader) reader)
      else
        (Some \<lparr>span_data = reader_bytes reader + reader_position reader,
               span_offset = reader_position reader, span_size = width\<rparr>,
         reader\<lparr>reader_work_used := reader_work_used reader + width,
                reader_position := reader_position reader + width\<rparr>))"

definition serialized_metadata_take :: "u64 \<Rightarrow> (SerializedMetadataReader, SerializedFilePrefixSpan) step" where
  "serialized_metadata_take width = step_then (admit_extent width) (\<lambda>_. consume_span width)"

definition serialized_metadata_read_u32 ::
    "memory \<Rightarrow> (SerializedMetadataReader, SerializedFilePrefixSpan \<times> u32) step" where
  "serialized_metadata_read_u32 mem =
     step_then (serialized_metadata_take 4) (\<lambda>source.
     step_with reader_endian_selector (\<lambda>selector.
     step_return (source, serialized_metadata_decode_u32 mem (span_data source) selector)))"

definition serialized_metadata_read_count ::
    "memory \<Rightarrow> (SerializedMetadataReader, SerializedFilePrefixSpan \<times> u32) step" where
  "serialized_metadata_read_count mem =
     step_then (serialized_metadata_read_u32 mem) (\<lambda>(source, count).
     step_then (step_require (\<lambda>_. count \<le> 0x7FFFFFFF)
       (reject_reader SERIALIZED_METADATA_READ_NEGATIVE_COUNT (span_offset source))) (\<lambda>_.
     step_return (source, count)))"

definition serialized_metadata_read_type_prefix ::
    "memory \<Rightarrow> (SerializedMetadataReader, SerializedMetadataTypePrefix) step" where
  "serialized_metadata_read_type_prefix mem =
     step_with reader_position (\<lambda>start.
     step_then (serialized_metadata_take 4) (\<lambda>class_source.
     step_then (serialized_metadata_take 1) (\<lambda>stripped.
     step_then (serialized_metadata_take 2) (\<lambda>script_source.
     step_with reader_endian_selector (\<lambda>selector.
       let class_bits = serialized_metadata_decode_u32 mem (span_data class_source) selector;
           script_bits = serialized_metadata_decode_u16 mem (span_data script_source) selector;
           shape = serialized_type_v22_hash_shape class_bits script_bits
       in step_then (step_require (\<lambda>_. shape \<noteq> None)
            (reject_reader SERIALIZED_METADATA_READ_TYPE_SHAPE start)) (\<lambda>_.
          step_then (if shape = Some True then serialized_metadata_take 16 else step_return absent_span)
            (\<lambda>script_hash.
          step_then (serialized_metadata_take 16) (\<lambda>type_hash.
          step_return
            \<lparr>class_id_source = class_source, stripped_source = stripped,
             script_index_source = script_source, script_hash_source = script_hash,
             type_hash_source = type_hash, class_id_bits = class_bits,
             script_index_bits = script_bits, stripped_raw = mem (span_data stripped),
             has_script_hash = (shape = Some True)\<rparr>))))))))"

text \<open>The reader and the counters of a tree; \<open>on_reader\<close> runs a step of the reader alone.\<close>

definition on_reader ::
    "(SerializedMetadataReader, 'a) step \<Rightarrow>
     (SerializedMetadataReader \<times> SerializedMetadataTreeBudget, 'a) step" where
  "on_reader = step_inside fst (\<lambda>reader (_, budget). (reader, budget)) id"

definition reject_tree ::
    "SerializedMetadataReadStatus \<Rightarrow> u64 \<Rightarrow>
     SerializedMetadataReader \<times> SerializedMetadataTreeBudget \<Rightarrow>
     SerializedMetadataReader \<times> SerializedMetadataTreeBudget" where
  "reject_tree status offset = (\<lambda>(reader, budget). (reject_reader status offset reader, budget))"

definition count_nodes ::
    "u32 \<Rightarrow> u64 \<Rightarrow> (SerializedMetadataReader \<times> SerializedMetadataTreeBudget, unit) step" where
  "count_nodes count offset =
     step_then (step_require (\<lambda>(_, budget). ucast count \<le> max_node_records budget - node_records budget)
       (reject_tree SERIALIZED_METADATA_READ_NODE_LIMIT offset)) (\<lambda>_.
     step_modify (\<lambda>(reader, budget).
       (reader, budget\<lparr>node_records := node_records budget + ucast count\<rparr>)))"

definition count_strings ::
    "u32 \<Rightarrow> u64 \<Rightarrow> (SerializedMetadataReader \<times> SerializedMetadataTreeBudget, unit) step" where
  "count_strings count offset =
     step_then (step_require (\<lambda>(_, budget). ucast count \<le> max_string_bytes budget - string_bytes budget)
       (reject_tree SERIALIZED_METADATA_READ_STRING_LIMIT offset)) (\<lambda>_.
     step_modify (\<lambda>(reader, budget).
       (reader, budget\<lparr>string_bytes := string_bytes budget + ucast count\<rparr>)))"

definition serialized_metadata_read_tree ::
    "memory \<Rightarrow> (SerializedMetadataReader \<times> SerializedMetadataTreeBudget, SerializedFileDirectoryTree) step" where
  "serialized_metadata_read_tree mem =
     step_then (on_reader (serialized_metadata_read_u32 mem)) (\<lambda>(nodes_at, nodes).
     step_then (step_require (\<lambda>_. nodes \<noteq> 0)
       (reject_tree SERIALIZED_METADATA_READ_TREE_SHAPE (span_offset nodes_at))) (\<lambda>_.
     step_then (count_nodes nodes (span_offset nodes_at)) (\<lambda>_.
     step_then (on_reader (serialized_metadata_read_u32 mem)) (\<lambda>(strings_at, strings).
     step_then (count_strings strings (span_offset strings_at)) (\<lambda>_.
     step_then (on_reader (serialized_metadata_take (ucast nodes * 32))) (\<lambda>node_records.
     step_then (on_reader (serialized_metadata_take (ucast strings))) (\<lambda>string_bytes.
     step_return
       \<lparr>node_count_source = nodes_at, string_count_source = strings_at,
        nodes_source = node_records, strings_source = string_bytes,
        node_count = nodes, string_byte_count = strings\<rparr>)))))))"

text \<open>The loop of the terminated string; the counter of terminated bytes is part of the state.\<close>

function read_string_bytes ::
    "memory \<Rightarrow> u64 \<Rightarrow> u64 \<Rightarrow> SerializedMetadataReader \<times> u64 \<Rightarrow>
     SerializedFilePrefixSpan option \<times> (SerializedMetadataReader \<times> u64)" where
  "read_string_bytes mem max_terminated start (reader, terminated) =
     (case admit_extent 1 reader of
        (None, reader) \<Rightarrow> (None, (reader, terminated))
      | (Some _, reader) \<Rightarrow>
          if terminated = max_terminated
          then (None, (reject_reader SERIALIZED_METADATA_READ_TERMINATED_STRING_LIMIT
                  (reader_position reader) reader, terminated))
          else
            (case consume_span 1 reader of
               (None, reader) \<Rightarrow> (None, (reader, terminated))
             | (Some byte, reader) \<Rightarrow>
                 if mem (span_data byte) = 0
                 then (Some \<lparr>span_data = reader_bytes reader + start, span_offset = start,
                             span_size = reader_position reader - start\<rparr>,
                       (reader, terminated + 1))
                 else read_string_bytes mem max_terminated start (reader, terminated + 1)))"
  by pat_completeness auto

lemma admit_extent_Some:
  "admit_extent width reader = (Some u, reader') \<longleftrightarrow>
     reader' = reader \<and> reader_position reader \<le> reader_metadata_end reader \<and>
     width \<le> reader_metadata_end reader - reader_position reader \<and>
     reader_position reader \<le> reader_mapped_size reader \<and>
     width \<le> reader_mapped_size reader - reader_position reader \<and>
     reader_position reader - reader_byte_budget_origin reader \<le> reader_max_bytes reader \<and>
     width \<le> reader_max_bytes reader - (reader_position reader - reader_byte_budget_origin reader)"
  by (auto simp: admit_extent_def Let_def not_less not_le)

lemma consume_span_Some:
  "consume_span width reader = (Some span, reader') \<longleftrightarrow>
     width \<le> reader_max_work reader - reader_work_used reader \<and>
     span = \<lparr>span_data = reader_bytes reader + reader_position reader,
       span_offset = reader_position reader, span_size = width\<rparr> \<and>
     reader' = reader\<lparr>reader_work_used := reader_work_used reader + width,
       reader_position := reader_position reader + width\<rparr>"
  by (auto simp: consume_span_def)

lemma string_progress:
  assumes "(x, reader1) = admit_extent 1 reader" "x = Some u"
    and "(y, reader2) = consume_span 1 reader1" "y = Some v"
  shows "unat (reader_metadata_end reader2) - unat (reader_position reader2) <
    unat (reader_metadata_end reader) - unat (reader_position reader)"
proof -
  have le: "reader_position reader \<le> reader_metadata_end reader"
    "1 \<le> reader_metadata_end reader - reader_position reader"
    and "reader2 = reader\<lparr>reader_work_used := reader_work_used reader + 1,
       reader_position := reader_position reader + 1\<rparr>"
    using assms admit_extent_Some [of 1 reader u reader1] consume_span_Some [of 1 reader1 v reader2]
    by simp_all
  moreover have "unat (reader_position reader + 1) = unat (reader_position reader) + 1"
    "unat (reader_position reader) + 1 \<le> unat (reader_metadata_end reader)"
    using charge_value [OF le] charge_iff [OF le(1), of 1] le by simp_all
  ultimately show ?thesis by simp
qed

termination read_string_bytes
  by (relation "measure (\<lambda>(mem, max_terminated, start, reader, terminated).
      unat (reader_metadata_end reader) - unat (reader_position reader))")
    (rule wf_measure, unfold in_measure split, rule string_progress)

declare read_string_bytes.simps [simp del]

definition serialized_metadata_read_terminated_string ::
    "memory \<Rightarrow> u64 \<Rightarrow> (SerializedMetadataReader \<times> u64, SerializedFilePrefixSpan) step" where
  "serialized_metadata_read_terminated_string mem max_terminated = (\<lambda>(reader, terminated).
     read_string_bytes mem max_terminated (reader_position reader) (reader, terminated))"

section \<open>The grammar of the fields\<close>

text \<open>What stands at a position: \<open>base\<close> is the address of byte 0 of the file slice.\<close>

definition g_take :: "pointer \<Rightarrow> nat \<Rightarrow> SerializedFilePrefixSpan grammar" where
  "g_take base n p = Some (mapped_span base (of_nat p) (of_nat n), both (use Bytes n) (use Work n))"

definition g_u32 :: "memory \<Rightarrow> pointer \<Rightarrow> u8 \<Rightarrow> (SerializedFilePrefixSpan \<times> u32) grammar" where
  "g_u32 mem base selector =
     g_then (g_take base 4) (\<lambda>source.
     g_return (source, serialized_metadata_decode_u32 mem (span_data source) selector))"

definition g_count :: "memory \<Rightarrow> pointer \<Rightarrow> u8 \<Rightarrow> (SerializedFilePrefixSpan \<times> u32) grammar" where
  "g_count mem base selector =
     g_then (g_u32 mem base selector) (\<lambda>(source, count).
     g_then (g_require (count \<le> 0x7FFFFFFF)) (\<lambda>_. g_return (source, count)))"

definition g_type_prefix :: "memory \<Rightarrow> pointer \<Rightarrow> u8 \<Rightarrow> SerializedMetadataTypePrefix grammar" where
  "g_type_prefix mem base selector =
     g_then (g_take base 4) (\<lambda>class_source.
     g_then (g_take base 1) (\<lambda>stripped.
     g_then (g_take base 2) (\<lambda>script_source.
       let class_bits = serialized_metadata_decode_u32 mem (span_data class_source) selector;
           script_bits = serialized_metadata_decode_u16 mem (span_data script_source) selector;
           shape = serialized_type_v22_hash_shape class_bits script_bits
       in g_then (g_require (shape \<noteq> None)) (\<lambda>_.
          g_then (if shape = Some True then g_take base 16 else g_return absent_span) (\<lambda>script_hash.
          g_then (g_take base 16) (\<lambda>type_hash.
          g_return
            \<lparr>class_id_source = class_source, stripped_source = stripped,
             script_index_source = script_source, script_hash_source = script_hash,
             type_hash_source = type_hash, class_id_bits = class_bits,
             script_index_bits = script_bits, stripped_raw = mem (span_data stripped),
             has_script_hash = (shape = Some True)\<rparr>))))))"

definition g_tree :: "memory \<Rightarrow> pointer \<Rightarrow> u8 \<Rightarrow> SerializedFileDirectoryTree grammar" where
  "g_tree mem base selector =
     g_then (g_u32 mem base selector) (\<lambda>(nodes_at, nodes).
     g_then (g_require (nodes \<noteq> 0)) (\<lambda>_.
     g_then (g_use (use Nodes (unat nodes))) (\<lambda>_.
     g_then (g_u32 mem base selector) (\<lambda>(strings_at, strings).
     g_then (g_use (use Strings (unat strings))) (\<lambda>_.
     g_then (g_take base (32 * unat nodes)) (\<lambda>node_records.
     g_then (g_take base (unat strings)) (\<lambda>string_bytes.
     g_return
       \<lparr>node_count_source = nodes_at, string_count_source = strings_at,
        nodes_source = node_records, strings_source = string_bytes,
        node_count = nodes, string_byte_count = strings\<rparr>)))))))"

fun first_zero :: "memory \<Rightarrow> pointer \<Rightarrow> nat \<Rightarrow> nat \<Rightarrow> nat option" where
  "first_zero mem base p 0 = None"
| "first_zero mem base p (Suc k) =
     (if mem (base + of_nat p) = 0 then Some 0 else map_option Suc (first_zero mem base (Suc p) k))"

definition string_use :: "nat \<Rightarrow> usage" where
  "string_use n = both (use Bytes n) (both (use Work n) (use Terminated n))"

text \<open>The bytes up to the first zero before position \<open>extent\<close>, the zero included.\<close>

definition g_string :: "memory \<Rightarrow> pointer \<Rightarrow> nat \<Rightarrow> SerializedFilePrefixSpan grammar" where
  "g_string mem base extent p =
     map_option (\<lambda>n. (mapped_span base (of_nat p) (of_nat (n + 1)), string_use (n + 1)))
       (first_zero mem base p (extent - p))"

lemma confined_take [confined_intros]: "{Bytes, Work} \<subseteq> R \<Longrightarrow> confined R (g_take base n)"
  by (auto simp: confined_def g_take_def use_def both_def)

lemma confined_u32 [confined_intros]: "{Bytes, Work} \<subseteq> R \<Longrightarrow> confined R (g_u32 mem base selector)"
  unfolding g_u32_def by (intro confined_intros)

lemma confined_count [confined_intros]: "{Bytes, Work} \<subseteq> R \<Longrightarrow> confined R (g_count mem base selector)"
  unfolding g_count_def by (intro confined_intros)

lemma confined_type_prefix [confined_intros]:
  "{Bytes, Work} \<subseteq> R \<Longrightarrow> confined R (g_type_prefix mem base selector)"
  unfolding g_type_prefix_def Let_def by (intro confined_intros)

lemma confined_tree [confined_intros]:
  "{Bytes, Work, Nodes, Strings} \<subseteq> R \<Longrightarrow> confined R (g_tree mem base selector)"
  unfolding g_tree_def by (intro confined_intros) auto

lemma confined_string [confined_intros]:
  "{Bytes, Work, Terminated} \<subseteq> R \<Longrightarrow> confined R (g_string mem base extent)"
  by (auto simp: confined_def g_string_def string_use_def use_def both_def)

section \<open>The gauges of the reader\<close>

text \<open>The backing, the byte order, and the end and origin of the metadata window.\<close>

type_synonym frame = "pointer \<times> u8 \<times> u64 \<times> u64"

definition reader_frame :: "SerializedMetadataReader \<Rightarrow> frame" where
  "reader_frame r =
     (reader_bytes r, reader_endian_selector r, reader_metadata_end r, reader_byte_budget_origin r)"

fun reader_level :: "SerializedMetadataReader \<Rightarrow> usage" where
  "reader_level r Bytes = unat (reader_position r)"
| "reader_level r Work = unat (reader_work_used r)"
| "reader_level r _ = 0"

fun reader_cap :: "SerializedMetadataReader \<Rightarrow> usage" where
  "reader_cap r Bytes =
     min (unat (reader_metadata_end r)) (min (unat (reader_mapped_size r))
       (unat (reader_byte_budget_origin r) + unat (reader_max_bytes r)))"
| "reader_cap r Work = unat (reader_max_work r)"
| "reader_cap r _ = 0"

definition reader_gauge :: "(SerializedMetadataReader, frame) gauge" where
  "reader_gauge =
     \<lparr>level = reader_level, cap = reader_cap, env = reader_frame,
      failed = (\<lambda>r. reader_status r \<noteq> SERIALIZED_METADATA_READ_OK),
      sound = (\<lambda>r. reader_byte_budget_origin r \<le> reader_position r)\<rparr>"

lemma reader_gauge_simps [simp]:
  "level reader_gauge = reader_level" "cap reader_gauge = reader_cap" "env reader_gauge = reader_frame"
  "failed reader_gauge r \<longleftrightarrow> reader_status r \<noteq> SERIALIZED_METADATA_READ_OK"
  "sound reader_gauge r \<longleftrightarrow> reader_byte_budget_origin r \<le> reader_position r"
  by (simp_all add: reader_gauge_def)

lemma all_resources: "(\<forall>r. P r) \<longleftrightarrow> P Bytes \<and> P Work \<and> P Nodes \<and> P Strings \<and> P Words \<and> P Terminated"
  by (metis resource.exhaust)

lemma usage_eq: "u = v \<longleftrightarrow> u Bytes = v Bytes \<and> u Work = v Work \<and> u Nodes = v Nodes \<and>
    u Strings = v Strings \<and> u Words = v Words \<and> u Terminated = v Terminated" for u v :: usage
  unfolding fun_eq_iff by (rule all_resources)

lemma reject_reader_frame [simp]:
  "reader_level (reject_reader status offset r) = reader_level r"
  "reader_cap (reject_reader status offset r) = reader_cap r"
  "reader_frame (reject_reader status offset r) = reader_frame r"
  "reader_status (reject_reader status offset r) = status"
  "reader_byte_budget_origin (reject_reader status offset r) = reader_byte_budget_origin r"
  "reader_position (reject_reader status offset r) = reader_position r"
  by (simp_all add: usage_eq reader_frame_def) (simp_all add: reject_reader_def)

lemma admit_extent_None:
  "admit_extent width r = (None, t) \<Longrightarrow>
     \<exists>status offset. status \<noteq> SERIALIZED_METADATA_READ_OK \<and> t = reject_reader status offset r"
  by (auto simp: admit_extent_def Let_def split: if_splits)

lemma consume_span_None:
  "consume_span width r = (None, t) \<Longrightarrow>
     t = reject_reader SERIALIZED_METADATA_READ_WORK_LIMIT (reader_position r) r"
  by (auto simp: consume_span_def split: if_splits)

lemma reader_within:
  "within reader_gauge r \<longleftrightarrow>
     reader_byte_budget_origin r \<le> reader_position r \<and> unat (reader_position r) \<le> reader_cap r Bytes \<and>
     reader_work_used r \<le> reader_max_work r"
  by (simp add: within_def all_resources word_le_nat_alt)

lemma admit_extent_iff:
  assumes "within reader_gauge r"
  shows "admit_extent width r = (Some (), r) \<longleftrightarrow> unat (reader_position r) + unat width \<le> reader_cap r Bytes"
proof -
  have le: "reader_position r \<le> reader_metadata_end r" "reader_position r \<le> reader_mapped_size r"
    "reader_byte_budget_origin r \<le> reader_position r"
    "reader_position r - reader_byte_budget_origin r \<le> reader_max_bytes r"
    using assms by (auto simp: reader_within word_le_nat_alt)
  then show ?thesis
    unfolding admit_extent_Some charge_iff [OF le(1)] charge_iff [OF le(2)] charge_iff [OF le(4)]
    by (auto simp: word_le_nat_alt)
qed

text \<open>Taking a span, when the caps afford it.\<close>

lemma advanced_spends:
  assumes w: "within reader_gauge r" and fits: "unat (reader_position r) + unat width \<le> reader_cap r Bytes"
    "unat (reader_work_used r) + unat width \<le> unat (reader_max_work r)"
  defines "t \<equiv> r\<lparr>reader_work_used := reader_work_used r + width, reader_position := reader_position r + width\<rparr>"
  shows "spends reader_gauge r (both (use Bytes (unat width)) (use Work (unat width))) t"
    and "reader_frame t = reader_frame r"
proof -
  have position: "unat (reader_position r + width) = unat (reader_position r) + unat width"
    using fits(1) u64_bound [of "reader_metadata_end r"] by (intro unat_add_fits) simp
  have work: "unat (reader_work_used r + width) = unat (reader_work_used r) + unat width"
    using fits(2) u64_bound [of "reader_max_work r"] by (intro unat_add_fits) simp
  have "reader_byte_budget_origin r \<le> reader_position r + width"
    using w position by (simp add: reader_within word_le_nat_alt)
  then show "spends reader_gauge r (both (use Bytes (unat width)) (use Work (unat width))) t"
    by (simp add: spends_def usage_eq t_def position work)
  show "reader_frame t = reader_frame r" by (simp add: t_def reader_frame_def)
qed

lemma affords_take:
  assumes "within reader_gauge r"
  shows "affords reader_gauge r (both (use Bytes n) (use Work n)) \<longleftrightarrow>
    unat (reader_position r) + n \<le> reader_cap r Bytes \<and>
    unat (reader_work_used r) + n \<le> unat (reader_max_work r)"
  by (simp add: affords_def all_resources del: reader_cap.simps(1))

lemma charge_work_iff:
  "within reader_gauge r \<Longrightarrow>
     width \<le> reader_max_work r - reader_work_used r \<longleftrightarrow>
     unat (reader_work_used r) + unat width \<le> unat (reader_max_work r)"
  by (intro charge_iff) (simp add: reader_within)

lemma rejected_within:
  "within reader_gauge r \<Longrightarrow> within reader_gauge (reject_reader status offset r)"
  by (simp add: within_def)

lemma meters_take:
  "meters reader_gauge (base, selector, extent) (\<lambda>_. (base, selector, extent))
     (serialized_metadata_take width) (g_take base (unat width))"
proof (rule metersI, unfold reader_gauge_simps)
  fix r t
  assume r: "within reader_gauge r" "reader_frame r = (base, selector, extent)"
    and run: "serialized_metadata_take width r = (None, t)"
  have shape: "(\<exists>status offset. status \<noteq> SERIALIZED_METADATA_READ_OK \<and> t = reject_reader status offset r) \<and>
      \<not> (unat (reader_position r) + unat width \<le> reader_cap r Bytes \<and>
         unat (reader_work_used r) + unat width \<le> unat (reader_max_work r))"
  proof (cases "admit_extent width r")
    case (Pair x r')
    show ?thesis
    proof (cases x)
      case None
      then have "admit_extent width r = (None, t)"
        using run Pair by (simp add: serialized_metadata_take_def step_then_def)
      then show ?thesis using admit_extent_None admit_extent_iff [OF r(1), of width] by fastforce
    next
      case (Some u)
      with Pair have "r' = r" using admit_extent_Some by blast
      with run Pair Some have "consume_span width r = (None, t)"
        by (simp add: serialized_metadata_take_def step_then_def)
      then show ?thesis
        using consume_span_None charge_work_iff [OF r(1), of width]
        by (auto simp: consume_span_def split: if_splits)
    qed
  qed
  then show "within reader_gauge t \<and> reader_status t \<noteq> SERIALIZED_METADATA_READ_OK \<and> reader_cap t = reader_cap r"
    using rejected_within [OF r(1)] by auto
  fix x u
  assume "g_take base (unat width) (reader_level r Bytes) = Some (x, u)" "affords reader_gauge r u"
  then show False using shape affords_take [OF r(1)] by (auto simp: g_take_def)
next
  fix r t x
  assume r: "within reader_gauge r" "reader_frame r = (base, selector, extent)"
    and run: "serialized_metadata_take width r = (Some x, t)"
  have extent_ok: "admit_extent width r = (Some (), r)" and eaten: "consume_span width r = (Some x, t)"
    using run admit_extent_Some by (auto simp: serialized_metadata_take_def step_success)
  have fits: "unat (reader_position r) + unat width \<le> reader_cap r Bytes"
    "unat (reader_work_used r) + unat width \<le> unat (reader_max_work r)"
    using extent_ok admit_extent_iff [OF r(1)] eaten charge_work_iff [OF r(1)]
    by (auto simp: consume_span_Some)
  note t = advanced_spends [OF r(1) fits]
  show "\<exists>u. g_take base (unat width) (reader_level r Bytes) = Some (x, u) \<and> affords reader_gauge r u \<and>
      spends reader_gauge r u t \<and> reader_frame t = (base, selector, extent)"
    using t eaten r affords_take [OF r(1)] fits
    by (auto simp: consume_span_Some g_take_def mapped_span_def reader_frame_def)
qed

lemma reader_frame_selector: "reader_frame r = (base, selector, extent) \<Longrightarrow> reader_endian_selector r = selector"
  by (simp add: reader_frame_def)

lemma meters_u32:
  "meters reader_gauge (base, selector, extent) (\<lambda>_. (base, selector, extent))
     (serialized_metadata_read_u32 mem) (g_u32 mem base selector)"
  unfolding serialized_metadata_read_u32_def g_u32_def
  using meters_take [of base selector extent 4]
  by (intro meters_intros meters_with_env [where c = selector])
    (simp_all add: reader_frame_selector meters_return)

lemma meters_count:
  "meters reader_gauge (base, selector, extent) (\<lambda>_. (base, selector, extent))
     (serialized_metadata_read_count mem) (g_count mem base selector)"
  unfolding serialized_metadata_read_count_def g_count_def
  by (intro meters_intros meters_u32 meters_require) (simp_all add: unseen_def)

lemma meters_type_prefix:
  "meters reader_gauge (base, selector, extent) (\<lambda>_. (base, selector, extent))
     (serialized_metadata_read_type_prefix mem) (g_type_prefix mem base selector)"
proof -
  have width: "meters reader_gauge (base, selector, extent) (\<lambda>_. (base, selector, extent))
      (serialized_metadata_take w) (g_take base n)" if "unat w = n" for w n
    using meters_take [of base selector extent w] that by simp
  show ?thesis
    unfolding serialized_metadata_read_type_prefix_def g_type_prefix_def Let_def
    by (intro meters_with_any meters_intros meters_with_env [where c = selector] meters_require width)
      (simp_all add: reader_frame_selector unseen_def)
qed

section \<open>Trees\<close>

fun tree_level :: "SerializedMetadataReader \<times> SerializedMetadataTreeBudget \<Rightarrow> usage" where
  "tree_level (r, b) Nodes = unat (node_records b)"
| "tree_level (r, b) Strings = unat (string_bytes b)"
| "tree_level (r, b) q = reader_level r q"

fun tree_cap :: "SerializedMetadataReader \<times> SerializedMetadataTreeBudget \<Rightarrow> usage" where
  "tree_cap (r, b) Nodes = unat (max_node_records b)"
| "tree_cap (r, b) Strings = unat (max_string_bytes b)"
| "tree_cap (r, b) q = reader_cap r q"

definition tree_gauge :: "(SerializedMetadataReader \<times> SerializedMetadataTreeBudget, frame) gauge" where
  "tree_gauge =
     \<lparr>level = tree_level, cap = tree_cap, env = (\<lambda>(r, b). reader_frame r),
      failed = (\<lambda>(r, b). reader_status r \<noteq> SERIALIZED_METADATA_READ_OK),
      sound = (\<lambda>(r, b). reader_byte_budget_origin r \<le> reader_position r)\<rparr>"

lemma tree_gauge_simps [simp]:
  "level tree_gauge = tree_level" "cap tree_gauge = tree_cap" "env tree_gauge (r, b) = reader_frame r"
  "failed tree_gauge (r, b) \<longleftrightarrow> reader_status r \<noteq> SERIALIZED_METADATA_READ_OK"
  "sound tree_gauge (r, b) \<longleftrightarrow> reader_byte_budget_origin r \<le> reader_position r"
  by (simp_all add: tree_gauge_def)

interpretation tree_reader: owner reader_gauge tree_gauge "{Bytes, Work}" fst
  "\<lambda>reader (_, budget). (reader, budget)" id id
proof
  fix r p s q
  show "r \<notin> {Bytes, Work} \<Longrightarrow> level reader_gauge q r = 0" by (cases r) simp_all
  show "r \<in> {Bytes, Work} \<Longrightarrow> level reader_gauge (fst s) r = level tree_gauge s r" by (cases s) auto
  show "r \<in> {Bytes, Work} \<Longrightarrow> cap reader_gauge (fst s) r = cap tree_gauge s r" by (cases s) auto
  show "env reader_gauge (fst s) = id (env tree_gauge s)" by (cases s) simp
  show "level tree_gauge (case s of (_, budget) \<Rightarrow> (q, budget)) =
      (\<lambda>r. if r \<in> {Bytes, Work} then level reader_gauge q r else level tree_gauge s r)"
    by (cases s) (simp add: usage_eq)
  show "cap reader_gauge q = cap reader_gauge (fst s) \<Longrightarrow>
      cap tree_gauge (case s of (_, budget) \<Rightarrow> (q, budget)) = cap tree_gauge s"
    by (cases s) (simp add: usage_eq)
qed (auto simp: unseen_def)

lemma tree_within:
  "within tree_gauge (r, b) \<longleftrightarrow>
     within reader_gauge r \<and> node_records b \<le> max_node_records b \<and> string_bytes b \<le> max_string_bytes b"
  by (simp add: within_def all_resources word_le_nat_alt conj_ac)

lemma reject_tree_unseen:
  "status \<noteq> SERIALIZED_METADATA_READ_OK \<Longrightarrow>
     unseen tree_gauge s (reject_tree status offset s) \<and> failed tree_gauge (reject_tree status offset s) \<and>
     env tree_gauge (reject_tree status offset s) = env tree_gauge s"
  by (cases s) (simp add: unseen_def reject_tree_def usage_eq)

lemma meters_count_nodes:
  "meters tree_gauge e (\<lambda>_. e) (count_nodes count offset) (g_use (use Nodes (unat count)))"
proof -
  have wide: "unat (ucast count :: u64) = unat count" by (rule unat_widen) simp
  show ?thesis
    unfolding count_nodes_def
  proof (rule meters_charge)
    fix s
    assume s: "within tree_gauge s"
    obtain r b where rb: "s = (r, b)" by (cases s)
    have le: "node_records b \<le> max_node_records b" using s by (simp add: rb tree_within)
    show "(case s of (_, b) \<Rightarrow> ucast count \<le> max_node_records b - node_records b) \<longleftrightarrow>
        level tree_gauge s Nodes + unat count \<le> cap tree_gauge s Nodes"
      using charge_iff [OF le, of "ucast count"] by (simp add: rb wide)
    assume "env tree_gauge s = e" "case s of (_, b) \<Rightarrow> ucast count \<le> max_node_records b - node_records b"
    then show "spends tree_gauge s (use Nodes (unat count))
          (case s of (r, b) \<Rightarrow> (r, b\<lparr>node_records := node_records b + ucast count\<rparr>)) \<and>
        env tree_gauge (case s of (r, b) \<Rightarrow> (r, b\<lparr>node_records := node_records b + ucast count\<rparr>)) = e"
      using charge_value [OF le, of "ucast count"] s
      by (simp add: rb wide spends_def usage_eq tree_within reader_within)
  qed (simp_all add: reject_tree_unseen)
qed

lemma meters_count_strings:
  "meters tree_gauge e (\<lambda>_. e) (count_strings count offset) (g_use (use Strings (unat count)))"
proof -
  have wide: "unat (ucast count :: u64) = unat count" by (rule unat_widen) simp
  show ?thesis
    unfolding count_strings_def
  proof (rule meters_charge)
    fix s
    assume s: "within tree_gauge s"
    obtain r b where rb: "s = (r, b)" by (cases s)
    have le: "string_bytes b \<le> max_string_bytes b" using s by (simp add: rb tree_within)
    show "(case s of (_, b) \<Rightarrow> ucast count \<le> max_string_bytes b - string_bytes b) \<longleftrightarrow>
        level tree_gauge s Strings + unat count \<le> cap tree_gauge s Strings"
      using charge_iff [OF le, of "ucast count"] by (simp add: rb wide)
    assume "env tree_gauge s = e" "case s of (_, b) \<Rightarrow> ucast count \<le> max_string_bytes b - string_bytes b"
    then show "spends tree_gauge s (use Strings (unat count))
          (case s of (r, b) \<Rightarrow> (r, b\<lparr>string_bytes := string_bytes b + ucast count\<rparr>)) \<and>
        env tree_gauge (case s of (r, b) \<Rightarrow> (r, b\<lparr>string_bytes := string_bytes b + ucast count\<rparr>)) = e"
      using charge_value [OF le, of "ucast count"] s
      by (simp add: rb wide spends_def usage_eq tree_within reader_within)
  qed (simp_all add: reject_tree_unseen)
qed

lemma meters_on_reader:
  "meters reader_gauge e (\<lambda>_. e) m g \<Longrightarrow> confined {Bytes, Work} g \<Longrightarrow>
     meters tree_gauge e (\<lambda>_. e) (on_reader m) g"
  unfolding on_reader_def by (rule tree_reader.meters_inside) simp_all

lemma meters_tree:
  "meters tree_gauge (base, selector, extent) (\<lambda>_. (base, selector, extent))
     (serialized_metadata_read_tree mem) (g_tree mem base selector)"
proof -
  have wide: "unat (ucast w :: u64) = unat w" for w :: u32 by (rule unat_widen) simp
  have records: "unat (ucast w * 32 :: u64) = 32 * unat w" for w :: u32
  proof -
    have "unat w < 2 ^ 32" using unsigned_less [of w] by simp
    then show ?thesis by (simp add: unat_mult_lem [THEN iffD1] wide unat_word_ariths)
  qed
  have width: "meters reader_gauge (base, selector, extent) (\<lambda>_. (base, selector, extent))
      (serialized_metadata_take w) (g_take base n)" if "unat w = n" for w n
    using meters_take [of base selector extent w] that by simp
  show ?thesis
    unfolding serialized_metadata_read_tree_def g_tree_def
    by (intro meters_intros meters_on_reader meters_u32 meters_count_nodes meters_count_strings
        meters_require width confined_intros)
      (simp_all add: reject_tree_unseen wide records)
qed

section \<open>Terminated strings\<close>

fun string_level :: "SerializedMetadataReader \<times> u64 \<Rightarrow> usage" where
  "string_level (r, n) Terminated = unat n"
| "string_level (r, n) q = reader_level r q"

fun string_cap :: "u64 \<Rightarrow> SerializedMetadataReader \<times> u64 \<Rightarrow> usage" where
  "string_cap limit (r, n) Terminated = unat limit"
| "string_cap limit (r, n) q = reader_cap r q"

definition string_gauge :: "u64 \<Rightarrow> (SerializedMetadataReader \<times> u64, frame) gauge" where
  "string_gauge limit =
     \<lparr>level = string_level, cap = string_cap limit, env = (\<lambda>(r, n). reader_frame r),
      failed = (\<lambda>(r, n). reader_status r \<noteq> SERIALIZED_METADATA_READ_OK),
      sound = (\<lambda>(r, n). reader_byte_budget_origin r \<le> reader_position r)\<rparr>"

lemma string_gauge_simps [simp]:
  "level (string_gauge limit) = string_level" "cap (string_gauge limit) = string_cap limit"
  "env (string_gauge limit) (r, n) = reader_frame r"
  "failed (string_gauge limit) (r, n) \<longleftrightarrow> reader_status r \<noteq> SERIALIZED_METADATA_READ_OK"
  "sound (string_gauge limit) (r, n) \<longleftrightarrow> reader_byte_budget_origin r \<le> reader_position r"
  by (simp_all add: string_gauge_def)

lemma string_within:
  "within (string_gauge limit) (r, n) \<longleftrightarrow> within reader_gauge r \<and> n \<le> limit"
  by (simp add: within_def all_resources word_le_nat_alt conj_ac)

lemma string_affords:
  "within (string_gauge limit) (r, n) \<Longrightarrow>
     affords (string_gauge limit) (r, n) (string_use k) \<longleftrightarrow>
     unat (reader_position r) + k \<le> reader_cap r Bytes \<and>
     unat (reader_work_used r) + k \<le> unat (reader_max_work r) \<and> unat n + k \<le> unat limit"
  by (simp add: affords_def all_resources string_use_def del: reader_cap.simps(1))

lemma string_rejected:
  "within (string_gauge limit) (r, n) \<Longrightarrow> status \<noteq> SERIALIZED_METADATA_READ_OK \<Longrightarrow>
     t = (reject_reader status offset r, n) \<Longrightarrow>
     within (string_gauge limit) t \<and> failed (string_gauge limit) t \<and>
     cap (string_gauge limit) t = cap (string_gauge limit) (r, n) \<and>
     (\<exists>status offset. t = (reject_reader status offset r, n))"
  by (auto simp: string_within rejected_within usage_eq)

lemma string_use_add: "string_use (m + n) = both (string_use m) (string_use n)"
  by (simp add: usage_eq string_use_def)

text \<open>One byte is taken exactly when the caps afford one more; otherwise a failure is recorded.\<close>

lemma string_byte_taken:
  assumes s: "within (string_gauge limit) (r, n)" and ok: "affords (string_gauge limit) (r, n) (string_use 1)"
  defines "t \<equiv> r\<lparr>reader_work_used := reader_work_used r + 1, reader_position := reader_position r + 1\<rparr>"
  shows "admit_extent 1 r = (Some (), r)" "n \<noteq> limit"
    "consume_span 1 r = (Some \<lparr>span_data = reader_bytes r + reader_position r,
       span_offset = reader_position r, span_size = 1\<rparr>, t)"
    "spends (string_gauge limit) (r, n) (string_use 1) (t, n + 1)"
    "reader_frame t = reader_frame r" "unat (reader_position t) = unat (reader_position r) + 1"
proof -
  have r: "within reader_gauge r" and le: "n \<le> limit" using s by (simp_all add: string_within)
  have fits: "unat (reader_position r) + unat (1 :: u64) \<le> reader_cap r Bytes"
    "unat (reader_work_used r) + unat (1 :: u64) \<le> unat (reader_max_work r)" "unat n + 1 \<le> unat limit"
    using ok unfolding string_affords [OF s] by simp_all
  show "admit_extent 1 r = (Some (), r)" using admit_extent_iff [OF r, of 1] fits by simp
  show "n \<noteq> limit" using fits(3) by auto
  show "consume_span 1 r = (Some \<lparr>span_data = reader_bytes r + reader_position r,
       span_offset = reader_position r, span_size = 1\<rparr>, t)"
    using charge_work_iff [OF r, of 1] fits by (simp add: consume_span_Some t_def)
  have "unat (n + 1) = unat n + 1" using fits(3) u64_bound [of limit] by (subst unat_add_fits) simp_all
  moreover note advanced_spends(1) [OF r fits(1,2), folded t_def]
  ultimately show "spends (string_gauge limit) (r, n) (string_use 1) (t, n + 1)"
    by (simp add: spends_def usage_eq string_use_def)
  show "reader_frame t = reader_frame r" using advanced_spends(2) [OF r fits(1,2)] by (simp add: t_def)
  have "unat (reader_position r + 1) = unat (reader_position r) + 1"
    using fits(1) u64_bound [of "reader_metadata_end r"] by (subst unat_add_fits) simp_all
  then show "unat (reader_position t) = unat (reader_position r) + 1" by (simp add: t_def)
qed

lemma string_byte_refused:
  assumes s: "within (string_gauge limit) (r, n)"
    and no: "\<not> affords (string_gauge limit) (r, n) (string_use 1)"
  shows "\<exists>t. read_string_bytes mem limit start (r, n) = (None, t) \<and>
    within (string_gauge limit) t \<and> failed (string_gauge limit) t \<and>
    cap (string_gauge limit) t = cap (string_gauge limit) (r, n) \<and>
    (\<exists>status offset. t = (reject_reader status offset r, n))"
proof -
  have r: "within reader_gauge r" and le: "n \<le> limit" using s by (simp_all add: string_within)
  show ?thesis
  proof (cases "admit_extent 1 r")
    case (Pair x r')
    show ?thesis
    proof (cases x)
      case None
      then obtain status offset where "status \<noteq> SERIALIZED_METADATA_READ_OK" "r' = reject_reader status offset r"
        using admit_extent_None Pair by blast
      with string_rejected [OF s] Pair None show ?thesis
        by (simp add: read_string_bytes.simps)
    next
      case (Some u)
      with Pair have r': "r' = r" "admit_extent 1 r = (Some (), r)" using admit_extent_Some by auto
      have room: "unat (reader_position r) + 1 \<le> reader_cap r Bytes"
        using admit_extent_iff [OF r, of 1] r'(2) by simp
      show ?thesis
      proof (cases "n = limit")
        case True
        with string_rejected [OF s] r' show ?thesis by (simp add: read_string_bytes.simps)
      next
        case False
        with le have "unat n + 1 \<le> unat limit" by (simp add: word_le_nat_alt word_unat_eq_iff)
        then have "\<not> 1 \<le> reader_max_work r - reader_work_used r"
          using no room unfolding string_affords [OF s] charge_work_iff [OF r] by simp
        then have "consume_span 1 r =
            (None, reject_reader SERIALIZED_METADATA_READ_WORK_LIMIT (reader_position r) r)"
          by (simp add: consume_span_def not_le)
        with string_rejected [OF s] r' False show ?thesis by (simp add: read_string_bytes.simps)
      qed
    qed
  qed
qed

lemma string_bytes_outcome:
  "within (string_gauge limit) (r, n) \<Longrightarrow>
   (case read_string_bytes mem limit start (r, n) of
      (None, t) \<Rightarrow>
        within (string_gauge limit) t \<and> failed (string_gauge limit) t \<and>
        cap (string_gauge limit) t = cap (string_gauge limit) (r, n) \<and>
        \<not> (\<exists>k. first_zero mem (reader_bytes r) (unat (reader_position r))
                (unat (reader_metadata_end r) - unat (reader_position r)) = Some k \<and>
              affords (string_gauge limit) (r, n) (string_use (k + 1)))
    | (Some span, t) \<Rightarrow>
        (\<exists>k. first_zero mem (reader_bytes r) (unat (reader_position r))
                (unat (reader_metadata_end r) - unat (reader_position r)) = Some k \<and>
              affords (string_gauge limit) (r, n) (string_use (k + 1)) \<and>
              spends (string_gauge limit) (r, n) (string_use (k + 1)) t \<and>
              reader_frame (fst t) = reader_frame r \<and>
              span = \<lparr>span_data = reader_bytes r + start, span_offset = start,
                span_size = of_nat (unat (reader_position r) + k + 1) - start\<rparr>))"
proof (induction "unat (reader_metadata_end r) - unat (reader_position r)" arbitrary: r n rule: less_induct)
  case (less r n)
  let ?n = "n + 1" and ?gauge = "string_gauge limit"
  let ?r = "r\<lparr>reader_work_used := reader_work_used r + 1, reader_position := reader_position r + 1\<rparr>"
  let ?room = "unat (reader_metadata_end r) - unat (reader_position r)"
  show ?case
  proof (cases "affords ?gauge (r, n) (string_use 1)")
    case False
    have "\<not> affords ?gauge (r, n) (string_use (k + 1))" for k
      using False unfolding string_affords [OF less.prems] by linarith
    with string_byte_refused [OF less.prems False, of mem start] show ?thesis by auto
  next
    case True
    note byte = string_byte_taken [OF less.prems True]
    have room: "?room = Suc (unat (reader_metadata_end ?r) - unat (reader_position ?r))"
      using True byte(6) unfolding string_affords [OF less.prems] by (auto simp: Suc_diff_Suc)
    show ?thesis
    proof (cases "mem (reader_bytes r + reader_position r) = 0")
      case zero: True
      then have "read_string_bytes mem limit start (r, n) =
          (Some \<lparr>span_data = reader_bytes r + start, span_offset = start,
             span_size = reader_position r + 1 - start\<rparr>, (?r, ?n))"
        using byte by (simp add: read_string_bytes.simps)
      moreover have "first_zero mem (reader_bytes r) (unat (reader_position r)) ?room = Some 0"
        unfolding room using zero by simp
      ultimately show ?thesis using byte True by simp
    next
      case False
      then have run: "read_string_bytes mem limit start (r, n) = read_string_bytes mem limit start (?r, ?n)"
        using byte by (simp add: read_string_bytes.simps [of mem limit start r n])
      have next_zero: "first_zero mem (reader_bytes r) (unat (reader_position r)) ?room =
          map_option Suc (first_zero mem (reader_bytes ?r) (unat (reader_position ?r))
            (unat (reader_metadata_end ?r) - unat (reader_position ?r)))"
        unfolding room byte(6) using False by simp
      have more: "affords ?gauge (r, n) (string_use (Suc k + 1)) \<longleftrightarrow>
          affords ?gauge (?r, ?n) (string_use (k + 1))" for k
        using affords_both [OF byte(4), of "string_use (k + 1)"] True string_use_add [of 1 "k + 1"] by simp
      have spent: "spends ?gauge (?r, ?n) (string_use (k + 1)) t \<Longrightarrow>
          spends ?gauge (r, n) (string_use (Suc k + 1)) t" for k t
        using spends_both [OF byte(4), of "string_use (k + 1)" t] string_use_add [of 1 "k + 1"] by simp
      have caps: "string_cap limit (?r, ?n) = string_cap limit (r, n)" by (simp add: usage_eq)
      have "unat (reader_metadata_end ?r) - unat (reader_position ?r) < ?room" using room by simp
      note IH = less.hyps [OF this spends_within [OF True byte(4)]]
      have same: "reader_frame ?r = reader_frame r" "reader_bytes ?r = reader_bytes r" by (rule byte(5)) simp
      obtain x t where Pair: "read_string_bytes mem limit start (?r, ?n) = (x, t)"
        by (metis surj_pair)
      show ?thesis
        proof (cases x)
          case None
          with IH Pair have "within ?gauge t \<and> failed ?gauge t \<and> cap ?gauge t = cap ?gauge (r, n) \<and>
              \<not> (\<exists>k. first_zero mem (reader_bytes ?r) (unat (reader_position ?r))
                 (unat (reader_metadata_end ?r) - unat (reader_position ?r)) = Some k \<and>
                 affords ?gauge (?r, ?n) (string_use (k + 1)))"
            by (simp add: caps)
          then show ?thesis
            unfolding run Pair None next_zero prod.case option.case map_option_eq_Some using more by auto
        next
          case (Some span)
          with IH Pair obtain k where "first_zero mem (reader_bytes ?r) (unat (reader_position ?r))
                (unat (reader_metadata_end ?r) - unat (reader_position ?r)) = Some k"
              "affords ?gauge (?r, ?n) (string_use (k + 1))"
              "spends ?gauge (?r, ?n) (string_use (k + 1)) t" "reader_frame (fst t) = reader_frame ?r"
              "span = \<lparr>span_data = reader_bytes ?r + start, span_offset = start,
                span_size = of_nat (unat (reader_position ?r) + k + 1) - start\<rparr>"
            by auto
          then show ?thesis
            unfolding run Pair Some next_zero prod.case option.case map_option_eq_Some same
            using more spent byte(6) by (intro exI [of _ "Suc k"]) auto
      qed
    qed
  qed
qed

section \<open>Every call keeps the cursor where it belongs\<close>

text \<open>
  A reader that started as \<open>r0\<close> has everything but its cursor, its work and its outcome as at
  the start, is inside the caps, has not moved back, and has one unit of work charged for every
  byte it moved.
\<close>

definition steady :: "SerializedMetadataReader \<Rightarrow> SerializedMetadataReader \<Rightarrow> bool" where
  "steady r0 r \<longleftrightarrow>
     within reader_gauge r \<and>
     r = r0\<lparr>reader_work_used := reader_work_used r, reader_position := reader_position r,
       reader_status := reader_status r, reader_error_offset := reader_error_offset r\<rparr> \<and>
     reader_position r0 \<le> reader_position r \<and>
     unat (reader_position r) + unat (reader_work_used r0) =
       unat (reader_position r0) + unat (reader_work_used r)"

lemma steady_refl: "within reader_gauge r \<Longrightarrow> steady r r"
  by (simp add: steady_def)

lemma steady_reject:
  assumes "steady r0 r"
  shows "steady r0 (reject_reader status offset r)"
proof -
  let ?t = "reject_reader status offset r"
  have "?t = r0\<lparr>reader_work_used := reader_work_used ?t, reader_position := reader_position ?t,
      reader_status := reader_status ?t, reader_error_offset := reader_error_offset ?t\<rparr>"
    using assms by (cases r; cases r0) (simp add: steady_def reject_reader_def)
  with assms show ?thesis by (simp add: steady_def rejected_within) (simp add: reject_reader_def)
qed

lemma steady_advance:
  assumes "steady r0 r" "spends reader_gauge r u t" "affords reader_gauge r u" "u Bytes = u Work"
    and t: "t = r\<lparr>reader_work_used := w, reader_position := p\<rparr>"
  shows "steady r0 t"
proof -
  have level: "reader_level t = both (reader_level r) u" using assms(2) by (simp add: spends_def)
  have moved: "unat (reader_position t) = unat (reader_position r) + u Bytes"
    "unat (reader_work_used t) = unat (reader_work_used r) + u Work"
    using fun_cong [OF level, of Bytes] fun_cong [OF level, of Work] by simp_all
  have "t = r0\<lparr>reader_work_used := reader_work_used t, reader_position := reader_position t,
      reader_status := reader_status t, reader_error_offset := reader_error_offset t\<rparr>"
    using assms(1) unfolding t by (cases r; cases r0) (simp add: steady_def)
  with moved show ?thesis
    using assms(1,4) spends_within [OF assms(3,2)] by (simp add: steady_def word_le_nat_alt)
qed

lemma step_keeps_take [step_inv_intros]: "step_keeps (steady r0) (serialized_metadata_take width)"
proof
  fix r x t
  assume r: "steady r0 r" and run: "serialized_metadata_take width r = (x, t)"
  then have within: "within reader_gauge r" by (simp add: steady_def)
  show "steady r0 t"
  proof (cases x)
    case None
    obtain y r' where "admit_extent width r = (y, r')" by (cases "admit_extent width r")
    with run None have "(admit_extent width r = (None, t)) \<or> consume_span width r = (None, t)"
      using admit_extent_Some
      by (cases y) (auto simp: serialized_metadata_take_def step_then_def)
    then show ?thesis
      using r steady_reject admit_extent_None consume_span_None by blast
  next
    case (Some span)
    have frame: "env reader_gauge r = (reader_bytes r, reader_endian_selector r, reader_metadata_end r,
        reader_byte_budget_origin r)"
      by (simp add: reader_frame_def)
    from meters_Some [OF meters_take within frame run [unfolded Some]]
    obtain u where "g_take (reader_bytes r) (unat width) (level reader_gauge r Bytes) = Some (span, u)"
      "affords reader_gauge r u" "spends reader_gauge r u t" "env reader_gauge t = env reader_gauge r"
      using frame by metis
    moreover have "consume_span width r = (Some span, t)"
      using run Some admit_extent_Some
      by (auto simp: serialized_metadata_take_def step_then_def split: prod.splits option.splits)
    then have "t = r\<lparr>reader_work_used := reader_work_used r + width, reader_position := reader_position r + width\<rparr>"
      by (simp add: consume_span_Some)
    ultimately show ?thesis by (intro steady_advance [OF r, of u]) (auto simp: g_take_def)
  qed
qed

lemma step_keeps_split [step_inv_intros]:
  "(\<And>a b. step_keeps P (f a b)) \<Longrightarrow> step_keeps P (case x of (a, b) \<Rightarrow> f a b)"
  by (cases x) simp

lemma step_keeps_if [step_inv_intros]:
  "step_keeps P f \<Longrightarrow> step_keeps P g \<Longrightarrow> step_keeps P (if b then f else g)"
  by simp

lemma step_keeps_u32 [step_inv_intros]: "step_keeps (steady r0) (serialized_metadata_read_u32 mem)"
  unfolding serialized_metadata_read_u32_def by (intro step_inv_intros)

lemma step_keeps_count [step_inv_intros]: "step_keeps (steady r0) (serialized_metadata_read_count mem)"
  unfolding serialized_metadata_read_count_def by (intro step_inv_intros steady_reject)

lemma step_keeps_type_prefix [step_inv_intros]:
  "step_keeps (steady r0) (serialized_metadata_read_type_prefix mem)"
  unfolding serialized_metadata_read_type_prefix_def Let_def by (intro step_inv_intros steady_reject)

text \<open>The counters of a tree budget only rise, and never above their caps.\<close>

definition budget_steady :: "SerializedMetadataTreeBudget \<Rightarrow> SerializedMetadataTreeBudget \<Rightarrow> bool" where
  "budget_steady b0 b \<longleftrightarrow>
     b = b0\<lparr>node_records := node_records b, string_bytes := string_bytes b\<rparr> \<and>
     node_records b0 \<le> node_records b \<and> node_records b \<le> max_node_records b0 \<and>
     string_bytes b0 \<le> string_bytes b \<and> string_bytes b \<le> max_string_bytes b0"

lemma budget_caps:
  "budget_steady b0 b \<Longrightarrow> max_node_records b = max_node_records b0 \<and> max_string_bytes b = max_string_bytes b0"
  unfolding budget_steady_def
  by (metis SerializedMetadataTreeBudget.select_convs(1,2) SerializedMetadataTreeBudget.surjective
      SerializedMetadataTreeBudget.update_convs(3,4))

lemma charged_between:
  fixes used :: u64
  assumes "used0 \<le> used" "used \<le> limit" "n \<le> limit - used"
  shows "used0 \<le> used + n \<and> used + n \<le> limit"
  using assms charge_value [OF assms(2,3)] charge_iff [OF assms(2), of n]
  by (auto simp: word_le_nat_alt)

lemma step_keeps_on_reader [step_inv_intros]:
  "step_keeps (steady r0) m \<Longrightarrow> step_keeps (\<lambda>(r, b). steady r0 r \<and> P b) (on_reader m)"
  by (auto simp: on_reader_def step_inside_def step_keeps_def split: option.split prod.split)

lemma step_keeps_counts [step_inv_intros]:
  "step_keeps (\<lambda>(r, b). steady r0 r \<and> budget_steady b0 b) (count_nodes count offset)"
  "step_keeps (\<lambda>(r, b). steady r0 r \<and> budget_steady b0 b) (count_strings count offset)"
proof -
  have nodes: "budget_steady b0 (b\<lparr>node_records := node_records b + n\<rparr>)"
    if "budget_steady b0 b" "n \<le> max_node_records b - node_records b" for b n
    using that charged_between [of "node_records b0" "node_records b" "max_node_records b0" n] budget_caps [OF that(1)]
    by (cases b; cases b0) (simp add: budget_steady_def)
  have strings: "budget_steady b0 (b\<lparr>string_bytes := string_bytes b + n\<rparr>)"
    if "budget_steady b0 b" "n \<le> max_string_bytes b - string_bytes b" for b n
    using that charged_between [of "string_bytes b0" "string_bytes b" "max_string_bytes b0" n] budget_caps [OF that(1)]
    by (cases b; cases b0) (simp add: budget_steady_def)
  show "step_keeps (\<lambda>(r, b). steady r0 r \<and> budget_steady b0 b) (count_nodes count offset)"
    "step_keeps (\<lambda>(r, b). steady r0 r \<and> budget_steady b0 b) (count_strings count offset)"
    using nodes strings
    by (auto simp: step_keeps_def count_nodes_def count_strings_def step_then_def step_require_def step_modify_def
        reject_tree_def steady_reject split: if_splits)
qed

lemma step_keeps_tree:
  "step_keeps (\<lambda>(r, b). steady r0 r \<and> budget_steady b0 b) (serialized_metadata_read_tree mem)"
  unfolding serialized_metadata_read_tree_def
  by (intro step_inv_intros) (auto simp: reject_tree_def steady_reject)

lemma steady_string:
  "within (string_gauge limit) (r, n) \<Longrightarrow> steady r0 r \<Longrightarrow>
     read_string_bytes mem limit start (r, n) = (x, t) \<Longrightarrow> steady r0 (fst t) \<and> n \<le> snd t"
proof (induction "unat (reader_metadata_end r) - unat (reader_position r)" arbitrary: r n rule: less_induct)
  case (less r n)
  show ?case
  proof (cases "affords (string_gauge limit) (r, n) (string_use 1)")
    case False
    from string_byte_refused [OF less.prems(1) this, of mem start]
    show ?thesis using less.prems steady_reject by auto
  next
    case True
    let ?r = "r\<lparr>reader_work_used := reader_work_used r + 1, reader_position := reader_position r + 1\<rparr>"
    note byte = string_byte_taken [OF less.prems(1) True]
    have r: "within reader_gauge r" using less.prems by (simp add: string_within)
    have fits: "unat (reader_position r) + unat (1 :: u64) \<le> reader_cap r Bytes"
      "unat (reader_work_used r) + unat (1 :: u64) \<le> unat (reader_max_work r)"
      using True unfolding string_affords [OF less.prems(1)] by simp_all
    have next_steady: "steady r0 ?r"
      using advanced_spends [OF r fits] fits affords_take [OF r, of 1]
      by (intro steady_advance [OF less.prems(2), of "both (use Bytes 1) (use Work 1)"]) simp_all
    have up: "n \<le> n + 1"
    proof -
      have "n < limit" using less.prems(1) byte(2) by (simp add: string_within order_less_le)
      then have "unat (n + 1) = unat n + 1"
        using u64_bound [of limit] by (subst unat_add_fits) (simp_all add: word_less_nat_alt)
      then show ?thesis by (simp add: word_le_nat_alt)
    qed
    have closer: "unat (reader_metadata_end ?r) - unat (reader_position ?r) <
        unat (reader_metadata_end r) - unat (reader_position r)"
      using byte(6) fits(1) by (auto intro: diff_less_mono2)
    show ?thesis
      using less.hyps [OF closer spends_within [OF True byte(4)] next_steady] less.prems(3) byte next_steady
      by (auto simp: read_string_bytes.simps [of mem limit start r n] intro: up order_trans [OF up] split: if_splits)
  qed
qed

datatype reader_call = Take u64 | ReadU32 | ReadCount | ReadTypePrefix | ReadTree | ReadString

text \<open>A call on the reader, the tree budget and the counter of terminated bytes, whatever its outcome.\<close>

definition reader_call ::
    "memory \<Rightarrow> u64 \<Rightarrow> reader_call \<Rightarrow> SerializedMetadataReader \<times> SerializedMetadataTreeBudget \<times> u64 \<Rightarrow>
     SerializedMetadataReader \<times> SerializedMetadataTreeBudget \<times> u64" where
  "reader_call mem limit call = (\<lambda>(r, b, n).
     (case call of
        Take width \<Rightarrow> (snd (serialized_metadata_take width r), b, n)
      | ReadU32 \<Rightarrow> (snd (serialized_metadata_read_u32 mem r), b, n)
      | ReadCount \<Rightarrow> (snd (serialized_metadata_read_count mem r), b, n)
      | ReadTypePrefix \<Rightarrow> (snd (serialized_metadata_read_type_prefix mem r), b, n)
      | ReadTree \<Rightarrow> (let (r, b) = snd (serialized_metadata_read_tree mem (r, b)) in (r, b, n))
      | ReadString \<Rightarrow>
          (let (r, n) = snd (serialized_metadata_read_terminated_string mem limit (r, n)) in (r, b, n))))"

lemma meters_string:
  "meters (string_gauge limit) (base, selector, extent, origin) (\<lambda>_. (base, selector, extent, origin))
     (serialized_metadata_read_terminated_string mem limit) (g_string mem base (unat extent))"
proof (rule metersI)
  fix s t
  assume s: "within (string_gauge limit) s" "env (string_gauge limit) s = (base, selector, extent, origin)"
    and run: "serialized_metadata_read_terminated_string mem limit s = (None, t)"
  obtain r n where rn: "s = (r, n)" by (cases s)
  have none: "within (string_gauge limit) t \<and> failed (string_gauge limit) t \<and>
      cap (string_gauge limit) t = cap (string_gauge limit) s \<and>
      \<not> (\<exists>k. first_zero mem base (unat (reader_position r)) (unat extent - unat (reader_position r)) = Some k \<and>
            affords (string_gauge limit) s (string_use (k + 1)))"
    using string_bytes_outcome [of limit r n mem "reader_position r"] s run
    by (simp add: rn serialized_metadata_read_terminated_string_def reader_frame_def)
  then show "within (string_gauge limit) t \<and> failed (string_gauge limit) t \<and>
      cap (string_gauge limit) t = cap (string_gauge limit) s" by blast
  fix x u
  assume "g_string mem base (unat extent) (level (string_gauge limit) s Bytes) = Some (x, u)"
    "affords (string_gauge limit) s u"
  with none show False by (auto simp: g_string_def rn)
next
  fix s t x
  assume s: "within (string_gauge limit) s" "env (string_gauge limit) s = (base, selector, extent, origin)"
    and run: "serialized_metadata_read_terminated_string mem limit s = (Some x, t)"
  obtain r n where rn: "s = (r, n)" by (cases s)
  obtain k where k: "first_zero mem base (unat (reader_position r)) (unat extent - unat (reader_position r)) = Some k"
    "affords (string_gauge limit) s (string_use (k + 1))" "spends (string_gauge limit) s (string_use (k + 1)) t"
    "reader_frame (fst t) = reader_frame r"
    "x = \<lparr>span_data = base + reader_position r, span_offset = reader_position r,
       span_size = of_nat (unat (reader_position r) + k + 1) - reader_position r\<rparr>"
    using string_bytes_outcome [of limit r n mem "reader_position r"] s run
    by (auto simp: rn serialized_metadata_read_terminated_string_def reader_frame_def)
  have "env (string_gauge limit) t = (base, selector, extent, origin)" using k(4) s by (cases t) (simp add: rn)
  moreover have "x = mapped_span base (reader_position r) (of_nat (k + 1))"
    by (simp add: k(5) mapped_span_def)
  ultimately show "\<exists>u. g_string mem base (unat extent) (level (string_gauge limit) s Bytes) = Some (x, u) \<and>
      affords (string_gauge limit) s u \<and> spends (string_gauge limit) s u t \<and>
      env (string_gauge limit) t = (base, selector, extent, origin)"
    using k by (auto simp: g_string_def rn)
qed

lemma reader_call_steady:
  assumes "steady r0 r" "budget_steady b0 b" "n \<le> limit" "reader_call mem limit call (r, b, n) = (r', b', n')"
  shows "steady r0 r' \<and> budget_steady b0 b' \<and> n \<le> n' \<and> n' \<le> limit"
proof (cases call)
  case ReadTree
  then show ?thesis
    using assms step_keepsD [OF step_keeps_tree [of r0 b0 mem], of "(r, b)"]
    by (cases "serialized_metadata_read_tree mem (r, b)") (auto simp: reader_call_def)
next
  case ReadString
  have s: "within (string_gauge limit) (r, n)" using assms by (simp add: string_within steady_def)
  obtain x t where run: "read_string_bytes mem limit (reader_position r) (r, n) = (x, t)" by (metis surj_pair)
  have "within (string_gauge limit) t"
    using string_bytes_outcome [OF s, of mem "reader_position r"] run
    by (cases x) (auto intro: spends_within)
  then show ?thesis
    using steady_string [OF s assms(1) run] assms run ReadString
    by (cases t) (simp add: reader_call_def serialized_metadata_read_terminated_string_def string_within)
qed (use assms step_keeps_take [of r0] step_keeps_u32 [of r0 mem] step_keeps_count [of r0 mem]
    step_keeps_type_prefix [of r0 mem] in \<open>auto simp: reader_call_def step_keeps_def\<close>)

section \<open>Correctness\<close>

definition in_order :: "u8 \<Rightarrow> u8 list \<Rightarrow> u8 list" where
  "in_order selector bytes = (if selector \<noteq> 0 then bytes else rev bytes)"

lemma decode_u32_value:
  "unat (serialized_metadata_decode_u32 mem a selector) = be_value (in_order selector (mapped_bytes mem a 0 4))"
  unfolding serialized_metadata_decode_u32_def
  by (simp add: be_value_4 in_order_def mapped_bytes_def upt_rec)

text \<open>
  The decoders give the positional value of the 2, 4 or 8 bytes at the address,
  most significant byte first for a nonzero selector and last for selector 0.
\<close>

theorem decode_positional:
  "unat (serialized_metadata_decode_u16 mem a selector) = be_value (in_order selector (mapped_bytes mem a 0 2)) \<and>
   unat (serialized_metadata_decode_u32 mem a selector) = be_value (in_order selector (mapped_bytes mem a 0 4)) \<and>
   unat (serialized_metadata_decode_u64 mem a selector) = be_value (in_order selector (mapped_bytes mem a 0 8))"
proof (intro conjI decode_u32_value)
  have "unat (push_bit 8 (ucast x) OR ucast y :: u16) = be_value [x, y]" for x y :: u8
  proof -
    have "unat (ucast z :: u16) = unat z" for z :: u8 by (rule unat_widen) simp
    moreover have "unat x \<le> 255" using byte_bound [of x] by linarith
    ultimately have "unat (push_bit 8 (ucast x) OR ucast y :: u16) = unat x * 2 ^ 8 + unat y"
      by (subst unat_push_or) (use byte_bound [of y] in simp_all)
    then show ?thesis by (simp add: be_value_def)
  qed
  then show "unat (serialized_metadata_decode_u16 mem a selector) =
      be_value (in_order selector (mapped_bytes mem a 0 2))"
    by (simp add: serialized_metadata_decode_u16_def in_order_def mapped_bytes_def upt_rec)
next
  have pair: "unat (push_bit 32 (ucast hi) OR ucast lo :: u64) = unat hi * 256 ^ 4 + unat lo" for hi lo :: u32
  proof -
    have wide: "unat (ucast z :: u64) = unat z" for z :: u32 by (rule unat_widen) simp
    have "unat z < 4294967296" for z :: u32 using unsigned_less [of z] by simp
    from this [of hi] this [of lo]
    have "unat (push_bit 32 (ucast hi) OR ucast lo :: u64) = unat hi * 2 ^ 32 + unat lo"
      by (subst unat_push_or) (simp_all add: wide)
    then show ?thesis by simp
  qed
  let ?low = "mapped_bytes mem a 0 4" and ?high = "mapped_bytes mem (a + 4) 0 4"
  have split: "mapped_bytes mem a 0 8 = ?low @ ?high"
    by (simp add: mapped_bytes_def upt_rec add.assoc)
  have length: "length ?low = 4" "length ?high = 4" by (simp_all add: mapped_bytes_def)
  show "unat (serialized_metadata_decode_u64 mem a selector) =
      be_value (in_order selector (mapped_bytes mem a 0 8))"
    unfolding serialized_metadata_decode_u64_def split
    by (cases "selector = 0") (simp_all add: pair decode_u32_value in_order_def be_value_append length)
qed

text \<open>
  Property C9. On a reader inside its caps, reading a type prefix or a tree succeeds exactly
  where the grammar accepts the bytes at the cursor and the caps for bytes, work, nodes and
  strings afford what the grammar uses; it then gives the grammar's value and has used
  exactly that. Otherwise it records a failure and stays inside the caps.
\<close>

theorem reader_structures_refine:
  "meters reader_gauge (base, selector, extent) (\<lambda>_. (base, selector, extent))
     (serialized_metadata_read_type_prefix mem) (g_type_prefix mem base selector) \<and>
   meters tree_gauge (base, selector, extent) (\<lambda>_. (base, selector, extent))
     (serialized_metadata_read_tree mem) (g_tree mem base selector)"
  by (simp add: meters_type_prefix meters_tree)

text \<open>
  Property C25. Reading a terminated string succeeds exactly when a zero byte follows before
  the end of the metadata and every byte up to it fits the caps for bytes, work and
  terminated bytes; the span is the bytes up to and including the first zero.
\<close>

theorem reader_string_refines:
  "meters (string_gauge limit) (base, selector, extent, origin) (\<lambda>_. (base, selector, extent, origin))
     (serialized_metadata_read_terminated_string mem limit) (g_string mem base (unat extent))"
  by (rule meters_string)

text \<open>
  Property C26. Whatever calls are made on a reader and a tree budget inside their caps, and
  whether they succeed or fail: nothing but the cursor, the work, the outcome and the two tree
  counters changes, so the backing, the extents and every budget stay as they were; the cursor
  never moves back and stays inside the metadata, the mapping and the byte budget; every byte it
  moved over was charged one unit of work, within the work budget; and the counters of nodes,
  string bytes and terminated bytes never fall and stay below their caps.
\<close>

theorem reader_calls_steady:
  assumes "within tree_gauge (r0, b0)" and "n0 \<le> limit"
  shows "case fold (reader_call mem limit) calls (r0, b0, n0) of (r, b, n) \<Rightarrow>
    r = r0\<lparr>reader_work_used := reader_work_used r, reader_position := reader_position r,
      reader_status := reader_status r, reader_error_offset := reader_error_offset r\<rparr> \<and>
    b = b0\<lparr>node_records := node_records b, string_bytes := string_bytes b\<rparr> \<and>
    reader_position r0 \<le> reader_position r \<and>
    reader_position r \<le> reader_metadata_end r0 \<and> reader_position r \<le> reader_mapped_size r0 \<and>
    unat (reader_position r) \<le> unat (reader_byte_budget_origin r0) + unat (reader_max_bytes r0) \<and>
    unat (reader_work_used r) + unat (reader_position r0) =
      unat (reader_work_used r0) + unat (reader_position r) \<and>
    reader_work_used r \<le> reader_max_work r0 \<and>
    node_records b0 \<le> node_records b \<and> node_records b \<le> max_node_records b0 \<and>
    string_bytes b0 \<le> string_bytes b \<and> string_bytes b \<le> max_string_bytes b0 \<and>
    n0 \<le> n \<and> n \<le> limit"
proof -
  have start: "within reader_gauge r0" "budget_steady b0 b0"
    using assms(1) by (simp_all add: tree_within budget_steady_def)
  have "steady r0 r \<and> budget_steady b0 b \<and> n0 \<le> n \<and> n \<le> limit \<Longrightarrow>
      fold (reader_call mem limit) calls (r, b, n) = (r', b', n') \<Longrightarrow>
      steady r0 r' \<and> budget_steady b0 b' \<and> n0 \<le> n' \<and> n' \<le> limit" for r b n r' b' n'
  proof (induction calls arbitrary: r b n)
    case (Cons call calls)
    obtain r1 b1 n1 where first: "reader_call mem limit call (r, b, n) = (r1, b1, n1)" by (metis surj_pair)
    have "steady r0 r1 \<and> budget_steady b0 b1 \<and> n \<le> n1 \<and> n1 \<le> limit"
      by (rule reader_call_steady [OF _ _ _ first]) (use Cons.prems(1) in blast)+
    with Cons.IH [of r1 b1 n1] Cons.prems first show ?case by (auto intro: order_trans)
  qed simp
  moreover obtain r' b' n' where run: "fold (reader_call mem limit) calls (r0, b0, n0) = (r', b', n')"
    by (metis surj_pair)
  ultimately have kept: "steady r0 r'" "budget_steady b0 b'" "n0 \<le> n'" "n' \<le> limit"
    using assms(2) start steady_refl by blast+
  have shape: "r' = r0\<lparr>reader_work_used := reader_work_used r', reader_position := reader_position r',
      reader_status := reader_status r', reader_error_offset := reader_error_offset r'\<rparr>"
    using kept(1) by (simp add: steady_def)
  have same: "reader_metadata_end r' = reader_metadata_end r0" "reader_mapped_size r' = reader_mapped_size r0"
    "reader_byte_budget_origin r' = reader_byte_budget_origin r0" "reader_max_bytes r' = reader_max_bytes r0"
    "reader_max_work r' = reader_max_work r0"
    by (subst shape, simp)+
  have "unat (reader_position r') \<le> reader_cap r' Bytes" "reader_work_used r' \<le> reader_max_work r'"
    using kept(1) by (simp_all add: steady_def reader_within)
  then have "reader_position r' \<le> reader_metadata_end r0" "reader_position r' \<le> reader_mapped_size r0"
    "unat (reader_position r') \<le> unat (reader_byte_budget_origin r0) + unat (reader_max_bytes r0)"
    "reader_work_used r' \<le> reader_max_work r0"
    by (simp_all add: same word_le_nat_alt)
  then show ?thesis
    using kept shape unfolding run steady_def budget_steady_def by simp
qed

theorem reader_calls_steady_witness:
  "case fold (reader_call (\<lambda>_. 0) 3) [ReadU32, ReadString, Take 9]
      (\<lparr>reader_bytes = 64, reader_mapped_size = 20, reader_metadata_end = 20, reader_byte_budget_origin = 8,
        reader_max_bytes = 12, reader_max_work = 30, reader_work_used = 2, reader_position = 10,
        reader_endian_selector = 1, reader_status = SERIALIZED_METADATA_READ_OK, reader_error_offset = 0\<rparr>,
       \<lparr>max_node_records = 1, max_string_bytes = 1, node_records = 0, string_bytes = 0\<rparr>, 0) of
     (r, b, n) \<Rightarrow> 10 \<le> reader_position r \<and> reader_position r \<le> 20 \<and> reader_max_bytes r = 12 \<and>
       max_node_records b = 1 \<and> n \<le> 3"
proof -
  let ?r = "\<lparr>reader_bytes = 64, reader_mapped_size = 20, reader_metadata_end = 20, reader_byte_budget_origin = 8,
    reader_max_bytes = 12, reader_max_work = 30, reader_work_used = 2, reader_position = 10,
    reader_endian_selector = 1, reader_status = SERIALIZED_METADATA_READ_OK, reader_error_offset = 0\<rparr>"
  let ?b = "\<lparr>max_node_records = 1, max_string_bytes = 1, node_records = 0, string_bytes = 0\<rparr>"
  have "within tree_gauge (?r, ?b)" by (simp add: tree_within reader_within)
  note kept = reader_calls_steady [OF this, of 0 3 "\<lambda>_. 0" "[ReadU32, ReadString, Take 9]"]
  obtain r b n where run: "fold (reader_call (\<lambda>_. 0) 3) [ReadU32, ReadString, Take 9] (?r, ?b, 0) = (r, b, n)"
    by (metis surj_pair)
  have r: "r = ?r\<lparr>reader_work_used := reader_work_used r, reader_position := reader_position r,
      reader_status := reader_status r, reader_error_offset := reader_error_offset r\<rparr>"
    and b: "b = ?b\<lparr>node_records := node_records b, string_bytes := string_bytes b\<rparr>"
    and rest: "10 \<le> reader_position r \<and> reader_position r \<le> 20 \<and> n \<le> 3"
    using kept unfolding run by simp_all
  have "reader_max_bytes r = 12" "max_node_records b = 1" by (subst r, simp) (subst b, simp)
  with rest show ?thesis unfolding run by simp
qed

end
