(* ===== verification/FileDirectory.thy ===== *)
theory FileDirectory
  imports MetadataReader Allocation
begin

text \<open>
  \<open>src/io/serialized_file_directory.c\<close>: the index of the ordinary types and objects of a
  serialized file. Construction admits the prefix and the engine version, scans the tables
  twice, once to count and once into one allocation, and publishes the storage. The handle
  is the storage it owns, if any; \<open>place i\<close> is the address of the \<open>i\<close>-th allocation request
  and \<open>locals\<close> the addresses of the prefix limits and view that live in the caller's frame.
\<close>

section \<open>Model of the code\<close>

abbreviation ENGINE_2021_3_35F1 :: u32 where "ENGINE_2021_3_35F1 \<equiv> 1"
abbreviation ENGINE_2021_3_29F1 :: u32 where "ENGINE_2021_3_29F1 \<equiv> 2"

record SerializedFileDirectoryLimits =
  directory_max_version_bytes :: u64
  directory_max_types :: u64
  directory_max_objects :: u64
  directory_max_node_records :: u64
  directory_max_string_bytes :: u64
  directory_max_dependency_words :: u64
  directory_max_metadata_bytes :: u64
  directory_max_retained_bytes :: u64
  directory_max_scratch_bytes :: u64
  directory_max_work :: u64

record SerializedFileDirectoryTypeRow =
  type_ordinal :: u64
  type_source :: SerializedFilePrefixSpan
  type_prefix :: SerializedMetadataTypePrefix
  has_tree :: bool
  type_tree :: SerializedFileDirectoryTree
  dependency_count_source :: SerializedFilePrefixSpan
  dependency_words_source :: SerializedFilePrefixSpan
  dependency_count :: u32

record SerializedFileDirectoryObjectRow =
  object_ordinal :: u64
  object_source :: SerializedFilePrefixSpan
  path_id_bits :: u64
  relative_data_offset :: u64
  byte_size :: u32
  object_type_ordinal :: u32
  payload :: SerializedFilePrefixRange

record SerializedFileDirectoryView =
  view_engine_version :: u32
  view_prefix :: SerializedFilePrefixView
  parsed_metadata_source :: SerializedFilePrefixSpan
  type_count_source :: SerializedFilePrefixSpan
  type_rows_source :: SerializedFilePrefixSpan
  object_count_source :: SerializedFilePrefixSpan
  object_padding_source :: SerializedFilePrefixSpan
  object_rows_source :: SerializedFilePrefixSpan
  view_remaining_metadata :: SerializedFilePrefixRange
  type_count :: u64
  object_count :: u64
  node_record_count :: u64
  view_string_byte_count :: u64
  dependency_word_count :: u64
  retained_bytes :: u64

datatype SerializedFileDirectoryStatus =
    SERIALIZED_FILE_DIRECTORY_OK
  | SERIALIZED_FILE_DIRECTORY_INVALID_ARGUMENT
  | SERIALIZED_FILE_DIRECTORY_INVALID_STATE
  | SERIALIZED_FILE_DIRECTORY_PREFIX_REJECTED
  | SERIALIZED_FILE_DIRECTORY_UNSUPPORTED_ENGINE_VERSION
  | SERIALIZED_FILE_DIRECTORY_UNSUPPORTED_TREE_FLAG
  | SERIALIZED_FILE_DIRECTORY_UNSUPPORTED_TYPE_SHAPE
  | SERIALIZED_FILE_DIRECTORY_UNSUPPORTED_TREE_SHAPE
  | SERIALIZED_FILE_DIRECTORY_MALFORMED_METADATA
  | SERIALIZED_FILE_DIRECTORY_INCOMPLETE_MAPPING
  | SERIALIZED_FILE_DIRECTORY_LIMIT_EXCEEDED
  | SERIALIZED_FILE_DIRECTORY_ALLOCATION_FAILED

datatype SerializedFileDirectoryLimit =
    SERIALIZED_FILE_DIRECTORY_LIMIT_NONE
  | SERIALIZED_FILE_DIRECTORY_LIMIT_TYPES
  | SERIALIZED_FILE_DIRECTORY_LIMIT_OBJECTS
  | SERIALIZED_FILE_DIRECTORY_LIMIT_NODES
  | SERIALIZED_FILE_DIRECTORY_LIMIT_STRING_BYTES
  | SERIALIZED_FILE_DIRECTORY_LIMIT_DEPENDENCIES
  | SERIALIZED_FILE_DIRECTORY_LIMIT_METADATA_BYTES
  | SERIALIZED_FILE_DIRECTORY_LIMIT_RETAINED_BYTES
  | SERIALIZED_FILE_DIRECTORY_LIMIT_SCRATCH_BYTES
  | SERIALIZED_FILE_DIRECTORY_LIMIT_WORK

datatype SerializedFileDirectoryField =
    SERIALIZED_FILE_DIRECTORY_FIELD_NONE
  | SERIALIZED_FILE_DIRECTORY_FIELD_ENGINE_VERSION
  | SERIALIZED_FILE_DIRECTORY_FIELD_TYPE_COUNT
  | SERIALIZED_FILE_DIRECTORY_FIELD_TYPE_ENTRY
  | SERIALIZED_FILE_DIRECTORY_FIELD_TREE
  | SERIALIZED_FILE_DIRECTORY_FIELD_DEPENDENCIES
  | SERIALIZED_FILE_DIRECTORY_FIELD_OBJECT_COUNT
  | SERIALIZED_FILE_DIRECTORY_FIELD_OBJECT_PADDING
  | SERIALIZED_FILE_DIRECTORY_FIELD_OBJECT_ENTRY
  | SERIALIZED_FILE_DIRECTORY_FIELD_OBJECT_RANGE
  | SERIALIZED_FILE_DIRECTORY_FIELD_OBJECT_TYPE

record SerializedFileDirectoryResult =
  directory_status :: SerializedFileDirectoryStatus
  directory_limit :: SerializedFileDirectoryLimit
  directory_field :: SerializedFileDirectoryField
  directory_row_ordinal :: u64
  directory_error_offset :: u64
  directory_work_used :: u64
  required_retained_bytes :: u64
  peak_retained_bytes :: u64
  peak_scratch_bytes :: u64
  prefix_attempted :: bool
  prefix_result :: SerializedFilePrefixResult

text \<open>The one allocation a directory retains, with its address and its untyped cells.\<close>

record DirectoryStorage =
  storage_address :: pointer
  storage_cells :: block
  storage_view :: SerializedFileDirectoryView
  storage_types :: "SerializedFileDirectoryTypeRow list"
  storage_objects :: "SerializedFileDirectoryObjectRow list"

type_synonym SerializedFileDirectory = "DirectoryStorage option"

abbreviation sizeof_directory_handle :: u64 where "sizeof_directory_handle \<equiv> 8"
abbreviation sizeof_directory_limits :: u64 where "sizeof_directory_limits \<equiv> 80"
abbreviation sizeof_directory_storage :: u64 where "sizeof_directory_storage \<equiv> 704"
abbreviation sizeof_type_row :: u64 where "sizeof_type_row \<equiv> 328"
abbreviation sizeof_object_row :: u64 where "sizeof_object_row \<equiv> 72"
abbreviation alignof_row :: u64 where "alignof_row \<equiv> 8"

record DirectoryLayout =
  types_offset :: u64
  objects_offset :: u64
  total_bytes :: u64

text \<open>The scan; the arrays are \<open>None\<close> in the counting pass.\<close>

record DirectoryScan =
  scan_bytes :: pointer
  scan_limits :: SerializedFileDirectoryLimits
  scan_result :: SerializedFileDirectoryResult
  scan_view :: SerializedFileDirectoryView
  scan_reader :: SerializedMetadataReader
  scan_field :: SerializedFileDirectoryField
  scan_row_ordinal :: u64
  scan_types :: "SerializedFileDirectoryTypeRow list option"
  scan_objects :: "SerializedFileDirectoryObjectRow list option"
  type_capacity :: u64
  object_capacity :: u64

definition directory_initial_result :: SerializedFileDirectoryResult where
  "directory_initial_result =
     \<lparr>directory_status = SERIALIZED_FILE_DIRECTORY_OK,
      directory_limit = SERIALIZED_FILE_DIRECTORY_LIMIT_NONE,
      directory_field = SERIALIZED_FILE_DIRECTORY_FIELD_NONE,
      directory_row_ordinal = SIZE_MAX,
      directory_error_offset = SERIALIZED_FILE_PREFIX_NO_OFFSET,
      directory_work_used = 0, required_retained_bytes = 0, peak_retained_bytes = 0,
      peak_scratch_bytes = 0, prefix_attempted = False,
      prefix_result = query_result SERIALIZED_FILE_PREFIX_INVALID_ARGUMENT 0
        SERIALIZED_FILE_PREFIX_NO_OFFSET\<rparr>"

definition directory_reject ::
    "SerializedFileDirectoryStatus \<Rightarrow> SerializedFileDirectoryLimit \<Rightarrow> SerializedFileDirectoryField \<Rightarrow>
     u64 \<Rightarrow> u64 \<Rightarrow> SerializedFileDirectoryResult \<Rightarrow> SerializedFileDirectoryResult" where
  "directory_reject status limit field row_ordinal offset result =
     result\<lparr>directory_status := status, directory_limit := limit, directory_field := field,
       directory_row_ordinal := row_ordinal, directory_error_offset := offset\<rparr>"

definition directory_charge_work ::
    "SerializedFileDirectoryLimits \<Rightarrow> u64 \<Rightarrow> SerializedFileDirectoryField \<Rightarrow> u64 \<Rightarrow> u64 \<Rightarrow>
     (SerializedFileDirectoryResult, unit) step" where
  "directory_charge_work limits amount field row_ordinal offset =
     step_then (step_require (\<lambda>result. amount \<le> directory_max_work limits - directory_work_used result)
       (directory_reject SERIALIZED_FILE_DIRECTORY_LIMIT_EXCEEDED SERIALIZED_FILE_DIRECTORY_LIMIT_WORK
          field row_ordinal offset)) (\<lambda>_.
     step_modify (\<lambda>result. result\<lparr>directory_work_used := directory_work_used result + amount\<rparr>))"

definition serialized_file_storage_overlaps_internal :: "pointer \<Rightarrow> u64 \<Rightarrow> pointer \<Rightarrow> u64 \<Rightarrow> bool" where
  "serialized_file_storage_overlaps_internal first_address first_size second_address second_size =
     (if first_size = 0 \<or> second_size = 0 then False
      else if first_address \<le> second_address
      then second_address - first_address < first_size
      else first_address - second_address < second_size)"

definition directory_valid_arguments :: "pointer \<Rightarrow> u64 \<Rightarrow> u64 \<Rightarrow> pointer \<Rightarrow> pointer \<Rightarrow> bool" where
  "directory_valid_arguments bytes mapped_size logical_size limits_address out_address \<longleftrightarrow>
     limits_address \<noteq> 0 \<and> out_address \<noteq> 0 \<and> (bytes \<noteq> 0 \<or> mapped_size = 0) \<and>
     mapped_size \<le> logical_size \<and>
     \<not> serialized_file_storage_overlaps_internal bytes mapped_size out_address sizeof_directory_handle \<and>
     \<not> serialized_file_storage_overlaps_internal bytes mapped_size limits_address sizeof_directory_limits \<and>
     \<not> serialized_file_storage_overlaps_internal limits_address sizeof_directory_limits
         out_address sizeof_directory_handle"

text \<open>\<open>reject_reader\<close>: the failure of the shared reader as a failure of the directory.\<close>

definition directory_read_failure ::
    "SerializedMetadataReadStatus \<Rightarrow> SerializedFileDirectoryStatus \<times> SerializedFileDirectoryLimit" where
  "directory_read_failure status =
     (case status of
        SERIALIZED_METADATA_READ_METADATA_END \<Rightarrow>
          (SERIALIZED_FILE_DIRECTORY_MALFORMED_METADATA, SERIALIZED_FILE_DIRECTORY_LIMIT_NONE)
      | SERIALIZED_METADATA_READ_NEGATIVE_COUNT \<Rightarrow>
          (SERIALIZED_FILE_DIRECTORY_MALFORMED_METADATA, SERIALIZED_FILE_DIRECTORY_LIMIT_NONE)
      | SERIALIZED_METADATA_READ_MAPPING_END \<Rightarrow>
          (SERIALIZED_FILE_DIRECTORY_INCOMPLETE_MAPPING, SERIALIZED_FILE_DIRECTORY_LIMIT_NONE)
      | SERIALIZED_METADATA_READ_BYTE_LIMIT \<Rightarrow>
          (SERIALIZED_FILE_DIRECTORY_LIMIT_EXCEEDED, SERIALIZED_FILE_DIRECTORY_LIMIT_METADATA_BYTES)
      | SERIALIZED_METADATA_READ_WORK_LIMIT \<Rightarrow>
          (SERIALIZED_FILE_DIRECTORY_LIMIT_EXCEEDED, SERIALIZED_FILE_DIRECTORY_LIMIT_WORK)
      | SERIALIZED_METADATA_READ_TYPE_SHAPE \<Rightarrow>
          (SERIALIZED_FILE_DIRECTORY_UNSUPPORTED_TYPE_SHAPE, SERIALIZED_FILE_DIRECTORY_LIMIT_NONE)
      | SERIALIZED_METADATA_READ_TREE_SHAPE \<Rightarrow>
          (SERIALIZED_FILE_DIRECTORY_UNSUPPORTED_TREE_SHAPE, SERIALIZED_FILE_DIRECTORY_LIMIT_NONE)
      | SERIALIZED_METADATA_READ_NODE_LIMIT \<Rightarrow>
          (SERIALIZED_FILE_DIRECTORY_LIMIT_EXCEEDED, SERIALIZED_FILE_DIRECTORY_LIMIT_NODES)
      | SERIALIZED_METADATA_READ_STRING_LIMIT \<Rightarrow>
          (SERIALIZED_FILE_DIRECTORY_LIMIT_EXCEEDED, SERIALIZED_FILE_DIRECTORY_LIMIT_STRING_BYTES)
      | SERIALIZED_METADATA_READ_OK \<Rightarrow>
          (SERIALIZED_FILE_DIRECTORY_INVALID_STATE, SERIALIZED_FILE_DIRECTORY_LIMIT_NONE)
      | SERIALIZED_METADATA_READ_TERMINATED_STRING_LIMIT \<Rightarrow>
          (SERIALIZED_FILE_DIRECTORY_INVALID_STATE, SERIALIZED_FILE_DIRECTORY_LIMIT_NONE))"

definition directory_reject_reader :: "DirectoryScan \<Rightarrow> DirectoryScan" where
  "directory_reject_reader scan =
     (let (status, limit) = directory_read_failure (reader_status (scan_reader scan)) in
      scan\<lparr>scan_result := directory_reject status limit (scan_field scan) (scan_row_ordinal scan)
        (reader_error_offset (scan_reader scan)) (scan_result scan)\<rparr>)"

text \<open>
  The reader holds a pointer to the work counter of the result: a step of the reader sees the
  counter of the result and leaves its own value there.
\<close>

definition lend_reader :: "DirectoryScan \<Rightarrow> SerializedMetadataReader" where
  "lend_reader scan = (scan_reader scan)\<lparr>reader_work_used := directory_work_used (scan_result scan)\<rparr>"

definition return_reader :: "SerializedMetadataReader \<Rightarrow> DirectoryScan \<Rightarrow> DirectoryScan" where
  "return_reader reader scan =
     scan\<lparr>scan_reader := reader,
       scan_result := (scan_result scan)\<lparr>directory_work_used := reader_work_used reader\<rparr>\<rparr>"

definition scan_read :: "(SerializedMetadataReader, 'a) step \<Rightarrow> (DirectoryScan, 'a) step" where
  "scan_read = step_inside lend_reader return_reader directory_reject_reader"

definition on_result :: "(SerializedFileDirectoryResult, 'a) step \<Rightarrow> (DirectoryScan, 'a) step" where
  "on_result = step_inside scan_result (\<lambda>result scan. scan\<lparr>scan_result := result\<rparr>) id"

definition take_bytes :: "u64 \<Rightarrow> (DirectoryScan, SerializedFilePrefixSpan) step" where
  "take_bytes width = scan_read (serialized_metadata_take width)"

definition take_count :: "memory \<Rightarrow> (DirectoryScan, SerializedFilePrefixSpan \<times> u32) step" where
  "take_count mem = scan_read (serialized_metadata_read_count mem)"

text \<open>\<open>add_cardinality\<close> on the counter that \<open>counter\<close> reads and \<open>store\<close> writes.\<close>

definition add_cardinality ::
    "(SerializedFileDirectoryView \<Rightarrow> u64) \<Rightarrow>
     (u64 \<Rightarrow> SerializedFileDirectoryView \<Rightarrow> SerializedFileDirectoryView) \<Rightarrow>
     u32 \<Rightarrow> u64 \<Rightarrow> SerializedFileDirectoryLimit \<Rightarrow> u64 \<Rightarrow> (DirectoryScan, unit) step" where
  "add_cardinality counter store count allowed limit offset =
     step_then (step_require (\<lambda>scan. ucast count \<le> allowed - counter (scan_view scan))
       (\<lambda>scan. scan\<lparr>scan_result := directory_reject SERIALIZED_FILE_DIRECTORY_LIMIT_EXCEEDED limit
          (scan_field scan) (scan_row_ordinal scan) offset (scan_result scan)\<rparr>)) (\<lambda>_.
     step_modify (\<lambda>scan. scan\<lparr>scan_view :=
       store (counter (scan_view scan) + ucast count) (scan_view scan)\<rparr>))"

abbreviation set_field :: "SerializedFileDirectoryField \<Rightarrow> (DirectoryScan, unit) step" where
  "set_field field \<equiv> step_modify (\<lambda>scan. scan\<lparr>scan_field := field\<rparr>)"

definition lend_tree :: "DirectoryScan \<Rightarrow> SerializedMetadataReader \<times> SerializedMetadataTreeBudget" where
  "lend_tree scan =
     (lend_reader scan,
      \<lparr>max_node_records = directory_max_node_records (scan_limits scan),
       max_string_bytes = directory_max_string_bytes (scan_limits scan),
       node_records = node_record_count (scan_view scan),
       string_bytes = view_string_byte_count (scan_view scan)\<rparr>)"

definition return_tree ::
    "SerializedMetadataReader \<times> SerializedMetadataTreeBudget \<Rightarrow> DirectoryScan \<Rightarrow> DirectoryScan" where
  "return_tree = (\<lambda>(reader, budget) scan. return_reader reader
     (scan\<lparr>scan_view := (scan_view scan)\<lparr>node_record_count := node_records budget,
        view_string_byte_count := string_bytes budget\<rparr>\<rparr>))"

definition scan_tree ::
    "memory \<Rightarrow> SerializedFileDirectoryTypeRow \<Rightarrow> (DirectoryScan, SerializedFileDirectoryTypeRow) step" where
  "scan_tree mem row =
     step_then (set_field SERIALIZED_FILE_DIRECTORY_FIELD_TREE) (\<lambda>_.
     step_then (step_inside lend_tree return_tree directory_reject_reader
         (serialized_metadata_read_tree mem)) (\<lambda>tree.
     step_then (set_field SERIALIZED_FILE_DIRECTORY_FIELD_DEPENDENCIES) (\<lambda>_.
     step_then (take_count mem) (\<lambda>(count_source, count).
     step_with scan_limits (\<lambda>limits.
     step_then (add_cardinality dependency_word_count (\<lambda>n view. view\<lparr>dependency_word_count := n\<rparr>)
         count (directory_max_dependency_words limits) SERIALIZED_FILE_DIRECTORY_LIMIT_DEPENDENCIES
         (span_offset count_source)) (\<lambda>_.
     step_then (take_bytes (ucast count * 4)) (\<lambda>words.
     step_return (row\<lparr>type_tree := tree, dependency_count_source := count_source,
       dependency_count := count, dependency_words_source := words\<rparr>))))))))"

definition absent_tree :: SerializedFileDirectoryTree where
  "absent_tree =
     \<lparr>node_count_source = absent_span, string_count_source = absent_span, nodes_source = absent_span,
      strings_source = absent_span, node_count = 0, string_byte_count = 0\<rparr>"

text \<open>A type row; the value is the row, which the filling pass also stores in its array.\<close>

definition scan_type :: "memory \<Rightarrow> nat \<Rightarrow> (DirectoryScan, SerializedFileDirectoryTypeRow) step" where
  "scan_type mem ordinal =
     step_then (step_modify (\<lambda>scan. scan\<lparr>scan_field := SERIALIZED_FILE_DIRECTORY_FIELD_TYPE_ENTRY,
       scan_row_ordinal := of_nat ordinal\<rparr>)) (\<lambda>_.
     step_with (reader_position \<circ> scan_reader) (\<lambda>start.
     step_then (scan_read (serialized_metadata_read_type_prefix mem)) (\<lambda>prefix.
     step_with (\<lambda>scan. type_tree_enabled_raw (view_prefix (scan_view scan)) \<noteq> 0) (\<lambda>tree.
       let row = \<lparr>type_ordinal = of_nat ordinal, type_source = absent_span, type_prefix = prefix,
         has_tree = tree, type_tree = absent_tree, dependency_count_source = absent_span,
         dependency_words_source = absent_span, dependency_count = 0\<rparr>
       in
     step_then (if tree then scan_tree mem row else step_return row) (\<lambda>row.
     step_with scan_limits (\<lambda>limits.
     step_then (on_result (directory_charge_work limits 1 SERIALIZED_FILE_DIRECTORY_FIELD_TYPE_ENTRY
         (of_nat ordinal) start)) (\<lambda>_.
     step_with (\<lambda>scan. (scan_bytes scan, reader_position (scan_reader scan))) (\<lambda>(bytes, stop).
       let row = row\<lparr>type_source := mapped_span bytes start (stop - start)\<rparr> in
     step_then (step_modify (\<lambda>scan. scan\<lparr>scan_types :=
         map_option (\<lambda>rows. rows[ordinal := row]) (scan_types scan)\<rparr>)) (\<lambda>_.
     step_return row)))))))))"

definition object_require ::
    "bool \<Rightarrow> SerializedFileDirectoryField \<Rightarrow> nat \<Rightarrow> u64 \<Rightarrow> (DirectoryScan, unit) step" where
  "object_require valid field ordinal offset =
     step_require (\<lambda>_. valid) (\<lambda>scan. scan\<lparr>scan_result :=
       directory_reject SERIALIZED_FILE_DIRECTORY_MALFORMED_METADATA SERIALIZED_FILE_DIRECTORY_LIMIT_NONE
         field (of_nat ordinal) offset (scan_result scan)\<rparr>)"

definition scan_object :: "memory \<Rightarrow> nat \<Rightarrow> (DirectoryScan, SerializedFileDirectoryObjectRow) step" where
  "scan_object mem ordinal =
     step_then (step_modify (\<lambda>scan. scan\<lparr>scan_field := SERIALIZED_FILE_DIRECTORY_FIELD_OBJECT_ENTRY,
       scan_row_ordinal := of_nat ordinal\<rparr>)) (\<lambda>_.
     step_then (take_bytes 24) (\<lambda>source.
     step_with (\<lambda>scan. (header (view_prefix (scan_view scan)), type_count (scan_view scan))) (\<lambda>(head, types).
       let selector = endian_selector head;
           path_id = serialized_metadata_decode_u64 mem (span_data source) selector;
           relative = serialized_metadata_decode_u64 mem (span_data source + 8) selector;
           amount = serialized_metadata_decode_u32 mem (span_data source + 16) selector;
           type_row = serialized_metadata_decode_u32 mem (span_data source + 20) selector;
           data_size = file_size head - data_offset head
       in
     step_then (object_require (relative \<le> data_size)
         SERIALIZED_FILE_DIRECTORY_FIELD_OBJECT_RANGE ordinal (span_offset source + 8)) (\<lambda>_.
     step_then (object_require (ucast amount \<le> data_size - relative)
         SERIALIZED_FILE_DIRECTORY_FIELD_OBJECT_RANGE ordinal (span_offset source + 16)) (\<lambda>_.
     step_then (object_require (ucast type_row < types)
         SERIALIZED_FILE_DIRECTORY_FIELD_OBJECT_TYPE ordinal (span_offset source + 20)) (\<lambda>_.
       let row = \<lparr>object_ordinal = of_nat ordinal, object_source = source, path_id_bits = path_id,
         relative_data_offset = relative, byte_size = amount, object_type_ordinal = type_row,
         payload = \<lparr>range_offset = data_offset head + relative, range_size = ucast amount\<rparr>\<rparr>
       in
     step_with scan_limits (\<lambda>limits.
     step_then (on_result (directory_charge_work limits 1 SERIALIZED_FILE_DIRECTORY_FIELD_OBJECT_ENTRY
         (of_nat ordinal) (span_offset source))) (\<lambda>_.
     step_then (step_modify (\<lambda>scan. scan\<lparr>scan_objects :=
         map_option (\<lambda>rows. rows[ordinal := row]) (scan_objects scan)\<rparr>)) (\<lambda>_.
     step_return row)))))))))"

text \<open>The count of a table, checked against its cap and, in the filling pass, the capacity.\<close>

definition scan_count ::
    "memory \<Rightarrow> SerializedFileDirectoryField \<Rightarrow> SerializedFileDirectoryLimit \<Rightarrow>
     (SerializedFileDirectoryLimits \<Rightarrow> u64) \<Rightarrow> (DirectoryScan \<Rightarrow> u64 option) \<Rightarrow>
     (DirectoryScan, SerializedFilePrefixSpan \<times> u32) step" where
  "scan_count mem field limit cap_of capacity =
     step_then (step_modify (\<lambda>scan. scan\<lparr>scan_field := field, scan_row_ordinal := SIZE_MAX\<rparr>)) (\<lambda>_.
     step_then (take_count mem) (\<lambda>(source, count).
     step_then (step_require (\<lambda>scan. ucast count \<le> cap_of (scan_limits scan))
       (\<lambda>scan. scan\<lparr>scan_result := directory_reject SERIALIZED_FILE_DIRECTORY_LIMIT_EXCEEDED limit
          (scan_field scan) SIZE_MAX (span_offset source) (scan_result scan)\<rparr>)) (\<lambda>_.
     step_then (step_require (\<lambda>scan. case capacity scan of None \<Rightarrow> True | Some n \<Rightarrow> ucast count = n)
       (\<lambda>scan. scan\<lparr>scan_result := directory_reject SERIALIZED_FILE_DIRECTORY_MALFORMED_METADATA
          SERIALIZED_FILE_DIRECTORY_LIMIT_NONE (scan_field scan) SIZE_MAX (span_offset source)
          (scan_result scan)\<rparr>)) (\<lambda>_.
     step_return (source, count)))))"

definition types_capacity :: "DirectoryScan \<Rightarrow> u64 option" where
  "types_capacity scan = map_option (\<lambda>_. type_capacity scan) (scan_types scan)"

definition objects_capacity :: "DirectoryScan \<Rightarrow> u64 option" where
  "objects_capacity scan = map_option (\<lambda>_. object_capacity scan) (scan_objects scan)"

text \<open>What one pass found: the spans it stored in the view and the rows.\<close>

record DirectorySections =
  section_type_count :: SerializedFilePrefixSpan
  section_types :: SerializedFilePrefixSpan
  section_object_count :: SerializedFilePrefixSpan
  section_padding :: SerializedFilePrefixSpan
  section_objects :: SerializedFilePrefixSpan
  section_type_total :: u32
  section_object_total :: u32
  section_type_rows :: "SerializedFileDirectoryTypeRow list"
  section_object_rows :: "SerializedFileDirectoryObjectRow list"

definition object_padding :: "u64 \<Rightarrow> u32 \<Rightarrow> u64" where
  "object_padding position count =
     (let remainder = (position - SERIALIZED_FILE_V22_HEADER_SIZE) mod 4
      in if count \<noteq> 0 \<and> remainder \<noteq> 0 then 4 - remainder else 0)"

definition scan_directory :: "memory \<Rightarrow> (DirectoryScan, DirectorySections) step" where
  "scan_directory mem =
     step_then (scan_count mem SERIALIZED_FILE_DIRECTORY_FIELD_TYPE_COUNT
         SERIALIZED_FILE_DIRECTORY_LIMIT_TYPES directory_max_types types_capacity) (\<lambda>(types_at, types).
     step_then (step_modify (\<lambda>scan. scan\<lparr>scan_view :=
         (scan_view scan)\<lparr>type_count_source := types_at, type_count := ucast types\<rparr>\<rparr>)) (\<lambda>_.
     step_with (reader_position \<circ> scan_reader) (\<lambda>types_start.
     step_then (scan_rows (scan_type mem) 0 (unat types)) (\<lambda>type_rows.
     step_with (\<lambda>scan. (scan_bytes scan, reader_position (scan_reader scan))) (\<lambda>(bytes, types_stop).
       let types_span = mapped_span bytes types_start (types_stop - types_start) in
     step_then (step_modify (\<lambda>scan. scan\<lparr>scan_view :=
         (scan_view scan)\<lparr>type_rows_source := types_span\<rparr>\<rparr>)) (\<lambda>_.
     step_then (scan_count mem SERIALIZED_FILE_DIRECTORY_FIELD_OBJECT_COUNT
         SERIALIZED_FILE_DIRECTORY_LIMIT_OBJECTS directory_max_objects objects_capacity)
       (\<lambda>(objects_at, objects).
     step_then (step_modify (\<lambda>scan. scan\<lparr>scan_view :=
         (scan_view scan)\<lparr>object_count_source := objects_at, object_count := ucast objects\<rparr>\<rparr>)) (\<lambda>_.
     step_with (reader_position \<circ> scan_reader) (\<lambda>position.
     step_then (set_field SERIALIZED_FILE_DIRECTORY_FIELD_OBJECT_PADDING) (\<lambda>_.
     step_then (take_bytes (object_padding position objects)) (\<lambda>padding.
     step_then (step_modify (\<lambda>scan. scan\<lparr>scan_view :=
         (scan_view scan)\<lparr>object_padding_source := padding\<rparr>\<rparr>)) (\<lambda>_.
     step_with (reader_position \<circ> scan_reader) (\<lambda>objects_start.
     step_then (scan_rows (scan_object mem) 0 (unat objects)) (\<lambda>object_rows.
     step_with (\<lambda>scan. (scan_bytes scan, reader_position (scan_reader scan))) (\<lambda>(bytes, stop).
       let objects_span = mapped_span bytes objects_start (stop - objects_start) in
     step_then (step_modify (\<lambda>scan. scan\<lparr>scan_view :=
         (scan_view scan)\<lparr>object_rows_source := objects_span,
            parsed_metadata_source :=
              mapped_span bytes SERIALIZED_FILE_V22_HEADER_SIZE (stop - SERIALIZED_FILE_V22_HEADER_SIZE),
            view_remaining_metadata :=
              \<lparr>range_offset = stop,
               range_size =
                 range_offset (metadata_to_data_gap (header (view_prefix (scan_view scan)))) - stop\<rparr>\<rparr>\<rparr>))
       (\<lambda>_.
     step_return
       \<lparr>section_type_count = types_at, section_types = types_span, section_object_count = objects_at,
        section_padding = padding, section_objects = objects_span, section_type_total = types,
        section_object_total = objects, section_type_rows = type_rows,
        section_object_rows = object_rows\<rparr>))))))))))))))))"

section \<open>Admission, storage and ownership\<close>

definition expected_version :: "u32 \<Rightarrow> u8 list option" where
  "expected_version engine =
     (if engine = ENGINE_2021_3_35F1 then Some [50, 48, 50, 49, 46, 51, 46, 51, 53, 102, 49]
      else if engine = ENGINE_2021_3_29F1 then Some [50, 48, 50, 49, 46, 51, 46, 50, 57, 102, 49]
      else None)"

abbreviation reject_admission ::
    "SerializedFileDirectoryStatus \<Rightarrow> SerializedFileDirectoryField \<Rightarrow> u64 \<Rightarrow>
     SerializedFileDirectoryResult \<Rightarrow> SerializedFileDirectoryResult" where
  "reject_admission status field offset \<equiv>
     directory_reject status SERIALIZED_FILE_DIRECTORY_LIMIT_NONE field SIZE_MAX offset"

definition check_version_byte ::
    "memory \<Rightarrow> SerializedFileDirectoryLimits \<Rightarrow> SerializedFilePrefixSpan \<Rightarrow> u8 list \<Rightarrow> nat \<Rightarrow>
     (SerializedFileDirectoryResult, unit) step" where
  "check_version_byte mem limits version expected index =
     (let offset = span_offset version + of_nat index in
      step_then (directory_charge_work limits 1 SERIALIZED_FILE_DIRECTORY_FIELD_ENGINE_VERSION SIZE_MAX offset)
        (\<lambda>_.
      step_require (\<lambda>_. index < length expected \<and> mem (span_data version + of_nat index) = expected ! index)
        (reject_admission SERIALIZED_FILE_DIRECTORY_UNSUPPORTED_ENGINE_VERSION
           SERIALIZED_FILE_DIRECTORY_FIELD_ENGINE_VERSION offset)))"

definition check_prefix ::
    "memory \<Rightarrow> u32 \<Rightarrow> SerializedFileDirectoryLimits \<Rightarrow> SerializedFilePrefixView \<Rightarrow>
     (SerializedFileDirectoryResult, SerializedFilePrefixView) step" where
  "check_prefix mem engine limits prefix =
     (case expected_version engine of
        None \<Rightarrow>
          (\<lambda>result. (None, reject_admission SERIALIZED_FILE_DIRECTORY_UNSUPPORTED_ENGINE_VERSION
             SERIALIZED_FILE_DIRECTORY_FIELD_ENGINE_VERSION SERIALIZED_FILE_PREFIX_NO_OFFSET result))
      | Some expected \<Rightarrow>
          step_then (scan_rows (check_version_byte mem limits (version_source prefix) expected) 0
              (unat (span_size (version_source prefix)))) (\<lambda>_.
          step_then (step_require (\<lambda>_. unat (span_size (version_source prefix)) = length expected)
              (reject_admission SERIALIZED_FILE_DIRECTORY_UNSUPPORTED_ENGINE_VERSION
                 SERIALIZED_FILE_DIRECTORY_FIELD_ENGINE_VERSION
                 (span_offset (version_terminator_source prefix)))) (\<lambda>_.
          step_then (step_require (\<lambda>_. type_tree_enabled_raw prefix \<le> 1)
              (reject_admission SERIALIZED_FILE_DIRECTORY_UNSUPPORTED_TREE_FLAG
                 SERIALIZED_FILE_DIRECTORY_FIELD_TREE (span_offset (type_tree_source prefix)))) (\<lambda>_.
          step_then (step_require (\<lambda>_.
                span_size (metadata_prefix_source prefix) \<le> directory_max_metadata_bytes limits)
              (directory_reject SERIALIZED_FILE_DIRECTORY_LIMIT_EXCEEDED
                 SERIALIZED_FILE_DIRECTORY_LIMIT_METADATA_BYTES SERIALIZED_FILE_DIRECTORY_FIELD_NONE
                 SIZE_MAX (range_offset (remaining_metadata prefix)))) (\<lambda>_.
          step_return prefix)))))"

text \<open>The prefix query publishes its view exactly with status \<open>OK\<close>.\<close>

definition admit_prefix ::
    "memory \<Rightarrow> pointer \<times> pointer \<Rightarrow> pointer \<Rightarrow> u64 \<Rightarrow> u64 \<Rightarrow> u32 \<Rightarrow> SerializedFileDirectoryLimits \<Rightarrow>
     (SerializedFileDirectoryResult, SerializedFilePrefixView) step" where
  "admit_prefix mem locals bytes mapped_size logical_size engine limits result =
     (let prefix_limits = \<lparr>max_version_bytes = directory_max_version_bytes limits,
            max_prefix_work = directory_max_work limits\<rparr>;
          (queried, prefix) = serialized_file_prefix_query mem bytes mapped_size logical_size
            (fst locals) prefix_limits (snd locals);
          result = result\<lparr>prefix_attempted := True, prefix_result := queried,
            directory_work_used := prefix_work_used queried\<rparr>
      in case prefix of
           None \<Rightarrow> (None, reject_admission SERIALIZED_FILE_DIRECTORY_PREFIX_REJECTED
                     SERIALIZED_FILE_DIRECTORY_FIELD_NONE (prefix_error_offset queried) result)
         | Some prefix \<Rightarrow> check_prefix mem engine limits prefix result)"

text \<open>Placing an array behind what is planned: the new total and the offset of the array.\<close>

definition serialized_file_storage_append_array_internal ::
    "u64 \<Rightarrow> u64 \<Rightarrow> u64 \<Rightarrow> u64 \<Rightarrow> (u64 \<times> u64) option" where
  "serialized_file_storage_append_array_internal planned alignment count width =
     (let remainder = planned mod alignment;
          padding = (if remainder \<noteq> 0 then alignment - remainder else 0)
      in if dxbc_size_add_overflows planned padding \<or> dxbc_size_multiply_overflows count width then None
         else
           (let offset = planned + padding;
                array_size = count * width
            in if dxbc_size_add_overflows offset array_size then None
               else Some (offset + array_size, offset)))"

definition plan_layout :: "SerializedFileDirectoryView \<Rightarrow> DirectoryLayout option" where
  "plan_layout view =
     (case serialized_file_storage_append_array_internal sizeof_directory_storage alignof_row
             (type_count view) sizeof_type_row of
        None \<Rightarrow> None
      | Some (planned, types_at) \<Rightarrow>
          (case serialized_file_storage_append_array_internal planned alignof_row
                  (object_count view) sizeof_object_row of
             None \<Rightarrow> None
           | Some (planned, objects_at) \<Rightarrow>
               Some \<lparr>types_offset = types_at, objects_offset = objects_at, total_bytes = planned\<rparr>))"

definition plan_storage ::
    "SerializedFileDirectoryLimits \<Rightarrow> SerializedFileDirectoryView \<Rightarrow>
     (SerializedFileDirectoryResult, DirectoryLayout) step" where
  "plan_storage limits view =
     step_then (directory_charge_work limits 1 SERIALIZED_FILE_DIRECTORY_FIELD_NONE SIZE_MAX
         SERIALIZED_FILE_PREFIX_NO_OFFSET) (\<lambda>_ result.
       let refused = (None, directory_reject SERIALIZED_FILE_DIRECTORY_LIMIT_EXCEEDED
             SERIALIZED_FILE_DIRECTORY_LIMIT_RETAINED_BYTES SERIALIZED_FILE_DIRECTORY_FIELD_NONE SIZE_MAX
             SERIALIZED_FILE_PREFIX_NO_OFFSET result)
       in case plan_layout view of
            None \<Rightarrow> refused
          | Some layout \<Rightarrow>
              (let result = result\<lparr>required_retained_bytes := total_bytes layout\<rparr> in
               if total_bytes layout > directory_max_retained_bytes limits
               then (None, directory_reject SERIALIZED_FILE_DIRECTORY_LIMIT_EXCEEDED
                 SERIALIZED_FILE_DIRECTORY_LIMIT_RETAINED_BYTES SERIALIZED_FILE_DIRECTORY_FIELD_NONE SIZE_MAX
                 SERIALIZED_FILE_PREFIX_NO_OFFSET result)
               else (Some layout, result)))"

definition serialized_file_directory_init :: "SerializedFileDirectory \<Rightarrow> SerializedFileDirectory" where
  "serialized_file_directory_init directory = None"

definition serialized_file_directory_dispose ::
    "SerializedFileDirectory \<Rightarrow> tracker \<Rightarrow> SerializedFileDirectory \<times> tracker" where
  "serialized_file_directory_dispose directory t =
     (case directory of
        None \<Rightarrow> (None, t)
      | Some storage \<Rightarrow>
          (None, mem_free (Some (storage_cells storage)) (retained_bytes (storage_view storage)) t))"

text \<open>The view and the reader a pass starts from.\<close>

definition start_view :: "u32 \<Rightarrow> SerializedFilePrefixView \<Rightarrow> SerializedFileDirectoryView" where
  "start_view engine prefix =
     (let none = \<lparr>span_data = 0, span_offset = 0, span_size = 0\<rparr> in
      \<lparr>view_engine_version = engine, view_prefix = prefix, parsed_metadata_source = none,
       type_count_source = none, type_rows_source = none, object_count_source = none,
       object_padding_source = none, object_rows_source = none,
       view_remaining_metadata = \<lparr>range_offset = 0, range_size = 0\<rparr>, type_count = 0, object_count = 0,
       node_record_count = 0, view_string_byte_count = 0, dependency_word_count = 0, retained_bytes = 0\<rparr>)"

definition start_scan ::
    "pointer \<Rightarrow> u64 \<Rightarrow> u32 \<Rightarrow> SerializedFileDirectoryLimits \<Rightarrow> SerializedFilePrefixView \<Rightarrow>
     SerializedFileDirectoryResult \<Rightarrow> DirectoryScan" where
  "start_scan bytes mapped_size engine limits prefix result =
     \<lparr>scan_bytes = bytes, scan_limits = limits, scan_result = result,
      scan_view = start_view engine prefix,
      scan_reader =
        \<lparr>reader_bytes = bytes, reader_mapped_size = mapped_size,
         reader_metadata_end = range_offset (metadata_to_data_gap (header prefix)),
         reader_byte_budget_origin = SERIALIZED_FILE_V22_HEADER_SIZE,
         reader_max_bytes = directory_max_metadata_bytes limits,
         reader_max_work = directory_max_work limits, reader_work_used = directory_work_used result,
         reader_position = range_offset (remaining_metadata prefix),
         reader_endian_selector = endian_selector (header prefix),
         reader_status = SERIALIZED_METADATA_READ_OK, reader_error_offset = 0\<rparr>,
      scan_field = SERIALIZED_FILE_DIRECTORY_FIELD_NONE, scan_row_ordinal = 0,
      scan_types = None, scan_objects = None, type_capacity = 0, object_capacity = 0\<rparr>"

text \<open>The second pass: the capacities are kept, the counters start again and the arrays are filled.\<close>

definition restart_scan ::
    "u32 \<Rightarrow> SerializedFilePrefixView \<Rightarrow> SerializedFileDirectoryTypeRow list \<Rightarrow>
     SerializedFileDirectoryObjectRow list \<Rightarrow> SerializedFileDirectoryResult \<Rightarrow> DirectoryScan \<Rightarrow> DirectoryScan" where
  "restart_scan engine prefix types objects result scan =
     scan\<lparr>scan_result := result, type_capacity := type_count (scan_view scan),
       object_capacity := object_count (scan_view scan), scan_view := start_view engine prefix,
       scan_reader := (scan_reader scan)\<lparr>reader_position := range_offset (remaining_metadata prefix)\<rparr>,
       scan_types := Some types, scan_objects := Some objects\<rparr>"

text \<open>The zeroed rows that \<open>memset\<close> leaves in the arrays.\<close>

definition zero_type_row :: SerializedFileDirectoryTypeRow where
  "zero_type_row =
     (let none = \<lparr>span_data = 0, span_offset = 0, span_size = 0\<rparr> in
      \<lparr>type_ordinal = 0, type_source = none,
       type_prefix = \<lparr>class_id_source = none, stripped_source = none, script_index_source = none,
         script_hash_source = none, type_hash_source = none, class_id_bits = 0, script_index_bits = 0,
         stripped_raw = 0, has_script_hash = False\<rparr>,
       has_tree = False,
       type_tree = \<lparr>node_count_source = none, string_count_source = none, nodes_source = none,
         strings_source = none, node_count = 0, string_byte_count = 0\<rparr>,
       dependency_count_source = none, dependency_words_source = none, dependency_count = 0\<rparr>)"

definition zero_object_row :: SerializedFileDirectoryObjectRow where
  "zero_object_row =
     \<lparr>object_ordinal = 0, object_source = \<lparr>span_data = 0, span_offset = 0, span_size = 0\<rparr>,
      path_id_bits = 0, relative_data_offset = 0, byte_size = 0, object_type_ordinal = 0,
      payload = \<lparr>range_offset = 0, range_size = 0\<rparr>\<rparr>"

text \<open>The filling pass into a fresh block, and its publication; the block is released on failure.\<close>

definition fill_storage ::
    "memory \<Rightarrow> pointer \<Rightarrow> u32 \<Rightarrow> SerializedFileDirectoryLimits \<Rightarrow> SerializedFilePrefixView \<Rightarrow> DirectoryLayout \<Rightarrow>
     block \<Rightarrow> DirectoryScan \<Rightarrow> SerializedFileDirectoryResult \<Rightarrow> tracker \<Rightarrow>
     SerializedFileDirectoryResult \<times> SerializedFileDirectory \<times> tracker" where
  "fill_storage mem address engine limits prefix layout cells scan result t =
     (let view = scan_view scan;
          types = replicate (unat (type_count view)) zero_type_row;
          objects = replicate (unat (object_count view)) zero_object_row
      in case scan_directory mem (restart_scan engine prefix types objects result scan) of
           (None, scan) \<Rightarrow> (scan_result scan, None, mem_free (Some cells) (total_bytes layout) t)
         | (Some _, scan) \<Rightarrow>
             (case directory_charge_work limits 1 SERIALIZED_FILE_DIRECTORY_FIELD_NONE SIZE_MAX
                     SERIALIZED_FILE_PREFIX_NO_OFFSET (scan_result scan) of
                (None, result) \<Rightarrow> (result, None, mem_free (Some cells) (total_bytes layout) t)
              | (Some _, result) \<Rightarrow>
                  (result,
                   Some \<lparr>storage_address = address, storage_cells = cells,
                         storage_view = (scan_view scan)\<lparr>retained_bytes := total_bytes layout\<rparr>,
                         storage_types = the (scan_types scan), storage_objects = the (scan_objects scan)\<rparr>,
                   t)))"

text \<open>The paid allocation behind a plan, and the filling pass into it.\<close>

definition allocate_storage ::
    "memory \<Rightarrow> (nat \<Rightarrow> pointer) \<Rightarrow> allocator \<Rightarrow> u32 \<Rightarrow> SerializedFileDirectoryLimits \<Rightarrow>
     SerializedFilePrefixView \<Rightarrow> DirectoryLayout \<Rightarrow> DirectoryScan \<Rightarrow> SerializedFileDirectoryResult \<Rightarrow> tracker \<Rightarrow>
     SerializedFileDirectoryResult \<times> SerializedFileDirectory \<times> tracker" where
  "allocate_storage mem place grants engine limits prefix layout scan result t =
     (case directory_charge_work limits (total_bytes layout) SERIALIZED_FILE_DIRECTORY_FIELD_NONE
             SIZE_MAX SERIALIZED_FILE_PREFIX_NO_OFFSET result of
        (None, result) \<Rightarrow> (result, None, t)
      | (Some _, result) \<Rightarrow>
          (case mem_alloc grants (total_bytes layout) t of
             (None, t) \<Rightarrow>
               (result\<lparr>directory_status := SERIALIZED_FILE_DIRECTORY_ALLOCATION_FAILED\<rparr>, None, t)
           | (Some cells, t') \<Rightarrow>
               fill_storage mem (place (allocator_calls t)) engine limits prefix layout cells scan
                 (result\<lparr>peak_retained_bytes := total_bytes layout\<rparr>) t'))"

definition build_directory ::
    "memory \<Rightarrow> (nat \<Rightarrow> pointer) \<Rightarrow> allocator \<Rightarrow> pointer \<Rightarrow> u64 \<Rightarrow> u32 \<Rightarrow> SerializedFileDirectoryLimits \<Rightarrow>
     SerializedFilePrefixView \<Rightarrow> SerializedFileDirectoryResult \<Rightarrow> tracker \<Rightarrow>
     SerializedFileDirectoryResult \<times> SerializedFileDirectory \<times> tracker" where
  "build_directory mem place grants bytes mapped_size engine limits prefix result t =
     (case scan_directory mem (start_scan bytes mapped_size engine limits prefix result) of
        (None, scan) \<Rightarrow> (scan_result scan, None, t)
      | (Some _, scan) \<Rightarrow>
          (case plan_storage limits (scan_view scan) (scan_result scan) of
             (None, result) \<Rightarrow> (result, None, t)
           | (Some layout, result) \<Rightarrow>
               allocate_storage mem place grants engine limits prefix layout scan result t))"

definition serialized_file_directory_create ::
    "memory \<Rightarrow> (nat \<Rightarrow> pointer) \<Rightarrow> allocator \<Rightarrow> pointer \<times> pointer \<Rightarrow> pointer \<Rightarrow> u64 \<Rightarrow> u64 \<Rightarrow> u32 \<Rightarrow>
     pointer \<Rightarrow> SerializedFileDirectoryLimits \<Rightarrow> pointer \<Rightarrow> SerializedFileDirectory \<Rightarrow> tracker \<Rightarrow>
     SerializedFileDirectoryResult \<times> SerializedFileDirectory \<times> tracker" where
  "serialized_file_directory_create mem place grants locals bytes mapped_size logical_size engine
       limits_address limits out_address out t =
     (if \<not> directory_valid_arguments bytes mapped_size logical_size limits_address out_address
      then (directory_initial_result\<lparr>directory_status := SERIALIZED_FILE_DIRECTORY_INVALID_ARGUMENT\<rparr>, out, t)
      else if out \<noteq> None
      then (directory_initial_result\<lparr>directory_status := SERIALIZED_FILE_DIRECTORY_INVALID_STATE\<rparr>, out, t)
      else
        (case admit_prefix mem locals bytes mapped_size logical_size engine limits directory_initial_result of
           (None, result) \<Rightarrow> (result, out, t)
         | (Some prefix, result) \<Rightarrow>
             build_directory mem place grants bytes mapped_size engine limits prefix result t))"

definition serialized_file_directory_view ::
    "SerializedFileDirectory \<Rightarrow> SerializedFileDirectoryView option" where
  "serialized_file_directory_view directory = map_option storage_view directory"

definition serialized_file_directory_type ::
    "SerializedFileDirectory \<Rightarrow> u64 \<Rightarrow> SerializedFileDirectoryTypeRow option" where
  "serialized_file_directory_type directory ordinal =
     (case directory of
        None \<Rightarrow> None
      | Some storage \<Rightarrow>
          if ordinal < type_count (storage_view storage) then Some (storage_types storage ! unat ordinal)
          else None)"

definition serialized_file_directory_object ::
    "SerializedFileDirectory \<Rightarrow> u64 \<Rightarrow> SerializedFileDirectoryObjectRow option" where
  "serialized_file_directory_object directory ordinal =
     (case directory of
        None \<Rightarrow> None
      | Some storage \<Rightarrow>
          if ordinal < object_count (storage_view storage) then Some (storage_objects storage ! unat ordinal)
          else None)"

definition serialized_file_directory_storage_range_internal ::
    "SerializedFileDirectory \<Rightarrow> (pointer \<times> u64) option" where
  "serialized_file_directory_storage_range_internal directory =
     map_option (\<lambda>storage. (storage_address storage, retained_bytes (storage_view storage))) directory"

end
