(* ===== verification/FileDirectoryScan.thy ===== *)
theory FileDirectoryScan
  imports FileDirectory
begin

text \<open>
  What the scan of the directory tables does: the grammar of the tables without caps or
  machine arithmetic, and the proof that a pass meters it.
\<close>

section \<open>The gauge of the scan\<close>

record DirectoryContext =
  context_frame :: frame
  context_bytes :: pointer
  context_limits :: SerializedFileDirectoryLimits
  context_prefix :: SerializedFilePrefixView
  context_type_count :: u64
  context_capacities :: "u64 option \<times> u64 option"

definition scan_context :: "DirectoryScan \<Rightarrow> DirectoryContext" where
  "scan_context s =
     \<lparr>context_frame = reader_frame (scan_reader s), context_bytes = scan_bytes s,
      context_limits = scan_limits s, context_prefix = view_prefix (scan_view s),
      context_type_count = type_count (scan_view s),
      context_capacities = (types_capacity s, objects_capacity s)\<rparr>"

fun directory_level :: "DirectoryScan \<Rightarrow> usage" where
  "directory_level s Bytes = unat (reader_position (scan_reader s))"
| "directory_level s Work = unat (directory_work_used (scan_result s))"
| "directory_level s Nodes = unat (node_record_count (scan_view s))"
| "directory_level s Strings = unat (view_string_byte_count (scan_view s))"
| "directory_level s Words = unat (dependency_word_count (scan_view s))"
| "directory_level s Terminated = 0"

fun directory_cap :: "DirectoryScan \<Rightarrow> usage" where
  "directory_cap s Bytes = reader_cap (scan_reader s) Bytes"
| "directory_cap s Work = reader_cap (scan_reader s) Work"
| "directory_cap s Nodes = unat (directory_max_node_records (scan_limits s))"
| "directory_cap s Strings = unat (directory_max_string_bytes (scan_limits s))"
| "directory_cap s Words = unat (directory_max_dependency_words (scan_limits s))"
| "directory_cap s Terminated = 0"

definition directory_gauge :: "(DirectoryScan, DirectoryContext) gauge" where
  "directory_gauge =
     \<lparr>level = directory_level, cap = directory_cap, env = scan_context,
      failed = (\<lambda>s. directory_status (scan_result s) \<noteq> SERIALIZED_FILE_DIRECTORY_OK),
      sound = (\<lambda>s. reader_byte_budget_origin (scan_reader s) \<le> reader_position (scan_reader s) \<and>
        reader_max_work (scan_reader s) = directory_max_work (scan_limits s))\<rparr>"

lemma directory_gauge_simps [simp]:
  "level directory_gauge = directory_level" "cap directory_gauge = directory_cap"
  "env directory_gauge = scan_context"
  "failed directory_gauge s \<longleftrightarrow> directory_status (scan_result s) \<noteq> SERIALIZED_FILE_DIRECTORY_OK"
  "sound directory_gauge s \<longleftrightarrow>
     reader_byte_budget_origin (scan_reader s) \<le> reader_position (scan_reader s) \<and>
     reader_max_work (scan_reader s) = directory_max_work (scan_limits s)"
  by (simp_all add: directory_gauge_def)

lemma directory_within:
  "within directory_gauge s \<Longrightarrow>
     directory_work_used (scan_result s) \<le> directory_max_work (scan_limits s) \<and>
     dependency_word_count (scan_view s) \<le> directory_max_dependency_words (scan_limits s)"
  by (auto simp: within_def all_resources word_le_nat_alt)

lemma directory_read_failure_not_ok [simp]:
  "fst (directory_read_failure status) \<noteq> SERIALIZED_FILE_DIRECTORY_OK"
  by (cases status) (simp_all add: directory_read_failure_def)

lemma directory_reject_simps [simp]:
  "directory_work_used (directory_reject status limit field row offset r) = directory_work_used r"
  "directory_status (directory_reject status limit field row offset r) = status"
  by (simp_all add: directory_reject_def)

lemma directory_reject_reader_simps [simp]:
  "scan_reader (directory_reject_reader s) = scan_reader s"
  "scan_view (directory_reject_reader s) = scan_view s"
  "scan_limits (directory_reject_reader s) = scan_limits s"
  "directory_work_used (scan_result (directory_reject_reader s)) = directory_work_used (scan_result s)"
  "directory_status (scan_result (directory_reject_reader s)) \<noteq> SERIALIZED_FILE_DIRECTORY_OK"
  by (cases "reader_status (scan_reader s)";
      simp add: directory_reject_reader_def directory_read_failure_def)+

lemma reader_cap_work [simp]:
  "reader_cap (r\<lparr>reader_work_used := n\<rparr>) = reader_cap r" "reader_frame (r\<lparr>reader_work_used := n\<rparr>) = reader_frame r"
  by (simp_all add: usage_eq reader_frame_def)

lemma reader_cap_bytes_eq:
  "reader_cap p = reader_cap q \<Longrightarrow> reader_cap p Bytes = reader_cap q Bytes \<and> reader_max_work p = reader_max_work q"
  by (metis reader_cap.simps(2) word_unat_eq_iff)

interpretation directory_reader: owner reader_gauge directory_gauge "{Bytes, Work}"
  lend_reader return_reader directory_reject_reader context_frame
proof
  fix r p s
  show "r \<notin> {Bytes, Work} \<Longrightarrow> level reader_gauge p r = 0" by (cases r) simp_all
  show "r \<in> {Bytes, Work} \<Longrightarrow> level reader_gauge (lend_reader s) r = level directory_gauge s r"
    by (auto simp: lend_reader_def)
  show "sound directory_gauge s \<Longrightarrow> sound reader_gauge (lend_reader s)" by (simp add: lend_reader_def)
  show "env reader_gauge (lend_reader s) = context_frame (env directory_gauge s)"
    by (simp add: lend_reader_def scan_context_def)
  show "level directory_gauge (return_reader p s) =
      (\<lambda>r. if r \<in> {Bytes, Work} then level reader_gauge p r else level directory_gauge s r)"
    by (simp add: usage_eq return_reader_def)
  show "env reader_gauge p = env reader_gauge (lend_reader s) \<Longrightarrow>
      env directory_gauge (return_reader p s) = env directory_gauge s"
    by (simp add: lend_reader_def return_reader_def scan_context_def types_capacity_def objects_capacity_def)
  show "failed directory_gauge (return_reader p s) = failed directory_gauge s" by (simp add: return_reader_def)
  show "unseen directory_gauge s (directory_reject_reader s)"
    by (simp add: unseen_def usage_eq)
  show "failed directory_gauge (directory_reject_reader (return_reader p s))" by simp
  show "cap reader_gauge p = cap reader_gauge (lend_reader s) \<Longrightarrow>
      cap directory_gauge (return_reader p s) = cap directory_gauge s"
    using reader_cap_bytes_eq [of p "scan_reader s"] by (simp add: lend_reader_def return_reader_def usage_eq)
  show "sound reader_gauge p \<Longrightarrow> cap reader_gauge p = cap reader_gauge (lend_reader s) \<Longrightarrow>
      sound directory_gauge s \<Longrightarrow> sound directory_gauge (return_reader p s)"
    using reader_cap_bytes_eq [of p "scan_reader s"] by (simp add: lend_reader_def return_reader_def)
  show "Bytes \<in> {Bytes, Work}" by simp
  show "r \<in> {Bytes, Work} \<Longrightarrow> cap reader_gauge (lend_reader s) r = cap directory_gauge s r"
    by (auto simp: lend_reader_def)
qed

lemma scan_context_fields:
  assumes "scan_context s = ctx"
  shows "reader_frame (scan_reader s) = context_frame ctx" "scan_bytes s = context_bytes ctx"
    "scan_limits s = context_limits ctx" "view_prefix (scan_view s) = context_prefix ctx"
    "type_count (scan_view s) = context_type_count ctx"
    "types_capacity s = fst (context_capacities ctx)" "objects_capacity s = snd (context_capacities ctx)"
  using assms by (auto simp: scan_context_def)

interpretation directory_tree: owner tree_gauge directory_gauge "{Bytes, Work, Nodes, Strings}"
  lend_tree return_tree directory_reject_reader context_frame
proof
  fix r s and p :: "SerializedMetadataReader \<times> SerializedMetadataTreeBudget"
  obtain q b where p: "p = (q, b)" by (cases p)
  show "r \<notin> {Bytes, Work, Nodes, Strings} \<Longrightarrow> level tree_gauge p r = 0" by (cases r) (simp_all add: p)
  show "r \<in> {Bytes, Work, Nodes, Strings} \<Longrightarrow> level tree_gauge (lend_tree s) r = level directory_gauge s r"
    "r \<in> {Bytes, Work, Nodes, Strings} \<Longrightarrow> cap tree_gauge (lend_tree s) r = cap directory_gauge s r"
    by (auto simp: lend_tree_def lend_reader_def)
  show "sound directory_gauge s \<Longrightarrow> sound tree_gauge (lend_tree s)"
    by (simp add: lend_tree_def lend_reader_def)
  show "env tree_gauge (lend_tree s) = context_frame (env directory_gauge s)"
    by (simp add: lend_tree_def lend_reader_def scan_context_def)
  show "level directory_gauge (return_tree p s) =
      (\<lambda>r. if r \<in> {Bytes, Work, Nodes, Strings} then level tree_gauge p r else level directory_gauge s r)"
    by (simp add: usage_eq return_tree_def return_reader_def p)
  show "env tree_gauge p = env tree_gauge (lend_tree s) \<Longrightarrow>
      env directory_gauge (return_tree p s) = env directory_gauge s"
    by (simp add: lend_tree_def lend_reader_def return_tree_def return_reader_def scan_context_def
        types_capacity_def objects_capacity_def p)
  show "failed directory_gauge (return_tree p s) = failed directory_gauge s"
    by (simp add: return_tree_def return_reader_def p)
  show "unseen directory_gauge s (directory_reject_reader s)" by (simp add: unseen_def usage_eq)
  show "failed directory_gauge (directory_reject_reader (return_tree p s))" by simp
  have caps: "reader_cap q Bytes = reader_cap (scan_reader s) Bytes \<and>
      reader_max_work q = reader_max_work (scan_reader s)"
    if "cap tree_gauge p = cap tree_gauge (lend_tree s)"
    using fun_cong [OF that, of Bytes] fun_cong [OF that, of Work]
    by (simp add: p lend_tree_def lend_reader_def word_unat_eq_iff)
  show "cap tree_gauge p = cap tree_gauge (lend_tree s) \<Longrightarrow>
      cap directory_gauge (return_tree p s) = cap directory_gauge s"
    using caps by (simp add: usage_eq return_tree_def return_reader_def p)
  show "sound tree_gauge p \<Longrightarrow> cap tree_gauge p = cap tree_gauge (lend_tree s) \<Longrightarrow>
      sound directory_gauge s \<Longrightarrow> sound directory_gauge (return_tree p s)"
    using caps by (simp add: return_tree_def return_reader_def p)
qed simp

section \<open>The grammar of the tables\<close>

abbreviation context_base :: "DirectoryContext \<Rightarrow> pointer" where
  "context_base ctx \<equiv> fst (context_frame ctx)"

abbreviation context_selector :: "DirectoryContext \<Rightarrow> u8" where
  "context_selector ctx \<equiv> fst (snd (context_frame ctx))"

definition span_between :: "DirectoryContext \<Rightarrow> nat \<Rightarrow> nat \<Rightarrow> SerializedFilePrefixSpan" where
  "span_between ctx p q = mapped_span (context_bytes ctx) (of_nat p) (of_nat q - of_nat p)"

definition g_type_tree ::
    "memory \<Rightarrow> DirectoryContext \<Rightarrow> SerializedFileDirectoryTypeRow \<Rightarrow> SerializedFileDirectoryTypeRow grammar" where
  "g_type_tree mem ctx row =
     g_then (g_tree mem (context_base ctx) (context_selector ctx)) (\<lambda>tree.
     g_then (g_count mem (context_base ctx) (context_selector ctx)) (\<lambda>(count_source, count).
     g_then (g_use (use Words (unat count))) (\<lambda>_.
     g_then (g_take (context_base ctx) (4 * unat count)) (\<lambda>words.
     g_return (row\<lparr>type_tree := tree, dependency_count_source := count_source,
       dependency_count := count, dependency_words_source := words\<rparr>)))))"

text \<open>A type entry: its prefix and, when trees are enabled, its tree and dependency words.\<close>

definition g_type :: "memory \<Rightarrow> DirectoryContext \<Rightarrow> nat \<Rightarrow> SerializedFileDirectoryTypeRow grammar" where
  "g_type mem ctx i =
     g_at (\<lambda>start.
     g_then (g_type_prefix mem (context_base ctx) (context_selector ctx)) (\<lambda>prefix.
       let tree = type_tree_enabled_raw (context_prefix ctx) \<noteq> 0;
           row = \<lparr>type_ordinal = of_nat i, type_source = absent_span, type_prefix = prefix,
             has_tree = tree, type_tree = absent_tree, dependency_count_source = absent_span,
             dependency_words_source = absent_span, dependency_count = 0\<rparr>
       in
     g_then (if tree then g_type_tree mem ctx row else g_return row) (\<lambda>row.
     g_then (g_use (use Work 1)) (\<lambda>_.
     g_at (\<lambda>stop. g_return (row\<lparr>type_source := span_between ctx start stop\<rparr>))))))"

text \<open>An object entry: 24 bytes whose payload lies in the data and whose type exists.\<close>

definition g_object :: "memory \<Rightarrow> DirectoryContext \<Rightarrow> nat \<Rightarrow> SerializedFileDirectoryObjectRow grammar" where
  "g_object mem ctx i =
     g_then (g_take (context_base ctx) 24) (\<lambda>source.
       let head = header (context_prefix ctx);
           selector = endian_selector head;
           path_id = serialized_metadata_decode_u64 mem (span_data source) selector;
           relative = serialized_metadata_decode_u64 mem (span_data source + 8) selector;
           amount = serialized_metadata_decode_u32 mem (span_data source + 16) selector;
           type_row = serialized_metadata_decode_u32 mem (span_data source + 20) selector;
           data_size = file_size head - data_offset head
       in
     g_then (g_require (relative \<le> data_size)) (\<lambda>_.
     g_then (g_require (ucast amount \<le> data_size - relative)) (\<lambda>_.
     g_then (g_require (ucast type_row < context_type_count ctx)) (\<lambda>_.
     g_then (g_use (use Work 1)) (\<lambda>_.
     g_return
       \<lparr>object_ordinal = of_nat i, object_source = source, path_id_bits = path_id,
        relative_data_offset = relative, byte_size = amount, object_type_ordinal = type_row,
        payload = \<lparr>range_offset = data_offset head + relative, range_size = ucast amount\<rparr>\<rparr>)))))"

definition g_table_count ::
    "memory \<Rightarrow> DirectoryContext \<Rightarrow> u64 \<Rightarrow> u64 option \<Rightarrow> (SerializedFilePrefixSpan \<times> u32) grammar" where
  "g_table_count mem ctx limit capacity =
     g_then (g_count mem (context_base ctx) (context_selector ctx)) (\<lambda>(source, count).
     g_then (g_require (ucast count \<le> limit)) (\<lambda>_.
     g_then (g_require (case capacity of None \<Rightarrow> True | Some n \<Rightarrow> ucast count = n)) (\<lambda>_.
     g_return (source, count))))"

definition object_pad :: "u32 \<Rightarrow> nat \<Rightarrow> nat" where
  "object_pad count p = (if count \<noteq> 0 then (4 - p mod 4) mod 4 else 0)"

definition g_directory :: "memory \<Rightarrow> DirectoryContext \<Rightarrow> DirectorySections grammar" where
  "g_directory mem ctx =
     g_then (g_table_count mem ctx (directory_max_types (context_limits ctx))
         (fst (context_capacities ctx))) (\<lambda>(types_at, types).
       let ctx = ctx\<lparr>context_type_count := ucast types\<rparr> in
     g_at (\<lambda>types_start.
     g_then (g_rows (g_type mem ctx) 0 (unat types)) (\<lambda>type_rows.
     g_at (\<lambda>types_stop.
     g_then (g_table_count mem ctx (directory_max_objects (context_limits ctx))
         (snd (context_capacities ctx))) (\<lambda>(objects_at, objects).
     g_at (\<lambda>position.
     g_then (g_take (context_base ctx) (object_pad objects position)) (\<lambda>padding.
     g_at (\<lambda>objects_start.
     g_then (g_rows (g_object mem ctx) 0 (unat objects)) (\<lambda>object_rows.
     g_at (\<lambda>stop.
     g_return
       \<lparr>section_type_count = types_at, section_types = span_between ctx types_start types_stop,
        section_object_count = objects_at, section_padding = padding,
        section_objects = span_between ctx objects_start stop, section_type_total = types,
        section_object_total = objects, section_type_rows = type_rows,
        section_object_rows = object_rows\<rparr>))))))))))"

section \<open>Every pass meters the grammar\<close>

lemma g_then_return [simp]: "g_then (g_return x) h = h x"
  by (auto simp: fun_eq_iff g_then_def g_return_def split: option.split)

lemma meters_skip:
  assumes "\<And>s. env G s = e \<Longrightarrow> unseen G s (f s) \<and> failed G (f s) = failed G s \<and> env G (f s) = e1"
    and "meters G e1 e2 m g"
  shows "meters G e e2 (step_then (step_modify f) (\<lambda>_. m)) g"
proof -
  have "meters G e e2 (step_then (step_modify f) (\<lambda>_. m)) (g_then (g_return ()) (\<lambda>_. g))"
    by (rule meters_then [OF meters_modify assms(2)]) (rule assms(1))
  then show ?thesis by simp
qed

lemma meters_cong:
  "meters G e e' m' g \<Longrightarrow> (\<And>s. within G s \<Longrightarrow> env G s = e \<Longrightarrow> m s = m' s) \<Longrightarrow> meters G e e' m g"
  by (simp add: meters_def)

lemma meters_bytes_position:
  assumes "\<And>w. meters directory_gauge ctx e' (f (context_bytes ctx) w) (h (unat w))"
  shows "meters directory_gauge ctx e'
    (step_with (\<lambda>scan. (scan_bytes scan, reader_position (scan_reader scan))) (\<lambda>(bytes, stop). f bytes stop))
    (g_at h)"
proof (rule meters_cong)
  show "meters directory_gauge ctx e'
      (step_with (\<lambda>s. reader_position (scan_reader s)) (f (context_bytes ctx))) (g_at h)"
    by (rule meters_with_position, simp, rule assms)
qed (auto simp: step_with_def scan_context_fields(2))

lemma meters_position:
  "(\<And>w. meters directory_gauge ctx e' (f w) (h (unat w))) \<Longrightarrow>
     meters directory_gauge ctx e' (step_with (reader_position \<circ> scan_reader) f) (g_at h)"
  by (rule meters_with_position) simp_all

lemma meters_limits:
  "meters directory_gauge ctx e' (f (context_limits ctx)) g \<Longrightarrow>
     meters directory_gauge ctx e' (step_with scan_limits f) g"
  by (rule meters_with_env) (simp_all add: scan_context_fields)

lemma meters_scan_read:
  "meters reader_gauge (context_frame ctx) (\<lambda>_. context_frame ctx) m g \<Longrightarrow> confined {Bytes, Work} g \<Longrightarrow>
     meters directory_gauge ctx (\<lambda>_. ctx) (scan_read m) g"
  unfolding scan_read_def by (rule directory_reader.meters_inside)

lemma meters_take_bytes:
  "unat width = n \<Longrightarrow> meters directory_gauge ctx (\<lambda>_. ctx) (take_bytes width) (g_take (context_base ctx) n)"
  unfolding take_bytes_def
  using meters_take [of "context_base ctx" "context_selector ctx" "snd (snd (context_frame ctx))" width]
  by (intro meters_scan_read confined_intros) simp_all

lemma meters_take_count:
  "meters directory_gauge ctx (\<lambda>_. ctx) (take_count mem)
     (g_count mem (context_base ctx) (context_selector ctx))"
  unfolding take_count_def
  using meters_count [of "context_base ctx" "context_selector ctx" "snd (snd (context_frame ctx))" mem]
  by (intro meters_scan_read confined_intros) simp_all

lemma meters_scan_prefix:
  "meters directory_gauge ctx (\<lambda>_. ctx) (scan_read (serialized_metadata_read_type_prefix mem))
     (g_type_prefix mem (context_base ctx) (context_selector ctx))"
  using meters_type_prefix [of "context_base ctx" "context_selector ctx" "snd (snd (context_frame ctx))" mem]
  by (intro meters_scan_read confined_intros) simp_all

lemma meters_read_tree:
  "meters directory_gauge ctx (\<lambda>_. ctx)
     (step_inside lend_tree return_tree directory_reject_reader (serialized_metadata_read_tree mem))
     (g_tree mem (context_base ctx) (context_selector ctx))"
  using meters_tree [of "context_base ctx" "context_selector ctx" "snd (snd (context_frame ctx))" mem]
  by (intro directory_tree.meters_inside confined_intros) simp_all

text \<open>Writes to the fields that no counter and no context reads.\<close>

definition directory_silent :: "(DirectoryScan \<Rightarrow> DirectoryScan) \<Rightarrow> bool" where
  "directory_silent f \<longleftrightarrow>
     (\<forall>s. unseen directory_gauge s (f s) \<and> scan_result (f s) = scan_result s \<and> scan_context (f s) = scan_context s)"

lemma meters_silent:
  "directory_silent f \<Longrightarrow> meters directory_gauge ctx e2 m g \<Longrightarrow>
     meters directory_gauge ctx e2 (step_then (step_modify f) (\<lambda>_. m)) g"
  by (rule meters_skip) (auto simp: directory_silent_def)

lemma directory_silent_fields:
  "directory_silent (\<lambda>s. s\<lparr>scan_field := field\<rparr>)"
  "directory_silent (\<lambda>s. s\<lparr>scan_field := field, scan_row_ordinal := n\<rparr>)"
  "directory_silent (\<lambda>s. s\<lparr>scan_types := map_option f (scan_types s)\<rparr>)"
  "directory_silent (\<lambda>s. s\<lparr>scan_objects := map_option h (scan_objects s)\<rparr>)"
  "directory_silent (\<lambda>s. s\<lparr>scan_view := (scan_view s)\<lparr>type_rows_source := span\<rparr>\<rparr>)"
  "directory_silent (\<lambda>s. s\<lparr>scan_view := (scan_view s)\<lparr>object_padding_source := span\<rparr>\<rparr>)"
  "directory_silent (\<lambda>s. s\<lparr>scan_view := (scan_view s)\<lparr>object_count_source := span, object_count := m\<rparr>\<rparr>)"
  "directory_silent (\<lambda>s. s\<lparr>scan_view := (scan_view s)\<lparr>object_rows_source := span,
     parsed_metadata_source := span', view_remaining_metadata := rest s\<rparr>\<rparr>)"
  by (simp_all add: directory_silent_def unseen_def usage_eq scan_context_def types_capacity_def
      objects_capacity_def option.map_comp comp_def)

lemma directory_rejected:
  "status \<noteq> SERIALIZED_FILE_DIRECTORY_OK \<Longrightarrow>
     unseen directory_gauge s (s\<lparr>scan_result := directory_reject status limit field row offset (scan_result s)\<rparr>) \<and>
     failed directory_gauge (s\<lparr>scan_result := directory_reject status limit field row offset (scan_result s)\<rparr>)"
  by (simp add: unseen_def usage_eq)

lemma meters_dependencies:
  "meters directory_gauge ctx (\<lambda>_. ctx)
     (add_cardinality dependency_word_count (\<lambda>n view. view\<lparr>dependency_word_count := n\<rparr>) count
        (directory_max_dependency_words (context_limits ctx)) limit offset)
     (g_use (use Words (unat count)))"
proof -
  have wide: "unat (ucast count :: u64) = unat count" by (rule unat_widen) simp
  let ?allowed = "directory_max_dependency_words (context_limits ctx)"
  have charged: "meters directory_gauge ctx (\<lambda>_. ctx)
      (step_then (step_require (\<lambda>scan. ucast count \<le> directory_max_dependency_words (scan_limits scan) -
            dependency_word_count (scan_view scan))
         (\<lambda>scan. scan\<lparr>scan_result := directory_reject SERIALIZED_FILE_DIRECTORY_LIMIT_EXCEEDED limit
            (scan_field scan) (scan_row_ordinal scan) offset (scan_result scan)\<rparr>)) (\<lambda>_.
       step_modify (\<lambda>scan. scan\<lparr>scan_view := (scan_view scan)
         \<lparr>dependency_word_count := dependency_word_count (scan_view scan) + ucast count\<rparr>\<rparr>)))
      (g_use (use Words (unat count)))"
  proof (rule meters_charge)
    fix s
    assume s: "within directory_gauge s"
    note le = directory_within [OF s, THEN conjunct2]
    show "(ucast count \<le> directory_max_dependency_words (scan_limits s) - dependency_word_count (scan_view s)) =
        (level directory_gauge s Words + unat count \<le> cap directory_gauge s Words)"
      using charge_iff [OF le, of "ucast count"] by (simp add: wide)
    assume "env directory_gauge s = ctx"
      "ucast count \<le> directory_max_dependency_words (scan_limits s) - dependency_word_count (scan_view s)"
    then show "spends directory_gauge s (use Words (unat count)) (s\<lparr>scan_view := (scan_view s)
          \<lparr>dependency_word_count := dependency_word_count (scan_view s) + ucast count\<rparr>\<rparr>) \<and>
        env directory_gauge (s\<lparr>scan_view := (scan_view s)
          \<lparr>dependency_word_count := dependency_word_count (scan_view s) + ucast count\<rparr>\<rparr>) = ctx"
      using charge_value [OF le, of "ucast count"] s
      by (auto simp: wide spends_def usage_eq within_def scan_context_def types_capacity_def objects_capacity_def)
  qed (rule directory_rejected, simp)
  show ?thesis
    unfolding add_cardinality_def
    by (rule meters_cong [OF charged])
      (simp only: step_then_def step_require_def scan_context_fields(3) directory_gauge_simps)
qed

lemma on_result_charge:
  "on_result (directory_charge_work limits amount field row offset) =
     step_then (step_require (\<lambda>s. amount \<le> directory_max_work limits - directory_work_used (scan_result s))
       (\<lambda>s. s\<lparr>scan_result := directory_reject SERIALIZED_FILE_DIRECTORY_LIMIT_EXCEEDED
          SERIALIZED_FILE_DIRECTORY_LIMIT_WORK field row offset (scan_result s)\<rparr>)) (\<lambda>_.
     step_modify (\<lambda>s. s\<lparr>scan_result := (scan_result s)
       \<lparr>directory_work_used := directory_work_used (scan_result s) + amount\<rparr>\<rparr>))"
  by (auto simp: fun_eq_iff on_result_def directory_charge_work_def step_inside_def step_then_def
      step_require_def step_modify_def split: option.split prod.split)

lemma meters_row_charge:
  assumes "unat amount = n"
  shows "meters directory_gauge ctx (\<lambda>_. ctx)
    (on_result (directory_charge_work (context_limits ctx) amount field row offset)) (g_use (use Work n))"
proof -
  have charged: "meters directory_gauge ctx (\<lambda>_. ctx)
     (step_then (step_require (\<lambda>s. amount \<le> reader_max_work (scan_reader s) - directory_work_used (scan_result s))
       (\<lambda>s. s\<lparr>scan_result := directory_reject SERIALIZED_FILE_DIRECTORY_LIMIT_EXCEEDED
          SERIALIZED_FILE_DIRECTORY_LIMIT_WORK field row offset (scan_result s)\<rparr>)) (\<lambda>_.
     step_modify (\<lambda>s. s\<lparr>scan_result := (scan_result s)
       \<lparr>directory_work_used := directory_work_used (scan_result s) + amount\<rparr>\<rparr>))) (g_use (use Work n))"
  proof (rule meters_charge)
    fix s
    assume s: "within directory_gauge s"
    have le: "directory_work_used (scan_result s) \<le> reader_max_work (scan_reader s)"
      using directory_within [OF s] s by (simp add: within_def)
    show "(amount \<le> reader_max_work (scan_reader s) - directory_work_used (scan_result s)) =
        (level directory_gauge s Work + n \<le> cap directory_gauge s Work)"
      using charge_iff [OF le, of amount] assms by simp
    assume "env directory_gauge s = ctx"
      "amount \<le> reader_max_work (scan_reader s) - directory_work_used (scan_result s)"
    then show "spends directory_gauge s (use Work n) (s\<lparr>scan_result := (scan_result s)
          \<lparr>directory_work_used := directory_work_used (scan_result s) + amount\<rparr>\<rparr>) \<and>
        env directory_gauge (s\<lparr>scan_result := (scan_result s)
          \<lparr>directory_work_used := directory_work_used (scan_result s) + amount\<rparr>\<rparr>) = ctx"
      using charge_value [OF le, of amount] s assms
      by (auto simp: spends_def usage_eq within_def scan_context_def types_capacity_def objects_capacity_def)
  qed (rule directory_rejected, simp)
  show ?thesis
    unfolding on_result_charge
    by (rule meters_cong [OF charged])
      (simp add: step_then_def step_require_def scan_context_fields(3) within_def)
qed

lemma meters_scan_tree:
  "meters directory_gauge ctx (\<lambda>_. ctx) (scan_tree mem row) (g_type_tree mem ctx row)"
proof -
  have words: "unat (ucast w * 4 :: u64) = 4 * unat w" for w :: u32
  proof -
    have "unat w < 2 ^ 32" using unsigned_less [of w] by simp
    moreover have "unat (ucast w :: u64) = unat w" by (rule unat_widen) simp
    ultimately show ?thesis by (simp add: unat_word_ariths)
  qed
  show ?thesis
    unfolding scan_tree_def g_type_tree_def
    by (intro meters_silent directory_silent_fields meters_intros meters_read_tree meters_take_count
        meters_limits meters_dependencies meters_take_bytes words)
qed

lemma meters_scan_type:
  "meters directory_gauge ctx (\<lambda>_. ctx) (scan_type mem i) (g_type mem ctx i)"
proof -
  have flag: "meters directory_gauge ctx e' (step_with (\<lambda>scan. type_tree_enabled_raw (view_prefix (scan_view scan)) \<noteq> 0) f) g"
    if "meters directory_gauge ctx e' (f (type_tree_enabled_raw (context_prefix ctx) \<noteq> 0)) g"
    for f :: "bool \<Rightarrow> (DirectoryScan, SerializedFileDirectoryTypeRow) step" and e' g
    by (rule meters_with_env [where c = "type_tree_enabled_raw (context_prefix ctx) \<noteq> 0"])
      (simp_all add: scan_context_fields that)
  show ?thesis
    unfolding scan_type_def g_type_def span_between_def Let_def prod.case
    by (intro meters_silent directory_silent_fields meters_position meters_bytes_position meters_intros
        meters_scan_prefix flag meters_limits meters_row_charge meters_scan_tree)
      (auto intro!: meters_silent directory_silent_fields meters_return)
qed

lemma meters_object_require:
  "meters directory_gauge ctx (\<lambda>_. ctx) (object_require valid field i offset) (g_require valid)"
  unfolding object_require_def
  by (rule meters_require) (simp_all only: directory_rejected SerializedFileDirectoryStatus.distinct not_False_eq_True simp_thms)

lemma meters_scan_object:
  "meters directory_gauge ctx (\<lambda>_. ctx) (scan_object mem i) (g_object mem ctx i)"
proof -
  have head: "meters directory_gauge ctx e'
      (step_with (\<lambda>scan. (header (view_prefix (scan_view scan)), type_count (scan_view scan))) f) g"
    if "meters directory_gauge ctx e' (f (header (context_prefix ctx), context_type_count ctx)) g"
    for f :: "SerializedFileHeaderView \<times> u64 \<Rightarrow> (DirectoryScan, SerializedFileDirectoryObjectRow) step" and e' g
    by (rule meters_with_env [where c = "(header (context_prefix ctx), context_type_count ctx)"])
      (simp_all add: scan_context_fields that)
  show ?thesis
    unfolding scan_object_def g_object_def Let_def
    by (intro meters_silent directory_silent_fields meters_intros meters_take_bytes head,
        simp, unfold prod.case,
        intro meters_intros meters_object_require meters_limits meters_row_charge)
      (auto intro!: meters_silent directory_silent_fields meters_return)
qed

lemma meters_scan_count:
  assumes "\<And>s. env directory_gauge s = ctx \<Longrightarrow> capacity s = known"
    and "\<And>s. env directory_gauge s = ctx \<Longrightarrow> cap_of (scan_limits s) = allowed"
  shows "meters directory_gauge ctx (\<lambda>_. ctx) (scan_count mem field limit cap_of capacity)
    (g_table_count mem ctx allowed known)"
  unfolding scan_count_def g_table_count_def
  by (intro meters_silent directory_silent_fields meters_intros meters_take_count meters_require)
    (simp_all only: assms directory_rejected SerializedFileDirectoryStatus.distinct not_False_eq_True simp_thms)

lemma unat_object_padding: "unat (object_padding position count) = object_pad count (unat position)"
proof -
  have mod4: "unat (w mod 4) = unat w mod 4" for w :: u64
    by (simp add: unat_mod_distrib)
  have "uint (position - 48) mod 4 = uint position mod 4"
  proof -
    have "uint (position - 48) mod 4 = ((uint position - 48) mod 2 ^ 64) mod 4"
      by (simp add: uint_word_ariths)
    also have "\<dots> = (uint position - 48) mod 4"
      by (rule mod_mod_cancel) simp
    also have "\<dots> = uint position mod 4"
      by presburger
    finally show ?thesis .
  qed
  then have "unat ((position - 48) mod 4) = unat position mod 4"
    unfolding mod4 by (metis int_nat_eq nat_mod_distrib nat_numeral uint_ge_0 unat_eq_nat_uint zero_le_numeral)
  moreover have "unat (4 - r) = 4 - unat r" if "unat r < 4" for r :: u64
    using that by (simp add: unat_sub word_le_nat_alt)
  moreover have "r = 0 \<longleftrightarrow> unat r = 0" for r :: u64 by (simp add: unat_eq_0)
  ultimately show ?thesis
    unfolding object_padding_def object_pad_def Let_def by auto
qed

lemma type_count_context:
  "scan_context s = ctx \<Longrightarrow>
     scan_context (s\<lparr>scan_view := (scan_view s)\<lparr>type_count_source := span, type_count := n\<rparr>\<rparr>) =
     ctx\<lparr>context_type_count := n\<rparr>"
  by (auto simp: scan_context_def types_capacity_def objects_capacity_def)

lemma meters_return_as: "e' x = e \<Longrightarrow> meters G e e' (step_return x) (g_return x)"
  by (rule metersI)
    (auto simp: step_return_def g_return_def within_affords_no_use within_def spends_no_use)

definition counted_context :: "DirectoryContext \<Rightarrow> DirectorySections \<Rightarrow> DirectoryContext" where
  "counted_context ctx x = ctx\<lparr>context_type_count := ucast (section_type_total x)\<rparr>"

lemma meters_scan_directory:
  "meters directory_gauge ctx (counted_context ctx) (scan_directory mem) (g_directory mem ctx)"
proof -
  have counted: "meters directory_gauge ctx (counted_context ctx)
      (step_then (step_modify (\<lambda>s. s\<lparr>scan_view := (scan_view s)\<lparr>type_count_source := span, type_count := n\<rparr>\<rparr>)) (\<lambda>_. m)) g"
    if "meters directory_gauge (ctx\<lparr>context_type_count := n\<rparr>) (counted_context ctx) m g" for span n m g
    by (rule meters_skip [OF _ that]) (auto simp: unseen_def usage_eq type_count_context)
  show ?thesis
    unfolding scan_directory_def g_directory_def Let_def span_between_def
    by (intro meters_then_same meters_split meters_scan_count counted meters_position
        meters_bytes_position meters_silent directory_silent_fields meters_rows meters_scan_type
        meters_scan_object meters_take_bytes unat_object_padding;
        simp add: scan_context_fields; rule meters_return_as; simp add: counted_context_def)
qed

end
