(* ===== verification/Passes.thy ===== *)
theory Passes
  imports MetadataReader
begin

text \<open>
  What a pass over a table leaves behind: postconditions of steps over the part \<open>eff\<close> of the
  state that only explicit writes change, rows stored one by one into an array, and what the
  grammars of rows have in common: their work, their spans and their ordinals.
\<close>

section \<open>Postconditions\<close>

lemma step_keeps_inside:
  "(\<And>p s. P s \<Longrightarrow> P (put p s)) \<Longrightarrow> (\<And>s. P s \<Longrightarrow> P (reject s)) \<Longrightarrow> step_keeps P (step_inside get put reject m)"
  by (auto simp: step_keeps_def step_inside_def split: option.split prod.split)

text \<open>What a successful step does, as a postcondition over the effect before and the state after.\<close>

definition leaves ::
    "('s \<Rightarrow> 'e) \<Rightarrow> ('a \<Rightarrow> 'e \<Rightarrow> 's \<Rightarrow> bool) \<Rightarrow> ('s, 'a) step \<Rightarrow> bool" where
  "leaves eff Q m \<longleftrightarrow> (\<forall>s x t. m s = (Some x, t) \<longrightarrow> Q x (eff s) t)"

named_theorems leaves_intros
  \<open>postconditions of composite steps\<close>

lemma leaves_quiet [leaves_intros]:
  "(\<And>e. step_keeps (\<lambda>s. eff s = e) m) \<Longrightarrow> (\<And>x. leaves eff Q (f x)) \<Longrightarrow> leaves eff Q (step_then m f)"
  unfolding leaves_def
proof (intro allI impI)
  fix s y t
  assume m: "\<And>e. step_keeps (\<lambda>s. eff s = e) m" and f: "\<And>x. \<forall>s y t. f x s = (Some y, t) \<longrightarrow> Q y (eff s) t"
    and run: "step_then m f s = (Some y, t)"
  obtain x s' where first: "m s = (Some x, s')" and rest: "f x s' = (Some y, t)"
    using run unfolding step_then_Some by blast
  have "eff s' = eff s" using step_keepsD [OF m _ first] by blast
  with f [of x] rest show "Q y (eff s) t" by metis
qed

lemma leaves_modify:
  "(\<And>s. eff (w s) = change (eff s)) \<Longrightarrow>
     leaves eff (\<lambda>x e t. \<forall>e0. e = change e0 \<longrightarrow> Q x e0 t) (f ()) \<Longrightarrow> leaves eff Q (step_then (step_modify w) f)"
  unfolding leaves_def by (auto simp: step_success)

lemma leaves_with [leaves_intros]: "(\<And>x. leaves eff Q (f x)) \<Longrightarrow> leaves eff Q (step_with sel f)"
  by (simp add: leaves_def step_with_Some)

lemma leaves_split [leaves_intros]:
  "(\<And>a b. leaves eff Q (f a b)) \<Longrightarrow> leaves eff Q (case x of (a, b) \<Rightarrow> f a b)"
  by (cases x) simp

lemma leaves_return: "(\<And>s. Q x (eff s) s) \<Longrightarrow> leaves eff Q (step_return x)"
  by (simp add: leaves_def step_return_Some)

lemma leavesD: "leaves eff Q m \<Longrightarrow> m s = (Some x, t) \<Longrightarrow> Q x (eff s) t"
  by (simp add: leaves_def)

section \<open>Rows\<close>

text \<open>Filling consecutive positions of an array.\<close>

definition fill :: "nat \<Rightarrow> 'a list \<Rightarrow> 'a list \<Rightarrow> 'a list" where
  "fill i rows xs = take i xs @ rows @ drop (i + length rows) xs"

lemma fill_all: "length xs = length rows \<Longrightarrow> fill 0 rows xs = rows"
  by (simp add: fill_def)

fun write_rows :: "nat \<Rightarrow> 'a list \<Rightarrow> 'a list \<Rightarrow> 'a list" where
  "write_rows i [] xs = xs"
| "write_rows i (r # rs) xs = write_rows (Suc i) rs (xs[i := r])"

lemma write_rows_Cons: "write_rows i (r # rs) = (\<lambda>xs. write_rows (Suc i) rs (xs[i := r]))"
  by (simp add: fun_eq_iff)

lemma map_write_nothing [simp]: "map_option (write_rows i []) x = x"
  by (cases x) simp_all

lemma write_rows_fill: "i + length rows \<le> length xs \<Longrightarrow> write_rows i rows xs = fill i rows xs"
proof (induction rows arbitrary: i xs)
  case (Cons r rs)
  then have "i < length xs" by simp
  then show ?case
    using Cons by (simp add: fill_def upd_conv_take_nth_drop take_update_swap drop_update_cancel
        take_Suc_conv_app_nth add.commute)
qed (simp add: fill_def)

lemma rows_write:
  assumes "\<And>i. leaves eff (\<lambda>row e t. eff t = put (map_option (\<lambda>rows. rows[i := row]) (get e)) e) (row i)"
    and "\<And>x e. get (put x e) = x" "\<And>x y e. put x (put y e) = put x e" "\<And>e. put (get e) e = e"
  shows "leaves eff (\<lambda>rows e t. length rows = n \<and> eff t = put (map_option (write_rows i rows) (get e)) e)
    (scan_rows row i n)"
proof (induction n arbitrary: i)
  case 0
  show ?case by (simp add: leaves_def assms(4))
next
  case (Suc n)
  show ?case
    unfolding leaves_def
  proof (intro allI impI)
    fix s rows t
    assume "scan_rows row i (Suc n) s = (Some rows, t)"
    then obtain r rs s' where r: "row i s = (Some r, s')" "scan_rows row (Suc i) n s' = (Some rs, t)" "rows = r # rs"
      by (auto split: option.splits prod.splits)
    show "length rows = Suc n \<and> eff t = put (map_option (write_rows i rows) (get (eff s))) (eff s)"
      using leavesD [OF assms(1) r(1)] leavesD [OF Suc.IH r(2)] assms(2,3)
      by (simp add: r(3) write_rows_Cons option.map_comp comp_def)
  qed
qed

lemma leaves_rows:
  assumes "leaves eff (\<lambda>x e t. R x \<and> eff t = change x e) m"
    and "\<And>x. R x \<Longrightarrow> leaves eff (\<lambda>y e t. \<forall>e0. e = change x e0 \<longrightarrow> Q y e0 t) (f x)"
  shows "leaves eff Q (step_then m f)"
  unfolding leaves_def
proof (intro allI impI)
  fix s y t
  assume "step_then m f s = (Some y, t)"
  then obtain x s' where run: "m s = (Some x, s')" "f x s' = (Some y, t)"
    unfolding step_then_Some by blast
  from leavesD [OF assms(1) run(1)] have x: "R x" "eff s' = change x (eff s)" by simp_all
  from leavesD [OF assms(2) [OF x(1)] run(2)] x(2) show "Q y (eff s) t" by blast
qed

section \<open>Grammars of rows\<close>

lemma g_then_Some:
  "g_then g h p = Some (y, w) \<longleftrightarrow>
     (\<exists>x u v. g p = Some (x, u) \<and> h x (p + u Bytes) = Some (y, v) \<and> w = both u v)"
  by (auto simp: g_then_def split: option.splits)

lemma g_simps [simp]:
  "g_return x p = Some (y, u) \<longleftrightarrow> y = x \<and> u = no_use"
  "g_use v p = Some (z, u) \<longleftrightarrow> u = v"
  "g_require b p = Some (z, u) \<longleftrightarrow> b \<and> u = no_use"
  "g_at f p = f p p"
  by (auto simp: g_return_def g_use_def g_require_def g_at_def)

lemma g_rows_work:
  assumes "\<And>i p x u. g i p = Some (x, u) \<Longrightarrow> u Work = u Bytes + 1"
  shows "g_rows g i n p = Some (xs, u) \<Longrightarrow> u Work = u Bytes + n \<and> length xs = n"
proof (induction n arbitrary: i p xs u)
  case 0
  then show ?case by simp
next
  case (Suc n)
  then obtain x v ys w where "g i p = Some (x, v)" "g_rows g (Suc i) n (p + v Bytes) = Some (ys, w)"
    "u = both v w" "xs = x # ys"
    by (auto simp: g_then_Some)
  with assms Suc.IH show ?case by fastforce
qed

lemma g_take_work: "g_take base n p = Some (x, u) \<Longrightarrow> u Work = u Bytes"
  by (auto simp: g_take_def)

lemma g_u32_work: "g_u32 mem base selector p = Some (x, u) \<Longrightarrow> u Work = u Bytes"
  by (auto simp: g_u32_def g_then_Some dest: g_take_work)

lemma g_count_work: "g_count mem base selector p = Some (x, u) \<Longrightarrow> u Work = u Bytes"
  by (cases x) (auto simp: g_count_def g_then_Some dest: g_u32_work)

lemma g_type_prefix_work: "g_type_prefix mem base selector p = Some (x, u) \<Longrightarrow> u Work = u Bytes"
  by (auto simp: g_type_prefix_def Let_def g_then_Some dest!: g_take_work split: if_splits)

lemma g_tree_work: "g_tree mem base selector p = Some (x, u) \<Longrightarrow> u Work = u Bytes"
  by (auto simp: g_tree_def g_then_Some dest!: g_take_work g_u32_work)

lemma g_rows_all:
  assumes "\<And>i p x u. g i p = Some (x, u) \<Longrightarrow> P x"
  shows "g_rows g i n p = Some (xs, u) \<Longrightarrow> list_all P xs"
  by (induction n arbitrary: i p xs u) (auto simp: g_then_Some dest: assms)

text \<open>Spans that follow each other without a gap from position \<open>p\<close> to position \<open>q\<close>.\<close>

fun spans_tile :: "nat \<Rightarrow> nat \<Rightarrow> SerializedFilePrefixSpan list \<Rightarrow> bool" where
  "spans_tile p q [] \<longleftrightarrow> p = q"
| "spans_tile p q (span # spans) \<longleftrightarrow>
     unat (span_offset span) = p \<and> spans_tile (p + unat (span_size span)) q spans"

definition span_start :: "SerializedFilePrefixSpan \<Rightarrow> nat" where
  "span_start span = unat (span_offset span)"

definition span_end :: "SerializedFilePrefixSpan \<Rightarrow> nat" where
  "span_end span = unat (span_offset span) + unat (span_size span)"

lemma g_rows_tile:
  assumes "\<And>i p x u. g i p = Some (x, u) \<Longrightarrow> p + u Bytes < 2 ^ 64 \<Longrightarrow>
      unat (span_offset (source x)) = p \<and> unat (span_size (source x)) = u Bytes \<and> ordinal x = of_nat i"
  shows "g_rows g i n p = Some (xs, u) \<Longrightarrow> p + u Bytes < 2 ^ 64 \<Longrightarrow>
    spans_tile p (p + u Bytes) (map source xs) \<and> map ordinal xs = map of_nat [i..<i + n]"
proof (induction n arbitrary: i p xs u)
  case 0
  then show ?case by simp
next
  case (Suc n)
  then obtain x v ys w where parts: "g i p = Some (x, v)" "g_rows g (Suc i) n (p + v Bytes) = Some (ys, w)"
    "u = both v w" "xs = x # ys"
    by (auto simp: g_then_Some)
  have "p + v Bytes < 2 ^ 64" using Suc.prems(2) parts(3) by simp
  note first = assms [OF parts(1) this]
  have "[i..<i + Suc n] = i # [Suc i..<Suc i + n]" by (simp add: upt_conv_Cons)
  then show ?case
    using first Suc.IH [OF parts(2)] Suc.prems(2) parts(3,4) by (simp add: add.assoc)
qed

lemma g_take_span:
  assumes "g_take base n p = Some (span, u)" "p + u Bytes < 2 ^ 64"
  shows "span_start span = p" "span_end span = p + n" "u Bytes = n"
  using assms by (auto simp: g_take_def mapped_span_def span_start_def span_end_def unat_of_nat)

lemma ordinals_in_order:
  fixes i :: u64
  assumes "map ordinal xs = map of_nat [0..<length xs]" "unat i < length xs"
  shows "ordinal (xs ! unat i) = i"
proof -
  have "map ordinal xs ! unat i = of_nat (unat i)" using assms by (simp add: nth_append del: map_map)
  then show ?thesis using assms(2) by simp
qed

end
