(* ===== verification/FileDirectoryPass.thy ===== *)
theory FileDirectoryPass
  imports FileDirectoryScan Passes
begin

text \<open>
  What a pass over the directory tables leaves in the view and the arrays: everything it does
  not set it leaves alone, and the sections it returns are exactly what it wrote.
\<close>

section \<open>What a pass leaves behind\<close>

text \<open>The arrays, the view without its counters, and the rest that no step of a scan writes.\<close>

record ScanEffect =
  effect_types :: "SerializedFileDirectoryTypeRow list option"
  effect_objects :: "SerializedFileDirectoryObjectRow list option"
  effect_view :: SerializedFileDirectoryView
  effect_fixed :: "(pointer \<times> SerializedFileDirectoryLimits \<times> u64 \<times> u64) \<times>
    (u64 \<times> u64 \<times> u64 \<times> bool \<times> SerializedFilePrefixResult)"

definition blank_view :: "SerializedFileDirectoryView \<Rightarrow> SerializedFileDirectoryView" where
  "blank_view view = view\<lparr>node_record_count := 0, view_string_byte_count := 0, dependency_word_count := 0\<rparr>"

definition scan_effect :: "DirectoryScan \<Rightarrow> ScanEffect" where
  "scan_effect s =
     \<lparr>effect_types = scan_types s, effect_objects = scan_objects s,
      effect_view = blank_view (scan_view s),
      effect_fixed = ((scan_bytes s, scan_limits s, type_capacity s, object_capacity s),
        (required_retained_bytes (scan_result s), peak_retained_bytes (scan_result s),
         peak_scratch_bytes (scan_result s), prefix_attempted (scan_result s), prefix_result (scan_result s)))\<rparr>"

abbreviation quiet :: "ScanEffect \<Rightarrow> DirectoryScan \<Rightarrow> bool" where
  "quiet e s \<equiv> scan_effect s = e"

lemma scan_effect_simps [simp]:
  "scan_effect (s\<lparr>scan_field := field\<rparr>) = scan_effect s"
  "scan_effect (s\<lparr>scan_row_ordinal := n\<rparr>) = scan_effect s"
  "scan_effect (s\<lparr>scan_types := types\<rparr>) = (scan_effect s)\<lparr>effect_types := types\<rparr>"
  "scan_effect (s\<lparr>scan_objects := objects\<rparr>) = (scan_effect s)\<lparr>effect_objects := objects\<rparr>"
  "scan_effect (s\<lparr>scan_view := view\<rparr>) = (scan_effect s)\<lparr>effect_view := blank_view view\<rparr>"
  "scan_effect (s\<lparr>scan_result := directory_reject status limit fld row offset (scan_result s)\<rparr>) = scan_effect s"
  "scan_effect (s\<lparr>scan_result := (scan_result s)\<lparr>directory_work_used := n\<rparr>\<rparr>) = scan_effect s"
  by (simp_all add: scan_effect_def directory_reject_def)

lemma effect_simps [simp]:
  "effect_types (scan_effect s) = scan_types s" "effect_objects (scan_effect s) = scan_objects s"
  "effect_view (scan_effect s) = blank_view (scan_view s)"
  by (simp_all add: scan_effect_def)

lemma blank_counters [simp]:
  "blank_view (v\<lparr>node_record_count := n\<rparr>) = blank_view v"
  "blank_view (v\<lparr>view_string_byte_count := n\<rparr>) = blank_view v"
  "blank_view (v\<lparr>dependency_word_count := n\<rparr>) = blank_view v"
  by (simp_all add: blank_view_def)

lemma effect_view_same [simp]: "(scan_effect s)\<lparr>effect_view := blank_view (scan_view s)\<rparr> = scan_effect s"
  by (simp add: scan_effect_def)

lemma quiet_reject_reader: "quiet e s \<Longrightarrow> quiet e (directory_reject_reader s)"
  by (auto simp: directory_reject_reader_def split: prod.split)

lemma quiet_return_reader: "quiet e s \<Longrightarrow> quiet e (return_reader p s)"
  by (auto simp: return_reader_def scan_effect_def)

lemma quiet_return_tree: "quiet e s \<Longrightarrow> quiet e (return_tree p s)"
  by (cases p) (auto simp: return_tree_def intro: quiet_return_reader)

lemma quiet_scan_read [step_inv_intros]: "step_keeps (quiet e) (scan_read m)"
  unfolding scan_read_def by (intro step_keeps_inside quiet_reject_reader quiet_return_reader)

lemma quiet_tree [step_inv_intros]:
  "step_keeps (quiet e) (step_inside lend_tree return_tree directory_reject_reader m)"
  by (intro step_keeps_inside quiet_reject_reader quiet_return_tree)

lemma quiet_charge [step_inv_intros]:
  "step_keeps (quiet e) (on_result (directory_charge_work limits amount field row offset))"
  unfolding on_result_charge by (intro step_inv_intros) auto

lemma quiet_add [step_inv_intros]:
  "step_keeps (quiet e)
     (add_cardinality dependency_word_count (\<lambda>n view. view\<lparr>dependency_word_count := n\<rparr>) count allowed limit offset)"
  unfolding add_cardinality_def by (intro step_inv_intros) auto

lemma quiet_scan_tree [step_inv_intros]: "step_keeps (quiet e) (scan_tree mem row)"
  unfolding scan_tree_def take_count_def take_bytes_def by (intro step_inv_intros) auto

lemma quiet_scan_count [step_inv_intros]:
  "step_keeps (quiet e) (scan_count mem field limit cap_of capacity)"
  unfolding scan_count_def take_count_def by (intro step_inv_intros) auto

lemma quiet_take_bytes [step_inv_intros]: "step_keeps (quiet e) (take_bytes width)"
  unfolding take_bytes_def by (intro step_inv_intros)

lemma quiet_object_require [step_inv_intros]: "step_keeps (quiet e) (object_require valid field i offset)"
  unfolding object_require_def by (intro step_inv_intros) auto

lemma quiet_modify_intro: "(\<And>s. scan_effect (f s) = scan_effect s) \<Longrightarrow> step_keeps (quiet e) (step_modify f)"
  by (rule step_keeps_modify) simp

lemma scan_type_writes:
  "leaves scan_effect (\<lambda>row e t. scan_effect t = e\<lparr>effect_types := map_option (\<lambda>rows. rows[i := row]) (effect_types e)\<rparr>)
     (scan_type mem i)"
  unfolding scan_type_def Let_def
  by (intro leaves_quiet leaves_with leaves_split step_inv_intros
      leaves_modify [where change = "\<lambda>e. e\<lparr>effect_types := map_option h (effect_types e)\<rparr>" for h]
      leaves_return) auto

lemma scan_object_writes:
  "leaves scan_effect (\<lambda>row e t. scan_effect t = e\<lparr>effect_objects := map_option (\<lambda>rows. rows[i := row]) (effect_objects e)\<rparr>)
     (scan_object mem i)"
  unfolding scan_object_def Let_def
  by (intro leaves_quiet leaves_with leaves_split step_inv_intros
      leaves_modify [where change = "\<lambda>e. e\<lparr>effect_objects := map_option h (effect_objects e)\<rparr>" for h]
      leaves_return) auto

lemma type_rows_write:
  "leaves scan_effect (\<lambda>rows e t. length rows = n \<and>
       scan_effect t = e\<lparr>effect_types := map_option (write_rows i rows) (effect_types e)\<rparr>)
     (scan_rows (scan_type mem) i n)"
  using rows_write [where get = effect_types and put = "\<lambda>x e. e\<lparr>effect_types := x\<rparr>", OF scan_type_writes] by simp

lemma object_rows_write:
  "leaves scan_effect (\<lambda>rows e t. length rows = n \<and>
       scan_effect t = e\<lparr>effect_objects := map_option (write_rows i rows) (effect_objects e)\<rparr>)
     (scan_rows (scan_object mem) i n)"
  using rows_write [where get = effect_objects and put = "\<lambda>x e. e\<lparr>effect_objects := x\<rparr>", OF scan_object_writes]
  by simp

text \<open>The view a pass completes, but for its counters.\<close>

definition sections_view ::
    "pointer \<Rightarrow> u64 \<Rightarrow> DirectorySections \<Rightarrow> SerializedFileDirectoryView \<Rightarrow> SerializedFileDirectoryView" where
  "sections_view bytes stop x view = view
     \<lparr>type_count_source := section_type_count x, type_count := ucast (section_type_total x),
      type_rows_source := section_types x, object_count_source := section_object_count x,
      object_count := ucast (section_object_total x), object_padding_source := section_padding x,
      object_rows_source := section_objects x,
      parsed_metadata_source :=
        mapped_span bytes SERIALIZED_FILE_V22_HEADER_SIZE (stop - SERIALIZED_FILE_V22_HEADER_SIZE),
      view_remaining_metadata :=
        \<lparr>range_offset = stop,
         range_size = range_offset (metadata_to_data_gap (header (view_prefix view))) - stop\<rparr>\<rparr>"

definition pass_leaves :: "DirectorySections \<Rightarrow> ScanEffect \<Rightarrow> DirectoryScan \<Rightarrow> bool" where
  "pass_leaves x e t \<longleftrightarrow>
     length (section_type_rows x) = unat (section_type_total x) \<and>
     length (section_object_rows x) = unat (section_object_total x) \<and>
     scan_effect t = e
       \<lparr>effect_types := map_option (write_rows 0 (section_type_rows x)) (effect_types e),
        effect_objects := map_option (write_rows 0 (section_object_rows x)) (effect_objects e),
        effect_view := sections_view (fst (fst (effect_fixed e))) (reader_position (scan_reader t)) x (effect_view e)\<rparr>"

lemma leaves_last:
  assumes "\<And>s. Q (r (scan_bytes s) (reader_position (scan_reader s))) (scan_effect s)
      (w (scan_bytes s) (reader_position (scan_reader s)) s)"
  shows "leaves scan_effect Q (step_with (\<lambda>s. (scan_bytes s, reader_position (scan_reader s))) (\<lambda>(bytes, stop).
    step_then (step_modify (w bytes stop)) (\<lambda>_. step_return (r bytes stop))))"
  unfolding leaves_def by (auto simp: step_success assms)

lemma blank_view_commutes [simp]:
  "blank_view (v\<lparr>type_count_source := span\<rparr>) = (blank_view v)\<lparr>type_count_source := span\<rparr>"
  "blank_view (v\<lparr>type_count := n\<rparr>) = (blank_view v)\<lparr>type_count := n\<rparr>"
  "blank_view (v\<lparr>type_rows_source := span\<rparr>) = (blank_view v)\<lparr>type_rows_source := span\<rparr>"
  "blank_view (v\<lparr>object_count_source := span\<rparr>) = (blank_view v)\<lparr>object_count_source := span\<rparr>"
  "blank_view (v\<lparr>object_count := n\<rparr>) = (blank_view v)\<lparr>object_count := n\<rparr>"
  "blank_view (v\<lparr>object_padding_source := span\<rparr>) = (blank_view v)\<lparr>object_padding_source := span\<rparr>"
  "blank_view (v\<lparr>object_rows_source := span\<rparr>) = (blank_view v)\<lparr>object_rows_source := span\<rparr>"
  "blank_view (v\<lparr>parsed_metadata_source := span\<rparr>) = (blank_view v)\<lparr>parsed_metadata_source := span\<rparr>"
  "blank_view (v\<lparr>view_remaining_metadata := left\<rparr>) = (blank_view v)\<lparr>view_remaining_metadata := left\<rparr>"
  "view_prefix (blank_view v) = view_prefix v"
  by (simp_all add: blank_view_def)

lemma leaves_view:
  assumes "\<And>v. blank_view (h v) = h (blank_view v)"
    and "leaves scan_effect (\<lambda>x e t. \<forall>e0. e = e0\<lparr>effect_view := h (effect_view e0)\<rparr> \<longrightarrow> Q x e0 t) (f ())"
  shows "leaves scan_effect Q (step_then (step_modify (\<lambda>s. s\<lparr>scan_view := h (scan_view s)\<rparr>)) f)"
  by (rule leaves_modify [where change = "\<lambda>e. e\<lparr>effect_view := h (effect_view e)\<rparr>"])
    (simp_all add: assms(1) assms(2) [simplified])

lemma scan_of_effect:
  "scan_bytes s = fst (fst (effect_fixed (scan_effect s)))"
  "view_prefix (scan_view s) = view_prefix (effect_view (scan_effect s))"
  "blank_view (scan_view s) = effect_view (scan_effect s)"
  by (simp_all add: scan_effect_def)

lemma scan_directory_leaves: "leaves scan_effect pass_leaves (scan_directory mem)"
  unfolding scan_directory_def Let_def
  apply (rule leaves_quiet, intro step_inv_intros, rule leaves_split, rule leaves_view, simp)
  apply (rule leaves_with, rule leaves_rows [OF type_rows_write], rule leaves_with, rule leaves_split)
  apply (rule leaves_view, simp)
  apply (rule leaves_quiet, intro step_inv_intros, rule leaves_split, rule leaves_view, simp)
  apply (rule leaves_with, rule leaves_quiet, intro step_inv_intros, simp)
  apply (rule leaves_quiet, intro step_inv_intros, rule leaves_view, simp)
  apply (rule leaves_with, rule leaves_rows [OF object_rows_write], rule leaves_last)
  apply (simp add: pass_leaves_def sections_view_def scan_of_effect del: effect_simps)
  done

end
