(* ===== verification/TwoPass.thy ===== *)
theory TwoPass
  imports Passes Allocation
begin

text \<open>
  Building a store in two passes, as the owners of metadata do: a pass that counts, a paid plan
  and a paid allocation of exactly the planned bytes, a second pass over the same input that
  fills the allocation, and one unit for the publication. The laws ask of the passes what
  metering gives; the lemma says exactly when a store is built, what it costs and that
  every failure gives the allocation back.
\<close>

text \<open>The paid allocation, the filling pass into it, and the publication.\<close>

definition two_pass_store ::
    "(u64 \<Rightarrow> ('r, unit) step) \<Rightarrow> ('l \<Rightarrow> u64) \<Rightarrow> ('r \<Rightarrow> 'r) \<Rightarrow> (u64 \<Rightarrow> 'r \<Rightarrow> 'r) \<Rightarrow>
     ('l \<Rightarrow> pointer \<Rightarrow> block \<Rightarrow> 's \<Rightarrow> ('r, 'y) step) \<Rightarrow>
     (nat \<Rightarrow> pointer) \<Rightarrow> allocator \<Rightarrow> 'l \<Rightarrow> 's \<Rightarrow> 'r \<Rightarrow> tracker \<Rightarrow> 'r \<times> 'y option \<times> tracker" where
  "two_pass_store charge bytes_of exhausted peaked replay place grants layout s r t =
     (case charge (bytes_of layout) r of
        (None, r) \<Rightarrow> (r, None, t)
      | (Some _, r) \<Rightarrow>
          (case mem_alloc grants (bytes_of layout) t of
             (None, t) \<Rightarrow> (exhausted r, None, t)
           | (Some cells, t') \<Rightarrow>
               (case step_then (replay layout (place (allocator_calls t)) cells s)
                       (\<lambda>y. step_then (charge 1) (\<lambda>_. step_return y))
                       (peaked (bytes_of layout) r) of
                  (None, r) \<Rightarrow> (r, None, mem_free (Some cells) (bytes_of layout) t')
                | (Some y, r) \<Rightarrow> (r, Some y, t'))))"

definition two_pass_build ::
    "(u64 \<Rightarrow> ('r, unit) step) \<Rightarrow> ('r \<Rightarrow> 'x option \<times> 's) \<Rightarrow> ('s \<Rightarrow> 'r) \<Rightarrow> ('s \<Rightarrow> ('r, 'l) step) \<Rightarrow> ('l \<Rightarrow> u64) \<Rightarrow>
     ('r \<Rightarrow> 'r) \<Rightarrow> (u64 \<Rightarrow> 'r \<Rightarrow> 'r) \<Rightarrow> ('l \<Rightarrow> pointer \<Rightarrow> block \<Rightarrow> 's \<Rightarrow> ('r, 'y) step) \<Rightarrow>
     (nat \<Rightarrow> pointer) \<Rightarrow> allocator \<Rightarrow> 'r \<Rightarrow> tracker \<Rightarrow> 'r \<times> 'y option \<times> tracker" where
  "two_pass_build charge count result plan bytes_of exhausted peaked replay place grants r t =
     (case count r of
        (None, s) \<Rightarrow> (result s, None, t)
      | (Some _, s) \<Rightarrow>
          (case plan s (result s) of
             (None, r) \<Rightarrow> (r, None, t)
           | (Some layout, r) \<Rightarrow>
               two_pass_store charge bytes_of exhausted peaked replay place grants layout s r t))"

lemma mem_alloc_None:
  "mem_alloc grants n t = (None, t') \<Longrightarrow> n \<noteq> 0 \<Longrightarrow>
     \<not> grants (allocator_calls t) n \<and> owed None 0 t' = owed None 0 t"
  by (auto simp: mem_alloc_def Let_def owed_def split: if_splits)

lemma mem_alloc_Some:
  "mem_alloc grants n t = (Some cells, t') \<Longrightarrow>
     grants (allocator_calls t) n \<and> owed (Some cells) n t' = owed None 0 t"
  by (auto simp: mem_alloc_def Let_def owed_def split: if_splits)

lemma mem_free_owed: "owed None 0 (mem_free (Some cells) n t) = owed (Some cells) n t"
  by (simp add: mem_free_def owed_def)

locale two_pass =
  fixes work required peak :: "'r \<Rightarrow> u64" and ok :: "'r \<Rightarrow> bool" and budget retained_cap :: u64
    and charge :: "u64 \<Rightarrow> ('r, unit) step"
    and count :: "'r \<Rightarrow> 'x option \<times> 's" and result :: "'s \<Rightarrow> 'r"
    and plan :: "'s \<Rightarrow> ('r, 'l) step" and bytes_of :: "'l \<Rightarrow> u64"
    and exhausted :: "'r \<Rightarrow> 'r" and peaked :: "u64 \<Rightarrow> 'r \<Rightarrow> 'r"
    and replay :: "'l \<Rightarrow> pointer \<Rightarrow> block \<Rightarrow> 's \<Rightarrow> ('r, 'y) step"
    and good :: bool and tables :: "('x \<times> usage) option" and room :: "usage \<Rightarrow> bool"
    and counted :: "'x \<Rightarrow> 's \<Rightarrow> bool" and amount :: "'x \<Rightarrow> nat"
    and describes :: "pointer \<Rightarrow> block \<Rightarrow> 'x \<Rightarrow> usage \<Rightarrow> 'y \<Rightarrow> bool"
  assumes charges: "work r \<le> budget \<Longrightarrow>
      (case charge n r of
         (None, r') \<Rightarrow> \<not> ok r' \<and> work r' = work r \<and> unat budget < unat (work r) + unat n
       | (Some _, r') \<Rightarrow>
           unat (work r') = unat (work r) + unat n \<and> unat (work r) + unat n \<le> unat budget \<and>
           ok r' = ok r \<and> required r' = required r \<and> peak r' = peak r)"
    and counts: "good \<Longrightarrow> ok r \<Longrightarrow> work r \<le> budget \<Longrightarrow>
      (case count r of
         (None, s) \<Rightarrow> \<not> ok (result s) \<and> work (result s) \<le> budget \<and>
           \<not> (\<exists>x u. tables = Some (x, u) \<and> room u \<and> unat (work r) + u Work \<le> unat budget)
       | (Some x, s) \<Rightarrow> \<exists>u. tables = Some (x, u) \<and> room u \<and> ok (result s) \<and> work (result s) \<le> budget \<and>
           unat (work (result s)) = unat (work r) + u Work \<and> counted x s)"
    and plans: "counted x s \<Longrightarrow> work r \<le> budget \<Longrightarrow>
      (case plan s r of
         (None, r') \<Rightarrow> \<not> ok r' \<and> work r' \<le> budget \<and>
           (unat budget < unat (work r) + 1 \<or> unat retained_cap < amount x)
       | (Some layout, r') \<Rightarrow> unat (bytes_of layout) = amount x \<and> ok r' = ok r \<and> work r' \<le> budget \<and>
           unat (work r') = unat (work r) + 1 \<and> required r' = bytes_of layout \<and>
           amount x \<le> unat retained_cap)"
    and amount_positive: "0 < amount x"
    and exhausted_fails: "\<not> ok (exhausted r)" "work (exhausted r) = work r"
    and peaked_keeps: "ok (peaked n r) = ok r" "work (peaked n r) = work r"
      "required (peaked n r) = required r" "peak (peaked n r) = n"
    and replays: "good \<Longrightarrow> counted x s \<Longrightarrow> tables = Some (x, u) \<Longrightarrow> room u \<Longrightarrow> ok r \<Longrightarrow> work r \<le> budget \<Longrightarrow>
        bytes_of layout = of_nat (amount x) \<Longrightarrow>
      (case replay layout address cells s r of
         (None, r') \<Rightarrow> \<not> ok r' \<and> work r' \<le> budget \<and> unat budget < unat (work r) + u Work
       | (Some y, r') \<Rightarrow> ok r' \<and> work r' \<le> budget \<and> unat (work r') = unat (work r) + u Work \<and>
           required r' = required r \<and> peak r' = peak r \<and> describes address cells x u y)"
begin

lemma charged:
  assumes "work r \<le> budget"
  shows "\<exists>r'. charge n r = (if unat (work r) + unat n \<le> unat budget then Some () else None, r') \<and>
    work r' \<le> budget \<and>
    (if unat (work r) + unat n \<le> unat budget
     then unat (work r') = unat (work r) + unat n \<and> ok r' = ok r \<and> required r' = required r \<and> peak r' = peak r
     else \<not> ok r')"
  using charges [OF assms, of n] assms
  by (cases "charge n r"; cases "fst (charge n r)") (auto simp: word_le_nat_alt)

text \<open>The filling pass and the publication unit.\<close>

lemma published:
  assumes "good" "counted x s" "tables = Some (x, u)" "room u" "ok r" "work r \<le> budget"
    and "bytes_of layout = of_nat (amount x)"
  shows "case step_then (replay layout address cells s) (\<lambda>y. step_then (charge 1) (\<lambda>_. step_return y)) r of
      (None, r') \<Rightarrow> \<not> ok r' \<and> work r' \<le> budget \<and> unat budget < unat (work r) + u Work + 1
    | (Some y, r') \<Rightarrow> ok r' \<and> unat (work r') = unat (work r) + u Work + 1 \<and>
        unat (work r) + u Work + 1 \<le> unat budget \<and>
        required r' = required r \<and> peak r' = peak r \<and> describes address cells x u y"
proof -
  obtain y r1 where run: "replay layout address cells s r = (y, r1)" by fastforce
  note replayed = replays [OF assms, of address cells, unfolded run prod.case]
  show ?thesis
  proof (cases y)
    case None
    with replayed show ?thesis by (simp add: run step_then_def)
  next
    case (Some z)
    then have one: "unat (work r1) = unat (work r) + u Work" "work r1 \<le> budget" "ok r1"
      "required r1 = required r" "peak r1 = peak r" "describes address cells x u z"
      using replayed by simp_all
    obtain r2 where "charge 1 r1 = (if unat (work r1) + 1 \<le> unat budget then Some () else None, r2)"
      "work r2 \<le> budget"
      "if unat (work r1) + 1 \<le> unat budget
       then unat (work r2) = unat (work r1) + 1 \<and> ok r2 = ok r1 \<and> required r2 = required r1 \<and> peak r2 = peak r1
       else \<not> ok r2"
      using charged [OF one(2), of 1] by auto
    then show ?thesis using one Some by (simp add: run step_then_def step_return_def split: if_splits)
  qed
qed

definition affordable :: "allocator \<Rightarrow> tracker \<Rightarrow> nat \<Rightarrow> 'x \<Rightarrow> usage \<Rightarrow> bool" where
  "affordable grants t spent x u \<longleftrightarrow>
     room u \<and> amount x \<le> unat retained_cap \<and> grants (allocator_calls t) (of_nat (amount x)) \<and>
     spent + 2 * u Work + amount x + 2 \<le> unat budget"

abbreviation build where
  "build place grants r t \<equiv>
     two_pass_build charge count result plan bytes_of exhausted peaked replay place grants r t"

lemma allocated:
  assumes good: good and x: "counted x s" "tables = Some (x, u)" "room u" and r: "ok r" "work r \<le> budget"
    and layout: "unat (bytes_of layout) = amount x"
  shows "case two_pass_store charge bytes_of exhausted peaked replay place grants layout s r t of
      (r', None, t') \<Rightarrow> \<not> ok r' \<and> work r' \<le> budget \<and> owed None 0 t' = owed None 0 t \<and>
        \<not> (grants (allocator_calls t) (of_nat (amount x)) \<and>
           unat (work r) + amount x + u Work + 1 \<le> unat budget)
    | (r', Some y, t') \<Rightarrow> ok r' \<and> unat (work r') = unat (work r) + amount x + u Work + 1 \<and>
        unat (work r) + amount x + u Work + 1 \<le> unat budget \<and>
        grants (allocator_calls t) (of_nat (amount x)) \<and>
        required r' = required r \<and> peak r' = of_nat (amount x) \<and>
        (\<exists>cells. describes (place (allocator_calls t)) cells x u y \<and>
           owed (Some cells) (of_nat (amount x)) t' = owed None 0 t)"
proof -
  have bytes: "bytes_of layout = of_nat (amount x)" unfolding layout [symmetric] by simp
  have nonzero: "bytes_of layout \<noteq> 0" using layout amount_positive [of x] by auto
  obtain r1 where paid: "charge (bytes_of layout) r =
      (if unat (work r) + amount x \<le> unat budget then Some () else None, r1)" "work r1 \<le> budget"
    "if unat (work r) + amount x \<le> unat budget
     then unat (work r1) = unat (work r) + amount x \<and> ok r1 = ok r \<and> required r1 = required r \<and> peak r1 = peak r
     else \<not> ok r1"
    using charged [OF r(2), of "bytes_of layout"] layout by auto
  show ?thesis
  proof (cases "unat (work r) + amount x \<le> unat budget")
    case False
    then show ?thesis using paid by (simp add: two_pass_store_def)
  next
    case True
    then have one: "unat (work r1) = unat (work r) + amount x" "ok r1" "required r1 = required r"
      using paid(3) r(1) by simp_all
    obtain c t1 where alloc: "mem_alloc grants (bytes_of layout) t = (c, t1)" by fastforce
    show ?thesis
    proof (cases c)
      case None
      then show ?thesis
        using True paid(1,2) alloc mem_alloc_None [OF alloc [unfolded None] nonzero] exhausted_fails bytes
        by (simp add: two_pass_store_def)
    next
      case (Some cells)
      let ?r = "peaked (bytes_of layout) r1"
      have peaked: "ok ?r" "work ?r \<le> budget" using peaked_keeps one paid(2) by simp_all
      obtain y r2 where run: "step_then (replay layout (place (allocator_calls t)) cells s)
          (\<lambda>y. step_then (charge 1) (\<lambda>_. step_return y)) ?r = (y, r2)"
        by fastforce
      note granted = mem_alloc_Some [OF alloc [unfolded Some], unfolded bytes]
      note stored = published [OF good x peaked bytes, where cells = cells and
          address = "place (allocator_calls t)", unfolded run prod.case peaked_keeps one(1,3)]
      show ?thesis
      proof (cases y)
        case None
        then show ?thesis
          using stored granted True paid(1) alloc Some by (simp add: two_pass_store_def run [unfolded bytes] mem_free_owed bytes)
      next
        case stores: (Some z)
        then show ?thesis
          using stored granted True paid(1) alloc Some by (auto simp: two_pass_store_def run [unfolded bytes] bytes)
      qed
    qed
  qed
qed

lemma built:
  assumes good: good and r: "ok r" "work r \<le> budget"
  shows "case build place grants r t of
      (r', None, t') \<Rightarrow> \<not> ok r' \<and> work r' \<le> budget \<and> owed None 0 t' = owed None 0 t \<and>
        \<not> (\<exists>x u. tables = Some (x, u) \<and> affordable grants t (unat (work r)) x u)
    | (r', Some y, t') \<Rightarrow> ok r' \<and>
        (\<exists>x u. tables = Some (x, u) \<and> affordable grants t (unat (work r)) x u \<and>
           unat (work r') = unat (work r) + 2 * u Work + amount x + 2 \<and>
           required r' = of_nat (amount x) \<and> peak r' = of_nat (amount x) \<and>
           (\<exists>cells. describes (place (allocator_calls t)) cells x u y \<and>
              owed (Some cells) (of_nat (amount x)) t' = owed None 0 t))"
proof -
  obtain z s where run: "count r = (z, s)" by fastforce
  note counting = counts [OF good r, unfolded run prod.case]
  show ?thesis
  proof (cases z)
    case None
    then show ?thesis using counting by (auto simp: two_pass_build_def run affordable_def)
  next
    case (Some x)
    then obtain u where x: "tables = Some (x, u)" "room u" "counted x s" and one: "ok (result s)" "work (result s) \<le> budget"
      "unat (work (result s)) = unat (work r) + u Work"
      using counting by auto
    obtain l r2 where planned: "plan s (result s) = (l, r2)" by fastforce
    note planning = plans [OF x(3) one(2), unfolded planned prod.case]
    show ?thesis
    proof (cases l)
      case None
      then show ?thesis
        using planning Some x one by (auto simp: two_pass_build_def run planned affordable_def)
    next
      case (Some layout)
      then have two: "unat (bytes_of layout) = amount x" "ok r2" "work r2 \<le> budget"
        "unat (work r2) = unat (work r) + u Work + 1" "required r2 = bytes_of layout" "amount x \<le> unat retained_cap"
        using planning one by simp_all
      have "bytes_of layout = of_nat (amount x)" unfolding two(1) [symmetric] by simp
      note three = allocated [OF good x(3,1,2) two(2,3,1), where t = t and place = place and grants = grants, unfolded two(4,5) this]
      have build: "build place grants r t =
          two_pass_store charge bytes_of exhausted peaked replay place grants layout s r2 t"
        unfolding two_pass_build_def run planned \<open>z = Some x\<close> Some prod.case option.case ..
      obtain r' out t' where stop: "build place grants r t = (r', out, t')" by (metis surj_pair)
      show ?thesis
        using three two(6) x(1,2) unfolding build [symmetric] stop prod.case
        by (cases out) (auto simp: affordable_def)
    qed
  qed
qed

end

end
