(* ===== verification/FileDirectoryCreate.thy ===== *)
theory FileDirectoryCreate
  imports FileDirectoryPass TwoPass
begin

text \<open>
  Creating, reading and disposing of a directory: exactly when creation succeeds, what it
  costs, what it publishes, and that nothing it allocates is lost.
\<close>

section \<open>Admission\<close>

definition result_gauge :: "SerializedFileDirectoryLimits \<Rightarrow> (SerializedFileDirectoryResult, unit) gauge" where
  "result_gauge limits =
     \<lparr>level = (\<lambda>r. use Work (unat (directory_work_used r))),
      cap = (\<lambda>r. use Work (unat (directory_max_work limits))), env = (\<lambda>_. ()),
      failed = (\<lambda>r. directory_status r \<noteq> SERIALIZED_FILE_DIRECTORY_OK), sound = (\<lambda>_. True)\<rparr>"

lemma result_gauge_simps [simp]:
  "level (result_gauge limits) r = use Work (unat (directory_work_used r))"
  "cap (result_gauge limits) r = use Work (unat (directory_max_work limits))"
  "env (result_gauge limits) r = ()" "sound (result_gauge limits) r"
  "failed (result_gauge limits) r \<longleftrightarrow> directory_status r \<noteq> SERIALIZED_FILE_DIRECTORY_OK"
  by (simp_all add: result_gauge_def)

lemma result_within:
  "within (result_gauge limits) r \<longleftrightarrow> directory_work_used r \<le> directory_max_work limits"
  by (simp add: within_def all_resources word_le_nat_alt)

lemma result_affords:
  "within (result_gauge limits) r \<Longrightarrow> affords (result_gauge limits) r (use Work n) \<longleftrightarrow>
     unat (directory_work_used r) + n \<le> unat (directory_max_work limits)"
  by (simp add: affords_def all_resources)

lemma result_rejected:
  "status \<noteq> SERIALIZED_FILE_DIRECTORY_OK \<Longrightarrow>
     unseen (result_gauge limits) r (directory_reject status limit field row offset r) \<and>
     failed (result_gauge limits) (directory_reject status limit field row offset r)"
  by (simp add: unseen_def)

lemma meters_result_charge:
  "meters (result_gauge limits) e (\<lambda>_. e) (directory_charge_work limits amount field row offset)
     (g_use (use Work (unat amount)))"
  unfolding directory_charge_work_def
proof (rule meters_charge)
  fix r
  assume "within (result_gauge limits) r"
  then have le: "directory_work_used r \<le> directory_max_work limits" by (simp add: result_within)
  show "(amount \<le> directory_max_work limits - directory_work_used r) =
      (level (result_gauge limits) r Work + unat amount \<le> cap (result_gauge limits) r Work)"
    using charge_iff [OF le] by simp
  assume "amount \<le> directory_max_work limits - directory_work_used r"
  then show "spends (result_gauge limits) r (use Work (unat amount))
        (r\<lparr>directory_work_used := directory_work_used r + amount\<rparr>) \<and>
      env (result_gauge limits) (r\<lparr>directory_work_used := directory_work_used r + amount\<rparr>) = e"
    using charge_value [OF le] by (simp add: spends_def usage_eq)
qed (rule result_rejected, simp)

definition span_bytes :: "memory \<Rightarrow> SerializedFilePrefixSpan \<Rightarrow> u8 list" where
  "span_bytes mem span = map (\<lambda>i. mem (span_data span + of_nat i)) [0..<unat (span_size span)]"

lemma g_rows_require:
  "g_rows (\<lambda>i. g_then (g_use (use Work 1)) (\<lambda>_. g_require (c i))) i n p = Some (rows, u) \<longleftrightarrow>
     (\<forall>k < n. c (i + k)) \<and> rows = replicate n () \<and> u = use Work n"
proof (induction n arbitrary: i rows u p)
  case 0
  then show ?case by (simp add: usage_eq)
next
  case (Suc n)
  have "(\<forall>k < Suc n. c (i + k)) \<longleftrightarrow> c i \<and> (\<forall>k < n. c (Suc i + k))"
    by (auto simp: less_Suc_eq_0_disj)
  moreover have "both (use Work (Suc 0)) (use Work n) = use Work (Suc n)" by (simp add: usage_eq)
  ultimately show ?case by (auto simp: g_then_Some Suc.IH [unfolded One_nat_def])
qed

definition version_matches :: "memory \<Rightarrow> u32 \<Rightarrow> SerializedFilePrefixView \<Rightarrow> bool" where
  "version_matches mem engine prefix \<longleftrightarrow>
     expected_version engine = Some (span_bytes mem (version_source prefix))"

lemma list_is_map:
  "(\<forall>k < n. k < length xs \<and> f k = xs ! k) \<and> n = length xs \<longleftrightarrow> xs = map f [0..<n]"
proof
  assume "(\<forall>k < n. k < length xs \<and> f k = xs ! k) \<and> n = length xs"
  then show "xs = map f [0..<n]" by (intro nth_equalityI) auto
qed simp

lemma version_bytes_iff:
  "(\<forall>k < unat (span_size span). k < length expected \<and> mem (span_data span + of_nat k) = expected ! k) \<and>
   unat (span_size span) = length expected \<longleftrightarrow> expected = span_bytes mem span"
  unfolding span_bytes_def by (rule list_is_map)

lemma check_prefix_outcome:
  assumes r: "directory_work_used r \<le> directory_max_work limits"
  shows "case check_prefix mem engine limits prefix r of
      (None, t) \<Rightarrow>
        directory_status t \<noteq> SERIALIZED_FILE_DIRECTORY_OK \<and> directory_work_used t \<le> directory_max_work limits \<and>
        \<not> (version_matches mem engine prefix \<and> type_tree_enabled_raw prefix \<le> 1 \<and>
           span_size (metadata_prefix_source prefix) \<le> directory_max_metadata_bytes limits \<and>
           unat (directory_work_used r) + unat (span_size (version_source prefix)) \<le>
             unat (directory_max_work limits))
    | (Some prefix', t) \<Rightarrow>
        prefix' = prefix \<and>
        (directory_status t = SERIALIZED_FILE_DIRECTORY_OK) = (directory_status r = SERIALIZED_FILE_DIRECTORY_OK) \<and>
        version_matches mem engine prefix \<and> type_tree_enabled_raw prefix \<le> 1 \<and>
        span_size (metadata_prefix_source prefix) \<le> directory_max_metadata_bytes limits \<and>
        directory_work_used t \<le> directory_max_work limits \<and>
        unat (directory_work_used t) =
          unat (directory_work_used r) + unat (span_size (version_source prefix))"
proof (cases "expected_version engine")
  case None
  then show ?thesis using r by (simp add: check_prefix_def version_matches_def)
next
  case (Some expected)
  let ?G = "result_gauge limits" and ?n = "unat (span_size (version_source prefix))"
  let ?g = "g_then (g_rows (\<lambda>i. g_then (g_use (use Work 1)) (\<lambda>_. g_require (i < length expected \<and>
        mem (span_data (version_source prefix) + of_nat i) = expected ! i))) 0 ?n) (\<lambda>_.
      g_then (g_require (?n = length expected)) (\<lambda>_.
      g_then (g_require (type_tree_enabled_raw prefix \<le> 1)) (\<lambda>_.
      g_then (g_require (span_size (metadata_prefix_source prefix) \<le> directory_max_metadata_bytes limits)) (\<lambda>_.
      g_return prefix))))"
  have byte: "meters ?G () (\<lambda>_. ()) (check_version_byte mem limits (version_source prefix) expected i)
      (g_then (g_use (use Work 1)) (\<lambda>_. g_require (i < length expected \<and>
        mem (span_data (version_source prefix) + of_nat i) = expected ! i)))" for i
    unfolding check_version_byte_def Let_def
    using meters_result_charge [of limits "()" 1]
    by (intro meters_intros meters_require) (simp_all add: result_rejected)
  have m: "meters ?G () (\<lambda>_. ()) (check_prefix mem engine limits prefix) ?g"
    unfolding check_prefix_def Some option.case
    by (intro meters_intros meters_require byte) (simp_all add: result_rejected)
  have w: "within ?G r" using r by (simp add: result_within)
  have accept: "?g p = Some (x, u) \<longleftrightarrow> x = prefix \<and> u = use Work ?n \<and> version_matches mem engine prefix \<and>
      type_tree_enabled_raw prefix \<le> 1 \<and>
      span_size (metadata_prefix_source prefix) \<le> directory_max_metadata_bytes limits" for p x u
    unfolding version_matches_def Some version_bytes_iff [symmetric] option.inject g_then_Some g_rows_require
    by auto
  show ?thesis
  proof (cases "check_prefix mem engine limits prefix r")
    case (Pair x t)
    show ?thesis
    proof (cases x)
      case None
      from meters_None [OF m w _ Pair [unfolded None]]
      show ?thesis using accept result_affords [OF w] by (simp add: Pair None result_within)
    next
      case (Some y)
      from meters_Some [OF m w _ Pair [unfolded Some]]
      obtain u where u: "?g (level ?G r Bytes) = Some (y, u)" "affords ?G r u" "spends ?G r u t" by auto
      then have "level ?G t Work = level ?G r Work + ?n" "failed ?G t = failed ?G r"
        by (simp_all only: accept spends_def) simp
      then show ?thesis
        using u accept by (simp add: Pair Some result_affords [OF w] word_le_nat_alt)
    qed
  qed
qed

text \<open>Where the tables begin, and that the prefix admitted there is inside every extent.\<close>

definition tables_start :: "SerializedFilePrefixView \<Rightarrow> nat" where
  "tables_start prefix = unat (range_offset (remaining_metadata prefix))"

definition admitted_prefix :: "pointer \<Rightarrow> u64 \<Rightarrow> SerializedFilePrefixView \<Rightarrow> bool" where
  "admitted_prefix bytes mapped_size prefix \<longleftrightarrow>
     span_data (version_source prefix) = bytes + 48 \<and>
     tables_start prefix = 48 + unat (span_size (metadata_prefix_source prefix)) \<and>
     tables_start prefix = 54 + unat (span_size (version_source prefix)) \<and>
     tables_start prefix \<le> unat mapped_size \<and>
     tables_start prefix \<le> unat (range_offset (metadata_to_data_gap (header prefix)))"

abbreviation queried_prefix where
  "queried_prefix mem locals bytes mapped_size logical_size limits \<equiv>
     serialized_file_prefix_query mem bytes mapped_size logical_size (fst locals)
       \<lparr>max_version_bytes = directory_max_version_bytes limits, max_prefix_work = directory_max_work limits\<rparr>
       (snd locals)"

lemma queried_prefix_admitted:
  assumes "queried_prefix mem locals bytes mapped_size logical_size limits = (r, Some prefix)"
  shows "admitted_prefix bytes mapped_size prefix"
    and "prefix_status r = SERIALIZED_FILE_PREFIX_OK"
    and "unat (prefix_work_used r) = 55 + unat (span_size (version_source prefix))"
    and "unat (prefix_work_used r) \<le> unat (directory_max_work limits)"
proof -
  let ?limits = "\<lparr>max_version_bytes = directory_max_version_bytes limits,
    max_prefix_work = directory_max_work limits\<rparr>"
  note correct = prefix_query_outcome [where mem = mem and base = bytes and mapped_size = mapped_size and
      logical_size = logical_size and limits_address = "fst locals" and limits = ?limits and out_prefix = "snd locals"]
  have head: "header_describes mem bytes (unat logical_size) (header prefix)"
    and "prefix_status r = SERIALIZED_FILE_PREFIX_OK"
    using correct assms by simp_all
  then show "prefix_status r = SERIALIZED_FILE_PREFIX_OK" by simp
  obtain v where v: "prefix_admissible mem bytes mapped_size logical_size ?limits v"
    "unat (prefix_work_used r) = v + 55" "prefix_describes mem bytes v prefix"
    using correct assms by auto
  have size: "unat (span_size (version_source prefix)) = v" "unat (span_size (metadata_prefix_source prefix)) = v + 6"
    "span_data (version_source prefix) = bytes + 48" "tables_start prefix = 54 + v"
    using v(3) by (simp_all add: prefix_describes_def span_covers_def tables_start_def)
  show "unat (prefix_work_used r) = 55 + unat (span_size (version_source prefix))"
    using v(2) size by simp
  show "unat (prefix_work_used r) \<le> unat (directory_max_work limits)"
    using v(1,2) by (simp add: prefix_admissible_def)
  have "unat (range_offset (metadata_to_data_gap (header prefix))) = 48 + header_field mem bytes 16 8"
    using head by (simp add: header_describes_def)
  then show "admitted_prefix bytes mapped_size prefix"
    using v(1) size by (simp add: admitted_prefix_def prefix_admissible_def)
qed

lemma admit_prefix_outcome:
  "case admit_prefix mem locals bytes mapped_size logical_size engine limits directory_initial_result of
     (None, t) \<Rightarrow>
       directory_status t \<noteq> SERIALIZED_FILE_DIRECTORY_OK \<and> directory_work_used t \<le> directory_max_work limits \<and>
       \<not> (\<exists>r prefix. queried_prefix mem locals bytes mapped_size logical_size limits = (r, Some prefix) \<and>
            version_matches mem engine prefix \<and> type_tree_enabled_raw prefix \<le> 1 \<and>
            span_size (metadata_prefix_source prefix) \<le> directory_max_metadata_bytes limits \<and>
            55 + 2 * unat (span_size (version_source prefix)) \<le> unat (directory_max_work limits))
   | (Some prefix, t) \<Rightarrow>
       (\<exists>r. queried_prefix mem locals bytes mapped_size logical_size limits = (r, Some prefix)) \<and>
       admitted_prefix bytes mapped_size prefix \<and> directory_status t = SERIALIZED_FILE_DIRECTORY_OK \<and>
       version_matches mem engine prefix \<and> type_tree_enabled_raw prefix \<le> 1 \<and>
       span_size (metadata_prefix_source prefix) \<le> directory_max_metadata_bytes limits \<and>
       directory_work_used t \<le> directory_max_work limits \<and>
       unat (directory_work_used t) = 55 + 2 * unat (span_size (version_source prefix))"
proof -
  obtain r out where q: "queried_prefix mem locals bytes mapped_size logical_size limits = (r, out)"
    by fastforce
  let ?r = "directory_initial_result\<lparr>prefix_attempted := True, prefix_result := r,
    directory_work_used := prefix_work_used r\<rparr>"
  have status: "directory_status ?r = SERIALIZED_FILE_DIRECTORY_OK"
    by (simp add: directory_initial_result_def)
  show ?thesis
  proof (cases out)
    case None
    have "unat (prefix_work_used r) \<le> unat (directory_max_work limits)"
      using prefix_query_outcome [where mem = mem and base = bytes and mapped_size = mapped_size and
          logical_size = logical_size and limits_address = "fst locals" and out_prefix = "snd locals" and
          limits = "\<lparr>max_version_bytes = directory_max_version_bytes limits,
            max_prefix_work = directory_max_work limits\<rparr>"] q None by simp
    then show ?thesis
      using q None by (simp add: admit_prefix_def Let_def word_le_nat_alt)
  next
    case (Some prefix)
    note known = queried_prefix_admitted [OF q [unfolded Some]]
    have "directory_work_used ?r \<le> directory_max_work limits" using known(4) by (simp add: word_le_nat_alt)
    from check_prefix_outcome [OF this, of mem engine prefix]
    have checked: "case check_prefix mem engine limits prefix ?r of
      (None, t) \<Rightarrow>
        directory_status t \<noteq> SERIALIZED_FILE_DIRECTORY_OK \<and> directory_work_used t \<le> directory_max_work limits \<and>
        \<not> (version_matches mem engine prefix \<and> type_tree_enabled_raw prefix \<le> 1 \<and>
           span_size (metadata_prefix_source prefix) \<le> directory_max_metadata_bytes limits \<and>
           55 + 2 * unat (span_size (version_source prefix)) \<le> unat (directory_max_work limits))
    | (Some prefix', t) \<Rightarrow>
        prefix' = prefix \<and> directory_status t = SERIALIZED_FILE_DIRECTORY_OK \<and>
        version_matches mem engine prefix \<and> type_tree_enabled_raw prefix \<le> 1 \<and>
        span_size (metadata_prefix_source prefix) \<le> directory_max_metadata_bytes limits \<and>
        directory_work_used t \<le> directory_max_work limits \<and>
        unat (directory_work_used t) = 55 + 2 * unat (span_size (version_source prefix))"
      using known(3) status by (auto split: prod.splits option.splits)
    have run: "admit_prefix mem locals bytes mapped_size logical_size engine limits directory_initial_result =
        check_prefix mem engine limits prefix ?r"
      using q Some by (simp add: admit_prefix_def Let_def)
    show ?thesis
      unfolding run using checked q Some known(1) by (auto split: prod.splits option.splits)
  qed
qed

section \<open>The storage plan\<close>

lemma unat_mod_word: "unat (a mod b) = unat a mod unat b" for a b :: "'a::len word"
  by (rule unat_mod_distrib)

lemma unat_div_word: "unat (a div b) = unat a div unat b" for a b :: "'a::len word"
  by (rule unat_div_distrib)

lemma size_max_value: "unat (SIZE_MAX) = size_max" by simp

lemma add_overflows_iff: "dxbc_size_add_overflows a b \<longleftrightarrow> size_max < unat a + unat b"
  unfolding dxbc_size_add_overflows_def word_less_nat_alt
  using u64_bound [of b] by (simp add: unat_sub word_le_nat_alt) linarith

lemma multiply_overflows_iff: "dxbc_size_multiply_overflows a b \<longleftrightarrow> size_max < unat a * unat b"
proof (cases "a = 0")
  case False
  then have "0 < unat a" by (simp add: unat_gt_0)
  then show ?thesis
    using False unfolding dxbc_size_multiply_overflows_def word_less_nat_alt unat_div_word size_max_value
    by (simp add: div_less_iff_less_mult mult.commute)
qed (simp add: dxbc_size_multiply_overflows_def)

text \<open>The distance from a position to the next multiple of the alignment.\<close>

definition pad_to :: "nat \<Rightarrow> nat \<Rightarrow> nat" where
  "pad_to alignment n = (if n mod alignment = 0 then 0 else alignment - n mod alignment)"

lemma pad_to_aligned: "alignment \<noteq> 0 \<Longrightarrow> (n + pad_to alignment n) mod alignment = 0"
proof (cases "n mod alignment = 0")
  case False
  assume "alignment \<noteq> 0"
  then have "n mod alignment < alignment" by simp
  then have "n + pad_to alignment n = alignment * (n div alignment) + alignment"
    using False mult_div_mod_eq [of alignment n] unfolding pad_to_def by (simp only: if_False)
  then show ?thesis by simp
qed (simp add: pad_to_def)

lemma append_array_exact:
  assumes "alignment \<noteq> 0"
  shows "case serialized_file_storage_append_array_internal planned alignment count width of
      None \<Rightarrow> size_max < unat planned + pad_to (unat alignment) (unat planned) + unat count * unat width
    | Some (stop, offset) \<Rightarrow>
        unat offset = unat planned + pad_to (unat alignment) (unat planned) \<and>
        unat offset mod unat alignment = 0 \<and> unat stop = unat offset + unat count * unat width"
proof -
  define padding where "padding = (if planned mod alignment \<noteq> 0 then alignment - planned mod alignment else 0)"
  have a: "unat alignment \<noteq> 0" using assms by (simp add: unat_eq_0)
  have small: "planned mod alignment \<le> alignment"
    using a by (simp add: word_le_nat_alt unat_mod_word mod_less_divisor [THEN less_imp_le])
  have pad: "unat padding = pad_to (unat alignment) (unat planned)"
    using small unat_eq_0 [of "planned mod alignment"]
    by (auto simp: padding_def pad_to_def unat_mod_word unat_sub)
  have run: "serialized_file_storage_append_array_internal planned alignment count width =
      (if dxbc_size_add_overflows planned padding \<or> dxbc_size_multiply_overflows count width then None
       else if dxbc_size_add_overflows (planned + padding) (count * width) then None
       else Some (planned + padding + count * width, planned + padding))"
    by (simp add: serialized_file_storage_append_array_internal_def Let_def padding_def)
  have sum: "unat (planned + padding) = unat planned + unat padding"
    if "\<not> dxbc_size_add_overflows planned padding"
    using that unfolding add_overflows_iff by (intro unat_add_fits) simp
  have product: "unat (count * width) = unat count * unat width"
    if "\<not> dxbc_size_multiply_overflows count width"
    using that unfolding multiply_overflows_iff by (simp add: unat_word_ariths)
  have last_sum: "unat (planned + padding + count * width) = unat (planned + padding) + unat (count * width)"
    if "\<not> dxbc_size_add_overflows (planned + padding) (count * width)"
    using that unfolding add_overflows_iff by (intro unat_add_fits) simp
  have "unat planned + unat padding \<le> unat planned + unat padding + unat count * unat width"
    "unat count * unat width \<le> unat planned + unat padding + unat count * unat width" by simp_all
  then show ?thesis
    unfolding run using sum product last_sum pad pad_to_aligned [OF a, of "unat planned"]
    by (auto simp: add_overflows_iff multiply_overflows_iff)
qed

definition directory_bytes :: "nat \<Rightarrow> nat \<Rightarrow> nat" where
  "directory_bytes types objects = 704 + 328 * types + 72 * objects"

lemma append_rows:
  assumes "unat planned mod 8 = 0" and "unat planned + unat count * unat width \<le> size_max"
  shows "\<exists>stop. serialized_file_storage_append_array_internal planned alignof_row count width = Some (stop, planned) \<and>
    unat stop = unat planned + unat count * unat width"
proof -
  have "pad_to 8 (unat planned) = 0" using assms(1) by (simp add: pad_to_def)
  then have out: "case serialized_file_storage_append_array_internal planned alignof_row count width of
      None \<Rightarrow> size_max < unat planned + unat count * unat width
    | Some (stop, offset) \<Rightarrow>
        unat offset = unat planned \<and> unat stop = unat planned + unat count * unat width"
    using append_array_exact [of 8 planned count width] by (auto split: option.splits)
  then obtain stop offset where "serialized_file_storage_append_array_internal planned alignof_row count width =
      Some (stop, offset)"
    using assms(2) by (auto split: option.splits)
  moreover from this out have "offset = planned" "unat stop = unat planned + unat count * unat width"
    by (simp_all add: word_unat_eq_iff)
  ultimately show ?thesis by blast
qed

lemma plan_layout_value:
  assumes "unat (type_count view) = types" "types < 2 ^ 32" "unat (object_count view) = objects" "objects < 2 ^ 32"
  shows "\<exists>layout. plan_layout view = Some layout \<and> unat (total_bytes layout) = directory_bytes types objects"
proof -
  obtain planned where first: "serialized_file_storage_append_array_internal sizeof_directory_storage alignof_row
      (type_count view) sizeof_type_row = Some (planned, sizeof_directory_storage)"
    "unat planned = 704 + types * 328"
    using append_rows [of sizeof_directory_storage "type_count view" sizeof_type_row] assms by auto
  have "(704 + types * 328) mod 8 = 0" by presburger
  then obtain stop where "serialized_file_storage_append_array_internal planned alignof_row
      (object_count view) sizeof_object_row = Some (stop, planned)"
    "unat stop = 704 + types * 328 + objects * 72"
    using append_rows [of planned "object_count view" sizeof_object_row] assms first(2) by auto
  then show ?thesis by (simp add: plan_layout_def first directory_bytes_def)
qed

section \<open>The two passes\<close>

definition pass_context ::
    "pointer \<Rightarrow> SerializedFileDirectoryLimits \<Rightarrow> SerializedFilePrefixView \<Rightarrow> u64 option \<times> u64 option \<Rightarrow>
     DirectoryContext" where
  "pass_context bytes limits prefix capacities =
     \<lparr>context_frame = (bytes, endian_selector (header prefix),
        range_offset (metadata_to_data_gap (header prefix)), SERIALIZED_FILE_V22_HEADER_SIZE),
      context_bytes = bytes, context_limits = limits, context_prefix = prefix, context_type_count = 0,
      context_capacities = capacities\<rparr>"

text \<open>The tables behind an admitted prefix and what reading them once uses up.\<close>

definition directory_tables ::
    "memory \<Rightarrow> pointer \<Rightarrow> SerializedFileDirectoryLimits \<Rightarrow> SerializedFilePrefixView \<Rightarrow>
     (DirectorySections \<times> usage) option" where
  "directory_tables mem bytes limits prefix =
     g_directory mem (pass_context bytes limits prefix (None, None)) (tables_start prefix)"

lemma g_rows_ctx [simp]:
  "g_type_tree mem (ctx\<lparr>context_capacities := c\<rparr>) = g_type_tree mem ctx"
  "g_type mem (ctx\<lparr>context_capacities := c\<rparr>) = g_type mem ctx"
  "g_object mem (ctx\<lparr>context_capacities := c\<rparr>) = g_object mem ctx"
proof -
  show tree: "g_type_tree mem (ctx\<lparr>context_capacities := c\<rparr>) = g_type_tree mem ctx"
    by (rule ext) (simp add: g_type_tree_def)
  show "g_type mem (ctx\<lparr>context_capacities := c\<rparr>) = g_type mem ctx"
    unfolding g_type_def span_between_def tree by simp
  show "g_object mem (ctx\<lparr>context_capacities := c\<rparr>) = g_object mem ctx"
    unfolding g_object_def by simp
qed

lemma g_table_count_Some:
  "g_table_count mem ctx allowed capacity p = Some ((source, n), u) \<longleftrightarrow>
     g_count mem (context_base ctx) (context_selector ctx) p = Some ((source, n), u) \<and>
     ucast n \<le> allowed \<and> (case capacity of None \<Rightarrow> True | Some c \<Rightarrow> ucast n = c)"
  by (auto simp: g_table_count_def g_then_Some)

lemma g_directory_Some:
  "g_directory mem ctx p = Some (x, w) \<longleftrightarrow>
     (\<exists>u1 u2 u3 u4 u5.
        let c = ctx\<lparr>context_type_count := ucast (section_type_total x)\<rparr>;
            p1 = p + u1 Bytes; p2 = p1 + u2 Bytes; p3 = p2 + u3 Bytes; p4 = p3 + u4 Bytes; p5 = p4 + u5 Bytes
        in g_table_count mem ctx (directory_max_types (context_limits ctx)) (fst (context_capacities ctx)) p =
             Some ((section_type_count x, section_type_total x), u1) \<and>
           g_rows (g_type mem c) 0 (unat (section_type_total x)) p1 = Some (section_type_rows x, u2) \<and>
           g_table_count mem c (directory_max_objects (context_limits c)) (snd (context_capacities c)) p2 =
             Some ((section_object_count x, section_object_total x), u3) \<and>
           g_take (context_base c) (object_pad (section_object_total x) p3) p3 = Some (section_padding x, u4) \<and>
           g_rows (g_object mem c) 0 (unat (section_object_total x)) p4 = Some (section_object_rows x, u5) \<and>
           section_types x = span_between c p1 p2 \<and> section_objects x = span_between c p4 p5 \<and>
           w = both u1 (both u2 (both u3 (both u4 u5))))"
proof -
  have split: "(case y of (a, b) \<Rightarrow> f a b) q = (case y of (a, b) \<Rightarrow> f a b q)" for y q and f :: "_ \<Rightarrow> _ \<Rightarrow> DirectorySections grammar"
    by (cases y) simp
  show ?thesis
    unfolding g_directory_def g_then_Some Let_def split
    by (cases x) (auto simp: g_then_Some)
qed

lemma g_directory_replay:
  assumes "g_directory mem (ctx\<lparr>context_capacities := (None, None)\<rparr>) p = Some (x, u)"
  shows "g_directory mem (ctx\<lparr>context_capacities :=
      (Some (ucast (section_type_total x)), Some (ucast (section_object_total x)))\<rparr>) p = Some (x, u)"
proof -
  have push: "ctx\<lparr>context_capacities := c, context_type_count := n\<rparr> =
      ctx\<lparr>context_type_count := n\<rparr>\<lparr>context_capacities := c\<rparr>" for c n by simp
  show ?thesis
    using assms unfolding g_directory_Some Let_def push g_rows_ctx
    by (simp add: g_table_count_Some span_between_def)
qed

lemma g_count_bound: "g_count mem base selector p = Some ((source, n), u) \<Longrightarrow> n \<le> 0x7FFFFFFF"
  by (auto simp: g_count_def g_u32_def g_then_Some)

lemma directory_totals:
  "g_directory mem ctx p = Some (x, u) \<Longrightarrow>
     unat (section_type_total x) < 2 ^ 32 \<and> unat (section_object_total x) < 2 ^ 32"
  using unsigned_less [of "section_type_total x"] unsigned_less [of "section_object_total x"] by simp

text \<open>A pass from a state inside the caps, over the context \<open>ctx\<close>.\<close>

lemma directory_pass:
  assumes "within directory_gauge s" and "scan_context s = ctx"
  shows "case scan_directory mem s of
      (None, t) \<Rightarrow>
        within directory_gauge t \<and> failed directory_gauge t \<and> directory_cap t = directory_cap s \<and>
        \<not> (\<exists>x u. g_directory mem ctx (directory_level s Bytes) = Some (x, u) \<and> affords directory_gauge s u)
    | (Some x, t) \<Rightarrow>
        \<exists>u. g_directory mem ctx (directory_level s Bytes) = Some (x, u) \<and> affords directory_gauge s u \<and>
          spends directory_gauge s u t \<and> scan_context t = counted_context ctx x \<and>
          pass_leaves x (scan_effect s) t"
proof -
  have ctx: "env directory_gauge s = ctx" using assms by simp
  show ?thesis
  proof (cases "scan_directory mem s")
    case (Pair r t)
    show ?thesis
    proof (cases r)
      case None
      from meters_None [OF meters_scan_directory assms(1) ctx Pair [unfolded None]]
      show ?thesis by (simp add: Pair None)
    next
      case (Some x)
      from meters_Some [OF meters_scan_directory assms(1) ctx Pair [unfolded Some]]
        leavesD [OF scan_directory_leaves Pair [unfolded Some]]
      show ?thesis by (simp add: Pair Some)
    qed
  qed
qed

definition table_room :: "u64 \<Rightarrow> SerializedFileDirectoryLimits \<Rightarrow> SerializedFilePrefixView \<Rightarrow> usage \<Rightarrow> bool" where
  "table_room mapped_size limits prefix u \<longleftrightarrow>
     tables_start prefix + u Bytes \<le> unat (range_offset (metadata_to_data_gap (header prefix))) \<and>
     tables_start prefix + u Bytes \<le> unat mapped_size \<and>
     tables_start prefix + u Bytes \<le> 48 + unat (directory_max_metadata_bytes limits) \<and>
     u Nodes \<le> unat (directory_max_node_records limits) \<and>
     u Strings \<le> unat (directory_max_string_bytes limits) \<and>
     u Words \<le> unat (directory_max_dependency_words limits)"

text \<open>A state a pass starts from: the counters of the tables at zero, the cursor at the tables.\<close>

definition pass_start ::
    "pointer \<Rightarrow> u64 \<Rightarrow> SerializedFileDirectoryLimits \<Rightarrow> SerializedFilePrefixView \<Rightarrow>
     u64 option \<times> u64 option \<Rightarrow> DirectoryScan \<Rightarrow> bool" where
  "pass_start bytes mapped_size limits prefix capacities s \<longleftrightarrow>
     scan_context s = pass_context bytes limits prefix capacities \<and>
     reader_position (scan_reader s) = range_offset (remaining_metadata prefix) \<and>
     reader_cap (scan_reader s) Bytes =
       min (unat (range_offset (metadata_to_data_gap (header prefix))))
         (min (unat mapped_size) (48 + unat (directory_max_metadata_bytes limits))) \<and>
     reader_max_work (scan_reader s) = directory_max_work limits \<and>
     directory_work_used (scan_result s) \<le> directory_max_work limits \<and>
     node_record_count (scan_view s) = 0 \<and> view_string_byte_count (scan_view s) = 0 \<and>
     dependency_word_count (scan_view s) = 0"

lemma pass_start_gauge:
  assumes s: "pass_start bytes mapped_size limits prefix capacities s"
    and prefix: "admitted_prefix bytes mapped_size prefix"
      "span_size (metadata_prefix_source prefix) \<le> directory_max_metadata_bytes limits"
  shows "within directory_gauge s"
    and "u Terminated = 0 \<Longrightarrow> affords directory_gauge s u \<longleftrightarrow>
      table_room mapped_size limits prefix u \<and>
      unat (directory_work_used (scan_result s)) + u Work \<le> unat (directory_max_work limits)"
    and "directory_level s Bytes = tables_start prefix"
proof -
  have limits: "scan_limits s = limits"
    using s scan_context_fields(3) by (fastforce simp: pass_start_def pass_context_def)
  have position: "unat (reader_position (scan_reader s)) = tables_start prefix"
    using s by (simp add: pass_start_def tables_start_def)
  have frame: "reader_byte_budget_origin (scan_reader s) = 48"
    using s by (simp add: pass_start_def pass_context_def scan_context_def reader_frame_def)
  have room: "tables_start prefix \<le> reader_cap (scan_reader s) Bytes" "48 \<le> tables_start prefix"
    using s prefix by (auto simp: pass_start_def admitted_prefix_def word_le_nat_alt)
  show "directory_level s Bytes = tables_start prefix" using position by simp
  show "within directory_gauge s"
    using s room position frame limits
    by (simp add: within_def all_resources pass_start_def word_le_nat_alt del: reader_cap.simps(1))
  show "u Terminated = 0 \<Longrightarrow> affords directory_gauge s u \<longleftrightarrow>
      table_room mapped_size limits prefix u \<and>
      unat (directory_work_used (scan_result s)) + u Work \<le> unat (directory_max_work limits)"
    using s position limits
    by (auto simp: affords_def all_resources pass_start_def table_room_def simp del: reader_cap.simps(1))
qed

lemma start_scan_pass:
  assumes "directory_work_used r \<le> directory_max_work limits"
  shows "pass_start bytes mapped_size limits prefix (None, None)
    (start_scan bytes mapped_size engine limits prefix r)"
  using assms
  by (simp add: pass_start_def start_scan_def start_view_def Let_def pass_context_def scan_context_def
      reader_frame_def types_capacity_def objects_capacity_def)

lemma confined_rows: "(\<And>i. confined R (g i)) \<Longrightarrow> confined R (g_rows g i n)"
  by (induction n arbitrary: i) (auto intro!: confined_intros)

lemma directory_terminated:
  assumes "g_directory mem ctx p = Some (x, u)"
  shows "u Terminated = 0"
proof -
  have "confined {Bytes, Work, Nodes, Strings, Words} (g_directory mem ctx)"
    unfolding g_directory_def g_table_count_def g_type_def g_type_tree_def g_object_def Let_def
    by (intro confined_intros confined_rows) auto
  with assms show ?thesis by (auto simp: confined_def)
qed

lemma charge_cases:
  assumes "directory_work_used r \<le> directory_max_work limits"
  shows "directory_charge_work limits amount field row offset r =
    (if unat (directory_work_used r) + unat amount \<le> unat (directory_max_work limits)
     then (Some (), r\<lparr>directory_work_used := directory_work_used r + amount\<rparr>)
     else (None, directory_reject SERIALIZED_FILE_DIRECTORY_LIMIT_EXCEEDED SERIALIZED_FILE_DIRECTORY_LIMIT_WORK
       field row offset r))"
    and "unat (directory_work_used r) + unat amount \<le> unat (directory_max_work limits) \<Longrightarrow>
      unat (directory_work_used r + amount) = unat (directory_work_used r) + unat amount"
  using charge_iff [OF assms, of amount] charge_value [OF assms, of amount]
  by (auto simp: directory_charge_work_def step_then_def step_require_def step_modify_def)

text \<open>The counting pass has met the tables \<open>x\<close> and left \<open>t\<close>.\<close>

definition counted ::
    "pointer \<Rightarrow> u64 \<Rightarrow> SerializedFileDirectoryLimits \<Rightarrow> SerializedFilePrefixView \<Rightarrow> DirectorySections \<Rightarrow>
     DirectoryScan \<Rightarrow> bool" where
  "counted bytes mapped_size limits prefix x t \<longleftrightarrow>
     scan_context t = counted_context (pass_context bytes limits prefix (None, None)) x \<and>
     type_count (scan_view t) = ucast (section_type_total x) \<and>
     object_count (scan_view t) = ucast (section_object_total x) \<and>
     reader_cap (scan_reader t) Bytes =
       min (unat (range_offset (metadata_to_data_gap (header prefix))))
         (min (unat mapped_size) (48 + unat (directory_max_metadata_bytes limits))) \<and>
     reader_max_work (scan_reader t) = directory_max_work limits"

lemma counting_pass:
  assumes s: "pass_start bytes mapped_size limits prefix (None, None) s"
    and prefix: "admitted_prefix bytes mapped_size prefix"
      "span_size (metadata_prefix_source prefix) \<le> directory_max_metadata_bytes limits"
  shows "case scan_directory mem s of
      (None, t) \<Rightarrow>
        directory_status (scan_result t) \<noteq> SERIALIZED_FILE_DIRECTORY_OK \<and>
        directory_work_used (scan_result t) \<le> directory_max_work limits \<and>
        \<not> (\<exists>x u. directory_tables mem bytes limits prefix = Some (x, u) \<and> table_room mapped_size limits prefix u \<and>
            unat (directory_work_used (scan_result s)) + u Work \<le> unat (directory_max_work limits))
    | (Some x, t) \<Rightarrow>
        \<exists>u. directory_tables mem bytes limits prefix = Some (x, u) \<and> table_room mapped_size limits prefix u \<and>
          (directory_status (scan_result t) = SERIALIZED_FILE_DIRECTORY_OK) =
            (directory_status (scan_result s) = SERIALIZED_FILE_DIRECTORY_OK) \<and>
          directory_work_used (scan_result t) \<le> directory_max_work limits \<and>
          unat (directory_work_used (scan_result t)) = unat (directory_work_used (scan_result s)) + u Work \<and>
          counted bytes mapped_size limits prefix x t"
proof -
  let ?ctx = "pass_context bytes limits prefix (None, None)"
  note w = pass_start_gauge [OF s prefix]
  have ctx: "scan_context s = ?ctx" using s by (simp add: pass_start_def)
  have limits: "scan_limits s = limits" "reader_max_work (scan_reader s) = directory_max_work limits"
    using s scan_context_fields(3) [OF ctx] by (simp_all add: pass_start_def pass_context_def)
  note pass = directory_pass [OF w(1) ctx, of mem, unfolded w(3), folded directory_tables_def]
  have afforded: "affords directory_gauge s u \<longleftrightarrow> table_room mapped_size limits prefix u \<and>
      unat (directory_work_used (scan_result s)) + u Work \<le> unat (directory_max_work limits)"
    if "directory_tables mem bytes limits prefix = Some (x, u)" for x u
    using that directory_terminated w(2) unfolding directory_tables_def by blast
  show ?thesis
  proof (cases "scan_directory mem s")
    case (Pair r t)
    show ?thesis
    proof (cases r)
      case None
      with pass Pair have t: "within directory_gauge t" "failed directory_gauge t" "directory_cap t = directory_cap s"
        "\<not> (\<exists>x u. directory_tables mem bytes limits prefix = Some (x, u) \<and> affords directory_gauge s u)"
        by simp_all
      have "unat (directory_work_used (scan_result t)) \<le> directory_cap s Work"
        using t(1) unfolding within_def t(3) [symmetric] by (metis directory_gauge_simps(1,2) directory_level.simps(2))
      then show ?thesis using t afforded limits by (auto simp: Pair None word_le_nat_alt)
    next
      case (Some x)
      with pass Pair obtain u where u: "directory_tables mem bytes limits prefix = Some (x, u)"
        "affords directory_gauge s u" "spends directory_gauge s u t"
        "scan_context t = counted_context ?ctx x" "pass_leaves x (scan_effect s) t"
        by auto
      have level: "directory_level t = both (directory_level s) u" and caps: "directory_cap t = directory_cap s"
        and status: "failed directory_gauge t = failed directory_gauge s"
        using u(3) by (simp_all add: spends_def)
      have work: "unat (directory_work_used (scan_result t)) = unat (directory_work_used (scan_result s)) + u Work"
        using fun_cong [OF level, of Work] by simp
      have view: "blank_view (scan_view t) = sections_view (scan_bytes s) (reader_position (scan_reader t)) x
          (blank_view (scan_view s))"
        using u(5) by (simp add: pass_leaves_def scan_effect_def)
      have counts: "type_count (scan_view t) = ucast (section_type_total x)"
        "object_count (scan_view t) = ucast (section_object_total x)"
        using arg_cong [OF view, of type_count] arg_cong [OF view, of object_count]
        by (simp_all add: blank_view_def sections_view_def)
      have "reader_max_work (scan_reader t) = reader_max_work (scan_reader s)"
        "reader_cap (scan_reader t) Bytes = reader_cap (scan_reader s) Bytes"
        using fun_cong [OF caps, of Work] fun_cong [OF caps, of Bytes] by (simp_all add: word_unat_eq_iff)
      then have "counted bytes mapped_size limits prefix x t"
        using u(4) counts s by (simp add: counted_def pass_start_def)
      then show ?thesis
        using u(1,2) afforded [OF u(1)] work status by (auto simp: Pair Some word_le_nat_alt)
    qed
  qed
qed

lemma reader_cap_position: "reader_cap (r\<lparr>reader_position := p\<rparr>) = reader_cap r"
  by (simp add: usage_eq)

lemma restart_pass:
  assumes "counted bytes mapped_size limits prefix x t" and "directory_work_used r \<le> directory_max_work limits"
  shows "pass_start bytes mapped_size limits prefix
      (Some (ucast (section_type_total x)), Some (ucast (section_object_total x)))
      (restart_scan engine prefix types objects r t)"
  using assms reader_cap_position [where r = "scan_reader t"]
  by (simp del: reader_cap.simps(1) add: counted_def pass_start_def restart_scan_def start_view_def Let_def pass_context_def
      counted_context_def scan_context_def reader_frame_def types_capacity_def objects_capacity_def)

section \<open>Creation\<close>

definition retained :: "DirectorySections \<Rightarrow> nat" where
  "retained x = directory_bytes (unat (section_type_total x)) (unat (section_object_total x))"

text \<open>The filling pass: the rows it writes are those of the counting pass.\<close>

lemma filling_pass:
  fixes engine :: u32
  assumes t: "counted bytes mapped_size limits prefix x t" and r: "directory_work_used r \<le> directory_max_work limits"
    and prefix: "admitted_prefix bytes mapped_size prefix"
      "span_size (metadata_prefix_source prefix) \<le> directory_max_metadata_bytes limits"
    and x: "directory_tables mem bytes limits prefix = Some (x, u)" "table_room mapped_size limits prefix u"
    and types: "length types = unat (section_type_total x)" and objects: "length objects = unat (section_object_total x)"
  defines "s \<equiv> restart_scan engine prefix types objects r t"
  shows "case scan_directory mem s of
      (None, t') \<Rightarrow>
        directory_status (scan_result t') \<noteq> SERIALIZED_FILE_DIRECTORY_OK \<and>
        directory_work_used (scan_result t') \<le> directory_max_work limits \<and>
        unat (directory_max_work limits) < unat (directory_work_used r) + u Work
    | (Some x', t') \<Rightarrow>
        x' = x \<and>
        (directory_status (scan_result t') = SERIALIZED_FILE_DIRECTORY_OK) =
          (directory_status r = SERIALIZED_FILE_DIRECTORY_OK) \<and>
        directory_work_used (scan_result t') \<le> directory_max_work limits \<and>
        unat (directory_work_used (scan_result t')) = unat (directory_work_used r) + u Work \<and>
        scan_types t' = Some (section_type_rows x) \<and> scan_objects t' = Some (section_object_rows x) \<and>
        scan_view t' = (sections_view bytes (of_nat (tables_start prefix + u Bytes)) x (start_view engine prefix))
          \<lparr>node_record_count := of_nat (u Nodes), view_string_byte_count := of_nat (u Strings),
           dependency_word_count := of_nat (u Words)\<rparr> \<and>
        required_retained_bytes (scan_result t') = required_retained_bytes r \<and>
        peak_retained_bytes (scan_result t') = peak_retained_bytes r"
proof -
  let ?capacities = "(Some (ucast (section_type_total x)), Some (ucast (section_object_total x)))"
  let ?ctx = "pass_context bytes limits prefix ?capacities"
  have s: "pass_start bytes mapped_size limits prefix ?capacities s"
    unfolding s_def by (rule restart_pass [OF t r])
  note w = pass_start_gauge [OF s prefix]
  have ctx: "scan_context s = ?ctx" using s by (simp add: pass_start_def)
  have result: "scan_result s = r" by (simp add: s_def restart_scan_def)
  have replay: "g_directory mem ?ctx (directory_level s Bytes) = Some (x, u)"
    using g_directory_replay [of mem ?ctx "tables_start prefix" x u] x(1)
    unfolding directory_tables_def w(3) by (simp add: pass_context_def)
  have afforded: "affords directory_gauge s u \<longleftrightarrow>
      unat (directory_work_used r) + u Work \<le> unat (directory_max_work limits)"
    using w(2) [of u, OF directory_terminated [OF replay]] x(2) result by simp
  have max_work: "reader_max_work (scan_reader s) = directory_max_work limits" using s by (simp add: pass_start_def)
  note pass = directory_pass [OF w(1) ctx, of mem, unfolded replay]
  show ?thesis
  proof (cases "scan_directory mem s")
    case (Pair y t')
    show ?thesis
    proof (cases y)
      case None
      with pass Pair have t': "within directory_gauge t'" "failed directory_gauge t'" "directory_cap t' = directory_cap s"
        "\<not> affords directory_gauge s u"
        by simp_all
      have "unat (directory_work_used (scan_result t')) \<le> directory_cap s Work"
        using t'(1) unfolding within_def t'(3) [symmetric]
        by (metis directory_gauge_simps(1,2) directory_level.simps(2))
      then show ?thesis using t' afforded max_work by (simp add: Pair None word_le_nat_alt)
    next
      case (Some x')
      with pass Pair have x': "x' = x" "affords directory_gauge s u" "spends directory_gauge s u t'"
        "pass_leaves x (scan_effect s) t'"
        by auto
      have level: "directory_level t' = both (directory_level s) u"
        and status: "failed directory_gauge t' = failed directory_gauge s"
        using x'(3) by (simp_all add: spends_def)
      have counters: "unat (node_record_count (scan_view t')) = u Nodes"
        "unat (view_string_byte_count (scan_view t')) = u Strings"
        "unat (dependency_word_count (scan_view t')) = u Words"
        "unat (reader_position (scan_reader t')) = tables_start prefix + u Bytes"
        using fun_cong [OF level, of Nodes] fun_cong [OF level, of Strings] fun_cong [OF level, of Words]
          fun_cong [OF level, of Bytes] s w(3)
        by (simp_all add: pass_start_def)
      have work: "unat (directory_work_used (scan_result t')) = unat (directory_work_used r) + u Work"
        using fun_cong [OF level, of Work] result by simp
      have stop: "reader_position (scan_reader t') = of_nat (tables_start prefix + u Bytes)"
        "node_record_count (scan_view t') = of_nat (u Nodes)"
        "view_string_byte_count (scan_view t') = of_nat (u Strings)"
        "dependency_word_count (scan_view t') = of_nat (u Words)"
        unfolding counters [symmetric] by simp_all
      have effect: "scan_effect t' = (scan_effect s)
         \<lparr>effect_types := map_option (write_rows 0 (section_type_rows x)) (scan_types s),
          effect_objects := map_option (write_rows 0 (section_object_rows x)) (scan_objects s),
          effect_view := sections_view (scan_bytes s) (reader_position (scan_reader t')) x (blank_view (scan_view s))\<rparr>"
        and rows: "length (section_type_rows x) = length types" "length (section_object_rows x) = length objects"
        using x'(4) types objects by (simp_all add: pass_leaves_def scan_of_effect(1))
      have view: "blank_view (scan_view t') = sections_view bytes (reader_position (scan_reader t')) x (start_view engine prefix)"
        using arg_cong [OF effect, of effect_view] scan_context_fields(2) [OF ctx]
        by (simp add: s_def restart_scan_def pass_context_def blank_view_def start_view_def Let_def)
      have unblank: "v = (blank_view v)\<lparr>node_record_count := node_record_count v,
          view_string_byte_count := view_string_byte_count v, dependency_word_count := dependency_word_count v\<rparr>" for v
        by (simp add: blank_view_def)
      have "scan_view t' = (sections_view bytes (of_nat (tables_start prefix + u Bytes)) x (start_view engine prefix))
          \<lparr>node_record_count := of_nat (u Nodes), view_string_byte_count := of_nat (u Strings),
           dependency_word_count := of_nat (u Words)\<rparr>"
        using unblank [of "scan_view t'"] unfolding view stop .
      moreover have "scan_types t' = Some (section_type_rows x)" "scan_objects t' = Some (section_object_rows x)"
        using arg_cong [OF effect, of effect_types] arg_cong [OF effect, of effect_objects] rows
        by (simp_all add: s_def restart_scan_def write_rows_fill fill_def)
      moreover have "required_retained_bytes (scan_result t') = required_retained_bytes r"
        "peak_retained_bytes (scan_result t') = peak_retained_bytes r"
        using arg_cong [OF effect, of effect_fixed] result by (simp_all add: scan_effect_def)
      ultimately show ?thesis
        using x' status work result afforded by (simp add: Pair Some word_le_nat_alt)
    qed
  qed
qed

text \<open>What a published directory holds of the tables \<open>x\<close> that used up \<open>u\<close>.\<close>

definition directory_describes ::
    "u32 \<Rightarrow> pointer \<Rightarrow> SerializedFilePrefixView \<Rightarrow> DirectorySections \<Rightarrow> usage \<Rightarrow> DirectoryStorage \<Rightarrow> bool" where
  "directory_describes engine bytes prefix x u storage \<longleftrightarrow>
     storage_types storage = section_type_rows x \<and> storage_objects storage = section_object_rows x \<and>
     storage_view storage =
       (sections_view bytes (of_nat (tables_start prefix + u Bytes)) x (start_view engine prefix))
         \<lparr>node_record_count := of_nat (u Nodes), view_string_byte_count := of_nat (u Strings),
          dependency_word_count := of_nat (u Words), retained_bytes := of_nat (retained x)\<rparr>"

definition build_fits ::
    "allocator \<Rightarrow> u64 \<Rightarrow> SerializedFileDirectoryLimits \<Rightarrow> SerializedFilePrefixView \<Rightarrow> tracker \<Rightarrow> nat \<Rightarrow>
     DirectorySections \<Rightarrow> usage \<Rightarrow> bool" where
  "build_fits grants mapped_size limits prefix t spent x u \<longleftrightarrow>
     table_room mapped_size limits prefix u \<and>
     retained x \<le> unat (directory_max_retained_bytes limits) \<and>
     grants (allocator_calls t) (of_nat (retained x)) \<and>
     spent + 2 * u Work + retained x + 2 \<le> unat (directory_max_work limits)"

lemma plan_storage_cases:
  assumes r: "directory_work_used r \<le> directory_max_work limits"
    and view: "type_count view = ucast (section_type_total x)" "object_count view = ucast (section_object_total x)"
  shows "\<exists>layout. total_bytes layout = of_nat (retained x) \<and> unat (total_bytes layout) = retained x \<and>
    (case plan_storage limits view r of
       (None, r') \<Rightarrow>
         directory_status r' \<noteq> SERIALIZED_FILE_DIRECTORY_OK \<and> directory_work_used r' \<le> directory_max_work limits \<and>
         (unat (directory_work_used r) + 1 > unat (directory_max_work limits) \<or>
          retained x > unat (directory_max_retained_bytes limits))
     | (Some layout', r') \<Rightarrow>
         layout' = layout \<and> directory_status r' = directory_status r \<and>
         directory_work_used r' \<le> directory_max_work limits \<and>
         unat (directory_work_used r') = unat (directory_work_used r) + 1 \<and>
         required_retained_bytes r' = of_nat (retained x) \<and>
         retained x \<le> unat (directory_max_retained_bytes limits))"
proof -
  have wide: "unat (ucast n :: u64) = unat n" for n :: u32 by (rule unat_widen) simp
  have small: "unat n < 2 ^ 32" for n :: u32 using unsigned_less [of n] by simp
  obtain layout where layout: "plan_layout view = Some layout" "unat (total_bytes layout) = retained x"
    using plan_layout_value [of view "unat (section_type_total x)" "unat (section_object_total x)"] small
    by (auto simp: view wide retained_def)
  have stop: "total_bytes layout = of_nat (retained x)" unfolding layout(2) [symmetric] by simp
  note charged = charge_cases [OF r, where amount = 1]
  show ?thesis
  proof (intro exI [of _ layout] conjI stop layout(2))
    show "case plan_storage limits view r of
       (None, r') \<Rightarrow>
         directory_status r' \<noteq> SERIALIZED_FILE_DIRECTORY_OK \<and> directory_work_used r' \<le> directory_max_work limits \<and>
         (unat (directory_work_used r) + 1 > unat (directory_max_work limits) \<or>
          retained x > unat (directory_max_retained_bytes limits))
     | (Some layout', r') \<Rightarrow>
         layout' = layout \<and> directory_status r' = directory_status r \<and>
         directory_work_used r' \<le> directory_max_work limits \<and>
         unat (directory_work_used r') = unat (directory_work_used r) + 1 \<and>
         required_retained_bytes r' = of_nat (retained x) \<and>
         retained x \<le> unat (directory_max_retained_bytes limits)"
    proof (cases "unat (directory_work_used r) + 1 \<le> unat (directory_max_work limits)")
      case False
      then show ?thesis using r charged(1) by (simp add: plan_storage_def step_then_def)
    next
      case True
      have "(total_bytes layout > directory_max_retained_bytes limits) =
          (retained x > unat (directory_max_retained_bytes limits))"
        by (simp add: word_less_nat_alt layout(2))
      with True show ?thesis
        using charged by (simp add: plan_storage_def step_then_def Let_def layout(1) stop word_le_nat_alt)
    qed
  qed
qed

text \<open>The filling pass: into zeroed arrays of the counted sizes.\<close>

definition directory_replay ::
    "memory \<Rightarrow> u32 \<Rightarrow> SerializedFilePrefixView \<Rightarrow> DirectoryLayout \<Rightarrow> pointer \<Rightarrow> block \<Rightarrow> DirectoryScan \<Rightarrow>
     (SerializedFileDirectoryResult, DirectoryStorage) step" where
  "directory_replay mem engine prefix layout address cells scan result =
     (case scan_directory mem (restart_scan engine prefix
             (replicate (unat (type_count (scan_view scan))) zero_type_row)
             (replicate (unat (object_count (scan_view scan))) zero_object_row) result scan) of
        (None, scan) \<Rightarrow> (None, scan_result scan)
      | (Some _, scan) \<Rightarrow>
          (Some \<lparr>storage_address = address, storage_cells = cells,
             storage_view = (scan_view scan)\<lparr>retained_bytes := total_bytes layout\<rparr>,
             storage_types = the (scan_types scan), storage_objects = the (scan_objects scan)\<rparr>,
           scan_result scan))"

abbreviation directory_owner_charge ::
    "SerializedFileDirectoryLimits \<Rightarrow> u64 \<Rightarrow> (SerializedFileDirectoryResult, unit) step" where
  "directory_owner_charge limits amount \<equiv>
     directory_charge_work limits amount SERIALIZED_FILE_DIRECTORY_FIELD_NONE SIZE_MAX
       SERIALIZED_FILE_PREFIX_NO_OFFSET"

lemma fill_storage_replay:
  "fill_storage mem address engine limits prefix layout cells scan result t =
     (case step_then (directory_replay mem engine prefix layout address cells scan)
             (\<lambda>storage. step_then (directory_owner_charge limits 1) (\<lambda>_. step_return storage)) result of
        (None, result) \<Rightarrow> (result, None, mem_free (Some cells) (total_bytes layout) t)
      | (Some storage, result) \<Rightarrow> (result, Some storage, t))"
  by (simp add: fill_storage_def directory_replay_def step_then_def step_return_def Let_def
      split: prod.split option.split)

lemma build_directory_passes:
  "build_directory mem place grants bytes mapped_size engine limits prefix result t =
     two_pass_build (directory_owner_charge limits)
       (\<lambda>result. scan_directory mem (start_scan bytes mapped_size engine limits prefix result)) scan_result
       (\<lambda>scan. plan_storage limits (scan_view scan)) total_bytes
       (\<lambda>result. result\<lparr>directory_status := SERIALIZED_FILE_DIRECTORY_ALLOCATION_FAILED\<rparr>)
       (\<lambda>n result. result\<lparr>peak_retained_bytes := n\<rparr>) (directory_replay mem engine prefix) place grants result t"
  unfolding build_directory_def allocate_storage_def two_pass_build_def two_pass_store_def fill_storage_replay ..

interpretation directory_passes: two_pass directory_work_used required_retained_bytes peak_retained_bytes
    "\<lambda>result. directory_status result = SERIALIZED_FILE_DIRECTORY_OK" "directory_max_work limits"
    "directory_max_retained_bytes limits" "directory_owner_charge limits"
    "\<lambda>result. scan_directory mem (start_scan bytes mapped_size engine limits prefix result)" scan_result
    "\<lambda>scan. plan_storage limits (scan_view scan)" total_bytes
    "\<lambda>result. result\<lparr>directory_status := SERIALIZED_FILE_DIRECTORY_ALLOCATION_FAILED\<rparr>"
    "\<lambda>n result. result\<lparr>peak_retained_bytes := n\<rparr>" "directory_replay mem engine prefix"
    "admitted_prefix bytes mapped_size prefix \<and>
     span_size (metadata_prefix_source prefix) \<le> directory_max_metadata_bytes limits"
    "directory_tables mem bytes limits prefix" "table_room mapped_size limits prefix"
    "counted bytes mapped_size limits prefix" retained
    "\<lambda>address cells x u storage. directory_describes engine bytes prefix x u storage \<and>
       storage_address storage = address \<and> storage_cells storage = cells"
  for mem bytes mapped_size engine limits prefix
proof
  fix r :: SerializedFileDirectoryResult and n :: u64 and s x u layout address cells
  let ?good = "admitted_prefix bytes mapped_size prefix \<and>
     span_size (metadata_prefix_source prefix) \<le> directory_max_metadata_bytes limits"
  show "directory_work_used r \<le> directory_max_work limits \<Longrightarrow>
      case directory_owner_charge limits n r of
        (None, r') \<Rightarrow> \<not> directory_status r' = SERIALIZED_FILE_DIRECTORY_OK \<and>
          directory_work_used r' = directory_work_used r \<and>
          unat (directory_max_work limits) < unat (directory_work_used r) + unat n
      | (Some _, r') \<Rightarrow>
          unat (directory_work_used r') = unat (directory_work_used r) + unat n \<and>
          unat (directory_work_used r) + unat n \<le> unat (directory_max_work limits) \<and>
          (directory_status r' = SERIALIZED_FILE_DIRECTORY_OK) = (directory_status r = SERIALIZED_FILE_DIRECTORY_OK) \<and>
          required_retained_bytes r' = required_retained_bytes r \<and> peak_retained_bytes r' = peak_retained_bytes r"
    using charge_cases [where amount = n and r = r and limits = limits] by simp
  show "?good \<Longrightarrow> directory_status r = SERIALIZED_FILE_DIRECTORY_OK \<Longrightarrow> directory_work_used r \<le> directory_max_work limits \<Longrightarrow>
      case scan_directory mem (start_scan bytes mapped_size engine limits prefix r) of
        (None, s) \<Rightarrow> \<not> directory_status (scan_result s) = SERIALIZED_FILE_DIRECTORY_OK \<and>
          directory_work_used (scan_result s) \<le> directory_max_work limits \<and>
          \<not> (\<exists>x u. directory_tables mem bytes limits prefix = Some (x, u) \<and> table_room mapped_size limits prefix u \<and>
             unat (directory_work_used r) + u Work \<le> unat (directory_max_work limits))
      | (Some x, s) \<Rightarrow> \<exists>u. directory_tables mem bytes limits prefix = Some (x, u) \<and>
          table_room mapped_size limits prefix u \<and> directory_status (scan_result s) = SERIALIZED_FILE_DIRECTORY_OK \<and>
          directory_work_used (scan_result s) \<le> directory_max_work limits \<and>
          unat (directory_work_used (scan_result s)) = unat (directory_work_used r) + u Work \<and>
          counted bytes mapped_size limits prefix x s"
    using counting_pass [OF start_scan_pass, of r limits bytes mapped_size prefix mem engine]
    by (simp add: start_scan_def split: prod.splits option.splits)
  show "counted bytes mapped_size limits prefix x s \<Longrightarrow> directory_work_used r \<le> directory_max_work limits \<Longrightarrow>
      case plan_storage limits (scan_view s) r of
        (None, r') \<Rightarrow> \<not> directory_status r' = SERIALIZED_FILE_DIRECTORY_OK \<and>
          directory_work_used r' \<le> directory_max_work limits \<and>
          (unat (directory_max_work limits) < unat (directory_work_used r) + 1 \<or>
           unat (directory_max_retained_bytes limits) < retained x)
      | (Some layout, r') \<Rightarrow> unat (total_bytes layout) = retained x \<and>
          (directory_status r' = SERIALIZED_FILE_DIRECTORY_OK) = (directory_status r = SERIALIZED_FILE_DIRECTORY_OK) \<and>
          directory_work_used r' \<le> directory_max_work limits \<and>
          unat (directory_work_used r') = unat (directory_work_used r) + 1 \<and>
          required_retained_bytes r' = total_bytes layout \<and> retained x \<le> unat (directory_max_retained_bytes limits)"
    using plan_storage_cases [of r limits "scan_view s" x]
    by (fastforce simp: counted_def split: prod.splits option.splits)
  show "0 < retained x" by (simp add: retained_def directory_bytes_def)
  show "?good \<Longrightarrow> counted bytes mapped_size limits prefix x s \<Longrightarrow>
      directory_tables mem bytes limits prefix = Some (x, u) \<Longrightarrow> table_room mapped_size limits prefix u \<Longrightarrow>
      directory_status r = SERIALIZED_FILE_DIRECTORY_OK \<Longrightarrow> directory_work_used r \<le> directory_max_work limits \<Longrightarrow>
      total_bytes layout = of_nat (retained x) \<Longrightarrow>
      case directory_replay mem engine prefix layout address cells s r of
        (None, r') \<Rightarrow> \<not> directory_status r' = SERIALIZED_FILE_DIRECTORY_OK \<and>
          directory_work_used r' \<le> directory_max_work limits \<and>
          unat (directory_max_work limits) < unat (directory_work_used r) + u Work
      | (Some y, r') \<Rightarrow> directory_status r' = SERIALIZED_FILE_DIRECTORY_OK \<and>
          directory_work_used r' \<le> directory_max_work limits \<and>
          unat (directory_work_used r') = unat (directory_work_used r) + u Work \<and>
          required_retained_bytes r' = required_retained_bytes r \<and> peak_retained_bytes r' = peak_retained_bytes r \<and>
          directory_describes engine bytes prefix x u y \<and> storage_address y = address \<and> storage_cells y = cells"
  proof -
    assume good: "?good" and s: "counted bytes mapped_size limits prefix x s"
      and x: "directory_tables mem bytes limits prefix = Some (x, u)" "table_room mapped_size limits prefix u"
      and r: "directory_status r = SERIALIZED_FILE_DIRECTORY_OK" "directory_work_used r \<le> directory_max_work limits"
      and layout: "total_bytes layout = of_nat (retained x)"
    have wide: "unat (ucast n :: u64) = unat n" for n :: u32 by (rule unat_widen) simp
    have "length (replicate (unat (type_count (scan_view s))) zero_type_row) = unat (section_type_total x)"
      "length (replicate (unat (object_count (scan_view s))) zero_object_row) = unat (section_object_total x)"
      using s by (simp_all add: counted_def wide)
    from filling_pass [OF s r(2) conjunct1 [OF good] conjunct2 [OF good] x this, of engine] show ?thesis
      using r(1) layout
      by (simp add: directory_replay_def directory_describes_def split: prod.splits option.splits)
  qed
qed simp_all

lemma directory_affordable:
  "directory_passes.affordable limits mapped_size prefix grants t spent x u =
     build_fits grants mapped_size limits prefix t spent x u"
  by (simp add: directory_passes.affordable_def build_fits_def)

lemma build_directory_outcome:
  assumes r: "directory_work_used r \<le> directory_max_work limits" "directory_status r = SERIALIZED_FILE_DIRECTORY_OK"
    and prefix: "admitted_prefix bytes mapped_size prefix"
      "span_size (metadata_prefix_source prefix) \<le> directory_max_metadata_bytes limits"
  shows "case build_directory mem place grants bytes mapped_size engine limits prefix r t of
      (r', None, t') \<Rightarrow>
        directory_status r' \<noteq> SERIALIZED_FILE_DIRECTORY_OK \<and> directory_work_used r' \<le> directory_max_work limits \<and>
        owed None 0 t' = owed None 0 t \<and>
        \<not> (\<exists>x u. directory_tables mem bytes limits prefix = Some (x, u) \<and>
             build_fits grants mapped_size limits prefix t (unat (directory_work_used r)) x u)
    | (r', Some storage, t') \<Rightarrow>
        directory_status r' = SERIALIZED_FILE_DIRECTORY_OK \<and>
        (\<exists>x u. directory_tables mem bytes limits prefix = Some (x, u) \<and>
          build_fits grants mapped_size limits prefix t (unat (directory_work_used r)) x u \<and>
          unat (directory_work_used r') = unat (directory_work_used r) + 2 * u Work + retained x + 2 \<and>
          required_retained_bytes r' = of_nat (retained x) \<and> peak_retained_bytes r' = of_nat (retained x) \<and>
          directory_describes engine bytes prefix x u storage \<and>
          storage_address storage = place (allocator_calls t) \<and>
          owed (Some (storage_cells storage)) (of_nat (retained x)) t' = owed None 0 t)"
  using directory_passes.built [where bytes = bytes and mapped_size = mapped_size and prefix = prefix and
      limits = limits and r = r and mem = mem and engine = engine and place = place and grants = grants and t = t] assms
  unfolding build_directory_passes directory_affordable
  by (auto split: prod.splits option.splits)

text \<open>
  What creation asks for: usable arguments, a prefix that the prefix query admits, the selected
  version, a tree flag of 0 or 1, tables that the grammar accepts, and room for them.
\<close>

definition directory_admits where
  "directory_admits mem grants locals bytes mapped_size logical_size engine limits_address limits
       out_address t prefix x u \<longleftrightarrow>
     directory_valid_arguments bytes mapped_size logical_size limits_address out_address \<and>
     (\<exists>r. queried_prefix mem locals bytes mapped_size logical_size limits = (r, Some prefix)) \<and>
     version_matches mem engine prefix \<and> type_tree_enabled_raw prefix \<le> 1 \<and>
     directory_tables mem bytes limits prefix = Some (x, u) \<and>
     build_fits grants mapped_size limits prefix t
       (55 + 2 * unat (span_size (version_source prefix))) x u"

lemma directory_admits_size:
  assumes "directory_admits mem grants locals bytes mapped_size logical_size engine limits_address limits
      out_address t prefix x u"
  shows "span_size (metadata_prefix_source prefix) \<le> directory_max_metadata_bytes limits"
    and "55 + 2 * unat (span_size (version_source prefix)) \<le> unat (directory_max_work limits)"
proof -
  obtain r where "queried_prefix mem locals bytes mapped_size logical_size limits = (r, Some prefix)"
    and fits: "table_room mapped_size limits prefix u"
      "55 + 2 * unat (span_size (version_source prefix)) + 2 * u Work + retained x + 2 \<le>
        unat (directory_max_work limits)"
    using assms by (auto simp: directory_admits_def build_fits_def)
  then have "admitted_prefix bytes mapped_size prefix" using queried_prefix_admitted(1) by blast
  then show "span_size (metadata_prefix_source prefix) \<le> directory_max_metadata_bytes limits"
    using fits(1) by (simp add: admitted_prefix_def table_room_def word_le_nat_alt)
  show "55 + 2 * unat (span_size (version_source prefix)) \<le> unat (directory_max_work limits)"
    using fits(2) by simp
qed

lemma g_type_work: "g_type mem ctx i p = Some (x, u) \<Longrightarrow> u Work = u Bytes + 1"
  by (auto simp: g_type_def g_type_tree_def Let_def g_then_Some
      dest!: g_take_work g_count_work g_type_prefix_work g_tree_work split: if_splits)

lemma g_object_work: "g_object mem ctx i p = Some (x, u) \<Longrightarrow> u Work = u Bytes + 1"
  by (auto simp: g_object_def Let_def g_then_Some dest!: g_take_work)

lemma directory_work:
  assumes "directory_tables mem bytes limits prefix = Some (x, u)"
  shows "u Work = u Bytes + length (section_type_rows x) + length (section_object_rows x)"
    and "length (section_type_rows x) = unat (section_type_total x)"
    and "length (section_object_rows x) = unat (section_object_total x)"
proof -
  note parts = assms [unfolded directory_tables_def g_directory_Some Let_def g_table_count_Some]
  show "u Work = u Bytes + length (section_type_rows x) + length (section_object_rows x)"
    "length (section_type_rows x) = unat (section_type_total x)"
    "length (section_object_rows x) = unat (section_object_total x)"
    using parts g_rows_work [OF g_type_work] g_rows_work [OF g_object_work]
    by (fastforce dest!: g_take_work g_count_work)+
qed

lemma create_outcome:
  "case serialized_file_directory_create mem place grants locals bytes mapped_size logical_size engine
        limits_address limits out_address None t of
     (r, None, t') \<Rightarrow>
       directory_status r \<noteq> SERIALIZED_FILE_DIRECTORY_OK \<and>
       unat (directory_work_used r) \<le> unat (directory_max_work limits) \<and> owed None 0 t' = owed None 0 t \<and>
       \<not> (\<exists>prefix x u. directory_admits mem grants locals bytes mapped_size logical_size engine limits_address
            limits out_address t prefix x u)
   | (r, Some storage, t') \<Rightarrow>
       directory_status r = SERIALIZED_FILE_DIRECTORY_OK \<and>
       (\<exists>prefix x u. directory_admits mem grants locals bytes mapped_size logical_size engine limits_address
            limits out_address t prefix x u \<and>
          unat (directory_work_used r) =
            55 + 2 * unat (span_size (version_source prefix)) +
            2 * (u Bytes + length (storage_types storage) + length (storage_objects storage)) + retained x + 2 \<and>
          required_retained_bytes r = of_nat (retained x) \<and> peak_retained_bytes r = of_nat (retained x) \<and>
          directory_describes engine bytes prefix x u storage \<and>
          storage_address storage = place (allocator_calls t) \<and>
          owed (Some (storage_cells storage)) (retained_bytes (storage_view storage)) t' = owed None 0 t)"
proof (cases "directory_valid_arguments bytes mapped_size logical_size limits_address out_address")
  case False
  then show ?thesis
    by (simp add: serialized_file_directory_create_def directory_initial_result_def directory_admits_def)
next
  case arguments: True
  obtain y r where admitted: "admit_prefix mem locals bytes mapped_size logical_size engine limits
      directory_initial_result = (y, r)"
    by fastforce
  note outcome = admit_prefix_outcome [where mem = mem and locals = locals and bytes = bytes and
      mapped_size = mapped_size and logical_size = logical_size and engine = engine and limits = limits, unfolded admitted]
  show ?thesis
  proof (cases y)
    case None
    then have "serialized_file_directory_create mem place grants locals bytes mapped_size logical_size engine
        limits_address limits out_address None t = (r, None, t)"
      using arguments admitted by (simp add: serialized_file_directory_create_def)
    moreover have "\<not> directory_admits mem grants locals bytes mapped_size logical_size engine limits_address
        limits out_address t prefix x u" for prefix x u
      using outcome None directory_admits_size unfolding directory_admits_def by fastforce
    ultimately show ?thesis using outcome None by (simp add: word_le_nat_alt)
  next
    case (Some prefix)
    then have run: "serialized_file_directory_create mem place grants locals bytes mapped_size logical_size engine
        limits_address limits out_address None t =
        build_directory mem place grants bytes mapped_size engine limits prefix r t"
      using arguments admitted by (simp add: serialized_file_directory_create_def)
    have ok: "directory_work_used r \<le> directory_max_work limits" "directory_status r = SERIALIZED_FILE_DIRECTORY_OK"
      "admitted_prefix bytes mapped_size prefix"
      "span_size (metadata_prefix_source prefix) \<le> directory_max_metadata_bytes limits"
      and spent: "unat (directory_work_used r) = 55 + 2 * unat (span_size (version_source prefix))"
      using outcome Some by simp_all
    have admits: "directory_admits mem grants locals bytes mapped_size logical_size engine limits_address
        limits out_address t prefix' x u \<longleftrightarrow>
        prefix' = prefix \<and> directory_tables mem bytes limits prefix = Some (x, u) \<and>
        build_fits grants mapped_size limits prefix t (unat (directory_work_used r)) x u" for prefix' x u
      using outcome Some arguments spent unfolding directory_admits_def by auto
    obtain r' out t' where stop: "build_directory mem place grants bytes mapped_size engine limits prefix r t =
        (r', out, t')"
      by (metis surj_pair)
    note built = build_directory_outcome [OF ok, where mem = mem and place = place and grants = grants and
        engine = engine and t = t, unfolded stop]
    show ?thesis
    proof (cases out)
      case None
      with built show ?thesis unfolding run stop by (simp add: admits word_le_nat_alt)
    next
      case (Some storage)
      note built = built [unfolded Some prod.case option.case]
      then obtain x u where xu: "directory_tables mem bytes limits prefix = Some (x, u)"
        "build_fits grants mapped_size limits prefix t (unat (directory_work_used r)) x u"
        "unat (directory_work_used r') = unat (directory_work_used r) + 2 * u Work + retained x + 2"
        "required_retained_bytes r' = of_nat (retained x)" "peak_retained_bytes r' = of_nat (retained x)"
        "directory_describes engine bytes prefix x u storage"
        "storage_address storage = place (allocator_calls t)"
        "owed (Some (storage_cells storage)) (of_nat (retained x)) t' = owed None 0 t"
        by blast
      have rows: "storage_types storage = section_type_rows x" "storage_objects storage = section_object_rows x"
        "retained_bytes (storage_view storage) = of_nat (retained x)"
        using xu(6) by (simp_all add: directory_describes_def)
      show ?thesis
        unfolding run stop Some prod.case option.case
        using built xu directory_work(1) [OF xu(1)] spent
        by (intro conjI exI [of _ prefix] exI [of _ x] exI [of _ u]) (simp_all add: admits rows)
    qed
  qed
qed

section \<open>Well-formed directories\<close>

lemma span_between_exact:
  assumes "p \<le> q" "q < 2 ^ 64"
  shows "unat (span_offset (span_between ctx p q)) = p \<and> unat (span_size (span_between ctx p q)) = q - p"
proof -
  have "unat (of_nat p :: u64) = p" "unat (of_nat q :: u64) = q"
    using assms by (simp_all add: unat_of_nat)
  moreover have "(of_nat p :: u64) \<le> of_nat q" using assms calculation by (simp add: word_le_nat_alt)
  ultimately show ?thesis by (simp add: span_between_def mapped_span_def unat_sub)
qed

lemma g_type_source:
  "g_type mem ctx i p = Some (x, u) \<Longrightarrow>
     type_source x = span_between ctx p (p + u Bytes) \<and> type_ordinal x = of_nat i"
  by (auto simp: g_type_def g_type_tree_def Let_def g_then_Some add.assoc split: if_splits)

lemma g_object_source:
  assumes "g_object mem ctx i p = Some (x, u)"
  shows "u Bytes = 24" "object_source x = mapped_span (context_base ctx) (of_nat p) 24" "object_ordinal x = of_nat i"
  using assms by (auto simp: g_object_def Let_def g_then_Some g_take_def)

text \<open>The payload lies in the data of the file and the type exists.\<close>

definition object_resolves :: "SerializedFileHeaderView \<Rightarrow> u64 \<Rightarrow> SerializedFileDirectoryObjectRow \<Rightarrow> bool" where
  "object_resolves head types row \<longleftrightarrow>
     unat (data_offset head) \<le> unat (range_offset (payload row)) \<and>
     unat (range_offset (payload row)) + unat (range_size (payload row)) \<le> unat (file_size head) \<and>
     unat (range_offset (payload row)) = unat (data_offset head) + unat (relative_data_offset row) \<and>
     unat (range_size (payload row)) = unat (byte_size row) \<and>
     unat (object_type_ordinal row) < unat types"

lemma g_object_resolves:
  assumes "g_object mem ctx i p = Some (x, u)" and "data_offset (header (context_prefix ctx)) \<le> file_size (header (context_prefix ctx))"
  shows "object_resolves (header (context_prefix ctx)) (context_type_count ctx) x"
proof -
  let ?head = "header (context_prefix ctx)"
  have wide: "unat (ucast n :: u64) = unat n" for n :: u32 by (rule unat_widen) simp
  have x: "relative_data_offset x \<le> file_size ?head - data_offset ?head"
    "ucast (byte_size x) \<le> file_size ?head - data_offset ?head - relative_data_offset x"
    "ucast (object_type_ordinal x) < context_type_count ctx"
    "payload x = \<lparr>range_offset = data_offset ?head + relative_data_offset x, range_size = ucast (byte_size x)\<rparr>"
    using assms(1) by (auto simp: g_object_def Let_def g_then_Some)
  have "unat (relative_data_offset x) \<le> unat (file_size ?head) - unat (data_offset ?head)"
    "unat (byte_size x) \<le> unat (file_size ?head) - unat (data_offset ?head) - unat (relative_data_offset x)"
    "unat (object_type_ordinal x) < unat (context_type_count ctx)" "unat (data_offset ?head) \<le> unat (file_size ?head)"
    using x(1-3) assms(2) by (simp_all add: word_le_nat_alt word_less_nat_alt wide)
  moreover from this have "unat (data_offset ?head + relative_data_offset x) =
      unat (data_offset ?head) + unat (relative_data_offset x)"
    using u64_bound [of "file_size ?head"] by (intro unat_add_fits) simp
  ultimately show ?thesis by (simp add: object_resolves_def x(4) wide)
qed

definition directory_wellformed :: "DirectoryStorage \<Rightarrow> bool" where
  "directory_wellformed storage \<longleftrightarrow>
     (let view = storage_view storage; head = header (view_prefix view);
          types = storage_types storage; objects = storage_objects storage
      in length types = unat (type_count view) \<and> length objects = unat (object_count view) \<and>
         map type_ordinal types = map of_nat [0..<length types] \<and>
         map object_ordinal objects = map of_nat [0..<length objects] \<and>
         spans_tile (span_start (type_rows_source view)) (span_end (type_rows_source view))
           (map type_source types) \<and>
         spans_tile (span_start (object_rows_source view)) (span_end (object_rows_source view))
           (map object_source objects) \<and>
         span_end (type_count_source view) = span_start (type_rows_source view) \<and>
         span_end (type_rows_source view) = span_start (object_count_source view) \<and>
         span_end (object_count_source view) = span_start (object_padding_source view) \<and>
         span_end (object_padding_source view) = span_start (object_rows_source view) \<and>
         (objects = [] \<or> (span_start (object_rows_source view)) mod 4 = 0) \<and>
         list_all (object_resolves head (type_count view)) objects)"

lemma g_table_count_source:
  assumes "g_table_count mem ctx allowed capacity p = Some ((source, n), u)" "p + 4 < 2 ^ 64"
  shows "u Bytes = 4" "span_start source = p" "span_end source = p + 4"
  using assms
  by (auto simp: g_table_count_Some g_count_def g_u32_def g_then_Some g_take_def mapped_span_def span_start_def
      span_end_def unat_of_nat)

lemma g_table_count_bytes: "g_table_count mem ctx allowed capacity p = Some ((source, n), u) \<Longrightarrow> u Bytes = 4"
  by (auto simp: g_table_count_Some g_count_def g_u32_def g_then_Some g_take_def)

lemma object_pad_aligns: "n \<noteq> 0 \<Longrightarrow> (p + object_pad n p) mod 4 = 0"
proof -
  have "p mod 4 < 4" by simp
  then consider "p mod 4 = 0" | "p mod 4 = 1" | "p mod 4 = 2" | "p mod 4 = 3" by linarith
  then have "(p mod 4 + (4 - p mod 4) mod 4) mod 4 = 0" by cases simp_all
  then show "n \<noteq> 0 \<Longrightarrow> (p + object_pad n p) mod 4 = 0"
    by (simp add: object_pad_def mod_add_left_eq)
qed

lemma describes_wellformed:
  assumes tables: "directory_tables mem bytes limits prefix = Some (x, u)"
    and room: "table_room mapped_size limits prefix u"
    and data: "data_offset (header prefix) \<le> file_size (header prefix)"
    and storage: "directory_describes engine bytes prefix x u storage"
  shows "directory_wellformed storage"
proof -
  let ?c = "(pass_context bytes limits prefix (None, None))\<lparr>context_type_count := ucast (section_type_total x)\<rparr>"
  let ?p = "tables_start prefix"
  obtain u1 u2 u3 u4 u5 where
    parts: "g_table_count mem (pass_context bytes limits prefix (None, None)) (directory_max_types limits) None ?p =
        Some ((section_type_count x, section_type_total x), u1)"
      "g_rows (g_type mem ?c) 0 (unat (section_type_total x)) (?p + u1 Bytes) = Some (section_type_rows x, u2)"
      "g_table_count mem ?c (directory_max_objects limits) None (?p + u1 Bytes + u2 Bytes) =
        Some ((section_object_count x, section_object_total x), u3)"
      "g_take bytes (object_pad (section_object_total x) (?p + u1 Bytes + u2 Bytes + u3 Bytes))
        (?p + u1 Bytes + u2 Bytes + u3 Bytes) = Some (section_padding x, u4)"
      "g_rows (g_object mem ?c) 0 (unat (section_object_total x))
        (?p + u1 Bytes + u2 Bytes + u3 Bytes + u4 Bytes) = Some (section_object_rows x, u5)"
      "section_types x = span_between ?c (?p + u1 Bytes) (?p + u1 Bytes + u2 Bytes)"
      "section_objects x = span_between ?c (?p + u1 Bytes + u2 Bytes + u3 Bytes + u4 Bytes)
        (?p + u1 Bytes + u2 Bytes + u3 Bytes + u4 Bytes + u5 Bytes)"
    and u: "u = both u1 (both u2 (both u3 (both u4 u5)))"
    using tables unfolding directory_tables_def g_directory_Some Let_def by (auto simp: pass_context_def)
  have top: "?p + u1 Bytes + u2 Bytes + u3 Bytes + u4 Bytes + u5 Bytes < 2 ^ 64"
    using room u u64_bound [of mapped_size] by (simp add: table_room_def add.assoc)
  let ?p1 = "?p + u1 Bytes" and ?p2 = "?p + u1 Bytes + u2 Bytes"
  let ?p3 = "?p + u1 Bytes + u2 Bytes + u3 Bytes" and ?p4 = "?p + u1 Bytes + u2 Bytes + u3 Bytes + u4 Bytes"
  have four: "u1 Bytes = 4" "u3 Bytes = 4" using parts(1,3) g_table_count_bytes by blast+
  have counts: "span_end (section_type_count x) = ?p1" "span_start (section_object_count x) = ?p2"
    "span_end (section_object_count x) = ?p3"
    using g_table_count_source [OF parts(1)] g_table_count_source [OF parts(3)] four top by simp_all
  have padding: "span_start (section_padding x) = ?p3" "span_end (section_padding x) = ?p4"
    "u4 Bytes = object_pad (section_object_total x) ?p3"
    using g_take_span [OF parts(4)] top by simp_all
  have tables_span: "span_start (section_types x) = ?p1" "span_end (section_types x) = ?p2"
    "span_start (section_objects x) = ?p4" "span_end (section_objects x) = ?p4 + u5 Bytes"
    using span_between_exact [of ?p1 ?p2 ?c] span_between_exact [of ?p4 "?p4 + u5 Bytes" ?c] top parts(6,7)
    by (simp_all add: span_start_def span_end_def)
  have types: "spans_tile ?p1 ?p2 (map type_source (section_type_rows x)) \<and>
      map type_ordinal (section_type_rows x) = map of_nat [0..<0 + unat (section_type_total x)]"
  proof (rule g_rows_tile [OF _ parts(2)])
    fix i p v y
    assume "g_type mem ?c i p = Some (y, v)" "p + v Bytes < 2 ^ 64"
    then show "unat (span_offset (type_source y)) = p \<and> unat (span_size (type_source y)) = v Bytes \<and>
        type_ordinal y = of_nat i"
      using g_type_source span_between_exact [of p "p + v Bytes" ?c] by fastforce
  qed (use top in simp)
  have objects: "spans_tile ?p4 (?p4 + u5 Bytes) (map object_source (section_object_rows x)) \<and>
      map object_ordinal (section_object_rows x) = map of_nat [0..<0 + unat (section_object_total x)]"
  proof (rule g_rows_tile [OF _ parts(5)])
    fix i p v y
    assume "g_object mem ?c i p = Some (y, v)" "p + v Bytes < 2 ^ 64"
    then show "unat (span_offset (object_source y)) = p \<and> unat (span_size (object_source y)) = v Bytes \<and>
        object_ordinal y = of_nat i"
      using g_object_source [of mem ?c i p y v] by (simp add: mapped_span_def unat_of_nat)
  qed (use top in simp)
  have aligned: "section_object_rows x = [] \<or> ?p4 mod 4 = 0"
    using object_pad_aligns [of "section_object_total x" ?p3] padding(3) directory_work(3) [OF tables]
    by (cases "section_object_total x = 0") simp_all
  have resolved: "list_all (object_resolves (header prefix) (ucast (section_type_total x))) (section_object_rows x)"
    using g_rows_all [OF _ parts(5)] g_object_resolves [of mem ?c] data by (simp add: pass_context_def)
  have wide: "unat (ucast n :: u64) = unat n" for n :: u32 by (rule unat_widen) simp
  show ?thesis
    unfolding directory_wellformed_def Let_def
    using storage counts padding tables_span types objects aligned resolved directory_work(2,3) [OF tables]
    by (simp add: directory_describes_def sections_view_def start_view_def Let_def wide)
qed

section \<open>Correctness\<close>

text \<open>
  Property C1. For an empty output, creation publishes a directory exactly when its
  arguments are usable, the prefix is admitted with the selected version, the grammar accepts
  the tables and the caps, the allocator and the work budget afford them. It then costs
  \<open>P + V + 2(D + T + O) + R + 2\<close> units, \<open>P = 55 + V\<close>, and the storage holds the sections and
  rows of the grammar. Otherwise it fails inside the budget, leaves the output empty and owes
  the allocator nothing.
\<close>

theorem directory_create_correct:
  "case serialized_file_directory_create mem place grants locals bytes mapped_size logical_size engine
        limits_address limits out_address None t of
     (r, None, t') \<Rightarrow>
       directory_status r \<noteq> SERIALIZED_FILE_DIRECTORY_OK \<and>
       unat (directory_work_used r) \<le> unat (directory_max_work limits) \<and> owed None 0 t' = owed None 0 t \<and>
       \<not> (\<exists>prefix x u. directory_admits mem grants locals bytes mapped_size logical_size engine limits_address
            limits out_address t prefix x u)
   | (r, Some storage, t') \<Rightarrow>
       directory_status r = SERIALIZED_FILE_DIRECTORY_OK \<and>
       (\<exists>prefix x u. directory_admits mem grants locals bytes mapped_size logical_size engine limits_address
            limits out_address t prefix x u \<and>
          unat (directory_work_used r) =
            55 + 2 * unat (span_size (version_source prefix)) +
            2 * (u Bytes + length (storage_types storage) + length (storage_objects storage)) + retained x + 2 \<and>
          required_retained_bytes r = of_nat (retained x) \<and> peak_retained_bytes r = of_nat (retained x) \<and>
          directory_describes engine bytes prefix x u storage \<and>
          storage_address storage = place (allocator_calls t) \<and>
          owed (Some (storage_cells storage)) (retained_bytes (storage_view storage)) t' = owed None 0 t)"
  by (rule create_outcome)

lemma created_wellformed:
  assumes "serialized_file_directory_create mem place grants locals bytes mapped_size logical_size engine
      limits_address limits out_address None t = (r, Some storage, t')"
  shows "directory_wellformed storage"
    and "owed (Some (storage_cells storage)) (retained_bytes (storage_view storage)) t' = owed None 0 t"
proof -
  note created = create_outcome [where mem = mem and place = place and grants = grants and locals = locals and
        bytes = bytes and mapped_size = mapped_size and logical_size = logical_size and engine = engine and
        limits_address = limits_address and limits = limits and out_address = out_address and t = t, unfolded assms prod.case option.case]
  then show "owed (Some (storage_cells storage)) (retained_bytes (storage_view storage)) t' = owed None 0 t"
    by blast
  from created obtain prefix x u where admits: "directory_admits mem grants locals bytes mapped_size logical_size
      engine limits_address limits out_address t prefix x u"
    and storage: "directory_describes engine bytes prefix x u storage"
    by blast
  obtain q where q: "queried_prefix mem locals bytes mapped_size logical_size limits = (q, Some prefix)"
    and tables: "directory_tables mem bytes limits prefix = Some (x, u)" "table_room mapped_size limits prefix u"
    using admits by (auto simp: directory_admits_def build_fits_def)
  have "header_describes mem bytes (unat logical_size) (header prefix)"
    using prefix_query_outcome [where mem = mem and base = bytes and mapped_size = mapped_size and
        logical_size = logical_size and limits_address = "fst locals" and out_prefix = "snd locals" and
        limits = "\<lparr>max_version_bytes = directory_max_version_bytes limits,
          max_prefix_work = directory_max_work limits\<rparr>"] q by simp
  then have "data_offset (header prefix) \<le> file_size (header prefix)"
    by (simp add: header_describes_def word_le_nat_alt)
  with tables storage show "directory_wellformed storage" by (blast intro: describes_wellformed)
qed

text \<open>
  Property C17. A created directory is well formed: it has as many rows as the counts say, in
  original order; the type and object entries tile their tables without gaps, the tables
  follow each other, the object table is aligned; and every object's payload lies inside the
  data of the file and names an existing type.
\<close>

theorem directory_create_wellformed:
  "case serialized_file_directory_create mem place grants locals bytes mapped_size logical_size engine
        limits_address limits out_address None t of
     (r, out, t') \<Rightarrow> (case out of None \<Rightarrow> True | Some storage \<Rightarrow> directory_wellformed storage)"
  by (auto split: prod.split option.split dest: created_wellformed(1))

text \<open>
  Disposing of what creation left, published or not, gives the allocator's
  counters back as they were; disposing a second time changes nothing.
\<close>

theorem directory_create_dispose_balanced:
  "case serialized_file_directory_create mem place grants locals bytes mapped_size logical_size engine
        limits_address limits out_address None t of
     (r, out, t') \<Rightarrow>
       (case serialized_file_directory_dispose out t' of
          (left, t'') \<Rightarrow>
            left = None \<and> owed None 0 t'' = owed None 0 t \<and>
            serialized_file_directory_dispose left t'' = (None, t''))"
proof -
  obtain r out t' where run: "serialized_file_directory_create mem place grants locals bytes mapped_size
      logical_size engine limits_address limits out_address None t = (r, out, t')"
    by (metis surj_pair)
  show ?thesis
  proof (cases out)
    case None
    then show ?thesis
      using create_outcome [where mem = mem and place = place and grants = grants and locals = locals and
        bytes = bytes and mapped_size = mapped_size and logical_size = logical_size and engine = engine and
        limits_address = limits_address and limits = limits and out_address = out_address and t = t] run
      by (simp add: serialized_file_directory_dispose_def)
  next
    case (Some storage)
    then show ?thesis
      using created_wellformed(2) [OF run [unfolded Some]] run
      by (simp add: serialized_file_directory_dispose_def mem_free_def owed_def)
  qed
qed

text \<open>
  On a created directory the row accessors answer exactly the ordinals below the
  counts, with the row that carries that ordinal, and never read outside the arrays.
\<close>

theorem directory_accessors_exact:
  "case serialized_file_directory_create mem place grants locals bytes mapped_size logical_size engine
        limits_address limits out_address None t of
     (r, None, t') \<Rightarrow>
       serialized_file_directory_type None i = None \<and> serialized_file_directory_object None i = None
   | (r, Some storage, t') \<Rightarrow>
       map_option type_ordinal (serialized_file_directory_type (Some storage) i) =
         (if unat i < length (storage_types storage) then Some i else None) \<and>
       map_option object_ordinal (serialized_file_directory_object (Some storage) i) =
         (if unat i < length (storage_objects storage) then Some i else None)"
proof -
  obtain r out t' where run: "serialized_file_directory_create mem place grants locals bytes mapped_size
      logical_size engine limits_address limits out_address None t = (r, out, t')"
    by (metis surj_pair)
  show ?thesis
  proof (cases out)
    case None
    then show ?thesis
      using run by (simp add: serialized_file_directory_type_def serialized_file_directory_object_def)
  next
    case (Some storage)
    note good = created_wellformed(1) [OF run [unfolded Some], unfolded directory_wellformed_def Let_def]
    have "type_ordinal (storage_types storage ! unat i) = i" if "unat i < length (storage_types storage)"
      using good that by (blast intro: ordinals_in_order)
    moreover have "object_ordinal (storage_objects storage ! unat i) = i"
      if "unat i < length (storage_objects storage)"
      using good that by (blast intro: ordinals_in_order)
    ultimately show ?thesis
      using run Some good
      by (simp add: serialized_file_directory_type_def serialized_file_directory_object_def word_less_nat_alt)
  qed
qed

text \<open>
  Placing an array behind a plan succeeds exactly when the padded offset plus
  the bytes of the array, computed without wrap-around, fits \<open>size_t\<close>; the offset is then the
  first aligned position at or behind the plan and the new total ends the array.
\<close>

theorem storage_append_array_exact:
  assumes "alignment \<noteq> 0"
  shows "case serialized_file_storage_append_array_internal planned alignment count width of
      None \<Rightarrow> size_max < unat planned + pad_to (unat alignment) (unat planned) + unat count * unat width
    | Some (stop, offset) \<Rightarrow>
        unat offset = unat planned + pad_to (unat alignment) (unat planned) \<and>
        unat offset mod unat alignment = 0 \<and> unat stop = unat offset + unat count * unat width"
  using assms by (rule append_array_exact)

theorem storage_append_array_exact_witness:
  "case serialized_file_storage_append_array_internal 13 8 3 5 of
     None \<Rightarrow> size_max < (31::nat)
   | Some (stop, offset) \<Rightarrow> unat offset = 16 \<and> unat stop = 31"
  using storage_append_array_exact [of 8 13 3 5] by (auto simp: pad_to_def split: option.splits)

end
