(* ===== verification/MetadataTail.thy ===== *)
theory MetadataTail
  imports FileDirectoryCreate
begin

text \<open>
  \<open>src/io/serialized_file_metadata_tail.c\<close>: the part of the metadata behind the directory, that
  is the script identifiers, the external files, the reference types and the user
  information. It is read with the shared reader, counted in one pass and stored in a second.
  The parent directory is the value its handle holds; addresses are arguments.
\<close>

section \<open>Data\<close>

record SerializedFileMetadataTailLimits =
  max_scripts :: u64
  max_externals :: u64
  max_reference_types :: u64
  tail_max_node_records :: u64
  max_tree_string_bytes :: u64
  max_terminated_string_bytes :: u64
  max_tail_bytes :: u64
  tail_max_retained_bytes :: u64
  tail_max_scratch_bytes :: u64
  tail_max_work :: u64

record SerializedFileMetadataTailScriptRow =
  script_ordinal :: u64
  script_source :: SerializedFilePrefixSpan
  file_index_source :: SerializedFilePrefixSpan
  alignment_source :: SerializedFilePrefixSpan
  local_identifier_source :: SerializedFilePrefixSpan
  file_index_bits :: u32
  local_identifier_bits :: u64

record SerializedFileMetadataTailExternalRow =
  external_ordinal :: u64
  external_source :: SerializedFilePrefixSpan
  leading_string_source :: SerializedFilePrefixSpan
  guid_source :: SerializedFilePrefixSpan
  external_type_source :: SerializedFilePrefixSpan
  path_source :: SerializedFilePrefixSpan
  guid_words :: "u32 list"
  type_bits :: u32

record SerializedFileMetadataTailReferenceTypeRow =
  reference_ordinal :: u64
  reference_source :: SerializedFilePrefixSpan
  reference_prefix :: SerializedMetadataTypePrefix
  reference_has_tree :: bool
  reference_tree :: SerializedFileDirectoryTree
  class_name_source :: SerializedFilePrefixSpan
  namespace_source :: SerializedFilePrefixSpan
  assembly_name_source :: SerializedFilePrefixSpan

record SerializedFileMetadataTailView =
  tail_directory :: SerializedFileDirectoryView
  tail_source :: SerializedFilePrefixSpan
  script_count_source :: SerializedFilePrefixSpan
  script_rows_source :: SerializedFilePrefixSpan
  external_count_source :: SerializedFilePrefixSpan
  external_rows_source :: SerializedFilePrefixSpan
  reference_type_count_source :: SerializedFilePrefixSpan
  reference_type_rows_source :: SerializedFilePrefixSpan
  user_information_source :: SerializedFilePrefixSpan
  script_count :: u64
  external_count :: u64
  reference_type_count :: u64
  tail_node_record_count :: u64
  tree_string_byte_count :: u64
  terminated_string_byte_count :: u64
  tail_retained_bytes :: u64

datatype SerializedFileMetadataTailStatus =
    SERIALIZED_FILE_METADATA_TAIL_OK
  | SERIALIZED_FILE_METADATA_TAIL_INVALID_ARGUMENT
  | SERIALIZED_FILE_METADATA_TAIL_INVALID_STATE
  | SERIALIZED_FILE_METADATA_TAIL_SOURCE_MISMATCH
  | SERIALIZED_FILE_METADATA_TAIL_UNSUPPORTED_TYPE_SHAPE
  | SERIALIZED_FILE_METADATA_TAIL_UNSUPPORTED_TREE_SHAPE
  | SERIALIZED_FILE_METADATA_TAIL_MALFORMED_METADATA
  | SERIALIZED_FILE_METADATA_TAIL_INCOMPLETE_MAPPING
  | SERIALIZED_FILE_METADATA_TAIL_LIMIT_EXCEEDED
  | SERIALIZED_FILE_METADATA_TAIL_ALLOCATION_FAILED

datatype SerializedFileMetadataTailLimit =
    SERIALIZED_FILE_METADATA_TAIL_LIMIT_NONE
  | SERIALIZED_FILE_METADATA_TAIL_LIMIT_SCRIPTS
  | SERIALIZED_FILE_METADATA_TAIL_LIMIT_EXTERNALS
  | SERIALIZED_FILE_METADATA_TAIL_LIMIT_REFERENCE_TYPES
  | SERIALIZED_FILE_METADATA_TAIL_LIMIT_NODES
  | SERIALIZED_FILE_METADATA_TAIL_LIMIT_TREE_STRING_BYTES
  | SERIALIZED_FILE_METADATA_TAIL_LIMIT_TERMINATED_STRING_BYTES
  | SERIALIZED_FILE_METADATA_TAIL_LIMIT_TAIL_BYTES
  | SERIALIZED_FILE_METADATA_TAIL_LIMIT_RETAINED_BYTES
  | SERIALIZED_FILE_METADATA_TAIL_LIMIT_SCRATCH_BYTES
  | SERIALIZED_FILE_METADATA_TAIL_LIMIT_WORK

datatype SerializedFileMetadataTailField =
    SERIALIZED_FILE_METADATA_TAIL_FIELD_NONE
  | SERIALIZED_FILE_METADATA_TAIL_FIELD_SCRIPT_COUNT
  | SERIALIZED_FILE_METADATA_TAIL_FIELD_SCRIPT_ENTRY
  | SERIALIZED_FILE_METADATA_TAIL_FIELD_SCRIPT_ALIGNMENT
  | SERIALIZED_FILE_METADATA_TAIL_FIELD_EXTERNAL_COUNT
  | SERIALIZED_FILE_METADATA_TAIL_FIELD_EXTERNAL_ENTRY
  | SERIALIZED_FILE_METADATA_TAIL_FIELD_EXTERNAL_LEADING_STRING
  | SERIALIZED_FILE_METADATA_TAIL_FIELD_EXTERNAL_GUID
  | SERIALIZED_FILE_METADATA_TAIL_FIELD_EXTERNAL_TYPE
  | SERIALIZED_FILE_METADATA_TAIL_FIELD_EXTERNAL_PATH
  | SERIALIZED_FILE_METADATA_TAIL_FIELD_REFERENCE_TYPE_COUNT
  | SERIALIZED_FILE_METADATA_TAIL_FIELD_REFERENCE_TYPE_ENTRY
  | SERIALIZED_FILE_METADATA_TAIL_FIELD_TREE
  | SERIALIZED_FILE_METADATA_TAIL_FIELD_REFERENCE_CLASS_NAME
  | SERIALIZED_FILE_METADATA_TAIL_FIELD_REFERENCE_NAMESPACE
  | SERIALIZED_FILE_METADATA_TAIL_FIELD_REFERENCE_ASSEMBLY_NAME
  | SERIALIZED_FILE_METADATA_TAIL_FIELD_USER_INFORMATION
  | SERIALIZED_FILE_METADATA_TAIL_FIELD_EXHAUSTION

record SerializedFileMetadataTailResult =
  tail_status :: SerializedFileMetadataTailStatus
  tail_limit :: SerializedFileMetadataTailLimit
  tail_field :: SerializedFileMetadataTailField
  tail_row_ordinal :: u64
  tail_error_offset :: u64
  tail_work_used :: u64
  tail_required_retained_bytes :: u64
  tail_peak_retained_bytes :: u64
  tail_peak_scratch_bytes :: u64

record TailStorage =
  tail_storage_address :: pointer
  tail_storage_cells :: block
  tail_storage_view :: SerializedFileMetadataTailView
  storage_scripts :: "SerializedFileMetadataTailScriptRow list"
  storage_externals :: "SerializedFileMetadataTailExternalRow list"
  storage_reference_types :: "SerializedFileMetadataTailReferenceTypeRow list"

type_synonym SerializedFileMetadataTail = "TailStorage option"

abbreviation sizeof_tail_handle :: u64 where "sizeof_tail_handle \<equiv> 8"
abbreviation sizeof_tail_limits :: u64 where "sizeof_tail_limits \<equiv> 80"
abbreviation sizeof_tail_storage :: u64 where "sizeof_tail_storage \<equiv> 960"
abbreviation sizeof_script_row :: u64 where "sizeof_script_row \<equiv> 120"
abbreviation sizeof_external_row :: u64 where "sizeof_external_row \<equiv> 152"
abbreviation sizeof_reference_type_row :: u64 where "sizeof_reference_type_row \<equiv> 344"

record TailLayout =
  scripts_offset :: u64
  externals_offset :: u64
  reference_types_offset :: u64
  tail_total_bytes :: u64

record TailScan =
  tail_scan_limits :: SerializedFileMetadataTailLimits
  tail_scan_result :: SerializedFileMetadataTailResult
  tail_scan_view :: SerializedFileMetadataTailView
  tail_scan_reader :: SerializedMetadataReader
  tail_scan_field :: SerializedFileMetadataTailField
  tail_scan_row_ordinal :: u64
  scan_scripts :: "SerializedFileMetadataTailScriptRow list option"
  scan_externals :: "SerializedFileMetadataTailExternalRow list option"
  scan_reference_types :: "SerializedFileMetadataTailReferenceTypeRow list option"
  script_capacity :: u64
  external_capacity :: u64
  reference_type_capacity :: u64
  replaying :: bool

section \<open>Results and arguments\<close>

definition tail_initial_result :: SerializedFileMetadataTailResult where
  "tail_initial_result =
     \<lparr>tail_status = SERIALIZED_FILE_METADATA_TAIL_OK, tail_limit = SERIALIZED_FILE_METADATA_TAIL_LIMIT_NONE,
      tail_field = SERIALIZED_FILE_METADATA_TAIL_FIELD_NONE, tail_row_ordinal = SIZE_MAX,
      tail_error_offset = SERIALIZED_FILE_PREFIX_NO_OFFSET, tail_work_used = 0,
      tail_required_retained_bytes = 0, tail_peak_retained_bytes = 0, tail_peak_scratch_bytes = 0\<rparr>"

definition tail_reject ::
    "SerializedFileMetadataTailStatus \<Rightarrow> SerializedFileMetadataTailLimit \<Rightarrow> SerializedFileMetadataTailField \<Rightarrow>
     u64 \<Rightarrow> u64 \<Rightarrow> SerializedFileMetadataTailResult \<Rightarrow> SerializedFileMetadataTailResult" where
  "tail_reject status limit field row_ordinal offset result =
     result\<lparr>tail_status := status, tail_limit := limit, tail_field := field,
       tail_row_ordinal := row_ordinal, tail_error_offset := offset\<rparr>"

definition tail_charge_work ::
    "SerializedFileMetadataTailLimits \<Rightarrow> u64 \<Rightarrow> SerializedFileMetadataTailField \<Rightarrow> u64 \<Rightarrow> u64 \<Rightarrow>
     (SerializedFileMetadataTailResult, unit) step" where
  "tail_charge_work limits amount field row_ordinal offset =
     step_then (step_require (\<lambda>result. amount \<le> tail_max_work limits - tail_work_used result)
       (tail_reject SERIALIZED_FILE_METADATA_TAIL_LIMIT_EXCEEDED SERIALIZED_FILE_METADATA_TAIL_LIMIT_WORK
          field row_ordinal offset)) (\<lambda>_.
     step_modify (\<lambda>result. result\<lparr>tail_work_used := tail_work_used result + amount\<rparr>))"

definition charge_owner_work ::
    "SerializedFileMetadataTailLimits \<Rightarrow> u64 \<Rightarrow> (SerializedFileMetadataTailResult, unit) step" where
  "charge_owner_work limits amount =
     tail_charge_work limits amount SERIALIZED_FILE_METADATA_TAIL_FIELD_NONE SIZE_MAX
       SERIALIZED_FILE_PREFIX_NO_OFFSET"

text \<open>The two nested loops over the ranges: no range overlaps a later one.\<close>

fun ranges_disjoint :: "(pointer \<times> u64) list \<Rightarrow> bool" where
  "ranges_disjoint [] \<longleftrightarrow> True"
| "ranges_disjoint ((start, extent) # ranges) \<longleftrightarrow>
     list_all (\<lambda>(start', extent'). \<not> serialized_file_storage_overlaps_internal start extent start' extent') ranges \<and>
     ranges_disjoint ranges"

definition tail_valid_arguments ::
    "pointer \<Rightarrow> pointer \<Rightarrow> u64 \<Rightarrow> u64 \<Rightarrow> pointer \<Rightarrow> pointer \<Rightarrow> bool" where
  "tail_valid_arguments directory_address bytes mapped_size logical_size limits_address out_address \<longleftrightarrow>
     directory_address \<noteq> 0 \<and> limits_address \<noteq> 0 \<and> out_address \<noteq> 0 \<and> (bytes \<noteq> 0 \<or> mapped_size = 0) \<and>
     mapped_size \<le> logical_size \<and>
     ranges_disjoint [(directory_address, sizeof_directory_handle), (limits_address, sizeof_tail_limits),
       (out_address, sizeof_tail_handle), (bytes, mapped_size)]"

definition parent_storage_disjoint ::
    "pointer \<Rightarrow> u64 \<Rightarrow> pointer \<Rightarrow> pointer \<Rightarrow> u64 \<Rightarrow> pointer \<Rightarrow> pointer \<Rightarrow> bool" where
  "parent_storage_disjoint storage amount directory_address bytes mapped_size limits_address out_address \<longleftrightarrow>
     \<not> serialized_file_storage_overlaps_internal storage amount directory_address sizeof_directory_handle \<and>
     \<not> serialized_file_storage_overlaps_internal storage amount bytes mapped_size \<and>
     \<not> serialized_file_storage_overlaps_internal storage amount limits_address sizeof_tail_limits \<and>
     \<not> serialized_file_storage_overlaps_internal storage amount out_address sizeof_tail_handle"

section \<open>The scan\<close>

text \<open>Bytes the cursor has moved over since \<open>start\<close>.\<close>

definition consumed_span :: "u64 \<Rightarrow> TailScan \<Rightarrow> SerializedFilePrefixSpan" where
  "consumed_span start scan =
     \<lparr>span_data = reader_bytes (tail_scan_reader scan) + start, span_offset = start,
      span_size = reader_position (tail_scan_reader scan) - start\<rparr>"

definition tail_read_failure ::
    "SerializedMetadataReadStatus \<Rightarrow> SerializedFileMetadataTailStatus \<times> SerializedFileMetadataTailLimit" where
  "tail_read_failure status =
     (case status of
        SERIALIZED_METADATA_READ_METADATA_END \<Rightarrow>
          (SERIALIZED_FILE_METADATA_TAIL_MALFORMED_METADATA, SERIALIZED_FILE_METADATA_TAIL_LIMIT_NONE)
      | SERIALIZED_METADATA_READ_NEGATIVE_COUNT \<Rightarrow>
          (SERIALIZED_FILE_METADATA_TAIL_MALFORMED_METADATA, SERIALIZED_FILE_METADATA_TAIL_LIMIT_NONE)
      | SERIALIZED_METADATA_READ_MAPPING_END \<Rightarrow>
          (SERIALIZED_FILE_METADATA_TAIL_INCOMPLETE_MAPPING, SERIALIZED_FILE_METADATA_TAIL_LIMIT_NONE)
      | SERIALIZED_METADATA_READ_BYTE_LIMIT \<Rightarrow>
          (SERIALIZED_FILE_METADATA_TAIL_LIMIT_EXCEEDED, SERIALIZED_FILE_METADATA_TAIL_LIMIT_TAIL_BYTES)
      | SERIALIZED_METADATA_READ_WORK_LIMIT \<Rightarrow>
          (SERIALIZED_FILE_METADATA_TAIL_LIMIT_EXCEEDED, SERIALIZED_FILE_METADATA_TAIL_LIMIT_WORK)
      | SERIALIZED_METADATA_READ_TYPE_SHAPE \<Rightarrow>
          (SERIALIZED_FILE_METADATA_TAIL_UNSUPPORTED_TYPE_SHAPE, SERIALIZED_FILE_METADATA_TAIL_LIMIT_NONE)
      | SERIALIZED_METADATA_READ_TREE_SHAPE \<Rightarrow>
          (SERIALIZED_FILE_METADATA_TAIL_UNSUPPORTED_TREE_SHAPE, SERIALIZED_FILE_METADATA_TAIL_LIMIT_NONE)
      | SERIALIZED_METADATA_READ_NODE_LIMIT \<Rightarrow>
          (SERIALIZED_FILE_METADATA_TAIL_LIMIT_EXCEEDED, SERIALIZED_FILE_METADATA_TAIL_LIMIT_NODES)
      | SERIALIZED_METADATA_READ_STRING_LIMIT \<Rightarrow>
          (SERIALIZED_FILE_METADATA_TAIL_LIMIT_EXCEEDED, SERIALIZED_FILE_METADATA_TAIL_LIMIT_TREE_STRING_BYTES)
      | SERIALIZED_METADATA_READ_TERMINATED_STRING_LIMIT \<Rightarrow>
          (SERIALIZED_FILE_METADATA_TAIL_LIMIT_EXCEEDED,
           SERIALIZED_FILE_METADATA_TAIL_LIMIT_TERMINATED_STRING_BYTES)
      | SERIALIZED_METADATA_READ_OK \<Rightarrow>
          (SERIALIZED_FILE_METADATA_TAIL_INVALID_STATE, SERIALIZED_FILE_METADATA_TAIL_LIMIT_NONE))"

definition tail_reject_reader :: "TailScan \<Rightarrow> TailScan" where
  "tail_reject_reader scan =
     (let (status, limit) = tail_read_failure (reader_status (tail_scan_reader scan)) in
      scan\<lparr>tail_scan_result := tail_reject status limit (tail_scan_field scan) (tail_scan_row_ordinal scan)
        (reader_error_offset (tail_scan_reader scan)) (tail_scan_result scan)\<rparr>)"

text \<open>The reader and the counters it reaches through pointers, read out of the scan and put back.\<close>

definition tail_lend_reader :: "TailScan \<Rightarrow> SerializedMetadataReader" where
  "tail_lend_reader scan =
     (tail_scan_reader scan)\<lparr>reader_work_used := tail_work_used (tail_scan_result scan)\<rparr>"

definition tail_return_reader :: "SerializedMetadataReader \<Rightarrow> TailScan \<Rightarrow> TailScan" where
  "tail_return_reader reader scan =
     scan\<lparr>tail_scan_reader := reader,
       tail_scan_result := (tail_scan_result scan)\<lparr>tail_work_used := reader_work_used reader\<rparr>\<rparr>"

definition tail_lend_tree :: "TailScan \<Rightarrow> SerializedMetadataReader \<times> SerializedMetadataTreeBudget" where
  "tail_lend_tree scan =
     (tail_lend_reader scan,
      \<lparr>max_node_records = tail_max_node_records (tail_scan_limits scan),
       max_string_bytes = max_tree_string_bytes (tail_scan_limits scan),
       node_records = tail_node_record_count (tail_scan_view scan),
       string_bytes = tree_string_byte_count (tail_scan_view scan)\<rparr>)"

definition tail_return_tree ::
    "SerializedMetadataReader \<times> SerializedMetadataTreeBudget \<Rightarrow> TailScan \<Rightarrow> TailScan" where
  "tail_return_tree = (\<lambda>(reader, budget) scan. tail_return_reader reader
     (scan\<lparr>tail_scan_view := (tail_scan_view scan)\<lparr>tail_node_record_count := node_records budget,
        tree_string_byte_count := string_bytes budget\<rparr>\<rparr>))"

definition tail_lend_string :: "TailScan \<Rightarrow> SerializedMetadataReader \<times> u64" where
  "tail_lend_string scan = (tail_lend_reader scan, terminated_string_byte_count (tail_scan_view scan))"

definition tail_return_string :: "SerializedMetadataReader \<times> u64 \<Rightarrow> TailScan \<Rightarrow> TailScan" where
  "tail_return_string = (\<lambda>(reader, terminated) scan. tail_return_reader reader
     (scan\<lparr>tail_scan_view := (tail_scan_view scan)\<lparr>terminated_string_byte_count := terminated\<rparr>\<rparr>))"

definition tail_read :: "(SerializedMetadataReader, 'a) step \<Rightarrow> (TailScan, 'a) step" where
  "tail_read = step_inside tail_lend_reader tail_return_reader tail_reject_reader"

definition on_tail_result :: "(SerializedFileMetadataTailResult, 'a) step \<Rightarrow> (TailScan, 'a) step" where
  "on_tail_result = step_inside tail_scan_result (\<lambda>result scan. scan\<lparr>tail_scan_result := result\<rparr>) id"

abbreviation tail_set_field :: "SerializedFileMetadataTailField \<Rightarrow> (TailScan, unit) step" where
  "tail_set_field field \<equiv> step_modify (\<lambda>scan. scan\<lparr>tail_scan_field := field\<rparr>)"

definition tail_take_bytes :: "u64 \<Rightarrow> (TailScan, SerializedFilePrefixSpan) step" where
  "tail_take_bytes width = tail_read (serialized_metadata_take width)"

definition take_u32 :: "memory \<Rightarrow> (TailScan, SerializedFilePrefixSpan \<times> u32) step" where
  "take_u32 mem = tail_read (serialized_metadata_read_u32 mem)"

definition take_string ::
    "memory \<Rightarrow> SerializedFileMetadataTailField \<Rightarrow> (TailScan, SerializedFilePrefixSpan) step" where
  "take_string mem field =
     step_then (tail_set_field field) (\<lambda>_.
     step_with tail_scan_limits (\<lambda>limits.
     step_inside tail_lend_string tail_return_string tail_reject_reader
       (serialized_metadata_read_terminated_string mem (max_terminated_string_bytes limits))))"

definition take_table_count ::
    "memory \<Rightarrow> SerializedFileMetadataTailField \<Rightarrow> SerializedFileMetadataTailLimit \<Rightarrow> u64 \<Rightarrow> u64 \<Rightarrow>
     (TailScan, SerializedFilePrefixSpan \<times> u64) step" where
  "take_table_count mem field limit allowed replay_capacity =
     step_then (step_modify (\<lambda>scan. scan\<lparr>tail_scan_field := field, tail_scan_row_ordinal := SIZE_MAX\<rparr>)) (\<lambda>_.
     step_then (tail_read (serialized_metadata_read_count mem)) (\<lambda>(source, count).
     step_then (step_require (\<lambda>_. ucast count \<le> allowed)
       (\<lambda>scan. scan\<lparr>tail_scan_result := tail_reject SERIALIZED_FILE_METADATA_TAIL_LIMIT_EXCEEDED limit
          field SIZE_MAX (span_offset source) (tail_scan_result scan)\<rparr>)) (\<lambda>_.
     step_then (step_require (\<lambda>scan. \<not> (replaying scan \<and> ucast count \<noteq> replay_capacity))
       (\<lambda>scan. scan\<lparr>tail_scan_result := tail_reject SERIALIZED_FILE_METADATA_TAIL_MALFORMED_METADATA
          SERIALIZED_FILE_METADATA_TAIL_LIMIT_NONE field SIZE_MAX (span_offset source)
          (tail_scan_result scan)\<rparr>)) (\<lambda>_.
     step_return (source, ucast count)))))"

definition complete_row :: "SerializedFileMetadataTailField \<Rightarrow> u64 \<Rightarrow> (TailScan, unit) step" where
  "complete_row field start =
     step_with (\<lambda>scan. (tail_scan_limits scan, tail_scan_row_ordinal scan)) (\<lambda>(limits, row_ordinal).
     on_tail_result (tail_charge_work limits 1 field row_ordinal start))"

text \<open>Alignment of the metadata-relative position after the file-index word.\<close>

definition script_padding :: "u64 \<Rightarrow> u64" where
  "script_padding position =
     (let remainder = (position - SERIALIZED_FILE_V22_HEADER_SIZE) mod 4
      in if remainder \<noteq> 0 then 4 - remainder else 0)"

definition scan_script :: "memory \<Rightarrow> nat \<Rightarrow> (TailScan, SerializedFileMetadataTailScriptRow) step" where
  "scan_script mem ordinal =
     step_with (reader_position \<circ> tail_scan_reader) (\<lambda>start.
     step_then (step_modify (\<lambda>scan. scan\<lparr>tail_scan_row_ordinal := of_nat ordinal,
       tail_scan_field := SERIALIZED_FILE_METADATA_TAIL_FIELD_SCRIPT_ENTRY\<rparr>)) (\<lambda>_.
     step_then (take_u32 mem) (\<lambda>(index_source, index_bits).
     step_with (reader_position \<circ> tail_scan_reader) (\<lambda>position.
     step_then (tail_set_field SERIALIZED_FILE_METADATA_TAIL_FIELD_SCRIPT_ALIGNMENT) (\<lambda>_.
     step_then (tail_take_bytes (script_padding position)) (\<lambda>alignment.
     step_then (tail_set_field SERIALIZED_FILE_METADATA_TAIL_FIELD_SCRIPT_ENTRY) (\<lambda>_.
     step_then (tail_take_bytes 8) (\<lambda>identifier.
     step_with (reader_endian_selector \<circ> tail_scan_reader) (\<lambda>selector.
     step_then (complete_row SERIALIZED_FILE_METADATA_TAIL_FIELD_SCRIPT_ENTRY start) (\<lambda>_.
     step_with (consumed_span start) (\<lambda>source.
       let row = \<lparr>script_ordinal = of_nat ordinal, script_source = source,
         file_index_source = index_source, alignment_source = alignment,
         local_identifier_source = identifier, file_index_bits = index_bits,
         local_identifier_bits = serialized_metadata_decode_u64 mem (span_data identifier) selector\<rparr>
       in
     step_then (step_modify (\<lambda>scan. scan\<lparr>scan_scripts :=
         map_option (\<lambda>rows. rows[ordinal := row]) (scan_scripts scan)\<rparr>)) (\<lambda>_.
     step_return row))))))))))))"

definition scan_external :: "memory \<Rightarrow> nat \<Rightarrow> (TailScan, SerializedFileMetadataTailExternalRow) step" where
  "scan_external mem ordinal =
     step_with (reader_position \<circ> tail_scan_reader) (\<lambda>start.
     step_then (step_modify (\<lambda>scan. scan\<lparr>tail_scan_row_ordinal := of_nat ordinal\<rparr>)) (\<lambda>_.
     step_then (take_string mem SERIALIZED_FILE_METADATA_TAIL_FIELD_EXTERNAL_LEADING_STRING) (\<lambda>leading.
     step_then (tail_set_field SERIALIZED_FILE_METADATA_TAIL_FIELD_EXTERNAL_GUID) (\<lambda>_.
     step_then (tail_take_bytes 16) (\<lambda>guid.
     step_with (reader_endian_selector \<circ> tail_scan_reader) (\<lambda>selector.
     step_then (tail_set_field SERIALIZED_FILE_METADATA_TAIL_FIELD_EXTERNAL_TYPE) (\<lambda>_.
     step_then (take_u32 mem) (\<lambda>(type_at, bits).
     step_then (take_string mem SERIALIZED_FILE_METADATA_TAIL_FIELD_EXTERNAL_PATH) (\<lambda>path.
     step_then (complete_row SERIALIZED_FILE_METADATA_TAIL_FIELD_EXTERNAL_ENTRY start) (\<lambda>_.
     step_with (consumed_span start) (\<lambda>source.
       let row = \<lparr>external_ordinal = of_nat ordinal, external_source = source,
         leading_string_source = leading, guid_source = guid, external_type_source = type_at,
         path_source = path,
         guid_words = map (\<lambda>word. serialized_metadata_decode_u32 mem (span_data guid + of_nat (word * 4)) selector)
           [0..<4],
         type_bits = bits\<rparr>
       in
     step_then (step_modify (\<lambda>scan. scan\<lparr>scan_externals :=
         map_option (\<lambda>rows. rows[ordinal := row]) (scan_externals scan)\<rparr>)) (\<lambda>_.
     step_return row))))))))))))"

definition scan_reference_tree ::
    "memory \<Rightarrow> SerializedFileMetadataTailReferenceTypeRow \<Rightarrow>
     (TailScan, SerializedFileMetadataTailReferenceTypeRow) step" where
  "scan_reference_tree mem row =
     step_then (tail_set_field SERIALIZED_FILE_METADATA_TAIL_FIELD_TREE) (\<lambda>_.
     step_then (step_inside tail_lend_tree tail_return_tree tail_reject_reader
         (serialized_metadata_read_tree mem)) (\<lambda>tree.
     step_then (take_string mem SERIALIZED_FILE_METADATA_TAIL_FIELD_REFERENCE_CLASS_NAME) (\<lambda>class_name.
     step_then (take_string mem SERIALIZED_FILE_METADATA_TAIL_FIELD_REFERENCE_NAMESPACE) (\<lambda>namespace.
     step_then (take_string mem SERIALIZED_FILE_METADATA_TAIL_FIELD_REFERENCE_ASSEMBLY_NAME) (\<lambda>assembly.
     step_return (row\<lparr>reference_tree := tree, class_name_source := class_name,
       namespace_source := namespace, assembly_name_source := assembly\<rparr>))))))"

definition scan_reference_type ::
    "memory \<Rightarrow> nat \<Rightarrow> (TailScan, SerializedFileMetadataTailReferenceTypeRow) step" where
  "scan_reference_type mem ordinal =
     step_with (reader_position \<circ> tail_scan_reader) (\<lambda>start.
     step_with (\<lambda>scan. type_tree_enabled_raw (view_prefix (tail_directory (tail_scan_view scan))) \<noteq> 0) (\<lambda>tree.
     step_then (step_modify (\<lambda>scan. scan\<lparr>tail_scan_row_ordinal := of_nat ordinal,
       tail_scan_field := SERIALIZED_FILE_METADATA_TAIL_FIELD_REFERENCE_TYPE_ENTRY\<rparr>)) (\<lambda>_.
     step_then (tail_read (serialized_metadata_read_type_prefix mem)) (\<lambda>prefix.
       let row = \<lparr>reference_ordinal = of_nat ordinal, reference_source = absent_span,
         reference_prefix = prefix, reference_has_tree = tree, reference_tree = absent_tree,
         class_name_source = absent_span, namespace_source = absent_span,
         assembly_name_source = absent_span\<rparr>
       in
     step_then (if tree then scan_reference_tree mem row else step_return row) (\<lambda>row.
     step_then (complete_row SERIALIZED_FILE_METADATA_TAIL_FIELD_REFERENCE_TYPE_ENTRY start) (\<lambda>_.
     step_with (consumed_span start) (\<lambda>source.
       let row = row\<lparr>reference_source := source\<rparr> in
     step_then (step_modify (\<lambda>scan. scan\<lparr>scan_reference_types :=
         map_option (\<lambda>rows. rows[ordinal := row]) (scan_reference_types scan)\<rparr>)) (\<lambda>_.
     step_return row))))))))"

text \<open>What one pass found: the spans it stored in the view and the rows.\<close>

record TailSections =
  found_script_count :: SerializedFilePrefixSpan
  found_scripts :: SerializedFilePrefixSpan
  found_external_count :: SerializedFilePrefixSpan
  found_externals :: SerializedFilePrefixSpan
  found_reference_count :: SerializedFilePrefixSpan
  found_references :: SerializedFilePrefixSpan
  found_user_information :: SerializedFilePrefixSpan
  found_source :: SerializedFilePrefixSpan
  found_script_rows :: "SerializedFileMetadataTailScriptRow list"
  found_external_rows :: "SerializedFileMetadataTailExternalRow list"
  found_reference_rows :: "SerializedFileMetadataTailReferenceTypeRow list"

text \<open>One table: its count, which goes to the view, its rows and the span over the rows.\<close>

definition scan_table ::
    "memory \<Rightarrow> SerializedFileMetadataTailField \<Rightarrow> SerializedFileMetadataTailLimit \<Rightarrow>
     (SerializedFileMetadataTailLimits \<Rightarrow> u64) \<Rightarrow> (TailScan \<Rightarrow> u64) \<Rightarrow>
     (SerializedFilePrefixSpan \<Rightarrow> u64 \<Rightarrow> SerializedFileMetadataTailView \<Rightarrow> SerializedFileMetadataTailView) \<Rightarrow>
     (nat \<Rightarrow> (TailScan, 'row) step) \<Rightarrow>
     (SerializedFilePrefixSpan \<Rightarrow> SerializedFileMetadataTailView \<Rightarrow> SerializedFileMetadataTailView) \<Rightarrow>
     (TailScan, SerializedFilePrefixSpan \<times> SerializedFilePrefixSpan \<times> 'row list) step" where
  "scan_table mem field limit cap_of capacity_of store_count row store_rows =
     step_with (\<lambda>scan. (cap_of (tail_scan_limits scan), capacity_of scan)) (\<lambda>(allowed, capacity).
     step_then (take_table_count mem field limit allowed capacity) (\<lambda>(count_source, count).
     step_then (step_modify (\<lambda>scan. scan\<lparr>tail_scan_view := store_count count_source count (tail_scan_view scan)\<rparr>))
       (\<lambda>_.
     step_with (reader_position \<circ> tail_scan_reader) (\<lambda>start.
     step_then (scan_rows row 0 (unat count)) (\<lambda>rows.
     step_with (consumed_span start) (\<lambda>rows_source.
     step_then (step_modify (\<lambda>scan. scan\<lparr>tail_scan_view := store_rows rows_source (tail_scan_view scan)\<rparr>)) (\<lambda>_.
     step_return (count_source, rows_source, rows))))))))"

abbreviation scan_script_table where
  "scan_script_table mem \<equiv>
     scan_table mem SERIALIZED_FILE_METADATA_TAIL_FIELD_SCRIPT_COUNT
       SERIALIZED_FILE_METADATA_TAIL_LIMIT_SCRIPTS max_scripts script_capacity
       (\<lambda>source count view. view\<lparr>script_count_source := source, script_count := count\<rparr>)
       (scan_script mem) (\<lambda>source view. view\<lparr>script_rows_source := source\<rparr>)"

abbreviation scan_external_table where
  "scan_external_table mem \<equiv>
     scan_table mem SERIALIZED_FILE_METADATA_TAIL_FIELD_EXTERNAL_COUNT
       SERIALIZED_FILE_METADATA_TAIL_LIMIT_EXTERNALS max_externals external_capacity
       (\<lambda>source count view. view\<lparr>external_count_source := source, external_count := count\<rparr>)
       (scan_external mem) (\<lambda>source view. view\<lparr>external_rows_source := source\<rparr>)"

abbreviation scan_reference_table where
  "scan_reference_table mem \<equiv>
     scan_table mem SERIALIZED_FILE_METADATA_TAIL_FIELD_REFERENCE_TYPE_COUNT
       SERIALIZED_FILE_METADATA_TAIL_LIMIT_REFERENCE_TYPES max_reference_types reference_type_capacity
       (\<lambda>source count view. view\<lparr>reference_type_count_source := source, reference_type_count := count\<rparr>)
       (scan_reference_type mem) (\<lambda>source view. view\<lparr>reference_type_rows_source := source\<rparr>)"

definition scan_tail :: "memory \<Rightarrow> (TailScan, TailSections) step" where
  "scan_tail mem =
     step_with (reader_position \<circ> tail_scan_reader) (\<lambda>start.
     step_then (scan_script_table mem) (\<lambda>(script_count_at, scripts_at, scripts).
     step_then (scan_external_table mem) (\<lambda>(external_count_at, externals_at, externals).
     step_then (scan_reference_table mem) (\<lambda>(reference_count_at, references_at, references).
     step_then (step_modify (\<lambda>scan. scan\<lparr>tail_scan_row_ordinal := SIZE_MAX\<rparr>)) (\<lambda>_.
     step_then (take_string mem SERIALIZED_FILE_METADATA_TAIL_FIELD_USER_INFORMATION) (\<lambda>user.
     step_then (step_modify (\<lambda>scan. scan\<lparr>tail_scan_view :=
         (tail_scan_view scan)\<lparr>user_information_source := user\<rparr>\<rparr>)) (\<lambda>_.
     step_then (step_require
         (\<lambda>scan. reader_position (tail_scan_reader scan) = reader_metadata_end (tail_scan_reader scan))
         (\<lambda>scan. scan\<lparr>tail_scan_result := tail_reject SERIALIZED_FILE_METADATA_TAIL_MALFORMED_METADATA
            SERIALIZED_FILE_METADATA_TAIL_LIMIT_NONE SERIALIZED_FILE_METADATA_TAIL_FIELD_EXHAUSTION SIZE_MAX
            (reader_position (tail_scan_reader scan)) (tail_scan_result scan)\<rparr>)) (\<lambda>_.
     step_with (consumed_span start) (\<lambda>source.
     step_then (step_modify (\<lambda>scan. scan\<lparr>tail_scan_view :=
         (tail_scan_view scan)\<lparr>tail_source := source\<rparr>\<rparr>)) (\<lambda>_.
     step_return
       \<lparr>found_script_count = script_count_at, found_scripts = scripts_at,
        found_external_count = external_count_at, found_externals = externals_at,
        found_reference_count = reference_count_at, found_references = references_at,
        found_user_information = user, found_source = source, found_script_rows = scripts,
        found_external_rows = externals, found_reference_rows = references\<rparr>))))))))))"

section \<open>Storage and ownership\<close>

definition tail_plan_layout :: "SerializedFileMetadataTailView \<Rightarrow> TailLayout option" where
  "tail_plan_layout view =
     (case serialized_file_storage_append_array_internal sizeof_tail_storage alignof_row
             (script_count view) sizeof_script_row of
        None \<Rightarrow> None
      | Some (planned, scripts_at) \<Rightarrow>
          (case serialized_file_storage_append_array_internal planned alignof_row
                  (external_count view) sizeof_external_row of
             None \<Rightarrow> None
           | Some (planned, externals_at) \<Rightarrow>
               (case serialized_file_storage_append_array_internal planned alignof_row
                       (reference_type_count view) sizeof_reference_type_row of
                  None \<Rightarrow> None
                | Some (planned, references_at) \<Rightarrow>
                    Some \<lparr>scripts_offset = scripts_at, externals_offset = externals_at,
                      reference_types_offset = references_at, tail_total_bytes = planned\<rparr>)))"

definition tail_plan_storage ::
    "SerializedFileMetadataTailLimits \<Rightarrow> SerializedFileMetadataTailView \<Rightarrow>
     (SerializedFileMetadataTailResult, TailLayout) step" where
  "tail_plan_storage limits view =
     step_then (charge_owner_work limits 1) (\<lambda>_ result.
       let refuse = tail_reject SERIALIZED_FILE_METADATA_TAIL_LIMIT_EXCEEDED
             SERIALIZED_FILE_METADATA_TAIL_LIMIT_RETAINED_BYTES SERIALIZED_FILE_METADATA_TAIL_FIELD_NONE
             SIZE_MAX SERIALIZED_FILE_PREFIX_NO_OFFSET
       in case tail_plan_layout view of
            None \<Rightarrow> (None, refuse result)
          | Some layout \<Rightarrow>
              (let result = result\<lparr>tail_required_retained_bytes := tail_total_bytes layout\<rparr> in
               if tail_total_bytes layout > tail_max_retained_bytes limits then (None, refuse result)
               else (Some layout, result)))"

definition serialized_file_metadata_tail_init :: "SerializedFileMetadataTail \<Rightarrow> SerializedFileMetadataTail" where
  "serialized_file_metadata_tail_init tail = None"

definition serialized_file_metadata_tail_dispose ::
    "SerializedFileMetadataTail \<Rightarrow> tracker \<Rightarrow> SerializedFileMetadataTail \<times> tracker" where
  "serialized_file_metadata_tail_dispose tail t =
     (case tail of
        None \<Rightarrow> (None, t)
      | Some storage \<Rightarrow>
          (None, mem_free (Some (tail_storage_cells storage)) (tail_retained_bytes (tail_storage_view storage)) t))"

definition tail_start_view :: "SerializedFileDirectoryView \<Rightarrow> SerializedFileMetadataTailView" where
  "tail_start_view parent =
     (let none = \<lparr>span_data = 0, span_offset = 0, span_size = 0\<rparr> in
      \<lparr>tail_directory = parent, tail_source = none, script_count_source = none, script_rows_source = none,
       external_count_source = none, external_rows_source = none, reference_type_count_source = none,
       reference_type_rows_source = none, user_information_source = none, script_count = 0,
       external_count = 0, reference_type_count = 0, tail_node_record_count = 0,
       tree_string_byte_count = 0, terminated_string_byte_count = 0, tail_retained_bytes = 0\<rparr>)"

definition tail_start_scan ::
    "pointer \<Rightarrow> u64 \<Rightarrow> SerializedFileMetadataTailLimits \<Rightarrow> SerializedFileDirectoryView \<Rightarrow>
     SerializedFileMetadataTailResult \<Rightarrow> TailScan" where
  "tail_start_scan bytes mapped_size limits parent result =
     \<lparr>tail_scan_limits = limits, tail_scan_result = result, tail_scan_view = tail_start_view parent,
      tail_scan_reader =
        \<lparr>reader_bytes = bytes, reader_mapped_size = mapped_size,
         reader_metadata_end = range_offset (metadata_to_data_gap (header (view_prefix parent))),
         reader_byte_budget_origin = range_offset (view_remaining_metadata parent),
         reader_max_bytes = max_tail_bytes limits, reader_max_work = tail_max_work limits,
         reader_work_used = tail_work_used result,
         reader_position = range_offset (view_remaining_metadata parent),
         reader_endian_selector = endian_selector (header (view_prefix parent)),
         reader_status = SERIALIZED_METADATA_READ_OK, reader_error_offset = 0\<rparr>,
      tail_scan_field = SERIALIZED_FILE_METADATA_TAIL_FIELD_NONE, tail_scan_row_ordinal = 0,
      scan_scripts = None, scan_externals = None, scan_reference_types = None, script_capacity = 0,
      external_capacity = 0, reference_type_capacity = 0, replaying = False\<rparr>"

definition tail_restart_scan ::
    "SerializedFileDirectoryView \<Rightarrow> SerializedFileMetadataTailScriptRow list \<Rightarrow>
     SerializedFileMetadataTailExternalRow list \<Rightarrow> SerializedFileMetadataTailReferenceTypeRow list \<Rightarrow>
     SerializedFileMetadataTailResult \<Rightarrow> TailScan \<Rightarrow> TailScan" where
  "tail_restart_scan parent scripts externals references result scan =
     scan\<lparr>tail_scan_result := result, script_capacity := script_count (tail_scan_view scan),
       external_capacity := external_count (tail_scan_view scan),
       reference_type_capacity := reference_type_count (tail_scan_view scan),
       tail_scan_view := tail_start_view parent,
       tail_scan_reader :=
         (tail_scan_reader scan)\<lparr>reader_position := range_offset (view_remaining_metadata parent)\<rparr>,
       scan_scripts := Some scripts, scan_externals := Some externals,
       scan_reference_types := Some references, replaying := True\<rparr>"

definition zero_span :: SerializedFilePrefixSpan where
  "zero_span = \<lparr>span_data = 0, span_offset = 0, span_size = 0\<rparr>"

definition zero_script_row :: SerializedFileMetadataTailScriptRow where
  "zero_script_row =
     \<lparr>script_ordinal = 0, script_source = zero_span, file_index_source = zero_span,
      alignment_source = zero_span, local_identifier_source = zero_span, file_index_bits = 0,
      local_identifier_bits = 0\<rparr>"

definition zero_external_row :: SerializedFileMetadataTailExternalRow where
  "zero_external_row =
     \<lparr>external_ordinal = 0, external_source = zero_span, leading_string_source = zero_span,
      guid_source = zero_span, external_type_source = zero_span, path_source = zero_span,
      guid_words = [0, 0, 0, 0], type_bits = 0\<rparr>"

definition zero_reference_type_row :: SerializedFileMetadataTailReferenceTypeRow where
  "zero_reference_type_row =
     \<lparr>reference_ordinal = 0, reference_source = zero_span, reference_prefix = type_prefix zero_type_row,
      reference_has_tree = False, reference_tree = type_tree zero_type_row, class_name_source = zero_span,
      namespace_source = zero_span, assembly_name_source = zero_span\<rparr>"

text \<open>The replay into zeroed arrays of the counted sizes, and the view and rows it stores.\<close>

definition tail_replay ::
    "memory \<Rightarrow> SerializedFileDirectoryView \<Rightarrow> TailLayout \<Rightarrow> pointer \<Rightarrow> block \<Rightarrow> TailScan \<Rightarrow>
     (SerializedFileMetadataTailResult, TailStorage) step" where
  "tail_replay mem parent layout address cells scan result =
     (let view = tail_scan_view scan;
          scripts = replicate (unat (script_count view)) zero_script_row;
          externals = replicate (unat (external_count view)) zero_external_row;
          references = replicate (unat (reference_type_count view)) zero_reference_type_row
      in case scan_tail mem (tail_restart_scan parent scripts externals references result scan) of
           (None, scan) \<Rightarrow> (None, tail_scan_result scan)
         | (Some _, scan) \<Rightarrow>
             (Some \<lparr>tail_storage_address = address, tail_storage_cells = cells,
                tail_storage_view =
                  (tail_scan_view scan)\<lparr>tail_retained_bytes := tail_total_bytes layout\<rparr>,
                storage_scripts = the (scan_scripts scan), storage_externals = the (scan_externals scan),
                storage_reference_types = the (scan_reference_types scan)\<rparr>,
              tail_scan_result scan))"

text \<open>The build behind an accepted parent: count, plan, pay, allocate, replay and publish.\<close>

definition build_tail ::
    "memory \<Rightarrow> (nat \<Rightarrow> pointer) \<Rightarrow> allocator \<Rightarrow> pointer \<Rightarrow> u64 \<Rightarrow> SerializedFileMetadataTailLimits \<Rightarrow>
     SerializedFileDirectoryView \<Rightarrow> SerializedFileMetadataTailResult \<Rightarrow> tracker \<Rightarrow>
     SerializedFileMetadataTailResult \<times> SerializedFileMetadataTail \<times> tracker" where
  "build_tail mem place grants bytes mapped_size limits parent result t =
     (case scan_tail mem (tail_start_scan bytes mapped_size limits parent result) of
        (None, scan) \<Rightarrow> (tail_scan_result scan, None, t)
      | (Some _, scan) \<Rightarrow>
          (case tail_plan_storage limits (tail_scan_view scan) (tail_scan_result scan) of
             (None, result) \<Rightarrow> (result, None, t)
           | (Some layout, result) \<Rightarrow>
               (case charge_owner_work limits (tail_total_bytes layout) result of
                  (None, result) \<Rightarrow> (result, None, t)
                | (Some _, result) \<Rightarrow>
                    (case mem_alloc grants (tail_total_bytes layout) t of
                       (None, t) \<Rightarrow>
                         (result\<lparr>tail_status := SERIALIZED_FILE_METADATA_TAIL_ALLOCATION_FAILED\<rparr>, None, t)
                     | (Some cells, t') \<Rightarrow>
                         (case step_then
                                 (tail_replay mem parent layout (place (allocator_calls t)) cells scan)
                                 (\<lambda>storage. step_then (charge_owner_work limits 1) (\<lambda>_. step_return storage))
                                 (result\<lparr>tail_peak_retained_bytes := tail_total_bytes layout\<rparr>) of
                            (None, result) \<Rightarrow>
                              (result, None, mem_free (Some cells) (tail_total_bytes layout) t')
                          | (Some storage, result) \<Rightarrow> (result, Some storage, t'))))))"

text \<open>
  Creation. The handle of the parent directory is at \<open>directory_address\<close> and holds \<open>directory\<close>;
  the input bytes are those the parent was built over.
\<close>

definition serialized_file_metadata_tail_create ::
    "memory \<Rightarrow> (nat \<Rightarrow> pointer) \<Rightarrow> allocator \<Rightarrow> pointer \<Rightarrow> SerializedFileDirectory \<Rightarrow> pointer \<Rightarrow> u64 \<Rightarrow> u64 \<Rightarrow>
     pointer \<Rightarrow> SerializedFileMetadataTailLimits \<Rightarrow> pointer \<Rightarrow> SerializedFileMetadataTail \<Rightarrow> tracker \<Rightarrow>
     SerializedFileMetadataTailResult \<times> SerializedFileMetadataTail \<times> tracker" where
  "serialized_file_metadata_tail_create mem place grants directory_address directory bytes mapped_size
       logical_size limits_address limits out_address out t =
     (let failed = (\<lambda>status. tail_initial_result\<lparr>tail_status := status\<rparr>) in
      if \<not> tail_valid_arguments directory_address bytes mapped_size logical_size limits_address out_address
      then (failed SERIALIZED_FILE_METADATA_TAIL_INVALID_ARGUMENT, out, t)
      else
        (case serialized_file_directory_storage_range_internal directory of
           None \<Rightarrow> (failed SERIALIZED_FILE_METADATA_TAIL_INVALID_STATE, out, t)
         | Some (parent_storage, parent_storage_size) \<Rightarrow>
             if \<not> parent_storage_disjoint parent_storage parent_storage_size directory_address bytes
                    mapped_size limits_address out_address
             then (failed SERIALIZED_FILE_METADATA_TAIL_INVALID_ARGUMENT, out, t)
             else if out \<noteq> None then (failed SERIALIZED_FILE_METADATA_TAIL_INVALID_STATE, out, t)
             else
               (case charge_owner_work limits 1 tail_initial_result of
                  (None, result) \<Rightarrow> (result, out, t)
                | (Some _, result) \<Rightarrow>
                    (let parent = the (serialized_file_directory_view directory);
                         head = header (view_prefix parent)
                     in if bytes \<noteq> span_data (header_source head) \<or> logical_size \<noteq> file_size head
                        then (result\<lparr>tail_status := SERIALIZED_FILE_METADATA_TAIL_SOURCE_MISMATCH\<rparr>, out, t)
                        else build_tail mem place grants bytes mapped_size limits parent result t))))"

definition serialized_file_metadata_tail_view ::
    "SerializedFileMetadataTail \<Rightarrow> SerializedFileMetadataTailView option" where
  "serialized_file_metadata_tail_view tail = map_option tail_storage_view tail"

definition serialized_file_metadata_tail_script ::
    "SerializedFileMetadataTail \<Rightarrow> u64 \<Rightarrow> SerializedFileMetadataTailScriptRow option" where
  "serialized_file_metadata_tail_script tail ordinal =
     (case tail of
        None \<Rightarrow> None
      | Some storage \<Rightarrow>
          if ordinal < script_count (tail_storage_view storage)
          then Some (storage_scripts storage ! unat ordinal) else None)"

definition serialized_file_metadata_tail_external ::
    "SerializedFileMetadataTail \<Rightarrow> u64 \<Rightarrow> SerializedFileMetadataTailExternalRow option" where
  "serialized_file_metadata_tail_external tail ordinal =
     (case tail of
        None \<Rightarrow> None
      | Some storage \<Rightarrow>
          if ordinal < external_count (tail_storage_view storage)
          then Some (storage_externals storage ! unat ordinal) else None)"

definition serialized_file_metadata_tail_reference_type ::
    "SerializedFileMetadataTail \<Rightarrow> u64 \<Rightarrow> SerializedFileMetadataTailReferenceTypeRow option" where
  "serialized_file_metadata_tail_reference_type tail ordinal =
     (case tail of
        None \<Rightarrow> None
      | Some storage \<Rightarrow>
          if ordinal < reference_type_count (tail_storage_view storage)
          then Some (storage_reference_types storage ! unat ordinal) else None)"

definition serialized_file_metadata_tail_storage_range_internal ::
    "SerializedFileMetadataTail \<Rightarrow> (pointer \<times> u64) option" where
  "serialized_file_metadata_tail_storage_range_internal tail =
     map_option (\<lambda>storage. (tail_storage_address storage, tail_retained_bytes (tail_storage_view storage))) tail"

end
