(* ===== verification/MetadataTailScan.thy ===== *)
theory MetadataTailScan
  imports MetadataTail
begin

text \<open>
  What a pass over the metadata tail does: its grammar without caps or machine arithmetic, and
  the proof that a pass meters it.
\<close>

section \<open>The gauge of the scan\<close>

record TailContext =
  tail_frame :: frame
  context_tail_limits :: SerializedFileMetadataTailLimits
  context_directory :: SerializedFileDirectoryView
  tail_capacities :: "u64 \<times> u64 \<times> u64"
  context_replaying :: bool

definition tail_context :: "TailScan \<Rightarrow> TailContext" where
  "tail_context s =
     \<lparr>tail_frame = reader_frame (tail_scan_reader s), context_tail_limits = tail_scan_limits s,
      context_directory = tail_directory (tail_scan_view s),
      tail_capacities = (script_capacity s, external_capacity s, reference_type_capacity s),
      context_replaying = replaying s\<rparr>"

fun tail_level :: "TailScan \<Rightarrow> usage" where
  "tail_level s Bytes = unat (reader_position (tail_scan_reader s))"
| "tail_level s Work = unat (tail_work_used (tail_scan_result s))"
| "tail_level s Nodes = unat (tail_node_record_count (tail_scan_view s))"
| "tail_level s Strings = unat (tree_string_byte_count (tail_scan_view s))"
| "tail_level s Words = 0"
| "tail_level s Terminated = unat (terminated_string_byte_count (tail_scan_view s))"

fun tail_cap :: "u64 \<Rightarrow> TailScan \<Rightarrow> usage" where
  "tail_cap limit s Bytes = reader_cap (tail_scan_reader s) Bytes"
| "tail_cap limit s Work = reader_cap (tail_scan_reader s) Work"
| "tail_cap limit s Nodes = unat (tail_max_node_records (tail_scan_limits s))"
| "tail_cap limit s Strings = unat (max_tree_string_bytes (tail_scan_limits s))"
| "tail_cap limit s Words = 0"
| "tail_cap limit s Terminated = unat limit"

text \<open>The cap on terminated bytes is passed to the reader by value, so the gauge is told it.\<close>

definition tail_gauge :: "u64 \<Rightarrow> (TailScan, TailContext) gauge" where
  "tail_gauge limit =
     \<lparr>level = tail_level, cap = tail_cap limit, env = tail_context,
      failed = (\<lambda>s. tail_status (tail_scan_result s) \<noteq> SERIALIZED_FILE_METADATA_TAIL_OK),
      sound = (\<lambda>s. reader_byte_budget_origin (tail_scan_reader s) \<le> reader_position (tail_scan_reader s) \<and>
        reader_max_work (tail_scan_reader s) = tail_max_work (tail_scan_limits s))\<rparr>"

lemma tail_gauge_simps [simp]:
  "level (tail_gauge limit) = tail_level" "cap (tail_gauge limit) = tail_cap limit"
  "env (tail_gauge limit) = tail_context"
  "failed (tail_gauge limit) s \<longleftrightarrow> tail_status (tail_scan_result s) \<noteq> SERIALIZED_FILE_METADATA_TAIL_OK"
  "sound (tail_gauge limit) s \<longleftrightarrow>
     reader_byte_budget_origin (tail_scan_reader s) \<le> reader_position (tail_scan_reader s) \<and>
     reader_max_work (tail_scan_reader s) = tail_max_work (tail_scan_limits s)"
  by (simp_all add: tail_gauge_def)

lemma tail_within:
  "within (tail_gauge limit) s \<Longrightarrow>
     tail_work_used (tail_scan_result s) \<le> tail_max_work (tail_scan_limits s)"
  by (auto simp: within_def all_resources word_le_nat_alt)

lemma tail_read_failure_not_ok [simp]:
  "fst (tail_read_failure status) \<noteq> SERIALIZED_FILE_METADATA_TAIL_OK"
  by (cases status) (simp_all add: tail_read_failure_def)

lemma tail_reject_simps [simp]:
  "tail_work_used (tail_reject status limit field row offset r) = tail_work_used r"
  "tail_status (tail_reject status limit field row offset r) = status"
  by (simp_all add: tail_reject_def)

lemma tail_reject_reader_simps [simp]:
  "tail_scan_reader (tail_reject_reader s) = tail_scan_reader s"
  "tail_scan_view (tail_reject_reader s) = tail_scan_view s"
  "tail_scan_limits (tail_reject_reader s) = tail_scan_limits s"
  "tail_work_used (tail_scan_result (tail_reject_reader s)) = tail_work_used (tail_scan_result s)"
  "tail_status (tail_scan_result (tail_reject_reader s)) \<noteq> SERIALIZED_FILE_METADATA_TAIL_OK"
  by (cases "reader_status (tail_scan_reader s)";
      simp add: tail_reject_reader_def tail_read_failure_def)+

lemma tail_context_fields:
  assumes "tail_context s = ctx"
  shows "reader_frame (tail_scan_reader s) = tail_frame ctx" "tail_scan_limits s = context_tail_limits ctx"
    "tail_directory (tail_scan_view s) = context_directory ctx"
    "script_capacity s = fst (tail_capacities ctx)"
    "external_capacity s = fst (snd (tail_capacities ctx))"
    "reference_type_capacity s = snd (snd (tail_capacities ctx))"
    "replaying s = context_replaying ctx"
    "reader_bytes (tail_scan_reader s) = fst (tail_frame ctx)"
    "reader_endian_selector (tail_scan_reader s) = fst (snd (tail_frame ctx))"
    "reader_metadata_end (tail_scan_reader s) = fst (snd (snd (tail_frame ctx)))"
  using assms by (auto simp: tail_context_def reader_frame_def)

interpretation tail_reader: owner reader_gauge "tail_gauge limit" "{Bytes, Work}"
  tail_lend_reader tail_return_reader tail_reject_reader tail_frame
  for limit
proof
  fix r p s
  show "r \<notin> {Bytes, Work} \<Longrightarrow> level reader_gauge p r = 0" by (cases r) simp_all
  show "r \<in> {Bytes, Work} \<Longrightarrow> level reader_gauge (tail_lend_reader s) r = level (tail_gauge limit) s r"
    "r \<in> {Bytes, Work} \<Longrightarrow> cap reader_gauge (tail_lend_reader s) r = cap (tail_gauge limit) s r"
    by (auto simp: tail_lend_reader_def)
  show "sound (tail_gauge limit) s \<Longrightarrow> sound reader_gauge (tail_lend_reader s)" by (simp add: tail_lend_reader_def)
  show "env reader_gauge (tail_lend_reader s) = tail_frame (env (tail_gauge limit) s)"
    by (simp add: tail_lend_reader_def tail_context_def)
  show "level (tail_gauge limit) (tail_return_reader p s) =
      (\<lambda>r. if r \<in> {Bytes, Work} then level reader_gauge p r else level (tail_gauge limit) s r)"
    by (simp add: usage_eq tail_return_reader_def)
  show "env reader_gauge p = env reader_gauge (tail_lend_reader s) \<Longrightarrow>
      env (tail_gauge limit) (tail_return_reader p s) = env (tail_gauge limit) s"
    by (simp add: tail_lend_reader_def tail_return_reader_def tail_context_def)
  show "failed (tail_gauge limit) (tail_return_reader p s) = failed (tail_gauge limit) s"
    by (simp add: tail_return_reader_def)
  show "unseen (tail_gauge limit) s (tail_reject_reader s)" by (simp add: unseen_def usage_eq)
  show "failed (tail_gauge limit) (tail_reject_reader (tail_return_reader p s))" by simp
  show "cap reader_gauge p = cap reader_gauge (tail_lend_reader s) \<Longrightarrow>
      cap (tail_gauge limit) (tail_return_reader p s) = cap (tail_gauge limit) s"
    using reader_cap_bytes_eq [of p "tail_scan_reader s"]
    by (simp add: tail_lend_reader_def tail_return_reader_def usage_eq)
  show "sound reader_gauge p \<Longrightarrow> cap reader_gauge p = cap reader_gauge (tail_lend_reader s) \<Longrightarrow>
      sound (tail_gauge limit) s \<Longrightarrow> sound (tail_gauge limit) (tail_return_reader p s)"
    using reader_cap_bytes_eq [of p "tail_scan_reader s"]
    by (simp add: tail_lend_reader_def tail_return_reader_def)
qed simp

text \<open>A reader lent with a further counter leaves its own caps as they were.\<close>

lemma lent_caps:
  assumes "reader_cap q Bytes = reader_cap r Bytes" "unat (reader_max_work q) = unat (reader_max_work r)"
  shows "reader_cap q Bytes = reader_cap r Bytes \<and> reader_max_work q = reader_max_work r"
  using assms by (simp add: word_unat_eq_iff)

interpretation tail_tree: owner tree_gauge "tail_gauge limit" "{Bytes, Work, Nodes, Strings}"
  tail_lend_tree tail_return_tree tail_reject_reader tail_frame
  for limit
proof
  fix r s and p :: "SerializedMetadataReader \<times> SerializedMetadataTreeBudget"
  obtain q b where p: "p = (q, b)" by (cases p)
  show "r \<notin> {Bytes, Work, Nodes, Strings} \<Longrightarrow> level tree_gauge p r = 0" by (cases r) (simp_all add: p)
  show "r \<in> {Bytes, Work, Nodes, Strings} \<Longrightarrow> level tree_gauge (tail_lend_tree s) r = level (tail_gauge limit) s r"
    "r \<in> {Bytes, Work, Nodes, Strings} \<Longrightarrow> cap tree_gauge (tail_lend_tree s) r = cap (tail_gauge limit) s r"
    by (auto simp: tail_lend_tree_def tail_lend_reader_def)
  show "sound (tail_gauge limit) s \<Longrightarrow> sound tree_gauge (tail_lend_tree s)"
    by (simp add: tail_lend_tree_def tail_lend_reader_def)
  show "env tree_gauge (tail_lend_tree s) = tail_frame (env (tail_gauge limit) s)"
    by (simp add: tail_lend_tree_def tail_lend_reader_def tail_context_def)
  show "level (tail_gauge limit) (tail_return_tree p s) =
      (\<lambda>r. if r \<in> {Bytes, Work, Nodes, Strings} then level tree_gauge p r else level (tail_gauge limit) s r)"
    by (simp add: usage_eq tail_return_tree_def tail_return_reader_def p)
  show "env tree_gauge p = env tree_gauge (tail_lend_tree s) \<Longrightarrow>
      env (tail_gauge limit) (tail_return_tree p s) = env (tail_gauge limit) s"
    by (simp add: tail_lend_tree_def tail_lend_reader_def tail_return_tree_def tail_return_reader_def
        tail_context_def p)
  show "failed (tail_gauge limit) (tail_return_tree p s) = failed (tail_gauge limit) s"
    by (simp add: tail_return_tree_def tail_return_reader_def p)
  show "unseen (tail_gauge limit) s (tail_reject_reader s)" by (simp add: unseen_def usage_eq)
  show "failed (tail_gauge limit) (tail_reject_reader (tail_return_tree p s))" by simp
  have caps: "reader_cap q Bytes = reader_cap (tail_scan_reader s) Bytes \<and>
      reader_max_work q = reader_max_work (tail_scan_reader s)"
    if "cap tree_gauge p = cap tree_gauge (tail_lend_tree s)"
    using fun_cong [OF that, of Bytes] fun_cong [OF that, of Work]
    by (intro lent_caps) (simp_all add: p tail_lend_tree_def tail_lend_reader_def)
  show "cap tree_gauge p = cap tree_gauge (tail_lend_tree s) \<Longrightarrow>
      cap (tail_gauge limit) (tail_return_tree p s) = cap (tail_gauge limit) s"
    using caps by (simp add: usage_eq tail_return_tree_def tail_return_reader_def p)
  show "sound tree_gauge p \<Longrightarrow> cap tree_gauge p = cap tree_gauge (tail_lend_tree s) \<Longrightarrow>
      sound (tail_gauge limit) s \<Longrightarrow> sound (tail_gauge limit) (tail_return_tree p s)"
    using caps by (simp add: tail_return_tree_def tail_return_reader_def p)
qed simp

interpretation tail_string: owner "string_gauge limit" "tail_gauge limit" "{Bytes, Work, Terminated}"
  tail_lend_string tail_return_string tail_reject_reader tail_frame
  for limit
proof
  fix r s and p :: "SerializedMetadataReader \<times> u64"
  obtain q n where p: "p = (q, n)" by (cases p)
  show "r \<notin> {Bytes, Work, Terminated} \<Longrightarrow> level (string_gauge limit) p r = 0" by (cases r) (simp_all add: p)
  show "r \<in> {Bytes, Work, Terminated} \<Longrightarrow>
      level (string_gauge limit) (tail_lend_string s) r = level (tail_gauge limit) s r"
    "r \<in> {Bytes, Work, Terminated} \<Longrightarrow>
      cap (string_gauge limit) (tail_lend_string s) r = cap (tail_gauge limit) s r"
    by (auto simp: tail_lend_string_def tail_lend_reader_def)
  show "sound (tail_gauge limit) s \<Longrightarrow> sound (string_gauge limit) (tail_lend_string s)"
    by (simp add: tail_lend_string_def tail_lend_reader_def)
  show "env (string_gauge limit) (tail_lend_string s) = tail_frame (env (tail_gauge limit) s)"
    by (simp add: tail_lend_string_def tail_lend_reader_def tail_context_def)
  show "level (tail_gauge limit) (tail_return_string p s) =
      (\<lambda>r. if r \<in> {Bytes, Work, Terminated} then level (string_gauge limit) p r else level (tail_gauge limit) s r)"
    by (simp add: usage_eq tail_return_string_def tail_return_reader_def p)
  show "env (string_gauge limit) p = env (string_gauge limit) (tail_lend_string s) \<Longrightarrow>
      env (tail_gauge limit) (tail_return_string p s) = env (tail_gauge limit) s"
    by (simp add: tail_lend_string_def tail_lend_reader_def tail_return_string_def tail_return_reader_def
        tail_context_def p)
  show "failed (tail_gauge limit) (tail_return_string p s) = failed (tail_gauge limit) s"
    by (simp add: tail_return_string_def tail_return_reader_def p)
  show "unseen (tail_gauge limit) s (tail_reject_reader s)" by (simp add: unseen_def usage_eq)
  show "failed (tail_gauge limit) (tail_reject_reader (tail_return_string p s))" by simp
  have caps: "reader_cap q Bytes = reader_cap (tail_scan_reader s) Bytes \<and>
      reader_max_work q = reader_max_work (tail_scan_reader s)"
    if "cap (string_gauge limit) p = cap (string_gauge limit) (tail_lend_string s)"
    using fun_cong [OF that, of Bytes] fun_cong [OF that, of Work]
    by (intro lent_caps) (simp_all add: p tail_lend_string_def tail_lend_reader_def)
  show "cap (string_gauge limit) p = cap (string_gauge limit) (tail_lend_string s) \<Longrightarrow>
      cap (tail_gauge limit) (tail_return_string p s) = cap (tail_gauge limit) s"
    using caps by (simp add: usage_eq tail_return_string_def tail_return_reader_def p)
  show "sound (string_gauge limit) p \<Longrightarrow> cap (string_gauge limit) p = cap (string_gauge limit) (tail_lend_string s) \<Longrightarrow>
      sound (tail_gauge limit) s \<Longrightarrow> sound (tail_gauge limit) (tail_return_string p s)"
    using caps by (simp add: tail_return_string_def tail_return_reader_def p)
qed simp

section \<open>The grammar of the tail\<close>

abbreviation tail_base :: "TailContext \<Rightarrow> pointer" where
  "tail_base ctx \<equiv> fst (tail_frame ctx)"

abbreviation tail_selector :: "TailContext \<Rightarrow> u8" where
  "tail_selector ctx \<equiv> fst (snd (tail_frame ctx))"

abbreviation tail_extent :: "TailContext \<Rightarrow> nat" where
  "tail_extent ctx \<equiv> unat (fst (snd (snd (tail_frame ctx))))"

definition tail_span :: "TailContext \<Rightarrow> nat \<Rightarrow> nat \<Rightarrow> SerializedFilePrefixSpan" where
  "tail_span ctx p q = mapped_span (tail_base ctx) (of_nat p) (of_nat q - of_nat p)"

text \<open>A script identifier: a file index, padding to a multiple of four and eight bytes.\<close>

definition g_script :: "memory \<Rightarrow> TailContext \<Rightarrow> nat \<Rightarrow> SerializedFileMetadataTailScriptRow grammar" where
  "g_script mem ctx i =
     g_at (\<lambda>start.
     g_then (g_u32 mem (tail_base ctx) (tail_selector ctx)) (\<lambda>(index_source, index_bits).
     g_at (\<lambda>position.
     g_then (g_take (tail_base ctx) (object_pad 1 position)) (\<lambda>alignment.
     g_then (g_take (tail_base ctx) 8) (\<lambda>identifier.
     g_then (g_use (use Work 1)) (\<lambda>_.
     g_at (\<lambda>stop.
     g_return
       \<lparr>script_ordinal = of_nat i, script_source = tail_span ctx start stop,
        file_index_source = index_source, alignment_source = alignment,
        local_identifier_source = identifier, file_index_bits = index_bits,
        local_identifier_bits =
          serialized_metadata_decode_u64 mem (span_data identifier) (tail_selector ctx)\<rparr>)))))))"

text \<open>An external file: a string, sixteen identifier bytes, a type word and a path.\<close>

definition g_external :: "memory \<Rightarrow> TailContext \<Rightarrow> nat \<Rightarrow> SerializedFileMetadataTailExternalRow grammar" where
  "g_external mem ctx i =
     g_at (\<lambda>start.
     g_then (g_string mem (tail_base ctx) (tail_extent ctx)) (\<lambda>leading.
     g_then (g_take (tail_base ctx) 16) (\<lambda>guid.
     g_then (g_u32 mem (tail_base ctx) (tail_selector ctx)) (\<lambda>(type_at, bits).
     g_then (g_string mem (tail_base ctx) (tail_extent ctx)) (\<lambda>path.
     g_then (g_use (use Work 1)) (\<lambda>_.
     g_at (\<lambda>stop.
     g_return
       \<lparr>external_ordinal = of_nat i, external_source = tail_span ctx start stop,
        leading_string_source = leading, guid_source = guid, external_type_source = type_at,
        path_source = path,
        guid_words = map (\<lambda>word. serialized_metadata_decode_u32 mem (span_data guid + of_nat (word * 4))
          (tail_selector ctx)) [0..<4],
        type_bits = bits\<rparr>)))))))"

definition g_reference_tree ::
    "memory \<Rightarrow> TailContext \<Rightarrow> SerializedFileMetadataTailReferenceTypeRow \<Rightarrow>
     SerializedFileMetadataTailReferenceTypeRow grammar" where
  "g_reference_tree mem ctx row =
     g_then (g_tree mem (tail_base ctx) (tail_selector ctx)) (\<lambda>tree.
     g_then (g_string mem (tail_base ctx) (tail_extent ctx)) (\<lambda>class_name.
     g_then (g_string mem (tail_base ctx) (tail_extent ctx)) (\<lambda>namespace.
     g_then (g_string mem (tail_base ctx) (tail_extent ctx)) (\<lambda>assembly.
     g_return (row\<lparr>reference_tree := tree, class_name_source := class_name,
       namespace_source := namespace, assembly_name_source := assembly\<rparr>)))))"

text \<open>A reference type: a type prefix and, when trees are enabled, a tree and three names.\<close>

definition g_reference ::
    "memory \<Rightarrow> TailContext \<Rightarrow> nat \<Rightarrow> SerializedFileMetadataTailReferenceTypeRow grammar" where
  "g_reference mem ctx i =
     g_at (\<lambda>start.
     g_then (g_type_prefix mem (tail_base ctx) (tail_selector ctx)) (\<lambda>prefix.
       let tree = type_tree_enabled_raw (view_prefix (context_directory ctx)) \<noteq> 0;
           row = \<lparr>reference_ordinal = of_nat i, reference_source = absent_span,
             reference_prefix = prefix, reference_has_tree = tree, reference_tree = absent_tree,
             class_name_source = absent_span, namespace_source = absent_span,
             assembly_name_source = absent_span\<rparr>
       in
     g_then (if tree then g_reference_tree mem ctx row else g_return row) (\<lambda>row.
     g_then (g_use (use Work 1)) (\<lambda>_.
     g_at (\<lambda>stop. g_return (row\<lparr>reference_source := tail_span ctx start stop\<rparr>))))))"

definition g_tail_count ::
    "memory \<Rightarrow> TailContext \<Rightarrow> u64 \<Rightarrow> u64 \<Rightarrow> (SerializedFilePrefixSpan \<times> u64) grammar" where
  "g_tail_count mem ctx allowed capacity =
     g_then (g_count mem (tail_base ctx) (tail_selector ctx)) (\<lambda>(source, count).
     g_then (g_require (ucast count \<le> allowed)) (\<lambda>_.
     g_then (g_require (\<not> (context_replaying ctx \<and> ucast count \<noteq> capacity))) (\<lambda>_.
     g_return (source, ucast count))))"

definition g_tail_table ::
    "memory \<Rightarrow> TailContext \<Rightarrow> u64 \<Rightarrow> u64 \<Rightarrow> (nat \<Rightarrow> 'row grammar) \<Rightarrow>
     (SerializedFilePrefixSpan \<times> SerializedFilePrefixSpan \<times> 'row list) grammar" where
  "g_tail_table mem ctx allowed capacity row =
     g_then (g_tail_count mem ctx allowed capacity) (\<lambda>(source, count).
     g_at (\<lambda>start.
     g_then (g_rows row 0 (unat count)) (\<lambda>rows.
     g_at (\<lambda>stop. g_return (source, tail_span ctx start stop, rows)))))"

definition g_tail :: "memory \<Rightarrow> TailContext \<Rightarrow> TailSections grammar" where
  "g_tail mem ctx =
     g_at (\<lambda>start.
     g_then (g_tail_table mem ctx (max_scripts (context_tail_limits ctx)) (fst (tail_capacities ctx))
         (g_script mem ctx)) (\<lambda>(script_count_at, scripts_at, scripts).
     g_then (g_tail_table mem ctx (max_externals (context_tail_limits ctx)) (fst (snd (tail_capacities ctx)))
         (g_external mem ctx)) (\<lambda>(external_count_at, externals_at, externals).
     g_then (g_tail_table mem ctx (max_reference_types (context_tail_limits ctx)) (snd (snd (tail_capacities ctx)))
         (g_reference mem ctx)) (\<lambda>(reference_count_at, references_at, references).
     g_then (g_string mem (tail_base ctx) (tail_extent ctx)) (\<lambda>user.
     g_then (g_at (\<lambda>p. g_require (p = tail_extent ctx))) (\<lambda>_.
     g_at (\<lambda>stop.
     g_return
       \<lparr>found_script_count = script_count_at, found_scripts = scripts_at,
        found_external_count = external_count_at, found_externals = externals_at,
        found_reference_count = reference_count_at, found_references = references_at,
        found_user_information = user, found_source = tail_span ctx start stop,
        found_script_rows = scripts, found_external_rows = externals,
        found_reference_rows = references\<rparr>)))))))"

section \<open>Every pass meters the grammar\<close>

text \<open>The gauge of a scan under the limits of its context.\<close>

abbreviation tail_meter :: "TailContext \<Rightarrow> (TailScan, TailContext) gauge" where
  "tail_meter ctx \<equiv> tail_gauge (max_terminated_string_bytes (context_tail_limits ctx))"

abbreviation meters_tail :: "TailContext \<Rightarrow> (TailScan, 'a) step \<Rightarrow> 'a grammar \<Rightarrow> bool" where
  "meters_tail ctx m g \<equiv> meters (tail_meter ctx) ctx (\<lambda>_. ctx) m g"

lemma meters_tail_position:
  "(\<And>w. meters_tail ctx (f w) (h (unat w))) \<Longrightarrow>
     meters_tail ctx (step_with (reader_position \<circ> tail_scan_reader) f) (g_at h)"
  by (rule meters_with_position) simp_all

lemma meters_consumed:
  assumes "\<And>w. meters_tail ctx (f (mapped_span (tail_base ctx) start (w - start))) (h (unat w))"
  shows "meters_tail ctx (step_with (consumed_span start) f) (g_at h)"
proof (rule meters_cong)
  show "meters_tail ctx (step_with (reader_position \<circ> tail_scan_reader)
      (\<lambda>w. f (mapped_span (tail_base ctx) start (w - start)))) (g_at h)"
    by (intro meters_tail_position assms)
qed (auto simp: step_with_def consumed_span_def mapped_span_def tail_context_fields)

lemma meters_tail_limits:
  "meters_tail ctx (f (context_tail_limits ctx)) g \<Longrightarrow> meters_tail ctx (step_with tail_scan_limits f) g"
  by (rule meters_with_env) (simp_all add: tail_context_fields)

lemma meters_tail_selector:
  "meters_tail ctx (f (tail_selector ctx)) g \<Longrightarrow>
     meters_tail ctx (step_with (reader_endian_selector \<circ> tail_scan_reader) f) g"
  by (rule meters_with_env) (simp_all add: tail_context_fields)

lemma meters_tail_read:
  "meters reader_gauge (tail_frame ctx) (\<lambda>_. tail_frame ctx) m g \<Longrightarrow> confined {Bytes, Work} g \<Longrightarrow>
     meters_tail ctx (tail_read m) g"
  unfolding tail_read_def by (rule tail_reader.meters_inside)

lemma tail_frame_parts:
  obtains base selector extent where "tail_frame ctx = (base, selector, extent)"
  by (metis surj_pair)

lemma meters_tail_take:
  assumes "unat width = n"
  shows "meters_tail ctx (tail_take_bytes width) (g_take (tail_base ctx) n)"
proof -
  obtain base selector extent where "tail_frame ctx = (base, selector, extent)" by (rule tail_frame_parts)
  then show ?thesis
    unfolding tail_take_bytes_def using meters_take [of base selector extent width] assms
    by (intro meters_tail_read confined_intros) simp_all
qed

lemma meters_tail_u32: "meters_tail ctx (take_u32 mem) (g_u32 mem (tail_base ctx) (tail_selector ctx))"
proof -
  obtain base selector extent where "tail_frame ctx = (base, selector, extent)" by (rule tail_frame_parts)
  then show ?thesis
    unfolding take_u32_def using meters_u32 [of base selector extent mem]
    by (intro meters_tail_read confined_intros) simp_all
qed

lemma meters_tail_read_count:
  "meters_tail ctx (tail_read (serialized_metadata_read_count mem))
     (g_count mem (tail_base ctx) (tail_selector ctx))"
proof -
  obtain base selector extent where "tail_frame ctx = (base, selector, extent)" by (rule tail_frame_parts)
  then show ?thesis
    using meters_count [of base selector extent mem] by (intro meters_tail_read confined_intros) simp_all
qed

lemma meters_tail_prefix:
  "meters_tail ctx (tail_read (serialized_metadata_read_type_prefix mem))
     (g_type_prefix mem (tail_base ctx) (tail_selector ctx))"
proof -
  obtain base selector extent where "tail_frame ctx = (base, selector, extent)" by (rule tail_frame_parts)
  then show ?thesis
    using meters_type_prefix [of base selector extent mem] by (intro meters_tail_read confined_intros) simp_all
qed

lemma meters_tail_tree:
  "meters_tail ctx (step_inside tail_lend_tree tail_return_tree tail_reject_reader (serialized_metadata_read_tree mem))
     (g_tree mem (tail_base ctx) (tail_selector ctx))"
proof -
  obtain base selector extent where "tail_frame ctx = (base, selector, extent)" by (rule tail_frame_parts)
  then show ?thesis
    using meters_tree [of base selector extent mem]
    by (intro tail_tree.meters_inside confined_intros) simp_all
qed

text \<open>Writes to the fields that no counter and no context reads.\<close>

definition tail_silent :: "(TailScan \<Rightarrow> TailScan) \<Rightarrow> bool" where
  "tail_silent f \<longleftrightarrow>
     (\<forall>limit s. unseen (tail_gauge limit) s (f s) \<and> tail_scan_result (f s) = tail_scan_result s \<and>
        tail_context (f s) = tail_context s)"

lemma meters_tail_silent:
  "tail_silent f \<Longrightarrow> meters_tail ctx m g \<Longrightarrow> meters_tail ctx (step_then (step_modify f) (\<lambda>_. m)) g"
  by (rule meters_skip) (auto simp: tail_silent_def)

lemma tail_silent_fields:
  "tail_silent (\<lambda>s. s\<lparr>tail_scan_field := field\<rparr>)"
  "tail_silent (\<lambda>s. s\<lparr>tail_scan_row_ordinal := n\<rparr>)"
  "tail_silent (\<lambda>s. s\<lparr>tail_scan_field := field, tail_scan_row_ordinal := n\<rparr>)"
  "tail_silent (\<lambda>s. s\<lparr>tail_scan_row_ordinal := n, tail_scan_field := field\<rparr>)"
  "tail_silent (\<lambda>s. s\<lparr>scan_scripts := a s\<rparr>)"
  "tail_silent (\<lambda>s. s\<lparr>scan_externals := b s\<rparr>)"
  "tail_silent (\<lambda>s. s\<lparr>scan_reference_types := c s\<rparr>)"
  by (simp_all add: tail_silent_def unseen_def usage_eq tail_context_def)

text \<open>A write to the view that leaves its counters and its copy of the directory alone.\<close>

definition counters_kept :: "(SerializedFileMetadataTailView \<Rightarrow> SerializedFileMetadataTailView) \<Rightarrow> bool" where
  "counters_kept h \<longleftrightarrow>
     (\<forall>v. tail_directory (h v) = tail_directory v \<and> tail_node_record_count (h v) = tail_node_record_count v \<and>
        tree_string_byte_count (h v) = tree_string_byte_count v \<and>
        terminated_string_byte_count (h v) = terminated_string_byte_count v)"

lemma tail_silent_view: "counters_kept h \<Longrightarrow> tail_silent (\<lambda>s. s\<lparr>tail_scan_view := h (tail_scan_view s)\<rparr>)"
  by (simp add: tail_silent_def unseen_def usage_eq tail_context_def counters_kept_def)

lemma tail_rejected:
  "status \<noteq> SERIALIZED_FILE_METADATA_TAIL_OK \<Longrightarrow>
     unseen (tail_gauge limit) s (s\<lparr>tail_scan_result := tail_reject status limit' field row offset (tail_scan_result s)\<rparr>) \<and>
     failed (tail_gauge limit) (s\<lparr>tail_scan_result := tail_reject status limit' field row offset (tail_scan_result s)\<rparr>)"
  by (simp add: unseen_def usage_eq)

lemma meters_take_string:
  "meters_tail ctx (take_string mem field) (g_string mem (tail_base ctx) (tail_extent ctx))"
proof -
  obtain base selector extent origin where frame: "tail_frame ctx = (base, selector, extent, origin)"
    by (metis surj_pair)
  have "meters_tail ctx (step_inside tail_lend_string tail_return_string tail_reject_reader
      (serialized_metadata_read_terminated_string mem (max_terminated_string_bytes (context_tail_limits ctx))))
      (g_string mem (tail_base ctx) (tail_extent ctx))"
    using meters_string [of "max_terminated_string_bytes (context_tail_limits ctx)" base selector extent origin mem]
    by (intro tail_string.meters_inside confined_intros) (simp_all add: frame)
  then show ?thesis
    unfolding take_string_def by (intro meters_tail_silent tail_silent_fields meters_tail_limits)
qed

lemma meters_require_at:
  assumes "\<And>s. env G s = e \<Longrightarrow> guard s \<longleftrightarrow> b (level G s Bytes)"
    and "\<And>s. env G s = e \<Longrightarrow> unseen G s (reject s) \<and> failed G (reject s)"
  shows "meters G e (\<lambda>_. e) (step_require guard reject) (g_at (\<lambda>p. g_require (b p)))"
  using assms
  by (intro metersI) (auto simp: step_require_def g_require_def g_at_def within_affords_no_use within_def
      spends_no_use unseen_def split: if_splits)

lemma on_tail_charge:
  "on_tail_result (tail_charge_work limits amount field row offset) =
     step_then (step_require (\<lambda>s. amount \<le> tail_max_work limits - tail_work_used (tail_scan_result s))
       (\<lambda>s. s\<lparr>tail_scan_result := tail_reject SERIALIZED_FILE_METADATA_TAIL_LIMIT_EXCEEDED
          SERIALIZED_FILE_METADATA_TAIL_LIMIT_WORK field row offset (tail_scan_result s)\<rparr>)) (\<lambda>_.
     step_modify (\<lambda>s. s\<lparr>tail_scan_result := (tail_scan_result s)
       \<lparr>tail_work_used := tail_work_used (tail_scan_result s) + amount\<rparr>\<rparr>))"
  by (auto simp: fun_eq_iff on_tail_result_def tail_charge_work_def step_inside_def step_then_def
      step_require_def step_modify_def split: option.split prod.split)

lemma meters_tail_charge:
  assumes "unat amount = n"
  shows "meters_tail ctx (on_tail_result (tail_charge_work (context_tail_limits ctx) amount field row offset))
    (g_use (use Work n))"
proof -
  have charged: "meters_tail ctx
     (step_then (step_require (\<lambda>s. amount \<le> reader_max_work (tail_scan_reader s) - tail_work_used (tail_scan_result s))
       (\<lambda>s. s\<lparr>tail_scan_result := tail_reject SERIALIZED_FILE_METADATA_TAIL_LIMIT_EXCEEDED
          SERIALIZED_FILE_METADATA_TAIL_LIMIT_WORK field row offset (tail_scan_result s)\<rparr>)) (\<lambda>_.
     step_modify (\<lambda>s. s\<lparr>tail_scan_result := (tail_scan_result s)
       \<lparr>tail_work_used := tail_work_used (tail_scan_result s) + amount\<rparr>\<rparr>))) (g_use (use Work n))"
  proof (rule meters_charge)
    fix s
    assume s: "within (tail_meter ctx) s"
    have le: "tail_work_used (tail_scan_result s) \<le> reader_max_work (tail_scan_reader s)"
      using tail_within [OF s] s by (simp add: within_def)
    show "(amount \<le> reader_max_work (tail_scan_reader s) - tail_work_used (tail_scan_result s)) =
        (level (tail_meter ctx) s Work + n \<le> cap (tail_meter ctx) s Work)"
      using charge_iff [OF le, of amount] assms by simp
    assume "env (tail_meter ctx) s = ctx"
      "amount \<le> reader_max_work (tail_scan_reader s) - tail_work_used (tail_scan_result s)"
    then show "spends (tail_meter ctx) s (use Work n) (s\<lparr>tail_scan_result := (tail_scan_result s)
          \<lparr>tail_work_used := tail_work_used (tail_scan_result s) + amount\<rparr>\<rparr>) \<and>
        env (tail_meter ctx) (s\<lparr>tail_scan_result := (tail_scan_result s)
          \<lparr>tail_work_used := tail_work_used (tail_scan_result s) + amount\<rparr>\<rparr>) = ctx"
      using charge_value [OF le, of amount] s assms
      by (auto simp: spends_def usage_eq within_def tail_context_def)
  qed (rule tail_rejected, simp)
  show ?thesis
    unfolding on_tail_charge
    by (rule meters_cong [OF charged])
      (simp add: step_then_def step_require_def tail_context_fields(2) within_def)
qed

lemma meters_complete_row: "meters_tail ctx (complete_row field start) (g_use (use Work 1))"
proof (rule meters_cong)
  show "meters_tail ctx (step_with tail_scan_row_ordinal (\<lambda>row.
      on_tail_result (tail_charge_work (context_tail_limits ctx) 1 field row start))) (g_use (use Work 1))"
    by (intro meters_with_any meters_tail_charge) simp
qed (simp add: complete_row_def step_with_def tail_context_fields(2))

lemma unat_script_padding: "unat (script_padding position) = object_pad 1 (unat position)"
  using unat_object_padding [of position 1] by (simp add: object_padding_def script_padding_def)

lemma meters_tail_return: "meters_tail ctx (step_return x) (g_return x)"
  by (rule meters_return)

lemmas meters_tail_intros =
  meters_tail_silent tail_silent_fields meters_tail_position meters_consumed meters_tail_selector
  meters_then_same meters_split meters_if meters_tail_return meters_tail_u32 meters_tail_take
  meters_take_string meters_complete_row

lemma meters_scan_script: "meters_tail ctx (scan_script mem i) (g_script mem ctx i)"
  unfolding scan_script_def g_script_def Let_def
  by (intro meters_tail_intros unat_script_padding)
    (auto simp: tail_span_def intro!: meters_tail_silent tail_silent_fields meters_tail_return)

lemma meters_scan_external: "meters_tail ctx (scan_external mem i) (g_external mem ctx i)"
  unfolding scan_external_def g_external_def Let_def
  by (intro meters_tail_intros)
    (auto simp: tail_span_def intro!: meters_tail_silent tail_silent_fields meters_tail_return)

lemma meters_reference_tree: "meters_tail ctx (scan_reference_tree mem row) (g_reference_tree mem ctx row)"
  unfolding scan_reference_tree_def g_reference_tree_def
  by (intro meters_tail_intros meters_tail_tree)

lemma meters_scan_reference: "meters_tail ctx (scan_reference_type mem i) (g_reference mem ctx i)"
proof -
  have flag: "meters_tail ctx (step_with
      (\<lambda>scan. type_tree_enabled_raw (view_prefix (tail_directory (tail_scan_view scan))) \<noteq> 0) f) g"
    if "meters_tail ctx (f (type_tree_enabled_raw (view_prefix (context_directory ctx)) \<noteq> 0)) g"
    for f :: "bool \<Rightarrow> (TailScan, SerializedFileMetadataTailReferenceTypeRow) step" and g
    by (rule meters_with_env [where c = "type_tree_enabled_raw (view_prefix (context_directory ctx)) \<noteq> 0"])
      (simp_all add: tail_context_fields that)
  show ?thesis
    unfolding scan_reference_type_def g_reference_def Let_def
    by (intro meters_tail_intros flag meters_tail_prefix meters_reference_tree)
      (auto simp: tail_span_def intro!: meters_tail_silent tail_silent_fields meters_tail_return)
qed

lemma meters_table_count:
  "meters_tail ctx (take_table_count mem field limit allowed capacity) (g_tail_count mem ctx allowed capacity)"
  unfolding take_table_count_def g_tail_count_def
  by (intro meters_tail_intros meters_tail_read_count meters_require)
    (simp_all only: tail_rejected SerializedFileMetadataTailStatus.distinct not_False_eq_True simp_thms
       tail_gauge_simps(3) tail_context_fields(7))

lemma meters_scan_table:
  assumes row: "\<And>i. meters_tail ctx (row i) (g i)"
    and kept: "\<And>source count. counters_kept (store_count source count)" "\<And>source. counters_kept (store_rows source)"
    and selects: "\<And>s. tail_context s = ctx \<Longrightarrow> cap_of (tail_scan_limits s) = allowed \<and> capacity_of s = capacity"
  shows "meters_tail ctx (scan_table mem field limit cap_of capacity_of store_count row store_rows)
    (g_tail_table mem ctx allowed capacity g)"
proof -
  have select: "meters_tail ctx (step_with (\<lambda>scan. (cap_of (tail_scan_limits scan), capacity_of scan))
      (\<lambda>(a, c). f a c)) h" if "meters_tail ctx (f allowed capacity) h" for f :: "u64 \<Rightarrow> u64 \<Rightarrow> (TailScan, 'b) step" and h
    by (rule meters_with_env [where c = "(allowed, capacity)"]) (simp_all add: selects that)
  show ?thesis
    unfolding scan_table_def g_tail_table_def
    by (intro select meters_then_same meters_table_count meters_split meters_tail_silent tail_silent_view kept
        meters_tail_position meters_rows row meters_consumed)
      (simp add: tail_span_def meters_tail_return)
qed

lemma meters_scan_tail: "meters_tail ctx (scan_tail mem) (g_tail mem ctx)"
proof -
  have tables: "meters_tail ctx (scan_script_table mem) (g_tail_table mem ctx
      (max_scripts (context_tail_limits ctx)) (fst (tail_capacities ctx)) (g_script mem ctx))"
    "meters_tail ctx (scan_external_table mem) (g_tail_table mem ctx
      (max_externals (context_tail_limits ctx)) (fst (snd (tail_capacities ctx))) (g_external mem ctx))"
    "meters_tail ctx (scan_reference_table mem) (g_tail_table mem ctx
      (max_reference_types (context_tail_limits ctx)) (snd (snd (tail_capacities ctx))) (g_reference mem ctx))"
    by (intro meters_scan_table meters_scan_script meters_scan_external meters_scan_reference;
        auto simp: counters_kept_def tail_context_fields)+
  have views: "tail_silent (\<lambda>s. s\<lparr>tail_scan_view := (tail_scan_view s)\<lparr>user_information_source := source\<rparr>\<rparr>)"
    "tail_silent (\<lambda>s. s\<lparr>tail_scan_view := (tail_scan_view s)\<lparr>tail_source := source\<rparr>\<rparr>)" for source
    by (rule tail_silent_view, simp add: counters_kept_def)+
  have ended: "meters_tail ctx (step_require
         (\<lambda>scan. reader_position (tail_scan_reader scan) = reader_metadata_end (tail_scan_reader scan))
         (\<lambda>scan. scan\<lparr>tail_scan_result := tail_reject SERIALIZED_FILE_METADATA_TAIL_MALFORMED_METADATA
            SERIALIZED_FILE_METADATA_TAIL_LIMIT_NONE SERIALIZED_FILE_METADATA_TAIL_FIELD_EXHAUSTION SIZE_MAX
            (reader_position (tail_scan_reader scan)) (tail_scan_result scan)\<rparr>))
      (g_at (\<lambda>p. g_require (p = tail_extent ctx)))"
    by (rule meters_require_at) (simp_all add: tail_rejected tail_context_fields word_unat_eq_iff)
  show ?thesis
    unfolding scan_tail_def g_tail_def
    by (intro meters_tail_position meters_then_same tables meters_split meters_tail_silent tail_silent_fields
        meters_take_string views ended meters_consumed)
      (simp add: tail_span_def, intro meters_tail_silent views meters_tail_return)
qed
end
