(* ===== verification/MetadataTailCreate.thy ===== *)
theory MetadataTailCreate
  imports MetadataTailScan
begin

text \<open>
  Creating, reading and disposing of a metadata tail: what a pass leaves behind, exactly when
  creation succeeds, what it costs, what it publishes and that nothing it allocates is lost.
\<close>

section \<open>What a pass leaves behind\<close>

record TailEffect =
  effect_scripts :: "SerializedFileMetadataTailScriptRow list option"
  effect_externals :: "SerializedFileMetadataTailExternalRow list option"
  effect_references :: "SerializedFileMetadataTailReferenceTypeRow list option"
  effect_tail_view :: SerializedFileMetadataTailView
  effect_tail_fixed :: "(u64 \<times> u64 \<times> u64) \<times> (u64 \<times> u64 \<times> u64)"

definition blank_tail_view :: "SerializedFileMetadataTailView \<Rightarrow> SerializedFileMetadataTailView" where
  "blank_tail_view view = view\<lparr>tail_node_record_count := 0, tree_string_byte_count := 0,
     terminated_string_byte_count := 0\<rparr>"

definition tail_effect :: "TailScan \<Rightarrow> TailEffect" where
  "tail_effect s =
     \<lparr>effect_scripts = scan_scripts s, effect_externals = scan_externals s,
      effect_references = scan_reference_types s, effect_tail_view = blank_tail_view (tail_scan_view s),
      effect_tail_fixed = ((script_capacity s, external_capacity s, reference_type_capacity s),
        (tail_required_retained_bytes (tail_scan_result s), tail_peak_retained_bytes (tail_scan_result s),
         tail_peak_scratch_bytes (tail_scan_result s)))\<rparr>"

abbreviation tail_quiet :: "TailEffect \<Rightarrow> TailScan \<Rightarrow> bool" where
  "tail_quiet e s \<equiv> tail_effect s = e"

lemma tail_effect_simps [simp]:
  "tail_effect (s\<lparr>tail_scan_field := field\<rparr>) = tail_effect s"
  "tail_effect (s\<lparr>tail_scan_row_ordinal := n\<rparr>) = tail_effect s"
  "tail_effect (s\<lparr>scan_scripts := scripts\<rparr>) = (tail_effect s)\<lparr>effect_scripts := scripts\<rparr>"
  "tail_effect (s\<lparr>scan_externals := externals\<rparr>) = (tail_effect s)\<lparr>effect_externals := externals\<rparr>"
  "tail_effect (s\<lparr>scan_reference_types := references\<rparr>) = (tail_effect s)\<lparr>effect_references := references\<rparr>"
  "tail_effect (s\<lparr>tail_scan_view := view\<rparr>) = (tail_effect s)\<lparr>effect_tail_view := blank_tail_view view\<rparr>"
  "tail_effect (s\<lparr>tail_scan_result := tail_reject status limit fld row offset (tail_scan_result s)\<rparr>) = tail_effect s"
  "tail_effect (s\<lparr>tail_scan_result := (tail_scan_result s)\<lparr>tail_work_used := n\<rparr>\<rparr>) = tail_effect s"
  by (simp_all add: tail_effect_def tail_reject_def)

lemma tail_effect_fields [simp]:
  "effect_scripts (tail_effect s) = scan_scripts s" "effect_externals (tail_effect s) = scan_externals s"
  "effect_references (tail_effect s) = scan_reference_types s"
  "effect_tail_view (tail_effect s) = blank_tail_view (tail_scan_view s)"
  by (simp_all add: tail_effect_def)

lemma blank_tail_counters [simp]:
  "blank_tail_view (v\<lparr>tail_node_record_count := n\<rparr>) = blank_tail_view v"
  "blank_tail_view (v\<lparr>tree_string_byte_count := n\<rparr>) = blank_tail_view v"
  "blank_tail_view (v\<lparr>terminated_string_byte_count := n\<rparr>) = blank_tail_view v"
  by (simp_all add: blank_tail_view_def)

lemma tail_effect_view_same [simp]:
  "(tail_effect s)\<lparr>effect_tail_view := blank_tail_view (tail_scan_view s)\<rparr> = tail_effect s"
  by (simp add: tail_effect_def)

lemma quiet_tail_reject: "tail_quiet e s \<Longrightarrow> tail_quiet e (tail_reject_reader s)"
  by (auto simp: tail_reject_reader_def split: prod.split)

lemma quiet_tail_return: "tail_quiet e s \<Longrightarrow> tail_quiet e (tail_return_reader p s)"
  by (auto simp: tail_return_reader_def tail_effect_def)

lemma quiet_tail_return_tree: "tail_quiet e s \<Longrightarrow> tail_quiet e (tail_return_tree p s)"
  by (cases p) (auto simp: tail_return_tree_def intro: quiet_tail_return)

lemma quiet_tail_return_string: "tail_quiet e s \<Longrightarrow> tail_quiet e (tail_return_string p s)"
  by (cases p) (auto simp: tail_return_string_def intro: quiet_tail_return)

lemma quiet_tail_read [step_inv_intros]: "step_keeps (tail_quiet e) (tail_read m)"
  unfolding tail_read_def by (intro step_keeps_inside quiet_tail_reject quiet_tail_return)

lemma quiet_tail_tree [step_inv_intros]:
  "step_keeps (tail_quiet e) (step_inside tail_lend_tree tail_return_tree tail_reject_reader m)"
  by (intro step_keeps_inside quiet_tail_reject quiet_tail_return_tree)

lemma quiet_tail_string [step_inv_intros]:
  "step_keeps (tail_quiet e) (step_inside tail_lend_string tail_return_string tail_reject_reader m)"
  by (intro step_keeps_inside quiet_tail_reject quiet_tail_return_string)

lemma quiet_tail_charge [step_inv_intros]: "step_keeps (tail_quiet e) (complete_row field start)"
  unfolding complete_row_def on_tail_charge by (intro step_inv_intros) auto

lemma quiet_take_string [step_inv_intros]: "step_keeps (tail_quiet e) (take_string mem field)"
  unfolding take_string_def by (intro step_inv_intros) auto

lemma quiet_tail_take [step_inv_intros]:
  "step_keeps (tail_quiet e) (tail_take_bytes width)" "step_keeps (tail_quiet e) (take_u32 mem)"
  unfolding tail_take_bytes_def take_u32_def by (intro step_inv_intros)+

lemma quiet_reference_tree [step_inv_intros]: "step_keeps (tail_quiet e) (scan_reference_tree mem row)"
  unfolding scan_reference_tree_def by (intro step_inv_intros) auto

lemma quiet_table_count [step_inv_intros]:
  "step_keeps (tail_quiet e) (take_table_count mem field limit allowed capacity)"
  unfolding take_table_count_def by (intro step_inv_intros) auto

lemma scan_script_writes:
  "leaves tail_effect
     (\<lambda>row e t. tail_effect t = e\<lparr>effect_scripts := map_option (\<lambda>rows. rows[i := row]) (effect_scripts e)\<rparr>)
     (scan_script mem i)"
  unfolding scan_script_def Let_def
  by (intro leaves_quiet leaves_with leaves_split step_inv_intros
      leaves_modify [where change = "\<lambda>e. e\<lparr>effect_scripts := map_option h (effect_scripts e)\<rparr>" for h]
      leaves_return) auto

lemma scan_external_writes:
  "leaves tail_effect
     (\<lambda>row e t. tail_effect t = e\<lparr>effect_externals := map_option (\<lambda>rows. rows[i := row]) (effect_externals e)\<rparr>)
     (scan_external mem i)"
  unfolding scan_external_def Let_def
  by (intro leaves_quiet leaves_with leaves_split step_inv_intros
      leaves_modify [where change = "\<lambda>e. e\<lparr>effect_externals := map_option h (effect_externals e)\<rparr>" for h]
      leaves_return) auto

lemma scan_reference_writes:
  "leaves tail_effect
     (\<lambda>row e t. tail_effect t = e\<lparr>effect_references := map_option (\<lambda>rows. rows[i := row]) (effect_references e)\<rparr>)
     (scan_reference_type mem i)"
  unfolding scan_reference_type_def Let_def
  by (intro leaves_quiet leaves_with leaves_split step_inv_intros
      leaves_modify [where change = "\<lambda>e. e\<lparr>effect_references := map_option h (effect_references e)\<rparr>" for h]
      leaves_return) auto

text \<open>A table: its count and spans go to the view, its rows into the array that \<open>get\<close> and \<open>put\<close> reach.\<close>

lemma table_leaves:
  fixes get :: "TailEffect \<Rightarrow> 'row list option" and put :: "'row list option \<Rightarrow> TailEffect \<Rightarrow> TailEffect"
  assumes row: "\<And>i. leaves tail_effect (\<lambda>r e t. tail_effect t = put (map_option (\<lambda>rows. rows[i := r]) (get e)) e) (row i)"
    and array: "\<And>x e. get (put x e) = x" "\<And>x y e. put x (put y e) = put x e" "\<And>e. put (get e) e = e"
    and apart: "\<And>x e. effect_tail_view (put x e) = effect_tail_view e" "\<And>v e. get (e\<lparr>effect_tail_view := v\<rparr>) = get e"
      "\<And>x v e. (put x e)\<lparr>effect_tail_view := v\<rparr> = put x (e\<lparr>effect_tail_view := v\<rparr>)"
    and blank: "\<And>a n v. blank_tail_view (store_count a n v) = store_count a n (blank_tail_view v)"
      "\<And>a v. blank_tail_view (store_rows a v) = store_rows a (blank_tail_view v)"
    and run: "scan_table mem field limit cap_of capacity_of store_count row store_rows s = (Some (at, span, rows), t)"
  shows "tail_effect t = put (map_option (write_rows 0 rows) (get (tail_effect s)))
      ((tail_effect s)\<lparr>effect_tail_view :=
         store_rows span (store_count at (of_nat (length rows)) (effect_tail_view (tail_effect s)))\<rparr>)"
proof -
  obtain count s1 s2 where
    first: "take_table_count mem field limit (cap_of (tail_scan_limits s)) (capacity_of s) s = (Some (at, count), s1)"
    and rows: "scan_rows row 0 (unat count) (s1\<lparr>tail_scan_view := store_count at count (tail_scan_view s1)\<rparr>) = (Some rows, s2)"
    and stop: "t = s2\<lparr>tail_scan_view := store_rows span (tail_scan_view s2)\<rparr>"
    using run unfolding scan_table_def by (auto simp: step_success)
  have same: "tail_effect s1 = tail_effect s"
    using step_keepsD [OF quiet_table_count [of "tail_effect s"] refl first] .
  let ?e = "(tail_effect s)\<lparr>effect_tail_view := store_count at count (effect_tail_view (tail_effect s))\<rparr>"
  have view: "effect_tail_view (tail_effect s1) = blank_tail_view (tail_scan_view s1)" by simp
  have start: "tail_effect (s1\<lparr>tail_scan_view := store_count at count (tail_scan_view s1)\<rparr>) = ?e"
    using view [unfolded same] by (simp add: blank same del: tail_effect_fields)
  have filled: "length rows = unat count" "tail_effect s2 = put (map_option (write_rows 0 rows) (get ?e)) ?e"
    using leavesD [OF rows_write [where get = get and put = put, OF row array] rows, unfolded start] by simp_all
  have count: "of_nat (length rows) = count" unfolding filled(1) by simp
  have "effect_tail_view (tail_effect s2) = blank_tail_view (tail_scan_view s2)" by simp
  then have "blank_tail_view (tail_scan_view s2) = store_count at count (effect_tail_view (tail_effect s))"
    by (simp add: filled(2) apart del: tail_effect_fields)
  then show ?thesis
    unfolding stop tail_effect_simps blank filled(2) count apart by simp
qed

definition tail_sections_view ::
    "TailSections \<Rightarrow> SerializedFileMetadataTailView \<Rightarrow> SerializedFileMetadataTailView" where
  "tail_sections_view x view = view
     \<lparr>script_count_source := found_script_count x, script_count := of_nat (length (found_script_rows x)),
      script_rows_source := found_scripts x, external_count_source := found_external_count x,
      external_count := of_nat (length (found_external_rows x)), external_rows_source := found_externals x,
      reference_type_count_source := found_reference_count x,
      reference_type_count := of_nat (length (found_reference_rows x)),
      reference_type_rows_source := found_references x,
      user_information_source := found_user_information x, tail_source := found_source x\<rparr>"

lemma blank_tail_view_commutes [simp]:
  "blank_tail_view (v\<lparr>user_information_source := span\<rparr>) = (blank_tail_view v)\<lparr>user_information_source := span\<rparr>"
  "blank_tail_view (v\<lparr>tail_source := span\<rparr>) = (blank_tail_view v)\<lparr>tail_source := span\<rparr>"
  "blank_tail_view (v\<lparr>script_count_source := span, script_count := n\<rparr>) =
     (blank_tail_view v)\<lparr>script_count_source := span, script_count := n\<rparr>"
  "blank_tail_view (v\<lparr>external_count_source := span, external_count := n\<rparr>) =
     (blank_tail_view v)\<lparr>external_count_source := span, external_count := n\<rparr>"
  "blank_tail_view (v\<lparr>reference_type_count_source := span, reference_type_count := n\<rparr>) =
     (blank_tail_view v)\<lparr>reference_type_count_source := span, reference_type_count := n\<rparr>"
  "blank_tail_view (v\<lparr>script_rows_source := span\<rparr>) = (blank_tail_view v)\<lparr>script_rows_source := span\<rparr>"
  "blank_tail_view (v\<lparr>external_rows_source := span\<rparr>) = (blank_tail_view v)\<lparr>external_rows_source := span\<rparr>"
  "blank_tail_view (v\<lparr>reference_type_rows_source := span\<rparr>) =
     (blank_tail_view v)\<lparr>reference_type_rows_source := span\<rparr>"
  by (simp_all add: blank_tail_view_def)

lemma script_table_leaves:
  "scan_script_table mem s = (Some (at, span, rows), t) \<Longrightarrow>
     tail_effect t = (tail_effect s)
       \<lparr>effect_scripts := map_option (write_rows 0 rows) (effect_scripts (tail_effect s)),
        effect_tail_view := (effect_tail_view (tail_effect s))\<lparr>script_count_source := at,
          script_count := of_nat (length rows), script_rows_source := span\<rparr>\<rparr>"
  by (drule table_leaves [where get = effect_scripts and put = "\<lambda>x e. e\<lparr>effect_scripts := x\<rparr>",
        OF scan_script_writes, rotated -1]) simp_all

lemma external_table_leaves:
  "scan_external_table mem s = (Some (at, span, rows), t) \<Longrightarrow>
     tail_effect t = (tail_effect s)
       \<lparr>effect_externals := map_option (write_rows 0 rows) (effect_externals (tail_effect s)),
        effect_tail_view := (effect_tail_view (tail_effect s))\<lparr>external_count_source := at,
          external_count := of_nat (length rows), external_rows_source := span\<rparr>\<rparr>"
  by (drule table_leaves [where get = effect_externals and put = "\<lambda>x e. e\<lparr>effect_externals := x\<rparr>",
        OF scan_external_writes, rotated -1]) simp_all

lemma reference_table_leaves:
  "scan_reference_table mem s = (Some (at, span, rows), t) \<Longrightarrow>
     tail_effect t = (tail_effect s)
       \<lparr>effect_references := map_option (write_rows 0 rows) (effect_references (tail_effect s)),
        effect_tail_view := (effect_tail_view (tail_effect s))\<lparr>reference_type_count_source := at,
          reference_type_count := of_nat (length rows), reference_type_rows_source := span\<rparr>\<rparr>"
  by (drule table_leaves [where get = effect_references and put = "\<lambda>x e. e\<lparr>effect_references := x\<rparr>",
        OF scan_reference_writes, rotated -1]) simp_all

lemma scan_tail_leaves:
  assumes "scan_tail mem s = (Some x, t)"
  shows "tail_effect t = (tail_effect s)
     \<lparr>effect_scripts := map_option (write_rows 0 (found_script_rows x)) (effect_scripts (tail_effect s)),
      effect_externals := map_option (write_rows 0 (found_external_rows x)) (effect_externals (tail_effect s)),
      effect_references := map_option (write_rows 0 (found_reference_rows x)) (effect_references (tail_effect s)),
      effect_tail_view := tail_sections_view x (effect_tail_view (tail_effect s))\<rparr>"
proof -
  obtain s1 s2 s3 s4 at1 span1 rows1 at2 span2 rows2 at3 span3 rows3 user where
    tables: "scan_script_table mem s = (Some (at1, span1, rows1), s1)"
      "scan_external_table mem s1 = (Some (at2, span2, rows2), s2)"
      "scan_reference_table mem s2 = (Some (at3, span3, rows3), s3)"
    and user: "take_string mem SERIALIZED_FILE_METADATA_TAIL_FIELD_USER_INFORMATION
      (s3\<lparr>tail_scan_row_ordinal := SIZE_MAX\<rparr>) = (Some user, s4)"
    and x: "found_script_count x = at1" "found_scripts x = span1" "found_script_rows x = rows1"
      "found_external_count x = at2" "found_externals x = span2" "found_external_rows x = rows2"
      "found_reference_count x = at3" "found_references x = span3" "found_reference_rows x = rows3"
      "found_user_information x = user"
    and t: "t = s4\<lparr>tail_scan_view := (tail_scan_view s4)\<lparr>user_information_source := user, tail_source := found_source x\<rparr>\<rparr>"
    using assms unfolding scan_tail_def by (auto simp: step_success)
  have "tail_effect s4 = tail_effect s3"
    using step_keepsD [OF quiet_take_string [of "tail_effect s3"] _ user] by simp
  then have "tail_effect t = (tail_effect s3)\<lparr>effect_tail_view := (effect_tail_view (tail_effect s3))
      \<lparr>user_information_source := user, tail_source := found_source x\<rparr>\<rparr>"
    using tail_effect_fields(4) [of s4] unfolding t tail_effect_simps
    by (simp del: tail_effect_fields)
  then show ?thesis
    unfolding script_table_leaves [OF tables(1)] external_table_leaves [OF tables(2)]
      reference_table_leaves [OF tables(3)] tail_sections_view_def x
    by simp
qed

section \<open>The grammar of a pass\<close>

lemma g_tail_count_Some:
  "g_tail_count mem ctx allowed capacity p = Some ((at, n), u) \<longleftrightarrow>
     (\<exists>c. g_count mem (tail_base ctx) (tail_selector ctx) p = Some ((at, c), u) \<and> n = ucast c \<and>
        n \<le> allowed \<and> \<not> (context_replaying ctx \<and> n \<noteq> capacity))"
  by (fastforce simp: g_tail_count_def g_then_Some)

lemma g_tail_table_Some:
  "g_tail_table mem ctx allowed capacity row p = Some ((at, span, rows), u) \<longleftrightarrow>
     (\<exists>n u1 u2. g_tail_count mem ctx allowed capacity p = Some ((at, n), u1) \<and>
        g_rows row 0 (unat n) (p + u1 Bytes) = Some (rows, u2) \<and>
        span = tail_span ctx (p + u1 Bytes) (p + u1 Bytes + u2 Bytes) \<and> u = both u1 u2)"
  by (auto simp: g_tail_table_def g_then_Some)

lemma g_tail_Some:
  "g_tail mem ctx p = Some (x, w) \<longleftrightarrow>
     (\<exists>u1 u2 u3 u4.
        let limits = context_tail_limits ctx;
            p1 = p + u1 Bytes; p2 = p1 + u2 Bytes; p3 = p2 + u3 Bytes; p4 = p3 + u4 Bytes
        in g_tail_table mem ctx (max_scripts limits) (fst (tail_capacities ctx)) (g_script mem ctx) p =
             Some ((found_script_count x, found_scripts x, found_script_rows x), u1) \<and>
           g_tail_table mem ctx (max_externals limits) (fst (snd (tail_capacities ctx))) (g_external mem ctx) p1 =
             Some ((found_external_count x, found_externals x, found_external_rows x), u2) \<and>
           g_tail_table mem ctx (max_reference_types limits) (snd (snd (tail_capacities ctx)))
               (g_reference mem ctx) p2 =
             Some ((found_reference_count x, found_references x, found_reference_rows x), u3) \<and>
           g_string mem (tail_base ctx) (tail_extent ctx) p3 = Some (found_user_information x, u4) \<and>
           p4 = tail_extent ctx \<and> found_source x = tail_span ctx p p4 \<and>
           w = both u1 (both u2 (both u3 u4)))"
  unfolding g_tail_def Let_def
  by (cases x) (fastforce simp: g_then_Some add.assoc)

lemma g_tail_rows_context [simp]:
  "tail_span (ctx\<lparr>tail_capacities := c, context_replaying := b\<rparr>) = tail_span ctx"
  "g_reference_tree mem (ctx\<lparr>tail_capacities := c, context_replaying := b\<rparr>) = g_reference_tree mem ctx"
  "g_script mem (ctx\<lparr>tail_capacities := c, context_replaying := b\<rparr>) = g_script mem ctx"
  "g_external mem (ctx\<lparr>tail_capacities := c, context_replaying := b\<rparr>) = g_external mem ctx"
  "g_reference mem (ctx\<lparr>tail_capacities := c, context_replaying := b\<rparr>) = g_reference mem ctx"
proof -
  show spans: "tail_span (ctx\<lparr>tail_capacities := c, context_replaying := b\<rparr>) = tail_span ctx"
    by (simp add: fun_eq_iff tail_span_def)
  show tree: "g_reference_tree mem (ctx\<lparr>tail_capacities := c, context_replaying := b\<rparr>) = g_reference_tree mem ctx"
    by (rule ext, simp add: g_reference_tree_def)
  show "g_script mem (ctx\<lparr>tail_capacities := c, context_replaying := b\<rparr>) = g_script mem ctx"
    "g_external mem (ctx\<lparr>tail_capacities := c, context_replaying := b\<rparr>) = g_external mem ctx"
    "g_reference mem (ctx\<lparr>tail_capacities := c, context_replaying := b\<rparr>) = g_reference mem ctx"
    by (rule ext, simp add: spans tree g_script_def g_external_def g_reference_def Let_def cong: if_cong)+
qed

lemma g_rows_length: "g_rows g i n p = Some (rows, u) \<Longrightarrow> length rows = n"
  by (induction n arbitrary: i p rows u) (auto simp: g_then_Some)

lemma g_tail_table_replay:
  assumes "g_tail_table mem ctx allowed capacity row p = Some ((at, span, rows), u)"
  shows "g_tail_table mem (ctx\<lparr>tail_capacities := c, context_replaying := b\<rparr>) allowed
    (of_nat (length rows)) row p = Some ((at, span, rows), u)"
  using assms by (fastforce simp: g_tail_table_Some g_tail_count_Some dest: g_rows_length)

lemma g_tail_replay:
  assumes "g_tail mem ctx p = Some (x, u)"
  shows "g_tail mem (ctx\<lparr>tail_capacities := (of_nat (length (found_script_rows x)),
      of_nat (length (found_external_rows x)), of_nat (length (found_reference_rows x))),
      context_replaying := True\<rparr>) p = Some (x, u)"
  using assms unfolding g_tail_Some Let_def
  by (elim exE conjE) (intro exI conjI, (simp_all add: g_tail_table_replay))

section \<open>The two passes\<close>

definition tail_pass_context ::
    "pointer \<Rightarrow> SerializedFileMetadataTailLimits \<Rightarrow> SerializedFileDirectoryView \<Rightarrow> TailContext" where
  "tail_pass_context bytes limits parent =
     \<lparr>tail_frame = (bytes, endian_selector (header (view_prefix parent)),
        range_offset (metadata_to_data_gap (header (view_prefix parent))),
        range_offset (view_remaining_metadata parent)),
      context_tail_limits = limits, context_directory = parent, tail_capacities = (0, 0, 0),
      context_replaying = False\<rparr>"

definition tail_start :: "SerializedFileDirectoryView \<Rightarrow> nat" where
  "tail_start parent = unat (range_offset (view_remaining_metadata parent))"

text \<open>The tail behind a parent and what reading it once uses up.\<close>

definition tail_tables ::
    "memory \<Rightarrow> pointer \<Rightarrow> SerializedFileMetadataTailLimits \<Rightarrow> SerializedFileDirectoryView \<Rightarrow>
     (TailSections \<times> usage) option" where
  "tail_tables mem bytes limits parent = g_tail mem (tail_pass_context bytes limits parent) (tail_start parent)"

definition tail_room ::
    "u64 \<Rightarrow> SerializedFileMetadataTailLimits \<Rightarrow> SerializedFileDirectoryView \<Rightarrow> usage \<Rightarrow> bool" where
  "tail_room mapped_size limits parent u \<longleftrightarrow>
     tail_start parent + u Bytes \<le> unat mapped_size \<and> u Bytes \<le> unat (max_tail_bytes limits) \<and>
     u Nodes \<le> unat (tail_max_node_records limits) \<and> u Strings \<le> unat (max_tree_string_bytes limits) \<and>
     u Terminated \<le> unat (max_terminated_string_bytes limits)"

text \<open>A parent whose cursor lies inside the metadata and the mapping.\<close>

definition tail_inside :: "u64 \<Rightarrow> SerializedFileDirectoryView \<Rightarrow> bool" where
  "tail_inside mapped_size parent \<longleftrightarrow>
     tail_start parent \<le> unat mapped_size \<and>
     tail_start parent \<le> unat (range_offset (metadata_to_data_gap (header (view_prefix parent))))"

definition tail_extents ::
    "u64 \<Rightarrow> SerializedFileMetadataTailLimits \<Rightarrow> SerializedFileDirectoryView \<Rightarrow> nat" where
  "tail_extents mapped_size limits parent =
     min (unat (range_offset (metadata_to_data_gap (header (view_prefix parent)))))
       (min (unat mapped_size) (tail_start parent + unat (max_tail_bytes limits)))"

definition tail_pass_start ::
    "u64 \<Rightarrow> SerializedFileMetadataTailLimits \<Rightarrow> SerializedFileDirectoryView \<Rightarrow> TailContext \<Rightarrow> TailScan \<Rightarrow> bool" where
  "tail_pass_start mapped_size limits parent ctx s \<longleftrightarrow>
     tail_context s = ctx \<and> reader_position (tail_scan_reader s) = range_offset (view_remaining_metadata parent) \<and>
     reader_byte_budget_origin (tail_scan_reader s) = range_offset (view_remaining_metadata parent) \<and>
     reader_cap (tail_scan_reader s) Bytes = tail_extents mapped_size limits parent \<and>
     reader_max_work (tail_scan_reader s) = tail_max_work limits \<and>
     tail_work_used (tail_scan_result s) \<le> tail_max_work limits \<and>
     effect_tail_view (tail_effect s) = tail_start_view parent \<and>
     tail_node_record_count (tail_scan_view s) = 0 \<and> tree_string_byte_count (tail_scan_view s) = 0 \<and>
     terminated_string_byte_count (tail_scan_view s) = 0"

lemma g_tail_exhausts: "g_tail mem ctx p = Some (x, u) \<Longrightarrow> p + u Bytes = tail_extent ctx"
  by (auto simp: g_tail_Some Let_def add.assoc)

lemma g_string_words: "g_string mem base extent p = Some (x, u) \<Longrightarrow> u Words = 0 \<and> u Work = u Bytes"
  by (auto simp: g_string_def string_use_def)

lemma g_tail_words:
  assumes "g_tail mem ctx p = Some (x, u)"
  shows "u Words = 0"
proof -
  have "confined {Bytes, Work, Nodes, Strings, Terminated} (g_tail mem ctx)"
    unfolding g_tail_def g_tail_table_def g_tail_count_def g_script_def g_external_def g_reference_def
      g_reference_tree_def Let_def
    by (intro confined_intros confined_rows) auto
  with assms show ?thesis by (auto simp: confined_def)
qed

lemma tail_pass_start_gauge:
  assumes s: "tail_pass_start mapped_size limits parent ctx s"
    and ctx: "context_tail_limits ctx = limits"
      "tail_extent ctx = unat (range_offset (metadata_to_data_gap (header (view_prefix parent))))"
    and inside: "tail_inside mapped_size parent"
  shows "within (tail_meter ctx) s"
    and "g_tail mem ctx (tail_start parent) = Some (x, u) \<Longrightarrow>
      affords (tail_meter ctx) s u \<longleftrightarrow> tail_room mapped_size limits parent u \<and>
        unat (tail_work_used (tail_scan_result s)) + u Work \<le> unat (tail_max_work limits)"
    and "tail_level s Bytes = tail_start parent"
proof -
  have limits: "tail_scan_limits s = limits"
    using s tail_context_fields(2) ctx by (fastforce simp: tail_pass_start_def)
  have position: "unat (reader_position (tail_scan_reader s)) = tail_start parent"
    using s by (simp add: tail_pass_start_def tail_start_def)
  show "tail_level s Bytes = tail_start parent" using position by simp
  have room: "tail_start parent \<le> reader_cap (tail_scan_reader s) Bytes"
    using s inside
    by (simp add: tail_pass_start_def tail_extents_def tail_inside_def del: reader_cap.simps(1))
  show "within (tail_meter ctx) s"
    using s room position limits
    by (simp add: within_def all_resources tail_pass_start_def word_le_nat_alt del: reader_cap.simps(1))
  assume g: "g_tail mem ctx (tail_start parent) = Some (x, u)"
  show "affords (tail_meter ctx) s u \<longleftrightarrow> tail_room mapped_size limits parent u \<and>
        unat (tail_work_used (tail_scan_result s)) + u Work \<le> unat (tail_max_work limits)"
    using s position limits g_tail_exhausts [OF g] g_tail_words [OF g] ctx
    by (auto simp: affords_def all_resources tail_pass_start_def tail_room_def tail_extents_def
        simp del: reader_cap.simps(1))
qed

lemma tail_start_pass:
  assumes "tail_work_used r \<le> tail_max_work limits"
  shows "tail_pass_start mapped_size limits parent (tail_pass_context bytes limits parent)
    (tail_start_scan bytes mapped_size limits parent r)"
  using assms
  by (simp add: tail_pass_start_def tail_start_scan_def tail_start_view_def Let_def tail_pass_context_def
      tail_context_def reader_frame_def tail_effect_def blank_tail_view_def tail_extents_def tail_start_def)

text \<open>One pass over the tail, from the start of a pass.\<close>

lemma tail_pass:
  assumes s: "tail_pass_start mapped_size limits parent ctx s"
    and ctx: "context_tail_limits ctx = limits"
      "tail_extent ctx = unat (range_offset (metadata_to_data_gap (header (view_prefix parent))))"
    and inside: "tail_inside mapped_size parent"
  shows "case scan_tail mem s of
      (None, t) \<Rightarrow>
        tail_status (tail_scan_result t) \<noteq> SERIALIZED_FILE_METADATA_TAIL_OK \<and>
        tail_work_used (tail_scan_result t) \<le> tail_max_work limits \<and>
        \<not> (\<exists>x u. g_tail mem ctx (tail_start parent) = Some (x, u) \<and> tail_room mapped_size limits parent u \<and>
            unat (tail_work_used (tail_scan_result s)) + u Work \<le> unat (tail_max_work limits))
    | (Some x, t) \<Rightarrow>
        \<exists>u. g_tail mem ctx (tail_start parent) = Some (x, u) \<and> tail_room mapped_size limits parent u \<and>
          (tail_status (tail_scan_result t) = SERIALIZED_FILE_METADATA_TAIL_OK) =
            (tail_status (tail_scan_result s) = SERIALIZED_FILE_METADATA_TAIL_OK) \<and>
          tail_work_used (tail_scan_result t) \<le> tail_max_work limits \<and>
          unat (tail_work_used (tail_scan_result t)) = unat (tail_work_used (tail_scan_result s)) + u Work \<and>
          tail_context t = ctx \<and> reader_cap (tail_scan_reader t) Bytes = tail_extents mapped_size limits parent \<and>
          reader_max_work (tail_scan_reader t) = tail_max_work limits \<and>
          tail_scan_view t = (tail_sections_view x (tail_start_view parent))
            \<lparr>tail_node_record_count := of_nat (u Nodes), tree_string_byte_count := of_nat (u Strings),
             terminated_string_byte_count := of_nat (u Terminated)\<rparr>"
proof -
  note w = tail_pass_start_gauge [OF s ctx inside]
  have limits: "tail_scan_limits s = limits" "env (tail_meter ctx) s = ctx"
    using s ctx tail_context_fields(2) by (fastforce simp: tail_pass_start_def)+
  show ?thesis
  proof (cases "scan_tail mem s")
    case (Pair r t)
    show ?thesis
    proof (cases r)
      case None
      note none = meters_None [OF meters_scan_tail w(1) limits(2) Pair [unfolded None], unfolded tail_gauge_simps w(3)]
      have "unat (tail_work_used (tail_scan_result t)) \<le> tail_cap (max_terminated_string_bytes (context_tail_limits ctx)) s Work"
        using none unfolding within_def tail_gauge_simps by (metis tail_level.simps(2))
      then show ?thesis
        using none w(2) s by (auto simp: Pair None tail_pass_start_def word_le_nat_alt)
    next
      case (Some x)
      obtain u where u: "g_tail mem ctx (tail_start parent) = Some (x, u)" "affords (tail_meter ctx) s u"
        "spends (tail_meter ctx) s u t" "tail_context t = ctx"
        using meters_Some [OF meters_scan_tail w(1) limits(2) Pair [unfolded Some], unfolded tail_gauge_simps w(3)]
        by blast
      have level: "tail_level t = both (tail_level s) u"
        and caps: "tail_cap (max_terminated_string_bytes (context_tail_limits ctx)) t =
          tail_cap (max_terminated_string_bytes (context_tail_limits ctx)) s"
        and status: "failed (tail_meter ctx) t = failed (tail_meter ctx) s"
        using u(3) by (simp_all add: spends_def)
      have counters: "unat (tail_node_record_count (tail_scan_view t)) = u Nodes"
        "unat (tree_string_byte_count (tail_scan_view t)) = u Strings"
        "unat (terminated_string_byte_count (tail_scan_view t)) = u Terminated"
        "unat (tail_work_used (tail_scan_result t)) = unat (tail_work_used (tail_scan_result s)) + u Work"
        using fun_cong [OF level, of Nodes] fun_cong [OF level, of Strings] fun_cong [OF level, of Terminated]
          fun_cong [OF level, of Work] s
        by (simp_all add: tail_pass_start_def)
      have view: "blank_tail_view (tail_scan_view t) = tail_sections_view x (tail_start_view parent)"
        using scan_tail_leaves [OF Pair [unfolded Some]] tail_effect_fields(4) [of t] s
        by (simp add: tail_pass_start_def del: tail_effect_fields)
      have "v = (blank_tail_view v)\<lparr>tail_node_record_count := of_nat (unat (tail_node_record_count v)),
          tree_string_byte_count := of_nat (unat (tree_string_byte_count v)),
          terminated_string_byte_count := of_nat (unat (terminated_string_byte_count v))\<rparr>" for v
        by (simp add: blank_tail_view_def)
      from this [of "tail_scan_view t", unfolded view counters]
      show ?thesis
        using fun_cong [OF caps, of Bytes] fun_cong [OF caps, of Work] u status counters(4) w(2) [OF u(1)] s
        by (auto simp: Pair Some tail_pass_start_def word_le_nat_alt word_unat_eq_iff)
    qed
  qed
qed

section \<open>Storage\<close>

definition tail_bytes :: "nat \<Rightarrow> nat \<Rightarrow> nat \<Rightarrow> nat" where
  "tail_bytes scripts externals references = 960 + 120 * scripts + 152 * externals + 344 * references"

definition tail_amount :: "TailSections \<Rightarrow> nat" where
  "tail_amount x = tail_bytes (length (found_script_rows x)) (length (found_external_rows x))
     (length (found_reference_rows x))"

lemma tail_table_short:
  "g_tail_table mem ctx allowed capacity row p = Some ((at, span, rows), u) \<Longrightarrow> length rows < 2 ^ 32"
proof -
  have small: "unat (ucast c :: u64) < 2 ^ 32" for c :: u32
  proof -
    have "unat (ucast c :: u64) = unat c" by (rule unat_widen) simp
    then show ?thesis using unsigned_less [of c] by simp
  qed
  assume "g_tail_table mem ctx allowed capacity row p = Some ((at, span, rows), u)"
  then obtain c :: u32 where "length rows = unat (ucast c :: u64)"
    by (auto simp: g_tail_table_Some g_tail_count_Some dest: g_rows_length)
  with small show ?thesis by simp
qed

lemma g_tail_short:
  assumes "g_tail mem ctx p = Some (x, u)"
  shows "length (found_script_rows x) < 2 ^ 32" "length (found_external_rows x) < 2 ^ 32"
    "length (found_reference_rows x) < 2 ^ 32"
  using assms unfolding g_tail_Some Let_def by (auto dest!: tail_table_short)

lemma tail_plan_layout_value:
  assumes "unat (script_count view) = scripts" "scripts < 2 ^ 32" "unat (external_count view) = externals"
    "externals < 2 ^ 32" "unat (reference_type_count view) = references" "references < 2 ^ 32"
  shows "\<exists>layout. tail_plan_layout view = Some layout \<and>
    unat (tail_total_bytes layout) = tail_bytes scripts externals references"
proof -
  obtain stop1 where one: "serialized_file_storage_append_array_internal sizeof_tail_storage alignof_row
      (script_count view) sizeof_script_row = Some (stop1, sizeof_tail_storage)" "unat stop1 = 960 + scripts * 120"
    using append_rows [of sizeof_tail_storage "script_count view" sizeof_script_row] assms by auto
  have "unat stop1 mod 8 = 0" unfolding one(2) by presburger
  then obtain stop2 where two: "serialized_file_storage_append_array_internal stop1 alignof_row
      (external_count view) sizeof_external_row = Some (stop2, stop1)"
    "unat stop2 = 960 + scripts * 120 + externals * 152"
    using append_rows [of stop1 "external_count view" sizeof_external_row] assms one(2) by auto
  have "unat stop2 mod 8 = 0" unfolding two(2) by presburger
  then obtain stop3 where "serialized_file_storage_append_array_internal stop2 alignof_row
      (reference_type_count view) sizeof_reference_type_row = Some (stop3, stop2)"
    "unat stop3 = 960 + scripts * 120 + externals * 152 + references * 344"
    using append_rows [of stop2 "reference_type_count view" sizeof_reference_type_row] assms two(2) by auto
  with one two show ?thesis by (simp add: tail_plan_layout_def tail_bytes_def)
qed

lemma tail_charge_cases:
  assumes "tail_work_used r \<le> tail_max_work limits"
  shows "charge_owner_work limits amount r =
    (if unat (tail_work_used r) + unat amount \<le> unat (tail_max_work limits)
     then (Some (), r\<lparr>tail_work_used := tail_work_used r + amount\<rparr>)
     else (None, tail_reject SERIALIZED_FILE_METADATA_TAIL_LIMIT_EXCEEDED SERIALIZED_FILE_METADATA_TAIL_LIMIT_WORK
       SERIALIZED_FILE_METADATA_TAIL_FIELD_NONE SIZE_MAX SERIALIZED_FILE_PREFIX_NO_OFFSET r))"
    and "unat (tail_work_used r) + unat amount \<le> unat (tail_max_work limits) \<Longrightarrow>
      unat (tail_work_used r + amount) = unat (tail_work_used r) + unat amount"
  using charge_iff [OF assms, of amount] charge_value [OF assms, of amount]
  by (auto simp: charge_owner_work_def tail_charge_work_def step_then_def step_require_def step_modify_def)

text \<open>The counting pass has met the tail \<open>x\<close> and left \<open>t\<close>.\<close>

definition tail_counted ::
    "pointer \<Rightarrow> u64 \<Rightarrow> SerializedFileMetadataTailLimits \<Rightarrow> SerializedFileDirectoryView \<Rightarrow> TailSections \<Rightarrow>
     TailScan \<Rightarrow> bool" where
  "tail_counted bytes mapped_size limits parent x t \<longleftrightarrow>
     tail_context t = tail_pass_context bytes limits parent \<and>
     script_count (tail_scan_view t) = of_nat (length (found_script_rows x)) \<and>
     external_count (tail_scan_view t) = of_nat (length (found_external_rows x)) \<and>
     reference_type_count (tail_scan_view t) = of_nat (length (found_reference_rows x)) \<and>
     length (found_script_rows x) < 2 ^ 32 \<and> length (found_external_rows x) < 2 ^ 32 \<and>
     length (found_reference_rows x) < 2 ^ 32 \<and>
     reader_cap (tail_scan_reader t) Bytes = tail_extents mapped_size limits parent \<and>
     reader_max_work (tail_scan_reader t) = tail_max_work limits"

definition tail_replay_context :: "TailContext \<Rightarrow> TailSections \<Rightarrow> TailContext" where
  "tail_replay_context ctx x = ctx\<lparr>tail_capacities := (of_nat (length (found_script_rows x)),
     of_nat (length (found_external_rows x)), of_nat (length (found_reference_rows x))),
     context_replaying := True\<rparr>"

lemma tail_restart_pass:
  assumes "tail_counted bytes mapped_size limits parent x t" and "tail_work_used r \<le> tail_max_work limits"
  shows "tail_pass_start mapped_size limits parent (tail_replay_context (tail_pass_context bytes limits parent) x)
      (tail_restart_scan parent scripts externals references r t)"
proof -
  have ctx: "tail_context t = tail_pass_context bytes limits parent" using assms(1) by (simp add: tail_counted_def)
  note fields = tail_context_fields [OF ctx]
  have position: "reader_frame (q\<lparr>reader_position := p\<rparr>) = reader_frame q" for q p by (simp add: reader_frame_def)
  have frame: "reader_byte_budget_origin (tail_scan_reader t) = range_offset (view_remaining_metadata parent)"
    "tail_scan_limits t = limits"
    using fields(1,2) by (simp_all add: tail_pass_context_def reader_frame_def)
  have "tail_context (tail_restart_scan parent scripts externals references r t) =
      tail_replay_context (tail_pass_context bytes limits parent) x"
    using assms(1) fields(1,2)
    by (simp add: tail_counted_def tail_context_def tail_restart_scan_def tail_start_view_def Let_def
        tail_replay_context_def tail_pass_context_def position)
  with assms frame show ?thesis
    using reader_cap_position [where r = "tail_scan_reader t"]
    by (simp add: tail_counted_def tail_pass_start_def tail_restart_scan_def tail_start_view_def Let_def
        tail_effect_def blank_tail_view_def del: reader_cap.simps(1))
qed

text \<open>What a stored tail holds of the sections \<open>x\<close> that used up \<open>u\<close>.\<close>

definition tail_describes ::
    "SerializedFileDirectoryView \<Rightarrow> TailSections \<Rightarrow> usage \<Rightarrow> TailStorage \<Rightarrow> bool" where
  "tail_describes parent x u storage \<longleftrightarrow>
     storage_scripts storage = found_script_rows x \<and> storage_externals storage = found_external_rows x \<and>
     storage_reference_types storage = found_reference_rows x \<and>
     tail_storage_view storage = (tail_sections_view x (tail_start_view parent))
       \<lparr>tail_node_record_count := of_nat (u Nodes), tree_string_byte_count := of_nat (u Strings),
        terminated_string_byte_count := of_nat (u Terminated), tail_retained_bytes := of_nat (tail_amount x)\<rparr>"

lemma tail_replay_outcome:
  assumes inside: "tail_inside mapped_size parent" and s: "tail_counted bytes mapped_size limits parent x s"
    and x: "tail_tables mem bytes limits parent = Some (x, u)" "tail_room mapped_size limits parent u"
    and r: "tail_status r = SERIALIZED_FILE_METADATA_TAIL_OK" "tail_work_used r \<le> tail_max_work limits"
    and layout: "tail_total_bytes layout = of_nat (tail_amount x)"
  shows "case tail_replay mem parent layout address cells s r of
      (None, r') \<Rightarrow> tail_status r' \<noteq> SERIALIZED_FILE_METADATA_TAIL_OK \<and> tail_work_used r' \<le> tail_max_work limits \<and>
        unat (tail_max_work limits) < unat (tail_work_used r) + u Work
    | (Some y, r') \<Rightarrow> tail_status r' = SERIALIZED_FILE_METADATA_TAIL_OK \<and> tail_work_used r' \<le> tail_max_work limits \<and>
        unat (tail_work_used r') = unat (tail_work_used r) + u Work \<and>
        tail_required_retained_bytes r' = tail_required_retained_bytes r \<and>
        tail_peak_retained_bytes r' = tail_peak_retained_bytes r \<and>
        tail_describes parent x u y \<and> tail_storage_address y = address \<and> tail_storage_cells y = cells"
proof -
  let ?ctx = "tail_replay_context (tail_pass_context bytes limits parent) x"
  define scripts where "scripts = replicate (unat (script_count (tail_scan_view s))) zero_script_row"
  define externals where "externals = replicate (unat (external_count (tail_scan_view s))) zero_external_row"
  define references where "references = replicate (unat (reference_type_count (tail_scan_view s))) zero_reference_type_row"
  let ?s = "tail_restart_scan parent scripts externals references r s"
  have lengths: "length scripts = length (found_script_rows x)" "length externals = length (found_external_rows x)"
    "length references = length (found_reference_rows x)"
    using s by (simp_all add: tail_counted_def scripts_def externals_def references_def unat_of_nat)
  have start: "tail_pass_start mapped_size limits parent ?ctx ?s" by (rule tail_restart_pass [OF s r(2)])
  have ctx: "context_tail_limits ?ctx = limits"
    "tail_extent ?ctx = unat (range_offset (metadata_to_data_gap (header (view_prefix parent))))"
    by (simp_all add: tail_replay_context_def tail_pass_context_def)
  have replayed: "g_tail mem ?ctx (tail_start parent) = Some (x, u)"
    using g_tail_replay x(1) unfolding tail_tables_def tail_replay_context_def by blast
  have result: "tail_scan_result ?s = r" by (simp add: tail_restart_scan_def)
  note pass = tail_pass [OF start ctx inside, of mem, unfolded replayed result]
  have run: "tail_replay mem parent layout address cells s r = (case scan_tail mem ?s of
           (None, scan) \<Rightarrow> (None, tail_scan_result scan)
         | (Some _, scan) \<Rightarrow>
             (Some \<lparr>tail_storage_address = address, tail_storage_cells = cells,
                tail_storage_view = (tail_scan_view scan)\<lparr>tail_retained_bytes := tail_total_bytes layout\<rparr>,
                storage_scripts = the (scan_scripts scan), storage_externals = the (scan_externals scan),
                storage_reference_types = the (scan_reference_types scan)\<rparr>, tail_scan_result scan))"
    by (simp add: tail_replay_def Let_def scripts_def externals_def references_def)
  show ?thesis
  proof (cases "scan_tail mem ?s")
    case (Pair z t)
    show ?thesis
    proof (cases z)
      case None
      with pass Pair x(2) show ?thesis by (auto simp: run)
    next
      case (Some y)
      with pass Pair have y: "y = x" by auto
      note effect = scan_tail_leaves [OF Pair [unfolded Some y]]
      have rows: "scan_scripts t = Some (found_script_rows x)" "scan_externals t = Some (found_external_rows x)"
        "scan_reference_types t = Some (found_reference_rows x)"
        using arg_cong [OF effect, of effect_scripts] arg_cong [OF effect, of effect_externals]
          arg_cong [OF effect, of effect_references] lengths
        by (simp_all add: tail_restart_scan_def write_rows_fill fill_def)
      have "tail_required_retained_bytes (tail_scan_result t) = tail_required_retained_bytes r"
        "tail_peak_retained_bytes (tail_scan_result t) = tail_peak_retained_bytes r"
        using arg_cong [OF effect, of effect_tail_fixed] by (simp_all add: tail_effect_def tail_restart_scan_def)
      with pass Pair Some y rows r(1) layout show ?thesis
        by (auto simp: run tail_describes_def)
    qed
  qed
qed

lemma build_tail_passes:
  "build_tail mem place grants bytes mapped_size limits parent result t =
     two_pass_build (charge_owner_work limits)
       (\<lambda>result. scan_tail mem (tail_start_scan bytes mapped_size limits parent result)) tail_scan_result
       (\<lambda>scan. tail_plan_storage limits (tail_scan_view scan)) tail_total_bytes
       (\<lambda>result. result\<lparr>tail_status := SERIALIZED_FILE_METADATA_TAIL_ALLOCATION_FAILED\<rparr>)
       (\<lambda>n result. result\<lparr>tail_peak_retained_bytes := n\<rparr>) (tail_replay mem parent) place grants result t"
  unfolding build_tail_def two_pass_build_def two_pass_store_def ..

lemma tail_plan_cases:
  assumes r: "tail_work_used r \<le> tail_max_work limits" and s: "tail_counted bytes mapped_size limits parent x s"
  shows "case tail_plan_storage limits (tail_scan_view s) r of
      (None, r') \<Rightarrow> tail_status r' \<noteq> SERIALIZED_FILE_METADATA_TAIL_OK \<and> tail_work_used r' \<le> tail_max_work limits \<and>
        (unat (tail_max_work limits) < unat (tail_work_used r) + 1 \<or>
         unat (tail_max_retained_bytes limits) < tail_amount x)
    | (Some layout, r') \<Rightarrow> unat (tail_total_bytes layout) = tail_amount x \<and> tail_status r' = tail_status r \<and>
        tail_work_used r' \<le> tail_max_work limits \<and> unat (tail_work_used r') = unat (tail_work_used r) + 1 \<and>
        tail_required_retained_bytes r' = tail_total_bytes layout \<and>
        tail_amount x \<le> unat (tail_max_retained_bytes limits)"
proof -
  have counts: "unat (script_count (tail_scan_view s)) = length (found_script_rows x)"
    "unat (external_count (tail_scan_view s)) = length (found_external_rows x)"
    "unat (reference_type_count (tail_scan_view s)) = length (found_reference_rows x)"
    using s by (simp_all add: tail_counted_def unat_of_nat)
  obtain layout where layout: "tail_plan_layout (tail_scan_view s) = Some layout"
    "unat (tail_total_bytes layout) = tail_amount x"
    using tail_plan_layout_value [OF counts(1) _ counts(2) _ counts(3)] s
    by (auto simp: tail_counted_def tail_amount_def)
  note charged = tail_charge_cases [OF r, where amount = 1]
  show ?thesis
  proof (cases "unat (tail_work_used r) + 1 \<le> unat (tail_max_work limits)")
    case False
    then show ?thesis using r charged(1) by (simp add: tail_plan_storage_def step_then_def)
  next
    case True
    then show ?thesis
      using charged layout by (simp add: tail_plan_storage_def step_then_def Let_def word_le_nat_alt word_less_nat_alt)
  qed
qed

interpretation tail_passes: two_pass tail_work_used tail_required_retained_bytes tail_peak_retained_bytes
    "\<lambda>result. tail_status result = SERIALIZED_FILE_METADATA_TAIL_OK" "tail_max_work limits"
    "tail_max_retained_bytes limits" "charge_owner_work limits"
    "\<lambda>result. scan_tail mem (tail_start_scan bytes mapped_size limits parent result)" tail_scan_result
    "\<lambda>scan. tail_plan_storage limits (tail_scan_view scan)" tail_total_bytes
    "\<lambda>result. result\<lparr>tail_status := SERIALIZED_FILE_METADATA_TAIL_ALLOCATION_FAILED\<rparr>"
    "\<lambda>n result. result\<lparr>tail_peak_retained_bytes := n\<rparr>" "tail_replay mem parent"
    "tail_inside mapped_size parent" "tail_tables mem bytes limits parent" "tail_room mapped_size limits parent"
    "tail_counted bytes mapped_size limits parent" tail_amount
    "\<lambda>address cells x u storage. tail_describes parent x u storage \<and> tail_storage_address storage = address \<and>
       tail_storage_cells storage = cells"
  for mem bytes mapped_size limits parent
proof
  fix r :: SerializedFileMetadataTailResult and n :: u64 and s x u layout address cells
  show "tail_work_used r \<le> tail_max_work limits \<Longrightarrow>
      case charge_owner_work limits n r of
        (None, r') \<Rightarrow> \<not> tail_status r' = SERIALIZED_FILE_METADATA_TAIL_OK \<and> tail_work_used r' = tail_work_used r \<and>
          unat (tail_max_work limits) < unat (tail_work_used r) + unat n
      | (Some _, r') \<Rightarrow>
          unat (tail_work_used r') = unat (tail_work_used r) + unat n \<and>
          unat (tail_work_used r) + unat n \<le> unat (tail_max_work limits) \<and>
          (tail_status r' = SERIALIZED_FILE_METADATA_TAIL_OK) = (tail_status r = SERIALIZED_FILE_METADATA_TAIL_OK) \<and>
          tail_required_retained_bytes r' = tail_required_retained_bytes r \<and>
          tail_peak_retained_bytes r' = tail_peak_retained_bytes r"
    using tail_charge_cases [where amount = n and r = r and limits = limits] by simp
  show "tail_inside mapped_size parent \<Longrightarrow> tail_status r = SERIALIZED_FILE_METADATA_TAIL_OK \<Longrightarrow>
      tail_work_used r \<le> tail_max_work limits \<Longrightarrow>
      case scan_tail mem (tail_start_scan bytes mapped_size limits parent r) of
        (None, s) \<Rightarrow> \<not> tail_status (tail_scan_result s) = SERIALIZED_FILE_METADATA_TAIL_OK \<and>
          tail_work_used (tail_scan_result s) \<le> tail_max_work limits \<and>
          \<not> (\<exists>x u. tail_tables mem bytes limits parent = Some (x, u) \<and> tail_room mapped_size limits parent u \<and>
             unat (tail_work_used r) + u Work \<le> unat (tail_max_work limits))
      | (Some x, s) \<Rightarrow> \<exists>u. tail_tables mem bytes limits parent = Some (x, u) \<and>
          tail_room mapped_size limits parent u \<and> tail_status (tail_scan_result s) = SERIALIZED_FILE_METADATA_TAIL_OK \<and>
          tail_work_used (tail_scan_result s) \<le> tail_max_work limits \<and>
          unat (tail_work_used (tail_scan_result s)) = unat (tail_work_used r) + u Work \<and>
          tail_counted bytes mapped_size limits parent x s"
  proof -
    assume inside: "tail_inside mapped_size parent" and r: "tail_status r = SERIALIZED_FILE_METADATA_TAIL_OK"
      "tail_work_used r \<le> tail_max_work limits"
    have ctx: "context_tail_limits (tail_pass_context bytes limits parent) = limits"
      "tail_extent (tail_pass_context bytes limits parent) =
        unat (range_offset (metadata_to_data_gap (header (view_prefix parent))))"
      by (simp_all add: tail_pass_context_def)
    have result: "tail_scan_result (tail_start_scan bytes mapped_size limits parent r) = r"
      by (simp add: tail_start_scan_def)
    note pass = tail_pass [OF tail_start_pass [OF r(2)] ctx inside, of mem, folded tail_tables_def, unfolded result]
    then show ?thesis
      using r(1) g_tail_short
      by (fastforce simp: tail_counted_def tail_sections_view_def tail_tables_def split: prod.splits option.splits)
  qed
  show "tail_counted bytes mapped_size limits parent x s \<Longrightarrow> tail_work_used r \<le> tail_max_work limits \<Longrightarrow>
      case tail_plan_storage limits (tail_scan_view s) r of
        (None, r') \<Rightarrow> \<not> tail_status r' = SERIALIZED_FILE_METADATA_TAIL_OK \<and> tail_work_used r' \<le> tail_max_work limits \<and>
          (unat (tail_max_work limits) < unat (tail_work_used r) + 1 \<or>
           unat (tail_max_retained_bytes limits) < tail_amount x)
      | (Some layout, r') \<Rightarrow> unat (tail_total_bytes layout) = tail_amount x \<and>
          (tail_status r' = SERIALIZED_FILE_METADATA_TAIL_OK) = (tail_status r = SERIALIZED_FILE_METADATA_TAIL_OK) \<and>
          tail_work_used r' \<le> tail_max_work limits \<and> unat (tail_work_used r') = unat (tail_work_used r) + 1 \<and>
          tail_required_retained_bytes r' = tail_total_bytes layout \<and>
          tail_amount x \<le> unat (tail_max_retained_bytes limits)"
    using tail_plan_cases [of r limits bytes mapped_size parent x s] by (simp split: prod.splits option.splits)
  show "0 < tail_amount x" by (simp add: tail_amount_def tail_bytes_def)
  show "tail_inside mapped_size parent \<Longrightarrow> tail_counted bytes mapped_size limits parent x s \<Longrightarrow>
      tail_tables mem bytes limits parent = Some (x, u) \<Longrightarrow> tail_room mapped_size limits parent u \<Longrightarrow>
      tail_status r = SERIALIZED_FILE_METADATA_TAIL_OK \<Longrightarrow> tail_work_used r \<le> tail_max_work limits \<Longrightarrow>
      tail_total_bytes layout = of_nat (tail_amount x) \<Longrightarrow>
      case tail_replay mem parent layout address cells s r of
        (None, r') \<Rightarrow> \<not> tail_status r' = SERIALIZED_FILE_METADATA_TAIL_OK \<and> tail_work_used r' \<le> tail_max_work limits \<and>
          unat (tail_max_work limits) < unat (tail_work_used r) + u Work
      | (Some y, r') \<Rightarrow> tail_status r' = SERIALIZED_FILE_METADATA_TAIL_OK \<and> tail_work_used r' \<le> tail_max_work limits \<and>
          unat (tail_work_used r') = unat (tail_work_used r) + u Work \<and>
          tail_required_retained_bytes r' = tail_required_retained_bytes r \<and>
          tail_peak_retained_bytes r' = tail_peak_retained_bytes r \<and>
          tail_describes parent x u y \<and> tail_storage_address y = address \<and> tail_storage_cells y = cells"
    by (rule tail_replay_outcome)
qed simp_all

section \<open>Creation\<close>

definition tail_fits ::
    "allocator \<Rightarrow> u64 \<Rightarrow> SerializedFileMetadataTailLimits \<Rightarrow> SerializedFileDirectoryView \<Rightarrow> tracker \<Rightarrow>
     TailSections \<Rightarrow> usage \<Rightarrow> bool" where
  "tail_fits grants mapped_size limits parent t x u \<longleftrightarrow>
     tail_room mapped_size limits parent u \<and> tail_amount x \<le> unat (tail_max_retained_bytes limits) \<and>
     grants (allocator_calls t) (of_nat (tail_amount x)) \<and>
     2 * u Work + tail_amount x + 3 \<le> unat (tail_max_work limits)"

text \<open>
  A cursor outside the metadata or the mapping: the first read already fails, and no tail
  fits behind such a parent.
\<close>

lemma tail_outside:
  assumes "\<not> tail_inside mapped_size parent"
  shows "\<exists>t. scan_tail mem (tail_start_scan bytes mapped_size limits parent r) = (None, t) \<and>
    tail_status (tail_scan_result t) \<noteq> SERIALIZED_FILE_METADATA_TAIL_OK \<and>
    tail_work_used (tail_scan_result t) = tail_work_used r"
    and "tail_tables mem bytes limits parent = Some (x, u) \<Longrightarrow> \<not> tail_room mapped_size limits parent u"
proof -
  let ?s = "tail_start_scan bytes mapped_size limits parent r"
  let ?p = "range_offset (view_remaining_metadata parent)"
  have far: "range_offset (metadata_to_data_gap (header (view_prefix parent))) < ?p \<or> mapped_size < ?p"
    using assms by (auto simp: tail_inside_def tail_start_def word_less_nat_alt)
  define q where "q = (tail_lend_reader
    (?s\<lparr>tail_scan_field := SERIALIZED_FILE_METADATA_TAIL_FIELD_SCRIPT_COUNT, tail_scan_row_ordinal := SIZE_MAX\<rparr>))"
  have "\<not> (reader_position q \<le> reader_metadata_end q \<and> reader_position q \<le> reader_mapped_size q)"
    using far by (auto simp: q_def tail_lend_reader_def tail_start_scan_def)
  then have "fst (admit_extent 4 q) = None"
    using admit_extent_Some [of 4 q] by (cases "admit_extent 4 q"; cases "fst (admit_extent 4 q)") auto
  then obtain status offset where "admit_extent 4 q = (None, reject_reader status offset q)"
    using admit_extent_None [of 4 q] by (metis prod.collapse)
  then have "serialized_metadata_read_count mem q = (None, reject_reader status offset q)"
    by (simp add: serialized_metadata_read_count_def serialized_metadata_read_u32_def serialized_metadata_take_def
        step_then_def)
  then have "scan_tail mem ?s = (None, tail_reject_reader (tail_return_reader (reject_reader status offset q)
      (?s\<lparr>tail_scan_field := SERIALIZED_FILE_METADATA_TAIL_FIELD_SCRIPT_COUNT, tail_scan_row_ordinal := SIZE_MAX\<rparr>)))"
    by (simp add: scan_tail_def scan_table_def take_table_count_def step_with_def step_then_def step_modify_def
        tail_read_def step_inside_def q_def)
  then show "\<exists>t. scan_tail mem ?s = (None, t) \<and>
    tail_status (tail_scan_result t) \<noteq> SERIALIZED_FILE_METADATA_TAIL_OK \<and>
    tail_work_used (tail_scan_result t) = tail_work_used r"
    by (simp add: tail_return_reader_def reject_reader_def q_def tail_lend_reader_def tail_start_scan_def)
  show "tail_tables mem bytes limits parent = Some (x, u) \<Longrightarrow> \<not> tail_room mapped_size limits parent u"
    using assms g_tail_exhausts [of mem "tail_pass_context bytes limits parent" "tail_start parent" x u]
    by (auto simp: tail_tables_def tail_room_def tail_inside_def tail_pass_context_def)
qed

lemma build_tail_outcome:
  assumes r: "tail_status r = SERIALIZED_FILE_METADATA_TAIL_OK" "tail_work_used r = 1" "1 \<le> tail_max_work limits"
  shows "case build_tail mem place grants bytes mapped_size limits parent r t of
      (r', None, t') \<Rightarrow>
        tail_status r' \<noteq> SERIALIZED_FILE_METADATA_TAIL_OK \<and> tail_work_used r' \<le> tail_max_work limits \<and>
        owed None 0 t' = owed None 0 t \<and>
        \<not> (\<exists>x u. tail_tables mem bytes limits parent = Some (x, u) \<and> tail_fits grants mapped_size limits parent t x u)
    | (r', Some storage, t') \<Rightarrow>
        tail_status r' = SERIALIZED_FILE_METADATA_TAIL_OK \<and>
        (\<exists>x u. tail_tables mem bytes limits parent = Some (x, u) \<and> tail_fits grants mapped_size limits parent t x u \<and>
          unat (tail_work_used r') = 2 * u Work + tail_amount x + 3 \<and>
          tail_required_retained_bytes r' = of_nat (tail_amount x) \<and>
          tail_peak_retained_bytes r' = of_nat (tail_amount x) \<and>
          tail_describes parent x u storage \<and> tail_storage_address storage = place (allocator_calls t) \<and>
          owed (Some (tail_storage_cells storage)) (of_nat (tail_amount x)) t' = owed None 0 t)"
proof (cases "tail_inside mapped_size parent")
  case True
  have fits: "tail_passes.affordable limits mapped_size parent grants t (unat (tail_work_used r)) x u =
      tail_fits grants mapped_size limits parent t x u" for x u
    by (auto simp: tail_passes.affordable_def tail_fits_def r(2))
  show ?thesis
    using tail_passes.built [where mapped_size = mapped_size and parent = parent and limits = limits and r = r and
        mem = mem and bytes = bytes and place = place and grants = grants and t = t] True r
    unfolding build_tail_passes fits
    by (auto split: prod.splits option.splits)
next
  case False
  obtain s where "scan_tail mem (tail_start_scan bytes mapped_size limits parent r) = (None, s)"
    "tail_status (tail_scan_result s) \<noteq> SERIALIZED_FILE_METADATA_TAIL_OK"
    "tail_work_used (tail_scan_result s) = tail_work_used r"
    using tail_outside(1) [OF False] by blast
  then show ?thesis
    using tail_outside(2) [OF False] r by (auto simp: build_tail_def tail_fits_def)
qed

text \<open>
  What creation asks for: usable arguments, a live parent whose storage lies apart from every
  argument, the input the parent was built over, a tail that the grammar accepts up to the
  last byte of the metadata, and room for it.
\<close>

definition tail_admits where
  "tail_admits mem grants directory_address directory bytes mapped_size logical_size limits_address limits
       out_address t parent x u \<longleftrightarrow>
     tail_valid_arguments directory_address bytes mapped_size logical_size limits_address out_address \<and>
     (case directory of
        None \<Rightarrow> False
      | Some storage \<Rightarrow>
          parent = storage_view storage \<and>
          parent_storage_disjoint (storage_address storage) (retained_bytes parent) directory_address bytes
            mapped_size limits_address out_address) \<and>
     bytes = span_data (header_source (header (view_prefix parent))) \<and>
     logical_size = file_size (header (view_prefix parent)) \<and>
     tail_tables mem bytes limits parent = Some (x, u) \<and> tail_fits grants mapped_size limits parent t x u"

lemma g_script_work: "g_script mem ctx i p = Some (x, u) \<Longrightarrow> u Work = u Bytes + 1"
  by (auto simp: g_script_def g_then_Some dest!: g_take_work g_u32_work)

lemma g_external_work: "g_external mem ctx i p = Some (x, u) \<Longrightarrow> u Work = u Bytes + 1"
  by (auto simp: g_external_def g_then_Some dest!: g_take_work g_u32_work g_string_words)

lemma g_reference_work: "g_reference mem ctx i p = Some (x, u) \<Longrightarrow> u Work = u Bytes + 1"
  by (auto simp: g_reference_def g_reference_tree_def Let_def g_then_Some
      dest!: g_type_prefix_work g_tree_work g_string_words split: if_splits)

lemma g_tail_table_work:
  assumes "\<And>i p x u. row i p = Some (x, u) \<Longrightarrow> u Work = u Bytes + 1"
    and "g_tail_table mem ctx allowed capacity row p = Some ((at, span, rows), u)"
  shows "u Work = u Bytes + length rows"
  using assms(2) g_rows_work [of row, OF assms(1)]
  by (fastforce simp: g_tail_table_Some g_tail_count_Some dest: g_count_work)

lemma tail_tables_work:
  "g_tail_table mem ctx allowed capacity (g_script m c) p = Some ((at, span, scripts), u) \<Longrightarrow>
     u Work = u Bytes + length scripts"
  "g_tail_table mem ctx allowed capacity (g_external m c) p = Some ((at, span, externals), u) \<Longrightarrow>
     u Work = u Bytes + length externals"
  "g_tail_table mem ctx allowed capacity (g_reference m c) p = Some ((at, span, references), u) \<Longrightarrow>
     u Work = u Bytes + length references"
  by (erule g_tail_table_work [rotated], erule g_script_work g_external_work g_reference_work)+

lemma tail_work:
  assumes "tail_tables mem bytes limits parent = Some (x, u)"
  shows "u Work = u Bytes + length (found_script_rows x) + length (found_external_rows x) +
    length (found_reference_rows x)"
  using assms unfolding tail_tables_def g_tail_Some Let_def
  by (auto dest!: tail_tables_work g_string_words)

lemma tail_create_outcome:
  "case serialized_file_metadata_tail_create mem place grants directory_address directory bytes mapped_size
        logical_size limits_address limits out_address None t of
     (r, None, t') \<Rightarrow>
       tail_status r \<noteq> SERIALIZED_FILE_METADATA_TAIL_OK \<and>
       unat (tail_work_used r) \<le> unat (tail_max_work limits) \<and> owed None 0 t' = owed None 0 t \<and>
       \<not> (\<exists>parent x u. tail_admits mem grants directory_address directory bytes mapped_size logical_size
            limits_address limits out_address t parent x u)
   | (r, Some storage, t') \<Rightarrow>
       tail_status r = SERIALIZED_FILE_METADATA_TAIL_OK \<and>
       (\<exists>parent x u. tail_admits mem grants directory_address directory bytes mapped_size logical_size
            limits_address limits out_address t parent x u \<and>
          unat (tail_work_used r) =
            2 * (u Bytes + length (storage_scripts storage) + length (storage_externals storage) +
                 length (storage_reference_types storage)) + tail_amount x + 3 \<and>
          tail_required_retained_bytes r = of_nat (tail_amount x) \<and>
          tail_peak_retained_bytes r = of_nat (tail_amount x) \<and>
          tail_describes parent x u storage \<and> tail_storage_address storage = place (allocator_calls t) \<and>
          owed (Some (tail_storage_cells storage)) (tail_retained_bytes (tail_storage_view storage)) t' =
            owed None 0 t)"
proof (cases "tail_valid_arguments directory_address bytes mapped_size logical_size limits_address out_address")
  case False
  then show ?thesis
    by (simp add: serialized_file_metadata_tail_create_def tail_admits_def tail_initial_result_def)
next
  case arguments: True
  show ?thesis
  proof (cases directory)
    case None
    with arguments show ?thesis
      by (simp add: serialized_file_metadata_tail_create_def tail_admits_def tail_initial_result_def
          serialized_file_directory_storage_range_internal_def)
  next
    case (Some owner)
    let ?parent = "storage_view owner"
    show ?thesis
    proof (cases "parent_storage_disjoint (storage_address owner) (retained_bytes ?parent) directory_address bytes
        mapped_size limits_address out_address \<and> 1 \<le> unat (tail_max_work limits) \<and>
        bytes = span_data (header_source (header (view_prefix ?parent))) \<and>
        logical_size = file_size (header (view_prefix ?parent))")
      case False
      have start: "tail_work_used tail_initial_result \<le> tail_max_work limits"
        by (simp add: tail_initial_result_def)
      have "\<not> (\<exists>parent x u. tail_admits mem grants directory_address directory bytes mapped_size logical_size
            limits_address limits out_address t parent x u)"
        using False by (auto simp: tail_admits_def Some tail_fits_def)
      then show ?thesis
        using arguments Some False tail_charge_cases [OF start, where amount = 1]
        by (auto simp: serialized_file_metadata_tail_create_def serialized_file_directory_view_def
            serialized_file_directory_storage_range_internal_def tail_initial_result_def Let_def word_le_nat_alt
            split: if_splits)
    next
      case True
      define r where "r = tail_initial_result\<lparr>tail_work_used := 1\<rparr>"
      have r: "tail_status r = SERIALIZED_FILE_METADATA_TAIL_OK" "tail_work_used r = 1" "1 \<le> tail_max_work limits"
        using True by (simp_all add: r_def tail_initial_result_def word_le_nat_alt)
      have disjoint: "parent_storage_disjoint (storage_address owner) (retained_bytes ?parent) directory_address bytes
          mapped_size limits_address out_address"
        and same: "bytes = span_data (header_source (header (view_prefix ?parent)))"
          "logical_size = file_size (header (view_prefix ?parent))"
        using True by blast+
      have charged: "charge_owner_work limits 1 tail_initial_result = (Some (), r)"
        using tail_charge_cases(1) [of tail_initial_result limits 1] True by (simp add: tail_initial_result_def r_def)
      have run: "serialized_file_metadata_tail_create mem place grants directory_address directory bytes mapped_size
            logical_size limits_address limits out_address None t =
          build_tail mem place grants bytes mapped_size limits ?parent r t"
        using arguments disjoint Some charged
        by (simp add: serialized_file_metadata_tail_create_def serialized_file_directory_view_def
            serialized_file_directory_storage_range_internal_def Let_def same [symmetric])
      have admits: "tail_admits mem grants directory_address directory bytes mapped_size logical_size
            limits_address limits out_address t parent x u \<longleftrightarrow>
          parent = ?parent \<and> tail_tables mem bytes limits ?parent = Some (x, u) \<and>
          tail_fits grants mapped_size limits ?parent t x u" for parent x u
        using arguments disjoint Some by (auto simp: tail_admits_def same [symmetric])
      note built = build_tail_outcome [OF r, where mem = mem and place = place and grants = grants and bytes = bytes and
          mapped_size = mapped_size and parent = ?parent and t = t]
      obtain r' out t' where stop: "build_tail mem place grants bytes mapped_size limits ?parent r t = (r', out, t')"
        by (metis surj_pair)
      show ?thesis
      proof (cases out)
        case None
        then show ?thesis using built unfolding run stop admits by (auto simp: word_le_nat_alt)
      next
        case (Some storage)
        note built = built [unfolded stop Some prod.case option.case]
        then obtain x u where x: "tail_tables mem bytes limits ?parent = Some (x, u)"
          "tail_fits grants mapped_size limits ?parent t x u" "unat (tail_work_used r') = 2 * u Work + tail_amount x + 3"
          "tail_required_retained_bytes r' = of_nat (tail_amount x)"
          "tail_peak_retained_bytes r' = of_nat (tail_amount x)" "tail_describes ?parent x u storage"
          "tail_storage_address storage = place (allocator_calls t)"
          "owed (Some (tail_storage_cells storage)) (of_nat (tail_amount x)) t' = owed None 0 t"
          by (elim exE conjE)
        have "tail_retained_bytes (tail_storage_view storage) = of_nat (tail_amount x)"
          using x(6) by (simp add: tail_describes_def)
        moreover have "u Work = u Bytes + length (storage_scripts storage) + length (storage_externals storage) +
            length (storage_reference_types storage)"
          using tail_work [OF x(1)] x(6) by (simp add: tail_describes_def)
        ultimately show ?thesis
          unfolding run stop Some prod.case option.case admits
          using built x by (intro conjI exI [of _ ?parent] exI [of _ x] exI [of _ u]) simp_all
      qed
    qed
  qed
qed

section \<open>What is published\<close>

text \<open>
  A well-formed tail: as many rows as the counts say, in original order; the rows tile their
  tables, and the counts, tables and user information tile the tail, which runs from the
  parent's cursor to the end of the metadata.
\<close>

definition tail_wellformed :: "TailStorage \<Rightarrow> bool" where
  "tail_wellformed storage \<longleftrightarrow>
     (let view = tail_storage_view storage; parent = tail_directory view
      in map script_ordinal (storage_scripts storage) = map of_nat [0..<unat (script_count view)] \<and>
         map external_ordinal (storage_externals storage) = map of_nat [0..<unat (external_count view)] \<and>
         map reference_ordinal (storage_reference_types storage) =
           map of_nat [0..<unat (reference_type_count view)] \<and>
         spans_tile (span_start (script_rows_source view)) (span_end (script_rows_source view))
           (map script_source (storage_scripts storage)) \<and>
         spans_tile (span_start (external_rows_source view)) (span_end (external_rows_source view))
           (map external_source (storage_externals storage)) \<and>
         spans_tile (span_start (reference_type_rows_source view)) (span_end (reference_type_rows_source view))
           (map reference_source (storage_reference_types storage)) \<and>
         spans_tile (tail_start parent) (unat (range_offset (metadata_to_data_gap (header (view_prefix parent)))))
           [script_count_source view, script_rows_source view, external_count_source view,
            external_rows_source view, reference_type_count_source view, reference_type_rows_source view,
            user_information_source view] \<and>
         span_start (tail_source view) = tail_start parent \<and>
         span_end (tail_source view) = unat (range_offset (metadata_to_data_gap (header (view_prefix parent)))))"

lemma tail_span_exact:
  assumes "p \<le> q" "q < 2 ^ 64"
  shows "unat (span_offset (tail_span ctx p q)) = p" "unat (span_size (tail_span ctx p q)) = q - p"
  using span_between_exact [OF assms] by (simp_all add: span_between_def tail_span_def mapped_span_def)

text \<open>Rows of one table, from the source and ordinal of each.\<close>

lemma g_tail_table_tiles:
  assumes row: "\<And>i p x u. row i p = Some (x, u) \<Longrightarrow>
      source x = tail_span ctx p (p + u Bytes) \<and> ordinal x = of_nat i"
    and table: "g_tail_table mem ctx allowed capacity row p = Some ((at, span, rows), u)"
    and top: "p + u Bytes < 2 ^ 64"
  shows "map ordinal rows = map of_nat [0..<length rows] \<and> length rows < 2 ^ 64 \<and>
    spans_tile (span_start span) (span_end span) (map source rows) \<and>
    spans_tile p (p + u Bytes) [at, span]"
proof -
  obtain n u1 u2 where count: "g_tail_count mem ctx allowed capacity p = Some ((at, n), u1)"
    and rows: "g_rows row 0 (unat n) (p + u1 Bytes) = Some (rows, u2)"
    and span: "span = tail_span ctx (p + u1 Bytes) (p + u1 Bytes + u2 Bytes)" and u: "u = both u1 u2"
    using table unfolding g_tail_table_Some by blast
  have four: "u1 Bytes = 4" "unat (span_offset at) = p" "unat (span_size at) = 4"
    using count top
    by (auto simp: u g_tail_count_Some g_count_def g_u32_def g_then_Some g_take_def mapped_span_def unat_of_nat)
  have tiles: "spans_tile (p + u1 Bytes) (p + u1 Bytes + u2 Bytes) (map source rows) \<and>
      map ordinal rows = map of_nat [0..<0 + unat n]"
  proof (rule g_rows_tile [OF _ rows])
    fix i q x v
    assume "row i q = Some (x, v)" "q + v Bytes < 2 ^ 64"
    then show "unat (span_offset (source x)) = q \<and> unat (span_size (source x)) = v Bytes \<and> ordinal x = of_nat i"
      using row [of i q x v] tail_span_exact [of q "q + v Bytes" ctx] by simp
  qed (use top u in simp)
  have ends: "unat (span_offset span) = p + u1 Bytes" "unat (span_size span) = u2 Bytes"
    unfolding span using tail_span_exact [of "p + u1 Bytes" "p + u1 Bytes + u2 Bytes" ctx] top u by simp_all
  show ?thesis
    using tiles four ends g_rows_length [OF rows] u64_bound [of n]
    by (simp add: span_start_def span_end_def u)
qed

lemma g_script_source:
  "g_script mem ctx i p = Some (x, u) \<Longrightarrow> script_source x = tail_span ctx p (p + u Bytes) \<and> script_ordinal x = of_nat i"
  by (auto simp: g_script_def g_then_Some add.assoc)

lemma g_external_source:
  "g_external mem ctx i p = Some (x, u) \<Longrightarrow>
     external_source x = tail_span ctx p (p + u Bytes) \<and> external_ordinal x = of_nat i"
  by (auto simp: g_external_def g_then_Some add.assoc)

lemma g_reference_source:
  "g_reference mem ctx i p = Some (x, u) \<Longrightarrow>
     reference_source x = tail_span ctx p (p + u Bytes) \<and> reference_ordinal x = of_nat i"
  by (auto simp: g_reference_def g_reference_tree_def Let_def g_then_Some add.assoc split: if_splits)

lemma script_tiles:
  assumes "g_tail_table mem ctx allowed capacity (g_script mem ctx) p = Some ((at, span, rows), u)" "p + u Bytes < 2 ^ 64"
  shows "map script_ordinal rows = map of_nat [0..<length rows] \<and> length rows < 2 ^ 64 \<and>
    spans_tile (span_start span) (span_end span) (map script_source rows) \<and> spans_tile p (p + u Bytes) [at, span]"
  by (rule g_tail_table_tiles [OF _ assms]) (rule g_script_source)

lemma external_tiles:
  assumes "g_tail_table mem ctx allowed capacity (g_external mem ctx) p = Some ((at, span, rows), u)" "p + u Bytes < 2 ^ 64"
  shows "map external_ordinal rows = map of_nat [0..<length rows] \<and> length rows < 2 ^ 64 \<and>
    spans_tile (span_start span) (span_end span) (map external_source rows) \<and> spans_tile p (p + u Bytes) [at, span]"
  by (rule g_tail_table_tiles [OF _ assms]) (rule g_external_source)

lemma reference_tiles:
  assumes "g_tail_table mem ctx allowed capacity (g_reference mem ctx) p = Some ((at, span, rows), u)" "p + u Bytes < 2 ^ 64"
  shows "map reference_ordinal rows = map of_nat [0..<length rows] \<and> length rows < 2 ^ 64 \<and>
    spans_tile (span_start span) (span_end span) (map reference_source rows) \<and> spans_tile p (p + u Bytes) [at, span]"
  by (rule g_tail_table_tiles [OF _ assms]) (rule g_reference_source)

lemma g_string_span:
  assumes "g_string mem base extent p = Some (span, u)" "p + u Bytes < 2 ^ 64"
  shows "unat (span_offset span) = p \<and> unat (span_size span) = u Bytes"
proof -
  obtain n where span: "span = mapped_span base (of_nat p) (of_nat (n + 1))" and u: "u Bytes = n + 1"
    using assms(1) by (auto simp: g_string_def string_use_def)
  have "unat (of_nat p :: u64) = p" "unat (of_nat (n + 1) :: u64) = n + 1"
    using assms(2) u by (simp_all only: unat_of_nat) auto
  then show ?thesis by (simp add: span mapped_span_def u del: of_nat_add)
qed

lemma spans_tile_append:
  "spans_tile p q xs \<Longrightarrow> spans_tile q r ys \<Longrightarrow> spans_tile p r (xs @ ys)"
  by (induction xs arbitrary: p) auto

lemma tail_describes_wellformed:
  assumes tables: "tail_tables mem bytes limits parent = Some (x, u)"
    and room: "tail_room mapped_size limits parent u"
    and storage: "tail_describes parent x u storage"
  shows "tail_wellformed storage"
proof -
  let ?ctx = "tail_pass_context bytes limits parent" and ?p = "tail_start parent"
  obtain u1 u2 u3 u4 where
    parts: "g_tail_table mem ?ctx (max_scripts limits) 0 (g_script mem ?ctx) ?p =
        Some ((found_script_count x, found_scripts x, found_script_rows x), u1)"
      "g_tail_table mem ?ctx (max_externals limits) 0 (g_external mem ?ctx) (?p + u1 Bytes) =
        Some ((found_external_count x, found_externals x, found_external_rows x), u2)"
      "g_tail_table mem ?ctx (max_reference_types limits) 0 (g_reference mem ?ctx) (?p + u1 Bytes + u2 Bytes) =
        Some ((found_reference_count x, found_references x, found_reference_rows x), u3)"
      "g_string mem bytes (tail_extent ?ctx) (?p + u1 Bytes + u2 Bytes + u3 Bytes) =
        Some (found_user_information x, u4)"
      "?p + u1 Bytes + u2 Bytes + u3 Bytes + u4 Bytes = tail_extent ?ctx"
      "found_source x = tail_span ?ctx ?p (tail_extent ?ctx)"
    and u: "u = both u1 (both u2 (both u3 u4))"
    using tables unfolding tail_tables_def g_tail_Some Let_def by (auto simp: tail_pass_context_def)
  have top: "?p + u1 Bytes + u2 Bytes + u3 Bytes + u4 Bytes < 2 ^ 64"
    using room u u64_bound [of mapped_size] by (simp add: tail_room_def add.assoc)
  note scripts = script_tiles [OF parts(1)] and externals = external_tiles [OF parts(2)]
    and references = reference_tiles [OF parts(3)]
  have user: "spans_tile (?p + u1 Bytes + u2 Bytes + u3 Bytes) (tail_extent ?ctx) [found_user_information x]"
    using g_string_span [OF parts(4)] parts(5) top by simp
  have whole: "span_start (found_source x) = ?p" "span_end (found_source x) = tail_extent ?ctx"
    unfolding parts(6) using tail_span_exact [of ?p "tail_extent ?ctx" ?ctx] parts(5) top
    by (simp_all add: span_start_def span_end_def)
  have tiled: "spans_tile ?p (tail_extent ?ctx)
      ([found_script_count x, found_scripts x] @ [found_external_count x, found_externals x] @
       [found_reference_count x, found_references x] @ [found_user_information x])"
    using scripts externals references user top by (intro spans_tile_append) auto
  have extent: "tail_extent ?ctx = unat (range_offset (metadata_to_data_gap (header (view_prefix parent))))"
    by (simp add: tail_pass_context_def)
  have wide: "unat (of_nat (length (found_script_rows x)) :: u64) = length (found_script_rows x)"
    "unat (of_nat (length (found_external_rows x)) :: u64) = length (found_external_rows x)"
    "unat (of_nat (length (found_reference_rows x)) :: u64) = length (found_reference_rows x)"
    using scripts externals references top by (simp_all add: unat_of_nat)
  show ?thesis
    unfolding tail_wellformed_def Let_def
    using storage scripts externals references tiled whole top wide
    by (simp add: tail_describes_def tail_sections_view_def tail_start_view_def Let_def extent)
qed

section \<open>Correctness\<close>

text \<open>
  Property C2. For an empty output, creation publishes a tail exactly when its arguments are
  usable, the parent is live, lies apart from every argument and was built over this input,
  the grammar accepts the tail up to the last byte of the metadata, and the caps, the
  allocator and the work budget afford it. It then costs \<open>2(B + S + E + R) + A + 3\<close> units and
  the storage holds the rows of the grammar. Otherwise it fails inside the budget, leaves the
  output empty and owes the allocator nothing.
\<close>

theorem metadata_tail_create_correct:
  "case serialized_file_metadata_tail_create mem place grants directory_address directory bytes mapped_size
        logical_size limits_address limits out_address None t of
     (r, None, t') \<Rightarrow>
       tail_status r \<noteq> SERIALIZED_FILE_METADATA_TAIL_OK \<and>
       unat (tail_work_used r) \<le> unat (tail_max_work limits) \<and> owed None 0 t' = owed None 0 t \<and>
       \<not> (\<exists>parent x u. tail_admits mem grants directory_address directory bytes mapped_size logical_size
            limits_address limits out_address t parent x u)
   | (r, Some storage, t') \<Rightarrow>
       tail_status r = SERIALIZED_FILE_METADATA_TAIL_OK \<and>
       (\<exists>parent x u. tail_admits mem grants directory_address directory bytes mapped_size logical_size
            limits_address limits out_address t parent x u \<and>
          unat (tail_work_used r) =
            2 * (u Bytes + length (storage_scripts storage) + length (storage_externals storage) +
                 length (storage_reference_types storage)) + tail_amount x + 3 \<and>
          tail_required_retained_bytes r = of_nat (tail_amount x) \<and>
          tail_peak_retained_bytes r = of_nat (tail_amount x) \<and>
          tail_describes parent x u storage \<and> tail_storage_address storage = place (allocator_calls t) \<and>
          owed (Some (tail_storage_cells storage)) (tail_retained_bytes (tail_storage_view storage)) t' =
            owed None 0 t)"
  by (rule tail_create_outcome)

lemma created_tail:
  assumes "serialized_file_metadata_tail_create mem place grants directory_address directory bytes mapped_size
        logical_size limits_address limits out_address None t = (r, Some storage, t')"
  shows "tail_wellformed storage"
    and "owed (Some (tail_storage_cells storage)) (tail_retained_bytes (tail_storage_view storage)) t' = owed None 0 t"
    and "directory \<noteq> None \<and> tail_directory (tail_storage_view storage) = storage_view (the directory)"
proof -
  note created = tail_create_outcome [where mem = mem and place = place and grants = grants and
        directory_address = directory_address and directory = directory and bytes = bytes and
        mapped_size = mapped_size and logical_size = logical_size and limits_address = limits_address and
        limits = limits and out_address = out_address and t = t, unfolded assms prod.case option.case]
  then show "owed (Some (tail_storage_cells storage)) (tail_retained_bytes (tail_storage_view storage)) t' = owed None 0 t"
    by blast
  from created obtain parent x u where admits: "tail_admits mem grants directory_address directory bytes mapped_size
      logical_size limits_address limits out_address t parent x u" and storage: "tail_describes parent x u storage"
    by blast
  then show "tail_wellformed storage"
    by (auto simp: tail_admits_def tail_fits_def intro: tail_describes_wellformed)
  show "directory \<noteq> None \<and> tail_directory (tail_storage_view storage) = storage_view (the directory)"
    using admits storage
    by (auto simp: tail_admits_def tail_describes_def tail_sections_view_def tail_start_view_def Let_def
        split: option.splits)
qed

text \<open>
  Property C18. A created tail is well formed: its rows come in original order, as many as
  the counts say, and tile their tables; the counts, the tables and the user information tile
  the tail, which runs from the directory's cursor to the end of the metadata.
\<close>

theorem metadata_tail_create_wellformed:
  "case serialized_file_metadata_tail_create mem place grants directory_address directory bytes mapped_size
        logical_size limits_address limits out_address None t of
     (r, out, t') \<Rightarrow> (case out of None \<Rightarrow> True | Some storage \<Rightarrow> tail_wellformed storage)"
  by (auto split: prod.split option.split dest: created_tail(1))

text \<open>
  Property C23. A tail's life cycle: disposing of what creation left gives the allocator's
  counters back as they were and a second disposal changes nothing; while it lives, the row
  accessors answer exactly the ordinals below the counts, with the row of that ordinal.
\<close>

theorem metadata_tail_lifecycle:
  "case serialized_file_metadata_tail_create mem place grants directory_address directory bytes mapped_size
        logical_size limits_address limits out_address None t of
     (r, out, t') \<Rightarrow>
       (case serialized_file_metadata_tail_dispose out t' of
          (left, t'') \<Rightarrow>
            left = None \<and> owed None 0 t'' = owed None 0 t \<and>
            serialized_file_metadata_tail_dispose left t'' = (None, t'')) \<and>
       map_option script_ordinal (serialized_file_metadata_tail_script out i) =
         (case out of None \<Rightarrow> None
          | Some storage \<Rightarrow> if unat i < length (storage_scripts storage) then Some i else None) \<and>
       map_option external_ordinal (serialized_file_metadata_tail_external out i) =
         (case out of None \<Rightarrow> None
          | Some storage \<Rightarrow> if unat i < length (storage_externals storage) then Some i else None) \<and>
       map_option reference_ordinal (serialized_file_metadata_tail_reference_type out i) =
         (case out of None \<Rightarrow> None
          | Some storage \<Rightarrow> if unat i < length (storage_reference_types storage) then Some i else None)"
proof -
  obtain r out t' where run: "serialized_file_metadata_tail_create mem place grants directory_address directory
      bytes mapped_size logical_size limits_address limits out_address None t = (r, out, t')"
    by (metis surj_pair)
  show ?thesis
  proof (cases out)
    case None
    then show ?thesis
      using tail_create_outcome [where mem = mem and place = place and grants = grants and
        directory_address = directory_address and directory = directory and bytes = bytes and
        mapped_size = mapped_size and logical_size = logical_size and limits_address = limits_address and
        limits = limits and out_address = out_address and t = t] run
      by (simp add: serialized_file_metadata_tail_dispose_def serialized_file_metadata_tail_script_def
          serialized_file_metadata_tail_external_def serialized_file_metadata_tail_reference_type_def)
  next
    case (Some storage)
    note good = created_tail(1) [OF run [unfolded Some], unfolded tail_wellformed_def Let_def]
    have counts: "unat (script_count (tail_storage_view storage)) = length (storage_scripts storage)"
      "unat (external_count (tail_storage_view storage)) = length (storage_externals storage)"
      "unat (reference_type_count (tail_storage_view storage)) = length (storage_reference_types storage)"
      using good by (metis length_map length_upt diff_zero)+
    have rows: "script_ordinal (storage_scripts storage ! unat i) = i" if "unat i < length (storage_scripts storage)"
      using good [unfolded counts] that by (blast intro: ordinals_in_order)
    moreover have "external_ordinal (storage_externals storage ! unat i) = i"
      if "unat i < length (storage_externals storage)"
      using good [unfolded counts] that by (blast intro: ordinals_in_order)
    moreover have "reference_ordinal (storage_reference_types storage ! unat i) = i"
      if "unat i < length (storage_reference_types storage)"
      using good [unfolded counts] that by (blast intro: ordinals_in_order)
    ultimately show ?thesis
      using run Some created_tail(2) [OF run [unfolded Some]]
      by (simp add: serialized_file_metadata_tail_script_def serialized_file_metadata_tail_external_def
          serialized_file_metadata_tail_reference_type_def word_less_nat_alt counts
          serialized_file_metadata_tail_dispose_def mem_free_def owed_def)
  qed
qed

end
