(* ===== verification/ReferenceIndex.thy ===== *)
theory ReferenceIndex
  imports MetadataTailCreate
begin

text \<open>
  \<open>src/io/serialized_file_reference_index.c\<close>: a catalogue of the reference types of a metadata
  tail, in original order, and the query for the rows with a given identity. The index is
  counted, allocated once and filled like the owners below it; the tail is the value its
  handle holds and addresses are arguments.
\<close>

section \<open>Data\<close>

record SerializedFileReferenceIndexView =
  index_engine_version :: u32
  index_prefix :: SerializedFilePrefixView
  index_tail_source :: SerializedFilePrefixSpan
  index_count_source :: SerializedFilePrefixSpan
  index_rows_source :: SerializedFilePrefixSpan
  index_reference_type_count :: u64
  identity_source_bytes :: u64
  index_retained_bytes :: u64

record SerializedFileReferenceIndexLimits =
  index_max_reference_types :: u64
  max_identity_source_bytes :: u64
  index_max_retained_bytes :: u64
  index_max_work :: u64

datatype SerializedFileReferenceIndexStatus =
    SERIALIZED_FILE_REFERENCE_INDEX_OK
  | SERIALIZED_FILE_REFERENCE_INDEX_INVALID_ARGUMENT
  | SERIALIZED_FILE_REFERENCE_INDEX_INVALID_STATE
  | SERIALIZED_FILE_REFERENCE_INDEX_UNSUPPORTED_ENGINE
  | SERIALIZED_FILE_REFERENCE_INDEX_IDENTITIES_UNAVAILABLE
  | SERIALIZED_FILE_REFERENCE_INDEX_SOURCE_MISMATCH
  | SERIALIZED_FILE_REFERENCE_INDEX_LIMIT_EXCEEDED
  | SERIALIZED_FILE_REFERENCE_INDEX_ALLOCATION_FAILED

datatype SerializedFileReferenceIndexLimit =
    SERIALIZED_FILE_REFERENCE_INDEX_LIMIT_NONE
  | SERIALIZED_FILE_REFERENCE_INDEX_LIMIT_REFERENCE_TYPES
  | SERIALIZED_FILE_REFERENCE_INDEX_LIMIT_IDENTITY_SOURCE_BYTES
  | SERIALIZED_FILE_REFERENCE_INDEX_LIMIT_RETAINED_BYTES
  | SERIALIZED_FILE_REFERENCE_INDEX_LIMIT_COMPONENT_BYTES
  | SERIALIZED_FILE_REFERENCE_INDEX_LIMIT_KEY_BYTES
  | SERIALIZED_FILE_REFERENCE_INDEX_LIMIT_WORK

datatype SerializedFileReferenceIdentityComponent =
    SERIALIZED_FILE_REFERENCE_IDENTITY_NONE
  | SERIALIZED_FILE_REFERENCE_IDENTITY_CLASS
  | SERIALIZED_FILE_REFERENCE_IDENTITY_NAMESPACE
  | SERIALIZED_FILE_REFERENCE_IDENTITY_ASSEMBLY

definition k_components :: "SerializedFileReferenceIdentityComponent list" where
  "k_components =
     [SERIALIZED_FILE_REFERENCE_IDENTITY_CLASS, SERIALIZED_FILE_REFERENCE_IDENTITY_NAMESPACE,
      SERIALIZED_FILE_REFERENCE_IDENTITY_ASSEMBLY]"

record SerializedFileReferenceIndexResult =
  index_status :: SerializedFileReferenceIndexStatus
  index_limit :: SerializedFileReferenceIndexLimit
  index_component :: SerializedFileReferenceIdentityComponent
  result_reference_type_count :: u64
  index_row_ordinal :: u64
  index_error_offset :: u64
  index_work_used :: u64
  index_required_retained_bytes :: u64
  index_peak_retained_bytes :: u64

record ReferenceIndexStorage =
  index_storage_address :: pointer
  index_storage_cells :: block
  index_storage_view :: SerializedFileReferenceIndexView
  index_storage_rows :: "SerializedFileMetadataTailReferenceTypeRow list"
  storage_known_size :: u64

type_synonym SerializedFileReferenceIndex = "ReferenceIndexStorage option"

record ReferenceIndexBuild =
  build_limits :: SerializedFileReferenceIndexLimits
  build_parent :: "SerializedFileMetadataTailView option"
  build_view :: SerializedFileReferenceIndexView
  build_result :: SerializedFileReferenceIndexResult
  build_bytes :: pointer
  build_known_size :: u64

abbreviation sizeof_index_handle :: u64 where "sizeof_index_handle \<equiv> 8"
abbreviation sizeof_index_limits :: u64 where "sizeof_index_limits \<equiv> 32"
abbreviation sizeof_index_storage :: u64 where "sizeof_index_storage \<equiv> 592"

definition index_initial_result :: SerializedFileReferenceIndexResult where
  "index_initial_result =
     \<lparr>index_status = SERIALIZED_FILE_REFERENCE_INDEX_OK, index_limit = SERIALIZED_FILE_REFERENCE_INDEX_LIMIT_NONE,
      index_component = SERIALIZED_FILE_REFERENCE_IDENTITY_NONE, result_reference_type_count = 0,
      index_row_ordinal = SIZE_MAX, index_error_offset = UINT64_MAX, index_work_used = 0,
      index_required_retained_bytes = 0, index_peak_retained_bytes = 0\<rparr>"

section \<open>Ranges of addresses\<close>

definition range_is_valid :: "pointer \<Rightarrow> u64 \<Rightarrow> bool" where
  "range_is_valid start amount \<longleftrightarrow> amount = 0 \<or> (start \<noteq> 0 \<and> amount \<le> UINT64_MAX - start)"

text \<open>Every range against all that come before it.\<close>

fun ranges_are_disjoint :: "(pointer \<times> u64) list \<Rightarrow> (pointer \<times> u64) list \<Rightarrow> bool" where
  "ranges_are_disjoint earlier [] \<longleftrightarrow> True"
| "ranges_are_disjoint earlier ((start, amount) # ranges) \<longleftrightarrow>
     range_is_valid start amount \<and>
     list_all (\<lambda>(start', amount'). \<not> serialized_file_storage_overlaps_internal start amount start' amount') earlier \<and>
     ranges_are_disjoint (earlier @ [(start, amount)]) ranges"

section \<open>Refusals and charges\<close>

definition reject_result ::
    "SerializedFileReferenceIndexStatus \<Rightarrow> SerializedFileReferenceIndexLimit \<Rightarrow>
     SerializedFileReferenceIdentityComponent \<Rightarrow> u64 \<Rightarrow> u64 \<Rightarrow>
     SerializedFileReferenceIndexResult \<Rightarrow> SerializedFileReferenceIndexResult" where
  "reject_result status limit component ordinal offset result = result
     \<lparr>index_status := status, index_limit := limit, index_component := component,
      index_row_ordinal := ordinal, index_error_offset := offset\<rparr>"

definition reject_build ::
    "SerializedFileReferenceIndexStatus \<Rightarrow> SerializedFileReferenceIndexLimit \<Rightarrow>
     SerializedFileReferenceIdentityComponent \<Rightarrow> u64 \<Rightarrow> u64 \<Rightarrow> ReferenceIndexBuild \<Rightarrow> ReferenceIndexBuild" where
  "reject_build status limit component ordinal offset build = build
     \<lparr>build_result := reject_result status limit component ordinal offset (build_result build)\<rparr>"

definition charge_result ::
    "SerializedFileReferenceIndexLimits \<Rightarrow> u64 \<Rightarrow> u64 \<Rightarrow> u64 \<Rightarrow> (SerializedFileReferenceIndexResult, unit) step" where
  "charge_result limits amount ordinal offset =
     step_then (step_require (\<lambda>result. \<not> amount > index_max_work limits - index_work_used result)
         (reject_result SERIALIZED_FILE_REFERENCE_INDEX_LIMIT_EXCEEDED SERIALIZED_FILE_REFERENCE_INDEX_LIMIT_WORK
            SERIALIZED_FILE_REFERENCE_IDENTITY_NONE ordinal offset)) (\<lambda>_.
     step_modify (\<lambda>result. result\<lparr>index_work_used := index_work_used result + amount\<rparr>))"

text \<open>The charge on the result that a build carries.\<close>

definition charge_build :: "u64 \<Rightarrow> u64 \<Rightarrow> u64 \<Rightarrow> (ReferenceIndexBuild, unit) step" where
  "charge_build amount ordinal offset build =
     (case charge_result (build_limits build) amount ordinal offset (build_result build) of
        (out, result) \<Rightarrow> (out, build\<lparr>build_result := result\<rparr>))"

abbreviation owner_refusal ::
    "SerializedFileReferenceIndexStatus \<Rightarrow> SerializedFileReferenceIndexLimit \<Rightarrow>
     SerializedFileReferenceIndexResult \<Rightarrow> SerializedFileReferenceIndexResult" where
  "owner_refusal status limit \<equiv>
     reject_result status limit SERIALIZED_FILE_REFERENCE_IDENTITY_NONE SIZE_MAX UINT64_MAX"

definition reject_owner ::
    "SerializedFileReferenceIndexStatus \<Rightarrow> SerializedFileReferenceIndexLimit \<Rightarrow>
     ReferenceIndexBuild \<Rightarrow> ReferenceIndexBuild" where
  "reject_owner status limit =
     reject_build status limit SERIALIZED_FILE_REFERENCE_IDENTITY_NONE SIZE_MAX UINT64_MAX"

section \<open>Admission of the parent\<close>

definition source_is_backed :: "ReferenceIndexBuild \<Rightarrow> SerializedFilePrefixSpan \<Rightarrow> bool" where
  "source_is_backed build source \<longleftrightarrow>
     span_offset source \<le> build_known_size build \<and>
     span_size source \<le> build_known_size build - span_offset source \<and>
     span_data source = build_bytes build + span_offset source"

definition prepare_parent ::
    "pointer \<Rightarrow> SerializedFileMetadataTail \<Rightarrow> pointer \<Rightarrow> pointer \<Rightarrow> SerializedFileReferenceIndex \<Rightarrow>
     (ReferenceIndexBuild, unit) step" where
  "prepare_parent tail_address tail limits_address out_address out =
     step_then (step_require
         (\<lambda>_. tail_address \<noteq> 0 \<and> limits_address \<noteq> 0 \<and> out_address \<noteq> 0 \<and>
            ranges_are_disjoint [] [(tail_address, sizeof_tail_handle), (limits_address, sizeof_index_limits),
              (out_address, sizeof_index_handle)])
         (reject_owner SERIALIZED_FILE_REFERENCE_INDEX_INVALID_ARGUMENT SERIALIZED_FILE_REFERENCE_INDEX_LIMIT_NONE)) (\<lambda>_.
     (case serialized_file_metadata_tail_storage_range_internal tail of
        None \<Rightarrow> (\<lambda>build. (None, reject_owner SERIALIZED_FILE_REFERENCE_INDEX_INVALID_STATE
          SERIALIZED_FILE_REFERENCE_INDEX_LIMIT_NONE build))
      | Some (parent_storage, parent_storage_size) \<Rightarrow>
     step_then (step_modify (\<lambda>build. build\<lparr>build_parent := serialized_file_metadata_tail_view tail\<rparr>)) (\<lambda>_.
     step_with (\<lambda>build. the (build_parent build)) (\<lambda>parent.
     step_then (step_require
         (\<lambda>_. \<not> (span_offset (tail_source parent) > SIZE_MAX \<or>
              span_size (tail_source parent) > SIZE_MAX - span_offset (tail_source parent)))
         (reject_owner SERIALIZED_FILE_REFERENCE_INDEX_INVALID_STATE SERIALIZED_FILE_REFERENCE_INDEX_LIMIT_NONE)) (\<lambda>_.
     step_then (step_modify (\<lambda>build. build
         \<lparr>build_known_size := span_offset (tail_source parent) + span_size (tail_source parent),
          build_bytes := span_data (header_source (header (view_prefix (tail_directory parent))))\<rparr>)) (\<lambda>_.
     step_then (step_require
         (\<lambda>build. ranges_are_disjoint [] [(tail_address, sizeof_tail_handle), (limits_address, sizeof_index_limits),
            (out_address, sizeof_index_handle), (parent_storage, parent_storage_size),
            (build_bytes build, build_known_size build)])
         (reject_owner SERIALIZED_FILE_REFERENCE_INDEX_INVALID_ARGUMENT SERIALIZED_FILE_REFERENCE_INDEX_LIMIT_NONE)) (\<lambda>_.
     step_require (\<lambda>_. out = None)
       (reject_owner SERIALIZED_FILE_REFERENCE_INDEX_INVALID_STATE SERIALIZED_FILE_REFERENCE_INDEX_LIMIT_NONE))))))))"

definition select_domain :: "(ReferenceIndexBuild, unit) step" where
  "select_domain =
     step_with (\<lambda>build. the (build_parent build)) (\<lambda>parent.
     step_then (step_require (\<lambda>_. view_engine_version (tail_directory parent) = ENGINE_2021_3_35F1)
         (reject_owner SERIALIZED_FILE_REFERENCE_INDEX_UNSUPPORTED_ENGINE
            SERIALIZED_FILE_REFERENCE_INDEX_LIMIT_NONE)) (\<lambda>_.
       let count = reference_type_count parent in
     step_then (step_modify (\<lambda>build. build
         \<lparr>build_result := (build_result build)\<lparr>result_reference_type_count := count\<rparr>\<rparr>)) (\<lambda>_.
     step_then (step_require (\<lambda>build. \<not> count > index_max_reference_types (build_limits build))
         (reject_owner SERIALIZED_FILE_REFERENCE_INDEX_LIMIT_EXCEEDED
            SERIALIZED_FILE_REFERENCE_INDEX_LIMIT_REFERENCE_TYPES)) (\<lambda>_.
     step_then (step_require
         (\<lambda>_. \<not> (count \<noteq> 0 \<and> type_tree_enabled_raw (view_prefix (tail_directory parent)) = 0))
         (reject_owner SERIALIZED_FILE_REFERENCE_INDEX_IDENTITIES_UNAVAILABLE
            SERIALIZED_FILE_REFERENCE_INDEX_LIMIT_NONE)) (\<lambda>_.
     step_modify (\<lambda>build. build\<lparr>build_view := (build_view build)
         \<lparr>index_engine_version := view_engine_version (tail_directory parent),
          index_prefix := view_prefix (tail_directory parent), index_tail_source := tail_source parent,
          index_count_source := reference_type_count_source parent,
          index_rows_source := reference_type_rows_source parent,
          index_reference_type_count := count\<rparr>\<rparr>))))))"

section \<open>Preflight of a row\<close>

abbreviation mismatch ::
    "SerializedFileReferenceIdentityComponent \<Rightarrow> u64 \<Rightarrow> u64 \<Rightarrow> ReferenceIndexBuild \<Rightarrow> ReferenceIndexBuild" where
  "mismatch \<equiv> reject_build SERIALIZED_FILE_REFERENCE_INDEX_SOURCE_MISMATCH SERIALIZED_FILE_REFERENCE_INDEX_LIMIT_NONE"

text \<open>The loop over the three names; the result is where the last one ends.\<close>

fun preflight_names ::
    "SerializedFilePrefixSpan \<Rightarrow> u64 \<Rightarrow> u64 \<Rightarrow> (SerializedFileReferenceIdentityComponent \<times> SerializedFilePrefixSpan) list \<Rightarrow>
     u64 \<Rightarrow> (ReferenceIndexBuild, u64) step" where
  "preflight_names source ordinal stop [] next_offset = step_return next_offset"
| "preflight_names source ordinal stop ((component, name) # names) next_offset =
     step_then (step_require
         (\<lambda>build. \<not> (span_size name = 0 \<or> \<not> source_is_backed build name \<or> span_offset name \<noteq> next_offset \<or>
            span_offset name < span_offset source \<or> span_offset name > stop \<or>
            span_size name > stop - span_offset name))
         (mismatch component ordinal (span_offset name))) (\<lambda>_.
     step_then (step_require
         (\<lambda>build. \<not> span_size name >
            max_identity_source_bytes (build_limits build) - identity_source_bytes (build_view build))
         (reject_build SERIALIZED_FILE_REFERENCE_INDEX_LIMIT_EXCEEDED
            SERIALIZED_FILE_REFERENCE_INDEX_LIMIT_IDENTITY_SOURCE_BYTES component ordinal (span_offset name))) (\<lambda>_.
     step_then (step_modify (\<lambda>build. build\<lparr>build_view := (build_view build)
         \<lparr>identity_source_bytes := identity_source_bytes (build_view build) + span_size name\<rparr>\<rparr>)) (\<lambda>_.
     preflight_names source ordinal stop names (span_offset name + span_size name))))"

definition identity_names :: "SerializedFileMetadataTailReferenceTypeRow \<Rightarrow> SerializedFilePrefixSpan list" where
  "identity_names row = [class_name_source row, namespace_source row, assembly_name_source row]"

definition preflight_row ::
    "SerializedFileMetadataTailReferenceTypeRow option \<Rightarrow> u64 \<Rightarrow> (ReferenceIndexBuild, unit) step" where
  "preflight_row entry ordinal =
     (case entry of
        None \<Rightarrow> (\<lambda>build. (None, mismatch SERIALIZED_FILE_REFERENCE_IDENTITY_NONE ordinal UINT64_MAX build))
      | Some row \<Rightarrow>
     step_then (step_require
         (\<lambda>build. \<not> (reference_ordinal row \<noteq> ordinal \<or> \<not> reference_has_tree row \<or>
            \<not> source_is_backed build (reference_source row) \<or>
            \<not> source_is_backed build (strings_source (reference_tree row))))
         (mismatch SERIALIZED_FILE_REFERENCE_IDENTITY_NONE ordinal (span_offset (reference_source row)))) (\<lambda>_.
     step_with (\<lambda>build. index_rows_source (build_view build)) (\<lambda>rows.
     step_then (step_require
         (\<lambda>build. \<not> (\<not> source_is_backed build rows \<or> span_offset (reference_source row) < span_offset rows \<or>
            span_offset (reference_source row) - span_offset rows > span_size rows \<or>
            span_size (reference_source row) >
              span_size rows - (span_offset (reference_source row) - span_offset rows)))
         (mismatch SERIALIZED_FILE_REFERENCE_IDENTITY_NONE ordinal (span_offset (reference_source row)))) (\<lambda>_.
       let stop = span_offset (reference_source row) + span_size (reference_source row) in
     step_then (preflight_names (reference_source row) ordinal stop (zip k_components (identity_names row))
         (span_offset (strings_source (reference_tree row)) + span_size (strings_source (reference_tree row)))) (\<lambda>next_offset.
     step_require (\<lambda>_. next_offset = stop)
       (mismatch SERIALIZED_FILE_REFERENCE_IDENTITY_ASSEMBLY ordinal next_offset))))))"

text \<open>One round of the loop before the allocation: the charge names the row if there is one.\<close>

definition preflight_ordinal ::
    "SerializedFileMetadataTail \<Rightarrow> nat \<Rightarrow> (ReferenceIndexBuild, unit) step" where
  "preflight_ordinal tail ordinal =
     (let row = serialized_file_metadata_tail_reference_type tail (of_nat ordinal) in
      step_then (charge_build 1 (of_nat ordinal)
          (case row of None \<Rightarrow> UINT64_MAX | Some row \<Rightarrow> span_offset (reference_source row))) (\<lambda>_.
      preflight_row row (of_nat ordinal)))"

definition preflight_rows :: "SerializedFileMetadataTail \<Rightarrow> (ReferenceIndexBuild, unit list) step" where
  "preflight_rows tail =
     step_with (\<lambda>build. unat (index_reference_type_count (build_view build))) (scan_rows (preflight_ordinal tail) 0)"

section \<open>Storage and ownership\<close>

definition index_plan_storage ::
    "SerializedFileReferenceIndexLimits \<Rightarrow> u64 \<Rightarrow> (SerializedFileReferenceIndexResult, u64) step" where
  "index_plan_storage limits count =
     step_then (charge_result limits 1 SIZE_MAX UINT64_MAX) (\<lambda>_ result.
       let refuse = owner_refusal SERIALIZED_FILE_REFERENCE_INDEX_LIMIT_EXCEEDED
             SERIALIZED_FILE_REFERENCE_INDEX_LIMIT_RETAINED_BYTES
       in case serialized_file_storage_append_array_internal sizeof_index_storage alignof_row count
                 sizeof_reference_type_row of
            None \<Rightarrow> (None, refuse result)
          | Some (amount, rows_offset) \<Rightarrow>
              (let result = result\<lparr>index_required_retained_bytes := amount\<rparr> in
               if amount > index_max_retained_bytes limits then (None, refuse result) else (Some amount, result)))"

text \<open>One round of the loop behind the allocation. The preflight has met every row it dereferences.\<close>

definition copy_row ::
    "SerializedFileMetadataTail \<Rightarrow> nat \<Rightarrow>
     (ReferenceIndexBuild \<times> SerializedFileMetadataTailReferenceTypeRow list, unit) step" where
  "copy_row tail ordinal = (\<lambda>(build, rows).
     let row = the (serialized_file_metadata_tail_reference_type tail (of_nat ordinal)) in
     case charge_build 1 (of_nat ordinal) (span_offset (reference_source row)) build of
       (None, build) \<Rightarrow> (None, (build, rows))
     | (Some _, build) \<Rightarrow> (Some (), (build, rows[ordinal := row])))"

definition index_replay ::
    "SerializedFileMetadataTail \<Rightarrow> u64 \<Rightarrow> pointer \<Rightarrow> block \<Rightarrow> ReferenceIndexBuild \<Rightarrow>
     (SerializedFileReferenceIndexResult, ReferenceIndexStorage) step" where
  "index_replay tail amount address cells build result =
     (let count = index_reference_type_count (build_view build) in
      case scan_rows (copy_row tail) 0 (unat count)
             (build\<lparr>build_result := result\<rparr>, replicate (unat count) zero_reference_type_row) of
        (None, (build, rows)) \<Rightarrow> (None, build_result build)
      | (Some _, (build, rows)) \<Rightarrow>
          (Some \<lparr>index_storage_address = address, index_storage_cells = cells,
             index_storage_view = (build_view build)\<lparr>index_retained_bytes := amount\<rparr>,
             index_storage_rows = rows, storage_known_size = build_known_size build\<rparr>, build_result build))"

text \<open>Everything from the loop over the rows to the publication.\<close>

definition build_index ::
    "SerializedFileMetadataTail \<Rightarrow> (nat \<Rightarrow> pointer) \<Rightarrow> allocator \<Rightarrow> SerializedFileReferenceIndexLimits \<Rightarrow>
     ReferenceIndexBuild \<Rightarrow> SerializedFileReferenceIndexResult \<Rightarrow> tracker \<Rightarrow>
     SerializedFileReferenceIndexResult \<times> SerializedFileReferenceIndex \<times> tracker" where
  "build_index tail place grants limits start result t =
     (case preflight_rows tail (start\<lparr>build_result := result\<rparr>) of
        (None, build) \<Rightarrow> (build_result build, None, t)
      | (Some _, build) \<Rightarrow>
          (case index_plan_storage limits (index_reference_type_count (build_view build))
                  (build_result build) of
             (None, result) \<Rightarrow> (result, None, t)
           | (Some amount, result) \<Rightarrow>
               (case charge_result limits amount SIZE_MAX UINT64_MAX result of
                  (None, result) \<Rightarrow> (result, None, t)
                | (Some _, result) \<Rightarrow>
                    (case mem_alloc grants amount t of
                       (None, t) \<Rightarrow>
                         (owner_refusal SERIALIZED_FILE_REFERENCE_INDEX_ALLOCATION_FAILED
                            SERIALIZED_FILE_REFERENCE_INDEX_LIMIT_NONE result, None, t)
                     | (Some cells, t') \<Rightarrow>
                         (case step_then (index_replay tail amount (place (allocator_calls t)) cells build)
                                 (\<lambda>storage. step_then (charge_result limits 1 SIZE_MAX UINT64_MAX)
                                    (\<lambda>_. step_return storage))
                                 (result\<lparr>index_peak_retained_bytes := amount\<rparr>) of
                            (None, result) \<Rightarrow> (result, None, mem_free (Some cells) amount t')
                          | (Some storage, result) \<Rightarrow> (result, Some storage, t'))))))"

text \<open>The build that creation starts from: everything but the limits and the result is zero.\<close>

definition zero_range :: SerializedFilePrefixRange where
  "zero_range = \<lparr>range_offset = 0, range_size = 0\<rparr>"

definition zero_header :: SerializedFileHeaderView where
  "zero_header =
     \<lparr>header_source = zero_span, legacy_metadata_size_source = zero_span, legacy_file_size_source = zero_span,
      format_version_source = zero_span, legacy_data_offset_source = zero_span, metadata_size_source = zero_span,
      file_size_source = zero_span, data_offset_source = zero_span, endian_selector_source = zero_span,
      opaque_source = zero_span, format_version = 0, metadata_size = 0, file_size = 0, data_offset = 0,
      endian_selector = 0, metadata_range = zero_range, metadata_to_data_gap = zero_range, data_range = zero_range\<rparr>"

definition zero_prefix :: SerializedFilePrefixView where
  "zero_prefix =
     \<lparr>header = zero_header, metadata_prefix_source = zero_span, version_source = zero_span,
      version_terminator_source = zero_span, target_platform_source = zero_span, type_tree_source = zero_span,
      target_platform = 0, type_tree_enabled_raw = 0, remaining_metadata = zero_range\<rparr>"

definition start_build :: "SerializedFileReferenceIndexLimits \<Rightarrow> ReferenceIndexBuild" where
  "start_build limits =
     \<lparr>build_limits = limits, build_parent = None,
      build_view = \<lparr>index_engine_version = 0, index_prefix = zero_prefix, index_tail_source = zero_span,
        index_count_source = zero_span, index_rows_source = zero_span, index_reference_type_count = 0,
        identity_source_bytes = 0, index_retained_bytes = 0\<rparr>,
      build_result = index_initial_result, build_bytes = 0, build_known_size = 0\<rparr>"

definition serialized_file_reference_index_create ::
    "(nat \<Rightarrow> pointer) \<Rightarrow> allocator \<Rightarrow> pointer \<Rightarrow> SerializedFileMetadataTail \<Rightarrow> pointer \<Rightarrow>
     SerializedFileReferenceIndexLimits \<Rightarrow> pointer \<Rightarrow> SerializedFileReferenceIndex \<Rightarrow> tracker \<Rightarrow>
     SerializedFileReferenceIndexResult \<times> SerializedFileReferenceIndex \<times> tracker" where
  "serialized_file_reference_index_create place grants tail_address tail limits_address limits out_address out t =
     (case step_then (prepare_parent tail_address tail limits_address out_address out) (\<lambda>_.
           step_then (charge_build 1 SIZE_MAX UINT64_MAX) (\<lambda>_. select_domain)) (start_build limits) of
        (None, build) \<Rightarrow> (build_result build, out, t)
      | (Some _, build) \<Rightarrow> build_index tail place grants limits build (build_result build) t)"

definition serialized_file_reference_index_init ::
    "SerializedFileReferenceIndex \<Rightarrow> SerializedFileReferenceIndex" where
  "serialized_file_reference_index_init index = None"

definition serialized_file_reference_index_dispose ::
    "SerializedFileReferenceIndex \<Rightarrow> tracker \<Rightarrow> SerializedFileReferenceIndex \<times> tracker" where
  "serialized_file_reference_index_dispose index t =
     (case index of
        None \<Rightarrow> (None, t)
      | Some storage \<Rightarrow>
          (None, mem_free (Some (index_storage_cells storage))
             (index_retained_bytes (index_storage_view storage)) t))"

definition serialized_file_reference_index_view ::
    "SerializedFileReferenceIndex \<Rightarrow> SerializedFileReferenceIndexView option" where
  "serialized_file_reference_index_view index = map_option index_storage_view index"

definition serialized_file_reference_index_row ::
    "SerializedFileReferenceIndex \<Rightarrow> u64 \<Rightarrow> SerializedFileMetadataTailReferenceTypeRow option" where
  "serialized_file_reference_index_row index original_ordinal =
     (case index of
        None \<Rightarrow> None
      | Some storage \<Rightarrow>
          if original_ordinal < index_reference_type_count (index_storage_view storage)
          then Some (index_storage_rows storage ! unat original_ordinal) else None)"

section \<open>Queries\<close>

record SerializedFileReferenceKeyPart =
  part_bytes :: pointer
  part_size :: u64

record SerializedFileReferenceKey =
  class_name :: SerializedFileReferenceKeyPart
  namespace_name :: SerializedFileReferenceKeyPart
  assembly_name :: SerializedFileReferenceKeyPart

record SerializedFileReferenceQueryLimits =
  max_component_bytes :: u64
  max_key_bytes :: u64
  query_max_work :: u64

datatype SerializedFileReferenceMatchKind =
    SERIALIZED_FILE_REFERENCE_MISSING
  | SERIALIZED_FILE_REFERENCE_UNIQUE
  | SERIALIZED_FILE_REFERENCE_AMBIGUOUS

record SerializedFileReferenceMatch =
  match_kind :: SerializedFileReferenceMatchKind
  match_count :: u64
  first_ordinal :: u64
  second_ordinal :: u64

record SerializedFileReferenceQueryResult =
  query_status :: SerializedFileReferenceIndexStatus
  query_limit :: SerializedFileReferenceIndexLimit
  query_component :: SerializedFileReferenceIdentityComponent
  query_row_ordinal :: u64
  query_work_used :: u64

abbreviation sizeof_key :: u64 where "sizeof_key \<equiv> 48"
abbreviation sizeof_query_limits :: u64 where "sizeof_query_limits \<equiv> 24"
abbreviation sizeof_match :: u64 where "sizeof_match \<equiv> 32"

definition key_parts :: "SerializedFileReferenceKey \<Rightarrow> SerializedFileReferenceKeyPart list" where
  "key_parts key = [class_name key, namespace_name key, assembly_name key]"

abbreviation query_refusal ::
    "SerializedFileReferenceIndexStatus \<Rightarrow> SerializedFileReferenceIndexLimit \<Rightarrow> SerializedFileReferenceIdentityComponent \<Rightarrow>
     SerializedFileReferenceQueryResult \<Rightarrow> SerializedFileReferenceQueryResult" where
  "query_refusal status limit component result \<equiv> result
     \<lparr>query_status := status, query_limit := limit, query_component := component\<rparr>"

text \<open>The loop over the parts of the key: each is a range that does not meet the output.\<close>

fun query_parts ::
    "pointer \<Rightarrow> (SerializedFileReferenceIdentityComponent \<times> SerializedFileReferenceKeyPart) list \<Rightarrow>
     (SerializedFileReferenceQueryResult, unit) step" where
  "query_parts out_address [] = step_return ()"
| "query_parts out_address ((component, part) # parts) =
     step_then (step_require
         (\<lambda>_. \<not> (\<not> range_is_valid (part_bytes part) (part_size part) \<or>
            serialized_file_storage_overlaps_internal (part_bytes part) (part_size part) out_address sizeof_match))
         (\<lambda>result. result\<lparr>query_status := SERIALIZED_FILE_REFERENCE_INDEX_INVALID_ARGUMENT,
            query_component := component\<rparr>)) (\<lambda>_.
     query_parts out_address parts)"

definition query_arguments ::
    "pointer \<Rightarrow> SerializedFileReferenceIndex \<Rightarrow> pointer \<Rightarrow> SerializedFileReferenceKey \<Rightarrow> pointer \<Rightarrow> pointer \<Rightarrow>
     (SerializedFileReferenceQueryResult, unit) step" where
  "query_arguments index_address index key_address key limits_address out_address =
     step_then (step_require
         (\<lambda>_. index_address \<noteq> 0 \<and> key_address \<noteq> 0 \<and> limits_address \<noteq> 0 \<and> out_address \<noteq> 0 \<and>
            ranges_are_disjoint [] [(index_address, sizeof_index_handle), (key_address, sizeof_key),
              (limits_address, sizeof_query_limits), (out_address, sizeof_match)])
         (\<lambda>result. result\<lparr>query_status := SERIALIZED_FILE_REFERENCE_INDEX_INVALID_ARGUMENT\<rparr>)) (\<lambda>_.
     (case index of
        None \<Rightarrow> (\<lambda>result. (None, result\<lparr>query_status := SERIALIZED_FILE_REFERENCE_INDEX_INVALID_STATE\<rparr>))
      | Some storage \<Rightarrow>
     step_then (step_require
         (\<lambda>_. ranges_are_disjoint [] [(index_address, sizeof_index_handle), (key_address, sizeof_key),
            (limits_address, sizeof_query_limits), (out_address, sizeof_match),
            (index_storage_address storage, index_retained_bytes (index_storage_view storage)),
            (span_data (header_source (header (index_prefix (index_storage_view storage)))), storage_known_size storage)])
         (\<lambda>result. result\<lparr>query_status := SERIALIZED_FILE_REFERENCE_INDEX_INVALID_ARGUMENT\<rparr>)) (\<lambda>_.
     query_parts out_address (zip k_components (key_parts key)))))"

definition charge_query ::
    "SerializedFileReferenceQueryLimits \<Rightarrow> u64 \<Rightarrow> u64 \<Rightarrow> SerializedFileReferenceIdentityComponent \<Rightarrow>
     (SerializedFileReferenceQueryResult, unit) step" where
  "charge_query limits amount ordinal component =
     step_then (step_require (\<lambda>result. \<not> amount > query_max_work limits - query_work_used result)
         (\<lambda>result. (query_refusal SERIALIZED_FILE_REFERENCE_INDEX_LIMIT_EXCEEDED
            SERIALIZED_FILE_REFERENCE_INDEX_LIMIT_WORK component result)\<lparr>query_row_ordinal := ordinal\<rparr>)) (\<lambda>_.
     step_modify (\<lambda>result. result\<lparr>query_work_used := query_work_used result + amount\<rparr>))"

text \<open>The bytes that \<open>memcmp\<close> looks at.\<close>

definition bytes_at :: "memory \<Rightarrow> pointer \<Rightarrow> nat \<Rightarrow> u8 list" where
  "bytes_at mem start amount = map (\<lambda>i. mem (start + of_nat i)) [0..<amount]"

text \<open>The loop over the components; the result says whether all of them are equal.\<close>

fun query_components ::
    "memory \<Rightarrow> SerializedFileReferenceQueryLimits \<Rightarrow> u64 \<Rightarrow>
     (SerializedFileReferenceIdentityComponent \<times> SerializedFilePrefixSpan \<times> SerializedFileReferenceKeyPart) list \<Rightarrow>
     (SerializedFileReferenceQueryResult, bool) step" where
  "query_components mem limits ordinal [] = step_return True"
| "query_components mem limits ordinal ((component, name, part) # parts) =
     step_then (charge_query limits 1 ordinal component) (\<lambda>_.
       let amount = span_size name - 1 in
       if amount \<noteq> part_size part then step_return False
       else if amount = 0 then query_components mem limits ordinal parts
       else
     step_then (charge_query limits amount ordinal component) (\<lambda>_.
       if bytes_at mem (span_data name) (unat amount) \<noteq> bytes_at mem (part_bytes part) (unat amount)
       then step_return False
       else query_components mem limits ordinal parts))"

definition query_row ::
    "memory \<Rightarrow> SerializedFileReferenceQueryLimits \<Rightarrow> SerializedFileReferenceKey \<Rightarrow>
     SerializedFileMetadataTailReferenceTypeRow \<Rightarrow> (SerializedFileReferenceQueryResult, bool) step" where
  "query_row mem limits key row =
     query_components mem limits (reference_ordinal row) (zip k_components (zip (identity_names row) (key_parts key)))"

text \<open>The loop over the component caps; the result is the size of the key.\<close>

fun query_key_size ::
    "SerializedFileReferenceQueryLimits \<Rightarrow> (SerializedFileReferenceIdentityComponent \<times> SerializedFileReferenceKeyPart) list \<Rightarrow>
     u64 \<Rightarrow> (SerializedFileReferenceQueryResult, u64) step" where
  "query_key_size limits [] key_size = step_return key_size"
| "query_key_size limits ((component, part) # parts) key_size =
     step_then (step_require (\<lambda>_. \<not> part_size part > max_component_bytes limits)
         (query_refusal SERIALIZED_FILE_REFERENCE_INDEX_LIMIT_EXCEEDED
            SERIALIZED_FILE_REFERENCE_INDEX_LIMIT_COMPONENT_BYTES component)) (\<lambda>_.
     step_then (step_require (\<lambda>_. \<not> part_size part > max_key_bytes limits - key_size)
         (query_refusal SERIALIZED_FILE_REFERENCE_INDEX_LIMIT_EXCEEDED
            SERIALIZED_FILE_REFERENCE_INDEX_LIMIT_KEY_BYTES component)) (\<lambda>_.
     query_key_size limits parts (key_size + part_size part)))"

definition empty_match :: SerializedFileReferenceMatch where
  "empty_match = \<lparr>match_kind = SERIALIZED_FILE_REFERENCE_MISSING, match_count = 0,
     first_ordinal = SIZE_MAX, second_ordinal = SIZE_MAX\<rparr>"

definition add_match :: "u64 \<Rightarrow> SerializedFileReferenceMatch \<Rightarrow> SerializedFileReferenceMatch" where
  "add_match ordinal found =
     (let found' =
        (if match_count found = 0
         then found\<lparr>first_ordinal := ordinal, match_kind := SERIALIZED_FILE_REFERENCE_UNIQUE\<rparr>
         else if match_count found = 1
         then found\<lparr>second_ordinal := ordinal, match_kind := SERIALIZED_FILE_REFERENCE_AMBIGUOUS\<rparr>
         else found)
      in found'\<lparr>match_count := match_count found' + 1\<rparr>)"

text \<open>The loop over all rows, from ordinal \<open>i\<close> on.\<close>

fun query_rows ::
    "memory \<Rightarrow> SerializedFileReferenceQueryLimits \<Rightarrow> SerializedFileReferenceKey \<Rightarrow>
     SerializedFileMetadataTailReferenceTypeRow list \<Rightarrow> nat \<Rightarrow> nat \<Rightarrow> SerializedFileReferenceMatch \<Rightarrow>
     (SerializedFileReferenceQueryResult, SerializedFileReferenceMatch) step" where
  "query_rows mem limits key rows i 0 found = step_return found"
| "query_rows mem limits key rows i (Suc n) found =
     step_then (charge_query limits 1 (of_nat i) SERIALIZED_FILE_REFERENCE_IDENTITY_NONE) (\<lambda>_.
     step_then (query_row mem limits key (rows ! i)) (\<lambda>equal.
     query_rows mem limits key rows (Suc i) n (if equal then add_match (of_nat i) found else found)))"

definition query_initial_result :: SerializedFileReferenceQueryResult where
  "query_initial_result =
     \<lparr>query_status = SERIALIZED_FILE_REFERENCE_INDEX_OK, query_limit = SERIALIZED_FILE_REFERENCE_INDEX_LIMIT_NONE,
      query_component = SERIALIZED_FILE_REFERENCE_IDENTITY_NONE, query_row_ordinal = SIZE_MAX, query_work_used = 0\<rparr>"

definition serialized_file_reference_index_query ::
    "memory \<Rightarrow> pointer \<Rightarrow> SerializedFileReferenceIndex \<Rightarrow> pointer \<Rightarrow> SerializedFileReferenceKey \<Rightarrow> pointer \<Rightarrow>
     SerializedFileReferenceQueryLimits \<Rightarrow> pointer \<Rightarrow> SerializedFileReferenceMatch \<Rightarrow>
     SerializedFileReferenceQueryResult \<times> SerializedFileReferenceMatch" where
  "serialized_file_reference_index_query mem index_address index key_address key limits_address limits out_address
       out_match =
     (case step_then (query_arguments index_address index key_address key limits_address out_address) (\<lambda>_.
           step_then (charge_query limits 1 SIZE_MAX SERIALIZED_FILE_REFERENCE_IDENTITY_NONE) (\<lambda>_.
           step_then (query_key_size limits (zip k_components (key_parts key)) 0) (\<lambda>_.
           step_then (query_rows mem limits key (index_storage_rows (the index)) 0
               (unat (index_reference_type_count (index_storage_view (the index)))) empty_match) (\<lambda>found.
           step_then (charge_query limits 1 SIZE_MAX SERIALIZED_FILE_REFERENCE_IDENTITY_NONE) (\<lambda>_.
           step_return found))))) query_initial_result of
        (None, result) \<Rightarrow> (result, out_match)
      | (Some found, result) \<Rightarrow> (result, found))"

end
