(* ===== verification/Outcomes.thy ===== *)
theory Outcomes
  imports Prelude
begin

text \<open>
  Deciding a step: when a step succeeds, with which value and state, and what holds when it
  refuses. The rules follow the combinators, so a routine made of guards, charges and writes
  is decided guard by guard.
\<close>

definition decides :: "('s \<Rightarrow> bool) \<Rightarrow> ('s, 'a) step \<Rightarrow> 's \<Rightarrow> bool \<Rightarrow> 'a \<Rightarrow> 's \<Rightarrow> bool" where
  "decides bad m s C x t \<longleftrightarrow> (if C then m s = (Some x, t) else fst (m s) = None \<and> bad (snd (m s)))"

lemma decidesD:
  assumes "decides bad m s C x t"
  shows "C \<Longrightarrow> m s = (Some x, t)" "\<not> C \<Longrightarrow> \<exists>t'. m s = (None, t') \<and> bad t'"
  using assms by (auto simp: decides_def) (metis prod.collapse)

lemma decides_then:
  assumes "decides bad m s D y u" and "\<not> D \<Longrightarrow> \<not> C" and "D \<Longrightarrow> decides bad (f y) u C x t"
  shows "decides bad (step_then m f) s C x t"
  using assms by (auto simp: decides_def step_then_def split: if_splits option.splits prod.splits)

lemma decides_guard:
  assumes "\<not> guard s \<Longrightarrow> bad (reject s) \<and> \<not> C" and "guard s \<Longrightarrow> decides bad (f ()) s C x t"
  shows "decides bad (step_then (step_require guard reject) f) s C x t"
  using assms by (auto simp: decides_def step_then_def step_require_def)

lemma decides_require:
  assumes "guard s \<longleftrightarrow> C" and "\<not> C \<Longrightarrow> bad (reject s)"
  shows "decides bad (step_require guard reject) s C () s"
  using assms by (auto simp: decides_def step_require_def)

lemma decides_write:
  "decides bad (f ()) (w s) C x t \<Longrightarrow> decides bad (step_then (step_modify w) f) s C x t"
  by (simp add: decides_def step_then_def step_modify_def)

lemma decides_modify: "C \<Longrightarrow> t = w s \<Longrightarrow> decides bad (step_modify w) s C () t"
  by (simp add: decides_def step_modify_def)

lemma decides_with: "decides bad (f (g s)) s C x t \<Longrightarrow> decides bad (step_with g f) s C x t"
  by (simp add: decides_def step_with_def)

lemma decides_return: "C \<Longrightarrow> x = y \<Longrightarrow> t = s \<Longrightarrow> decides bad (step_return y) s C x t"
  by (simp add: decides_def step_return_def)

lemma decides_refuse: "\<not> C \<Longrightarrow> bad (w s) \<Longrightarrow> decides bad (\<lambda>s. (None, w s)) s C x t"
  by (simp add: decides_def)

lemma decides_weaken:
  "decides bad m s C x t \<Longrightarrow> (C \<longleftrightarrow> C') \<Longrightarrow> (C \<Longrightarrow> x = x' \<and> t = t') \<Longrightarrow> (\<And>t. bad t \<Longrightarrow> bad' t) \<Longrightarrow>
     decides bad' m s C' x' t'"
  by (auto simp: decides_def)

lemma scan_rows_Suc:
  "scan_rows row i (Suc n) =
     step_then (row i) (\<lambda>r. step_then (scan_rows row (Suc i) n) (\<lambda>rs. step_return (r # rs)))"
  by (rule ext) (simp add: step_then_def step_return_def split: prod.split option.split)

text \<open>A loop whose rounds are decided one by one, from a state that the round number determines.\<close>

lemma decides_rows:
  assumes "\<And>j. i \<le> j \<Longrightarrow> j < i + n \<Longrightarrow> reach j \<Longrightarrow> decides bad (row j) (state j) (reach (Suc j)) (val j) (state (Suc j))"
    and "\<And>j. reach (Suc j) \<Longrightarrow> reach j" and "reach i"
  shows "decides bad (scan_rows row i n) (state i) (reach (i + n)) (map val [i..<i + n]) (state (i + n))"
  using assms(1,3)
proof (induction n arbitrary: i)
  case 0
  then show ?case by (simp add: decides_def)
next
  case (Suc n)
  have sooner: "reach (k + m) \<Longrightarrow> reach k" for k m using assms(2) by (induction m) auto
  show ?case
    unfolding scan_rows_Suc
  proof (rule decides_then)
    show "decides bad (row i) (state i) (reach (Suc i)) (val i) (state (Suc i))" using Suc.prems by simp
    show "\<not> reach (Suc i) \<Longrightarrow> \<not> reach (i + Suc n)" using sooner [of "Suc i" n] by auto
    assume next_row: "reach (Suc i)"
    have "decides bad (scan_rows row (Suc i) n) (state (Suc i)) (reach (Suc i + n)) (map val [Suc i..<Suc i + n])
        (state (Suc i + n))"
      by (rule Suc.IH) (use Suc.prems(1) next_row in auto)
    then show "decides bad (step_then (scan_rows row (Suc i) n) (\<lambda>rs. step_return (val i # rs))) (state (Suc i))
        (reach (i + Suc n)) (map val [i..<i + Suc n]) (state (i + Suc n))"
      by (rule decides_then) (auto intro!: decides_return simp: upt_conv_Cons simp del: upt_Suc)
  qed
qed

end
