(* ===== verification/ReferenceIndexCreate.thy ===== *)
theory ReferenceIndexCreate
  imports ReferenceIndex Outcomes
begin

text \<open>
  Creating and disposing of a reference index: exactly when creation succeeds, what it costs
  and publishes, that nothing it allocates is lost, and that a tail which its own constructor
  published always passes the checks of the rows.
\<close>

section \<open>What the preflight decides\<close>

abbreviation index_failed :: "SerializedFileReferenceIndexLimits \<Rightarrow> SerializedFileReferenceIndexResult \<Rightarrow> bool" where
  "index_failed limits result \<equiv>
     index_status result \<noteq> SERIALIZED_FILE_REFERENCE_INDEX_OK \<and> index_work_used result \<le> index_max_work limits"

text \<open>A build that was refused; \<open>M\<close> is what a mismatch of the sources lets us conclude.\<close>

abbreviation build_failed :: "SerializedFileReferenceIndexLimits \<Rightarrow> bool \<Rightarrow> ReferenceIndexBuild \<Rightarrow> bool" where
  "build_failed limits M build \<equiv> index_failed limits (build_result build) \<and>
     (index_status (build_result build) = SERIALIZED_FILE_REFERENCE_INDEX_SOURCE_MISMATCH \<longrightarrow> M)"

lemma charge_result_decides:
  assumes "index_work_used r \<le> index_max_work limits"
  shows "decides (index_failed limits) (charge_result limits amount ordinal offset) r
      (unat (index_work_used r) + unat amount \<le> unat (index_max_work limits)) ()
      (r\<lparr>index_work_used := index_work_used r + amount\<rparr>)"
    and "unat (index_work_used r) + unat amount \<le> unat (index_max_work limits) \<Longrightarrow>
      unat (index_work_used r + amount) = unat (index_work_used r) + unat amount"
  using charge_iff [OF assms, of amount] charge_value [OF assms, of amount] assms
  by (auto simp: charge_result_def not_less reject_result_def intro!: decides_guard decides_modify)

lemma charge_result_status:
  "charge_result limits amount ordinal offset r = (None, r') \<Longrightarrow>
     index_status r' = SERIALIZED_FILE_REFERENCE_INDEX_LIMIT_EXCEEDED"
  by (auto simp: charge_result_def step_then_def step_require_def step_modify_def reject_result_def split: if_splits)

definition paid :: "nat \<Rightarrow> ReferenceIndexBuild \<Rightarrow> ReferenceIndexBuild" where
  "paid n build = build\<lparr>build_result := (build_result build)
     \<lparr>index_work_used := index_work_used (build_result build) + of_nat n\<rparr>\<rparr>"

definition named :: "nat \<Rightarrow> ReferenceIndexBuild \<Rightarrow> ReferenceIndexBuild" where
  "named n build = build\<lparr>build_view := (build_view build)
     \<lparr>identity_source_bytes := identity_source_bytes (build_view build) + of_nat n\<rparr>\<rparr>"

lemma paid_fields [simp]:
  "build_limits (paid n b) = build_limits b" "build_parent (paid n b) = build_parent b"
  "build_view (paid n b) = build_view b" "build_bytes (paid n b) = build_bytes b"
  "build_known_size (paid n b) = build_known_size b"
  "build_result (paid n b) = (build_result b)\<lparr>index_work_used := index_work_used (build_result b) + of_nat n\<rparr>"
  by (simp_all add: paid_def)

lemma named_fields [simp]:
  "build_limits (named n b) = build_limits b" "build_parent (named n b) = build_parent b"
  "build_result (named n b) = build_result b" "build_bytes (named n b) = build_bytes b"
  "build_known_size (named n b) = build_known_size b"
  "build_view (named n b) = (build_view b)\<lparr>identity_source_bytes := identity_source_bytes (build_view b) + of_nat n\<rparr>"
  by (simp_all add: named_def)

lemma named_named: "named m (named n b) = named (n + m) b"
  by (simp add: named_def add.assoc)

lemma named_paid: "paid m (named n b) = named n (paid m b)"
  by (simp add: named_def paid_def)

lemma paid_paid: "paid m (paid n b) = paid (n + m) b"
  by (simp add: paid_def add.assoc)

lemma charge_build_decides:
  assumes "index_work_used (build_result b) \<le> index_max_work limits" "build_limits b = limits"
  shows "decides (build_failed limits M) (charge_build (of_nat n) ordinal offset) b
      (unat (index_work_used (build_result b)) + unat (of_nat n :: u64) \<le> unat (index_max_work limits)) () (paid n b)"
  using charge_result_decides(1) [OF assms(1), of "of_nat n" ordinal offset] assms(2)
  by (auto simp: decides_def charge_build_def paid_def charge_result_status split: prod.splits if_splits)

text \<open>A span inside the bytes that the parent is known to cover.\<close>

definition span_backed :: "pointer \<Rightarrow> u64 \<Rightarrow> SerializedFilePrefixSpan \<Rightarrow> bool" where
  "span_backed bytes known span \<longleftrightarrow>
     span_end span \<le> unat known \<and> span_data span = bytes + span_offset span"

lemma source_is_backed_iff:
  "source_is_backed build span \<longleftrightarrow> span_backed (build_bytes build) (build_known_size build) span"
proof -
  have "span_offset span \<le> build_known_size build \<Longrightarrow>
      span_size span \<le> build_known_size build - span_offset span \<longleftrightarrow> span_end span \<le> unat (build_known_size build)"
    by (simp add: charge_iff span_end_def)
  then show ?thesis
    by (auto simp: source_is_backed_def span_backed_def span_end_def word_le_nat_alt)
qed

lemma span_backed_end:
  "span_backed bytes known span \<Longrightarrow> unat (span_offset span + span_size span) = span_end span"
  using u64_bound [of known] by (auto simp: span_backed_def span_end_def intro: unat_add_fits)

definition names_bytes :: "SerializedFilePrefixSpan list \<Rightarrow> nat" where
  "names_bytes names = sum_list (map (unat \<circ> span_size) names)"

lemma names_bytes_simps [simp]:
  "names_bytes [] = 0" "names_bytes (name # names) = unat (span_size name) + names_bytes names"
  by (simp_all add: names_bytes_def)

definition name_sound :: "pointer \<Rightarrow> u64 \<Rightarrow> SerializedFilePrefixSpan \<Rightarrow> SerializedFilePrefixSpan \<Rightarrow> bool" where
  "name_sound bytes known source name \<longleftrightarrow>
     span_size name \<noteq> 0 \<and> span_backed bytes known name \<and>
     span_start source \<le> span_start name \<and> span_end name \<le> span_end source"

lemma preflight_names_decides:
  assumes "build_limits b = limits" "index_work_used (build_result b) \<le> index_max_work limits"
    and "identity_source_bytes (build_view b) \<le> max_identity_source_bytes limits"
    and source: "span_backed (build_bytes b) (build_known_size b) source"
    and stop: "stop = span_offset source + span_size source" and "length components = length names"
    and mism: "\<not> (list_all (name_sound (build_bytes b) (build_known_size b) source) names \<and>
       spans_tile (unat start) (unat start + names_bytes names) names) \<Longrightarrow> M"
  shows "decides (build_failed limits M) (preflight_names source ordinal stop (zip components names) start) b
      (list_all (name_sound (build_bytes b) (build_known_size b) source) names \<and>
       spans_tile (unat start) (unat start + names_bytes names) names \<and>
       unat (identity_source_bytes (build_view b)) + names_bytes names \<le> unat (max_identity_source_bytes limits))
      (start + of_nat (names_bytes names)) (named (names_bytes names) b)"
  using assms(1-4,6,7)
proof (induction names arbitrary: components start b)
  case Nil
  then show ?case by (auto intro!: decides_return simp: named_def word_le_nat_alt)
next
  case (Cons name names)
  let ?b = "named (unat (span_size name)) b"
  obtain component rest where components: "components = component # rest" "length rest = length names"
    using Cons.prems(5) by (cases components) auto
  have edge: "unat stop = span_end source" using span_backed_end [OF Cons.prems(4)] stop by simp
  have inside: "\<not> span_offset name > stop \<and> \<not> span_size name > stop - span_offset name \<longleftrightarrow> span_end name \<le> span_end source"
    using charge_iff [of "span_offset name" stop "span_size name"] edge
    by (auto simp: span_end_def not_less word_le_nat_alt)
  have guard: "\<not> (span_size name = 0 \<or> \<not> source_is_backed b name \<or> span_offset name \<noteq> start \<or>
        span_offset name < span_offset source \<or> span_offset name > stop \<or> span_size name > stop - span_offset name) \<longleftrightarrow>
      name_sound (build_bytes b) (build_known_size b) source name \<and> span_offset name = start"
    using inside by (auto simp: name_sound_def source_is_backed_iff not_less word_le_nat_alt span_start_def)
  have fits: "\<not> span_size name > max_identity_source_bytes limits - identity_source_bytes (build_view b) \<longleftrightarrow>
      unat (identity_source_bytes (build_view b)) + unat (span_size name) \<le> unat (max_identity_source_bytes limits)"
    using charge_iff [OF Cons.prems(3), of "span_size name"] by (simp add: not_less)
  show ?case
    unfolding components(1) zip_Cons_Cons preflight_names.simps
  proof (rule decides_guard, goal_cases)
    case 1
    then show ?case using Cons.prems(2,6) guard
      by (auto simp: reject_build_def reject_result_def word_eq_nat)
  next
    case 2
    then have name: "name_sound (build_bytes b) (build_known_size b) source name" "span_offset name = start"
      using guard by blast+
    have after: "unat (span_offset name + span_size name) = unat start + unat (span_size name)"
      using span_backed_end [of "build_bytes b" "build_known_size b" name] name
      by (simp add: name_sound_def span_end_def)
    show ?case
    proof (rule decides_guard, goal_cases)
      case 1
      then show ?case using Cons.prems(1,2) fits by (auto simp: reject_build_def reject_result_def)
    next
      case 2
      then have room: "unat (identity_source_bytes (build_view b)) + unat (span_size name) \<le>
          unat (max_identity_source_bytes limits)"
        using fits Cons.prems(1) by simp
      have total: "unat (identity_source_bytes (build_view b) + span_size name) =
          unat (identity_source_bytes (build_view b)) + unat (span_size name)"
        using room u64_bound [of "max_identity_source_bytes limits"] by (intro unat_add_fits) simp
      have step: "b\<lparr>build_view := (build_view b)
          \<lparr>identity_source_bytes := identity_source_bytes (build_view b) + span_size name\<rparr>\<rparr> = ?b"
        by (simp add: named_def)
      show ?case
        by (rule decides_write, unfold step,
            rule decides_weaken [OF Cons.IH [where components = rest and b = ?b and start = "span_offset name + span_size name"]])
          (use Cons.prems components(2) room total name after in
            \<open>auto simp: named_named word_le_nat_alt add.assoc\<close>)
    qed
  qed
qed

lemma span_within:
  assumes "span_backed bytes known inner" "span_backed bytes known outer"
  shows "\<not> (span_offset inner < span_offset outer \<or> span_offset inner - span_offset outer > span_size outer \<or>
      span_size inner > span_size outer - (span_offset inner - span_offset outer)) \<longleftrightarrow>
    span_start outer \<le> span_start inner \<and> span_end inner \<le> span_end outer"
proof (cases "span_offset outer \<le> span_offset inner")
  case True
  then have gap: "unat (span_offset inner - span_offset outer) = unat (span_offset inner) - unat (span_offset outer)"
    by (simp add: unat_sub)
  have "\<not> (span_offset inner - span_offset outer > span_size outer \<or>
      span_size inner > span_size outer - (span_offset inner - span_offset outer)) \<longleftrightarrow> span_end inner \<le> span_end outer"
    using charge_iff [of "span_offset inner - span_offset outer" "span_size outer" "span_size inner"] True gap
    by (auto simp: span_end_def not_less word_le_nat_alt)
  with True show ?thesis by (auto simp: span_start_def word_le_nat_alt not_less)
next
  case False
  then show ?thesis by (auto simp: span_start_def word_le_nat_alt not_less)
qed

lemma names_end:
  "list_all (name_sound bytes known source) names \<Longrightarrow> spans_tile p q names \<Longrightarrow> p \<le> span_end source \<Longrightarrow>
     q \<le> span_end source"
proof (induction names arbitrary: p)
  case (Cons name names)
  then have "p + unat (span_size name) \<le> span_end source"
    by (auto simp: name_sound_def span_end_def)
  with Cons.prems show ?case by (intro Cons.IH [of "p + unat (span_size name)"]) simp_all
qed simp

lemma spans_tile_end: "spans_tile p q names \<Longrightarrow> q = p + names_bytes names"
  by (induction names arbitrary: p) force+

text \<open>A row whose descriptors the index takes over.\<close>

definition row_sound ::
    "pointer \<Rightarrow> u64 \<Rightarrow> SerializedFilePrefixSpan \<Rightarrow> u64 \<Rightarrow> SerializedFileMetadataTailReferenceTypeRow \<Rightarrow> bool" where
  "row_sound bytes known rows ordinal row \<longleftrightarrow>
     reference_ordinal row = ordinal \<and> reference_has_tree row \<and>
     span_backed bytes known (reference_source row) \<and> span_backed bytes known (strings_source (reference_tree row)) \<and>
     span_backed bytes known rows \<and> span_start rows \<le> span_start (reference_source row) \<and>
     span_end (reference_source row) \<le> span_end rows \<and>
     list_all (name_sound bytes known (reference_source row)) (identity_names row) \<and>
     spans_tile (span_end (strings_source (reference_tree row))) (span_end (reference_source row)) (identity_names row)"

lemma preflight_row_decides:
  assumes b: "build_limits b = limits" "index_work_used (build_result b) \<le> index_max_work limits"
    "identity_source_bytes (build_view b) \<le> max_identity_source_bytes limits"
    and mism: "\<not> row_sound (build_bytes b) (build_known_size b) (index_rows_source (build_view b)) ordinal row \<Longrightarrow> M"
  shows "decides (build_failed limits M) (preflight_row (Some row) ordinal) b
      (row_sound (build_bytes b) (build_known_size b) (index_rows_source (build_view b)) ordinal row \<and>
       unat (identity_source_bytes (build_view b)) + names_bytes (identity_names row) \<le>
         unat (max_identity_source_bytes limits)) () (named (names_bytes (identity_names row)) b)"
proof -
  let ?bytes = "build_bytes b" and ?known = "build_known_size b"
  let ?rows = "index_rows_source (build_view b)" and ?source = "reference_source row"
  let ?strings = "strings_source (reference_tree row)"
  have refused: "build_failed limits M (mismatch component place offset u)"
    if "index_work_used (build_result u) \<le> index_max_work limits"
      "\<not> row_sound ?bytes ?known ?rows ordinal row" for component place offset u
    using that(1) mism [OF that(2)] by (simp add: reject_build_def reject_result_def)
  show ?thesis
    unfolding preflight_row_def option.case
  proof (rule decides_guard, goal_cases)
    case 1
    then show ?case using b refused by (auto simp: row_sound_def source_is_backed_iff)
  next
    case 2
    then have basic: "reference_ordinal row = ordinal" "reference_has_tree row" "span_backed ?bytes ?known ?source"
      "span_backed ?bytes ?known ?strings"
      by (auto simp: source_is_backed_iff)
    show ?case
    proof (rule decides_with, rule decides_guard, goal_cases)
      case 1
      then show ?case
        using b refused span_within [OF basic(3), of ?rows] by (auto simp: row_sound_def source_is_backed_iff)
    next
      case 2
      then have rows: "span_backed ?bytes ?known ?rows" "span_start ?rows \<le> span_start ?source"
        "span_end ?source \<le> span_end ?rows"
        using span_within [OF basic(3), of ?rows] by (auto simp: source_is_backed_iff)
      have first: "unat (span_offset ?strings + span_size ?strings) = span_end ?strings"
        "unat (span_offset ?source + span_size ?source) = span_end ?source"
        using span_backed_end basic by blast+
      define N where "N = names_bytes (identity_names row)"
      have tiled: "spans_tile (span_end ?strings) (span_end ?source) (identity_names row) \<longleftrightarrow>
          spans_tile (span_end ?strings) (span_end ?strings + N) (identity_names row) \<and>
          span_end ?strings + N = span_end ?source"
        using spans_tile_end unfolding N_def by metis
      show ?case
        unfolding Let_def
      proof (rule decides_then, rule preflight_names_decides [OF b(1,2,3) basic(3) refl, where M = M], goal_cases)
        case 1
        then show ?case by (simp add: k_components_def identity_names_def)
      next
        case 2
        then show ?case using mism unfolding first tiled row_sound_def by (auto simp: N_def)
      next
        case 3
        then show ?case unfolding first tiled row_sound_def by (auto simp: N_def)
      next
        case 4
        then have names: "list_all (name_sound ?bytes ?known ?source) (identity_names row)"
          "spans_tile (span_end ?strings) (span_end ?strings + N) (identity_names row)"
          "unat (identity_source_bytes (build_view b)) + N \<le> unat (max_identity_source_bytes limits)"
          unfolding first N_def by blast+
        have "span_end ?strings \<le> span_end ?source"
          using names(1,2) by (auto simp: identity_names_def name_sound_def span_end_def)
        then have "span_end ?strings + N \<le> span_end ?source" using names_end [OF names(1,2)] by blast
        then have "unat (span_offset ?strings + span_size ?strings + of_nat N) = span_end ?strings + N"
          using first(2) u64_bound [of "span_offset ?source + span_size ?source"]
          by (subst unat_add_fits) (simp_all add: first unat_of_nat)
        then have "span_offset ?strings + span_size ?strings + of_nat N = span_offset ?source + span_size ?source \<longleftrightarrow>
            span_end ?strings + N = span_end ?source"
          by (simp add: word_eq_nat first(2))
        moreover have M if "span_end ?strings + N \<noteq> span_end ?source"
          using mism that by (auto simp: row_sound_def tiled)
        ultimately show ?case
          using basic rows names b unfolding N_def [symmetric]
          by (intro decides_require) (auto simp: row_sound_def tiled N_def reject_build_def reject_result_def)
      qed
    qed
  qed
qed

section \<open>The loop over the rows\<close>

text \<open>The rows of a tail and what cataloguing them uses up.\<close>

definition index_row :: "SerializedFileMetadataTail \<Rightarrow> nat \<Rightarrow> SerializedFileMetadataTailReferenceTypeRow" where
  "index_row tail i = the (serialized_file_metadata_tail_reference_type tail (of_nat i))"

definition index_rows :: "SerializedFileMetadataTail \<Rightarrow> nat \<Rightarrow> SerializedFileMetadataTailReferenceTypeRow list" where
  "index_rows tail n = map (index_row tail) [0..<n]"

definition rows_bytes :: "SerializedFileMetadataTail \<Rightarrow> nat \<Rightarrow> nat" where
  "rows_bytes tail n = sum_list (map (\<lambda>i. names_bytes (identity_names (index_row tail i))) [0..<n])"

lemma rows_bytes_simps [simp]:
  "rows_bytes tail 0 = 0" "rows_bytes tail (Suc n) = rows_bytes tail n + names_bytes (identity_names (index_row tail n))"
  by (simp_all add: rows_bytes_def)

definition rows_sound :: "ReferenceIndexBuild \<Rightarrow> SerializedFileMetadataTail \<Rightarrow> nat \<Rightarrow> bool" where
  "rows_sound b tail n \<longleftrightarrow>
     list_all (\<lambda>i. row_sound (build_bytes b) (build_known_size b) (index_rows_source (build_view b)) (of_nat i)
       (index_row tail i)) [0..<n]"

lemma rows_sound_Suc [simp]:
  "rows_sound b tail (Suc n) \<longleftrightarrow> rows_sound b tail n \<and>
     row_sound (build_bytes b) (build_known_size b) (index_rows_source (build_view b)) (of_nat n) (index_row tail n)"
  "rows_sound b tail 0"
  by (simp_all add: rows_sound_def)

text \<open>As many rows as the tail counts: each of them is there.\<close>

lemma index_row_there:
  assumes "tail = Some storage" "n \<le> unat (reference_type_count (tail_storage_view storage))" "i < n"
  shows "serialized_file_metadata_tail_reference_type tail (of_nat i) = Some (index_row tail i)"
proof -
  have "unat (of_nat i :: u64) = i"
    using assms u64_bound [of "reference_type_count (tail_storage_view storage)"] by (simp add: unat_of_nat)
  then show ?thesis
    using assms by (simp add: serialized_file_metadata_tail_reference_type_def index_row_def word_less_nat_alt)
qed

lemma preflight_rows_decides:
  assumes b: "build_limits b = limits" "index_work_used (build_result b) \<le> index_max_work limits"
    "identity_source_bytes (build_view b) = 0"
    and tail: "tail = Some storage"
    and count: "index_reference_type_count (build_view b) = reference_type_count (tail_storage_view storage)"
    and n: "n = unat (reference_type_count (tail_storage_view storage))"
    and mism: "\<not> rows_sound b tail n \<Longrightarrow> M"
  shows "decides (build_failed limits M) (preflight_rows tail) b
      (rows_sound b tail n \<and> unat (index_work_used (build_result b)) + n \<le> unat (index_max_work limits) \<and>
       rows_bytes tail n \<le> unat (max_identity_source_bytes limits))
      (replicate n ()) (named (rows_bytes tail n) (paid n b))"
proof -
  define W where "W = unat (index_work_used (build_result b))"
  define reach where "reach = (\<lambda>j. rows_sound b tail j \<and> W + j \<le> unat (index_max_work limits) \<and>
    rows_bytes tail j \<le> unat (max_identity_source_bytes limits))"
  define state where "state = (\<lambda>j. named (rows_bytes tail j) (paid j b))"
  have limits: "unat (index_max_work limits) < 2 ^ 64" "unat (max_identity_source_bytes limits) < 2 ^ 64"
    by (rule u64_bound)+
  have counters: "unat (index_work_used (build_result b) + of_nat j) = W + j"
    "unat (of_nat (rows_bytes tail j) :: u64) = rows_bytes tail j" if "reach j" for j
  proof -
    have "unat (of_nat j :: u64) = j" using that limits by (simp add: reach_def unat_of_nat)
    then show "unat (index_work_used (build_result b) + of_nat j) = W + j"
      using that limits by (subst unat_add_fits) (simp_all add: reach_def W_def)
    show "unat (of_nat (rows_bytes tail j) :: u64) = rows_bytes tail j"
      using that limits by (simp add: reach_def unat_of_nat)
  qed
  have "decides (build_failed limits M) (scan_rows (preflight_ordinal tail) 0 n) (state 0) (reach (0 + n))
      (map (\<lambda>_. ()) [0..<0 + n]) (state (0 + n))"
  proof (rule decides_rows)
    fix j
    assume j: "0 \<le> j" "j < 0 + n" "reach j"
    have row: "serialized_file_metadata_tail_reference_type tail (of_nat j) = Some (index_row tail j)"
      using index_row_there [OF tail, of n j] j n by simp
    have s: "build_limits (state j) = limits" "index_work_used (build_result (state j)) \<le> index_max_work limits"
      "identity_source_bytes (build_view (state j)) \<le> max_identity_source_bytes limits"
      using b counters [OF j(3)] j(3) by (simp_all add: state_def reach_def word_le_nat_alt)
    have one: "unat (index_work_used (build_result (state j))) + unat (of_nat 1 :: u64) = W + Suc j"
      using counters [OF j(3)] by (simp add: state_def)
    have more: "index_work_used (build_result (paid 1 (state j))) \<le> index_max_work limits"
      if "W + Suc j \<le> unat (index_max_work limits)"
      using charge_result_decides(2) [OF s(2), of 1] one that by (simp add: word_le_nat_alt)
    have paying: "decides (build_failed limits M) (charge_build 1 ordinal offset) (state j)
        (W + Suc j \<le> unat (index_max_work limits)) () (paid 1 (state j))" for ordinal offset
      using charge_build_decides [OF s(2,1), where n = 1] unfolding one by simp
    have bad: "\<not> row_sound (build_bytes b) (build_known_size b) (index_rows_source (build_view b)) (of_nat j)
        (index_row tail j) \<Longrightarrow> M"
    proof (rule mism)
      assume "\<not> row_sound (build_bytes b) (build_known_size b) (index_rows_source (build_view b)) (of_nat j)
        (index_row tail j)"
      then show "\<not> rows_sound b tail n" using j(2) by (auto simp: rows_sound_def list_all_iff)
    qed
    show "decides (build_failed limits M) (preflight_ordinal tail j) (state j) (reach (Suc j)) () (state (Suc j))"
      unfolding preflight_ordinal_def row Let_def option.case
    proof (rule decides_then [OF paying], goal_cases)
      case 1
      then show ?case by (auto simp: reach_def)
    next
      case 2
      have "state (Suc j) = named (names_bytes (identity_names (index_row tail j))) (paid 1 (state j))"
        by (simp add: state_def named_paid paid_paid named_named)
      then show ?case
        using s 2 more bad j(3) b counters [OF j(3)]
        by (intro decides_weaken [OF preflight_row_decides [where limits = limits]])
          (auto simp: state_def reach_def)
    qed
  qed (use b in \<open>auto simp: reach_def W_def word_le_nat_alt\<close>)
  then show ?thesis
    unfolding preflight_rows_def
    by (intro decides_with) (simp add: reach_def state_def W_def count n [symmetric] map_replicate_const named_def paid_def)
qed

section \<open>The two passes\<close>

text \<open>The start of the passes: the domain is selected and no name is counted yet.\<close>

definition index_ready :: "SerializedFileReferenceIndexLimits \<Rightarrow> SerializedFileMetadataTail \<Rightarrow> ReferenceIndexBuild \<Rightarrow> bool" where
  "index_ready limits tail start \<longleftrightarrow>
     build_limits start = limits \<and> identity_source_bytes (build_view start) = 0 \<and>
     (case tail of None \<Rightarrow> False
      | Some storage \<Rightarrow> index_reference_type_count (build_view start) = reference_type_count (tail_storage_view storage))"

definition index_length :: "ReferenceIndexBuild \<Rightarrow> nat" where
  "index_length start = unat (index_reference_type_count (build_view start))"

text \<open>The rows to catalogue, one unit each, and the bytes of their names.\<close>

definition index_tables ::
    "SerializedFileMetadataTail \<Rightarrow> ReferenceIndexBuild \<Rightarrow>
     (SerializedFileMetadataTailReferenceTypeRow list \<times> usage) option" where
  "index_tables tail start =
     (if rows_sound start tail (index_length start)
      then Some (index_rows tail (index_length start),
        both (use Work (index_length start)) (use Terminated (rows_bytes tail (index_length start))))
      else None)"

definition index_room :: "SerializedFileReferenceIndexLimits \<Rightarrow> usage \<Rightarrow> bool" where
  "index_room limits u \<longleftrightarrow> u Terminated \<le> unat (max_identity_source_bytes limits)"

definition index_counted ::
    "SerializedFileMetadataTail \<Rightarrow> ReferenceIndexBuild \<Rightarrow> SerializedFileMetadataTailReferenceTypeRow list \<Rightarrow>
     ReferenceIndexBuild \<Rightarrow> bool" where
  "index_counted tail start rows build \<longleftrightarrow>
     rows = index_rows tail (index_length start) \<and> build_limits build = build_limits start \<and>
     build_known_size build = build_known_size start \<and>
     build_view build = (build_view start)
       \<lparr>identity_source_bytes := of_nat (rows_bytes tail (index_length start))\<rparr>"

definition index_amount :: "'a list \<Rightarrow> nat" where
  "index_amount rows = 592 + length rows * 344"

definition index_describes ::
    "ReferenceIndexBuild \<Rightarrow> pointer \<Rightarrow> block \<Rightarrow> SerializedFileMetadataTailReferenceTypeRow list \<Rightarrow> usage \<Rightarrow>
     ReferenceIndexStorage \<Rightarrow> bool" where
  "index_describes start address cells rows u storage \<longleftrightarrow>
     storage = \<lparr>index_storage_address = address, index_storage_cells = cells,
       index_storage_view = (build_view start)
         \<lparr>identity_source_bytes := of_nat (u Terminated), index_retained_bytes := of_nat (index_amount rows)\<rparr>,
       index_storage_rows = rows, storage_known_size = build_known_size start\<rparr>"

lemma length_index_rows [simp]: "length (index_rows tail n) = n"
  by (simp add: index_rows_def)

text \<open>Copying the rows: one unit each, and each row goes to its own place.\<close>

lemma copy_rows_decides:
  assumes s: "build_limits b = limits" "index_work_used (build_result b) \<le> index_max_work limits"
    and n: "n \<le> length rows" "n < 2 ^ 64"
  shows "decides (\<lambda>(b, _). build_failed limits False b) (scan_rows (copy_row tail) 0 n) (b, rows)
      (unat (index_work_used (build_result b)) + n \<le> unat (index_max_work limits)) (replicate n ())
      (paid n b, index_rows tail n @ drop n rows)"
proof -
  define W where "W = unat (index_work_used (build_result b))"
  define reach where "reach = (\<lambda>j. W + j \<le> unat (index_max_work limits))"
  define state where "state = (\<lambda>j. (paid j b, index_rows tail j @ drop j rows))"
  have "decides (\<lambda>(b, _). build_failed limits False b) (scan_rows (copy_row tail) 0 n) (state 0) (reach (0 + n))
      (map (\<lambda>_. ()) [0..<0 + n]) (state (0 + n))"
  proof (rule decides_rows)
    fix j
    assume j: "0 \<le> j" "j < 0 + n" "reach j"
    have "unat (of_nat j :: u64) = j" using j n by (simp add: unat_of_nat)
    then have worked: "unat (index_work_used (build_result (paid j b))) = W + j"
      using j(3) u64_bound [of "index_max_work limits"]
      by (simp add: W_def reach_def) (subst unat_add_fits, simp_all)
    have p: "build_limits (paid j b) = limits" "index_work_used (build_result (paid j b)) \<le> index_max_work limits"
      using s worked j(3) by (simp_all add: reach_def word_le_nat_alt del: paid_fields(6))
    have row: "index_rows tail (Suc j) @ drop (Suc j) rows = (index_rows tail j @ drop j rows)[j := index_row tail j]"
      using j(2) n(1) by (simp add: index_rows_def list_update_append Cons_nth_drop_Suc [symmetric])
    have charged: "decides (build_failed limits False) (charge_build 1 ordinal offset) (paid j b) (reach (Suc j)) () (paid (Suc j) b)"
      for ordinal offset
      using charge_build_decides [OF p(2,1), where n = 1 and M = False and ordinal = ordinal and offset = offset] unfolding worked paid_paid by (simp add: reach_def)
    show "decides (\<lambda>(b, _). build_failed limits False b) (copy_row tail j) (state j) (reach (Suc j)) () (state (Suc j))"
      using charged [of "of_nat j" "span_offset (reference_source (index_row tail j))"]
      unfolding state_def row
      by (auto simp: decides_def copy_row_def Let_def index_row_def [symmetric] split: prod.splits option.splits if_splits)
  qed (use s in \<open>auto simp: reach_def W_def word_le_nat_alt\<close>)
  then show ?thesis
    by (simp add: state_def reach_def W_def map_replicate_const paid_def index_rows_def)
qed

lemma index_replay_decides:
  assumes r: "index_work_used r \<le> index_max_work limits" "index_status r = SERIALIZED_FILE_REFERENCE_INDEX_OK"
    and ready: "index_ready limits tail start" and counted: "index_counted tail start rows b"
    and u: "index_tables tail start = Some (rows, u)" and amount: "amount = of_nat (index_amount rows)"
  shows "case index_replay tail amount address cells b r of
      (None, r') \<Rightarrow> index_failed limits r' \<and> unat (index_max_work limits) < unat (index_work_used r) + u Work
    | (Some storage, r') \<Rightarrow> index_status r' = SERIALIZED_FILE_REFERENCE_INDEX_OK \<and>
        index_work_used r' \<le> index_max_work limits \<and>
        unat (index_work_used r') = unat (index_work_used r) + u Work \<and>
        index_required_retained_bytes r' = index_required_retained_bytes r \<and>
        index_peak_retained_bytes r' = index_peak_retained_bytes r \<and>
        index_describes start address cells rows u storage"
proof -
  let ?n = "index_length start" and ?b = "b\<lparr>build_result := r\<rparr>"
  have n: "unat (index_reference_type_count (build_view b)) = ?n" and view: "build_limits b = limits"
    "build_known_size b = build_known_size start" "rows = index_rows tail ?n"
    "build_view b = (build_view start)\<lparr>identity_source_bytes := of_nat (rows_bytes tail ?n)\<rparr>"
    using counted ready by (simp_all add: index_counted_def index_length_def index_ready_def)
  have use: "u Work = ?n" "u Terminated = rows_bytes tail ?n"
    using u by (auto simp: index_tables_def use_def both_def split: if_splits)
  have small: "?n < 2 ^ 64" unfolding index_length_def by (rule u64_bound)
  have wide: "unat (of_nat ?n :: u64) = ?n" using small by (simp add: unat_of_nat)
  note loop = copy_rows_decides [where b = ?b and limits = limits and n = ?n and tail = tail and
      rows = "replicate ?n zero_reference_type_row"]
  have done_state: "decides (\<lambda>(b, _). build_failed limits False b) (scan_rows (copy_row tail) 0 ?n)
      (?b, replicate ?n zero_reference_type_row) (unat (index_work_used r) + ?n \<le> unat (index_max_work limits))
      (replicate ?n ()) (paid ?n ?b, rows)"
    using loop view r(1) small by simp
  have run: "index_replay tail amount address cells b r =
      (case scan_rows (copy_row tail) 0 ?n (?b, replicate ?n zero_reference_type_row) of
         (None, (build, rows)) \<Rightarrow> (None, build_result build)
       | (Some _, (build, rows)) \<Rightarrow>
           (Some \<lparr>index_storage_address = address, index_storage_cells = cells,
              index_storage_view = (build_view build)\<lparr>index_retained_bytes := amount\<rparr>,
              index_storage_rows = rows, storage_known_size = build_known_size build\<rparr>, build_result build))"
    unfolding index_replay_def n Let_def ..
  show ?thesis
  proof (cases "unat (index_work_used r) + ?n \<le> unat (index_max_work limits)")
    case True
    have total: "unat (index_work_used r + of_nat ?n) = unat (index_work_used r) + ?n"
      using True u64_bound [of "index_max_work limits"] by (subst unat_add_fits) (simp_all add: wide)
    show ?thesis
      using decidesD(1) [OF done_state True] True total view r(2)
      unfolding run by (simp add: use amount index_describes_def word_le_nat_alt)
  next
    case False
    then show ?thesis
      using decidesD(2) [OF done_state False] unfolding run by (auto simp: use)
  qed
qed

lemma index_plan_decides:
  assumes r: "index_work_used r \<le> index_max_work limits" and n: "unat count = length rows"
  shows "case index_plan_storage limits count r of
      (None, r') \<Rightarrow> index_failed limits r' \<and>
        (unat (index_max_work limits) < unat (index_work_used r) + 1 \<or>
         unat (index_max_retained_bytes limits) < index_amount rows)
    | (Some amount, r') \<Rightarrow> unat amount = index_amount rows \<and> index_status r' = index_status r \<and>
        index_work_used r' \<le> index_max_work limits \<and>
        unat (index_work_used r') = unat (index_work_used r) + 1 \<and>
        index_required_retained_bytes r' = amount \<and> index_amount rows \<le> unat (index_max_retained_bytes limits)"
proof -
  note charged = charge_result_decides(1) [OF r, of 1 SIZE_MAX UINT64_MAX]
  have placed: "case serialized_file_storage_append_array_internal sizeof_index_storage alignof_row count
      sizeof_reference_type_row of None \<Rightarrow> size_max < index_amount rows
    | Some (amount, offset) \<Rightarrow> unat amount = index_amount rows"
    using append_array_exact [of alignof_row sizeof_index_storage count sizeof_reference_type_row]
    by (auto simp: index_amount_def n pad_to_def split: option.splits)
  have top: "unat (index_max_retained_bytes limits) \<le> size_max"
    using u64_bound [of "index_max_retained_bytes limits"] by simp
  show ?thesis
  proof (cases "unat (index_work_used r) + unat (1 :: u64) \<le> unat (index_max_work limits)")
    case False
    then show ?thesis
      using decidesD(2) [OF charged False] by (auto simp: index_plan_storage_def step_then_def)
  next
    case True
    note run = decidesD(1) [OF charged True]
    have one: "unat (index_work_used r + 1) = unat (index_work_used r) + 1"
      "index_work_used r + 1 \<le> index_max_work limits"
      using charge_result_decides(2) [OF r True] True by (simp_all add: word_le_nat_alt)
    show ?thesis
    proof (cases "serialized_file_storage_append_array_internal sizeof_index_storage alignof_row count
        sizeof_reference_type_row")
      case None
      then show ?thesis using placed top one by (simp add: index_plan_storage_def step_then_def run reject_result_def)
    next
      case (Some pair)
      then show ?thesis
        using placed one
        by (cases pair) (auto simp: index_plan_storage_def step_then_def run reject_result_def Let_def word_le_nat_alt
            word_less_nat_alt)
    qed
  qed
qed

abbreviation index_count ::
    "SerializedFileMetadataTail \<Rightarrow> ReferenceIndexBuild \<Rightarrow> SerializedFileReferenceIndexResult \<Rightarrow>
     SerializedFileMetadataTailReferenceTypeRow list option \<times> ReferenceIndexBuild" where
  "index_count tail start result \<equiv>
     apfst (map_option (\<lambda>_. index_rows tail (index_length start))) (preflight_rows tail (start\<lparr>build_result := result\<rparr>))"

lemma build_index_passes:
  "build_index tail place grants limits start result t =
     two_pass_build (\<lambda>n. charge_result limits n SIZE_MAX UINT64_MAX) (index_count tail start) build_result
       (\<lambda>build. index_plan_storage limits (index_reference_type_count (build_view build))) id
       (owner_refusal SERIALIZED_FILE_REFERENCE_INDEX_ALLOCATION_FAILED SERIALIZED_FILE_REFERENCE_INDEX_LIMIT_NONE)
       (\<lambda>n result. result\<lparr>index_peak_retained_bytes := n\<rparr>) (index_replay tail) place grants result t"
  unfolding build_index_def two_pass_build_def two_pass_store_def id_def
  by (cases "preflight_rows tail (start\<lparr>build_result := result\<rparr>)";
      cases "fst (preflight_rows tail (start\<lparr>build_result := result\<rparr>))") (simp_all split: prod.split option.split)

lemma index_count_outcome:
  assumes ready: "index_ready limits tail start"
    and r: "index_status r = SERIALIZED_FILE_REFERENCE_INDEX_OK" "index_work_used r \<le> index_max_work limits"
  shows "case index_count tail start r of
      (None, b) \<Rightarrow> index_failed limits (build_result b) \<and>
        \<not> (\<exists>x u. index_tables tail start = Some (x, u) \<and> index_room limits u \<and>
           unat (index_work_used r) + u Work \<le> unat (index_max_work limits))
    | (Some x, b) \<Rightarrow> \<exists>u. index_tables tail start = Some (x, u) \<and> index_room limits u \<and>
        index_status (build_result b) = SERIALIZED_FILE_REFERENCE_INDEX_OK \<and>
        index_work_used (build_result b) \<le> index_max_work limits \<and>
        unat (index_work_used (build_result b)) = unat (index_work_used r) + u Work \<and>
        index_counted tail start x b"
proof -
  let ?n = "index_length start" and ?b = "start\<lparr>build_result := r\<rparr>"
  obtain storage where tail: "tail = Some storage"
    "index_reference_type_count (build_view start) = reference_type_count (tail_storage_view storage)"
    using ready by (auto simp: index_ready_def split: option.splits)
  have sound: "rows_sound ?b t m \<longleftrightarrow> rows_sound start t m" for t m by (simp add: rows_sound_def)
  have decided: "decides (build_failed limits True) (preflight_rows tail) ?b
      (rows_sound start tail ?n \<and> unat (index_work_used r) + ?n \<le> unat (index_max_work limits) \<and>
       rows_bytes tail ?n \<le> unat (max_identity_source_bytes limits))
      (replicate ?n ()) (named (rows_bytes tail ?n) (paid ?n ?b))"
    using preflight_rows_decides [of ?b limits tail storage ?n True] ready r(2) tail
    by (simp add: index_ready_def index_length_def sound)
  have wide: "unat (of_nat ?n :: u64) = ?n" by (simp add: index_length_def)
  show ?thesis
  proof (cases "rows_sound start tail ?n \<and> unat (index_work_used r) + ?n \<le> unat (index_max_work limits) \<and>
       rows_bytes tail ?n \<le> unat (max_identity_source_bytes limits)")
    case True
    have "unat (index_work_used r + of_nat ?n) = unat (index_work_used r) + ?n"
      using True u64_bound [of "index_max_work limits"] by (subst unat_add_fits) (simp_all add: wide)
    then show ?thesis
      using decidesD(1) [OF decided True] True ready r
      by (simp add: index_tables_def index_room_def index_counted_def index_ready_def use_def both_def word_le_nat_alt)
  next
    case False
    then show ?thesis
      using decidesD(2) [OF decided False]
      by (auto simp: index_tables_def index_room_def use_def both_def)
  qed
qed

interpretation index_passes: two_pass index_work_used index_required_retained_bytes index_peak_retained_bytes
    "\<lambda>result. index_status result = SERIALIZED_FILE_REFERENCE_INDEX_OK" "index_max_work limits"
    "index_max_retained_bytes limits" "\<lambda>n. charge_result limits n SIZE_MAX UINT64_MAX" "index_count tail start" build_result
    "\<lambda>build. index_plan_storage limits (index_reference_type_count (build_view build))" id
    "owner_refusal SERIALIZED_FILE_REFERENCE_INDEX_ALLOCATION_FAILED SERIALIZED_FILE_REFERENCE_INDEX_LIMIT_NONE"
    "\<lambda>n result. result\<lparr>index_peak_retained_bytes := n\<rparr>" "index_replay tail"
    "index_ready limits tail start" "index_tables tail start" "index_room limits"
    "\<lambda>x build. index_ready limits tail start \<and> index_counted tail start x build" index_amount
    "index_describes start"
  for limits tail start
proof
  fix r :: SerializedFileReferenceIndexResult and n :: u64 and s x u address cells
    and layout :: u64
  show "index_work_used r \<le> index_max_work limits \<Longrightarrow>
      case charge_result limits n SIZE_MAX UINT64_MAX r of
        (None, r') \<Rightarrow> \<not> index_status r' = SERIALIZED_FILE_REFERENCE_INDEX_OK \<and> index_work_used r' = index_work_used r \<and>
          unat (index_max_work limits) < unat (index_work_used r) + unat n
      | (Some _, r') \<Rightarrow>
          unat (index_work_used r') = unat (index_work_used r) + unat n \<and>
          unat (index_work_used r) + unat n \<le> unat (index_max_work limits) \<and>
          (index_status r' = SERIALIZED_FILE_REFERENCE_INDEX_OK) = (index_status r = SERIALIZED_FILE_REFERENCE_INDEX_OK) \<and>
          index_required_retained_bytes r' = index_required_retained_bytes r \<and>
          index_peak_retained_bytes r' = index_peak_retained_bytes r"
    using charge_iff [of "index_work_used r" "index_max_work limits" n] charge_value [of "index_work_used r" "index_max_work limits" n]
    by (auto simp: charge_result_def step_then_def step_require_def step_modify_def reject_result_def)
  show "index_ready limits tail start \<Longrightarrow> index_status r = SERIALIZED_FILE_REFERENCE_INDEX_OK \<Longrightarrow>
      index_work_used r \<le> index_max_work limits \<Longrightarrow>
      case index_count tail start r of
        (None, s) \<Rightarrow> \<not> index_status (build_result s) = SERIALIZED_FILE_REFERENCE_INDEX_OK \<and>
          index_work_used (build_result s) \<le> index_max_work limits \<and>
          \<not> (\<exists>x u. index_tables tail start = Some (x, u) \<and> index_room limits u \<and>
             unat (index_work_used r) + u Work \<le> unat (index_max_work limits))
      | (Some x, s) \<Rightarrow> \<exists>u. index_tables tail start = Some (x, u) \<and>
          index_room limits u \<and> index_status (build_result s) = SERIALIZED_FILE_REFERENCE_INDEX_OK \<and>
          index_work_used (build_result s) \<le> index_max_work limits \<and>
          unat (index_work_used (build_result s)) = unat (index_work_used r) + u Work \<and>
          index_ready limits tail start \<and> index_counted tail start x s"
    using index_count_outcome [of limits tail start r] by (simp split: prod.splits option.splits)
  show "index_ready limits tail start \<and> index_counted tail start x s \<Longrightarrow> index_work_used r \<le> index_max_work limits \<Longrightarrow>
      case index_plan_storage limits (index_reference_type_count (build_view s)) r of
        (None, r') \<Rightarrow> \<not> index_status r' = SERIALIZED_FILE_REFERENCE_INDEX_OK \<and> index_work_used r' \<le> index_max_work limits \<and>
          (unat (index_max_work limits) < unat (index_work_used r) + 1 \<or>
           unat (index_max_retained_bytes limits) < index_amount x)
      | (Some layout, r') \<Rightarrow> unat (id layout) = index_amount x \<and>
          (index_status r' = SERIALIZED_FILE_REFERENCE_INDEX_OK) = (index_status r = SERIALIZED_FILE_REFERENCE_INDEX_OK) \<and>
          index_work_used r' \<le> index_max_work limits \<and> unat (index_work_used r') = unat (index_work_used r) + 1 \<and>
          index_required_retained_bytes r' = id layout \<and>
          index_amount x \<le> unat (index_max_retained_bytes limits)"
    using index_plan_decides [of r limits "index_reference_type_count (build_view s)" x]
    by (simp add: index_counted_def index_length_def split: prod.splits option.splits)
  show "0 < index_amount x" by (simp add: index_amount_def)
  show "index_ready limits tail start \<Longrightarrow> index_ready limits tail start \<and> index_counted tail start x s \<Longrightarrow>
      index_tables tail start = Some (x, u) \<Longrightarrow> index_room limits u \<Longrightarrow>
      index_status r = SERIALIZED_FILE_REFERENCE_INDEX_OK \<Longrightarrow> index_work_used r \<le> index_max_work limits \<Longrightarrow>
      id layout = of_nat (index_amount x) \<Longrightarrow>
      case index_replay tail layout address cells s r of
        (None, r') \<Rightarrow> \<not> index_status r' = SERIALIZED_FILE_REFERENCE_INDEX_OK \<and> index_work_used r' \<le> index_max_work limits \<and>
          unat (index_max_work limits) < unat (index_work_used r) + u Work
      | (Some y, r') \<Rightarrow> index_status r' = SERIALIZED_FILE_REFERENCE_INDEX_OK \<and> index_work_used r' \<le> index_max_work limits \<and>
          unat (index_work_used r') = unat (index_work_used r) + u Work \<and>
          index_required_retained_bytes r' = index_required_retained_bytes r \<and>
          index_peak_retained_bytes r' = index_peak_retained_bytes r \<and> index_describes start address cells x u y"
    using index_replay_decides [of r limits tail start x s u layout address cells] by (simp split: prod.splits option.splits)
qed (simp_all add: reject_result_def)

section \<open>Admission\<close>

text \<open>What the admission of a parent asks for, and the build it leaves.\<close>

definition index_parent_admitted ::
    "pointer \<Rightarrow> TailStorage \<Rightarrow> pointer \<Rightarrow> pointer \<Rightarrow> SerializedFileReferenceIndex \<Rightarrow> bool" where
  "index_parent_admitted tail_address storage limits_address out_address out \<longleftrightarrow>
     tail_address \<noteq> 0 \<and> limits_address \<noteq> 0 \<and> out_address \<noteq> 0 \<and>
     (let source = tail_source (tail_storage_view storage) in
      span_end source \<le> size_max \<and>
      ranges_are_disjoint [] [(tail_address, sizeof_tail_handle), (limits_address, sizeof_index_limits),
        (out_address, sizeof_index_handle),
        (tail_storage_address storage, tail_retained_bytes (tail_storage_view storage)),
        (span_data (header_source (header (view_prefix (tail_directory (tail_storage_view storage))))),
         span_offset source + span_size source)]) \<and>
     out = None"

definition index_domain :: "SerializedFileReferenceIndexLimits \<Rightarrow> TailStorage \<Rightarrow> bool" where
  "index_domain limits storage \<longleftrightarrow>
     (let view = tail_storage_view storage in
      view_engine_version (tail_directory view) = ENGINE_2021_3_35F1 \<and>
      reference_type_count view \<le> index_max_reference_types limits \<and>
      \<not> (reference_type_count view \<noteq> 0 \<and> type_tree_enabled_raw (view_prefix (tail_directory view)) = 0))"

definition index_start_view :: "SerializedFileMetadataTailView \<Rightarrow> SerializedFileReferenceIndexView" where
  "index_start_view view =
     \<lparr>index_engine_version = view_engine_version (tail_directory view), index_prefix = view_prefix (tail_directory view),
      index_tail_source = tail_source view, index_count_source = reference_type_count_source view,
      index_rows_source = reference_type_rows_source view, index_reference_type_count = reference_type_count view,
      identity_source_bytes = 0, index_retained_bytes = 0\<rparr>"

definition index_start :: "SerializedFileReferenceIndexLimits \<Rightarrow> TailStorage \<Rightarrow> ReferenceIndexBuild" where
  "index_start limits storage =
     (let view = tail_storage_view storage in
      \<lparr>build_limits = limits, build_parent = Some view, build_view = index_start_view view,
       build_result = index_initial_result\<lparr>index_work_used := 1, result_reference_type_count := reference_type_count view\<rparr>,
       build_bytes = span_data (header_source (header (view_prefix (tail_directory view)))),
       build_known_size = span_offset (tail_source view) + span_size (tail_source view)\<rparr>)"

lemma ranges_are_disjoint_prefix:
  "ranges_are_disjoint earlier (ranges @ others) \<Longrightarrow> ranges_are_disjoint earlier ranges"
  by (induction earlier ranges rule: ranges_are_disjoint.induct) auto

lemma reject_owner_failed:
  "index_work_used (build_result b) \<le> index_max_work limits \<Longrightarrow> status \<noteq> SERIALIZED_FILE_REFERENCE_INDEX_OK \<Longrightarrow>
     status \<noteq> SERIALIZED_FILE_REFERENCE_INDEX_SOURCE_MISMATCH \<Longrightarrow> build_failed limits False (reject_owner status limit b)"
  by (simp add: reject_owner_def reject_build_def reject_result_def)

lemma select_domain_decides:
  assumes b: "build_parent b = Some (tail_storage_view storage)" "build_limits b = limits"
    "index_work_used (build_result b) \<le> index_max_work limits"
  shows "decides (build_failed limits False) select_domain b (index_domain limits storage) ()
    (let view = tail_storage_view storage in b
       \<lparr>build_result := (build_result b)\<lparr>result_reference_type_count := reference_type_count view\<rparr>,
        build_view := (index_start_view view)\<lparr>identity_source_bytes := identity_source_bytes (build_view b),
          index_retained_bytes := index_retained_bytes (build_view b)\<rparr>\<rparr>)"
proof -
  let ?view = "tail_storage_view storage"
  let ?b = "b\<lparr>build_result := (build_result b)\<lparr>result_reference_type_count := reference_type_count ?view\<rparr>\<rparr>"
  have counted: "index_work_used (build_result ?b) \<le> index_max_work limits" "build_limits ?b = limits"
    using b by simp_all
  show ?thesis
    unfolding select_domain_def Let_def
  proof (rule decides_with, unfold b(1) option.sel, rule decides_guard, goal_cases)
    case 1
    then show ?case using reject_owner_failed b(3) by (simp add: index_domain_def Let_def)
  next
    case engine: 2
    show ?case
    proof (rule decides_write, rule decides_guard, goal_cases)
      case 1
      then show ?case using reject_owner_failed counted by (auto simp: index_domain_def Let_def not_less)
    next
      case count: 2
      show ?case
      proof (rule decides_guard, goal_cases)
        case 1
        then show ?case using reject_owner_failed counted by (auto simp: index_domain_def Let_def)
      next
        case 2
        show ?case
        proof (rule decides_modify)
          show "index_domain limits storage" using engine count 2 counted(2) by (auto simp: index_domain_def Let_def not_less)
        qed (simp add: index_start_view_def)
      qed
    qed
  qed
qed

lemma index_admission:
  "decides (build_failed limits False)
     (step_then (prepare_parent tail_address (Some storage) limits_address out_address out) (\<lambda>_.
        step_then (charge_build 1 SIZE_MAX UINT64_MAX) (\<lambda>_. select_domain))) (start_build limits)
     (index_parent_admitted tail_address storage limits_address out_address out \<and> 1 \<le> unat (index_max_work limits) \<and>
      index_domain limits storage) () (index_start limits storage)"
  (is "decides _ _ _ ?C _ _")
proof -
  let ?view = "tail_storage_view storage"
  let ?known = "span_offset (tail_source ?view) + span_size (tail_source ?view)"
  let ?bytes = "span_data (header_source (header (view_prefix (tail_directory ?view))))"
  let ?three = "[(tail_address, sizeof_tail_handle), (limits_address, sizeof_index_limits), (out_address, sizeof_index_handle)]"
  let ?five = "?three @ [(tail_storage_address storage, tail_retained_bytes ?view), (?bytes, ?known)]"
  let ?s = "(start_build limits)\<lparr>build_parent := Some ?view, build_known_size := ?known, build_bytes := ?bytes\<rparr>"
  note refused = reject_owner_failed
  have fresh: "index_work_used (build_result (start_build limits)) = 0" "build_result ?s = index_initial_result"
    "index_work_used index_initial_result = 0"
    by (simp_all add: start_build_def index_initial_result_def)
  have fits: "\<not> (span_offset (tail_source ?view) > SIZE_MAX \<or>
      span_size (tail_source ?view) > SIZE_MAX - span_offset (tail_source ?view)) \<longleftrightarrow> span_end (tail_source ?view) \<le> size_max"
    using charge_iff [of "span_offset (tail_source ?view)" SIZE_MAX "span_size (tail_source ?view)"]
    using u64_bound [of "span_offset (tail_source ?view)"] by (simp add: span_end_def not_less word_le_nat_alt)
  have parent: "decides (build_failed limits False) (prepare_parent tail_address (Some storage) limits_address out_address out)
      (start_build limits) (index_parent_admitted tail_address storage limits_address out_address out) () ?s"
    unfolding prepare_parent_def serialized_file_metadata_tail_storage_range_internal_def option.map option.case prod.case
  proof (rule decides_guard, goal_cases)
    case 1
    then show ?case
      using refused fresh ranges_are_disjoint_prefix [of "[]" ?three "drop 3 ?five"]
      by (auto simp: index_parent_admitted_def Let_def simp del: ranges_are_disjoint.simps)
  next
    case args: 2
    show ?case
    proof (rule decides_write, rule decides_with, rule decides_guard, goal_cases)
      case 1
      then show ?case using refused fresh fits
        by (simp add: index_parent_admitted_def Let_def serialized_file_metadata_tail_view_def start_build_def)
    next
      case source: 2
      show ?case
      proof (rule decides_write, rule decides_guard, goal_cases)
        case 1
        then show ?case using refused fresh
          by (auto simp: index_parent_admitted_def Let_def serialized_file_metadata_tail_view_def start_build_def
              simp del: ranges_are_disjoint.simps)
      next
        case 2
        have same: "(start_build limits)\<lparr>build_parent := Some ?view\<rparr>\<lparr>build_known_size := ?known, build_bytes := ?bytes\<rparr> = ?s"
          by simp
        show ?case
          using 2 args source fits
          by (intro decides_weaken [OF decides_require [where C = "out = None"]])
            (auto simp: index_parent_admitted_def Let_def serialized_file_metadata_tail_view_def
              reject_owner_def reject_build_def reject_result_def index_initial_result_def start_build_def
              simp del: ranges_are_disjoint.simps)
      qed
    qed
  qed
  have paying: "decides (build_failed limits False) (charge_build 1 SIZE_MAX UINT64_MAX) ?s
      (1 \<le> unat (index_max_work limits)) () (paid 1 ?s)"
    using charge_build_decides [of ?s limits False 1 SIZE_MAX UINT64_MAX] fresh by (simp add: start_build_def index_initial_result_def)
  show ?thesis
  proof (rule decides_then [OF parent], simp, rule decides_then [OF paying], simp, goal_cases)
    case 1
    then have one: "index_work_used (build_result (paid 1 ?s)) \<le> index_max_work limits" "build_parent (paid 1 ?s) = Some ?view"
      "build_limits (paid 1 ?s) = limits"
      using fresh by (simp_all add: word_le_nat_alt start_build_def)
    show ?case
      by (rule decides_weaken [OF select_domain_decides [OF one(2,3,1)]])
        (use 1 in \<open>auto simp: index_start_def index_start_view_def start_build_def paid_def Let_def index_initial_result_def\<close>)
  qed
qed

section \<open>Creation\<close>

text \<open>
  What creation asks for: a live tail whose storage, handle and known bytes lie apart from the
  arguments, the supported engine, a count within its cap, trees when there are rows, rows
  whose names lie where the descriptors say, and room for all of it.
\<close>

definition index_fits ::
    "allocator \<Rightarrow> TailStorage \<Rightarrow> SerializedFileReferenceIndexLimits \<Rightarrow> tracker \<Rightarrow> bool" where
  "index_fits grants storage limits t \<longleftrightarrow>
     (let n = unat (reference_type_count (tail_storage_view storage)); amount = 592 + n * 344 in
      rows_bytes (Some storage) n \<le> unat (max_identity_source_bytes limits) \<and>
      amount \<le> unat (index_max_retained_bytes limits) \<and> grants (allocator_calls t) (of_nat amount) \<and>
      amount + 2 * n + 3 \<le> unat (index_max_work limits))"

definition index_admits ::
    "allocator \<Rightarrow> pointer \<Rightarrow> TailStorage \<Rightarrow> pointer \<Rightarrow> SerializedFileReferenceIndexLimits \<Rightarrow> pointer \<Rightarrow> tracker \<Rightarrow> bool" where
  "index_admits grants tail_address storage limits_address limits out_address t \<longleftrightarrow>
     index_parent_admitted tail_address storage limits_address out_address None \<and> index_domain limits storage \<and>
     rows_sound (index_start limits storage) (Some storage) (unat (reference_type_count (tail_storage_view storage))) \<and>
     index_fits grants storage limits t"

lemma index_start_ready: "index_ready limits (Some storage) (index_start limits storage)"
  by (simp add: index_ready_def index_start_def index_start_view_def Let_def)

lemma index_start_length:
  "index_length (index_start limits storage) = unat (reference_type_count (tail_storage_view storage))"
  by (simp add: index_length_def index_start_def index_start_view_def Let_def)

lemma index_create_dead:
  "case serialized_file_reference_index_create place grants tail_address None limits_address limits out_address out t of
     (r, out', t') \<Rightarrow> index_failed limits r \<and> index_status r \<noteq> SERIALIZED_FILE_REFERENCE_INDEX_SOURCE_MISMATCH \<and>
       out' = out \<and> t' = t"
  by (simp add: serialized_file_reference_index_create_def prepare_parent_def step_then_def step_require_def
      serialized_file_metadata_tail_storage_range_internal_def reject_owner_def reject_build_def reject_result_def
      start_build_def index_initial_result_def)

lemma index_create_outcome:
  "case serialized_file_reference_index_create place grants tail_address tail limits_address limits out_address None t of
     (r, None, t') \<Rightarrow> index_failed limits r \<and> owed None 0 t' = owed None 0 t \<and>
       (case tail of None \<Rightarrow> True
        | Some storage \<Rightarrow> \<not> index_admits grants tail_address storage limits_address limits out_address t)
   | (r, Some index, t') \<Rightarrow> index_status r = SERIALIZED_FILE_REFERENCE_INDEX_OK \<and>
       (case tail of None \<Rightarrow> False
        | Some storage \<Rightarrow>
            let n = unat (reference_type_count (tail_storage_view storage)); amount = 592 + n * 344 in
            index_admits grants tail_address storage limits_address limits out_address t \<and>
            unat (index_work_used r) = amount + 2 * n + 3 \<and>
            index_required_retained_bytes r = of_nat amount \<and> index_peak_retained_bytes r = of_nat amount \<and>
            index_storage_rows index = index_rows tail n \<and>
            index_storage_view index = (index_start_view (tail_storage_view storage))
              \<lparr>identity_source_bytes := of_nat (rows_bytes tail n), index_retained_bytes := of_nat amount\<rparr> \<and>
            index_storage_address index = place (allocator_calls t) \<and>
            owed (Some (index_storage_cells index)) (index_retained_bytes (index_storage_view index)) t' = owed None 0 t)"
proof (cases tail)
  case None
  then show ?thesis
    using index_create_dead [where place = place and grants = grants and tail_address = tail_address and
        limits_address = limits_address and limits = limits and out_address = out_address and out = None and t = t]
    by auto
next
  case (Some storage)
  let ?n = "unat (reference_type_count (tail_storage_view storage))" and ?start = "index_start limits storage"
  let ?C = "index_parent_admitted tail_address storage limits_address out_address None \<and>
      1 \<le> unat (index_max_work limits) \<and> index_domain limits storage"
  note admission = index_admission [of limits tail_address storage limits_address out_address None]
  show ?thesis
  proof (cases ?C)
    case False
    then show ?thesis
      using decidesD(2) [OF admission False]
      by (auto simp: serialized_file_reference_index_create_def Some index_admits_def index_fits_def Let_def)
  next
    case True
    let ?r = "build_result ?start"
    have run: "serialized_file_reference_index_create place grants tail_address tail limits_address limits out_address None t =
        build_index tail place grants limits ?start ?r t"
      unfolding serialized_file_reference_index_create_def Some decidesD(1) [OF admission True] by simp
    have r: "index_status ?r = SERIALIZED_FILE_REFERENCE_INDEX_OK" "index_work_used ?r \<le> index_max_work limits"
      "unat (index_work_used ?r) = 1"
      using True by (simp_all add: index_start_def Let_def index_initial_result_def word_le_nat_alt)
    have affordable: "(\<exists>u. index_tables tail ?start = Some (x, u) \<and>
          index_passes.affordable limits grants t 1 x u) \<longleftrightarrow>
        x = index_rows tail ?n \<and> index_admits grants tail_address storage limits_address limits out_address t" for x
      using True by (auto simp: index_tables_def index_passes.affordable_def index_start_length index_room_def index_admits_def
          index_fits_def Let_def use_def both_def index_amount_def Some)
    have tables: "index_tables tail ?start = Some (x, u) \<Longrightarrow>
        x = index_rows tail ?n \<and> u Work = ?n \<and> u Terminated = rows_bytes tail ?n" for x u
      by (auto simp: index_tables_def index_start_length use_def both_def split: if_splits)
    have view: "build_view ?start = index_start_view (tail_storage_view storage)"
      by (simp add: index_start_def Let_def)
    note built = index_passes.built [OF index_start_ready [of limits storage] r(1,2), where place = place and grants = grants
        and t = t, folded build_index_passes, folded Some, unfolded r(3)]
    obtain r' out t' where stop: "build_index tail place grants limits ?start ?r t = (r', out, t')" by (metis surj_pair)
    show ?thesis
    proof (cases out)
      case None
      then show ?thesis using built affordable unfolding run stop unfolding None by (auto simp: Some)
    next
      case out: (Some index)
      note built = built [unfolded stop out prod.case option.case]
      then obtain x u cells where x: "index_tables tail ?start = Some (x, u)" "index_passes.affordable limits grants t 1 x u"
        "unat (index_work_used r') = 1 + 2 * u Work + index_amount x + 2"
        "index_required_retained_bytes r' = of_nat (index_amount x)" "index_peak_retained_bytes r' = of_nat (index_amount x)"
        "index_describes ?start (place (allocator_calls t)) cells x u index"
        "owed (Some cells) (of_nat (index_amount x)) t' = owed None 0 t"
        by (elim exE conjE)
      have amount: "index_amount x = 592 + ?n * 344" using tables [OF x(1)] by (simp add: index_amount_def)
      have "index_admits grants tail_address storage limits_address limits out_address t" using affordable x(1,2) by blast
      then show ?thesis
        using x(3-7) tables [OF x(1)] built
        unfolding run stop out prod.case option.case unfolding Some option.case Let_def amount
        by (simp add: index_describes_def view index_amount_def Some)
    qed
  qed
qed

section \<open>Genuine tails\<close>

text \<open>Where the parts of a reference type lie, from its grammar.\<close>

lemma g_tree_strings:
  assumes "g_tree mem base selector q = Some (tree, v)" "q + v Bytes < 2 ^ 64"
  shows "span_end (strings_source tree) = q + v Bytes \<and> q \<le> span_start (strings_source tree) \<and>
    span_data (strings_source tree) = base + span_offset (strings_source tree)"
proof -
  obtain nodes strings :: u32 where strings: "strings_source tree =
      mapped_span base (of_nat (q + (8 + 32 * unat nodes))) (of_nat (unat strings))"
    and v: "v Bytes = 8 + 32 * unat nodes + unat strings"
    using assms(1) by (auto simp: g_tree_def g_u32_def g_then_Some g_take_def add.assoc)
  have "unat (of_nat (q + (8 + 32 * unat nodes)) :: u64) = q + (8 + 32 * unat nodes)"
    "unat (of_nat (unat strings) :: u64) = unat strings"
    using assms(2) v by (simp_all only: unat_of_nat) simp_all
  then show ?thesis by (simp add: strings mapped_span_def span_start_def span_end_def v del: of_nat_add)
qed

lemma g_string_place:
  "g_string mem base extent p = Some (span, u) \<Longrightarrow>
     span_data span = base + span_offset span \<and> 0 < u Bytes"
  by (auto simp: g_string_def mapped_span_def string_use_def)

lemma g_reference_sound:
  assumes g: "g_reference mem ctx i p = Some (row, u)"
    and trees: "type_tree_enabled_raw (view_prefix (context_directory ctx)) \<noteq> 0"
    and rows: "span_backed (tail_base ctx) known rows" "span_start rows \<le> p" "p + u Bytes \<le> span_end rows"
  shows "row_sound (tail_base ctx) known rows (of_nat i) row"
proof -
  have top: "p + u Bytes \<le> unat known" "p + u Bytes < 2 ^ 64"
    using rows u64_bound [of known] by (auto simp: span_backed_def)
  obtain prefix u1 tree u2 name space assembly u3 u4 u5 where
    parts: "g_type_prefix mem (tail_base ctx) (tail_selector ctx) p = Some (prefix, u1)"
      "g_tree mem (tail_base ctx) (tail_selector ctx) (p + u1 Bytes) = Some (tree, u2)"
      "g_string mem (tail_base ctx) (tail_extent ctx) (p + u1 Bytes + u2 Bytes) = Some (name, u3)"
      "g_string mem (tail_base ctx) (tail_extent ctx) (p + u1 Bytes + u2 Bytes + u3 Bytes) = Some (space, u4)"
      "g_string mem (tail_base ctx) (tail_extent ctx) (p + u1 Bytes + u2 Bytes + u3 Bytes + u4 Bytes) = Some (assembly, u5)"
    and row: "reference_ordinal row = of_nat i" "reference_has_tree row" "reference_tree row = tree"
      "identity_names row = [name, space, assembly]" "reference_source row = tail_span ctx p (p + u Bytes)"
    and u: "u Bytes = u1 Bytes + u2 Bytes + u3 Bytes + u4 Bytes + u5 Bytes"
    using g trees
    by (auto simp: g_reference_def g_reference_tree_def Let_def g_then_Some identity_names_def add.assoc)
  have tree: "span_end (strings_source tree) = p + u1 Bytes + u2 Bytes"
    "span_data (strings_source tree) = tail_base ctx + span_offset (strings_source tree)"
    using g_tree_strings [OF parts(2)] top u by simp_all
  have names: "unat (span_offset name) = p + u1 Bytes + u2 Bytes" "unat (span_size name) = u3 Bytes"
    "unat (span_offset space) = p + u1 Bytes + u2 Bytes + u3 Bytes" "unat (span_size space) = u4 Bytes"
    "unat (span_offset assembly) = p + u1 Bytes + u2 Bytes + u3 Bytes + u4 Bytes" "unat (span_size assembly) = u5 Bytes"
    using g_string_span [OF parts(3)] g_string_span [OF parts(4)] g_string_span [OF parts(5)] top u by simp_all
  have source: "unat (span_offset (reference_source row)) = p" "unat (span_size (reference_source row)) = u Bytes"
    "span_data (reference_source row) = tail_base ctx + span_offset (reference_source row)"
    using tail_span_exact [of p "p + u Bytes" ctx] top by (simp_all add: row(5)) (simp add: tail_span_def mapped_span_def)
  have nonempty: "span_size name \<noteq> 0" "span_size space \<noteq> 0" "span_size assembly \<noteq> 0"
    using g_string_place [OF parts(3)] g_string_place [OF parts(4)] g_string_place [OF parts(5)] names by auto
  show ?thesis
    using g_string_place [OF parts(3)] g_string_place [OF parts(4)] g_string_place [OF parts(5)]
      tree names source nonempty rows top u
    by (simp add: row_sound_def row name_sound_def span_backed_def) (simp add: span_start_def span_end_def)
qed

lemma g_rows_nth:
  "g_rows g i n p = Some (xs, u) \<Longrightarrow> k < n \<Longrightarrow>
     \<exists>q v. g (i + k) q = Some (xs ! k, v) \<and> p \<le> q \<and> q + v Bytes \<le> p + u Bytes"
proof (induction n arbitrary: i p xs u k)
  case (Suc n)
  then obtain x v ys w where parts: "g i p = Some (x, v)" "g_rows g (Suc i) n (p + v Bytes) = Some (ys, w)"
    "u = both v w" "xs = x # ys"
    by (auto simp: g_then_Some)
  show ?case
  proof (cases k)
    case 0
    then show ?thesis using parts by (auto intro!: exI [of _ p] exI [of _ v])
  next
    case (Suc j)
    then obtain q z where "g (Suc i + j) q = Some (ys ! j, z)" "p + v Bytes \<le> q" "q + z Bytes \<le> p + v Bytes + w Bytes"
      using Suc.IH [OF parts(2), of j] Suc.prems(2) by auto
    then show ?thesis using parts Suc by (auto intro!: exI [of _ q] exI [of _ z])
  qed
qed simp

text \<open>Every row of a tail that creation published is sound for the index.\<close>

lemma tail_rows_sound:
  assumes tables: "tail_tables mem bytes limits parent = Some (x, u)" and room: "tail_room mapped_size limits parent u"
    and storage: "tail_describes parent x u storage"
    and bytes: "bytes = span_data (header_source (header (view_prefix parent)))"
    and domain: "index_domain index_limits storage"
  shows "rows_sound (index_start index_limits storage) (Some storage) (unat (reference_type_count (tail_storage_view storage)))"
proof -
  let ?ctx = "tail_pass_context bytes limits parent" and ?p = "tail_start parent" and ?view = "tail_storage_view storage"
  obtain u1 u2 u3 u4 where
    parts: "g_tail_table mem ?ctx (max_reference_types limits) 0 (g_reference mem ?ctx) (?p + u1 Bytes + u2 Bytes) =
        Some ((found_reference_count x, found_references x, found_reference_rows x), u3)"
      "?p + u1 Bytes + u2 Bytes + u3 Bytes + u4 Bytes = tail_extent ?ctx"
      "found_source x = tail_span ?ctx ?p (tail_extent ?ctx)"
    and u: "u = both u1 (both u2 (both u3 u4))"
    using tables unfolding tail_tables_def g_tail_Some Let_def by (auto simp: tail_pass_context_def)
  have top: "?p + u1 Bytes + u2 Bytes + u3 Bytes + u4 Bytes < 2 ^ 64"
    using room u u64_bound [of mapped_size] by (simp add: tail_room_def add.assoc)
  let ?q = "?p + u1 Bytes + u2 Bytes"
  obtain n v w where count: "g_tail_count mem ?ctx (max_reference_types limits) 0 ?q = Some ((found_reference_count x, n), v)"
    and rows: "g_rows (g_reference mem ?ctx) 0 (unat n) (?q + v Bytes) = Some (found_reference_rows x, w)"
    and span: "found_references x = tail_span ?ctx (?q + v Bytes) (?q + v Bytes + w Bytes)" and u3: "u3 = both v w"
    using parts(1) unfolding g_tail_table_Some by blast
  have n: "length (found_reference_rows x) = unat n" by (rule g_rows_length [OF rows])
  have described: "storage_reference_types storage = found_reference_rows x" "tail_directory ?view = parent"
    "reference_type_count ?view = n" "reference_type_rows_source ?view = found_references x" "tail_source ?view = found_source x"
    using storage n by (simp_all add: tail_describes_def tail_sections_view_def tail_start_view_def Let_def)
  have extent: "unat (span_offset (tail_source ?view)) = ?p" "unat (span_size (tail_source ?view)) = tail_extent ?ctx - ?p"
    using tail_span_exact [of ?p "tail_extent ?ctx" ?ctx] parts(2) top by (simp_all add: described parts(3))
  have known: "unat (span_offset (tail_source ?view) + span_size (tail_source ?view)) = tail_extent ?ctx"
    using extent parts(2) top by (subst unat_add_fits) simp_all
  let ?known = "span_offset (tail_source ?view) + span_size (tail_source ?view)"
  have ends: "unat (span_offset (found_references x)) = ?q + v Bytes" "unat (span_size (found_references x)) = w Bytes"
    "span_data (found_references x) = bytes + span_offset (found_references x)"
    using tail_span_exact [of "?q + v Bytes" "?q + v Bytes + w Bytes" ?ctx] top u3
    by (simp_all add: span) (simp add: tail_span_def mapped_span_def tail_pass_context_def)
  have backed: "span_backed bytes ?known (found_references x)"
    using ends known parts(2) u3 by (simp add: span_backed_def span_end_def)
  have base: "tail_base ?ctx = bytes" "context_directory ?ctx = parent" by (simp_all add: tail_pass_context_def)
  have "row_sound bytes ?known (found_references x) (of_nat i) (found_reference_rows x ! i)" if i: "i < unat n" for i
  proof -
    obtain q z where row: "g_reference mem ?ctx i q = Some (found_reference_rows x ! i, z)" "?q + v Bytes \<le> q"
      "q + z Bytes \<le> ?q + v Bytes + w Bytes"
      using g_rows_nth [OF rows i] by auto
    have "n \<noteq> 0" using i by auto
    then have "type_tree_enabled_raw (view_prefix parent) \<noteq> 0" using domain described by (simp add: index_domain_def Let_def)
    then show ?thesis
      using g_reference_sound [OF row(1), where known = ?known and rows = "found_references x"] row backed ends base
      by (simp add: span_start_def span_end_def)
  qed
  moreover have "index_row (Some storage) i = found_reference_rows x ! i" if "i < unat n" for i
  proof -
    have "unat (of_nat i :: u64) = i" using that u64_bound [of n] by (simp add: unat_of_nat)
    then show ?thesis
      using that described by (simp add: index_row_def serialized_file_metadata_tail_reference_type_def word_less_nat_alt)
  qed
  ultimately show ?thesis
    by (simp add: rows_sound_def list_all_iff index_start_def index_start_view_def Let_def described bytes [symmetric])
qed

lemma copy_rows_status:
  "scan_rows (copy_row tail) i n s = (None, s') \<Longrightarrow>
     index_status (build_result (fst s')) = SERIALIZED_FILE_REFERENCE_INDEX_LIMIT_EXCEEDED"
proof (induction n arbitrary: i s)
  case (Suc n)
  then show ?case
    by (auto simp: copy_row_def charge_build_def Let_def dest: charge_result_status
        split: prod.splits option.splits)
qed simp

lemma index_replay_status:
  "index_replay tail amount address cells b r = (None, r') \<Longrightarrow>
     index_status r' = SERIALIZED_FILE_REFERENCE_INDEX_LIMIT_EXCEEDED"
  by (auto simp: index_replay_def Let_def dest: copy_rows_status split: prod.splits option.splits)

lemma index_plan_status:
  "index_plan_storage limits count r = (None, r') \<Longrightarrow>
     index_status r' = SERIALIZED_FILE_REFERENCE_INDEX_LIMIT_EXCEEDED"
  by (auto simp: index_plan_storage_def step_then_def reject_result_def Let_def dest: charge_result_status
      split: prod.splits option.splits if_splits)

lemma build_index_status:
  assumes ready: "index_ready limits tail start" and sound: "rows_sound start tail (index_length start)"
    and r: "index_status r = SERIALIZED_FILE_REFERENCE_INDEX_OK" "index_work_used r \<le> index_max_work limits"
    and run: "build_index tail place grants limits start r t = (r', None, t')"
  shows "index_status r' \<noteq> SERIALIZED_FILE_REFERENCE_INDEX_SOURCE_MISMATCH"
proof -
  let ?b = "start\<lparr>build_result := r\<rparr>" and ?n = "index_length start"
  obtain storage where tail: "tail = Some storage"
    "index_reference_type_count (build_view start) = reference_type_count (tail_storage_view storage)"
    using ready by (auto simp: index_ready_def split: option.splits)
  have sound: "rows_sound ?b tail ?n" using sound by (simp add: rows_sound_def)
  have decided: "decides (build_failed limits False) (preflight_rows tail) ?b
      (rows_sound ?b tail ?n \<and> unat (index_work_used (build_result ?b)) + ?n \<le> unat (index_max_work limits) \<and>
       rows_bytes tail ?n \<le> unat (max_identity_source_bytes limits))
      (replicate ?n ()) (named (rows_bytes tail ?n) (paid ?n ?b))"
    by (rule preflight_rows_decides [where storage = storage])
      (use ready r(2) tail sound in \<open>simp_all add: index_ready_def index_length_def\<close>)
  show ?thesis
  proof (cases "fst (preflight_rows tail ?b)")
    case None
    then show ?thesis
      using decided run by (auto simp: decides_def build_index_def split: prod.splits if_splits)
  next
    case (Some x)
    then obtain b where first: "preflight_rows tail ?b = (Some x, b)" by (metis prod.collapse)
    show ?thesis
      using run unfolding build_index_def first prod.case option.case
      by (auto simp: step_then_def reject_result_def step_return_def dest: index_plan_status index_replay_status charge_result_status
          split: prod.splits option.splits)
  qed
qed

lemma index_mismatch:
  assumes run: "serialized_file_reference_index_create place grants tail_address (Some storage) limits_address limits
      out_address None t = (r, out, t')"
    and sound: "index_domain limits storage \<Longrightarrow>
      rows_sound (index_start limits storage) (Some storage) (unat (reference_type_count (tail_storage_view storage)))"
  shows "index_status r \<noteq> SERIALIZED_FILE_REFERENCE_INDEX_SOURCE_MISMATCH"
proof (cases out)
  case (Some index)
  then show ?thesis
    using index_create_outcome [where place = place and grants = grants and tail_address = tail_address and
        tail = "Some storage" and limits_address = limits_address and limits = limits and out_address = out_address and t = t] run by simp
next
  case None
  let ?C = "index_parent_admitted tail_address storage limits_address out_address None \<and>
      1 \<le> unat (index_max_work limits) \<and> index_domain limits storage"
  note admission = index_admission [of limits tail_address storage limits_address out_address None]
  show ?thesis
  proof (cases ?C)
    case False
    then show ?thesis
      using decidesD(2) [OF admission False] run by (auto simp: serialized_file_reference_index_create_def)
  next
    case True
    let ?start = "index_start limits storage"
    have "build_index (Some storage) place grants limits ?start (build_result ?start) t = (r, None, t')"
      using run None unfolding serialized_file_reference_index_create_def decidesD(1) [OF admission True] by simp
    then show ?thesis
      by (rule build_index_status [OF index_start_ready, rotated -1])
        (use True sound in \<open>simp_all add: index_start_length\<close>,
         simp_all add: index_start_def Let_def index_initial_result_def word_le_nat_alt)
  qed
qed

section \<open>Correctness of the index\<close>

text \<open>
  Property C3. For an empty output, creation publishes an index exactly when the tail is live
  and apart from every argument, the engine, the count and the trees are as required, the
  names of every row lie where its descriptors say, and the caps, the allocator and the work
  budget afford it. It then costs \<open>A + 2N + 3\<close> units for \<open>N\<close> rows in \<open>A = 592 + 344 N\<close> bytes and
  holds the rows of the tail in original order. Otherwise it fails inside the budget and owes
  the allocator nothing.
\<close>

theorem reference_index_create_correct:
  "case serialized_file_reference_index_create place grants tail_address tail limits_address limits out_address None t of
     (r, None, t') \<Rightarrow>
       index_status r \<noteq> SERIALIZED_FILE_REFERENCE_INDEX_OK \<and> index_work_used r \<le> index_max_work limits \<and>
       owed None 0 t' = owed None 0 t \<and>
       (case tail of None \<Rightarrow> True
        | Some storage \<Rightarrow> \<not> index_admits grants tail_address storage limits_address limits out_address t)
   | (r, Some index, t') \<Rightarrow> index_status r = SERIALIZED_FILE_REFERENCE_INDEX_OK \<and>
       (case tail of None \<Rightarrow> False
        | Some storage \<Rightarrow>
            let n = unat (reference_type_count (tail_storage_view storage)); amount = 592 + n * 344 in
            index_admits grants tail_address storage limits_address limits out_address t \<and>
            unat (index_work_used r) = amount + 2 * n + 3 \<and>
            index_required_retained_bytes r = of_nat amount \<and> index_peak_retained_bytes r = of_nat amount \<and>
            index_storage_rows index = index_rows tail n \<and>
            index_storage_view index = (index_start_view (tail_storage_view storage))
              \<lparr>identity_source_bytes := of_nat (rows_bytes tail n), index_retained_bytes := of_nat amount\<rparr> \<and>
            index_storage_address index = place (allocator_calls t) \<and>
            owed (Some (index_storage_cells index)) (index_retained_bytes (index_storage_view index)) t' = owed None 0 t)"
  using index_create_outcome [where place = place and grants = grants and tail_address = tail_address and
        tail = tail and limits_address = limits_address and limits = limits and out_address = out_address and t = t]
  by (auto split: prod.splits option.splits)

text \<open>
  Property C6. Over a tail that its own constructor published, the index never reports a
  mismatch of the sources: it is created exactly when the parent is admitted, the domain is
  supported and the room suffices, and it then holds the tail's reference types as they are.
\<close>

theorem reference_index_over_tail:
  "case serialized_file_metadata_tail_create mem tail_place tail_grants directory_address directory bytes mapped_size
        logical_size tail_limits_address tail_limits tail_out_address None t0 of
     (_, None, _) \<Rightarrow> True
   | (_, Some storage, t) \<Rightarrow>
       (case serialized_file_reference_index_create place grants tail_address (Some storage) limits_address limits
               out_address None t of
          (r, out, t') \<Rightarrow>
            index_status r \<noteq> SERIALIZED_FILE_REFERENCE_INDEX_SOURCE_MISMATCH \<and>
            map_option index_storage_rows out =
              (if index_parent_admitted tail_address storage limits_address out_address None \<and>
                  index_domain limits storage \<and> index_fits grants storage limits t
               then Some (storage_reference_types storage) else None))"
proof -
  obtain r0 made t where run: "serialized_file_metadata_tail_create mem tail_place tail_grants directory_address directory
      bytes mapped_size logical_size tail_limits_address tail_limits tail_out_address None t0 = (r0, made, t)"
    by (metis surj_pair)
  show ?thesis
  proof (cases made)
    case None
    then show ?thesis by (simp add: run)
  next
    case (Some storage)
    note created = tail_create_outcome [where mem = mem and place = tail_place and grants = tail_grants and
        directory_address = directory_address and directory = directory and bytes = bytes and
        mapped_size = mapped_size and logical_size = logical_size and limits_address = tail_limits_address and
        limits = tail_limits and out_address = tail_out_address and t = t0, unfolded run Some prod.case option.case]
    then obtain parent x u where admits: "tail_admits mem tail_grants directory_address directory bytes mapped_size
        logical_size tail_limits_address tail_limits tail_out_address t0 parent x u" and describes: "tail_describes parent x u storage"
      by blast
    let ?n = "unat (reference_type_count (tail_storage_view storage))"
    have sound: "rows_sound (index_start limits storage) (Some storage) ?n" if "index_domain limits storage"
      using tail_rows_sound [OF _ _ describes _ that] admits by (auto simp: tail_admits_def tail_fits_def)
    have "?n = length (storage_reference_types storage)"
      using created_tail(1) [OF run [unfolded Some], unfolded tail_wellformed_def Let_def]
      by (metis length_map length_upt diff_zero)
    moreover have row_value: "index_row (Some storage) i = storage_reference_types storage ! i" if "i < ?n" for i
    proof -
      have "unat (of_nat i :: u64) = i" using that u64_bound [of "reference_type_count (tail_storage_view storage)"]
        by (simp add: unat_of_nat)
      then show ?thesis
        using that by (simp add: index_row_def serialized_file_metadata_tail_reference_type_def word_less_nat_alt)
    qed
    ultimately have rows: "index_rows (Some storage) ?n = storage_reference_types storage"
      by (intro nth_equalityI) (simp_all add: index_rows_def row_value)
    obtain r out t' where build: "serialized_file_reference_index_create place grants tail_address (Some storage)
        limits_address limits out_address None t = (r, out, t')"
      by (metis surj_pair)
    have "index_status r \<noteq> SERIALIZED_FILE_REFERENCE_INDEX_SOURCE_MISMATCH"
      using index_mismatch [OF build sound] .
    then show ?thesis
      using index_create_outcome [where place = place and grants = grants and tail_address = tail_address and
        tail = "Some storage" and limits_address = limits_address and limits = limits and out_address = out_address and t = t] sound rows
      unfolding run Some prod.case option.case build
      by (cases out) (auto simp: index_admits_def Let_def)
  qed
qed

text \<open>
  Property C24. An index's life cycle: while it lives it answers every ordinal with the row
  that its tail answers; disposing of what creation left gives the allocator's counters back as
  they were, and a second disposal changes nothing.
\<close>

theorem reference_index_lifecycle:
  "case serialized_file_reference_index_create place grants tail_address tail limits_address limits out_address None t of
     (r, out, t') \<Rightarrow>
       (case serialized_file_reference_index_dispose out t' of
          (left, t'') \<Rightarrow> left = None \<and> owed None 0 t'' = owed None 0 t \<and>
            serialized_file_reference_index_dispose left t'' = (None, t'')) \<and>
       serialized_file_reference_index_row out i =
         (case out of None \<Rightarrow> None | Some _ \<Rightarrow> serialized_file_metadata_tail_reference_type tail i)"
proof -
  obtain r out t' where run: "serialized_file_reference_index_create place grants tail_address tail limits_address limits
      out_address None t = (r, out, t')"
    by (metis surj_pair)
  note created = index_create_outcome [where place = place and grants = grants and tail_address = tail_address and
        tail = tail and limits_address = limits_address and limits = limits and out_address = out_address and t = t,
      unfolded run prod.case]
  show ?thesis
  proof (cases out)
    case None
    then show ?thesis
      using created run by (simp add: serialized_file_reference_index_dispose_def serialized_file_reference_index_row_def)
  next
    case (Some index)
    with created obtain storage where tail: "tail = Some storage"
      and index: "index_storage_rows index = index_rows tail (unat (reference_type_count (tail_storage_view storage)))"
        "index_reference_type_count (index_storage_view index) = reference_type_count (tail_storage_view storage)"
        "owed (Some (index_storage_cells index)) (index_retained_bytes (index_storage_view index)) t' = owed None 0 t"
      by (auto simp: Let_def index_start_view_def split: option.splits)
    have "serialized_file_reference_index_row out i = serialized_file_metadata_tail_reference_type tail i"
      using index(1,2) by (simp add: serialized_file_reference_index_row_def serialized_file_metadata_tail_reference_type_def
          Some tail index_rows_def index_row_def word_less_nat_alt)
    then show ?thesis
      using Some index(3) run
      by (simp add: serialized_file_reference_index_dispose_def mem_free_def owed_def)
  qed
qed

end
