(* ===== verification/ReferenceIndexQuery.thy ===== *)
theory ReferenceIndexQuery
  imports ReferenceIndexCreate
begin

text \<open>
  Querying a reference index: which rows a query reports, what it costs, and that a query with
  enough budget is always answered.
\<close>

section \<open>What a query decides\<close>

abbreviation query_failed ::
    "SerializedFileReferenceQueryLimits \<Rightarrow> SerializedFileReferenceQueryResult \<Rightarrow> bool" where
  "query_failed limits result \<equiv>
     query_status result \<noteq> SERIALIZED_FILE_REFERENCE_INDEX_OK \<and> query_work_used result \<le> query_max_work limits"

definition spent :: "nat \<Rightarrow> SerializedFileReferenceQueryResult \<Rightarrow> SerializedFileReferenceQueryResult" where
  "spent n result = result\<lparr>query_work_used := query_work_used result + of_nat n\<rparr>"

lemma spent_spent: "spent m (spent n r) = spent (n + m) r" by (simp add: spent_def add.assoc)

lemma spent_nothing [simp]: "spent 0 r = r" by (simp add: spent_def)

text \<open>What is left of the budget, as a state of its own: \<open>n\<close> more units fit.\<close>

definition query_affords :: "SerializedFileReferenceQueryLimits \<Rightarrow> nat \<Rightarrow> SerializedFileReferenceQueryResult \<Rightarrow> bool" where
  "query_affords limits n r \<longleftrightarrow> unat (query_work_used r) + n \<le> unat (query_max_work limits)"

lemma query_affords_spent: "query_affords limits m r \<Longrightarrow> query_affords limits n (spent m r) \<longleftrightarrow> query_affords limits (m + n) r"
proof -
  assume m: "query_affords limits m r"
  then have small: "m < 2 ^ 64" "unat (query_work_used r) + m < 2 ^ 64"
    using u64_bound [of "query_max_work limits"] by (auto simp: query_affords_def)
  then have "unat (of_nat m :: u64) = m" by (simp add: unat_of_nat)
  then have "unat (query_work_used r + of_nat m) = unat (query_work_used r) + m"
    using small by (subst unat_add_fits) simp_all
  then show ?thesis by (simp add: query_affords_def spent_def add.assoc)
qed

lemma query_affords_less: "query_affords limits (m + n) r \<Longrightarrow> query_affords limits m r"
  by (simp add: query_affords_def)

lemma charge_query_decides:
  assumes "query_affords limits 0 r" "unat amount = n"
  shows "decides (query_failed limits) (charge_query limits amount ordinal component) r (query_affords limits n r) () (spent n r)"
proof -
  have "query_work_used r \<le> query_max_work limits" using assms(1) by (simp add: query_affords_def word_le_nat_alt)
  moreover have "of_nat n = amount" using assms(2) by auto
  ultimately show ?thesis
    using charge_iff [of "query_work_used r" "query_max_work limits" amount] assms(2)
    by (auto simp: charge_query_def not_less query_affords_def spent_def intro!: decides_guard decides_modify)
qed

text \<open>The bytes of an identity, and the cost of comparing two.\<close>

definition name_bytes :: "memory \<Rightarrow> SerializedFilePrefixSpan \<Rightarrow> u8 list" where
  "name_bytes mem name = bytes_at mem (span_data name) (unat (span_size name - 1))"

definition part_text :: "memory \<Rightarrow> SerializedFileReferenceKeyPart \<Rightarrow> u8 list" where
  "part_text mem part = bytes_at mem (part_bytes part) (unat (part_size part))"

text \<open>One unit for each length met, and the length itself where the lengths agree.\<close>

fun identity_cost :: "u8 list list \<Rightarrow> u8 list list \<Rightarrow> nat" where
  "identity_cost (name # names) (part # parts) =
     1 + (if length name \<noteq> length part then 0
          else length name + (if name = part then identity_cost names parts else 0))"
| "identity_cost names parts = 0"

lemma length_name_bytes [simp]:
  "length (name_bytes mem name) = unat (span_size name - 1)" "length (part_text mem part) = unat (part_size part)"
  by (simp_all add: name_bytes_def part_text_def bytes_at_def)

lemma query_components_decides:
  assumes "length components = length names" "length names = length parts" "query_affords limits 0 r"
  shows "decides (query_failed limits)
      (query_components mem limits ordinal (zip components (zip names parts))) r
      (query_affords limits (identity_cost (map (name_bytes mem) names) (map (part_text mem) parts)) r)
      (map (name_bytes mem) names = map (part_text mem) parts)
      (spent (identity_cost (map (name_bytes mem) names) (map (part_text mem) parts)) r)"
  using assms
proof (induction names arbitrary: components parts r)
  case Nil
  then show ?case by (auto intro!: decides_return)
next
  case (Cons name names)
  obtain component components' part parts' where shape: "components = component # components'" "parts = part # parts'"
    "length components' = length names" "length names = length parts'"
    using Cons.prems(1,2) by (cases components; cases parts) auto
  let ?rest = "identity_cost (map (name_bytes mem) names) (map (part_text mem) parts')"
  let ?amount = "span_size name - 1"
  have one: "decides (query_failed limits) (charge_query limits 1 ordinal component) r (query_affords limits 1 r) () (spent 1 r)"
    by (rule charge_query_decides) (use Cons.prems in simp_all)
  have size: "?amount = part_size part \<longleftrightarrow> length (name_bytes mem name) = length (part_text mem part)"
    by (simp add: word_eq_nat)
  show ?case
    unfolding shape zip_Cons_Cons query_components.simps list.map
  proof (rule decides_then [OF one], goal_cases)
    case 1
    then show ?case by (auto simp: query_affords_def)
  next
    case paid: 2
    show ?case
    proof (cases "?amount = part_size part")
      case False
      moreover from this have "name_bytes mem name \<noteq> part_text mem part" using size by metis
      ultimately show ?thesis
        using paid size by (auto simp: Let_def intro!: decides_return)
    next
      case same: True
      let ?n = "unat ?amount"
      have length: "length (name_bytes mem name) = ?n" "length (part_text mem part) = ?n" using same by simp_all
      show ?thesis
      proof (cases "?amount = 0")
        case True
        then have empty: "name_bytes mem name = []" "part_text mem part = []"
          using length by (simp_all flip: length_0_conv)
        show ?thesis
          using decides_weaken [OF Cons.IH [of components' parts' "spent 1 r"]] paid shape True same empty
          by (simp add: Let_def query_affords_spent spent_spent)
      next
        case False
        have more: "decides (query_failed limits) (charge_query limits ?amount ordinal component) (spent 1 r)
            (query_affords limits (1 + ?n) r) () (spent (1 + ?n) r)"
          using charge_query_decides [of limits "spent 1 r" ?amount ?n ordinal component] paid
          by (simp add: query_affords_spent spent_spent)
        have texts: "bytes_at mem (span_data name) ?n = name_bytes mem name"
          "bytes_at mem (part_bytes part) ?n = part_text mem part"
          by (simp_all add: name_bytes_def part_text_def same)
        have "decides (query_failed limits)
            (step_then (charge_query limits ?amount ordinal component) (\<lambda>_.
               if bytes_at mem (span_data name) ?n \<noteq> bytes_at mem (part_bytes part) ?n then step_return False
               else query_components mem limits ordinal (zip components' (zip names parts')))) (spent 1 r)
            (query_affords limits (1 + ?n + (if name_bytes mem name = part_text mem part then ?rest else 0)) r)
            (name_bytes mem name = part_text mem part \<and> map (name_bytes mem) names = map (part_text mem) parts')
            (spent (1 + ?n + (if name_bytes mem name = part_text mem part then ?rest else 0)) r)"
        proof (rule decides_then [OF more], goal_cases)
          case 1
          then show ?case by (auto simp: query_affords_def)
        next
          case 2
          then show ?case
            using decides_weaken [OF Cons.IH [of components' parts' "spent (1 + ?n) r"]] shape
            by (cases "name_bytes mem name = part_text mem part")
              (simp_all add: texts query_affords_spent spent_spent decides_return add.assoc)
        qed
        then show ?thesis using same False length by (simp add: Let_def)
      qed
    qed
  qed
qed

definition row_identity :: "memory \<Rightarrow> SerializedFileMetadataTailReferenceTypeRow \<Rightarrow> u8 list list" where
  "row_identity mem row = map (name_bytes mem) (identity_names row)"

definition key_identity :: "memory \<Rightarrow> SerializedFileReferenceKey \<Rightarrow> u8 list list" where
  "key_identity mem key = map (part_text mem) (key_parts key)"

lemma query_row_decides:
  assumes "query_affords limits 0 r"
  shows "decides (query_failed limits) (query_row mem limits key row) r
      (query_affords limits (identity_cost (row_identity mem row) (key_identity mem key)) r)
      (row_identity mem row = key_identity mem key)
      (spent (identity_cost (row_identity mem row) (key_identity mem key)) r)"
  unfolding query_row_def row_identity_def key_identity_def
  by (rule query_components_decides) (use assms in \<open>simp_all add: k_components_def identity_names_def key_parts_def\<close>)

section \<open>The summary of the matches\<close>

definition match_summary :: "nat list \<Rightarrow> SerializedFileReferenceMatch" where
  "match_summary ordinals =
     \<lparr>match_kind = (case ordinals of [] \<Rightarrow> SERIALIZED_FILE_REFERENCE_MISSING
        | [_] \<Rightarrow> SERIALIZED_FILE_REFERENCE_UNIQUE | _ \<Rightarrow> SERIALIZED_FILE_REFERENCE_AMBIGUOUS),
      match_count = of_nat (length ordinals),
      first_ordinal = (case ordinals of [] \<Rightarrow> SIZE_MAX | i # _ \<Rightarrow> of_nat i),
      second_ordinal = (case ordinals of _ # i # _ \<Rightarrow> of_nat i | _ \<Rightarrow> SIZE_MAX)\<rparr>"

lemma add_match_summary:
  assumes "length ordinals < 2 ^ 64"
  shows "add_match (of_nat i) (match_summary ordinals) = match_summary (ordinals @ [i])"
proof -
  have "unat (of_nat (length ordinals) :: u64) = length ordinals" using assms by (simp add: unat_of_nat)
  then have count: "(of_nat (length ordinals) :: u64) = 0 \<longleftrightarrow> length ordinals = 0"
    "(of_nat (length ordinals) :: u64) = 1 \<longleftrightarrow> length ordinals = 1"
    by (auto simp: word_eq_nat)
  consider "ordinals = []" | j where "ordinals = [j]" | j k js where "ordinals = j # k # js"
    by (metis remdups_adj.cases)
  then show ?thesis
  proof cases
    case 3
    then show ?thesis using count by (simp add: add_match_def match_summary_def)
  qed (simp_all add: add_match_def match_summary_def)
qed

definition matching :: "memory \<Rightarrow> SerializedFileReferenceKey \<Rightarrow> SerializedFileMetadataTailReferenceTypeRow list \<Rightarrow> nat \<Rightarrow> nat list" where
  "matching mem key rows n = filter (\<lambda>i. row_identity mem (rows ! i) = key_identity mem key) [0..<n]"

definition rows_cost :: "memory \<Rightarrow> SerializedFileReferenceKey \<Rightarrow> SerializedFileMetadataTailReferenceTypeRow list \<Rightarrow> nat \<Rightarrow> nat" where
  "rows_cost mem key rows n =
     sum_list (map (\<lambda>i. 1 + identity_cost (row_identity mem (rows ! i)) (key_identity mem key)) [0..<n])"

lemma matching_Suc [simp]:
  "matching mem key rows (Suc n) = matching mem key rows n @
     (if row_identity mem (rows ! n) = key_identity mem key then [n] else [])" "matching mem key rows 0 = []"
  "rows_cost mem key rows (Suc n) =
     rows_cost mem key rows n + (1 + identity_cost (row_identity mem (rows ! n)) (key_identity mem key))"
  "rows_cost mem key rows 0 = 0"
  by (simp_all add: matching_def rows_cost_def)

lemma length_matching: "length (matching mem key rows n) \<le> n"
  by (induction n) auto

lemma rows_cost_mono: "m \<le> n \<Longrightarrow> rows_cost mem key rows m \<le> rows_cost mem key rows n"
  by (induction n) (auto simp: le_Suc_eq)

lemma query_rows_decides:
  assumes "query_affords limits (rows_cost mem key rows i) r" "i + n < 2 ^ 64"
  shows "decides (query_failed limits) (query_rows mem limits key rows i n (match_summary (matching mem key rows i)))
      (spent (rows_cost mem key rows i) r)
      (query_affords limits (rows_cost mem key rows (i + n)) r)
      (match_summary (matching mem key rows (i + n))) (spent (rows_cost mem key rows (i + n)) r)"
  using assms
proof (induction n arbitrary: i)
  case 0
  then show ?case by (auto intro!: decides_return)
next
  case (Suc n)
  let ?r = "spent (rows_cost mem key rows i) r"
  let ?cost = "identity_cost (row_identity mem (rows ! i)) (key_identity mem key)"
  have later: "query_affords limits (rows_cost mem key rows (i + Suc n)) r \<Longrightarrow> query_affords limits (rows_cost mem key rows (Suc i)) r"
    using rows_cost_mono [of "Suc i" "i + Suc n" mem key rows] by (simp add: query_affords_def del: matching_Suc)
  have one: "decides (query_failed limits) (charge_query limits 1 ordinal component) ?r
      (query_affords limits (rows_cost mem key rows i + 1) r) () (spent (rows_cost mem key rows i + 1) r)" for ordinal component
    using charge_query_decides [of limits ?r 1 1 ordinal component] Suc.prems(1) by (simp add: query_affords_spent spent_spent)
  show ?case
    unfolding query_rows.simps
  proof (rule decides_then [OF one], goal_cases)
    case 1
    then show ?case using later by (auto simp: query_affords_def)
  next
    case paid: 2
    have row: "decides (query_failed limits) (query_row mem limits key (rows ! i)) (spent (rows_cost mem key rows i + 1) r)
        (query_affords limits (rows_cost mem key rows (Suc i)) r) (row_identity mem (rows ! i) = key_identity mem key)
        (spent (rows_cost mem key rows (Suc i)) r)"
      using query_row_decides [of limits "spent (rows_cost mem key rows i + 1) r" mem key "rows ! i"] paid
      by (simp add: query_affords_spent spent_spent)
    show ?case
    proof (rule decides_then [OF row], goal_cases)
      case 1
      then show ?case using later by blast
    next
      case 2
      have "length (matching mem key rows i) < 2 ^ 64" using length_matching [of mem key rows i] Suc.prems(2) by simp
      then have "(if row_identity mem (rows ! i) = key_identity mem key
          then add_match (of_nat i) (match_summary (matching mem key rows i)) else match_summary (matching mem key rows i)) =
          match_summary (matching mem key rows (Suc i))"
        by (simp add: add_match_summary)
      then show ?case using Suc.IH [of "Suc i"] 2 Suc.prems(2) by simp
    qed
  qed
qed

section \<open>Correctness of the query\<close>

text \<open>The arguments of a query, and the caps on its key.\<close>

definition query_accepts ::
    "pointer \<Rightarrow> ReferenceIndexStorage \<Rightarrow> pointer \<Rightarrow> SerializedFileReferenceKey \<Rightarrow> pointer \<Rightarrow> pointer \<Rightarrow> bool" where
  "query_accepts index_address storage key_address key limits_address out_address \<longleftrightarrow>
     index_address \<noteq> 0 \<and> key_address \<noteq> 0 \<and> limits_address \<noteq> 0 \<and> out_address \<noteq> 0 \<and>
     ranges_are_disjoint [] [(index_address, sizeof_index_handle), (key_address, sizeof_key),
       (limits_address, sizeof_query_limits), (out_address, sizeof_match),
       (index_storage_address storage, index_retained_bytes (index_storage_view storage)),
       (span_data (header_source (header (index_prefix (index_storage_view storage)))), storage_known_size storage)] \<and>
     list_all (\<lambda>part. range_is_valid (part_bytes part) (part_size part) \<and>
       \<not> serialized_file_storage_overlaps_internal (part_bytes part) (part_size part) out_address sizeof_match)
       (key_parts key)"

definition key_fits :: "SerializedFileReferenceQueryLimits \<Rightarrow> SerializedFileReferenceKey \<Rightarrow> bool" where
  "key_fits limits key \<longleftrightarrow>
     list_all (\<lambda>part. part_size part \<le> max_component_bytes limits) (key_parts key) \<and>
     sum_list (map (unat \<circ> part_size) (key_parts key)) \<le> unat (max_key_bytes limits)"

lemma query_parts_decides:
  "length components = length parts \<Longrightarrow> query_work_used r \<le> query_max_work limits \<Longrightarrow>
   decides (query_failed limits) (query_parts out_address (zip components parts)) r
     (list_all (\<lambda>part. range_is_valid (part_bytes part) (part_size part) \<and>
        \<not> serialized_file_storage_overlaps_internal (part_bytes part) (part_size part) out_address sizeof_match) parts) () r"
proof (induction parts arbitrary: components)
  case Nil
  then show ?case by (auto intro!: decides_return)
next
  case (Cons part parts)
  then obtain component rest where shape: "components = component # rest" "length rest = length parts"
    by (cases components) auto
  then show ?case
    using Cons.prems(2) Cons.IH [OF shape(2)]
    by (simp, intro decides_guard) (auto intro: decides_weaken)
qed

lemma query_arguments_decides:
  assumes "query_work_used r \<le> query_max_work limits"
  shows "decides (query_failed limits)
     (query_arguments index_address index key_address key limits_address out_address) r
     (case index of None \<Rightarrow> False
      | Some storage \<Rightarrow> query_accepts index_address storage key_address key limits_address out_address) () r"
proof (cases index)
  case None
  then show ?thesis
    using assms unfolding query_arguments_def
    by (intro decides_guard) (auto intro!: decides_refuse)
next
  case (Some storage)
  let ?four = "[(index_address, sizeof_index_handle), (key_address, sizeof_key), (limits_address, sizeof_query_limits),
    (out_address, sizeof_match)]"
  let ?six = "?four @ [(index_storage_address storage, index_retained_bytes (index_storage_view storage)),
    (span_data (header_source (header (index_prefix (index_storage_view storage)))), storage_known_size storage)]"
  have prefix: "ranges_are_disjoint [] ?six \<Longrightarrow> ranges_are_disjoint [] ?four"
    by (rule ranges_are_disjoint_prefix)
  have parts: "decides (query_failed limits) (query_parts out_address (zip k_components (key_parts key))) r
     (list_all (\<lambda>part. range_is_valid (part_bytes part) (part_size part) \<and>
        \<not> serialized_file_storage_overlaps_internal (part_bytes part) (part_size part) out_address sizeof_match)
        (key_parts key)) () r"
    by (rule query_parts_decides) (use assms in \<open>simp_all add: k_components_def key_parts_def\<close>)
  show ?thesis
    unfolding query_arguments_def Some option.case
  proof (rule decides_guard, goal_cases)
    case 1
    then show ?case using assms prefix by (auto simp: query_accepts_def simp del: ranges_are_disjoint.simps)
  next
    case first: 2
    show ?case
    proof (rule decides_guard, goal_cases)
      case 1
      then show ?case using assms by (auto simp: query_accepts_def simp del: ranges_are_disjoint.simps)
    next
      case 2
      show ?case
        by (rule decides_weaken [OF parts]) (use first 2 in \<open>auto simp: query_accepts_def simp del: ranges_are_disjoint.simps\<close>)
    qed
  qed
qed

lemma query_key_size_decides:
  "length components = length parts \<Longrightarrow> query_work_used r \<le> query_max_work limits \<Longrightarrow> taken \<le> max_key_bytes limits \<Longrightarrow>
   decides (query_failed limits) (query_key_size limits (zip components parts) taken) r
     (list_all (\<lambda>part. part_size part \<le> max_component_bytes limits) parts \<and>
      unat taken + sum_list (map (unat \<circ> part_size) parts) \<le> unat (max_key_bytes limits))
     (taken + sum_list (map part_size parts)) r"
proof (induction parts arbitrary: components taken)
  case Nil
  then show ?case by (auto intro!: decides_return simp: word_le_nat_alt)
next
  case (Cons part parts)
  then obtain component rest where shape: "components = component # rest" "length rest = length parts"
    by (cases components) auto
  have fits: "\<not> part_size part > max_key_bytes limits - taken \<longleftrightarrow> unat taken + unat (part_size part) \<le> unat (max_key_bytes limits)"
    using charge_iff [OF Cons.prems(3), of "part_size part"] by (simp add: not_less)
  show ?case
    unfolding shape zip_Cons_Cons query_key_size.simps
  proof (rule decides_guard, goal_cases)
    case 1
    then show ?case using Cons.prems(2) by auto
  next
    case small: 2
    show ?case
    proof (rule decides_guard, goal_cases)
      case 1
      then show ?case using Cons.prems(2) fits by auto
    next
      case 2
      have "unat (taken + part_size part) = unat taken + unat (part_size part)"
        using charge_value [OF Cons.prems(3), of "part_size part"] 2 by (simp add: not_less)
      then show ?case
        using small 2 fits Cons.prems
        by (intro decides_weaken [OF Cons.IH [OF shape(2)]]) (auto simp: word_le_nat_alt not_less add.assoc)
    qed
  qed
qed

lemma query_outcome:
  "case serialized_file_reference_index_query mem index_address index key_address key limits_address limits out_address
        out_match of
     (r, found) \<Rightarrow>
       (case index of
          None \<Rightarrow> query_failed limits r \<and> found = out_match
        | Some storage \<Rightarrow>
            let rows = index_storage_rows storage;
                n = unat (index_reference_type_count (index_storage_view storage));
                cost = 2 + rows_cost mem key rows n
            in if query_accepts index_address storage key_address key limits_address out_address \<and>
                  key_fits limits key \<and> cost \<le> unat (query_max_work limits)
               then query_status r = SERIALIZED_FILE_REFERENCE_INDEX_OK \<and> unat (query_work_used r) = cost \<and>
                 found = match_summary (matching mem key rows n)
               else query_failed limits r \<and> found = out_match)"
proof -
  let ?r = query_initial_result
  have r: "query_affords limits 0 ?r" "query_work_used ?r = 0" "query_status ?r = SERIALIZED_FILE_REFERENCE_INDEX_OK"
    by (simp_all add: query_affords_def query_initial_result_def)
  have work: "query_work_used (spent m ?r) \<le> query_max_work limits" "unat (query_work_used (spent m ?r)) = m"
    if "query_affords limits m ?r" for m
  proof -
    have "unat (of_nat m :: u64) = m"
      using that u64_bound [of "query_max_work limits"] r(2) by (simp add: query_affords_def unat_of_nat)
    then show "query_work_used (spent m ?r) \<le> query_max_work limits" "unat (query_work_used (spent m ?r)) = m"
      using that r(2) by (simp_all add: spent_def query_affords_def word_le_nat_alt)
  qed
  define rows where "rows = index_storage_rows (the index)"
  define n where "n = unat (index_reference_type_count (index_storage_view (the index)))"
  let ?cost = "rows_cost mem key rows n"
  let ?accepts = "case index of None \<Rightarrow> False
    | Some storage \<Rightarrow> query_accepts index_address storage key_address key limits_address out_address"
  have decided: "decides (query_failed limits)
      (step_then (query_arguments index_address index key_address key limits_address out_address) (\<lambda>_.
       step_then (charge_query limits 1 SIZE_MAX SERIALIZED_FILE_REFERENCE_IDENTITY_NONE) (\<lambda>_.
       step_then (query_key_size limits (zip k_components (key_parts key)) 0) (\<lambda>_.
       step_then (query_rows mem limits key rows 0 n empty_match) (\<lambda>found.
       step_then (charge_query limits 1 SIZE_MAX SERIALIZED_FILE_REFERENCE_IDENTITY_NONE) (\<lambda>_.
       step_return found)))))) ?r
      (?accepts \<and> key_fits limits key \<and> query_affords limits (2 + ?cost) ?r) (match_summary (matching mem key rows n))
      (spent (2 + ?cost) ?r)"
    (is "decides _ _ _ ?C _ _")
  proof (rule decides_then [OF query_arguments_decides], goal_cases)
    case 3
    have one: "decides (query_failed limits) (charge_query limits 1 SIZE_MAX SERIALIZED_FILE_REFERENCE_IDENTITY_NONE) ?r
        (query_affords limits 1 ?r) () (spent 1 ?r)"
      by (rule charge_query_decides) (use r in simp_all)
    show ?case
    proof (rule decides_then [OF one], goal_cases)
      case 2
      have keyed: "decides (query_failed limits) (query_key_size limits (zip k_components (key_parts key)) 0) (spent 1 ?r)
          (key_fits limits key) (sum_list (map part_size (key_parts key))) (spent 1 ?r)"
        using query_key_size_decides [of k_components "key_parts key" "spent 1 ?r" limits 0] work(1) [OF 2]
        by (simp add: key_fits_def k_components_def key_parts_def)
      have empty: "match_summary (matching mem key rows 0) = empty_match"
        by (simp add: match_summary_def empty_match_def)
      have scanned: "decides (query_failed limits) (query_rows mem limits key rows 0 n empty_match) (spent 1 ?r)
          (query_affords limits (1 + ?cost) ?r) (match_summary (matching mem key rows n)) (spent (1 + ?cost) ?r)"
        using query_rows_decides [of limits mem key rows 0 "spent 1 ?r" n] 2 u64_bound [of "index_reference_type_count (index_storage_view (the index))"]
        by (simp add: empty [simplified] query_affords_spent spent_spent n_def)
      show ?case
      proof (rule decides_then [OF keyed], blast, rule decides_then [OF scanned], goal_cases)
        case 1
        then show ?case by (auto simp: query_affords_def)
      next
        case 2
        then have last: "decides (query_failed limits) (charge_query limits 1 SIZE_MAX SERIALIZED_FILE_REFERENCE_IDENTITY_NONE)
            (spent (1 + ?cost) ?r) (query_affords limits (2 + ?cost) ?r) () (spent (2 + ?cost) ?r)"
          using charge_query_decides [of limits "spent (1 + ?cost) ?r" 1 1] by (simp add: query_affords_spent spent_spent)
        show ?case
          by (rule decides_then [OF last]) (use 2 3 \<open>key_fits limits key\<close> in \<open>auto intro!: decides_return\<close>)
      qed
    qed (auto simp: query_affords_def)
  qed (use r in auto)
  have unfold_query: "serialized_file_reference_index_query mem index_address index key_address key limits_address limits
      out_address out_match =
     (case step_then (query_arguments index_address index key_address key limits_address out_address) (\<lambda>_.
       step_then (charge_query limits 1 SIZE_MAX SERIALIZED_FILE_REFERENCE_IDENTITY_NONE) (\<lambda>_.
       step_then (query_key_size limits (zip k_components (key_parts key)) 0) (\<lambda>_.
       step_then (query_rows mem limits key rows 0 n empty_match) (\<lambda>found.
       step_then (charge_query limits 1 SIZE_MAX SERIALIZED_FILE_REFERENCE_IDENTITY_NONE) (\<lambda>_.
       step_return found))))) ?r of (None, result) \<Rightarrow> (result, out_match) | (Some found, result) \<Rightarrow> (result, found))"
    by (simp add: serialized_file_reference_index_query_def rows_def n_def)
  show ?thesis
  proof (cases ?C)
    case True
    then obtain storage where index: "index = Some storage" by (cases index) auto
    have "query_status (spent (2 + ?cost) ?r) = SERIALIZED_FILE_REFERENCE_INDEX_OK" using r(3) by (simp add: spent_def)
    then show ?thesis
      unfolding unfold_query decidesD(1) [OF decided True] prod.case option.case
      using True work(2) [of "2 + ?cost"] r(2) by (simp add: index rows_def n_def Let_def query_affords_def)
  next
    case False
    then obtain r' where stop: "query_failed limits r'" "step_then (query_arguments index_address index key_address key limits_address out_address) (\<lambda>_.
       step_then (charge_query limits 1 SIZE_MAX SERIALIZED_FILE_REFERENCE_IDENTITY_NONE) (\<lambda>_.
       step_then (query_key_size limits (zip k_components (key_parts key)) 0) (\<lambda>_.
       step_then (query_rows mem limits key rows 0 n empty_match) (\<lambda>found.
       step_then (charge_query limits 1 SIZE_MAX SERIALIZED_FILE_REFERENCE_IDENTITY_NONE) (\<lambda>_.
       step_return found))))) ?r = (None, r')"
      using decidesD(2) [OF decided False] by blast
    show ?thesis
      unfolding unfold_query stop(2) prod.case option.case
      using stop(1) False r(2) by (auto simp: rows_def n_def Let_def query_affords_def split: option.splits)
  qed
qed

text \<open>
  Property C7. A query over a live index with usable arguments, a key within the caps and
  a sufficient budget reports exactly the original ordinals whose class, namespace and assembly
  names are the three parts of the key, byte for byte: missing, unique or ambiguous, how many,
  and the first two. It costs two units, one for each row, one for each length compared and the bytes of
  every pair of equal lengths. Otherwise it fails inside the budget and leaves the output alone.
\<close>

theorem reference_index_query_correct:
  "case serialized_file_reference_index_query mem index_address index key_address key limits_address limits out_address
        out_match of
     (r, found) \<Rightarrow>
       (case index of
          None \<Rightarrow> query_failed limits r \<and> found = out_match
        | Some storage \<Rightarrow>
            let rows = index_storage_rows storage;
                n = unat (index_reference_type_count (index_storage_view storage));
                cost = 2 + rows_cost mem key rows n
            in if query_accepts index_address storage key_address key limits_address out_address \<and>
                  key_fits limits key \<and> cost \<le> unat (query_max_work limits)
               then query_status r = SERIALIZED_FILE_REFERENCE_INDEX_OK \<and> unat (query_work_used r) = cost \<and>
                 found = match_summary (filter (\<lambda>i. row_identity mem (rows ! i) = key_identity mem key) [0..<n])
               else query_failed limits r \<and> found = out_match)"
  by (rule query_outcome [unfolded matching_def])

text \<open>Comparing a name, the zero byte included, costs at most its bytes.\<close>

lemma identity_cost_names:
  "list_all (\<lambda>name. span_size name \<noteq> 0) names \<Longrightarrow>
     identity_cost (map (name_bytes mem) names) parts \<le> names_bytes names"
proof (induction names arbitrary: parts)
  case (Cons name names)
  have "unat (span_size name - 1) + 1 = unat (span_size name)"
    using Cons.prems unat_minus_one [of "span_size name"] unat_gt_0 [of "span_size name"] by simp
  moreover have "identity_cost (map (name_bytes mem) names) list \<le> names_bytes names" for list
    using Cons by simp
  ultimately have step: "unat (span_size name - 1) + 1 + identity_cost (map (name_bytes mem) names) list \<le>
      names_bytes (name # names)" for list
    using add_mono [of _ _ "identity_cost (map (name_bytes mem) names) list" "names_bytes names"] by (metis names_bytes_simps(2) order_refl)
  show ?case
  proof (cases parts)
    case (Cons part list)
    then show ?thesis using step [of list] by (simp add: add.commute add.left_commute)
  qed simp
qed simp

lemma rows_cost_bound:
  "rows_sound b tail n \<Longrightarrow> rows = index_rows tail m \<Longrightarrow> n \<le> m \<Longrightarrow> rows_cost mem key rows n \<le> n + rows_bytes tail n"
proof (induction n)
  case (Suc n)
  have "list_all (\<lambda>name. span_size name \<noteq> 0) (identity_names (index_row tail n))"
    using Suc.prems(1) by (auto simp: row_sound_def name_sound_def list_all_iff)
  then have "identity_cost (row_identity mem (index_row tail n)) (key_identity mem key) \<le>
      names_bytes (identity_names (index_row tail n))"
    unfolding row_identity_def by (rule identity_cost_names)
  moreover have "rows ! n = index_row tail n" using Suc.prems by (simp add: index_rows_def)
  ultimately show ?case using Suc by simp
qed simp

text \<open>
  Property C33. Every query over a created index is answered: with usable arguments, a key
  within the caps and a budget of two units, one for each row and the bytes of all the names,
  which the view reports, a query does not fail.
\<close>

theorem reference_index_query_answers:
  "case serialized_file_reference_index_create place grants tail_address tail limits_address limits out_address None t of
     (r, None, t') \<Rightarrow> True
   | (r, Some index, t') \<Rightarrow>
       \<not> (query_accepts index_address index key_address key query_limits_address match_address \<and> key_fits query_limits key \<and>
          2 + unat (index_reference_type_count (index_storage_view index)) +
            unat (identity_source_bytes (index_storage_view index)) \<le> unat (query_max_work query_limits) \<and>
          query_status (fst (serialized_file_reference_index_query mem index_address (Some index) key_address key
            query_limits_address query_limits match_address out_match)) \<noteq> SERIALIZED_FILE_REFERENCE_INDEX_OK)"
proof -
  obtain r out t' where run: "serialized_file_reference_index_create place grants tail_address tail limits_address limits
      out_address None t = (r, out, t')"
    by (metis surj_pair)
  note created = index_create_outcome [where place = place and grants = grants and tail_address = tail_address and tail = tail
      and limits_address = limits_address and limits = limits and out_address = out_address and t = t, unfolded run prod.case]
  show ?thesis
  proof (cases out)
    case None
    then show ?thesis by (simp add: run)
  next
    case (Some index)
    with created obtain storage where tail: "tail = Some storage"
      and admits: "index_admits grants tail_address storage limits_address limits out_address t"
      and index: "index_storage_rows index = index_rows tail (unat (reference_type_count (tail_storage_view storage)))"
        "index_reference_type_count (index_storage_view index) = reference_type_count (tail_storage_view storage)"
        "identity_source_bytes (index_storage_view index) =
           of_nat (rows_bytes tail (unat (reference_type_count (tail_storage_view storage))))"
      by (auto simp: Let_def index_start_view_def split: option.splits)
    let ?n = "unat (reference_type_count (tail_storage_view storage))"
    have "rows_bytes tail ?n \<le> unat (max_identity_source_bytes limits)"
      using admits by (simp add: index_admits_def index_fits_def Let_def tail)
    then have bytes: "unat (identity_source_bytes (index_storage_view index)) = rows_bytes tail ?n"
      using u64_bound [of "max_identity_source_bytes limits"] by (simp add: index(3) unat_of_nat)
    have "rows_cost mem key (index_storage_rows index) ?n \<le> ?n + rows_bytes tail ?n"
      using admits by (intro rows_cost_bound [OF _ index(1)]) (auto simp: index_admits_def tail)
    then show ?thesis
      using query_outcome [where mem = mem and index_address = index_address and index = "Some index" and
          key_address = key_address and key = key and limits_address = query_limits_address and limits = query_limits and
          out_address = match_address and out_match = out_match]
      by (auto simp: run Some Let_def bytes index(2) split: prod.splits if_splits)
  qed
qed

end
