(* ===== verification/FileSchema.thy ===== *)
theory FileSchema
  imports ReferenceIndex
begin

text \<open>
  \<open>src/io/serialized_file_schema.c\<close>: compiling the embedded type tree of one ordinary or
  reference type. The node records are decoded and linked into a hierarchy, the name offsets
  are sorted by radix and resolved against the local and the common string table, and the nodes
  are published in one allocation. Parents are the values their handles hold; addresses, the
  common string table among them, are arguments.
\<close>

section \<open>Data\<close>

datatype SerializedFileSchemaRowKind =
  SERIALIZED_FILE_SCHEMA_ORDINARY_TYPE | SERIALIZED_FILE_SCHEMA_REFERENCE_TYPE

datatype SerializedFileSchemaStringSpace =
    SERIALIZED_FILE_SCHEMA_STRING_ZERO
  | SERIALIZED_FILE_SCHEMA_STRING_LOCAL
  | SERIALIZED_FILE_SCHEMA_STRING_COMMON_EXACT35

text \<open>\<open>STRING_ZERO\<close> is the value 0 of cleared storage, which the enum does not name.\<close>

record SerializedFileSchemaString =
  schema_string_space :: SerializedFileSchemaStringSpace
  schema_string_encoded_offset :: u32
  schema_string_bytes :: pointer
  schema_string_byte_count :: u64
  schema_string_source_offset :: u64

record SerializedFileSchemaNode =
  schema_node_ordinal :: u64
  schema_node_source :: SerializedFilePrefixSpan
  schema_node_version :: u16
  schema_node_level :: u8
  schema_node_type_flags :: u8
  schema_node_type_offset_bits :: u32
  schema_node_name_offset_bits :: u32
  schema_node_byte_size_bits :: u32
  schema_node_index_bits :: u32
  schema_node_meta_flags :: u32
  schema_node_opaque_tail :: "u8 list"
  schema_node_type_name :: SerializedFileSchemaString
  schema_node_field_name :: SerializedFileSchemaString
  schema_node_parent :: u64
  schema_node_first_child :: u64
  schema_node_next_sibling :: u64
  schema_node_child_count :: u64
  schema_node_subtree_end :: u64

record SerializedFileSchemaView =
  schema_view_engine_version :: u32
  schema_view_prefix :: SerializedFilePrefixView
  schema_view_row_kind :: SerializedFileSchemaRowKind
  schema_view_type_ordinal :: u64
  schema_view_type_entry_source :: SerializedFilePrefixSpan
  schema_view_tree :: SerializedFileDirectoryTree
  schema_view_class_id_bits :: u32
  schema_view_script_index_bits :: u16
  schema_view_stripped_raw :: u8
  schema_view_has_script_hash :: bool
  schema_view_script_hash_source :: SerializedFilePrefixSpan
  schema_view_type_hash_source :: SerializedFilePrefixSpan
  schema_view_class_name_source :: SerializedFilePrefixSpan
  schema_view_namespace_source :: SerializedFilePrefixSpan
  schema_view_assembly_name_source :: SerializedFilePrefixSpan
  schema_view_dependency_count_source :: SerializedFilePrefixSpan
  schema_view_dependency_words_source :: SerializedFilePrefixSpan
  schema_view_dependency_count :: u32
  schema_view_node_count :: u64
  schema_view_maximum_depth :: u64
  schema_view_retained_bytes :: u64

record SerializedFileSchemaLimits =
  schema_max_nodes :: u64
  schema_max_local_string_bytes :: u64
  schema_max_depth :: u64
  schema_max_retained_bytes :: u64
  schema_max_scratch_bytes :: u64
  schema_max_work :: u64

datatype SerializedFileSchemaStatus =
    SERIALIZED_FILE_SCHEMA_OK
  | SERIALIZED_FILE_SCHEMA_INVALID_ARGUMENT
  | SERIALIZED_FILE_SCHEMA_INVALID_STATE
  | SERIALIZED_FILE_SCHEMA_UNSUPPORTED_ENGINE
  | SERIALIZED_FILE_SCHEMA_NO_EMBEDDED_TREE
  | SERIALIZED_FILE_SCHEMA_SOURCE_MISMATCH
  | SERIALIZED_FILE_SCHEMA_MALFORMED_HIERARCHY
  | SERIALIZED_FILE_SCHEMA_INVALID_STRING_OFFSET
  | SERIALIZED_FILE_SCHEMA_UNTERMINATED_STRING
  | SERIALIZED_FILE_SCHEMA_LIMIT_EXCEEDED
  | SERIALIZED_FILE_SCHEMA_ALLOCATION_FAILED

datatype SerializedFileSchemaLimit =
    SERIALIZED_FILE_SCHEMA_LIMIT_NONE
  | SERIALIZED_FILE_SCHEMA_LIMIT_NODES
  | SERIALIZED_FILE_SCHEMA_LIMIT_LOCAL_STRINGS
  | SERIALIZED_FILE_SCHEMA_LIMIT_DEPTH
  | SERIALIZED_FILE_SCHEMA_LIMIT_RETAINED
  | SERIALIZED_FILE_SCHEMA_LIMIT_SCRATCH
  | SERIALIZED_FILE_SCHEMA_LIMIT_WORK

datatype SerializedFileSchemaErrorSpace =
    SERIALIZED_FILE_SCHEMA_ERROR_NO_SOURCE
  | SERIALIZED_FILE_SCHEMA_ERROR_FILE
  | SERIALIZED_FILE_SCHEMA_ERROR_COMMON_EXACT35

datatype SerializedFileSchemaField =
    SERIALIZED_FILE_SCHEMA_FIELD_NONE
  | SERIALIZED_FILE_SCHEMA_FIELD_NODE_RECORD
  | SERIALIZED_FILE_SCHEMA_FIELD_LEVEL
  | SERIALIZED_FILE_SCHEMA_FIELD_TYPE_OFFSET
  | SERIALIZED_FILE_SCHEMA_FIELD_NAME_OFFSET
  | SERIALIZED_FILE_SCHEMA_FIELD_STRING_TERMINATOR

record SerializedFileSchemaResult =
  schema_status :: SerializedFileSchemaStatus
  schema_limit :: SerializedFileSchemaLimit
  schema_field :: SerializedFileSchemaField
  schema_error_space :: SerializedFileSchemaErrorSpace
  schema_result_type_ordinal :: u64
  schema_result_node_ordinal :: u64
  schema_error_offset :: u64
  schema_work_used :: u64
  schema_required_retained_bytes :: u64
  schema_required_scratch_bytes :: u64
  schema_peak_retained_bytes :: u64
  schema_peak_scratch_bytes :: u64

text \<open>The one allocation a schema retains, with its address and its untyped cells.\<close>

record SchemaStorage =
  schema_storage_address :: pointer
  schema_storage_cells :: block
  schema_storage_view :: SerializedFileSchemaView
  schema_storage_nodes :: "SerializedFileSchemaNode list"

type_synonym SerializedFileSchema = "SchemaStorage option"

abbreviation NODE_BYTES :: nat where "NODE_BYTES \<equiv> 32"
abbreviation HIERARCHY_LEVELS :: nat where "HIERARCHY_LEVELS \<equiv> 256"
abbreviation RADIX_BUCKETS :: nat where "RADIX_BUCKETS \<equiv> 256"
abbreviation RADIX_PASSES :: nat where "RADIX_PASSES \<equiv> 4"
abbreviation NAMES_PER_NODE :: nat where "NAMES_PER_NODE \<equiv> 2"

abbreviation sizeof_schema_handle :: u64 where "sizeof_schema_handle \<equiv> 8"
abbreviation sizeof_schema_limits :: u64 where "sizeof_schema_limits \<equiv> 48"
abbreviation sizeof_schema_storage :: u64 where "sizeof_schema_storage \<equiv> 840"
abbreviation sizeof_schema_node :: u64 where "sizeof_schema_node \<equiv> 168"
abbreviation sizeof_name_request :: u64 where "sizeof_name_request \<equiv> 16"

record NameRequest =
  encoded_offset :: u32
  slot :: u64

text \<open>The parent; the handle is its address and the value it holds.\<close>

record SchemaParent =
  parent_handle :: pointer
  parent_handle_size :: u64
  parent_owner :: "SerializedFileDirectory + SerializedFileMetadataTail"
  parent_storage :: pointer
  parent_storage_size :: u64
  parent_directory :: SerializedFileDirectoryView
  parent_bytes :: pointer
  parent_known_size :: u64

record SchemaLayout =
  layout_nodes_offset :: u64
  layout_retained_bytes :: u64
  layout_scratch_bytes :: u64
  layout_request_count :: u64

text \<open>
  The compilation. Behind the fields of the source stand the locals of its loops: the two
  hierarchy arrays and the count of active levels, the radix offsets with the flag that tells
  which half of the scratch is the source, and the index of the next request.
\<close>

record SchemaCompile =
  compile_limits :: SerializedFileSchemaLimits
  compile_result :: SerializedFileSchemaResult
  compile_view :: SerializedFileSchemaView
  compile_nodes :: "SerializedFileSchemaNode list"
  compile_requests :: "NameRequest list"
  compile_sorted :: "NameRequest list"
  compile_request_count :: u64
  compile_common_bytes :: pointer
  compile_common_size :: u64
  local_ancestors :: "u64 list"
  local_last_child :: "u64 list"
  local_active_count :: nat
  local_offsets :: "nat list"
  local_swapped :: bool
  local_request_index :: nat

definition schema_initial_result :: SerializedFileSchemaResult where
  "schema_initial_result =
     \<lparr>schema_status = SERIALIZED_FILE_SCHEMA_OK, schema_limit = SERIALIZED_FILE_SCHEMA_LIMIT_NONE,
      schema_field = SERIALIZED_FILE_SCHEMA_FIELD_NONE,
      schema_error_space = SERIALIZED_FILE_SCHEMA_ERROR_NO_SOURCE, schema_result_type_ordinal = SIZE_MAX,
      schema_result_node_ordinal = SIZE_MAX, schema_error_offset = UINT64_MAX, schema_work_used = 0,
      schema_required_retained_bytes = 0, schema_required_scratch_bytes = 0,
      schema_peak_retained_bytes = 0, schema_peak_scratch_bytes = 0\<rparr>"

section \<open>Refusals and charges\<close>

definition schema_reject ::
    "SerializedFileSchemaStatus \<Rightarrow> SerializedFileSchemaLimit \<Rightarrow> SerializedFileSchemaField \<Rightarrow> u64 \<Rightarrow>
     SerializedFileSchemaErrorSpace \<Rightarrow> u64 \<Rightarrow> SchemaCompile \<Rightarrow> SchemaCompile" where
  "schema_reject status limit field node space offset compile = compile
     \<lparr>compile_result := (compile_result compile)
       \<lparr>schema_status := status, schema_limit := limit, schema_field := field,
        schema_result_node_ordinal := node, schema_error_space := space, schema_error_offset := offset\<rparr>\<rparr>"

definition schema_reject_owner ::
    "SerializedFileSchemaStatus \<Rightarrow> SerializedFileSchemaLimit \<Rightarrow> SchemaCompile \<Rightarrow> SchemaCompile" where
  "schema_reject_owner status limit =
     schema_reject status limit SERIALIZED_FILE_SCHEMA_FIELD_NONE SIZE_MAX
       SERIALIZED_FILE_SCHEMA_ERROR_NO_SOURCE UINT64_MAX"

definition schema_charge ::
    "u64 \<Rightarrow> SerializedFileSchemaField \<Rightarrow> u64 \<Rightarrow> SerializedFileSchemaErrorSpace \<Rightarrow> u64 \<Rightarrow>
     (SchemaCompile, unit) step" where
  "schema_charge amount field node space offset =
     step_then (step_require (\<lambda>compile. \<not> amount >
           schema_max_work (compile_limits compile) - schema_work_used (compile_result compile))
         (schema_reject SERIALIZED_FILE_SCHEMA_LIMIT_EXCEEDED SERIALIZED_FILE_SCHEMA_LIMIT_WORK field node
            space offset)) (\<lambda>_.
     step_modify (\<lambda>compile. compile\<lparr>compile_result := (compile_result compile)
       \<lparr>schema_work_used := schema_work_used (compile_result compile) + amount\<rparr>\<rparr>))"

definition schema_charge_owner :: "u64 \<Rightarrow> (SchemaCompile, unit) step" where
  "schema_charge_owner amount =
     schema_charge amount SERIALIZED_FILE_SCHEMA_FIELD_NONE SIZE_MAX SERIALIZED_FILE_SCHEMA_ERROR_NO_SOURCE
       UINT64_MAX"

section \<open>Admission\<close>

definition schema_basic_arguments :: "pointer \<Rightarrow> u64 \<Rightarrow> pointer \<Rightarrow> pointer \<Rightarrow> bool" where
  "schema_basic_arguments handle handle_size limits_address out_address \<longleftrightarrow>
     handle \<noteq> 0 \<and> limits_address \<noteq> 0 \<and> out_address \<noteq> 0 \<and>
     \<not> serialized_file_storage_overlaps_internal handle handle_size limits_address sizeof_schema_limits \<and>
     \<not> serialized_file_storage_overlaps_internal handle handle_size out_address sizeof_schema_handle \<and>
     \<not> serialized_file_storage_overlaps_internal limits_address sizeof_schema_limits out_address
         sizeof_schema_handle"

text \<open>What \<open>prepare_parent\<close> finds in a genuine parent; \<open>None\<close> where it returns false.\<close>

definition schema_prepare_parent ::
    "pointer \<Rightarrow> u64 \<Rightarrow> SerializedFileDirectory + SerializedFileMetadataTail \<Rightarrow> SchemaParent option" where
  "schema_prepare_parent handle handle_size holder =
     (case (case holder of
          Inl directory \<Rightarrow>
            (case serialized_file_directory_storage_range_internal directory of
               None \<Rightarrow> None
             | Some (storage, storage_size) \<Rightarrow>
                 (let view = the (serialized_file_directory_view directory) in
                  Some (storage, storage_size, view, range_offset (view_remaining_metadata view))))
        | Inr tail \<Rightarrow>
            (case serialized_file_metadata_tail_storage_range_internal tail of
               None \<Rightarrow> None
             | Some (storage, storage_size) \<Rightarrow>
                 (let view = the (serialized_file_metadata_tail_view tail); source = tail_source view in
                  if span_size source > UINT64_MAX - span_offset source then None
                  else Some (storage, storage_size, tail_directory view,
                    span_offset source + span_size source)))) of
        None \<Rightarrow> None
      | Some (storage, storage_size, directory, stop) \<Rightarrow>
          if stop > SIZE_MAX then None
          else
            (let bytes = span_data (header_source (header (view_prefix directory))) in
             if bytes = 0 then None
             else Some
               \<lparr>parent_handle = handle, parent_handle_size = handle_size, parent_owner = holder,
                parent_storage = storage, parent_storage_size = storage_size, parent_directory = directory,
                parent_bytes = bytes, parent_known_size = stop\<rparr>))"

definition schema_ranges_disjoint ::
    "SchemaParent \<Rightarrow> pointer \<Rightarrow> u64 \<Rightarrow> pointer \<Rightarrow> pointer \<Rightarrow> bool" where
  "schema_ranges_disjoint parent common common_size limits_address out_address \<longleftrightarrow>
     ranges_disjoint
       [(parent_handle parent, parent_handle_size parent), (parent_storage parent, parent_storage_size parent),
        (parent_bytes parent, parent_known_size parent), (common, common_size),
        (limits_address, sizeof_schema_limits), (out_address, sizeof_schema_handle)]"

text \<open>The view of a row, and whether the row has a tree; \<open>None\<close> where there is no such row.\<close>

definition schema_row_view ::
    "SchemaParent \<Rightarrow> SerializedFileSchemaRowKind \<Rightarrow> u64 \<Rightarrow> SerializedFileSchemaView \<Rightarrow>
     (SerializedFileSchemaView \<times> bool) option" where
  "schema_row_view parent kind ordinal view =
     (case parent_owner parent of
        Inl directory \<Rightarrow>
          map_option (\<lambda>row. (view
            \<lparr>schema_view_type_entry_source := type_source row, schema_view_tree := type_tree row,
             schema_view_class_id_bits := class_id_bits (type_prefix row),
             schema_view_script_index_bits := script_index_bits (type_prefix row),
             schema_view_stripped_raw := stripped_raw (type_prefix row),
             schema_view_has_script_hash := has_script_hash (type_prefix row),
             schema_view_script_hash_source := script_hash_source (type_prefix row),
             schema_view_type_hash_source := type_hash_source (type_prefix row), schema_view_class_name_source := absent_span,
             schema_view_namespace_source := absent_span, schema_view_assembly_name_source := absent_span,
             schema_view_dependency_count_source := dependency_count_source row,
             schema_view_dependency_words_source := dependency_words_source row,
             schema_view_dependency_count := dependency_count row\<rparr>, has_tree row))
          (serialized_file_directory_type directory ordinal)
      | Inr tail \<Rightarrow>
          map_option (\<lambda>row. (view
            \<lparr>schema_view_type_entry_source := reference_source row, schema_view_tree := reference_tree row,
             schema_view_class_id_bits := class_id_bits (reference_prefix row),
             schema_view_script_index_bits := script_index_bits (reference_prefix row),
             schema_view_stripped_raw := stripped_raw (reference_prefix row),
             schema_view_has_script_hash := has_script_hash (reference_prefix row),
             schema_view_script_hash_source := script_hash_source (reference_prefix row),
             schema_view_type_hash_source := type_hash_source (reference_prefix row),
             schema_view_class_name_source := class_name_source row,
             schema_view_namespace_source := namespace_source row,
             schema_view_assembly_name_source := assembly_name_source row,
             schema_view_dependency_count_source := absent_span,
             schema_view_dependency_words_source := absent_span\<rparr>, reference_has_tree row))
          (serialized_file_metadata_tail_reference_type tail ordinal))"

definition schema_select_row ::
    "SchemaParent \<Rightarrow> SerializedFileSchemaRowKind \<Rightarrow> u64 \<Rightarrow> (SchemaCompile, unit) step" where
  "schema_select_row parent kind ordinal =
     step_then (step_require (\<lambda>_. view_engine_version (parent_directory parent) = ENGINE_2021_3_35F1)
         (schema_reject_owner SERIALIZED_FILE_SCHEMA_UNSUPPORTED_ENGINE SERIALIZED_FILE_SCHEMA_LIMIT_NONE)) (\<lambda>_.
     step_then (step_modify (\<lambda>compile. compile\<lparr>compile_view := (compile_view compile)
         \<lparr>schema_view_engine_version := view_engine_version (parent_directory parent),
          schema_view_prefix := view_prefix (parent_directory parent),
          schema_view_row_kind := kind, schema_view_type_ordinal := ordinal\<rparr>\<rparr>)) (\<lambda>_.
     step_with (\<lambda>compile. schema_row_view parent kind ordinal (compile_view compile)) (\<lambda>row.
     case row of
       None \<Rightarrow> (\<lambda>compile. (None, schema_reject_owner SERIALIZED_FILE_SCHEMA_INVALID_ARGUMENT
         SERIALIZED_FILE_SCHEMA_LIMIT_NONE compile))
     | Some (view, embedded) \<Rightarrow>
         step_then (step_modify (\<lambda>compile. compile
           \<lparr>compile_view := view,
            compile_result := (compile_result compile)\<lparr>schema_result_type_ordinal := ordinal\<rparr>\<rparr>)) (\<lambda>_.
         step_then (step_require (\<lambda>_. embedded)
           (schema_reject_owner SERIALIZED_FILE_SCHEMA_NO_EMBEDDED_TREE SERIALIZED_FILE_SCHEMA_LIMIT_NONE)) (\<lambda>_.
         step_modify (\<lambda>compile. compile\<lparr>compile_view := (compile_view compile)
           \<lparr>schema_view_node_count := ucast (node_count (schema_view_tree (compile_view compile)))\<rparr>\<rparr>))))))"

definition schema_source_is_backed :: "SchemaParent \<Rightarrow> SerializedFilePrefixSpan \<Rightarrow> bool" where
  "schema_source_is_backed parent span \<longleftrightarrow>
     span_offset span \<le> parent_known_size parent \<and>
     span_size span \<le> parent_known_size parent - span_offset span \<and>
     span_data span = parent_bytes parent + span_offset span"

definition schema_admit_tree :: "SchemaParent \<Rightarrow> (SchemaCompile, unit) step" where
  "schema_admit_tree parent =
     step_with (\<lambda>compile. schema_view_tree (compile_view compile)) (\<lambda>tree.
     step_then (step_require (\<lambda>compile. \<not> ucast (node_count tree) > schema_max_nodes (compile_limits compile))
         (schema_reject_owner SERIALIZED_FILE_SCHEMA_LIMIT_EXCEEDED SERIALIZED_FILE_SCHEMA_LIMIT_NODES)) (\<lambda>_.
     step_then (step_require (\<lambda>compile. \<not> ucast (string_byte_count tree) >
           schema_max_local_string_bytes (compile_limits compile))
         (schema_reject_owner SERIALIZED_FILE_SCHEMA_LIMIT_EXCEEDED
            SERIALIZED_FILE_SCHEMA_LIMIT_LOCAL_STRINGS)) (\<lambda>_.
       let node_bytes = (ucast (node_count tree) :: u64) * 32 in
     step_require (\<lambda>_. \<not> (node_count tree = 0 \<or> node_bytes \<noteq> span_size (nodes_source tree) \<or>
           ucast (string_byte_count tree) \<noteq> span_size (strings_source tree) \<or>
           \<not> schema_source_is_backed parent (nodes_source tree) \<or>
           \<not> schema_source_is_backed parent (strings_source tree) \<or>
           span_offset (nodes_source tree) > UINT64_MAX - node_bytes \<or>
           span_offset (strings_source tree) \<noteq> span_offset (nodes_source tree) + node_bytes))
       (schema_reject_owner SERIALIZED_FILE_SCHEMA_SOURCE_MISMATCH SERIALIZED_FILE_SCHEMA_LIMIT_NONE))))"

definition schema_plan_storage :: "(SchemaCompile, SchemaLayout) step" where
  "schema_plan_storage =
     step_then (schema_charge_owner 1) (\<lambda>_.
     step_with (\<lambda>compile. schema_view_node_count (compile_view compile)) (\<lambda>nodes.
     let refuse = (\<lambda>limit compile. (None, schema_reject_owner SERIALIZED_FILE_SCHEMA_LIMIT_EXCEEDED limit compile)) in
     case serialized_file_storage_append_array_internal sizeof_schema_storage alignof_row nodes
            sizeof_schema_node of
       None \<Rightarrow> refuse SERIALIZED_FILE_SCHEMA_LIMIT_RETAINED
     | Some (amount, nodes_offset) \<Rightarrow>
         step_then (step_modify (\<lambda>compile. compile\<lparr>compile_result := (compile_result compile)
             \<lparr>schema_required_retained_bytes := amount\<rparr>\<rparr>)) (\<lambda>_.
         step_then (step_require (\<lambda>compile. \<not> amount > schema_max_retained_bytes (compile_limits compile))
             (schema_reject_owner SERIALIZED_FILE_SCHEMA_LIMIT_EXCEEDED
                SERIALIZED_FILE_SCHEMA_LIMIT_RETAINED)) (\<lambda>_.
         if dxbc_size_multiply_overflows nodes 2 then refuse SERIALIZED_FILE_SCHEMA_LIMIT_SCRATCH
         else
           (let request_count = nodes * 2 in
            case serialized_file_storage_append_array_internal 0 alignof_row request_count
                   sizeof_name_request of
              None \<Rightarrow> refuse SERIALIZED_FILE_SCHEMA_LIMIT_SCRATCH
            | Some (half, request_offset) \<Rightarrow>
                if dxbc_size_multiply_overflows half 2 then refuse SERIALIZED_FILE_SCHEMA_LIMIT_SCRATCH
                else
                  step_then (step_modify (\<lambda>compile. compile\<lparr>compile_result := (compile_result compile)
                      \<lparr>schema_required_scratch_bytes := half * 2\<rparr>\<rparr>)) (\<lambda>_.
                  step_then (step_require (\<lambda>compile. \<not> half * 2 >
                        schema_max_scratch_bytes (compile_limits compile))
                      (schema_reject_owner SERIALIZED_FILE_SCHEMA_LIMIT_EXCEEDED
                         SERIALIZED_FILE_SCHEMA_LIMIT_SCRATCH)) (\<lambda>_.
                  step_return
                    \<lparr>layout_nodes_offset = nodes_offset, layout_retained_bytes = amount,
                     layout_scratch_bytes = half * 2, layout_request_count = request_count\<rparr>)))))))"

section \<open>The hierarchy\<close>

definition schema_set_node ::
    "nat \<Rightarrow> (SerializedFileSchemaNode \<Rightarrow> SerializedFileSchemaNode) \<Rightarrow> SchemaCompile \<Rightarrow> SchemaCompile" where
  "schema_set_node i f compile =
     compile\<lparr>compile_nodes := (compile_nodes compile)[i := f (compile_nodes compile ! i)]\<rparr>"

definition schema_decode_node :: "memory \<Rightarrow> nat \<Rightarrow> SchemaCompile \<Rightarrow> SchemaCompile" where
  "schema_decode_node mem ordinal compile =
     (let source = nodes_source (schema_view_tree (compile_view compile));
          offset = (of_nat ordinal :: u64) * 32;
          bytes = span_data source + offset;
          endian = endian_selector (header (schema_view_prefix (compile_view compile)));
          type_bits = serialized_metadata_decode_u32 mem (bytes + 4) endian;
          name_bits = serialized_metadata_decode_u32 mem (bytes + 8) endian;
          slot_index = NAMES_PER_NODE * ordinal
      in (schema_set_node ordinal (\<lambda>node. node
           \<lparr>schema_node_ordinal := of_nat ordinal,
            schema_node_source := \<lparr>span_data = bytes, span_offset = span_offset source + offset, span_size = 32\<rparr>,
            schema_node_version := serialized_metadata_decode_u16 mem bytes endian,
            schema_node_level := mem (bytes + 2), schema_node_type_flags := mem (bytes + 3),
            schema_node_type_offset_bits := type_bits, schema_node_name_offset_bits := name_bits,
            schema_node_byte_size_bits := serialized_metadata_decode_u32 mem (bytes + 12) endian,
            schema_node_index_bits := serialized_metadata_decode_u32 mem (bytes + 16) endian,
            schema_node_meta_flags := serialized_metadata_decode_u32 mem (bytes + 20) endian,
            schema_node_opaque_tail := map (\<lambda>i. mem (bytes + 24 + of_nat i)) [0..<8],
            schema_node_parent := SIZE_MAX, schema_node_first_child := SIZE_MAX,
            schema_node_next_sibling := SIZE_MAX\<rparr>) compile)
         \<lparr>compile_requests := (compile_requests compile)
           [slot_index := \<lparr>encoded_offset = type_bits, slot = of_nat slot_index\<rparr>,
            slot_index + 1 := \<lparr>encoded_offset = name_bits, slot = of_nat (slot_index + 1)\<rparr>]\<rparr>)"

definition close_subtree :: "u64 \<Rightarrow> u64 \<Rightarrow> (SchemaCompile, unit) step" where
  "close_subtree ordinal stop =
     step_with (\<lambda>compile. compile_nodes compile ! unat ordinal) (\<lambda>node.
     step_then (schema_charge 1 SERIALIZED_FILE_SCHEMA_FIELD_LEVEL ordinal SERIALIZED_FILE_SCHEMA_ERROR_FILE
         (span_offset (schema_node_source node) + 2)) (\<lambda>_.
     step_modify (schema_set_node (unat ordinal) (\<lambda>node. node\<lparr>schema_node_subtree_end := stop\<rparr>))))"

text \<open>The loop \<open>while (active_count > level)\<close>, run for the number of levels above.\<close>

fun close_levels :: "u64 \<Rightarrow> nat \<Rightarrow> (SchemaCompile, unit) step" where
  "close_levels stop 0 = step_return ()"
| "close_levels stop (Suc n) =
     step_then (step_modify (\<lambda>compile. compile\<lparr>local_active_count := local_active_count compile - 1\<rparr>)) (\<lambda>_.
     step_then (step_with (\<lambda>compile. local_ancestors compile ! local_active_count compile)
         (\<lambda>ordinal. close_subtree ordinal stop)) (\<lambda>_.
     close_levels stop n))"

definition close_above :: "nat \<Rightarrow> u64 \<Rightarrow> (SchemaCompile, unit) step" where
  "close_above depth stop =
     step_with (\<lambda>compile. local_active_count compile - depth) (close_levels stop)"

text \<open>Linking a node below the root to its parent and its previous sibling.\<close>

definition link_node :: "nat \<Rightarrow> nat \<Rightarrow> SchemaCompile \<Rightarrow> SchemaCompile" where
  "link_node ordinal depth compile =
     (let parent = local_ancestors compile ! (depth - 1);
          compile = schema_set_node ordinal (\<lambda>node. node\<lparr>schema_node_parent := parent\<rparr>) compile;
          previous = local_last_child compile ! (depth - 1);
          compile = (if previous = SIZE_MAX
            then schema_set_node (unat parent) (\<lambda>node. node\<lparr>schema_node_first_child := of_nat ordinal\<rparr>) compile
            else schema_set_node (unat previous) (\<lambda>node. node\<lparr>schema_node_next_sibling := of_nat ordinal\<rparr>) compile);
          compile = schema_set_node (unat parent)
            (\<lambda>node. node\<lparr>schema_node_child_count := schema_node_child_count node + 1\<rparr>) compile
      in compile\<lparr>local_last_child := (local_last_child compile)[depth - 1 := of_nat ordinal]\<rparr>)"

definition open_level :: "nat \<Rightarrow> nat \<Rightarrow> SchemaCompile \<Rightarrow> SchemaCompile" where
  "open_level ordinal depth compile = compile
     \<lparr>local_ancestors := (local_ancestors compile)[depth := of_nat ordinal],
      local_last_child := (local_last_child compile)[depth := SIZE_MAX],
      local_active_count := depth + 1,
      compile_view := (if of_nat depth > schema_view_maximum_depth (compile_view compile)
        then (compile_view compile)\<lparr>schema_view_maximum_depth := of_nat depth\<rparr> else compile_view compile)\<rparr>"

definition compile_node :: "memory \<Rightarrow> nat \<Rightarrow> (SchemaCompile, unit) step" where
  "compile_node mem ordinal =
     step_with (\<lambda>compile. span_offset (nodes_source (schema_view_tree (compile_view compile))) +
         of_nat ordinal * 32) (\<lambda>offset.
     step_then (schema_charge 33 SERIALIZED_FILE_SCHEMA_FIELD_NODE_RECORD (of_nat ordinal)
         SERIALIZED_FILE_SCHEMA_ERROR_FILE offset) (\<lambda>_.
     step_then (step_modify (schema_decode_node mem ordinal)) (\<lambda>_.
     step_with (\<lambda>compile. unat (schema_node_level (compile_nodes compile ! ordinal))) (\<lambda>depth.
     step_then (step_require (\<lambda>compile. \<not> ((ordinal = 0 \<and> depth \<noteq> 0) \<or>
           (ordinal \<noteq> 0 \<and> (depth = 0 \<or> depth > local_active_count compile))))
         (schema_reject SERIALIZED_FILE_SCHEMA_MALFORMED_HIERARCHY SERIALIZED_FILE_SCHEMA_LIMIT_NONE
            SERIALIZED_FILE_SCHEMA_FIELD_LEVEL (of_nat ordinal) SERIALIZED_FILE_SCHEMA_ERROR_FILE
            (offset + 2))) (\<lambda>_.
     step_then (step_require (\<lambda>compile. \<not> of_nat depth > schema_max_depth (compile_limits compile))
         (schema_reject SERIALIZED_FILE_SCHEMA_LIMIT_EXCEEDED SERIALIZED_FILE_SCHEMA_LIMIT_DEPTH
            SERIALIZED_FILE_SCHEMA_FIELD_LEVEL (of_nat ordinal) SERIALIZED_FILE_SCHEMA_ERROR_FILE
            (offset + 2))) (\<lambda>_.
     step_then (close_above depth (of_nat ordinal)) (\<lambda>_.
     step_then (step_modify (\<lambda>compile. if depth \<noteq> 0 then link_node ordinal depth compile else compile)) (\<lambda>_.
     step_modify (open_level ordinal depth)))))))))"

definition compile_hierarchy :: "memory \<Rightarrow> (SchemaCompile, unit) step" where
  "compile_hierarchy mem =
     step_with (\<lambda>compile. schema_view_node_count (compile_view compile)) (\<lambda>count.
     step_then (step_modify (\<lambda>compile. compile
       \<lparr>local_ancestors := replicate HIERARCHY_LEVELS 0, local_last_child := replicate HIERARCHY_LEVELS 0,
        local_active_count := 0\<rparr>)) (\<lambda>_.
     step_then (scan_rows (compile_node mem) 0 (unat count)) (\<lambda>_.
     close_above 0 count)))"

section \<open>Sorting the names\<close>

definition radix_source :: "SchemaCompile \<Rightarrow> NameRequest list" where
  "radix_source compile = (if local_swapped compile then compile_sorted compile else compile_requests compile)"

definition radix_bucket :: "nat \<Rightarrow> NameRequest \<Rightarrow> nat" where
  "radix_bucket shift request = unat (drop_bit shift (encoded_offset request) AND 0xFF)"

definition count_request :: "nat \<Rightarrow> nat \<Rightarrow> (SchemaCompile, unit) step" where
  "count_request shift index =
     step_then (schema_charge_owner 1) (\<lambda>_.
     step_modify (\<lambda>compile.
       let bucket = radix_bucket shift (radix_source compile ! index) in
       compile\<lparr>local_offsets := (local_offsets compile)[bucket := local_offsets compile ! bucket + 1]\<rparr>))"

fun prefix_offsets :: "nat \<Rightarrow> nat list \<Rightarrow> nat list" where
  "prefix_offsets start [] = []"
| "prefix_offsets start (count # counts) = start # prefix_offsets (start + count) counts"

definition scatter_request :: "nat \<Rightarrow> nat \<Rightarrow> (SchemaCompile, unit) step" where
  "scatter_request shift index =
     step_then (schema_charge_owner 1) (\<lambda>_.
     step_modify (\<lambda>compile.
       let request = radix_source compile ! index; bucket = radix_bucket shift request;
           place = local_offsets compile ! bucket;
           compile = (if local_swapped compile
             then compile\<lparr>compile_requests := (compile_requests compile)[place := request]\<rparr>
             else compile\<lparr>compile_sorted := (compile_sorted compile)[place := request]\<rparr>)
       in compile\<lparr>local_offsets := (local_offsets compile)[bucket := place + 1]\<rparr>))"

definition radix_pass :: "nat \<Rightarrow> (SchemaCompile, unit) step" where
  "radix_pass pass =
     step_then (schema_charge_owner 512) (\<lambda>_.
     step_then (step_modify (\<lambda>compile. compile\<lparr>local_offsets := replicate RADIX_BUCKETS 0\<rparr>)) (\<lambda>_.
     step_with (\<lambda>compile. unat (compile_request_count compile)) (\<lambda>count.
     step_then (scan_rows (count_request (pass * 8)) 0 count) (\<lambda>_.
     step_then (step_modify (\<lambda>compile. compile\<lparr>local_offsets := prefix_offsets 0 (local_offsets compile)\<rparr>)) (\<lambda>_.
     step_then (scan_rows (scatter_request (pass * 8)) 0 count) (\<lambda>_.
     step_modify (\<lambda>compile. compile\<lparr>local_swapped := \<not> local_swapped compile\<rparr>)))))))"

definition sort_name_requests :: "(SchemaCompile, unit) step" where
  "sort_name_requests =
     step_then (step_modify (\<lambda>compile. compile\<lparr>local_swapped := False\<rparr>)) (\<lambda>_.
     step_then (scan_rows radix_pass 0 RADIX_PASSES) (\<lambda>_.
     step_require (\<lambda>compile. \<not> local_swapped compile) (\<lambda>compile. compile)))"

section \<open>Resolving the names\<close>

definition request_node :: "NameRequest \<Rightarrow> u64" where
  "request_node request = slot request div 2"

definition request_is_name :: "NameRequest \<Rightarrow> bool" where
  "request_is_name request \<longleftrightarrow> slot request mod 2 \<noteq> 0"

definition request_field :: "NameRequest \<Rightarrow> SerializedFileSchemaField" where
  "request_field request =
     (if request_is_name request then SERIALIZED_FILE_SCHEMA_FIELD_NAME_OFFSET
      else SERIALIZED_FILE_SCHEMA_FIELD_TYPE_OFFSET)"

definition request_is_common :: "NameRequest \<Rightarrow> bool" where
  "request_is_common request \<longleftrightarrow> encoded_offset request AND 0x80000000 \<noteq> 0"

definition request_offset :: "NameRequest \<Rightarrow> u32" where
  "request_offset request = encoded_offset request AND 0x7FFFFFFF"

definition request_error_offset ::
    "NameRequest \<Rightarrow> SerializedFileSchemaStringSpace \<Rightarrow> SchemaCompile \<Rightarrow> u64" where
  "request_error_offset request space compile =
     (if space = SERIALIZED_FILE_SCHEMA_STRING_COMMON_EXACT35 then ucast (request_offset request)
      else span_offset (schema_node_source (compile_nodes compile ! unat (request_node request))) +
        (if request_is_name request then 8 else 4))"

definition space_error :: "SerializedFileSchemaStringSpace \<Rightarrow> SerializedFileSchemaErrorSpace" where
  "space_error space =
     (if space = SERIALIZED_FILE_SCHEMA_STRING_COMMON_EXACT35 then SERIALIZED_FILE_SCHEMA_ERROR_COMMON_EXACT35
      else SERIALIZED_FILE_SCHEMA_ERROR_FILE)"

definition resolve_request ::
    "NameRequest \<Rightarrow> SerializedFileSchemaStringSpace \<Rightarrow> pointer \<Rightarrow> u64 \<Rightarrow> nat \<Rightarrow> nat \<Rightarrow> bool \<Rightarrow>
     (SchemaCompile, unit) step" where
  "resolve_request request space bytes origin start stop terminated =
     (let ordinal = request_node request in
      step_with (request_error_offset request space) (\<lambda>error_offset.
      step_then (schema_charge 1 (request_field request) ordinal (space_error space) error_offset) (\<lambda>_.
      step_then (step_require (\<lambda>_. unat (request_offset request) = start)
          (schema_reject SERIALIZED_FILE_SCHEMA_INVALID_STRING_OFFSET SERIALIZED_FILE_SCHEMA_LIMIT_NONE
             (request_field request) ordinal (space_error space) error_offset)) (\<lambda>_.
      step_then (step_require (\<lambda>_. terminated)
          (schema_reject SERIALIZED_FILE_SCHEMA_UNTERMINATED_STRING SERIALIZED_FILE_SCHEMA_LIMIT_NONE
             SERIALIZED_FILE_SCHEMA_FIELD_STRING_TERMINATOR ordinal (space_error space)
             (origin + of_nat stop))) (\<lambda>_.
        let name = \<lparr>schema_string_space = space, schema_string_encoded_offset = encoded_offset request,
              schema_string_bytes = bytes + of_nat start, schema_string_byte_count = of_nat (stop - start - 1),
              schema_string_source_offset = origin + of_nat start\<rparr> in
      step_modify (schema_set_node (unat ordinal) (\<lambda>node. if request_is_name request
        then node\<lparr>schema_node_field_name := name\<rparr> else node\<lparr>schema_node_type_name := name\<rparr>)))))))"

text \<open>
  The inner loop, run for at most the requests that are left; it stops at the first request of
  the other space or behind the string.
\<close>

fun resolve_pending ::
    "SerializedFileSchemaStringSpace \<Rightarrow> pointer \<Rightarrow> u64 \<Rightarrow> nat \<Rightarrow> nat \<Rightarrow> bool \<Rightarrow> nat \<Rightarrow>
     (SchemaCompile, unit) step" where
  "resolve_pending space bytes origin start stop terminated 0 = step_return ()"
| "resolve_pending space bytes origin start stop terminated (Suc n) =
     step_with (\<lambda>compile. compile_requests compile ! local_request_index compile) (\<lambda>request.
     if request_is_common request \<noteq> (space = SERIALIZED_FILE_SCHEMA_STRING_COMMON_EXACT35) \<or>
        unat (request_offset request) \<ge> stop
     then step_return ()
     else
       step_then (resolve_request request space bytes origin start stop terminated) (\<lambda>_.
       step_then (step_modify (\<lambda>compile. compile\<lparr>local_request_index := local_request_index compile + 1\<rparr>)) (\<lambda>_.
       resolve_pending space bytes origin start stop terminated n)))"

text \<open>The scan of the bytes from \<open>cursor\<close>; \<open>n\<close> of them are left and the string began at \<open>start\<close>.\<close>

fun resolve_bytes ::
    "memory \<Rightarrow> SerializedFileSchemaStringSpace \<Rightarrow> pointer \<Rightarrow> u64 \<Rightarrow> nat \<Rightarrow> nat \<Rightarrow> nat \<Rightarrow>
     (SchemaCompile, unit) step" where
  "resolve_bytes mem space bytes origin cursor start 0 = step_return ()"
| "resolve_bytes mem space bytes origin cursor start (Suc n) =
     step_then (schema_charge 1 SERIALIZED_FILE_SCHEMA_FIELD_STRING_TERMINATOR SIZE_MAX (space_error space)
         (origin + of_nat cursor)) (\<lambda>_.
       let terminated = (mem (bytes + of_nat cursor) = 0) in
       if \<not> terminated \<and> n \<noteq> 0 then resolve_bytes mem space bytes origin (cursor + 1) start n
       else
         step_then (step_with (\<lambda>compile. unat (compile_request_count compile) - local_request_index compile)
           (resolve_pending space bytes origin start (cursor + 1) terminated)) (\<lambda>_.
         resolve_bytes mem space bytes origin (cursor + 1) (cursor + 1) n))"

definition resolve_table ::
    "memory \<Rightarrow> SerializedFileSchemaStringSpace \<Rightarrow> pointer \<Rightarrow> u64 \<Rightarrow> u64 \<Rightarrow> (SchemaCompile, unit) step" where
  "resolve_table mem space bytes extent origin =
     step_then (resolve_bytes mem space bytes origin 0 0 (unat extent)) (\<lambda>_.
     step_with (\<lambda>compile. local_request_index compile < unat (compile_request_count compile)) (\<lambda>pending.
     if \<not> pending then step_return ()
     else
       step_with (\<lambda>compile. compile_requests compile ! local_request_index compile) (\<lambda>request.
       if request_is_common request \<noteq> (space = SERIALIZED_FILE_SCHEMA_STRING_COMMON_EXACT35) then step_return ()
       else
         step_with (request_error_offset request space) (\<lambda>error_offset.
         step_then (schema_charge 1 (request_field request) (request_node request) (space_error space)
           error_offset) (\<lambda>_ compile.
         (None, schema_reject SERIALIZED_FILE_SCHEMA_INVALID_STRING_OFFSET SERIALIZED_FILE_SCHEMA_LIMIT_NONE
           (request_field request) (request_node request) (space_error space) error_offset compile))))))"

definition resolve_names :: "memory \<Rightarrow> (SchemaCompile, unit) step" where
  "resolve_names mem =
     step_then (step_modify (\<lambda>compile. compile\<lparr>local_request_index := 0\<rparr>)) (\<lambda>_.
     step_with (\<lambda>compile. strings_source (schema_view_tree (compile_view compile))) (\<lambda>strings.
     step_then (resolve_table mem SERIALIZED_FILE_SCHEMA_STRING_LOCAL (span_data strings) (span_size strings)
         (span_offset strings)) (\<lambda>_.
     step_with (\<lambda>compile. (compile_common_bytes compile, compile_common_size compile)) (\<lambda>(common, common_size).
     step_then (resolve_table mem SERIALIZED_FILE_SCHEMA_STRING_COMMON_EXACT35 common common_size 0) (\<lambda>_.
     step_require (\<lambda>compile. local_request_index compile = unat (compile_request_count compile))
       (\<lambda>compile. compile))))))"

section \<open>Creation and ownership\<close>

definition zero_schema_string :: SerializedFileSchemaString where
  "zero_schema_string =
     \<lparr>schema_string_space = SERIALIZED_FILE_SCHEMA_STRING_ZERO, schema_string_encoded_offset = 0,
      schema_string_bytes = 0, schema_string_byte_count = 0, schema_string_source_offset = 0\<rparr>"

definition zero_schema_node :: SerializedFileSchemaNode where
  "zero_schema_node =
     \<lparr>schema_node_ordinal = 0, schema_node_source = zero_span, schema_node_version = 0, schema_node_level = 0,
      schema_node_type_flags = 0, schema_node_type_offset_bits = 0, schema_node_name_offset_bits = 0,
      schema_node_byte_size_bits = 0, schema_node_index_bits = 0, schema_node_meta_flags = 0,
      schema_node_opaque_tail = replicate 8 0, schema_node_type_name = zero_schema_string,
      schema_node_field_name = zero_schema_string, schema_node_parent = 0, schema_node_first_child = 0,
      schema_node_next_sibling = 0, schema_node_child_count = 0, schema_node_subtree_end = 0\<rparr>"

definition zero_name_request :: NameRequest where
  "zero_name_request = \<lparr>encoded_offset = 0, slot = 0\<rparr>"

text \<open>The view that selection fills in; the kind is the one it will store.\<close>

definition schema_start_view :: "SerializedFileSchemaRowKind \<Rightarrow> SerializedFileSchemaView" where
  "schema_start_view kind =
     \<lparr>schema_view_engine_version = 0, schema_view_prefix = zero_prefix, schema_view_row_kind = kind,
      schema_view_type_ordinal = 0, schema_view_type_entry_source = zero_span,
      schema_view_tree = type_tree zero_type_row, schema_view_class_id_bits = 0,
      schema_view_script_index_bits = 0, schema_view_stripped_raw = 0, schema_view_has_script_hash = False,
      schema_view_script_hash_source = zero_span, schema_view_type_hash_source = zero_span,
      schema_view_class_name_source = zero_span, schema_view_namespace_source = zero_span,
      schema_view_assembly_name_source = zero_span, schema_view_dependency_count_source = zero_span,
      schema_view_dependency_words_source = zero_span, schema_view_dependency_count = 0,
      schema_view_node_count = 0, schema_view_maximum_depth = 0, schema_view_retained_bytes = 0\<rparr>"

definition start_compile ::
    "SerializedFileSchemaRowKind \<Rightarrow> SerializedFileSchemaLimits \<Rightarrow> pointer \<Rightarrow> u64 \<Rightarrow> SchemaCompile" where
  "start_compile kind limits common common_size =
     \<lparr>compile_limits = limits, compile_result = schema_initial_result, compile_view = schema_start_view kind,
      compile_nodes = [], compile_requests = [], compile_sorted = [], compile_request_count = 0,
      compile_common_bytes = common, compile_common_size = common_size, local_ancestors = [],
      local_last_child = [], local_active_count = 0, local_offsets = [], local_swapped = False,
      local_request_index = 0\<rparr>"

text \<open>What is done between the two allocations and the publication.\<close>

definition schema_compile_body :: "memory \<Rightarrow> (SchemaCompile, unit) step" where
  "schema_compile_body mem =
     step_then (compile_hierarchy mem) (\<lambda>_.
     step_then sort_name_requests (\<lambda>_.
     step_then (resolve_names mem) (\<lambda>_.
     schema_charge_owner 1)))"

abbreviation schema_exhausted :: "SchemaCompile \<Rightarrow> SerializedFileSchemaResult" where
  "schema_exhausted compile \<equiv>
     (compile_result compile)\<lparr>schema_status := SERIALIZED_FILE_SCHEMA_ALLOCATION_FAILED\<rparr>"

text \<open>From the retained allocation on: both allocations, the compilation and what is freed again.\<close>

definition schema_build ::
    "memory \<Rightarrow> (nat \<Rightarrow> pointer) \<Rightarrow> allocator \<Rightarrow> SchemaLayout \<Rightarrow> SchemaCompile \<Rightarrow> tracker \<Rightarrow>
     SerializedFileSchemaResult \<times> SerializedFileSchema \<times> tracker" where
  "schema_build mem place grants layout compile t =
     (let amount = layout_retained_bytes layout; scratch = layout_scratch_bytes layout in
      case mem_alloc grants amount t of
        (None, t) \<Rightarrow> (schema_exhausted compile, None, t)
      | (Some cells, t1) \<Rightarrow>
          (let address = place (allocator_calls t);
               compile = compile\<lparr>compile_result := (compile_result compile)\<lparr>schema_peak_retained_bytes := amount\<rparr>,
                 compile_nodes := replicate (unat (schema_view_node_count (compile_view compile))) zero_schema_node\<rparr>
           in case schema_charge_owner scratch compile of
                (None, compile) \<Rightarrow> (compile_result compile, None, mem_free (Some cells) amount t1)
              | (Some _, compile) \<Rightarrow>
                  (case mem_alloc grants scratch t1 of
                     (None, t2) \<Rightarrow> (schema_exhausted compile, None, mem_free (Some cells) amount t2)
                   | (Some spare, t2) \<Rightarrow>
                       (let count = layout_request_count layout;
                            compile = compile\<lparr>compile_result := (compile_result compile)
                                \<lparr>schema_peak_scratch_bytes := scratch\<rparr>,
                              compile_request_count := count,
                              compile_requests := replicate (unat count) zero_name_request,
                              compile_sorted := replicate (unat count) zero_name_request\<rparr>
                        in case schema_compile_body mem compile of
                             (None, compile) \<Rightarrow>
                               (compile_result compile, None,
                                mem_free (Some cells) amount (mem_free (Some spare) scratch t2))
                           | (Some _, compile) \<Rightarrow>
                               (compile_result compile,
                                Some \<lparr>schema_storage_address = address, schema_storage_cells = cells,
                                  schema_storage_view = (compile_view compile)\<lparr>schema_view_retained_bytes := amount\<rparr>,
                                  schema_storage_nodes = compile_nodes compile\<rparr>,
                                mem_free (Some spare) scratch t2)))))"

definition create_schema ::
    "memory \<Rightarrow> (nat \<Rightarrow> pointer) \<Rightarrow> allocator \<Rightarrow> pointer \<times> u64 \<Rightarrow> pointer \<Rightarrow> u64 \<Rightarrow>
     SerializedFileDirectory + SerializedFileMetadataTail \<Rightarrow> SerializedFileSchemaRowKind \<Rightarrow> u64 \<Rightarrow>
     pointer \<Rightarrow> SerializedFileSchemaLimits \<Rightarrow> pointer \<Rightarrow> SerializedFileSchema \<Rightarrow> tracker \<Rightarrow>
     SerializedFileSchemaResult \<times> SerializedFileSchema \<times> tracker" where
  "create_schema mem place grants common handle handle_size holder kind ordinal limits_address limits
     out_address out t =
     (let refuse = (\<lambda>status. (schema_initial_result\<lparr>schema_status := status\<rparr>, out, t)) in
      if \<not> schema_basic_arguments handle handle_size limits_address out_address
      then refuse SERIALIZED_FILE_SCHEMA_INVALID_ARGUMENT
      else
        (case schema_prepare_parent handle handle_size holder of
           None \<Rightarrow> refuse SERIALIZED_FILE_SCHEMA_INVALID_STATE
         | Some parent \<Rightarrow>
             if \<not> schema_ranges_disjoint parent (fst common) (snd common) limits_address out_address
             then refuse SERIALIZED_FILE_SCHEMA_INVALID_ARGUMENT
             else if out \<noteq> None then refuse SERIALIZED_FILE_SCHEMA_INVALID_STATE
             else
               (case step_then (schema_charge_owner 1) (\<lambda>_.
                     step_then (schema_select_row parent kind ordinal) (\<lambda>_.
                     step_then (schema_admit_tree parent) (\<lambda>_.
                     step_then schema_plan_storage (\<lambda>layout.
                     step_then (schema_charge_owner (layout_retained_bytes layout)) (\<lambda>_.
                     step_return layout))))) (start_compile kind limits (fst common) (snd common)) of
                  (None, compile) \<Rightarrow> (compile_result compile, out, t)
                | (Some layout, compile) \<Rightarrow> schema_build mem place grants layout compile t)))"

definition serialized_file_schema_init :: "SerializedFileSchema \<Rightarrow> SerializedFileSchema" where
  "serialized_file_schema_init schema = None"

definition serialized_file_schema_dispose ::
    "SerializedFileSchema \<Rightarrow> tracker \<Rightarrow> SerializedFileSchema \<times> tracker" where
  "serialized_file_schema_dispose schema t =
     (case schema of
        None \<Rightarrow> (None, t)
      | Some storage \<Rightarrow>
          (None, mem_free (Some (schema_storage_cells storage))
             (schema_view_retained_bytes (schema_storage_view storage)) t))"

definition serialized_file_schema_create_ordinary ::
    "memory \<Rightarrow> (nat \<Rightarrow> pointer) \<Rightarrow> allocator \<Rightarrow> pointer \<times> u64 \<Rightarrow> pointer \<Rightarrow> SerializedFileDirectory \<Rightarrow> u64 \<Rightarrow>
     pointer \<Rightarrow> SerializedFileSchemaLimits \<Rightarrow> pointer \<Rightarrow> SerializedFileSchema \<Rightarrow> tracker \<Rightarrow>
     SerializedFileSchemaResult \<times> SerializedFileSchema \<times> tracker" where
  "serialized_file_schema_create_ordinary mem place grants common directory_address directory ordinal =
     create_schema mem place grants common directory_address sizeof_directory_handle (Inl directory)
       SERIALIZED_FILE_SCHEMA_ORDINARY_TYPE ordinal"

definition serialized_file_schema_create_reference ::
    "memory \<Rightarrow> (nat \<Rightarrow> pointer) \<Rightarrow> allocator \<Rightarrow> pointer \<times> u64 \<Rightarrow> pointer \<Rightarrow> SerializedFileMetadataTail \<Rightarrow> u64 \<Rightarrow>
     pointer \<Rightarrow> SerializedFileSchemaLimits \<Rightarrow> pointer \<Rightarrow> SerializedFileSchema \<Rightarrow> tracker \<Rightarrow>
     SerializedFileSchemaResult \<times> SerializedFileSchema \<times> tracker" where
  "serialized_file_schema_create_reference mem place grants common tail_address tail ordinal =
     create_schema mem place grants common tail_address sizeof_tail_handle (Inr tail)
       SERIALIZED_FILE_SCHEMA_REFERENCE_TYPE ordinal"

definition serialized_file_schema_view :: "SerializedFileSchema \<Rightarrow> SerializedFileSchemaView option" where
  "serialized_file_schema_view schema = map_option schema_storage_view schema"

definition serialized_file_schema_node ::
    "SerializedFileSchema \<Rightarrow> u64 \<Rightarrow> SerializedFileSchemaNode option" where
  "serialized_file_schema_node schema ordinal =
     (case schema of
        None \<Rightarrow> None
      | Some storage \<Rightarrow>
          if ordinal < schema_view_node_count (schema_storage_view storage)
          then Some (schema_storage_nodes storage ! unat ordinal) else None)"

definition serialized_file_schema_storage_range_internal :: "SerializedFileSchema \<Rightarrow> (pointer \<times> u64) option" where
  "serialized_file_schema_storage_range_internal schema =
     map_option (\<lambda>storage. (schema_storage_address storage,
       schema_view_retained_bytes (schema_storage_view storage))) schema"

end
