(* ===== verification/Spending.thy ===== *)
theory Spending
  imports Outcomes
begin

text \<open>
  Steps that spend from a budget of work: the interface of the states they run on, and the rules
  that decide a routine, with the exact work it costs, from its parts.
\<close>

text \<open>
  \<open>at k s\<close> is the state \<open>s\<close> with \<open>k\<close> units spent. A routine \<open>costs\<close> when, whatever was spent
  before, it succeeds exactly under its condition and with room for its cost, and then leaves
  the state it promises with that cost added; otherwise the state it leaves has failed.
\<close>

locale spending =
  fixes at :: "nat \<Rightarrow> 's \<Rightarrow> 's" and failed :: "'s \<Rightarrow> bool" and budget :: nat
  assumes at_at: "at k (at j s) = at k s"
begin

definition costs :: "('s, 'a) step \<Rightarrow> 's \<Rightarrow> bool \<Rightarrow> nat \<Rightarrow> 'a \<Rightarrow> 's \<Rightarrow> bool" where
  "costs m s C n x t \<longleftrightarrow>
     (\<forall>k \<le> budget. decides failed m (at k s) (C \<and> k + n \<le> budget) x (at (k + n) t))"

lemma costsI:
  "(\<And>k. k \<le> budget \<Longrightarrow> decides failed m (at k s) (C \<and> k + n \<le> budget) x (at (k + n) t)) \<Longrightarrow>
     costs m s C n x t"
  by (simp add: costs_def)

lemma costsD:
  "costs m s C n x t \<Longrightarrow> k \<le> budget \<Longrightarrow>
     decides failed m (at k s) (C \<and> k + n \<le> budget) x (at (k + n) t)"
  by (simp add: costs_def)

lemma costs_then:
  assumes "costs m s C n x t" and "C \<Longrightarrow> costs (f x) t D n' y u"
  shows "costs (step_then m f) s (C \<and> D) (n + n') y u"
proof (rule costsI)
  fix k
  assume k: "k \<le> budget"
  show "decides failed (step_then m f) (at k s) ((C \<and> D) \<and> k + (n + n') \<le> budget) y (at (k + (n + n')) u)"
  proof (rule decides_then [OF costsD [OF assms(1) k]])
    assume c: "C \<and> k + n \<le> budget"
    then have "decides failed (f x) (at (k + n) t) (D \<and> k + n + n' \<le> budget) y (at (k + n + n') u)"
      using costsD [OF assms(2)] by blast
    then show "decides failed (f x) (at (k + n) t) ((C \<and> D) \<and> k + (n + n') \<le> budget) y (at (k + (n + n')) u)"
      using c by (auto simp: decides_def add.assoc)
  qed auto
qed

lemma costs_weaken:
  "costs m s C n x t \<Longrightarrow> (C' \<longleftrightarrow> C) \<Longrightarrow> (C \<Longrightarrow> n' = n \<and> x' = x \<and> t' = t) \<Longrightarrow> costs m s C' n' x' t'"
  unfolding costs_def decides_def by auto

lemma costs_modify:
  "(\<And>k. w (at k s) = at k t) \<Longrightarrow> costs (step_modify w) s True 0 () t"
  by (auto intro!: costsI decides_modify simp: step_modify_def decides_def)

lemma costs_return: "costs (step_return x) s True 0 x s"
  by (auto intro!: costsI simp: step_return_def decides_def)

lemma costs_with:
  assumes "\<And>k. g (at k s) = g s" and "costs (f (g s)) s C n x t"
  shows "costs (step_with g f) s C n x t"
  using assms(2) by (auto intro!: costsI decides_with simp: assms(1) dest: costsD)

lemma costs_require:
  assumes "\<And>k. guard (at k s) \<longleftrightarrow> C" and "\<And>k. k \<le> budget \<Longrightarrow> \<not> C \<Longrightarrow> failed (reject (at k s))"
  shows "costs (step_require guard reject) s C 0 () s"
  using assms by (auto intro!: costsI simp: step_require_def decides_def)

lemma costs_refuse:
  "(\<And>k. k \<le> budget \<Longrightarrow> failed (w (at k s))) \<Longrightarrow> costs (\<lambda>s. (None, w s)) s False n x t"
  by (auto intro!: costsI simp: decides_def)

lemma costs_rows:
  assumes "\<And>j. i \<le> j \<Longrightarrow> j < i + k \<Longrightarrow> (\<And>l. i \<le> l \<Longrightarrow> l < j \<Longrightarrow> C l) \<Longrightarrow> costs (row j) (S j) (C j) (n j) (x j) (S (Suc j))"
  shows "costs (scan_rows row i k) (S i) (\<forall>j. i \<le> j \<and> j < i + k \<longrightarrow> C j) (sum_list (map n [i..<i + k]))
    (map x [i..<i + k]) (S (i + k))"
  using assms
proof (induction k arbitrary: i)
  case 0
  have empty: "scan_rows row i 0 = step_return []" by (rule ext) (simp add: step_return_def)
  show ?case unfolding empty by (rule costs_weaken [OF costs_return]) auto
next
  case (Suc k)
  have first: "costs (row i) (S i) (C i) (n i) (x i) (S (Suc i))" using Suc.prems by simp
  have rest: "C i \<Longrightarrow> costs (scan_rows row (Suc i) k) (S (Suc i)) (\<forall>j. Suc i \<le> j \<and> j < Suc i + k \<longrightarrow> C j)
      (sum_list (map n [Suc i..<Suc i + k])) (map x [Suc i..<Suc i + k]) (S (Suc i + k))"
    by (rule Suc.IH, rule Suc.prems) (auto, metis le_antisym not_less_eq_eq)
  have "costs (step_then (row i) (\<lambda>r. step_then (scan_rows row (Suc i) k) (\<lambda>rs. step_return (r # rs)))) (S i)
     (C i \<and> (\<forall>j. Suc i \<le> j \<and> j < Suc i + k \<longrightarrow> C j) \<and> True)
     (n i + (sum_list (map n [Suc i..<Suc i + k]) + 0)) (x i # map x [Suc i..<Suc i + k]) (S (Suc i + k))"
    by (rule costs_then [OF first], rule costs_then, erule rest, rule costs_return)
  then show ?case
    unfolding scan_rows_Suc
  proof (rule costs_weaken)
    show "(\<forall>j. i \<le> j \<and> j < i + Suc k \<longrightarrow> C j) =
        (C i \<and> (\<forall>j. Suc i \<le> j \<and> j < Suc i + k \<longrightarrow> C j) \<and> True)"
      using Suc_leI le_neq_implies_less by (auto, metis)
  qed (simp add: upt_conv_Cons del: upt_Suc)
qed

end

end
