(* ===== verification/SchemaWork.thy ===== *)
theory SchemaWork
  imports FileSchema Spending
begin

text \<open>
  The compilation of a schema as a spending routine: the states with a given amount of work
  spent, what a failed compilation looks like, and the charges.
\<close>

definition charged_at :: "SerializedFileSchemaLimits \<Rightarrow> nat \<Rightarrow> SchemaCompile \<Rightarrow> SchemaCompile" where
  "charged_at limits k s = s
     \<lparr>compile_limits := limits, compile_result := (compile_result s)\<lparr>schema_work_used := of_nat k\<rparr>\<rparr>"

definition compile_failed :: "SerializedFileSchemaLimits \<Rightarrow> SchemaCompile \<Rightarrow> bool" where
  "compile_failed limits s \<longleftrightarrow> schema_status (compile_result s) \<noteq> SERIALIZED_FILE_SCHEMA_OK \<and>
     schema_work_used (compile_result s) \<le> schema_max_work limits"

lemma charged_at_fields [simp]:
  "compile_limits (charged_at limits k s) = limits"
  "compile_result (charged_at limits k s) = (compile_result s)\<lparr>schema_work_used := of_nat k\<rparr>"
  "compile_view (charged_at limits k s) = compile_view s"
  "compile_nodes (charged_at limits k s) = compile_nodes s"
  "compile_requests (charged_at limits k s) = compile_requests s"
  "compile_sorted (charged_at limits k s) = compile_sorted s"
  "compile_request_count (charged_at limits k s) = compile_request_count s"
  "compile_common_bytes (charged_at limits k s) = compile_common_bytes s"
  "compile_common_size (charged_at limits k s) = compile_common_size s"
  "local_ancestors (charged_at limits k s) = local_ancestors s"
  "local_last_child (charged_at limits k s) = local_last_child s"
  "local_active_count (charged_at limits k s) = local_active_count s"
  "local_offsets (charged_at limits k s) = local_offsets s"
  "local_swapped (charged_at limits k s) = local_swapped s"
  "local_request_index (charged_at limits k s) = local_request_index s"
  by (simp_all add: charged_at_def)

lemma charged_at_twice: "charged_at limits k (charged_at limits j s) = charged_at limits k s"
  by (simp add: charged_at_def)

interpretation sw: spending "charged_at limits" "compile_failed limits" "unat (schema_max_work limits)"
  for limits
  by unfold_locales (rule charged_at_twice)

lemma work_fits:
  "k \<le> unat (schema_max_work limits) \<Longrightarrow> unat (of_nat k :: u64) = k"
  using u64_bound [of "schema_max_work limits"] by (simp add: unat_of_nat take_bit_nat_eq_self)

lemma rejected_fails:
  "k \<le> unat (schema_max_work limits) \<Longrightarrow> status \<noteq> SERIALIZED_FILE_SCHEMA_OK \<Longrightarrow>
     compile_failed limits (schema_reject status limit field node space offset (charged_at limits k s))"
  using work_fits [of k limits]
  by (simp add: compile_failed_def schema_reject_def word_le_nat_alt)

lemma charge_costs:
  assumes "unat amount = n"
  shows "sw.costs limits (schema_charge amount field node space offset) s True n () s"
proof (rule sw.costsI)
  fix k
  assume k: "k \<le> unat (schema_max_work limits)"
  have fits: "\<not> amount > schema_max_work limits - of_nat k \<longleftrightarrow> k + n \<le> unat (schema_max_work limits)"
    using charge_iff [of "of_nat k" "schema_max_work limits" amount] work_fits [OF k] k assms
    by (simp add: not_less word_le_nat_alt)
  show "decides (compile_failed limits) (schema_charge amount field node space offset) (charged_at limits k s)
      (True \<and> k + n \<le> unat (schema_max_work limits)) () (charged_at limits (k + n) s)"
    unfolding schema_charge_def
  proof (rule decides_guard)
    assume "\<not> \<not> amount > schema_max_work (compile_limits (charged_at limits k s)) -
        schema_work_used (compile_result (charged_at limits k s))"
    then show "compile_failed limits (schema_reject SERIALIZED_FILE_SCHEMA_LIMIT_EXCEEDED
        SERIALIZED_FILE_SCHEMA_LIMIT_WORK field node space offset (charged_at limits k s)) \<and>
        \<not> (True \<and> k + n \<le> unat (schema_max_work limits))"
      using fits rejected_fails [OF k] by simp
  next
    assume "\<not> amount > schema_max_work (compile_limits (charged_at limits k s)) -
        schema_work_used (compile_result (charged_at limits k s))"
    moreover have "amount = of_nat n" using assms by (auto simp: word_eq_nat)
    ultimately show "decides (compile_failed limits) (step_modify (\<lambda>compile. compile\<lparr>compile_result :=
        (compile_result compile)\<lparr>schema_work_used := schema_work_used (compile_result compile) + amount\<rparr>\<rparr>))
        (charged_at limits k s) (True \<and> k + n \<le> unat (schema_max_work limits)) () (charged_at limits (k + n) s)"
      using fits by (intro decides_modify) (simp_all add: charged_at_def)
  qed
qed

lemma charge_owner_costs:
  "unat amount = n \<Longrightarrow> sw.costs limits (schema_charge_owner amount) s True n () s"
  unfolding schema_charge_owner_def by (rule charge_costs)

lemma reject_costs:
  assumes "\<And>k. guard (charged_at limits k s) \<longleftrightarrow> C" and "status \<noteq> SERIALIZED_FILE_SCHEMA_OK"
  shows "sw.costs limits (step_require guard (schema_reject status limit field node space offset)) s C 0 () s"
  by (rule sw.costs_require) (simp_all add: assms rejected_fails)

lemma reject_owner_costs:
  assumes "\<And>k. guard (charged_at limits k s) \<longleftrightarrow> C" and "status \<noteq> SERIALIZED_FILE_SCHEMA_OK"
  shows "sw.costs limits (step_require guard (schema_reject_owner status limit)) s C 0 () s"
  unfolding schema_reject_owner_def by (rule reject_costs) (use assms in auto)

lemma refuse_costs:
  "status \<noteq> SERIALIZED_FILE_SCHEMA_OK \<Longrightarrow>
     sw.costs limits (\<lambda>s. (None, schema_reject status limit field node space offset s)) s False n x t"
  by (rule sw.costs_refuse) (simp add: rejected_fails)

text \<open>Routines of writes that look at neither the limits nor the work.\<close>

definition plain_write :: "(SchemaCompile \<Rightarrow> SchemaCompile) \<Rightarrow> bool" where
  "plain_write w \<longleftrightarrow> (\<forall>limits k s. w (charged_at limits k s) = charged_at limits k (w s))"

lemma write_costs: "plain_write w \<Longrightarrow> w s = t \<Longrightarrow> sw.costs limits (step_modify w) s True 0 () t"
  by (rule sw.costs_modify) (auto simp: plain_write_def)

lemma plain_set_node: "plain_write (schema_set_node i f)"
  by (auto simp: plain_write_def schema_set_node_def charged_at_def)

lemma plain_compose: "plain_write f \<Longrightarrow> plain_write g \<Longrightarrow> plain_write (\<lambda>s. f (g s))"
  by (simp add: plain_write_def)

lemma plain_decode_node: "plain_write (schema_decode_node mem ordinal)"
  by (auto simp: plain_write_def schema_decode_node_def schema_set_node_def charged_at_def Let_def)

lemma plain_link_node: "plain_write (link_node ordinal depth)"
  by (auto simp: plain_write_def link_node_def schema_set_node_def charged_at_def Let_def)

lemma plain_open_level: "plain_write (open_level ordinal depth)"
  by (auto simp: plain_write_def open_level_def charged_at_def Let_def)

end
