(* ===== verification/Hierarchy.thy ===== *)
theory Hierarchy
  imports Main
begin

text \<open>
  Trees given by the levels of their nodes in preorder: which level sequences are trees, and the
  parent, the children, the siblings and the extent of a node, each defined from the sequence.
\<close>

section \<open>Links\<close>

text \<open>The greatest index below \<open>i\<close> with a property.\<close>

fun latest :: "(nat \<Rightarrow> bool) \<Rightarrow> nat \<Rightarrow> nat option" where
  "latest P 0 = None"
| "latest P (Suc i) = (if P i then Some i else latest P i)"

text \<open>One root at level 0, and no node more than one level below the node before it.\<close>

definition preorder_levels :: "nat list \<Rightarrow> nat \<Rightarrow> bool" where
  "preorder_levels ls i \<longleftrightarrow>
     (\<forall>j<i. if j = 0 then ls ! j = 0 else 0 < ls ! j \<and> ls ! j \<le> Suc (ls ! (j - 1)))"

text \<open>The node nearest before \<open>k\<close> on a higher level.\<close>

definition parent_of :: "nat list \<Rightarrow> nat \<Rightarrow> nat option" where
  "parent_of ls k = latest (\<lambda>j. ls ! j < ls ! k) k"

text \<open>The first node behind \<open>k\<close> and before \<open>i\<close> that is not inside the subtree of \<open>k\<close>.\<close>

definition end_of :: "nat list \<Rightarrow> nat \<Rightarrow> nat \<Rightarrow> nat option" where
  "end_of ls i k = find (\<lambda>j. ls ! j \<le> ls ! k) [Suc k..<i]"

definition first_child_of :: "nat list \<Rightarrow> nat \<Rightarrow> nat \<Rightarrow> nat option" where
  "first_child_of ls i k = (if Suc k < i \<and> ls ! k < ls ! Suc k then Some (Suc k) else None)"

definition next_sibling_of :: "nat list \<Rightarrow> nat \<Rightarrow> nat \<Rightarrow> nat option" where
  "next_sibling_of ls i k =
     (case end_of ls i k of None \<Rightarrow> None | Some j \<Rightarrow> if ls ! j = ls ! k then Some j else None)"

definition children_of :: "nat list \<Rightarrow> nat \<Rightarrow> nat \<Rightarrow> nat list" where
  "children_of ls i k = filter (\<lambda>j. parent_of ls j = Some k) [0..<i]"

definition deepest :: "nat list \<Rightarrow> nat \<Rightarrow> nat" where
  "deepest ls i = fold max (take i ls) 0"

section \<open>Open nodes\<close>

lemma latest_Some: "latest P i = Some j \<longleftrightarrow> j < i \<and> P j \<and> (\<forall>m. j < m \<and> m < i \<longrightarrow> \<not> P m)"
  by (induction i) (auto simp: less_Suc_eq)

lemma latest_None: "latest P i = None \<longleftrightarrow> (\<forall>m<i. \<not> P m)"
  by (induction i) (auto simp: less_Suc_eq)

lemma find_append: "find P (xs @ ys) = (case find P xs of None \<Rightarrow> find P ys | Some x \<Rightarrow> Some x)"
  by (induction xs) auto

lemma find_upt:
  "find P [a..<b] = Some j \<longleftrightarrow> a \<le> j \<and> j < b \<and> P j \<and> (\<forall>m. a \<le> m \<and> m < j \<longrightarrow> \<not> P m)"
proof (induction b)
  case (Suc b)
  show ?case
  proof (cases "a \<le> b")
    case True
    then have "find P [a..<Suc b] = (case find P [a..<b] of None \<Rightarrow> if P b then Some b else None | Some i \<Rightarrow> Some i)"
      by (simp add: find_append split: option.split)
    moreover have "find P [a..<b] = None \<longleftrightarrow> (\<forall>m. a \<le> m \<and> m < b \<longrightarrow> \<not> P m)"
      by (auto simp: find_None_iff)
    ultimately show ?thesis using Suc True by (auto split: option.splits if_splits simp: less_Suc_eq)
  qed auto
qed simp

lemma end_of_Some:
  "end_of ls i k = Some j \<longleftrightarrow> k < j \<and> j < i \<and> ls ! j \<le> ls ! k \<and> (\<forall>m. k < m \<and> m < j \<longrightarrow> ls ! k < ls ! m)"
  by (auto simp: end_of_def find_upt Suc_le_eq not_le)

lemma end_of_None: "end_of ls i k = None \<longleftrightarrow> (\<forall>m. k < m \<and> m < i \<longrightarrow> ls ! k < ls ! m)"
  by (auto simp: end_of_def find_None_iff not_le Suc_le_eq)

lemma end_of_Suc:
  "k < i \<Longrightarrow> end_of ls (Suc i) k =
     (case end_of ls i k of Some j \<Rightarrow> Some j | None \<Rightarrow> if ls ! i \<le> ls ! k then Some i else None)"
  by (simp add: end_of_def find_append split: option.split)

lemma end_of_self [simp]: "i \<le> Suc k \<Longrightarrow> end_of ls i k = None"
  by (simp add: end_of_def)

lemma preorder_Suc:
  "preorder_levels ls (Suc i) \<longleftrightarrow>
     preorder_levels ls i \<and> (if i = 0 then ls ! i = 0 else 0 < ls ! i \<and> ls ! i \<le> Suc (ls ! (i - 1)))"
  by (auto simp: preorder_levels_def less_Suc_eq)

text \<open>Levels rise one by one, so every level on the way is met.\<close>

lemma preorder_between:
  assumes "preorder_levels ls i" and "m < i" and "j \<le> m" and "ls ! j \<le> a" and "a \<le> ls ! m"
  shows "\<exists>x. j \<le> x \<and> x \<le> m \<and> ls ! x = a"
  using assms(2-5)
proof (induction m)
  case 0
  then show ?case by auto
next
  case (Suc m)
  show ?case
  proof (cases "j = Suc m \<or> ls ! Suc m = a")
    case True
    then show ?thesis using Suc.prems by auto
  next
    case False
    have "ls ! Suc m \<le> Suc (ls ! m)" using assms(1) Suc.prems(1) by (auto simp: preorder_levels_def split: if_splits)
    then have "a \<le> ls ! m" using False Suc.prems by simp
    with Suc.IH Suc.prems False show ?thesis by (auto intro: le_SucI)
  qed
qed

text \<open>The latest node of a level that is still open is open: nothing behind it left its subtree.\<close>

lemma latest_open:
  assumes "preorder_levels ls i" and "0 < i" and "a \<le> ls ! (i - 1)"
  shows "latest (\<lambda>j. ls ! j = a) i = Some k \<longleftrightarrow> k < i \<and> ls ! k = a \<and> end_of ls i k = None"
proof
  assume "latest (\<lambda>j. ls ! j = a) i = Some k"
  then have k: "k < i" "ls ! k = a" "\<And>m. k < m \<Longrightarrow> m < i \<Longrightarrow> ls ! m \<noteq> a" by (auto simp: latest_Some)
  have "a < ls ! m" if m: "k < m" "m < i" for m
  proof (rule ccontr)
    assume "\<not> a < ls ! m"
    moreover have "m \<le> i - 1" "i - 1 < i" using m assms(2) by arith+
    ultimately obtain x where "m \<le> x" "x \<le> i - 1" "ls ! x = a"
      using preorder_between [OF assms(1), of "i - 1" m a] assms(3) by auto
    moreover from this m assms(2) have "k < x" "x < i" by arith+
    ultimately show False using k(3) [of x] by simp
  qed
  with k show "k < i \<and> ls ! k = a \<and> end_of ls i k = None" by (auto simp: end_of_None)
next
  assume "k < i \<and> ls ! k = a \<and> end_of ls i k = None"
  then show "latest (\<lambda>j. ls ! j = a) i = Some k" by (auto simp: latest_Some end_of_None)
qed

lemma latest_exists:
  assumes "preorder_levels ls i" and "0 < i" and "a \<le> ls ! (i - 1)"
  obtains k where "latest (\<lambda>j. ls ! j = a) i = Some k"
proof -
  have "ls ! 0 = 0" using assms(1,2) by (auto simp: preorder_levels_def)
  then obtain x where "x \<le> i - 1" "ls ! x = a"
    using preorder_between [OF assms(1), of "i - 1" 0 a] assms by auto
  moreover from this assms(2) have "x < i" by arith
  ultimately have "latest (\<lambda>j. ls ! j = a) i \<noteq> None" by (auto simp: latest_None)
  then show ?thesis using that by blast
qed

lemma open_unique:
  "end_of ls i k = None \<Longrightarrow> end_of ls i m = None \<Longrightarrow> k < i \<Longrightarrow> m < i \<Longrightarrow> ls ! k = ls ! m \<Longrightarrow> k = m"
  by (cases k m rule: linorder_cases) (auto simp: end_of_None)

lemma open_level: "preorder_levels ls i \<Longrightarrow> end_of ls i k = None \<Longrightarrow> k < i \<Longrightarrow> ls ! k \<le> ls ! (i - 1)"
  by (cases "k = i - 1") (auto simp: end_of_None less_imp_le)

section \<open>One more node\<close>

text \<open>What linking node \<open>i\<close> below the root changes.\<close>

lemma parent_latest:
  assumes "preorder_levels ls (Suc i)" and "0 < i"
  shows "parent_of ls i = latest (\<lambda>j. ls ! j = ls ! i - 1) i"
proof -
  have pre: "preorder_levels ls i" and l: "0 < ls ! i" "ls ! i - 1 \<le> ls ! (i - 1)"
    using assms by (auto simp: preorder_Suc)
  obtain k where k: "latest (\<lambda>j. ls ! j = ls ! i - 1) i = Some k"
    by (rule latest_exists [OF pre assms(2) l(2)])
  then have "k < i" "ls ! k = ls ! i - 1" "end_of ls i k = None"
    using latest_open [OF pre assms(2) l(2)] by auto
  then have "latest (\<lambda>j. ls ! j < ls ! i) i = Some k"
    using l(1) by (auto simp: latest_Some end_of_None)
  with k show ?thesis by (simp add: parent_of_def)
qed

lemma first_child_Suc:
  "k < i \<Longrightarrow> first_child_of ls (Suc i) k =
     (if Suc k = i \<and> ls ! k < ls ! i then Some i else first_child_of ls i k)"
  by (cases "Suc k = i") (auto simp: first_child_of_def)

lemma next_sibling_Suc:
  "k < i \<Longrightarrow> next_sibling_of ls (Suc i) k =
     (if end_of ls i k = None \<and> ls ! k = ls ! i then Some i else next_sibling_of ls i k)"
  by (auto simp: next_sibling_of_def end_of_Suc split: option.split)

lemma children_Suc:
  "children_of ls (Suc i) k = children_of ls i k @ (if parent_of ls i = Some k then [i] else [])"
  by (simp add: children_of_def)

text \<open>The last child so far of an open node.\<close>

definition last_child_of :: "nat list \<Rightarrow> nat \<Rightarrow> nat \<Rightarrow> nat option" where
  "last_child_of ls i k = latest (\<lambda>j. k < j \<and> ls ! j = Suc (ls ! k)) i"

lemma last_child_first:
  assumes "preorder_levels ls (Suc i)" and "k < i" and "end_of ls i k = None" and "ls ! i = Suc (ls ! k)"
  shows "last_child_of ls i k = None \<longleftrightarrow> Suc k = i"
proof
  assume none: "last_child_of ls i k = None"
  show "Suc k = i"
  proof (rule ccontr)
    assume "Suc k \<noteq> i"
    then have "Suc k < i" using assms(2) by simp
    have "ls ! Suc k \<le> Suc (ls ! k)"
      using assms(1) [unfolded preorder_levels_def, rule_format, of "Suc k"] \<open>Suc k < i\<close> by simp
    moreover have "ls ! k < ls ! Suc k" using assms(3) \<open>Suc k < i\<close> by (auto simp: end_of_None)
    moreover note \<open>Suc k < i\<close>
    ultimately have "ls ! Suc k \<le> Suc (ls ! k)" "ls ! k < ls ! Suc k" by simp_all
    then show False using none \<open>Suc k < i\<close> by (auto simp: last_child_of_def latest_None)
  qed
next
  assume "Suc k = i"
  then show "last_child_of ls i k = None" by (auto simp: last_child_of_def latest_None)
qed

lemma last_child_open:
  assumes "k < i" and "end_of ls i k = None"
  shows "last_child_of ls i k = Some c \<longleftrightarrow>
    k < c \<and> c < i \<and> ls ! c = Suc (ls ! k) \<and> end_of ls i c = None"
proof
  assume "last_child_of ls i k = Some c"
  then have c: "c < i" "k < c" "ls ! c = Suc (ls ! k)" "\<And>m. c < m \<Longrightarrow> m < i \<Longrightarrow> \<not> (k < m \<and> ls ! m = Suc (ls ! k))"
    by (auto simp: last_child_of_def latest_Some)
  have "ls ! c < ls ! m" if "c < m" "m < i" for m
    using c(4) [OF that] c(2,3) that assms(2) by (auto simp: end_of_None intro: Suc_lessI)
  with c show "k < c \<and> c < i \<and> ls ! c = Suc (ls ! k) \<and> end_of ls i c = None" by (auto simp: end_of_None)
next
  assume "k < c \<and> c < i \<and> ls ! c = Suc (ls ! k) \<and> end_of ls i c = None"
  then show "last_child_of ls i k = Some c"
    by (auto simp: last_child_of_def latest_Some end_of_None)
qed

section \<open>The links of a finished sequence\<close>

lemma parent_of_Some:
  "parent_of ls j = Some k \<longleftrightarrow> k < j \<and> ls ! k < ls ! j \<and> (\<forall>m. k < m \<and> m < j \<longrightarrow> ls ! j \<le> ls ! m)"
  by (auto simp: parent_of_def latest_Some not_less)

lemma preorder_mono: "preorder_levels ls n \<Longrightarrow> m \<le> n \<Longrightarrow> preorder_levels ls m"
  unfolding preorder_levels_def by (meson less_le_trans)

lemma parent_exists:
  assumes "preorder_levels ls n" and "0 < j" and "j < n"
  obtains k where "parent_of ls j = Some k" "ls ! j = Suc (ls ! k)"
proof -
  have pre: "preorder_levels ls (Suc j)" using preorder_mono [OF assms(1)] assms(3) by simp
  then have below: "preorder_levels ls j" and l: "0 < ls ! j" "ls ! j - 1 \<le> ls ! (j - 1)"
    using assms(2) by (auto simp: preorder_Suc)
  obtain k where k: "latest (\<lambda>i. ls ! i = ls ! j - 1) j = Some k"
    by (rule latest_exists [OF below assms(2) l(2)])
  then have "ls ! j = Suc (ls ! k)" using l(1) by (simp add: latest_Some)
  with k that show ?thesis using parent_latest [OF pre assms(2)] by simp
qed

lemma parent_root: "parent_of ls 0 = None"
  by (simp add: parent_of_def)

lemma first_child_find: "first_child_of ls n k = find (\<lambda>j. parent_of ls j = Some k) [0..<n]"
proof (cases "Suc k < n \<and> ls ! k < ls ! Suc k")
  case True
  then have "parent_of ls (Suc k) = Some k" by (auto simp: parent_of_Some)
  then have "find (\<lambda>j. parent_of ls j = Some k) [0..<n] = Some (Suc k)"
    using True by (auto simp: find_upt parent_of_Some)
  with True show ?thesis by (simp add: first_child_of_def)
next
  case False
  have "parent_of ls j \<noteq> Some k" if "j < n" for j
  proof
    assume "parent_of ls j = Some k"
    then have j: "k < j" "ls ! k < ls ! j" "\<And>m. k < m \<Longrightarrow> m < j \<Longrightarrow> ls ! j \<le> ls ! m" by (auto simp: parent_of_Some)
    have "ls ! k < ls ! Suc k" using j by (cases "Suc k = j") (auto intro: less_le_trans)
    then show False using False j(1) that by simp
  qed
  then have "find (\<lambda>j. parent_of ls j = Some k) [0..<n] = None" by (auto simp: find_None_iff)
  then show ?thesis unfolding first_child_of_def if_not_P [OF False] by simp
qed

text \<open>Nodes with one parent stand on one level, and nothing between two of them is on a higher one.\<close>

lemma sibling_iff:
  assumes "preorder_levels ls n" and "0 < k" and "k < j" and "j < n"
  shows "parent_of ls j = parent_of ls k \<longleftrightarrow> ls ! j = ls ! k \<and> (\<forall>m. k < m \<and> m < j \<longrightarrow> ls ! k \<le> ls ! m)"
proof
  assume same: "parent_of ls j = parent_of ls k"
  obtain p where p: "parent_of ls j = Some p" "ls ! j = Suc (ls ! p)"
    using assms by (meson parent_exists less_trans)
  obtain q where q: "parent_of ls k = Some q" "ls ! k = Suc (ls ! q)"
    using assms by (meson parent_exists less_trans)
  have "p = q" using p(1) q(1) same by simp
  moreover have "p < k" "\<forall>m. p < m \<and> m < j \<longrightarrow> ls ! j \<le> ls ! m"
    using p(1) q(1) \<open>p = q\<close> by (simp_all add: parent_of_Some)
  ultimately show "ls ! j = ls ! k \<and> (\<forall>m. k < m \<and> m < j \<longrightarrow> ls ! k \<le> ls ! m)"
    using p(2) q(2) by auto
next
  assume j: "ls ! j = ls ! k \<and> (\<forall>m. k < m \<and> m < j \<longrightarrow> ls ! k \<le> ls ! m)"
  obtain q where q: "parent_of ls k = Some q"
    using assms by (meson parent_exists less_trans)
  have "ls ! j \<le> ls ! m" if "q < m" "m < j" for m
    using q j that by (cases m k rule: linorder_cases) (auto simp: parent_of_Some)
  with q j assms(3) have "parent_of ls j = Some q" by (auto simp: parent_of_Some)
  with q show "parent_of ls j = parent_of ls k" by simp
qed

lemma next_sibling_find:
  assumes pre: "preorder_levels ls n" and k: "k < n"
  shows "next_sibling_of ls n k = find (\<lambda>j. parent_of ls j = parent_of ls k) [Suc k..<n]"
proof (cases "k = 0")
  case True
  have level: "ls ! 0 = 0" "\<And>m. 0 < m \<Longrightarrow> m < n \<Longrightarrow> 0 < ls ! m"
    using pre k True by (auto simp: preorder_levels_def)
  have "end_of ls n 0 = None" using level by (auto simp: end_of_None)
  moreover have "parent_of ls j \<noteq> None" if "0 < j" "j < n" for j
    using parent_exists [OF pre that] by auto
  then have "find (\<lambda>j. parent_of ls j = parent_of ls 0) [Suc 0..<n] = None"
    by (auto simp: find_None_iff parent_root)
  ultimately show ?thesis using True by (simp add: next_sibling_of_def)
next
  case False
  then have k0: "0 < k" by simp
  note sib = sibling_iff [OF pre k0]
  show ?thesis
  proof (cases "next_sibling_of ls n k")
    case (Some j)
    then have e: "end_of ls n k = Some j" "ls ! j = ls ! k"
      by (auto simp: next_sibling_of_def split: option.splits if_splits)
    then have j: "k < j" "j < n" "\<And>m. k < m \<Longrightarrow> m < j \<Longrightarrow> ls ! k < ls ! m" by (auto simp: end_of_Some)
    have "parent_of ls j = parent_of ls k" using sib [OF j(1,2)] e(2) j(3) by (auto intro: less_imp_le)
    moreover have "parent_of ls m \<noteq> parent_of ls k" if "Suc k \<le> m" "m < j" for m
      using sib [of m] j(3) [of m] j(2) that by auto
    ultimately have "find (\<lambda>j. parent_of ls j = parent_of ls k) [Suc k..<n] = Some j"
      using j by (auto simp: find_upt)
    with Some show ?thesis by simp
  next
    case None
    have "parent_of ls j \<noteq> parent_of ls k" if j: "k < j" "j < n" for j
    proof
      assume "parent_of ls j = parent_of ls k"
      then have same: "ls ! j = ls ! k" "\<And>m. k < m \<Longrightarrow> m < j \<Longrightarrow> ls ! k \<le> ls ! m" using sib [OF j] by auto
      have "end_of ls n k \<noteq> None" using same(1) j by (auto simp: end_of_None)
      then obtain i where i: "end_of ls n k = Some i" by blast
      then have "i \<le> j" using same(1) j by (auto simp: end_of_Some not_less intro: leI)
      then have "ls ! i = ls ! k" using i same by (cases "i = j") (auto simp: end_of_Some intro: antisym)
      then show False using None i by (simp add: next_sibling_of_def)
    qed
    then have "find (\<lambda>j. parent_of ls j = parent_of ls k) [Suc k..<n] = None" by (auto simp: find_None_iff)
    with None show ?thesis by simp
  qed
qed

text \<open>The subtree of a node: the nodes that come back to it by going to the parent.\<close>

inductive under :: "(nat \<Rightarrow> nat option) \<Rightarrow> nat \<Rightarrow> nat \<Rightarrow> bool" for parent k where
  child: "parent j = Some k \<Longrightarrow> under parent k j"
| deeper: "under parent k m \<Longrightarrow> parent j = Some m \<Longrightarrow> under parent k j"

lemma under_inside: "under (parent_of ls) k j \<Longrightarrow> k < j \<and> (\<forall>m. k < m \<and> m \<le> j \<longrightarrow> ls ! k < ls ! m)"
proof (induction rule: under.induct)
  case (child j)
  then show ?case by (auto simp: parent_of_Some le_less intro: less_le_trans)
next
  case (deeper m j)
  have "ls ! k < ls ! i" if "k < i" "i \<le> j" for i
  proof (cases "i \<le> m")
    case False
    then have "ls ! m < ls ! i" using deeper.hyps(2) that(2)
      by (cases "i = j") (auto simp: parent_of_Some intro: less_le_trans)
    moreover have "ls ! k < ls ! m" using deeper.IH by blast
    ultimately show ?thesis by simp
  qed (use deeper.IH that in blast)
  with deeper show ?case by (auto simp: parent_of_Some)
qed

lemma inside_under:
  assumes "preorder_levels ls n"
  shows "k < j \<Longrightarrow> j < n \<Longrightarrow> (\<forall>m. k < m \<and> m \<le> j \<longrightarrow> ls ! k < ls ! m) \<Longrightarrow> under (parent_of ls) k j"
proof (induction j rule: less_induct)
  case (less j)
  obtain p where p: "parent_of ls j = Some p" using parent_exists [OF assms, of j] less.prems by auto
  have "ls ! k < ls ! j" using less.prems by blast
  then have "p < j" "\<not> p < k" using p less.prems(1) by (auto simp: parent_of_Some not_le [symmetric])
  show ?case
  proof (cases "p = k")
    case True
    with p show ?thesis by (auto intro: child)
  next
    case False
    then have "k < p" using \<open>\<not> p < k\<close> by simp
    then have "under (parent_of ls) k p" using less.IH [OF \<open>p < j\<close>] less.prems \<open>p < j\<close> by auto
    with p show ?thesis by (auto intro: deeper)
  qed
qed

lemma subtree_interval:
  assumes "preorder_levels ls n" and "k < n"
  defines "stop \<equiv> (case end_of ls n k of None \<Rightarrow> n | Some j \<Rightarrow> j)"
  shows "k < stop \<and> stop \<le> n \<and> (\<forall>j<n. k < j \<and> j < stop \<longleftrightarrow> under (parent_of ls) k j)"
proof (intro conjI allI impI)
  show "k < stop" "stop \<le> n" using assms(2) by (auto simp: stop_def end_of_Some split: option.split)
  fix j
  assume j: "j < n"
  have "k < j \<and> j < stop \<longleftrightarrow> k < j \<and> (\<forall>m. k < m \<and> m \<le> j \<longrightarrow> ls ! k < ls ! m)"
  proof (cases "end_of ls n k")
    case None
    then have "\<forall>m. k < m \<and> m < n \<longrightarrow> ls ! k < ls ! m" by (simp add: end_of_None)
    then show ?thesis using j None by (auto simp: stop_def)
  next
    case (Some i)
    then have i: "ls ! i \<le> ls ! k" "k < i" "\<forall>m. k < m \<and> m < i \<longrightarrow> ls ! k < ls ! m" by (auto simp: end_of_Some)
    have "j < i" if "k < j" "\<forall>m. k < m \<and> m \<le> j \<longrightarrow> ls ! k < ls ! m"
      using that i(1,2) by (meson not_less)
    then show ?thesis using i Some by (auto simp: stop_def)
  qed
  then show "k < j \<and> j < stop \<longleftrightarrow> under (parent_of ls) k j"
    using under_inside [of ls k j] inside_under [OF assms(1) _ j] by blast
qed

end
