(* ===== verification/SchemaNodes.thy ===== *)
theory SchemaNodes
  imports SchemaWork Hierarchy
begin

text \<open>
  Compiling the nodes: the loop over the records succeeds exactly on the level sequences that are
  trees within the depth cap, and leaves every node linked as the sequence says.
\<close>

section \<open>What a record says\<close>

definition node_record :: "memory \<Rightarrow> SerializedFileSchemaView \<Rightarrow> nat \<Rightarrow> SerializedFileSchemaNode" where
  "node_record mem view k =
     (let source = nodes_source (schema_view_tree view);
          bytes = span_data source + of_nat k * 32;
          endian = endian_selector (header (schema_view_prefix view))
      in zero_schema_node
           \<lparr>schema_node_ordinal := of_nat k,
            schema_node_source := \<lparr>span_data = bytes, span_offset = span_offset source + of_nat k * 32, span_size = 32\<rparr>,
            schema_node_version := serialized_metadata_decode_u16 mem bytes endian,
            schema_node_level := mem (bytes + 2), schema_node_type_flags := mem (bytes + 3),
            schema_node_type_offset_bits := serialized_metadata_decode_u32 mem (bytes + 4) endian,
            schema_node_name_offset_bits := serialized_metadata_decode_u32 mem (bytes + 8) endian,
            schema_node_byte_size_bits := serialized_metadata_decode_u32 mem (bytes + 12) endian,
            schema_node_index_bits := serialized_metadata_decode_u32 mem (bytes + 16) endian,
            schema_node_meta_flags := serialized_metadata_decode_u32 mem (bytes + 20) endian,
            schema_node_opaque_tail := map (\<lambda>i. mem (bytes + 24 + of_nat i)) [0..<8],
            schema_node_parent := SIZE_MAX, schema_node_first_child := SIZE_MAX,
            schema_node_next_sibling := SIZE_MAX\<rparr>)"

text \<open>The two name requests of a node, type name first.\<close>

definition name_request :: "memory \<Rightarrow> SerializedFileSchemaView \<Rightarrow> nat \<Rightarrow> NameRequest" where
  "name_request mem view j =
     \<lparr>encoded_offset = (if even j then schema_node_type_offset_bits (node_record mem view (j div 2))
        else schema_node_name_offset_bits (node_record mem view (j div 2))), slot = of_nat j\<rparr>"

definition node_levels :: "memory \<Rightarrow> SerializedFileSchemaView \<Rightarrow> nat \<Rightarrow> nat list" where
  "node_levels mem view n = map (\<lambda>k. unat (schema_node_level (node_record mem view k))) [0..<n]"

definition ordinal_word :: "nat option \<Rightarrow> u64" where
  "ordinal_word k = (case k of None \<Rightarrow> SIZE_MAX | Some j \<Rightarrow> of_nat j)"

text \<open>A node with the links it has once the first \<open>i\<close> nodes are known; \<open>stop\<close> ends open subtrees.\<close>

definition linked_node ::
    "nat list \<Rightarrow> nat \<Rightarrow> u64 \<Rightarrow> nat \<Rightarrow> SerializedFileSchemaNode \<Rightarrow> SerializedFileSchemaNode" where
  "linked_node ls i stop k node = node
     \<lparr>schema_node_parent := ordinal_word (parent_of ls k),
      schema_node_first_child := ordinal_word (first_child_of ls i k),
      schema_node_next_sibling := ordinal_word (next_sibling_of ls i k),
      schema_node_child_count := of_nat (length (children_of ls i k)),
      schema_node_subtree_end := (case end_of ls i k of None \<Rightarrow> stop | Some j \<Rightarrow> of_nat j)\<rparr>"

lemma node_record_depth [simp]:
  "node_record mem (view\<lparr>schema_view_maximum_depth := d\<rparr>) k = node_record mem view k"
  by (simp add: node_record_def)

lemma name_request_depth [simp]:
  "name_request mem (view\<lparr>schema_view_maximum_depth := d\<rparr>) k = name_request mem view k"
  by (simp add: name_request_def)

lemma node_levels_length [simp]: "length (node_levels mem view n) = n"
  by (simp add: node_levels_def)

lemma node_levels_nth:
  "k < n \<Longrightarrow> node_levels mem view n ! k = unat (schema_node_level (node_record mem view k))"
  by (simp add: node_levels_def)

section \<open>The arrays of the loop\<close>

fun ancestors_after :: "nat list \<Rightarrow> nat \<Rightarrow> u64 list" where
  "ancestors_after ls 0 = replicate HIERARCHY_LEVELS 0"
| "ancestors_after ls (Suc i) = (ancestors_after ls i)[ls ! i := of_nat i]"

fun last_children_after :: "nat list \<Rightarrow> nat \<Rightarrow> u64 list" where
  "last_children_after ls 0 = replicate HIERARCHY_LEVELS 0"
| "last_children_after ls (Suc i) =
     (if ls ! i \<noteq> 0 then (last_children_after ls i)[ls ! i - 1 := of_nat i]
      else last_children_after ls i)[ls ! i := SIZE_MAX]"

lemma arrays_length [simp]:
  "length (ancestors_after ls i) = HIERARCHY_LEVELS" "length (last_children_after ls i) = HIERARCHY_LEVELS"
  by (induction i) simp_all

lemma nth_update: "k < length xs \<Longrightarrow> xs[j := v] ! k = (if k = j then v else xs ! k)"
  by (cases "j = k") simp_all

lemma ancestors_latest:
  "a < HIERARCHY_LEVELS \<Longrightarrow> latest (\<lambda>j. ls ! j = a) i = Some k \<Longrightarrow> ancestors_after ls i ! a = of_nat k"
  by (induction i) (auto simp: nth_update split: if_splits)

lemma last_children_latest:
  assumes "preorder_levels ls i" and "a < HIERARCHY_LEVELS" and "0 < i" and "a \<le> ls ! (i - 1)"
    and "latest (\<lambda>j. ls ! j = a) i = Some k"
  shows "last_children_after ls i ! a = ordinal_word (last_child_of ls i k)"
  using assms
proof (induction i)
  case 0
  then show ?case by simp
next
  case (Suc i)
  have pre: "preorder_levels ls i" using Suc.prems(1) by (simp add: preorder_Suc)
  have root: "i = 0 \<Longrightarrow> ls ! i = 0" and below: "0 < i \<Longrightarrow> 0 < ls ! i \<and> ls ! i \<le> Suc (ls ! (i - 1))"
    using Suc.prems(1) by (auto simp: preorder_Suc split: if_splits)
  have le: "a \<le> ls ! i" using Suc.prems(4) by simp
  show ?case
  proof (cases "a = ls ! i")
    case True
    then have "k = i" using Suc.prems(5) by simp
    then have "last_child_of ls (Suc i) k = None" by (auto simp: last_child_of_def latest_None)
    with True Suc.prems(2) show ?thesis by (simp add: nth_update ordinal_word_def)
  next
    case False
    then have less: "a < ls ! i" and i: "0 < i" using le root by (cases i; auto)+
    have k: "latest (\<lambda>j. ls ! j = a) i = Some k" using Suc.prems(5) False by simp
    have "k < i" "ls ! k = a" using k by (auto simp: latest_Some)
    show ?thesis
    proof (cases "a = ls ! i - 1")
      case True
      then have "last_child_of ls (Suc i) k = Some i" using less \<open>k < i\<close> \<open>ls ! k = a\<close>
        by (simp add: last_child_of_def)
      moreover have "ls ! i \<noteq> 0" using less by simp
      ultimately show ?thesis using True False Suc.prems(2) by (simp add: nth_update ordinal_word_def)
    next
      case other: False
      then have "ls ! i \<noteq> Suc a" using less by linarith
      from other have "a \<le> ls ! (i - 1)" using less below [OF i] by linarith
      from Suc.IH [OF pre Suc.prems(2) i this k] other False less
      have "last_children_after ls (Suc i) ! a = ordinal_word (last_child_of ls i k)"
        using Suc.prems(2) by (simp add: nth_update)
      moreover have "last_child_of ls (Suc i) k = last_child_of ls i k"
        using \<open>ls ! i \<noteq> Suc a\<close> \<open>ls ! k = a\<close> by (simp add: last_child_of_def)
      ultimately show ?thesis by simp
    qed
  qed
qed

section \<open>Closing subtrees\<close>

fun close_nodes :: "u64 list \<Rightarrow> u64 \<Rightarrow> nat \<Rightarrow> nat \<Rightarrow> SerializedFileSchemaNode list \<Rightarrow> SerializedFileSchemaNode list" where
  "close_nodes ancestors stop depth 0 nodes = nodes"
| "close_nodes ancestors stop depth (Suc n) nodes =
     (let k = unat (ancestors ! (depth + n)) in
      close_nodes ancestors stop depth n (nodes[k := (nodes ! k)\<lparr>schema_node_subtree_end := stop\<rparr>]))"

lemma close_nodes_length [simp]: "length (close_nodes ancestors stop depth n nodes) = length nodes"
  by (induction n arbitrary: nodes) (simp_all add: Let_def)

lemma close_nodes_nth:
  "k < length nodes \<Longrightarrow> close_nodes ancestors stop depth n nodes ! k =
     (if \<exists>a. depth \<le> a \<and> a < depth + n \<and> unat (ancestors ! a) = k
      then (nodes ! k)\<lparr>schema_node_subtree_end := stop\<rparr> else nodes ! k)"
proof (induction n arbitrary: nodes)
  case 0
  have "\<not> (\<exists>a. depth \<le> a \<and> a < depth + 0 \<and> unat (ancestors ! a) = k)" by auto
  then show ?case by (simp only: if_False close_nodes.simps)
next
  case (Suc n)
  have split: "(\<exists>a. depth \<le> a \<and> a < depth + Suc n \<and> unat (ancestors ! a) = k) \<longleftrightarrow>
      unat (ancestors ! (depth + n)) = k \<or> (\<exists>a. depth \<le> a \<and> a < depth + n \<and> unat (ancestors ! a) = k)"
    by (metis add_Suc_right le_add1 less_Suc_eq)
  show ?case
    unfolding split using Suc by (auto simp: Let_def nth_update)
qed

lemma close_levels_costs:
  "sw.costs limits (close_levels stop n) (s\<lparr>local_active_count := depth + n\<rparr>) True n ()
     (s\<lparr>local_active_count := depth, compile_nodes := close_nodes (local_ancestors s) stop depth n (compile_nodes s)\<rparr>)"
proof (induction n arbitrary: s)
  case 0
  show ?case unfolding close_levels.simps by (rule sw.costs_weaken [OF sw.costs_return]) simp_all
next
  case (Suc n)
  define k where "k = unat (local_ancestors s ! (depth + n))"
  let ?s = "s\<lparr>local_active_count := depth + n\<rparr>"
  let ?t = "schema_set_node k (\<lambda>node. node\<lparr>schema_node_subtree_end := stop\<rparr>) s"
  have after: "schema_set_node k (\<lambda>node. node\<lparr>schema_node_subtree_end := stop\<rparr>) ?s = ?t\<lparr>local_active_count := depth + n\<rparr>"
    by (simp add: schema_set_node_def)
  have lower: "sw.costs limits (step_modify (\<lambda>c. c\<lparr>local_active_count := local_active_count c - 1\<rparr>))
      (s\<lparr>local_active_count := depth + Suc n\<rparr>) True 0 () ?s"
    by (rule sw.costs_modify) (simp add: charged_at_def)
  have close: "sw.costs limits (step_with (\<lambda>c. local_ancestors c ! local_active_count c) (\<lambda>ordinal. close_subtree ordinal stop))
      ?s (True \<and> True) (1 + 0) () (?t\<lparr>local_active_count := depth + n\<rparr>)"
    unfolding close_subtree_def
    by (rule sw.costs_with, simp, rule sw.costs_with, simp, rule sw.costs_then, rule charge_costs, simp,
        rule write_costs, rule plain_set_node, simp add: k_def [symmetric] after)
  have rest: "sw.costs limits (close_levels stop n) (?t\<lparr>local_active_count := depth + n\<rparr>) True n ()
      (?t\<lparr>local_active_count := depth, compile_nodes := close_nodes (local_ancestors ?t) stop depth n (compile_nodes ?t)\<rparr>)"
    by (rule Suc.IH)
  have "sw.costs limits (close_levels stop (Suc n)) (s\<lparr>local_active_count := depth + Suc n\<rparr>)
      (True \<and> (True \<and> True) \<and> True) (0 + ((1 + 0) + n)) ()
      (?t\<lparr>local_active_count := depth, compile_nodes := close_nodes (local_ancestors ?t) stop depth n (compile_nodes ?t)\<rparr>)"
    unfolding close_levels.simps by (rule sw.costs_then [OF lower], rule sw.costs_then [OF close], rule rest)
  then show ?case
    by (rule sw.costs_weaken) (simp_all add: schema_set_node_def k_def [symmetric] Let_def)
qed

lemma close_above_costs:
  assumes "local_active_count s = depth + n"
  shows "sw.costs limits (close_above depth stop) s True n ()
     (s\<lparr>local_active_count := depth, compile_nodes := close_nodes (local_ancestors s) stop depth n (compile_nodes s)\<rparr>)"
proof -
  have same: "s\<lparr>local_active_count := depth + n\<rparr> = s" using assms by (cases s) simp
  have "sw.costs limits (close_levels stop (local_active_count s - depth)) s True n ()
     (s\<lparr>local_active_count := depth, compile_nodes := close_nodes (local_ancestors s) stop depth n (compile_nodes s)\<rparr>)"
    using close_levels_costs [where limits = limits and stop = stop and n = n and s = s and depth = depth, unfolded same]
    by (simp add: assms)
  then show ?thesis
    unfolding close_above_def by (rule sw.costs_with [rotated]) simp
qed

end
