(* ===== verification/SchemaRows.thy ===== *)
theory SchemaRows
  imports SchemaNodes
begin

text \<open>
  The loop over the node records: what one row does, and the hierarchy that all of them leave.
\<close>

section \<open>One row\<close>

definition nodes_until :: "memory \<Rightarrow> SerializedFileSchemaView \<Rightarrow> nat \<Rightarrow> nat \<Rightarrow> SerializedFileSchemaNode list" where
  "nodes_until mem view n i = map (\<lambda>k. if k < i
     then linked_node (node_levels mem view n) i 0 k (node_record mem view k) else zero_schema_node) [0..<n]"

definition requests_until :: "memory \<Rightarrow> SerializedFileSchemaView \<Rightarrow> nat \<Rightarrow> nat \<Rightarrow> NameRequest list" where
  "requests_until mem view n i =
     map (\<lambda>j. if j < 2 * i then name_request mem view j else zero_name_request) [0..<2 * n]"

definition hierarchy_state :: "memory \<Rightarrow> SchemaCompile \<Rightarrow> nat \<Rightarrow> nat \<Rightarrow> SchemaCompile" where
  "hierarchy_state mem s n i =
     (let view = compile_view s; ls = node_levels mem view n in s
       \<lparr>compile_view := view\<lparr>schema_view_maximum_depth := of_nat (deepest ls i)\<rparr>,
        compile_nodes := nodes_until mem view n i, compile_requests := requests_until mem view n i,
        local_ancestors := ancestors_after ls i, local_last_child := last_children_after ls i,
        local_active_count := (if i = 0 then 0 else Suc (ls ! (i - 1)))\<rparr>)"

text \<open>What the loop asks of row \<open>i\<close>.\<close>

definition row_level_ok :: "nat list \<Rightarrow> nat \<Rightarrow> bool" where
  "row_level_ok ls i \<longleftrightarrow> (if i = 0 then ls ! i = 0 else 0 < ls ! i \<and> ls ! i \<le> Suc (ls ! (i - 1)))"

lemma preorder_row: "preorder_levels ls (Suc i) \<longleftrightarrow> preorder_levels ls i \<and> row_level_ok ls i"
  by (simp add: preorder_Suc row_level_ok_def)

lemma set_node_nth:
  "k < length (compile_nodes s) \<Longrightarrow> compile_nodes (schema_set_node j f s) ! k =
     (if k = j then f (compile_nodes s ! k) else compile_nodes s ! k)"
  by (auto simp: schema_set_node_def nth_update)

lemma set_node_fields [simp]:
  "length (compile_nodes (schema_set_node j f s)) = length (compile_nodes s)"
  "compile_view (schema_set_node j f s) = compile_view s"
  "compile_requests (schema_set_node j f s) = compile_requests s"
  "local_ancestors (schema_set_node j f s) = local_ancestors s"
  "local_last_child (schema_set_node j f s) = local_last_child s"
  "local_active_count (schema_set_node j f s) = local_active_count s"
  by (simp_all add: schema_set_node_def)

lemma link_node_nth:
  assumes "k < length (compile_nodes s)" and "p = local_ancestors s ! (l - 1)" and "c = local_last_child s ! (l - 1)"
  shows "compile_nodes (link_node i l s) ! k =
     (let node = compile_nodes s ! k;
          node = (if k = i then node\<lparr>schema_node_parent := p\<rparr> else node);
          node = (if c = SIZE_MAX \<and> k = unat p then node\<lparr>schema_node_first_child := of_nat i\<rparr> else node);
          node = (if c \<noteq> SIZE_MAX \<and> k = unat c then node\<lparr>schema_node_next_sibling := of_nat i\<rparr> else node)
      in if k = unat p then node\<lparr>schema_node_child_count := schema_node_child_count node + 1\<rparr> else node)"
  using assms by (simp add: link_node_def Let_def set_node_nth)

lemma link_node_fields:
  "compile_view (link_node i l s) = compile_view s"
  "compile_requests (link_node i l s) = compile_requests s"
  "local_ancestors (link_node i l s) = local_ancestors s"
  "local_last_child (link_node i l s) = (local_last_child s)[l - 1 := of_nat i]"
  "length (compile_nodes (link_node i l s)) = length (compile_nodes s)"
  by (simp_all add: link_node_def Let_def)

lemma small_ordinal: "k < n \<Longrightarrow> n \<le> 2 ^ 32 \<Longrightarrow> unat (of_nat k :: u64) = k \<and> (of_nat k :: u64) \<noteq> SIZE_MAX"
proof -
  assume "k < n" "n \<le> 2 ^ 32"
  then have "unat (of_nat k :: u64) = k" by (simp add: unat_of_nat take_bit_nat_eq_self)
  moreover from this have "(of_nat k :: u64) \<noteq> SIZE_MAX" using \<open>k < n\<close> \<open>n \<le> 2 ^ 32\<close> by auto
  ultimately show ?thesis by simp
qed

text \<open>The levels of the ancestors array that are in use hold the open nodes.\<close>

lemma open_ancestors:
  assumes before: "preorder_levels ls i" and i: "0 < i" "i \<le> 2 ^ 32" and small: "ls ! (i - 1) < HIERARCHY_LEVELS"
    and k: "k < i"
  shows "(\<exists>a. b \<le> a \<and> a < Suc (ls ! (i - 1)) \<and> unat (ancestors_after ls i ! a) = k) \<longleftrightarrow>
    end_of ls i k = None \<and> b \<le> ls ! k"
proof
  have word: "unat (of_nat m :: u64) = m" if "m < i" for m using small_ordinal [OF that i(2)] by simp
  {
    assume "\<exists>a. b \<le> a \<and> a < Suc (ls ! (i - 1)) \<and> unat (ancestors_after ls i ! a) = k"
    then obtain a where a: "b \<le> a" "a \<le> ls ! (i - 1)" "unat (ancestors_after ls i ! a) = k" by (auto simp: less_Suc_eq_le)
    obtain m where m: "latest (\<lambda>j. ls ! j = a) i = Some m" by (rule latest_exists [OF before i(1) a(2)])
    then have "m < i" "ls ! m = a" "end_of ls i m = None" using latest_open [OF before i(1) a(2)] by auto
    moreover have "ancestors_after ls i ! a = of_nat m" using ancestors_latest [OF _ m] a(2) small by simp
    ultimately show "end_of ls i k = None \<and> b \<le> ls ! k" using a word by auto
  next
    assume k': "end_of ls i k = None \<and> b \<le> ls ! k"
    then have top: "ls ! k \<le> ls ! (i - 1)" using open_level [OF before _ k] by blast
    then have "latest (\<lambda>j. ls ! j = ls ! k) i = Some k" using latest_open [OF before i(1) top, of k] k k' by simp
    then have "ancestors_after ls i ! (ls ! k) = of_nat k" using ancestors_latest top small by simp
    then show "\<exists>a. b \<le> a \<and> a < Suc (ls ! (i - 1)) \<and> unat (ancestors_after ls i ! a) = k"
      using k' top word [OF k] by (intro exI [of _ "ls ! k"]) simp
  }
qed

text \<open>Before and after a node below the root, seen from the nodes in front of it.\<close>

lemma row_effect:
  assumes pre: "preorder_levels ls (Suc i)" and i: "0 < i" "i < n" and n: "n \<le> 2 ^ 32" and small: "ls ! i < HIERARCHY_LEVELS" "ls ! (i - 1) < HIERARCHY_LEVELS"
    and A: "A = ancestors_after ls i" and L: "L = last_children_after ls i"
  obtains p where "parent_of ls i = Some p" "p < i" "A ! (ls ! i - 1) = of_nat p" "ls ! p = ls ! i - 1" "end_of ls i p = None"
    "L ! (ls ! i - 1) = ordinal_word (last_child_of ls i p)"
    "\<And>k. k < i \<Longrightarrow> (\<exists>a. ls ! i \<le> a \<and> a < Suc (ls ! (i - 1)) \<and> unat (A ! a) = k) \<longleftrightarrow> end_of ls i k = None \<and> ls ! i \<le> ls ! k"
    "\<And>k. k < i \<Longrightarrow> Suc k = i \<and> ls ! k < ls ! i \<longleftrightarrow> last_child_of ls i p = None \<and> k = p"
    "\<And>k. k < i \<Longrightarrow> end_of ls i k = None \<and> ls ! k = ls ! i \<longleftrightarrow> last_child_of ls i p = Some k"
proof -
  have before: "preorder_levels ls i" and l: "0 < ls ! i" "ls ! i \<le> Suc (ls ! (i - 1))"
    using pre i by (auto simp: preorder_Suc)
  have lower: "ls ! i - 1 \<le> ls ! (i - 1)" using l by simp
  obtain p where p: "latest (\<lambda>j. ls ! j = ls ! i - 1) i = Some p" by (rule latest_exists [OF before i(1) lower])
  then have open_p: "p < i" "ls ! p = ls ! i - 1" "end_of ls i p = None"
    using latest_open [OF before i(1) lower] by auto
  show ?thesis
  proof (rule that)
    show "parent_of ls i = Some p" using parent_latest [OF pre i(1)] p by simp
    show "A ! (ls ! i - 1) = of_nat p" using ancestors_latest [OF _ p] small A by simp
    show "L ! (ls ! i - 1) = ordinal_word (last_child_of ls i p)"
      using last_children_latest [OF before _ i(1) lower p] small L by simp
    show "(\<exists>a. ls ! i \<le> a \<and> a < Suc (ls ! (i - 1)) \<and> unat (A ! a) = k) \<longleftrightarrow> end_of ls i k = None \<and> ls ! i \<le> ls ! k"
      if "k < i" for k
      unfolding A by (rule open_ancestors [OF before i(1) _ small(2) that]) (use i n in simp)
    show "Suc k = i \<and> ls ! k < ls ! i \<longleftrightarrow> last_child_of ls i p = None \<and> k = p" if k: "k < i" for k
    proof
      assume k': "Suc k = i \<and> ls ! k < ls ! i"
      then have "ls ! k = ls ! i - 1" using l by auto
      moreover have "end_of ls i k = None" using k' by simp
      ultimately have "k = p" using open_unique [of ls i k p] open_p k by simp
      with k' last_child_first [OF pre open_p(1,3)] open_p(2) l show "last_child_of ls i p = None \<and> k = p" by simp
    next
      assume "last_child_of ls i p = None \<and> k = p"
      with last_child_first [OF pre open_p(1,3)] open_p(2) l show "Suc k = i \<and> ls ! k < ls ! i" by simp
    qed
    show "end_of ls i k = None \<and> ls ! k = ls ! i \<longleftrightarrow> last_child_of ls i p = Some k" if k: "k < i" for k
    proof -
      have "p < k" if "end_of ls i k = None" "ls ! k = ls ! i"
      proof (rule ccontr)
        assume "\<not> p < k"
        then have "k < p" using that(2) open_p(2) l by (cases "k = p") auto
        then show False using that open_p l by (auto simp: end_of_None)
      qed
      then show ?thesis using last_child_open [OF open_p(1,3)] open_p(2) l k by auto
    qed
  qed (use open_p in simp_all)
qed

section \<open>The nodes after a row\<close>

text \<open>The nodes after the row: decoded, closed, linked.\<close>

lemma ordinal_word_simps [simp]: "ordinal_word None = SIZE_MAX" "ordinal_word (Some j) = of_nat j"
  by (simp_all add: ordinal_word_def)

lemma node_record_links [simp]:
  "schema_node_child_count (node_record mem view k) = 0" "schema_node_subtree_end (node_record mem view k) = 0"
  "schema_node_parent (node_record mem view k) = SIZE_MAX" "schema_node_first_child (node_record mem view k) = SIZE_MAX"
  "schema_node_next_sibling (node_record mem view k) = SIZE_MAX"
  by (simp_all add: node_record_def zero_schema_node_def Let_def)

lemma linked_node_last:
  assumes "i < n"
  shows "linked_node ls (Suc i) stop i node = node
     \<lparr>schema_node_parent := ordinal_word (parent_of ls i), schema_node_first_child := SIZE_MAX,
      schema_node_next_sibling := SIZE_MAX, schema_node_child_count := 0, schema_node_subtree_end := stop\<rparr>"
proof -
  have "children_of ls (Suc i) i = []"
    by (auto simp: children_of_def parent_of_def latest_Some filter_empty_conv)
  then show ?thesis by (simp add: linked_node_def first_child_of_def next_sibling_of_def)
qed

lemma linked_node_Suc:
  assumes "k < i"
  shows "linked_node ls (Suc i) 0 k node =
    (let node = linked_node ls i 0 k node;
         node = (if end_of ls i k = None \<and> ls ! i \<le> ls ! k then node\<lparr>schema_node_subtree_end := of_nat i\<rparr> else node);
         node = (if Suc k = i \<and> ls ! k < ls ! i then node\<lparr>schema_node_first_child := of_nat i\<rparr> else node);
         node = (if end_of ls i k = None \<and> ls ! k = ls ! i then node\<lparr>schema_node_next_sibling := of_nat i\<rparr> else node)
     in if parent_of ls i = Some k then node\<lparr>schema_node_child_count := schema_node_child_count node + 1\<rparr> else node)"
  using assms
  by (simp add: linked_node_def first_child_Suc next_sibling_Suc children_Suc end_of_Suc Let_def split: option.split)

lemma row_nodes:
  assumes ls: "ls = node_levels mem view n" and pre: "preorder_levels ls (Suc i)" and i: "i < n" and n: "n \<le> 2 ^ 32"
    and nodes: "compile_nodes s = close_nodes (ancestors_after ls i) (of_nat i) (ls ! i)
       ((if i = 0 then 0 else Suc (ls ! (i - 1))) - ls ! i) ((nodes_until mem view n i)[i := node_record mem view i])"
    and locals: "local_ancestors s = ancestors_after ls i" "local_last_child s = last_children_after ls i"
  shows "compile_nodes (if ls ! i \<noteq> 0 then link_node i (ls ! i) s else s) = nodes_until mem view n (Suc i)"
proof -
  have len: "length (compile_nodes s) = n" by (simp add: nodes nodes_until_def)
  have small: "ls ! k < HIERARCHY_LEVELS" if "k < n" for k using that by (simp add: ls node_levels_nth)
  show ?thesis
  proof (cases "i = 0")
    case True
    then have "ls ! i = 0" using pre by (simp add: preorder_row row_level_ok_def)
    then show ?thesis
      using True i by (intro nth_equalityI)
        (auto simp: nodes nodes_until_def nth_update linked_node_last parent_of_def less_Suc_eq)
  next
    case False
    then have i0: "0 < i" by simp
    have level: "0 < ls ! i" "ls ! i \<le> Suc (ls ! (i - 1))"
      using pre False by (auto simp: preorder_row row_level_ok_def)
    have small_levels: "ls ! i < HIERARCHY_LEVELS" "ls ! (i - 1) < HIERARCHY_LEVELS"
      using small [of i] small [of "i - 1"] i by auto
    obtain p where p: "parent_of ls i = Some p" "p < i" "local_ancestors s ! (ls ! i - 1) = of_nat p"
      "ls ! p = ls ! i - 1" "end_of ls i p = None"
      "local_last_child s ! (ls ! i - 1) = ordinal_word (last_child_of ls i p)"
      and closed: "\<And>k. k < i \<Longrightarrow> (\<exists>a. ls ! i \<le> a \<and> a < Suc (ls ! (i - 1)) \<and> unat (local_ancestors s ! a) = k) \<longleftrightarrow>
        end_of ls i k = None \<and> ls ! i \<le> ls ! k"
      and first: "\<And>k. k < i \<Longrightarrow> Suc k = i \<and> ls ! k < ls ! i \<longleftrightarrow> last_child_of ls i p = None \<and> k = p"
      and sibling: "\<And>k. k < i \<Longrightarrow> end_of ls i k = None \<and> ls ! k = ls ! i \<longleftrightarrow> last_child_of ls i p = Some k"
      by (rule row_effect [OF pre i0 i n small_levels locals], rule that, assumption+)
    have word: "unat (of_nat k :: u64) = k" "(of_nat k :: u64) \<noteq> SIZE_MAX" if "k < n" for k
      using small_ordinal [OF that n] by simp_all
    have last_small: "last_child_of ls i p = Some c \<Longrightarrow> c < i" for c
      by (auto simp: last_child_of_def latest_Some)
    let ?base = "(nodes_until mem view n i)[i := node_record mem view i]"
    have base: "compile_nodes s ! k =
        (if (\<exists>a. ls ! i \<le> a \<and> a < Suc (ls ! (i - 1)) \<and> unat (local_ancestors s ! a) = k)
         then (?base ! k)\<lparr>schema_node_subtree_end := of_nat i\<rparr> else ?base ! k)" if "k < n" for k
      using that False level(2) unfolding nodes locals
      by (subst close_nodes_nth) (simp_all add: nodes_until_def)
    have inner: "\<not> (\<exists>a. ls ! i \<le> a \<and> a < Suc (ls ! (i - 1)) \<and> unat (local_ancestors s ! a) = k)"
      if "i \<le> k" "k < n" for k
    proof
      assume "\<exists>a. ls ! i \<le> a \<and> a < Suc (ls ! (i - 1)) \<and> unat (local_ancestors s ! a) = k"
      then obtain a where a: "a \<le> ls ! (i - 1)" "unat (local_ancestors s ! a) = k" by (auto simp: less_Suc_eq_le)
      have before: "preorder_levels ls i" using pre by (simp add: preorder_row)
      obtain m where m: "latest (\<lambda>j. ls ! j = a) i = Some m" by (rule latest_exists [OF before i0 a(1)])
      have "a < HIERARCHY_LEVELS" using a(1) small_levels by simp
      then have "local_ancestors s ! a = of_nat m" using ancestors_latest [OF _ m] locals by simp
      moreover have "m < i" using m by (simp add: latest_Some)
      ultimately show False using a(2) word i that by simp
    qed
    have not_parent: "\<not> (k = unat (of_nat p :: u64))" if "i \<le> k" "k < n" for k
      using p(2) i word that by simp
    have not_sibling: "\<not> (ordinal_word (last_child_of ls i p) \<noteq> SIZE_MAX \<and> k = unat (ordinal_word (last_child_of ls i p)))"
      if "i \<le> k" "k < n" for k
      using last_small word i that by (cases "last_child_of ls i p") auto
    show ?thesis
    proof (rule nth_equalityI)
      show "length (compile_nodes (if ls ! i \<noteq> 0 then link_node i (ls ! i) s else s)) = length (nodes_until mem view n (Suc i))"
        using len by (simp add: link_node_fields nodes_until_def)
      fix k
      assume "k < length (compile_nodes (if ls ! i \<noteq> 0 then link_node i (ls ! i) s else s))"
      then have k: "k < n" using len by (simp add: link_node_fields split: if_splits)
      consider "k < i" | "k = i" | "i < k" by linarith
      then show "compile_nodes (if ls ! i \<noteq> 0 then link_node i (ls ! i) s else s) ! k = nodes_until mem view n (Suc i) ! k"
      proof cases
        case 1
        have parent: "k = unat (of_nat p :: u64) \<longleftrightarrow> parent_of ls i = Some k" using p(1,2) i word by auto
        have none: "ordinal_word (last_child_of ls i p) = SIZE_MAX \<longleftrightarrow> last_child_of ls i p = None"
          using last_small word(2) i by (cases "last_child_of ls i p") auto
        have some: "ordinal_word (last_child_of ls i p) \<noteq> SIZE_MAX \<and> k = unat (ordinal_word (last_child_of ls i p)) \<longleftrightarrow>
            last_child_of ls i p = Some k"
          using last_small word i by (cases "last_child_of ls i p") auto
        have target: "nodes_until mem view n (Suc i) ! k = linked_node ls (Suc i) 0 k (node_record mem view k)"
          using k 1 by (simp add: nodes_until_def ls)
        have before: "?base ! k = linked_node ls i 0 k (node_record mem view k)"
          using k 1 by (simp add: nodes_until_def ls)
        have own: "end_of ls i k = None \<and> ls ! i \<le> ls ! k \<longleftrightarrow>
            (\<exists>a. ls ! i \<le> a \<and> a < Suc (ls ! (i - 1)) \<and> unat (local_ancestors s ! a) = k)"
          using closed [OF 1] by simp
        have firstp: "ordinal_word (last_child_of ls i p) = SIZE_MAX \<and> k = unat (of_nat p :: u64) \<longleftrightarrow> Suc k = i \<and> ls ! k < ls ! i"
          using first [OF 1] none p(1,2) i word by auto
        have closed_k: "compile_nodes s ! k = (if end_of ls i k = None \<and> ls ! i \<le> ls ! k
            then (linked_node ls i 0 k (node_record mem view k))\<lparr>schema_node_subtree_end := of_nat i\<rparr>
            else linked_node ls i 0 k (node_record mem view k))"
          unfolding base [OF k] before own ..
        have other: "(k = i) = False" using 1 by simp
        have "k < length (compile_nodes s)" using k len by simp
        from link_node_nth [OF this p(3) [symmetric] p(6) [symmetric], of i]
        have "compile_nodes (link_node i (ls ! i) s) ! k = nodes_until mem view n (Suc i) ! k"
          unfolding target linked_node_Suc [OF 1] other if_False firstp some sibling [OF 1] closed_k Let_def
          unfolding parent .
        with level(1) show ?thesis by simp
      next
        case 2
        have target: "nodes_until mem view n (Suc i) ! i = linked_node ls (Suc i) 0 i (node_record mem view i)"
          using i by (simp add: nodes_until_def ls)
        have base_i: "compile_nodes s ! i = node_record mem view i"
          unfolding base [OF i] if_not_P [OF inner [OF order_refl i]] using i by (simp add: nodes_until_def)
        have "i < length (compile_nodes s)" using i len by simp
        from link_node_nth [OF this p(3) [symmetric] p(6) [symmetric], of i]
        have "compile_nodes (link_node i (ls ! i) s) ! i = nodes_until mem view n (Suc i) ! i"
          unfolding target linked_node_last [OF i] base_i Let_def p(1)
          using not_parent [OF order_refl i] not_sibling [OF order_refl i] by simp
        with level(1) 2 show ?thesis by simp
      next
        case 3
        then have le: "i \<le> k" and ne: "k \<noteq> i" by simp_all
        have target: "nodes_until mem view n (Suc i) ! k = zero_schema_node"
          using k 3 by (simp add: nodes_until_def)
        have base_k: "compile_nodes s ! k = zero_schema_node"
          unfolding base [OF k] if_not_P [OF inner [OF le k]] using k 3 by (simp add: nodes_until_def)
        have "k < length (compile_nodes s)" using k len by simp
        from link_node_nth [OF this p(3) [symmetric] p(6) [symmetric], of i]
        have "compile_nodes (link_node i (ls ! i) s) ! k = nodes_until mem view n (Suc i) ! k"
          unfolding target base_k Let_def
          using not_parent [OF le k] not_sibling [OF le k] ne by simp
        with level(1) show ?thesis by simp
      qed
    qed
  qed
qed

lemma requests_until_Suc:
  "i < n \<Longrightarrow> (requests_until mem view n i)[2 * i := name_request mem view (2 * i), Suc (2 * i) := name_request mem view (Suc (2 * i))] =
     requests_until mem view n (Suc i)"
  by (rule nth_equalityI) (auto simp: requests_until_def nth_update less_Suc_eq)

lemma decoded_state:
  assumes "i < n" and "view = compile_view s"
  shows "schema_decode_node mem i (hierarchy_state mem s n i) = (hierarchy_state mem s n i)
    \<lparr>compile_nodes := (nodes_until mem view n i)[i := node_record mem view i],
     compile_requests := requests_until mem view n (Suc i)\<rparr>"
proof -
  have zero: "nodes_until mem view n i ! i = zero_schema_node" using assms(1) by (simp add: nodes_until_def)
  have requests: "(requests_until mem view n i)
      [2 * i := \<lparr>encoded_offset = schema_node_type_offset_bits (node_record mem view i), slot = of_nat (2 * i)\<rparr>,
       2 * i + 1 := \<lparr>encoded_offset = schema_node_name_offset_bits (node_record mem view i), slot = of_nat (2 * i + 1)\<rparr>] =
      requests_until mem view n (Suc i)"
    using requests_until_Suc [OF assms(1), where mem = mem and view = view] by (simp add: name_request_def)
  show ?thesis
    unfolding requests [symmetric]
    by (simp add: schema_decode_node_def schema_set_node_def hierarchy_state_def Let_def zero assms(2) [symmetric]
        node_record_def)
qed

lemma link_node_shape:
  "link_node i l s = s\<lparr>compile_nodes := compile_nodes (link_node i l s),
     local_last_child := (local_last_child s)[l - 1 := of_nat i]\<rparr>"
  by (simp add: link_node_def schema_set_node_def Let_def)

lemma deepest_Suc: "i < length ls \<Longrightarrow> deepest ls (Suc i) = max (ls ! i) (deepest ls i)"
  by (simp add: deepest_def take_Suc_conv_app_nth)

lemma deepest_small: "(\<And>k. k < length ls \<Longrightarrow> ls ! k < b) \<Longrightarrow> 0 < b \<Longrightarrow> i \<le> length ls \<Longrightarrow> deepest ls i < b"
  by (induction i) (auto simp: deepest_Suc, simp add: deepest_def)

lemma small_word: "a < HIERARCHY_LEVELS \<Longrightarrow> unat (of_nat a :: u64) = a"
  by (simp add: unat_of_nat take_bit_nat_eq_self)

lemma node_levels_small: "k < n \<Longrightarrow> node_levels mem view n ! k < HIERARCHY_LEVELS"
  by (simp add: node_levels_nth)

text \<open>All that a row does to the state, in one step.\<close>

lemma row_state:
  assumes view: "view = compile_view s" and ls: "ls = node_levels mem view n" and pre: "preorder_levels ls (Suc i)"
    and i: "i < n" and n: "n \<le> 2 ^ 32"
    and count: "c = (if i = 0 then 0 else Suc (ls ! (i - 1))) - ls ! i"
    and closed: "t = (schema_decode_node mem i (hierarchy_state mem s n i))
      \<lparr>local_active_count := ls ! i, compile_nodes := close_nodes (ancestors_after ls i) (of_nat i) (ls ! i) c
        ((nodes_until mem view n i)[i := node_record mem view i])\<rparr>"
  shows "open_level i (ls ! i) (if ls ! i \<noteq> 0 then link_node i (ls ! i) t else t) = hierarchy_state mem s n (Suc i)"
proof -
  note closed = closed [unfolded decoded_state [OF i view]]
  have locals: "local_ancestors t = ancestors_after ls i" "local_last_child t = last_children_after ls i"
    by (simp_all add: closed hierarchy_state_def Let_def ls view)
  have nodes: "compile_nodes (if ls ! i \<noteq> 0 then link_node i (ls ! i) t else t) = nodes_until mem view n (Suc i)"
    by (rule row_nodes [OF ls pre i n _ locals]) (simp add: closed count)
  have linked: "(if ls ! i \<noteq> 0 then link_node i (ls ! i) t else t) = t
      \<lparr>compile_nodes := nodes_until mem view n (Suc i),
       local_last_child := (if ls ! i \<noteq> 0 then (last_children_after ls i)[ls ! i - 1 := of_nat i] else last_children_after ls i)\<rparr>"
    using nodes link_node_shape [of i "ls ! i" t] locals by (cases "ls ! i \<noteq> 0") (simp_all)
  have small: "ls ! i < HIERARCHY_LEVELS" "deepest ls i < HIERARCHY_LEVELS"
    using node_levels_small i by (auto simp: ls intro!: deepest_small)
  have deep: "deepest ls (Suc i) = max (ls ! i) (deepest ls i)" using i by (simp add: deepest_Suc ls)
  have greater: "(of_nat (ls ! i) :: u64) > of_nat (deepest ls i) \<longleftrightarrow> ls ! i > deepest ls i"
    using small by (simp add: word_less_nat_alt small_word)
  show ?thesis
    unfolding linked
    using greater
    by (cases "ls ! i > deepest ls i")
      (simp_all add: closed open_level_def hierarchy_state_def Let_def deep max_def
        ls [symmetric] view [symmetric])
qed

section \<open>The loop\<close>

definition open_count :: "nat list \<Rightarrow> nat \<Rightarrow> nat" where
  "open_count ls i = (if i = 0 then 0 else Suc (ls ! (i - 1)))"

lemma compile_node_costs:
  assumes view: "view = compile_view s" and ls: "ls = node_levels mem view n" and pre: "preorder_levels ls i"
    and i: "i < n" and n: "n \<le> 2 ^ 32"
  shows "sw.costs limits (compile_node mem i) (hierarchy_state mem s n i)
    (row_level_ok ls i \<and> ls ! i \<le> unat (schema_max_depth limits)) (33 + (open_count ls i - ls ! i)) ()
    (hierarchy_state mem s n (Suc i))"
proof -
  define h where "h = hierarchy_state mem s n i"
  define d where "d = schema_decode_node mem i h"
  define c where "c = open_count ls i - ls ! i"
  define t where "t = d\<lparr>local_active_count := ls ! i, compile_nodes := close_nodes (ancestors_after ls i) (of_nat i) (ls ! i) c
        ((nodes_until mem view n i)[i := node_record mem view i])\<rparr>"
  note decoded = decoded_state [OF i view, where mem = mem, folded h_def]
  have active: "local_active_count d = open_count ls i"
    unfolding d_def decoded by (simp add: h_def hierarchy_state_def Let_def open_count_def ls view)
  have ancestors: "local_ancestors d = ancestors_after ls i"
    unfolding d_def decoded by (simp add: h_def hierarchy_state_def Let_def ls view)
  have nodes: "compile_nodes d = (nodes_until mem view n i)[i := node_record mem view i]"
    unfolding d_def decoded by simp
  have level: "unat (schema_node_level (compile_nodes d ! i)) = ls ! i"
    using i by (simp add: nodes ls node_levels_nth nodes_until_def)
  have small: "ls ! i < HIERARCHY_LEVELS" using node_levels_small i by (simp add: ls)
  have shape: "(\<not> ((i = 0 \<and> ls ! i \<noteq> 0) \<or> (i \<noteq> 0 \<and> (ls ! i = 0 \<or> ls ! i > open_count ls i)))) = row_level_ok ls i"
    by (auto simp: row_level_ok_def open_count_def)
  have deep: "(\<not> (of_nat (ls ! i) :: u64) > schema_max_depth limits) = (ls ! i \<le> unat (schema_max_depth limits))"
    by (simp add: not_less word_le_nat_alt small_word [OF small])
  have close: "sw.costs limits (close_above (ls ! i) (of_nat i)) d True c () t" if "row_level_ok ls i"
  proof (rule sw.costs_weaken [OF close_above_costs])
    show "local_active_count d = ls ! i + c"
      using that by (auto simp: active c_def open_count_def row_level_ok_def split: if_splits)
  qed (simp_all add: t_def ancestors nodes)
  have final: "open_level i (ls ! i) (if ls ! i \<noteq> 0 then link_node i (ls ! i) t else t) = hierarchy_state mem s n (Suc i)"
    if "row_level_ok ls i"
    by (rule row_state [OF view ls _ i n, where c = c]) (use pre that in \<open>simp_all add: preorder_row c_def open_count_def t_def d_def h_def\<close>)
  have plain: "plain_write (\<lambda>compile. if ls ! i \<noteq> 0 then link_node i (ls ! i) compile else compile)"
    using plain_link_node [of i "ls ! i"] by (auto simp: plain_write_def)
  have tail: "row_level_ok ls i \<Longrightarrow> sw.costs limits (step_then (close_above (ls ! i) (of_nat i)) (\<lambda>_.
      step_then (step_modify (\<lambda>compile. if ls ! i \<noteq> 0 then link_node i (ls ! i) compile else compile)) (\<lambda>_.
      step_modify (open_level i (ls ! i))))) d (True \<and> True \<and> True) (c + (0 + 0)) () (hierarchy_state mem s n (Suc i))"
    by (rule sw.costs_then, erule close, rule sw.costs_then, rule write_costs [OF plain refl],
        rule write_costs [OF plain_open_level], erule final)
  show ?thesis
    unfolding h_def [symmetric] compile_node_def
  proof (rule sw.costs_weaken, rule sw.costs_with, simp, rule sw.costs_then, rule charge_costs)
    show "unat (33 :: u64) = 33" by simp
    show "sw.costs limits (step_then (step_modify (schema_decode_node mem i)) (\<lambda>_.
       step_with (\<lambda>compile. unat (schema_node_level (compile_nodes compile ! i))) (\<lambda>depth.
       step_then (step_require (\<lambda>compile. \<not> ((i = 0 \<and> depth \<noteq> 0) \<or>
             (i \<noteq> 0 \<and> (depth = 0 \<or> depth > local_active_count compile))))
           (schema_reject SERIALIZED_FILE_SCHEMA_MALFORMED_HIERARCHY SERIALIZED_FILE_SCHEMA_LIMIT_NONE
              SERIALIZED_FILE_SCHEMA_FIELD_LEVEL (of_nat i) SERIALIZED_FILE_SCHEMA_ERROR_FILE
              (span_offset (nodes_source (schema_view_tree (compile_view h))) + of_nat i * 32 + 2))) (\<lambda>_.
       step_then (step_require (\<lambda>compile. \<not> of_nat depth > schema_max_depth (compile_limits compile))
           (schema_reject SERIALIZED_FILE_SCHEMA_LIMIT_EXCEEDED SERIALIZED_FILE_SCHEMA_LIMIT_DEPTH
              SERIALIZED_FILE_SCHEMA_FIELD_LEVEL (of_nat i) SERIALIZED_FILE_SCHEMA_ERROR_FILE
              (span_offset (nodes_source (schema_view_tree (compile_view h))) + of_nat i * 32 + 2))) (\<lambda>_.
       step_then (close_above depth (of_nat i)) (\<lambda>_.
       step_then (step_modify (\<lambda>compile. if depth \<noteq> 0 then link_node i depth compile else compile)) (\<lambda>_.
       step_modify (open_level i depth)))))))) h
       (True \<and> row_level_ok ls i \<and> ls ! i \<le> unat (schema_max_depth limits) \<and> True \<and> True \<and> True) (0 + (0 + (0 + (c + (0 + 0))))) ()
       (hierarchy_state mem s n (Suc i))"
      by (rule sw.costs_then, rule write_costs [OF plain_decode_node d_def [symmetric]], rule sw.costs_with, simp,
          unfold level, rule sw.costs_then, rule reject_costs, simp only: charged_at_fields active shape, simp,
          rule sw.costs_then, rule reject_costs, simp only: charged_at_fields deep, simp, erule tail)
  qed (simp_all add: c_def)
qed

text \<open>Every node is closed once: what the rows close, and what is open behind them.\<close>

lemma closes_total:
  "preorder_levels ls i \<Longrightarrow> sum_list (map (\<lambda>j. 33 + (open_count ls j - ls ! j)) [0..<i]) + open_count ls i = 34 * i"
proof (induction i)
  case 0
  then show ?case by (simp add: open_count_def)
next
  case (Suc i)
  then have "row_level_ok ls i" "preorder_levels ls i" by (simp_all add: preorder_row)
  then have "ls ! i \<le> open_count ls i" by (auto simp: row_level_ok_def open_count_def split: if_splits)
  with Suc.IH \<open>preorder_levels ls i\<close> show ?case by (simp add: open_count_def)
qed


text \<open>The hierarchy as it is left: every link as the levels say, and no subtree open.\<close>

definition node_names :: "memory \<Rightarrow> SerializedFileSchemaView \<Rightarrow> nat \<Rightarrow> NameRequest list" where
  "node_names mem view n = map (name_request mem view) [0..<2 * n]"

definition linked_nodes :: "memory \<Rightarrow> SerializedFileSchemaView \<Rightarrow> nat \<Rightarrow> SerializedFileSchemaNode list" where
  "linked_nodes mem view n =
     map (\<lambda>k. linked_node (node_levels mem view n) n (of_nat n) k (node_record mem view k)) [0..<n]"

definition hierarchy_result :: "memory \<Rightarrow> SchemaCompile \<Rightarrow> nat \<Rightarrow> SchemaCompile" where
  "hierarchy_result mem s n = (hierarchy_state mem s n n)
     \<lparr>compile_nodes := linked_nodes mem (compile_view s) n, local_active_count := 0\<rparr>"

lemma final_nodes:
  assumes ls: "ls = node_levels mem view n" and pre: "preorder_levels ls n" and n: "0 < n" "n \<le> 2 ^ 32"
  shows "close_nodes (ancestors_after ls n) (of_nat n) 0 (open_count ls n) (nodes_until mem view n n) =
    linked_nodes mem view n"
proof (rule nth_equalityI)
  fix k
  assume "k < length (close_nodes (ancestors_after ls n) (of_nat n) 0 (open_count ls n) (nodes_until mem view n n))"
  then have k: "k < n" by (simp add: nodes_until_def)
  have "ls ! (n - 1) < HIERARCHY_LEVELS" using node_levels_small n by (simp add: ls)
  note eq = open_ancestors [OF pre n this k, where b = 0]
  have len: "k < length (nodes_until mem view n n)" using k by (simp add: nodes_until_def)
  have count: "0 + open_count ls n = Suc (ls ! (n - 1))" using n by (simp add: open_count_def)
  have node: "nodes_until mem view n n ! k = linked_node ls n 0 k (node_record mem view k)"
    using k by (simp add: nodes_until_def ls)
  have target: "linked_nodes mem view n ! k = linked_node ls n (of_nat n) k (node_record mem view k)"
    using k by (simp add: linked_nodes_def ls)
  show "close_nodes (ancestors_after ls n) (of_nat n) 0 (open_count ls n) (nodes_until mem view n n) ! k =
      linked_nodes mem view n ! k"
    unfolding close_nodes_nth [OF len] count eq node target
    by (auto simp: linked_node_def split: option.splits)
qed (simp add: nodes_until_def linked_nodes_def)

lemma node_names_until: "requests_until mem view n n = node_names mem view n"
  by (simp add: requests_until_def node_names_def)

definition hierarchy_ok :: "memory \<Rightarrow> SerializedFileSchemaView \<Rightarrow> nat \<Rightarrow> SerializedFileSchemaLimits \<Rightarrow> bool" where
  "hierarchy_ok mem view n limits \<longleftrightarrow> preorder_levels (node_levels mem view n) n \<and>
     deepest (node_levels mem view n) n \<le> unat (schema_max_depth limits)"

lemma preorder_rows: "preorder_levels ls n \<longleftrightarrow> (\<forall>i<n. row_level_ok ls i)"
  by (auto simp: preorder_levels_def row_level_ok_def)

lemma deepest_le: "i \<le> length ls \<Longrightarrow> deepest ls i \<le> b \<longleftrightarrow> (\<forall>k<i. ls ! k \<le> b)"
  by (induction i) (auto simp: deepest_Suc less_Suc_eq, simp add: deepest_def)

lemma compile_hierarchy_costs:
  assumes view: "view = compile_view s" and n: "unat (schema_view_node_count view) = n" "0 < n" "n \<le> 2 ^ 32"
    and depth: "schema_view_maximum_depth view = 0"
    and start: "compile_nodes s = replicate n zero_schema_node" "compile_requests s = replicate (2 * n) zero_name_request"
  shows "sw.costs limits (compile_hierarchy mem) s (hierarchy_ok mem view n limits) (34 * n) ()
    (hierarchy_result mem s n)"
proof -
  define ls where "ls = node_levels mem view n"
  have count: "schema_view_node_count (compile_view s) = of_nat n" using n(1) view by (auto simp: word_eq_nat)
  have n': "unat (of_nat n :: u64) = n" using n(3) by (simp add: unat_of_nat take_bit_nat_eq_self)
  have prologue: "sw.costs limits (step_modify (\<lambda>compile. compile
       \<lparr>local_ancestors := replicate HIERARCHY_LEVELS 0, local_last_child := replicate HIERARCHY_LEVELS 0,
        local_active_count := 0\<rparr>)) s True 0 () (hierarchy_state mem s n 0)"
  proof (rule write_costs)
    have same: "view\<lparr>schema_view_maximum_depth := 0\<rparr> = view" using depth by (cases view) simp
    have "nodes_until mem view n 0 = replicate n zero_schema_node"
      "requests_until mem view n 0 = replicate (2 * n) zero_name_request"
      by (auto simp: nodes_until_def requests_until_def intro!: nth_equalityI)
    with same show "s\<lparr>local_ancestors := replicate HIERARCHY_LEVELS 0, local_last_child := replicate HIERARCHY_LEVELS 0,
        local_active_count := 0\<rparr> = hierarchy_state mem s n 0"
      using start by (cases s) (simp add: hierarchy_state_def Let_def deepest_def view)
  qed (auto simp: plain_write_def charged_at_def)
  have row: "sw.costs limits (compile_node mem j) (hierarchy_state mem s n j)
      (row_level_ok ls j \<and> ls ! j \<le> unat (schema_max_depth limits)) (33 + (open_count ls j - ls ! j)) ()
      (hierarchy_state mem s n (Suc j))"
    if "j < 0 + n" "\<And>l. 0 \<le> l \<Longrightarrow> l < j \<Longrightarrow> row_level_ok ls l \<and> ls ! l \<le> unat (schema_max_depth limits)" for j
    by (rule compile_node_costs [OF view ls_def]) (use that n(3) in \<open>auto simp: preorder_rows\<close>)
  have rows: "sw.costs limits (scan_rows (compile_node mem) 0 n) (hierarchy_state mem s n 0)
      (\<forall>j. 0 \<le> j \<and> j < 0 + n \<longrightarrow> row_level_ok ls j \<and> ls ! j \<le> unat (schema_max_depth limits))
      (sum_list (map (\<lambda>j. 33 + (open_count ls j - ls ! j)) [0..<0 + n])) (map (\<lambda>_. ()) [0..<0 + n])
      (hierarchy_state mem s n (0 + n))"
    by (rule sw.costs_rows) (rule row, assumption, blast)
  have ok: "(\<forall>j. 0 \<le> j \<and> j < 0 + n \<longrightarrow> row_level_ok ls j \<and> ls ! j \<le> unat (schema_max_depth limits)) =
      hierarchy_ok mem view n limits"
    by (auto simp: hierarchy_ok_def preorder_rows deepest_le ls_def [symmetric]) (auto simp: ls_def deepest_le)
  have finish: "sw.costs limits (close_above 0 (of_nat n)) (hierarchy_state mem s n n) True (open_count ls n) ()
      (hierarchy_result mem s n)" if "hierarchy_ok mem view n limits"
  proof (rule sw.costs_weaken [OF close_above_costs])
    have pre: "preorder_levels ls n" using that by (simp add: hierarchy_ok_def ls_def)
    show "local_active_count (hierarchy_state mem s n n) = 0 + open_count ls n"
      by (simp add: hierarchy_state_def Let_def open_count_def ls_def view)
    show "open_count ls n = open_count ls n \<and> () = () \<and> hierarchy_result mem s n = (hierarchy_state mem s n n)
        \<lparr>local_active_count := 0, compile_nodes := close_nodes (local_ancestors (hierarchy_state mem s n n)) (of_nat n) 0
          (open_count ls n) (compile_nodes (hierarchy_state mem s n n))\<rparr>"
      using final_nodes [OF ls_def pre n(2,3)]
      by (simp add: hierarchy_result_def hierarchy_state_def Let_def view ls_def)
  qed simp
  have "sw.costs limits (compile_hierarchy mem) s (True \<and> hierarchy_ok mem view n limits \<and> True)
     (0 + (sum_list (map (\<lambda>j. 33 + (open_count ls j - ls ! j)) [0..<n]) + open_count ls n)) () (hierarchy_result mem s n)"
    unfolding compile_hierarchy_def
    by (rule sw.costs_with, simp, unfold count n', rule sw.costs_then, rule prologue, rule sw.costs_then,
        rule rows [unfolded ok, unfolded add_0], erule finish)
  then show ?thesis
    by (rule sw.costs_weaken) (use closes_total [of ls n] in \<open>auto simp: hierarchy_ok_def ls_def\<close>)
qed

end
