(* ===== verification/SchemaRadix.thy ===== *)
theory SchemaRadix
  imports SchemaWork "HOL-Library.Multiset"
begin

text \<open>
  Sorting the name requests: each of the four counting passes sorts stably by one byte of the
  offset, and all of them sort by the offset.
\<close>

section \<open>Stable sorts by digits\<close>

lemma sorted_digits:
  fixes f g :: "'a \<Rightarrow> nat"
  assumes "sorted (map f ys)" and "\<And>c. sorted (map g (filter (\<lambda>x. f x = c) ys))" and "\<And>x. g x < B"
  shows "sorted (map (\<lambda>x. B * f x + g x) ys)"
  using assms(1,2)
proof (induction ys)
  case Nil
  then show ?case by simp
next
  case (Cons x ys)
  have "B * f x + g x \<le> B * f y + g y" if y: "y \<in> set ys" for y
  proof (cases "f x = f y")
    case True
    have "sorted (map g (filter (\<lambda>z. f z = f x) (x # ys)))" by (rule Cons.prems(2))
    with True y show ?thesis by simp
  next
    case False
    then have "Suc (f x) \<le> f y" using Cons.prems(1) y by (simp add: le_neq_implies_less Suc_leI)
    then have "B * Suc (f x) \<le> B * f y" by (rule mult_le_mono2)
    then show ?thesis using assms(3) [of x] by simp
  qed
  moreover have "sorted (map (\<lambda>x. B * f x + g x) ys)"
  proof (rule Cons.IH)
    show "sorted (map f ys)" using Cons.prems(1) by simp
    show "sorted (map g (filter (\<lambda>x. f x = c) ys))" for c
      using Cons.prems(2) [of c] by (cases "f x = c") simp_all
  qed
  ultimately show ?case by simp
qed

lemma sort_digits:
  fixes f g :: "'a \<Rightarrow> nat"
  assumes "\<And>x. g x < B"
  shows "sort_key f (sort_key g xs) = sort_key (\<lambda>x. B * f x + g x) xs"
proof (rule properties_for_sort_key [symmetric])
  have same: "B * f k + g k = B * f x + g x \<longleftrightarrow> f x = f k \<and> g x = g k" for k x
  proof
    assume eq: "B * f k + g k = B * f x + g x"
    have "f y = (B * f y + g y) div B" for y using assms [of y] by simp
    with eq have "f x = f k" by metis
    with eq show "f x = f k \<and> g x = g k" by simp
  qed simp
  show "filter (\<lambda>x. B * f k + g k = B * f x + g x) (sort_key f (sort_key g xs)) =
      filter (\<lambda>x. B * f k + g k = B * f x + g x) xs" for k
  proof -
    have "filter (\<lambda>x. g x = g k) (filter (\<lambda>x. f x = f k) (sort_key f (sort_key g xs))) =
        filter (\<lambda>x. f x = f k) (filter (\<lambda>x. g x = g k) (sort_key g xs))"
      unfolding sort_key_stable [of f] by (simp only: filter_filter conj_commute)
    also have "\<dots> = filter (\<lambda>x. f x = f k) (filter (\<lambda>x. g x = g k) xs)" unfolding sort_key_stable ..
    finally show ?thesis by (simp only: eq_commute [of "B * f k + g k"] same filter_filter conj_commute)
  qed
  show "sorted (map (\<lambda>x. B * f x + g x) (sort_key f (sort_key g xs)))"
    by (rule sorted_digits) (simp_all add: assms sort_key_stable sorted_filter)
qed simp

fun radix_after :: "NameRequest list \<Rightarrow> nat \<Rightarrow> NameRequest list" where
  "radix_after xs 0 = xs"
| "radix_after xs (Suc p) = sort_key (radix_bucket (p * 8)) (radix_after xs p)"

lemma radix_bucket_value: "radix_bucket (p * 8) r = unat (encoded_offset r) div 256 ^ p mod 256"
proof -
  have "(0xFF :: u32) = mask 8" by (simp add: mask_eq_exp_minus_1)
  then have "unat (drop_bit (p * 8) (encoded_offset r) AND 0xFF) = take_bit 8 (unat (drop_bit (p * 8) (encoded_offset r)))"
    by (simp only: take_bit_eq_mask [symmetric] unsigned_take_bit_eq)
  also have "\<dots> = unat (drop_bit (p * 8) (encoded_offset r)) mod 2 ^ 8" by (rule take_bit_eq_mod)
  also have "unat (drop_bit (p * 8) (encoded_offset r)) = unat (encoded_offset r) div 2 ^ (p * 8)"
    unfolding unat_drop_bit_eq by (rule drop_bit_eq_div)
  also have "(2 :: nat) ^ (p * 8) = 256 ^ p" by (simp only: mult.commute [of p] power_mult) simp
  finally show ?thesis by (simp add: radix_bucket_def)
qed

lemma radix_after_digits: "radix_after xs p = sort_key (\<lambda>r. unat (encoded_offset r) mod 256 ^ p) xs"
proof (induction p)
  case 0
  have "sorted (map (\<lambda>r. 0 :: nat) xs)" by (induction xs) simp_all
  then have "sort_key (\<lambda>r. 0 :: nat) xs = xs" by (intro properties_for_sort_key) simp_all
  then show ?case by simp
next
  case (Suc p)
  have "sort_key (radix_bucket (p * 8)) (sort_key (\<lambda>r. unat (encoded_offset r) mod 256 ^ p) xs) =
      sort_key (\<lambda>r. 256 ^ p * radix_bucket (p * 8) r + unat (encoded_offset r) mod 256 ^ p) xs"
    by (rule sort_digits) simp
  also have "(\<lambda>r. 256 ^ p * radix_bucket (p * 8) r + unat (encoded_offset r) mod 256 ^ p) =
      (\<lambda>r. unat (encoded_offset r) mod 256 ^ Suc p)"
    by (rule ext) (simp only: radix_bucket_value power_Suc2 mod_mult2_eq)
  finally show ?case by (simp add: Suc.IH)
qed

lemma radix_sorted: "radix_after xs RADIX_PASSES = sort_key (\<lambda>r. unat (encoded_offset r)) xs"
proof -
  have "(\<lambda>r. unat (encoded_offset r) mod 256 ^ 4) = (\<lambda>r. unat (encoded_offset r))"
    using unsigned_less [of "encoded_offset x" for x] by (intro ext mod_less) simp
  then show ?thesis unfolding radix_after_digits by (rule arg_cong)
qed


section \<open>A pass\<close>

lemma radix_bucket_small: "radix_bucket sh r < RADIX_BUCKETS"
proof -
  have "radix_bucket sh r \<le> unat (0xFF :: u32)"
    unfolding radix_bucket_def word_le_nat_alt [symmetric] by (rule word_and_le1)
  then show ?thesis by simp
qed

definition in_bucket :: "nat \<Rightarrow> NameRequest list \<Rightarrow> nat \<Rightarrow> NameRequest list" where
  "in_bucket sh xs b = filter (\<lambda>r. radix_bucket sh r = b) xs"

definition bucket_start :: "nat \<Rightarrow> NameRequest list \<Rightarrow> nat \<Rightarrow> nat" where
  "bucket_start sh xs b = sum_list (map (\<lambda>c. length (in_bucket sh xs c)) [0..<b])"

text \<open>The offsets and the destination after \<open>j\<close> requests have been moved.\<close>

definition counted_offsets :: "nat \<Rightarrow> NameRequest list \<Rightarrow> nat \<Rightarrow> nat list" where
  "counted_offsets sh xs j = map (\<lambda>b. length (in_bucket sh (take j xs) b)) [0..<RADIX_BUCKETS]"

definition moved_offsets :: "nat \<Rightarrow> NameRequest list \<Rightarrow> nat \<Rightarrow> nat list" where
  "moved_offsets sh xs j =
     map (\<lambda>b. bucket_start sh xs b + length (in_bucket sh (take j xs) b)) [0..<RADIX_BUCKETS]"

definition moved_requests :: "nat \<Rightarrow> NameRequest list \<Rightarrow> NameRequest list \<Rightarrow> nat \<Rightarrow> NameRequest list" where
  "moved_requests sh xs ys j = map (\<lambda>k. let r = sort_key (radix_bucket sh) xs ! k; b = radix_bucket sh r in
     if k < bucket_start sh xs b + length (in_bucket sh (take j xs) b) then r else ys ! k) [0..<length xs]"

lemma in_bucket_snoc: "j < length xs \<Longrightarrow> in_bucket sh (take (Suc j) xs) b =
    in_bucket sh (take j xs) b @ (if radix_bucket sh (xs ! j) = b then [xs ! j] else [])"
  by (simp add: in_bucket_def take_Suc_conv_app_nth)

lemma counted_Suc:
  assumes "j < length xs" and "b = radix_bucket sh (xs ! j)"
  shows "counted_offsets sh xs (Suc j) = (counted_offsets sh xs j)[b := counted_offsets sh xs j ! b + 1]"
  using assms radix_bucket_small [of sh "xs ! j"]
  by (intro nth_equalityI) (auto simp: counted_offsets_def in_bucket_snoc nth_list_update)

lemma prefix_offsets_sums:
  "prefix_offsets start (map f [a..<a + n]) = map (\<lambda>b. start + sum_list (map f [a..<b])) [a..<a + n]"
proof (induction n arbitrary: start a)
  case 0
  then show ?case by simp
next
  case (Suc n)
  have "prefix_offsets (start + f a) (map f [Suc a..<Suc a + n]) =
      map (\<lambda>b. start + f a + sum_list (map f [Suc a..<b])) [Suc a..<Suc a + n]" by (rule Suc.IH)
  also have "\<dots> = map (\<lambda>b. start + sum_list (map f [a..<b])) [Suc a..<Suc a + n]"
    by (rule map_cong) (auto simp: upt_conv_Cons)
  finally show ?case by (simp add: upt_conv_Cons del: upt_Suc)
qed

lemma prefix_counted: "prefix_offsets 0 (counted_offsets sh xs (length xs)) = moved_offsets sh xs 0"
  using prefix_offsets_sums [of 0 "\<lambda>b. length (in_bucket sh xs b)" 0 RADIX_BUCKETS]
  by (simp add: counted_offsets_def moved_offsets_def bucket_start_def in_bucket_def)

text \<open>Bucket by bucket is the sorted order.\<close>

lemma filter_concat_buckets:
  "filter (\<lambda>x. f x = c) (concat (map (\<lambda>b. filter (\<lambda>x. f x = b) xs) [0..<n])) =
     (if c < n then filter (\<lambda>x. f x = c) xs else [])"
  by (induction n) (auto simp: filter_filter less_Suc_eq filter_empty_conv cong: filter_cong)

lemma sort_key_buckets:
  fixes f :: "'a \<Rightarrow> nat"
  assumes "\<And>x. f x < n"
  shows "sort_key f xs = concat (map (\<lambda>b. filter (\<lambda>x. f x = b) xs) [0..<n])"
proof (rule properties_for_sort_key)
  have pos: "mset (concat (map (\<lambda>b. filter (\<lambda>x. f x = b) xs) [0..<m])) = mset (filter (\<lambda>x. f x < m) xs)" for m
  proof (induction m)
    case (Suc m)
    have "mset (filter (\<lambda>x. f x < Suc m) xs) = mset (filter (\<lambda>x. f x < m) xs) + mset (filter (\<lambda>x. f x = m) xs)"
      by (induction xs) auto
    with Suc show ?case by simp
  qed simp
  show "mset (concat (map (\<lambda>b. filter (\<lambda>x. f x = b) xs) [0..<n])) = mset xs"
    using pos [of n] assms by simp
  show "filter (\<lambda>x. f k = f x) (concat (map (\<lambda>b. filter (\<lambda>x. f x = b) xs) [0..<n])) = filter (\<lambda>x. f k = f x) xs" for k
  proof -
    have "(\<lambda>x. f k = f x) = (\<lambda>x. f x = f k)" by auto
    then show ?thesis by (simp only: filter_concat_buckets assms if_True)
  qed
  have "sorted (map f (concat (map (\<lambda>b. filter (\<lambda>x. f x = b) xs) [0..<m]))) \<and>
      (\<forall>x \<in> set (concat (map (\<lambda>b. filter (\<lambda>x. f x = b) xs) [0..<m])). f x < m)" for m
  proof (induction m)
    case (Suc m)
    have "sorted (map f (filter (\<lambda>x. f x = m) xs))" by (induction xs) auto
    with Suc show ?case by (auto simp: sorted_append less_Suc_eq less_imp_le)
  qed simp
  then show "sorted (map f (concat (map (\<lambda>b. filter (\<lambda>x. f x = b) xs) [0..<n])))" by blast
qed

lemma bucket_start_length: "bucket_start sh xs b = length (concat (map (in_bucket sh xs) [0..<b]))"
  by (simp add: bucket_start_def length_concat comp_def)

lemma sort_bucket: "sort_key (radix_bucket sh) xs = concat (map (in_bucket sh xs) [0..<RADIX_BUCKETS])"
  unfolding in_bucket_def by (rule sort_key_buckets) (rule radix_bucket_small)

text \<open>Where the element \<open>c\<close> of a bucket stands.\<close>

lemma sorted_place:
  assumes "b < RADIX_BUCKETS" and "c < length (in_bucket sh xs b)"
  shows "sort_key (radix_bucket sh) xs ! (bucket_start sh xs b + c) = in_bucket sh xs b ! c"
    and "bucket_start sh xs b + c < length xs"
proof -
  have "[0..<RADIX_BUCKETS] = [0..<b] @ b # [Suc b..<RADIX_BUCKETS]"
    using upt_add_eq_append [of 0 b "RADIX_BUCKETS - b"] assms(1) by (simp add: upt_conv_Cons)
  then have split: "sort_key (radix_bucket sh) xs = concat (map (in_bucket sh xs) [0..<b]) @ in_bucket sh xs b @
      concat (map (in_bucket sh xs) [Suc b..<RADIX_BUCKETS])"
    unfolding sort_bucket by simp
  show "sort_key (radix_bucket sh) xs ! (bucket_start sh xs b + c) = in_bucket sh xs b ! c"
    unfolding split bucket_start_length using assms(2) by (simp add: nth_append)
  have "length (sort_key (radix_bucket sh) xs) = length xs" by simp
  then show "bucket_start sh xs b + c < length xs"
    unfolding split bucket_start_length using assms(2) by (simp only: length_append)
qed

lemma concat_position:
  "k < length (concat (map f [0..<n])) \<Longrightarrow>
     \<exists>b<n. \<exists>c<length (f b). k = length (concat (map f [0..<b])) + c"
proof (induction n)
  case (Suc n)
  show ?case
  proof (cases "k < length (concat (map f [0..<n]))")
    case True
    then show ?thesis using Suc.IH less_Suc_eq by auto
  next
    case False
    then have "k = length (concat (map f [0..<n])) + (k - length (concat (map f [0..<n])))"
      "k - length (concat (map f [0..<n])) < length (f n)" using Suc.prems by simp_all
    then show ?thesis by blast
  qed
qed simp

lemma sorted_bucket:
  assumes "k < length xs" and "b = radix_bucket sh (sort_key (radix_bucket sh) xs ! k)"
  shows "bucket_start sh xs b \<le> k" and "k < bucket_start sh xs b + length (in_bucket sh xs b)"
proof -
  have "k < length (concat (map (in_bucket sh xs) [0..<RADIX_BUCKETS]))"
    using assms(1) unfolding sort_bucket [symmetric] by simp
  then obtain d c where d: "d < RADIX_BUCKETS" "c < length (in_bucket sh xs d)" "k = bucket_start sh xs d + c"
    unfolding bucket_start_length using concat_position by blast
  then have "sort_key (radix_bucket sh) xs ! k = in_bucket sh xs d ! c" using sorted_place by simp
  moreover have "in_bucket sh xs d ! c \<in> set (in_bucket sh xs d)" using d(2) by (rule nth_mem)
  ultimately have "b = d" using assms(2) by (simp add: in_bucket_def)
  with d show "bucket_start sh xs b \<le> k" "k < bucket_start sh xs b + length (in_bucket sh xs b)" by simp_all
qed

lemma next_place:
  assumes "j < length xs" and "b = radix_bucket sh (xs ! j)" and "place = moved_offsets sh xs j ! b"
  shows "place < length xs" and "sort_key (radix_bucket sh) xs ! place = xs ! j"
    and "place = bucket_start sh xs b + length (in_bucket sh (take j xs) b)"
proof -
  have b: "b < RADIX_BUCKETS" using assms(2) radix_bucket_small by simp
  then show place: "place = bucket_start sh xs b + length (in_bucket sh (take j xs) b)"
    using assms(3) by (simp add: moved_offsets_def)
  have "in_bucket sh (take j xs @ xs ! j # drop (Suc j) xs) b =
      in_bucket sh (take j xs) b @ xs ! j # in_bucket sh (drop (Suc j) xs) b"
    using assms(2) by (simp add: in_bucket_def)
  then have all: "in_bucket sh xs b = in_bucket sh (take j xs) b @ xs ! j # in_bucket sh (drop (Suc j) xs) b"
    using id_take_nth_drop [OF assms(1)] by simp
  then have c: "length (in_bucket sh (take j xs) b) < length (in_bucket sh xs b)" by simp
  have "in_bucket sh xs b ! length (in_bucket sh (take j xs) b) = xs ! j" unfolding all by simp
  then show "place < length xs" "sort_key (radix_bucket sh) xs ! place = xs ! j"
    using sorted_place [OF b c] place by simp_all
qed

lemma moved_offsets_Suc:
  assumes "j < length xs" and "b = radix_bucket sh (xs ! j)"
  shows "moved_offsets sh xs (Suc j) = (moved_offsets sh xs j)[b := moved_offsets sh xs j ! b + 1]"
  using assms radix_bucket_small [of sh "xs ! j"]
  by (intro nth_equalityI) (auto simp: moved_offsets_def in_bucket_snoc nth_list_update)

lemma moved_requests_Suc:
  assumes "j < length xs" and "b = radix_bucket sh (xs ! j)" and "place = moved_offsets sh xs j ! b"
  shows "moved_requests sh xs ys (Suc j) = (moved_requests sh xs ys j)[place := xs ! j]"
proof (rule nth_equalityI)
  note place = next_place [OF assms]
  fix k
  assume "k < length (moved_requests sh xs ys (Suc j))"
  then have k: "k < length xs" by (simp add: moved_requests_def)
  define d where "d = radix_bucket sh (sort_key (radix_bucket sh) xs ! k)"
  show "moved_requests sh xs ys (Suc j) ! k = (moved_requests sh xs ys j)[place := xs ! j] ! k"
  proof (cases "k = place")
    case True
    then have "d = b" using place(2) assms(2) by (simp add: d_def)
    with True place k assms show ?thesis
      by (simp add: moved_requests_def d_def [symmetric] in_bucket_snoc Let_def)
  next
    case False
    have "k < bucket_start sh xs d + length (in_bucket sh (take (Suc j) xs) d) \<longleftrightarrow>
        k < bucket_start sh xs d + length (in_bucket sh (take j xs) d)"
      using False place(3) by (auto simp: in_bucket_snoc [OF assms(1)] assms(2))
    with False k show ?thesis by (simp add: moved_requests_def d_def [symmetric] Let_def)
  qed
qed (simp add: moved_requests_def)

lemma moved_requests_0: "length ys = length xs \<Longrightarrow> moved_requests sh xs ys 0 = ys"
  using sorted_bucket(1) by (intro nth_equalityI) (auto simp: moved_requests_def Let_def in_bucket_def not_less [symmetric])

lemma moved_requests_all: "moved_requests sh xs ys (length xs) = sort_key (radix_bucket sh) xs"
  using sorted_bucket(2) by (intro nth_equalityI) (auto simp: moved_requests_def Let_def)

section \<open>The passes\<close>

text \<open>The two halves of the scratch: the source of the next pass, and its destination.\<close>

definition radix_state :: "SchemaCompile \<Rightarrow> bool \<Rightarrow> NameRequest list \<Rightarrow> NameRequest list \<Rightarrow> nat list \<Rightarrow> SchemaCompile" where
  "radix_state s swapped xs ys offsets = s
     \<lparr>compile_requests := (if swapped then ys else xs), compile_sorted := (if swapped then xs else ys),
      local_offsets := offsets, local_swapped := swapped\<rparr>"

lemma radix_state_fields [simp]:
  "radix_source (radix_state s swapped xs ys offsets) = xs"
  "local_offsets (radix_state s swapped xs ys offsets) = offsets"
  "local_swapped (radix_state s swapped xs ys offsets) = swapped"
  "compile_request_count (radix_state s swapped xs ys offsets) = compile_request_count s"
  by (simp_all add: radix_state_def radix_source_def)

lemma radix_source_charged [simp]: "radix_source (charged_at limits k s) = radix_source s"
  by (simp add: radix_source_def)

lemma count_request_costs:
  assumes "j < length xs"
  shows "sw.costs limits (count_request sh j) (radix_state s w xs ys (counted_offsets sh xs j)) True 1 ()
    (radix_state s w xs ys (counted_offsets sh xs (Suc j)))"
  unfolding count_request_def
proof (rule sw.costs_weaken, rule sw.costs_then, rule charge_owner_costs, simp, rule write_costs)
  show "plain_write (\<lambda>compile. let bucket = radix_bucket sh (radix_source compile ! j) in
      compile\<lparr>local_offsets := (local_offsets compile)[bucket := local_offsets compile ! bucket + 1]\<rparr>)"
    by (auto simp: plain_write_def Let_def charged_at_def radix_source_def)
qed (use counted_Suc [OF assms refl] in \<open>simp_all add: Let_def, simp_all add: radix_state_def\<close>)

lemma scatter_request_costs:
  assumes "j < length xs"
  shows "sw.costs limits (scatter_request sh j) (radix_state s w xs (moved_requests sh xs ys j) (moved_offsets sh xs j)) True 1 ()
    (radix_state s w xs (moved_requests sh xs ys (Suc j)) (moved_offsets sh xs (Suc j)))"
  unfolding scatter_request_def
proof (rule sw.costs_weaken, rule sw.costs_then, rule charge_owner_costs, simp, rule write_costs)
  show "plain_write (\<lambda>compile.
      let request = radix_source compile ! j; bucket = radix_bucket sh request; place = local_offsets compile ! bucket;
          compile = (if local_swapped compile
            then compile\<lparr>compile_requests := (compile_requests compile)[place := request]\<rparr>
            else compile\<lparr>compile_sorted := (compile_sorted compile)[place := request]\<rparr>)
      in compile\<lparr>local_offsets := (local_offsets compile)[bucket := place + 1]\<rparr>)"
    by (auto simp: plain_write_def Let_def charged_at_def radix_source_def)
qed (use moved_offsets_Suc [OF assms refl] moved_requests_Suc [OF assms refl refl] in
    \<open>simp_all add: Let_def, simp_all add: radix_state_def\<close>)

lemma radix_pass_costs:
  assumes m: "unat (compile_request_count s) = length xs" and ys: "length ys = length xs"
  shows "sw.costs limits (radix_pass p) (radix_state s w xs ys offsets) True (512 + 2 * length xs) ()
    (radix_state s (\<not> w) (sort_key (radix_bucket (p * 8)) xs) xs (moved_offsets (p * 8) xs (length xs)))"
proof -
  let ?sh = "p * 8" and ?n = "length xs"
  have none: "counted_offsets ?sh xs 0 = replicate RADIX_BUCKETS 0"
    by (rule nth_equalityI) (simp_all add: counted_offsets_def in_bucket_def)
  have clear: "sw.costs limits (step_modify (\<lambda>compile. compile\<lparr>local_offsets := replicate RADIX_BUCKETS 0\<rparr>))
      (radix_state s w xs ys offsets) True 0 () (radix_state s w xs ys (counted_offsets ?sh xs 0))"
    by (rule write_costs) (auto simp: plain_write_def charged_at_def radix_state_def none)
  have counts: "sw.costs limits (scan_rows (count_request ?sh) 0 ?n) (radix_state s w xs ys (counted_offsets ?sh xs 0))
      (\<forall>j. 0 \<le> j \<and> j < 0 + ?n \<longrightarrow> True) (sum_list (map (\<lambda>_. 1) [0..<0 + ?n])) (map (\<lambda>_. ()) [0..<0 + ?n])
      (radix_state s w xs ys (counted_offsets ?sh xs (0 + ?n)))"
    by (rule sw.costs_rows) (rule count_request_costs, simp)
  have sums: "sw.costs limits (step_modify (\<lambda>compile. compile\<lparr>local_offsets := prefix_offsets 0 (local_offsets compile)\<rparr>))
      (radix_state s w xs ys (counted_offsets ?sh xs (0 + ?n))) True 0 ()
      (radix_state s w xs (moved_requests ?sh xs ys 0) (moved_offsets ?sh xs 0))"
    by (rule write_costs) (auto simp: plain_write_def charged_at_def radix_state_def prefix_counted moved_requests_0 ys)
  have moves: "sw.costs limits (scan_rows (scatter_request ?sh) 0 ?n)
      (radix_state s w xs (moved_requests ?sh xs ys 0) (moved_offsets ?sh xs 0))
      (\<forall>j. 0 \<le> j \<and> j < 0 + ?n \<longrightarrow> True) (sum_list (map (\<lambda>_. 1) [0..<0 + ?n])) (map (\<lambda>_. ()) [0..<0 + ?n])
      (radix_state s w xs (moved_requests ?sh xs ys (0 + ?n)) (moved_offsets ?sh xs (0 + ?n)))"
    by (rule sw.costs_rows) (rule scatter_request_costs, simp)
  have swap: "sw.costs limits (step_modify (\<lambda>compile. compile\<lparr>local_swapped := \<not> local_swapped compile\<rparr>))
      (radix_state s w xs (moved_requests ?sh xs ys (0 + ?n)) (moved_offsets ?sh xs (0 + ?n))) True 0 ()
      (radix_state s (\<not> w) (sort_key (radix_bucket ?sh) xs) xs (moved_offsets ?sh xs ?n))"
    by (rule write_costs) (auto simp: plain_write_def charged_at_def radix_state_def moved_requests_all)
  have "sw.costs limits (radix_pass p) (radix_state s w xs ys offsets)
      (True \<and> True \<and> (\<forall>j. 0 \<le> j \<and> j < 0 + ?n \<longrightarrow> True) \<and> True \<and> (\<forall>j. 0 \<le> j \<and> j < 0 + ?n \<longrightarrow> True) \<and> True)
      (512 + (0 + (sum_list (map (\<lambda>_. 1) [0..<0 + ?n]) + (0 + (sum_list (map (\<lambda>_. 1) [0..<0 + ?n]) + 0))))) ()
      (radix_state s (\<not> w) (sort_key (radix_bucket ?sh) xs) xs (moved_offsets ?sh xs ?n))"
    unfolding radix_pass_def
    by (rule sw.costs_then, rule charge_owner_costs, simp, rule sw.costs_then, rule clear, rule sw.costs_with, simp,
        unfold radix_state_fields m, rule sw.costs_then, rule counts, rule sw.costs_then, rule sums, rule sw.costs_then,
        rule moves, rule swap)
  then show ?thesis by (rule sw.costs_weaken) (simp_all add: sum_list_triv)
qed


text \<open>The requests in order of their offsets, equal offsets in order of their slots.\<close>

definition sorted_requests :: "NameRequest list \<Rightarrow> NameRequest list" where
  "sorted_requests xs = sort_key (\<lambda>r. unat (encoded_offset r)) xs"

definition sort_result :: "SchemaCompile \<Rightarrow> SchemaCompile" where
  "sort_result s = (let xs = compile_requests s in
     radix_state s False (sorted_requests xs) (radix_after xs 3) (moved_offsets 24 (radix_after xs 3) (length xs)))"

lemma radix_after_length [simp]: "length (radix_after xs p) = length xs"
  by (induction p) simp_all

lemma sort_name_requests_costs:
  assumes xs: "xs = compile_requests s" and m: "unat (compile_request_count s) = length xs"
    and ys: "length (compile_sorted s) = length xs"
  shows "sw.costs limits sort_name_requests s True (2048 + 8 * length xs) () (sort_result s)"
proof -
  define S where "S p = (if p = 0 then radix_state s False xs (compile_sorted s) (local_offsets s)
    else radix_state s (odd p) (radix_after xs p) (radix_after xs (p - 1))
      (moved_offsets ((p - 1) * 8) (radix_after xs (p - 1)) (length xs)))" for p :: nat
  have start: "sw.costs limits (step_modify (\<lambda>compile. compile\<lparr>local_swapped := False\<rparr>)) s True 0 () (S 0)"
    by (rule write_costs) (auto simp: plain_write_def charged_at_def S_def radix_state_def xs)
  have pass: "sw.costs limits (radix_pass p) (S p) True (512 + 2 * length xs) () (S (Suc p))" for p
  proof (cases p)
    case 0
    then show ?thesis
      using radix_pass_costs [OF m ys, of limits 0 False "local_offsets s"] by (simp add: S_def)
  next
    case (Suc q)
    have m': "unat (compile_request_count s) = length (radix_after xs p)" using m by simp
    have "length (radix_after xs q) = length (radix_after xs p)" by simp
    note step = radix_pass_costs [OF m' this, of limits p "odd p" "moved_offsets (q * 8) (radix_after xs q) (length xs)"]
    with Suc show ?thesis by (simp add: S_def)
  qed
  have passes: "sw.costs limits (scan_rows radix_pass 0 RADIX_PASSES) (S 0) (\<forall>p. 0 \<le> p \<and> p < 0 + RADIX_PASSES \<longrightarrow> True)
      (sum_list (map (\<lambda>_. 512 + 2 * length xs) [0..<0 + RADIX_PASSES])) (map (\<lambda>_. ()) [0..<0 + RADIX_PASSES])
      (S (0 + RADIX_PASSES))"
    by (rule sw.costs_rows) (rule pass)
  have last: "S (0 + RADIX_PASSES) = sort_result s"
    using radix_sorted [of xs] by (simp add: S_def sort_result_def sorted_requests_def xs Let_def)
  have check: "sw.costs limits (step_require (\<lambda>compile. \<not> local_swapped compile) (\<lambda>compile. compile)) (sort_result s) True 0 ()
      (sort_result s)"
    by (rule sw.costs_require) (simp_all add: sort_result_def Let_def)
  have "sw.costs limits sort_name_requests s (True \<and> (\<forall>p. 0 \<le> p \<and> p < 0 + RADIX_PASSES \<longrightarrow> True) \<and> True)
      (0 + (sum_list (map (\<lambda>_. 512 + 2 * length xs) [0..<0 + RADIX_PASSES]) + 0)) () (sort_result s)"
    unfolding sort_name_requests_def
    by (rule sw.costs_then, rule start, rule sw.costs_then, rule passes [unfolded last], rule check)
  then show ?thesis by (rule sw.costs_weaken) (simp_all add: sum_list_triv)
qed

end
