(* ===== verification/SchemaNames.thy ===== *)
theory SchemaNames
  imports SchemaWork Hierarchy
begin

text \<open>
  Resolving the names: a scan of a string table settles, in the order of their offsets, the
  requests into it. It succeeds exactly when each is the offset of a whole terminated string.
\<close>

section \<open>Strings of a table\<close>

definition string_start :: "memory \<Rightarrow> pointer \<Rightarrow> nat \<Rightarrow> bool" where
  "string_start mem bytes at \<longleftrightarrow> at = 0 \<or> mem (bytes + of_nat (at - 1)) = 0"

definition string_end :: "memory \<Rightarrow> pointer \<Rightarrow> nat \<Rightarrow> nat \<Rightarrow> nat option" where
  "string_end mem bytes extent at = find (\<lambda>k. mem (bytes + of_nat k) = 0) [at..<extent]"

definition holds_string :: "memory \<Rightarrow> pointer \<Rightarrow> nat \<Rightarrow> nat \<Rightarrow> bool" where
  "holds_string mem bytes extent at \<longleftrightarrow> string_start mem bytes at \<and> string_end mem bytes extent at \<noteq> None"

definition table_name ::
    "memory \<Rightarrow> SerializedFileSchemaStringSpace \<Rightarrow> pointer \<Rightarrow> nat \<Rightarrow> u64 \<Rightarrow> NameRequest \<Rightarrow> SerializedFileSchemaString" where
  "table_name mem space bytes extent origin r =
     (let at = unat (request_offset r) in
      \<lparr>schema_string_space = space, schema_string_encoded_offset = encoded_offset r,
       schema_string_bytes = bytes + of_nat at,
       schema_string_byte_count = of_nat (the (string_end mem bytes extent at) - at),
       schema_string_source_offset = origin + of_nat at\<rparr>)"

lemma string_end_Some:
  "string_end mem bytes extent at = Some k \<longleftrightarrow>
     at \<le> k \<and> k < extent \<and> mem (bytes + of_nat k) = 0 \<and> (\<forall>j. at \<le> j \<and> j < k \<longrightarrow> mem (bytes + of_nat j) \<noteq> 0)"
  by (auto simp: string_end_def find_upt)

lemma string_end_None: "string_end mem bytes extent at = None \<longleftrightarrow> (\<forall>j. at \<le> j \<and> j < extent \<longrightarrow> mem (bytes + of_nat j) \<noteq> 0)"
  by (auto simp: string_end_def find_None_iff)

section \<open>Pending requests\<close>

abbreviation matches :: "SerializedFileSchemaStringSpace \<Rightarrow> NameRequest \<Rightarrow> bool" where
  "matches space r \<equiv> request_is_common r = (space = SERIALIZED_FILE_SCHEMA_STRING_COMMON_EXACT35)"

definition below :: "SerializedFileSchemaStringSpace \<Rightarrow> nat \<Rightarrow> NameRequest \<Rightarrow> bool" where
  "below space stop r \<longleftrightarrow> matches space r \<and> unat (request_offset r) < stop"

definition pending_ordered :: "SerializedFileSchemaStringSpace \<Rightarrow> NameRequest list \<Rightarrow> bool" where
  "pending_ordered space = sorted_wrt (\<lambda>r r'. matches space r' \<longrightarrow>
     matches space r \<and> unat (request_offset r) \<le> unat (request_offset r'))"

lemma pending_below: "pending_ordered space rs \<Longrightarrow> takeWhile (below space stop) rs = filter (below space stop) rs"
proof (induction rs)
  case (Cons r rs)
  then have rs: "takeWhile (below space stop) rs = filter (below space stop) rs" by (simp add: pending_ordered_def)
  show ?case
  proof (cases "below space stop r")
    case False
    then have "filter (below space stop) rs = []"
      using Cons.prems by (fastforce simp: pending_ordered_def below_def filter_empty_conv)
    with False show ?thesis by simp
  qed (simp add: rs)
qed simp

lemma pending_drop: "pending_ordered space (drop q rs) \<Longrightarrow> q \<le> q' \<Longrightarrow> pending_ordered space (drop q' rs)"
  unfolding pending_ordered_def using sorted_wrt_drop [of _ "drop q rs" "q' - q"] by simp

lemma takeWhile_longer:
  "(\<And>x. A x \<Longrightarrow> B x) \<Longrightarrow> takeWhile B xs = takeWhile A xs @ takeWhile B (drop (length (takeWhile A xs)) xs)"
  by (induction xs) auto

text \<open>The names of the first requests given, and how far the loops have come.\<close>

definition name_node :: "(NameRequest \<Rightarrow> SerializedFileSchemaString) \<Rightarrow> NameRequest \<Rightarrow> SerializedFileSchemaNode list \<Rightarrow>
    SerializedFileSchemaNode list" where
  "name_node name r nodes = (let k = unat (request_node r); node = nodes ! k in
     nodes[k := if request_is_name r then node\<lparr>schema_node_field_name := name r\<rparr>
                else node\<lparr>schema_node_type_name := name r\<rparr>])"

definition names_state :: "(NameRequest \<Rightarrow> SerializedFileSchemaString) \<Rightarrow> SchemaCompile \<Rightarrow> nat \<Rightarrow> SchemaCompile" where
  "names_state name s q = s
     \<lparr>compile_nodes := fold (name_node name) (take q (compile_requests s)) (compile_nodes s), local_request_index := q\<rparr>"

lemma names_state_fields [simp]:
  "compile_requests (names_state name s q) = compile_requests s"
  "compile_request_count (names_state name s q) = compile_request_count s"
  "local_request_index (names_state name s q) = q"
  "compile_view (names_state name s q) = compile_view s"
  "compile_common_bytes (names_state name s q) = compile_common_bytes s"
  "compile_common_size (names_state name s q) = compile_common_size s"
  by (simp_all add: names_state_def)

lemma request_error_charged [simp]:
  "request_error_offset r space (charged_at limits k s) = request_error_offset r space s"
  by (simp add: request_error_offset_def)

lemma resolve_request_costs:
  assumes q: "q < length (compile_requests s)" and r: "r = compile_requests s ! q"
    and name: "unat (request_offset r) = start \<Longrightarrow> terminated \<Longrightarrow>
      name r = \<lparr>schema_string_space = space, schema_string_encoded_offset = encoded_offset r,
        schema_string_bytes = bytes + of_nat start, schema_string_byte_count = of_nat (stop - start - 1),
        schema_string_source_offset = origin + of_nat start\<rparr>"
  shows "sw.costs limits (step_then (resolve_request r space bytes origin start stop terminated)
      (\<lambda>_. step_modify (\<lambda>compile. compile\<lparr>local_request_index := local_request_index compile + 1\<rparr>)))
    (names_state name s q) (unat (request_offset r) = start \<and> terminated) 1 () (names_state name s (Suc q))"
proof -
  let ?ok = "unat (request_offset r) = start \<and> terminated"
  let ?name = "\<lparr>schema_string_space = space, schema_string_encoded_offset = encoded_offset r,
        schema_string_bytes = bytes + of_nat start, schema_string_byte_count = of_nat (stop - start - 1),
        schema_string_source_offset = origin + of_nat start\<rparr>"
  let ?t = "(names_state name s q)\<lparr>compile_nodes := compile_nodes (names_state name s (Suc q))\<rparr>"
  let ?set_name = "schema_set_node (unat (request_node r)) (\<lambda>node. if request_is_name r
        then node\<lparr>schema_node_field_name := ?name\<rparr> else node\<lparr>schema_node_type_name := ?name\<rparr>)"
  have stored: "sw.costs limits (step_modify ?set_name) (names_state name s q) True 0 () ?t" if ?ok
    by (rule write_costs [OF plain_set_node])
      (use that name q in \<open>simp add: names_state_def schema_set_node_def take_Suc_conv_app_nth name_node_def r Let_def\<close>)
  have step: "sw.costs limits (resolve_request r space bytes origin start stop terminated) (names_state name s q)
      (True \<and> unat (request_offset r) = start \<and> terminated \<and> True) (1 + (0 + (0 + 0))) () ?t"
    unfolding resolve_request_def Let_def
    by (rule sw.costs_with, simp, rule sw.costs_then, rule charge_costs, simp, rule sw.costs_then, rule reject_costs, simp,
        simp, rule sw.costs_then, rule reject_costs, simp, simp, rule stored, simp)
  have index: "sw.costs limits (step_modify (\<lambda>compile. compile\<lparr>local_request_index := local_request_index compile + 1\<rparr>))
      ?t True 0 () (names_state name s (Suc q))"
    by (rule write_costs) (simp_all add: plain_write_def charged_at_def names_state_def)
  show ?thesis
    by (rule sw.costs_weaken, rule sw.costs_then, rule step, rule index) auto
qed


lemma step_then_assoc: "step_then (step_then m f) g = step_then m (\<lambda>x. step_then (f x) g)"
  by (rule ext) (auto simp: step_then_def split: prod.split option.split)

section \<open>The scan of a table\<close>

definition pending :: "SchemaCompile \<Rightarrow> nat \<Rightarrow> SerializedFileSchemaStringSpace \<Rightarrow> nat \<Rightarrow> NameRequest list" where
  "pending s q space stop = takeWhile (below space stop) (drop q (compile_requests s))"

lemma pending_Nil: "length (compile_requests s) \<le> q \<Longrightarrow> pending s q space stop = []"
  by (simp add: pending_def)

lemma pending_step:
  assumes "q < length (compile_requests s)"
  shows "pending s q space stop = (if below space stop (compile_requests s ! q)
    then compile_requests s ! q # pending s (Suc q) space stop else [])"
  using assms by (simp add: pending_def Cons_nth_drop_Suc [symmetric])

lemma resolve_pending_costs:
  assumes name: "\<And>r. unat (request_offset r) = start \<Longrightarrow> terminated \<Longrightarrow> matches space r \<Longrightarrow>
      name r = \<lparr>schema_string_space = space, schema_string_encoded_offset = encoded_offset r,
        schema_string_bytes = bytes + of_nat start, schema_string_byte_count = of_nat (stop - start - 1),
        schema_string_source_offset = origin + of_nat start\<rparr>"
    and "n = length (compile_requests s) - q"
  shows "sw.costs limits (resolve_pending space bytes origin start stop terminated n) (names_state name s q)
    (\<forall>r \<in> set (pending s q space stop). unat (request_offset r) = start \<and> terminated)
    (length (pending s q space stop)) () (names_state name s (q + length (pending s q space stop)))"
  using assms(2)
proof (induction n arbitrary: q)
  case 0
  then show ?case
    unfolding resolve_pending.simps by (intro sw.costs_weaken [OF sw.costs_return]) (simp_all add: pending_Nil)
next
  case (Suc n)
  then have q: "q < length (compile_requests s)" by simp
  define r where "r = compile_requests s ! q"
  have guard: "(matches space r \<and> \<not> unat (request_offset r) \<ge> stop) = below space stop r"
    by (auto simp: below_def)
  show ?case
  proof (cases "below space stop r")
    case False
    then have "pending s q space stop = []" using pending_step [OF q] by (simp add: r_def)
    moreover have "request_is_common r \<noteq> (space = SERIALIZED_FILE_SCHEMA_STRING_COMMON_EXACT35) \<or>
        unat (request_offset r) \<ge> stop" using False by (auto simp: below_def)
    ultimately show ?thesis
      unfolding resolve_pending.simps
      by (intro sw.costs_with) (simp, simp add: r_def [symmetric], rule sw.costs_weaken [OF sw.costs_return], simp_all)
  next
    case True
    then have pend: "pending s q space stop = r # pending s (Suc q) space stop"
      using pending_step [OF q] by (simp add: r_def)
    have go: "(request_is_common r \<noteq> (space = SERIALIZED_FILE_SCHEMA_STRING_COMMON_EXACT35) \<or>
        unat (request_offset r) \<ge> stop) = False" using True by (auto simp: below_def)
    have one: "sw.costs limits (step_then (resolve_request r space bytes origin start stop terminated)
        (\<lambda>_. step_modify (\<lambda>compile. compile\<lparr>local_request_index := local_request_index compile + 1\<rparr>)))
      (names_state name s q) (unat (request_offset r) = start \<and> terminated) 1 () (names_state name s (Suc q))"
      by (rule resolve_request_costs [OF q r_def]) (rule name, assumption+, use True in \<open>simp add: below_def\<close>)
    have "sw.costs limits (step_then (step_then (resolve_request r space bytes origin start stop terminated)
        (\<lambda>_. step_modify (\<lambda>compile. compile\<lparr>local_request_index := local_request_index compile + 1\<rparr>)))
        (\<lambda>_. resolve_pending space bytes origin start stop terminated n)) (names_state name s q)
      ((unat (request_offset r) = start \<and> terminated) \<and>
        (\<forall>r \<in> set (pending s (Suc q) space stop). unat (request_offset r) = start \<and> terminated))
      (1 + length (pending s (Suc q) space stop)) () (names_state name s (Suc q + length (pending s (Suc q) space stop)))"
      by (rule sw.costs_then [OF one]) (rule Suc.IH, use Suc.prems in simp)
    then have "sw.costs limits (step_then (resolve_request r space bytes origin start stop terminated) (\<lambda>_.
        step_then (step_modify (\<lambda>compile. compile\<lparr>local_request_index := local_request_index compile + 1\<rparr>)) (\<lambda>_.
        resolve_pending space bytes origin start stop terminated n))) (names_state name s q)
      (\<forall>r \<in> set (pending s q space stop). unat (request_offset r) = start \<and> terminated)
      (length (pending s q space stop)) () (names_state name s (q + length (pending s q space stop)))"
      unfolding step_then_assoc by (rule sw.costs_weaken) (simp_all add: pend)
    then show ?thesis
      unfolding resolve_pending.simps
      by (intro sw.costs_with) (simp, simp only: names_state_fields r_def [symmetric] go if_False)
  qed
qed


lemma pending_set:
  "pending_ordered space (drop q (compile_requests s)) \<Longrightarrow>
     pending s q space stop = filter (below space stop) (drop q (compile_requests s))"
  by (simp add: pending_def pending_below)

lemma pending_split:
  assumes "stop \<le> extent"
  shows "pending s q space extent = pending s q space stop @ pending s (q + length (pending s q space stop)) space extent"
proof -
  have "takeWhile (below space extent) (drop q (compile_requests s)) = takeWhile (below space stop) (drop q (compile_requests s)) @
     takeWhile (below space extent) (drop (length (takeWhile (below space stop) (drop q (compile_requests s)))) (drop q (compile_requests s)))"
    by (rule takeWhile_longer) (use assms in \<open>auto simp: below_def\<close>)
  then show ?thesis unfolding pending_def by (simp only: drop_drop add.commute)
qed

text \<open>What the scan may rely on when the string that \<open>cursor\<close> is in began at \<open>start\<close>.\<close>

definition scan_at :: "memory \<Rightarrow> pointer \<Rightarrow> nat \<Rightarrow> nat \<Rightarrow> nat \<Rightarrow> bool" where
  "scan_at mem bytes start cursor n \<longleftrightarrow> start \<le> cursor \<and> (n = 0 \<longrightarrow> start = cursor) \<and>
     (n \<noteq> 0 \<longrightarrow> string_start mem bytes start) \<and> (\<forall>j. start \<le> j \<and> j < cursor \<longrightarrow> mem (bytes + of_nat j) \<noteq> 0)"

lemma scan_at_end:
  assumes "scan_at mem bytes start cursor (Suc n)" and "terminated \<longleftrightarrow> mem (bytes + of_nat cursor) = 0"
    and "terminated \<or> n = 0" and "start \<le> at" and "at \<le> cursor"
  shows "holds_string mem bytes (cursor + Suc n) at \<longleftrightarrow> at = start \<and> terminated"
    and "terminated \<Longrightarrow> string_end mem bytes (cursor + Suc n) start = Some cursor"
proof -
  show ended: "terminated \<Longrightarrow> string_end mem bytes (cursor + Suc n) start = Some cursor"
    using assms(1,2) by (auto simp: string_end_Some scan_at_def)
  have "string_end mem bytes (cursor + Suc n) start = None" if "\<not> terminated"
    using assms(1,2,3) that by (auto simp: string_end_None scan_at_def less_Suc_eq)
  moreover have "\<not> string_start mem bytes at" if "at \<noteq> start"
  proof -
    have "start \<le> at - 1" "at - 1 < cursor" "at \<noteq> 0" using assms(4,5) that by auto
    then have "mem (bytes + of_nat (at - 1)) \<noteq> 0" using assms(1) unfolding scan_at_def by blast
    then show ?thesis using \<open>at \<noteq> 0\<close> by (simp add: string_start_def)
  qed
  moreover have "string_start mem bytes start" using assms(1) by (simp add: scan_at_def)
  ultimately show "holds_string mem bytes (cursor + Suc n) at \<longleftrightarrow> at = start \<and> terminated"
    using ended unfolding holds_string_def by (cases "at = start"; cases terminated) simp_all
qed

lemma resolve_bytes_costs:
  assumes name: "\<And>r. matches space r \<Longrightarrow> name r = table_name mem space bytes extent origin r"
    and m: "unat (compile_request_count s) = length (compile_requests s)"
    and "cursor + n = extent" and "scan_at mem bytes start cursor n"
    and "pending_ordered space (drop q (compile_requests s))"
    and "\<And>r. r \<in> set (drop q (compile_requests s)) \<Longrightarrow> matches space r \<Longrightarrow> start \<le> unat (request_offset r)"
  shows "sw.costs limits (resolve_bytes mem space bytes origin cursor start n) (names_state name s q)
    (\<forall>r \<in> set (pending s q space extent). holds_string mem bytes extent (unat (request_offset r)))
    (n + length (pending s q space extent)) () (names_state name s (q + length (pending s q space extent)))"
  using assms(3-6)
proof (induction n arbitrary: cursor start q)
  case 0
  have "\<not> below space extent r" if "r \<in> set (drop q (compile_requests s))" for r
  proof
    assume "below space extent r"
    then have "matches space r" "unat (request_offset r) < extent" by (simp_all add: below_def)
    then show False using "0.prems"(4) [OF that] "0.prems"(1,2) by (simp add: scan_at_def)
  qed
  then have "pending s q space extent = []" by (simp add: pending_set [OF "0.prems"(3)] filter_empty_conv)
  then show ?case
    unfolding resolve_bytes.simps by (intro sw.costs_weaken [OF sw.costs_return]) simp_all
next
  case (Suc n)
  define terminated where "terminated \<longleftrightarrow> mem (bytes + of_nat cursor) = 0"
  have charge: "sw.costs limits (schema_charge 1 SERIALIZED_FILE_SCHEMA_FIELD_STRING_TERMINATOR SIZE_MAX (space_error space)
      (origin + of_nat cursor)) (names_state name s q) True 1 () (names_state name s q)"
    by (rule charge_costs) simp
  show ?case
  proof (cases "\<not> terminated \<and> n \<noteq> 0")
    case True
    have "sw.costs limits (resolve_bytes mem space bytes origin (cursor + 1) start n) (names_state name s q)
      (\<forall>r \<in> set (pending s q space extent). holds_string mem bytes extent (unat (request_offset r)))
      (n + length (pending s q space extent)) () (names_state name s (q + length (pending s q space extent)))"
    proof (rule Suc.IH)
      show "scan_at mem bytes start (cursor + 1) n"
        using Suc.prems(2) True by (auto simp: scan_at_def terminated_def less_Suc_eq)
    qed (use Suc.prems in simp_all)
    then have "sw.costs limits (step_then (schema_charge 1 SERIALIZED_FILE_SCHEMA_FIELD_STRING_TERMINATOR SIZE_MAX
        (space_error space) (origin + of_nat cursor)) (\<lambda>_. resolve_bytes mem space bytes origin (cursor + 1) start n))
      (names_state name s q)
      (True \<and> (\<forall>r \<in> set (pending s q space extent). holds_string mem bytes extent (unat (request_offset r))))
      (1 + (n + length (pending s q space extent))) () (names_state name s (q + length (pending s q space extent)))"
      by (rule sw.costs_then [OF charge])
    then show ?thesis
      using True unfolding resolve_bytes.simps terminated_def [symmetric] Let_def by simp
  next
    case False
    then have last: "terminated \<or> n = 0" by blast
    let ?P = "pending s q space (cursor + 1)"
    have stop: "cursor + 1 \<le> extent" and extent: "extent = cursor + Suc n" using Suc.prems(1) by simp_all
    have P: "start \<le> unat (request_offset r) \<and> unat (request_offset r) \<le> cursor" if "r \<in> set ?P" for r
      using that Suc.prems(3,4) by (auto simp: pending_set below_def less_Suc_eq_le)
    have holds: "holds_string mem bytes extent (unat (request_offset r)) \<longleftrightarrow> unat (request_offset r) = start \<and> terminated"
      if "r \<in> set ?P" for r
      unfolding extent using P [OF that] by (intro scan_at_end(1) [OF Suc.prems(2) terminated_def last]) auto
    have ended: "string_end mem bytes extent start = Some cursor" if terminated
      unfolding extent
      by (rule scan_at_end(2) [OF Suc.prems(2) terminated_def last order_refl _ that]) (use Suc.prems(2) in \<open>simp add: scan_at_def\<close>)
    have names: "name r = \<lparr>schema_string_space = space, schema_string_encoded_offset = encoded_offset r,
        schema_string_bytes = bytes + of_nat start, schema_string_byte_count = of_nat (cursor + 1 - start - 1),
        schema_string_source_offset = origin + of_nat start\<rparr>"
      if "unat (request_offset r) = start" terminated "matches space r" for r
      using name [OF that(3)] ended [OF that(2)] unfolding table_name_def that(1) by (simp add: Let_def)
    have run: "sw.costs limits (step_with (\<lambda>compile. unat (compile_request_count compile) - local_request_index compile)
        (resolve_pending space bytes origin start (cursor + 1) terminated)) (names_state name s q)
      (\<forall>r \<in> set ?P. unat (request_offset r) = start \<and> terminated) (length ?P) () (names_state name s (q + length ?P))"
      by (rule sw.costs_with, simp, rule resolve_pending_costs, erule names, assumption+) (simp add: m)
    have rest: "sw.costs limits (resolve_bytes mem space bytes origin (cursor + 1) (cursor + 1) n) (names_state name s (q + length ?P))
      (\<forall>r \<in> set (pending s (q + length ?P) space extent). holds_string mem bytes extent (unat (request_offset r)))
      (n + length (pending s (q + length ?P) space extent)) ()
      (names_state name s (q + length ?P + length (pending s (q + length ?P) space extent)))"
    proof (rule Suc.IH)
      show "cursor + 1 + n = extent" using Suc.prems(1) by simp
      show "scan_at mem bytes (cursor + 1) (cursor + 1) n"
        using last by (auto simp: scan_at_def string_start_def terminated_def)
      show order: "pending_ordered space (drop (q + length ?P) (compile_requests s))"
        by (rule pending_drop [OF Suc.prems(3)]) simp
      have dropped: "drop (q + length ?P) (compile_requests s) = dropWhile (below space (cursor + 1)) (drop q (compile_requests s))"
        unfolding pending_def dropWhile_eq_drop by (simp add: add.commute)
      show "cursor + 1 \<le> unat (request_offset r)"
        if "r \<in> set (drop (q + length ?P) (compile_requests s))" "matches space r" for r
      proof (rule ccontr)
        assume "\<not> cursor + 1 \<le> unat (request_offset r)"
        then have r: "below space (cursor + 1) r" using that(2) by (simp add: below_def)
        have "takeWhile (below space (cursor + 1)) (drop (q + length ?P) (compile_requests s)) = []"
          unfolding dropped by (metis dropWhile_idem takeWhile_dropWhile_id append_self_conv2 dropWhile_eq_self_iff takeWhile_eq_Nil_iff)
        then show False using r that(1) unfolding pending_below [OF order] by (auto simp: filter_empty_conv)
      qed
    qed
    have "sw.costs limits (step_then (schema_charge 1 SERIALIZED_FILE_SCHEMA_FIELD_STRING_TERMINATOR SIZE_MAX
        (space_error space) (origin + of_nat cursor)) (\<lambda>_. step_then (step_with (\<lambda>compile. unat (compile_request_count compile) - local_request_index compile)
        (resolve_pending space bytes origin start (cursor + 1) terminated)) (\<lambda>_.
        resolve_bytes mem space bytes origin (cursor + 1) (cursor + 1) n)))
      (names_state name s q)
      (True \<and> (\<forall>r \<in> set ?P. unat (request_offset r) = start \<and> terminated) \<and>
        (\<forall>r \<in> set (pending s (q + length ?P) space extent). holds_string mem bytes extent (unat (request_offset r))))
      (1 + (length ?P + (n + length (pending s (q + length ?P) space extent)))) ()
      (names_state name s (q + length ?P + length (pending s (q + length ?P) space extent)))"
      by (rule sw.costs_then [OF charge], rule sw.costs_then [OF run], rule rest)
    then have "sw.costs limits (resolve_bytes mem space bytes origin cursor start (Suc n)) (names_state name s q)
      (True \<and> (\<forall>r \<in> set ?P. unat (request_offset r) = start \<and> terminated) \<and>
        (\<forall>r \<in> set (pending s (q + length ?P) space extent). holds_string mem bytes extent (unat (request_offset r))))
      (1 + (length ?P + (n + length (pending s (q + length ?P) space extent)))) ()
      (names_state name s (q + length ?P + length (pending s (q + length ?P) space extent)))"
      unfolding resolve_bytes.simps terminated_def [symmetric] Let_def using False by (simp only: if_False)
    then show ?thesis
      by (rule sw.costs_weaken) (use holds in \<open>auto simp: pending_split [OF stop, of s q space] add.assoc\<close>)
  qed
qed


definition in_space :: "SchemaCompile \<Rightarrow> nat \<Rightarrow> SerializedFileSchemaStringSpace \<Rightarrow> NameRequest list" where
  "in_space s q space = filter (matches space) (drop q (compile_requests s))"

text \<open>A table settles all the requests into it or fails.\<close>

lemma resolve_table_costs:
  assumes name: "\<And>r. matches space r \<Longrightarrow> name r = table_name mem space bytes (unat extent) origin r"
    and m: "unat (compile_request_count s) = length (compile_requests s)"
    and order: "pending_ordered space (drop q (compile_requests s))"
  shows "sw.costs limits (resolve_table mem space bytes extent origin) (names_state name s q)
    (\<forall>r \<in> set (in_space s q space). holds_string mem bytes (unat extent) (unat (request_offset r)))
    (unat extent + length (in_space s q space)) () (names_state name s (q + length (in_space s q space)))"
proof -
  define P where "P = pending s q space (unat extent)"
  define p where "p = q + length P"
  define D where "D \<longleftrightarrow> (\<forall>r \<in> set (drop p (compile_requests s)). \<not> matches space r)"
  have P: "P = filter (below space (unat extent)) (drop q (compile_requests s))"
    unfolding P_def by (rule pending_set [OF order])
  have rest: "drop p (compile_requests s) = dropWhile (below space (unat extent)) (drop q (compile_requests s))"
    unfolding p_def P_def pending_def dropWhile_eq_drop by (simp add: add.commute)
  have split: "drop q (compile_requests s) = P @ drop p (compile_requests s)"
    unfolding rest P_def pending_def by simp
  have head: "D \<longleftrightarrow> \<not> matches space (compile_requests s ! p)" if "p < length (compile_requests s)"
  proof -
    have cons: "drop p (compile_requests s) = compile_requests s ! p # drop (Suc p) (compile_requests s)"
      using that by (simp add: Cons_nth_drop_Suc)
    have "pending_ordered space (drop p (compile_requests s))" by (rule pending_drop [OF order]) (simp add: p_def)
    then show ?thesis unfolding D_def cons pending_ordered_def by auto
  qed
  have scanned: "sw.costs limits (resolve_bytes mem space bytes origin 0 0 (unat extent)) (names_state name s q)
      (\<forall>r \<in> set P. holds_string mem bytes (unat extent) (unat (request_offset r))) (unat extent + length P) ()
      (names_state name s p)"
    unfolding p_def P_def
    by (rule resolve_bytes_costs [OF name m]) (simp_all add: order scan_at_def string_start_def)
  let ?r = "compile_requests s ! p"
  have checked: "sw.costs limits (step_with (\<lambda>compile. local_request_index compile < unat (compile_request_count compile)) (\<lambda>pending.
     if \<not> pending then step_return ()
     else
       step_with (\<lambda>compile. compile_requests compile ! local_request_index compile) (\<lambda>request.
       if request_is_common request \<noteq> (space = SERIALIZED_FILE_SCHEMA_STRING_COMMON_EXACT35) then step_return ()
       else
         step_with (request_error_offset request space) (\<lambda>error_offset.
         step_then (schema_charge 1 (request_field request) (request_node request) (space_error space)
           error_offset) (\<lambda>_ compile.
         (None, schema_reject SERIALIZED_FILE_SCHEMA_INVALID_STRING_OFFSET SERIALIZED_FILE_SCHEMA_LIMIT_NONE
           (request_field request) (request_node request) (space_error space) error_offset compile)))))) (names_state name s p)
     D 0 () (names_state name s p)"
  proof (rule sw.costs_with, simp, unfold names_state_fields m)
    consider (none) "\<not> p < length (compile_requests s)" | (other) "p < length (compile_requests s)" "\<not> matches space ?r"
      | (left) "p < length (compile_requests s)" "matches space ?r" by blast
    then show "sw.costs limits (if \<not> p < length (compile_requests s) then step_return ()
     else
       step_with (\<lambda>compile. compile_requests compile ! local_request_index compile) (\<lambda>request.
       if request_is_common request \<noteq> (space = SERIALIZED_FILE_SCHEMA_STRING_COMMON_EXACT35) then step_return ()
       else
         step_with (request_error_offset request space) (\<lambda>error_offset.
         step_then (schema_charge 1 (request_field request) (request_node request) (space_error space)
           error_offset) (\<lambda>_ compile.
         (None, schema_reject SERIALIZED_FILE_SCHEMA_INVALID_STRING_OFFSET SERIALIZED_FILE_SCHEMA_LIMIT_NONE
           (request_field request) (request_node request) (space_error space) error_offset compile))))) (names_state name s p)
     D 0 () (names_state name s p)"
    proof cases
      case none
      then have D by (simp add: D_def)
      with none show ?thesis by (simp only: not_True_eq_False not_False_eq_True if_True) (rule sw.costs_weaken [OF sw.costs_return], simp_all)
    next
      case other
      then have D using head by simp
      show ?thesis
        using other \<open>D\<close>
        by (simp only: not_True_eq_False if_False)
          (rule sw.costs_with, simp, simp only: names_state_fields not_False_eq_True if_True,
           rule sw.costs_weaken [OF sw.costs_return], simp_all)
    next
      case left
      then have "\<not> D" using head by simp
      show ?thesis
        using left \<open>\<not> D\<close>
        by (simp only: not_True_eq_False if_False)
          (rule sw.costs_with, simp, simp only: names_state_fields simp_thms if_False, rule sw.costs_with, simp,
           rule sw.costs_weaken, rule sw.costs_then, rule charge_costs, rule refl, rule refuse_costs, simp_all)
    qed
  qed
  have "sw.costs limits (resolve_table mem space bytes extent origin) (names_state name s q)
      ((\<forall>r \<in> set P. holds_string mem bytes (unat extent) (unat (request_offset r))) \<and> D)
      (unat extent + length P + 0) () (names_state name s p)"
    unfolding resolve_table_def by (rule sw.costs_then [OF scanned], rule checked)
  then show ?thesis
  proof (rule sw.costs_weaken)
    have inside: "holds_string mem bytes (unat extent) at \<Longrightarrow> at < unat extent" for at
      by (auto simp: holds_string_def string_end_Some)
    have matched: "filter (matches space) P = P"
      unfolding P by (auto simp: filter_filter below_def intro: filter_cong)
    have all: "in_space s q space = P @ filter (matches space) (drop p (compile_requests s))"
      unfolding in_space_def split filter_append matched ..
    have "filter (below space (unat extent)) P = P" unfolding P by simp
    then have "P = P @ filter (below space (unat extent)) (drop p (compile_requests s))"
      using P unfolding split filter_append by simp
    then have out: "\<not> below space (unat extent) r" if "r \<in> set (drop p (compile_requests s))" for r
      using that by (simp add: filter_empty_conv)
    have D: "D \<longleftrightarrow> filter (matches space) (drop p (compile_requests s)) = []"
      unfolding D_def filter_empty_conv ..
    show "(\<forall>r \<in> set (in_space s q space). holds_string mem bytes (unat extent) (unat (request_offset r))) \<longleftrightarrow>
        (\<forall>r \<in> set P. holds_string mem bytes (unat extent) (unat (request_offset r))) \<and> D"
      (is "?all \<longleftrightarrow> ?some \<and> D")
    proof
      assume ?all
      have D
        unfolding D_def
      proof (intro ballI notI)
        fix r
        assume r: "r \<in> set (drop p (compile_requests s))" "matches space r"
        then have "r \<in> set (in_space s q space)" unfolding all by simp
        with \<open>?all\<close> have "unat (request_offset r) < unat extent" using inside by blast
        with r(2) have "below space (unat extent) r" by (simp add: below_def)
        with out [OF r(1)] show False by blast
      qed
      with \<open>?all\<close> show "?some \<and> D" by (simp add: all)
    next
      assume "?some \<and> D"
      then have ?some and "in_space s q space = P" unfolding all D by simp_all
      then show ?all by simp
    qed
    show "unat extent + length (in_space s q space) = unat extent + length P + 0 \<and> () = () \<and>
        names_state name s (q + length (in_space s q space)) = names_state name s p"
      if "(\<forall>r \<in> set P. holds_string mem bytes (unat extent) (unat (request_offset r))) \<and> D"
      using that D by (simp add: all p_def)
  qed
qed


section \<open>Both tables\<close>

lemma request_words:
  shows common_value: "request_is_common r \<longleftrightarrow> 2 ^ 31 \<le> unat (encoded_offset r)"
    and offset_value: "unat (request_offset r) = unat (encoded_offset r) mod 2 ^ 31"
proof -
  have high: "(0x80000000 :: u32) = 2 ^ 31" and low: "(0x7FFFFFFF :: u32) = mask 31"
    by (simp_all add: mask_eq_exp_minus_1)
  have "unat (encoded_offset r) < 2 ^ 32" using unsigned_less [of "encoded_offset r"] by simp
  then have "unat (encoded_offset r) div 2 ^ 31 < 2" by (simp add: less_mult_imp_div_less)
  have "request_is_common r \<longleftrightarrow> bit (encoded_offset r) 31"
    unfolding request_is_common_def high by (simp only: and_exp_eq_0_iff_not_bit not_not)
  also have "\<dots> \<longleftrightarrow> odd (unat (encoded_offset r) div 2 ^ 31)"
    using bit_unsigned_iff [where 'a = nat and w = "encoded_offset r" and n = 31] bit_iff_odd [of "unat (encoded_offset r)" 31] by simp
  also have "\<dots> \<longleftrightarrow> unat (encoded_offset r) div 2 ^ 31 \<noteq> 0"
    using \<open>unat (encoded_offset r) div 2 ^ 31 < 2\<close> by (cases "unat (encoded_offset r) div 2 ^ 31" rule: nat.exhaust) (auto simp del: power_numeral)
  also have "\<dots> \<longleftrightarrow> 2 ^ 31 \<le> unat (encoded_offset r)"
    by (simp add: div_eq_0_iff not_less)
  finally show "request_is_common r \<longleftrightarrow> 2 ^ 31 \<le> unat (encoded_offset r)" .
  show "unat (request_offset r) = unat (encoded_offset r) mod 2 ^ 31"
    unfolding request_offset_def low by (simp only: take_bit_eq_mask [symmetric] unsigned_take_bit_eq) (rule take_bit_eq_mod)
qed

lemma request_order:
  assumes "unat (encoded_offset r) \<le> unat (encoded_offset r')"
  shows "request_is_common r \<Longrightarrow> request_is_common r'"
    and "request_is_common r = request_is_common r' \<Longrightarrow> unat (request_offset r) \<le> unat (request_offset r')"
proof -
  have bound: "unat (encoded_offset r') < 2 ^ 32" using unsigned_less [of "encoded_offset r'"] by simp
  show "request_is_common r \<Longrightarrow> request_is_common r'" using assms by (simp add: common_value)
  show "unat (request_offset r) \<le> unat (request_offset r')" if "request_is_common r = request_is_common r'"
  proof (cases "2 ^ 31 \<le> unat (encoded_offset r)")
    case True
    then have "unat (encoded_offset r) mod 2 ^ 31 = unat (encoded_offset r) - 2 ^ 31"
      "unat (encoded_offset r') mod 2 ^ 31 = unat (encoded_offset r') - 2 ^ 31"
      using assms bound by (auto simp: le_mod_geq)
    with assms show ?thesis by (simp add: offset_value)
  next
    case False
    with that assms show ?thesis by (simp add: offset_value common_value)
  qed
qed

abbreviation offset_sorted :: "NameRequest list \<Rightarrow> bool" where
  "offset_sorted rs \<equiv> sorted (map (\<lambda>r. unat (encoded_offset r)) rs)"

lemma sorted_spaces:
  "offset_sorted rs \<Longrightarrow> rs = filter (\<lambda>r. \<not> request_is_common r) rs @ filter request_is_common rs"
proof (induction rs)
  case (Cons r rs)
  show ?case
  proof (cases "request_is_common r")
    case True
    then have "\<forall>r' \<in> set rs. request_is_common r'" using Cons.prems request_order(1) by fastforce
    with True show ?thesis by (simp add: filter_empty_conv)
  next
    case False
    with Cons show ?thesis by simp
  qed
qed simp

lemma sorted_pending:
  assumes "offset_sorted rs" and "matches space = (\<lambda>r. \<not> request_is_common r) \<or> (\<forall>r \<in> set rs. matches space r)"
  shows "pending_ordered space rs"
  using assms
proof (induction rs)
  case (Cons r rs)
  then have rs: "pending_ordered space rs" by auto
  have "matches space r \<and> unat (request_offset r) \<le> unat (request_offset r')"
    if r': "r' \<in> set rs" "matches space r'" for r'
  proof -
    have le: "unat (encoded_offset r) \<le> unat (encoded_offset r')" using Cons.prems(1) r'(1) by simp
    have m: "matches space r"
      using Cons.prems(2)
    proof
      assume eq: "matches space = (\<lambda>r. \<not> request_is_common r)"
      then have "\<not> request_is_common r'" using r'(2) by metis
      then have "\<not> request_is_common r" using request_order(1) [OF le] by blast
      then show ?thesis using eq by metis
    qed simp
    then have "request_is_common r = request_is_common r'" using r'(2) by blast
    with m request_order(2) [OF le] show ?thesis by blast
  qed
  with rs show ?case by (simp add: pending_ordered_def)
qed (simp add: pending_ordered_def)

text \<open>The table a request is into, and the name it resolves to.\<close>

definition request_resolves :: "memory \<Rightarrow> SerializedFileSchemaView \<Rightarrow> pointer \<times> u64 \<Rightarrow> NameRequest \<Rightarrow> bool" where
  "request_resolves mem view common r =
     (let strings = strings_source (schema_view_tree view); at = unat (request_offset r) in
      if request_is_common r then holds_string mem (fst common) (unat (snd common)) at
      else holds_string mem (span_data strings) (unat (span_size strings)) at)"

definition request_name ::
    "memory \<Rightarrow> SerializedFileSchemaView \<Rightarrow> pointer \<times> u64 \<Rightarrow> NameRequest \<Rightarrow> SerializedFileSchemaString" where
  "request_name mem view common r =
     (let strings = strings_source (schema_view_tree view) in
      if request_is_common r
      then table_name mem SERIALIZED_FILE_SCHEMA_STRING_COMMON_EXACT35 (fst common) (unat (snd common)) 0 r
      else table_name mem SERIALIZED_FILE_SCHEMA_STRING_LOCAL (span_data strings) (unat (span_size strings))
        (span_offset strings) r)"

lemma resolve_names_costs:
  assumes common: "common = (compile_common_bytes s, compile_common_size s)" and view: "view = compile_view s"
    and m: "unat (compile_request_count s) = length (compile_requests s)"
    and order: "offset_sorted (compile_requests s)"
  shows "sw.costs limits (resolve_names mem) s (\<forall>r \<in> set (compile_requests s). request_resolves mem view common r)
    (unat (span_size (strings_source (schema_view_tree view))) + unat (snd common) + length (compile_requests s)) ()
    (names_state (request_name mem view common) s (length (compile_requests s)))"
proof -
  let ?name = "request_name mem view common"
  define strings where "strings = strings_source (schema_view_tree view)"
  define R where "R = compile_requests s"
  define q where "q = length (filter (\<lambda>r. \<not> request_is_common r) R)"
  have split: "R = filter (\<lambda>r. \<not> request_is_common r) R @ filter request_is_common R"
    using sorted_spaces order by (simp add: R_def)
  then have rest: "drop q R = filter request_is_common R"
    unfolding q_def by (metis append_eq_conv_conj)
  have len: "q + length (filter request_is_common R) = length R"
    unfolding q_def by (metis split length_append)
  have spaces: "in_space s 0 SERIALIZED_FILE_SCHEMA_STRING_LOCAL = filter (\<lambda>r. \<not> request_is_common r) R"
    "in_space s q SERIALIZED_FILE_SCHEMA_STRING_COMMON_EXACT35 = filter request_is_common R"
    using rest by (simp_all add: in_space_def R_def)
  have first: "pending_ordered SERIALIZED_FILE_SCHEMA_STRING_LOCAL (drop 0 R)"
    by (rule sorted_pending) (simp_all add: R_def order)
  have "offset_sorted (drop q R)" using order by (simp add: R_def drop_map [symmetric] sorted_wrt_drop)
  then have second: "pending_ordered SERIALIZED_FILE_SCHEMA_STRING_COMMON_EXACT35 (drop q R)"
    by (rule sorted_pending) (simp add: rest)
  have parts: "compile_common_bytes s = fst common" "compile_common_size s = snd common" by (simp_all add: common)
  have prologue: "sw.costs limits (step_modify (\<lambda>compile. compile\<lparr>local_request_index := 0\<rparr>)) s True 0 () (names_state ?name s 0)"
    by (rule write_costs) (simp_all add: plain_write_def charged_at_def names_state_def)
  have here: "sw.costs limits (resolve_table mem SERIALIZED_FILE_SCHEMA_STRING_LOCAL (span_data strings) (span_size strings)
      (span_offset strings)) (names_state ?name s 0)
    (\<forall>r \<in> set (in_space s 0 SERIALIZED_FILE_SCHEMA_STRING_LOCAL).
      holds_string mem (span_data strings) (unat (span_size strings)) (unat (request_offset r)))
    (unat (span_size strings) + length (in_space s 0 SERIALIZED_FILE_SCHEMA_STRING_LOCAL)) ()
    (names_state ?name s (0 + length (in_space s 0 SERIALIZED_FILE_SCHEMA_STRING_LOCAL)))"
    by (rule resolve_table_costs) (simp_all add: request_name_def strings_def Let_def m first [unfolded R_def, simplified])
  have there: "sw.costs limits (resolve_table mem SERIALIZED_FILE_SCHEMA_STRING_COMMON_EXACT35 (fst common) (snd common) 0)
      (names_state ?name s q)
    (\<forall>r \<in> set (in_space s q SERIALIZED_FILE_SCHEMA_STRING_COMMON_EXACT35).
      holds_string mem (fst common) (unat (snd common)) (unat (request_offset r)))
    (unat (snd common) + length (in_space s q SERIALIZED_FILE_SCHEMA_STRING_COMMON_EXACT35)) ()
    (names_state ?name s (q + length (in_space s q SERIALIZED_FILE_SCHEMA_STRING_COMMON_EXACT35)))"
    by (rule resolve_table_costs) (simp_all add: request_name_def m second [unfolded R_def])
  have check: "sw.costs limits (step_require (\<lambda>compile. local_request_index compile = unat (compile_request_count compile))
      (\<lambda>compile. compile)) (names_state ?name s (length R)) True 0 () (names_state ?name s (length R))"
    by (rule sw.costs_require) (simp_all add: m R_def)
  have both: "(\<forall>r \<in> set R. request_resolves mem view common r) \<longleftrightarrow>
      (\<forall>r \<in> set (filter (\<lambda>r. \<not> request_is_common r) R). holds_string mem (span_data strings) (unat (span_size strings)) (unat (request_offset r))) \<and>
      (\<forall>r \<in> set (filter request_is_common R). holds_string mem (fst common) (unat (snd common)) (unat (request_offset r)))"
    by (auto simp: request_resolves_def strings_def [symmetric] Let_def)
  have "sw.costs limits (resolve_names mem) s
      (True \<and> (\<forall>r \<in> set (filter (\<lambda>r. \<not> request_is_common r) R). holds_string mem (span_data strings) (unat (span_size strings)) (unat (request_offset r))) \<and>
       (\<forall>r \<in> set (filter request_is_common R). holds_string mem (fst common) (unat (snd common)) (unat (request_offset r))) \<and> True)
      (0 + ((unat (span_size strings) + q) + ((unat (snd common) + length (filter request_is_common R)) + 0))) ()
      (names_state ?name s (length R))"
    unfolding resolve_names_def
    by (rule sw.costs_then [OF prologue], rule sw.costs_with, simp,
        simp only: names_state_fields view [symmetric] strings_def [symmetric],
        rule sw.costs_then [OF here [unfolded spaces add_0, folded q_def]], rule sw.costs_with, simp,
        simp only: names_state_fields parts prod.case,
        rule sw.costs_then [OF there [unfolded spaces len]], rule check)
  then show ?thesis
    by (rule sw.costs_weaken) (use len in \<open>auto simp: both strings_def R_def [symmetric]\<close>)
qed

end
