(* ===== verification/SchemaBody.thy ===== *)
theory SchemaBody
  imports SchemaRows SchemaRadix SchemaNames
begin

text \<open>The compilation as a whole: hierarchy, sort and names.\<close>

section \<open>The nodes with their names\<close>

definition node_name :: "memory \<Rightarrow> SerializedFileSchemaView \<Rightarrow> pointer \<times> u64 \<Rightarrow> nat \<Rightarrow> SerializedFileSchemaString" where
  "node_name mem view common j = request_name mem view common (name_request mem view j)"

definition compiled_nodes ::
    "memory \<Rightarrow> SerializedFileSchemaView \<Rightarrow> pointer \<times> u64 \<Rightarrow> nat \<Rightarrow> SerializedFileSchemaNode list" where
  "compiled_nodes mem view common n = map (\<lambda>k.
     (linked_node (node_levels mem view n) n (of_nat n) k (node_record mem view k))
       \<lparr>schema_node_type_name := node_name mem view common (2 * k),
        schema_node_field_name := node_name mem view common (2 * k + 1)\<rparr>) [0..<n]"

lemma name_request_slot:
  assumes "j < 2 * n" and "n \<le> 2 ^ 32"
  shows "unat (request_node (name_request mem view j)) = j div 2" and "request_is_name (name_request mem view j) = odd j"
proof -
  have "unat (of_nat j :: u64) = j" using assms by (simp add: unat_of_nat take_bit_nat_eq_self)
  then show "unat (request_node (name_request mem view j)) = j div 2" "request_is_name (name_request mem view j) = odd j"
    by (simp_all add: request_node_def request_is_name_def name_request_def unat_div word_eq_nat unat_mod odd_iff_mod_2_eq_one)
qed

lemma fold_name_nodes:
  assumes "\<forall>j \<in> set js. j < 2 * n" and "n \<le> 2 ^ 32" and "length nodes = n" and "k < n"
  shows "fold (name_node name) (map (name_request mem view) js) nodes ! k =
    (let node = nodes ! k;
         node = (if 2 * k \<in> set js then node\<lparr>schema_node_type_name := name (name_request mem view (2 * k))\<rparr> else node)
     in if 2 * k + 1 \<in> set js then node\<lparr>schema_node_field_name := name (name_request mem view (2 * k + 1))\<rparr> else node)"
  using assms(1,3)
proof (induction js arbitrary: nodes)
  case Nil
  then show ?case by simp
next
  case (Cons j js)
  have j: "j < 2 * n" using Cons.prems by simp
  let ?r = "name_request mem view j"
  have step: "name_node name ?r nodes = nodes[j div 2 := if odd j then (nodes ! (j div 2))\<lparr>schema_node_field_name := name ?r\<rparr>
      else (nodes ! (j div 2))\<lparr>schema_node_type_name := name ?r\<rparr>]"
    using name_request_slot [OF j assms(2)] by (simp add: name_node_def Let_def)
  have len: "length (name_node name ?r nodes) = n" using Cons.prems by (simp add: name_node_def Let_def)
  have even: "2 * k = j \<longleftrightarrow> j div 2 = k \<and> even j" and odd: "2 * k + 1 = j \<longleftrightarrow> j div 2 = k \<and> odd j" by presburger+
  have nth: "name_node name ?r nodes ! k = (if 2 * k = j then (nodes ! k)\<lparr>schema_node_type_name := name ?r\<rparr>
      else if 2 * k + 1 = j then (nodes ! k)\<lparr>schema_node_field_name := name ?r\<rparr> else nodes ! k)"
    unfolding step even odd using Cons.prems assms(4) by (auto simp: nth_list_update)
  have "fold (name_node name) (map (name_request mem view) js) (name_node name ?r nodes) ! k =
    (let node = name_node name ?r nodes ! k;
         node = (if 2 * k \<in> set js then node\<lparr>schema_node_type_name := name (name_request mem view (2 * k))\<rparr> else node)
     in if 2 * k + 1 \<in> set js then node\<lparr>schema_node_field_name := name (name_request mem view (2 * k + 1))\<rparr> else node)"
    by (rule Cons.IH) (use Cons.prems len in simp_all)
  then show ?case
    unfolding nth Let_def by (cases "2 * k = j"; cases "2 * k + 1 = j") auto
qed

lemma fold_name_length: "length (fold (name_node name) rs nodes) = length nodes"
  by (induction rs arbitrary: nodes) (simp_all add: name_node_def Let_def)

lemma all_named:
  assumes "mset rs = mset (node_names mem view n)" and "n \<le> 2 ^ 32"
  shows "fold (name_node (request_name mem view common)) rs (linked_nodes mem view n) = compiled_nodes mem view common n"
proof -
  have "set rs \<subseteq> name_request mem view ` {..<2 * n}"
    using mset_eq_setD [OF assms(1)] by (auto simp: node_names_def)
  then have "\<exists>js. rs = map (name_request mem view) js \<and> (\<forall>j \<in> set js. j < 2 * n)"
  proof (induction rs)
    case (Cons r rs)
    then obtain js j where "rs = map (name_request mem view) js" "\<forall>j \<in> set js. j < 2 * n" "r = name_request mem view j" "j < 2 * n"
      by auto
    then show ?case by (intro exI [of _ "j # js"]) simp
  qed simp
  then obtain js where js: "rs = map (name_request mem view) js" "\<forall>j \<in> set js. j < 2 * n" by blast
  have inj: "inj_on (name_request mem view) {..<2 * n}"
  proof (rule inj_onI)
    fix a b
    assume ab: "a \<in> {..<2 * n}" "b \<in> {..<2 * n}" and "name_request mem view a = name_request mem view b"
    then have "(of_nat a :: u64) = of_nat b" by (simp add: name_request_def)
    then show "a = b" using ab assms(2) by (auto simp: word_eq_nat unat_of_nat take_bit_nat_eq_self)
  qed
  have every: "j \<in> set js" if "j < 2 * n" for j
  proof -
    have "name_request mem view j \<in> set rs" using mset_eq_setD [OF assms(1)] that by (auto simp: node_names_def)
    then obtain i where "i \<in> set js" "name_request mem view i = name_request mem view j" using js(1) by auto
    then have "i = j" using inj js(2) that by (auto dest: inj_onD)
    with \<open>i \<in> set js\<close> show ?thesis by simp
  qed
  show ?thesis
  proof (rule nth_equalityI)
    fix k
    assume "k < length (fold (name_node (request_name mem view common)) rs (linked_nodes mem view n))"
    then have k: "k < n" by (simp add: fold_name_length linked_nodes_def)
    have len: "length (linked_nodes mem view n) = n" by (simp add: linked_nodes_def)
    show "fold (name_node (request_name mem view common)) rs (linked_nodes mem view n) ! k = compiled_nodes mem view common n ! k"
      unfolding js(1) fold_name_nodes [OF js(2) assms(2) len k]
      using every k by (simp add: compiled_nodes_def linked_nodes_def node_name_def)
  qed (simp add: fold_name_length linked_nodes_def compiled_nodes_def)
qed

section \<open>The body\<close>

text \<open>Every name of a tree is a whole string of its table.\<close>

definition names_ok :: "memory \<Rightarrow> SerializedFileSchemaView \<Rightarrow> pointer \<times> u64 \<Rightarrow> nat \<Rightarrow> bool" where
  "names_ok mem view common n \<longleftrightarrow> list_all (\<lambda>j. request_resolves mem view common (name_request mem view j)) [0..<2 * n]"

definition body_result :: "memory \<Rightarrow> pointer \<times> u64 \<Rightarrow> SchemaCompile \<Rightarrow> nat \<Rightarrow> SchemaCompile" where
  "body_result mem common s n =
     names_state (request_name mem (compile_view s) common) (sort_result (hierarchy_result mem s n)) (2 * n)"

lemma request_depth [simp]:
  "request_name mem (view\<lparr>schema_view_maximum_depth := d\<rparr>) = request_name mem view"
  "request_resolves mem (view\<lparr>schema_view_maximum_depth := d\<rparr>) = request_resolves mem view"
  by (simp_all add: fun_eq_iff request_name_def request_resolves_def)

lemma schema_compile_body_costs:
  assumes view: "view = compile_view s" and n: "unat (schema_view_node_count view) = n" "0 < n" "n \<le> 2 ^ 32"
    and depth: "schema_view_maximum_depth view = 0"
    and start: "compile_nodes s = replicate n zero_schema_node" "compile_requests s = replicate (2 * n) zero_name_request"
      "compile_sorted s = replicate (2 * n) zero_name_request"
    and m: "unat (compile_request_count s) = 2 * n" and common: "common = (compile_common_bytes s, compile_common_size s)"
  shows "sw.costs limits (schema_compile_body mem) s (hierarchy_ok mem view n limits \<and> names_ok mem view common n)
    (52 * n + unat (span_size (strings_source (schema_view_tree view))) + unat (snd common) + 2049) ()
    (body_result mem common s n)"
    and "compile_view (body_result mem common s n) =
      view\<lparr>schema_view_maximum_depth := of_nat (deepest (node_levels mem view n) n)\<rparr>"
    and "compile_nodes (body_result mem common s n) = compiled_nodes mem view common n"
    and "compile_result (body_result mem common s n) = compile_result s"
proof -
  define h where "h = hierarchy_result mem s n"
  define u where "u = sort_result h"
  have requests: "compile_requests h = node_names mem view n"
    by (simp add: h_def hierarchy_result_def hierarchy_state_def Let_def node_names_until view)
  have viewed: "compile_view h = view\<lparr>schema_view_maximum_depth := of_nat (deepest (node_levels mem view n) n)\<rparr>"
    by (simp add: h_def hierarchy_result_def hierarchy_state_def Let_def view)
  have nodes: "compile_nodes h = linked_nodes mem view n" by (simp add: h_def hierarchy_result_def view)
  have others: "compile_sorted h = compile_sorted s" "compile_request_count h = compile_request_count s"
    "compile_common_bytes h = compile_common_bytes s" "compile_common_size h = compile_common_size s"
    "compile_result h = compile_result s"
    by (simp_all add: h_def hierarchy_result_def hierarchy_state_def Let_def)
  have len: "length (node_names mem view n) = 2 * n" by (simp add: node_names_def)
  have u: "compile_requests u = sorted_requests (node_names mem view n)" "compile_view u = compile_view h"
    "compile_nodes u = compile_nodes h" "compile_request_count u = compile_request_count h"
    "compile_common_bytes u = compile_common_bytes h" "compile_common_size u = compile_common_size h"
    "compile_result u = compile_result h"
    by (simp_all add: u_def sort_result_def Let_def radix_state_def requests)
  have ulen: "length (compile_requests u) = 2 * n" by (simp add: u sorted_requests_def len)
  have hierarchy: "sw.costs limits (compile_hierarchy mem) s (hierarchy_ok mem view n limits) (34 * n) () h"
    unfolding h_def by (rule compile_hierarchy_costs [OF view n depth start(1,2)])
  have sort: "sw.costs limits sort_name_requests h True (2048 + 8 * length (node_names mem view n)) () u"
    unfolding u_def by (rule sort_name_requests_costs) (simp_all add: requests others start m len)
  have names: "sw.costs limits (resolve_names mem) u (\<forall>r \<in> set (compile_requests u). request_resolves mem (compile_view u) common r)
      (unat (span_size (strings_source (schema_view_tree (compile_view u)))) + unat (snd common) + length (compile_requests u)) ()
      (names_state (request_name mem (compile_view u) common) u (length (compile_requests u)))"
    by (rule resolve_names_costs) (simp_all add: u others common m ulen [unfolded u] sorted_requests_def len)
  have result: "names_state (request_name mem (compile_view u) common) u (length (compile_requests u)) = body_result mem common s n"
    unfolding ulen by (simp add: body_result_def u_def [symmetric] h_def [symmetric] u viewed view)
  have ok: "(\<forall>r \<in> set (compile_requests u). request_resolves mem (compile_view u) common r) = names_ok mem view common n"
    by (simp add: u viewed sorted_requests_def node_names_def names_ok_def list_all_iff)
  have last: "sw.costs limits (schema_charge_owner 1) (body_result mem common s n) True 1 () (body_result mem common s n)"
    by (rule charge_owner_costs) simp
  have "sw.costs limits (schema_compile_body mem) s (hierarchy_ok mem view n limits \<and> True \<and> names_ok mem view common n \<and> True)
     (34 * n + ((2048 + 8 * length (node_names mem view n)) + ((unat (span_size (strings_source (schema_view_tree (compile_view u)))) +
       unat (snd common) + length (compile_requests u)) + 1))) () (body_result mem common s n)"
    unfolding schema_compile_body_def
    by (rule sw.costs_then, rule hierarchy, rule sw.costs_then, rule sort, rule sw.costs_then,
        rule names [unfolded ok result], rule last)
  then show "sw.costs limits (schema_compile_body mem) s (hierarchy_ok mem view n limits \<and> names_ok mem view common n)
    (52 * n + unat (span_size (strings_source (schema_view_tree view))) + unat (snd common) + 2049) ()
    (body_result mem common s n)"
    by (rule sw.costs_weaken) (auto simp: u viewed sorted_requests_def len)
  show "compile_view (body_result mem common s n) =
      view\<lparr>schema_view_maximum_depth := of_nat (deepest (node_levels mem view n) n)\<rparr>"
    "compile_result (body_result mem common s n) = compile_result s"
    by (simp_all add: result [symmetric] u viewed others) (simp add: names_state_def u others)
  show "compile_nodes (body_result mem common s n) = compiled_nodes mem view common n"
    unfolding result [symmetric] names_state_def
    using all_named [of "compile_requests u" mem view n common] n(3)
    by (simp add: u viewed nodes sorted_requests_def)
qed

end
