(* ===== verification/SchemaAdmission.thy ===== *)
theory SchemaAdmission
  imports SchemaBody FileDirectoryCreate
begin

text \<open>What a creation asks before it allocates: the row, its tree and the room for it.\<close>

section \<open>The conditions\<close>

text \<open>The view that selecting a row leaves, where it has a tree to compile.\<close>

definition admitted_view ::
    "SchemaParent \<Rightarrow> SerializedFileSchemaRowKind \<Rightarrow> u64 \<Rightarrow> SerializedFileSchemaView option" where
  "admitted_view parent kind ordinal =
     (if view_engine_version (parent_directory parent) \<noteq> ENGINE_2021_3_35F1 then None
      else
        (case schema_row_view parent kind ordinal ((schema_start_view kind)
           \<lparr>schema_view_engine_version := view_engine_version (parent_directory parent),
            schema_view_prefix := view_prefix (parent_directory parent),
            schema_view_row_kind := kind, schema_view_type_ordinal := ordinal\<rparr>) of
           Some (view, True) \<Rightarrow> Some (view\<lparr>schema_view_node_count := ucast (node_count (schema_view_tree view))\<rparr>)
         | _ \<Rightarrow> None))"

definition span_backed :: "SchemaParent \<Rightarrow> SerializedFilePrefixSpan \<Rightarrow> bool" where
  "span_backed parent span \<longleftrightarrow> span_end span \<le> unat (parent_known_size parent) \<and>
     span_data span = parent_bytes parent + span_offset span"

definition tree_admitted ::
    "SchemaParent \<Rightarrow> SerializedFileSchemaLimits \<Rightarrow> SerializedFileDirectoryTree \<Rightarrow> bool" where
  "tree_admitted parent limits tree \<longleftrightarrow>
     (let n = unat (node_count tree); size = unat (string_byte_count tree) in
      n \<le> unat (schema_max_nodes limits) \<and> size \<le> unat (schema_max_local_string_bytes limits) \<and> 0 < n \<and>
      unat (span_size (nodes_source tree)) = 32 * n \<and> unat (span_size (strings_source tree)) = size \<and>
      span_backed parent (nodes_source tree) \<and> span_backed parent (strings_source tree) \<and>
      unat (span_offset (strings_source tree)) = span_end (nodes_source tree))"

definition storage_amount :: "nat \<Rightarrow> nat" where
  "storage_amount n = 840 + n * 168"

definition scratch_amount :: "nat \<Rightarrow> nat" where
  "scratch_amount n = 64 * n"

definition schema_room :: "SerializedFileSchemaLimits \<Rightarrow> nat \<Rightarrow> bool" where
  "schema_room limits n \<longleftrightarrow> storage_amount n \<le> unat (schema_max_retained_bytes limits) \<and>
     scratch_amount n \<le> unat (schema_max_scratch_bytes limits)"

definition schema_layout :: "nat \<Rightarrow> SchemaLayout" where
  "schema_layout n = \<lparr>layout_nodes_offset = 840, layout_retained_bytes = of_nat (storage_amount n),
     layout_scratch_bytes = of_nat (scratch_amount n), layout_request_count = of_nat (2 * n)\<rparr>"

section \<open>The steps\<close>

lemma schema_select_row_costs:
  assumes "compile_view s = schema_start_view kind"
  shows "sw.costs limits (schema_select_row parent kind ordinal) s (admitted_view parent kind ordinal \<noteq> None) 0 ()
    (s\<lparr>compile_view := the (admitted_view parent kind ordinal),
      compile_result := (compile_result s)\<lparr>schema_result_type_ordinal := ordinal\<rparr>\<rparr>)"
proof -
  let ?engine = "view_engine_version (parent_directory parent) = ENGINE_2021_3_35F1"
  define v where "v = (schema_start_view kind)
           \<lparr>schema_view_engine_version := view_engine_version (parent_directory parent),
            schema_view_prefix := view_prefix (parent_directory parent),
            schema_view_row_kind := kind, schema_view_type_ordinal := ordinal\<rparr>"
  define row where "row = schema_row_view parent kind ordinal v"
  let ?s = "s\<lparr>compile_view := v\<rparr>"
  let ?t = "s\<lparr>compile_view := the (admitted_view parent kind ordinal),
      compile_result := (compile_result s)\<lparr>schema_result_type_ordinal := ordinal\<rparr>\<rparr>"
  have chosen: "admitted_view parent kind ordinal = (if \<not> ?engine then None else
      case row of Some (view, True) \<Rightarrow> Some (view\<lparr>schema_view_node_count := ucast (node_count (schema_view_tree view))\<rparr>) | _ \<Rightarrow> None)"
    by (simp add: admitted_view_def row_def v_def)
  have engine: "sw.costs limits (step_require (\<lambda>_. ?engine) (schema_reject_owner SERIALIZED_FILE_SCHEMA_UNSUPPORTED_ENGINE
      SERIALIZED_FILE_SCHEMA_LIMIT_NONE)) s ?engine 0 () s"
    by (rule reject_owner_costs) simp_all
  have viewed: "sw.costs limits (step_modify (\<lambda>compile. compile\<lparr>compile_view := (compile_view compile)
         \<lparr>schema_view_engine_version := view_engine_version (parent_directory parent),
          schema_view_prefix := view_prefix (parent_directory parent),
          schema_view_row_kind := kind, schema_view_type_ordinal := ordinal\<rparr>\<rparr>)) s True 0 () ?s"
    by (rule write_costs) (simp_all add: plain_write_def charged_at_def assms v_def)
  have here: "compile_view ?s = v" by simp
  have rest: "sw.costs limits (case row of
       None \<Rightarrow> (\<lambda>compile. (None, schema_reject_owner SERIALIZED_FILE_SCHEMA_INVALID_ARGUMENT
         SERIALIZED_FILE_SCHEMA_LIMIT_NONE compile))
     | Some (view, embedded) \<Rightarrow>
         step_then (step_modify (\<lambda>compile. compile
           \<lparr>compile_view := view,
            compile_result := (compile_result compile)\<lparr>schema_result_type_ordinal := ordinal\<rparr>\<rparr>)) (\<lambda>_.
         step_then (step_require (\<lambda>_. embedded)
           (schema_reject_owner SERIALIZED_FILE_SCHEMA_NO_EMBEDDED_TREE SERIALIZED_FILE_SCHEMA_LIMIT_NONE)) (\<lambda>_.
         step_modify (\<lambda>compile. compile\<lparr>compile_view := (compile_view compile)
           \<lparr>schema_view_node_count := ucast (node_count (schema_view_tree (compile_view compile)))\<rparr>\<rparr>)))) ?s
      (\<exists>view. row = Some (view, True)) 0 () ?t" if ?engine
  proof (cases row)
    case None
    then show ?thesis
      unfolding schema_reject_owner_def
      by (simp only: option.case) (rule sw.costs_weaken, rule refuse_costs, simp_all)
  next
    case (Some pair)
    then obtain view embedded where row: "row = Some (view, embedded)" by (cases pair) simp
    show ?thesis
      unfolding row option.case prod.case
    proof (rule sw.costs_weaken, rule sw.costs_then, rule write_costs, rule_tac [2] refl, rule_tac [2] sw.costs_then,
        rule_tac [2] reject_owner_costs, rule_tac [4] write_costs)
      show "True \<and> embedded \<and> True \<Longrightarrow> (0 :: nat) = 0 + (0 + 0) \<and> () = () \<and> ?t = ?s
         \<lparr>compile_view := view\<lparr>schema_view_node_count := ucast (node_count (schema_view_tree view))\<rparr>,
          compile_result := (compile_result ?s)\<lparr>schema_result_type_ordinal := ordinal\<rparr>\<rparr>"
        using that row by (simp add: chosen)
    qed (simp_all add: plain_write_def charged_at_def)
  qed
  have "sw.costs limits (schema_select_row parent kind ordinal) s (?engine \<and> True \<and> (\<exists>view. row = Some (view, True))) (0 + (0 + 0)) () ?t"
    unfolding schema_select_row_def
    by (rule sw.costs_then, rule engine, rule sw.costs_then, rule viewed, rule sw.costs_with, simp,
        simp only: here row_def [symmetric], erule rest)
  then show ?thesis
    by (rule sw.costs_weaken) (auto simp: chosen split: option.splits bool.splits)
qed


lemma backed_iff: "schema_source_is_backed parent span \<longleftrightarrow> span_backed parent span"
proof -
  have "span_offset span \<le> parent_known_size parent \<and> span_size span \<le> parent_known_size parent - span_offset span \<longleftrightarrow>
      span_end span \<le> unat (parent_known_size parent)"
    by (cases "span_offset span \<le> parent_known_size parent")
      (auto simp: word_le_nat_alt span_end_def unat_sub)
  then show ?thesis by (auto simp: schema_source_is_backed_def span_backed_def)
qed

lemma widened: "unat (ucast (w :: u32) :: u64) = unat w"
  by (rule unat_widen) simp

lemma schema_admit_tree_costs:
  assumes "compile_limits s = limits"
  shows "sw.costs limits (schema_admit_tree parent) s (tree_admitted parent limits (schema_view_tree (compile_view s))) 0 () s"
proof -
  define tree where "tree = schema_view_tree (compile_view s)"
  let ?nodes = "nodes_source tree" and ?strings = "strings_source tree"
  define n where "n = unat (node_count tree)"
  have wide: "unat (ucast (node_count tree) :: u64) = n" "unat (ucast (string_byte_count tree) :: u64) = unat (string_byte_count tree)"
    by (simp_all add: n_def widened)
  define node_bytes where "node_bytes = (ucast (node_count tree) :: u64) * 32"
  have n: "n < 2 ^ 32" using unsigned_less [of "node_count tree"] by (simp add: n_def)
  have bytes: "unat node_bytes = 32 * n"
    using n unfolding node_bytes_def by (simp add: unat_word_ariths wide)
  have lim: "(\<not> (ucast (node_count tree) :: u64) > schema_max_nodes limits) = (n \<le> unat (schema_max_nodes limits))"
    "(\<not> (ucast (string_byte_count tree) :: u64) > schema_max_local_string_bytes limits) =
      (unat (string_byte_count tree) \<le> unat (schema_max_local_string_bytes limits))"
    by (simp_all add: not_less word_le_nat_alt wide)
  have fit: "(\<not> (node_count tree = 0 \<or> node_bytes \<noteq> span_size ?nodes \<or>
           ucast (string_byte_count tree) \<noteq> span_size ?strings \<or>
           \<not> schema_source_is_backed parent ?nodes \<or> \<not> schema_source_is_backed parent ?strings \<or>
           span_offset ?nodes > UINT64_MAX - node_bytes \<or>
           span_offset ?strings \<noteq> span_offset ?nodes + node_bytes)) =
     (0 < n \<and> unat (span_size ?nodes) = 32 * n \<and> unat (span_size ?strings) = unat (string_byte_count tree) \<and>
      span_backed parent ?nodes \<and> span_backed parent ?strings \<and> unat (span_offset ?strings) = span_end ?nodes)"
    (is "?code = ?spec")
  proof -
    have e: "node_count tree = 0 \<longleftrightarrow> \<not> 0 < n" "node_bytes \<noteq> span_size ?nodes \<longleftrightarrow> unat (span_size ?nodes) \<noteq> 32 * n"
      "ucast (string_byte_count tree) \<noteq> span_size ?strings \<longleftrightarrow> unat (span_size ?strings) \<noteq> unat (string_byte_count tree)"
      by (simp add: n_def unat_eq_zero, auto simp only: word_eq_nat bytes wide)
    have f: "\<not> span_offset ?nodes > UINT64_MAX - node_bytes"
      "span_offset ?strings \<noteq> span_offset ?nodes + node_bytes \<longleftrightarrow> unat (span_offset ?strings) \<noteq> span_end ?nodes"
      if "unat (span_size ?nodes) = 32 * n" "span_backed parent ?nodes"
    proof -
      have fits: "unat (span_offset ?nodes) + unat node_bytes < 2 ^ 64"
        using that u64_bound [of "parent_known_size parent"] by (simp add: span_backed_def span_end_def bytes)
      then have "unat (span_offset ?nodes + node_bytes) = span_end ?nodes"
        using that by (simp add: unat_add_fits span_end_def bytes)
      then show "span_offset ?strings \<noteq> span_offset ?nodes + node_bytes \<longleftrightarrow> unat (span_offset ?strings) \<noteq> span_end ?nodes"
        by (simp only: word_eq_nat)
      have "unat (UINT64_MAX - node_bytes) = 2 ^ 64 - 1 - unat node_bytes"
        by (subst unat_sub) (simp_all add: word_le_nat_alt bytes n, use n in simp)
      with fits show "\<not> span_offset ?nodes > UINT64_MAX - node_bytes" by (simp add: not_less word_le_nat_alt)
    qed
    show ?thesis unfolding e backed_iff using f by blast
  qed
  have "sw.costs limits (schema_admit_tree parent) s
      (n \<le> unat (schema_max_nodes limits) \<and> unat (string_byte_count tree) \<le> unat (schema_max_local_string_bytes limits) \<and> ?spec)
      (0 + (0 + 0)) () s"
    unfolding schema_admit_tree_def
    by (rule sw.costs_with, simp, fold tree_def, unfold node_bytes_def [symmetric] Let_def, rule sw.costs_then,
        rule reject_owner_costs, simp only: charged_at_fields lim, simp, rule sw.costs_then, rule reject_owner_costs,
        simp only: charged_at_fields lim, simp, rule reject_owner_costs, simp only: fit, simp)
  then show ?thesis
    by (rule sw.costs_weaken) (simp_all add: tree_admitted_def tree_def [symmetric] Let_def n_def)
qed


definition planned_result :: "nat \<Rightarrow> SerializedFileSchemaResult \<Rightarrow> SerializedFileSchemaResult" where
  "planned_result n r = r\<lparr>schema_required_retained_bytes := of_nat (storage_amount n),
     schema_required_scratch_bytes := of_nat (scratch_amount n)\<rparr>"

lemma word_of_small: "m < 2 ^ 64 \<Longrightarrow> unat (of_nat m :: u64) = m"
  by (simp add: unat_of_nat take_bit_nat_eq_self)

lemma amounts_small:
  assumes "n < 2 ^ 32"
  shows "unat (of_nat (storage_amount n) :: u64) = storage_amount n" "unat (of_nat (scratch_amount n) :: u64) = scratch_amount n"
    "unat (of_nat (2 * n) :: u64) = 2 * n" "unat (of_nat n :: u64) = n"
  by (rule word_of_small, use assms in \<open>simp add: storage_amount_def scratch_amount_def\<close>)+

lemma schema_plan_storage_costs:
  assumes count: "schema_view_node_count (compile_view s) = of_nat n" and n: "n < 2 ^ 32"
  shows "sw.costs limits schema_plan_storage s (schema_room limits n) 1 (schema_layout n)
    (s\<lparr>compile_result := planned_result n (compile_result s)\<rparr>)"
proof -
  note small = amounts_small [OF n]
  have retained: "serialized_file_storage_append_array_internal sizeof_schema_storage alignof_row (of_nat n) sizeof_schema_node =
      Some (of_nat (storage_amount n), 840)"
  proof -
    obtain stop where "serialized_file_storage_append_array_internal sizeof_schema_storage alignof_row (of_nat n)
        sizeof_schema_node = Some (stop, 840)" "unat stop = storage_amount n"
      using append_rows [of sizeof_schema_storage "of_nat n" sizeof_schema_node] n small by (auto simp: storage_amount_def)
    with small show ?thesis by (auto simp: word_eq_nat)
  qed
  have double: "\<not> dxbc_size_multiply_overflows (of_nat n) 2" "(of_nat n :: u64) * 2 = of_nat (2 * n)"
    using n small by (simp_all add: multiply_overflows_iff)
  have half: "serialized_file_storage_append_array_internal 0 alignof_row (of_nat (2 * n)) sizeof_name_request =
      Some (of_nat (32 * n), 0)"
  proof -
    obtain stop where "serialized_file_storage_append_array_internal 0 alignof_row (of_nat (2 * n))
        sizeof_name_request = Some (stop, 0)" "unat stop = 32 * n"
      using append_rows [of 0 "of_nat (2 * n)" sizeof_name_request] n small by auto
    moreover have "unat (of_nat (32 * n) :: u64) = 32 * n" using n by (intro word_of_small) simp
    ultimately show ?thesis by (auto simp: word_eq_nat)
  qed
  have whole: "\<not> dxbc_size_multiply_overflows (of_nat (32 * n)) 2" "(of_nat (32 * n) :: u64) * 2 = of_nat (scratch_amount n)"
    using n word_of_small [of "32 * n"] unfolding multiply_overflows_iff
    by (simp add: del: of_nat_mult, simp add: scratch_amount_def)
  let ?s = "s\<lparr>compile_result := (compile_result s)\<lparr>schema_required_retained_bytes := of_nat (storage_amount n)\<rparr>\<rparr>"
  let ?t = "s\<lparr>compile_result := planned_result n (compile_result s)\<rparr>"
  have first: "sw.costs limits (step_modify (\<lambda>compile. compile\<lparr>compile_result := (compile_result compile)
       \<lparr>schema_required_retained_bytes := of_nat (storage_amount n)\<rparr>\<rparr>)) s True 0 () ?s"
    by (rule write_costs) (simp_all add: plain_write_def charged_at_def)
  have second: "sw.costs limits (step_modify (\<lambda>compile. compile\<lparr>compile_result := (compile_result compile)
       \<lparr>schema_required_scratch_bytes := of_nat (scratch_amount n)\<rparr>\<rparr>)) ?s True 0 () ?t"
    by (rule write_costs) (simp_all add: plain_write_def charged_at_def planned_result_def)
  have caps: "(\<not> (of_nat (storage_amount n) :: u64) > schema_max_retained_bytes limits) =
      (storage_amount n \<le> unat (schema_max_retained_bytes limits))"
    "(\<not> (of_nat (scratch_amount n) :: u64) > schema_max_scratch_bytes limits) =
      (scratch_amount n \<le> unat (schema_max_scratch_bytes limits))"
    by (simp_all add: not_less word_le_nat_alt small)
  have "sw.costs limits schema_plan_storage s (True \<and> True \<and> storage_amount n \<le> unat (schema_max_retained_bytes limits) \<and>
      True \<and> scratch_amount n \<le> unat (schema_max_scratch_bytes limits) \<and> True) (1 + (0 + (0 + (0 + (0 + 0))))) (schema_layout n) ?t"
    unfolding schema_plan_storage_def
    by (rule sw.costs_then, rule charge_owner_costs, simp, rule sw.costs_with, simp, unfold count Let_def retained option.case prod.case,
        rule sw.costs_then, rule first, rule sw.costs_then, rule reject_owner_costs, simp only: charged_at_fields caps, simp,
        unfold if_not_P [OF double(1)] double(2) half option.case prod.case, unfold if_not_P [OF whole(1)] whole(2),
        rule sw.costs_then, rule second, rule sw.costs_then, rule reject_owner_costs, simp only: charged_at_fields caps, simp,
        unfold schema_layout_def, rule sw.costs_return)
  then show ?thesis by (rule sw.costs_weaken) (auto simp: schema_room_def)
qed

section \<open>Admission\<close>

definition admission ::
    "SchemaParent \<Rightarrow> SerializedFileSchemaRowKind \<Rightarrow> u64 \<Rightarrow> (SchemaCompile, SchemaLayout) step" where
  "admission parent kind ordinal =
     step_then (schema_charge_owner 1) (\<lambda>_.
     step_then (schema_select_row parent kind ordinal) (\<lambda>_.
     step_then (schema_admit_tree parent) (\<lambda>_.
     step_then schema_plan_storage (\<lambda>layout.
     step_then (schema_charge_owner (layout_retained_bytes layout)) (\<lambda>_.
     step_return layout)))))"

definition schema_parent_ok ::
    "SchemaParent \<Rightarrow> SerializedFileSchemaRowKind \<Rightarrow> u64 \<Rightarrow> SerializedFileSchemaLimits \<Rightarrow> bool" where
  "schema_parent_ok parent kind ordinal limits \<longleftrightarrow>
     (case admitted_view parent kind ordinal of
        None \<Rightarrow> False
      | Some view \<Rightarrow> tree_admitted parent limits (schema_view_tree view) \<and>
          schema_room limits (unat (node_count (schema_view_tree view))))"

definition row_nodes_count :: "SchemaParent \<Rightarrow> SerializedFileSchemaRowKind \<Rightarrow> u64 \<Rightarrow> nat" where
  "row_nodes_count parent kind ordinal =
     unat (node_count (schema_view_tree (the (admitted_view parent kind ordinal))))"

definition admitted_state ::
    "SchemaParent \<Rightarrow> SerializedFileSchemaRowKind \<Rightarrow> u64 \<Rightarrow> SchemaCompile \<Rightarrow> SchemaCompile" where
  "admitted_state parent kind ordinal s = s
     \<lparr>compile_view := the (admitted_view parent kind ordinal),
      compile_result := planned_result (row_nodes_count parent kind ordinal)
        ((compile_result s)\<lparr>schema_result_type_ordinal := ordinal\<rparr>)\<rparr>"

lemma admitted_count:
  assumes "admitted_view parent kind ordinal = Some view"
  shows "schema_view_node_count view = of_nat (unat (node_count (schema_view_tree view)))"
  using assms by (auto simp: admitted_view_def split: if_splits option.splits bool.splits)

lemma admission_costs:
  assumes view: "compile_view s = schema_start_view kind" and limits: "compile_limits s = limits"
  shows "sw.costs limits (admission parent kind ordinal) s (schema_parent_ok parent kind ordinal limits)
    (2 + storage_amount (row_nodes_count parent kind ordinal)) (schema_layout (row_nodes_count parent kind ordinal))
    (admitted_state parent kind ordinal s)"
proof -
  define n where "n = row_nodes_count parent kind ordinal"
  have n: "n < 2 ^ 32" unfolding n_def row_nodes_count_def by (rule order_less_le_trans [OF unsigned_less]) simp
  let ?s = "s\<lparr>compile_view := the (admitted_view parent kind ordinal),
      compile_result := (compile_result s)\<lparr>schema_result_type_ordinal := ordinal\<rparr>\<rparr>"
  let ?t = "admitted_state parent kind ordinal s"
  have tree: "sw.costs limits (schema_admit_tree parent) ?s
      (tree_admitted parent limits (schema_view_tree (the (admitted_view parent kind ordinal)))) 0 () ?s"
    using schema_admit_tree_costs [of ?s limits parent] limits by simp
  have plan: "sw.costs limits schema_plan_storage ?s (schema_room limits n) 1 (schema_layout n) ?t"
    if "admitted_view parent kind ordinal \<noteq> None"
  proof (rule sw.costs_weaken [OF schema_plan_storage_costs [OF _ n]])
    show "schema_view_node_count (compile_view ?s) = of_nat n"
      using that admitted_count by (auto simp: n_def row_nodes_count_def)
  qed (simp_all add: admitted_state_def n_def)
  have charge: "sw.costs limits (schema_charge_owner (layout_retained_bytes (schema_layout n))) ?t True (storage_amount n) () ?t"
    by (rule charge_owner_costs) (simp add: schema_layout_def amounts_small [OF n])
  have "sw.costs limits (admission parent kind ordinal) s (True \<and> admitted_view parent kind ordinal \<noteq> None \<and>
      tree_admitted parent limits (schema_view_tree (the (admitted_view parent kind ordinal))) \<and> schema_room limits n \<and> True \<and> True)
     (1 + (0 + (0 + (1 + (storage_amount n + 0))))) (schema_layout n) ?t"
    unfolding admission_def
    by (rule sw.costs_then, rule charge_owner_costs, simp, rule sw.costs_then, rule schema_select_row_costs [OF view],
        rule sw.costs_then, rule tree, rule sw.costs_then, erule plan, rule sw.costs_then, rule charge, rule sw.costs_return)
  then show ?thesis
    by (rule sw.costs_weaken) (auto simp: schema_parent_ok_def n_def row_nodes_count_def split: option.splits)
qed

end
