(* ===== verification/SchemaCreate.thy ===== *)
theory SchemaCreate
  imports SchemaAdmission TwoPass
begin

text \<open>
  Creating a schema: when it is published, with what, and that every allocation is accounted for.
\<close>

section \<open>From the allocations on\<close>

definition tree_ok :: "memory \<Rightarrow> pointer \<times> u64 \<Rightarrow> SerializedFileSchemaLimits \<Rightarrow> SerializedFileSchemaView \<Rightarrow> nat \<Rightarrow> bool" where
  "tree_ok mem common limits view n \<longleftrightarrow> hierarchy_ok mem view n limits \<and> names_ok mem view common n"

definition body_work :: "pointer \<times> u64 \<Rightarrow> SerializedFileSchemaView \<Rightarrow> nat \<Rightarrow> nat" where
  "body_work common view n =
     52 * n + unat (span_size (strings_source (schema_view_tree view))) + unat (snd common) + 2049"

definition schema_granted :: "allocator \<Rightarrow> nat \<Rightarrow> tracker \<Rightarrow> bool" where
  "schema_granted grants n t \<longleftrightarrow> grants (allocator_calls t) (of_nat (storage_amount n)) \<and>
     grants (allocator_calls t + 1) (of_nat (scratch_amount n))"

definition schema_failed :: "SerializedFileSchemaLimits \<Rightarrow> SerializedFileSchemaResult \<Rightarrow> bool" where
  "schema_failed limits r \<longleftrightarrow> schema_status r \<noteq> SERIALIZED_FILE_SCHEMA_OK \<and> schema_work_used r \<le> schema_max_work limits"

text \<open>What a creation publishes, and the result it reports.\<close>

definition compiled_storage ::
    "memory \<Rightarrow> pointer \<times> u64 \<Rightarrow> SerializedFileSchemaView \<Rightarrow> nat \<Rightarrow> pointer \<Rightarrow> block \<Rightarrow> SchemaStorage" where
  "compiled_storage mem common view n address cells =
     \<lparr>schema_storage_address = address, schema_storage_cells = cells,
      schema_storage_view = view
        \<lparr>schema_view_maximum_depth := of_nat (deepest (node_levels mem view n) n),
         schema_view_retained_bytes := of_nat (storage_amount n)\<rparr>,
      schema_storage_nodes = compiled_nodes mem view common n\<rparr>"

lemma scratch_refused:
  "mem_alloc grants n t = (None, t') \<Longrightarrow> n \<noteq> 0 \<Longrightarrow> \<not> grants (allocator_calls t) n \<and> owed p a t' = owed p a t"
  by (auto simp: mem_alloc_def Let_def owed_def split: if_splits)

lemma scratch_returned:
  "mem_alloc grants n t = (Some cells, t') \<Longrightarrow>
     grants (allocator_calls t) n \<and> owed p a (mem_free (Some cells) n t') = owed p a t \<and>
     allocator_calls t' = allocator_calls t + 1"
  by (auto simp: mem_alloc_def mem_free_def Let_def owed_def split: if_splits)

lemma schema_build_outcome:
  assumes k: "k \<le> unat (schema_max_work limits)" and status: "schema_status (compile_result s) = SERIALIZED_FILE_SCHEMA_OK"
    and view: "view = compile_view s" and count: "schema_view_node_count view = of_nat n" and n: "0 < n" "n < 2 ^ 32"
    and depth: "schema_view_maximum_depth view = 0" and common: "common = (compile_common_bytes s, compile_common_size s)"
  shows "case schema_build mem place grants (schema_layout n) (charged_at limits k s) t of
      (r, None, t') \<Rightarrow> schema_failed limits r \<and> owed None 0 t' = owed None 0 t \<and>
        \<not> (schema_granted grants n t \<and> tree_ok mem common limits view n \<and>
           k + scratch_amount n + body_work common view n \<le> unat (schema_max_work limits))
    | (r, Some storage, t') \<Rightarrow>
        schema_granted grants n t \<and> tree_ok mem common limits view n \<and>
        k + scratch_amount n + body_work common view n \<le> unat (schema_max_work limits) \<and>
        r = (compile_result s)
          \<lparr>schema_work_used := of_nat (k + scratch_amount n + body_work common view n),
           schema_peak_retained_bytes := of_nat (storage_amount n),
           schema_peak_scratch_bytes := of_nat (scratch_amount n)\<rparr> \<and>
        storage = compiled_storage mem common view n (place (allocator_calls t)) (schema_storage_cells storage) \<and>
        owed (Some (schema_storage_cells storage)) (of_nat (storage_amount n)) t' = owed None 0 t"
proof -
  let ?R = "of_nat (storage_amount n) :: u64" and ?T = "of_nat (scratch_amount n) :: u64"
  note small = amounts_small [OF n(2)]
  have nonzero: "?R \<noteq> 0" "?T \<noteq> 0"
    using small n(1) by (metis unat_0 storage_amount_def add_eq_0_iff_both_eq_0 zero_neq_numeral,
      metis unat_0 scratch_amount_def mult_eq_0_iff zero_neq_numeral less_irrefl)
  have amounts: "layout_retained_bytes (schema_layout n) = ?R" "layout_scratch_bytes (schema_layout n) = ?T"
    "layout_request_count (schema_layout n) = of_nat (2 * n)"
    by (simp_all only: schema_layout_def SchemaLayout.simps)
  obtain c t1 where alloc: "mem_alloc grants ?R t = (c, t1)" by fastforce
  show ?thesis
  proof (cases c)
    case None
    have "\<not> grants (allocator_calls t) ?R \<and> owed None 0 t1 = owed None 0 t"
      using mem_alloc_None [OF alloc [unfolded None]] nonzero by simp
    then show ?thesis
      using k work_fits [OF k]
      by (simp add: schema_build_def amounts alloc None Let_def schema_failed_def schema_granted_def word_le_nat_alt)
  next
    case (Some cells)
    have granted: "grants (allocator_calls t) ?R \<and> owed (Some cells) ?R t1 = owed None 0 t"
      using mem_alloc_Some [OF alloc [unfolded Some]] by simp
    have calls: "allocator_calls t1 = allocator_calls t + 1"
      using scratch_returned [OF alloc [unfolded Some]] by simp
    define s1 where "s1 = s\<lparr>compile_result := (compile_result s)\<lparr>schema_peak_retained_bytes := ?R\<rparr>,
        compile_nodes := replicate n zero_schema_node\<rparr>"
    have s1: "(charged_at limits k s)\<lparr>compile_result := (compile_result (charged_at limits k s))
        \<lparr>schema_peak_retained_bytes := ?R\<rparr>,
        compile_nodes := replicate (unat (schema_view_node_count (compile_view (charged_at limits k s)))) zero_schema_node\<rparr> =
        charged_at limits k s1"
      using small count by (simp add: s1_def charged_at_def view)
    have charge: "decides (compile_failed limits) (schema_charge_owner ?T) (charged_at limits k s1)
        (k + scratch_amount n \<le> unat (schema_max_work limits)) () (charged_at limits (k + scratch_amount n) s1)"
      using sw.costsD [OF charge_owner_costs [OF small(2)] k, of s1] by simp
    show ?thesis
    proof (cases "k + scratch_amount n \<le> unat (schema_max_work limits)")
      case False
      then obtain b where "schema_charge_owner ?T (charged_at limits k s1) = (None, b)" "compile_failed limits b"
        using decidesD(2) [OF charge] by blast
      then show ?thesis
        using False granted
        unfolding schema_build_def amounts Let_def alloc Some prod.case option.case s1
        by (simp add: mem_free_owed schema_failed_def compile_failed_def)
    next
      case fits: True
      let ?k = "k + scratch_amount n"
      note paid = decidesD(1) [OF charge fits]
      obtain d t2 where scratch: "mem_alloc grants ?T t1 = (d, t2)" by fastforce
      show ?thesis
      proof (cases d)
        case None
        have "\<not> grants (allocator_calls t1) ?T \<and> owed (Some cells) ?R t2 = owed (Some cells) ?R t1"
          using scratch_refused [OF scratch [unfolded None]] nonzero by simp
        then show ?thesis
          using granted calls work_fits [OF fits] fits
          unfolding schema_build_def amounts Let_def alloc \<open>c = Some cells\<close> prod.case option.case s1 paid scratch None
          by (simp add: mem_free_owed schema_failed_def schema_granted_def word_le_nat_alt)
      next
        case (Some spare)
        have returned: "grants (allocator_calls t1) ?T"
          "owed (Some cells) ?R (mem_free (Some spare) ?T t2) = owed (Some cells) ?R t1"
          using scratch_returned [OF scratch [unfolded Some]] by simp_all
        define s2 where "s2 = s1\<lparr>compile_result := (compile_result s1)\<lparr>schema_peak_scratch_bytes := ?T\<rparr>,
            compile_request_count := of_nat (2 * n), compile_requests := replicate (2 * n) zero_name_request,
            compile_sorted := replicate (2 * n) zero_name_request\<rparr>"
        have s2: "(charged_at limits ?k s1)\<lparr>compile_result := (compile_result (charged_at limits ?k s1))
            \<lparr>schema_peak_scratch_bytes := ?T\<rparr>, compile_request_count := of_nat (2 * n),
            compile_requests := replicate (unat (of_nat (2 * n) :: u64)) zero_name_request,
            compile_sorted := replicate (unat (of_nat (2 * n) :: u64)) zero_name_request\<rparr> = charged_at limits ?k s2"
          unfolding small(3) by (simp add: s2_def charged_at_def)
        note body = schema_compile_body_costs [where s = s2 and view = view and n = n and common = common and mem = mem]
        have ready: "view = compile_view s2" "unat (schema_view_node_count view) = n" "n \<le> 2 ^ 32"
          "compile_nodes s2 = replicate n zero_schema_node" "compile_requests s2 = replicate (2 * n) zero_name_request"
          "compile_sorted s2 = replicate (2 * n) zero_name_request" "unat (compile_request_count s2) = 2 * n"
          "common = (compile_common_bytes s2, compile_common_size s2)"
          using small n by (simp_all add: s2_def s1_def view count [unfolded view] common del: of_nat_mult)
        note body = body [OF ready(1,2) n(1) ready(3) depth ready(4-8)]
        have run: "decides (compile_failed limits) (schema_compile_body mem) (charged_at limits ?k s2)
            (tree_ok mem common limits view n \<and> ?k + body_work common view n \<le> unat (schema_max_work limits)) ()
            (charged_at limits (?k + body_work common view n) (body_result mem common s2 n))"
          using sw.costsD [OF body(1) fits] by (simp only: tree_ok_def body_work_def)
        show ?thesis
        proof (cases "tree_ok mem common limits view n \<and> ?k + body_work common view n \<le> unat (schema_max_work limits)")
          case False
          then obtain b where "schema_compile_body mem (charged_at limits ?k s2) = (None, b)" "compile_failed limits b"
            using decidesD(2) [OF run] by blast
          then show ?thesis
            using False granted returned
            unfolding schema_build_def amounts Let_def alloc \<open>c = Some cells\<close> prod.case option.case s1 paid scratch Some s2
            by (simp add: mem_free_owed schema_failed_def compile_failed_def)
        next
          case True
          note finished = decidesD(1) [OF run True]
          have reported: "compile_result s2 = (compile_result s)
              \<lparr>schema_peak_retained_bytes := ?R, schema_peak_scratch_bytes := ?T\<rparr>"
            by (simp add: s2_def s1_def)
          show ?thesis
            using True granted returned calls
            unfolding schema_build_def amounts Let_def alloc \<open>c = Some cells\<close> prod.case option.case s1 paid scratch Some s2 finished
            by (simp add: body(2-4) reported schema_granted_def compiled_storage_def)
        qed
      qed
    qed
  qed
qed


section \<open>Creation\<close>

text \<open>The parent that a call may use: genuine, and apart from everything else the call touches.\<close>

definition schema_parent ::
    "pointer \<Rightarrow> u64 \<Rightarrow> SerializedFileDirectory + SerializedFileMetadataTail \<Rightarrow> pointer \<times> u64 \<Rightarrow> pointer \<Rightarrow> pointer \<Rightarrow>
     SchemaParent option" where
  "schema_parent handle handle_size holder common limits_address out_address =
     (if \<not> schema_basic_arguments handle handle_size limits_address out_address then None
      else
        (case schema_prepare_parent handle handle_size holder of
           None \<Rightarrow> None
         | Some parent \<Rightarrow>
             if schema_ranges_disjoint parent (fst common) (snd common) limits_address out_address then Some parent
             else None))"

text \<open>The work of a whole creation: both allocations, 52 units a node and one a byte of each string table.\<close>

definition schema_work :: "pointer \<times> u64 \<Rightarrow> SerializedFileSchemaView \<Rightarrow> nat \<Rightarrow> nat" where
  "schema_work common view n = storage_amount n + scratch_amount n + 52 * n +
     unat (span_size (strings_source (schema_view_tree view))) + unat (snd common) + 2051"

definition schema_admits ::
    "memory \<Rightarrow> allocator \<Rightarrow> pointer \<times> u64 \<Rightarrow> SchemaParent \<Rightarrow> SerializedFileSchemaRowKind \<Rightarrow> u64 \<Rightarrow>
     SerializedFileSchemaLimits \<Rightarrow> tracker \<Rightarrow> bool" where
  "schema_admits mem grants common parent kind ordinal limits t \<longleftrightarrow>
     (let view = the (admitted_view parent kind ordinal); n = row_nodes_count parent kind ordinal in
      schema_parent_ok parent kind ordinal limits \<and> tree_ok mem common limits view n \<and> schema_granted grants n t \<and>
      schema_work common view n \<le> unat (schema_max_work limits))"

lemma create_schema_shape:
  "create_schema mem place grants common handle handle_size holder kind ordinal limits_address limits out_address None t =
     (if \<not> schema_basic_arguments handle handle_size limits_address out_address
      then (schema_initial_result\<lparr>schema_status := SERIALIZED_FILE_SCHEMA_INVALID_ARGUMENT\<rparr>, None, t)
      else
        (case schema_prepare_parent handle handle_size holder of
           None \<Rightarrow> (schema_initial_result\<lparr>schema_status := SERIALIZED_FILE_SCHEMA_INVALID_STATE\<rparr>, None, t)
         | Some parent \<Rightarrow>
             if \<not> schema_ranges_disjoint parent (fst common) (snd common) limits_address out_address
             then (schema_initial_result\<lparr>schema_status := SERIALIZED_FILE_SCHEMA_INVALID_ARGUMENT\<rparr>, None, t)
             else
               (case admission parent kind ordinal (start_compile kind limits (fst common) (snd common)) of
                  (None, compile) \<Rightarrow> (compile_result compile, None, t)
                | (Some layout, compile) \<Rightarrow> schema_build mem place grants layout compile t)))"
  unfolding create_schema_def admission_def Let_def by (simp split: option.split)

lemma admitted_depth: "admitted_view parent kind ordinal = Some view \<Longrightarrow> schema_view_maximum_depth view = 0"
  by (auto simp: admitted_view_def schema_row_view_def schema_start_view_def split: if_splits option.splits bool.splits sum.splits)

lemma schema_create_outcome:
  "case create_schema mem place grants common handle handle_size holder kind ordinal limits_address limits out_address
        None t of
     (r, None, t') \<Rightarrow> schema_failed limits r \<and> owed None 0 t' = owed None 0 t \<and>
       (case schema_parent handle handle_size holder common limits_address out_address of
          None \<Rightarrow> True | Some parent \<Rightarrow> \<not> schema_admits mem grants common parent kind ordinal limits t)
   | (r, Some storage, t') \<Rightarrow>
       (case schema_parent handle handle_size holder common limits_address out_address of
          None \<Rightarrow> False
        | Some parent \<Rightarrow>
            let view = the (admitted_view parent kind ordinal); n = row_nodes_count parent kind ordinal in
            admitted_view parent kind ordinal \<noteq> None \<and>
            schema_admits mem grants common parent kind ordinal limits t \<and>
            r = schema_initial_result
              \<lparr>schema_result_type_ordinal := ordinal, schema_work_used := of_nat (schema_work common view n),
               schema_required_retained_bytes := of_nat (storage_amount n),
               schema_required_scratch_bytes := of_nat (scratch_amount n),
               schema_peak_retained_bytes := of_nat (storage_amount n),
               schema_peak_scratch_bytes := of_nat (scratch_amount n)\<rparr> \<and>
            storage = compiled_storage mem common view n (place (allocator_calls t)) (schema_storage_cells storage) \<and>
            owed (Some (schema_storage_cells storage)) (of_nat (storage_amount n)) t' = owed None 0 t)"
proof -
  have early: "schema_failed limits (schema_initial_result\<lparr>schema_status := status\<rparr>)"
    if "status \<noteq> SERIALIZED_FILE_SCHEMA_OK" for status
    using that by (simp add: schema_failed_def schema_initial_result_def)
  show ?thesis
  proof (cases "schema_parent handle handle_size holder common limits_address out_address")
    case None
    then show ?thesis
      unfolding create_schema_shape None option.case schema_parent_def
      by (auto simp: early split: if_splits option.splits)
  next
    case (Some parent)
    let ?start = "start_compile kind limits (fst common) (snd common)"
    define n where "n = row_nodes_count parent kind ordinal"
    define s where "s = admitted_state parent kind ordinal ?start"
    have n: "n < 2 ^ 32" unfolding n_def row_nodes_count_def by (rule order_less_le_trans [OF unsigned_less]) simp
    have run: "create_schema mem place grants common handle handle_size holder kind ordinal limits_address limits out_address None t =
       (case admission parent kind ordinal ?start of
          (None, compile) \<Rightarrow> (compile_result compile, None, t)
        | (Some layout, compile) \<Rightarrow> schema_build mem place grants layout compile t)"
      using Some unfolding create_schema_shape schema_parent_def by (auto split: if_splits option.splits)
    have zero: "charged_at limits 0 ?start = ?start"
      by (simp add: charged_at_def start_compile_def schema_initial_result_def)
    have costs: "sw.costs limits (admission parent kind ordinal) ?start (schema_parent_ok parent kind ordinal limits)
        (2 + storage_amount n) (schema_layout n) s"
      unfolding n_def s_def by (rule admission_costs) (simp_all add: start_compile_def)
    have admitted: "decides (compile_failed limits) (admission parent kind ordinal) ?start
        (schema_parent_ok parent kind ordinal limits \<and> 2 + storage_amount n \<le> unat (schema_max_work limits))
        (schema_layout n) (charged_at limits (2 + storage_amount n) s)"
      using sw.costsD [OF costs, of 0] by (simp add: zero)
    show ?thesis
    proof (cases "schema_parent_ok parent kind ordinal limits \<and> 2 + storage_amount n \<le> unat (schema_max_work limits)")
      case False
      then obtain b where "admission parent kind ordinal ?start = (None, b)" "compile_failed limits b"
        using decidesD(2) [OF admitted] by blast
      moreover have "\<not> schema_admits mem grants common parent kind ordinal limits t"
        using False by (auto simp: schema_admits_def schema_work_def Let_def n_def)
      ultimately show ?thesis unfolding run Some by (simp add: schema_failed_def compile_failed_def)
    next
      case True
      then obtain view where view: "admitted_view parent kind ordinal = Some view"
        by (auto simp: schema_parent_ok_def split: option.splits)
      have tree: "n = unat (node_count (schema_view_tree view))" by (simp add: n_def row_nodes_count_def view)
      have n0: "0 < n" using True by (simp add: schema_parent_ok_def view tree_admitted_def Let_def tree)
      have here: "view = compile_view s" by (simp add: s_def admitted_state_def view)
      have count: "schema_view_node_count view = of_nat n" using admitted_count [OF view] by (simp add: tree)
      have report: "compile_result s = schema_initial_result\<lparr>schema_result_type_ordinal := ordinal,
          schema_required_retained_bytes := of_nat (storage_amount n), schema_required_scratch_bytes := of_nat (scratch_amount n)\<rparr>"
        by (simp add: s_def admitted_state_def planned_result_def start_compile_def n_def)
      have common: "common = (compile_common_bytes s, compile_common_size s)"
        by (simp add: s_def admitted_state_def start_compile_def)
      have total: "2 + storage_amount n + scratch_amount n + body_work common view n = schema_work common view n"
        by (simp add: body_work_def schema_work_def)
      have admits: "schema_admits mem grants common parent kind ordinal limits t \<longleftrightarrow> schema_granted grants n t \<and>
          tree_ok mem common limits view n \<and> schema_work common view n \<le> unat (schema_max_work limits)"
        using True by (auto simp: schema_admits_def view n_def Let_def)
      have "schema_status (compile_result s) = SERIALIZED_FILE_SCHEMA_OK" by (simp add: report schema_initial_result_def)
      note built = schema_build_outcome [OF conjunct2 [OF True] this here count n0 n admitted_depth [OF view] common,
          where mem = mem and place = place and grants = grants and t = t, unfolded total]
      show ?thesis
        unfolding run decidesD(1) [OF admitted True] prod.case option.case Some view option.sel Let_def n_def [symmetric] admits
        using built by (auto simp: report split: prod.splits option.splits)
    qed
  qed
qed

end
