(* ===== verification/SchemaTree.thy ===== *)
theory SchemaTree
  imports SchemaCreate
begin

section \<open>A well-formed schema\<close>

text \<open>Parents as the nodes hold them; \<open>SIZE_MAX\<close> is none.\<close>

definition node_parent :: "SerializedFileSchemaNode list \<Rightarrow> nat \<Rightarrow> nat option" where
  "node_parent nodes k =
     (let p = schema_node_parent (nodes ! k) in if p = SIZE_MAX then None else Some (unat p))"

definition tree_linked :: "SerializedFileSchemaNode list \<Rightarrow> bool" where
  "tree_linked nodes \<longleftrightarrow>
     (let n = length nodes; parent = node_parent nodes in
      \<forall>k<n. let node = nodes ! k; stop = unat (schema_node_subtree_end node) in
        schema_node_ordinal node = of_nat k \<and>
        (case parent k of
           None \<Rightarrow> k = 0 \<and> schema_node_level node = 0
         | Some p \<Rightarrow> p < k \<and> unat (schema_node_level node) = Suc (unat (schema_node_level (nodes ! p)))) \<and>
        schema_node_first_child node = ordinal_word (find (\<lambda>j. parent j = Some k) [0..<n]) \<and>
        schema_node_next_sibling node = ordinal_word (find (\<lambda>j. parent j = parent k) [Suc k..<n]) \<and>
        unat (schema_node_child_count node) = length (filter (\<lambda>j. parent j = Some k) [0..<n]) \<and>
        k < stop \<and> stop \<le> n \<and> (\<forall>j<n. k < j \<and> j < stop \<longleftrightarrow> under parent k j))"

text \<open>A name that is exactly the bytes in front of the first zero.\<close>

definition whole_string :: "memory \<Rightarrow> SerializedFileSchemaString \<Rightarrow> bool" where
  "whole_string mem s \<longleftrightarrow>
     mem (schema_string_bytes s + schema_string_byte_count s) = 0 \<and>
     (\<forall>i < unat (schema_string_byte_count s). mem (schema_string_bytes s + of_nat i) \<noteq> 0)"

definition schema_wellformed :: "memory \<Rightarrow> SchemaStorage \<Rightarrow> bool" where
  "schema_wellformed mem storage \<longleftrightarrow>
     (let view = schema_storage_view storage; nodes = schema_storage_nodes storage in
      0 < length nodes \<and> unat (schema_view_node_count view) = length nodes \<and>
      Max (set (map (\<lambda>node. unat (schema_node_level node)) nodes)) = unat (schema_view_maximum_depth view) \<and>
      tree_linked nodes \<and>
      list_all (\<lambda>node. whole_string mem (schema_node_type_name node) \<and>
        whole_string mem (schema_node_field_name node)) nodes)"

lemma under_agree:
  assumes "\<And>j m. j < n \<Longrightarrow> f j = Some m \<Longrightarrow> m < n" and "\<And>j. j < n \<Longrightarrow> g j = f j"
  shows "under f k j \<Longrightarrow> j < n \<longrightarrow> under g k j"
proof (induction rule: under.induct)
  case (child j)
  then show ?case using assms(2) by (auto intro: under.child)
next
  case (deeper m j)
  then show ?case using assms by (auto intro: under.deeper)
qed

lemma compiled_fields:
  assumes "k < n"
  shows "length (compiled_nodes mem view common n) = n"
    and "schema_node_ordinal (compiled_nodes mem view common n ! k) = of_nat k"
    and "unat (schema_node_level (compiled_nodes mem view common n ! k)) = node_levels mem view n ! k"
    and "schema_node_parent (compiled_nodes mem view common n ! k) = ordinal_word (parent_of (node_levels mem view n) k)"
    and "schema_node_first_child (compiled_nodes mem view common n ! k) = ordinal_word (first_child_of (node_levels mem view n) n k)"
    and "schema_node_next_sibling (compiled_nodes mem view common n ! k) = ordinal_word (next_sibling_of (node_levels mem view n) n k)"
    and "schema_node_child_count (compiled_nodes mem view common n ! k) = of_nat (length (children_of (node_levels mem view n) n k))"
    and "schema_node_subtree_end (compiled_nodes mem view common n ! k) =
      of_nat (case end_of (node_levels mem view n) n k of None \<Rightarrow> n | Some j \<Rightarrow> j)"
  using assms
  by (simp_all add: compiled_nodes_def linked_node_def node_levels_nth node_record_def Let_def split: option.split)

lemma compiled_linked:
  assumes pre: "preorder_levels (node_levels mem view n) n" and n: "n < 2 ^ 32"
  shows "tree_linked (compiled_nodes mem view common n)"
proof -
  define ls where "ls = node_levels mem view n"
  define nodes where "nodes = compiled_nodes mem view common n"
  note fields = compiled_fields [where mem = mem and view = view and common = common and n = n, folded ls_def nodes_def]
  have len: "length nodes = n" by (simp add: nodes_def compiled_nodes_def)
  have pre: "preorder_levels ls n" using pre by (simp add: ls_def)
  have word: "unat (of_nat k :: u64) = k" "(of_nat k :: u64) \<noteq> SIZE_MAX" if "k < n" for k
    using small_ordinal [OF that, of] n by simp_all
  have parent: "node_parent nodes k = parent_of ls k" if k: "k < n" for k
  proof (cases "parent_of ls k")
    case (Some p)
    then have "p < n" using k by (simp add: parent_of_Some)
    with Some k show ?thesis using word [OF \<open>p < n\<close>] by (simp add: node_parent_def fields)
  qed (use k in \<open>simp add: node_parent_def fields\<close>)
  have finds: "find (\<lambda>j. node_parent nodes j = x) [a..<n] = find (\<lambda>j. parent_of ls j = x) [a..<n]"
    "filter (\<lambda>j. node_parent nodes j = x) [0..<n] = filter (\<lambda>j. parent_of ls j = x) [0..<n]" for a x
    by (rule find_cong, rule refl, simp add: parent) (rule filter_cong, rule refl, simp add: parent)
  have small: "p < n" if "j < n" "parent_of ls j = Some p" for j p using that by (simp add: parent_of_Some)
  have subtree: "under (node_parent nodes) k j \<longleftrightarrow> under (parent_of ls) k j" if "j < n" for k j
  proof
    assume "under (node_parent nodes) k j"
    then have "j < n \<longrightarrow> under (parent_of ls) k j"
      by (rule under_agree [rotated 2]) (simp add: parent small, simp add: parent)
    then show "under (parent_of ls) k j" using that by simp
  next
    assume "under (parent_of ls) k j"
    then have "j < n \<longrightarrow> under (node_parent nodes) k j"
      by (rule under_agree [rotated 2]) (rule small, simp_all add: parent)
    then show "under (node_parent nodes) k j" using that by simp
  qed
  show ?thesis
    unfolding nodes_def [symmetric] tree_linked_def Let_def len
  proof (intro allI impI conjI)
    fix k
    assume k: "k < n"
    show "schema_node_ordinal (nodes ! k) = of_nat k" by (rule fields(2) [OF k])
    show "case node_parent nodes k of None \<Rightarrow> k = 0 \<and> schema_node_level (nodes ! k) = 0
        | Some p \<Rightarrow> p < k \<and> unat (schema_node_level (nodes ! k)) = Suc (unat (schema_node_level (nodes ! p)))"
    proof (cases "k = 0")
      case True
      then have "unat (schema_node_level (nodes ! k)) = 0" using pre k by (simp add: fields preorder_levels_def)
      then have "schema_node_level (nodes ! k) = 0" by (simp add: unat_eq_zero)
      with True show ?thesis using parent [OF k] by (simp add: parent_root)
    next
      case False
      then obtain p where p: "parent_of ls k = Some p" "ls ! k = Suc (ls ! p)"
        using parent_exists [OF pre _ k] by auto
      then have "p < k" by (simp add: parent_of_Some)
      with p k show ?thesis by (simp add: parent fields)
    qed
    show "schema_node_first_child (nodes ! k) = ordinal_word (find (\<lambda>j. node_parent nodes j = Some k) [0..<n])"
      using k by (simp add: finds fields first_child_find)
    show "schema_node_next_sibling (nodes ! k) = ordinal_word (find (\<lambda>j. node_parent nodes j = node_parent nodes k) [Suc k..<n])"
      using k by (simp add: finds parent fields next_sibling_find [OF pre])
    have "length (filter (\<lambda>j. parent_of ls j = Some k) [0..<n]) \<le> n"
      using length_filter_le [of _ "[0..<n]"] by simp
    then have "unat (of_nat (length (filter (\<lambda>j. parent_of ls j = Some k) [0..<n])) :: u64) =
        length (filter (\<lambda>j. parent_of ls j = Some k) [0..<n])"
      using n by (intro word_of_small) simp
    then show "unat (schema_node_child_count (nodes ! k)) = length (filter (\<lambda>j. node_parent nodes j = Some k) [0..<n])"
      using k by (simp add: finds fields children_of_def)
    note interval = subtree_interval [OF pre k]
    have stop: "unat (schema_node_subtree_end (nodes ! k)) = (case end_of ls n k of None \<Rightarrow> n | Some j \<Rightarrow> j)"
      using interval n by (simp add: fields(8) [OF k]) (intro word_of_small, simp)
    show "k < unat (schema_node_subtree_end (nodes ! k))" "unat (schema_node_subtree_end (nodes ! k)) \<le> n"
      using interval unfolding stop by simp_all
    fix j
    assume "j < n"
    then show "k < j \<and> j < unat (schema_node_subtree_end (nodes ! k)) \<longleftrightarrow> under (node_parent nodes) k j"
      using interval unfolding stop subtree [OF \<open>j < n\<close>] by simp
  qed
qed

lemma table_name_whole:
  assumes "holds_string mem bytes extent (unat (request_offset r))" and "extent < 2 ^ 64"
  shows "whole_string mem (table_name mem space bytes extent origin r)"
proof -
  define at where "at = unat (request_offset r)"
  obtain k where k: "string_end mem bytes extent at = Some k"
    using assms(1) by (auto simp: holds_string_def at_def)
  then have e: "at \<le> k" "k < extent" "mem (bytes + of_nat k) = 0" "\<And>j. at \<le> j \<Longrightarrow> j < k \<Longrightarrow> mem (bytes + of_nat j) \<noteq> 0"
    by (auto simp: string_end_Some)
  have count: "unat (of_nat (k - at) :: u64) = k - at" using e(2) assms(2) by (intro word_of_small) simp
  have sum: "bytes + of_nat at + of_nat i = bytes + of_nat (at + i)" for i :: nat by simp
  have "mem (bytes + of_nat at + of_nat (k - at)) = 0" unfolding sum using e by simp
  moreover have "mem (bytes + of_nat at + of_nat i) \<noteq> 0" if "i < k - at" for i
    unfolding sum using e(4) [of "at + i"] that by simp
  ultimately show ?thesis
    unfolding whole_string_def table_name_def Let_def at_def [symmetric] k option.sel
    using count by simp
qed

lemma compiled_names:
  assumes "names_ok mem view common n" and "k < n"
  shows "whole_string mem (schema_node_type_name (compiled_nodes mem view common n ! k))"
    and "whole_string mem (schema_node_field_name (compiled_nodes mem view common n ! k))"
proof -
  have name: "whole_string mem (node_name mem view common j)" if "j < 2 * n" for j
  proof -
    have "request_resolves mem view common (name_request mem view j)"
      using assms(1) that by (simp add: names_ok_def list_all_iff)
    then show ?thesis
      using table_name_whole u64_bound
      by (auto simp: node_name_def request_name_def request_resolves_def Let_def split: if_splits)
  qed
  show "whole_string mem (schema_node_type_name (compiled_nodes mem view common n ! k))"
    "whole_string mem (schema_node_field_name (compiled_nodes mem view common n ! k))"
    using assms(2) name [of "2 * k"] name [of "2 * k + 1"] by (simp_all add: compiled_nodes_def)
qed

lemma deepest_Max: "0 < n \<Longrightarrow> length ls = n \<Longrightarrow> deepest ls n = Max (set ls)"
  by (cases ls) (simp_all add: deepest_def Max.set_eq_fold [symmetric])

section \<open>What a creation leaves\<close>

lemma schema_created_wellformed:
  "case create_schema mem place grants common handle handle_size holder kind ordinal limits_address limits out_address
        None t of
     (_, None, _) \<Rightarrow> True | (_, Some storage, _) \<Rightarrow> schema_wellformed mem storage"
proof -
  obtain r out t' where run: "create_schema mem place grants common handle handle_size holder kind ordinal limits_address
      limits out_address None t = (r, out, t')"
    by (metis surj_pair)
  show ?thesis
  proof (cases out)
    case None
    then show ?thesis by (simp add: run)
  next
    case (Some storage)
    note created = schema_create_outcome [where mem = mem and place = place and grants = grants and common = common and
        handle = handle and handle_size = handle_size and holder = holder and kind = kind and ordinal = ordinal and
        limits_address = limits_address and limits = limits and out_address = out_address and t = t,
        unfolded run Some prod.case option.case]
    then obtain parent view where view: "admitted_view parent kind ordinal = Some view"
      and admits: "schema_admits mem grants common parent kind ordinal limits t"
      and storage: "storage = compiled_storage mem common view (row_nodes_count parent kind ordinal)
        (place (allocator_calls t)) (schema_storage_cells storage)"
      by (auto simp: Let_def split: option.splits)
    define n where "n = row_nodes_count parent kind ordinal"
    have tree: "n = unat (node_count (schema_view_tree view))" by (simp add: n_def row_nodes_count_def view)
    have n: "n < 2 ^ 32" unfolding n_def row_nodes_count_def by (rule order_less_le_trans [OF unsigned_less]) simp
    have n0: "0 < n"
      using admits by (simp add: schema_admits_def schema_parent_ok_def view tree_admitted_def Let_def tree)
    have ok: "hierarchy_ok mem view n limits" "names_ok mem view common n"
      using admits by (simp_all add: schema_admits_def view n_def tree_ok_def Let_def)
    have nodes: "schema_storage_nodes storage = compiled_nodes mem view common n"
      "schema_storage_view storage = view\<lparr>schema_view_maximum_depth := of_nat (deepest (node_levels mem view n) n),
         schema_view_retained_bytes := of_nat (storage_amount n)\<rparr>"
      by (subst storage, simp add: compiled_storage_def n_def)+
    have len: "length (compiled_nodes mem view common n) = n" by (simp add: compiled_nodes_def)
    have levels: "map (\<lambda>node. unat (schema_node_level node)) (compiled_nodes mem view common n) = node_levels mem view n"
      by (rule nth_equalityI) (simp_all add: len compiled_fields)
    have deep: "deepest (node_levels mem view n) n = Max (set (node_levels mem view n))"
      by (rule deepest_Max [OF n0]) simp
    have "deepest (node_levels mem view n) n < 256" by (rule deepest_small) (simp_all add: node_levels_small)
    then have "unat (of_nat (deepest (node_levels mem view n) n) :: u64) = deepest (node_levels mem view n) n"
      by (intro word_of_small) simp
    moreover have "unat (schema_view_node_count view) = n"
      unfolding admitted_count [OF view] tree [symmetric] by (rule amounts_small(4) [OF n])
    moreover have "tree_linked (compiled_nodes mem view common n)"
      by (rule compiled_linked) (use ok n in \<open>simp_all add: hierarchy_ok_def\<close>)
    moreover have "list_all (\<lambda>node. whole_string mem (schema_node_type_name node) \<and>
        whole_string mem (schema_node_field_name node)) (compiled_nodes mem view common n)"
      using compiled_names [OF ok(2)] by (simp add: list_all_length len)
    ultimately show ?thesis
      unfolding run Some prod.case option.case schema_wellformed_def Let_def nodes levels using n0 deep by (simp add: len)
  qed
qed

lemma created_lifecycle:
  "case create_schema mem place grants common handle handle_size holder kind ordinal limits_address limits out_address
        None t of
     (r, out, t') \<Rightarrow>
       (case serialized_file_schema_dispose out t' of
          (left, t'') \<Rightarrow> left = None \<and> owed None 0 t'' = owed None 0 t \<and>
            serialized_file_schema_dispose left t'' = (None, t'')) \<and>
       serialized_file_schema_view out = map_option schema_storage_view out \<and>
       serialized_file_schema_node out i =
         (case out of None \<Rightarrow> None
          | Some storage \<Rightarrow> if unat i < length (schema_storage_nodes storage)
              then Some (schema_storage_nodes storage ! unat i) else None) \<and>
       serialized_file_schema_storage_range_internal out =
         map_option (\<lambda>_. (place (allocator_calls t), schema_peak_retained_bytes r)) out"
proof -
  obtain r out t' where run: "create_schema mem place grants common handle handle_size holder kind ordinal limits_address
      limits out_address None t = (r, out, t')"
    by (metis surj_pair)
  note created = schema_create_outcome [where mem = mem and place = place and grants = grants and common = common and
      handle = handle and handle_size = handle_size and holder = holder and kind = kind and ordinal = ordinal and
      limits_address = limits_address and limits = limits and out_address = out_address and t = t,
      unfolded run prod.case]
  show ?thesis
  proof (cases out)
    case None
    then show ?thesis
      using created run by (simp add: serialized_file_schema_dispose_def serialized_file_schema_node_def
          serialized_file_schema_view_def serialized_file_schema_storage_range_internal_def)
  next
    case (Some storage)
    with created obtain parent view where view: "admitted_view parent kind ordinal = Some view"
      and peak: "schema_peak_retained_bytes r = of_nat (storage_amount (row_nodes_count parent kind ordinal))"
      and storage: "storage = compiled_storage mem common view (row_nodes_count parent kind ordinal)
        (place (allocator_calls t)) (schema_storage_cells storage)"
      and balanced: "owed (Some (schema_storage_cells storage)) (of_nat (storage_amount (row_nodes_count parent kind ordinal))) t' =
        owed None 0 t"
      by (auto simp: Let_def split: option.splits)
    define n where "n = row_nodes_count parent kind ordinal"
    have n: "n < 2 ^ 32" unfolding n_def row_nodes_count_def by (rule order_less_le_trans [OF unsigned_less]) simp
    have count: "unat (schema_view_node_count view) = n"
      using admitted_count [OF view] amounts_small(4) [OF n] by (simp add: n_def row_nodes_count_def view)
    have parts: "schema_view_retained_bytes (schema_storage_view storage) = of_nat (storage_amount n)"
      "unat (schema_view_node_count (schema_storage_view storage)) = length (schema_storage_nodes storage)"
      "schema_storage_address storage = place (allocator_calls t)"
      by (subst (1) storage, simp add: compiled_storage_def n_def compiled_nodes_def,
          subst (1 2) storage, simp add: compiled_storage_def count [unfolded n_def] compiled_nodes_def,
          subst storage, simp add: compiled_storage_def)
    show ?thesis
      using balanced parts peak run
      by (simp add: Some serialized_file_schema_dispose_def serialized_file_schema_node_def word_less_nat_alt
          serialized_file_schema_view_def serialized_file_schema_storage_range_internal_def n_def mem_free_owed)
  qed
qed

text \<open>The two constructors, by the parent they take.\<close>

definition create_from ::
    "memory \<Rightarrow> (nat \<Rightarrow> pointer) \<Rightarrow> allocator \<Rightarrow> pointer \<times> u64 \<Rightarrow> pointer \<Rightarrow>
     SerializedFileDirectory + SerializedFileMetadataTail \<Rightarrow> u64 \<Rightarrow> pointer \<Rightarrow> SerializedFileSchemaLimits \<Rightarrow> pointer \<Rightarrow>
     SerializedFileSchema \<Rightarrow> tracker \<Rightarrow> SerializedFileSchemaResult \<times> SerializedFileSchema \<times> tracker" where
  "create_from mem place grants common handle holder =
     (case holder of
        Inl directory \<Rightarrow> serialized_file_schema_create_ordinary mem place grants common handle directory
      | Inr tail \<Rightarrow> serialized_file_schema_create_reference mem place grants common handle tail)"

abbreviation "handle_bytes holder \<equiv>
  (case holder of Inl _ \<Rightarrow> sizeof_directory_handle | Inr _ \<Rightarrow> sizeof_tail_handle)"

abbreviation "holder_kind holder \<equiv>
  (case holder of Inl _ \<Rightarrow> SERIALIZED_FILE_SCHEMA_ORDINARY_TYPE | Inr _ \<Rightarrow> SERIALIZED_FILE_SCHEMA_REFERENCE_TYPE)"

lemma create_from_schema:
  "create_from mem place grants common handle holder =
     create_schema mem place grants common handle (handle_bytes holder) holder (holder_kind holder)"
  by (rule ext)+ (simp add: create_from_def serialized_file_schema_create_ordinary_def
      serialized_file_schema_create_reference_def split: sum.split)

section \<open>Correctness\<close>

text \<open>
  Property C22. Creating a schema publishes one exactly when the handles and ranges are usable,
  the parent is genuine and of the supported engine, the row exists and embeds a tree whose
  tables lie in the parent's bytes within the caps, the levels of the nodes are a preorder tree
  no deeper than the cap, every name is a whole terminated string of its table, both
  allocations are granted and the budget covers the work. The schema then holds the selected
  row, the deepest level and every node decoded, linked and named; the result reports exactly
  the work and the memory used, and only the retained block stays allocated. In every other
  case a failure is reported within the budget and the allocator's counters are as before.
\<close>

theorem schema_create_correct:
  "case create_from mem place grants common handle holder ordinal limits_address limits out_address None t of
     (r, None, t') \<Rightarrow> schema_failed limits r \<and> owed None 0 t' = owed None 0 t \<and>
       (case schema_parent handle (handle_bytes holder) holder common limits_address out_address of
          None \<Rightarrow> True | Some parent \<Rightarrow> \<not> schema_admits mem grants common parent (holder_kind holder) ordinal limits t)
   | (r, Some storage, t') \<Rightarrow>
       (case schema_parent handle (handle_bytes holder) holder common limits_address out_address of
          None \<Rightarrow> False
        | Some parent \<Rightarrow>
            let view = the (admitted_view parent (holder_kind holder) ordinal); n = row_nodes_count parent (holder_kind holder) ordinal in
            schema_admits mem grants common parent (holder_kind holder) ordinal limits t \<and>
            r = schema_initial_result
              \<lparr>schema_result_type_ordinal := ordinal, schema_work_used := of_nat (schema_work common view n),
               schema_required_retained_bytes := of_nat (storage_amount n),
               schema_required_scratch_bytes := of_nat (scratch_amount n),
               schema_peak_retained_bytes := of_nat (storage_amount n),
               schema_peak_scratch_bytes := of_nat (scratch_amount n)\<rparr> \<and>
            storage = compiled_storage mem common view n (place (allocator_calls t)) (schema_storage_cells storage) \<and>
            owed (Some (schema_storage_cells storage)) (of_nat (storage_amount n)) t' = owed None 0 t)"
  using schema_create_outcome [where mem = mem and place = place and grants = grants and common = common and handle = handle and
      handle_size = "handle_bytes holder" and holder = holder and kind = "holder_kind holder" and ordinal = ordinal and
      limits_address = limits_address and limits = limits and out_address = out_address and t = t]
  unfolding create_from_schema by (auto simp: Let_def split: prod.splits option.splits)

text \<open>
  Property C30. A created schema is a well-formed tree: the ordinals count up; the root alone has
  no parent, every other node's parent stands before it and one level above it; the first child
  and the next sibling are the first later nodes that say so, the child count is the number of
  nodes that name the node their parent; the nodes up to the end of a subtree are exactly its
  descendants; the maximum depth is the greatest level; and every name is exactly the bytes in
  front of a zero byte.
\<close>

theorem schema_create_wellformed:
  "case create_from mem place grants common handle holder ordinal limits_address limits out_address None t of
     (_, None, _) \<Rightarrow> True | (_, Some storage, _) \<Rightarrow> schema_wellformed mem storage"
  unfolding create_from_schema by (rule schema_created_wellformed)

text \<open>
  Property C36. A schema's life cycle: while it lives its node accessor answers exactly the
  ordinals below the node count, with the compiled nodes, and its range is the retained block;
  disposing of what creation left gives the allocator's counters back as they were, and a second
  disposal changes nothing.
\<close>

theorem schema_lifecycle:
  "case create_from mem place grants common handle holder ordinal limits_address limits out_address None t of
     (r, out, t') \<Rightarrow>
       (case serialized_file_schema_dispose out t' of
          (left, t'') \<Rightarrow> left = None \<and> owed None 0 t'' = owed None 0 t \<and>
            serialized_file_schema_dispose left t'' = (None, t'')) \<and>
       serialized_file_schema_view out = map_option schema_storage_view out \<and>
       serialized_file_schema_node out i =
         (case out of None \<Rightarrow> None
          | Some storage \<Rightarrow> if unat i < length (schema_storage_nodes storage)
              then Some (schema_storage_nodes storage ! unat i) else None) \<and>
       serialized_file_schema_storage_range_internal out =
         map_option (\<lambda>_. (place (allocator_calls t), schema_peak_retained_bytes r)) out"
  unfolding create_from_schema by (rule created_lifecycle)

end
