(* ===== verification/BundleArchive.thy ===== *)
theory BundleArchive
  imports ByteStream Lz4 Outcomes
begin

text \<open>
  \<open>src/io/bundle_archive.c\<close> and its header: opening a UnityFS bundle from memory, the views of its
  members and their classification. The file is the list of its bytes. Two things lie outside:
  the bundled LZMA decoder is the parameter \<open>lzma\<close>, and \<open>dirt\<close> gives the bytes that memory
  fresh from the allocator happens to hold. \<open>fault\<close> is set by an access outside a buffer.
\<close>

section \<open>Data\<close>

record BundleBlockInfo =
  block_decompressed_size :: u32
  block_compressed_size :: u32
  block_flags :: u16

record BundleDirectoryInfo =
  node_offset :: u64
  node_decompressed_size :: u64
  node_flags :: u32
  node_name :: "block option"

abbreviation UNITYFS_NODE_DIRECTORY :: u32 where "UNITYFS_NODE_DIRECTORY \<equiv> 1"
abbreviation UNITYFS_NODE_DELETED :: u32 where "UNITYFS_NODE_DELETED \<equiv> 2"
abbreviation UNITYFS_NODE_SERIALIZED_FILE :: u32 where "UNITYFS_NODE_SERIALIZED_FILE \<equiv> 4"
abbreviation UNITYFS_NODE_KNOWN_FLAGS :: u32 where "UNITYFS_NODE_KNOWN_FLAGS \<equiv> 7"

datatype BundleMemberKind =
  BUNDLE_MEMBER_INVALID
| BUNDLE_MEMBER_SERIALIZED_FILE
| BUNDLE_MEMBER_RESOURCE
| BUNDLE_MEMBER_DIRECTORY
| BUNDLE_MEMBER_DELETED

record BundleArchive =
  signature :: "block option"
  archive_version :: u32
  generation_version :: "block option"
  engine_version :: "block option"
  total_file_size :: u64
  compressed_info_size :: u32
  decompressed_info_size :: u32
  archive_flags :: u32
  block_count :: int
  archive_blocks :: "BundleBlockInfo list option"
  directory_count :: int
  archive_directories :: "BundleDirectoryInfo list option"
  archive_payload :: "u8 list option"
  payload_size :: u64

definition zero_block_info :: BundleBlockInfo where
  "zero_block_info = \<lparr>block_decompressed_size = 0, block_compressed_size = 0, block_flags = 0\<rparr>"

definition zero_directory_info :: BundleDirectoryInfo where
  "zero_directory_info =
     \<lparr>node_offset = 0, node_decompressed_size = 0, node_flags = 0, node_name = None\<rparr>"

definition zero_archive :: BundleArchive where
  "zero_archive =
     \<lparr>signature = None, archive_version = 0, generation_version = None, engine_version = None,
      total_file_size = 0, compressed_info_size = 0, decompressed_info_size = 0, archive_flags = 0,
      block_count = 0, archive_blocks = None, directory_count = 0, archive_directories = None,
      archive_payload = None, payload_size = 0\<rparr>"

abbreviation sizeof_block_info :: u64 where "sizeof_block_info \<equiv> 12"
abbreviation sizeof_directory_info :: u64 where "sizeof_directory_info \<equiv> 32"

text \<open>The constants at the head of the file.\<close>

abbreviation UNITYFS_SUPPORTED_ARCHIVE_VERSION :: u32 where "UNITYFS_SUPPORTED_ARCHIVE_VERSION \<equiv> 8"
abbreviation UNITYFS_COMPRESSION_MASK :: u32 where "UNITYFS_COMPRESSION_MASK \<equiv> 0x3F"
abbreviation UNITYFS_BLOCKS_AND_DIRECTORY_INFO_COMBINED :: u32 where
  "UNITYFS_BLOCKS_AND_DIRECTORY_INFO_COMBINED \<equiv> 0x40"
abbreviation UNITYFS_BLOCK_INFO_AT_END :: u32 where "UNITYFS_BLOCK_INFO_AT_END \<equiv> 0x80"
abbreviation UNITYFS_BLOCK_INFO_NEEDS_PADDING :: u32 where "UNITYFS_BLOCK_INFO_NEEDS_PADDING \<equiv> 0x200"
abbreviation UNITYFS_SUPPORTED_ARCHIVE_FLAGS :: u32 where "UNITYFS_SUPPORTED_ARCHIVE_FLAGS \<equiv> 0x2FF"
abbreviation UNITYFS_SUPPORTED_BLOCK_FLAGS :: u32 where "UNITYFS_SUPPORTED_BLOCK_FLAGS \<equiv> 0x7F"

definition ascii :: "string \<Rightarrow> u8 list" where
  "ascii s = map of_char s"

definition UNITYFS_SIGNATURE :: "u8 list" where "UNITYFS_SIGNATURE = ascii ''UnityFS''"
definition UNITYFS_SUPPORTED_GENERATION :: "u8 list" where
  "UNITYFS_SUPPORTED_GENERATION = ascii ''5.x.x''"
definition UNITYFS_SUPPORTED_ENGINE_VERSION :: "u8 list" where
  "UNITYFS_SUPPORTED_ENGINE_VERSION = ascii ''2021.3.35f1''"

text \<open>A C string in a block: the bytes before its first zero byte, and the size it was tracked under.\<close>

definition c_text :: "block \<Rightarrow> u8 list" where
  "c_text cells = map the (takeWhile (\<lambda>c. c \<noteq> Some 0) cells)"

definition c_size :: "block \<Rightarrow> u64" where
  "c_size cells = of_nat (length (c_text cells)) + 1"

section \<open>Members by kind\<close>

definition unityfs_compression_is_supported :: "u32 \<Rightarrow> bool" where
  "unityfs_compression_is_supported flags \<longleftrightarrow> flags AND UNITYFS_COMPRESSION_MASK \<le> 3"

definition bundle_name_has_suffix :: "u8 list option \<Rightarrow> u8 list option \<Rightarrow> bool" where
  "bundle_name_has_suffix name suffix =
     (case (name, suffix) of
        (Some v, Some x) \<Rightarrow> length x \<le> length v \<and> drop (length v - length x) v = x
      | _ \<Rightarrow> False)"

definition bundle_member_classify :: "BundleDirectoryInfo option \<Rightarrow> BundleMemberKind" where
  "bundle_member_classify member =
     (case member of
        None \<Rightarrow> BUNDLE_MEMBER_INVALID
      | Some m \<Rightarrow>
          if node_name m = None \<or> node_flags m AND NOT UNITYFS_NODE_KNOWN_FLAGS \<noteq> 0
          then BUNDLE_MEMBER_INVALID
          else if node_flags m AND UNITYFS_NODE_SERIALIZED_FILE \<noteq> 0
          then (if node_flags m AND (UNITYFS_NODE_DIRECTORY OR UNITYFS_NODE_DELETED) = 0
                then BUNDLE_MEMBER_SERIALIZED_FILE else BUNDLE_MEMBER_INVALID)
          else if node_flags m AND UNITYFS_NODE_DIRECTORY \<noteq> 0
          then (if node_flags m AND UNITYFS_NODE_DELETED = 0
                then BUNDLE_MEMBER_DIRECTORY else BUNDLE_MEMBER_INVALID)
          else if node_flags m AND UNITYFS_NODE_DELETED \<noteq> 0 then BUNDLE_MEMBER_DELETED
          else
            (let name = map_option c_text (node_name m) in
             if bundle_name_has_suffix name (Some (ascii ''.resS'')) \<or>
                bundle_name_has_suffix name (Some (ascii ''.resource'')) \<or>
                bundle_name_has_suffix name (Some (ascii ''.resources''))
             then BUNDLE_MEMBER_RESOURCE else BUNDLE_MEMBER_INVALID))"

section \<open>Decompression\<close>

datatype ELzmaStatus =
  LZMA_STATUS_NOT_SPECIFIED
| LZMA_STATUS_FINISHED_WITH_MARK
| LZMA_STATUS_NOT_FINISHED
| LZMA_STATUS_NEEDS_MORE_INPUT
| LZMA_STATUS_MAYBE_FINISHED_WITHOUT_MARK

text \<open>
  What \<open>LzmaDecode\<close> leaves: its result, the bytes that it stored at the start of the output
  (\<open>out_len\<close> of them), the input bytes it used and the status. Its arguments are the five
  property bytes, the input and the room in the output.
\<close>

record lzma_outcome =
  lzma_ok :: bool
  lzma_output :: "u8 list"
  lzma_consumed :: nat
  lzma_status :: ELzmaStatus

type_synonym lzma_decoder = "u8 list \<Rightarrow> u8 list \<Rightarrow> nat \<Rightarrow> lzma_outcome"

text \<open>
  The static \<open>decompress_block\<close>. \<open>src\<close> and \<open>dst\<close> are the bytes from the two pointers to the end
  of their buffers; the result is the flag and the bytes at the destination, \<open>None\<close> for an
  access behind the end of a buffer.
\<close>

definition bundle_decompress_block ::
    "lzma_decoder \<Rightarrow> u32 \<Rightarrow> u8 list option \<Rightarrow> nat \<Rightarrow> u8 list option \<Rightarrow> nat \<Rightarrow> (bool \<times> u8 list option) option" where
  "bundle_decompress_block lzma comp_type src src_len dst dst_len =
     (if (src = None \<and> src_len \<noteq> 0) \<or> (dst = None \<and> dst_len \<noteq> 0) then Some (False, dst)
      else
        (let from = (case src of None \<Rightarrow> [] | Some bytes \<Rightarrow> bytes);
             to = (case dst of None \<Rightarrow> [] | Some bytes \<Rightarrow> bytes);
             reads = take src_len from;
             store = (\<lambda>written. map_option (\<lambda>bytes. written @ drop (length written) bytes) dst)
         in
         if comp_type = 0 then
           (if src_len \<noteq> dst_len then Some (False, dst)
            else if dst_len = 0 then Some (True, dst)
            else if length from < src_len \<or> length to < dst_len then None
            else Some (True, store reads))
         else if comp_type = 1 then
           (if src_len < 5 then Some (False, dst)
            else if length from < src_len \<or> length to < dst_len then None
            else
              (let res = lzma (take 5 reads) (drop 5 reads) dst_len in
               if length (lzma_output res) > dst_len then None
               else Some (lzma_ok res \<and> length (lzma_output res) = dst_len \<and>
                          lzma_consumed res = src_len - 5 \<and>
                          (lzma_status res = LZMA_STATUS_FINISHED_WITH_MARK \<or>
                           lzma_status res = LZMA_STATUS_MAYBE_FINISHED_WITHOUT_MARK),
                          store (lzma_output res))))
         else if comp_type = 2 \<or> comp_type = 3 then
           (if int src_len > INT_MAX \<or> int dst_len > INT_MAX then Some (False, dst)
            else if src_len = 0 then Some (dst_len = 0, dst)
            else if length from < src_len \<or> length to < dst_len then None
            else
              (case lz4_decompress_safe (Some reads) (Some (take dst_len to)) (int src_len) (int dst_len) of
                 Some (r, Some written) \<Rightarrow> Some (r \<ge> 0 \<and> nat r = dst_len, store written)
               | _ \<Rightarrow> None))
         else Some (False, dst)))"

section \<open>Closing\<close>

fun free_names :: "BundleDirectoryInfo list \<Rightarrow> tracker \<Rightarrow> tracker" where
  "free_names [] t = t"
| "free_names (d # ds) t =
     free_names ds
       (case node_name d of None \<Rightarrow> t | Some cells \<Rightarrow> mem_free (Some cells) (c_size cells) t)"

definition free_text :: "block option \<Rightarrow> tracker \<Rightarrow> tracker" where
  "free_text ptr t = (case ptr of None \<Rightarrow> t | Some cells \<Rightarrow> mem_free (Some cells) (c_size cells) t)"

text \<open>An array is freed under its size; its cells do not matter.\<close>

definition free_array :: "u64 \<Rightarrow> tracker \<Rightarrow> tracker" where
  "free_array amount t = mem_free (Some []) amount t"

definition bundle_close :: "BundleArchive \<Rightarrow> tracker \<Rightarrow> BundleArchive \<times> tracker" where
  "bundle_close a t =
     (let t = free_text (signature a) t;
          t = free_text (generation_version a) t;
          t = free_text (engine_version a) t;
          t = (case archive_blocks a of None \<Rightarrow> t
               | Some rows \<Rightarrow> free_array (of_int (block_count a) * sizeof_block_info) t);
          t = (case archive_directories a of None \<Rightarrow> t
               | Some rows \<Rightarrow>
                   free_array (of_int (directory_count a) * sizeof_directory_info)
                     (free_names (take (nat (directory_count a)) rows) t));
          t = (case archive_payload a of None \<Rightarrow> t | Some bytes \<Rightarrow> free_array (payload_size a) t)
      in (a\<lparr>signature := None, generation_version := None, engine_version := None,
            archive_blocks := None, archive_directories := None, archive_payload := None,
            payload_size := 0\<rparr>, t))"

section \<open>Opening\<close>

text \<open>The archive, the two streams, the tracker, and whether a buffer was overrun.\<close>

record bundle_opening =
  archive :: BundleArchive
  stream :: byte_stream
  info_stream :: byte_stream
  heap :: tracker
  fault :: bool

type_synonym 'a bundle_step = "(bundle_opening, 'a) step"

definition on_stream :: "(byte_stream, 'a) step \<Rightarrow> 'a bundle_step" where
  "on_stream m s = (case m (stream s) of (r, i) \<Rightarrow> (r, s\<lparr>stream := i\<rparr>))"

definition on_info :: "(byte_stream, 'a) step \<Rightarrow> 'a bundle_step" where
  "on_info m s = (case m (info_stream s) of (r, i) \<Rightarrow> (r, s\<lparr>info_stream := i\<rparr>))"

definition flagged :: "('s \<Rightarrow> bool \<times> 's) \<Rightarrow> ('s, unit) step" where
  "flagged m s = (case m s of (ok, t) \<Rightarrow> (if ok then Some () else None, t))"

definition on_archive :: "(BundleArchive \<Rightarrow> BundleArchive) \<Rightarrow> unit bundle_step" where
  "on_archive f = step_modify (\<lambda>s. s\<lparr>archive := f (archive s)\<rparr>)"

definition must :: "(bundle_opening \<Rightarrow> bool) \<Rightarrow> unit bundle_step" where
  "must guard = step_require guard (\<lambda>s. s)"

definition read_text :: "allocator \<Rightarrow> (bundle_opening \<Rightarrow> byte_stream) \<Rightarrow>
    ((byte_stream \<Rightarrow> byte_stream) \<Rightarrow> bundle_opening \<Rightarrow> bundle_opening) \<Rightarrow> block bundle_step" where
  "read_text grants get update s =
     (case stream_read_string_alloc grants (get s) (heap s) of
        (r, stored, i, t) \<Rightarrow> (r, update (\<lambda>_. i) s\<lparr>heap := t\<rparr>))"

definition take_memory :: "allocator \<Rightarrow> u64 \<Rightarrow> unit bundle_step" where
  "take_memory grants amount s =
     (case mem_alloc grants amount (heap s) of (r, t) \<Rightarrow> (map_option (\<lambda>_. ()) r, s\<lparr>heap := t\<rparr>))"

text \<open>\<open>allocate_zeroed_array\<close>, with \<open>zero\<close> for an element of zero bytes.\<close>

definition allocate_zeroed_array :: "allocator \<Rightarrow> 'r \<Rightarrow> u64 \<Rightarrow> u64 \<Rightarrow> 'r list bundle_step" where
  "allocate_zeroed_array grants zero count element_size =
     step_then (must (\<lambda>_. \<not> (element_size = 0 \<or> dxbc_size_multiply_overflows count element_size))) (\<lambda>_.
       if count = 0 then step_return []
       else step_then (take_memory grants (count * element_size)) (\<lambda>_.
              step_return (replicate (unat count) zero)))"

text \<open>Up to the dialect: the signature, the version and the two version strings.\<close>

definition open_dialect :: "allocator \<Rightarrow> bool \<Rightarrow> unit bundle_step" where
  "open_dialect grants host =
     step_then (must (\<lambda>s. map_option c_text (signature (archive s)) = Some UNITYFS_SIGNATURE)) (\<lambda>_.
     step_then (on_stream (stream_read_uint32 host)) (\<lambda>v.
     step_then (on_archive (\<lambda>a. a\<lparr>archive_version := v\<rparr>)) (\<lambda>_.
     step_then (read_text grants stream stream_update) (\<lambda>gen.
     step_then (on_archive (\<lambda>a. a\<lparr>generation_version := Some gen\<rparr>)) (\<lambda>_.
     step_then (read_text grants stream stream_update) (\<lambda>eng.
     step_then (on_archive (\<lambda>a. a\<lparr>engine_version := Some eng\<rparr>)) (\<lambda>_.
     must (\<lambda>s. \<not> (archive_version (archive s) \<noteq> UNITYFS_SUPPORTED_ARCHIVE_VERSION \<or>
                  c_text gen \<noteq> UNITYFS_SUPPORTED_GENERATION \<or>
                  c_text eng \<noteq> UNITYFS_SUPPORTED_ENGINE_VERSION)))))))))"

text \<open>The sizes and flags of the header, and the alignment behind them.\<close>

definition open_header :: "bool \<Rightarrow> u64 \<Rightarrow> unit bundle_step" where
  "open_header host file_size =
     step_then (on_stream (stream_read_uint64 host)) (\<lambda>total.
     step_then (on_archive (\<lambda>a. a\<lparr>total_file_size := total\<rparr>)) (\<lambda>_.
     step_then (on_stream (stream_read_uint32 host)) (\<lambda>packed.
     step_then (on_archive (\<lambda>a. a\<lparr>compressed_info_size := packed\<rparr>)) (\<lambda>_.
     step_then (on_stream (stream_read_uint32 host)) (\<lambda>unpacked.
     step_then (on_archive (\<lambda>a. a\<lparr>decompressed_info_size := unpacked\<rparr>)) (\<lambda>_.
     step_then (on_stream (stream_read_uint32 host)) (\<lambda>flags.
     step_then (on_archive (\<lambda>a. a\<lparr>archive_flags := flags\<rparr>)) (\<lambda>_.
     step_then (must (\<lambda>_. \<not> (flags AND UNITYFS_BLOCKS_AND_DIRECTORY_INFO_COMBINED = 0 \<or>
                  flags AND NOT UNITYFS_SUPPORTED_ARCHIVE_FLAGS \<noteq> 0 \<or>
                  \<not> unityfs_compression_is_supported flags))) (\<lambda>_.
     step_then (must (\<lambda>_. \<not> (total \<noteq> file_size \<or> packed = 0 \<or> unpacked < 20))) (\<lambda>_.
     step_then (on_stream (flagged (stream_align 16))) (\<lambda>_.
     must (\<lambda>s. \<not> position (stream s) > total))))))))))))"

definition locate_info :: "u64 bundle_step" where
  "locate_info =
     step_with (\<lambda>s. (archive s, position (stream s))) (\<lambda>(a, here).
       let packed = ucast (compressed_info_size a); declared = total_file_size a in
       step_then
         (if archive_flags a AND UNITYFS_BLOCK_INFO_AT_END \<noteq> 0 then
            step_then (must (\<lambda>_. \<not> packed > declared)) (\<lambda>_.
            step_then (must (\<lambda>_. \<not> declared - packed < here)) (\<lambda>_.
            step_return (declared - packed)))
          else step_return here) (\<lambda>info_offset.
       step_then (must (\<lambda>_. \<not> (info_offset > declared \<or> packed > declared - info_offset))) (\<lambda>_.
       step_return info_offset)))"

text \<open>The rows of the two tables; the array in the archive is written field by field.\<close>

definition set_block :: "nat \<Rightarrow> (BundleBlockInfo \<Rightarrow> BundleBlockInfo) \<Rightarrow> unit bundle_step" where
  "set_block i f =
     on_archive (\<lambda>a. a\<lparr>archive_blocks := map_option (\<lambda>rows. rows[i := f (rows ! i)]) (archive_blocks a)\<rparr>)"

definition set_directory :: "nat \<Rightarrow> (BundleDirectoryInfo \<Rightarrow> BundleDirectoryInfo) \<Rightarrow> unit bundle_step" where
  "set_directory i f =
     on_archive (\<lambda>a. a\<lparr>archive_directories :=
       map_option (\<lambda>rows. rows[i := f (rows ! i)]) (archive_directories a)\<rparr>)"

definition read_block_row :: "bool \<Rightarrow> nat \<Rightarrow> unit bundle_step" where
  "read_block_row host i =
     step_then (on_info (stream_read_uint32 host)) (\<lambda>unpacked.
     step_then (set_block i (\<lambda>b. b\<lparr>block_decompressed_size := unpacked\<rparr>)) (\<lambda>_.
     step_then (on_info (stream_read_uint32 host)) (\<lambda>packed.
     step_then (set_block i (\<lambda>b. b\<lparr>block_compressed_size := packed\<rparr>)) (\<lambda>_.
     step_then (on_info (stream_read_uint16 host)) (\<lambda>flags.
     step_then (set_block i (\<lambda>b. b\<lparr>block_flags := flags\<rparr>)) (\<lambda>_.
     must (\<lambda>_. \<not> (ucast flags AND NOT UNITYFS_SUPPORTED_BLOCK_FLAGS \<noteq> 0 \<or>
                  \<not> unityfs_compression_is_supported (ucast flags)))))))))"

definition read_directory_row :: "allocator \<Rightarrow> bool \<Rightarrow> nat \<Rightarrow> unit bundle_step" where
  "read_directory_row grants host i =
     step_then (on_info (stream_read_uint64 host)) (\<lambda>offset.
     step_then (set_directory i (\<lambda>d. d\<lparr>node_offset := offset\<rparr>)) (\<lambda>_.
     step_then (on_info (stream_read_uint64 host)) (\<lambda>unpacked.
     step_then (set_directory i (\<lambda>d. d\<lparr>node_decompressed_size := unpacked\<rparr>)) (\<lambda>_.
     step_then (on_info (stream_read_uint32 host)) (\<lambda>flags.
     step_then (set_directory i (\<lambda>d. d\<lparr>node_flags := flags\<rparr>)) (\<lambda>_.
     step_then (read_text grants info_stream info_stream_update) (\<lambda>name.
     set_directory i (\<lambda>d. d\<lparr>node_name := Some name\<rparr>))))))))"

definition read_block_table :: "allocator \<Rightarrow> bool \<Rightarrow> unit bundle_step" where
  "read_block_table grants host =
     step_then (on_info (stream_read_uint32 host)) (\<lambda>count.
     step_then (must (\<lambda>s. \<not> (count > 0x7FFFFFFF \<or>
                  ucast count > stream_remaining (info_stream s) div 10))) (\<lambda>_.
     step_then (on_archive (\<lambda>a. a\<lparr>block_count := int (unat count)\<rparr>)) (\<lambda>_.
     if count > 0 then
       step_then (allocate_zeroed_array grants zero_block_info (ucast count) sizeof_block_info) (\<lambda>rows.
       step_then (on_archive (\<lambda>a. a\<lparr>archive_blocks := Some rows\<rparr>)) (\<lambda>_.
       step_then (scan_rows (read_block_row host) 0 (unat count)) (\<lambda>_. step_return ())))
     else on_archive (\<lambda>a. a\<lparr>archive_blocks := None\<rparr>))))"

definition read_directory_table :: "allocator \<Rightarrow> bool \<Rightarrow> unit bundle_step" where
  "read_directory_table grants host =
     step_then (on_info (stream_read_uint32 host)) (\<lambda>count.
     step_then (must (\<lambda>s. \<not> (count > 0x7FFFFFFF \<or>
                  ucast count > stream_remaining (info_stream s) div 21))) (\<lambda>_.
     step_then (on_archive (\<lambda>a. a\<lparr>directory_count := int (unat count)\<rparr>)) (\<lambda>_.
     if count > 0 then
       step_then (allocate_zeroed_array grants zero_directory_info (ucast count) sizeof_directory_info) (\<lambda>rows.
       step_then (on_archive (\<lambda>a. a\<lparr>archive_directories := Some rows\<rparr>)) (\<lambda>_.
       step_then (scan_rows (read_directory_row grants host) 0 (unat count)) (\<lambda>_. step_return ())))
     else on_archive (\<lambda>a. a\<lparr>archive_directories := None\<rparr>))))"

text \<open>
  The decompression of one chunk of the file: \<open>dst\<close> is what the destination holds. An
  overrun sets \<open>fault\<close>.
\<close>

definition decompress_chunk ::
    "lzma_decoder \<Rightarrow> u8 list \<Rightarrow> u32 \<Rightarrow> u64 \<Rightarrow> u32 \<Rightarrow> u8 list option \<Rightarrow> u32 \<Rightarrow> u8 list option bundle_step" where
  "decompress_chunk lzma data comp_type offset src_len dst dst_len s =
     (case bundle_decompress_block lzma comp_type (Some (drop (unat offset) data)) (unat src_len) dst (unat dst_len) of
        None \<Rightarrow> (None, s\<lparr>fault := True\<rparr>)
      | Some (ok, written) \<Rightarrow> (if ok then Some written else None, s))"

text \<open>
  The info chunk: its memory is freed when its reading has ended, whichever way. \<open>fresh\<close> is the
  content of a new block.
\<close>

definition fresh :: "(nat \<Rightarrow> u8) \<Rightarrow> nat \<Rightarrow> u8 list" where
  "fresh dirt n = map dirt [0..<n]"

definition read_info ::
    "allocator \<Rightarrow> bool \<Rightarrow> (nat \<Rightarrow> u8) \<Rightarrow> lzma_decoder \<Rightarrow> u8 list \<Rightarrow> u64 \<Rightarrow> unit bundle_step" where
  "read_info grants host dirt lzma data info_offset =
     step_with archive (\<lambda>a.
     step_then (decompress_chunk lzma data (archive_flags a AND UNITYFS_COMPRESSION_MASK) info_offset
         (compressed_info_size a) (Some (fresh dirt (unat (decompressed_info_size a))))
         (decompressed_info_size a)) (\<lambda>written.
     step_then (step_modify (\<lambda>s. s\<lparr>info_stream :=
         stream_set_endian True (stream_init (the written) (ucast (decompressed_info_size a)))\<rparr>)) (\<lambda>_.
     step_then (on_info (flagged (stream_skip 16))) (\<lambda>_.
     step_then (read_block_table grants host) (\<lambda>_.
     step_then (read_directory_table grants host) (\<lambda>_.
     must (\<lambda>s. stream_remaining (info_stream s) = 0)))))))"

definition open_info ::
    "allocator \<Rightarrow> bool \<Rightarrow> (nat \<Rightarrow> u8) \<Rightarrow> lzma_decoder \<Rightarrow> u8 list \<Rightarrow> u64 \<Rightarrow> unit bundle_step" where
  "open_info grants host dirt lzma data info_offset =
     step_with (\<lambda>s. ucast (decompressed_info_size (archive s))) (\<lambda>amount.
     step_then (take_memory grants amount) (\<lambda>_ s.
       case read_info grants host dirt lzma data info_offset s of
         (r, s') \<Rightarrow> (r, s'\<lparr>heap := free_array amount (heap s')\<rparr>)))"

definition locate_data :: "u64 \<Rightarrow> (u64 \<times> u64) bundle_step" where
  "locate_data info_offset =
     step_with (\<lambda>s. (archive s, position (stream s))) (\<lambda>(a, here).
       let packed = ucast (compressed_info_size a); declared = total_file_size a in
       step_then
         (if archive_flags a AND UNITYFS_BLOCK_INFO_AT_END \<noteq> 0 then step_return (here, info_offset)
          else step_then (must (\<lambda>_. \<not> packed > declared - info_offset)) (\<lambda>_.
               step_return (info_offset + packed, declared))) (\<lambda>(data_start, data_end).
       step_then
         (if archive_flags a AND UNITYFS_BLOCK_INFO_NEEDS_PADDING \<noteq> 0 then
            step_then (must (\<lambda>_. \<not> data_start > SIZE_MAX - 15)) (\<lambda>_.
            step_return ((data_start + 15) AND NOT 15))
          else step_return data_start) (\<lambda>data_start.
       step_then (must (\<lambda>_. \<not> data_start > data_end)) (\<lambda>_.
       step_return (data_start, data_end)))))"

text \<open>The rows that the loops over \<open>block_count\<close> and \<open>directory_count\<close> visit.\<close>

definition block_rows :: "BundleArchive \<Rightarrow> BundleBlockInfo list" where
  "block_rows a = (case archive_blocks a of None \<Rightarrow> [] | Some rows \<Rightarrow> take (nat (block_count a)) rows)"

definition directory_rows :: "BundleArchive \<Rightarrow> BundleDirectoryInfo list" where
  "directory_rows a =
     (case archive_directories a of None \<Rightarrow> [] | Some rows \<Rightarrow> take (nat (directory_count a)) rows)"

fun block_totals :: "BundleBlockInfo list \<Rightarrow> u64 \<Rightarrow> u64 \<Rightarrow> (u64 \<times> u64) option" where
  "block_totals [] total_payload total_compressed = Some (total_payload, total_compressed)"
| "block_totals (b # bs) total_payload total_compressed =
     (if UINT64_MAX - total_payload < ucast (block_decompressed_size b) then None
      else
        (let total_payload = total_payload + ucast (block_decompressed_size b) in
         if ucast (block_compressed_size b) > SIZE_MAX - total_compressed then None
         else block_totals bs total_payload (total_compressed + ucast (block_compressed_size b))))"

definition open_payload :: "allocator \<Rightarrow> (nat \<Rightarrow> u8) \<Rightarrow> u64 \<Rightarrow> u64 \<Rightarrow> unit bundle_step" where
  "open_payload grants dirt data_start data_end =
     step_with (\<lambda>s. block_totals (block_rows (archive s)) 0 0) (\<lambda>totals.
       case totals of
         None \<Rightarrow> (\<lambda>s. (None, s))
       | Some (total_payload, total_compressed) \<Rightarrow>
           step_then (must (\<lambda>_. \<not> total_payload > SIZE_MAX)) (\<lambda>_.
           step_then (must (\<lambda>_. total_compressed = data_end - data_start)) (\<lambda>_.
           step_then (on_archive (\<lambda>a. a\<lparr>payload_size := total_payload\<rparr>)) (\<lambda>_.
           if total_payload > 0 then
             step_then (take_memory grants total_payload) (\<lambda>_.
             on_archive (\<lambda>a. a\<lparr>archive_payload := Some (fresh dirt (unat total_payload))\<rparr>))
           else on_archive (\<lambda>a. a\<lparr>archive_payload := None\<rparr>)))))"

text \<open>
  The loop that decompresses the blocks into the payload; the result is where the two cursors
  \<open>file_read_pos\<close> and \<open>current_payload_offset\<close> stand behind it.
\<close>

fun decode_blocks ::
    "lzma_decoder \<Rightarrow> u8 list \<Rightarrow> u64 \<Rightarrow> BundleBlockInfo list \<Rightarrow> u64 \<Rightarrow> u64 \<Rightarrow> (u64 \<times> u64) bundle_step" where
  "decode_blocks lzma data data_end [] read_pos offset = step_return (read_pos, offset)"
| "decode_blocks lzma data data_end (b # bs) read_pos offset =
     step_then (must (\<lambda>s. \<not> (read_pos > data_end \<or>
         ucast (block_compressed_size b) > data_end - read_pos \<or>
         offset > payload_size (archive s) \<or>
         ucast (block_decompressed_size b) > payload_size (archive s) - offset))) (\<lambda>_.
     step_then (step_with (\<lambda>s. archive_payload (archive s)) (\<lambda>whole.
       step_then (decompress_chunk lzma data (ucast (block_flags b) AND UNITYFS_COMPRESSION_MASK) read_pos
           (block_compressed_size b) (map_option (drop (unat offset)) whole) (block_decompressed_size b)) (\<lambda>written.
       on_archive (\<lambda>a. a\<lparr>archive_payload :=
           (case (whole, written) of (Some bytes, Some behind) \<Rightarrow> Some (take (unat offset) bytes @ behind) | _ \<Rightarrow> whole)\<rparr>)))) (\<lambda>_.
     decode_blocks lzma data data_end bs (read_pos + ucast (block_compressed_size b))
       (offset + ucast (block_decompressed_size b))))"

text \<open>The check of a directory's range, at opening and again at every view.\<close>

definition range_inside_payload :: "BundleArchive \<Rightarrow> BundleDirectoryInfo \<Rightarrow> bool" where
  "range_inside_payload a d \<longleftrightarrow>
     \<not> (node_offset d > payload_size a \<or> node_decompressed_size d > payload_size a - node_offset d)"

definition open_body ::
    "allocator \<Rightarrow> bool \<Rightarrow> (nat \<Rightarrow> u8) \<Rightarrow> lzma_decoder \<Rightarrow> u8 list \<Rightarrow> u64 \<Rightarrow> unit bundle_step" where
  "open_body grants host dirt lzma data file_size =
     step_then (open_dialect grants host) (\<lambda>_.
     step_then (open_header host file_size) (\<lambda>_.
     step_then locate_info (\<lambda>info_offset.
     step_then (open_info grants host dirt lzma data info_offset) (\<lambda>_.
     step_then (locate_data info_offset) (\<lambda>(data_start, data_end).
     step_then (open_payload grants dirt data_start data_end) (\<lambda>_.
     step_then (step_with (\<lambda>s. block_rows (archive s)) (\<lambda>rows.
       decode_blocks lzma data data_end rows data_start 0)) (\<lambda>(read_pos, offset).
     step_then (must (\<lambda>s. \<not> (read_pos \<noteq> data_end \<or> offset \<noteq> payload_size (archive s)))) (\<lambda>_.
     must (\<lambda>s. list_all (range_inside_payload (archive s)) (directory_rows (archive s)))))))))))"

text \<open>
  \<open>bundle_open\<close>: the flag, the archive left behind (\<open>None\<close> when the pointer was null) and the
  opening's last state, which holds the tracker and the fault.
\<close>

definition initial_opening :: "u8 list \<Rightarrow> u64 \<Rightarrow> tracker \<Rightarrow> bundle_opening" where
  "initial_opening data file_size t =
     \<lparr>archive = zero_archive, stream = stream_set_endian True (stream_init data file_size),
      info_stream = stream_init [] 0, heap = t, fault = False\<rparr>"

definition close_opening :: "bundle_opening \<Rightarrow> bundle_opening" where
  "close_opening s = (case bundle_close (archive s) (heap s) of (a, t) \<Rightarrow> s\<lparr>archive := a, heap := t\<rparr>)"

definition bundle_open ::
    "allocator \<Rightarrow> bool \<Rightarrow> (nat \<Rightarrow> u8) \<Rightarrow> lzma_decoder \<Rightarrow> BundleArchive option \<Rightarrow> u8 list option \<Rightarrow> u64 \<Rightarrow>
     tracker \<Rightarrow> bool \<times> BundleArchive option \<times> tracker \<times> bool" where
  "bundle_open grants host dirt lzma before file_data file_size t =
     (if before = None then (False, None, t, False)
      else
        (case file_data of
           None \<Rightarrow> (False, Some zero_archive, t, False)
         | Some data \<Rightarrow>
             (case read_text grants stream stream_update (initial_opening data file_size t) of
                (None, s) \<Rightarrow> (False, Some (archive s), heap s, fault s)
              | (Some sig, s) \<Rightarrow>
                  (case open_body grants host dirt lzma data file_size
                          (s\<lparr>archive := (archive s)\<lparr>signature := Some sig\<rparr>\<rparr>) of
                     (None, s) \<Rightarrow>
                       (let s = close_opening s in (False, Some (archive s), heap s, fault s))
                   | (Some _, s) \<Rightarrow> (True, Some (archive s), heap s, fault s)))))"

section \<open>Views\<close>

text \<open>
  A borrowed view is an offset into the payload and a size; \<open>None\<close> is the null pointer. A
  view function gives its flag and what it leaves in the outputs that exist.
\<close>

definition bundle_get_member_view ::
    "BundleArchive option \<Rightarrow> u64 \<Rightarrow> bool \<Rightarrow> bool \<Rightarrow> bool \<times> u64 option \<times> u64" where
  "bundle_get_member_view arch member_index has_data has_size =
     (case arch of
        None \<Rightarrow> (False, None, 0)
      | Some a \<Rightarrow>
          if \<not> has_data \<or> \<not> has_size \<or> directory_count a < 0 \<or>
             (directory_count a > 0 \<and> archive_directories a = None) \<or>
             member_index \<ge> of_int (directory_count a)
          then (False, None, 0)
          else
            (let dir = the (archive_directories a) ! unat member_index in
             if \<not> range_inside_payload a dir then (False, None, 0)
             else if node_decompressed_size dir = 0 then (True, None, 0)
             else if archive_payload a = None then (False, None, 0)
             else (True, Some (node_offset dir), node_decompressed_size dir)))"

text \<open>The search for a name; the outer \<open>None\<close> is the return on a duplicate.\<close>

fun find_member :: "u8 list \<Rightarrow> BundleDirectoryInfo list \<Rightarrow> nat \<Rightarrow> nat option \<Rightarrow> nat option option" where
  "find_member name [] i found = Some found"
| "find_member name (d # ds) i found =
     (if node_name d = None \<or> c_text (the (node_name d)) \<noteq> name then find_member name ds (i + 1) found
      else if found \<noteq> None then None
      else find_member name ds (i + 1) (Some i))"

definition bundle_get_file_view ::
    "BundleArchive option \<Rightarrow> u8 list option \<Rightarrow> bool \<Rightarrow> bool \<Rightarrow> bool \<times> u64 option \<times> u64" where
  "bundle_get_file_view arch name has_data has_size =
     (case (arch, name) of
        (Some a, Some wanted) \<Rightarrow>
          if \<not> has_data \<or> \<not> has_size \<or> directory_count a < 0 \<or>
             (directory_count a > 0 \<and> archive_directories a = None)
          then (False, None, 0)
          else
            (case find_member wanted (directory_rows a) 0 None of
               Some (Some i) \<Rightarrow> bundle_get_member_view arch (of_nat i) has_data has_size
             | _ \<Rightarrow> (False, None, 0))
      | _ \<Rightarrow> (False, None, 0))"

definition bundle_get_file ::
    "BundleArchive option \<Rightarrow> u8 list option \<Rightarrow> u64 option \<times> u64" where
  "bundle_get_file arch name =
     (case bundle_get_file_view arch name True True of
        (False, _, _) \<Rightarrow> (None, 0)
      | (True, pointer, amount) \<Rightarrow> (if amount = 0 then None else pointer, amount))"

end
