(* ===== verification/BundleFormat.thy ===== *)
theory BundleFormat
  imports BundleArchive
begin

text \<open>
  The UnityFS format without cursors, allocations or errors: how a file lays out its header, its
  info chunk and its data chunks, what a chunk decodes to, and a parser of the same format over
  lists. The parser is what the opening is compared with; the layout is what both accept.
\<close>

section \<open>Fields\<close>

definition be_bytes :: "nat \<Rightarrow> nat \<Rightarrow> u8 list" where
  "be_bytes n v = rev (map (\<lambda>i. of_nat (v div 256 ^ i)) [0..<n])"

definition be_number :: "u8 list \<Rightarrow> nat" where
  "be_number bytes = positional True bytes"

definition text_field :: "u8 list \<Rightarrow> u8 list" where
  "text_field bytes = bytes @ [0]"

definition text_cells :: "u8 list \<Rightarrow> block" where
  "text_cells bytes = map Some (text_field bytes)"

lemma be_bytes_length [simp]: "length (be_bytes n v) = n"
  by (simp add: be_bytes_def)

lemma text_field_length [simp]: "length (text_field bytes) = Suc (length bytes)"
  by (simp add: text_field_def)

lemma positional_step: "positional False (b # bytes) = 256 * positional False bytes + unat b"
  by (simp add: positional_def)

lemma positional_bytes: "positional False (map (\<lambda>i. of_nat (v div 256 ^ i) :: u8) [0..<n]) = v mod 256 ^ n"
proof (induction n arbitrary: v)
  case 0
  then show ?case by (simp add: positional_def)
next
  case (Suc n)
  have "[0..<Suc n] = 0 # map Suc [0..<n]"
    by (simp add: upt_conv_Cons map_Suc_upt del: upt_Suc)
  then have "map (\<lambda>i. of_nat (v div 256 ^ i) :: u8) [0..<Suc n] =
      of_nat v # map (\<lambda>i. of_nat (v div 256 div 256 ^ i)) [0..<n]"
    by (simp add: div_mult2_eq o_def del: upt_Suc)
  moreover have "unat (of_nat v :: u8) = v mod 256" by (simp add: unat_of_nat)
  ultimately show ?case
    by (simp add: positional_step Suc.IH mod_mult2_eq del: upt_Suc)
qed

lemma be_number_bytes [simp]: "v < 256 ^ n \<Longrightarrow> be_number (be_bytes n v) = v"
  using positional_bytes [of v n] by (simp add: be_number_def be_bytes_def positional_def)

lemma positional_lt: "positional False bytes < 256 ^ length bytes"
  by (induction bytes) (auto simp: positional_step positional_def [of _ "[]"]
      intro!: order.strict_trans2 [OF add_strict_left_mono [OF byte_bound]] dest: Suc_leI [THEN mult_le_mono2, of _ _ 256])

lemma be_number_bound: "be_number bytes < 256 ^ length bytes"
  using positional_lt [of "rev bytes"] by (simp add: be_number_def positional_def)

lemma positional_inj: "length xs = length ys \<Longrightarrow> positional False xs = positional False ys \<Longrightarrow> xs = ys"
proof (induction xs ys rule: list_induct2)
  case (Cons x xs y ys)
  have "(256 * positional False xs + unat x) mod 256 = (256 * positional False ys + unat y) mod 256"
    "(256 * positional False xs + unat x) div 256 = (256 * positional False ys + unat y) div 256"
    using Cons.prems by (simp_all add: positional_step)
  then show ?case using Cons.IH by (simp add: word_eq_nat)
qed simp

lemma be_bytes_value: "be_bytes (length bytes) (be_number bytes) = bytes"
proof -
  have "be_number (be_bytes (length bytes) (be_number bytes)) = be_number bytes"
    by (rule be_number_bytes [OF be_number_bound])
  then have "rev (be_bytes (length bytes) (be_number bytes)) = rev bytes"
    by (intro positional_inj) (simp_all add: be_number_def positional_def)
  then show ?thesis by simp
qed

lemma be_take: "n \<le> length bs \<Longrightarrow> be_bytes n (be_number (take n bs)) = take n bs"
  using be_bytes_value [of "take n bs"] by (simp add: min_absorb2)

lemma split_fields:
  "bs = take k bs @ take m (drop k bs) @ take n (drop (m + k) bs) @ drop (n + (m + k)) bs"
  by (metis append_take_drop_id drop_drop)

text \<open>A field at the front of some bytes, read and written.\<close>

lemma be_front: "bs = be_bytes n v @ rest \<and> v < 256 ^ n \<longleftrightarrow>
    n \<le> length bs \<and> be_number (take n bs) = v \<and> rest = drop n bs"
proof
  assume "n \<le> length bs \<and> be_number (take n bs) = v \<and> rest = drop n bs"
  then show "bs = be_bytes n v @ rest \<and> v < 256 ^ n"
    using be_bytes_value [of "take n bs"] be_number_bound [of "take n bs"] by auto
qed auto

lemma text_front: "bs = text_field t @ rest \<and> 0 \<notin> set t \<longleftrightarrow>
    0 \<in> set bs \<and> takeWhile (\<lambda>b. b \<noteq> 0) bs = t \<and> rest = drop (Suc (length t)) bs"
proof
  assume "0 \<in> set bs \<and> takeWhile (\<lambda>b. b \<noteq> 0) bs = t \<and> rest = drop (Suc (length t)) bs"
  moreover from this obtain tl where "bs = t @ 0 # tl" "0 \<notin> set t"
    using prefix_before_zero [of 0 bs] by auto
  ultimately show "bs = text_field t @ rest \<and> 0 \<notin> set t" by (simp add: text_field_def)
next
  assume "bs = text_field t @ rest \<and> 0 \<notin> set t"
  then show "0 \<in> set bs \<and> takeWhile (\<lambda>b. b \<noteq> 0) bs = t \<and> rest = drop (Suc (length t)) bs"
    by (auto simp: text_field_def takeWhile_tail)
qed

lemma c_text_cells [simp]: "0 \<notin> set t \<Longrightarrow> c_text (text_cells t) = t"
  by (simp add: c_text_def text_cells_def text_field_def takeWhile_map o_def takeWhile_tail)
     (metis (no_types, lifting) takeWhile_eq_all_conv)

section \<open>Rows of the info chunk\<close>

definition block_bytes :: "BundleBlockInfo \<Rightarrow> u8 list" where
  "block_bytes b =
     be_bytes 4 (unat (block_decompressed_size b)) @ be_bytes 4 (unat (block_compressed_size b)) @
     be_bytes 2 (unat (block_flags b))"

definition block_flags_known :: "BundleBlockInfo \<Rightarrow> bool" where
  "block_flags_known b \<longleftrightarrow>
     (ucast (block_flags b) :: u32) AND NOT UNITYFS_SUPPORTED_BLOCK_FLAGS = 0 \<and>
     unityfs_compression_is_supported (ucast (block_flags b))"

definition node_text :: "BundleDirectoryInfo \<Rightarrow> u8 list" where
  "node_text d = c_text (the (node_name d))"

definition node_bytes :: "BundleDirectoryInfo \<Rightarrow> u8 list" where
  "node_bytes d =
     be_bytes 8 (unat (node_offset d)) @ be_bytes 8 (unat (node_decompressed_size d)) @
     be_bytes 4 (unat (node_flags d)) @ text_field (node_text d)"

definition node_named :: "BundleDirectoryInfo \<Rightarrow> bool" where
  "node_named d \<longleftrightarrow> (\<exists>t. 0 \<notin> set t \<and> node_name d = Some (text_cells t))"

definition info_bytes :: "u8 list \<Rightarrow> BundleBlockInfo list \<Rightarrow> BundleDirectoryInfo list \<Rightarrow> u8 list" where
  "info_bytes hash blocks nodes =
     hash @ be_bytes 4 (length blocks) @ concat (map block_bytes blocks) @
     be_bytes 4 (length nodes) @ concat (map node_bytes nodes)"

text \<open>The parsers of one row, of a table of rows and of the chunk.\<close>

definition block_at :: "u8 list \<Rightarrow> BundleBlockInfo" where
  "block_at bs =
     \<lparr>block_decompressed_size = of_nat (be_number (take 4 bs)),
      block_compressed_size = of_nat (be_number (take 4 (drop 4 bs))),
      block_flags = of_nat (be_number (take 2 (drop 8 bs)))\<rparr>"

definition parse_block :: "u8 list \<Rightarrow> (BundleBlockInfo \<times> u8 list) option" where
  "parse_block bs =
     (if 10 \<le> length bs \<and> block_flags_known (block_at bs) then Some (block_at bs, drop 10 bs) else None)"

definition node_at :: "u8 list \<Rightarrow> BundleDirectoryInfo" where
  "node_at bs =
     \<lparr>node_offset = of_nat (be_number (take 8 bs)),
      node_decompressed_size = of_nat (be_number (take 8 (drop 8 bs))),
      node_flags = of_nat (be_number (take 4 (drop 16 bs))),
      node_name = Some (text_cells (takeWhile (\<lambda>b. b \<noteq> 0) (drop 20 bs)))\<rparr>"

definition parse_node :: "u8 list \<Rightarrow> (BundleDirectoryInfo \<times> u8 list) option" where
  "parse_node bs =
     (if 20 \<le> length bs \<and> 0 \<in> set (drop 20 bs)
      then Some (node_at bs, drop (Suc (length (node_text (node_at bs)))) (drop 20 bs)) else None)"

fun parse_rows :: "(u8 list \<Rightarrow> ('r \<times> u8 list) option) \<Rightarrow> nat \<Rightarrow> u8 list \<Rightarrow> ('r list \<times> u8 list) option" where
  "parse_rows p 0 bs = Some ([], bs)"
| "parse_rows p (Suc n) bs =
     (case p bs of
        None \<Rightarrow> None
      | Some (r, rest) \<Rightarrow> map_option (\<lambda>(rs, rest). (r # rs, rest)) (parse_rows p n rest))"

definition parse_table :: "(u8 list \<Rightarrow> ('r \<times> u8 list) option) \<Rightarrow> nat \<Rightarrow> u8 list \<Rightarrow> ('r list \<times> u8 list) option" where
  "parse_table p width bs =
     (if 4 \<le> length bs \<and> be_number (take 4 bs) \<le> (length bs - 4) div width
      then parse_rows p (be_number (take 4 bs)) (drop 4 bs) else None)"

definition parse_info :: "u8 list \<Rightarrow> (BundleBlockInfo list \<times> BundleDirectoryInfo list) option" where
  "parse_info raw =
     (if length raw < 16 then None
      else
        (case parse_table parse_block 10 (drop 16 raw) of
           None \<Rightarrow> None
         | Some (blocks, rest) \<Rightarrow>
             (case parse_table parse_node 21 rest of
                Some (nodes, []) \<Rightarrow> Some (blocks, nodes)
              | _ \<Rightarrow> None)))"

lemma word_field: "unat (of_nat (be_number (take n bs)) :: 'a::len word) = be_number (take n bs)"
  if "LENGTH('a) = 8 * n" "n \<le> length bs"
proof -
  have "(256::nat) ^ n = 2 ^ LENGTH('a)" by (simp add: that(1) power_mult)
  then show ?thesis using be_number_bound [of "take n bs"] that(2) by (simp add: unat_of_nat min_absorb2)
qed

lemma field_word: "be_number (be_bytes n (unat w)) = unat w"
  if "LENGTH('a) = 8 * n" for w :: "'a::len word"
proof -
  have "(256::nat) ^ n = 2 ^ LENGTH('a)" by (simp add: that power_mult)
  then show ?thesis using unsigned_less [of w] by (intro be_number_bytes) simp
qed

lemma parse_block_iff:
  "parse_block bs = Some (b, rest) \<longleftrightarrow> bs = block_bytes b @ rest \<and> block_flags_known b"
proof
  assume "parse_block bs = Some (b, rest)"
  then have parts: "10 \<le> length bs" "b = block_at bs" "rest = drop 10 bs" "block_flags_known b"
    by (auto simp: parse_block_def split: if_splits)
  have "bs = take 4 bs @ take 4 (drop 4 bs) @ take 2 (drop 8 bs) @ drop 10 bs"
    using split_fields [where bs = bs and k = 4 and m = 4 and n = 2] by simp
  then show "bs = block_bytes b @ rest \<and> block_flags_known b"
    using parts by (simp add: block_bytes_def block_at_def word_field be_take)
next
  assume "bs = block_bytes b @ rest \<and> block_flags_known b"
  moreover from this have "block_at bs = b"
    by (simp add: block_at_def block_bytes_def field_word)
  ultimately show "parse_block bs = Some (b, rest)" by (simp add: parse_block_def block_bytes_def)
qed

lemma node_text_cells [simp]: "0 \<notin> set t \<Longrightarrow> node_name d = Some (text_cells t) \<Longrightarrow> node_text d = t"
  by (simp add: node_text_def)

lemma node_text_at [simp]: "node_text (node_at bs) = takeWhile (\<lambda>b. b \<noteq> 0) (drop 20 bs)"
  by (rule node_text_cells) (auto simp: node_at_def dest: set_takeWhileD)

lemma parse_node_iff:
  "parse_node bs = Some (d, rest) \<longleftrightarrow> bs = node_bytes d @ rest \<and> node_named d"
proof
  assume "parse_node bs = Some (d, rest)"
  then have parts: "20 \<le> length bs" "0 \<in> set (drop 20 bs)" "d = node_at bs"
    "rest = drop (Suc (length (node_text (node_at bs)))) (drop 20 bs)"
    by (auto simp: parse_node_def split: if_splits)
  have "bs = take 8 bs @ take 8 (drop 8 bs) @ take 4 (drop 16 bs) @ drop 20 bs"
    using split_fields [where bs = bs and k = 8 and m = 8 and n = 4] by simp
  moreover have "drop 20 bs = text_field (node_text d) @ rest"
    using text_front [of "drop 20 bs" "node_text d" rest] parts by simp
  moreover have "be_bytes 8 (unat (node_offset d)) = take 8 bs"
    "be_bytes 8 (unat (node_decompressed_size d)) = take 8 (drop 8 bs)"
    "be_bytes 4 (unat (node_flags d)) = take 4 (drop 16 bs)"
    using parts(1) by (simp_all add: parts(3) node_at_def word_field be_take)
  ultimately have "bs = node_bytes d @ rest"
    unfolding node_bytes_def append_assoc by metis
  moreover have "node_named d"
    using parts(3) by (auto simp: node_named_def node_at_def dest: set_takeWhileD)
  ultimately show "bs = node_bytes d @ rest \<and> node_named d" by simp
next
  assume bs: "bs = node_bytes d @ rest \<and> node_named d"
  then obtain t where t: "0 \<notin> set t" "node_name d = Some (text_cells t)" by (auto simp: node_named_def)
  have behind: "drop 20 bs = text_field t @ rest" using bs t by (simp add: node_bytes_def)
  then have front: "0 \<in> set (drop 20 bs)" "takeWhile (\<lambda>b. b \<noteq> 0) (drop 20 bs) = t"
    "rest = drop (Suc (length t)) (drop 20 bs)" using text_front [of "drop 20 bs" t rest] t(1) by auto
  have "node_at bs = d"
    unfolding node_at_def front(2) using bs t by (simp add: node_bytes_def field_word)
  moreover have "20 \<le> length bs" using bs by (simp add: node_bytes_def)
  ultimately show "parse_node bs = Some (d, rest)"
    using front t by (simp add: parse_node_def)
qed

lemma parse_rows_iff:
  assumes "\<And>bs r rest. p bs = Some (r, rest) \<longleftrightarrow> bs = bytes r @ rest \<and> ok r"
  shows "parse_rows p n bs = Some (rs, rest) \<longleftrightarrow>
    length rs = n \<and> bs = concat (map bytes rs) @ rest \<and> list_all ok rs"
proof (induction n arbitrary: bs rs)
  case 0
  then show ?case by auto
next
  case (Suc n)
  show ?case
  proof
    assume "parse_rows p (Suc n) bs = Some (rs, rest)"
    then obtain r tail rows where "p bs = Some (r, tail)" "parse_rows p n tail = Some (rows, rest)" "rs = r # rows"
      by (auto split: option.splits)
    then show "length rs = Suc n \<and> bs = concat (map bytes rs) @ rest \<and> list_all ok rs"
      using Suc.IH assms by auto
  next
    assume layout: "length rs = Suc n \<and> bs = concat (map bytes rs) @ rest \<and> list_all ok rs"
    then obtain r rows where rs: "rs = r # rows" "length rows = n" by (auto simp: length_Suc_conv)
    then have "p bs = Some (r, concat (map bytes rows) @ rest)" using layout assms by simp
    moreover have "parse_rows p n (concat (map bytes rows) @ rest) = Some (rows, rest)"
      using Suc.IH rs layout by auto
    ultimately show "parse_rows p (Suc n) bs = Some (rs, rest)" using rs by simp
  qed
qed

lemma rows_length: "list_all (\<lambda>r. w \<le> length (bytes r)) rs \<Longrightarrow> w * length rs \<le> length (concat (map bytes rs))"
  by (induction rs) auto

lemma parse_table_iff:
  assumes "\<And>bs r rest. p bs = Some (r, rest) \<longleftrightarrow> bs = bytes r @ rest \<and> ok r"
    and "\<And>r. w \<le> length (bytes r)" and "0 < w"
  shows "parse_table p w bs = Some (rs, rest) \<longleftrightarrow>
    bs = be_bytes 4 (length rs) @ concat (map bytes rs) @ rest \<and> list_all ok rs \<and> length rs < 2 ^ 32"
proof
  assume "parse_table p w bs = Some (rs, rest)"
  then have "4 \<le> length bs" "parse_rows p (be_number (take 4 bs)) (drop 4 bs) = Some (rs, rest)"
    by (auto simp: parse_table_def split: if_splits)
  then show "bs = be_bytes 4 (length rs) @ concat (map bytes rs) @ rest \<and> list_all ok rs \<and> length rs < 2 ^ 32"
    using parse_rows_iff [of p bytes ok, OF assms(1)] be_front [of bs 4 "length rs" "drop 4 bs"] by auto
next
  assume layout: "bs = be_bytes 4 (length rs) @ concat (map bytes rs) @ rest \<and> list_all ok rs \<and> length rs < 2 ^ 32"
  then have front: "4 \<le> length bs" "be_number (take 4 bs) = length rs" "drop 4 bs = concat (map bytes rs) @ rest"
    by simp_all
  have "w * length rs \<le> length bs - 4"
    using rows_length [of w bytes rs] assms(2) layout by (simp add: list_all_iff)
  then have "length rs \<le> (length bs - 4) div w"
    using assms(3) by (simp add: less_eq_div_iff_mult_less_eq mult.commute)
  then show "parse_table p w bs = Some (rs, rest)"
    using front layout parse_rows_iff [of p bytes ok, OF assms(1)] by (simp add: parse_table_def)
qed

lemmas block_table_iff = parse_table_iff [of parse_block block_bytes block_flags_known 10, OF parse_block_iff]
lemmas node_table_iff = parse_table_iff [of parse_node node_bytes node_named 21, OF parse_node_iff]

lemma parse_info_iff:
  assumes "length raw < 2 ^ 32"
  shows "parse_info raw = Some (blocks, nodes) \<longleftrightarrow>
    (\<exists>hash. length hash = 16 \<and> raw = info_bytes hash blocks nodes) \<and>
    list_all block_flags_known blocks \<and> list_all node_named nodes"
proof
  assume "parse_info raw = Some (blocks, nodes)"
  then obtain rest where parts: "16 \<le> length raw" "parse_table parse_block 10 (drop 16 raw) = Some (blocks, rest)"
    "parse_table parse_node 21 rest = Some (nodes, [])"
    by (auto simp: parse_info_def split: if_splits option.splits prod.splits list.splits)
  then have "drop 16 raw = be_bytes 4 (length blocks) @ concat (map block_bytes blocks) @ rest"
    "rest = be_bytes 4 (length nodes) @ concat (map node_bytes nodes)"
    "list_all block_flags_known blocks" "list_all node_named nodes"
    using block_table_iff [of "drop 16 raw" blocks rest] node_table_iff [of rest nodes "[]"]
    by (simp_all add: block_bytes_def node_bytes_def)
  then show "(\<exists>hash. length hash = 16 \<and> raw = info_bytes hash blocks nodes) \<and>
      list_all block_flags_known blocks \<and> list_all node_named nodes"
    using parts(1) by (auto simp: info_bytes_def intro!: exI [of _ "take 16 raw"])
       (metis append_take_drop_id)
next
  assume "(\<exists>hash. length hash = 16 \<and> raw = info_bytes hash blocks nodes) \<and>
      list_all block_flags_known blocks \<and> list_all node_named nodes"
  then obtain hash where layout: "length hash = 16" "raw = info_bytes hash blocks nodes"
    "list_all block_flags_known blocks" "list_all node_named nodes" by auto
  let ?rest = "be_bytes 4 (length nodes) @ concat (map node_bytes nodes)"
  have "10 * length blocks \<le> length raw" "21 * length nodes \<le> length raw"
    using rows_length [of 10 block_bytes blocks] rows_length [of 21 node_bytes nodes] layout(2)
    by (simp_all add: info_bytes_def block_bytes_def node_bytes_def list_all_iff)
  then have "length blocks < 2 ^ 32" "length nodes < 2 ^ 32" using assms by simp_all
  then have "parse_table parse_block 10 (drop 16 raw) = Some (blocks, ?rest)"
    "parse_table parse_node 21 ?rest = Some (nodes, [])"
    using layout block_table_iff [of "drop 16 raw" blocks ?rest] node_table_iff [of ?rest nodes "[]"]
    by (simp_all add: block_bytes_def node_bytes_def info_bytes_def)
  then show "parse_info raw = Some (blocks, nodes)"
    using layout(1,2) by (simp add: parse_info_def info_bytes_def)
qed

section \<open>Chunks\<close>

text \<open>
  What a chunk of \<open>src\<close> decodes to, as \<open>n\<close> bytes: itself, what the LZMA decoder makes of it when
  it uses up the whole input and ends properly, or an output of the LZ4 block format.
\<close>

definition lzma_finished :: "lzma_outcome \<Rightarrow> bool" where
  "lzma_finished res \<longleftrightarrow>
     lzma_ok res \<and> lzma_status res \<in> {LZMA_STATUS_FINISHED_WITH_MARK, LZMA_STATUS_MAYBE_FINISHED_WITHOUT_MARK}"

definition decodes :: "lzma_decoder \<Rightarrow> u32 \<Rightarrow> u8 list \<Rightarrow> nat \<Rightarrow> u8 list \<Rightarrow> bool" where
  "decodes lzma codec src n out \<longleftrightarrow>
     length out = n \<and>
     (if codec = 0 then out = src
      else if codec = 1 then
        5 \<le> length src \<and> lzma_finished (lzma (take 5 src) (drop 5 src) n) \<and>
        lzma_output (lzma (take 5 src) (drop 5 src) n) = out \<and>
        lzma_consumed (lzma (take 5 src) (drop 5 src) n) = length src - 5
      else (codec = 2 \<or> codec = 3) \<and> length src \<le> nat INT_MAX \<and> n \<le> nat INT_MAX \<and>
        (if src = [] then n = 0 else lz4_block src out))"

text \<open>The documented bound of the decoder: it stores no more than the room it was given.\<close>

definition lzma_bounded :: "lzma_decoder \<Rightarrow> bool" where
  "lzma_bounded lzma \<longleftrightarrow> (\<forall>props input room. length (lzma_output (lzma props input room)) \<le> room)"

lemma lz4_safe_run:
  assumes "length src \<le> nat INT_MAX" and "length to = n"
  shows "\<exists>r written. lz4_decompress_safe (Some src) (Some to) (int (length src)) (int n) = Some (r, Some written) \<and>
    length written = n \<and>
    (\<forall>out. lz4_block src out \<and> length out = n \<longrightarrow> r = int n \<and> written = out) \<and>
    (r = int n \<longrightarrow> (\<exists>out. lz4_block src out \<and> length out = n))"
proof -
  obtain r written where run: "decompress_block (Some src) (Some to) (int (length src)) (int (length to)) False =
      Some (r, Some written)" "length written = length to"
    and yes: "\<And>res ending. lz4_stream [] None src res ending \<and> length res \<le> length to \<Longrightarrow>
       r = int (length res) \<and> written = res @ drop (length res) to"
    and no: "r = -1 \<or> (\<exists>res ending. lz4_stream [] None src res ending \<and> length res \<le> length to)"
    using decompress_outcome [OF assms(1), of to False] by (auto 4 0)
  have "\<exists>out. lz4_block src out \<and> length out = n" if "r = int n"
  proof -
    obtain res ending where "lz4_stream [] None src res ending" "length res \<le> length to"
      using no \<open>r = int n\<close> by auto
    with yes [of res ending] that show ?thesis by (auto simp: lz4_block_def)
  qed
  moreover have "r = int n \<and> written = out" if "lz4_block src out" "length out = n" for out
    using that assms(2) yes by (fastforce simp: lz4_block_def)
  ultimately show ?thesis
    using run assms(2) unfolding lz4_decompress_safe_def by (metis (no_types, lifting))
qed

lemma decodes_unique: "decodes lzma codec src n out \<Longrightarrow> decodes lzma codec src n out' \<Longrightarrow> out = out'"
proof -
  assume a: "decodes lzma codec src n out" "decodes lzma codec src n out'"
  show ?thesis
  proof (cases "codec = 0 \<or> codec = 1 \<or> src = []")
    case True
    then show ?thesis using a by (auto simp: decodes_def split: if_splits)
  next
    case False
    then have "length src \<le> nat INT_MAX" "lz4_block src out" "lz4_block src out'" "length out = n" "length out' = n"
      using a by (auto simp: decodes_def)
    then show ?thesis using lz4_safe_run [of src "replicate n 0" n] by auto
  qed
qed

text \<open>The routine of the code stores exactly that, and never leaves its buffers.\<close>

lemma decompress_block_outcome:
  assumes "lzma_bounded lzma" and "m \<le> length src" and "case dst of None \<Rightarrow> n = 0 | Some to \<Rightarrow> n \<le> length to"
  shows "\<exists>ok written. bundle_decompress_block lzma codec (Some src) m dst n = Some (ok, written) \<and>
    (ok \<longleftrightarrow> (\<exists>out. decodes lzma codec (take m src) n out)) \<and>
    (\<forall>out. decodes lzma codec (take m src) n out \<longrightarrow> written = map_option (\<lambda>to. out @ drop n to) dst)"
proof -
  have room: "n \<le> length (case dst of None \<Rightarrow> [] | Some to \<Rightarrow> to)" "\<not> (dst = None \<and> n \<noteq> 0)"
    using assms(3) by (auto split: option.splits)
  have len: "length (take m src) = m" using assms(2) by simp
  note run = bundle_decompress_block_def [of lzma codec "Some src" m dst n]
  consider (stored) "codec = 0" | (lzma) "codec = 1" | (lz4) "codec = 2 \<or> codec = 3"
    | (unknown) "codec \<noteq> 0" "codec \<noteq> 1" "codec \<noteq> 2" "codec \<noteq> 3" by blast
  then show ?thesis
  proof cases
    case stored
    then show ?thesis
      unfolding run using room assms(2) by (cases dst) (auto simp: decodes_def Let_def min_absorb2)
  next
    case lzma
    let ?res = "lzma (take 5 (take m src)) (drop 5 (take m src)) n"
    have "length (lzma_output ?res) \<le> n" using assms(1) by (simp add: lzma_bounded_def)
    then show ?thesis
      unfolding run using room assms(2) lzma
      by (cases dst) (auto simp: decodes_def Let_def lzma_finished_def min_absorb2 not_less)
  next
    case unknown
    then show ?thesis unfolding run using room(2) by (auto simp: decodes_def Let_def)
  next
    case lz4
    show ?thesis
    proof (cases "int m > INT_MAX \<or> int n > INT_MAX \<or> m = 0")
      case True
      then show ?thesis
        unfolding run using room lz4 assms(2) by (cases dst) (auto simp: decodes_def Let_def min_absorb2)
    next
      case False
      let ?to = "take n (case dst of None \<Rightarrow> [] | Some to \<Rightarrow> to)"
      have "length (take m src) \<le> nat INT_MAX" "length ?to = n" using False len room by simp_all
      from lz4_safe_run [OF this] obtain r written where lz4_run:
        "lz4_decompress_safe (Some (take m src)) (Some ?to) (int m) (int n) = Some (r, Some written)"
        "length written = n" "\<forall>out. lz4_block (take m src) out \<and> length out = n \<longrightarrow> r = int n \<and> written = out"
        "r = int n \<longrightarrow> (\<exists>out. lz4_block (take m src) out \<and> length out = n)"
        unfolding len by blast
      have src: "take m src \<noteq> []" using False len by auto
      have pays: "decodes lzma codec (take m src) n out \<longleftrightarrow> lz4_block (take m src) out \<and> length out = n" for out
        using False lz4 len src by (auto simp: decodes_def)
      have "bundle_decompress_block lzma codec (Some src) m dst n =
          Some (r \<ge> 0 \<and> nat r = n, map_option (\<lambda>bytes. written @ drop (length written) bytes) dst)"
        unfolding run using False lz4 room assms(2) lz4_run(1) by (auto simp: Let_def not_less)
      moreover have "r \<ge> 0 \<and> nat r = n \<longleftrightarrow> r = int n" by auto
      ultimately show ?thesis using lz4_run(2-4) unfolding pays by auto
    qed
  qed
qed

section \<open>Files\<close>

record unityfs =
  u_packed :: u32
  u_unpacked :: u32
  u_flags :: u32
  u_blocks :: "BundleBlockInfo list"
  u_nodes :: "BundleDirectoryInfo list"
  u_payload :: "u8 list"

definition unityfs_head :: "nat \<Rightarrow> u32 \<Rightarrow> u32 \<Rightarrow> u32 \<Rightarrow> u8 list" where
  "unityfs_head whole packed unpacked flags =
     text_field UNITYFS_SIGNATURE @ be_bytes 4 8 @ text_field UNITYFS_SUPPORTED_GENERATION @
     text_field UNITYFS_SUPPORTED_ENGINE_VERSION @ be_bytes 8 whole @ be_bytes 4 (unat packed) @
     be_bytes 4 (unat unpacked) @ be_bytes 4 (unat flags)"

definition archive_flags_known :: "u32 \<Rightarrow> bool" where
  "archive_flags_known flags \<longleftrightarrow>
     flags AND UNITYFS_BLOCKS_AND_DIRECTORY_INFO_COMBINED \<noteq> 0 \<and>
     flags AND NOT UNITYFS_SUPPORTED_ARCHIVE_FLAGS = 0 \<and> unityfs_compression_is_supported flags"

definition info_at_end :: "u32 \<Rightarrow> bool" where
  "info_at_end flags \<longleftrightarrow> flags AND UNITYFS_BLOCK_INFO_AT_END \<noteq> 0"

text \<open>The bytes between the info chunk and the data, which the header's padding flag asks for.\<close>

definition gap_length :: "u32 \<Rightarrow> u32 \<Rightarrow> nat" where
  "gap_length packed flags =
     (if \<not> info_at_end flags \<and> flags AND UNITYFS_BLOCK_INFO_NEEDS_PADDING \<noteq> 0
      then (16 - unat packed mod 16) mod 16 else 0)"

inductive data_chunks :: "lzma_decoder \<Rightarrow> BundleBlockInfo list \<Rightarrow> u8 list \<Rightarrow> u8 list \<Rightarrow> bool" for lzma where
  no_chunks: "data_chunks lzma [] [] []"
| one_chunk: "length part = unat (block_compressed_size b) \<Longrightarrow>
    decodes lzma (ucast (block_flags b) AND UNITYFS_COMPRESSION_MASK) part (unat (block_decompressed_size b)) out \<Longrightarrow>
    data_chunks lzma bs bytes payload \<Longrightarrow> data_chunks lzma (b # bs) (part @ bytes) (out @ payload)"

inductive_cases data_chunks_Nil: "data_chunks lzma [] bytes payload"
inductive_cases data_chunks_Cons: "data_chunks lzma (b # bs) bytes payload"

definition node_inside :: "nat \<Rightarrow> BundleDirectoryInfo \<Rightarrow> bool" where
  "node_inside amount d \<longleftrightarrow> unat (node_offset d) + unat (node_decompressed_size d) \<le> amount"

definition unityfs_file :: "lzma_decoder \<Rightarrow> u8 list \<Rightarrow> unityfs \<Rightarrow> bool" where
  "unityfs_file lzma data u \<longleftrightarrow>
     (\<exists>pad info gap chunks hash raw.
        data = unityfs_head (length data) (u_packed u) (u_unpacked u) (u_flags u) @ pad @
          (if info_at_end (u_flags u) then chunks @ info else info @ gap @ chunks) \<and>
        length pad = 14 \<and> length info = unat (u_packed u) \<and> length gap = gap_length (u_packed u) (u_flags u) \<and>
        decodes lzma (u_flags u AND UNITYFS_COMPRESSION_MASK) info (unat (u_unpacked u)) raw \<and>
        length hash = 16 \<and> raw = info_bytes hash (u_blocks u) (u_nodes u) \<and>
        data_chunks lzma (u_blocks u) chunks (u_payload u)) \<and>
     archive_flags_known (u_flags u) \<and> u_packed u \<noteq> 0 \<and> 20 \<le> u_unpacked u \<and>
     list_all block_flags_known (u_blocks u) \<and>
     list_all (\<lambda>d. node_named d \<and> node_inside (length (u_payload u)) d) (u_nodes u)"

lemma unityfs_fileI:
  assumes "data = unityfs_head (length data) (u_packed u) (u_unpacked u) (u_flags u) @ pad @
      (if info_at_end (u_flags u) then chunks @ info else info @ gap @ chunks)"
    and "length pad = 14" "length info = unat (u_packed u)" "length gap = gap_length (u_packed u) (u_flags u)"
    and "decodes lzma (u_flags u AND UNITYFS_COMPRESSION_MASK) info (unat (u_unpacked u)) raw"
    and "length hash = 16" "raw = info_bytes hash (u_blocks u) (u_nodes u)"
    and "data_chunks lzma (u_blocks u) chunks (u_payload u)"
    and "archive_flags_known (u_flags u)" "u_packed u \<noteq> 0" "20 \<le> u_unpacked u"
    and "list_all block_flags_known (u_blocks u)"
    and "list_all node_named (u_nodes u)" "list_all (node_inside (length (u_payload u))) (u_nodes u)"
  shows "unityfs_file lzma data u"
proof -
  have "list_all (\<lambda>d. node_named d \<and> node_inside (length (u_payload u)) d) (u_nodes u)"
    using assms(13,14) by (simp add: list_all_iff)
  with assms(1-12) show ?thesis unfolding unityfs_file_def by blast
qed

text \<open>The parser.\<close>

definition decoded :: "lzma_decoder \<Rightarrow> u32 \<Rightarrow> u8 list \<Rightarrow> nat \<Rightarrow> u8 list option" where
  "decoded lzma codec src n =
     (if \<exists>out. decodes lzma codec src n out then Some (THE out. decodes lzma codec src n out) else None)"

lemma decoded_iff: "decoded lzma codec src n = Some out \<longleftrightarrow> decodes lzma codec src n out"
proof -
  have "(THE out. decodes lzma codec src n out) = out" if "decodes lzma codec src n out" for out
    using that decodes_unique by (intro the_equality) auto
  note the_one = this
  show ?thesis
  proof (cases "\<exists>out. decodes lzma codec src n out")
    case True
    then obtain out' where "decodes lzma codec src n out'" by blast
    with the_one [OF this] decodes_unique [OF this, of out] show ?thesis by (auto simp: decoded_def)
  next
    case False
    then show ?thesis by (auto simp: decoded_def)
  qed
qed

fun decode_all :: "lzma_decoder \<Rightarrow> BundleBlockInfo list \<Rightarrow> u8 list \<Rightarrow> u8 list option" where
  "decode_all lzma [] bytes = (if bytes = [] then Some [] else None)"
| "decode_all lzma (b # bs) bytes =
     (if length bytes < unat (block_compressed_size b) then None
      else
        (case decoded lzma (ucast (block_flags b) AND UNITYFS_COMPRESSION_MASK)
            (take (unat (block_compressed_size b)) bytes) (unat (block_decompressed_size b)) of
           None \<Rightarrow> None
         | Some out \<Rightarrow> map_option ((@) out) (decode_all lzma bs (drop (unat (block_compressed_size b)) bytes))))"

lemma decode_all_iff: "decode_all lzma bs bytes = Some payload \<longleftrightarrow> data_chunks lzma bs bytes payload"
proof (induction bs arbitrary: bytes payload)
  case Nil
  then show ?case by (auto intro: no_chunks elim: data_chunks_Nil)
next
  case (Cons b bs)
  show ?case
  proof
    assume run: "decode_all lzma (b # bs) bytes = Some payload"
    let ?n = "unat (block_compressed_size b)"
    obtain out tail where "\<not> length bytes < ?n"
      "decodes lzma (ucast (block_flags b) AND UNITYFS_COMPRESSION_MASK) (take ?n bytes) (unat (block_decompressed_size b)) out"
      "decode_all lzma bs (drop ?n bytes) = Some tail" "payload = out @ tail"
      using run by (auto simp: decoded_iff split: if_splits option.splits)
    then have "data_chunks lzma (b # bs) (take ?n bytes @ drop ?n bytes) (out @ tail)"
      using Cons.IH by (intro one_chunk) simp_all
    then show "data_chunks lzma (b # bs) bytes payload" using \<open>payload = out @ tail\<close> by simp
  next
    assume "data_chunks lzma (b # bs) bytes payload"
    then show "decode_all lzma (b # bs) bytes = Some payload"
      using Cons.IH by (auto elim!: data_chunks_Cons simp: decoded_iff [symmetric])
  qed
qed

definition unityfs_parse :: "lzma_decoder \<Rightarrow> u8 list \<Rightarrow> unityfs option" where
  "unityfs_parse lzma data =
     (let packed = of_nat (be_number (take 4 (drop 38 data))); unpacked = of_nat (be_number (take 4 (drop 42 data)));
          flags = of_nat (be_number (take 4 (drop 46 data))); body = drop 64 data;
          n = unat packed; gap = gap_length packed flags
      in if length data < 64 \<or> take 50 data \<noteq> unityfs_head (length data) packed unpacked flags \<or>
            \<not> archive_flags_known flags \<or> packed = 0 \<or> unpacked < 20 \<or> length body < n + gap then None
         else
           (case decoded lzma (flags AND UNITYFS_COMPRESSION_MASK)
                (if info_at_end flags then drop (length body - n) body else take n body) (unat unpacked) of
              None \<Rightarrow> None
            | Some raw \<Rightarrow>
                (case parse_info raw of
                   None \<Rightarrow> None
                 | Some (blocks, nodes) \<Rightarrow>
                     (case decode_all lzma blocks
                          (if info_at_end flags then take (length body - n) body else drop (n + gap) body) of
                        None \<Rightarrow> None
                      | Some payload \<Rightarrow>
                          if list_all (node_inside (length payload)) nodes
                          then Some \<lparr>u_packed = packed, u_unpacked = unpacked, u_flags = flags, u_blocks = blocks,
                                     u_nodes = nodes, u_payload = payload\<rparr>
                          else None))))"

lemma ascii_lengths [simp]:
  "length UNITYFS_SIGNATURE = 7" "length UNITYFS_SUPPORTED_GENERATION = 5"
  "length UNITYFS_SUPPORTED_ENGINE_VERSION = 11"
  by (simp_all add: ascii_def UNITYFS_SIGNATURE_def UNITYFS_SUPPORTED_GENERATION_def
      UNITYFS_SUPPORTED_ENGINE_VERSION_def)

lemma head_length [simp]: "length (unityfs_head whole packed unpacked flags) = 50"
  by (simp add: unityfs_head_def)

lemma head_fields:
  assumes "data = unityfs_head whole packed unpacked flags @ rest"
  shows "of_nat (be_number (take 4 (drop 38 data))) = packed"
    "of_nat (be_number (take 4 (drop 42 data))) = unpacked" "of_nat (be_number (take 4 (drop 46 data))) = flags"
  by (simp_all add: assms unityfs_head_def field_word)

lemma decodes_length: "decodes lzma codec src n out \<Longrightarrow> length out = n"
  by (simp add: decodes_def)

lemma raw_bound: "decodes lzma codec src (unat (w :: u32)) raw \<Longrightarrow> length raw < 2 ^ 32"
  using unsigned_less [of w] by (simp add: decodes_def)

lemma unityfs_parse_iff: "unityfs_parse lzma data = Some u \<longleftrightarrow> unityfs_file lzma data u"
proof
  assume parse: "unityfs_parse lzma data = Some u"
  define body where "body = drop 64 data"
  let ?n = "unat (u_packed u)" and ?gap = "gap_length (u_packed u) (u_flags u)"
  let ?info = "if info_at_end (u_flags u) then drop (length body - ?n) body else take ?n body"
  let ?chunks = "if info_at_end (u_flags u) then take (length body - ?n) body else drop (?n + ?gap) body"
  obtain raw where parts: "\<not> length data < 64"
    "take 50 data = unityfs_head (length data) (u_packed u) (u_unpacked u) (u_flags u)"
    "archive_flags_known (u_flags u)" "u_packed u \<noteq> 0" "\<not> u_unpacked u < 20" "?n + ?gap \<le> length body"
    "decodes lzma (u_flags u AND UNITYFS_COMPRESSION_MASK) ?info (unat (u_unpacked u)) raw"
    "parse_info raw = Some (u_blocks u, u_nodes u)" "data_chunks lzma (u_blocks u) ?chunks (u_payload u)"
    "list_all (node_inside (length (u_payload u))) (u_nodes u)"
    using parse unfolding unityfs_parse_def Let_def body_def
    by (auto simp: decoded_iff decode_all_iff split: if_splits option.splits prod.splits)
  obtain hash where info: "length hash = 16" "raw = info_bytes hash (u_blocks u) (u_nodes u)"
    "list_all block_flags_known (u_blocks u)" "list_all node_named (u_nodes u)"
    using parts(7,8) parse_info_iff [OF raw_bound] by blast
  have whole: "data = take 50 data @ take 14 (drop 50 data) @ body"
    unfolding body_def using split_fields [where bs = data and k = 50 and m = 14 and n = 0] by simp
  have cut: "body = (if info_at_end (u_flags u) then ?chunks @ ?info else ?info @ take ?gap (drop ?n body) @ ?chunks)"
    using append_take_drop_id [of ?n body] append_take_drop_id [of ?gap "drop ?n body"] by (simp add: add.commute)
  have lengths: "length (take 14 (drop 50 data)) = 14" "length ?info = ?n" "length (take ?gap (drop ?n body)) = ?gap"
    using parts(1,6) by auto
  have "data = unityfs_head (length data) (u_packed u) (u_unpacked u) (u_flags u) @ take 14 (drop 50 data) @
      (if info_at_end (u_flags u) then ?chunks @ ?info else ?info @ take ?gap (drop ?n body) @ ?chunks)"
    by (rule subst [OF cut, where P = "\<lambda>b. data = _ @ _ @ b"],
        rule subst [OF parts(2), where P = "\<lambda>h. data = h @ _ @ _"], rule whole)
  then show "unityfs_file lzma data u"
    by (rule unityfs_fileI [OF _ lengths parts(7) info(1,2) parts(9,3,4) _ info(3,4) parts(10)])
      (use parts(5) in \<open>simp add: not_less\<close>)
next
  assume is_file: "unityfs_file lzma data u"
  let ?n = "unat (u_packed u)" and ?gap = "gap_length (u_packed u) (u_flags u)"
  obtain pad info gap chunks hash raw where layout:
    "data = unityfs_head (length data) (u_packed u) (u_unpacked u) (u_flags u) @ pad @
      (if info_at_end (u_flags u) then chunks @ info else info @ gap @ chunks)"
    "length pad = 14" "length info = ?n" "length gap = ?gap"
    "decodes lzma (u_flags u AND UNITYFS_COMPRESSION_MASK) info (unat (u_unpacked u)) raw"
    "length hash = 16" "raw = info_bytes hash (u_blocks u) (u_nodes u)"
    "data_chunks lzma (u_blocks u) chunks (u_payload u)"
    using is_file unfolding unityfs_file_def by blast
  have sound: "archive_flags_known (u_flags u)" "u_packed u \<noteq> 0" "20 \<le> u_unpacked u"
    "list_all block_flags_known (u_blocks u)" "list_all node_named (u_nodes u)"
    "list_all (node_inside (length (u_payload u))) (u_nodes u)"
    using is_file by (auto simp: unityfs_file_def list_all_iff)
  let ?body = "if info_at_end (u_flags u) then chunks @ info else info @ gap @ chunks"
  let ?head = "unityfs_head (length data) (u_packed u) (u_unpacked u) (u_flags u)"
  have body: "drop 64 data = ?body" and head: "take 50 data = ?head" and long: "\<not> length data < 64"
    by (subst layout(1), simp add: layout(2))+
  have fields: "of_nat (be_number (take 4 (drop 38 data))) = u_packed u"
    "of_nat (be_number (take 4 (drop 42 data))) = u_unpacked u" "of_nat (be_number (take 4 (drop 46 data))) = u_flags u"
    using head_fields [OF layout(1)] by blast+
  have gap: "gap_length (u_packed u) (u_flags u) = 0" if "info_at_end (u_flags u)"
    using that by (simp add: gap_length_def)
  have cut: "(if info_at_end (u_flags u) then drop (length ?body - ?n) ?body else take ?n ?body) = info"
    "(if info_at_end (u_flags u) then take (length ?body - ?n) ?body else drop (?n + ?gap) ?body) = chunks"
    "\<not> length ?body < ?n + ?gap" using layout(3,4) gap by auto
  have table: "parse_info raw = Some (u_blocks u, u_nodes u)"
    using parse_info_iff [OF raw_bound [OF layout(5)]] layout(6,7) sound(4,5) by blast
  show "unityfs_parse lzma data = Some u"
    unfolding unityfs_parse_def Let_def fields body cut
    using long head sound(1-3,6) layout(5,8) table cut(3)
    by (simp add: decoded_iff [THEN iffD2] decode_all_iff [THEN iffD2] not_less)
qed

end
