(* ===== verification/BundleSteps.thy ===== *)
theory BundleSteps
  imports BundleFormat
begin

text \<open>
  Opening a bundle decides the format: every routine of \<open>bundle_open\<close> succeeds under a condition on
  the bytes and on the allocation requests, leaves a known state, and otherwise refuses with
  the books balanced and no buffer overrun.
\<close>

section \<open>The books\<close>

definition booked :: "tracker \<Rightarrow> u64 list \<Rightarrow> nat \<Rightarrow> tracker" where
  "booked t held calls =
     t\<lparr>g_allocated_bytes := g_allocated_bytes t + sum_list held,
       g_allocations_count := g_allocations_count t + of_nat (length held),
       allocator_calls := allocator_calls t + calls\<rparr>"

fun granted :: "allocator \<Rightarrow> nat \<Rightarrow> u64 list \<Rightarrow> bool" where
  "granted grants calls [] = True"
| "granted grants calls (n # ns) = (grants calls n \<and> granted grants (calls + 1) ns)"

lemma granted_append [simp]:
  "granted grants calls (ms @ ns) \<longleftrightarrow> granted grants calls ms \<and> granted grants (calls + length ms) ns"
  by (induction ms arbitrary: calls) simp_all

lemma booked_simps [simp]:
  "allocator_calls (booked t held calls) = allocator_calls t + calls"
  "g_allocated_bytes (booked t held calls) = g_allocated_bytes t + sum_list held"
  "g_allocations_count (booked t held calls) = g_allocations_count t + of_nat (length held)"
  "booked (booked t held calls) held' calls' = booked t (held @ held') (calls + calls')"
  "booked t [] 0 = t"
  by (simp_all add: booked_def)

lemma mem_alloc_booked:
  "0 < n \<Longrightarrow> mem_alloc grants n t =
     (if grants (allocator_calls t) n then (Some (replicate (unat n) None), booked t [n] 1) else (None, booked t [] 1))"
  by (auto simp: mem_alloc_def booked_def Let_def)

text \<open>What an archive holds, in the sizes that \<open>bundle_close\<close> will free.\<close>

definition held_text :: "block option \<Rightarrow> u64 list" where
  "held_text ptr = (case ptr of None \<Rightarrow> [] | Some cells \<Rightarrow> [c_size cells])"

definition holdings :: "BundleArchive \<Rightarrow> u64 list" where
  "holdings a =
     held_text (signature a) @ held_text (generation_version a) @ held_text (engine_version a) @
     (case archive_blocks a of None \<Rightarrow> [] | Some _ \<Rightarrow> [of_int (block_count a) * sizeof_block_info]) @
     (case archive_directories a of None \<Rightarrow> []
      | Some rows \<Rightarrow> of_int (directory_count a) * sizeof_directory_info #
          concat (map (\<lambda>d. held_text (node_name d)) (take (nat (directory_count a)) rows))) @
     (case archive_payload a of None \<Rightarrow> [] | Some _ \<Rightarrow> [payload_size a])"

definition released :: "tracker \<Rightarrow> u64 list \<Rightarrow> tracker" where
  "released t held =
     t\<lparr>g_allocated_bytes := g_allocated_bytes t - sum_list held,
       g_allocations_count := g_allocations_count t - of_nat (length held)\<rparr>"

lemma released_simps [simp]:
  "released (released t held) held' = released t (held @ held')"
  "released t [] = t"
  by (simp_all add: released_def diff_diff_eq)

lemma free_released:
  "free_text ptr t = released t (held_text ptr)" "free_array n t = released t [n]"
  "free_names ds t = released t (concat (map (\<lambda>d. held_text (node_name d)) ds))"
proof -
  show "free_text ptr t = released t (held_text ptr)"
    by (simp add: free_text_def held_text_def released_def mem_free_def split: option.split)
  show "free_array n t = released t [n]"
    by (simp add: free_array_def released_def mem_free_def)
  show "free_names ds t = released t (concat (map (\<lambda>d. held_text (node_name d)) ds))"
  proof (induction ds arbitrary: t)
    case (Cons d ds)
    have "(case node_name d of None \<Rightarrow> t | Some cells \<Rightarrow> mem_free (Some cells) (c_size cells) t) =
        released t (held_text (node_name d))"
      by (simp add: held_text_def released_def mem_free_def split: option.split)
    then show ?case using Cons.IH by simp
  qed simp
qed

lemma bundle_close_released:
  "snd (bundle_close a t) = released t (holdings a)"
proof -
  have "snd (bundle_close a t) = released t
     (held_text (signature a) @ held_text (generation_version a) @ held_text (engine_version a) @
     (case archive_blocks a of None \<Rightarrow> [] | Some _ \<Rightarrow> [of_int (block_count a) * sizeof_block_info]) @
     (case archive_directories a of None \<Rightarrow> []
      | Some rows \<Rightarrow> concat (map (\<lambda>d. held_text (node_name d)) (take (nat (directory_count a)) rows)) @
          [of_int (directory_count a) * sizeof_directory_info]) @
     (case archive_payload a of None \<Rightarrow> [] | Some _ \<Rightarrow> [payload_size a]))"
    by (cases "archive_blocks a"; cases "archive_directories a"; cases "archive_payload a")
      (simp_all add: bundle_close_def Let_def free_released)
  then show ?thesis
    by (cases "archive_directories a") (simp_all add: holdings_def released_def ac_simps)
qed

text \<open>A sound state of an opening that started with the given counters.\<close>

definition sound_opening :: "u64 \<Rightarrow> u64 \<Rightarrow> bundle_opening \<Rightarrow> bool" where
  "sound_opening amount count s \<longleftrightarrow>
     \<not> fault s \<and> g_allocated_bytes (heap s) = amount + sum_list (holdings (archive s)) \<and>
     g_allocations_count (heap s) = count + of_nat (length (holdings (archive s)))"

lemma sound_cursors [simp]:
  "sound_opening amount count (s\<lparr>stream := i\<rparr>) = sound_opening amount count s"
  "sound_opening amount count (s\<lparr>info_stream := i\<rparr>) = sound_opening amount count s"
  "sound_opening amount count (s\<lparr>heap := booked (heap s) [] n\<rparr>) = sound_opening amount count s"
  by (simp_all add: sound_opening_def)

section \<open>Streams over lists\<close>

definition cursor :: "u8 list \<Rightarrow> u8 list \<Rightarrow> byte_stream" where
  "cursor data bs =
     \<lparr>stream_data = data, stream_size = of_nat (length data), position = of_nat (length data - length bs),
      big_endian = True\<rparr>"

definition readable :: "u8 list \<Rightarrow> u8 list \<Rightarrow> bool" where
  "readable data bs \<longleftrightarrow> length data \<le> size_max \<and> (\<exists>pre. data = pre @ bs)"

lemma readable_drop [simp]: "readable data bs \<Longrightarrow> readable data (drop n bs)"
  by (auto simp: readable_def) (metis append.assoc append_take_drop_id)

lemma readable_whole [simp]: "length data \<le> size_max \<Longrightarrow> readable data data"
  by (simp add: readable_def)

lemma readable_length: "readable data bs \<Longrightarrow> length bs \<le> length data \<and> length data \<le> size_max"
  by (auto simp: readable_def)

lemma cursor_position: "readable data bs \<Longrightarrow> unat (position (cursor data bs)) = length data - length bs"
  using readable_length [of data bs] less_imp_diff_less [of "length data" "2 ^ 64" "length bs"]
  by (simp add: cursor_def unat_of_nat del: of_nat_diff)

lemma cursor_wf: "readable data bs \<Longrightarrow> stream_wf data (cursor data bs)"
  using readable_length [of data bs] cursor_position [of data bs]
  by (simp add: stream_wf_def cursor_def unat_of_nat word_le_nat_alt del: of_nat_diff)

lemma cursor_unread: "readable data bs \<Longrightarrow> unread (cursor data bs) = bs"
  unfolding unread_def using cursor_position [of data bs] by (auto simp: readable_def cursor_def)

lemma cursor_remaining: "readable data bs \<Longrightarrow> unat (stream_remaining (cursor data bs)) = length bs"
  using stream_remaining_value [OF cursor_wf [of data bs]] cursor_position [of data bs]
    readable_length [of data bs] by simp

lemma cursor_advance:
  assumes "readable data bs" and "n \<le> length bs"
  shows "(cursor data bs)\<lparr>position := position (cursor data bs) + of_nat n\<rparr> = cursor data (drop n bs)"
proof -
  have "length data - (length bs - n) = length data - length bs + n"
    using assms readable_length [of data bs] by simp
  then show ?thesis
    unfolding cursor_def using assms(2) by (simp del: of_nat_diff)
qed

section \<open>Reads, decided\<close>

abbreviation any_stream :: "byte_stream \<Rightarrow> bool" where "any_stream \<equiv> \<lambda>_. True"

lemma decides_bytes:
  assumes "readable data bs" and "unat count = n"
  shows "decides (\<lambda>i. i = cursor data bs) (stream_read_bytes True count) (cursor data bs) (n \<le> length bs) (take n bs)
    (cursor data (drop n bs))"
proof -
  have "position (cursor data bs) + count = position (cursor data bs) + of_nat n"
    using assms(2) by auto
  then show ?thesis
    using read_bytes_unread [OF cursor_wf [OF assms(1)], of count] cursor_advance [OF assms(1), of n] assms(2)
    by (simp add: decides_def cursor_unread [OF assms(1)])
qed

lemma decides_value:
  assumes "readable data bs" and "unat count = n"
    and "\<And>raw. length raw = n \<Longrightarrow> unat (f raw) = positional True raw"
    and "LENGTH('a::len) = 8 * n"
  shows "decides (\<lambda>i. i = cursor data bs)
    (step_then (stream_read_bytes True count) (\<lambda>raw. step_with big_endian (\<lambda>big. step_return (if big then f raw else g raw))))
    (cursor data bs) (n \<le> length bs) (of_nat (be_number (take n bs)) :: 'a word) (cursor data (drop n bs))"
proof (rule decides_then [OF decides_bytes [OF assms(1,2)]])
  assume "n \<le> length bs"
  then have "unat (f (take n bs)) = be_number (take n bs)" using assms(3) by (simp add: be_number_def)
  then have "of_nat (unat (f (take n bs))) = (of_nat (be_number (take n bs)) :: 'a word)" by simp
  then have "f (take n bs) = of_nat (be_number (take n bs))" by simp
  then show "decides (\<lambda>i. i = cursor data bs)
      (step_with big_endian (\<lambda>big. step_return (if big then f (take n bs) else g (take n bs))))
      (cursor data (drop n bs)) (n \<le> length bs) (of_nat (be_number (take n bs))) (cursor data (drop n bs))"
    using \<open>n \<le> length bs\<close> by (intro decides_with decides_return) (simp_all add: cursor_def)
qed simp

lemma decides_uint16:
  "readable data bs \<Longrightarrow> decides (\<lambda>i. i = cursor data bs) (stream_read_uint16 host) (cursor data bs) (2 \<le> length bs)
     (of_nat (be_number (take 2 bs))) (cursor data (drop 2 bs))"
  unfolding stream_read_uint16_def using read16_positional [where big = True and host = host]
  by (intro decides_value) simp_all

lemma decides_uint32:
  "readable data bs \<Longrightarrow> decides (\<lambda>i. i = cursor data bs) (stream_read_uint32 host) (cursor data bs) (4 \<le> length bs)
     (of_nat (be_number (take 4 bs))) (cursor data (drop 4 bs))"
  unfolding stream_read_uint32_def using read32_positional [where big = True and host = host]
  by (intro decides_value) simp_all

lemma decides_uint64:
  "readable data bs \<Longrightarrow> decides (\<lambda>i. i = cursor data bs) (stream_read_uint64 host) (cursor data bs) (8 \<le> length bs)
     (of_nat (be_number (take 8 bs))) (cursor data (drop 8 bs))"
  unfolding stream_read_uint64_def using read64_positional [where big = True and host = host]
  by (intro decides_value) simp_all

text \<open>Lifted to the opening.\<close>

lemma decides_on_stream:
  "decides (\<lambda>i. i = stream s) m (stream s) C x i \<Longrightarrow> sound_opening amount count s \<Longrightarrow>
     decides (sound_opening amount count) (on_stream m) s C x (s\<lparr>stream := i\<rparr>)"
  by (auto simp: decides_def on_stream_def split: prod.splits)

lemma decides_on_info:
  "decides (\<lambda>i. i = info_stream s) m (info_stream s) C x i \<Longrightarrow> sound_opening amount count s \<Longrightarrow>
     decides (sound_opening amount count) (on_info m) s C x (s\<lparr>info_stream := i\<rparr>)"
  by (auto simp: decides_def on_info_def split: prod.splits)

lemma decides_on_archive:
  "C \<Longrightarrow> decides bad (on_archive f) s C () (s\<lparr>archive := f (archive s)\<rparr>)"
  unfolding on_archive_def by (rule decides_modify) simp_all

lemma decides_store:
  "decides bad (f ()) (s\<lparr>archive := g (archive s)\<rparr>) C x t \<Longrightarrow> decides bad (step_then (on_archive g) f) s C x t"
  unfolding on_archive_def by (rule decides_write)

lemma decides_must:
  "(guard s \<longleftrightarrow> C) \<Longrightarrow> bad s \<Longrightarrow> decides bad (must guard) s C () s"
  unfolding must_def by (rule decides_require) simp_all

lemma decides_must_then:
  "(\<not> guard s \<Longrightarrow> \<not> C) \<Longrightarrow> bad s \<Longrightarrow> (guard s \<Longrightarrow> decides bad (f ()) s C x t) \<Longrightarrow>
     decides bad (step_then (must guard) f) s C x t"
  unfolding must_def by (rule decides_guard) simp_all

text \<open>The two allocating steps.\<close>

definition front_text :: "u8 list \<Rightarrow> u8 list" where
  "front_text bs = takeWhile (\<lambda>b. b \<noteq> 0) bs"

definition text_size :: "u8 list \<Rightarrow> u64" where
  "text_size t = of_nat (length t) + 1"

lemma decides_take_memory:
  "0 < n \<Longrightarrow> sound_opening amount count s \<Longrightarrow>
     decides (sound_opening amount count) (take_memory grants n) s (grants (allocator_calls (heap s)) n) ()
       (s\<lparr>heap := booked (heap s) [n] 1\<rparr>)"
  by (simp add: decides_def take_memory_def mem_alloc_booked)

lemma read_text_outcome:
  assumes "readable data bs" and "get s = cursor data bs"
  shows "read_text grants get upd s =
     (if 0 \<in> set bs \<and> grants (allocator_calls (heap s)) (text_size (front_text bs))
      then (Some (text_cells (front_text bs)),
            upd (\<lambda>_. cursor data (drop (Suc (length (front_text bs))) bs))
              s\<lparr>heap := booked (heap s) [text_size (front_text bs)] 1\<rparr>)
      else (None, upd (\<lambda>_. cursor data bs) s\<lparr>heap := (if 0 \<in> set bs then booked (heap s) [] 1 else heap s)\<rparr>))"
proof -
  note unread = cursor_unread [OF assms(1)]
  show ?thesis
  proof (cases "0 \<in> set bs")
    case False
    then show ?thesis
      using string_alloc_outcome [OF cursor_wf [OF assms(1)], of grants "heap s"]
      by (simp add: read_text_def assms(2) terminated_prefix_def unread)
  next
    case True
    let ?t = "front_text bs"
    have short: "Suc (length ?t) \<le> length bs"
      using takeWhile_short [of "\<lambda>b. b \<noteq> 0" bs] True unfolding front_text_def by auto
    have pos: "position (cursor data bs) + of_nat (length ?t) + 1 = position (cursor data bs) + of_nat (Suc (length ?t))"
      by simp
    have moved: "(cursor data bs)\<lparr>position := position (cursor data bs) + of_nat (length ?t) + 1\<rparr> =
        cursor data (drop (Suc (length ?t)) bs)"
      unfolding pos by (rule cursor_advance [OF assms(1) short])
    have size: "0 < text_size ?t"
    proof -
      have "Suc (length ?t) < 2 ^ 64" using short readable_length [OF assms(1)] by simp
      then have "unat (of_nat (Suc (length ?t)) :: u64) = Suc (length ?t)" by (simp add: unat_of_nat del: of_nat_Suc)
      then have "text_size ?t \<noteq> 0" unfolding text_size_def by (metis add.commute nat.distinct(1) of_nat_Suc unsigned_0)
      then show ?thesis by (simp add: word_gt_0)
    qed
    show ?thesis
      using string_alloc_outcome [OF cursor_wf [OF assms(1)], of grants "heap s"] True size
      unfolding terminated_prefix_def unread Let_def front_text_def [symmetric]
      by (simp add: read_text_def assms(2) mem_alloc_booked text_size_def [symmetric] text_cells_def text_field_def moved)
  qed
qed

lemma c_size_cells [simp]: "0 \<notin> set t \<Longrightarrow> c_size (text_cells t) = text_size t"
  by (simp add: c_size_def text_size_def)

lemma front_text_zero [simp]: "0 \<notin> set (front_text bs)"
  by (auto simp: front_text_def dest: set_takeWhileD)

text \<open>A store that hands a text to the archive.\<close>

definition takes_text :: "(block \<Rightarrow> BundleArchive \<Rightarrow> BundleArchive) \<Rightarrow> BundleArchive \<Rightarrow> bool" where
  "takes_text put a \<longleftrightarrow>
     (\<forall>cells. sum_list (holdings (put cells a)) = c_size cells + sum_list (holdings a) \<and>
              length (holdings (put cells a)) = Suc (length (holdings a)))"

lemma decides_text:
  assumes "readable data bs" and "get s = cursor data bs" and "sound_opening amount count s"
    and "\<And>i n. sound_opening amount count (upd (\<lambda>_. i) s\<lparr>heap := booked (heap s) [] n\<rparr>)"
    and "\<And>i. archive (upd (\<lambda>_. i) s) = archive s" "\<And>i. fault (upd (\<lambda>_. i) s) = fault s"
    and "takes_text put (archive s)"
    and "\<not> (0 \<in> set bs \<and> grants (allocator_calls (heap s)) (text_size (front_text bs))) \<Longrightarrow> \<not> C"
    and goes_on: "0 \<in> set bs \<Longrightarrow> grants (allocator_calls (heap s)) (text_size (front_text bs)) \<Longrightarrow>
      sound_opening amount count
        ((upd (\<lambda>_. cursor data (drop (Suc (length (front_text bs))) bs)) s)
          \<lparr>heap := booked (heap s) [text_size (front_text bs)] 1, archive := put (text_cells (front_text bs)) (archive s)\<rparr>) \<Longrightarrow>
      decides (sound_opening amount count) (f (text_cells (front_text bs)))
        ((upd (\<lambda>_. cursor data (drop (Suc (length (front_text bs))) bs)) s)
          \<lparr>heap := booked (heap s) [text_size (front_text bs)] 1, archive := put (text_cells (front_text bs)) (archive s)\<rparr>)
        C x t"
  shows "decides (sound_opening amount count)
    (step_then (read_text grants get upd) (\<lambda>cells. step_then (on_archive (put cells)) (\<lambda>_. f cells))) s C x t"
proof (cases "0 \<in> set bs \<and> grants (allocator_calls (heap s)) (text_size (front_text bs))")
  case False
  have "sound_opening amount count (upd (\<lambda>_. cursor data bs) s\<lparr>heap := booked (heap s) [] 0\<rparr>)"
    by (rule assms(4))
  then have "sound_opening amount count (upd (\<lambda>_. cursor data bs) s\<lparr>heap := heap s\<rparr>)" by simp
  moreover note assms(4) [where i = "cursor data bs" and n = 1]
  ultimately show ?thesis
    using False assms(8) by (auto simp: decides_def step_then_def read_text_outcome [where get = get and s = s, OF assms(1,2)])
next
  case True
  let ?i = "cursor data (drop (Suc (length (front_text bs))) bs)" and ?cells = "text_cells (front_text bs)"
  let ?u = "(upd (\<lambda>_. ?i) s)\<lparr>heap := booked (heap s) [text_size (front_text bs)] 1, archive := put ?cells (archive s)\<rparr>"
  have "sound_opening amount count ?u"
    using assms(3,6,7) by (simp add: sound_opening_def takes_text_def)
  then have step: "decides (sound_opening amount count) (f ?cells) ?u C x t" using goes_on True by blast
  have "step_then (read_text grants get upd) (\<lambda>cells. step_then (on_archive (put cells)) (\<lambda>_. f cells)) s = f ?cells ?u"
    using True assms(5) by (simp add: step_then_def read_text_outcome [where get = get and s = s, OF assms(1,2)] on_archive_def step_modify_def)
  then show ?thesis using step by (simp add: decides_def)
qed

lemmas decides_stream_text = decides_text [where get = stream and upd = stream_update]
lemmas decides_info_text = decides_text [where get = info_stream and upd = info_stream_update]

text \<open>Reads, with the cursor of the stream they use.\<close>

lemma stream_uint32:
  "readable data bs \<Longrightarrow> stream s = cursor data bs \<Longrightarrow> sound_opening amount count s \<Longrightarrow>
     decides (sound_opening amount count) (on_stream (stream_read_uint32 host)) s (4 \<le> length bs)
       (of_nat (be_number (take 4 bs))) (s\<lparr>stream := cursor data (drop 4 bs)\<rparr>)"
  using decides_on_stream [of s _ "4 \<le> length bs"] decides_uint32 by metis

lemma stream_uint64:
  "readable data bs \<Longrightarrow> stream s = cursor data bs \<Longrightarrow> sound_opening amount count s \<Longrightarrow>
     decides (sound_opening amount count) (on_stream (stream_read_uint64 host)) s (8 \<le> length bs)
       (of_nat (be_number (take 8 bs))) (s\<lparr>stream := cursor data (drop 8 bs)\<rparr>)"
  using decides_on_stream [of s _ "8 \<le> length bs"] decides_uint64 by metis

lemma info_uint16:
  "readable data bs \<Longrightarrow> info_stream s = cursor data bs \<Longrightarrow> sound_opening amount count s \<Longrightarrow>
     decides (sound_opening amount count) (on_info (stream_read_uint16 host)) s (2 \<le> length bs)
       (of_nat (be_number (take 2 bs))) (s\<lparr>info_stream := cursor data (drop 2 bs)\<rparr>)"
  using decides_on_info [of s _ "2 \<le> length bs"] decides_uint16 by metis

lemma info_uint32:
  "readable data bs \<Longrightarrow> info_stream s = cursor data bs \<Longrightarrow> sound_opening amount count s \<Longrightarrow>
     decides (sound_opening amount count) (on_info (stream_read_uint32 host)) s (4 \<le> length bs)
       (of_nat (be_number (take 4 bs))) (s\<lparr>info_stream := cursor data (drop 4 bs)\<rparr>)"
  using decides_on_info [of s _ "4 \<le> length bs"] decides_uint32 by metis

lemma info_uint64:
  "readable data bs \<Longrightarrow> info_stream s = cursor data bs \<Longrightarrow> sound_opening amount count s \<Longrightarrow>
     decides (sound_opening amount count) (on_info (stream_read_uint64 host)) s (8 \<le> length bs)
       (of_nat (be_number (take 8 bs))) (s\<lparr>info_stream := cursor data (drop 8 bs)\<rparr>)"
  using decides_on_info [of s _ "8 \<le> length bs"] decides_uint64 by metis

text \<open>Stores that move nothing that is held, and those that hand over a version string.\<close>

lemma holdings_simps [simp]:
  "holdings (a\<lparr>archive_version := v\<rparr>) = holdings a"
  "holdings (a\<lparr>total_file_size := w\<rparr>) = holdings a"
  "holdings (a\<lparr>compressed_info_size := v\<rparr>) = holdings a"
  "holdings (a\<lparr>decompressed_info_size := v\<rparr>) = holdings a"
  "holdings (a\<lparr>archive_flags := v\<rparr>) = holdings a"
  by (simp_all add: holdings_def cong: option.case_cong)

lemma takes_version:
  "generation_version a = None \<Longrightarrow> takes_text (\<lambda>c a. a\<lparr>generation_version := Some c\<rparr>) a"
  "engine_version a = None \<Longrightarrow> takes_text (\<lambda>c a. a\<lparr>engine_version := Some c\<rparr>) a"
  by (simp_all add: takes_text_def holdings_def held_text_def cong: option.case_cong)

lemma sound_store:
  "holdings (f (archive s)) = holdings (archive s) \<Longrightarrow>
     sound_opening amount count (s\<lparr>archive := f (archive s)\<rparr>) = sound_opening amount count s"
  by (simp add: sound_opening_def)

lemma decides_must_end:
  "(guard s \<longleftrightarrow> C) \<Longrightarrow> bad s \<Longrightarrow> (C \<Longrightarrow> t = s) \<Longrightarrow> decides bad (must guard) s C () t"
  unfolding must_def decides_def step_require_def by auto

section \<open>The header\<close>

definition dialect_front :: "u8 list \<Rightarrow> bool" where
  "dialect_front bs \<longleftrightarrow>
     4 \<le> length bs \<and> be_number (take 4 bs) = 8 \<and>
     0 \<in> set (drop 4 bs) \<and> front_text (drop 4 bs) = UNITYFS_SUPPORTED_GENERATION \<and>
     0 \<in> set (drop 10 bs) \<and> front_text (drop 10 bs) = UNITYFS_SUPPORTED_ENGINE_VERSION"

lemma ascii_nonzero [simp]:
  "0 \<notin> set UNITYFS_SIGNATURE" "0 \<notin> set UNITYFS_SUPPORTED_GENERATION" "0 \<notin> set UNITYFS_SUPPORTED_ENGINE_VERSION"
  by (simp_all add: ascii_def UNITYFS_SIGNATURE_def UNITYFS_SUPPORTED_GENERATION_def
      UNITYFS_SUPPORTED_ENGINE_VERSION_def)

lemma text_sizes [simp]:
  "text_size UNITYFS_SIGNATURE = 8" "text_size UNITYFS_SUPPORTED_GENERATION = 6"
  "text_size UNITYFS_SUPPORTED_ENGINE_VERSION = 12"
  by (simp_all add: text_size_def)

lemma word32_eq: "4 \<le> length bs \<Longrightarrow> (of_nat (be_number (take 4 bs)) = (w :: u32)) \<longleftrightarrow> be_number (take 4 bs) = unat w"
  by (simp only: word_eq_nat) (simp add: word_field)

definition with_dialect :: "BundleArchive \<Rightarrow> BundleArchive" where
  "with_dialect a =
     a\<lparr>archive_version := 8, generation_version := Some (text_cells UNITYFS_SUPPORTED_GENERATION),
       engine_version := Some (text_cells UNITYFS_SUPPORTED_ENGINE_VERSION)\<rparr>"

lemma decides_dialect:
  assumes sound: "sound_opening amount count s" and bs: "readable data bs" and at: "stream s = cursor data bs"
    and empty: "generation_version (archive s) = None" "engine_version (archive s) = None"
    and sig: "signature (archive s) = Some (text_cells sig)" "0 \<notin> set sig"
  shows "decides (sound_opening amount count) (open_dialect grants host) s
    (sig = UNITYFS_SIGNATURE \<and> dialect_front bs \<and> granted grants (allocator_calls (heap s)) [6, 12]) ()
    (s\<lparr>archive := with_dialect (archive s), stream := cursor data (drop 22 bs), heap := booked (heap s) [6, 12] 2\<rparr>)"
    (is "decides _ _ s ?C () ?t")
  unfolding open_dialect_def
proof (rule decides_must_then)
  show "map_option c_text (signature (archive s)) \<noteq> Some UNITYFS_SIGNATURE \<Longrightarrow> \<not> ?C" using sig by simp
  show "sound_opening amount count s" by fact
  assume "map_option c_text (signature (archive s)) = Some UNITYFS_SIGNATURE"
  then have is_sig: "sig = UNITYFS_SIGNATURE" using sig by simp
  show "decides (sound_opening amount count)
     (step_then (on_stream (stream_read_uint32 host)) (\<lambda>v.
      step_then (on_archive (\<lambda>a. a\<lparr>archive_version := v\<rparr>)) (\<lambda>_.
      step_then (read_text grants stream stream_update) (\<lambda>gen.
      step_then (on_archive (\<lambda>a. a\<lparr>generation_version := Some gen\<rparr>)) (\<lambda>_.
      step_then (read_text grants stream stream_update) (\<lambda>eng.
      step_then (on_archive (\<lambda>a. a\<lparr>engine_version := Some eng\<rparr>)) (\<lambda>_.
      must (\<lambda>s. \<not> (archive_version (archive s) \<noteq> UNITYFS_SUPPORTED_ARCHIVE_VERSION \<or>
                  c_text gen \<noteq> UNITYFS_SUPPORTED_GENERATION \<or>
                  c_text eng \<noteq> UNITYFS_SUPPORTED_ENGINE_VERSION)))))))))
     s ?C () ?t"
  proof (rule decides_then [OF stream_uint32 [OF bs at sound]])
    show "\<not> 4 \<le> length bs \<Longrightarrow> \<not> ?C" by (simp add: dialect_front_def)
    assume "4 \<le> length bs"
    let ?v = "of_nat (be_number (take 4 bs)) :: u32"
    let ?b1 = "drop 4 bs" and ?s1 = "s\<lparr>stream := cursor data (drop 4 bs), archive := (archive s)\<lparr>archive_version := ?v\<rparr>\<rparr>"
    have "sound_opening amount count ?s1"
      using sound by (simp add: sound_opening_def)
    show "decides (sound_opening amount count) (step_then (on_archive (\<lambda>a. a\<lparr>archive_version := ?v\<rparr>)) (\<lambda>_.
      step_then (read_text grants stream stream_update) (\<lambda>gen.
      step_then (on_archive (\<lambda>a. a\<lparr>generation_version := Some gen\<rparr>)) (\<lambda>_.
      step_then (read_text grants stream stream_update) (\<lambda>eng.
      step_then (on_archive (\<lambda>a. a\<lparr>engine_version := Some eng\<rparr>)) (\<lambda>_.
      must (\<lambda>s. \<not> (archive_version (archive s) \<noteq> UNITYFS_SUPPORTED_ARCHIVE_VERSION \<or>
                  c_text gen \<noteq> UNITYFS_SUPPORTED_GENERATION \<or>
                  c_text eng \<noteq> UNITYFS_SUPPORTED_ENGINE_VERSION))))))))
      (s\<lparr>stream := cursor data ?b1\<rparr>) ?C () ?t"
    proof (rule decides_store, rule decides_stream_text [where bs = ?b1 and data = data], goal_cases)
      case 8
      then show ?case by (auto simp: dialect_front_def)
    next
      case 9
      let ?b2 = "drop (Suc (length (front_text ?b1))) ?b1"
      note first = 9
      show ?case
      proof (rule decides_stream_text [where bs = ?b2 and data = data], goal_cases)
        case 8
        then show ?case by (auto simp: dialect_front_def)
      next
        case 9
        have version: "?v = 8 \<longleftrightarrow> be_number (take 4 bs) = 8"
          using word32_eq [OF \<open>4 \<le> length bs\<close>, of 8] by simp
        show ?case
        proof (rule decides_must_end, goal_cases)
          case 1
          then show ?case using first(1,2) 9(1,2) is_sig \<open>4 \<le> length bs\<close> version
            by (auto simp: dialect_front_def)
        next
          case 2
          then show ?case by (rule 9(3))
        next
          case 3
          then show ?case using version by (simp add: dialect_front_def with_dialect_def)
        qed
      qed (use bs first(3) empty in \<open>simp_all add: takes_version sound_opening_def\<close>)
    qed (use bs sound empty in \<open>simp_all add: takes_version sound_opening_def\<close>)
  qed
qed

definition packed_of :: "u8 list \<Rightarrow> u32" where "packed_of data = of_nat (be_number (take 4 (drop 38 data)))"
definition unpacked_of :: "u8 list \<Rightarrow> u32" where "unpacked_of data = of_nat (be_number (take 4 (drop 42 data)))"
definition flags_of :: "u8 list \<Rightarrow> u32" where "flags_of data = of_nat (be_number (take 4 (drop 46 data)))"

definition header_front :: "u8 list \<Rightarrow> bool" where
  "header_front data \<longleftrightarrow>
     64 \<le> length data \<and> be_number (take 8 (drop 30 data)) = length data \<and>
     archive_flags_known (flags_of data) \<and> packed_of data \<noteq> 0 \<and> 20 \<le> unpacked_of data"

definition with_header :: "u8 list \<Rightarrow> BundleArchive \<Rightarrow> BundleArchive" where
  "with_header data a =
     a\<lparr>total_file_size := of_nat (length data), compressed_info_size := packed_of data,
       decompressed_info_size := unpacked_of data, archive_flags := flags_of data\<rparr>"

lemma align_sixty_four:
  assumes "length data \<le> size_max" and "50 \<le> length data"
  shows "decides (\<lambda>i. i = cursor data (drop 50 data)) (flagged (stream_align 16)) (cursor data (drop 50 data))
    (64 \<le> length data) () (cursor data (drop 64 data))"
proof -
  have bs: "readable data (drop 50 data)" using assms(1) by simp
  have here: "position (cursor data (drop 50 data)) = 50" using assms(2) by (simp add: cursor_def del: of_nat_diff)
  have room: "14 \<le> stream_remaining (cursor data (drop 50 data)) \<longleftrightarrow> 64 \<le> length data"
    using cursor_remaining [OF bs] by (auto simp: word_le_nat_alt)
  have "(cursor data (drop 50 data))\<lparr>position := 64\<rparr> = cursor data (drop 64 data)" if "64 \<le> length data"
    using cursor_advance [OF bs, of 14] that here by simp
  then show ?thesis
    using here room by (auto simp: decides_def flagged_def stream_align_def stream_skip_def Let_def not_less)
qed

lemma decides_header:
  assumes sound: "sound_opening amount count s" and size: "length data \<le> size_max" "30 \<le> length data"
    and at: "stream s = cursor data (drop 30 data)"
  shows "decides (sound_opening amount count) (open_header host (of_nat (length data))) s (header_front data) ()
    (s\<lparr>archive := with_header data (archive s), stream := cursor data (drop 64 data)\<rparr>)"
    (is "decides _ _ s ?C () ?t")
proof -
  have bs: "readable data (drop n data)" for n using size by simp
  show ?thesis
    unfolding open_header_def
  proof (rule decides_then [OF stream_uint64 [OF bs at sound]], goal_cases)
    case 1
    then show ?case by (auto simp: header_front_def)
  next
    case 2
    then have len: "38 \<le> length data" using size by simp
    show ?case
    proof (rule decides_store, rule decides_then [OF stream_uint32 [where data = data and bs = "drop 38 data"]], goal_cases)
      case 4
      then show ?case by (auto simp: header_front_def)
    next
      case 5
      then have len: "42 \<le> length data" using len by simp
      show ?case
      proof (rule decides_store, rule decides_then [OF stream_uint32 [where data = data and bs = "drop 42 data"]], goal_cases)
        case 4
        then show ?case by (auto simp: header_front_def)
      next
        case 5
        then have len: "46 \<le> length data" using len by simp
        show ?case
        proof (rule decides_store, rule decides_then [OF stream_uint32 [where data = data and bs = "drop 46 data"]], goal_cases)
          case 4
          then show ?case by (auto simp: header_front_def)
        next
          case 5
          then have len: "50 \<le> length data" using len by simp
          have whole: "(of_nat (be_number (take 8 (drop 30 data))) = (of_nat (length data) :: u64)) \<longleftrightarrow>
              be_number (take 8 (drop 30 data)) = length data"
            using word_field [where 'a = 64 and n = 8 and bs = "drop 30 data"] len size(1)
            by (simp only: word_eq_nat) (simp add: unat_of_nat)
          let ?u = "s\<lparr>stream := cursor data (drop 50 data), archive := (archive s)\<lparr>total_file_size := of_nat (be_number (take 8 (drop 30 data))),
              compressed_info_size := packed_of data, decompressed_info_size := unpacked_of data,
              archive_flags := flags_of data\<rparr>\<rparr>"
          have ok: "sound_opening amount count ?u" using sound by (simp add: sound_opening_def)
          have there: "stream ?u = cursor data (drop 50 data)" by simp
          have aligned: "decides (sound_opening amount count) (on_stream (flagged (stream_align 16))) ?u (64 \<le> length data) ()
              (?u\<lparr>stream := cursor data (drop 64 data)\<rparr>)"
            using decides_on_stream [of ?u] align_sixty_four [OF size(1) len] ok there by metis
          have over: "\<not> position (cursor data (drop 64 data)) > of_nat (length data)" if "64 \<le> length data"
            using that size(1) by (simp add: cursor_def word_le_nat_alt not_less unat_of_nat del: of_nat_diff)
          show ?case
          proof (rule decides_store, rule decides_must_then, goal_cases)
            case 3
            note flags_ok = 3
            show ?case
            proof (rule decides_must_then, goal_cases)
              case 3
              note sizes_ok = 3
              show ?case
              proof (rule decides_then [where D = "64 \<le> length data" and y = "()"
                    and u = "?u\<lparr>stream := cursor data (drop 64 data)\<rparr>"], goal_cases)
                case 1
                then show ?case using aligned by (simp add: packed_of_def unpacked_of_def flags_of_def)
              next
                case 2
                then show ?case by (simp add: header_front_def)
              next
                case 3
                note long = 3
                have facts: "header_front data" "be_number (take 8 (drop 30 data)) = length data"
                  using long flags_ok sizes_ok whole
                  by (auto simp: header_front_def archive_flags_known_def packed_of_def unpacked_of_def flags_of_def)
                show ?case
                proof (rule decides_must_end, goal_cases)
                  case 1
                  then show ?case using over [OF long] facts by simp
                next
                  case 2
                  then show ?case using sound by (simp add: sound_opening_def)
                next
                  case 3
                  then show ?case using facts by (simp add: with_header_def)
                qed
              qed
            qed (use ok whole len in \<open>auto simp: header_front_def packed_of_def unpacked_of_def flags_of_def\<close>)
          qed (use ok in \<open>auto simp: header_front_def archive_flags_known_def packed_of_def unpacked_of_def flags_of_def\<close>)
        qed (use size sound in \<open>simp_all add: sound_opening_def\<close>)
      qed (use size sound in \<open>simp_all add: sound_opening_def\<close>)
    qed (use size sound in \<open>simp_all add: sound_opening_def\<close>)
  qed
qed

section \<open>The two regions\<close>

definition info_start :: "u8 list \<Rightarrow> u32 \<Rightarrow> u32 \<Rightarrow> nat" where
  "info_start data packed flags = (if info_at_end flags then length data - unat packed else 64)"

definition data_start :: "u8 list \<Rightarrow> u32 \<Rightarrow> u32 \<Rightarrow> nat" where
  "data_start data packed flags = (if info_at_end flags then 64 else 64 + unat packed + gap_length packed flags)"

definition data_end :: "u8 list \<Rightarrow> u32 \<Rightarrow> u32 \<Rightarrow> nat" where
  "data_end data packed flags = (if info_at_end flags then length data - unat packed else length data)"

lemma decides_locate_info:
  assumes sound: "sound_opening amount count s" and size: "length data \<le> size_max" "64 \<le> length data"
    and at: "stream s = cursor data (drop 64 data)" and whole: "total_file_size (archive s) = of_nat (length data)"
  shows "decides (sound_opening amount count) locate_info s
    (64 + unat (compressed_info_size (archive s)) \<le> length data)
    (of_nat (info_start data (compressed_info_size (archive s)) (archive_flags (archive s)))) s"
    (is "decides _ _ s ?C ?x s")
proof -
  let ?n = "unat (compressed_info_size (archive s))" and ?packed = "ucast (compressed_info_size (archive s)) :: u64"
  have n: "unat ?packed = ?n" by (simp add: unat_widen)
  have len: "unat (of_nat (length data) :: u64) = length data" using size by (simp add: unat_of_nat)
  have here: "position (cursor data (drop 64 data)) = 64" using size(2) by (simp add: cursor_def del: of_nat_diff)
  show ?thesis
    unfolding locate_info_def
  proof (rule decides_with, unfold whole at here Let_def prod.case, goal_cases)
    case 1
    show ?case
    proof (cases "info_at_end (archive_flags (archive s))")
      case False
      then have "archive_flags (archive s) AND UNITYFS_BLOCK_INFO_AT_END = 0" by (simp add: info_at_end_def)
      moreover have "\<not> ((64::u64) > of_nat (length data) \<or> ?packed > of_nat (length data) - 64) \<longleftrightarrow> ?C"
        using size(2) by (auto simp: word_to_nat len n unat_sub_if_size)
      ultimately show ?thesis
        using False sound by (auto simp: decides_def step_then_def step_return_def must_def step_require_def info_start_def)
    next
      case True
      then have "archive_flags (archive s) AND UNITYFS_BLOCK_INFO_AT_END \<noteq> 0" by (simp add: info_at_end_def)
      note run = this step_then_def step_return_def must_def step_require_def
      have fits: "?packed > of_nat (length data) \<longleftrightarrow> length data < ?n"
        by (simp add: word_to_nat len n)
      show ?thesis
      proof (cases "length data < ?n")
        case True
        then show ?thesis using sound fits by (simp add: decides_def run)
      next
        case False
        then have diff: "unat (of_nat (length data) - ?packed) = length data - ?n"
          by (subst unat_diff_le) (simp_all add: word_to_nat len n)
        define b where "b = of_nat (length data) - ?packed"
        have amount_b: "unat b = length data - ?n" using diff by (simp add: b_def)
        have "b < 64 \<longleftrightarrow> \<not> ?C" using False by (auto simp: word_to_nat amount_b)
        moreover have "?x = b"
          by (simp only: word_eq_nat amount_b)
            (use size \<open>info_at_end _\<close> in \<open>simp add: info_start_def unat_of_nat del: of_nat_diff\<close>)
        moreover have "\<not> b > of_nat (length data)" "\<not> ?packed > of_nat (length data) - b"
          using amount_b diff by (simp_all add: word_to_nat len b_def)
        ultimately show ?thesis
          using sound fits False unfolding b_def [symmetric] by (simp add: decides_def run)
      qed
    qed
  qed
qed

lemma and_not_mask: "x AND NOT (mask n) = x - (x AND mask n)" for x :: "'a::len word"
proof -
  have "x = (x AND mask n) + (x AND NOT (mask n))"
    by (subst disjunctive_add) (auto simp: bit_simps bit_eq_iff)
  then show ?thesis by (metis add_diff_cancel_left')
qed

lemma round_up: "k + 15 - (k + 15) mod 16 = k + (16 - k mod 16) mod 16" for k :: nat
proof -
  define q r where "q = k div 16" and "r = k mod 16"
  then have "k = 16 * q + r" and "r = k mod 16" and "r < 16" by simp_all
  moreover have "(16 * q + r + 15) mod 16 = (r + 15) mod 16"
    by (metis add.assoc mod_mult_self4)
  moreover have "r + 15 - (r + 15) mod 16 = r + (16 - r) mod 16"
    using \<open>r < 16\<close> by (cases "r = 0") (simp_all add: mod_if [of "r + 15"])
  moreover have "m \<le> r + 15 \<Longrightarrow> 16 * q + r + 15 - m = 16 * q + (r + 15 - m)" for m by simp
  ultimately show ?thesis using \<open>r = k mod 16\<close> by (metis add.assoc mod_less_eq_dividend)
qed

lemma align_sixteen:
  assumes "unat x + 15 < 2 ^ 64"
  shows "unat ((x + 15) AND NOT 15 :: u64) = unat x + (16 - unat x mod 16) mod 16"
proof -
  have fifteen: "(15 :: u64) = mask 4" by (simp add: mask_eq_exp_minus_1)
  define y where "y = x + 15"
  have y: "unat y = unat x + 15" unfolding y_def using assms by (subst unat_add_fits) simp_all
  have "y AND mask 4 \<le> y" by (simp add: word_le_nat_alt unat_and_mask)
  then have "unat (y - (y AND mask 4)) = unat y - unat y mod 2 ^ 4" by (simp only: unat_diff_le unat_and_mask)
  then have "unat (y AND NOT 15) = unat x + 15 - (unat x + 15) mod 16"
    unfolding fifteen and_not_mask y by simp
  then have "unat ((x + 15) AND NOT 15) = unat x + 15 - (unat x + 15) mod 16" unfolding y_def .
  then show ?thesis using round_up [of "unat x"] by simp
qed

lemma decides_locate_data:
  assumes sound: "sound_opening amount count s"
    and size: "length data \<le> size_max" "64 + unat (compressed_info_size (archive s)) \<le> length data"
    and at: "stream s = cursor data (drop 64 data)" and whole: "total_file_size (archive s) = of_nat (length data)"
  shows "decides (sound_opening amount count)
    (locate_data (of_nat (info_start data (compressed_info_size (archive s)) (archive_flags (archive s))))) s
    (data_start data (compressed_info_size (archive s)) (archive_flags (archive s)) \<le>
     data_end data (compressed_info_size (archive s)) (archive_flags (archive s)))
    (of_nat (data_start data (compressed_info_size (archive s)) (archive_flags (archive s))),
     of_nat (data_end data (compressed_info_size (archive s)) (archive_flags (archive s)))) s"
    (is "decides _ _ s ?C ?x s")
proof -
  let ?c = "compressed_info_size (archive s)" and ?f = "archive_flags (archive s)"
  let ?packed = "ucast ?c :: u64"
  have n: "unat ?packed = unat ?c" by (simp add: unat_widen)
  have n_less: "unat ?c < 2 ^ 32" using unsigned_less [of ?c] by simp
  have len: "unat (of_nat (length data) :: u64) = length data" using size by (simp add: unat_of_nat)
  have here: "position (cursor data (drop 64 data)) = 64" using size(2) by (simp add: cursor_def del: of_nat_diff)
  define start where "start = (if info_at_end ?f then 64 else 64 + ?packed)"
  define ends where "ends = (if info_at_end ?f then of_nat (info_start data ?c ?f) else of_nat (length data) :: u64)"
  have start: "unat start = (if info_at_end ?f then 64 else 64 + unat ?c)"
    using n n_less by (auto simp: start_def unat_add_fits)
  have ends: "ends = of_nat (data_end data ?c ?f)" by (simp add: ends_def data_end_def info_start_def)
  have room: "\<not> ?packed > of_nat (length data) - 64"
    using size(2) by (subst word_less_nat_alt, subst unat_diff_le) (auto simp: word_to_nat len n)
  have regions: "step_then
         (if ?f AND UNITYFS_BLOCK_INFO_AT_END \<noteq> 0 then step_return (64, of_nat (info_start data ?c ?f))
          else step_then (must (\<lambda>_. \<not> ?packed > of_nat (length data) - of_nat (info_start data ?c ?f))) (\<lambda>_.
               step_return (of_nat (info_start data ?c ?f) + ?packed, of_nat (length data)))) g s = g (start, ends) s" for g
    using room by (simp add: start_def ends_def info_at_end_def info_start_def step_then_def step_return_def
        must_def step_require_def)
  define placed where "placed = (if ?f AND UNITYFS_BLOCK_INFO_NEEDS_PADDING \<noteq> 0 then (start + 15) AND NOT 15 else start)"
  have small: "unat start + 15 < 2 ^ 64" using start n_less by simp
  have sixty_four: "(64 + k) mod 16 = k mod 16" for k :: nat by presburger
  have placed: "placed = of_nat (data_start data ?c ?f)"
    using align_sixteen [OF small] start
    by (simp only: word_eq_nat) (use n_less sixty_four in \<open>auto simp: placed_def data_start_def gap_length_def unat_of_nat\<close>)
  have padding: "step_then (if ?f AND UNITYFS_BLOCK_INFO_NEEDS_PADDING \<noteq> 0 then
            step_then (must (\<lambda>_. \<not> start > SIZE_MAX - 15)) (\<lambda>_. step_return ((start + 15) AND NOT 15))
          else step_return start) g s = g placed s" for g
    using small by (auto simp: placed_def step_then_def step_return_def must_def step_require_def word_to_nat)
  have order: "placed > ends \<longleftrightarrow> \<not> ?C"
    using size n_less unfolding placed ends
    by (auto simp: word_to_nat unat_of_nat data_start_def data_end_def gap_length_def not_le simp del: of_nat_diff of_nat_add)
  show ?thesis
    unfolding locate_data_def
    by (rule decides_with, unfold whole at here Let_def prod.case regions decides_def)
      (use order sound in \<open>auto simp: regions padding step_then_def [of "step_require _ _"] step_return_def must_def step_require_def placed [symmetric] ends [symmetric]\<close>)
qed

end
