(* ===== verification/BundleTables.thy ===== *)
theory BundleTables
  imports BundleSteps
begin

text \<open>
  The two tables of the info chunk: reading a row, a table and the whole chunk succeeds exactly when
  the list parser of the format does and the requests are granted.
\<close>

section \<open>The tables of the info chunk\<close>

lemma holdings_rows [simp]:
  "archive_blocks a = Some rows \<Longrightarrow> holdings (a\<lparr>archive_blocks := Some rows'\<rparr>) = holdings a"
  by (simp add: holdings_def cong: option.case_cong)

lemma rows_filled:
  "b\<lparr>block_decompressed_size := x, block_compressed_size := y, block_flags := z\<rparr> =
     \<lparr>block_decompressed_size = x, block_compressed_size = y, block_flags = z\<rparr>"
  "d\<lparr>node_offset := o', node_decompressed_size := n, node_flags := f, node_name := t\<rparr> =
     \<lparr>node_offset = o', node_decompressed_size = n, node_flags = f, node_name = t\<rparr>"
  by simp_all

lemma decides_block_row:
  assumes sound: "sound_opening amount count s" and bs: "readable raw bs" and at: "info_stream s = cursor raw bs"
    and rows: "archive_blocks (archive s) = Some rows" "i < length rows"
  shows "decides (sound_opening amount count) (read_block_row host i) s (parse_block bs \<noteq> None) ()
    (s\<lparr>info_stream := cursor raw (drop 10 bs),
       archive := (archive s)\<lparr>archive_blocks := Some (rows[i := block_at bs])\<rparr>\<rparr>)"
    (is "decides _ _ s ?C () ?t")
  unfolding read_block_row_def set_block_def
proof (rule decides_then [OF info_uint32 [OF bs at sound]], goal_cases)
  case 1
  then show ?case by (simp add: parse_block_def)
next
  case 2
  then have len: "4 \<le> length bs" .
  show ?case
  proof (rule decides_store, rule decides_then [OF info_uint32 [where data = raw and bs = "drop 4 bs"]], goal_cases)
    case 4
    then show ?case by (auto simp: parse_block_def)
  next
    case 5
    then have len: "8 \<le> length bs" using len by simp
    show ?case
    proof (rule decides_store, rule decides_then [OF info_uint16 [where data = raw and bs = "drop 8 bs"]], goal_cases)
      case 4
      then show ?case by (auto simp: parse_block_def)
    next
      case 5
      then have "10 \<le> length bs" using len by simp
      then have ok: "?C \<longleftrightarrow> block_flags_known (block_at bs)" by (simp add: parse_block_def)
      show ?case
        by (rule decides_store, rule decides_must_end)
          (use rows sound in \<open>simp_all add: ok block_flags_known_def block_at_def sound_opening_def rows_filled del: not_None_eq\<close>)
    qed (use bs rows sound in \<open>simp_all add: sound_opening_def\<close>)
  qed (use bs rows sound in \<open>simp_all add: sound_opening_def\<close>)
qed

lemma decides_block_rows:
  assumes "sound_opening amount count s" and "readable raw bs" and "info_stream s = cursor raw bs"
    and "archive_blocks (archive s) = Some (before @ replicate n zero_block_info)"
  shows "decides (sound_opening amount count) (scan_rows (read_block_row host) (length before) n) s
    (parse_rows parse_block n bs \<noteq> None) (replicate n ())
    (s\<lparr>info_stream := cursor raw (snd (the (parse_rows parse_block n bs))),
       archive := (archive s)\<lparr>archive_blocks := Some (before @ fst (the (parse_rows parse_block n bs)))\<rparr>\<rparr>)"
  using assms
proof (induction n arbitrary: s bs before)
  case 0
  then show ?case by (simp add: decides_def)
next
  case (Suc n)
  let ?b = "block_at bs" and ?rest = "drop 10 bs"
  let ?u = "s\<lparr>info_stream := cursor raw ?rest,
    archive := (archive s)\<lparr>archive_blocks := Some ((before @ [?b]) @ replicate n zero_block_info)\<rparr>\<rparr>"
  have updated: "(before @ replicate (Suc n) zero_block_info)[length before := ?b] =
      (before @ [?b]) @ replicate n zero_block_info" by (simp add: list_update_append)
  have row: "decides (sound_opening amount count) (read_block_row host (length before)) s (parse_block bs \<noteq> None) () ?u"
    using decides_block_row [OF Suc.prems(1-4), of "length before" host] unfolding updated by simp
  have sound: "sound_opening amount count ?u"
    using Suc.prems(1,4) by (simp add: sound_opening_def)
  have tail: "decides (sound_opening amount count) (scan_rows (read_block_row host) (length (before @ [?b])) n) ?u
    (parse_rows parse_block n ?rest \<noteq> None) (replicate n ())
    (?u\<lparr>info_stream := cursor raw (snd (the (parse_rows parse_block n ?rest))),
       archive := (archive ?u)\<lparr>archive_blocks := Some ((before @ [?b]) @ fst (the (parse_rows parse_block n ?rest)))\<rparr>\<rparr>)"
    by (rule Suc.IH [OF sound]) (use Suc.prems(2) in simp_all)
  show ?case
    unfolding scan_rows_Suc
  proof (rule decides_then [OF row], goal_cases)
    case 1
    then show ?case by (simp del: not_None_eq)
  next
    case 2
    then have step: "parse_block bs = Some (?b, ?rest)" by (auto simp: parse_block_def split: if_splits)
    have front: "scan_rows (read_block_row host) (Suc (length before)) n =
        scan_rows (read_block_row host) (length (before @ [?b])) n" by simp
    show ?case
      unfolding front
    proof (rule decides_then [OF tail], goal_cases)
      case 1
      then show ?case using step by (simp del: not_None_eq)
    next
      case 2
      then show ?case using step by (intro decides_return) auto
    qed
  qed
qed

definition held_names :: "BundleDirectoryInfo list \<Rightarrow> u64 list" where
  "held_names rows = concat (map held_text (map node_name rows))"

lemma holdings_directories:
  "archive_directories a = Some rows \<Longrightarrow> directory_count a = int (length rows) \<Longrightarrow> length rows' = length rows \<Longrightarrow>
     holdings (a\<lparr>archive_directories := Some rows'\<rparr>) =
       held_text (signature a) @ held_text (generation_version a) @ held_text (engine_version a) @
       (case archive_blocks a of None \<Rightarrow> [] | Some _ \<Rightarrow> [of_int (block_count a) * sizeof_block_info]) @
       (of_nat (length rows) * sizeof_directory_info # held_names rows') @
       (case archive_payload a of None \<Rightarrow> [] | Some _ \<Rightarrow> [payload_size a])"
  by (simp add: holdings_def held_names_def o_def cong: option.case_cong)

lemma holdings_same_names:
  assumes "archive_directories a = Some rows" and "directory_count a = int (length rows)"
    and "map node_name rows' = map node_name rows"
  shows "holdings (a\<lparr>archive_directories := Some rows'\<rparr>) = holdings a"
proof -
  have "length rows' = length rows" using assms(3) by (metis length_map)
  moreover have "held_names rows' = held_names rows" by (simp only: held_names_def assms(3))
  ultimately have "holdings (a\<lparr>archive_directories := Some rows'\<rparr>) = holdings (a\<lparr>archive_directories := Some rows\<rparr>)"
    using holdings_directories [OF assms(1,2)] by simp
  then show ?thesis using assms(1) by (cases a) simp
qed

lemma takes_name:
  assumes "archive_directories a = Some rows" and "directory_count a = int (length rows)"
    and "i < length rows" and "node_name (rows ! i) = None"
  shows "takes_text (\<lambda>c a. a\<lparr>archive_directories :=
      map_option (\<lambda>rows. rows[i := (rows ! i)\<lparr>node_name := Some c\<rparr>]) (archive_directories a)\<rparr>) a"
proof -
  have split: "rows = take i rows @ rows ! i # drop (Suc i) rows" by (rule id_take_nth_drop [OF assms(3)])
  have names: "held_names rows = held_names (take i rows) @ held_names (drop (Suc i) rows)"
    by (subst split) (simp add: held_names_def held_text_def assms(4))
  have "held_names (rows[i := (rows ! i)\<lparr>node_name := Some c\<rparr>]) =
      held_names (take i rows) @ [c_size c] @ held_names (drop (Suc i) rows)" for c
    using assms(3) by (simp add: upd_conv_take_nth_drop held_names_def held_text_def)
  note new_names = this
  have same: "holdings a = holdings (a\<lparr>archive_directories := Some rows\<rparr>)" using assms(1) by (cases a) simp
  show ?thesis
    unfolding takes_text_def
    by (subst (1 2) same)
      (simp add: assms(1) holdings_directories [OF assms(1,2)] names new_names)
qed

lemma on_archive_unit: "on_archive g = step_then (on_archive g) (\<lambda>_. step_return ())"
  by (rule ext) (simp add: on_archive_def step_then_def step_modify_def step_return_def)

lemma decides_node_row:
  assumes sound: "sound_opening amount count s" and bs: "readable raw bs" and at: "info_stream s = cursor raw bs"
    and rows: "archive_directories (archive s) = Some rows" "i < length rows" "node_name (rows ! i) = None"
      "directory_count (archive s) = int (length rows)"
  shows "decides (sound_opening amount count) (read_directory_row grants host i) s
    (parse_node bs \<noteq> None \<and> grants (allocator_calls (heap s)) (text_size (node_text (node_at bs)))) ()
    (s\<lparr>info_stream := cursor raw (drop (Suc (length (node_text (node_at bs)))) (drop 20 bs)), heap := booked (heap s) [text_size (node_text (node_at bs))] 1,
       archive := (archive s)\<lparr>archive_directories := Some (rows[i := node_at bs])\<rparr>\<rparr>)"
    (is "decides _ _ s ?C () ?t")
  unfolding read_directory_row_def set_directory_def
proof (rule decides_then [OF info_uint64 [OF bs at sound]], goal_cases)
  case 1
  then show ?case by (simp add: parse_node_def)
next
  case 2
  then have len: "8 \<le> length bs" .
  have same: "map node_name (rows[i := (rows ! i)\<lparr>node_offset := x\<rparr>]) = map node_name rows"
    "map node_name (rows[i := (rows ! i)\<lparr>node_offset := x, node_decompressed_size := y\<rparr>]) = map node_name rows"
    "map node_name (rows[i := (rows ! i)\<lparr>node_offset := x, node_decompressed_size := y, node_flags := z\<rparr>]) =
       map node_name rows" for x y z
    using rows(2) by (simp_all add: map_update list_update_same_conv)
  note kept = same [THEN holdings_same_names [OF rows(1,4)]]
  show ?case
  proof (rule decides_store, rule decides_then [OF info_uint64 [where data = raw and bs = "drop 8 bs"]], goal_cases)
    case 4
    then show ?case by (auto simp: parse_node_def)
  next
    case 5
    then have len: "16 \<le> length bs" using len by simp
    show ?case
    proof (rule decides_store, rule decides_then [OF info_uint32 [where data = raw and bs = "drop 16 bs"]], goal_cases)
      case 4
      then show ?case by (auto simp: parse_node_def)
    next
      case 5
      then have len: "20 \<le> length bs" using len by simp
      then have ok: "parse_node bs \<noteq> None \<longleftrightarrow> 0 \<in> set (drop 20 bs)"
        "0 \<in> set (drop 20 bs) \<Longrightarrow> parse_node bs = Some (node_at bs, drop (Suc (length (node_text (node_at bs)))) (drop 20 bs))"
        by (simp_all add: parse_node_def)
      have name: "front_text (drop 20 bs) = node_text (node_at bs)" by (simp add: front_text_def)
      show ?case
        by (subst (2) on_archive_unit, rule decides_store, rule decides_info_text [where data = raw and bs = "drop 20 bs"])
          (use bs rows sound ok in \<open>simp_all add: sound_opening_def kept name takes_name
            rows_filled node_at_def [symmetric] decides_return del: not_None_eq\<close>)
    qed (use bs rows sound in \<open>simp_all add: sound_opening_def kept\<close>)
  qed (use bs rows sound in \<open>simp_all add: sound_opening_def kept\<close>)
qed

definition name_size :: "BundleDirectoryInfo \<Rightarrow> u64" where
  "name_size d = text_size (node_text d)"

lemma decides_node_rows:
  assumes "sound_opening amount count s" and "readable raw bs" and "info_stream s = cursor raw bs"
    and "archive_directories (archive s) = Some (before @ replicate n zero_directory_info)"
    and "directory_count (archive s) = int (length before + n)"
  shows "decides (sound_opening amount count) (scan_rows (read_directory_row grants host) (length before) n) s
    (parse_rows parse_node n bs \<noteq> None \<and>
     granted grants (allocator_calls (heap s)) (map name_size (fst (the (parse_rows parse_node n bs))))) (replicate n ())
    (s\<lparr>info_stream := cursor raw (snd (the (parse_rows parse_node n bs))),
       heap := booked (heap s) (map name_size (fst (the (parse_rows parse_node n bs)))) n,
       archive := (archive s)\<lparr>archive_directories := Some (before @ fst (the (parse_rows parse_node n bs)))\<rparr>\<rparr>)"
  using assms
proof (induction n arbitrary: s bs before)
  case 0
  then show ?case by (simp add: decides_def)
next
  case (Suc n)
  let ?d = "node_at bs" and ?rest = "drop (Suc (length (node_text (node_at bs)))) (drop 20 bs)"
  let ?u = "s\<lparr>info_stream := cursor raw ?rest, heap := booked (heap s) [name_size ?d] 1,
    archive := (archive s)\<lparr>archive_directories := Some ((before @ [?d]) @ replicate n zero_directory_info)\<rparr>\<rparr>"
  let ?D = "parse_node bs \<noteq> None \<and> grants (allocator_calls (heap s)) (name_size ?d)"
  have updated: "(before @ replicate (Suc n) zero_directory_info)[length before := ?d] =
      (before @ [?d]) @ replicate n zero_directory_info" by (simp add: list_update_append)
  have row: "decides (sound_opening amount count) (read_directory_row grants host (length before)) s ?D () ?u"
    using decides_node_row [OF Suc.prems(1-4), of "length before" grants host] Suc.prems(5)
    unfolding updated name_size_def by (simp add: nth_append zero_directory_info_def)
  show ?case
    unfolding scan_rows_Suc
  proof (rule decides_then [OF row], goal_cases)
    case 1
    then show ?case by (auto split: option.splits prod.splits simp: parse_node_def)
  next
    case 2
    then have ok: "parse_node bs \<noteq> None" "grants (allocator_calls (heap s)) (name_size ?d)" by simp_all
    then have step: "parse_node bs = Some (?d, ?rest)" by (auto simp: parse_node_def split: if_splits)
    have rest: "readable raw ?rest" using Suc.prems(2) by simp
    have zeros: "held_names (replicate k zero_directory_info) = []" for k
      by (induction k) (simp_all add: held_names_def zero_directory_info_def held_text_def)
    have names: "held_names (before @ replicate (Suc n) zero_directory_info) = held_names before"
      "held_names ((before @ [?d]) @ replicate n zero_directory_info) = held_names before @ [name_size ?d]"
      using zeros [of n] zeros [of "Suc n"]
      by (simp_all add: held_names_def held_text_def name_size_def)
        (simp add: node_at_def front_text_zero [unfolded front_text_def])
    have sound: "sound_opening amount count ?u"
      using Suc.prems(1) holdings_directories [OF Suc.prems(4), of "(before @ [?d]) @ replicate n zero_directory_info"]
        holdings_directories [OF Suc.prems(4), of "before @ replicate (Suc n) zero_directory_info"] Suc.prems(4,5)
      unfolding names by (cases "archive s") (simp add: sound_opening_def)
    have tail: "decides (sound_opening amount count) (scan_rows (read_directory_row grants host) (length (before @ [?d])) n) ?u
      (parse_rows parse_node n ?rest \<noteq> None \<and>
       granted grants (allocator_calls (heap ?u)) (map name_size (fst (the (parse_rows parse_node n ?rest))))) (replicate n ())
      (?u\<lparr>info_stream := cursor raw (snd (the (parse_rows parse_node n ?rest))),
         heap := booked (heap ?u) (map name_size (fst (the (parse_rows parse_node n ?rest)))) n,
         archive := (archive ?u)\<lparr>archive_directories := Some ((before @ [?d]) @ fst (the (parse_rows parse_node n ?rest)))\<rparr>\<rparr>)"
      by (rule Suc.IH [OF sound rest]) (use Suc.prems(5) in simp_all)
    have front: "scan_rows (read_directory_row grants host) (Suc (length before)) n =
        scan_rows (read_directory_row grants host) (length (before @ [?d])) n" by simp
    show ?case
      unfolding front
    proof (rule decides_then [OF tail], goal_cases)
      case 1
      then show ?case using step by auto
    next
      case 2
      then show ?case using step ok(2) by (intro decides_return) auto
    qed
  qed
qed

lemma decides_zeroed:
  assumes "0 < n" "n < 2 ^ 32" "0 < k" "k \<le> 32" and "sound_opening amount count s"
  shows "decides (sound_opening amount count) (allocate_zeroed_array grants zero (of_nat n) (of_nat k)) s
    (grants (allocator_calls (heap s)) (of_nat n * of_nat k)) (replicate n zero)
    (s\<lparr>heap := booked (heap s) [of_nat n * of_nat k] 1\<rparr>)"
proof -
  have n: "unat (of_nat n :: u64) = n" and k: "unat (of_nat k :: u64) = k"
    using assms by (simp_all add: unat_of_nat)
  have bound: "n * k < 2 ^ 64"
    using mult_strict_mono [of n "2 ^ 32" k "2 ^ 32"] assms by simp
  have "n * k \<le> unat SIZE_MAX" using bound by simp
  then have "k \<le> unat SIZE_MAX div n" using assms(1) by (simp add: less_eq_div_iff_mult_less_eq mult.commute)
  then have "\<not> dxbc_size_multiply_overflows (of_nat n) (of_nat k)"
    by (simp add: dxbc_size_multiply_overflows_def word_less_nat_alt unat_div n k)
  moreover have "(of_nat n :: u64) \<noteq> 0" "(of_nat k :: u64) \<noteq> 0"
    using n k assms by (metis less_numeral_extra(3) unsigned_0)+
  moreover have "unat (of_nat n * of_nat k :: u64) = n * k"
    using bound by (simp add: unat_word_ariths(2) n k)
  then have "0 < (of_nat n * of_nat k :: u64)" using assms by (simp add: word_less_nat_alt)
  note take = decides_take_memory [OF this assms(5), of grants]
  ultimately show ?thesis
    unfolding allocate_zeroed_array_def
    using assms(5) by (auto intro!: decides_must_then decides_then [OF take] decides_return simp: n)
qed

definition block_request :: "BundleBlockInfo list \<Rightarrow> u64 list" where
  "block_request blocks = (if blocks = [] then [] else [of_nat (length blocks) * sizeof_block_info])"

definition node_request :: "BundleDirectoryInfo list \<Rightarrow> u64 list" where
  "node_request nodes =
     (if nodes = [] then [] else of_nat (length nodes) * sizeof_directory_info # map name_size nodes)"

definition with_blocks :: "BundleBlockInfo list \<Rightarrow> BundleArchive \<Rightarrow> BundleArchive" where
  "with_blocks blocks a =
     a\<lparr>block_count := int (length blocks), archive_blocks := (if blocks = [] then None else Some blocks)\<rparr>"

definition with_nodes :: "BundleDirectoryInfo list \<Rightarrow> BundleArchive \<Rightarrow> BundleArchive" where
  "with_nodes nodes a =
     a\<lparr>directory_count := int (length nodes), archive_directories := (if nodes = [] then None else Some nodes)\<rparr>"

lemma parse_rows_count: "parse_rows p n bs = Some (rs, rest) \<Longrightarrow> length rs = n"
  by (induction n arbitrary: bs rs) (auto split: option.splits)

lemma count_guard:
  assumes "readable raw bs" "length raw < 2 ^ 32" "4 \<le> length bs" "0 < (w :: u64)" "10 \<le> unat w"
  defines "count32 \<equiv> of_nat (be_number (take 4 bs)) :: u32"
  shows "(count32 > 0x7FFFFFFF \<or> ucast count32 > stream_remaining (cursor raw (drop 4 bs)) div w) \<longleftrightarrow>
     \<not> be_number (take 4 bs) \<le> (length bs - 4) div unat w"
proof -
  have n: "unat count32 = be_number (take 4 bs)"
    unfolding count32_def using assms(3) by (intro word_field) simp_all
  have wide: "unat (ucast count32 :: u64) = be_number (take 4 bs)" by (simp add: unat_widen n)
  have rest: "unat (stream_remaining (cursor raw (drop 4 bs)) div w) = (length bs - 4) div unat w"
    using cursor_remaining [of raw "drop 4 bs"] assms(1) by (simp add: unat_div)
  have "(length bs - 4) div unat w \<le> (length bs - 4) div 10" by (rule div_le_mono2) (use assms(5) in simp_all)
  also have "\<dots> < 2 ^ 31" using readable_length [OF assms(1)] assms(2) by simp
  finally have "\<not> be_number (take 4 bs) \<le> (length bs - 4) div unat w" if "0x7FFFFFFF < be_number (take 4 bs)"
    using that by simp
  then show ?thesis by (auto simp: word_less_nat_alt n wide rest)
qed

lemma holdings_counts:
  "archive_blocks a = None \<Longrightarrow> holdings (a\<lparr>block_count := n\<rparr>) = holdings a"
  "archive_directories a = None \<Longrightarrow> holdings (a\<lparr>directory_count := n\<rparr>) = holdings a"
  by (simp_all add: holdings_def cong: option.case_cong)

lemma holdings_new_blocks:
  assumes "archive_blocks a = None" and "0 < length rows"
  shows "sum_list (holdings (a\<lparr>block_count := int (length rows), archive_blocks := Some rows\<rparr>)) =
      of_nat (length rows) * 12 + sum_list (holdings a)"
    "length (holdings (a\<lparr>block_count := int (length rows), archive_blocks := Some rows\<rparr>)) = Suc (length (holdings a))"
  using assms by (simp_all add: holdings_def cong: option.case_cong)

lemma decides_block_table:
  assumes sound: "sound_opening amount count s" and bs: "readable raw bs" "length raw < 2 ^ 32"
    and at: "info_stream s = cursor raw bs" and empty: "archive_blocks (archive s) = None"
  shows "decides (sound_opening amount count) (read_block_table grants host) s
    (parse_table parse_block 10 bs \<noteq> None \<and>
     granted grants (allocator_calls (heap s)) (block_request (fst (the (parse_table parse_block 10 bs))))) ()
    (s\<lparr>info_stream := cursor raw (snd (the (parse_table parse_block 10 bs))),
       heap := booked (heap s) (block_request (fst (the (parse_table parse_block 10 bs))))
         (length (block_request (fst (the (parse_table parse_block 10 bs))))),
       archive := with_blocks (fst (the (parse_table parse_block 10 bs))) (archive s)\<rparr>)"
    (is "decides _ _ s ?C () ?t")
  unfolding read_block_table_def
proof (rule decides_then [OF info_uint32 [OF bs(1) at sound]], goal_cases)
  case 1
  then show ?case by (simp add: parse_table_def)
next
  case 2
  let ?n = "be_number (take 4 bs)"
  have n: "unat (of_nat ?n :: u32) = ?n" using 2 by (intro word_field) simp_all
  have n_less: "?n < 2 ^ 32" using be_number_bound [of "take 4 bs"] 2 by simp
  have wide: "ucast (of_nat ?n :: u32) = (of_nat ?n :: u64)" by (simp only: word_eq_nat) (use n n_less in \<open>simp add: unat_widen unat_of_nat\<close>)
  have sound1: "sound_opening amount count (s\<lparr>info_stream := cursor raw (drop 4 bs), archive := (archive s)\<lparr>block_count := int ?n\<rparr>\<rparr>)"
    using sound empty by (simp add: sound_opening_def holdings_counts)
  show ?case
  proof (rule decides_must_then, goal_cases)
    case 1
    then show ?case using count_guard [OF bs \<open>4 \<le> length bs\<close>, of 10] by (auto simp: parse_table_def)
  next
    case 2
    then show ?case using sound by simp
  next
    case 3
    then have fits: "?n \<le> (length bs - 4) div 10" using count_guard [OF bs \<open>4 \<le> length bs\<close>, of 10] by simp
    then have table: "parse_table parse_block 10 bs = parse_rows parse_block ?n (drop 4 bs)"
      using \<open>4 \<le> length bs\<close> by (simp add: parse_table_def)
    show ?case
    proof (rule decides_store, unfold n, goal_cases)
      case 1
      show ?case
      proof (cases "?n = 0")
        case True
        then show ?thesis
          using n by (auto intro!: decides_weaken [OF decides_on_archive] simp: table block_request_def with_blocks_def)
      next
        case False
        then have positive: "(of_nat ?n :: u32) > 0" using n by (simp add: word_less_nat_alt)
        let ?u = "s\<lparr>info_stream := cursor raw (drop 4 bs), archive := (archive s)\<lparr>block_count := int ?n\<rparr>\<rparr>"
        have alloc: "decides (sound_opening amount count)
          (allocate_zeroed_array grants zero_block_info (ucast (of_nat ?n :: u32)) sizeof_block_info) ?u
          (grants (allocator_calls (heap s)) (of_nat ?n * 12)) (replicate ?n zero_block_info)
          (?u\<lparr>heap := booked (heap s) [of_nat ?n * 12] 1\<rparr>)"
          using decides_zeroed [OF _ n_less, of 12, OF _ _ _ sound1] False wide by simp
        let ?h = "?u\<lparr>heap := booked (heap s) [of_nat ?n * 12] 1\<rparr>"
        let ?v = "?h\<lparr>archive := (archive ?h)\<lparr>archive_blocks := Some (replicate ?n zero_block_info)\<rparr>\<rparr>"
        have sound2: "sound_opening amount count ?v"
          using sound empty False holdings_new_blocks [OF empty, of "replicate ?n zero_block_info"]
          by (simp add: sound_opening_def)
        let ?p = "parse_rows parse_block ?n (drop 4 bs)"
        have rows: "decides (sound_opening amount count) (scan_rows (read_block_row host) 0 ?n) ?v (?p \<noteq> None) (replicate ?n ())
          (?v\<lparr>info_stream := cursor raw (snd (the ?p)), archive := (archive ?v)\<lparr>archive_blocks := Some (fst (the ?p))\<rparr>\<rparr>)"
          using decides_block_rows [OF sound2 readable_drop [OF bs(1)], of 4 "[]" ?n host] by simp
        have filled: "fst (the ?p) \<noteq> [] \<and> length (fst (the ?p)) = ?n" if "?p \<noteq> None"
          using parse_rows_count [of parse_block ?n "drop 4 bs"] that False by auto
        have run: "decides (sound_opening amount count)
          (step_then (allocate_zeroed_array grants zero_block_info (ucast (of_nat ?n :: u32)) sizeof_block_info) (\<lambda>rows.
           step_then (on_archive (\<lambda>a. a\<lparr>archive_blocks := Some rows\<rparr>)) (\<lambda>_.
           step_then (scan_rows (read_block_row host) 0 ?n) (\<lambda>_. step_return ())))) ?u ?C () ?t"
        proof (rule decides_then [OF alloc], goal_cases)
          case 1
          then show ?case using filled by (auto simp: table block_request_def)
        next
          case 2
          note grant = 2
          show ?case
          proof (rule decides_store, rule decides_then [OF rows], goal_cases)
            case 1
            then show ?case by (simp add: table)
          next
            case 2
            then show ?case using filled grant
              by (intro decides_return) (auto simp: table block_request_def with_blocks_def)
          qed
        qed
        show ?thesis using run positive by simp
      qed
    qed
  qed
qed

lemma holdings_new_nodes:
  assumes "archive_directories a = None" and "0 < n"
  shows "sum_list (holdings (a\<lparr>directory_count := int n, archive_directories := Some (replicate n zero_directory_info)\<rparr>)) =
      of_nat n * 32 + sum_list (holdings a)"
    "length (holdings (a\<lparr>directory_count := int n, archive_directories := Some (replicate n zero_directory_info)\<rparr>)) =
      Suc (length (holdings a))"
proof -
  have "held_text (node_name zero_directory_info) = []"
    by (simp add: zero_directory_info_def held_text_def)
  then show "sum_list (holdings (a\<lparr>directory_count := int n, archive_directories := Some (replicate n zero_directory_info)\<rparr>)) =
      of_nat n * 32 + sum_list (holdings a)"
    "length (holdings (a\<lparr>directory_count := int n, archive_directories := Some (replicate n zero_directory_info)\<rparr>)) =
      Suc (length (holdings a))"
    using assms by (simp_all add: holdings_def cong: option.case_cong)
qed

lemma decides_node_table:
  assumes sound: "sound_opening amount count s" and bs: "readable raw bs" "length raw < 2 ^ 32"
    and at: "info_stream s = cursor raw bs" and empty: "archive_directories (archive s) = None"
  shows "decides (sound_opening amount count) (read_directory_table grants host) s
    (parse_table parse_node 21 bs \<noteq> None \<and>
     granted grants (allocator_calls (heap s)) (node_request (fst (the (parse_table parse_node 21 bs))))) ()
    (s\<lparr>info_stream := cursor raw (snd (the (parse_table parse_node 21 bs))),
       heap := booked (heap s) (node_request (fst (the (parse_table parse_node 21 bs))))
         (length (node_request (fst (the (parse_table parse_node 21 bs))))),
       archive := with_nodes (fst (the (parse_table parse_node 21 bs))) (archive s)\<rparr>)"
    (is "decides _ _ s ?C () ?t")
  unfolding read_directory_table_def
proof (rule decides_then [OF info_uint32 [OF bs(1) at sound]], goal_cases)
  case 1
  then show ?case by (simp add: parse_table_def)
next
  case 2
  let ?n = "be_number (take 4 bs)"
  have n: "unat (of_nat ?n :: u32) = ?n" using 2 by (intro word_field) simp_all
  have n_less: "?n < 2 ^ 32" using be_number_bound [of "take 4 bs"] 2 by simp
  have wide: "ucast (of_nat ?n :: u32) = (of_nat ?n :: u64)" by (simp only: word_eq_nat) (use n n_less in \<open>simp add: unat_widen unat_of_nat\<close>)
  let ?u = "s\<lparr>info_stream := cursor raw (drop 4 bs), archive := (archive s)\<lparr>directory_count := int ?n\<rparr>\<rparr>"
  have sound1: "sound_opening amount count ?u"
    using sound empty by (simp add: sound_opening_def holdings_counts)
  show ?case
  proof (rule decides_must_then, goal_cases)
    case 1
    then show ?case using count_guard [OF bs \<open>4 \<le> length bs\<close>, of 21] by (auto simp: parse_table_def)
  next
    case 2
    then show ?case using sound by simp
  next
    case 3
    then have fits: "?n \<le> (length bs - 4) div 21" using count_guard [OF bs \<open>4 \<le> length bs\<close>, of 21] by simp
    then have table: "parse_table parse_node 21 bs = parse_rows parse_node ?n (drop 4 bs)"
      using \<open>4 \<le> length bs\<close> by (simp add: parse_table_def)
    show ?case
    proof (rule decides_store, unfold n, goal_cases)
      case 1
      show ?case
      proof (cases "?n = 0")
        case True
        then show ?thesis
          using n by (auto intro!: decides_weaken [OF decides_on_archive] simp: table node_request_def with_nodes_def)
      next
        case False
        then have positive: "(of_nat ?n :: u32) > 0" using n by (simp add: word_less_nat_alt)
        have alloc: "decides (sound_opening amount count)
          (allocate_zeroed_array grants zero_directory_info (ucast (of_nat ?n :: u32)) sizeof_directory_info) ?u
          (grants (allocator_calls (heap s)) (of_nat ?n * 32)) (replicate ?n zero_directory_info)
          (?u\<lparr>heap := booked (heap s) [of_nat ?n * 32] 1\<rparr>)"
          using decides_zeroed [OF _ n_less, of 32, OF _ _ _ sound1] False wide by simp
        let ?h = "?u\<lparr>heap := booked (heap s) [of_nat ?n * 32] 1\<rparr>"
        let ?v = "?h\<lparr>archive := (archive ?h)\<lparr>archive_directories := Some (replicate ?n zero_directory_info)\<rparr>\<rparr>"
        have sound2: "sound_opening amount count ?v"
          using sound empty False holdings_new_nodes [OF empty, of ?n] by (simp add: sound_opening_def)
        let ?p = "parse_rows parse_node ?n (drop 4 bs)"
        let ?D = "?p \<noteq> None \<and> granted grants (allocator_calls (heap s) + 1) (map name_size (fst (the ?p)))"
        have rows: "decides (sound_opening amount count) (scan_rows (read_directory_row grants host) 0 ?n) ?v ?D (replicate ?n ())
          (?v\<lparr>info_stream := cursor raw (snd (the ?p)),
             heap := booked (heap s) (of_nat ?n * 32 # map name_size (fst (the ?p))) (1 + ?n),
             archive := (archive ?v)\<lparr>archive_directories := Some (fst (the ?p))\<rparr>\<rparr>)"
          using decides_node_rows [OF sound2 readable_drop [OF bs(1)], of 4 "[]" ?n grants host] by simp
        have filled: "fst (the ?p) \<noteq> [] \<and> length (fst (the ?p)) = ?n" if "?p \<noteq> None"
          using parse_rows_count [of parse_node ?n "drop 4 bs"] that False by auto
        have run: "decides (sound_opening amount count)
          (step_then (allocate_zeroed_array grants zero_directory_info (ucast (of_nat ?n :: u32)) sizeof_directory_info) (\<lambda>rows.
           step_then (on_archive (\<lambda>a. a\<lparr>archive_directories := Some rows\<rparr>)) (\<lambda>_.
           step_then (scan_rows (read_directory_row grants host) 0 ?n) (\<lambda>_. step_return ())))) ?u ?C () ?t"
        proof (rule decides_then [OF alloc], goal_cases)
          case 1
          then show ?case using filled by (auto simp: table node_request_def)
        next
          case 2
          note grant = 2
          show ?case
          proof (rule decides_store, rule decides_then [OF rows], goal_cases)
            case 1
            then show ?case using filled by (auto simp: table node_request_def)
          next
            case 2
            then show ?case using filled grant
              by (intro decides_return) (auto simp: table node_request_def with_nodes_def)
          qed
        qed
        show ?thesis using run positive by simp
      qed
    qed
  qed
qed

section \<open>The info chunk\<close>

definition table_request :: "BundleBlockInfo list \<Rightarrow> BundleDirectoryInfo list \<Rightarrow> u64 list" where
  "table_request blocks nodes = block_request blocks @ node_request nodes"

lemma with_blocks_simps [simp]:
  "archive_directories (with_blocks blocks a) = archive_directories a"
  "total_file_size (with_blocks blocks a) = total_file_size a"
  "compressed_info_size (with_blocks blocks a) = compressed_info_size a"
  "archive_flags (with_blocks blocks a) = archive_flags a"
  "archive_payload (with_blocks blocks a) = archive_payload a"
  "payload_size (with_blocks blocks a) = payload_size a"
  by (simp_all add: with_blocks_def)

lemma holdings_with_blocks:
  assumes "archive_blocks a = None"
  shows "sum_list (holdings (with_blocks blocks a)) = sum_list (holdings a) + sum_list (block_request blocks)"
    "length (holdings (with_blocks blocks a)) = length (holdings a) + length (block_request blocks)"
  using assms by (simp_all add: with_blocks_def block_request_def holdings_def cong: option.case_cong)

lemma sound_blocks:
  assumes "sound_opening amount count s" and "archive_blocks (archive s) = None"
  shows "sound_opening amount count (s\<lparr>info_stream := i, heap := booked (heap s) (block_request blocks) k,
      archive := with_blocks blocks (archive s)\<rparr>)"
  using assms by (simp add: sound_opening_def holdings_with_blocks)

lemma readable_suffix: "readable raw bs \<Longrightarrow> bs = front @ rest \<Longrightarrow> readable raw rest"
  by (auto simp: readable_def)

lemma held_node: "node_named d \<Longrightarrow> held_text (node_name d) = [name_size d]"
  by (auto simp: node_named_def held_text_def name_size_def node_text_def)

lemma holdings_with_nodes:
  assumes "archive_directories a = None" and "list_all node_named nodes"
  shows "sum_list (holdings (with_nodes nodes a)) = sum_list (holdings a) + sum_list (node_request nodes)"
    "length (holdings (with_nodes nodes a)) = length (holdings a) + length (node_request nodes)"
proof -
  have "concat (map (\<lambda>d. held_text (node_name d)) nodes) = map name_size nodes"
    using assms(2) by (induction nodes) (simp_all add: held_node)
  then show "sum_list (holdings (with_nodes nodes a)) = sum_list (holdings a) + sum_list (node_request nodes)"
    "length (holdings (with_nodes nodes a)) = length (holdings a) + length (node_request nodes)"
    using assms(1) by (simp_all add: with_nodes_def node_request_def holdings_def cong: option.case_cong)
qed

lemma decides_skip:
  assumes "readable raw bs" and "info_stream s = cursor raw bs" and "sound_opening amount count s" and "unat k = n"
  shows "decides (sound_opening amount count) (on_info (flagged (stream_skip k))) s (n \<le> length bs) ()
    (s\<lparr>info_stream := cursor raw (drop n bs)\<rparr>)"
proof -
  have "k \<le> stream_remaining (cursor raw bs) \<longleftrightarrow> n \<le> length bs"
    using cursor_remaining [OF assms(1)] assms(4) by (simp add: word_le_nat_alt)
  moreover have "of_nat n = k" using assms(4) by auto
  ultimately show ?thesis
    using cursor_advance [OF assms(1), of n] assms(2,3)
    by (auto simp: decides_def on_info_def flagged_def stream_skip_def not_less)
qed

lemma decoded_the: "decoded lzma codec src n \<noteq> None \<Longrightarrow> decodes lzma codec src n (the (decoded lzma codec src n))"
  by (auto simp flip: decoded_iff)

text \<open>The region that a chunk is read from.\<close>

definition chunk_at :: "u8 list \<Rightarrow> nat \<Rightarrow> u32 \<Rightarrow> u8 list" where
  "chunk_at data at packed = take (unat packed) (drop at data)"

lemma decides_chunk:
  assumes "lzma_bounded lzma" and "unat offset = at" and "at + unat src_len \<le> length data"
    and "case dst of None \<Rightarrow> unat dst_len = 0 | Some to \<Rightarrow> unat dst_len \<le> length to"
    and "sound_opening amount count s"
  shows "decides (sound_opening amount count) (decompress_chunk lzma data codec offset src_len dst dst_len) s
    (decoded lzma codec (chunk_at data at src_len) (unat dst_len) \<noteq> None)
    (map_option (\<lambda>to. the (decoded lzma codec (chunk_at data at src_len) (unat dst_len)) @ drop (unat dst_len) to) dst) s"
proof -
  have fits: "unat src_len \<le> length (drop at data)" using assms(3) by simp
  obtain ok written where run: "bundle_decompress_block lzma codec (Some (drop at data)) (unat src_len) dst (unat dst_len) =
      Some (ok, written)"
    and "ok \<longleftrightarrow> (\<exists>out. decodes lzma codec (take (unat src_len) (drop at data)) (unat dst_len) out)"
    and wrote: "\<And>out. decodes lzma codec (take (unat src_len) (drop at data)) (unat dst_len) out \<Longrightarrow>
      written = map_option (\<lambda>to. out @ drop (unat dst_len) to) dst"
    using decompress_block_outcome [OF assms(1) fits assms(4), of codec] by blast
  then have "ok \<longleftrightarrow> decoded lzma codec (chunk_at data at src_len) (unat dst_len) \<noteq> None"
    by (auto simp: chunk_at_def decoded_iff)
  moreover have "written = map_option (\<lambda>to. the (decoded lzma codec (chunk_at data at src_len) (unat dst_len)) @ drop (unat dst_len) to) dst"
    if "decoded lzma codec (chunk_at data at src_len) (unat dst_len) \<noteq> None"
    using wrote [OF decoded_the [OF that [unfolded chunk_at_def]]] by (simp add: chunk_at_def)
  ultimately show ?thesis
    using run assms(2,5) by (auto simp: decides_def decompress_chunk_def)
qed

definition info_of :: "lzma_decoder \<Rightarrow> u8 list \<Rightarrow> nat \<Rightarrow> u32 \<Rightarrow> u32 \<Rightarrow> u32 \<Rightarrow> u8 list option" where
  "info_of lzma data at packed unpacked flags =
     decoded lzma (flags AND UNITYFS_COMPRESSION_MASK) (chunk_at data at packed) (unat unpacked)"

lemma decides_read_info:
  assumes sound: "sound_opening amount count s" and lzma: "lzma_bounded lzma"
    and place: "unat offset = at" "at + unat (compressed_info_size (archive s)) \<le> length data"
    and empty: "archive_blocks (archive s) = None" "archive_directories (archive s) = None"
  defines "info \<equiv> info_of lzma data at (compressed_info_size (archive s)) (decompressed_info_size (archive s)) (archive_flags (archive s))"
  defines "tables \<equiv> parse_info (the info)"
  shows "decides (sound_opening amount count) (read_info grants host dirt lzma data offset) s
    (info \<noteq> None \<and> tables \<noteq> None \<and>
     granted grants (allocator_calls (heap s)) (table_request (fst (the tables)) (snd (the tables)))) ()
    (s\<lparr>info_stream := cursor (the info) [],
       heap := booked (heap s) (table_request (fst (the tables)) (snd (the tables)))
         (length (table_request (fst (the tables)) (snd (the tables)))),
       archive := with_nodes (snd (the tables)) (with_blocks (fst (the tables)) (archive s))\<rparr>)"
    (is "decides _ _ s ?C () ?t")
proof -
  let ?a = "archive s" and ?raw = "the info"
  let ?unpacked = "decompressed_info_size ?a"
  let ?codec = "archive_flags ?a AND UNITYFS_COMPRESSION_MASK"
  let ?dst = "Some (fresh dirt (unat ?unpacked))"
  have chunk: "decides (sound_opening amount count)
      (decompress_chunk lzma data ?codec offset (compressed_info_size ?a) ?dst ?unpacked) s (info \<noteq> None) (Some ?raw) s"
    using decides_chunk [OF lzma place, where dst = ?dst and dst_len = ?unpacked and s = s and codec = ?codec] sound
    by (simp add: fresh_def info_def info_of_def)
  show ?thesis
    unfolding read_info_def
  proof (rule decides_with, rule decides_then [OF chunk], goal_cases)
    case 1
    then show ?case by blast
  next
    case 2
    then have raw: "decodes lzma ?codec (chunk_at data at (compressed_info_size ?a)) (unat ?unpacked) ?raw"
      unfolding info_def info_of_def by (rule decoded_the)
    then have len: "length ?raw = unat ?unpacked" by (rule decodes_length)
    have small: "length ?raw < 2 ^ 32" using raw by (rule raw_bound)
    then have whole: "readable ?raw ?raw" by simp
    have begun: "stream_set_endian True (stream_init (the (Some ?raw)) (ucast ?unpacked)) = cursor ?raw ?raw"
      using len by (simp add: stream_set_endian_def stream_init_def cursor_def) 
    let ?p = "parse_table parse_block 10 (drop 16 ?raw)"
    let ?rest = "snd (the ?p)" and ?blocks = "fst (the ?p)"
    let ?q = "parse_table parse_node 21 ?rest"
    let ?u = "s\<lparr>info_stream := cursor ?raw (drop 16 ?raw)\<rparr>"
    have u: "sound_opening amount count ?u" "archive_blocks (archive ?u) = None" "info_stream ?u = cursor ?raw (drop 16 ?raw)"
      using sound empty by simp_all
    have skip: "decides (sound_opening amount count) (on_info (flagged (stream_skip 16)))
        (s\<lparr>info_stream := cursor ?raw ?raw\<rparr>) (16 \<le> length ?raw) () ?u"
      using decides_skip [OF whole, where s = "s\<lparr>info_stream := cursor ?raw ?raw\<rparr>" and k = 16 and n = 16] sound by simp
    note blocks = decides_block_table [OF u(1) readable_drop [OF whole] small u(3,2), of grants host]
    let ?v = "?u\<lparr>info_stream := cursor ?raw ?rest, heap := booked (heap ?u) (block_request ?blocks) (length (block_request ?blocks)),
      archive := with_blocks ?blocks (archive ?u)\<rparr>"
    show ?case
    proof (rule decides_write, unfold begun, rule decides_then [OF skip], goal_cases)
      case 1
      then show ?case by (auto simp: tables_def parse_info_def cong: option.case_cong list.case_cong)
    next
      case 2
      note long = 2
      show ?case
      proof (rule decides_then [OF blocks], goal_cases)
        case 1
        then show ?case
          using long by (auto simp: tables_def parse_info_def table_request_def split: option.splits prod.splits list.splits)
      next
        case 2
        then have first: "?p = Some (?blocks, ?rest)" by auto
        have "drop 16 ?raw = be_bytes 4 (length ?blocks) @ concat (map block_bytes ?blocks) @ ?rest"
          using block_table_iff [of "drop 16 ?raw" ?blocks ?rest] first by (simp add: block_bytes_def)
        then have "?raw = (take 16 ?raw @ be_bytes 4 (length ?blocks) @ concat (map block_bytes ?blocks)) @ ?rest"
          by (metis append.assoc append_take_drop_id)
        then have rest: "readable ?raw ?rest" using whole unfolding readable_def by blast
        have v: "sound_opening amount count ?v" "archive_directories (archive ?v) = None" "info_stream ?v = cursor ?raw ?rest"
          using sound_blocks [OF u(1,2)] empty by simp_all
        note nodes = decides_node_table [OF v(1) rest small v(3,2), of grants host]
        let ?found = "case ?q of Some (ns, []) \<Rightarrow> Some (?blocks, ns) | _ \<Rightarrow> None"
        have parsed: "tables = ?found"
          using long \<open>?p \<noteq> None \<and> _\<close> by (auto simp: tables_def parse_info_def cong: option.case_cong list.case_cong)
        show ?case
        proof (rule decides_then [OF nodes], goal_cases)
          case 1
          then show ?case
            unfolding parsed by (auto simp: table_request_def split: option.splits prod.splits list.splits)
        next
          case 2
          then obtain ns tail where second: "?q = Some (ns, tail)" by auto
          then have layout: "?rest = (be_bytes 4 (length ns) @ concat (map node_bytes ns)) @ tail" and "list_all node_named ns"
            using node_table_iff [of ?rest ns tail] by (simp_all add: node_bytes_def)
          then have tail: "readable ?raw tail" using readable_suffix [OF rest] by blast
          have ended: "stream_remaining (cursor ?raw tail) = 0 \<longleftrightarrow> tail = []"
            using cursor_remaining [OF tail] by (metis length_0_conv unat_eq_0)
          have sound_end: "sound_opening amount count (?v\<lparr>info_stream := cursor ?raw tail,
              heap := booked (heap ?v) (node_request ns) k, archive := with_nodes ns (archive ?v)\<rparr>)" for k
            using v(1,2) \<open>list_all node_named ns\<close> by (simp add: sound_opening_def holdings_with_nodes)
          show ?case
          proof (rule decides_must_end, goal_cases)
            case 1
            then show ?case
              using second ended 2 \<open>?p \<noteq> None \<and> _\<close> \<open>info \<noteq> None\<close>
              by (auto simp: parsed table_request_def split: list.splits)
          next
            case 2
            then show ?case using sound_end second by simp
          next
            case 3
            then have "tail = []" using second by (cases tail) (auto simp: parsed)
            then show ?case using second by (simp add: parsed table_request_def)
          qed
        qed
      qed
    qed
  qed
qed

end
