(* ===== verification/BundlePayload.thy ===== *)
theory BundlePayload
  imports BundleTables
begin

text \<open>
  The info chunk with its memory, the payload and its loop over the blocks, and the parser of a whole
  file cut into the stages that the code goes through.
\<close>

lemma free_booked: "free_array a (booked t (a # held) k) = booked t held k"
  by (simp add: free_released released_def booked_def)

lemma decides_open_info:
  assumes sound: "sound_opening amount count s" and lzma: "lzma_bounded lzma"
    and place: "unat offset = at" "at + unat (compressed_info_size (archive s)) \<le> length data"
    and empty: "archive_blocks (archive s) = None" "archive_directories (archive s) = None"
    and unpacked: "20 \<le> decompressed_info_size (archive s)"
  defines "info \<equiv> info_of lzma data at (compressed_info_size (archive s)) (decompressed_info_size (archive s)) (archive_flags (archive s))"
  defines "tables \<equiv> parse_info (the info)"
  shows "decides (sound_opening amount count) (open_info grants host dirt lzma data offset) s
    (info \<noteq> None \<and> tables \<noteq> None \<and>
     granted grants (allocator_calls (heap s))
       (ucast (decompressed_info_size (archive s)) # table_request (fst (the tables)) (snd (the tables)))) ()
    (s\<lparr>info_stream := cursor (the info) [],
       heap := booked (heap s) (table_request (fst (the tables)) (snd (the tables)))
         (Suc (length (table_request (fst (the tables)) (snd (the tables))))),
       archive := with_nodes (snd (the tables)) (with_blocks (fst (the tables)) (archive s))\<rparr>)"
    (is "decides _ _ s ?C () ?t")
proof -
  let ?a = "ucast (decompressed_info_size (archive s)) :: u64"
  let ?u = "s\<lparr>heap := booked (heap s) [?a] 1\<rparr>"
  have positive: "0 < ?a"
    using unpacked by (simp add: word_less_nat_alt word_le_nat_alt unat_widen)
  have inner: "sound_opening (amount + ?a) (count + 1) ?u"
    using sound by (simp add: sound_opening_def)
  note run = decides_read_info [OF inner lzma place(1), of data grants host dirt, folded info_def, simplified,
      OF place(2) empty, folded info_def tables_def]
  have outer: "sound_opening (amount + ?a) (count + 1) v \<Longrightarrow> sound_opening amount count (v\<lparr>heap := free_array ?a (heap v)\<rparr>)" for v
    by (simp add: sound_opening_def free_released released_def)
  show ?thesis
    unfolding open_info_def
  proof (rule decides_with, rule decides_then [OF decides_take_memory [OF positive sound]], goal_cases)
    case 1
    then show ?case by auto
  next
    case 2
    show ?case
    proof (cases ?C)
      case True
      then have "read_info grants host dirt lzma data offset ?u = (Some (),
          s\<lparr>info_stream := cursor (the info) [], heap := booked (heap s) (?a # table_request (fst (the tables)) (snd (the tables)))
            (Suc (length (table_request (fst (the tables)) (snd (the tables))))),
            archive := with_nodes (snd (the tables)) (with_blocks (fst (the tables)) (archive s))\<rparr>)"
        using decidesD(1) [OF run] by simp
      then show ?thesis using True by (simp add: decides_def free_booked)
    next
      case False
      then obtain v where "read_info grants host dirt lzma data offset ?u = (None, v)" "sound_opening (amount + ?a) (count + 1) v"
        using decidesD(2) [OF run] 2 by auto
      then show ?thesis using False outer by (simp add: decides_def)
    qed
  qed
qed

section \<open>The payload\<close>

definition unpacked_total :: "BundleBlockInfo list \<Rightarrow> nat" where
  "unpacked_total blocks = sum_list (map (unat \<circ> block_decompressed_size) blocks)"

definition packed_total :: "BundleBlockInfo list \<Rightarrow> nat" where
  "packed_total blocks = sum_list (map (unat \<circ> block_compressed_size) blocks)"

lemma total_simps [simp]:
  "unpacked_total [] = 0" "unpacked_total (b # bs) = unat (block_decompressed_size b) + unpacked_total bs"
  "packed_total [] = 0" "packed_total (b # bs) = unat (block_compressed_size b) + packed_total bs"
  by (simp_all add: unpacked_total_def packed_total_def)

lemma total_bounds: "unpacked_total bs \<le> length bs * (2 ^ 32 - 1)" "packed_total bs \<le> length bs * (2 ^ 32 - 1)"
proof -
  have "unat w \<le> 2 ^ 32 - 1" for w :: u32
    using unsigned_less [of w, where 'a = nat] by simp
  then show "unpacked_total bs \<le> length bs * (2 ^ 32 - 1)" "packed_total bs \<le> length bs * (2 ^ 32 - 1)"
    by (induction bs) (simp_all add: add_mono)
qed

lemma block_totals_value:
  assumes "p + unpacked_total bs < 2 ^ 64" and "c + packed_total bs < 2 ^ 64"
  shows "block_totals bs (of_nat p) (of_nat c) = Some (of_nat (p + unpacked_total bs), of_nat (c + packed_total bs))"
  using assms
proof (induction bs arbitrary: p c)
  case (Cons b bs)
  let ?u = "unat (block_decompressed_size b)" and ?n = "unat (block_compressed_size b)"
  have words: "unat (of_nat p :: u64) = p" "unat (of_nat c :: u64) = c"
    using Cons.prems by (simp_all add: unat_of_nat)
  have "\<not> UINT64_MAX - of_nat p < ucast (block_decompressed_size b)"
    "\<not> ucast (block_compressed_size b) > SIZE_MAX - of_nat c"
    using Cons.prems by (simp_all add: word_less_nat_alt unat_sub_if_size words unat_widen word_size)
  moreover have "of_nat p + ucast (block_decompressed_size b) = (of_nat (p + ?u) :: u64)"
    "of_nat c + ucast (block_compressed_size b) = (of_nat (c + ?n) :: u64)"
    by (simp_all add: unat_widen)
  ultimately show ?case
    using Cons.IH [of "p + ?u" "c + ?n"] Cons.prems by (simp add: Let_def add.assoc)
qed simp

definition payload_request :: "nat \<Rightarrow> u64 list" where
  "payload_request n = (if n = 0 then [] else [of_nat n])"

lemma holdings_no_payload:
  "archive_payload a = None \<Longrightarrow> holdings (a\<lparr>payload_size := n\<rparr>) = holdings a"
  "archive_payload a = None \<Longrightarrow> holdings (a\<lparr>payload_size := n, archive_payload := None\<rparr>) = holdings a"
  "archive_payload a = None \<Longrightarrow> holdings (a\<lparr>payload_size := n, archive_payload := Some bytes\<rparr>) = holdings a @ [n]"
  by (simp_all add: holdings_def cong: option.case_cong)

lemma decides_open_payload:
  assumes sound: "sound_opening amount count s" and empty: "archive_payload (archive s) = None"
    and blocks: "block_rows (archive s) = blocks" "length blocks < 2 ^ 31"
    and region: "start \<le> ends" "ends \<le> size_max"
  shows "decides (sound_opening amount count) (open_payload grants dirt (of_nat start) (of_nat ends)) s
    (packed_total blocks = ends - start \<and> granted grants (allocator_calls (heap s)) (payload_request (unpacked_total blocks))) ()
    (s\<lparr>heap := booked (heap s) (payload_request (unpacked_total blocks)) (length (payload_request (unpacked_total blocks))),
       archive := (archive s)\<lparr>payload_size := of_nat (unpacked_total blocks), archive_payload :=
         (if unpacked_total blocks = 0 then None else Some (fresh dirt (unpacked_total blocks)))\<rparr>\<rparr>)"
    (is "decides _ _ s ?C () ?t")
proof -
  let ?n = "unpacked_total blocks" and ?c = "packed_total blocks"
  have bounds: "?n < 2 ^ 64" "?c < 2 ^ 64"
    using total_bounds [of blocks] blocks(2) by simp_all
  have totals: "block_totals blocks 0 0 = Some (of_nat ?n, of_nat ?c)"
    using block_totals_value [of 0 blocks 0] bounds by simp
  have word: "unat (of_nat ?n :: u64) = ?n" "unat (of_nat ?c :: u64) = ?c"
    using bounds by (simp_all add: unat_of_nat)
  have gap: "(of_nat ?c :: u64) = of_nat ends - of_nat start \<longleftrightarrow> ?c = ends - start"
  proof -
    have "(of_nat ends - of_nat start :: u64) = of_nat (ends - start)" using region(1) by simp
    moreover have "unat (of_nat (ends - start) :: u64) = ends - start"
      using less_imp_diff_less [of ends "2 ^ 64" start] region(2) by (simp add: unat_of_nat del: of_nat_diff)
    ultimately show ?thesis by (simp only: word_eq_nat word)
  qed
  have positive: "(of_nat ?n :: u64) > 0 \<longleftrightarrow> ?n \<noteq> 0" by (simp add: word_less_nat_alt word)
  have small: "\<not> (of_nat ?n :: u64) > SIZE_MAX" using bounds(1) by (simp add: word_less_nat_alt word)
  let ?u = "s\<lparr>archive := (archive s)\<lparr>payload_size := of_nat ?n\<rparr>\<rparr>"
  have u: "sound_opening amount count ?u" using sound empty by (simp add: sound_opening_def holdings_no_payload)
  show ?thesis
    unfolding open_payload_def
  proof (rule decides_with, unfold blocks(1) totals option.case prod.case, rule decides_must_then, goal_cases)
    case 3
    show ?case
    proof (rule decides_must_then, goal_cases)
      case 3
      then have covered: "?c = ends - start" using gap by simp
      show ?case
      proof (cases "?n = 0")
        case True
        then show ?thesis
          using covered by (auto intro!: decides_store decides_weaken [OF decides_on_archive] simp: payload_request_def)
      next
        case False
        then have more_than: "(of_nat ?n :: u64) > 0" using positive by simp
        show ?thesis
          unfolding if_P [OF more_than]
          by (rule decides_store, rule decides_then [OF decides_take_memory [OF more_than u]])
            (use False covered in \<open>auto intro!: decides_weaken [OF decides_on_archive] simp: payload_request_def word\<close>)
      qed
    qed (use sound gap in auto)
  qed (use sound small in auto)
qed

text \<open>The payload while its blocks are decoded one behind the other.\<close>

definition payload_of_size :: "nat \<Rightarrow> BundleArchive \<Rightarrow> bool" where
  "payload_of_size n a \<longleftrightarrow> n < 2 ^ 64 \<and> payload_size a = of_nat n \<and>
     (case archive_payload a of None \<Rightarrow> n = 0 | Some bytes \<Rightarrow> length bytes = n)"

lemma decode_all_length: "decode_all lzma bs bytes = Some out \<Longrightarrow> length out = unpacked_total bs"
  by (induction bs arbitrary: bytes out) (auto simp: decoded_iff decodes_length split: if_splits option.splits)

lemma decides_decode_blocks:
  assumes lzma: "lzma_bounded lzma" and data: "length data \<le> size_max"
    and "sound_opening amount count s" and "payload_of_size whole (archive s)"
    and "pos + packed_total bs \<le> ends" "ends \<le> length data" "off + unpacked_total bs \<le> whole"
  defines "out \<equiv> decode_all lzma bs (take (packed_total bs) (drop pos data))"
  shows "decides (sound_opening amount count) (decode_blocks lzma data (of_nat ends) bs (of_nat pos) (of_nat off)) s
    (out \<noteq> None) (of_nat (pos + packed_total bs), of_nat (off + unpacked_total bs))
    (s\<lparr>archive := (archive s)\<lparr>archive_payload :=
       map_option (\<lambda>old. take off old @ the out @ drop (off + unpacked_total bs) old) (archive_payload (archive s))\<rparr>\<rparr>)"
  using assms(3-7) unfolding out_def
proof (induction bs arbitrary: s pos off)
  case Nil
  have "map_option (\<lambda>old. take off old @ drop off old) (archive_payload (archive s)) = archive_payload (archive s)"
    by (simp add: option.map_ident)
  then show ?case by (cases s) (simp add: decides_def step_return_def)
next
  case (Cons b bs)
  let ?u = "unat (block_decompressed_size b)" and ?n = "unat (block_compressed_size b)"
  let ?whole = "archive_payload (archive s)"
  have word: "unat (of_nat pos :: u64) = pos" "unat (of_nat off :: u64) = off"
    "unat (of_nat ends :: u64) = ends" "unat (payload_size (archive s)) = whole"
    using Cons.prems data by (simp_all add: unat_of_nat payload_of_size_def)
  have guard: "\<not> (of_nat pos > (of_nat ends :: u64) \<or> ucast (block_compressed_size b) > (of_nat ends - of_nat pos :: u64) \<or>
      of_nat off > payload_size (archive s) \<or> ucast (block_decompressed_size b) > payload_size (archive s) - of_nat off)"
    using Cons.prems(3,5) by (auto simp: word_less_nat_alt unat_sub_if_size word unat_widen)
  let ?codec = "ucast (block_flags b) AND UNITYFS_COMPRESSION_MASK :: u32"
  let ?first = "decoded lzma ?codec (chunk_at data pos (block_compressed_size b)) ?u"
  let ?bytes = "take (packed_total (b # bs)) (drop pos data)"
  let ?rest = "decode_all lzma bs (take (packed_total bs) (drop (pos + ?n) data))"
  have step: "decode_all lzma (b # bs) ?bytes =
      (case ?first of None \<Rightarrow> None | Some out \<Rightarrow> map_option ((@) out) ?rest)"
  proof -
    have "take ?n ?bytes = chunk_at data pos (block_compressed_size b)" by (simp add: chunk_at_def min_def)
    moreover have "drop ?n ?bytes = take (packed_total bs) (drop (pos + ?n) data)"
      by (simp add: drop_take add.commute)
    moreover have "\<not> length ?bytes < ?n" using Cons.prems(3,4) by simp
    ultimately show ?thesis by (simp only: decode_all.simps if_False)
  qed
  let ?dst = "map_option (drop (unat (of_nat off :: u64))) ?whole"
  have room: "case ?dst of None \<Rightarrow> ?u = 0 | Some to \<Rightarrow> ?u \<le> length to"
    using Cons.prems(2,5) by (auto simp: payload_of_size_def word split: option.splits)
  have chunk: "decides (sound_opening amount count)
      (decompress_chunk lzma data ?codec (of_nat pos) (block_compressed_size b) ?dst (block_decompressed_size b)) s
      (?first \<noteq> None) (map_option (\<lambda>to. the ?first @ drop ?u to) ?dst) s"
    using Cons.prems(1,3,4) room by (intro decides_chunk [OF lzma]) (simp_all add: word)
  let ?fill = "\<lambda>old. take off old @ the ?first @ drop (off + ?u) old"
  let ?v = "s\<lparr>archive := (archive s)\<lparr>archive_payload := map_option ?fill ?whole\<rparr>\<rparr>"
  have stored: "decides (sound_opening amount count)
      (step_with (\<lambda>s. archive_payload (archive s)) (\<lambda>whole.
       step_then (decompress_chunk lzma data ?codec (of_nat pos) (block_compressed_size b)
           (map_option (drop (unat (of_nat off :: u64))) whole) (block_decompressed_size b)) (\<lambda>written.
       on_archive (\<lambda>a. a\<lparr>archive_payload :=
           (case (whole, written) of (Some bytes, Some behind) \<Rightarrow> Some (take (unat (of_nat off :: u64)) bytes @ behind) | _ \<Rightarrow> whole)\<rparr>))))
      s (?first \<noteq> None) () ?v"
  proof (rule decides_with, rule decides_then [OF chunk], goal_cases)
    case 2
    then show ?case
      by (intro decides_weaken [OF decides_on_archive])
        (cases ?whole; simp add: word(2) add.commute)+
  qed simp
  show ?case
    unfolding decode_blocks.simps
  proof (rule decides_must_then, goal_cases)
    case 1
    then show ?case using guard by simp
  next
    case 2
    show ?case by (rule Cons.prems(1))
  next
    case 3
    show ?case
    proof (rule decides_then [OF stored], goal_cases)
      case 1
      then show ?case unfolding step by simp
    next
      case 2
      then have out_len: "length (the ?first) = ?u" by (rule decodes_length [OF decoded_the])
      have v: "sound_opening amount count ?v"
        using Cons.prems(1) by (cases ?whole) (simp_all add: sound_opening_def holdings_def cong: option.case_cong)
      have size: "payload_of_size whole (archive ?v)"
        using Cons.prems(2,5) out_len by (auto simp: payload_of_size_def split: option.splits)
      have places: "of_nat pos + ucast (block_compressed_size b) = (of_nat (pos + ?n) :: u64)"
        "of_nat off + ucast (block_decompressed_size b) = (of_nat (off + ?u) :: u64)"
        by (simp_all add: unat_widen)
      have joined: "take (off + ?u) (?fill old) @ tail @ drop (off + ?u + unpacked_total bs) (?fill old) =
          take off old @ (the ?first @ tail) @ drop (off + unpacked_total (b # bs)) old" if "length old = whole" for old tail
        using that Cons.prems(5) out_len by (simp add: ac_simps)
      show ?case
        unfolding places
      proof (rule decides_weaken [OF Cons.IH [OF v size]], goal_cases)
        case 4
        then show ?case unfolding step using 2 by (auto simp del: not_None_eq)
      next
        case 5
        then obtain tail where tail: "?rest = Some tail" by auto
        show ?case
          unfolding step using 2 tail joined Cons.prems(2)
          by (cases ?whole) (auto simp: payload_of_size_def add.assoc)
      qed (use Cons.prems in simp_all)
    qed
  qed
qed

section \<open>The whole opening\<close>

lemma decode_all_covers: "decode_all lzma bs bytes = Some out \<Longrightarrow> length bytes = packed_total bs"
  by (induction bs arbitrary: bytes out) (auto split: if_splits option.splits, fastforce)

definition head_front :: "u8 list \<Rightarrow> bool" where
  "head_front data \<longleftrightarrow>
     0 \<in> set data \<and> front_text data = UNITYFS_SIGNATURE \<and> dialect_front (drop 8 data) \<and> header_front data"

lemma front_text_iff: "0 \<in> set bs \<and> front_text bs = t \<longleftrightarrow> (\<exists>rest. bs = text_field t @ rest \<and> 0 \<notin> set t)"
  using text_front [of bs t] by (auto simp: front_text_def)

lemma be_front_iff: "n \<le> length bs \<and> be_number (take n bs) = v \<longleftrightarrow> (\<exists>rest. bs = be_bytes n v @ rest \<and> v < 256 ^ n)"
  using be_front [of bs n v] by auto

lemma be_field_of: "n \<le> length bs \<Longrightarrow> bs = be_bytes n (be_number (take n bs)) @ drop n bs"
  using be_take [of n bs] by simp

lemma text_field_of: "0 \<in> set bs \<Longrightarrow> front_text bs = t \<Longrightarrow> bs = text_field t @ drop (Suc (length t)) bs"
  using text_front [of bs t "drop (Suc (length t)) bs"] by (auto simp: front_text_def)

lemma front_text_field [simp]: "0 \<notin> set t \<Longrightarrow> front_text (text_field t @ rest) = t"
  using text_front [of "text_field t @ rest" t rest] by (simp add: front_text_def)

lemma text_field_zero [simp]: "0 \<in> set (text_field t)"
  by (simp add: text_field_def)

lemma head_layout:
  assumes "data = unityfs_head n packed unpacked flags @ rest" and "n < 256 ^ 8"
  shows "0 \<in> set data" "front_text data = UNITYFS_SIGNATURE" "dialect_front (drop 8 data)"
    "be_number (take 8 (drop 30 data)) = n"
  using assms(2) by (simp_all add: assms(1) unityfs_head_def dialect_front_def)

lemma head_front_iff:
  "head_front data \<longleftrightarrow>
     64 \<le> length data \<and> length data < 2 ^ 64 \<and>
     take 50 data = unityfs_head (length data) (packed_of data) (unpacked_of data) (flags_of data) \<and>
     archive_flags_known (flags_of data) \<and> packed_of data \<noteq> 0 \<and> 20 \<le> unpacked_of data"
proof
  assume head: "head_front data"
  then have len: "64 \<le> length data" and whole: "be_number (take 8 (drop 30 data)) = length data"
    by (auto simp: head_front_def header_front_def)
  have fields: "unat (packed_of data) = be_number (take 4 (drop 38 data))" "unat (unpacked_of data) = be_number (take 4 (drop 42 data))"
    "unat (flags_of data) = be_number (take 4 (drop 46 data))"
    using len by (simp_all add: packed_of_def unpacked_of_def flags_of_def word_field)
  have "data = text_field UNITYFS_SIGNATURE @ drop 8 data"
    using text_field_of [of data] head by (simp add: head_front_def)
  moreover have "drop 8 data = be_bytes 4 8 @ drop 12 data"
    using be_field_of [of 4 "drop 8 data"] head by (simp add: head_front_def dialect_front_def)
  moreover have "drop 12 data = text_field UNITYFS_SUPPORTED_GENERATION @ drop 18 data"
    using text_field_of [of "drop 12 data"] head by (simp add: head_front_def dialect_front_def)
  moreover have "drop 18 data = text_field UNITYFS_SUPPORTED_ENGINE_VERSION @ drop 30 data"
    using text_field_of [of "drop 18 data"] head by (simp add: head_front_def dialect_front_def)
  moreover have "drop 30 data = be_bytes 8 (length data) @ drop 38 data"
    using be_field_of [of 8 "drop 30 data"] len whole by simp
  moreover have "drop 38 data = be_bytes 4 (unat (packed_of data)) @ drop 42 data"
    "drop 42 data = be_bytes 4 (unat (unpacked_of data)) @ drop 46 data"
    "drop 46 data = be_bytes 4 (unat (flags_of data)) @ drop 50 data"
    using be_field_of [of 4 "drop 38 data"] be_field_of [of 4 "drop 42 data"] be_field_of [of 4 "drop 46 data"] len fields
    by simp_all
  ultimately have "data = unityfs_head (length data) (packed_of data) (unpacked_of data) (flags_of data) @ drop 50 data"
    unfolding unityfs_head_def append_assoc by metis
  then have "take 50 data = unityfs_head (length data) (packed_of data) (unpacked_of data) (flags_of data)"
    by (metis append_eq_conv_conj head_length)
  moreover have "length data < 2 ^ 64"
    using be_number_bound [of "take 8 (drop 30 data)"] whole len by simp
  ultimately show "64 \<le> length data \<and> length data < 2 ^ 64 \<and>
     take 50 data = unityfs_head (length data) (packed_of data) (unpacked_of data) (flags_of data) \<and>
     archive_flags_known (flags_of data) \<and> packed_of data \<noteq> 0 \<and> 20 \<le> unpacked_of data"
    using head len by (simp add: head_front_def header_front_def)
next
  assume right: "64 \<le> length data \<and> length data < 2 ^ 64 \<and>
     take 50 data = unityfs_head (length data) (packed_of data) (unpacked_of data) (flags_of data) \<and>
     archive_flags_known (flags_of data) \<and> packed_of data \<noteq> 0 \<and> 20 \<le> unpacked_of data"
  define rest where "rest = drop 50 data"
  have data: "data = unityfs_head (length data) (packed_of data) (unpacked_of data) (flags_of data) @ rest"
    unfolding rest_def using right append_take_drop_id [of 50 data] by metis
  have small: "length data < 256 ^ 8" using right by simp
  note fronts = head_layout [OF data small]
  then show "head_front data"
    using right by (simp add: head_front_def header_front_def)
qed

text \<open>The parser, stage by stage as the code goes through the file.\<close>

definition regions_fit :: "u8 list \<Rightarrow> bool" where
  "regions_fit data \<longleftrightarrow>
     64 + unat (packed_of data) \<le> length data \<and>
     data_start data (packed_of data) (flags_of data) \<le> data_end data (packed_of data) (flags_of data)"

definition file_info :: "lzma_decoder \<Rightarrow> u8 list \<Rightarrow> u8 list option" where
  "file_info lzma data =
     info_of lzma data (info_start data (packed_of data) (flags_of data)) (packed_of data) (unpacked_of data) (flags_of data)"

definition file_tables :: "lzma_decoder \<Rightarrow> u8 list \<Rightarrow> (BundleBlockInfo list \<times> BundleDirectoryInfo list) option" where
  "file_tables lzma data = (case file_info lzma data of None \<Rightarrow> None | Some raw \<Rightarrow> parse_info raw)"

definition file_chunks :: "u8 list \<Rightarrow> u8 list" where
  "file_chunks data =
     take (data_end data (packed_of data) (flags_of data) - data_start data (packed_of data) (flags_of data))
       (drop (data_start data (packed_of data) (flags_of data)) data)"

lemma parse_stages:
  assumes "length data \<le> size_max"
  shows "unityfs_parse lzma data =
    (if head_front data \<and> regions_fit data then
       (case file_tables lzma data of None \<Rightarrow> None
        | Some (blocks, nodes) \<Rightarrow>
            (case decode_all lzma blocks (file_chunks data) of None \<Rightarrow> None
             | Some payload \<Rightarrow>
                 if list_all (node_inside (length payload)) nodes
                 then Some \<lparr>u_packed = packed_of data, u_unpacked = unpacked_of data, u_flags = flags_of data,
                            u_blocks = blocks, u_nodes = nodes, u_payload = payload\<rparr>
                 else None))
     else None)"
proof (cases "head_front data")
  case False
  then show ?thesis
    using assms unfolding unityfs_parse_def Let_def
    by (auto simp: head_front_iff packed_of_def unpacked_of_def flags_of_def not_le)
next
  case True
  let ?n = "unat (packed_of data)" and ?f = "flags_of data" and ?body = "drop 64 data"
  let ?gap = "gap_length (packed_of data) ?f"
  have len: "64 \<le> length data" using True by (simp add: head_front_iff)
  have no_gap: "info_at_end ?f \<Longrightarrow> ?gap = 0" by (simp add: gap_length_def)
  have fit: "\<not> length ?body < ?n + ?gap \<longleftrightarrow> regions_fit data"
    using len no_gap by (auto simp: regions_fit_def data_start_def data_end_def)
  have info: "(if info_at_end ?f then drop (length ?body - ?n) ?body else take ?n ?body) =
      chunk_at data (info_start data (packed_of data) ?f) (packed_of data)" if "regions_fit data"
    using that len by (auto simp: regions_fit_def chunk_at_def info_start_def add.commute)
  have chunks: "(if info_at_end ?f then take (length ?body - ?n) ?body else drop (?n + ?gap) ?body) = file_chunks data"
    if "regions_fit data"
    using that len by (auto simp: regions_fit_def file_chunks_def data_start_def data_end_def ac_simps)
  have head: "\<not> (length data < 64 \<or> take 50 data \<noteq> unityfs_head (length data) (packed_of data) (unpacked_of data) ?f \<or>
      \<not> archive_flags_known ?f \<or> packed_of data = 0 \<or> unpacked_of data < 20 \<or> length ?body < ?n + ?gap) \<longleftrightarrow> regions_fit data"
    using True fit unfolding head_front_iff by auto
  note unfolded = unityfs_parse_def [of lzma data, unfolded Let_def, folded packed_of_def unpacked_of_def flags_of_def]
  show ?thesis
  proof (cases "regions_fit data")
    case fits: True
    have "unityfs_parse lzma data = (case file_info lzma data of None \<Rightarrow> None
        | Some raw \<Rightarrow> (case parse_info raw of None \<Rightarrow> None
          | Some (blocks, nodes) \<Rightarrow> (case decode_all lzma blocks (file_chunks data) of None \<Rightarrow> None
             | Some payload \<Rightarrow>
                 if list_all (node_inside (length payload)) nodes
                 then Some \<lparr>u_packed = packed_of data, u_unpacked = unpacked_of data, u_flags = flags_of data,
                            u_blocks = blocks, u_nodes = nodes, u_payload = payload\<rparr>
                 else None)))"
      unfolding unfolded info [OF fits] chunks [OF fits] file_info_def info_of_def
      by (rule if_not_P) (use head fits in blast)
    then show ?thesis using True fits by (auto simp: file_tables_def split: option.split)
  next
    case False
    then have "unityfs_parse lzma data = None"
      unfolding unfolded by (intro if_P) (use head in blast)
    then show ?thesis using False by simp
  qed
qed

text \<open>The archive and the requests that a parsed file stands for.\<close>

definition opened_archive :: "u8 list \<Rightarrow> unityfs \<Rightarrow> BundleArchive" where
  "opened_archive data u =
     \<lparr>signature = Some (text_cells UNITYFS_SIGNATURE), archive_version = 8,
      generation_version = Some (text_cells UNITYFS_SUPPORTED_GENERATION),
      engine_version = Some (text_cells UNITYFS_SUPPORTED_ENGINE_VERSION),
      total_file_size = of_nat (length data), compressed_info_size = u_packed u,
      decompressed_info_size = u_unpacked u, archive_flags = u_flags u,
      block_count = int (length (u_blocks u)),
      archive_blocks = (if u_blocks u = [] then None else Some (u_blocks u)),
      directory_count = int (length (u_nodes u)),
      archive_directories = (if u_nodes u = [] then None else Some (u_nodes u)),
      archive_payload = (if u_payload u = [] then None else Some (u_payload u)),
      payload_size = of_nat (length (u_payload u))\<rparr>"

definition kept_requests :: "unityfs \<Rightarrow> u64 list" where
  "kept_requests u = table_request (u_blocks u) (u_nodes u) @ payload_request (length (u_payload u))"

lemma range_inside_iff:
  assumes "payload_size a = of_nat n" and "n < 2 ^ 64"
  shows "range_inside_payload a d \<longleftrightarrow> node_inside n d"
proof -
  have "unat (payload_size a) = n" using assms by (simp add: unat_of_nat)
  then show ?thesis
    by (auto simp: range_inside_payload_def node_inside_def word_less_nat_alt unat_sub_if_size)
qed

lemma sound_with_dialect:
  assumes "sound_opening amount count s" "generation_version (archive s) = None" "engine_version (archive s) = None"
  shows "sound_opening amount count (s\<lparr>archive := with_dialect (archive s), stream := i, heap := booked (heap s) [6, 12] 2\<rparr>)"
  using assms by (simp add: sound_opening_def with_dialect_def holdings_def held_text_def cong: option.case_cong)

lemma holdings_with_header [simp]: "holdings (with_header data a) = holdings a"
  by (simp add: with_header_def)

lemma sound_tables:
  assumes "sound_opening amount count s" "archive_blocks (archive s) = None" "archive_directories (archive s) = None"
    and "list_all node_named nodes"
  shows "sound_opening amount count (s\<lparr>info_stream := i, heap := booked (heap s) (table_request blocks nodes) k,
      archive := with_nodes nodes (with_blocks blocks (archive s))\<rparr>)"
proof -
  have "archive_directories (with_blocks blocks (archive s)) = None" using assms(3) by simp
  note holdings_with_nodes [OF this assms(4)]
  then show ?thesis
    using assms by (simp add: sound_opening_def holdings_with_blocks table_request_def add.assoc)
qed

lemma sound_payload:
  assumes "sound_opening amount count s" "archive_payload (archive s) = None"
  shows "sound_opening amount count (s\<lparr>heap := booked (heap s) (payload_request n) k,
      archive := (archive s)\<lparr>payload_size := of_nat n,
        archive_payload := (if n = 0 then None else Some bytes)\<rparr>\<rparr>)"
  using assms by (simp add: sound_opening_def holdings_no_payload payload_request_def)

lemma rows_of_tables [simp]:
  "block_rows (with_nodes nodes (with_blocks blocks a)) = blocks"
  "directory_rows (with_nodes nodes (with_blocks blocks a)) = nodes"
  by (simp_all add: block_rows_def directory_rows_def with_blocks_def with_nodes_def)

lemma tables_bound:
  assumes "file_tables lzma data = Some (blocks, nodes)"
  shows "length blocks < 2 ^ 31" "list_all node_named nodes"
proof -
  obtain raw where raw: "file_info lzma data = Some raw" "parse_info raw = Some (blocks, nodes)"
    using assms by (auto simp: file_tables_def split: option.splits)
  then have "decodes lzma (flags_of data AND UNITYFS_COMPRESSION_MASK)
      (chunk_at data (info_start data (packed_of data) (flags_of data)) (packed_of data)) (unat (unpacked_of data)) raw"
    by (simp add: file_info_def info_of_def decoded_iff)
  then have small: "length raw < 2 ^ 32" by (rule raw_bound)
  then obtain hash where "raw = info_bytes hash blocks nodes" and named: "list_all node_named nodes"
    using raw(2) parse_info_iff by blast
  then have "10 * length blocks \<le> length raw"
    using rows_length [of 10 block_bytes blocks] by (simp add: info_bytes_def block_bytes_def list_all_iff)
  then show "length blocks < 2 ^ 31" using small by simp
  show "list_all node_named nodes" by (rule named)
qed

end
