(* ===== verification/BundleOpen.thy ===== *)
theory BundleOpen
  imports BundlePayload
begin

text \<open>
  \<open>bundle_open\<close> as a whole: the stages joined, and the theorems about opening and closing.
\<close>

lemma decides_open_body:
  assumes lzma: "lzma_bounded lzma" and size: "length data \<le> size_max"
    and sound: "sound_opening amount count s" and zero: "0 \<in> set data"
    and a: "archive s = zero_archive\<lparr>signature := Some (text_cells (front_text data))\<rparr>"
    and at: "stream s = cursor data (drop (Suc (length (front_text data))) data)"
  defines "u \<equiv> the (unityfs_parse lzma data)"
  shows "decides (sound_opening amount count) (open_body grants host dirt lzma data (of_nat (length data))) s
    (unityfs_parse lzma data \<noteq> None \<and>
     granted grants (allocator_calls (heap s)) (6 # 12 # ucast (u_unpacked u) # kept_requests u)) ()
    (s\<lparr>archive := opened_archive data u, stream := cursor data (drop 64 data),
       info_stream := cursor (the (file_info lzma data)) [],
       heap := booked (heap s) (6 # 12 # kept_requests u) (3 + length (kept_requests u))\<rparr>)"
    (is "decides _ _ s ?C () ?t")
proof -
  let ?sound = "sound_opening amount count"
  note stages = parse_stages [OF size, of lzma]
  let ?packed = "packed_of data" and ?flags = "flags_of data"
  let ?start = "data_start data ?packed ?flags" and ?ends = "data_end data ?packed ?flags"
  let ?from = "info_start data ?packed ?flags"
  let ?bs = "drop (Suc (length (front_text data))) data"
  have bs: "readable data ?bs" using size by simp
  have empty: "generation_version (archive s) = None" "engine_version (archive s) = None"
    "signature (archive s) = Some (text_cells (front_text data))" "0 \<notin> set (front_text data)"
    by (simp_all add: a zero_archive_def)
  note step1 = decides_dialect [OF sound bs at empty, of grants host]
  let ?s1 = "s\<lparr>archive := with_dialect (archive s), stream := cursor data (drop 22 ?bs), heap := booked (heap s) [6, 12] 2\<rparr>"
  let ?s2 = "?s1\<lparr>archive := with_header data (archive ?s1), stream := cursor data (drop 64 data)\<rparr>"
  have sound2: "?sound ?s2" using sound_with_dialect [OF sound empty(1,2)] by (simp add: sound_opening_def)
  have s2: "stream ?s2 = cursor data (drop 64 data)" "total_file_size (archive ?s2) = of_nat (length data)"
    "archive_blocks (archive ?s2) = None" "archive_directories (archive ?s2) = None"
    "compressed_info_size (archive ?s2) = ?packed" "archive_flags (archive ?s2) = ?flags"
    "decompressed_info_size (archive ?s2) = unpacked_of data"
    by (simp_all add: with_dialect_def with_header_def a zero_archive_def)
  show ?thesis
    unfolding open_body_def
  proof (rule decides_then [OF step1], goal_cases)
    case 1
    then show ?case unfolding stages by (auto simp: head_front_def)
  next
    case 2
    then have d1: "front_text data = UNITYFS_SIGNATURE" "dialect_front (drop 8 data)"
      "granted grants (allocator_calls (heap s)) [6, 12]" by auto
    have "drop 18 data = text_field UNITYFS_SUPPORTED_ENGINE_VERSION @ drop 12 (drop 18 data)"
      using text_field_of [of "drop 18 data" UNITYFS_SUPPORTED_ENGINE_VERSION] d1(2) by (simp add: dialect_front_def)
    then have "length (drop 18 data) = length (text_field UNITYFS_SUPPORTED_ENGINE_VERSION @ drop 12 (drop 18 data))"
      by (rule arg_cong)
    then have thirty: "30 \<le> length data" by simp
    have at1: "stream ?s1 = cursor data (drop 30 data)" using d1(1) by simp
    have sound1: "?sound ?s1" by (rule sound_with_dialect [OF sound empty(1,2)])
    note step2 = decides_header [OF sound1 size thirty at1, of host]
    show ?case
    proof (rule decides_then [OF step2], goal_cases)
      case 1
      then show ?case unfolding stages by (auto simp: head_front_def)
    next
      case 2
      then have head: "head_front data" and long: "64 \<le> length data" and unpacked: "20 \<le> unpacked_of data"
        using d1 zero by (simp_all add: head_front_def header_front_def)
      note step3 = decides_locate_info [OF sound2 size long s2(1,2), unfolded s2]
      show ?case
      proof (rule decides_then [OF step3], goal_cases)
        case 1
        then show ?case unfolding stages by (auto simp: regions_fit_def)
      next
        case 2
        then have inside: "?from + unat ?packed \<le> length data" and fits: "64 + unat ?packed \<le> length data"
          by (auto simp: info_start_def)
        have origin: "unat (of_nat ?from :: u64) = ?from" using inside size by (simp add: unat_of_nat)
        note step4 = decides_open_info [OF sound2 lzma origin, unfolded s2, OF inside refl refl unpacked, of grants host dirt,
            folded file_info_def]
        show ?case
        proof (cases "file_tables lzma data")
          case None
          then have "file_info lzma data \<noteq> None \<Longrightarrow> parse_info (the (file_info lzma data)) = None"
            by (auto simp: file_tables_def)
          then show ?thesis
            using None by (intro decides_then [OF step4]) (auto simp: stages)
        next
          case (Some tables)
          then obtain blocks nodes where tables: "file_tables lzma data = Some (blocks, nodes)" by (cases tables) auto
          then have info: "file_info lzma data \<noteq> None" "parse_info (the (file_info lzma data)) = Some (blocks, nodes)"
            by (auto simp: file_tables_def split: option.splits)
          note bound = tables_bound [OF tables]
          note step4 = step4 [unfolded info(2) option.sel fst_conv snd_conv]
          let ?s4 = "?s2\<lparr>info_stream := cursor (the (file_info lzma data)) [],
            heap := booked (heap ?s2) (table_request blocks nodes) (Suc (length (table_request blocks nodes))),
            archive := with_nodes nodes (with_blocks blocks (archive ?s2))\<rparr>"
          show ?thesis
          proof (rule decides_then [OF step4], goal_cases)
            case 1
            then show ?case
              using info by (auto simp: stages u_def tables kept_requests_def split: option.splits if_splits)
          next
            case 2
            note d4 = 2
            have s4: "stream ?s4 = cursor data (drop 64 data)" "total_file_size (archive ?s4) = of_nat (length data)"
              "compressed_info_size (archive ?s4) = ?packed" "archive_flags (archive ?s4) = ?flags"
              "archive_payload (archive ?s4) = None" "block_rows (archive ?s4) = blocks"
              using s2 by (simp_all add: with_nodes_def a zero_archive_def with_dialect_def with_header_def)
                (simp add: block_rows_def with_blocks_def)
            have sound4: "?sound ?s4" by (rule sound_tables [OF sound2 s2(3,4) bound(2)])
            note step5 = decides_locate_data [OF sound4 size _ s4(1,2), unfolded s4, OF fits]
            show ?case
            proof (rule decides_then [OF step5], goal_cases)
              case 1
              then show ?case unfolding stages by (auto simp: regions_fit_def)
            next
              case 2
              then have regions: "regions_fit data" using fits by (simp add: regions_fit_def)
              have ends: "?ends \<le> length data" by (simp add: data_end_def)
              then have ends_fit: "?ends \<le> size_max" using size by simp
              let ?n = "unpacked_total blocks"
              note step6 = decides_open_payload [OF sound4 s4(5,6) bound(1) 2 ends_fit, of grants dirt]
              let ?s6 = "?s4\<lparr>heap := booked (heap ?s4) (payload_request ?n) (length (payload_request ?n)),
                archive := (archive ?s4)\<lparr>payload_size := of_nat ?n,
                  archive_payload := (if ?n = 0 then None else Some (fresh dirt ?n))\<rparr>\<rparr>"
              have parse: "unityfs_parse lzma data = (case decode_all lzma blocks (file_chunks data) of None \<Rightarrow> None
                 | Some payload \<Rightarrow>
                     if list_all (node_inside (length payload)) nodes
                     then Some \<lparr>u_packed = ?packed, u_unpacked = unpacked_of data, u_flags = ?flags,
                                u_blocks = blocks, u_nodes = nodes, u_payload = payload\<rparr>
                     else None)"
                unfolding stages using head regions tables by simp
              have chunk_len: "length (file_chunks data) = ?ends - ?start"
                using ends 2 by (simp add: file_chunks_def)
              show ?case
                unfolding prod.case
              proof (rule decides_then [OF step6], goal_cases)
                case 1
                then show ?case
                  using chunk_len decode_all_covers [of lzma blocks "file_chunks data"] decode_all_length [of lzma blocks "file_chunks data"]
                  by (auto simp: parse u_def kept_requests_def split: option.splits if_splits)
              next
                case 2
                note d6 = 2
                then have covered: "packed_total blocks = ?ends - ?start" by simp
                then have to_end: "?start + packed_total blocks = ?ends" using regions by (simp add: regions_fit_def)
                have n: "?n < 2 ^ 64" using total_bounds(1) [of blocks] bound(1) by simp
                have size6: "payload_of_size ?n (archive ?s6)" using n by (simp add: payload_of_size_def fresh_def)
                have sound6: "?sound ?s6" by (rule sound_payload [OF sound4 s4(5)])
                have rows6: "block_rows (archive ?s6) = blocks" using s4(6) by (simp add: block_rows_def cong: option.case_cong)
                have chunks: "take (packed_total blocks) (drop ?start data) = file_chunks data"
                  by (simp add: file_chunks_def covered)
                have step7: "decides ?sound (decode_blocks lzma data (of_nat ?ends) blocks (of_nat ?start) 0) ?s6
                    (decode_all lzma blocks (file_chunks data) \<noteq> None) (of_nat ?ends, of_nat ?n)
                    (?s6\<lparr>archive := (archive ?s6)\<lparr>archive_payload := map_option (\<lambda>old.
                       take 0 old @ the (decode_all lzma blocks (file_chunks data)) @ drop (0 + ?n) old) (archive_payload (archive ?s6))\<rparr>\<rparr>)"
                  using decides_decode_blocks [OF lzma size sound6 size6 eq_imp_le [OF to_end] ends, of 0]
                  unfolding chunks to_end by simp
                let ?s7 = "?s6\<lparr>archive := (archive ?s6)\<lparr>archive_payload := map_option (\<lambda>old.
                       take 0 old @ the (decode_all lzma blocks (file_chunks data)) @ drop (0 + ?n) old) (archive_payload (archive ?s6))\<rparr>\<rparr>"
                have looped: "decides ?sound (step_with (\<lambda>s. block_rows (archive s))
                     (\<lambda>rows. decode_blocks lzma data (of_nat ?ends) rows (of_nat ?start) 0)) ?s6
                    (decode_all lzma blocks (file_chunks data) \<noteq> None) (of_nat ?ends, of_nat ?n) ?s7"
                  by (rule decides_with) (use step7 rows6 in \<open>simp only:\<close>)
                show ?case
                proof (rule decides_then [OF looped], goal_cases)
                  case 1
                  then show ?case unfolding parse by auto
                next
                  case 2
                  then obtain payload where payload: "decode_all lzma blocks (file_chunks data) = Some payload" by auto
                  then have pay_len: "length payload = ?n" by (rule decode_all_length)
                  have sound7: "?sound ?s7"
                    using sound6 by (auto simp: sound_opening_def holdings_def cong: option.case_cong)
                  have size7: "payload_size (archive ?s7) = of_nat ?n" "directory_rows (archive ?s7) = nodes"
                    using s2 by (simp_all add: directory_rows_def with_nodes_def)
                  have inside7: "list_all (range_inside_payload (archive ?s7)) nodes \<longleftrightarrow> list_all (node_inside ?n) nodes"
                    using range_inside_iff [OF size7(1) n] by (simp add: list_all_iff)
                  show ?case
                    unfolding prod.case
                  proof (rule decides_must_then, goal_cases)
                    case 3
                    show ?case
                    proof (rule decides_must_end, goal_cases)
                      case 1
                      then show ?case
                        unfolding size7(2) inside7 using d1(3) d4 d6 info pay_len
                        by (simp add: parse payload u_def kept_requests_def)
                    next
                      case 2
                      then show ?case by (rule sound7)
                    next
                      case 3
                      then have "unityfs_parse lzma data = Some \<lparr>u_packed = ?packed, u_unpacked = unpacked_of data,
                          u_flags = ?flags, u_blocks = blocks, u_nodes = nodes, u_payload = payload\<rparr>"
                        by (auto simp: parse payload split: if_splits)
                      then have u: "u = \<lparr>u_packed = ?packed, u_unpacked = unpacked_of data,
                          u_flags = ?flags, u_blocks = blocks, u_nodes = nodes, u_payload = payload\<rparr>"
                        by (simp add: u_def)
                      have "length (fresh dirt ?n) = ?n" by (simp add: fresh_def)
                      moreover have "payload = [] \<longleftrightarrow> ?n = 0" using pay_len by auto
                      ultimately show ?case
                        unfolding u opened_archive_def kept_requests_def
                        by (simp add: payload pay_len with_nodes_def with_blocks_def with_header_def with_dialect_def a
                            d1(1) zero_archive_def)
                    qed
                  qed (use sound7 size7(1) in simp_all)
                qed
              qed
            qed
          qed
        qed
      qed
    qed
  qed
qed

section \<open>Correctness\<close>

lemma parse_bound: "length data \<le> size_max \<Longrightarrow> unityfs_parse lzma data = Some u \<Longrightarrow> 0 \<in> set data \<and> front_text data = UNITYFS_SIGNATURE"
  using parse_stages [of data lzma] by (auto simp: head_front_def split: if_splits)

lemma empty_books: "holdings zero_archive = []"
  by (simp add: holdings_def zero_archive_def held_text_def)

lemma closed_books: "holdings (fst (bundle_close a t)) = []"
  by (simp add: bundle_close_def Let_def holdings_def held_text_def)

lemma holdings_signed: "holdings (zero_archive\<lparr>signature := Some cells\<rparr>) = [c_size cells]"
  by (simp add: holdings_def zero_archive_def held_text_def)

definition file_requests :: "unityfs \<Rightarrow> u64 list" where
  "file_requests u = [8, 6, 12, ucast (u_unpacked u)] @ kept_requests u"

text \<open>What \<open>bundle_open\<close> does with any bytes.\<close>

lemma bundle_open_outcome:
  assumes lzma: "lzma_bounded lzma" and size: "unat file_size = length data"
  shows "if unityfs_parse lzma data \<noteq> None \<and>
        granted grants (allocator_calls t) (file_requests (the (unityfs_parse lzma data)))
      then bundle_open grants host dirt lzma (Some before) (Some data) file_size t =
        (True, Some (opened_archive data (the (unityfs_parse lzma data))),
         booked t ([8, 6, 12] @ kept_requests (the (unityfs_parse lzma data)))
           (4 + length (kept_requests (the (unityfs_parse lzma data)))), False)
      else \<exists>a t'. bundle_open grants host dirt lzma (Some before) (Some data) file_size t = (False, Some a, t', False) \<and>
        holdings a = [] \<and> owed None 0 t' = owed None 0 t"
    (is "if ?C then ?yes else ?no")
proof -
  have len: "length data \<le> size_max" using size u64_bound [of file_size] by simp
  have word: "file_size = of_nat (length data)" by (simp flip: size)
  let ?p = "unityfs_parse lzma data" and ?init = "initial_opening data file_size t"
  have all: "readable data data" using len by simp
  have begun: "stream ?init = cursor data data"
    by (simp add: initial_opening_def stream_set_endian_def stream_init_def cursor_def word)
  note first = read_text_outcome [where get = stream and s = ?init and grants = grants and upd = stream_update, OF all begun]
  have sig_size: "text_size (front_text data) = 8" if "?p \<noteq> None"
    using parse_bound [OF len] that by auto
  show ?thesis
  proof (cases "0 \<in> set data \<and> grants (allocator_calls t) (text_size (front_text data))")
    case False
    then have "\<not> ?C" using parse_bound [OF len, of lzma] sig_size by (auto simp: file_requests_def)
    have "read_text grants stream stream_update ?init =
        (None, ?init\<lparr>stream := cursor data data, heap := if 0 \<in> set data then booked t [] 1 else t\<rparr>)"
      unfolding first using False by (simp add: initial_opening_def)
    then have ?no
      by (simp add: bundle_open_def) (simp add: initial_opening_def empty_books owed_def)
    then show ?thesis unfolding if_not_P [OF \<open>\<not> ?C\<close>] .
  next
    case True
    let ?sig = "text_cells (front_text data)"
    let ?s = "?init\<lparr>stream := cursor data (drop (Suc (length (front_text data))) data),
      heap := booked t [text_size (front_text data)] 1, archive := zero_archive\<lparr>signature := Some ?sig\<rparr>\<rparr>"
    have ran: "read_text grants stream stream_update ?init =
        (Some ?sig, ?init\<lparr>stream := cursor data (drop (Suc (length (front_text data))) data),
           heap := booked t [text_size (front_text data)] 1\<rparr>)"
      unfolding first using True by (simp add: initial_opening_def)
    have sound: "sound_opening (g_allocated_bytes t) (g_allocations_count t) ?s"
      by (simp add: sound_opening_def initial_opening_def holdings_signed)
    have body: "decides (sound_opening (g_allocated_bytes t) (g_allocations_count t))
      (open_body grants host dirt lzma data file_size) ?s ?C ()
      (?s\<lparr>archive := opened_archive data (the ?p), stream := cursor data (drop 64 data),
         info_stream := cursor (the (file_info lzma data)) [],
         heap := booked t ([8, 6, 12] @ kept_requests (the ?p)) (4 + length (kept_requests (the ?p)))\<rparr>)"
      by (rule decides_weaken [OF decides_open_body [OF lzma len sound, where grants = grants and host = host and dirt = dirt,
            folded word]])
        (use True sig_size in \<open>auto simp: file_requests_def simp del: not_None_eq\<close>)
    have opens: "bundle_open grants host dirt lzma (Some before) (Some data) file_size t =
        (case open_body grants host dirt lzma data file_size ?s of
           (None, s) \<Rightarrow> (let s = close_opening s in (False, Some (archive s), heap s, fault s))
         | (Some _, s) \<Rightarrow> (True, Some (archive s), heap s, fault s))"
      by (simp add: bundle_open_def ran) (simp add: initial_opening_def)
    show ?thesis
    proof (cases ?C)
      case True
      have ?yes
        unfolding opens decidesD(1) [OF body True] by (simp add: initial_opening_def)
      then show ?thesis unfolding if_P [OF True] .
    next
      case False
      obtain s' where failed: "open_body grants host dirt lzma data file_size ?s = (None, s')"
        and kept: "sound_opening (g_allocated_bytes t) (g_allocations_count t) s'"
        using decidesD(2) [OF body False] by blast
      obtain a t' where closed: "bundle_close (archive s') (heap s') = (a, t')" by (cases "bundle_close (archive s') (heap s')")
      then have "t' = released (heap s') (holdings (archive s'))" "holdings a = []"
        using bundle_close_released [of "archive s'" "heap s'"] closed_books [of "archive s'" "heap s'"] by simp_all
      then have ?no
        unfolding opens failed using kept closed
        by (simp add: close_opening_def sound_opening_def owed_def released_def)
      then show ?thesis unfolding if_not_P [OF False] .
    qed
  qed
qed

definition archive_cleared :: "BundleArchive \<Rightarrow> bool" where
  "archive_cleared a \<longleftrightarrow>
     signature a = None \<and> generation_version a = None \<and> engine_version a = None \<and> archive_blocks a = None \<and>
     archive_directories a = None \<and> archive_payload a = None"

lemma cleared_holdings: "holdings a = [] \<Longrightarrow> archive_cleared a"
  by (auto simp: archive_cleared_def holdings_def held_text_def split: option.splits)

lemma opened_holdings:
  assumes "list_all node_named (u_nodes u)"
  shows "sum_list (holdings (opened_archive data u)) = sum_list ([8, 6, 12] @ kept_requests u)"
    "length (holdings (opened_archive data u)) = length ([8, 6, 12] @ kept_requests u)"
proof -
  have "concat (map (\<lambda>d. held_text (node_name d)) ns) = map name_size ns" if "list_all node_named ns" for ns
    using that by (induction ns) (simp_all add: held_node)
  from this [OF assms] show "sum_list (holdings (opened_archive data u)) = sum_list ([8, 6, 12] @ kept_requests u)"
    "length (holdings (opened_archive data u)) = length ([8, 6, 12] @ kept_requests u)"
    by (simp_all add: holdings_def opened_archive_def held_text_def kept_requests_def table_request_def
        block_request_def node_request_def payload_request_def)
qed

text \<open>A file with one stored block of two bytes and one member, the serialized file \<open>A\<close>.\<close>

definition sample_bundle :: unityfs where
  "sample_bundle =
     \<lparr>u_packed = 56, u_unpacked = 56, u_flags = 0x40,
      u_blocks = [\<lparr>block_decompressed_size = 2, block_compressed_size = 2, block_flags = 0\<rparr>],
      u_nodes = [\<lparr>node_offset = 0, node_decompressed_size = 2, node_flags = 4, node_name = Some (text_cells [65])\<rparr>],
      u_payload = [7, 9]\<rparr>"

definition sample_info :: "u8 list" where
  "sample_info = info_bytes (replicate 16 0) (u_blocks sample_bundle) (u_nodes sample_bundle)"

definition sample_file :: "u8 list" where
  "sample_file = unityfs_head 122 56 56 0x40 @ replicate 14 0 @ sample_info @ [] @ [7, 9]"

definition no_lzma :: lzma_decoder where
  "no_lzma props input room =
     \<lparr>lzma_ok = False, lzma_output = [], lzma_consumed = 0, lzma_status = LZMA_STATUS_NOT_SPECIFIED\<rparr>"

lemma no_lzma_bounded: "lzma_bounded no_lzma"
  by (simp add: lzma_bounded_def no_lzma_def)

lemma sample_lengths: "length sample_info = 56" "length sample_file = 122"
proof -
  show "length sample_info = 56"
    by (simp add: sample_info_def info_bytes_def sample_bundle_def block_bytes_def node_bytes_def node_text_def)
  then show "length sample_file = 122" by (simp add: sample_file_def)
qed

lemma sample_is_file: "unityfs_file no_lzma sample_file sample_bundle"
proof (rule unityfs_fileI [where pad = "replicate 14 0" and info = sample_info and gap = "[]"
      and chunks = "[7, 9]" and raw = sample_info and hash = "replicate 16 0"])
  let ?b = "\<lparr>block_decompressed_size = 2, block_compressed_size = 2, block_flags = 0\<rparr>"
  have "data_chunks no_lzma [?b] ([7, 9] @ []) ([7, 9] @ [])"
    by (rule one_chunk) (simp_all add: decodes_def no_chunks)
  then show "data_chunks no_lzma (u_blocks sample_bundle) [7, 9] (u_payload sample_bundle)"
    by (simp add: sample_bundle_def)
  show "sample_file = unityfs_head (length sample_file) (u_packed sample_bundle) (u_unpacked sample_bundle)
      (u_flags sample_bundle) @ replicate 14 0 @
      (if info_at_end (u_flags sample_bundle) then [7, 9] @ sample_info else sample_info @ [] @ [7, 9])"
    unfolding sample_lengths by (simp add: sample_file_def sample_bundle_def info_at_end_def)
  show "list_all node_named (u_nodes sample_bundle)"
    by (auto simp: sample_bundle_def node_named_def intro!: exI [of _ "[65]"])
qed (simp_all add: sample_lengths decodes_def, simp_all add: sample_info_def sample_bundle_def gap_length_def
      archive_flags_known_def unityfs_compression_is_supported_def block_flags_known_def node_inside_def)

text \<open>
  Property C4. \<open>bundle_open\<close> succeeds exactly on the files of the UnityFS layout whose memory the
  allocator grants, and then leaves the archive that the file stands for, its payload the
  decoded chunks one behind the other; it never reads or writes outside a buffer.
\<close>

theorem bundle_open_exact:
  assumes "lzma_bounded lzma" and "unat file_size = length data"
  shows "case bundle_open grants host dirt lzma (Some before) (Some data) file_size t of (ok, arch, t', overrun) \<Rightarrow>
    \<not> overrun \<and>
    (if \<exists>u. unityfs_file lzma data u \<and> granted grants (allocator_calls t) (file_requests u)
     then ok \<and> (\<exists>u. unityfs_file lzma data u \<and> arch = Some (opened_archive data u))
     else \<not> ok)"
proof -
  note outcome = bundle_open_outcome [OF assms, of grants t host dirt before]
  show ?thesis
  proof (cases "\<exists>u. unityfs_file lzma data u \<and> granted grants (allocator_calls t) (file_requests u)")
    case True
    then obtain u where u: "unityfs_parse lzma data = Some u" "granted grants (allocator_calls t) (file_requests u)"
      by (auto simp: unityfs_parse_iff)
    then have "\<exists>u. unityfs_file lzma data u \<and> opened_archive data (the (unityfs_parse lzma data)) = opened_archive data u"
      by (auto simp flip: unityfs_parse_iff)
    then show ?thesis using outcome u True by simp
  next
    case False
    then have "\<not> (unityfs_parse lzma data \<noteq> None \<and>
        granted grants (allocator_calls t) (file_requests (the (unityfs_parse lzma data))))"
      by (auto simp flip: unityfs_parse_iff)
    then show ?thesis using outcome False by auto
  qed
qed

theorem bundle_open_exact_witness:
  "fst (bundle_open (\<lambda>_ _. True) False (\<lambda>_. 7) no_lzma (Some zero_archive) (Some sample_file) 122
     \<lparr>g_allocated_bytes = 0, g_allocations_count = 0, allocator_calls = 0\<rparr>)"
proof -
  have "granted (\<lambda>_ _. True) n ns" for n ns by (induction ns arbitrary: n) simp_all
  then have "\<exists>u. unityfs_file no_lzma sample_file u \<and> granted (\<lambda>_ _. True) 0 (file_requests u)"
    using sample_is_file by blast
  then show ?thesis
    using bundle_open_exact [OF no_lzma_bounded, where file_size = 122 and data = sample_file and grants = "\<lambda>_ _. True" and host = False and dirt = "\<lambda>_. 7"
        and before = zero_archive and t = "\<lparr>g_allocated_bytes = 0, g_allocations_count = 0, allocator_calls = 0\<rparr>"]
    by (simp add: sample_lengths split: prod.splits)
qed

text \<open>
  Property C19. Opening and closing balance the allocation counters on every path: an opening that
  fails has freed all that it took and leaves no pointer behind, and closing an archive that
  was opened restores the counters and clears its pointers.
\<close>

theorem bundle_open_balanced:
  assumes "lzma_bounded lzma" and "unat file_size = length data"
  shows "case bundle_open grants host dirt lzma (Some before) (Some data) file_size t of (ok, arch, t', overrun) \<Rightarrow>
    (case arch of
       None \<Rightarrow> False
     | Some a \<Rightarrow>
         if ok then owed None 0 (snd (bundle_close a t')) = owed None 0 t \<and> archive_cleared (fst (bundle_close a t'))
         else owed None 0 t' = owed None 0 t \<and> archive_cleared a)"
proof -
  note outcome = bundle_open_outcome [OF assms, of grants t host dirt before]
  show ?thesis
  proof (cases "unityfs_parse lzma data \<noteq> None \<and>
      granted grants (allocator_calls t) (file_requests (the (unityfs_parse lzma data)))")
    case True
    then obtain u where u: "unityfs_parse lzma data = Some u" by auto
    then have "unityfs_file lzma data u" by (simp add: unityfs_parse_iff)
    then have "list_all node_named (u_nodes u)" by (simp add: unityfs_file_def list_all_iff)
    note held = opened_holdings [OF this, of data]
    have "owed None 0 (snd (bundle_close (opened_archive data u) (booked t ([8, 6, 12] @ kept_requests u) k))) = owed None 0 t" for k
      unfolding bundle_close_released released_def owed_def held by simp
    then show ?thesis
      using outcome True u cleared_holdings [OF closed_books] by simp
  next
    case False
    then show ?thesis using outcome cleared_holdings by auto
  qed
qed

theorem bundle_open_balanced_witness:
  "case bundle_open (\<lambda>i _. i < 3) False (\<lambda>_. 7) no_lzma (Some zero_archive) (Some sample_file) 122
     \<lparr>g_allocated_bytes = 5, g_allocations_count = 1, allocator_calls = 0\<rparr> of (ok, arch, t', overrun) \<Rightarrow>
   if ok then owed None 0 (snd (bundle_close (the arch) t')) = (5, 1) else owed None 0 t' = (5, 1)"
  using bundle_open_balanced [OF no_lzma_bounded, where file_size = 122 and data = sample_file and grants = "\<lambda>i _. i < 3" and host = False and dirt = "\<lambda>_. 7"
        and before = zero_archive and t = "\<lparr>g_allocated_bytes = 5, g_allocations_count = 1, allocator_calls = 0\<rparr>"]
  by (auto simp: sample_lengths owed_def split: prod.splits option.splits if_splits)

end
