(* ===== verification/BundleViews.thy ===== *)
theory BundleViews
  imports BundleOpen
begin

text \<open>
  What an opened bundle lends out: the views of its members by index and by name, and the kind
  of a member.
\<close>

section \<open>Searching by name\<close>

definition members_named :: "u8 list \<Rightarrow> BundleDirectoryInfo list \<Rightarrow> nat list" where
  "members_named name ds = filter (\<lambda>i. node_text (ds ! i) = name) [0..<length ds]"

lemma members_named_Nil [simp]: "members_named name [] = []"
  by (simp add: members_named_def)

lemma members_named_Cons:
  "members_named name (d # ds) =
     (if node_text d = name then [0] else []) @ map Suc (members_named name ds)"
proof -
  have "[0..<length (d # ds)] = 0 # map Suc [0..<length ds]"
    by (simp add: upt_conv_Cons map_Suc_upt del: upt_Suc)
  then show ?thesis by (simp add: members_named_def filter_map o_def del: upt_Suc)
qed

lemma find_member_found:
  "list_all node_named ds \<Longrightarrow>
     find_member name ds i (Some k) = (if members_named name ds = [] then Some (Some k) else None)"
  by (induction ds arbitrary: i) (auto simp: members_named_Cons node_named_def node_text_def)

lemma find_member_new:
  "list_all node_named ds \<Longrightarrow>
     find_member name ds i None =
       (case members_named name ds of [] \<Rightarrow> Some None | [j] \<Rightarrow> Some (Some (i + j)) | _ \<Rightarrow> None)"
proof (induction ds arbitrary: i)
  case (Cons d ds)
  have named: "node_name d \<noteq> None" "list_all node_named ds" using Cons.prems by (simp_all, auto simp: node_named_def)
  show ?case
  proof (cases "node_text d = name")
    case True
    then show ?thesis
      using named find_member_found [OF named(2)] by (auto simp: members_named_Cons node_text_def split: list.split)
  next
    case False
    then have "find_member name (d # ds) i None = find_member name ds (i + 1) None"
      using named by (simp add: node_text_def)
    then show ?thesis
      using False Cons.IH [OF named(2)] by (simp add: members_named_Cons split: list.split)
  qed
qed simp

section \<open>Views of an opened bundle\<close>

lemma file_nodes:
  assumes "unityfs_file lzma data u"
  shows "length (u_nodes u) < 2 ^ 31" "list_all node_named (u_nodes u)" "length (u_payload u) < 2 ^ 64"
    "list_all (node_inside (length (u_payload u))) (u_nodes u)"
proof -
  obtain src hash chunks where "decodes lzma (u_flags u AND UNITYFS_COMPRESSION_MASK) src (unat (u_unpacked u))
      (info_bytes hash (u_blocks u) (u_nodes u))" and chunks: "data_chunks lzma (u_blocks u) chunks (u_payload u)"
    using assms by (auto simp: unityfs_file_def)
  then have "length (info_bytes hash (u_blocks u) (u_nodes u)) < 2 ^ 32" by (intro raw_bound)
  then have raw: "10 * length (u_blocks u) < 2 ^ 32" "21 * length (u_nodes u) < 2 ^ 32"
    using rows_length [of 10 block_bytes "u_blocks u"] rows_length [of 21 node_bytes "u_nodes u"]
    by (simp_all add: info_bytes_def block_bytes_def node_bytes_def list_all_iff)
  then show "length (u_nodes u) < 2 ^ 31" by simp
  have "length (u_payload u) = unpacked_total (u_blocks u)"
    using chunks decode_all_iff decode_all_length by blast
  then show "length (u_payload u) < 2 ^ 64" using total_bounds(1) [of "u_blocks u"] raw(1) by simp
  show "list_all node_named (u_nodes u)" "list_all (node_inside (length (u_payload u))) (u_nodes u)"
    using assms by (simp_all add: unityfs_file_def list_all_iff)
qed

definition view_of :: "BundleDirectoryInfo \<Rightarrow> u64 option \<times> u64" where
  "view_of d = (if node_decompressed_size d = 0 then None else Some (node_offset d), node_decompressed_size d)"

lemma member_view:
  assumes "unityfs_file lzma data u"
  shows "bundle_get_member_view (Some (opened_archive data u)) i True True =
    (if unat i < length (u_nodes u) then (True, view_of (u_nodes u ! unat i)) else (False, None, 0))"
proof -
  note facts = file_nodes [OF assms]
  have count: "unat (of_int (int (length (u_nodes u))) :: u64) = length (u_nodes u)"
    using facts(1) by (simp add: unat_of_nat)
  have index: "i \<ge> of_int (int (length (u_nodes u))) \<longleftrightarrow> \<not> unat i < length (u_nodes u)"
    by (simp only: word_le_nat_alt count not_less)
  show ?thesis
  proof (cases "unat i < length (u_nodes u)")
    case False
    then show ?thesis using index by (simp add: bundle_get_member_view_def opened_archive_def)
  next
    case True
    let ?d = "u_nodes u ! unat i"
    have inside: "node_inside (length (u_payload u)) ?d" using facts(4) True by (simp add: list_all_length)
    then have range: "range_inside_payload (opened_archive data u) ?d"
      using range_inside_iff [of "opened_archive data u" "length (u_payload u)" ?d] facts(3) by (simp add: opened_archive_def)
    have "u_payload u \<noteq> []" if "node_decompressed_size ?d \<noteq> 0"
      using inside that by (auto simp: node_inside_def unat_eq_0)
    moreover have "directory_count (opened_archive data u) = int (length (u_nodes u))"
      "archive_directories (opened_archive data u) = Some (u_nodes u)"
      "archive_payload (opened_archive data u) = None \<longleftrightarrow> u_payload u = []"
      using True by (auto simp: opened_archive_def)
    ultimately show ?thesis
      using True index range by (simp add: bundle_get_member_view_def Let_def view_of_def)
  qed
qed

lemma file_view:
  assumes "unityfs_file lzma data u"
  shows "bundle_get_file_view (Some (opened_archive data u)) (Some name) True True =
    (case members_named name (u_nodes u) of [i] \<Rightarrow> (True, view_of (u_nodes u ! i)) | _ \<Rightarrow> (False, None, 0))"
proof -
  note facts = file_nodes [OF assms]
  have rows: "directory_rows (opened_archive data u) = u_nodes u"
    by (simp add: directory_rows_def opened_archive_def)
  have guards: "\<not> (directory_count (opened_archive data u) < 0 \<or>
      (directory_count (opened_archive data u) > 0 \<and> archive_directories (opened_archive data u) = None))"
    by (simp add: opened_archive_def)
  have index: "i < length (u_nodes u) \<and> unat (of_nat i :: u64) = i" if "members_named name (u_nodes u) = [i]" for i
  proof -
    have "i \<in> set (members_named name (u_nodes u))" using that by simp
    then have "i < length (u_nodes u)" by (simp add: members_named_def)
    then show ?thesis using facts(1) by (simp add: unat_of_nat)
  qed
  show ?thesis
    unfolding bundle_get_file_view_def
    using guards find_member_new [OF facts(2), of name 0] index
    by (auto simp: rows member_view [OF assms] split: list.split)
qed

section \<open>Correctness\<close>

text \<open>
  Property C27. A name that exactly one member of an opened bundle has gives that member's view, its
  size and its place in the payload, and every other name, an ambiguous one included, gives
  failure with cleared outputs; a view lies inside the payload. By index, each member of the
  directory has its view and every other index fails.
\<close>

theorem bundle_views_exact:
  assumes "unityfs_file lzma data u"
  shows "bundle_get_file_view (Some (opened_archive data u)) (Some name) True True =
      (case members_named name (u_nodes u) of [i] \<Rightarrow> (True, view_of (u_nodes u ! i)) | _ \<Rightarrow> (False, None, 0)) \<and>
    bundle_get_member_view (Some (opened_archive data u)) index True True =
      (if unat index < length (u_nodes u) then (True, view_of (u_nodes u ! unat index)) else (False, None, 0)) \<and>
    (case bundle_get_file (Some (opened_archive data u)) (Some name) of
       (None, amount) \<Rightarrow> amount = 0
     | (Some offset, amount) \<Rightarrow> unat offset + unat amount \<le> length (u_payload u))"
proof -
  have inside: "node_inside (length (u_payload u)) (u_nodes u ! i)" if "members_named name (u_nodes u) = [i]" for i
  proof -
    have "i \<in> set (members_named name (u_nodes u))" using that by simp
    then show ?thesis using file_nodes(4) [OF assms] by (simp add: members_named_def list_all_length)
  qed
  have "case bundle_get_file (Some (opened_archive data u)) (Some name) of
       (None, amount) \<Rightarrow> amount = 0
     | (Some offset, amount) \<Rightarrow> unat offset + unat amount \<le> length (u_payload u)"
    using inside by (auto simp: bundle_get_file_def file_view [OF assms] view_of_def node_inside_def split: list.split)
  then show ?thesis using file_view [OF assms] member_view [OF assms] by blast
qed

theorem bundle_views_exact_witness:
  "bundle_get_file_view (Some (opened_archive sample_file sample_bundle)) (Some [65]) True True = (True, Some 0, 2)"
proof -
  have "members_named [65] (u_nodes sample_bundle) = [0]"
    by (simp add: members_named_Cons sample_bundle_def node_text_def)
  with bundle_views_exact [OF sample_is_file, of "[65]" 0] show ?thesis
    by (simp add: view_of_def sample_bundle_def)
qed

text \<open>
  A member's kind follows from its flags alone, except that an unflagged member is a
  resource by the ending of its name: of the flag words only the three single known bits and
  the empty word have a kind.
\<close>

theorem bundle_member_kinds:
  "bundle_member_classify (Some m) =
     (case node_name m of
        None \<Rightarrow> BUNDLE_MEMBER_INVALID
      | Some cells \<Rightarrow>
          if node_flags m = UNITYFS_NODE_SERIALIZED_FILE then BUNDLE_MEMBER_SERIALIZED_FILE
          else if node_flags m = UNITYFS_NODE_DIRECTORY then BUNDLE_MEMBER_DIRECTORY
          else if node_flags m = UNITYFS_NODE_DELETED then BUNDLE_MEMBER_DELETED
          else if node_flags m = 0 \<and> (\<exists>front. c_text cells = front @ ascii ''.resS'' \<or>
             c_text cells = front @ ascii ''.resource'' \<or> c_text cells = front @ ascii ''.resources'')
          then BUNDLE_MEMBER_RESOURCE
          else BUNDLE_MEMBER_INVALID)"
proof (cases "node_name m")
  case None
  then show ?thesis by (simp add: bundle_member_classify_def)
next
  case (Some cells)
  have suffix: "bundle_name_has_suffix (Some v) (Some x) \<longleftrightarrow> (\<exists>front. v = front @ x)" for v x
  proof -
    have "v = take (length v - length x) v @ x" if "length x \<le> length v" "drop (length v - length x) v = x"
      using that append_take_drop_id [of "length v - length x" v] by simp
    then show ?thesis by (auto simp: bundle_name_has_suffix_def)
  qed
  let ?f = "node_flags m"
  have known: "?f = 0 \<or> ?f = 1 \<or> ?f = 2 \<or> ?f = 3 \<or> ?f = 4 \<or> ?f = 5 \<or> ?f = 6 \<or> ?f = 7"
    if "?f AND NOT 7 = 0"
  proof -
    have "(7 :: u32) = mask 3" by (simp add: mask_eq_exp_minus_1)
    then have "?f AND mask 3 = ?f" using that by (auto simp: bit_eq_iff bit_simps)
    then have "unat ?f = unat ?f mod 8" using unat_and_mask [of ?f 3] by simp
    then have "unat ?f < 8" by presburger
    then have "unat ?f \<in> {0, 1, 2, 3, 4, 5, 6, 7}" by auto
    then show ?thesis by (auto simp: word_eq_nat)
  qed
  show ?thesis
  proof (cases "?f AND NOT 7 = 0")
    case True
    then show ?thesis
      using known [OF True] Some by (elim disjE) (simp_all add: bundle_member_classify_def Let_def suffix)
  next
    case False
    then have "?f \<noteq> 0" "?f \<noteq> 1" "?f \<noteq> 2" "?f \<noteq> 4" by auto
    then show ?thesis using False Some by (simp add: bundle_member_classify_def)
  qed
qed

end
