(* ===== verification/DigestSteps.thy ===== *)
theory DigestSteps
  imports Sha256 Outcomes
begin

text \<open>
  Routines that feed a SHA-256 context field by field: the interface such a routine works
  over, the rules that decide a routine from its parts, and the encodings the fields have.
\<close>

section \<open>C strings and fields\<close>

text \<open>
  A \<open>const char*\<close> is \<open>None\<close> for the null pointer and otherwise the bytes stored in front of
  the terminator of its array; \<open>c_char\<close> reads \<open>text[i]\<close>, the terminator included.
\<close>

type_synonym c_string = "u8 list option"

definition c_char :: "u8 list \<Rightarrow> nat \<Rightarrow> u8" where
  "c_char text i = (text @ [0]) ! i"

definition c_content :: "u8 list \<Rightarrow> u8 list" where
  "c_content text = takeWhile (\<lambda>b. b \<noteq> 0) text"

text \<open>An integer as \<open>n\<close> bytes, lowest byte first.\<close>

definition le_bytes :: "nat \<Rightarrow> 'a::len word \<Rightarrow> u8 list" where
  "le_bytes n v = map (\<lambda>i. ucast (drop_bit (8 * i) v)) [0..<n]"

lemma le_bytes_length [simp]: "length (le_bytes n v) = n"
  by (simp add: le_bytes_def)

lemma le_bytes_inject:
  fixes v w :: "'a::len word"
  assumes "le_bytes n v = le_bytes n w" and "LENGTH('a) \<le> 8 * n"
  shows "v = w"
proof (rule bit_word_eqI)
  fix k
  assume k: "k < LENGTH('a)"
  then have "k div 8 < n" using assms(2) by simp
  with assms(1) have "(ucast (drop_bit (8 * (k div 8)) v) :: u8) = ucast (drop_bit (8 * (k div 8)) w)"
    by (auto simp: le_bytes_def)
  then have "bit (ucast (drop_bit (8 * (k div 8)) v) :: u8) (k mod 8) =
      bit (ucast (drop_bit (8 * (k div 8)) w) :: u8) (k mod 8)"
    by simp
  then show "bit v k = bit w k"
    using k by (simp add: bit_simps)
qed

lemma le_bytes_append_inject:
  fixes v w :: "'a::len word"
  assumes "le_bytes n v @ s = le_bytes n w @ t" and "LENGTH('a) \<le> 8 * n"
  shows "v = w \<and> s = t"
  using assms le_bytes_inject [of n v w] by (simp add: append_eq_append_conv)

lemma of_nat_inject64:
  "m < 2 ^ 64 \<Longrightarrow> n < 2 ^ 64 \<Longrightarrow> (of_nat m :: u64) = of_nat n \<longleftrightarrow> m = n"
  by (simp add: word_of_nat_eq_iff take_bit_nat_eq_self)

lemma those_map:
  "those (map f ns) = (if \<forall>n\<in>set ns. f n \<noteq> None then Some (map (\<lambda>n. the (f n)) ns) else None)"
  by (induction ns) (auto split: option.split)

lemma those_length: "those xs = Some ys \<Longrightarrow> length ys = length xs"
  by (induction xs arbitrary: ys) (auto split: option.splits)

lemma those_member: "those xs = Some ys \<Longrightarrow> y \<in> set ys \<Longrightarrow> Some y \<in> set xs"
  by (induction xs arbitrary: ys) (auto split: option.splits)

section \<open>Feeding a context\<close>

text \<open>
  \<open>stands s m r\<close>: the state \<open>s\<close> has been fed the message \<open>m\<close> and may still visit \<open>r\<close>
  nodes. A routine \<open>hashes\<close> when, under its condition and with enough nodes left, it
  returns its value having fed its bytes and used its nodes, and otherwise fails.
\<close>

locale digesting =
  fixes feed :: "u8 list \<Rightarrow> ('s, unit) step"
    and stands :: "'s \<Rightarrow> u8 list \<Rightarrow> nat \<Rightarrow> bool"
  assumes feed_stands: "stands s m r \<Longrightarrow> \<exists>s'. feed bs s = (Some (), s') \<and> stands s' (m @ bs) r"
begin

definition hashes :: "('s, 'a) step \<Rightarrow> bool \<Rightarrow> u8 list \<Rightarrow> nat \<Rightarrow> 'a \<Rightarrow> bool" where
  "hashes f C e n x \<longleftrightarrow> (\<forall>s m r. stands s m r \<longrightarrow>
     (if C \<and> n \<le> r then \<exists>s'. f s = (Some x, s') \<and> stands s' (m @ e) (r - n) else fst (f s) = None))"

lemma hashes_success:
  "hashes f C e n x \<Longrightarrow> stands s m r \<Longrightarrow> C \<Longrightarrow> n \<le> r \<Longrightarrow>
     \<exists>s'. f s = (Some x, s') \<and> stands s' (m @ e) (r - n)"
  unfolding hashes_def by presburger

lemma hashes_failure:
  "hashes f C e n x \<Longrightarrow> stands s m r \<Longrightarrow> \<not> (C \<and> n \<le> r) \<Longrightarrow> fst (f s) = None"
  unfolding hashes_def by presburger

lemma hashes_feed: "hashes (feed bs) True bs 0 ()"
  using feed_stands unfolding hashes_def by simp

lemma hashes_return: "hashes (step_return x) True [] 0 x"
  by (simp add: hashes_def step_return_def)

lemma hashes_refuse: "hashes (\<lambda>s. (None, w s)) False e n x"
  by (simp add: hashes_def)

lemma hashes_then:
  assumes "hashes m C e n x" and "C \<Longrightarrow> hashes (f x) D e' n' y"
  shows "hashes (step_then m f) (C \<and> D) (e @ e') (n + n') y"
  unfolding hashes_def
proof (intro allI impI)
  fix s fed r
  assume s: "stands s fed r"
  show "if (C \<and> D) \<and> n + n' \<le> r
      then \<exists>s'. step_then m f s = (Some y, s') \<and> stands s' (fed @ e @ e') (r - (n + n'))
      else fst (step_then m f s) = None"
  proof (cases "C \<and> n \<le> r")
    case True
    then obtain u where u: "m s = (Some x, u)" "stands u (fed @ e) (r - n)"
      using hashes_success [OF assms(1) s] by blast
    note rest = hashes_success [OF assms(2) u(2)] hashes_failure [OF assms(2) u(2)]
    show ?thesis
    proof (cases "D \<and> n' \<le> r - n")
      case True
      with rest(1) u(1) \<open>C \<and> n \<le> r\<close> show ?thesis by (auto simp: step_then_def)
    next
      case False
      with rest(2) u(1) \<open>C \<and> n \<le> r\<close> have "fst (step_then m f s) = None" by (auto simp: step_then_def)
      moreover have "\<not> ((C \<and> D) \<and> n + n' \<le> r)" using False by auto
      ultimately show ?thesis by (simp only: if_False simp_thms)
    qed
  next
    case False
    then have "fst (m s) = None" using hashes_failure [OF assms(1) s] by blast
    then have "fst (step_then m f s) = None" by (cases "m s") (simp add: step_then_def)
    moreover have "\<not> ((C \<and> D) \<and> n + n' \<le> r)" using False add_leD1 by blast
    ultimately show ?thesis by (simp only: if_False simp_thms)
  qed
qed

lemma hashes_weaken:
  "hashes f C e n x \<Longrightarrow> (C' \<longleftrightarrow> C) \<Longrightarrow> (C \<Longrightarrow> e' = e \<and> n' = n \<and> x' = x) \<Longrightarrow> hashes f C' e' n' x'"
  unfolding hashes_def by auto

text \<open>A guard on the state that enough nodes imply.\<close>

lemma hashes_guard:
  assumes "\<And>s m r. stands s m r \<Longrightarrow> C \<Longrightarrow> n \<le> r \<Longrightarrow> guard s"
    and "hashes (f ()) C e n x"
  shows "hashes (step_then (step_require guard reject) f) C e n x"
  using assms unfolding hashes_def step_then_def step_require_def
  by (auto split: if_splits)

lemma hashes_require:
  "hashes (step_require (\<lambda>_. P) reject) P [] 0 ()"
  by (simp add: hashes_def step_require_def)

lemma hashes_rows:
  assumes "\<And>j. i \<le> j \<Longrightarrow> j < i + k \<Longrightarrow> hashes (row j) (C j) (e j) (n j) (x j)"
  shows "hashes (scan_rows row i k) (\<forall>j\<in>{i..<i + k}. C j) (concat (map e [i..<i + k]))
     (sum_list (map n [i..<i + k])) (map x [i..<i + k])"
  using assms
proof (induction k arbitrary: i)
  case 0
  then show ?case using hashes_return by (simp add: hashes_def)
next
  case (Suc k)
  have later: "hashes (scan_rows row (Suc i) k) (\<forall>j\<in>{Suc i..<Suc i + k}. C j)
      (concat (map e [Suc i..<Suc i + k])) (sum_list (map n [Suc i..<Suc i + k])) (map x [Suc i..<Suc i + k])"
    by (rule Suc.IH) (use Suc.prems in auto)
  have first: "hashes (row i) (C i) (e i) (n i) (x i)" using Suc.prems by simp
  have range: "[i..<i + Suc k] = i # [Suc i..<Suc i + k]" by (simp add: upt_conv_Cons)
  have indices: "{i..<i + Suc k} = insert i {Suc i..<Suc i + k}" by auto
  have "hashes (step_then (row i) (\<lambda>r. step_then (scan_rows row (Suc i) k) (\<lambda>rs. step_return (r # rs))))
     (C i \<and> (\<forall>j\<in>{Suc i..<Suc i + k}. C j) \<and> True)
     (e i @ concat (map e [Suc i..<Suc i + k]) @ [])
     (n i + (sum_list (map n [Suc i..<Suc i + k]) + 0)) (x i # map x [Suc i..<Suc i + k])"
    by (rule hashes_then [OF first hashes_then [OF later hashes_return]])
  then show ?case
    unfolding scan_rows_Suc range indices by simp
qed

end

end
