(* ===== verification/TreeValueDigest.thy ===== *)
theory TreeValueDigest
  imports DigestSteps
begin

text \<open>
  \<open>src/io/typetree_value_digest.c\<close>: the identity of a decoded value. A value graph is
  walked to a bounded depth under a budget of nodes and fed to a SHA-256 context. The
  model's values lie in a store, so spans may be shared or cyclic as C objects may be; the
  specification unfolds a value to a finite \<open>identity\<close> with an encoding of its own.
\<close>

section \<open>Model of the code\<close>

text \<open>
  A value with its tag and the members of its union, each read only under the tag the code
  checks first: \<open>scalar\<close> holds the eight bytes that \<open>int_val\<close>, \<open>uint_val\<close> and \<open>float_val\<close> share.
  The elements and members of a span lie \<open>sizeof(TypeTreeValue)\<close> apart in the store. As the
  header demands, spans and strings are valid objects: the store has a value at every
  address and \<open>packed_bytes\<close> a byte at every index.
\<close>

record TypeTreeValue =
  value_name :: c_string
  value_type_str :: c_string
  value_type :: u32
  integer_is_unsigned :: bool
  string_length :: u64
  scalar :: u64
  string_val :: c_string
  array_elements :: pointer
  array_count :: u32
  array_storage :: u32
  packed_bytes :: "(nat \<Rightarrow> u8) option"
  struct_members :: pointer
  struct_count :: u32

type_synonym value_store = "pointer \<Rightarrow> TypeTreeValue"

abbreviation VAL_TYPE_INT :: u32 where "VAL_TYPE_INT \<equiv> 0"
abbreviation VAL_TYPE_FLOAT :: u32 where "VAL_TYPE_FLOAT \<equiv> 1"
abbreviation VAL_TYPE_STRING :: u32 where "VAL_TYPE_STRING \<equiv> 2"
abbreviation VAL_TYPE_ARRAY :: u32 where "VAL_TYPE_ARRAY \<equiv> 3"
abbreviation VAL_TYPE_STRUCT :: u32 where "VAL_TYPE_STRUCT \<equiv> 4"
abbreviation VAL_TYPE_NONE :: u32 where "VAL_TYPE_NONE \<equiv> 5"

abbreviation TYPETREE_ARRAY_VALUES :: u32 where "TYPETREE_ARRAY_VALUES \<equiv> 0"
abbreviation TYPETREE_ARRAY_PACKED_BYTES :: u32 where "TYPETREE_ARRAY_PACKED_BYTES \<equiv> 1"

definition VALUE_DIGEST_MAX_NODES :: u64 where "VALUE_DIGEST_MAX_NODES = 1048576"
definition VALUE_DIGEST_MAX_DEPTH :: nat where "VALUE_DIGEST_MAX_DEPTH = 256"
definition VALUE_DIGEST_MAX_STRING :: nat where "VALUE_DIGEST_MAX_STRING = 16777216"

definition SIZEOF_VALUE :: u64 where "SIZEOF_VALUE = 64"

definition span_at :: "pointer \<Rightarrow> nat \<Rightarrow> pointer" where
  "span_at base i = base + of_nat i * SIZEOF_VALUE"

text \<open>The context is lost (\<open>None\<close>) when an update leaves its block buffer.\<close>

record ValueDigest =
  hash :: "CommonSha256Context option"
  remaining_nodes :: u64

definition hash_bytes :: "u8 list \<Rightarrow> (ValueDigest, unit) step" where
  "hash_bytes bs = step_modify (\<lambda>d. d\<lparr>hash := Option.bind (hash d) (\<lambda>c. common_sha256_update c bs)\<rparr>)"

definition hash_word :: "u64 \<Rightarrow> (ValueDigest, unit) step" where
  "hash_word v = hash_bytes (map (\<lambda>i. ucast (drop_bit (i * 8) v)) [0..<8])"

text \<open>The scan of \<open>hash_string\<close>, which stops one position behind the limit.\<close>

function string_scan :: "u8 list \<Rightarrow> nat \<Rightarrow> nat" where
  "string_scan chars n =
     (if n \<le> VALUE_DIGEST_MAX_STRING \<and> c_char chars n \<noteq> 0 then string_scan chars (Suc n) else n)"
  by pat_completeness auto
termination by (relation "measure (\<lambda>(chars, n). Suc VALUE_DIGEST_MAX_STRING - n)") auto

declare string_scan.simps [simp del]

definition hash_string :: "c_string \<Rightarrow> (ValueDigest, nat) step" where
  "hash_string chars d =
     (case chars of
        None \<Rightarrow> (None, d)
      | Some cs \<Rightarrow>
          (let n = string_scan cs 0 in
           if n > VALUE_DIGEST_MAX_STRING then (None, d)
           else step_then (hash_word (of_nat n)) (\<lambda>_.
                step_then (hash_bytes (take n cs)) (\<lambda>_. step_return n)) d))"

definition uint8_chars :: "u8 list" where "uint8_chars = [0x55, 0x49, 0x6E, 0x74, 0x38]"

text \<open>\<open>strcmp(a, b) == 0\<close>: the strings agree up to their terminators.\<close>

definition c_equal :: "u8 list \<Rightarrow> u8 list \<Rightarrow> bool" where
  "c_equal a b \<longleftrightarrow> c_content a = c_content b"

definition expanded_bytes :: "value_store \<Rightarrow> TypeTreeValue \<Rightarrow> bool" where
  "expanded_bytes store array =
     list_all (\<lambda>i. let byte = store (span_at (array_elements array) i) in
       \<not> (value_type byte \<noteq> VAL_TYPE_INT \<or> \<not> integer_is_unsigned byte \<or> scalar byte > 255 \<or>
          value_name byte = None \<or> value_type_str byte = None \<or>
          \<not> c_equal (the (value_type_str byte)) uint8_chars))
     [0..<nat (sint (array_count array))]"

abbreviation hash_fails :: "ValueDigest \<Rightarrow> 'a option \<times> ValueDigest" where
  "hash_fails d \<equiv> (None, d)"

abbreviation unless :: "(ValueDigest \<Rightarrow> bool) \<Rightarrow> (ValueDigest, unit) step" where
  "unless bad \<equiv> step_require (\<lambda>d. \<not> bad d) (\<lambda>d. d)"

definition hash_struct ::
    "(pointer \<Rightarrow> (ValueDigest, unit) step) \<Rightarrow> TypeTreeValue \<Rightarrow> (ValueDigest, unit) step" where
  "hash_struct child v =
     (let count = struct_count v in
      step_then (unless (\<lambda>d. sint count < 0 \<or> scast count > remaining_nodes d \<or>
          (count \<noteq> 0 \<and> struct_members v = 0))) (\<lambda>_.
      step_then (hash_word (ucast count)) (\<lambda>_.
      step_then (scan_rows (\<lambda>i. child (span_at (struct_members v) i)) 0 (nat (sint count))) (\<lambda>_.
      step_return ()))))"

definition hash_array ::
    "value_store \<Rightarrow> (pointer \<Rightarrow> (ValueDigest, unit) step) \<Rightarrow> TypeTreeValue \<Rightarrow> (ValueDigest, unit) step" where
  "hash_array store child v =
     (let count = array_count v; packed = (array_storage v = TYPETREE_ARRAY_PACKED_BYTES) in
      step_then (unless (\<lambda>d. sint count < 0 \<or> scast count > remaining_nodes d)) (\<lambda>_.
      step_then (unless (\<lambda>_. if packed then count \<noteq> 0 \<and> packed_bytes v = None
          else array_storage v \<noteq> TYPETREE_ARRAY_VALUES \<or> (count \<noteq> 0 \<and> array_elements v = 0))) (\<lambda>_.
      let bytes = (packed \<or> expanded_bytes store v) in
      step_then (hash_word (ucast count)) (\<lambda>_.
      step_then (hash_word (if bytes then 1 else 0)) (\<lambda>_.
      if bytes then
        step_then (step_modify (\<lambda>d. d\<lparr>remaining_nodes := remaining_nodes d - scast count\<rparr>)) (\<lambda>_.
        if packed \<and> count \<noteq> 0 then
          hash_bytes (map (the (packed_bytes v)) [0..<nat (sint count)])
        else
          step_then (scan_rows (\<lambda>i. hash_bytes [ucast (scalar (store (span_at (array_elements v) i)))])
            0 (nat (sint count))) (\<lambda>_. step_return ()))
      else
        step_then (scan_rows (\<lambda>i. child (span_at (array_elements v) i)) 0 (nat (sint count))) (\<lambda>_.
        step_return ()))))))"

text \<open>The switch over the tag; \<open>child\<close> hashes a value one level below.\<close>

definition hash_payload ::
    "value_store \<Rightarrow> (pointer \<Rightarrow> (ValueDigest, unit) step) \<Rightarrow> TypeTreeValue \<Rightarrow> (ValueDigest, unit) step" where
  "hash_payload store child v =
     (if value_type v = VAL_TYPE_INT then
        step_then (hash_word (if integer_is_unsigned v then 1 else 0)) (\<lambda>_. hash_word (scalar v))
      else if value_type v = VAL_TYPE_FLOAT then hash_word (scalar v)
      else if value_type v = VAL_TYPE_STRING then
        step_then (hash_string (string_val v)) (\<lambda>n. unless (\<lambda>_. of_nat n \<noteq> string_length v))
      else if value_type v = VAL_TYPE_STRUCT then hash_struct child v
      else if value_type v = VAL_TYPE_ARRAY then hash_array store child v
      else if value_type v = VAL_TYPE_NONE then step_return ()
      else hash_fails)"

function hash_value :: "value_store \<Rightarrow> nat \<Rightarrow> pointer \<Rightarrow> (ValueDigest, unit) step" where
  "hash_value store depth address d =
     (if address = 0 \<or> depth \<ge> VALUE_DIGEST_MAX_DEPTH \<or> remaining_nodes d = 0 \<or>
         value_type (store address) < VAL_TYPE_INT \<or> value_type (store address) > VAL_TYPE_NONE
      then (None, d)
      else
        (let v = store address in
         step_then (step_modify (\<lambda>d. d\<lparr>remaining_nodes := remaining_nodes d - 1\<rparr>)) (\<lambda>_.
         step_then (hash_word (ucast (value_type v))) (\<lambda>_.
         step_then (hash_string (value_name v)) (\<lambda>_.
         step_then (hash_string (value_type_str v)) (\<lambda>_.
         hash_payload store (\<lambda>q d. hash_value store (depth + 1) q d) v)))) d))"
  by pat_completeness auto
termination
  by (relation "measure (\<lambda>(store, depth, address, d). VALUE_DIGEST_MAX_DEPTH - depth)") auto

declare hash_value.simps [simp del]

definition value_domain :: "u8 list" where
  "value_domain =
     [0x55, 0x6E, 0x69, 0x74, 0x79, 0x43, 0x6F, 0x6D, 0x6D, 0x6F, 0x6E, 0x2E, 0x4F, 0x72, 0x64, 0x65,
      0x72, 0x65, 0x64, 0x54, 0x79, 0x70, 0x65, 0x54, 0x72, 0x65, 0x65, 0x56, 0x61, 0x6C, 0x75, 0x65,
      0x2E, 0x76, 0x31, 0x00]"

definition zero_sha_context :: CommonSha256Context where
  "zero_sha_context = \<lparr>state = replicate 8 0, total_size = 0, block = replicate 64 0, block_size = 0\<rparr>"

text \<open>
  The whole routine: what it returns and what it leaves at \<open>digest\<close> (\<open>None\<close> for the null
  pointer). The outer \<open>None\<close> would be an access outside the block buffer of the context.
\<close>

definition typetree_value_digest ::
    "value_store \<Rightarrow> pointer \<Rightarrow> u8 list option \<Rightarrow> (bool \<times> u8 list option) option" where
  "typetree_value_digest store value_address digest =
     (if digest = None then Some (False, digest)
      else
        (let start = \<lparr>hash = Some (common_sha256_init zero_sha_context),
               remaining_nodes = VALUE_DIGEST_MAX_NODES\<rparr>
         in case step_then (hash_bytes value_domain) (\<lambda>_. hash_value store 0 value_address) start of
              (None, _) \<Rightarrow> Some (False, digest)
            | (Some _, d) \<Rightarrow>
                map_option (\<lambda>(bs, _). (True, Some bs)) (Option.bind (hash d) common_sha256_final)))"

section \<open>Identities\<close>

text \<open>
  What a value is: its name and type, and its contents. An array of plain unsigned bytes is
  a byte string however it is stored.
\<close>

datatype leaf = Integer bool u64 | Real u64 | Chars "u8 list" | Bytes "u8 list" | Empty

datatype identity =
  Leaf "u8 list" "u8 list" leaf
| Sequence "u8 list" "u8 list" "identity list"
| Struct "u8 list" "u8 list" "identity list"

text \<open>A string within the limit.\<close>

definition string_of :: "c_string \<Rightarrow> u8 list option" where
  "string_of chars =
     (case chars of None \<Rightarrow> None
      | Some cs \<Rightarrow> if length (c_content cs) \<le> VALUE_DIGEST_MAX_STRING then Some (c_content cs) else None)"

definition plain_byte :: "TypeTreeValue \<Rightarrow> bool" where
  "plain_byte v \<longleftrightarrow> value_type v = VAL_TYPE_INT \<and> integer_is_unsigned v \<and> scalar v < 256 \<and>
     value_name v \<noteq> None \<and> map_option c_content (value_type_str v) = Some uint8_chars"

definition array_length :: "TypeTreeValue \<Rightarrow> nat" where
  "array_length v = nat (sint (array_count v))"

definition array_element :: "value_store \<Rightarrow> TypeTreeValue \<Rightarrow> nat \<Rightarrow> TypeTreeValue" where
  "array_element store v i = store (span_at (array_elements v) i)"

text \<open>The bytes of an array that is a byte string.\<close>

definition array_bytes :: "value_store \<Rightarrow> TypeTreeValue \<Rightarrow> u8 list option" where
  "array_bytes store v =
     (if array_storage v = TYPETREE_ARRAY_PACKED_BYTES
      then Some (map (the (packed_bytes v)) [0..<array_length v])
      else if list_all (\<lambda>i. plain_byte (array_element store v i)) [0..<array_length v]
      then Some (map (\<lambda>i. ucast (scalar (array_element store v i))) [0..<array_length v])
      else None)"

definition usable_array :: "TypeTreeValue \<Rightarrow> bool" where
  "usable_array v \<longleftrightarrow> 0 \<le> sint (array_count v) \<and>
     (array_storage v = TYPETREE_ARRAY_PACKED_BYTES \<and> (array_count v = 0 \<or> packed_bytes v \<noteq> None) \<or>
      array_storage v = TYPETREE_ARRAY_VALUES \<and> (array_count v = 0 \<or> array_elements v \<noteq> 0))"

definition usable_struct :: "TypeTreeValue \<Rightarrow> bool" where
  "usable_struct v \<longleftrightarrow> 0 \<le> sint (struct_count v) \<and> (struct_count v = 0 \<or> struct_members v \<noteq> 0)"

text \<open>The identity of what a value holds, given the identities one level below.\<close>

definition contents_of ::
    "value_store \<Rightarrow> (pointer \<Rightarrow> identity option) \<Rightarrow> TypeTreeValue \<Rightarrow> u8 list \<Rightarrow> u8 list \<Rightarrow> identity option" where
  "contents_of store child v a b =
     (if value_type v = VAL_TYPE_INT then Some (Leaf a b (Integer (integer_is_unsigned v) (scalar v)))
      else if value_type v = VAL_TYPE_FLOAT then Some (Leaf a b (Real (scalar v)))
      else if value_type v = VAL_TYPE_STRING then
        (case string_of (string_val v) of None \<Rightarrow> None
         | Some t \<Rightarrow> if unat (string_length v) = length t then Some (Leaf a b (Chars t)) else None)
      else if value_type v = VAL_TYPE_STRUCT then
        (if usable_struct v
         then map_option (Struct a b)
           (those (map (\<lambda>i. child (span_at (struct_members v) i)) [0..<nat (sint (struct_count v))]))
         else None)
      else if value_type v = VAL_TYPE_ARRAY then
        (if \<not> usable_array v then None
         else case array_bytes store v of Some bs \<Rightarrow> Some (Leaf a b (Bytes bs))
         | None \<Rightarrow> map_option (Sequence a b)
             (those (map (\<lambda>i. child (span_at (array_elements v) i)) [0..<array_length v])))
      else if value_type v = VAL_TYPE_NONE then Some (Leaf a b Empty)
      else None)"

text \<open>The identity of a value nested fewer than \<open>levels\<close> deep.\<close>

fun identity_at :: "value_store \<Rightarrow> nat \<Rightarrow> pointer \<Rightarrow> identity option" where
  "identity_at store 0 address = None"
| "identity_at store (Suc levels) address =
     (if address = 0 then None
      else case (string_of (value_name (store address)), string_of (value_type_str (store address))) of
        (Some a, Some b) \<Rightarrow> contents_of store (\<lambda>q. identity_at store levels q) (store address) a b
      | _ \<Rightarrow> None)"

text \<open>A byte string counts one node for itself and one for each byte.\<close>

fun identity_nodes :: "identity \<Rightarrow> nat" where
  "identity_nodes (Leaf a b (Bytes bs)) = 1 + length bs"
| "identity_nodes (Leaf a b l) = 1"
| "identity_nodes (Sequence a b vs) = 1 + sum_list (map identity_nodes vs)"
| "identity_nodes (Struct a b vs) = 1 + sum_list (map identity_nodes vs)"

abbreviation word_bytes :: "u64 \<Rightarrow> u8 list" where "word_bytes \<equiv> le_bytes 8"

definition counted :: "u8 list \<Rightarrow> u8 list" where
  "counted bs = word_bytes (of_nat (length bs)) @ bs"

fun leaf_tag :: "leaf \<Rightarrow> u64" where
  "leaf_tag (Integer u w) = 0"
| "leaf_tag (Real w) = 1"
| "leaf_tag (Chars t) = 2"
| "leaf_tag (Bytes bs) = 3"
| "leaf_tag Empty = 5"

fun encode_leaf :: "leaf \<Rightarrow> u8 list" where
  "encode_leaf (Integer u w) = word_bytes (if u then 1 else 0) @ word_bytes w"
| "encode_leaf (Real w) = word_bytes w"
| "encode_leaf (Chars t) = counted t"
| "encode_leaf (Bytes bs) = word_bytes (of_nat (length bs)) @ word_bytes 1 @ bs"
| "encode_leaf Empty = []"

fun encode_identity :: "identity \<Rightarrow> u8 list" where
  "encode_identity (Leaf a b l) = word_bytes (leaf_tag l) @ counted a @ counted b @ encode_leaf l"
| "encode_identity (Sequence a b vs) =
     word_bytes 3 @ counted a @ counted b @ word_bytes (of_nat (length vs)) @ word_bytes 0 @
     concat (map encode_identity vs)"
| "encode_identity (Struct a b vs) =
     word_bytes 4 @ counted a @ counted b @ word_bytes (of_nat (length vs)) @
     concat (map encode_identity vs)"

section \<open>The encoding determines the identity\<close>

text \<open>Strings and counts that their 64-bit prefixes can hold.\<close>

abbreviation fits :: "'a list \<Rightarrow> bool" where "fits xs \<equiv> length xs < 2 ^ 64"

fun leaf_fits :: "leaf \<Rightarrow> bool" where
  "leaf_fits (Chars t) = fits t"
| "leaf_fits (Bytes bs) = fits bs"
| "leaf_fits _ = True"

fun identity_fits :: "identity \<Rightarrow> bool" where
  "identity_fits (Leaf a b l) \<longleftrightarrow> fits a \<and> fits b \<and> leaf_fits l"
| "identity_fits (Sequence a b vs) \<longleftrightarrow> fits a \<and> fits b \<and> fits vs \<and> list_all identity_fits vs"
| "identity_fits (Struct a b vs) \<longleftrightarrow> fits a \<and> fits b \<and> fits vs \<and> list_all identity_fits vs"

lemma word_bytes_inject [simp]:
  "word_bytes v @ s = word_bytes w @ t \<longleftrightarrow> v = w \<and> s = t"
  using le_bytes_append_inject [of 8 v s w t] by auto

lemma length_words: "fits xs \<Longrightarrow> fits ys \<Longrightarrow> (of_nat (length xs) :: u64) = of_nat (length ys) \<longleftrightarrow> length xs = length ys"
  by (rule of_nat_inject64)

lemma counted_inject:
  "fits a \<Longrightarrow> fits b \<Longrightarrow> counted a @ s = counted b @ t \<longleftrightarrow> a = b \<and> s = t"
  by (auto simp: counted_def length_words)

lemma encode_leaf_inject:
  "leaf_fits l \<Longrightarrow> leaf_fits k \<Longrightarrow> leaf_tag l = leaf_tag k \<Longrightarrow>
     encode_leaf l @ s = encode_leaf k @ t \<Longrightarrow> l = k \<and> s = t"
  by (cases l; cases k) (auto simp: counted_inject length_words split: if_splits)

lemma concat_encode_inject:
  assumes "\<And>v w s t. v \<in> set vs \<Longrightarrow> identity_fits v \<Longrightarrow> identity_fits w \<Longrightarrow>
      encode_identity v @ s = encode_identity w @ t \<Longrightarrow> v = w \<and> s = t"
    and "list_all identity_fits vs" and "list_all identity_fits ws" and "length vs = length ws"
    and "concat (map encode_identity vs) @ s = concat (map encode_identity ws) @ t"
  shows "vs = ws \<and> s = t"
  using assms(4,1,2,3,5)
proof (induction vs ws arbitrary: s t rule: list_induct2)
  case (Cons v vs w ws)
  have first: "v = w \<and> concat (map encode_identity vs) @ s = concat (map encode_identity ws) @ t"
    by (rule Cons.prems(1)) (use Cons.prems(2-4) in simp_all)
  have "vs = ws \<and> s = t"
  proof (rule Cons.IH)
    show "v' = w' \<and> s' = t'"
      if "v' \<in> set vs" "identity_fits v'" "identity_fits w'" "encode_identity v' @ s' = encode_identity w' @ t'"
      for v' w' s' t'
      by (rule Cons.prems(1)) (use that in simp_all)
  qed (use first Cons.prems(2,3) in simp_all)
  with first show ?case by simp
qed simp

text \<open>The contents start differently for a byte string and a sequence.\<close>

lemma encode_identity_inject:
  "identity_fits v \<Longrightarrow> identity_fits w \<Longrightarrow> encode_identity v @ s = encode_identity w @ t \<Longrightarrow>
     v = w \<and> s = t"
proof (induction v arbitrary: w s t)
  case (Leaf a b l)
  show ?case
  proof (cases w)
    case w: (Leaf a' b' k)
    with Leaf.prems show ?thesis
      using encode_leaf_inject [of l k s t] by (auto simp: counted_inject)
  next
    case w: (Sequence a' b' ws)
    with Leaf.prems show ?thesis by (cases l) (auto simp: counted_inject)
  next
    case w: (Struct a' b' ws)
    with Leaf.prems show ?thesis by (cases l) (auto simp: counted_inject)
  qed
next
  case (Sequence a b vs)
  show ?case
  proof (cases w)
    case w: (Leaf a' b' l)
    with Sequence.prems show ?thesis by (cases l) (auto simp: counted_inject)
  next
    case w: (Sequence a' b' ws)
    then have "a = a'" "b = b'" "length vs = length ws"
      "concat (map encode_identity vs) @ s = concat (map encode_identity ws) @ t"
      using Sequence.prems by (auto simp: counted_inject length_words)
    moreover have "vs = ws \<and> s = t"
      by (rule concat_encode_inject [OF Sequence.IH]) (use calculation Sequence.prems(1,2) w in simp_all)
    ultimately show ?thesis using w by simp
  next
    case w: (Struct a' b' ws)
    with Sequence.prems show ?thesis by (auto simp: counted_inject)
  qed
next
  case (Struct a b vs)
  show ?case
  proof (cases w)
    case w: (Leaf a' b' l)
    with Struct.prems show ?thesis by (cases l) (auto simp: counted_inject)
  next
    case w: (Struct a' b' ws)
    then have "a = a'" "b = b'" "length vs = length ws"
      "concat (map encode_identity vs) @ s = concat (map encode_identity ws) @ t"
      using Struct.prems by (auto simp: counted_inject length_words)
    moreover have "vs = ws \<and> s = t"
      by (rule concat_encode_inject [OF Struct.IH]) (use calculation Struct.prems(1,2) w in simp_all)
    ultimately show ?thesis using w by simp
  next
    case w: (Sequence a' b' ws)
    with Struct.prems show ?thesis by (auto simp: counted_inject)
  qed
qed

end
