(* ===== verification/TreeValueHash.thy ===== *)
theory TreeValueHash
  imports TreeValueDigest
begin

text \<open>
  What the routines of \<open>typetree_value_digest.c\<close> feed to the context: strings, spans and arrays
  under the budget, the switch over the tag, and the recursion over the levels of a value.
\<close>

section \<open>Fed contexts\<close>

text \<open>A state whose context has been fed a message and that may still visit \<open>r\<close> nodes.\<close>

definition value_fed :: "ValueDigest \<Rightarrow> u8 list \<Rightarrow> nat \<Rightarrow> bool" where
  "value_fed d m r \<longleftrightarrow> (\<exists>c. hash d = Some c \<and> represents c m) \<and> unat (remaining_nodes d) = r"

interpretation vd: digesting hash_bytes value_fed
proof
  fix s m r bs
  assume "value_fed s m r"
  then obtain c where c: "hash s = Some c" "represents c m" "unat (remaining_nodes s) = r"
    by (auto simp: value_fed_def)
  with update_represents [of c m bs]
  show "\<exists>s'. hash_bytes bs s = (Some (), s') \<and> value_fed s' (m @ bs) r"
    by (auto simp: hash_bytes_def step_modify_def value_fed_def)
qed

lemma hash_word_hashes: "vd.hashes (hash_word v) True (word_bytes v) 0 ()"
  using vd.hashes_feed [of "word_bytes v"] by (simp add: hash_word_def le_bytes_def mult.commute)

lemma hashes_unless: "vd.hashes (unless (\<lambda>_. bad)) (\<not> bad) [] 0 ()"
  by (rule vd.hashes_require)

lemma then_passed: "step_then (step_require (\<lambda>_. True) w) f = f ()"
  by (rule ext) (simp add: step_then_def step_require_def)

lemma then_refused: "step_then (step_require (\<lambda>_. False) w) f = (\<lambda>s. (None, w s))"
  by (rule ext) (simp add: step_then_def step_require_def)

text \<open>Taking nodes off the budget behind a guard that they are there.\<close>

abbreviation spend :: "u64 \<Rightarrow> (ValueDigest, unit) step" where
  "spend k \<equiv> step_modify (\<lambda>d. d\<lparr>remaining_nodes := remaining_nodes d - k\<rparr>)"

lemma hashes_spend:
  assumes guard: "\<And>d. \<not> bad d \<longleftrightarrow> P \<and> k \<le> remaining_nodes d"
    and rest: "P \<Longrightarrow> vd.hashes (f ()) C e n x"
  shows "vd.hashes (step_then (unless bad) (\<lambda>_. step_then (spend k) f)) (P \<and> C) e (unat k + n) x"
proof -
  have "if (P \<and> C) \<and> unat k + n \<le> r
      then \<exists>d'. step_then (unless bad) (\<lambda>_. step_then (spend k) f) d = (Some x, d') \<and>
        value_fed d' (m @ e) (r - (unat k + n))
      else fst (step_then (unless bad) (\<lambda>_. step_then (spend k) f) d) = None"
    if fed: "value_fed d m r" for d m r
  proof (cases "bad d")
    case True
    then have run: "step_then (unless bad) (\<lambda>_. step_then (spend k) f) d = (None, d)"
      by (simp add: step_then_def step_require_def)
    have "\<not> ((P \<and> C) \<and> unat k + n \<le> r)"
      using guard [of d] True fed by (auto simp: value_fed_def word_le_nat_alt)
    with run show ?thesis by simp
  next
    case False
    then have P: P and k: "k \<le> remaining_nodes d" using guard [of d] by auto
    let ?u = "d\<lparr>remaining_nodes := remaining_nodes d - k\<rparr>"
    have run: "step_then (unless bad) (\<lambda>_. step_then (spend k) f) d = f () ?u"
      using False by (simp add: step_then_def step_require_def step_modify_def)
    have u: "value_fed ?u m (r - unat k)" and r: "unat k \<le> r"
      using fed k by (auto simp: value_fed_def word_le_nat_alt)
    note part = vd.hashes_success [OF rest [OF P] u] vd.hashes_failure [OF rest [OF P] u]
    show ?thesis
    proof (cases "C \<and> n \<le> r - unat k")
      case True
      with part(1) r P show ?thesis unfolding run by auto
    next
      case False
      then have "\<not> ((P \<and> C) \<and> unat k + n \<le> r)" by auto
      with part(2) False show ?thesis unfolding run by (simp only: if_False simp_thms)
    qed
  qed
  then show ?thesis unfolding vd.hashes_def by blast
qed

text \<open>Hashing does not look at the budget, so taking nodes before or after it is the same.\<close>

lemma spend_hash_bytes:
  "step_then (hash_bytes bs) (\<lambda>_. step_then (spend k) f) =
     step_then (spend k) (\<lambda>_. step_then (hash_bytes bs) f)"
proof (rule ext)
  fix d :: ValueDigest
  show "step_then (hash_bytes bs) (\<lambda>_. step_then (spend k) f) d =
      step_then (spend k) (\<lambda>_. step_then (hash_bytes bs) f) d"
    by (cases d) (simp add: step_then_def hash_bytes_def step_modify_def)
qed

lemma spend_hash_word:
  "step_then (hash_word v) (\<lambda>_. step_then (spend k) f) =
     step_then (spend k) (\<lambda>_. step_then (hash_word v) f)"
  by (simp add: hash_word_def spend_hash_bytes)

section \<open>Strings\<close>

lemma c_char_content:
  "n \<le> length (c_content cs) \<Longrightarrow> c_char cs n = 0 \<longleftrightarrow> n = length (c_content cs)"
proof -
  assume n: "n \<le> length (c_content cs)"
  show ?thesis
  proof (cases "n = length (c_content cs)")
    case True
    show ?thesis
    proof (cases "c_content cs = cs")
      case False
      then have "n < length cs" using True unfolding c_content_def
        by (metis length_takeWhile_le nat_less_le takeWhile_eq_take take_all_iff)
      then have "cs ! n = 0" using True nth_length_takeWhile [of "\<lambda>b. b \<noteq> 0" cs]
        by (simp add: c_content_def)
      with True \<open>n < length cs\<close> show ?thesis by (simp add: c_char_def nth_append)
    qed (use True in \<open>simp add: c_char_def\<close>)
  next
    case False
    then have less: "n < length (takeWhile (\<lambda>b. b \<noteq> 0) cs)" using n by (simp add: c_content_def)
    then have "cs ! n \<noteq> 0" "n < length cs"
      using takeWhile_nth [OF less] set_takeWhileD nth_mem [OF less] length_takeWhile_le [of "\<lambda>b. b \<noteq> 0" cs]
      by fastforce+
    with False show ?thesis by (simp add: c_char_def nth_append)
  qed
qed

lemma string_scan_value:
  "n \<le> length (c_content cs) \<Longrightarrow> n \<le> Suc VALUE_DIGEST_MAX_STRING \<Longrightarrow>
     string_scan cs n = min (length (c_content cs)) (Suc VALUE_DIGEST_MAX_STRING)"
proof (induction cs n rule: string_scan.induct)
  case (1 cs n)
  show ?case
    using 1 by (subst string_scan.simps) (auto simp: c_char_content)
qed

lemma take_content: "take (length (c_content cs)) cs = c_content cs"
  by (metis c_content_def takeWhile_eq_take)

lemma hash_string_hashes:
  "vd.hashes (hash_string chars) (string_of chars \<noteq> None) (counted (the (string_of chars))) 0
     (length (the (string_of chars)))"
proof (cases chars)
  case None
  then show ?thesis by (simp add: hash_string_def string_of_def vd.hashes_def)
next
  case (Some cs)
  let ?n = "length (c_content cs)"
  show ?thesis
  proof (cases "?n \<le> VALUE_DIGEST_MAX_STRING")
    case True
    then have run: "hash_string chars = step_then (hash_word (of_nat ?n)) (\<lambda>_.
        step_then (hash_bytes (c_content cs)) (\<lambda>_. step_return ?n))"
      unfolding hash_string_def Some
      by (intro ext) (simp add: string_scan_value take_content min_def Let_def)
    have "vd.hashes (hash_string chars) (True \<and> True \<and> True)
        (word_bytes (of_nat ?n) @ c_content cs @ []) (0 + (0 + 0)) ?n"
      unfolding run
      by (rule vd.hashes_then [OF hash_word_hashes vd.hashes_then [OF vd.hashes_feed vd.hashes_return]])
    then show ?thesis using True Some by (simp add: string_of_def counted_def)
  next
    case False
    then have "hash_string chars = (\<lambda>d. (None, d))"
      unfolding hash_string_def Some by (intro ext) (simp add: string_scan_value min_def)
    with False Some show ?thesis by (simp add: string_of_def vd.hashes_def)
  qed
qed

section \<open>Spans\<close>

lemma count_words:
  fixes c :: u32
  assumes "0 \<le> sint c"
  shows "(scast c :: u64) = of_nat (nat (sint c))" and "(ucast c :: u64) = of_nat (nat (sint c))"
    and "nat (sint c) < 2 ^ 31" and "nat (sint c) = 0 \<longleftrightarrow> c = 0"
proof -
  have bound: "sint c < 2 ^ 31" using sint_range_size [of c] by (simp add: word_size)
  then show "nat (sint c) < 2 ^ 31" by simp
  show "(scast c :: u64) = of_nat (nat (sint c))"
    unfolding scast_eq of_nat_nat [OF assms] ..
  have "uint c = sint c" using bound assms by (subst uint_sint) (simp add: take_bit_int_eq_self)
  note same = this
  then have "unat c = nat (sint c)" by (simp only: unat_eq_nat_uint)
  then show "(ucast c :: u64) = of_nat (nat (sint c))" 
    using bound by (simp add: word_eq_nat unat_widen unat_of_nat take_bit_nat_eq_self)
  have "nat (sint c) = 0 \<longleftrightarrow> sint c = 0" using assms by linarith
  then show "nat (sint c) = 0 \<longleftrightarrow> c = 0" using same by (metis uint_0_iff)
qed

lemma count_value:
  fixes c :: u32
  assumes "0 \<le> sint c"
  shows "unat (scast c :: u64) = nat (sint c)"
proof -
  have "nat (sint c) < 2 ^ 64" using count_words(3) [OF assms] by simp
  then show ?thesis unfolding count_words(1) [OF assms] by (simp add: unat_of_nat take_bit_nat_eq_self)
qed

lemma nodes_positive: "0 < identity_nodes v"
  by (cases v rule: identity_nodes.cases) simp_all

text \<open>What \<open>hash_payload\<close> feeds: the encoding behind tag, name and type.\<close>

fun payload_bytes :: "identity \<Rightarrow> u8 list" where
  "payload_bytes (Leaf a b l) = encode_leaf l"
| "payload_bytes (Sequence a b vs) =
     word_bytes (of_nat (length vs)) @ word_bytes 0 @ concat (map encode_identity vs)"
| "payload_bytes (Struct a b vs) = word_bytes (of_nat (length vs)) @ concat (map encode_identity vs)"

definition below_hashes ::
    "(pointer \<Rightarrow> (ValueDigest, unit) step) \<Rightarrow> (pointer \<Rightarrow> identity option) \<Rightarrow> bool" where
  "below_hashes child below \<longleftrightarrow> (\<forall>q. vd.hashes (child q) (below q \<noteq> None) (encode_identity (the (below q)))
     (identity_nodes (the (below q))) ())"

lemma span_hashes:
  assumes "below_hashes child below"
  shows "vd.hashes (step_then (scan_rows (\<lambda>i. child (at i)) 0 n) (\<lambda>_. step_return ()))
     (those (map (\<lambda>i. below (at i)) [0..<n]) \<noteq> None)
     (concat (map encode_identity (the (those (map (\<lambda>i. below (at i)) [0..<n])))))
     (sum_list (map identity_nodes (the (those (map (\<lambda>i. below (at i)) [0..<n]))))) ()"
proof -
  let ?v = "\<lambda>i. the (below (at i))"
  have "vd.hashes (scan_rows (\<lambda>i. child (at i)) 0 n) (\<forall>i\<in>{0..<0 + n}. below (at i) \<noteq> None)
      (concat (map (\<lambda>i. encode_identity (?v i)) [0..<0 + n]))
      (sum_list (map (\<lambda>i. identity_nodes (?v i)) [0..<0 + n])) (map (\<lambda>i. ()) [0..<0 + n])"
    by (rule vd.hashes_rows) (use assms in \<open>simp add: below_hashes_def del: not_None_eq\<close>)
  note all = vd.hashes_then [OF this vd.hashes_return]
  show ?thesis
    by (rule vd.hashes_weaken [OF all]) (auto simp: those_map o_def)
qed

lemma sum_nodes_at_least: "length vs \<le> sum_list (map identity_nodes vs)"
proof (induction vs)
  case (Cons v vs)
  then show ?case using nodes_positive [of v] by simp
qed simp

text \<open>The count guard in front of a span never refuses a span whose nodes fit.\<close>

lemma guarded_span_hashes:
  fixes c :: u32
  assumes "below_hashes child below" and "0 \<le> sint c" and n: "n = nat (sint c)"
    and guard: "\<And>d. bad d \<longleftrightarrow> scast c > remaining_nodes d"
    and rest: "vd.hashes (f ()) (those (map (\<lambda>i. below (at i)) [0..<n]) \<noteq> None) e
      (sum_list (map identity_nodes (the (those (map (\<lambda>i. below (at i)) [0..<n]))))) x"
  shows "vd.hashes (step_then (unless bad) f) (those (map (\<lambda>i. below (at i)) [0..<n]) \<noteq> None) e
      (sum_list (map identity_nodes (the (those (map (\<lambda>i. below (at i)) [0..<n]))))) x"
proof (rule vd.hashes_guard)
  fix d m r
  assume fed: "value_fed d m r" and some: "those (map (\<lambda>i. below (at i)) [0..<n]) \<noteq> None"
    and room: "sum_list (map identity_nodes (the (those (map (\<lambda>i. below (at i)) [0..<n])))) \<le> r"
  from some obtain vs where vs: "those (map (\<lambda>i. below (at i)) [0..<n]) = Some vs" by auto
  have "n \<le> r" using room sum_nodes_at_least [of vs] those_length [OF vs] vs by simp
  then show "\<not> bad d"
    using fed count_value [OF assms(2)] guard [of d] n by (simp add: value_fed_def word_less_nat_alt)
qed (rule rest)

lemma hashes_never: "f = (\<lambda>d. (None, w d)) \<Longrightarrow> vd.hashes f False e n x"
  by (simp add: vd.hashes_refuse)

lemma struct_hashes:
  assumes below: "below_hashes child below" and tag: "value_type v = VAL_TYPE_STRUCT"
  shows "vd.hashes (hash_struct child v) (contents_of store below v a b \<noteq> None)
     (payload_bytes (the (contents_of store below v a b)))
     (identity_nodes (the (contents_of store below v a b)) - 1) ()"
proof (cases "usable_struct v")
  case False
  then have "hash_struct child v = (\<lambda>d. (None, d))"
    by (intro ext) (auto simp: hash_struct_def Let_def step_then_def step_require_def usable_struct_def)
  moreover have "contents_of store below v a b = None" using False tag by (simp add: contents_of_def)
  ultimately show ?thesis by (simp add: vd.hashes_refuse)
next
  case True
  define c n where "c = struct_count v" and "n = nat (sint (struct_count v))"
  let ?at = "span_at (struct_members v)"
  let ?all = "those (map (\<lambda>i. below (?at i)) [0..<n])"
  have c: "0 \<le> sint c" using True by (simp add: usable_struct_def c_def)
  have run: "hash_struct child v = step_then (unless (\<lambda>d. scast c > remaining_nodes d)) (\<lambda>_.
      step_then (hash_word (of_nat n)) (\<lambda>_.
      step_then (scan_rows (\<lambda>i. child (?at i)) 0 n) (\<lambda>_. step_return ())))"
    using True count_words(2) [OF c] unfolding hash_struct_def c_def n_def Let_def
    by (simp add: usable_struct_def not_less)
  have contents: "contents_of store below v a b = map_option (Struct a b) ?all"
    using True tag by (simp add: contents_of_def n_def)
  have "vd.hashes (step_then (hash_word (of_nat n)) (\<lambda>_.
      step_then (scan_rows (\<lambda>i. child (?at i)) 0 n) (\<lambda>_. step_return ())))
      (True \<and> ?all \<noteq> None) (word_bytes (of_nat n) @ concat (map encode_identity (the ?all)))
      (0 + sum_list (map identity_nodes (the ?all))) ()"
    by (rule vd.hashes_then, rule hash_word_hashes, rule span_hashes [OF below])
  then have rest: "vd.hashes (step_then (hash_word (of_nat n)) (\<lambda>_.
      step_then (scan_rows (\<lambda>i. child (?at i)) 0 n) (\<lambda>_. step_return ())))
      (?all \<noteq> None) (word_bytes (of_nat n) @ concat (map encode_identity (the ?all)))
      (sum_list (map identity_nodes (the ?all))) ()"
    by (simp only: simp_thms add_0)
  have "vd.hashes (hash_struct child v) (?all \<noteq> None)
      (word_bytes (of_nat n) @ concat (map encode_identity (the ?all)))
      (sum_list (map identity_nodes (the ?all))) ()"
    unfolding run by (rule guarded_span_hashes [OF below c]) (use rest in \<open>simp_all add: c_def n_def\<close>)
  moreover have "payload_bytes (the (contents_of store below v a b)) =
      word_bytes (of_nat n) @ concat (map encode_identity vs) \<and>
      identity_nodes (the (contents_of store below v a b)) - 1 = sum_list (map identity_nodes vs)"
    if "?all = Some vs" for vs
    using that those_length [OF that] by (simp add: contents)
  ultimately show ?thesis
    by (elim vd.hashes_weaken) (auto simp: contents)
qed

section \<open>Arrays\<close>

lemma plain_byte_checks:
  "\<not> (value_type v \<noteq> VAL_TYPE_INT \<or> \<not> integer_is_unsigned v \<or> scalar v > 255 \<or>
      value_name v = None \<or> value_type_str v = None \<or>
      \<not> c_equal (the (value_type_str v)) uint8_chars) \<longleftrightarrow> plain_byte v"
proof -
  have "c_content uint8_chars = uint8_chars" by (simp add: c_content_def uint8_chars_def)
  moreover have "scalar v > 255 \<longleftrightarrow> \<not> scalar v < 256" by (simp add: word_to_nat) linarith
  ultimately show ?thesis
    by (auto simp: plain_byte_def c_equal_def simp del: not_less)
qed

lemma expanded_bytes_plain:
  "expanded_bytes store v = list_all (\<lambda>i. plain_byte (array_element store v i)) [0..<array_length v]"
  unfolding expanded_bytes_def Let_def plain_byte_checks array_element_def array_length_def ..

lemma array_unusable:
  assumes "\<not> usable_array v"
  shows "hash_array store child v = (\<lambda>d. (None, d))"
  using assms unfolding hash_array_def usable_array_def
  by (intro ext) (auto simp: Let_def step_then_def step_require_def)

lemma array_run:
  assumes "usable_array v" and "c = array_count v" and "n = array_length v"
  shows "hash_array store child v = step_then (unless (\<lambda>d. scast c > remaining_nodes d)) (\<lambda>_.
     step_then (hash_word (of_nat n)) (\<lambda>_.
     if array_bytes store v \<noteq> None then
       step_then (hash_word 1) (\<lambda>_. step_then (spend (scast c)) (\<lambda>_.
         if array_storage v = TYPETREE_ARRAY_PACKED_BYTES \<and> c \<noteq> 0 then
           hash_bytes (map (the (packed_bytes v)) [0..<n])
         else step_then (scan_rows (\<lambda>i. hash_bytes [ucast (scalar (array_element store v i))]) 0 n)
           (\<lambda>_. step_return ())))
     else step_then (hash_word 0) (\<lambda>_. step_then (scan_rows (\<lambda>i. child (span_at (array_elements v) i)) 0 n)
       (\<lambda>_. step_return ()))))"
proof -
  have c: "0 \<le> sint c" using assms by (simp add: usable_array_def)
  have size: "ucast c = (of_nat n :: u64)" using count_words(2) [OF c] assms by (simp add: array_length_def)
  have first: "(sint c < 0 \<or> P) = P" for P
    using c by auto
  have second: "(if array_storage v = TYPETREE_ARRAY_PACKED_BYTES then c \<noteq> 0 \<and> packed_bytes v = None
      else array_storage v \<noteq> TYPETREE_ARRAY_VALUES \<or> (c \<noteq> 0 \<and> array_elements v = 0)) = False"
    using assms by (auto simp: usable_array_def)
  have flag: "(array_storage v = TYPETREE_ARRAY_PACKED_BYTES \<or> expanded_bytes store v) =
      (array_bytes store v \<noteq> None)"
    by (auto simp: array_bytes_def expanded_bytes_plain)
  show ?thesis
    unfolding hash_array_def Let_def assms(2) [symmetric] first second flag not_False_eq_True then_passed size
      array_element_def [symmetric] assms(3) array_length_def assms(2) [symmetric]
    by (simp cong: if_cong)
qed

lemma packed_or_expanded_hashes:
  assumes "array_bytes store v = Some bs" and "n = array_length v" and "c = array_count v" and "usable_array v"
  shows "vd.hashes (if array_storage v = TYPETREE_ARRAY_PACKED_BYTES \<and> c \<noteq> 0 then
         hash_bytes (map (the (packed_bytes v)) [0..<n])
       else step_then (scan_rows (\<lambda>i. hash_bytes [ucast (scalar (array_element store v i))]) 0 n)
         (\<lambda>_. step_return ())) True bs 0 ()"
proof (cases "array_storage v = TYPETREE_ARRAY_PACKED_BYTES \<and> c \<noteq> 0")
  case True
  then have "bs = map (the (packed_bytes v)) [0..<n]" using assms by (auto simp: array_bytes_def)
  with True show ?thesis using vd.hashes_feed [of bs] by simp
next
  case False
  have empty: "c = 0 \<Longrightarrow> n = 0"
    using assms count_words(4) [of c] by (simp add: usable_array_def array_length_def)
  have bytes: "bs = map (\<lambda>i. ucast (scalar (array_element store v i))) [0..<n]"
  proof (cases "array_storage v = TYPETREE_ARRAY_PACKED_BYTES")
    case True
    then have "n = 0" using False empty by simp
    with True assms(1,2) show ?thesis by (simp add: array_bytes_def)
  next
    case False
    with assms(1,2) show ?thesis by (simp add: array_bytes_def split: if_splits)
  qed
  let ?byte = "\<lambda>i. [ucast (scalar (array_element store v i))] :: u8 list"
  have rows: "vd.hashes (scan_rows (\<lambda>i. hash_bytes (?byte i)) 0 n) (\<forall>i\<in>{0..<0 + n}. True)
      (concat (map ?byte [0..<0 + n])) (sum_list (map (\<lambda>i. 0) [0..<0 + n])) (map (\<lambda>i. ()) [0..<0 + n])"
    by (rule vd.hashes_rows) (rule vd.hashes_feed)
  have "vd.hashes (step_then (scan_rows (\<lambda>i. hash_bytes (?byte i)) 0 n) (\<lambda>_. step_return ())) True bs 0 ()"
    by (rule vd.hashes_weaken [OF vd.hashes_then [OF rows vd.hashes_return]]) (simp_all add: bytes)
  with False show ?thesis by (simp only: if_False)
qed

lemma array_hashes:
  assumes below: "below_hashes child below" and tag: "value_type v = VAL_TYPE_ARRAY"
  shows "vd.hashes (hash_array store child v) (contents_of store below v a b \<noteq> None)
     (payload_bytes (the (contents_of store below v a b)))
     (identity_nodes (the (contents_of store below v a b)) - 1) ()"
proof (cases "usable_array v")
  case False
  then show ?thesis using array_unusable [OF False] tag by (simp add: contents_of_def vd.hashes_refuse)
next
  case True
  define c n where "c = array_count v" and "n = array_length v"
  note run = array_run [OF True c_def n_def, of store child]
  have c: "0 \<le> sint c" "n = nat (sint c)" using True by (simp_all add: usable_array_def c_def n_def array_length_def)
  show ?thesis
  proof (cases "array_bytes store v")
    case (Some bs)
    let ?feed = "if array_storage v = TYPETREE_ARRAY_PACKED_BYTES \<and> c \<noteq> 0 then
         hash_bytes (map (the (packed_bytes v)) [0..<n])
       else step_then (scan_rows (\<lambda>i. hash_bytes [ucast (scalar (array_element store v i))]) 0 n)
         (\<lambda>_. step_return ())"
    have size: "length bs = n" using Some by (auto simp: array_bytes_def n_def split: if_splits)
    have contents: "contents_of store below v a b = Some (Leaf a b (Bytes bs))"
      using True tag Some by (simp add: contents_of_def)
    have moved: "hash_array store child v = step_then (unless (\<lambda>d. scast c > remaining_nodes d)) (\<lambda>_.
        step_then (spend (scast c)) (\<lambda>_. step_then (hash_word (of_nat n)) (\<lambda>_. step_then (hash_word 1) (\<lambda>_. ?feed))))"
      unfolding run using Some by (simp only: option.distinct not_False_eq_True if_True spend_hash_word)
    have fed: "vd.hashes (step_then (hash_word (of_nat n)) (\<lambda>_. step_then (hash_word 1) (\<lambda>_. ?feed)))
        (True \<and> True \<and> True) (word_bytes (of_nat n) @ word_bytes 1 @ bs) (0 + (0 + 0)) ()"
      by (rule vd.hashes_then, rule hash_word_hashes, rule vd.hashes_then, rule hash_word_hashes,
          rule packed_or_expanded_hashes [OF Some n_def c_def True])
    have "vd.hashes (hash_array store child v) (True \<and> True \<and> True \<and> True)
        (word_bytes (of_nat n) @ word_bytes 1 @ bs) (unat (scast c :: u64) + (0 + (0 + 0))) ()"
      unfolding moved by (rule hashes_spend, simp add: not_less, rule fed)
    then show ?thesis
      by (rule vd.hashes_weaken) (simp_all add: contents size count_value [OF c(1)] c(2))
  next
    case None
    let ?at = "span_at (array_elements v)"
    let ?all = "those (map (\<lambda>i. below (?at i)) [0..<n])"
    have contents: "contents_of store below v a b = map_option (Sequence a b) ?all"
      using True tag None by (simp add: contents_of_def n_def)
    have "vd.hashes (step_then (hash_word (of_nat n)) (\<lambda>_. step_then (hash_word 0) (\<lambda>_.
        step_then (scan_rows (\<lambda>i. child (?at i)) 0 n) (\<lambda>_. step_return ()))))
        (True \<and> True \<and> ?all \<noteq> None)
        (word_bytes (of_nat n) @ word_bytes 0 @ concat (map encode_identity (the ?all)))
        (0 + (0 + sum_list (map identity_nodes (the ?all)))) ()"
      by (rule vd.hashes_then, rule hash_word_hashes, rule vd.hashes_then, rule hash_word_hashes,
          rule span_hashes [OF below])
    then have rest: "vd.hashes (step_then (hash_word (of_nat n)) (\<lambda>_. step_then (hash_word 0) (\<lambda>_.
        step_then (scan_rows (\<lambda>i. child (?at i)) 0 n) (\<lambda>_. step_return ()))))
        (?all \<noteq> None) (word_bytes (of_nat n) @ word_bytes 0 @ concat (map encode_identity (the ?all)))
        (sum_list (map identity_nodes (the ?all))) ()"
      by (simp only: simp_thms add_0)
    have "vd.hashes (hash_array store child v) (?all \<noteq> None)
        (word_bytes (of_nat n) @ word_bytes 0 @ concat (map encode_identity (the ?all)))
        (sum_list (map identity_nodes (the ?all))) ()"
      unfolding run
      by (rule guarded_span_hashes [OF below c]) (use rest None in simp_all)
    moreover have "payload_bytes (the (contents_of store below v a b)) =
        word_bytes (of_nat n) @ word_bytes 0 @ concat (map encode_identity vs) \<and>
        identity_nodes (the (contents_of store below v a b)) - 1 = sum_list (map identity_nodes vs)"
      if "?all = Some vs" for vs
      using that those_length [OF that] by (simp add: contents)
    ultimately show ?thesis
      by (elim vd.hashes_weaken) (auto simp: contents)
  qed
qed

section \<open>Values\<close>

lemma contents_shape:
  assumes "contents_of store below v a b = Some w"
  shows "encode_identity w =
      word_bytes (ucast (value_type v)) @ counted a @ counted b @ payload_bytes w"
  using assms
  by (auto simp: contents_of_def split: if_splits option.splits)

lemma leaf_hashes:
  assumes "vd.hashes f C (encode_leaf (the l)) 0 ()" and "C \<longleftrightarrow> l \<noteq> None"
    and "\<And>bs. l \<noteq> Some (Bytes bs)"
  shows "vd.hashes f (map_option (Leaf a b) l \<noteq> None) (payload_bytes (the (map_option (Leaf a b) l)))
     (identity_nodes (the (map_option (Leaf a b) l)) - 1) ()"
proof (rule vd.hashes_weaken [OF assms(1)])
  show "(map_option (Leaf a b) l \<noteq> None) = C" using assms(2) by simp
  assume C
  then obtain k where k: "l = Some k" using assms(2) by auto
  then show "payload_bytes (the (map_option (Leaf a b) l)) = encode_leaf (the l) \<and>
      identity_nodes (the (map_option (Leaf a b) l)) - 1 = 0 \<and> () = ()"
    using assms(3) by (cases k) auto
qed

lemma payload_hashes:
  assumes below: "below_hashes child below"
  shows "vd.hashes (hash_payload store child v) (contents_of store below v a b \<noteq> None)
     (payload_bytes (the (contents_of store below v a b)))
     (identity_nodes (the (contents_of store below v a b)) - 1) ()"
proof -
  consider (int) "value_type v = VAL_TYPE_INT" | (float) "value_type v = VAL_TYPE_FLOAT"
    | (string) "value_type v = VAL_TYPE_STRING" | (struct) "value_type v = VAL_TYPE_STRUCT"
    | (array) "value_type v = VAL_TYPE_ARRAY" | (none) "value_type v = VAL_TYPE_NONE"
    | (other) "value_type v \<notin> {0, 1, 2, 3, 4, 5}"
    by auto
  then show ?thesis
  proof cases
    case int
    let ?l = "Some (Integer (integer_is_unsigned v) (scalar v))"
    have contents: "contents_of store below v a b = map_option (Leaf a b) ?l"
      and run: "hash_payload store child v =
        step_then (hash_word (if integer_is_unsigned v then 1 else 0)) (\<lambda>_. hash_word (scalar v))"
      using int by (simp_all add: contents_of_def hash_payload_def)
    have "vd.hashes (hash_payload store child v) (True \<and> True)
        (word_bytes (if integer_is_unsigned v then 1 else 0) @ word_bytes (scalar v)) (0 + 0) ()"
      unfolding run by (rule vd.hashes_then, rule hash_word_hashes, rule hash_word_hashes)
    then show ?thesis unfolding contents by (intro leaf_hashes [where C = True]) simp_all
  next
    case float
    then have contents: "contents_of store below v a b = map_option (Leaf a b) (Some (Real (scalar v)))"
      and run: "hash_payload store child v = hash_word (scalar v)"
      by (simp_all add: contents_of_def hash_payload_def)
    show ?thesis unfolding contents run
      by (rule leaf_hashes [where C = True]) (simp_all add: hash_word_hashes)
  next
    case string
    define t where "t = the (string_of (string_val v))"
    define C where "C \<longleftrightarrow> string_of (string_val v) \<noteq> None \<and> unat (string_length v) = length t"
    let ?l = "if C then Some (Chars t) else None"
    have contents: "contents_of store below v a b = map_option (Leaf a b) ?l"
      using string by (auto simp: contents_of_def C_def t_def split: option.split)
    have run: "hash_payload store child v =
        step_then (hash_string (string_val v)) (\<lambda>n. unless (\<lambda>_. of_nat n \<noteq> string_length v))"
      using string by (simp add: hash_payload_def)
    have fits: "length t < 2 ^ 64" if "string_of (string_val v) \<noteq> None"
      using that by (auto simp: t_def string_of_def VALUE_DIGEST_MAX_STRING_def split: if_splits option.splits)
    then have same: "\<not> of_nat (length t) \<noteq> string_length v \<longleftrightarrow> unat (string_length v) = length t"
      if "string_of (string_val v) \<noteq> None"
      using fits [OF that] by (auto simp: word_eq_nat unat_of_nat take_bit_nat_eq_self)
    have C: "C \<longleftrightarrow> string_of (string_val v) \<noteq> None \<and> \<not> of_nat (length t) \<noteq> string_length v"
      using same unfolding C_def by blast
    have "vd.hashes (hash_payload store child v)
        (string_of (string_val v) \<noteq> None \<and> \<not> of_nat (length t) \<noteq> string_length v)
        (counted t @ []) (0 + 0) ()"
      unfolding run t_def by (rule vd.hashes_then, rule hash_string_hashes, rule hashes_unless)
    then have "vd.hashes (hash_payload store child v) C (encode_leaf (the ?l)) 0 ()"
      by (elim vd.hashes_weaken) (use C in auto)
    then show ?thesis unfolding contents by (rule leaf_hashes) (auto split: if_splits)
  next
    case struct
    then have "hash_payload store child v = hash_struct child v" by (simp add: hash_payload_def)
    with struct_hashes [OF below struct] show ?thesis by simp
  next
    case array
    then have "hash_payload store child v = hash_array store child v" by (simp add: hash_payload_def)
    with array_hashes [OF below array] show ?thesis by simp
  next
    case none
    then have contents: "contents_of store below v a b = map_option (Leaf a b) (Some Empty)"
      and run: "hash_payload store child v = step_return ()"
      by (simp_all add: contents_of_def hash_payload_def)
    show ?thesis unfolding contents run
      by (rule leaf_hashes [where C = True]) (use vd.hashes_return [of "()"] in simp_all)
  next
    case other
    then have "contents_of store below v a b = None" and "hash_payload store child v = (\<lambda>d. (None, d))"
      by (auto simp: contents_of_def hash_payload_def)
    then show ?thesis by (simp add: vd.hashes_refuse)
  qed
qed

lemma tag_range: "\<not> (t < VAL_TYPE_INT \<or> t > VAL_TYPE_NONE) \<longleftrightarrow> t \<in> {0, 1, 2, 3, 4, 5}" for t :: u32
proof
  assume "\<not> (t < VAL_TYPE_INT \<or> t > VAL_TYPE_NONE)"
  then have "unat t \<le> 5" by (simp add: word_to_nat)
  then have "unat t \<in> {0, 1, 2, 3, 4, 5}" by auto
  then show "t \<in> {0, 1, 2, 3, 4, 5}" by (auto simp: word_eq_nat)
qed auto

lemma contents_tag: "value_type v \<notin> {0, 1, 2, 3, 4, 5} \<Longrightarrow> contents_of store below v a b = None"
  by (auto simp: contents_of_def)

lemma hash_value_run:
  "hash_value store depth address =
     (if address = 0 \<or> depth \<ge> VALUE_DIGEST_MAX_DEPTH \<or> value_type (store address) \<notin> {0, 1, 2, 3, 4, 5}
      then (\<lambda>d. (None, d))
      else step_then (unless (\<lambda>d. remaining_nodes d = 0)) (\<lambda>_. step_then (spend 1) (\<lambda>_.
         step_then (hash_word (ucast (value_type (store address)))) (\<lambda>_.
         step_then (hash_string (value_name (store address))) (\<lambda>_.
         step_then (hash_string (value_type_str (store address))) (\<lambda>_.
         hash_payload store (hash_value store (depth + 1)) (store address)))))))"
proof (cases "address = 0 \<or> depth \<ge> VALUE_DIGEST_MAX_DEPTH \<or> value_type (store address) \<notin> {0, 1, 2, 3, 4, 5}")
  case True
  moreover have "hash_value store depth address d = (None, d)" for d
    using True tag_range [of "value_type (store address)"] by (subst hash_value.simps) auto
  ultimately show ?thesis by (intro ext) (simp only: if_True)
next
  case False
  then have range: "\<not> (value_type (store address) < VAL_TYPE_INT \<or> value_type (store address) > VAL_TYPE_NONE)"
    using tag_range by blast
  have "hash_value store depth address d = step_then (unless (\<lambda>d. remaining_nodes d = 0)) (\<lambda>_. step_then (spend 1) (\<lambda>_.
         step_then (hash_word (ucast (value_type (store address)))) (\<lambda>_.
         step_then (hash_string (value_name (store address))) (\<lambda>_.
         step_then (hash_string (value_type_str (store address))) (\<lambda>_.
         hash_payload store (hash_value store (depth + 1)) (store address)))))) d" for d
    using False range
    by (subst hash_value.simps) (simp add: Let_def step_then_def [of "unless _"] step_require_def del: Suc_eq_plus1 add_Suc_right)
  with False show ?thesis by (intro ext) (simp only: if_False)
qed

lemma hash_value_hashes:
  "vd.hashes (hash_value store depth address)
     (identity_at store (VALUE_DIGEST_MAX_DEPTH - depth) address \<noteq> None)
     (encode_identity (the (identity_at store (VALUE_DIGEST_MAX_DEPTH - depth) address)))
     (identity_nodes (the (identity_at store (VALUE_DIGEST_MAX_DEPTH - depth) address))) ()"
proof (induction "VALUE_DIGEST_MAX_DEPTH - depth" arbitrary: depth address)
  case 0
  then show ?case by (subst hash_value_run) (simp add: vd.hashes_refuse)
next
  case (Suc levels)
  define v where "v = store address"
  let ?below = "identity_at store levels"
  have depth: "levels = VALUE_DIGEST_MAX_DEPTH - (depth + 1)" "depth < VALUE_DIGEST_MAX_DEPTH"
    using Suc.hyps(2) by arith+
  have below: "below_hashes (hash_value store (depth + 1)) ?below"
    using Suc.hyps(1) [OF depth(1)] unfolding below_hashes_def depth(1) [symmetric] by blast
  define a b where "a = string_of (value_name v)" and "b = string_of (value_type_str v)"
  define w where "w = contents_of store ?below v (the a) (the b)"
  have identity: "identity_at store (Suc levels) address =
      (if address \<noteq> 0 \<and> a \<noteq> None \<and> b \<noteq> None then w else None)"
    by (auto simp: a_def b_def w_def v_def split: option.split)
  show ?case
  proof (cases "address = 0 \<or> value_type v \<notin> {0, 1, 2, 3, 4, 5}")
    case True
    then have "hash_value store depth address = (\<lambda>d. (None, d))"
      unfolding v_def by (subst hash_value_run) auto
    moreover have "identity_at store (Suc levels) address = None"
      using True contents_tag [of v] unfolding identity w_def by auto
    ultimately show ?thesis unfolding Suc.hyps(2) [symmetric] by (simp add: vd.hashes_refuse)
  next
    case False
    have run: "hash_value store depth address = step_then (unless (\<lambda>d. remaining_nodes d = 0)) (\<lambda>_.
         step_then (spend 1) (\<lambda>_. step_then (hash_word (ucast (value_type v))) (\<lambda>_.
         step_then (hash_string (value_name v)) (\<lambda>_. step_then (hash_string (value_type_str v)) (\<lambda>_.
         hash_payload store (hash_value store (depth + 1)) v)))))"
      using False depth(2) unfolding v_def by (subst hash_value_run) auto
    have "vd.hashes (step_then (hash_word (ucast (value_type v))) (\<lambda>_.
         step_then (hash_string (value_name v)) (\<lambda>_. step_then (hash_string (value_type_str v)) (\<lambda>_.
         hash_payload store (hash_value store (depth + 1)) v))))
       (True \<and> a \<noteq> None \<and> b \<noteq> None \<and> w \<noteq> None)
       (word_bytes (ucast (value_type v)) @ counted (the a) @ counted (the b) @ payload_bytes (the w))
       (0 + (0 + (0 + (identity_nodes (the w) - 1)))) ()"
      unfolding a_def b_def w_def
      by (rule vd.hashes_then, rule hash_word_hashes, rule vd.hashes_then, rule hash_string_hashes,
          rule vd.hashes_then, rule hash_string_hashes, rule payload_hashes [OF below])
    then have "vd.hashes (hash_value store depth address)
       (True \<and> True \<and> a \<noteq> None \<and> b \<noteq> None \<and> w \<noteq> None)
       (word_bytes (ucast (value_type v)) @ counted (the a) @ counted (the b) @ payload_bytes (the w))
       (unat (1 :: u64) + (0 + (0 + (0 + (identity_nodes (the w) - 1))))) ()"
      unfolding run by (intro hashes_spend) (auto simp: word_to_nat word_eq_nat)
    moreover have "encode_identity (the w) =
        word_bytes (ucast (value_type v)) @ counted (the a) @ counted (the b) @ payload_bytes (the w)"
      if "w \<noteq> None"
      using contents_shape that unfolding w_def by auto
    ultimately show ?thesis
      unfolding Suc.hyps(2) [symmetric] identity
      by (elim vd.hashes_weaken) (use False nodes_positive [of "the w"] in auto)
  qed
qed

end
