(* ===== verification/TreeValueIdentity.thy ===== *)
theory TreeValueIdentity
  imports TreeValueHash
begin

text \<open>
  The value digest is the hash of a value's identity: exactness, what equal digests say, and the
  independence from the storage of byte arrays.
\<close>

section \<open>The digest\<close>

text \<open>The identity of a value that the limits of the code admit.\<close>

definition value_identity :: "value_store \<Rightarrow> pointer \<Rightarrow> identity option" where
  "value_identity store address =
     (case identity_at store VALUE_DIGEST_MAX_DEPTH address of
        None \<Rightarrow> None
      | Some v \<Rightarrow> if identity_nodes v \<le> unat VALUE_DIGEST_MAX_NODES then Some v else None)"

definition identity_message :: "identity \<Rightarrow> u8 list" where
  "identity_message v = value_domain @ encode_identity v"

lemma digest_of_identity:
  "typetree_value_digest store address digest =
     (case (digest, value_identity store address) of
        (Some _, Some v) \<Rightarrow> Some (True, Some (sha256_digest (identity_message v)))
      | _ \<Rightarrow> Some (False, digest))"
proof (cases digest)
  case None
  then show ?thesis by (simp add: typetree_value_digest_def)
next
  case (Some old)
  define start where
    "start = \<lparr>hash = Some (common_sha256_init zero_sha_context), remaining_nodes = VALUE_DIGEST_MAX_NODES\<rparr>"
  define run where "run = step_then (hash_bytes value_domain) (\<lambda>_. hash_value store 0 address)"
  let ?v = "identity_at store VALUE_DIGEST_MAX_DEPTH address"
  have fed: "value_fed start [] (unat VALUE_DIGEST_MAX_NODES)"
    using init_represents [of zero_sha_context] by (auto simp: value_fed_def start_def zero_sha_context_def)
  have "vd.hashes run (True \<and> identity_at store (VALUE_DIGEST_MAX_DEPTH - 0) address \<noteq> None)
      (value_domain @ encode_identity (the (identity_at store (VALUE_DIGEST_MAX_DEPTH - 0) address)))
      (0 + identity_nodes (the (identity_at store (VALUE_DIGEST_MAX_DEPTH - 0) address))) ()"
    unfolding run_def by (rule vd.hashes_then, rule vd.hashes_feed, rule hash_value_hashes)
  then have hashes: "vd.hashes run (?v \<noteq> None) (value_domain @ encode_identity (the ?v)) (identity_nodes (the ?v)) ()"
    by (simp only: simp_thms diff_zero add_0)
  have digest: "typetree_value_digest store address digest =
      (case run start of (None, _) \<Rightarrow> Some (False, digest)
       | (Some _, d) \<Rightarrow> map_option (\<lambda>(bs, _). (True, Some bs)) (Option.bind (hash d) common_sha256_final))"
    unfolding typetree_value_digest_def run_def start_def Some Let_def by simp
  show ?thesis
  proof (cases "value_identity store address")
    case None
    then have "\<not> (?v \<noteq> None \<and> identity_nodes (the ?v) \<le> unat VALUE_DIGEST_MAX_NODES)"
      by (auto simp: value_identity_def split: option.splits if_splits)
    then have "fst (run start) = None" by (rule vd.hashes_failure [OF hashes fed])
    then show ?thesis unfolding digest using None Some by (cases "run start") simp
  next
    case (Some v)
    then have v: "?v = Some v" "identity_nodes v \<le> unat VALUE_DIGEST_MAX_NODES"
      by (auto simp: value_identity_def split: option.splits if_splits)
    then obtain d where "run start = (Some (), d)" "value_fed d ([] @ value_domain @ encode_identity v)
        (unat VALUE_DIGEST_MAX_NODES - identity_nodes v)"
      using vd.hashes_success [OF hashes fed] by auto
    moreover from this obtain c where "hash d = Some c" "represents c (identity_message v)"
      by (auto simp: value_fed_def identity_message_def)
    ultimately show ?thesis
      unfolding digest using final_digest [of c "identity_message v"] Some \<open>digest = Some old\<close>
      by (auto simp: map_option_case split: option.splits)
  qed
qed

text \<open>What the limits leave fits the counts of the encoding.\<close>

lemma string_fits: "string_of s = Some t \<Longrightarrow> fits t"
  by (auto simp: string_of_def VALUE_DIGEST_MAX_STRING_def split: option.splits if_splits)

lemma count_fits: "nat (sint (c :: u32)) < 2 ^ 64"
proof -
  have "sint c < 2 ^ 31" using sint_range_size [of c] by (simp add: word_size)
  then show ?thesis by simp
qed

lemma identity_at_fits: "identity_at store n p = Some v \<Longrightarrow> identity_fits v"
proof (induction n arbitrary: p v)
  case (Suc n)
  let ?r = "store p"
  obtain a b where ab: "string_of (value_name ?r) = Some a" "string_of (value_type_str ?r) = Some b"
    and c: "contents_of store (identity_at store n) ?r a b = Some v"
    using Suc.prems by (auto split: if_splits option.splits)
  have span: "fits vs \<and> list_all identity_fits vs"
    if "those (map (\<lambda>i. identity_at store n (at i)) [0..<nat (sint k)]) = Some vs" for at :: "nat \<Rightarrow> pointer" and k :: u32 and vs
  proof -
    have "list_all identity_fits vs"
      unfolding list_all_iff using those_member [OF that] Suc.IH by fastforce
    with those_length [OF that] count_fits [of k] show ?thesis by simp
  qed
  have "fits bs" if "array_bytes store ?r = Some bs" for bs
    using that count_fits [of "array_count ?r"] by (auto simp: array_bytes_def array_length_def split: if_splits)
  with c span ab [THEN string_fits] show ?case
    by (auto simp: contents_of_def array_length_def dest: string_fits split: if_splits option.splits)
qed simp

lemma value_identity_fits: "value_identity store p = Some v \<Longrightarrow> identity_fits v"
  by (auto simp: value_identity_def dest: identity_at_fits split: option.splits if_splits)

lemma identity_message_inject:
  "value_identity store p = Some v \<Longrightarrow> value_identity store' q = Some w \<Longrightarrow>
     identity_message v = identity_message w \<Longrightarrow> v = w"
  using encode_identity_inject [of v w "[]" "[]"] by (simp add: identity_message_def value_identity_fits)

section \<open>Storage of byte arrays\<close>

text \<open>
  Two stores that differ only in how byte arrays are stored: the same names, types and counts,
  and the same bytes, packed in one and perhaps expanded in the other.
\<close>

definition same_array :: "value_store \<Rightarrow> value_store \<Rightarrow> pointer \<Rightarrow> bool" where
  "same_array store store' p \<longleftrightarrow>
     value_type (store p) = VAL_TYPE_ARRAY \<and> value_type (store' p) = VAL_TYPE_ARRAY \<and>
     value_name (store' p) = value_name (store p) \<and> value_type_str (store' p) = value_type_str (store p) \<and>
     usable_array (store p) \<and> usable_array (store' p) \<and>
     array_bytes store (store p) \<noteq> None \<and> array_bytes store' (store' p) = array_bytes store (store p)"

definition repacked :: "value_store \<Rightarrow> value_store \<Rightarrow> bool" where
  "repacked store store' \<longleftrightarrow> (\<forall>p. store' p = store p \<or> same_array store store' p)"

lemma repacked_byte:
  assumes "repacked store store'"
  shows "plain_byte (store' p) = plain_byte (store p)"
    and "plain_byte (store p) \<Longrightarrow> store' p = store p"
proof -
  have "\<not> plain_byte (store p)" "\<not> plain_byte (store' p)" if "same_array store store' p"
    using that by (simp_all add: same_array_def plain_byte_def)
  then show "plain_byte (store' p) = plain_byte (store p)"
    and "plain_byte (store p) \<Longrightarrow> store' p = store p"
    using assms unfolding repacked_def by metis+
qed

lemma repacked_bytes:
  assumes "repacked store store'"
  shows "array_bytes store' (store p) = array_bytes store (store p)"
  using repacked_byte [OF assms]
  by (auto simp: array_bytes_def array_element_def list_all_iff)

lemma repacked_identity:
  assumes "repacked store store'"
  shows "identity_at store' n p = identity_at store n p"
proof (induction n arbitrary: p)
  case (Suc n)
  have below: "identity_at store' n = identity_at store n" using Suc.IH by blast
  show ?case
  proof (cases "store' p = store p")
    case True
    then show ?thesis
      using repacked_bytes [OF assms] by (simp add: below contents_of_def cong: option.case_cong if_cong)
  next
    case False
    then have "same_array store store' p" using assms by (auto simp: repacked_def)
    then show ?thesis
      by (auto simp: same_array_def contents_of_def split: option.split)
  qed
qed simp

lemma repacked_value_identity: "repacked store store' \<Longrightarrow> value_identity store' p = value_identity store p"
  by (simp add: value_identity_def repacked_identity)

text \<open>A structure that contains itself unfolds forever and has no identity.\<close>

lemma cycle_no_identity:
  assumes "value_type (store p) = VAL_TYPE_STRUCT" and "i < nat (sint (struct_count (store p)))"
    and "span_at (struct_members (store p)) i = p"
  shows "identity_at store n p = None"
proof (induction n)
  case (Suc n)
  have "those (map (\<lambda>j. identity_at store n (span_at (struct_members (store p)) j))
      [0..<nat (sint (struct_count (store p)))]) = None"
    using assms(2,3) Suc.IH by (auto simp: those_map intro!: bexI [of _ i])
  with assms(1) show ?case by (auto simp: contents_of_def split: option.split)
qed simp

section \<open>Correctness\<close>

text \<open>
  Property C10. The digest of a value is written exactly when the value has an identity within
  the limits: readable names, tags, counts and strings, fewer than 256 levels and at most
  1,048,576 nodes. It is then the standard hash of the domain and the encoding of that identity.
  Otherwise the routine reports failure and leaves the output, and it always returns without
  leaving the block buffer, whatever cycles the value has.
\<close>

theorem value_digest_exact:
  "typetree_value_digest store address digest =
     (case (digest, value_identity store address) of
        (Some _, Some v) \<Rightarrow> Some (True, Some (sha256_digest (identity_message v)))
      | _ \<Rightarrow> Some (False, digest))"
  by (rule digest_of_identity)

text \<open>
  Property C11. Two values with digests have the same identity only if their digests agree, and
  digests of different identities agree only by a collision of the hash function itself: the
  messages hashed then differ. In particular signedness, order, nesting, names and the bits of
  numbers all count.
\<close>

theorem value_digest_identifies:
  assumes "typetree_value_digest store p (Some old) = Some (True, Some h)"
    and "typetree_value_digest store' q (Some old') = Some (True, Some h')"
  shows "\<exists>v w. value_identity store p = Some v \<and> value_identity store' q = Some w \<and>
    (v = w \<longrightarrow> h = h') \<and>
    (h = h' \<longrightarrow> v = w \<or> identity_message v \<noteq> identity_message w \<and>
       sha256_digest (identity_message v) = sha256_digest (identity_message w))"
proof -
  from assms obtain v w where "value_identity store p = Some v" "value_identity store' q = Some w"
    "h = sha256_digest (identity_message v)" "h' = sha256_digest (identity_message w)"
    unfolding digest_of_identity by (auto split: option.splits)
  with identity_message_inject show ?thesis by blast
qed

text \<open>
  Repacking byte arrays anywhere in a store, from packed bytes to expanded elements
  or back, changes no digest.
\<close>

theorem value_digest_storage:
  assumes "repacked store store'"
  shows "typetree_value_digest store' address digest = typetree_value_digest store address digest"
  unfolding digest_of_identity repacked_value_identity [OF assms] ..

section \<open>Witnesses\<close>

definition sample_value :: "u32 \<Rightarrow> TypeTreeValue" where
  "sample_value tag =
     \<lparr>value_name = Some [0x61], value_type_str = Some uint8_chars, value_type = tag,
      integer_is_unsigned = True, string_length = 0, scalar = 7, string_val = None,
      array_elements = 128, array_count = 2, array_storage = TYPETREE_ARRAY_PACKED_BYTES,
      packed_bytes = Some (\<lambda>_. 7), struct_members = 0, struct_count = 0\<rparr>"

definition sample_store :: "u32 \<Rightarrow> value_store" where
  "sample_store storage address =
     (if address = 64 then (sample_value VAL_TYPE_ARRAY)\<lparr>array_storage := storage\<rparr>
      else sample_value VAL_TYPE_INT)"

lemma identity_at_below:
  "0 < n \<Longrightarrow> identity_at store n p =
     (if p = 0 then None
      else case (string_of (value_name (store p)), string_of (value_type_str (store p))) of
        (Some a, Some b) \<Rightarrow> contents_of store (identity_at store (n - 1)) (store p) a b
      | _ \<Rightarrow> None)"
  by (cases n) (simp_all split: option.split)

lemmas sample_simps = sample_store_def sample_value_def value_identity_def VALUE_DIGEST_MAX_DEPTH_def
  VALUE_DIGEST_MAX_NODES_def VALUE_DIGEST_MAX_STRING_def identity_at_below string_of_def c_content_def
  uint8_chars_def contents_of_def

lemma sample_number:
  "value_identity (sample_store 0) 128 = Some (Leaf [0x61] uint8_chars (Integer True 7))"
  by (simp add: sample_simps)

lemma sample_usable: "storage \<in> {0, 1} \<Longrightarrow> usable_array (sample_store storage 64)"
  by (auto simp: usable_array_def sample_simps)

lemma sample_bytes:
  "storage \<in> {0, 1} \<Longrightarrow> array_bytes (sample_store storage) (sample_store storage 64) = Some [7, 7]"
  by (auto simp: array_bytes_def array_length_def array_element_def plain_byte_def span_at_def SIZEOF_VALUE_def
      sample_simps upt_rec [of _ 2])

lemma sample_array:
  "value_identity (sample_store 1) 64 = Some (Leaf [0x61] uint8_chars (Bytes [7, 7]))"
  using sample_usable [of 1] sample_bytes [of 1]
  by (simp add: sample_simps)

theorem value_digest_identifies_witness:
  "\<exists>h h'. typetree_value_digest (sample_store 0) 128 (Some []) = Some (True, Some h) \<and>
     typetree_value_digest (sample_store 1) 64 (Some []) = Some (True, Some h') \<and>
     (h = h' \<longrightarrow> identity_message (Leaf [0x61] uint8_chars (Integer True 7)) \<noteq>
        identity_message (Leaf [0x61] uint8_chars (Bytes [7, 7])))"
proof -
  obtain h h' where "typetree_value_digest (sample_store 0) 128 (Some []) = Some (True, Some h)"
    and "typetree_value_digest (sample_store 1) 64 (Some []) = Some (True, Some h')"
    using sample_number sample_array by (simp add: digest_of_identity)
  with value_digest_identifies [OF this] sample_number sample_array show ?thesis by auto
qed

theorem value_digest_storage_witness:
  "typetree_value_digest (sample_store 0) 64 (Some []) = typetree_value_digest (sample_store 1) 64 (Some []) \<and>
     array_storage (sample_store 0 64) \<noteq> array_storage (sample_store 1 64)"
proof -
  have "same_array (sample_store 1) (sample_store 0) 64"
    unfolding same_array_def using sample_usable sample_bytes by (simp add: sample_store_def sample_value_def)
  then have "repacked (sample_store 1) (sample_store 0)"
    unfolding repacked_def by (auto simp: sample_store_def)
  from value_digest_storage [OF this] show ?thesis by (simp add: sample_store_def)
qed

end
