(* ===== verification/TreeSchemaDigest.thy ===== *)
theory TreeSchemaDigest
  imports DigestSteps
begin

text \<open>
  \<open>src/io/typetree_schema_profile.c\<close>: the digest of the resolved shape of a type tree and
  the table of schemas whose digests are known. The specification gives a schema its
  \<open>shape\<close>, with an encoding of its own.
\<close>

section \<open>Model of the code\<close>

text \<open>
  The records of \<open>io/typetree.h\<close>. An \<open>int\<close> or \<open>int32_t\<close> is its bit pattern, read with \<open>sint\<close>
  where its sign matters; an array behind a pointer gives every index its element, and the
  16-byte hashes are lists.
\<close>

record TypeTreeNode =
  node_version :: u16
  node_level :: u8
  node_type_flags :: u8
  node_type_str_offset :: u32
  node_name_str_offset :: u32
  node_byte_size :: u32
  node_index :: u32
  node_meta_flags :: u32
  node_ref_type_hash :: u64
  node_type_str :: c_string
  node_name_str :: c_string

record TypeTreeType =
  schema_type_id :: u32
  schema_is_stripped :: bool
  schema_script_type_index :: u16
  schema_script_id_hash :: "u8 list"
  schema_type_hash :: "u8 list"
  schema_node_count :: u32
  schema_nodes :: "(nat \<Rightarrow> TypeTreeNode) option"
  schema_string_buffer :: "u8 list"
  schema_dependency_count :: u32
  schema_dependencies :: "(nat \<Rightarrow> u32) option"
  schema_is_ref_type :: bool
  schema_ref_class_name :: c_string
  schema_ref_namespace :: c_string
  schema_ref_asm_name :: c_string

record KnownSchemaProfile =
  profile_version :: "u8 list"
  profile_class_id :: u32
  profile_type_hash :: "u8 list"
  profile_shape_digest :: "u8 list"

definition k_known_profiles :: "KnownSchemaProfile list" where
  "k_known_profiles =
   [\<lparr>profile_version = [0x32, 0x30, 0x32, 0x31, 0x2e, 0x33, 0x2e, 0x33, 0x35, 0x66, 0x31],
      profile_class_id = 21,
      profile_type_hash =
       [0xc6, 0x00, 0x98, 0xac, 0x66, 0xa2, 0x8b, 0x50, 0xaa, 0x05, 0x80, 0xdb, 0x11, 0xbf, 0x01, 0x8c],
      profile_shape_digest =
       [0x7c, 0x4d, 0x49, 0xa6, 0xd7, 0x8e, 0x0d, 0xd2, 0x96, 0xae, 0x76, 0x32, 0x68, 0x13, 0x69, 0x82,
        0x85, 0x2f, 0x7a, 0x62, 0xae, 0x8c, 0xde, 0x85, 0x39, 0x2e, 0xc0, 0xfa, 0x8d, 0xbb, 0x99, 0x8c]\<rparr>,
    \<lparr>profile_version = [0x32, 0x30, 0x32, 0x31, 0x2e, 0x33, 0x2e, 0x33, 0x35, 0x66, 0x31],
      profile_class_id = 48,
      profile_type_hash =
       [0xf0, 0xc1, 0x84, 0x27, 0x2a, 0x05, 0xe5, 0x44, 0x47, 0xe3, 0x63, 0x66, 0xec, 0x48, 0x76, 0xa6],
      profile_shape_digest =
       [0xb7, 0xfe, 0xd8, 0x65, 0xd8, 0x64, 0xaa, 0xea, 0xa7, 0x97, 0xdd, 0x36, 0x5f, 0x1c, 0x64, 0x6e,
        0x16, 0xaf, 0xcc, 0xbd, 0xc0, 0x45, 0x75, 0x5e, 0x9f, 0x6a, 0x83, 0x79, 0xb3, 0xd8, 0x7b, 0xfb]\<rparr>,
    \<lparr>profile_version = [0x32, 0x30, 0x32, 0x31, 0x2e, 0x33, 0x2e, 0x33, 0x35, 0x66, 0x31],
      profile_class_id = 142,
      profile_type_hash =
       [0x97, 0xda, 0x5f, 0x46, 0x88, 0xe4, 0x5a, 0x57, 0xc8, 0xb4, 0x2d, 0x4f, 0x42, 0x49, 0x72, 0x97],
      profile_shape_digest =
       [0x01, 0xe5, 0x6d, 0x4d, 0x77, 0xbc, 0xda, 0x8f, 0x7e, 0x6c, 0x35, 0x72, 0x61, 0x8b, 0x5a, 0x06,
        0x0e, 0x01, 0x5c, 0xb3, 0x8f, 0xc4, 0x5d, 0x80, 0x64, 0xc1, 0x33, 0xd2, 0x61, 0xa1, 0xd2, 0xd1]\<rparr>,
    \<lparr>profile_version = [0x32, 0x30, 0x32, 0x31, 0x2e, 0x33, 0x2e, 0x32, 0x39, 0x66, 0x31],
      profile_class_id = 48,
      profile_type_hash =
       [0xf0, 0xc1, 0x84, 0x27, 0x2a, 0x05, 0xe5, 0x44, 0x47, 0xe3, 0x63, 0x66, 0xec, 0x48, 0x76, 0xa6],
      profile_shape_digest =
       [0xb7, 0xfe, 0xd8, 0x65, 0xd8, 0x64, 0xaa, 0xea, 0xa7, 0x97, 0xdd, 0x36, 0x5f, 0x1c, 0x64, 0x6e,
        0x16, 0xaf, 0xcc, 0xbd, 0xc0, 0x45, 0x75, 0x5e, 0x9f, 0x6a, 0x83, 0x79, 0xb3, 0xd8, 0x7b, 0xfb]\<rparr>,
    \<lparr>profile_version = [0x32, 0x30, 0x32, 0x31, 0x2e, 0x33, 0x2e, 0x32, 0x39, 0x66, 0x31],
      profile_class_id = 21,
      profile_type_hash =
       [0xc6, 0x00, 0x98, 0xac, 0x66, 0xa2, 0x8b, 0x50, 0xaa, 0x05, 0x80, 0xdb, 0x11, 0xbf, 0x01, 0x8c],
      profile_shape_digest =
       [0x7c, 0x4d, 0x49, 0xa6, 0xd7, 0x8e, 0x0d, 0xd2, 0x96, 0xae, 0x76, 0x32, 0x68, 0x13, 0x69, 0x82,
        0x85, 0x2f, 0x7a, 0x62, 0xae, 0x8c, 0xde, 0x85, 0x39, 0x2e, 0xc0, 0xfa, 0x8d, 0xbb, 0x99, 0x8c]\<rparr>]"

text \<open>The context is lost (\<open>None\<close>) when an update leaves its block buffer.\<close>

type_synonym sha_state = "CommonSha256Context option"

definition hash_span :: "u8 list \<Rightarrow> (sha_state, unit) step" where
  "hash_span bs = step_modify (\<lambda>s. Option.bind s (\<lambda>c. common_sha256_update c bs))"

definition hash_u8 :: "u8 \<Rightarrow> (sha_state, unit) step" where
  "hash_u8 v = hash_span [v]"

definition hash_u16 :: "u16 \<Rightarrow> (sha_state, unit) step" where
  "hash_u16 v = hash_span [ucast v, ucast (drop_bit 8 v)]"

definition hash_u32 :: "u32 \<Rightarrow> (sha_state, unit) step" where
  "hash_u32 v = hash_span [ucast v, ucast (drop_bit 8 v), ucast (drop_bit 16 v), ucast (drop_bit 24 v)]"

definition hash_u64 :: "u64 \<Rightarrow> (sha_state, unit) step" where
  "hash_u64 v = hash_span (map (\<lambda>i. ucast (drop_bit (i * 8) v)) [0..<8])"

abbreviation UINT32_MAX :: nat where "UINT32_MAX \<equiv> 4294967295"

text \<open>\<open>strlen\<close>: the position of the terminator.\<close>

definition c_strlen :: "u8 list \<Rightarrow> nat" where
  "c_strlen s = length (c_content s)"

definition hash_name :: "c_string \<Rightarrow> (sha_state, unit) step" where
  "hash_name name s =
     (case name of
        None \<Rightarrow> (None, s)
      | Some cs \<Rightarrow>
          if c_strlen cs > UINT32_MAX then (None, s)
          else step_then (hash_u32 (of_nat (c_strlen cs))) (\<lambda>_. hash_span (take (c_strlen cs) cs)) s)"

definition hash_node :: "TypeTreeNode \<Rightarrow> (sha_state, unit) step" where
  "hash_node node =
     step_then (step_require (\<lambda>_. \<not> (node_type_str node = None \<or> node_name_str node = None)) (\<lambda>s. s)) (\<lambda>_.
     step_then (hash_u16 (node_version node)) (\<lambda>_.
     step_then (hash_u8 (node_level node)) (\<lambda>_.
     step_then (hash_u8 (node_type_flags node)) (\<lambda>_.
     step_then (hash_u32 (node_byte_size node)) (\<lambda>_.
     step_then (hash_u32 (node_index node)) (\<lambda>_.
     step_then (hash_u32 (node_meta_flags node)) (\<lambda>_.
     step_then (hash_u64 (node_ref_type_hash node)) (\<lambda>_.
     step_then (hash_name (node_type_str node)) (\<lambda>_. hash_name (node_name_str node))))))))))"

definition shape_domain :: "u8 list" where
  "shape_domain =
     [0x44, 0x58, 0x42, 0x43, 0x53, 0x61, 0x6e, 0x64, 0x62, 0x6f, 0x78, 0x2e, 0x54, 0x79, 0x70, 0x65,
      0x54, 0x72, 0x65, 0x65, 0x53, 0x65, 0x6d, 0x61, 0x6e, 0x74, 0x69, 0x63, 0x53, 0x68, 0x61, 0x70,
      0x65, 0x2e, 0x76, 0x31, 0x00]"

definition schema_readable :: "TypeTreeType \<Rightarrow> bool" where
  "schema_readable schema \<longleftrightarrow>
     \<not> (sint (schema_node_count schema) \<le> 0 \<or> schema_nodes schema = None \<or>
        sint (schema_dependency_count schema) < 0 \<or>
        (schema_dependency_count schema \<noteq> 0 \<and> schema_dependencies schema = None))"

definition hash_schema :: "TypeTreeType \<Rightarrow> (sha_state, unit) step" where
  "hash_schema schema =
     step_then (hash_span shape_domain) (\<lambda>_.
     step_then (hash_u32 (schema_type_id schema)) (\<lambda>_.
     step_then (hash_u8 (if schema_is_stripped schema then 1 else 0)) (\<lambda>_.
     step_then (hash_u16 (schema_script_type_index schema)) (\<lambda>_.
     step_then (hash_span (schema_script_id_hash schema)) (\<lambda>_.
     step_then (hash_span (schema_type_hash schema)) (\<lambda>_.
     step_then (hash_u32 (schema_node_count schema)) (\<lambda>_.
     step_then (scan_rows (\<lambda>i. hash_node (the (schema_nodes schema) i)) 0
       (nat (sint (schema_node_count schema)))) (\<lambda>_.
     step_then (hash_u32 (schema_dependency_count schema)) (\<lambda>_.
     step_then (scan_rows (\<lambda>i. hash_u32 (the (schema_dependencies schema) i)) 0
       (nat (sint (schema_dependency_count schema)))) (\<lambda>_.
     step_then (hash_u8 (if schema_is_ref_type schema then 1 else 0)) (\<lambda>_.
     if schema_is_ref_type schema then
       step_then (hash_name (schema_ref_class_name schema)) (\<lambda>_.
       step_then (hash_name (schema_ref_namespace schema)) (\<lambda>_.
       hash_name (schema_ref_asm_name schema)))
     else step_return ())))))))))))"

text \<open>
  What the routine returns and what it leaves at \<open>digest\<close> (\<open>None\<close> for the null pointer), from
  a context of arbitrary contents. The outer \<open>None\<close> would be an access outside its buffer.
\<close>

definition typetree_schema_shape_digest ::
    "CommonSha256Context \<Rightarrow> TypeTreeType option \<Rightarrow> u8 list option \<Rightarrow> (bool \<times> u8 list option) option" where
  "typetree_schema_shape_digest uninitialised schema digest =
     (if schema = None \<or> digest = None \<or> \<not> schema_readable (the schema) then Some (False, digest)
      else
        (case hash_schema (the schema) (Some (common_sha256_init uninitialised)) of
           (None, _) \<Rightarrow> Some (False, digest)
         | (Some _, s) \<Rightarrow>
             map_option (\<lambda>(bs, _). (True, Some bs)) (Option.bind s common_sha256_final)))"

datatype TypeTreeSchemaProfileResult =
  TYPETREE_SCHEMA_PROFILE_UNKNOWN | TYPETREE_SCHEMA_PROFILE_VALID | TYPETREE_SCHEMA_PROFILE_INVALID

definition profile_selected ::
    "(nat \<Rightarrow> u8) \<Rightarrow> u64 \<Rightarrow> u32 \<Rightarrow> (nat \<Rightarrow> u8) \<Rightarrow> KnownSchemaProfile \<Rightarrow> bool" where
  "profile_selected unity_version unity_version_size class_id type_hash profile \<longleftrightarrow>
     of_nat (c_strlen (profile_version profile)) = unity_version_size \<and>
     take (unat unity_version_size) (profile_version profile) = map unity_version [0..<unat unity_version_size] \<and>
     profile_class_id profile = class_id \<and> profile_type_hash profile = map type_hash [0..<16]"

definition typetree_schema_validate_known_profile ::
    "CommonSha256Context \<Rightarrow> u8 list \<Rightarrow> (nat \<Rightarrow> u8) option \<Rightarrow> u64 \<Rightarrow> u32 \<Rightarrow> (nat \<Rightarrow> u8) option \<Rightarrow>
     TypeTreeType option \<Rightarrow> TypeTreeSchemaProfileResult option" where
  "typetree_schema_validate_known_profile uninitialised actual unity_version unity_version_size class_id
     type_hash schema =
     (if unity_version = None \<or> type_hash = None \<or> schema = None then Some TYPETREE_SCHEMA_PROFILE_UNKNOWN
      else
        (case find (profile_selected (the unity_version) unity_version_size class_id (the type_hash))
                k_known_profiles of
           None \<Rightarrow> Some TYPETREE_SCHEMA_PROFILE_UNKNOWN
         | Some selected \<Rightarrow>
             map_option (\<lambda>(computed, digest).
               if \<not> computed \<or> digest \<noteq> Some (profile_shape_digest selected)
               then TYPETREE_SCHEMA_PROFILE_INVALID else TYPETREE_SCHEMA_PROFILE_VALID)
             (typetree_schema_shape_digest uninitialised schema (Some actual))))"

section \<open>Shapes\<close>

text \<open>What the digest identifies; the string table and the offsets into it are not part of it.\<close>

datatype node_shape = NodeShape u16 u8 u8 u32 u32 u32 u64 "u8 list" "u8 list"

datatype shape =
  Shape u32 bool u16 "u8 list" "u8 list" "node_shape list" "u32 list" "(u8 list \<times> u8 list \<times> u8 list) option"

definition name_of :: "c_string \<Rightarrow> u8 list option" where
  "name_of name =
     (case name of None \<Rightarrow> None
      | Some cs \<Rightarrow> if length (c_content cs) < 2 ^ 32 then Some (c_content cs) else None)"

definition node_shape_of :: "TypeTreeNode \<Rightarrow> node_shape option" where
  "node_shape_of node =
     (case (name_of (node_type_str node), name_of (node_name_str node)) of
        (Some t, Some n) \<Rightarrow>
          Some (NodeShape (node_version node) (node_level node) (node_type_flags node) (node_byte_size node)
            (node_index node) (node_meta_flags node) (node_ref_type_hash node) t n)
      | _ \<Rightarrow> None)"

definition reference_names :: "TypeTreeType \<Rightarrow> (u8 list \<times> u8 list \<times> u8 list) option option" where
  "reference_names schema =
     (if schema_is_ref_type schema then
        (case (name_of (schema_ref_class_name schema), name_of (schema_ref_namespace schema),
               name_of (schema_ref_asm_name schema)) of
           (Some c, Some n, Some a) \<Rightarrow> Some (Some (c, n, a))
         | _ \<Rightarrow> None)
      else Some None)"

definition schema_node_shapes :: "TypeTreeType \<Rightarrow> node_shape list option" where
  "schema_node_shapes schema =
     those (map (\<lambda>i. node_shape_of (the (schema_nodes schema) i)) [0..<nat (sint (schema_node_count schema))])"

definition shape_of :: "TypeTreeType \<Rightarrow> shape option" where
  "shape_of schema =
     (if \<not> schema_readable schema then None
      else case (schema_node_shapes schema, reference_names schema) of
        (Some nodes, Some names) \<Rightarrow>
          Some (Shape (schema_type_id schema) (schema_is_stripped schema) (schema_script_type_index schema)
            (schema_script_id_hash schema) (schema_type_hash schema) nodes
            (map (the (schema_dependencies schema)) [0..<nat (sint (schema_dependency_count schema))]) names)
      | _ \<Rightarrow> None)"

abbreviation flag_byte :: "bool \<Rightarrow> u8" where "flag_byte b \<equiv> (if b then 1 else 0)"

definition encode_name :: "u8 list \<Rightarrow> u8 list" where
  "encode_name bs = le_bytes 4 (of_nat (length bs) :: u32) @ bs"

fun encode_node :: "node_shape \<Rightarrow> u8 list" where
  "encode_node (NodeShape v l f z i m r t n) =
     le_bytes 2 v @ [l] @ [f] @ le_bytes 4 z @ le_bytes 4 i @ le_bytes 4 m @ le_bytes 8 r @
     encode_name t @ encode_name n"

fun encode_references :: "(u8 list \<times> u8 list \<times> u8 list) option \<Rightarrow> u8 list" where
  "encode_references None = [0]"
| "encode_references (Some (c, n, a)) = [1] @ encode_name c @ encode_name n @ encode_name a"

fun encode_shape :: "shape \<Rightarrow> u8 list" where
  "encode_shape (Shape t s x h k nodes deps names) =
     le_bytes 4 t @ [flag_byte s] @ le_bytes 2 x @ h @ k @
     le_bytes 4 (of_nat (length nodes) :: u32) @ concat (map encode_node nodes) @
     le_bytes 4 (of_nat (length deps) :: u32) @ concat (map (le_bytes 4) deps) @ encode_references names"

definition shape_message :: "shape \<Rightarrow> u8 list" where
  "shape_message shape = shape_domain @ encode_shape shape"

end
