(* ===== verification/TreeSchemaProfile.thy ===== *)
theory TreeSchemaProfile
  imports TreeSchemaDigest
begin

text \<open>
  The schema digest is the hash of a schema's shape, which the encoding determines, and the table
  of known profiles is a map from claimed identities to digests.
\<close>

section \<open>The encoding determines the shape\<close>

abbreviation short :: "'a list \<Rightarrow> bool" where "short xs \<equiv> length xs < 2 ^ 32"

fun node_short :: "node_shape \<Rightarrow> bool" where
  "node_short (NodeShape v l f z i m r t n) \<longleftrightarrow> short t \<and> short n"

fun references_short :: "(u8 list \<times> u8 list \<times> u8 list) option \<Rightarrow> bool" where
  "references_short None \<longleftrightarrow> True"
| "references_short (Some (c, n, a)) \<longleftrightarrow> short c \<and> short n \<and> short a"

fun shape_regular :: "shape \<Rightarrow> bool" where
  "shape_regular (Shape t s x h k nodes deps names) \<longleftrightarrow>
     length h = 16 \<and> length k = 16 \<and> short nodes \<and> short deps \<and>
     list_all node_short nodes \<and> references_short names"

lemma le_bytes_prefix:
  fixes v w :: "'a::len word"
  shows "LENGTH('a) \<le> 8 * n \<Longrightarrow> le_bytes n v @ s = le_bytes n w @ t \<longleftrightarrow> v = w \<and> s = t"
  using le_bytes_append_inject [of n v s w t] by auto

lemma le_bytes_eq:
  fixes v w :: "'a::len word"
  shows "LENGTH('a) \<le> 8 * n \<Longrightarrow> le_bytes n v = le_bytes n w \<longleftrightarrow> v = w"
  using le_bytes_inject [of n v w] by auto

lemmas field_prefix =
  le_bytes_eq [where 'a = 16 and n = 2, simplified]
  le_bytes_eq [where 'a = 32 and n = 4, simplified]
  le_bytes_eq [where 'a = 64 and n = 8, simplified]
  le_bytes_prefix [where 'a = 16 and n = 2, simplified]
  le_bytes_prefix [where 'a = 32 and n = 4, simplified]
  le_bytes_prefix [where 'a = 64 and n = 8, simplified]

lemma short_length: "short xs \<Longrightarrow> short ys \<Longrightarrow> (of_nat (length xs) :: u32) = of_nat (length ys) \<longleftrightarrow> length xs = length ys"
  by (simp add: word_of_nat_eq_iff take_bit_nat_eq_self)

lemma encode_name_prefix: "short a \<Longrightarrow> short b \<Longrightarrow> encode_name a @ s = encode_name b @ t \<longleftrightarrow> a = b \<and> s = t"
  by (auto simp: encode_name_def field_prefix short_length)

lemma encode_node_prefix:
  "node_short v \<Longrightarrow> node_short w \<Longrightarrow> encode_node v @ s = encode_node w @ t \<longleftrightarrow> v = w \<and> s = t"
  by (cases v; cases w) (auto simp: field_prefix encode_name_prefix)

lemma encode_references_inject:
  "references_short v \<Longrightarrow> references_short w \<Longrightarrow> encode_references v = encode_references w \<Longrightarrow> v = w"
  using encode_name_prefix [of _ _ "[]" "[]"]
  by (cases v rule: encode_references.cases; cases w rule: encode_references.cases)
    (auto simp: encode_name_prefix)

text \<open>Lists of self-delimiting fields of known number.\<close>

lemma concat_prefix:
  assumes "\<And>v w s t. P v \<Longrightarrow> P w \<Longrightarrow> f v @ s = f w @ t \<longleftrightarrow> v = w \<and> s = (t :: 'b list)"
    and "list_all P vs" and "list_all P ws" and "length vs = length ws"
    and "concat (map f vs) @ s = concat (map f ws) @ t"
  shows "vs = ws \<and> s = t"
  using assms(4,2,3,5)
proof (induction vs ws rule: list_induct2)
  case (Cons v vs w ws)
  then have "v = w \<and> concat (map f vs) @ s = concat (map f ws) @ t"
    using assms(1) [of v w] by simp
  with Cons show ?case by simp
qed simp

lemma encode_shape_inject:
  assumes "shape_regular v" and "shape_regular w" and same: "encode_shape v = encode_shape w"
  shows "v = w"
proof -
  obtain t s x h k nodes deps names where v: "v = Shape t s x h k nodes deps names" by (cases v)
  obtain t' s' x' h' k' nodes' deps' names' where w: "w = Shape t' s' x' h' k' nodes' deps' names'" by (cases w)
  have fixed: "length h = length h'" "length k = length k'" using assms(1,2) v w by simp_all
  have head: "t = t'" "s = s'" "x = x'" "h = h'" "k = k'" "length nodes = length nodes'"
    and tables: "concat (map encode_node nodes) @ le_bytes 4 (of_nat (length deps) :: u32) @
        concat (map (le_bytes 4) deps) @ encode_references names =
      concat (map encode_node nodes') @ le_bytes 4 (of_nat (length deps') :: u32) @
        concat (map (le_bytes 4) deps') @ encode_references names'"
    using same fixed assms(1,2) unfolding v w
    by (auto simp: field_prefix short_length append_eq_append_conv split: if_splits)
  have "nodes = nodes' \<and> le_bytes 4 (of_nat (length deps) :: u32) @
        concat (map (le_bytes 4) deps) @ encode_references names =
      le_bytes 4 (of_nat (length deps') :: u32) @ concat (map (le_bytes 4) deps') @ encode_references names'"
    by (rule concat_prefix [OF encode_node_prefix _ _ head(6) tables]) (use assms(1,2) v w in auto)
  moreover from this have deps: "length deps = length deps'"
    and last: "concat (map (le_bytes 4) deps) @ encode_references names =
      concat (map (le_bytes 4) deps') @ encode_references names'"
    using assms(1,2) unfolding v w by (simp_all add: field_prefix short_length)
  have "deps = deps' \<and> encode_references names = encode_references names'"
    by (rule concat_prefix [where P = "\<lambda>_. True", OF _ _ _ deps last]) (simp_all add: field_prefix list_all_iff)
  moreover from this have "names = names'"
    using encode_references_inject [of names names'] assms(1,2) unfolding v w by simp
  ultimately show ?thesis using head unfolding v w by simp
qed

lemma name_short: "name_of c = Some t \<Longrightarrow> short t"
  by (auto simp: name_of_def split: option.splits if_splits)

section \<open>Fed contexts\<close>

text \<open>The context has been fed a message; there is no budget.\<close>

definition context_fed :: "sha_state \<Rightarrow> u8 list \<Rightarrow> nat \<Rightarrow> bool" where
  "context_fed s m r \<longleftrightarrow> (\<exists>c. s = Some c \<and> represents c m)"

interpretation sd: digesting hash_span context_fed
proof
  fix s m r bs
  assume "context_fed s m r"
  then obtain c where c: "s = Some c" "represents c m" by (auto simp: context_fed_def)
  with update_represents [of c m bs]
  show "\<exists>s'. hash_span bs s = (Some (), s') \<and> context_fed s' (m @ bs) r"
    by (auto simp: hash_span_def step_modify_def context_fed_def)
qed

text \<open>Feeding a field, with the routine that follows it; nothing spends nodes here.\<close>

abbreviation writes :: "(sha_state, 'a) step \<Rightarrow> bool \<Rightarrow> u8 list \<Rightarrow> 'a \<Rightarrow> bool" where
  "writes f C e x \<equiv> sd.hashes f C e 0 x"

lemma writes_then:
  "writes m C e x \<Longrightarrow> writes (f x) D e' y \<Longrightarrow> writes (step_then m f) (C \<and> D) (e @ e') y"
  using sd.hashes_then [of m C e 0 x f D e' 0 y] by simp

lemma writes_u8: "writes (hash_u8 v) True [v] ()"
  unfolding hash_u8_def by (rule sd.hashes_feed)

lemma writes_u16: "writes (hash_u16 v) True (le_bytes 2 v) ()"
  using sd.hashes_feed [of "le_bytes 2 v"] by (simp add: hash_u16_def le_bytes_def upt_rec)

lemma writes_u32: "writes (hash_u32 v) True (le_bytes 4 v) ()"
  using sd.hashes_feed [of "le_bytes 4 v"] by (simp add: hash_u32_def le_bytes_def upt_rec)

lemma writes_u64: "writes (hash_u64 v) True (le_bytes 8 v) ()"
  using sd.hashes_feed [of "le_bytes 8 v"] by (simp add: hash_u64_def le_bytes_def mult.commute)

lemma writes_name: "writes (hash_name c) (name_of c \<noteq> None) (encode_name (the (name_of c))) ()"
proof (cases "name_of c")
  case None
  then have "hash_name c = (\<lambda>s. (None, s))"
    by (intro ext) (auto simp: hash_name_def name_of_def c_strlen_def split: option.splits if_splits)
  then show ?thesis using None by (simp add: sd.hashes_refuse)
next
  case (Some t)
  then obtain cs where cs: "c = Some cs" "t = c_content cs" "short t"
    by (auto simp: name_of_def split: option.splits if_splits)
  have "take (length (c_content cs)) cs = c_content cs" by (metis c_content_def takeWhile_eq_take)
  then have "hash_name c = step_then (hash_u32 (of_nat (length t))) (\<lambda>_. hash_span t)"
    using cs by (intro ext) (simp add: hash_name_def c_strlen_def)
  then show ?thesis
    using writes_then [OF writes_u32 sd.hashes_feed] Some by (simp add: encode_name_def)
qed

lemmas field_writes = writes_u8 writes_u16 writes_u32 writes_u64 writes_name sd.hashes_feed sd.hashes_return

lemma writes_node:
  "writes (hash_node v) (node_shape_of v \<noteq> None) (encode_node (the (node_shape_of v))) ()"
proof -
  have "writes (hash_node v)
     (\<not> (node_type_str v = None \<or> node_name_str v = None) \<and> True \<and> True \<and> True \<and> True \<and> True \<and> True \<and> True \<and>
        name_of (node_type_str v) \<noteq> None \<and> name_of (node_name_str v) \<noteq> None)
     ([] @ le_bytes 2 (node_version v) @ [node_level v] @ [node_type_flags v] @ le_bytes 4 (node_byte_size v) @
        le_bytes 4 (node_index v) @ le_bytes 4 (node_meta_flags v) @ le_bytes 8 (node_ref_type_hash v) @
        encode_name (the (name_of (node_type_str v))) @ encode_name (the (name_of (node_name_str v)))) ()"
    unfolding hash_node_def by (rule writes_then sd.hashes_require field_writes)+
  then show ?thesis
    by (elim sd.hashes_weaken) (auto simp: node_shape_of_def name_of_def split: option.splits if_splits)
qed

lemma writes_rows:
  assumes row: "\<And>i. writes (row i) (f i \<noteq> None) (e (the (f i))) ()" and rest: "writes g D e2 x"
  shows "writes (step_then (scan_rows row 0 n) (\<lambda>_. g)) (those (map f [0..<n]) \<noteq> None \<and> D)
    (concat (map e (the (those (map f [0..<n])))) @ e2) x"
proof -
  have rows: "writes (scan_rows row 0 n) (\<forall>i\<in>{0..<0 + n}. f i \<noteq> None)
      (concat (map (\<lambda>i. e (the (f i))) [0..<0 + n])) (map (\<lambda>i. ()) [0..<0 + n])"
    using sd.hashes_rows [of 0 n row "\<lambda>i. f i \<noteq> None" "\<lambda>i. e (the (f i))" "\<lambda>_. 0" "\<lambda>_. ()"] row
    by simp
  show ?thesis
    by (rule sd.hashes_weaken [OF writes_then [OF rows rest]]) (auto simp: those_map o_def)
qed

definition dependency_list :: "TypeTreeType \<Rightarrow> u32 list" where
  "dependency_list schema =
     map (the (schema_dependencies schema)) [0..<nat (sint (schema_dependency_count schema))]"

lemma writes_dependencies:
  assumes "writes g D e2 x"
  shows "writes (step_then (scan_rows (\<lambda>i. hash_u32 (the (schema_dependencies schema) i)) 0
       (nat (sint (schema_dependency_count schema)))) (\<lambda>_. g)) D
     (concat (map (le_bytes 4) (dependency_list schema)) @ e2) x"
proof -
  let ?d = "\<lambda>i. the (schema_dependencies schema) i"
  have all: "those (map (\<lambda>i. Some (?d i)) ns) = Some (map ?d ns)" for ns
    by (simp add: those_map)
  have "writes (step_then (scan_rows (\<lambda>i. hash_u32 (?d i)) 0 (nat (sint (schema_dependency_count schema)))) (\<lambda>_. g))
      (those (map (\<lambda>i. Some (?d i)) [0..<nat (sint (schema_dependency_count schema))]) \<noteq> None \<and> D)
      (concat (map (le_bytes 4) (the (those (map (\<lambda>i. Some (?d i)) [0..<nat (sint (schema_dependency_count schema))])))) @ e2) x"
    by (rule writes_rows [OF _ assms]) (simp add: writes_u32)
  then show ?thesis unfolding all dependency_list_def by simp
qed

lemma writes_references:
  "writes (step_then (hash_u8 (if schema_is_ref_type schema then 1 else 0)) (\<lambda>_.
     if schema_is_ref_type schema then
       step_then (hash_name (schema_ref_class_name schema)) (\<lambda>_.
       step_then (hash_name (schema_ref_namespace schema)) (\<lambda>_.
       hash_name (schema_ref_asm_name schema)))
     else step_return ()))
   (reference_names schema \<noteq> None) (encode_references (the (reference_names schema))) ()"
proof (cases "schema_is_ref_type schema")
  case True
  have "writes (step_then (hash_u8 1) (\<lambda>_. step_then (hash_name (schema_ref_class_name schema)) (\<lambda>_.
       step_then (hash_name (schema_ref_namespace schema)) (\<lambda>_. hash_name (schema_ref_asm_name schema)))))
     (True \<and> name_of (schema_ref_class_name schema) \<noteq> None \<and> name_of (schema_ref_namespace schema) \<noteq> None \<and>
        name_of (schema_ref_asm_name schema) \<noteq> None)
     ([1] @ encode_name (the (name_of (schema_ref_class_name schema))) @
        encode_name (the (name_of (schema_ref_namespace schema))) @
        encode_name (the (name_of (schema_ref_asm_name schema)))) ()"
    by (rule writes_then field_writes)+
  then show ?thesis
    unfolding eqTrueI [OF True] if_True
    by (elim sd.hashes_weaken) (use True in \<open>auto simp: reference_names_def split: option.splits\<close>)
next
  case False
  have "writes (step_then (hash_u8 0) (\<lambda>_. step_return ())) (True \<and> True) ([0] @ []) ()"
    by (rule writes_then field_writes)+
  with False show ?thesis by (simp add: reference_names_def)
qed

lemma node_count_words:
  fixes c :: u32
  assumes "0 \<le> sint c"
  shows "(of_nat (nat (sint c)) :: u32) = c"
  using assms by (simp add: of_nat_nat)

lemma writes_schema:
  assumes "schema_readable schema"
  shows "writes (hash_schema schema) (shape_of schema \<noteq> None) (shape_message (the (shape_of schema))) ()"
proof -
  let ?s = schema
  let ?nodes = "schema_node_shapes ?s"
  let ?rest = "step_then (hash_u8 (if schema_is_ref_type ?s then 1 else 0)) (\<lambda>_.
     if schema_is_ref_type ?s then
       step_then (hash_name (schema_ref_class_name ?s)) (\<lambda>_.
       step_then (hash_name (schema_ref_namespace ?s)) (\<lambda>_. hash_name (schema_ref_asm_name ?s)))
     else step_return ())"
  let ?tables = "step_then (scan_rows (\<lambda>i. hash_node (the (schema_nodes ?s) i)) 0
       (nat (sint (schema_node_count ?s)))) (\<lambda>_.
     step_then (hash_u32 (schema_dependency_count ?s)) (\<lambda>_.
     step_then (scan_rows (\<lambda>i. hash_u32 (the (schema_dependencies ?s) i)) 0
       (nat (sint (schema_dependency_count ?s)))) (\<lambda>_. ?rest)))"
  have tables: "writes ?tables (?nodes \<noteq> None \<and> True \<and> reference_names ?s \<noteq> None)
     (concat (map encode_node (the ?nodes)) @ le_bytes 4 (schema_dependency_count ?s) @
      concat (map (le_bytes 4) (dependency_list ?s)) @ encode_references (the (reference_names ?s))) ()"
    unfolding schema_node_shapes_def
    by (rule writes_rows [where f = "\<lambda>i. node_shape_of (the (schema_nodes ?s) i)"], rule writes_node,
        rule writes_then, rule writes_u32, rule writes_dependencies, rule writes_references)
  have "writes (hash_schema ?s)
     (True \<and> True \<and> True \<and> True \<and> True \<and> True \<and> True \<and> ?nodes \<noteq> None \<and> True \<and> reference_names ?s \<noteq> None)
     (shape_domain @ le_bytes 4 (schema_type_id ?s) @ [flag_byte (schema_is_stripped ?s)] @
      le_bytes 2 (schema_script_type_index ?s) @ schema_script_id_hash ?s @ schema_type_hash ?s @
      le_bytes 4 (schema_node_count ?s) @
      concat (map encode_node (the ?nodes)) @ le_bytes 4 (schema_dependency_count ?s) @
      concat (map (le_bytes 4) (dependency_list ?s)) @ encode_references (the (reference_names ?s))) ()"
    unfolding hash_schema_def
    by (rule writes_then, rule sd.hashes_feed, rule writes_then, rule writes_u32, rule writes_then,
        rule writes_u8, rule writes_then, rule writes_u16, rule writes_then, rule sd.hashes_feed,
        rule writes_then, rule sd.hashes_feed, rule writes_then, rule writes_u32, rule tables)
  moreover have "shape_message (the (shape_of ?s)) =
     shape_domain @ le_bytes 4 (schema_type_id ?s) @ [flag_byte (schema_is_stripped ?s)] @
      le_bytes 2 (schema_script_type_index ?s) @ schema_script_id_hash ?s @ schema_type_hash ?s @
      le_bytes 4 (schema_node_count ?s) @
      concat (map encode_node (the ?nodes)) @ le_bytes 4 (schema_dependency_count ?s) @
      concat (map (le_bytes 4) (dependency_list ?s)) @ encode_references (the (reference_names ?s))"
    if "?nodes = Some nodes" "reference_names ?s = Some names" for nodes names
  proof -
    have "length nodes = nat (sint (schema_node_count ?s))"
      using those_length [OF that(1) [unfolded schema_node_shapes_def]] by simp
    then have "(of_nat (length nodes) :: u32) = schema_node_count ?s"
      using assms node_count_words [of "schema_node_count ?s"] by (simp add: schema_readable_def)
    moreover have "(of_nat (length (dependency_list ?s)) :: u32) = schema_dependency_count ?s"
      using assms node_count_words [of "schema_dependency_count ?s"]
      by (simp add: schema_readable_def dependency_list_def)
    ultimately show ?thesis
      using assms that by (simp add: shape_of_def shape_message_def dependency_list_def [symmetric])
  qed
  moreover have "shape_of ?s \<noteq> None \<longleftrightarrow> ?nodes \<noteq> None \<and> reference_names ?s \<noteq> None"
    using assms by (auto simp: shape_of_def split: option.split)
  ultimately show ?thesis by (elim sd.hashes_weaken) auto
qed

lemma digest_of_shape:
  assumes "length (block uninitialised) = 64"
  shows "typetree_schema_shape_digest uninitialised schema digest =
     (case (digest, Option.bind schema shape_of) of
        (Some _, Some shape) \<Rightarrow> Some (True, Some (sha256_digest (shape_message shape)))
      | _ \<Rightarrow> Some (False, digest))"
proof (cases "schema = None \<or> digest = None \<or> \<not> schema_readable (the schema)")
  case True
  then show ?thesis
    by (cases schema; cases digest) (auto simp: typetree_schema_shape_digest_def shape_of_def)
next
  case False
  then obtain s old where s: "schema = Some s" "digest = Some old" "schema_readable s" by auto
  let ?start = "Some (common_sha256_init uninitialised)"
  have fed: "context_fed ?start [] 0"
    using init_represents [OF assms] by (simp add: context_fed_def)
  have digest: "typetree_schema_shape_digest uninitialised schema digest =
      (case hash_schema s ?start of
         (None, _) \<Rightarrow> Some (False, digest)
       | (Some _, s) \<Rightarrow> map_option (\<lambda>(bs, _). (True, Some bs)) (Option.bind s common_sha256_final))"
    using False unfolding typetree_schema_shape_digest_def s by simp
  show ?thesis
  proof (cases "shape_of s")
    case None
    then have "fst (hash_schema s ?start) = None"
      using sd.hashes_failure [OF writes_schema [OF s(3)] fed] by simp
    then show ?thesis unfolding digest using None s by (cases "hash_schema s ?start") simp
  next
    case (Some shape)
    then obtain u where "hash_schema s ?start = (Some (), u)" "context_fed u (shape_message shape) 0"
      using sd.hashes_success [OF writes_schema [OF s(3)] fed] by auto
    moreover from this obtain c where "u = Some c" "represents c (shape_message shape)"
      by (auto simp: context_fed_def)
    ultimately show ?thesis
      unfolding digest using final_digest [of c "shape_message shape"] Some s
      by (auto simp: map_option_case split: option.splits)
  qed
qed

text \<open>A schema whose hashes have their sixteen bytes has a regular shape.\<close>

definition schema_regular :: "TypeTreeType \<Rightarrow> bool" where
  "schema_regular schema \<longleftrightarrow>
     length (schema_script_id_hash schema) = 16 \<and> length (schema_type_hash schema) = 16"

lemma count_short: "nat (sint (c :: u32)) < 2 ^ 32"
proof -
  have "sint c < 2 ^ 31" using sint_range_size [of c] by (simp add: word_size)
  then show ?thesis by simp
qed

lemma node_shape_short: "node_shape_of v = Some s \<Longrightarrow> node_short s"
  by (auto simp: node_shape_of_def dest!: name_short split: option.splits)

lemma shape_of_regular:
  assumes "schema_regular schema" and "shape_of schema = Some shape"
  shows "shape_regular shape"
proof -
  obtain nodes names where parts: "schema_node_shapes schema = Some nodes" "reference_names schema = Some names"
    and shape: "shape = Shape (schema_type_id schema) (schema_is_stripped schema)
      (schema_script_type_index schema) (schema_script_id_hash schema) (schema_type_hash schema) nodes
      (dependency_list schema) names"
    using assms(2) by (auto simp: shape_of_def dependency_list_def split: if_splits option.splits)
  have "short nodes" "short (dependency_list schema)"
    using those_length [OF parts(1) [unfolded schema_node_shapes_def]] count_short
    by (simp_all add: dependency_list_def)
  moreover have "list_all node_short nodes"
    unfolding list_all_iff
    using those_member [OF parts(1) [unfolded schema_node_shapes_def]] node_shape_short by fastforce
  moreover have "references_short names"
    using parts(2) by (auto simp: reference_names_def dest!: name_short split: if_splits option.splits)
  ultimately show ?thesis using assms(1) unfolding shape schema_regular_def by simp
qed

lemma shape_message_inject:
  "schema_regular s \<Longrightarrow> schema_regular t \<Longrightarrow> shape_of s = Some v \<Longrightarrow> shape_of t = Some w \<Longrightarrow>
     shape_message v = shape_message w \<Longrightarrow> v = w"
  using encode_shape_inject [of v w] by (simp add: shape_message_def shape_of_regular)

section \<open>Known profiles\<close>

text \<open>The table as a map from what a caller claims to the digest its schema must have.\<close>

type_synonym profile_key = "u8 list \<times> u32 \<times> u8 list"

definition profile_key :: "KnownSchemaProfile \<Rightarrow> profile_key" where
  "profile_key profile = (profile_version profile, profile_class_id profile, profile_type_hash profile)"

definition known_digest :: "profile_key \<Rightarrow> u8 list option" where
  "known_digest key = map_of (map (\<lambda>p. (profile_key p, profile_shape_digest p)) k_known_profiles) key"

definition claimed_key :: "(nat \<Rightarrow> u8) \<Rightarrow> u64 \<Rightarrow> u32 \<Rightarrow> (nat \<Rightarrow> u8) \<Rightarrow> profile_key" where
  "claimed_key unity_version unity_version_size class_id type_hash =
     (map unity_version [0..<unat unity_version_size], class_id, map type_hash [0..<16])"

definition shape_hash :: "TypeTreeType \<Rightarrow> u8 list option" where
  "shape_hash schema = map_option (\<lambda>shape. sha256_digest (shape_message shape)) (shape_of schema)"

lemma known_versions: "list_all (\<lambda>p. 0 \<notin> set (profile_version p) \<and> length (profile_version p) = 11) k_known_profiles"
  by (simp add: k_known_profiles_def)

lemma selected_key:
  assumes "p \<in> set k_known_profiles"
  shows "profile_selected v n c h p \<longleftrightarrow> profile_key p = claimed_key v n c h"
proof -
  from assms known_versions have "\<forall>b\<in>set (profile_version p). b \<noteq> 0" and eleven: "length (profile_version p) = 11"
    by (auto simp: list_all_iff)
  then have "c_content (profile_version p) = profile_version p"
    by (simp only: c_content_def takeWhile_eq_all_conv)
  with eleven have version: "c_strlen (profile_version p) = length (profile_version p)" "length (profile_version p) = 11"
    by (simp_all add: c_strlen_def)
  have "of_nat (c_strlen (profile_version p)) = n \<longleftrightarrow> unat n = 11"
    unfolding version by (auto simp: word_eq_nat)
  moreover have "profile_version p = map v [0..<unat n] \<Longrightarrow> unat n = 11"
    using version(2) by simp
  ultimately show ?thesis
    using version(2) by (auto simp: profile_selected_def profile_key_def claimed_key_def)
qed

lemma find_map_of:
  "(\<And>x. x \<in> set xs \<Longrightarrow> P x \<longleftrightarrow> f x = k) \<Longrightarrow> map_of (map (\<lambda>x. (f x, g x)) xs) k = map_option g (find P xs)"
  by (induction xs) auto

lemma known_digest_find:
  "known_digest (claimed_key v n c h) = map_option profile_shape_digest (find (profile_selected v n c h) k_known_profiles)"
  unfolding known_digest_def by (rule find_map_of) (rule selected_key)

lemma validate_by_key:
  assumes "length (block uninitialised) = 64"
  shows "typetree_schema_validate_known_profile uninitialised actual (Some v) n c (Some h) (Some schema) =
     Some (case known_digest (claimed_key v n c h) of
        None \<Rightarrow> TYPETREE_SCHEMA_PROFILE_UNKNOWN
      | Some d \<Rightarrow> if shape_hash schema = Some d then TYPETREE_SCHEMA_PROFILE_VALID
          else TYPETREE_SCHEMA_PROFILE_INVALID)"
  unfolding known_digest_find typetree_schema_validate_known_profile_def digest_of_shape [OF assms] shape_hash_def
  by (auto split: option.splits)

section \<open>Correctness\<close>

text \<open>
  The digest of a schema is written exactly when it has a shape: positive node
  count, readable tables and names shorter than 4 GiB. It is then the standard hash of the domain
  and the encoding of that shape, whatever the context held before; otherwise the routine
  reports failure and leaves the output.
\<close>

theorem shape_digest_exact:
  assumes "length (block uninitialised) = 64"
  shows "typetree_schema_shape_digest uninitialised schema digest =
     (case (digest, Option.bind schema shape_of) of
        (Some _, Some shape) \<Rightarrow> Some (True, Some (sha256_digest (shape_message shape)))
      | _ \<Rightarrow> Some (False, digest))"
  by (rule digest_of_shape [OF assms])

text \<open>
  Property C29. The rows of the table claim different schemas, each with a whole digest. A schema
  validates under the claimed version, class and type hash exactly as the map of the table
  prescribes: unknown when the claim is in no row or an argument is missing, valid when the
  schema has a shape whose hash is the digest of the row, invalid otherwise.
\<close>

theorem known_profile_exact:
  assumes "length (block uninitialised) = 64"
  shows "typetree_schema_validate_known_profile uninitialised actual version n class_id hash schema =
     Some (case (version, hash, schema) of
        (Some v, Some h, Some s) \<Rightarrow>
          (case known_digest (claimed_key v n class_id h) of
             None \<Rightarrow> TYPETREE_SCHEMA_PROFILE_UNKNOWN
           | Some d \<Rightarrow> if shape_hash s = Some d then TYPETREE_SCHEMA_PROFILE_VALID
               else TYPETREE_SCHEMA_PROFILE_INVALID)
      | _ \<Rightarrow> TYPETREE_SCHEMA_PROFILE_UNKNOWN) \<and>
     distinct (map profile_key k_known_profiles) \<and>
     list_all (\<lambda>p. length (profile_shape_digest p) = 32) k_known_profiles"
proof (intro conjI)
  show "typetree_schema_validate_known_profile uninitialised actual version n class_id hash schema =
     Some (case (version, hash, schema) of
        (Some v, Some h, Some s) \<Rightarrow>
          (case known_digest (claimed_key v n class_id h) of
             None \<Rightarrow> TYPETREE_SCHEMA_PROFILE_UNKNOWN
           | Some d \<Rightarrow> if shape_hash s = Some d then TYPETREE_SCHEMA_PROFILE_VALID
               else TYPETREE_SCHEMA_PROFILE_INVALID)
      | _ \<Rightarrow> TYPETREE_SCHEMA_PROFILE_UNKNOWN)"
  proof (cases "version = None \<or> hash = None \<or> schema = None")
    case True
    then show ?thesis
      by (cases version; cases hash; cases schema) (simp_all add: typetree_schema_validate_known_profile_def)
  next
    case False
    then show ?thesis using validate_by_key [OF assms] by auto
  qed
  show "distinct (map profile_key k_known_profiles)"
    by (simp add: k_known_profiles_def profile_key_def)
  show "list_all (\<lambda>p. length (profile_shape_digest p) = 32) k_known_profiles"
    by (simp add: k_known_profiles_def)
qed

text \<open>
  Property C28. Two schemas with digests have the same shape, the same nodes in the same order with the
  same names, sizes and flags, only if their digests agree, and digests of different shapes agree
  only by a collision of the hash function itself.
\<close>

theorem shape_digest_identifies:
  assumes "length (block uninitialised) = 64" and "schema_regular s" and "schema_regular t"
    and "typetree_schema_shape_digest uninitialised (Some s) (Some old) = Some (True, Some h)"
    and "typetree_schema_shape_digest uninitialised (Some t) (Some old) = Some (True, Some k)"
  shows "\<exists>x y. shape_of s = Some x \<and> shape_of t = Some y \<and> (x = y \<longrightarrow> h = k) \<and>
    (h = k \<longrightarrow> x = y \<or> shape_message x \<noteq> shape_message y \<and>
       sha256_digest (shape_message x) = sha256_digest (shape_message y))"
proof -
  obtain x y where "shape_of s = Some x" "shape_of t = Some y"
    "h = sha256_digest (shape_message x)" "k = sha256_digest (shape_message y)"
    using assms(4,5) unfolding digest_of_shape [OF assms(1)] by (auto split: option.splits)
  with shape_message_inject [OF assms(2,3)] show ?thesis by blast
qed

section \<open>Witnesses\<close>

definition sample_context :: CommonSha256Context where
  "sample_context = \<lparr>state = [], total_size = 9, block = replicate 64 7, block_size = 70\<rparr>"

definition sample_schema :: "u32 \<Rightarrow> u32 \<Rightarrow> TypeTreeType" where
  "sample_schema byte_size offset =
     \<lparr>schema_type_id = 21, schema_is_stripped = False, schema_script_type_index = 0xFFFF,
      schema_script_id_hash = replicate 16 0, schema_type_hash = replicate 16 1, schema_node_count = 1,
      schema_nodes = Some (\<lambda>_.
        \<lparr>node_version = 1, node_level = 0, node_type_flags = 0, node_type_str_offset = offset,
         node_name_str_offset = 0, node_byte_size = byte_size, node_index = 0, node_meta_flags = 0,
         node_ref_type_hash = 0, node_type_str = Some [0x61], node_name_str = Some [0x62]\<rparr>),
      schema_string_buffer = [], schema_dependency_count = 0, schema_dependencies = None,
      schema_is_ref_type = False, schema_ref_class_name = None, schema_ref_namespace = None,
      schema_ref_asm_name = None\<rparr>"

definition sample_shape :: "u32 \<Rightarrow> shape" where
  "sample_shape byte_size =
     Shape 21 False 0xFFFF (replicate 16 0) (replicate 16 1)
       [NodeShape 1 0 0 byte_size 0 0 0 [0x61] [0x62]] [] None"

lemma sample_shape_of: "shape_of (sample_schema byte_size offset) = Some (sample_shape byte_size)"
  by (simp add: shape_of_def sample_schema_def sample_shape_def schema_readable_def schema_node_shapes_def
      node_shape_of_def name_of_def c_content_def reference_names_def)

lemma sample_context_block: "length (block sample_context) = 64"
  by (simp add: sample_context_def)

theorem shape_digest_exact_witness:
  "typetree_schema_shape_digest sample_context (Some (sample_schema 4 0)) (Some []) =
     Some (True, Some (sha256_digest (shape_message (sample_shape 4)))) \<and>
   typetree_schema_shape_digest sample_context (Some (sample_schema 4 77)) (Some []) =
     Some (True, Some (sha256_digest (shape_message (sample_shape 4))))"
  using shape_digest_exact [OF sample_context_block] by (simp add: sample_shape_of)

theorem known_profile_exact_witness:
  "typetree_schema_validate_known_profile sample_context [] (Some (\<lambda>i. [0x32, 0x30] ! i)) 2 21
     (Some (\<lambda>_. 0)) (Some (sample_schema 4 0)) = Some TYPETREE_SCHEMA_PROFILE_UNKNOWN"
  using known_profile_exact [OF sample_context_block, of "[]" "Some (\<lambda>i. [0x32, 0x30] ! i)" 2 21
      "Some (\<lambda>_. 0)" "Some (sample_schema 4 0)"]
  by (simp add: known_digest_def claimed_key_def k_known_profiles_def profile_key_def upt_rec)

theorem shape_digest_identifies_witness:
  "\<exists>h k. typetree_schema_shape_digest sample_context (Some (sample_schema 4 0)) (Some []) = Some (True, Some h) \<and>
     typetree_schema_shape_digest sample_context (Some (sample_schema 8 0)) (Some []) = Some (True, Some k) \<and>
     (h = k \<longrightarrow> shape_message (sample_shape 4) \<noteq> shape_message (sample_shape 8))"
proof -
  have regular: "schema_regular (sample_schema b o')" for b o'
    by (simp add: schema_regular_def sample_schema_def)
  obtain h k where runs:
    "typetree_schema_shape_digest sample_context (Some (sample_schema 4 0)) (Some []) = Some (True, Some h)"
    "typetree_schema_shape_digest sample_context (Some (sample_schema 8 0)) (Some []) = Some (True, Some k)"
    by (simp add: digest_of_shape [OF sample_context_block] sample_shape_of)
  have "sample_shape 4 \<noteq> sample_shape 8" by (simp add: sample_shape_def)
  with shape_digest_identifies [OF sample_context_block regular regular runs] runs show ?thesis
    by (auto simp: sample_shape_of)
qed

end
