(* ===== verification/Spec2Isabelle.thy ===== *)
theory Spec2Isabelle
  imports RelativePath AsciiGlob ByteStream StringBuilder Sha256 Lz4 ReferenceIndexQuery SchemaTree
    BundleViews TreeValueIdentity TreeSchemaProfile
begin

text \<open>
  UnityCommon: portable C11 libraries for reading Unity data. The development models the code
  under \<open>src/src\<close> and \<open>src/include\<close> in two layers.

  \<^bold>\<open>Base\<close> (\<open>src/common\<close>)
  \<^item> \<open>Utf8\<close>: \<open>common/utf8.c\<close>, strict decoding of one scalar and validation of a span. The lemmas
    show that decoding inverts the Unicode encoding and that validation accepts exactly the
    concatenations of encoded scalars.
  \<^item> \<open>RelativePath\<close>: \<open>common/relative_path.c\<close>, the grammar of relative path identities over the
    UTF-8 decoder, the byte order and the descent relation, against lists of components.
  \<^item> \<open>AsciiGlob\<close>: \<open>common/ascii_glob.c\<close>, the row-by-row matcher against a reference semantics of
    patterns, and the pattern grammar.
  \<^item> \<open>Allocation\<close>: the tracked allocator, string comparison and size arithmetic of
    \<open>common/common.h\<close>. The C allocator is the parameter \<open>grants\<close>: which of the numbered requests
    succeed; a block is a list of cells, \<open>None\<close> for a byte that was never written.
  \<^item> \<open>ByteStream\<close> and \<open>StringBuilder\<close>: \<open>common/stream.c\<close> and \<open>common/string_builder.c\<close>, cursor and
    buffer invariants and the abstract text that the builder stores.
  \<^item> \<open>Sha256\<close>: \<open>common/sha256.c\<close> against the padding and block recursion of the standard.

  \<^bold>\<open>Serialized files\<close> (\<open>src/io\<close>)
  \<^item> \<open>Lz4\<close>: \<open>io/lz4_decompress.c\<close> against a grammar of sequences, with writes outside the
    destination as faults.
  \<^item> \<open>FilePrefix\<close>: \<open>io/serialized_file_prefix.c\<close>, the header and the version string.
  \<^item> \<open>Metered\<close> and \<open>MetadataReader\<close>: the bounded cursor of
    \<open>io/serialized_metadata_reader_internal.c\<close>. A reader charges bytes, nodes, strings and work
    against caps. A \<open>grammar\<close> is what it should read: a value and what reading it uses up, with no
    cursor, no caps and no errors. The locale \<open>metered\<close> states the contract between a cursor and
    its caps; \<open>meters\<close> relates a step of the code to a grammar: the step succeeds exactly when the
    grammar accepts and everything that it uses fits the caps.
  \<^item> \<open>Passes\<close>, \<open>TwoPass\<close>: what a pass over a table leaves behind, and the locale \<open>two_pass\<close> of owners
    that count in one pass, allocate once and store in a second. Its lemma \<open>built\<close> gives the exact
    condition of success, the work used and the balance of the allocator; the directory, the
    metadata tail and the reference index are its interpretations.
  \<^item> \<open>FileDirectory\<close>, \<open>FileDirectoryScan\<close>, \<open>FileDirectoryPass\<close>, \<open>FileDirectoryCreate\<close>:
    \<open>io/serialized_file_directory.c\<close>, the types and objects behind the prefix.
  \<^item> \<open>MetadataTail\<close>, \<open>MetadataTailScan\<close>, \<open>MetadataTailCreate\<close>:
    \<open>io/serialized_file_metadata_tail.c\<close>, the scripts, externals, reference types and user
    information behind the directory.
  \<^item> \<open>Outcomes\<close>: a calculus for steps that decide: \<open>decides\<close> says under which condition a step
    succeeds, with which result and state, and that it otherwise refuses.
  \<^item> \<open>ReferenceIndex\<close>, \<open>ReferenceIndexCreate\<close>, \<open>ReferenceIndexQuery\<close>:
    \<open>io/serialized_file_reference_index.c\<close>, the index of the reference types of an open tail.
    Creation is the third interpretation of \<open>two_pass\<close>; a composition theorem says when a tail that
    its own constructor published can be indexed, and a query is shown to report exactly the
    reference types whose class, namespace and assembly names are the key, within the caps it is
    given.
  \<^item> \<open>FileSchema\<close>: \<open>io/serialized_file_schema.c\<close>, the schema compiled from the embedded type tree
    of one ordinary or reference type, parents being a directory or a tail. \<open>SchemaCompile\<close> is the
    source's state with the locals of its loops behind it.
  \<^item> \<open>Spending\<close>, \<open>SchemaWork\<close>: the locale \<open>spending\<close> of steps that charge work in advance; \<open>costs\<close>
    says under which condition a step succeeds, at exactly which cost and with which state, and
    that any refusal stays inside the budget. \<open>SchemaWork\<close> interprets it for the compiler.
  \<^item> \<open>Hierarchy\<close>: the tree that a list of preorder levels stands for, with no arrays and no cursor:
    parents, first children, next siblings, child counts and ends of subtrees.
  \<^item> \<open>SchemaNodes\<close>, \<open>SchemaRows\<close>: the ancestor and last-child arrays hold what \<open>Hierarchy\<close> defines, so
    compiling the rows links every node as it says, 34 units of work a node.
  \<^item> \<open>SchemaRadix\<close>, \<open>SchemaNames\<close>: four stable passes sort the names by offset (2048 + 16N units),
    and one scan of each string table resolves all of them (one unit a byte and 2N requests).
  \<^item> \<open>SchemaBody\<close>, \<open>SchemaAdmission\<close>, \<open>SchemaCreate\<close>, \<open>SchemaTree\<close>: the whole creation is decided by
    conditions on the parent, the bytes, the caps and the allocator, and costs
    R + T + 52N + S + C + 2051 units for R retained and T scratch bytes, N nodes, S local and C
    common string bytes; what it publishes is a well-formed tree with whole strings as names. The
    address and size of the common string table are parameters, so this holds of every table.

  \<^bold>\<open>Bundles\<close> (\<open>src/io/bundle_archive.c\<close>)
  \<^item> \<open>BundleArchive\<close>: the model of the file: \<open>bundle_open\<close> over the byte stream, the tracked allocator
    and the LZ4 decoder, \<open>bundle_close\<close>, the views of the members and their kinds. The archive is
    the record of the source; \<open>bundle_opening\<close> is the state while a bundle is opened.
  \<^item> \<open>BundleFormat\<close>: the UnityFS format on its own, as a layout (\<open>unityfs_file\<close>: header, padding,
    info chunk, data chunks) and as a parser of lists (\<open>unityfs_parse\<close>), with the proof that they
    agree and that the decompression of a chunk decides \<open>decodes\<close>.
  \<^item> \<open>BundleSteps\<close>, \<open>BundleTables\<close>, \<open>BundlePayload\<close>, \<open>BundleOpen\<close>: the opening decides the format.
    Every routine is decided by a condition on bytes and allocation requests, and every refusal
    leaves a sound state: no overrun, and counters that owe exactly what the archive holds. The
    theorems say when a bundle opens, as what, and that opening and closing balance.
  \<^item> \<open>BundleViews\<close>: the views by name and by index of an opened bundle, and the member kinds.

  \<^bold>\<open>Digests\<close> (\<open>src/io/typetree_value_digest.c\<close>, \<open>src/io/typetree_schema_profile.c\<close>)
  \<^item> \<open>DigestSteps\<close>: the locale \<open>digesting\<close>, a state that is fed bytes under a budget of nodes, and
    the judgement \<open>hashes\<close>: which bytes a routine feeds, how many nodes it spends and when it
    refuses. Both digests interpret it on their own states over the SHA-256 context.
  \<^item> \<open>TreeValueDigest\<close>, \<open>TreeValueHash\<close>, \<open>TreeValueIdentity\<close>: the digest of a decoded value. Values
    lie in a store and may be shared or cyclic; \<open>identity_at\<close> unfolds a value to a finite identity
    of at most 256 levels, so a cycle has none. The digest is the hash of the identity's encoding,
    the encoding determines the identity, and repacking byte arrays changes neither.
  \<^item> \<open>TreeSchemaDigest\<close>, \<open>TreeSchemaProfile\<close>: the digest of a schema is the hash of its shape, which
    leaves out the string table and its offsets, and the known profiles are a map from claimed
    identities to digests.

  \<^bold>\<open>Conventions.\<close> A C struct is a record with the fields of the source, an enum a datatype with its
  constructors; \<open>uint32_t\<close>, \<open>uint64_t\<close> and \<open>size_t\<close> are words of 32, 64 and 64 bits (LP64), whose
  arithmetic wraps. Pointers to data are 64-bit addresses into a memory of bytes that calls do
  not change; a handle to an owner is the value that it holds. A function that returns a flag
  and changes a state is a \<open>step\<close>: a function from the state to an optional value and the new
  state. Loops recur on the bytes that are left or on the rows that are left, so no fuel is
  needed; the one loop that may run forever, \<open>grow_capacity\<close> of the string builder, is a partial
  function and \<open>grow_capacity_terminates\<close> says when it returns.

  \<^bold>\<open>Not modelled.\<close> Everything whose substance is an operating-system call: \<open>file_io.c\<close>,
  \<open>output_publish.c\<close>, \<open>process.c\<close>, \<open>executable_resource.c\<close>, \<open>windows_utf8.c\<close> and the walk of
  \<open>path_discovery.c\<close>; the bundled LZMA decoder, which is third-party code; log messages; the
  addresses at which arrays lie inside an owner's block, beyond the layout's offsets. The
  parsers above the schema (the schema context, type trees with their common string table, the
  registry, values, reference resolution) are the next stages;
  of the type trees only the records and the two digests over them are modelled.
\<close>

end
